(* ===== verification/Prelude.thy ===== *)
theory Prelude
  imports Complex_Main "HOL-Library.AList" "HOL-Library.List_Lexorder" "HOL-Library.Char_ord"
begin

text \<open>
  What the components share: Python dicts as association lists in insertion order, the
  string operations the engine uses, lists of operations run on a state, and the
  interfaces (locales) that the components interpret: a system whose operations keep an
  invariant, one whose operations never decrease a measure, and one that refines an
  abstract system.

  Conventions. A Python \<open>str\<close> is its UTF-8 encoding as a \<^typ>\<open>string\<close>: equality,
  concatenation, prefixes, splitting at a substring and the order of strings agree with
  Python's. A \<open>datetime\<close> is a number of microseconds, a \<open>float\<close> an exact rational
  (rounding is not modelled). The current time is an argument of the operation that reads
  the clock.
\<close>

named_theorems dict_simps \<open>lookup, update and delete on dicts\<close>
named_theorems wf_intros \<open>preservation of well-formed dicts\<close>

type_synonym datetime = int
type_synonym seconds = rat

subsection \<open>Python dicts in insertion order\<close>

type_synonym ('k, 'v) dict = "('k \<times> 'v) list"

abbreviation dict_get :: "('k, 'v) dict \<Rightarrow> 'k \<Rightarrow> 'v option" where
  "dict_get \<equiv> map_of"

abbreviation dict_set :: "'k \<Rightarrow> 'v \<Rightarrow> ('k, 'v) dict \<Rightarrow> ('k, 'v) dict" where
  "dict_set \<equiv> AList.update"

abbreviation dict_del :: "'k \<Rightarrow> ('k, 'v) dict \<Rightarrow> ('k, 'v) dict" where
  "dict_del \<equiv> AList.delete"

definition dict_has :: "('k, 'v) dict \<Rightarrow> 'k \<Rightarrow> bool" where
  "dict_has d k \<longleftrightarrow> map_of d k \<noteq> None"

definition dict_get_default :: "('k, 'v) dict \<Rightarrow> 'k \<Rightarrow> 'v \<Rightarrow> 'v" where
  "dict_get_default d k v = (case map_of d k of None \<Rightarrow> v | Some w \<Rightarrow> w)"

abbreviation dict_keys :: "('k, 'v) dict \<Rightarrow> 'k list" where
  "dict_keys d \<equiv> map fst d"

abbreviation dict_values :: "('k, 'v) dict \<Rightarrow> 'v list" where
  "dict_values d \<equiv> map snd d"

definition dict_wf :: "('k, 'v) dict \<Rightarrow> bool" where
  "dict_wf d \<longleftrightarrow> distinct (map fst d)"

lemma dict_get_set [dict_simps, simp]:
  "map_of (AList.update k v d) j = (if j = k then Some v else map_of d j)"
  by (simp add: update_conv')

lemma dict_get_del [dict_simps, simp]:
  "map_of (AList.delete k d) j = (if j = k then None else map_of d j)"
  by (simp add: delete_conv')

lemma dict_wf_Nil [wf_intros, simp]: "dict_wf []"
  by (simp add: dict_wf_def)

lemma dict_wf_set [wf_intros, simp]: "dict_wf d \<Longrightarrow> dict_wf (AList.update k v d)"
  by (simp add: dict_wf_def distinct_update)

lemma dict_wf_del [wf_intros, simp]: "dict_wf d \<Longrightarrow> dict_wf (AList.delete k d)"
  by (simp add: dict_wf_def distinct_delete)

lemma dict_wf_filter [wf_intros, simp]: "dict_wf d \<Longrightarrow> dict_wf (filter P d)"
  by (simp add: dict_wf_def distinct_map_filter)

lemma dict_wf_map_values [wf_intros]:
  "dict_wf (map (\<lambda>(k, v). (k, f k v)) d) \<longleftrightarrow> dict_wf d"
  by (simp add: dict_wf_def case_prod_unfold comp_def)

lemma dict_has_set [dict_simps, simp]: "dict_has (AList.update k v d) j \<longleftrightarrow> j = k \<or> dict_has d j"
  by (simp add: dict_has_def)

lemma dict_has_del [dict_simps, simp]: "dict_has (AList.delete k d) j \<longleftrightarrow> j \<noteq> k \<and> dict_has d j"
  by (simp add: dict_has_def)

lemma dict_has_iff: "dict_has d k \<longleftrightarrow> k \<in> set (map fst d)"
  by (simp add: dict_has_def map_of_eq_None_iff)

lemma dict_get_iff: "dict_wf d \<Longrightarrow> map_of d k = Some v \<longleftrightarrow> (k, v) \<in> set d"
  by (simp add: dict_wf_def)

lemma length_dict_set: "length (AList.update k v d) = (if dict_has d k then length d else Suc (length d))"
  by (induction d) (auto simp: dict_has_def)

lemma length_dict_del:
  "dict_wf d \<Longrightarrow> length (AList.delete k d) = (if dict_has d k then length d - 1 else length d)"
proof (induction d)
  case (Cons p d)
  then show ?case
    by (cases "fst p = k"; cases d)
       (auto simp: dict_wf_def dict_has_iff AList.delete_eq intro: filter_True split: if_splits)
qed simp

lemma set_dict_set: "dict_wf d \<Longrightarrow> set (AList.update k v d) = insert (k, v) {p \<in> set d. fst p \<noteq> k}"
  by (induction d) (force simp: dict_wf_def)+

lemma set_dict_del: "set (AList.delete k d) = {p \<in> set d. fst p \<noteq> k}"
  by (auto simp: AList.delete_eq)

lemma dict_set_append: "\<not> dict_has d k \<Longrightarrow> AList.update k v d = d @ [(k, v)]"
  by (induction d) (auto simp: dict_has_def split: if_splits)

text \<open>\<open>d.setdefault(k, []).append(x)\<close>\<close>

definition dict_append :: "'k \<Rightarrow> 'v \<Rightarrow> ('k, 'v list) dict \<Rightarrow> ('k, 'v list) dict" where
  "dict_append k x d = AList.map_default k [x] (\<lambda>l. l @ [x]) d"

lemma dict_get_append [dict_simps]:
  "map_of (dict_append k x d) j =
     (if j = k then Some (dict_get_default d k [] @ [x]) else map_of d j)"
  by (auto simp: dict_append_def map_of_map_default dict_get_default_def split: option.splits)

lemma dict_wf_append [wf_intros]: "dict_wf d \<Longrightarrow> dict_wf (dict_append k x d)"
  by (simp add: dict_wf_def dict_append_def distinct_map_default)

lemma dict_keys_append: "set (map fst (dict_append k x d)) = insert k (set (map fst d))"
  by (simp add: dict_append_def dom_map_default)

text \<open>A loop over distinct keys whose body changes only its own key.\<close>

lemma fold_pointwise:
  assumes "\<And>k s j. j \<noteq> k \<Longrightarrow> get (f k s) j = get s j" and "\<And>k s. P s \<Longrightarrow> get (f k s) k = g (get s k)"
    and "\<And>k s. P s \<Longrightarrow> P (f k s)" and "distinct ks" and "P s"
  shows "get (fold f ks s) j = (if j \<in> set ks then g (get s j) else get s j)"
  using assms(4,5)
proof (induction ks arbitrary: s)
  case (Cons k ks)
  then show ?case by (cases "j = k") (simp_all add: assms(1-3))
qed simp

subsection \<open>Python list indexing\<close>

text \<open>
  \<open>xs[i]\<close>, where \<^const>\<open>None\<close> is the \<open>IndexError\<close>, \<open>xs[:i]\<close> and
  \<open>xs[i:]\<close>; all count from the end
  for a negative index.
\<close>

definition py_get :: "'a list \<Rightarrow> int \<Rightarrow> 'a option" where
  "py_get xs i =
     (let j = (if i < 0 then i + int (length xs) else i)
      in if 0 \<le> j \<and> j < int (length xs) then Some (xs ! nat j) else None)"

definition py_take :: "int \<Rightarrow> 'a list \<Rightarrow> 'a list" where
  "py_take i xs = take (nat (if i < 0 then i + int (length xs) else i)) xs"

definition py_drop :: "int \<Rightarrow> 'a list \<Rightarrow> 'a list" where
  "py_drop i xs = drop (nat (if i < 0 then i + int (length xs) else i)) xs"

lemma py_get_nat [simp]: "py_get xs (int n) = (if n < length xs then Some (xs ! n) else None)"
  by (simp add: py_get_def)

lemma py_get_in: "0 \<le> i \<Longrightarrow> i < int (length xs) \<Longrightarrow> py_get xs i = Some (xs ! nat i)"
  by (simp add: py_get_def)

lemma py_get_beyond: "int (length xs) \<le> i \<Longrightarrow> py_get xs i = None"
  by (simp add: py_get_def)

lemma py_take_nat [simp]: "py_take (int n) xs = take n xs"
  by (simp add: py_take_def)

end
