(* ===== verification/Systems.thy ===== *)
theory Systems
  imports Prelude
begin

text \<open>
  The interfaces the components share. A component is a state and a family of operations,
  \<open>step op s\<close>; a client runs a list of operations (\<^term>\<open>fold\<close>). The locales state what
  a component promises of its operations and derive what a client may rely on after any
  run; every component interprets the ones whose laws its operations satisfy.
\<close>

subsection \<open>Operations that keep an invariant\<close>

text \<open>
  In a guarded system the client may only call operations that satisfy \<open>ok\<close>; in an
  invariant system it may call any.
\<close>

locale guarded_system =
  fixes step :: "'op \<Rightarrow> 's \<Rightarrow> 's"
    and ok :: "'op \<Rightarrow> bool"
    and inv :: "'s \<Rightarrow> bool"
  assumes guarded_step: "inv s \<Longrightarrow> ok op \<Longrightarrow> inv (step op s)"
begin

lemma guarded_run: "inv s \<Longrightarrow> list_all ok ops \<Longrightarrow> inv (fold step ops s)"
  by (induction ops arbitrary: s) (auto intro: guarded_step)

end

locale invariant_system =
  fixes step :: "'op \<Rightarrow> 's \<Rightarrow> 's"
    and inv :: "'s \<Rightarrow> bool"
  assumes inv_step: "inv s \<Longrightarrow> inv (step op s)"

sublocale invariant_system \<subseteq> guarded_system step "\<lambda>_. True" inv
  by unfold_locales (rule inv_step)

context invariant_system
begin

lemma inv_run: "inv s \<Longrightarrow> inv (fold step ops s)"
  by (rule guarded_run) (simp_all add: list_all_iff)

end

subsection \<open>Operations that never decrease a measure\<close>

locale monotone_system = invariant_system step inv
  for step :: "'op \<Rightarrow> 's \<Rightarrow> 's" and inv :: "'s \<Rightarrow> bool" +
  fixes level :: "'s \<Rightarrow> 'm :: preorder"
  assumes level_step: "inv s \<Longrightarrow> level s \<le> level (step op s)"
begin

lemma level_run: "inv s \<Longrightarrow> level s \<le> level (fold step ops s)"
proof (induction ops arbitrary: s)
  case (Cons op ops)
  then have "level (step op s) \<le> level (fold step ops (step op s))"
    by (auto intro: inv_step)
  with Cons.prems show ?case
    by (auto intro: order_trans level_step)
qed simp

lemma level_run_append: "inv s \<Longrightarrow> level (fold step xs s) \<le> level (fold step (xs @ ys) s)"
  by (auto intro: level_run inv_run)

end

subsection \<open>Operations that implement an abstract system\<close>

locale refinement_system = invariant_system step inv
  for step :: "'op \<Rightarrow> 's \<Rightarrow> 's" and inv :: "'s \<Rightarrow> bool" +
  fixes abst :: "'s \<Rightarrow> 'a"
    and astep :: "'op \<Rightarrow> 'a \<Rightarrow> 'a"
  assumes abst_step: "inv s \<Longrightarrow> abst (step op s) = astep op (abst s)"
begin

lemma abst_run: "inv s \<Longrightarrow> abst (fold step ops s) = fold astep ops (abst s)"
proof (induction ops arbitrary: s)
  case (Cons op ops)
  have "abst (fold step ops (step op s)) = fold astep ops (abst (step op s))"
    by (rule Cons.IH) (rule inv_step [OF Cons.prems])
  with Cons.prems show ?case by (simp add: abst_step)
qed simp

end

subsection \<open>Finite graphs given by a successor function\<close>

text \<open>
  The state machine, the CRDT merge and the plugin registry each search a graph stored as
  a dict from a node to its successors. What they share is the reachability relation and
  that a node without an entry has no successors.
\<close>

definition edges :: "('a \<Rightarrow> 'a list) \<Rightarrow> ('a \<times> 'a) set" where
  "edges succs = {(x, y). y \<in> set (succs x)}"

lemma edges_iff [simp]: "(x, y) \<in> edges succs \<longleftrightarrow> y \<in> set (succs x)"
  by (simp add: edges_def)

lemma reach_step: "(x, y) \<in> (edges succs)\<^sup>* \<Longrightarrow> z \<in> set (succs y) \<Longrightarrow> (x, z) \<in> (edges succs)\<^sup>*"
  by (rule rtrancl.rtrancl_into_rtrancl) simp_all

lemma step_reach: "y \<in> set (succs x) \<Longrightarrow> (y, z) \<in> (edges succs)\<^sup>* \<Longrightarrow> (x, z) \<in> (edges succs)\<^sup>*"
  by (rule converse_rtrancl_into_rtrancl) simp_all

locale finite_graph =
  fixes succs :: "'a \<Rightarrow> 'a list"
    and nodes :: "'a set"
  assumes finite_nodes: "finite nodes"
    and succs_outside: "x \<notin> nodes \<Longrightarrow> succs x = []"
begin

lemma card_mono_visited: "vis \<subseteq> vis' \<Longrightarrow> card (nodes - vis') \<le> card (nodes - vis)"
  by (rule card_mono) (auto simp: finite_nodes)

lemma card_visit: "x \<in> nodes \<Longrightarrow> x \<notin> vis \<Longrightarrow> card (nodes - insert x vis) < card (nodes - vis)"
  by (rule psubset_card_mono) (auto simp: finite_nodes)

lemma visit_cases:
  "x \<notin> vis \<Longrightarrow> card (nodes - insert x vis) < card (nodes - vis) \<or>
     (card (nodes - insert x vis) = card (nodes - vis) \<and> succs x = [])"
proof (cases "x \<in> nodes")
  case True
  then show "x \<notin> vis \<Longrightarrow> ?thesis" by (intro disjI1 card_visit)
qed (simp add: succs_outside)

lemma closed_reach:
  assumes closed: "\<forall>x\<in>S. set (succs x) \<subseteq> S" and "a \<in> S" and "(a, b) \<in> (edges succs)\<^sup>*"
  shows "b \<in> S"
  using assms(3,2) by (induction rule: rtrancl_induct) (use closed in auto)

end

subsection \<open>Errors as sums\<close>

definition try_bind :: "'e + 'a \<Rightarrow> ('a \<Rightarrow> 'e + 'b) \<Rightarrow> 'e + 'b" where
  "try_bind x f = (case x of Inl e \<Rightarrow> Inl e | Inr a \<Rightarrow> f a)"

lemma try_bind_simps [simp]: "try_bind (Inl e) f = Inl e" "try_bind (Inr a) f = f a"
  by (simp_all add: try_bind_def)

lemma try_bind_Inr: "try_bind x f = Inr b \<longleftrightarrow> (\<exists>a. x = Inr a \<and> f a = Inr b)"
  by (cases x) auto

fun try_map :: "('a \<Rightarrow> 'e + 'b) \<Rightarrow> 'a list \<Rightarrow> 'e + 'b list" where
  "try_map f [] = Inr []"
| "try_map f (x # xs) = try_bind (f x) (\<lambda>y. try_bind (try_map f xs) (\<lambda>ys. Inr (y # ys)))"

lemma try_map_Inr: "try_map f xs = Inr ys \<Longrightarrow> list_all2 (\<lambda>x y. f x = Inr y) xs ys"
  by (induction xs arbitrary: ys) (auto simp: try_bind_Inr)

subsection \<open>Remembered answers\<close>

text \<open>
  A component that remembers answers: \<open>look r s\<close> is the remembered answer to a request, if there
  is one, \<open>keep r v s\<close> remembers one; requests with the same \<open>key\<close> have the same answer.
  \<open>coherent f s\<close>: what is remembered agrees with the answers \<open>f\<close>. Then it makes no difference to a
  client whether an answer was remembered.
\<close>

definition memo_call ::
    "('r \<Rightarrow> 's \<Rightarrow> 's \<times> 'v option) \<Rightarrow> ('r \<Rightarrow> 'v \<Rightarrow> 's \<Rightarrow> 's) \<Rightarrow> ('r \<Rightarrow> 'v option) \<Rightarrow> 'r \<Rightarrow> 's \<Rightarrow> 's \<times> 'v option" where
  "memo_call look keep f r s =
     (case look r s of
        (s, Some v) \<Rightarrow> (s, Some v)
      | (s, None) \<Rightarrow> (case f r of None \<Rightarrow> (s, None) | Some v \<Rightarrow> (keep r v s, Some v)))"

fun memo_calls ::
    "('r \<Rightarrow> 's \<Rightarrow> 's \<times> 'v option) \<Rightarrow> ('r \<Rightarrow> 'v \<Rightarrow> 's \<Rightarrow> 's) \<Rightarrow> ('r \<Rightarrow> 'v option) \<Rightarrow> 'r list \<Rightarrow> 's \<Rightarrow> 's \<times> 'v option list" where
  "memo_calls look keep f [] s = (s, [])"
| "memo_calls look keep f (r # rs) s =
     (case memo_call look keep f r s of (s, v) \<Rightarrow>
        (case memo_calls look keep f rs s of (s, vs) \<Rightarrow> (s, v # vs)))"

locale answer_memo =
  fixes look :: "'r \<Rightarrow> 's \<Rightarrow> 's \<times> 'v option"
    and keep :: "'r \<Rightarrow> 'v \<Rightarrow> 's \<Rightarrow> 's"
    and key :: "'r \<Rightarrow> 'k"
    and fit :: "'v \<Rightarrow> bool"
    and coherent :: "('k \<Rightarrow> 'v option) \<Rightarrow> 's \<Rightarrow> bool"
  assumes look_coherent: "coherent f s \<Longrightarrow> look r s = (s', x) \<Longrightarrow> coherent f s'"
    and look_answer: "coherent f s \<Longrightarrow> look r s = (s', Some v) \<Longrightarrow> f (key r) = Some v"
    and keep_coherent: "coherent f s \<Longrightarrow> f (key r) = Some v \<Longrightarrow> fit v \<Longrightarrow> coherent f (keep r v s)"
begin

lemma memo_call_answer:
  assumes "coherent f s" and "pred_option fit (f (key r))"
  shows "coherent f (fst (memo_call look keep (\<lambda>r. f (key r)) r s)) \<and>
    snd (memo_call look keep (\<lambda>r. f (key r)) r s) = f (key r)"
proof (cases "look r s")
  case (Pair s' x)
  have "coherent f s'"
    by (rule look_coherent [OF assms(1) Pair])
  with Pair look_answer [OF assms(1), of r s'] assms(2) show ?thesis
    by (auto simp: memo_call_def intro: keep_coherent split: option.splits)
qed

lemma memo_calls_answer:
  assumes "coherent f s" and "list_all (\<lambda>r. pred_option fit (f (key r))) rs"
  shows "snd (memo_calls look keep (\<lambda>r. f (key r)) rs s) = map (\<lambda>r. f (key r)) rs"
  using assms
proof (induction rs arbitrary: s)
  case (Cons r rs)
  obtain s' v where c: "memo_call look keep (\<lambda>r. f (key r)) r s = (s', v)"
    by fastforce
  have "coherent f s' \<and> v = f (key r)"
    using memo_call_answer [OF Cons.prems(1), of r] Cons.prems(2) by (auto simp: c)
  with Cons.IH [of s'] Cons.prems(2) show ?case by (simp add: c case_prod_beta)
qed simp

end

subsection \<open>Operations that act at most once in a window of time\<close>

text \<open>
  A system whose operations emit events with a time and a key, and which remembers the time of
  the last event of each key: if an event is emitted only when the last one of its key is at
  least \<open>window\<close> ago, then all events of a key in a run are that far apart.
\<close>

fun run_events :: "('op \<Rightarrow> 's \<Rightarrow> 's \<times> 'e list) \<Rightarrow> 'op list \<Rightarrow> 's \<Rightarrow> 's \<times> 'e list" where
  "run_events step [] s = (s, [])"
| "run_events step (x # xs) s =
     (case step x s of (s, es) \<Rightarrow> (case run_events step xs s of (s, fs) \<Rightarrow> (s, es @ fs)))"

definition times_of :: "'k \<Rightarrow> (datetime \<times> 'k) list \<Rightarrow> datetime list" where
  "times_of k es = map fst (filter (\<lambda>e. snd e = k) es)"

lemma times_simps [simp]:
  "times_of k [] = []" "times_of k ((t, j) # es) = (if j = k then t # times_of k es else times_of k es)"
  "times_of k (es @ fs) = times_of k es @ times_of k fs"
  by (simp_all add: times_of_def)

locale throttled =
  fixes step :: "'op \<Rightarrow> 's \<Rightarrow> 's \<times> (datetime \<times> 'k) list"
    and last_time :: "'s \<Rightarrow> 'k \<Rightarrow> datetime option"
    and window :: int
    and inv :: "'s \<Rightarrow> bool"
  assumes keeps_inv: "inv s \<Longrightarrow> step op s = (s', es) \<Longrightarrow> inv s'"
    and emits_once: "inv s \<Longrightarrow> step op s = (s', es) \<Longrightarrow> length (times_of k es) \<le> 1"
    and emits_late: "inv s \<Longrightarrow> step op s = (s', es) \<Longrightarrow> t \<in> set (times_of k es) \<Longrightarrow> last_time s k = Some u \<Longrightarrow> u + window \<le> t"
    and marks: "inv s \<Longrightarrow> step op s = (s', es) \<Longrightarrow> t \<in> set (times_of k es) \<Longrightarrow> last_time s' k = Some t"
    and keeps: "inv s \<Longrightarrow> step op s = (s', es) \<Longrightarrow> times_of k es = [] \<Longrightarrow> last_time s' k = last_time s k"
begin

lemma events_apart:
  assumes "inv s"
  shows "successively (\<lambda>a b. a + window \<le> b)
    ((case last_time s k of None \<Rightarrow> [] | Some u \<Rightarrow> [u]) @ times_of k (snd (run_events step ops s)))"
  using assms
proof (induction ops arbitrary: s)
  case Nil
  then show ?case by (simp add: times_of_def split: option.splits)
next
  case (Cons x xs)
  obtain s' es where st: "step x s = (s', es)"
    by fastforce
  let ?rest = "times_of k (snd (run_events step xs s'))"
  have ev: "times_of k (snd (run_events step (x # xs) s)) = times_of k es @ ?rest"
    by (simp add: st times_of_def split: prod.splits)
  have IH: "successively (\<lambda>a b. a + window \<le> b) ((case last_time s' k of None \<Rightarrow> [] | Some u \<Rightarrow> [u]) @ ?rest)"
    by (rule Cons.IH) (rule keeps_inv [OF Cons.prems st])
  show ?case
  proof (cases "times_of k es")
    case Nil
    with IH keeps [OF Cons.prems st Nil] show ?thesis
      unfolding ev by simp
  next
    case (Cons t ts)
    then have es: "times_of k es = [t]"
      using emits_once [OF Cons.prems st, of k] by (cases ts) simp_all
    then have last: "last_time s' k = Some t"
      by (intro marks [OF Cons.prems st]) simp
    have late: "u + window \<le> t" if "last_time s k = Some u" for u
      using emits_late [OF Cons.prems st _ that] es by simp
    show ?thesis
      using IH late unfolding ev es last by (cases "last_time s k") auto
  qed
qed

end

end
