(* ===== verification/PyString.thy ===== *)
theory PyString
  imports Prelude
begin

text \<open>
  The \<open>str\<close> operations of the engine: \<open>startswith\<close>, \<open>endswith\<close>, \<open>in\<close>, \<open>partition\<close>,
  \<open>split\<close>, \<open>strip\<close>, \<open>lower\<close>, \<open>int(...)\<close>, on UTF-8 encoded strings. White space and letter
  case are those of Unicode; the digits of \<open>int(...)\<close> are the ASCII ones.
\<close>

definition starts_with :: "string \<Rightarrow> string \<Rightarrow> bool" where
  "starts_with s p \<longleftrightarrow> take (length p) s = p"

definition ends_with :: "string \<Rightarrow> string \<Rightarrow> bool" where
  "ends_with s p \<longleftrightarrow> length p \<le> length s \<and> drop (length s - length p) s = p"

text \<open>\<open>s.split(sep, 1)\<close> at the first occurrence of \<open>sep\<close>, if there is one.\<close>

fun split_first :: "string \<Rightarrow> string \<Rightarrow> (string \<times> string) option" where
  "split_first sep s =
     (if starts_with s sep then Some ([], drop (length sep) s)
      else case s of
        [] \<Rightarrow> None
      | c # cs \<Rightarrow> map_option (\<lambda>(a, b). (c # a, b)) (split_first sep cs))"

declare split_first.simps [simp del]

definition py_in :: "string \<Rightarrow> string \<Rightarrow> bool" where
  "py_in sep s \<longleftrightarrow> split_first sep s \<noteq> None"

lemma split_first_Some: "split_first sep s = Some (a, b) \<Longrightarrow> s = a @ sep @ b"
proof (induction sep s arbitrary: a b rule: split_first.induct)
  case (1 sep s)
  show ?case
  proof (cases "starts_with s sep")
    case True
    with "1.prems" have "a = []" "b = drop (length sep) s" and t: "take (length sep) s = sep"
      by (auto simp: split_first.simps [of sep s] starts_with_def)
    then show ?thesis
      by (metis append_Nil append_take_drop_id)
  next
    case False
    with "1.prems" obtain c cs a' where s: "s = c # cs" "a = c # a'" "split_first sep cs = Some (a', b)"
      by (auto simp: split_first.simps [of sep s] split: list.splits)
    with "1.IH" [OF False] show ?thesis by simp
  qed
qed

lemma split_first_exists: "\<exists>x y. split_first sep (a @ sep @ b) = Some (x, y)"
proof (induction a)
  case Nil
  then show ?case by (auto simp: split_first.simps [of sep] starts_with_def)
next
  case (Cons c a)
  then show ?case
    by (cases "starts_with (c # a @ sep @ b) sep") (auto simp: split_first.simps [of sep "c # _"])
qed

lemma py_in_iff: "py_in sep s \<longleftrightarrow> (\<exists>a b. s = a @ sep @ b)"
  using split_first_Some split_first_exists unfolding py_in_def
  by (metis not_None_eq surj_pair)

lemma split_first_shorter: "split_first sep s = Some (a, b) \<Longrightarrow> sep \<noteq> [] \<Longrightarrow> length b < length s"
  by (drule split_first_Some) auto

text \<open>\<open>s.split(sep)\<close> at every occurrence.\<close>

function split_all :: "string \<Rightarrow> string \<Rightarrow> string list" where
  "split_all sep s =
     (if sep = [] then [s]
      else case split_first sep s of None \<Rightarrow> [s] | Some (a, b) \<Rightarrow> a # split_all sep b)"
  by pat_completeness auto
termination
  by (relation "measure (\<lambda>(sep, s). length s)") (auto dest: split_first_shorter)

declare split_all.simps [simp del]

definition is_space :: "char \<Rightarrow> bool" where
  "is_space c \<longleftrightarrow> (let n = (of_char c :: nat) in (9 \<le> n \<and> n \<le> 13) \<or> (28 \<le> n \<and> n \<le> 32))"

definition is_continuation :: "char \<Rightarrow> bool" where
  "is_continuation c \<longleftrightarrow> 128 \<le> (of_char c :: nat) \<and> (of_char c :: nat) < 192"

definition is_ascii :: "char \<Rightarrow> bool" where
  "is_ascii c \<longleftrightarrow> (of_char c :: nat) < 128"

text \<open>
  The code points of a string, each as its UTF-8 bytes: a byte from 0xC0 on takes the
  continuation bytes after it, every other byte stands for itself.
\<close>

function code_points :: "string \<Rightarrow> string list" where
  "code_points [] = []"
| "code_points (c # s) =
     (if (of_char c :: nat) < 192 then [c] # code_points s
      else (c # takeWhile is_continuation s) # code_points (dropWhile is_continuation s))"
  by pat_completeness auto
termination
  by (relation "measure length") (auto simp: less_Suc_eq_le length_dropWhile_le)

text \<open>
  The white space of \<open>str.strip\<close>, \<open>str.split()\<close> and \<open>\s\<close>: the ASCII characters above and
  U+0085, U+00A0, U+1680, U+2000 to U+200A, U+2028, U+2029, U+202F, U+205F and U+3000.
\<close>

definition wide_spaces :: "string list" where
  "wide_spaces =
   [[CHR 0xC2, CHR 0x85], [CHR 0xC2, CHR 0xA0], [CHR 0xE1, CHR 0x9A, CHR 0x80],
    [CHR 0xE2, CHR 0x80, CHR 0x80], [CHR 0xE2, CHR 0x80, CHR 0x81], [CHR 0xE2, CHR 0x80, CHR 0x82],
    [CHR 0xE2, CHR 0x80, CHR 0x83], [CHR 0xE2, CHR 0x80, CHR 0x84], [CHR 0xE2, CHR 0x80, CHR 0x85],
    [CHR 0xE2, CHR 0x80, CHR 0x86], [CHR 0xE2, CHR 0x80, CHR 0x87], [CHR 0xE2, CHR 0x80, CHR 0x88],
    [CHR 0xE2, CHR 0x80, CHR 0x89], [CHR 0xE2, CHR 0x80, CHR 0x8A], [CHR 0xE2, CHR 0x80, CHR 0xA8],
    [CHR 0xE2, CHR 0x80, CHR 0xA9], [CHR 0xE2, CHR 0x80, CHR 0xAF], [CHR 0xE2, CHR 0x81, CHR 0x9F],
    [CHR 0xE3, CHR 0x80, CHR 0x80]]"

definition space_point :: "string \<Rightarrow> bool" where
  "space_point p = (case p of [] \<Rightarrow> False | c # q \<Rightarrow> if is_ascii c then is_space c else List.member wide_spaces p)"

definition strip :: "string \<Rightarrow> string" where
  "strip s = concat (rev (dropWhile space_point (rev (dropWhile space_point (code_points s)))))"

text \<open>Every space as a blank, for the scans that ask only whether a code point is a space.\<close>

definition plain_spaces :: "string \<Rightarrow> string" where
  "plain_spaces s = concat (map (\<lambda>p. if space_point p then '' '' else p) (code_points s))"

text \<open>
  \<open>str.lower\<close>: the simple mappings of Unicode 14, given as the first and last code point of a range,
  the step in it and the offset to the lower case. U+0130 becomes an i with a dot above, two code
  points. The final form that \<open>lower\<close> gives a sigma at the end of a word is not modelled.
\<close>

definition lower_ranges :: "(int \<times> int \<times> int \<times> int) list" where
  "lower_ranges =
   [(192, 214, 1, 32), (216, 222, 1, 32), (256, 302, 2, 1), (306, 310, 2, 1), (313, 327, 2, 1),
    (330, 374, 2, 1), (376, 376, 1, - 121), (377, 381, 2, 1), (385, 385, 1, 210), (386, 388, 2, 1),
    (390, 390, 1, 206), (391, 391, 1, 1), (393, 394, 1, 205), (395, 395, 1, 1), (398, 398, 1, 79),
    (399, 399, 1, 202), (400, 400, 1, 203), (401, 401, 1, 1), (403, 403, 1, 205), (404, 404, 1, 207),
    (406, 406, 1, 211), (407, 407, 1, 209), (408, 408, 1, 1), (412, 412, 1, 211), (413, 413, 1, 213),
    (415, 415, 1, 214), (416, 420, 2, 1), (422, 422, 1, 218), (423, 423, 1, 1), (425, 425, 1, 218),
    (428, 428, 1, 1), (430, 430, 1, 218), (431, 431, 1, 1), (433, 434, 1, 217), (435, 437, 2, 1),
    (439, 439, 1, 219), (440, 440, 1, 1), (444, 444, 1, 1), (452, 452, 1, 2), (453, 453, 1, 1),
    (455, 455, 1, 2), (456, 456, 1, 1), (458, 458, 1, 2), (459, 475, 2, 1), (478, 494, 2, 1),
    (497, 497, 1, 2), (498, 500, 2, 1), (502, 502, 1, - 97), (503, 503, 1, - 56), (504, 542, 2, 1),
    (544, 544, 1, - 130), (546, 562, 2, 1), (570, 570, 1, 10795), (571, 571, 1, 1), (573, 573, 1, - 163),
    (574, 574, 1, 10792), (577, 577, 1, 1), (579, 579, 1, - 195), (580, 580, 1, 69), (581, 581, 1, 71),
    (582, 590, 2, 1), (880, 882, 2, 1), (886, 886, 1, 1), (895, 895, 1, 116), (902, 902, 1, 38),
    (904, 906, 1, 37), (908, 908, 1, 64), (910, 911, 1, 63), (913, 929, 1, 32), (931, 939, 1, 32),
    (975, 975, 1, 8), (984, 1006, 2, 1), (1012, 1012, 1, - 60), (1015, 1015, 1, 1), (1017, 1017, 1, - 7),
    (1018, 1018, 1, 1), (1021, 1023, 1, - 130), (1024, 1039, 1, 80), (1040, 1071, 1, 32),
    (1120, 1152, 2, 1), (1162, 1214, 2, 1), (1216, 1216, 1, 15), (1217, 1229, 2, 1), (1232, 1326, 2, 1),
    (1329, 1366, 1, 48), (4256, 4293, 1, 7264), (4295, 4295, 1, 7264), (4301, 4301, 1, 7264),
    (5024, 5103, 1, 38864), (5104, 5109, 1, 8), (7312, 7354, 1, - 3008), (7357, 7359, 1, - 3008),
    (7680, 7828, 2, 1), (7838, 7838, 1, - 7615), (7840, 7934, 2, 1), (7944, 7951, 1, - 8),
    (7960, 7965, 1, - 8), (7976, 7983, 1, - 8), (7992, 7999, 1, - 8), (8008, 8013, 1, - 8),
    (8025, 8031, 2, - 8), (8040, 8047, 1, - 8), (8072, 8079, 1, - 8), (8088, 8095, 1, - 8),
    (8104, 8111, 1, - 8), (8120, 8121, 1, - 8), (8122, 8123, 1, - 74), (8124, 8124, 1, - 9),
    (8136, 8139, 1, - 86), (8140, 8140, 1, - 9), (8152, 8153, 1, - 8), (8154, 8155, 1, - 100),
    (8168, 8169, 1, - 8), (8170, 8171, 1, - 112), (8172, 8172, 1, - 7), (8184, 8185, 1, - 128),
    (8186, 8187, 1, - 126), (8188, 8188, 1, - 9), (8486, 8486, 1, - 7517), (8490, 8490, 1, - 8383),
    (8491, 8491, 1, - 8262), (8498, 8498, 1, 28), (8544, 8559, 1, 16), (8579, 8579, 1, 1),
    (9398, 9423, 1, 26), (11264, 11311, 1, 48), (11360, 11360, 1, 1), (11362, 11362, 1, - 10743),
    (11363, 11363, 1, - 3814), (11364, 11364, 1, - 10727), (11367, 11371, 2, 1), (11373, 11373, 1, - 10780),
    (11374, 11374, 1, - 10749), (11375, 11375, 1, - 10783), (11376, 11376, 1, - 10782),
    (11378, 11378, 1, 1), (11381, 11381, 1, 1), (11390, 11391, 1, - 10815), (11392, 11490, 2, 1),
    (11499, 11501, 2, 1), (11506, 11506, 1, 1), (42560, 42604, 2, 1), (42624, 42650, 2, 1),
    (42786, 42798, 2, 1), (42802, 42862, 2, 1), (42873, 42875, 2, 1), (42877, 42877, 1, - 35332),
    (42878, 42886, 2, 1), (42891, 42891, 1, 1), (42893, 42893, 1, - 42280), (42896, 42898, 2, 1),
    (42902, 42920, 2, 1), (42922, 42922, 1, - 42308), (42923, 42923, 1, - 42319),
    (42924, 42924, 1, - 42315), (42925, 42925, 1, - 42305), (42926, 42926, 1, - 42308),
    (42928, 42928, 1, - 42258), (42929, 42929, 1, - 42282), (42930, 42930, 1, - 42261),
    (42931, 42931, 1, 928), (42932, 42946, 2, 1), (42948, 42948, 1, - 48), (42949, 42949, 1, - 42307),
    (42950, 42950, 1, - 35384), (42951, 42953, 2, 1), (42960, 42960, 1, 1), (42966, 42968, 2, 1),
    (42997, 42997, 1, 1), (65313, 65338, 1, 32), (66560, 66599, 1, 40), (66736, 66771, 1, 40),
    (66928, 66964, 2, 39), (66929, 66937, 2, 39), (66941, 66953, 2, 39), (66957, 66961, 2, 39),
    (66965, 66965, 1, 39), (68736, 68786, 1, 64), (71840, 71871, 1, 32), (93760, 93791, 1, 32),
    (125184, 125217, 1, 34)]"

definition lower_code :: "int \<Rightarrow> int" where
  "lower_code n = (case List.find (\<lambda>(a, b, k, d). a \<le> n \<and> n \<le> b \<and> (n - a) mod k = 0) lower_ranges of
     Some (a, b, k, d) \<Rightarrow> n + d
   | None \<Rightarrow> n)"

definition utf8_decode :: "string \<Rightarrow> int" where
  "utf8_decode p = (let b = map (of_char :: char \<Rightarrow> int) p in
     case b of
       [x, y] \<Rightarrow> (x - 192) * 64 + (y - 128)
     | [x, y, z] \<Rightarrow> (x - 224) * 4096 + (y - 128) * 64 + (z - 128)
     | [x, y, z, w] \<Rightarrow> (x - 240) * 262144 + (y - 128) * 4096 + (z - 128) * 64 + (w - 128)
     | _ \<Rightarrow> 0)"

definition utf8_encode :: "int \<Rightarrow> string" where
  "utf8_encode n = map (char_of :: int \<Rightarrow> char)
     (if n < 128 then [n]
      else if n < 2048 then [192 + n div 64, 128 + n mod 64]
      else if n < 65536 then [224 + n div 4096, 128 + n div 64 mod 64, 128 + n mod 64]
      else [240 + n div 262144, 128 + n div 4096 mod 64, 128 + n div 64 mod 64, 128 + n mod 64])"

definition lower_char :: "char \<Rightarrow> char" where
  "lower_char c = (let n = (of_char c :: nat) in if 65 \<le> n \<and> n \<le> 90 then char_of (n + 32) else c)"

definition lower_point :: "string \<Rightarrow> string" where
  "lower_point p =
     (if length p < 2 then map lower_char p
      else let n = utf8_decode p
        in if n = 304 then [CHR ''i'', CHR 0xCC, CHR 0x87]
           else if lower_code n = n then p else utf8_encode (lower_code n))"

definition lower :: "string \<Rightarrow> string" where
  "lower s = concat (map lower_point (code_points s))"

definition is_digit :: "char \<Rightarrow> bool" where
  "is_digit c \<longleftrightarrow> (let n = (of_char c :: nat) in 48 \<le> n \<and> n \<le> 57)"

definition digit_value :: "char \<Rightarrow> int" where
  "digit_value c = int (of_char c) - 48"

text \<open>
  \<open>int(s)\<close>: surrounding space, an optional sign, decimal digits with single underscores
  between them; \<^const>\<open>None\<close> is the \<open>ValueError\<close>.
\<close>

fun digits_value :: "int \<Rightarrow> string \<Rightarrow> int option" where
  "digits_value acc [] = Some acc"
| "digits_value acc (c # cs) =
     (if is_digit c then digits_value (10 * acc + digit_value c) cs
      else if c = CHR ''_'' then
        (case cs of [] \<Rightarrow> None
         | d # ds \<Rightarrow> if is_digit d then digits_value (10 * acc + digit_value d) ds else None)
      else None)"

definition parse_nat :: "string \<Rightarrow> int option" where
  "parse_nat s = (case s of [] \<Rightarrow> None
     | c # cs \<Rightarrow> if is_digit c then digits_value (digit_value c) cs else None)"

definition parse_int :: "string \<Rightarrow> int option" where
  "parse_int s0 =
     (case strip s0 of
        [] \<Rightarrow> None
      | c # cs \<Rightarrow>
          if c = CHR ''-'' then map_option uminus (parse_nat cs)
          else if c = CHR ''+'' then parse_nat cs
          else parse_nat (c # cs))"

text \<open>The arrow \<open>U+2192\<close> of the engine's messages and cache keys, in UTF-8.\<close>

definition arrow :: string where
  "arrow = [CHR 0xE2, CHR 0x86, CHR 0x92]"

text \<open>Joining two strings by the arrow is unambiguous when neither left part contains it.\<close>

lemma arrow_prefix_unique:
  assumes eq: "f @ arrow @ t = f' @ arrow @ t'" and le: "length f \<le> length f'"
    and no: "\<not> py_in arrow f'"
  shows "f = f' \<and> t = t'"
proof -
  from eq obtain u where "f = f' @ u \<and> u @ arrow @ t = arrow @ t' \<or> f @ u = f' \<and> arrow @ t = u @ arrow @ t'"
    unfolding append_eq_append_conv2 by blast
  with le have u: "f' = f @ u" "arrow @ t = u @ arrow @ t'"
    by (auto simp del: append_assoc)
  have "length u = 0 \<or> length u = 1 \<or> length u = 2 \<or> 3 \<le> length u" by arith
  then have "u = []"
  proof (elim disjE)
    assume "3 \<le> length u"
    with u(2) have "arrow = take 3 u"
      by (metis (no_types, lifting) append_eq_append_conv_if arrow_def length_Cons list.size(3)
          numeral_3_eq_3 take_all_iff order_refl append_take_drop_id take_append)
    then have "u = arrow @ drop 3 u" by (metis append_take_drop_id)
    with u(1) no show ?thesis by (metis py_in_iff)
  qed (use u(2) in \<open>auto simp: arrow_def length_Suc_conv numeral_2_eq_2\<close>)
  with u show ?thesis by simp
qed

lemma arrow_join_inject:
  assumes "f @ arrow @ t = f' @ arrow @ t'" "\<not> py_in arrow f" "\<not> py_in arrow f'"
  shows "f = f' \<and> t = t'"
  using assms arrow_prefix_unique [of f t f' t'] arrow_prefix_unique [of f' t' f t]
  by (metis nle_le)

text \<open>
  \<open>s[:n]\<close>, the first \<open>n\<close> code points, and \<open>len(s)\<close>. In UTF-8 the bytes from 0x80 to 0xBF continue the
  code point before them.
\<close>

definition utf8_length :: "string \<Rightarrow> nat" where
  "utf8_length s = length (filter (\<lambda>c. \<not> is_continuation c) s)"

fun utf8_take :: "nat \<Rightarrow> string \<Rightarrow> string" where
  "utf8_take n [] = []"
| "utf8_take n (c # s) =
     (if is_continuation c then c # utf8_take n s
      else case n of 0 \<Rightarrow> [] | Suc m \<Rightarrow> c # utf8_take m s)"


lemma utf8_length_Nil [simp]: "utf8_length [] = 0"
  by (simp add: utf8_length_def)

lemma utf8_length_append [simp]: "utf8_length (a @ b) = utf8_length a + utf8_length b"
  by (simp add: utf8_length_def)

lemma utf8_length_take: "utf8_length (utf8_take n s) \<le> n"
  by (induction n s rule: utf8_take.induct) (auto simp: utf8_length_def split: nat.split)

lemma utf8_length_take_le: "utf8_length (utf8_take n s) \<le> utf8_length s"
  by (induction n s rule: utf8_take.induct) (auto simp: utf8_length_def split: nat.split)

text \<open>\<open>s.split()\<close>\<close>

fun words_from :: "string \<Rightarrow> string \<Rightarrow> string list" where
  "words_from [] cur = (if cur = [] then [] else [rev cur])"
| "words_from (c # s) cur =
     (if is_space c then (if cur = [] then words_from s [] else rev cur # words_from s [])
      else words_from s (c # cur))"

definition py_words :: "string \<Rightarrow> string list" where
  "py_words s = words_from (plain_spaces s) []"

text \<open>Integers as text, and \<open>f'{x:.0f}'\<close>, which rounds half to even.\<close>

fun show_nat :: "nat \<Rightarrow> string" where
  "show_nat n = (if n < 10 then [char_of (48 + n)] else show_nat (n div 10) @ [char_of (48 + n mod 10)])"

declare show_nat.simps [simp del]

definition show_int :: "int \<Rightarrow> string" where
  "show_int i = (if i < 0 then ''-'' @ show_nat (nat (- i)) else show_nat (nat i))"

definition round_half_even :: "rat \<Rightarrow> int" where
  "round_half_even x =
     (let f = \<lfloor>x\<rfloor>; d = x - of_int f
      in if d < 1/2 \<or> (d = 1/2 \<and> even f) then f else f + 1)"

text \<open>\<open>f'{x:.1f}'\<close> and \<open>sep.join(xs)\<close>.\<close>

definition fixed1 :: "rat \<Rightarrow> string" where
  "fixed1 x = (let n = round_half_even (\<bar>x\<bar> * 10)
     in (if x < 0 then ''-'' else '''') @ show_int (n div 10) @ ''.'' @ show_int (n mod 10))"

fun join :: "string \<Rightarrow> string list \<Rightarrow> string" where
  "join sep [] = ''''"
| "join sep [x] = x"
| "join sep (x # y # ys) = x @ sep @ join sep (y # ys)"

subsection \<open>Code points and white space\<close>

lemma concat_code_points [simp]: "concat (code_points s) = s"
  by (induction s rule: code_points.induct) (simp_all add: takeWhile_dropWhile_id)

lemma code_points_append:
  "is_ascii x \<Longrightarrow> code_points (a @ x # b) = code_points a @ [x] # code_points b"
proof (induction a rule: code_points.induct)
  case (2 c s)
  have x: "\<not> is_continuation x" using "2.prems" by (simp add: is_ascii_def is_continuation_def)
  show ?case
  proof (cases "(of_char c :: nat) < 192")
    case True
    with "2.IH"(1) [OF True "2.prems"] show ?thesis by simp
  next
    case False
    have "takeWhile is_continuation (s @ x # b) = takeWhile is_continuation s \<and>
        dropWhile is_continuation (s @ x # b) = dropWhile is_continuation s @ x # b"
      using x by (induction s) simp_all
    with False "2.IH"(2) [OF False "2.prems"] show ?thesis by simp
  qed
qed (simp add: is_ascii_def)

lemma code_points_ascii: "list_all is_ascii s \<Longrightarrow> code_points s = map (\<lambda>c. [c]) s"
  by (induction s) (auto simp: is_ascii_def)

lemma space_point_ascii [simp]: "is_ascii c \<Longrightarrow> space_point (c # q) = is_space c"
  by (simp add: space_point_def)

lemma code_points_Nil_iff [simp]: "code_points s = [] \<longleftrightarrow> s = []"
  by (cases s) simp_all

definition bare :: "string \<Rightarrow> bool" where
  "bare s \<longleftrightarrow> s = [] \<or> (\<not> space_point (hd (code_points s)) \<and> \<not> space_point (last (code_points s)))"

lemma dropWhile_hd: "s = [] \<or> \<not> P (hd s) \<Longrightarrow> dropWhile P s = s"
  by (cases s) auto

lemma strip_bare: "bare s \<Longrightarrow> strip s = s"
  by (cases "s = []") (auto simp: bare_def strip_def dropWhile_hd hd_rev)

lemma strip_space_first: "is_ascii c \<Longrightarrow> is_space c \<Longrightarrow> strip (c # s) = strip s"
  using code_points_append [of c "[]" s] by (simp add: strip_def)

lemma strip_space_last:
  assumes "is_ascii c" and "is_space c" shows "strip (s @ [c]) = strip s"
proof -
  have cp: "code_points (s @ [c]) = code_points s @ [[c]]"
    using code_points_append [OF assms(1), of s "[]"] by simp
  show ?thesis
  proof (cases "\<forall>p\<in>set (code_points s). space_point p")
    case True
    then have "dropWhile space_point (code_points s) = []" by simp
    moreover have "dropWhile space_point (code_points s @ [[c]]) = []" using True assms by simp
    ultimately show ?thesis by (simp only: strip_def cp)
  next
    case False
    with assms show ?thesis by (auto simp: strip_def cp dropWhile_append)
  qed
qed

lemma bare_ends:
  "is_ascii c \<Longrightarrow> \<not> is_space c \<Longrightarrow> bare (c # s) \<longleftrightarrow> \<not> space_point (last (code_points (c # s)))"
  using code_points_append [of c "[]" s] by (simp add: bare_def)

lemma bare_last_ascii: "is_ascii c \<Longrightarrow> \<not> is_space c \<Longrightarrow> \<not> space_point (last (code_points (s @ [c])))"
  using code_points_append [of c s "[]"] by simp

lemma bare_ascii: "list_all (\<lambda>c. is_ascii c \<and> \<not> is_space c) s \<Longrightarrow> bare s"
proof -
  assume s: "list_all (\<lambda>c. is_ascii c \<and> \<not> is_space c) s"
  then have cp: "code_points s = map (\<lambda>c. [c]) s" by (intro code_points_ascii) (simp add: list_all_iff)
  show ?thesis
    using s by (cases "s = []") (auto simp: bare_def cp hd_map last_map list_all_iff)
qed

lemma ascii_code_point: "is_ascii c \<Longrightarrow> c \<in> set s \<Longrightarrow> [c] \<in> set (code_points s)"
proof -
  assume "is_ascii c" and "c \<in> set s"
  then obtain a b where "s = a @ c # b" by (auto dest: split_list)
  with \<open>is_ascii c\<close> show ?thesis by (simp add: code_points_append)
qed

text \<open>Joined to something that ends the code point, a bare string keeps its last one.\<close>

lemma last_code_points_append:
  "is_ascii x \<Longrightarrow> s \<noteq> [] \<Longrightarrow> last (code_points (a @ x # s)) = last (code_points s)"
  by (simp add: code_points_append)

subsection \<open>Reading back numbers\<close>

lemma is_digit_char: "k < 10 \<Longrightarrow> is_digit (char_of (48 + k))" for k :: nat
  by (simp add: is_digit_def Let_def)

lemma digit_value_char: "k < 10 \<Longrightarrow> digit_value (char_of (48 + k)) = int k"
  by (simp add: digit_value_def)

lemma show_nat_digits: "list_all is_digit (show_nat n)"
proof (induction n rule: show_nat.induct)
  case (1 n)
  have "list_all is_digit (show_nat n)" if "\<not> n < 10"
    using 1 [OF that] that is_digit_char [of "n mod 10"] by (simp add: show_nat.simps [of n])
  moreover have "list_all is_digit (show_nat n)" if "n < 10"
    using that is_digit_char [of n] by (simp add: show_nat.simps [of n])
  ultimately show ?case by blast
qed

lemma show_nat_not_Nil: "show_nat n \<noteq> []"
  by (simp add: show_nat.simps [of n])

lemma digits_value_digits:
  "list_all is_digit s \<Longrightarrow> digits_value acc s = Some (fold (\<lambda>c a. 10 * a + digit_value c) s acc)"
  by (induction s arbitrary: acc) auto

lemma fold_show_nat: "fold (\<lambda>c a. 10 * a + digit_value c) (show_nat n) 0 = int n"
proof (induction n rule: show_nat.induct)
  case (1 n)
  have "fold (\<lambda>c a. 10 * a + digit_value c) (show_nat n) 0 = int n" if "\<not> n < 10"
  proof -
    have "10 * int (n div 10) + int (n mod 10) = int n"
      by (simp add: zdiv_int zmod_int)
    with 1 [OF that] that digit_value_char [of "n mod 10"] show ?thesis
      by (simp add: show_nat.simps [of n])
  qed
  moreover have "fold (\<lambda>c a. 10 * a + digit_value c) (show_nat n) 0 = int n" if "n < 10"
    using that digit_value_char [of n] by (simp add: show_nat.simps [of n])
  ultimately show ?case by blast
qed

lemma parse_nat_show: "parse_nat (show_nat n) = Some (int n)"
proof (cases "show_nat n")
  case (Cons c cs)
  with show_nat_digits [of n] fold_show_nat [of n] show ?thesis
    by (simp add: parse_nat_def digits_value_digits)
qed (simp add: show_nat_not_Nil)

lemma show_nat_inject [simp]: "show_nat m = show_nat n \<longleftrightarrow> m = n"
  by (metis parse_nat_show of_nat_eq_iff option.inject)

end
