(* ===== verification/SM_Types.thy ===== *)
theory SM_Types
  imports Systems PyString
begin

text \<open>
  The data of the state machine (\<open>engine/sm_types.py\<close>): enums as datatypes, dataclasses
  as records, the assertions of \<open>StateDefinition.__post_init__\<close> as a check that fails.
\<close>

text \<open>
  The values that \<open>yaml.safe_load\<close> returns. The version of a configuration and the reminders of
  a state are stored as they are read, whatever the annotation of the field says.
\<close>

datatype yaml =
    YNull
  | YBool bool
  | YInt int
  | YFloat rat
  | YStr string
  | YList "yaml list"
  | YMap "(string \<times> yaml) list"

datatype TransitionType = REVERSIBLE | COMPENSABLE | IRREVERSIBLE

datatype StateType = INITIAL | INTERMEDIATE | TERMINAL | ERROR | PAUSE

record AskDirective =
  ask_question :: string
  ask_type :: string
  ask_choices :: "string list"
  ask_required :: bool
  ask_timeout_seconds :: int

record ConditionalAsk =
  cond_condition :: string
  cond_question :: string
  cond_type :: string
  cond_choices :: "string list"
  cond_on_timeout :: string

record HITLConfig =
  hitl_pause :: bool
  ask_user :: "AskDirective list"
  ask_if :: "ConditionalAsk list"
  hitl_on_timeout :: string
  resume_transitions :: "(string, string) dict"

definition has_questions :: "HITLConfig \<Rightarrow> bool" where
  "has_questions h \<longleftrightarrow> ask_user h \<noteq> [] \<or> ask_if h \<noteq> []"

record StateDefinition =
  sd_name :: string
  state_type :: StateType
  max_reentries :: "int option"
  timeout_seconds :: "int option"
  entry_hooks :: "string list"
  exit_hooks :: "string list"
  sd_validators :: "string list"
  temporal_max_duration :: "int option"
  temporal_on_timeout :: "string option"
  reminders :: yaml
  requires_manual :: bool
  hitl :: "HITLConfig option"

text \<open>\<open>__post_init__\<close>: the state is rejected with an \<open>AssertionError\<close> unless this holds.\<close>

definition post_init_ok :: "StateDefinition \<Rightarrow> bool" where
  "post_init_ok s \<longleftrightarrow>
     (case max_reentries s of None \<Rightarrow> True
      | Some n \<Rightarrow> (state_type s = TERMINAL \<longrightarrow> n = 0) \<and> (state_type s = INITIAL \<longrightarrow> n \<le> 1))"

definition plain_state :: "string \<Rightarrow> StateType \<Rightarrow> int option \<Rightarrow> StateDefinition" where
  "plain_state n ty mr = \<lparr>sd_name = n, state_type = ty, max_reentries = mr, timeout_seconds = None,
     entry_hooks = [], exit_hooks = [], sd_validators = [], temporal_max_duration = None,
     temporal_on_timeout = None, reminders = YList [], requires_manual = False, hitl = None\<rparr>"

record TransitionDefinition =
  from_state :: string
  to_state :: string
  transition_type :: "TransitionType option"
  condition :: "string option"
  action :: "string option"
  requires_human :: bool

definition plain_transition :: "string \<Rightarrow> string \<Rightarrow> TransitionDefinition" where
  "plain_transition f t = \<lparr>from_state = f, to_state = t, transition_type = Some REVERSIBLE,
     condition = None, action = None, requires_human = False\<rparr>"

record LTLRule =
  expression :: string
  within_seconds :: "int option"

record StateMachineConfig =
  cfg_profile :: string
  cfg_name :: string
  cfg_version :: yaml
  states :: "(string, StateDefinition) dict"
  transitions :: "TransitionDefinition list"
  ltl_rules :: "LTLRule list"
  max_steps :: int

definition initial_states :: "StateMachineConfig \<Rightarrow> StateDefinition list" where
  "initial_states c = filter (\<lambda>s. state_type s = INITIAL) (dict_values (states c))"

definition terminal_states :: "StateMachineConfig \<Rightarrow> StateDefinition list" where
  "terminal_states c = filter (\<lambda>s. state_type s = TERMINAL) (dict_values (states c))"

definition intermediate_states :: "StateMachineConfig \<Rightarrow> StateDefinition list" where
  "intermediate_states c = filter (\<lambda>s. state_type s = INTERMEDIATE) (dict_values (states c))"

text \<open>
  A configuration built by the parser or by \<open>create_agent_state_machine\<close> stores every
  state under its own name.
\<close>

definition config_wf :: "StateMachineConfig \<Rightarrow> bool" where
  "config_wf c \<longleftrightarrow> dict_wf (states c) \<and> (\<forall>(n, s) \<in> set (states c). sd_name s = n)"

datatype severity = SevError | SevWarning

text \<open>The fields and messages of the validation errors, one constructor per f-string.\<close>

datatype error_field =
    FState string
  | FMaxReentries string
  | FTransitions
  | FTransition string string

datatype error_message =
    InitialNoOutgoing string
  | IntermediateNoExit string
  | TerminalHasOutgoing string
  | TerminalReentries string
  | DeadEndCycle "string list"
  | Unreachable string
  | MissingMaxReentries string
  | TargetNotFound string
  | SourceNotFound string

record ValidationError =
  err_field :: error_field
  err_message :: error_message
  err_severity :: severity

text \<open>The runtime state of a run. \<open>ltl_history\<close> is the dict that the LTL evaluation keeps.\<close>

record snapshot_entry =
  snap_state :: string
  snap_iteration_count :: int
  snap_drift_count :: int
  snap_consecutive_failures :: int
  snap_human_approved :: bool

record ltl_history =
  state_snapshots :: "snapshot_entry list"
  G_evaluations :: "(string, bool) dict"
  F_evaluations :: "(string, bool) dict"
  X_pending :: "string list"
  U_states :: "(string, string) dict"

definition empty_ltl_history :: ltl_history where
  "empty_ltl_history = \<lparr>state_snapshots = [], G_evaluations = [], F_evaluations = [],
     X_pending = [], U_states = []\<rparr>"

record RuntimeState =
  current_state :: string
  previous_state :: "string option"
  reentry_count :: int
  iteration_count :: int
  entered_at :: datetime
  last_transition_at :: datetime
  rt_version :: int
  drift_count :: int
  human_approved :: bool
  consecutive_failures :: int
  total_iterations :: int
  changes_requested :: bool
  manual_unblock :: bool
  project_abandoned :: bool
  rt_ltl_history :: ltl_history
  awaiting_input :: bool
  user_answers :: "(string, string) dict"
  hitl_timeout_at :: "datetime option"
  hitl_loop_count :: int

definition new_runtime :: "string \<Rightarrow> datetime \<Rightarrow> RuntimeState" where
  "new_runtime s now = \<lparr>current_state = s, previous_state = None, reentry_count = 0,
     iteration_count = 0, entered_at = now, last_transition_at = now, rt_version = 0,
     drift_count = 0, human_approved = False, consecutive_failures = 0, total_iterations = 0,
     changes_requested = False, manual_unblock = False, project_abandoned = False,
     rt_ltl_history = empty_ltl_history, awaiting_input = False, user_answers = [],
     hitl_timeout_at = None, hitl_loop_count = 0\<rparr>"

end
