(* ===== verification/State_Machine.thy ===== *)
theory State_Machine
  imports SM_Types
begin

text \<open>
  \<open>engine/state_machine.py\<close>, compile time: the transition map, the graph searches
  (\<open>_find_cycles\<close>, \<open>_find_reachable_states\<close>) and the seven validators, combined by
  \<open>validate\<close> and \<open>_validate_or_raise\<close>. A Python set of names is a HOL set.
\<close>

subsection \<open>The transition map\<close>

type_synonym transition_map = "(string, TransitionDefinition list) dict"

definition build_transition_map :: "TransitionDefinition list \<Rightarrow> transition_map" where
  "build_transition_map ts = fold (\<lambda>t m. dict_append (from_state t) t m) ts []"

definition transitions_from :: "transition_map \<Rightarrow> string \<Rightarrow> TransitionDefinition list" where
  "transitions_from m s = dict_get_default m s []"

definition successors :: "transition_map \<Rightarrow> string \<Rightarrow> string list" where
  "successors m s = map to_state (transitions_from m s)"

lemma transitions_from_fold:
  "transitions_from (fold (\<lambda>t m. dict_append (from_state t) t m) ts m) s =
     transitions_from m s @ filter (\<lambda>t. from_state t = s) ts"
proof (induction ts arbitrary: m)
  case (Cons t ts)
  have "transitions_from (dict_append (from_state t) t m) s =
      transitions_from m s @ (if from_state t = s then [t] else [])"
    by (simp add: transitions_from_def dict_get_default_def dict_get_append)
  with Cons show ?case by simp
qed simp

lemma transitions_from_build:
  "transitions_from (build_transition_map ts) s = filter (\<lambda>t. from_state t = s) ts"
  by (simp add: build_transition_map_def transitions_from_fold)
     (simp add: transitions_from_def dict_get_default_def)

lemma successors_build:
  "set (successors (build_transition_map ts) s) = to_state ` {t \<in> set ts. from_state t = s}"
  by (auto simp: successors_def transitions_from_build)

interpretation tm: finite_graph "successors m" "set (dict_keys m)" for m
  by unfold_locales
     (auto simp: successors_def transitions_from_def dict_get_default_def
        dest: map_of_SomeD split: option.splits intro: rev_image_eqI)

subsection \<open>Reachable states\<close>

text \<open>The work list of \<open>_find_reachable_states\<close>: \<open>queue.pop(0)\<close> until it is empty.\<close>

function reach_loop :: "transition_map \<Rightarrow> string list \<Rightarrow> string set \<Rightarrow> string set" where
  "reach_loop m [] reachable = reachable"
| "reach_loop m (current # queue) reachable =
     (if current \<in> reachable then reach_loop m queue reachable
      else let reachable' = insert current reachable
           in reach_loop m (queue @ filter (\<lambda>t. t \<notin> reachable') (successors m current)) reachable')"
  by pat_completeness auto
termination
proof (relation "measures [\<lambda>(m, q, r). card (set (dict_keys m) - r), \<lambda>(m, q, r). length q]",
    goal_cases)
  case (3 m current queue reachable x)
  then show ?case
    using tm.visit_cases [OF 3(1), of m] by (elim disjE conjE) simp_all
qed simp_all

definition find_reachable_states :: "StateMachineConfig \<Rightarrow> transition_map \<Rightarrow> string set" where
  "find_reachable_states c m = reach_loop m (map sd_name (initial_states c)) {}"

lemma reach_loop_correct:
  assumes "\<forall>x\<in>reachable. set (successors m x) \<subseteq> reachable \<union> set queue"
  shows "reach_loop m queue reachable =
    reachable \<union> {y. \<exists>x\<in>set queue. (x, y) \<in> (edges (successors m))\<^sup>*}"
  using assms
proof (induction m queue reachable rule: reach_loop.induct)
  case (1 m reachable)
  then show ?case by simp
next
  case (2 m current queue reachable)
  show ?case
  proof (cases "current \<in> reachable")
    case True
    have closed: "\<forall>x\<in>reachable. set (successors m x) \<subseteq> reachable \<union> set queue"
      using "2.prems" True by auto
    have "y \<in> reachable \<union> {y. \<exists>x\<in>set queue. (x, y) \<in> (edges (successors m))\<^sup>*}"
      if "(current, y) \<in> (edges (successors m))\<^sup>*" for y
      using that
    proof (induction rule: rtrancl_induct)
      case base
      show ?case using True by simp
    next
      case (step y z)
      then show ?case
        using closed by (auto dest: reach_step)
    qed
    then show ?thesis
      using "2.IH"(1) [OF True closed] True by auto
  next
    case False
    let ?r = "insert current reachable"
    let ?q = "queue @ filter (\<lambda>t. t \<notin> ?r) (successors m current)"
    have "\<forall>x\<in>?r. set (successors m x) \<subseteq> ?r \<union> set ?q"
      using "2.prems" by auto
    from "2.IH"(2) [OF False refl this] False
    have eq: "reach_loop m (current # queue) reachable =
        ?r \<union> {y. \<exists>x\<in>set ?q. (x, y) \<in> (edges (successors m))\<^sup>*}"
      by (simp add: Let_def)
    have "?r \<union> {y. \<exists>x\<in>set ?q. (x, y) \<in> (edges (successors m))\<^sup>*} =
        reachable \<union> {y. \<exists>x\<in>set (current # queue). (x, y) \<in> (edges (successors m))\<^sup>*}"
      (is "?A = ?B")
    proof
      show "?A \<subseteq> ?B"
        by (auto intro: step_reach)
      have cl: "\<forall>x\<in>?A. set (successors m x) \<subseteq> ?A"
      proof
        fix x assume "x \<in> ?A"
        then consider "x = current" | "x \<in> reachable"
          | q where "q \<in> set ?q" "(q, x) \<in> (edges (successors m))\<^sup>*"
          by auto
        then show "set (successors m x) \<subseteq> ?A"
        proof cases
          case 1
          then show ?thesis by auto
        next
          case 2
          then show ?thesis using "2.prems" by auto
        next
          case 3
          then show ?thesis by (blast intro: reach_step)
        qed
      qed
      have "y \<in> ?A" if "x \<in> set (current # queue)" "(x, y) \<in> (edges (successors m))\<^sup>*" for x y
        by (rule tm.closed_reach [OF cl _ that(2)]) (use that(1) in auto)
      then show "?B \<subseteq> ?A" by auto
    qed
    with eq show ?thesis by simp
  qed
qed

lemma find_reachable_states_eq:
  "find_reachable_states c m =
     {y. \<exists>s\<in>set (initial_states c). (sd_name s, y) \<in> (edges (successors m))\<^sup>*}"
  by (simp add: find_reachable_states_def reach_loop_correct)

subsection \<open>Cycles\<close>

text \<open>
  \<open>min(cycle[i:] + cycle[:i] for i in range(len(cycle)))\<close>: the least rotation. A cycle is
  recorded unless it is a prefix of the one recorded before it at the same length.
\<close>

definition rotations :: "string list \<Rightarrow> string list list" where
  "rotations c = map (\<lambda>i. drop i c @ take i c) [0..<length c]"

definition canonical :: "string list \<Rightarrow> string list" where
  "canonical c = (case rotations c of [] \<Rightarrow> [] | r # rs \<Rightarrow> fold min rs r)"

definition add_cycle :: "string list \<Rightarrow> string list list \<Rightarrow> string list list" where
  "add_cycle c cycles =
     (let k = canonical c
      in if k \<in> set (map (take (length k)) cycles) then cycles else cycles @ [k])"

text \<open>
  The nested function \<open>dfs\<close>: its argument list holds the siblings still to visit, the
  path is an argument because \<open>dfs\<close> restores it, and \<open>path_set\<close> is the set of the path.
\<close>

function (sequential) dfs ::
    "transition_map \<Rightarrow> string list \<Rightarrow> string list \<Rightarrow> string set \<times> string list list
      \<Rightarrow> string set \<times> string list list" where
  "dfs m path [] acc = acc"
| "dfs m path (node # siblings) (visited, cycles) =
     dfs m path siblings
       (if node \<in> set path then
          (visited, add_cycle (dropWhile (\<lambda>x. x \<noteq> node) path) cycles)
        else if node \<in> visited then (visited, cycles)
        else dfs m (path @ [node]) (successors m node) (insert node visited, cycles))"
  by pat_completeness auto

lemma dfs_visited_mono:
  "dfs_dom (m, path, ns, acc) \<Longrightarrow> fst acc \<subseteq> fst (dfs m path ns acc)"
  by (induction m path ns acc rule: dfs.pinduct) (auto simp: dfs.psimps split: if_splits)

termination dfs
proof (relation "measures [\<lambda>(m, p, ns, acc). card (set (dict_keys m) - fst acc),
    \<lambda>(m, p, ns, acc). length ns]", goal_cases)
  case (2 m path node siblings visited cycles)
  then show ?case
    using tm.visit_cases [OF 2(2), of m] by (elim disjE conjE) simp_all
next
  case (3 m path node siblings visited cycles)
  have "visited \<subseteq> fst (if node \<in> set path then
          (visited, add_cycle (dropWhile (\<lambda>x. x \<noteq> node) path) cycles)
        else if node \<in> visited then (visited, cycles)
        else dfs m (path @ [node]) (successors m node) (insert node visited, cycles))"
    using dfs_visited_mono [OF 3] by auto
  from tm.card_mono_visited [OF this, of m] show ?case
    by (auto simp: le_less)
qed simp

definition find_cycles :: "StateMachineConfig \<Rightarrow> transition_map \<Rightarrow> string list list" where
  "find_cycles c m = snd (dfs m [] (dict_keys (states c)) ({}, []))"

subsection \<open>Compile-time validation\<close>

definition mk_error :: "error_field \<Rightarrow> error_message \<Rightarrow> ValidationError" where
  "mk_error f msg = \<lparr>err_field = f, err_message = msg, err_severity = SevError\<rparr>"

definition mk_warning :: "error_field \<Rightarrow> error_message \<Rightarrow> ValidationError" where
  "mk_warning f msg = \<lparr>err_field = f, err_message = msg, err_severity = SevWarning\<rparr>"

definition validate_initial_states :: "StateMachineConfig \<Rightarrow> transition_map \<Rightarrow> ValidationError list" where
  "validate_initial_states c m = concat (map (\<lambda>s.
     if transitions_from m (sd_name s) = []
     then [mk_error (FState (sd_name s)) (InitialNoOutgoing (sd_name s))] else [])
     (initial_states c))"

definition validate_intermediate_states :: "StateMachineConfig \<Rightarrow> transition_map \<Rightarrow> ValidationError list" where
  "validate_intermediate_states c m = concat (map (\<lambda>s.
     if transitions_from m (sd_name s) = []
     then [mk_error (FState (sd_name s)) (IntermediateNoExit (sd_name s))] else [])
     (intermediate_states c))"

definition validate_terminal_states :: "StateMachineConfig \<Rightarrow> transition_map \<Rightarrow> ValidationError list" where
  "validate_terminal_states c m = concat (map (\<lambda>s.
     (if transitions_from m (sd_name s) \<noteq> []
      then [mk_error (FState (sd_name s)) (TerminalHasOutgoing (sd_name s))] else []) @
     (if max_reentries s \<noteq> Some 0
      then [mk_error (FMaxReentries (sd_name s)) (TerminalReentries (sd_name s))] else []))
     (terminal_states c))"

definition has_exit :: "transition_map \<Rightarrow> string list \<Rightarrow> bool" where
  "has_exit m cycle \<longleftrightarrow>
     list_ex (\<lambda>node. list_ex (\<lambda>t. to_state t \<notin> set cycle) (transitions_from m node)) cycle"

definition validate_cycle_exits :: "StateMachineConfig \<Rightarrow> transition_map \<Rightarrow> ValidationError list" where
  "validate_cycle_exits c m =
     (let cycles = filter (\<lambda>cy. length cy > 1) (find_cycles c m)
      in concat (map (\<lambda>cy. if \<not> has_exit m cy then [mk_error FTransitions (DeadEndCycle cy)] else [])
           (sort_key length cycles)))"

definition validate_reachability :: "StateMachineConfig \<Rightarrow> transition_map \<Rightarrow> ValidationError list" where
  "validate_reachability c m =
     (let reachable = find_reachable_states c m
      in concat (map (\<lambda>(name, s).
           if name \<notin> reachable \<and> state_type s \<noteq> INITIAL
           then [mk_error (FState name) (Unreachable name)] else []) (states c)))"

definition validate_max_reentries :: "StateMachineConfig \<Rightarrow> ValidationError list" where
  "validate_max_reentries c = concat (map (\<lambda>(name, s).
     if max_reentries s = None \<and> state_type s \<notin> {TERMINAL, ERROR}
     then [mk_warning (FMaxReentries name) (MissingMaxReentries name)] else []) (states c))"

definition validate_transition_targets :: "StateMachineConfig \<Rightarrow> ValidationError list" where
  "validate_transition_targets c = concat (map (\<lambda>t.
     (if \<not> dict_has (states c) (to_state t)
      then [mk_error (FTransition (from_state t) (to_state t)) (TargetNotFound (to_state t))] else []) @
     (if \<not> dict_has (states c) (from_state t)
      then [mk_error (FTransition (from_state t) (to_state t)) (SourceNotFound (from_state t))] else []))
     (transitions c))"

definition validate :: "StateMachineConfig \<Rightarrow> transition_map \<Rightarrow> ValidationError list" where
  "validate c m = validate_initial_states c m @ validate_intermediate_states c m @
     validate_terminal_states c m @ validate_cycle_exits c m @ validate_reachability c m @
     validate_max_reentries c @ validate_transition_targets c"

text \<open>
  \<open>_validate_or_raise\<close>: the errors of a \<open>StateMachineValidationError\<close>, or nothing.
\<close>

definition validate_or_raise :: "StateMachineConfig \<Rightarrow> transition_map \<Rightarrow> ValidationError list + unit" where
  "validate_or_raise c m =
     (let critical = filter (\<lambda>e. err_severity e = SevError) (validate c m)
      in if critical \<noteq> [] then Inl critical else Inr ())"

definition accepted :: "StateMachineConfig \<Rightarrow> bool" where
  "accepted c \<longleftrightarrow> validate_or_raise c (build_transition_map (transitions c)) = Inr ()"

subsection \<open>Correctness of the cycle search\<close>

text \<open>
  A cycle is a list of nodes each of which has a transition to the next, the last one to
  the first. Every recorded cycle is one (\<open>find_cycles_sound\<close>), and when none is recorded
  no node reachable from a declared state lies on a cycle (\<open>find_cycles_complete\<close>).
\<close>

definition is_cycle :: "transition_map \<Rightarrow> string list \<Rightarrow> bool" where
  "is_cycle m cy \<longleftrightarrow> cy \<noteq> [] \<and> (\<forall>(x, y)\<in>set (zip cy (rotate1 cy)). y \<in> set (successors m x))"

definition is_path :: "transition_map \<Rightarrow> string list \<Rightarrow> bool" where
  "is_path m p \<longleftrightarrow> (\<forall>(x, y)\<in>set (zip p (tl p)). y \<in> set (successors m x))"

lemma zip_rotate1: "length xs = length ys \<Longrightarrow> zip (rotate1 xs) (rotate1 ys) = rotate1 (zip xs ys)"
  by (cases xs; cases ys) auto

lemma is_cycle_rotate: "is_cycle m (rotate n cy) \<longleftrightarrow> is_cycle m cy"
  by (induction n) (auto simp: is_cycle_def zip_rotate1)

lemma set_zip_snoc: "set (zip (x # xs) (xs @ [z])) = set (zip (x # xs) xs) \<union> {(last (x # xs), z)}"
  by (induction xs arbitrary: x) auto

lemma is_cycle_close:
  "is_path m cy \<Longrightarrow> cy \<noteq> [] \<Longrightarrow> hd cy \<in> set (successors m (last cy)) \<Longrightarrow> is_cycle m cy"
  by (cases cy) (simp_all only: is_cycle_def is_path_def rotate1.simps set_zip_snoc, auto)

lemma is_path_suffix: "is_path m (xs @ ys) \<Longrightarrow> is_path m ys"
proof (induction xs)
  case (Cons x xs)
  then show ?case by (cases "xs @ ys") (auto simp: is_path_def)
qed simp

lemma is_path_snoc:
  "is_path m p \<Longrightarrow> (p \<noteq> [] \<longrightarrow> x \<in> set (successors m (last p))) \<Longrightarrow> is_path m (p @ [x])"
proof (cases p)
  case (Cons a q)
  assume "is_path m p" "p \<noteq> [] \<longrightarrow> x \<in> set (successors m (last p))"
  moreover have "zip (p @ [x]) (q @ [x]) = zip p (q @ [x])"
    using zip_append1 [of p "[x]" "q @ [x]"] Cons by simp
  ultimately show ?thesis
    using Cons set_zip_snoc [of a q x] by (auto simp: is_path_def)
qed (simp add: is_path_def)

lemma fold_min_in: "fold min xs x \<in> insert x (set xs)" for x :: "'a :: linorder"
proof (induction xs arbitrary: x)
  case (Cons a xs)
  from Cons [of "min a x"] show ?case by (auto simp: min_def split: if_splits)
qed simp

lemma canonical_rotation: "cy \<noteq> [] \<Longrightarrow> \<exists>i. canonical cy = rotate i cy"
proof -
  assume ne: "cy \<noteq> []"
  then obtain r rs where r: "rotations cy = r # rs" by (cases "rotations cy") (auto simp: rotations_def)
  then have "canonical cy \<in> set (rotations cy)"
    using fold_min_in [of rs r] by (simp add: canonical_def)
  then obtain i where "i < length cy" "canonical cy = drop i cy @ take i cy"
    by (auto simp: rotations_def)
  then show ?thesis by (metis rotate_drop_take mod_less)
qed

lemma add_cycle_sound:
  "is_cycle m cy \<Longrightarrow> \<forall>k\<in>set cycles. is_cycle m k \<Longrightarrow> \<forall>k\<in>set (add_cycle cy cycles). is_cycle m k"
proof -
  assume "is_cycle m cy" and "\<forall>k\<in>set cycles. is_cycle m k"
  moreover from \<open>is_cycle m cy\<close> obtain i where "canonical cy = rotate i cy"
    using canonical_rotation by (auto simp: is_cycle_def)
  ultimately show ?thesis by (auto simp: add_cycle_def Let_def is_cycle_rotate)
qed

lemma dfs_sound:
  "is_path m path \<Longrightarrow> (path \<noteq> [] \<longrightarrow> set ns \<subseteq> set (successors m (last path))) \<Longrightarrow>
   \<forall>k\<in>set (snd acc). is_cycle m k \<Longrightarrow> \<forall>k\<in>set (snd (dfs m path ns acc)). is_cycle m k"
proof (induction m path ns acc rule: dfs.induct)
  case (2 m path node siblings visited cycles)
  let ?acc = "if node \<in> set path then (visited, add_cycle (dropWhile (\<lambda>x. x \<noteq> node) path) cycles)
        else if node \<in> visited then (visited, cycles)
        else dfs m (path @ [node]) (successors m node) (insert node visited, cycles)"
  have "\<forall>k\<in>set (snd ?acc). is_cycle m k"
  proof (cases "node \<in> set path")
    case True
    let ?cy = "dropWhile (\<lambda>x. x \<noteq> node) path"
    have ne: "?cy \<noteq> []" using True by (auto simp: dropWhile_eq_Nil_conv)
    have "is_path m ?cy"
      using "2.prems"(1) is_path_suffix [of m "takeWhile (\<lambda>x. x \<noteq> node) path" ?cy] by simp
    moreover have "hd ?cy = node" using hd_dropWhile [OF ne] by simp
    moreover have "last ?cy = last path"
      using ne by (metis last_appendR takeWhile_dropWhile_id)
    ultimately have "is_cycle m ?cy"
      using "2.prems"(2) True ne by (intro is_cycle_close) auto
    from add_cycle_sound [OF this] "2.prems"(3) True show ?thesis by simp
  next
    case False
    have "is_path m (path @ [node])"
      using "2.prems"(1,2) by (intro is_path_snoc) auto
    with "2.IH"(1) [OF False] "2.prems"(3) False show ?thesis by simp
  qed
  then have "\<forall>k\<in>set (snd (dfs m path siblings ?acc)). is_cycle m k"
    using "2.prems" by (intro "2.IH"(2)) simp_all
  then show ?case by (simp only: dfs.simps)
qed simp

lemma find_cycles_sound: "cy \<in> set (find_cycles c m) \<Longrightarrow> is_cycle m cy"
  using dfs_sound [of m "[]" "dict_keys (states c)" "({}, [])"]
  by (auto simp: find_cycles_def is_path_def)

lemma dfs_cycles_mono: "snd (dfs m path ns acc) = [] \<Longrightarrow> snd acc = []"
  by (induction m path ns acc rule: dfs.induct) (auto split: if_splits simp: add_cycle_def Let_def)

definition finished_inv :: "transition_map \<Rightarrow> string list \<Rightarrow> string set \<Rightarrow> bool" where
  "finished_inv m path visited \<longleftrightarrow> set path \<subseteq> visited \<and>
     (\<forall>x\<in>visited - set path. set (successors m x) \<subseteq> visited - set path \<and>
        (x, x) \<notin> (edges (successors m))\<^sup>+)"

lemma finished_inv_pop:
  assumes inv: "finished_inv m (path @ [node]) visited" and "node \<notin> set path"
    and succ: "set (successors m node) \<subseteq> visited - set (path @ [node])"
  shows "finished_inv m path visited"
proof -
  let ?F = "visited - set (path @ [node])"
  have closed: "\<forall>x\<in>?F. set (successors m x) \<subseteq> ?F" using inv by (auto simp: finished_inv_def)
  have "(node, node) \<notin> (edges (successors m))\<^sup>+"
  proof
    assume "(node, node) \<in> (edges (successors m))\<^sup>+"
    then obtain y where y: "y \<in> set (successors m node)" "(y, node) \<in> (edges (successors m))\<^sup>*"
      by (auto dest!: tranclD)
    with succ have "node \<in> ?F" using tm.closed_reach [OF closed] by blast
    then show False by simp
  qed
  with assms closed show ?thesis by (auto simp: finished_inv_def)
qed

lemma dfs_complete:
  "snd (dfs m path ns acc) = [] \<Longrightarrow> finished_inv m path (fst acc) \<Longrightarrow>
   finished_inv m path (fst (dfs m path ns acc)) \<and>
   set ns \<subseteq> fst (dfs m path ns acc) - set path \<and> fst acc \<subseteq> fst (dfs m path ns acc)"
proof (induction m path ns acc rule: dfs.induct)
  case (2 m path node siblings visited cycles)
  let ?acc = "if node \<in> set path then (visited, add_cycle (dropWhile (\<lambda>x. x \<noteq> node) path) cycles)
        else if node \<in> visited then (visited, cycles)
        else dfs m (path @ [node]) (successors m node) (insert node visited, cycles)"
  have nil: "snd ?acc = []"
    using "2.prems"(1) by (simp only: dfs.simps) (rule dfs_cycles_mono)
  have np: "node \<notin> set path"
    using nil by (auto split: if_splits simp: add_cycle_def Let_def)
  have "finished_inv m path (fst ?acc) \<and> node \<in> fst ?acc \<and> visited \<subseteq> fst ?acc"
  proof (cases "node \<in> visited")
    case True
    with np "2.prems"(2) show ?thesis by simp
  next
    case False
    have "finished_inv m (path @ [node]) (insert node visited)"
      using "2.prems"(2) False by (auto simp: finished_inv_def)
    with "2.IH"(1) [OF np False] nil np False have
      r: "finished_inv m (path @ [node]) (fst ?acc)"
        "set (successors m node) \<subseteq> fst ?acc - set (path @ [node])"
        "insert node visited \<subseteq> fst ?acc"
      by auto
    with finished_inv_pop [OF r(1) np r(2)] show ?thesis by auto
  qed
  with "2.IH"(2) "2.prems"(1) np show ?case by (auto simp del: if_split)
qed simp

lemma find_cycles_complete:
  assumes "find_cycles c m = []" and "n \<in> set (dict_keys (states c))"
    and "(n, x) \<in> (edges (successors m))\<^sup>*"
  shows "(x, x) \<notin> (edges (successors m))\<^sup>+"
proof -
  let ?acc = "({}, []) :: string set \<times> string list list"
  let ?V = "fst (dfs m [] (dict_keys (states c)) ?acc)"
  have nil: "snd (dfs m [] (dict_keys (states c)) ?acc) = []"
    using assms(1) by (simp only: find_cycles_def)
  have "finished_inv m [] (fst ?acc)" by (simp add: finished_inv_def)
  from dfs_complete [OF nil this] have inv: "finished_inv m [] ?V"
    and sub: "set (dict_keys (states c)) \<subseteq> ?V" by (simp_all only: list.set Diff_empty)
  from inv have closed: "\<forall>x\<in>?V. set (successors m x) \<subseteq> ?V"
    by (simp only: finished_inv_def list.set Diff_empty) blast
  have "x \<in> ?V" by (rule tm.closed_reach [OF closed _ assms(3)]) (use sub assms(2) in blast)
  with inv show ?thesis by (simp only: finished_inv_def list.set Diff_empty) blast
qed

subsection \<open>What validation guarantees\<close>

definition transition_rel :: "StateMachineConfig \<Rightarrow> (string \<times> string) set" where
  "transition_rel c = (\<lambda>t. (from_state t, to_state t)) ` set (transitions c)"

lemma edges_transition_rel: "edges (successors (build_transition_map (transitions c))) = transition_rel c"
  by (auto simp: edges_def successors_build transition_rel_def)

lemma is_path_reach: "is_path m (x # xs) \<Longrightarrow> (x, last (x # xs)) \<in> (edges (successors m))\<^sup>*"
proof (induction xs arbitrary: x)
  case (Cons y ys)
  then have "(y, last (y # ys)) \<in> (edges (successors m))\<^sup>*" "y \<in> set (successors m x)"
    by (auto simp: is_path_def)
  then show ?case by (simp add: step_reach)
qed simp

lemma is_cycle_trancl: "is_cycle m (x # xs) \<Longrightarrow> (x, x) \<in> (edges (successors m))\<^sup>+"
proof -
  assume "is_cycle m (x # xs)"
  then have "is_path m (x # xs)" "x \<in> set (successors m (last (x # xs)))"
    by (simp_all only: is_cycle_def is_path_def rotate1.simps set_zip_snoc list.sel) auto
  then show ?thesis
    by (meson edges_iff is_path_reach rtrancl_into_trancl1)
qed

lemma in_validate_errors:
  "validate_or_raise c m = Inr () \<longleftrightarrow> (\<forall>e\<in>set (validate c m). err_severity e \<noteq> SevError)"
  by (auto simp: validate_or_raise_def Let_def filter_empty_conv)

lemma accepted_facts:
  assumes "accepted c"
  shows "s \<in> set (initial_states c) \<union> set (intermediate_states c) \<Longrightarrow>
      \<exists>t\<in>set (transitions c). from_state t = sd_name s"
    and "s \<in> set (terminal_states c) \<Longrightarrow> max_reentries s = Some 0 \<and>
      (\<forall>t\<in>set (transitions c). from_state t \<noteq> sd_name s)"
    and "t \<in> set (transitions c) \<Longrightarrow>
      dict_has (states c) (from_state t) \<and> dict_has (states c) (to_state t)"
    and "(n, s) \<in> set (states c) \<Longrightarrow> state_type s \<noteq> INITIAL \<Longrightarrow>
      \<exists>i\<in>set (initial_states c). (sd_name i, n) \<in> (transition_rel c)\<^sup>*"
proof -
  let ?m = "build_transition_map (transitions c)"
  have ok: "\<forall>e\<in>set (validate c ?m). err_severity e \<noteq> SevError"
    using assms by (simp add: accepted_def in_validate_errors)
  show "\<exists>t\<in>set (transitions c). from_state t = sd_name s"
    if "s \<in> set (initial_states c) \<union> set (intermediate_states c)"
  proof (rule ccontr)
    assume "\<not> ?thesis"
    then have "transitions_from ?m (sd_name s) = []"
      by (auto simp: transitions_from_build filter_empty_conv)
    with that ok show False
      by (force simp: validate_def validate_initial_states_def validate_intermediate_states_def mk_error_def)
  qed
  show "max_reentries s = Some 0 \<and> (\<forall>t\<in>set (transitions c). from_state t \<noteq> sd_name s)"
    if "s \<in> set (terminal_states c)"
  proof -
    have "transitions_from ?m (sd_name s) = [] \<and> max_reentries s = Some 0"
      using that ok by (force simp: validate_def validate_terminal_states_def mk_error_def)
    then show ?thesis by (auto simp: transitions_from_build filter_empty_conv)
  qed
  show "dict_has (states c) (from_state t) \<and> dict_has (states c) (to_state t)"
    if "t \<in> set (transitions c)"
    using that ok by (force simp: validate_def validate_transition_targets_def mk_error_def)
  show "\<exists>i\<in>set (initial_states c). (sd_name i, n) \<in> (transition_rel c)\<^sup>*"
    if "(n, s) \<in> set (states c)" "state_type s \<noteq> INITIAL"
  proof -
    have "n \<in> find_reachable_states c ?m"
      using that ok by (force simp: validate_def validate_reachability_def mk_error_def)
    then show ?thesis by (simp add: find_reachable_states_eq edges_transition_rel)
  qed
qed

text \<open>C2: after a state machine passed validation, every state that a run can reach from an
  initial state is declared; unless it is terminal, an error or a pause state it has a
  transition to a declared state, and a terminal state has none and allows no re-entry.\<close>

theorem accepted_progress:
  assumes "config_wf c" and "accepted c" and "s0 \<in> set (initial_states c)"
    and "(sd_name s0, y) \<in> (transition_rel c)\<^sup>*"
  shows "\<exists>s. dict_get (states c) y = Some s \<and>
    (state_type s = INITIAL \<or> state_type s = INTERMEDIATE \<longrightarrow>
       (\<exists>t\<in>set (transitions c). from_state t = y \<and> dict_has (states c) (to_state t))) \<and>
    (state_type s = TERMINAL \<longrightarrow>
       max_reentries s = Some 0 \<and> (\<forall>t\<in>set (transitions c). from_state t \<noteq> y))"
proof -
  note f = accepted_facts [OF assms(2)]
  have wf: "dict_wf (states c)" "\<And>n s. (n, s) \<in> set (states c) \<Longrightarrow> sd_name s = n"
    using assms(1) by (auto simp: config_wf_def)
  have "dict_has (states c) y"
    using assms(4)
  proof (cases rule: rtranclE)
    case base
    with assms(3) wf show ?thesis
      by (force simp: initial_states_def dict_has_iff)
  next
    case (step z)
    with f(3) show ?thesis by (auto simp: transition_rel_def)
  qed
  then obtain s where s: "dict_get (states c) y = Some s" by (auto simp: dict_has_def)
  with wf have y: "(y, s) \<in> set (states c)" "sd_name s = y" by (auto simp: dict_get_iff)
  then have mem: "state_type s = INITIAL \<Longrightarrow> s \<in> set (initial_states c)"
      "state_type s = INTERMEDIATE \<Longrightarrow> s \<in> set (intermediate_states c)"
      "state_type s = TERMINAL \<Longrightarrow> s \<in> set (terminal_states c)"
    by (force simp: initial_states_def intermediate_states_def terminal_states_def)+
  with f(1,2) [of s] f(3) y(2) s show ?thesis by (metis UnCI)
qed

text \<open>C3: validation reports a declared state as unreachable exactly when it is not initial
  and no chain of transitions leads to it from an initial state.\<close>

theorem unreachable_reported_iff:
  "mk_error (FState n) (Unreachable n) \<in> set (validate c (build_transition_map (transitions c))) \<longleftrightarrow>
     (\<exists>s. (n, s) \<in> set (states c) \<and> state_type s \<noteq> INITIAL) \<and>
     \<not> (\<exists>i. i \<in> set (initial_states c) \<and> (sd_name i, n) \<in> (transition_rel c)\<^sup>*)"
  (is "?e \<in> set (validate c ?m) \<longleftrightarrow> _")
proof -
  have "?e \<in> set (validate c ?m) \<longleftrightarrow> ?e \<in> set (validate_reachability c ?m)"
    by (auto simp: validate_def validate_initial_states_def validate_intermediate_states_def
        validate_terminal_states_def validate_cycle_exits_def validate_max_reentries_def
        validate_transition_targets_def mk_error_def mk_warning_def Let_def split: if_splits)
  also have "\<dots> \<longleftrightarrow> (\<exists>s. (n, s) \<in> set (states c) \<and> state_type s \<noteq> INITIAL) \<and>
      n \<notin> find_reachable_states c ?m"
    by (force simp: validate_reachability_def mk_error_def split: if_splits)
  also have "n \<notin> find_reachable_states c ?m \<longleftrightarrow>
      \<not> (\<exists>i. i \<in> set (initial_states c) \<and> (sd_name i, n) \<in> (transition_rel c)\<^sup>*)"
    by (auto simp: find_reachable_states_eq edges_transition_rel)
  finally show ?thesis .
qed

text \<open>C4: a dead-end cycle that validation reports is a real one: it has at least two states,
  each has a transition to the next and the last to the first, and no chain of transitions
  leads out of it.\<close>

theorem dead_end_cycle_sound:
  assumes "mk_error FTransitions (DeadEndCycle cy) \<in>
    set (validate c (build_transition_map (transitions c)))"
  shows "length cy > 1 \<and> set (zip cy (rotate1 cy)) \<subseteq> transition_rel c \<and>
    (transition_rel c)\<^sup>* `` set cy \<subseteq> set cy"
proof -
  let ?m = "build_transition_map (transitions c)"
  have "mk_error FTransitions (DeadEndCycle cy) \<in> set (validate_cycle_exits c ?m)"
    using assms by (auto simp: validate_def validate_initial_states_def
        validate_intermediate_states_def validate_terminal_states_def validate_reachability_def
        validate_max_reentries_def validate_transition_targets_def mk_error_def mk_warning_def Let_def
        split: if_splits)
  then have cy: "cy \<in> set (find_cycles c ?m)" "length cy > 1" "\<not> has_exit ?m cy"
    by (auto simp: validate_cycle_exits_def mk_error_def Let_def split: if_splits)
  from find_cycles_sound [OF cy(1)] have "set (zip cy (rotate1 cy)) \<subseteq> transition_rel c"
    by (auto simp: is_cycle_def edges_transition_rel [symmetric])
  moreover have "\<forall>x\<in>set cy. set (successors ?m x) \<subseteq> set cy"
    using cy(3) by (auto simp: has_exit_def list_ex_iff successors_def)
  then have "(transition_rel c)\<^sup>* `` set cy \<subseteq> set cy"
    using tm.closed_reach [of "set cy" ?m] by (auto simp: edges_transition_rel)
  ultimately show ?thesis using cy(2) by blast
qed

text \<open>For an accepted machine the depth-first search finds no cycle exactly when the
  transition relation is acyclic.\<close>

theorem find_cycles_acyclic:
  assumes "accepted c"
  shows "find_cycles c (build_transition_map (transitions c)) = [] \<longleftrightarrow> acyclic (transition_rel c)"
    (is "find_cycles c ?m = [] \<longleftrightarrow> _")
proof
  assume nil: "find_cycles c ?m = []"
  show "acyclic (transition_rel c)"
  proof (rule acyclicI, intro allI notI)
    fix x assume x: "(x, x) \<in> (transition_rel c)\<^sup>+"
    then obtain y where "(x, y) \<in> transition_rel c" by (meson tranclD)
    then have "x \<in> set (dict_keys (states c))"
      using accepted_facts(3) [OF assms] by (auto simp: transition_rel_def dict_has_iff)
    from find_cycles_complete [OF nil this, of x] x show False
      by (simp add: edges_transition_rel)
  qed
next
  assume ac: "acyclic (transition_rel c)"
  show "find_cycles c ?m = []"
  proof (rule ccontr)
    assume "find_cycles c ?m \<noteq> []"
    then obtain cy where "cy \<in> set (find_cycles c ?m)" by (metis list.set_intros(1) neq_Nil_conv)
    from find_cycles_sound [OF this] have "is_cycle ?m cy" .
    then obtain x xs where "is_cycle ?m (x # xs)" by (cases cy) (auto simp: is_cycle_def)
    from is_cycle_trancl [OF this] ac show False by (simp add: edges_transition_rel acyclic_def)
  qed
qed

subsection \<open>Witnesses\<close>

text \<open>The machine of the demo in \<open>engine/run_manager.py\<close>, and one whose states \<open>a\<close> and
  \<open>b\<close> only lead to each other.\<close>

definition demo_config :: StateMachineConfig where
  "demo_config = \<lparr>cfg_profile = ''test'', cfg_name = ''test-sm'', cfg_version = YStr ''1.0'',
     states = [(''start'', plain_state ''start'' INITIAL (Some 1)),
       (''process'', plain_state ''process'' INTERMEDIATE (Some 5)),
       (''done'', plain_state ''done'' TERMINAL (Some 0))],
     transitions = [plain_transition ''start'' ''process'',
       plain_transition ''process'' ''process'', plain_transition ''process'' ''done''],
     ltl_rules = [], max_steps = 100\<rparr>"

definition dead_end_config :: StateMachineConfig where
  "dead_end_config = demo_config\<lparr>
     states := states demo_config @ [(''b'', plain_state ''b'' INTERMEDIATE (Some 5)),
       (''a'', plain_state ''a'' INTERMEDIATE (Some 5))],
     transitions := transitions demo_config @ [plain_transition ''process'' ''b'',
       plain_transition ''b'' ''a'', plain_transition ''a'' ''b'']\<rparr>"

text \<open>Two cycles that share the state \<open>hub\<close>: nothing leads out of the three states.\<close>

definition trap_config :: StateMachineConfig where
  "trap_config = demo_config\<lparr>
     states := states demo_config @ [(''hub'', plain_state ''hub'' INTERMEDIATE (Some 5)),
       (''left'', plain_state ''left'' INTERMEDIATE (Some 5)),
       (''right'', plain_state ''right'' INTERMEDIATE (Some 5))],
     transitions := transitions demo_config @ [plain_transition ''process'' ''hub'',
       plain_transition ''hub'' ''left'', plain_transition ''left'' ''hub'',
       plain_transition ''hub'' ''right'', plain_transition ''right'' ''hub'']\<rparr>"

lemma demo_accepted: "accepted demo_config"
  by code_simp

lemma demo_wf: "config_wf demo_config"
  by code_simp

theorem accepted_progress_witness:
  "\<exists>t\<in>set (transitions demo_config). from_state t = ''process'' \<and>
     dict_has (states demo_config) (to_state t)"
proof -
  have i: "plain_state ''start'' INITIAL (Some 1) \<in> set (initial_states demo_config)"
    by code_simp
  have "(sd_name (plain_state ''start'' INITIAL (Some 1)), ''process'') \<in> (transition_rel demo_config)\<^sup>*"
    by (rule r_into_rtrancl) (simp add: transition_rel_def demo_config_def plain_state_def plain_transition_def)
  from accepted_progress [OF demo_wf demo_accepted i this]
  show ?thesis by (auto simp: demo_config_def plain_state_def)
qed

theorem dead_end_cycle_sound_witness:
  "(transition_rel dead_end_config)\<^sup>* `` {''a'', ''b''} \<subseteq> {''a'', ''b''}"
proof -
  have "mk_error FTransitions (DeadEndCycle [''a'', ''b'']) \<in>
      set (validate dead_end_config (build_transition_map (transitions dead_end_config)))"
    by code_simp
  from dead_end_cycle_sound [OF this] show ?thesis by simp
qed

theorem find_cycles_acyclic_witness: "\<not> acyclic (transition_rel demo_config)"
proof -
  have "find_cycles demo_config (build_transition_map (transitions demo_config)) \<noteq> []"
    by code_simp
  with find_cycles_acyclic [OF demo_accepted] show ?thesis by simp
qed

text \<open>Validation accepts a machine in which a run that enters one of three states can
  never finish: each cycle among the three has an exit, but only into the other one. The
  check for dead-end cycles looks at single cycles, not at the set of states they form.\<close>

theorem trap_accepted:
  "accepted trap_config \<and> (''start'', ''hub'') \<in> (transition_rel trap_config)\<^sup>* \<and>
   (transition_rel trap_config)\<^sup>* `` {''hub''} \<subseteq> {''hub'', ''left'', ''right''}"
proof (intro conjI)
  show "accepted trap_config" by code_simp
  let ?m = "build_transition_map (transitions trap_config)"
  have "''hub'' \<in> find_reachable_states trap_config ?m" by code_simp
  then show "(''start'', ''hub'') \<in> (transition_rel trap_config)\<^sup>*"
    by (simp add: find_reachable_states_eq edges_transition_rel)
       (simp add: initial_states_def trap_config_def demo_config_def plain_state_def)
  have "\<forall>x\<in>{''hub'', ''left'', ''right''}. set (successors ?m x) \<subseteq> {''hub'', ''left'', ''right''}"
    by code_simp
  then show "(transition_rel trap_config)\<^sup>* `` {''hub''} \<subseteq> {''hub'', ''left'', ''right''}"
    using tm.closed_reach [of "{''hub'', ''left'', ''right''}" ?m]
    by (auto simp: edges_transition_rel)
qed

end
