(* ===== verification/SM_Parser.thy ===== *)
theory SM_Parser
  imports State_Machine
begin

text \<open>
  The YAML parser of state machines (\<open>engine/sm_parser.py\<close>). The input is the value that
  \<open>yaml.safe_load\<close> returns: scalars, lists and dicts with string keys in file order. The
  code stores most values without a check of their type; a value outside the annotated type
  of its field is the error \<open>IllTyped\<close> here, every other error is the exception that the
  code raises. So a theorem whose premise is a successful parse says nothing of documents with such values,
  which the code accepts and keeps in a field of the wrong type.
\<close>

datatype parse_error =
    EmptyYAML
  | InvalidStateType string yaml
  | UnpackError string
  | AttributeError
  | TypeError
  | AssertionFailed string
  | IllTyped

type_synonym 'a parsed = "parse_error + 'a"

subsection \<open>Access to YAML values\<close>

fun falsy :: "yaml \<Rightarrow> bool" where
  "falsy YNull = True"
| "falsy (YBool b) = (\<not> b)"
| "falsy (YInt n) = (n = 0)"
| "falsy (YFloat x) = (x = 0)"
| "falsy (YStr s) = (s = [])"
| "falsy (YList xs) = (xs = [])"
| "falsy (YMap m) = (m = [])"

text \<open>\<open>y.get(k, default)\<close>\<close>

fun yget :: "yaml \<Rightarrow> string \<Rightarrow> yaml \<Rightarrow> yaml parsed" where
  "yget (YMap m) k d = Inr (dict_get_default m k d)"
| "yget _ k d = Inl AttributeError"

fun yitems :: "yaml \<Rightarrow> (string \<times> yaml) list parsed" where
  "yitems (YMap m) = Inr m"
| "yitems _ = Inl AttributeError"

text \<open>Iteration: a list yields its elements, a dict its keys.\<close>

fun yiter :: "yaml \<Rightarrow> yaml list parsed" where
  "yiter (YList xs) = Inr xs"
| "yiter (YMap m) = Inr (map (\<lambda>(k, v). YStr k) m)"
| "yiter (YStr s) = Inl IllTyped"
| "yiter _ = Inl TypeError"

fun as_str :: "yaml \<Rightarrow> string parsed" where
  "as_str (YStr s) = Inr s"
| "as_str _ = Inl IllTyped"

fun as_bool :: "yaml \<Rightarrow> bool parsed" where
  "as_bool (YBool b) = Inr b"
| "as_bool _ = Inl IllTyped"

fun as_int :: "yaml \<Rightarrow> int parsed" where
  "as_int (YInt n) = Inr n"
| "as_int _ = Inl IllTyped"

fun as_opt_int :: "yaml \<Rightarrow> int option parsed" where
  "as_opt_int YNull = Inr None"
| "as_opt_int (YInt n) = Inr (Some n)"
| "as_opt_int _ = Inl IllTyped"

fun as_opt_str :: "yaml \<Rightarrow> string option parsed" where
  "as_opt_str YNull = Inr None"
| "as_opt_str (YStr s) = Inr (Some s)"
| "as_opt_str _ = Inl IllTyped"

fun as_strs :: "yaml \<Rightarrow> string list parsed" where
  "as_strs (YList xs) = try_map as_str xs"
| "as_strs _ = Inl IllTyped"

fun as_str_dict :: "yaml \<Rightarrow> (string, string) dict parsed" where
  "as_str_dict (YMap m) = try_map (\<lambda>(k, v). try_bind (as_str v) (\<lambda>s. Inr (k, s))) m"
| "as_str_dict _ = Inl IllTyped"

text \<open>\<open>f(y.get(k, default))\<close>, the shape of every field of the parser.\<close>

definition field_of :: "(yaml \<Rightarrow> 'a parsed) \<Rightarrow> yaml \<Rightarrow> string \<Rightarrow> yaml \<Rightarrow> 'a parsed" where
  "field_of f y k d = try_bind (yget y k d) f"

subsection \<open>Human-in-the-loop configuration\<close>

fun parse_ask_user :: "yaml \<Rightarrow> AskDirective list parsed" where
  "parse_ask_user (YStr q) = Inr [\<lparr>ask_question = q, ask_type = ''open'', ask_choices = [],
     ask_required = True, ask_timeout_seconds = 300\<rparr>]"
| "parse_ask_user (YMap m) =
     try_bind (field_of as_str (YMap m) ''question'' (YStr '''')) (\<lambda>q.
     try_bind (field_of as_str (YMap m) ''type'' (YStr ''open'')) (\<lambda>ty.
     try_bind (field_of as_strs (YMap m) ''choices'' (YList [])) (\<lambda>ch.
     try_bind (field_of as_bool (YMap m) ''required'' (YBool True)) (\<lambda>req.
     try_bind (field_of as_int (YMap m) ''timeout'' (YInt 300)) (\<lambda>tmo.
     Inr [\<lparr>ask_question = q, ask_type = ty, ask_choices = ch, ask_required = req,
       ask_timeout_seconds = tmo\<rparr>])))))"
| "parse_ask_user _ = Inr []"

fun parse_ask_if :: "yaml \<Rightarrow> ConditionalAsk list parsed" where
  "parse_ask_if (YMap m) =
     try_bind (field_of as_str (YMap m) ''condition'' (YStr '''')) (\<lambda>c.
     try_bind (field_of as_str (YMap m) ''question'' (YStr '''')) (\<lambda>q.
     try_bind (field_of as_str (YMap m) ''type'' (YStr ''yes_no'')) (\<lambda>ty.
     try_bind (field_of as_strs (YMap m) ''choices'' (YList [])) (\<lambda>ch.
     try_bind (field_of as_str (YMap m) ''on_timeout'' (YStr ''proceed'')) (\<lambda>ot.
     Inr [\<lparr>cond_condition = c, cond_question = q, cond_type = ty, cond_choices = ch,
       cond_on_timeout = ot\<rparr>])))))"
| "parse_ask_if _ = Inr []"

definition parse_hitl :: "yaml \<Rightarrow> HITLConfig option parsed" where
  "parse_hitl y =
     (if falsy y then Inr None
      else
        try_bind (field_of yiter y ''ask_user'' (YList [])) (\<lambda>us.
        try_bind (try_map parse_ask_user us) (\<lambda>uss.
        try_bind (field_of yiter y ''ask_if'' (YList [])) (\<lambda>is.
        try_bind (try_map parse_ask_if is) (\<lambda>iss.
        try_bind (field_of as_bool y ''pause'' (YBool False)) (\<lambda>p.
        try_bind (field_of as_str y ''on_timeout'' (YStr ''proceed'')) (\<lambda>ot.
        try_bind (field_of as_str_dict y ''resume_transitions'' (YMap [])) (\<lambda>rt.
        Inr (Some \<lparr>hitl_pause = p, ask_user = concat uss, ask_if = concat iss,
          hitl_on_timeout = ot, resume_transitions = rt\<rparr>)))))))))"

subsection \<open>States\<close>

definition state_type_map :: "(string, StateType) dict" where
  "state_type_map = [(''initial'', INITIAL), (''intermediate'', INTERMEDIATE),
     (''terminal'', TERMINAL), (''error'', ERROR), (''pause'', PAUSE)]"

text \<open>A list or dict is no key of a Python dict.\<close>

fun parse_state_type :: "string \<Rightarrow> yaml \<Rightarrow> StateType parsed" where
  "parse_state_type name (YStr s) =
     (case dict_get state_type_map s of
        None \<Rightarrow> Inl (InvalidStateType name (YStr s)) | Some t \<Rightarrow> Inr t)"
| "parse_state_type name (YList xs) = Inl TypeError"
| "parse_state_type name (YMap m) = Inl TypeError"
| "parse_state_type name y = Inl (InvalidStateType name y)"

definition parse_state :: "string \<Rightarrow> yaml \<Rightarrow> StateDefinition parsed" where
  "parse_state name s =
     try_bind (field_of (parse_state_type name) s ''type'' (YStr ''intermediate'')) (\<lambda>ty.
     try_bind (field_of as_opt_int s ''max_reentries'' YNull) (\<lambda>mr.
     try_bind (field_of as_opt_int s ''timeout'' YNull) (\<lambda>tmo.
     try_bind (field_of as_strs s ''entry'' (YList [])) (\<lambda>en.
     try_bind (field_of as_strs s ''exit'' (YList [])) (\<lambda>ex.
     try_bind (field_of as_strs s ''validators'' (YList [])) (\<lambda>va.
     try_bind (yget s ''temporal'' (YMap [])) (\<lambda>tp.
     try_bind (field_of as_opt_int tp ''max_duration'' YNull) (\<lambda>md.
     try_bind (field_of as_opt_str tp ''on_timeout'' YNull) (\<lambda>ot.
     try_bind (yget tp ''reminders'' (YList [])) (\<lambda>re.
     try_bind (field_of as_bool s ''requires_manual'' (YBool False)) (\<lambda>rm.
     try_bind (field_of parse_hitl s ''hitl'' (YMap [])) (\<lambda>hi.
     let sd = \<lparr>sd_name = name, state_type = ty, max_reentries = mr, timeout_seconds = tmo,
       entry_hooks = en, exit_hooks = ex, sd_validators = va, temporal_max_duration = md,
       temporal_on_timeout = ot, reminders = re, requires_manual = rm, hitl = hi\<rparr>
     in if post_init_ok sd then Inr sd else Inl (AssertionFailed name)))))))))))))"

fun parse_states ::
    "(string \<times> yaml) list \<Rightarrow> (string, StateDefinition) dict \<Rightarrow> (string, StateDefinition) dict parsed" where
  "parse_states [] d = Inr d"
| "parse_states ((name, s) # rest) d =
     try_bind (parse_state name s) (\<lambda>sd. parse_states rest (dict_set name sd d))"

subsection \<open>Transitions\<close>

definition transition_type_map :: "(string, TransitionType) dict" where
  "transition_type_map = [(''REVERSIBLE'', REVERSIBLE), (''COMPENSABLE'', COMPENSABLE),
     (''IRREVERSIBLE'', IRREVERSIBLE)]"

text \<open>\<open>TRANSITION_TYPE_MAP.get(...)\<close> gives \<open>None\<close> for an unknown type.\<close>

fun parse_transition_type :: "yaml \<Rightarrow> TransitionType option parsed" where
  "parse_transition_type (YStr s) = Inr (dict_get transition_type_map s)"
| "parse_transition_type (YList xs) = Inl TypeError"
| "parse_transition_type (YMap m) = Inl TypeError"
| "parse_transition_type _ = Inr None"

definition split_transition :: "string \<Rightarrow> (string \<times> string) parsed" where
  "split_transition raw_t =
     (case (if py_in '' -> '' raw_t then split_all '' -> '' raw_t else split_all arrow raw_t) of
        [f, t] \<Rightarrow> Inr (strip f, strip t)
      | _ \<Rightarrow> Inl (UnpackError raw_t))"

fun transition_meta :: "yaml \<Rightarrow> string \<Rightarrow> yaml" where
  "transition_meta (YMap m) raw_t = dict_get_default m raw_t (YMap [])"
| "transition_meta _ raw_t = YMap []"

fun parse_transition :: "yaml \<Rightarrow> yaml \<Rightarrow> TransitionDefinition parsed" where
  "parse_transition ts (YStr raw_t) =
     try_bind (split_transition raw_t) (\<lambda>(f, t).
     let meta = transition_meta ts raw_t in
     try_bind (field_of parse_transition_type meta ''type'' (YStr ''REVERSIBLE'')) (\<lambda>ty.
     try_bind (field_of as_opt_str meta ''condition'' YNull) (\<lambda>c.
     try_bind (field_of as_opt_str meta ''action'' YNull) (\<lambda>a.
     try_bind (field_of as_bool meta ''requires_human'' (YBool False)) (\<lambda>rh.
     Inr \<lparr>from_state = f, to_state = t, transition_type = ty, condition = c, action = a,
       requires_human = rh\<rparr>)))))"
| "parse_transition ts (YList xs) = Inl AttributeError"
| "parse_transition ts (YMap m) = Inl AttributeError"
| "parse_transition ts _ = Inl TypeError"

fun parse_rule :: "yaml \<Rightarrow> LTLRule list parsed" where
  "parse_rule (YStr e) = Inr [\<lparr>expression = e, within_seconds = None\<rparr>]"
| "parse_rule (YMap m) =
     try_bind (field_of as_str (YMap m) ''rule'' (YStr '''')) (\<lambda>e.
     try_bind (field_of as_opt_int (YMap m) ''within'' YNull) (\<lambda>w.
     Inr [\<lparr>expression = e, within_seconds = w\<rparr>]))"
| "parse_rule _ = Inr []"

subsection \<open>The whole file\<close>

definition parse_dict :: "yaml \<Rightarrow> StateMachineConfig parsed" where
  "parse_dict raw =
     (if falsy raw then Inl EmptyYAML
      else
        try_bind (field_of yitems raw ''states'' (YMap [])) (\<lambda>ss.
        try_bind (parse_states ss []) (\<lambda>sts.
        try_bind (yget raw ''transitions'' (YList [])) (\<lambda>ts.
        try_bind (yiter ts) (\<lambda>tl.
        try_bind (try_map (parse_transition ts) tl) (\<lambda>trs.
        try_bind (field_of yiter raw ''temporal_constraints'' (YList [])) (\<lambda>rl.
        try_bind (try_map parse_rule rl) (\<lambda>rules.
        try_bind (yget raw ''formal_properties'' (YMap [])) (\<lambda>formal.
        try_bind (yget formal ''termination'' (YMap [])) (\<lambda>te.
        try_bind (field_of as_int te ''max_steps'' (YInt 100)) (\<lambda>ms.
        try_bind (field_of as_str raw ''profile'' (YStr ''unknown'')) (\<lambda>pr.
        try_bind (field_of as_str raw ''name'' (YStr ''unnamed'')) (\<lambda>na.
        try_bind (yget raw ''version'' (YStr ''0.0.0'')) (\<lambda>ve.
        Inr \<lparr>cfg_profile = pr, cfg_name = na, cfg_version = ve, states = sts,
          transitions = trs, ltl_rules = concat rules, max_steps = ms\<rparr>))))))))))))))"

subsection \<open>Properties\<close>

lemma parse_state_name: "parse_state n y = Inr sd \<Longrightarrow> sd_name sd = n \<and> post_init_ok sd"
  by (auto simp: parse_state_def try_bind_Inr Let_def split: if_splits)

lemma parse_states_wf:
  "parse_states ss d = Inr d' \<Longrightarrow> dict_wf d \<Longrightarrow> \<forall>(n, s)\<in>set d. P n s \<Longrightarrow>
   (\<And>n y s. (n, y) \<in> set ss \<Longrightarrow> parse_state n y = Inr s \<Longrightarrow> P n s) \<Longrightarrow>
   dict_wf d' \<and> (\<forall>(n, s)\<in>set d'. P n s) \<and> set (map fst d') = set (map fst d) \<union> set (map fst ss)"
proof (induction ss d arbitrary: d' rule: parse_states.induct)
  case (2 name s rest d)
  from "2.prems"(1) obtain sd where sd: "parse_state name s = Inr sd"
    "parse_states rest (dict_set name sd d) = Inr d'"
    by (auto simp: try_bind_Inr)
  have "\<forall>(n, s)\<in>set (dict_set name sd d). P n s"
    using "2.prems"(2,3,4) sd(1) by (fastforce simp: set_dict_set)
  moreover have "P n sd" if "(n, y) \<in> set rest" "parse_state n y = Inr sd" for n y sd
    using "2.prems"(4) that by auto
  moreover have "dict_wf (dict_set name sd d)" using "2.prems"(2) by simp
  ultimately have ih: "dict_wf d'" "\<forall>(n, s)\<in>set d'. P n s"
    "set (map fst d') = set (map fst (dict_set name sd d)) \<union> set (map fst rest)"
    using "2.IH" [OF sd(2)] by blast+
  have "set (map fst (dict_set name sd d)) = insert name (set (map fst d))"
    using dom_update [of name sd d] by simp
  with ih show ?case by simp
qed auto

lemma parse_transition_names:
  "parse_transition ts y = Inr t \<Longrightarrow> \<exists>raw_t f u. y = YStr raw_t \<and> split_transition raw_t = Inr (f, u) \<and>
     from_state t = f \<and> to_state t = u"
  by (cases y) (auto simp: try_bind_Inr Let_def)

text \<open>C6: a configuration that the parser returns is well formed: exactly the states of the
  file, each stored once, under its own name, parsed from its own entry and past the
  assertions of \<open>__post_init__\<close>, and one transition per entry of the file, in order.\<close>

theorem parse_dict_sound:
  assumes "parse_dict raw = Inr c"
  shows "\<exists>ss ts. yget raw ''states'' (YMap []) = Inr (YMap ss) \<and>
    try_bind (yget raw ''transitions'' (YList [])) yiter = Inr ts \<and>
    config_wf c \<and> set (map fst (states c)) = set (map fst ss) \<and>
    (\<forall>(n, sd)\<in>set (states c). post_init_ok sd \<and> (\<exists>y. (n, y) \<in> set ss \<and> parse_state n y = Inr sd)) \<and>
    list_all2 (\<lambda>y t. \<exists>raw_t f u. y = YStr raw_t \<and> split_transition raw_t = Inr (f, u) \<and>
      from_state t = f \<and> to_state t = u) ts (transitions c)"
proof -
  from assms obtain ss ts tl where s: "field_of yitems raw ''states'' (YMap []) = Inr ss"
    "parse_states ss [] = Inr (states c)"
    and t: "yget raw ''transitions'' (YList []) = Inr ts" "yiter ts = Inr tl"
    "try_map (parse_transition ts) tl = Inr (transitions c)"
    by (auto simp: parse_dict_def try_bind_Inr split: if_splits)
  from s(1) have ss: "yget raw ''states'' (YMap []) = Inr (YMap ss)"
    by (auto simp: field_of_def try_bind_Inr elim: yitems.elims)
  let ?P = "\<lambda>n sd. sd_name sd = n \<and> post_init_ok sd \<and> (\<exists>y. (n, y) \<in> set ss \<and> parse_state n y = Inr sd)"
  have "?P n sd" if "(n, y) \<in> set ss" "parse_state n y = Inr sd" for n y sd
    using that parse_state_name by blast
  from parse_states_wf [OF s(2), of ?P] this
  have wf: "dict_wf (states c)" "\<forall>(n, s)\<in>set (states c). ?P n s"
    "set (map fst (states c)) = set (map fst ss)" by auto
  have "list_all2 (\<lambda>y t. parse_transition ts y = Inr t) tl (transitions c)"
    using t(3) by (rule try_map_Inr)
  then have "list_all2 (\<lambda>y t. \<exists>raw_t f u. y = YStr raw_t \<and> split_transition raw_t = Inr (f, u) \<and>
      from_state t = f \<and> to_state t = u) tl (transitions c)"
    by (rule list_all2_mono) (rule parse_transition_names)
  moreover have "config_wf c"
    using wf(1,2) by (auto simp: config_wf_def)
  ultimately show ?thesis
    using ss t(1,2) wf(2,3) by (intro exI [of _ ss] exI [of _ tl]) auto
qed

definition demo_yaml :: yaml where
  "demo_yaml = YMap [(''profile'', YStr ''content''),
     (''states'', YMap [(''draft'', YMap [(''type'', YStr ''initial''), (''max_reentries'', YInt 1)]),
        (''done'', YMap [(''type'', YStr ''terminal''), (''max_reentries'', YInt 0)])]),
     (''transitions'', YMap [(''draft -> done'', YMap [(''type'', YStr ''IRREVERSABLE'')])])]"

theorem parse_dict_sound_witness:
  "\<exists>c. parse_dict demo_yaml = Inr c \<and> config_wf c \<and> set (map fst (states c)) = {''draft'', ''done''}"
proof -
  have "case parse_dict demo_yaml of Inl _ \<Rightarrow> False | Inr _ \<Rightarrow> True" by code_simp
  then obtain c where c: "parse_dict demo_yaml = Inr c" by (auto split: sum.splits)
  from parse_dict_sound [OF this] c show ?thesis
    by (auto simp: demo_yaml_def dict_get_default_def)
qed

lemma split_first_fresh: "split_first sep s = Some (a, b) \<Longrightarrow> sep \<noteq> [] \<Longrightarrow> \<not> py_in sep a"
proof (induction sep s arbitrary: a b rule: split_first.induct)
  case (1 sep s)
  show ?case
  proof (cases "starts_with s sep")
    case True
    with "1.prems" show ?thesis by (auto simp: split_first.simps [of sep s] py_in_iff)
  next
    case False
    with "1.prems" obtain c cs a' where s: "s = c # cs" "a = c # a'" "split_first sep cs = Some (a', b)"
      by (auto simp: split_first.simps [of sep s] split: list.splits)
    with "1.IH" [OF False s(1,3)] "1.prems"(2) have "\<not> py_in sep a'" by simp
    moreover have "\<not> starts_with a sep"
      using False split_first_Some [OF "1.prems"(1)] by (auto simp: starts_with_def min_def split: if_splits)
    ultimately show ?thesis
      by (auto simp: py_in_def s(2) split_first.simps [of sep "c # a'"])
  qed
qed

lemma split_first_arrow:
  assumes "\<not> py_in arrow f" shows "split_first arrow (f @ arrow @ t) = Some (f, t)"
proof -
  obtain a b where ab: "split_first arrow (f @ arrow @ t) = Some (a, b)"
    using split_first_exists by blast
  then have "\<not> py_in arrow a" using split_first_fresh by (fastforce simp: arrow_def)
  with arrow_join_inject split_first_Some [OF ab] assms have "a = f \<and> b = t" by metis
  with ab show ?thesis by simp
qed

definition no_space :: "string \<Rightarrow> bool" where
  "no_space s \<longleftrightarrow> (\<forall>p\<in>set (code_points s). \<not> space_point p)"

lemma no_blank: "no_space s \<Longrightarrow> CHR '' '' \<notin> set s"
proof
  assume "no_space s" and "CHR '' '' \<in> set s"
  moreover have "is_ascii CHR '' ''" "space_point '' ''" by code_simp+
  ultimately show False using ascii_code_point [of "CHR '' ''" s] by (auto simp: no_space_def)
qed

lemma split_first_dash: "CHR '' '' \<notin> set f \<Longrightarrow> split_first '' -> '' (f @ '' -> '' @ t) = Some (f, t)"
proof (induction f)
  case (Cons c f)
  then have "c \<noteq> CHR '' ''" by auto
  with Cons show ?case by (simp add: split_first.simps [of _ "c # _"] starts_with_def)
qed (simp add: split_first.simps starts_with_def)

lemma no_dash: "CHR '' '' \<notin> set s \<Longrightarrow> split_first '' -> '' s = None"
  using py_in_iff [of "'' -> ''" s] by (auto simp: py_in_def)

lemma strip_id: "no_space s \<Longrightarrow> strip s = s"
  by (rule strip_bare) (cases "s = []"; simp add: bare_def no_space_def)

text \<open>Names without white space survive the key of a transition, written with either
  separator: the parser gets back exactly the two names that were joined.\<close>

theorem transition_roundtrip:
  assumes "no_space f" "no_space t" "\<not> py_in arrow f" "\<not> py_in arrow t"
  shows "split_transition (f @ '' -> '' @ t) = Inr (f, t) \<and> split_transition (f @ arrow @ t) = Inr (f, t)"
proof
  have "py_in '' -> '' (f @ '' -> '' @ t)" by (subst py_in_iff) blast
  then show "split_transition (f @ '' -> '' @ t) = Inr (f, t)"
    using assms(1,2) split_first_dash [OF no_blank [OF assms(1)], of t]
    by (simp add: split_transition_def split_all.simps no_dash no_blank strip_id)
next
  have "CHR '' '' \<notin> set arrow" by code_simp
  then have "CHR '' '' \<notin> set (f @ arrow @ t)" using assms(1,2) by (auto simp: no_blank)
  then have "\<not> py_in '' -> '' (f @ arrow @ t)" by (simp add: py_in_def no_dash)
  moreover have "arrow \<noteq> []" by (simp add: arrow_def)
  moreover have "split_first arrow t = None"
    using assms(4) unfolding py_in_def by blast
  ultimately show "split_transition (f @ arrow @ t) = Inr (f, t)"
    using assms(1,2,3) by (simp add: split_transition_def split_all.simps split_first_arrow strip_id)
qed

theorem transition_roundtrip_witness:
  "split_transition (''draft'' @ arrow @ ''review'') = Inr (''draft'', ''review'')"
  by (rule transition_roundtrip [THEN conjunct2]; code_simp)

text \<open>A misspelt type is an error for a state but not for a transition: the parser
  accepts the transition and gives it no type at all.\<close>

theorem unknown_type:
  assumes "dict_get state_type_map s = None" and "dict_get transition_type_map s = None"
    and "split_transition raw_t = Inr (f, t)"
  shows "parse_state name (YMap ((''type'', YStr s) # m)) = Inl (InvalidStateType name (YStr s)) \<and>
    parse_transition (YMap ((raw_t, YMap [(''type'', YStr s)]) # ts)) (YStr raw_t) =
      Inr ((plain_transition f t)\<lparr>transition_type := None\<rparr>)"
  using assms by (simp add: parse_state_def field_of_def dict_get_default_def plain_transition_def)

theorem unknown_type_witness:
  "parse_transition (YMap [(''a -> b'', YMap [(''type'', YStr ''reversible'')])]) (YStr ''a -> b'') =
     Inr ((plain_transition ''a'' ''b'')\<lparr>transition_type := None\<rparr>)"
proof -
  have "split_transition ''a -> b'' = Inr (''a'', ''b'')" by code_simp
  from unknown_type [of "''reversible''", OF _ _ this]
  show ?thesis by (simp add: state_type_map_def transition_type_map_def)
qed

end
