(* ===== verification/SM_Runtime.thy ===== *)
theory SM_Runtime
  imports State_Machine
begin

text \<open>
  \<open>engine/state_machine.py\<close>, run time: transition conditions, the LTL rules over the
  history dict, \<open>can_transition\<close> and \<open>get_next_states\<close> with their LRU cache, and the
  human-in-the-loop queries. The messages of the returned tuples are values of
  \<open>reason\<close>, one constructor per f-string. Nothing these methods call raises on the
  modelled types, so their \<open>except\<close> branches have no counterpart.
\<close>

subsection \<open>Conditions\<close>

definition get_runtime_field :: "string \<Rightarrow> RuntimeState \<Rightarrow> int option" where
  "get_runtime_field f r =
     (if f = ''iterations'' then Some (iteration_count r)
      else if f = ''iteration_count'' then Some (iteration_count r)
      else if f = ''drift_count'' then Some (drift_count r)
      else if f = ''failures'' then Some (consecutive_failures r)
      else if f = ''consecutive_failures'' then Some (consecutive_failures r)
      else if f = ''reentry_count'' then Some (reentry_count r)
      else if f = ''total_iterations'' then Some (total_iterations r)
      else None)"

definition comparison_ops :: "string list" where
  "comparison_ops = [''>='', ''<='', ''>'', ''<'', ''=='', ''!='']"

definition compare_op :: "string \<Rightarrow> int \<Rightarrow> int \<Rightarrow> bool" where
  "compare_op op a b =
     (if op = ''>='' then a \<ge> b
      else if op = ''<='' then a \<le> b
      else if op = ''>'' then a > b
      else if op = ''<'' then a < b
      else if op = ''=='' then a = b
      else a \<noteq> b)"

definition boolean_condition :: "string \<Rightarrow> RuntimeState \<Rightarrow> bool option" where
  "boolean_condition name r =
     (if name = ''human_approved'' then Some (human_approved r)
      else if name = ''drift_detected'' then Some (drift_count r > 0)
      else if name = ''consecutive_failures'' then Some (consecutive_failures r > 0)
      else if name = ''changes_requested'' then Some (changes_requested r)
      else if name = ''manual_unblock'' then Some (manual_unblock r)
      else if name = ''project_abandoned'' then Some (project_abandoned r)
      else if name = ''max_iterations_exceeded'' then Some (total_iterations r > iteration_count r)
      else None)"

definition evaluate_comparison :: "string \<Rightarrow> string \<Rightarrow> string \<Rightarrow> RuntimeState \<Rightarrow> bool" where
  "evaluate_comparison op f v r =
     (case parse_int (strip v) of
        None \<Rightarrow> True
      | Some target \<Rightarrow>
          (case get_runtime_field (strip f) r of
             None \<Rightarrow> True
           | Some actual \<Rightarrow> compare_op op actual target))"

definition evaluate_single_condition :: "string \<Rightarrow> RuntimeState \<Rightarrow> bool" where
  "evaluate_single_condition cond0 r =
     (let cond = strip cond0 in
      case List.find (\<lambda>op. py_in op cond) comparison_ops of
        Some op \<Rightarrow>
          (case split_first op cond of
             Some (f, v) \<Rightarrow> evaluate_comparison op f v r
           | None \<Rightarrow> True)
      | None \<Rightarrow>
          (let base = (case split_first ''('' cond of Some (b, _) \<Rightarrow> strip b | None \<Rightarrow> cond)
           in case boolean_condition base r of Some b \<Rightarrow> b | None \<Rightarrow> True))"

definition evaluate_condition :: "string \<Rightarrow> RuntimeState \<Rightarrow> bool" where
  "evaluate_condition cond0 r =
     (if cond0 = [] then True
      else let cond = strip cond0 in
        if py_in '' OR '' cond then
          list_ex (\<lambda>p. evaluate_single_condition (strip p) r) (split_all '' OR '' cond)
        else if py_in '' AND '' cond then
          list_all (\<lambda>p. evaluate_single_condition (strip p) r) (split_all '' AND '' cond)
        else evaluate_single_condition cond r)"

subsection \<open>LTL rules\<close>

datatype ltl_reason =
    XNotSatisfied string
  | GViolated string string
  | UntilViolated string string string
  | PlainNotMet string

text \<open>\<open>expr[2:-1]\<close> of an expression such as \<open>G(inner)\<close>.\<close>

definition ltl_inner :: "string \<Rightarrow> string" where
  "ltl_inner e = butlast (drop 2 e)"

definition ltl_op :: "string \<Rightarrow> string \<Rightarrow> bool" where
  "ltl_op op e \<longleftrightarrow> starts_with e op \<and> ends_with e '')''"

definition evaluate_ltl_rule ::
    "string \<Rightarrow> RuntimeState \<Rightarrow> LTLRule \<Rightarrow> ltl_history \<Rightarrow> ltl_history \<times> ltl_reason option" where
  "evaluate_ltl_rule cur r rule h =
     (let expr = strip (expression rule) in
      if ltl_op ''G('' expr then
        (let inner = ltl_inner expr;
             result = evaluate_single_condition inner r;
             key = ''G('' @ inner @ '')'';
             value = (case dict_get (G_evaluations h) key of None \<Rightarrow> result | Some b \<Rightarrow> b \<and> result)
         in (h\<lparr>G_evaluations := dict_set key value (G_evaluations h)\<rparr>,
             if \<not> value then Some (GViolated inner cur) else None))
      else if ltl_op ''F('' expr then
        (let inner = ltl_inner expr;
             result = evaluate_single_condition inner r;
             key = ''F('' @ inner @ '')'';
             value = (case dict_get (F_evaluations h) key of None \<Rightarrow> result | Some b \<Rightarrow> b \<or> result)
         in (h\<lparr>F_evaluations := dict_set key value (F_evaluations h)\<rparr>, None))
      else if ltl_op ''X('' expr then
        (h\<lparr>X_pending := X_pending h @ [ltl_inner expr]\<rparr>, None)
      else
        (case split_first '' U '' expr of
           Some (a0, b0) \<Rightarrow>
             (let a = strip a0; b = strip b0;
                  result_a = evaluate_single_condition a r;
                  result_b = evaluate_single_condition b r;
                  key = ''U('' @ a @ '','' @ b @ '')''
              in if dict_get_default (U_states h) key ''waiting'' = ''waiting'' then
                   (if result_b then
                      (h\<lparr>U_states := dict_set key ''satisfied'' (U_states h)\<rparr>, None)
                    else if \<not> result_a then (h, Some (UntilViolated a b cur))
                    else (h, None))
                 else (h, None))
         | None \<Rightarrow>
             (h, if evaluate_single_condition expr r then None else Some (PlainNotMet expr))))"

fun evaluate_rules ::
    "string \<Rightarrow> RuntimeState \<Rightarrow> LTLRule list \<Rightarrow> ltl_history \<Rightarrow> ltl_history \<times> ltl_reason option" where
  "evaluate_rules cur r [] h = (h, None)"
| "evaluate_rules cur r (rule # rules) h =
     (case evaluate_ltl_rule cur r rule h of
        (h', Some reason) \<Rightarrow> (h', Some reason)
      | (h', None) \<Rightarrow> evaluate_rules cur r rules h')"

definition snapshot_of :: "string \<Rightarrow> RuntimeState \<Rightarrow> snapshot_entry" where
  "snapshot_of cur r = \<lparr>snap_state = cur, snap_iteration_count = iteration_count r,
     snap_drift_count = drift_count r, snap_consecutive_failures = consecutive_failures r,
     snap_human_approved = human_approved r\<rparr>"

definition evaluate_ltl_rules ::
    "LTLRule list \<Rightarrow> string \<Rightarrow> RuntimeState \<Rightarrow> ltl_history \<Rightarrow> ltl_history \<times> ltl_reason option" where
  "evaluate_ltl_rules rules cur r h0 =
     (if rules = [] then (h0, None)
      else
        let h = h0\<lparr>state_snapshots := state_snapshots h0 @ [snapshot_of cur r]\<rparr>
        in case List.find (\<lambda>e. \<not> evaluate_single_condition e r) (X_pending h) of
             Some e \<Rightarrow> (h, Some (XNotSatisfied e))
           | None \<Rightarrow> evaluate_rules cur r rules (h\<lparr>X_pending := []\<rparr>))"

subsection \<open>The machine and its LRU cache\<close>

datatype reason =
    TransitionAllowed
  | SourceStateNotFound string
  | TargetStateNotFound string
  | TerminalSource string
  | NoTransition string string
  | NeedsHumanApproval
  | MaxReentriesExceeded int string
  | LtlReason ltl_reason
  | ConditionNotMet string

text \<open>
  One \<open>OrderedDict\<close> caches the lists of \<open>get_next_states\<close> and the tuples of
  \<open>can_transition\<close>, under keys that are plain strings.
\<close>

datatype cache_entry = NextEntry "string list" | CanEntry bool reason

record StateMachine =
  sm_config :: StateMachineConfig
  sm_transition_map :: transition_map
  transition_cache :: "(string, cache_entry) dict"
  lru_size :: int

definition init_machine :: "StateMachineConfig \<Rightarrow> int \<Rightarrow> ValidationError list + StateMachine" where
  "init_machine c lru =
     (let m = build_transition_map (transitions c)
      in try_bind (validate_or_raise c m)
           (\<lambda>_. Inr \<lparr>sm_config = c, sm_transition_map = m, transition_cache = [], lru_size = lru\<rparr>))"

definition next_key :: "string \<Rightarrow> string" where
  "next_key s = ''next:'' @ s"

definition transition_key :: "string \<Rightarrow> string \<Rightarrow> string" where
  "transition_key f t = f @ arrow @ t"

definition move_to_end :: "string \<Rightarrow> cache_entry \<Rightarrow> StateMachine \<Rightarrow> StateMachine" where
  "move_to_end k e sm =
     sm\<lparr>transition_cache := dict_del k (transition_cache sm) @ [(k, e)]\<rparr>"

definition store_entry :: "string \<Rightarrow> cache_entry \<Rightarrow> StateMachine \<Rightarrow> StateMachine" where
  "store_entry k e sm =
     (let cache = dict_set k e (transition_cache sm)
      in sm\<lparr>transition_cache := if int (length cache) > lru_size sm then tl cache else cache\<rparr>)"

definition get_next_states :: "string \<Rightarrow> StateMachine \<Rightarrow> cache_entry \<times> StateMachine" where
  "get_next_states cur sm =
     (let key = next_key cur in
      case dict_get (transition_cache sm) key of
        Some e \<Rightarrow> (e, move_to_end key e sm)
      | None \<Rightarrow>
          (let result = NextEntry (successors (sm_transition_map sm) cur)
           in (result, store_entry key result sm)))"

subsection \<open>can_transition\<close>

text \<open>The checks that do not look at the runtime, in the order of the code.\<close>

definition find_transition ::
    "StateMachine \<Rightarrow> string \<Rightarrow> string \<Rightarrow> reason + TransitionDefinition" where
  "find_transition sm f t =
     (case dict_get (states (sm_config sm)) f of
        None \<Rightarrow> Inl (SourceStateNotFound f)
      | Some sf \<Rightarrow>
          (case dict_get (states (sm_config sm)) t of
             None \<Rightarrow> Inl (TargetStateNotFound t)
           | Some st \<Rightarrow>
               if state_type sf = TERMINAL then Inl (TerminalSource f)
               else (case filter (\<lambda>x. to_state x = t) (transitions_from (sm_transition_map sm) f) of
                       [] \<Rightarrow> Inl (NoTransition f t)
                     | x # _ \<Rightarrow> if requires_human x then Inl NeedsHumanApproval else Inr x)))"

definition reentry_exceeded :: "StateMachine \<Rightarrow> string \<Rightarrow> string \<Rightarrow> RuntimeState \<Rightarrow> int option" where
  "reentry_exceeded sm f t r =
     (case dict_get (states (sm_config sm)) t of
        None \<Rightarrow> None
      | Some st \<Rightarrow>
          (case max_reentries st of
             None \<Rightarrow> None
           | Some n \<Rightarrow> if f = t \<and> reentry_count r \<ge> n then Some n else None))"

definition condition_holds :: "TransitionDefinition \<Rightarrow> RuntimeState \<Rightarrow> bool" where
  "condition_holds x r =
     (case condition x of None \<Rightarrow> True | Some c \<Rightarrow> c = [] \<or> evaluate_condition c r)"

text \<open>\<open>can_transition(f, t)\<close> without a runtime: cached, and only a success is stored.\<close>

definition can_transition_static ::
    "string \<Rightarrow> string \<Rightarrow> StateMachine \<Rightarrow> cache_entry \<times> StateMachine" where
  "can_transition_static f t sm =
     (let key = transition_key f t in
      case dict_get (transition_cache sm) key of
        Some e \<Rightarrow> (e, move_to_end key e sm)
      | None \<Rightarrow>
          (case find_transition sm f t of
             Inl reason \<Rightarrow> (CanEntry False reason, sm)
           | Inr x \<Rightarrow>
               (CanEntry True TransitionAllowed,
                store_entry key (CanEntry True TransitionAllowed) sm)))"

text \<open>
  \<open>can_transition(f, t, runtime, ltl_runtime)\<close>: no cache; returns the verdict, the runtime
  with its re-entry count, and the LTL history it was given, updated.
\<close>

definition can_transition ::
    "StateMachine \<Rightarrow> string \<Rightarrow> string \<Rightarrow> RuntimeState \<Rightarrow> ltl_history option
      \<Rightarrow> (bool \<times> reason) \<times> RuntimeState \<times> ltl_history option" where
  "can_transition sm f t r hist =
     (case find_transition sm f t of
        Inl reason \<Rightarrow> ((False, reason), r, hist)
      | Inr x \<Rightarrow>
          (case reentry_exceeded sm f t r of
             Some n \<Rightarrow> ((False, MaxReentriesExceeded n t), r, hist)
           | None \<Rightarrow>
               (let (hist', violation) =
                  (case hist of
                     None \<Rightarrow> (None, None)
                   | Some h \<Rightarrow> (case evaluate_ltl_rules (ltl_rules (sm_config sm)) f r h of
                                (h', v) \<Rightarrow> (Some h', v)))
                in case violation of
                     Some v \<Rightarrow> ((False, LtlReason v), r, hist')
                   | None \<Rightarrow>
                       if \<not> condition_holds x r then
                         ((False, ConditionNotMet (the (condition x))), r, hist')
                       else ((True, TransitionAllowed),
                             (if f = t then r\<lparr>reentry_count := reentry_count r + 1\<rparr> else r), hist'))))"

subsection \<open>Human in the loop\<close>

datatype question =
    AskUserQuestion AskDirective
  | AskIfQuestion ConditionalAsk

definition get_hitl_questions :: "StateMachine \<Rightarrow> string \<Rightarrow> RuntimeState \<Rightarrow> question list" where
  "get_hitl_questions sm name r =
     (case dict_get (states (sm_config sm)) name of
        None \<Rightarrow> []
      | Some sd \<Rightarrow>
          (case hitl sd of
             None \<Rightarrow> []
           | Some h \<Rightarrow>
               map AskUserQuestion (ask_user h) @
               map AskIfQuestion (filter (\<lambda>a. evaluate_condition (cond_condition a) r) (ask_if h))))"

definition evaluate_resume_transition ::
    "StateMachine \<Rightarrow> string \<Rightarrow> (string, string) dict \<Rightarrow> string option" where
  "evaluate_resume_transition sm name answers =
     (case dict_get (states (sm_config sm)) name of
        None \<Rightarrow> None
      | Some sd \<Rightarrow>
          (case hitl sd of
             None \<Rightarrow> None
           | Some h \<Rightarrow>
               (case List.find (\<lambda>(answer, target). answer \<in> set (dict_values answers)) (resume_transitions h) of
                  Some (answer, target) \<Rightarrow> Some target
                | None \<Rightarrow> dict_get (resume_transitions h) ''*'')))"

definition is_pause_state :: "StateMachine \<Rightarrow> string \<Rightarrow> bool" where
  "is_pause_state sm name =
     (case dict_get (states (sm_config sm)) name of
        None \<Rightarrow> False
      | Some sd \<Rightarrow> state_type sd = PAUSE \<or>
          (case hitl sd of None \<Rightarrow> False | Some h \<Rightarrow> has_questions h))"

definition get_transition_type :: "StateMachine \<Rightarrow> string \<Rightarrow> string \<Rightarrow> TransitionType option" where
  "get_transition_type sm f t =
     (case filter (\<lambda>x. to_state x = t) (transitions_from (sm_transition_map sm) f) of
        [] \<Rightarrow> Some REVERSIBLE
      | x # _ \<Rightarrow> transition_type x)"

text \<open>\<open>create_runtime\<close>; \<^const>\<open>None\<close> is the \<open>ValueError\<close> of a machine without initial state.\<close>

definition create_runtime :: "StateMachine \<Rightarrow> string option \<Rightarrow> datetime \<Rightarrow> RuntimeState option" where
  "create_runtime sm initial now =
     (case initial of
        Some s \<Rightarrow> if s \<noteq> [] then Some (new_runtime s now)
                  else (case initial_states (sm_config sm) of [] \<Rightarrow> None
                        | i # _ \<Rightarrow> Some (new_runtime (sd_name i) now))
      | None \<Rightarrow> (case initial_states (sm_config sm) of [] \<Rightarrow> None
                 | i # _ \<Rightarrow> Some (new_runtime (sd_name i) now)))"

subsection \<open>The cache is transparent\<close>

datatype query = QNext string | QCan string string

fun answer :: "query \<Rightarrow> StateMachine \<Rightarrow> cache_entry \<times> StateMachine" where
  "answer (QNext s) sm = get_next_states s sm"
| "answer (QCan f t) sm = can_transition_static f t sm"

definition run_query :: "query \<Rightarrow> StateMachine \<Rightarrow> StateMachine" where
  "run_query q sm = snd (answer q sm)"

text \<open>The answer without a cache.\<close>

fun uncached_answer :: "query \<Rightarrow> StateMachine \<Rightarrow> cache_entry" where
  "uncached_answer (QNext s) sm = NextEntry (successors (sm_transition_map sm) s)"
| "uncached_answer (QCan f t) sm =
     (case find_transition sm f t of
        Inl reason \<Rightarrow> CanEntry False reason
      | Inr _ \<Rightarrow> CanEntry True TransitionAllowed)"

text \<open>The keys of the two methods cannot collide for names without the arrow and without
  the prefix \<open>next:\<close>.\<close>

definition name_ok :: "string \<Rightarrow> bool" where
  "name_ok s \<longleftrightarrow> \<not> py_in arrow s \<and> \<not> starts_with s ''next:''"

fun query_ok :: "query \<Rightarrow> bool" where
  "query_ok (QNext s) \<longleftrightarrow> name_ok s"
| "query_ok (QCan f t) \<longleftrightarrow> name_ok f \<and> name_ok t"

fun query_key :: "query \<Rightarrow> string" where
  "query_key (QNext s) = next_key s"
| "query_key (QCan f t) = transition_key f t"

lemma next_key_neq_transition_key: "name_ok f \<Longrightarrow> next_key s \<noteq> transition_key f t"
proof
  assume ok: "name_ok f" and eq: "next_key s = transition_key f t"
  then have e: "''next:'' @ s = f @ arrow @ t" by (simp add: next_key_def transition_key_def)
  show False
  proof (cases "length ''next:'' \<le> length f")
    case True
    have "take 5 (f @ arrow @ t) = ''next:''" by (simp only: e [symmetric]) simp
    with True have "take 5 f = ''next:''" by simp
    with ok show False by (simp add: name_ok_def starts_with_def eval_nat_numeral)
  next
    case False
    then have n: "length f < 5" by simp
    have "(f @ arrow @ t) ! length f = CHR 0xE2" by (simp add: nth_append arrow_def)
    then have "(''next:'' @ s) ! length f = CHR 0xE2" by (simp only: e)
    moreover have "length f = 0 \<or> length f = 1 \<or> length f = 2 \<or> length f = 3 \<or> length f = 4"
      using n by arith
    ultimately show False by (elim disjE) (simp_all add: eval_nat_numeral)
  qed
qed

lemma query_key_inject:
  "query_ok p \<Longrightarrow> query_ok q \<Longrightarrow> query_key p = query_key q \<Longrightarrow> p = q"
proof (cases p; cases q)
  fix f t f' t'
  assume "query_ok p" "query_ok q" "query_key p = query_key q" "p = QCan f t" "q = QCan f' t'"
  then show "p = q"
    using arrow_join_inject [of f t f' t'] by (auto simp: transition_key_def name_ok_def)
qed (auto simp: next_key_neq_transition_key next_key_neq_transition_key [symmetric], simp add: next_key_def)

definition cache_inv :: "StateMachine \<Rightarrow> bool" where
  "cache_inv sm \<longleftrightarrow> dict_wf (transition_cache sm) \<and>
     int (length (transition_cache sm)) \<le> max 0 (lru_size sm) \<and>
     (\<forall>(k, e)\<in>set (transition_cache sm).
        \<exists>q. query_ok q \<and> query_key q = k \<and> e = uncached_answer q sm)"

lemma find_transition_cong:
  "sm_config sm' = sm_config sm \<Longrightarrow> sm_transition_map sm' = sm_transition_map sm \<Longrightarrow>
   find_transition sm' f t = find_transition sm f t"
  by (simp add: find_transition_def cong: option.case_cong list.case_cong if_cong)

lemma uncached_answer_cong:
  "sm_config sm' = sm_config sm \<Longrightarrow> sm_transition_map sm' = sm_transition_map sm \<Longrightarrow>
   uncached_answer q sm' = uncached_answer q sm"
  by (cases q) (simp_all add: find_transition_cong [of sm' sm])

lemma uncached_answer_cache [simp]:
  "uncached_answer q (sm\<lparr>transition_cache := c\<rparr>) = uncached_answer q sm"
  by (rule uncached_answer_cong) simp_all

lemma store_entry_frame [simp]:
  "sm_config (store_entry k e sm) = sm_config sm"
  "sm_transition_map (store_entry k e sm) = sm_transition_map sm"
  "lru_size (store_entry k e sm) = lru_size sm"
  "sm_config (move_to_end k e sm) = sm_config sm"
  "sm_transition_map (move_to_end k e sm) = sm_transition_map sm"
  "lru_size (move_to_end k e sm) = lru_size sm"
  by (simp_all add: store_entry_def move_to_end_def Let_def)

lemma run_query_frame [simp]:
  "sm_config (run_query q sm) = sm_config sm"
  "sm_transition_map (run_query q sm) = sm_transition_map sm"
  "lru_size (run_query q sm) = lru_size sm"
  by (cases q; simp add: run_query_def get_next_states_def can_transition_static_def Let_def
      split: option.splits sum.splits)+

lemma cache_hit:
  assumes "cache_inv sm" "query_ok q" "dict_get (transition_cache sm) (query_key q) = Some e"
  shows "e = uncached_answer q sm"
proof -
  have "(query_key q, e) \<in> set (transition_cache sm)" using assms(3) by (rule map_of_SomeD)
  with assms(1) obtain p where "query_ok p" "query_key p = query_key q" "e = uncached_answer p sm"
    by (auto simp: cache_inv_def)
  with query_key_inject [OF this(1) assms(2)] show ?thesis by simp
qed

lemma cache_inv_move:
  assumes "cache_inv sm" "dict_get (transition_cache sm) k = Some e"
  shows "cache_inv (move_to_end k e sm)"
proof -
  let ?d = "transition_cache sm"
  have wf: "dict_wf ?d" and has: "dict_has ?d k" and mem: "(k, e) \<in> set ?d"
    using assms by (auto simp: cache_inv_def dict_has_def dest: map_of_SomeD)
  have len: "length (dict_del k ?d @ [(k, e)]) = length ?d"
    using length_dict_del [OF wf, of k] has length_pos_if_in_set [OF mem] by simp
  have wf': "dict_wf (dict_del k ?d @ [(k, e)])"
    using wf dict_wf_del [OF wf, of k] by (auto simp: dict_wf_def set_dict_del)
  have "\<forall>(k, e)\<in>set (dict_del k ?d @ [(k, e)]).
      \<exists>q. query_ok q \<and> query_key q = k \<and> e = uncached_answer q sm"
    using assms(1) mem by (auto simp: cache_inv_def set_dict_del)
  with wf' len assms(1) show ?thesis
    by (simp add: cache_inv_def move_to_end_def del: length_append)
qed

lemma cache_inv_store:
  assumes inv: "cache_inv sm" and q: "query_ok q"
    and new: "dict_get (transition_cache sm) (query_key q) = None"
  shows "cache_inv (store_entry (query_key q) (uncached_answer q sm) sm)"
proof -
  let ?k = "query_key q" and ?e = "uncached_answer q sm" and ?d = "transition_cache sm"
  have wf: "dict_wf ?d" using inv by (simp add: cache_inv_def)
  have upd: "dict_set ?k ?e ?d = ?d @ [(?k, ?e)]"
    using new by (intro dict_set_append) (simp add: dict_has_def)
  have wf': "dict_wf (?d @ [(?k, ?e)])"
    using dict_wf_set [OF wf, of ?k ?e] upd by simp
  have wft: "dict_wf (tl (?d @ [(?k, ?e)]))"
    using wf' by (cases "?d @ [(?k, ?e)]") (auto simp: dict_wf_def)
  have ok: "\<forall>(k, e)\<in>set (?d @ [(?k, ?e)]). \<exists>q. query_ok q \<and> query_key q = k \<and> e = uncached_answer q sm"
    using inv q by (auto simp: cache_inv_def)
  have okt: "\<forall>(k, e)\<in>set (tl (?d @ [(?k, ?e)])). \<exists>q. query_ok q \<and> query_key q = k \<and> e = uncached_answer q sm"
    using ok by (cases "?d @ [(?k, ?e)]") auto
  have len: "int (length ?d) \<le> max 0 (lru_size sm)" using inv by (simp add: cache_inv_def)
  show ?thesis
    unfolding cache_inv_def store_entry_def Let_def upd
    using wf' wft ok okt len by (simp del: tl_append2)
qed

lemma cache_inv_query: "cache_inv sm \<Longrightarrow> query_ok q \<Longrightarrow> cache_inv (run_query q sm)"
proof (cases q)
  case (QNext s)
  assume "cache_inv sm" "query_ok q"
  with QNext cache_inv_store [of sm q] show ?thesis
    by (auto simp: run_query_def get_next_states_def Let_def cache_inv_move split: option.splits)
next
  case (QCan f t)
  assume "cache_inv sm" "query_ok q"
  with QCan cache_inv_store [of sm q] show ?thesis
    by (auto simp: run_query_def can_transition_static_def Let_def cache_inv_move
        split: option.splits sum.splits)
qed

lemma answer_uncached: "cache_inv sm \<Longrightarrow> query_ok q \<Longrightarrow> fst (answer q sm) = uncached_answer q sm"
  by (cases q)
     (auto simp: get_next_states_def can_transition_static_def Let_def
       dest: cache_hit [of sm q] split: option.splits sum.splits)

interpretation cache: guarded_system run_query query_ok cache_inv
  by unfold_locales (rule cache_inv_query)

lemma init_machine_Inr:
  "init_machine c lru = Inr sm \<longleftrightarrow> accepted c \<and> sm = \<lparr>sm_config = c,
     sm_transition_map = build_transition_map (transitions c), transition_cache = [], lru_size = lru\<rparr>"
  by (auto simp: init_machine_def Let_def try_bind_Inr accepted_def)

lemma cache_inv_init: "init_machine c lru = Inr sm \<Longrightarrow> cache_inv sm"
  by (auto simp: init_machine_Inr cache_inv_def)

text \<open>C5: the LRU cache never changes an answer: after any sequence of lookups through a new
  machine, \<open>get_next_states\<close> and the static \<open>can_transition\<close> answer as they would without a
  cache, and the cache never outgrows its size. The state names asked for must not contain the
  arrow of the keys nor start with \<open>next:\<close>, since the two methods share one key space.\<close>

theorem cache_transparent:
  assumes "init_machine c lru = Inr sm" and "list_all query_ok qs" and "query_ok q"
  shows "fst (answer q (fold run_query qs sm)) = uncached_answer q sm \<and>
    int (length (transition_cache (fold run_query qs sm))) \<le> max 0 lru"
proof -
  let ?sm = "fold run_query qs sm"
  have inv: "cache_inv ?sm"
    using cache.guarded_run [OF cache_inv_init [OF assms(1)] assms(2)] .
  have frame: "sm_config ?sm = sm_config sm \<and> sm_transition_map ?sm = sm_transition_map sm \<and>
      lru_size ?sm = lru_size sm"
    by (induction qs arbitrary: sm) simp_all
  then have "uncached_answer q ?sm = uncached_answer q sm"
    by (intro uncached_answer_cong) simp_all
  with inv frame assms(1,3) show ?thesis
    by (simp add: answer_uncached) (simp add: cache_inv_def init_machine_Inr)
qed

definition demo_machine :: "int \<Rightarrow> StateMachine" where
  "demo_machine lru = \<lparr>sm_config = demo_config,
     sm_transition_map = build_transition_map (transitions demo_config), transition_cache = [],
     lru_size = lru\<rparr>"

lemma init_demo: "init_machine demo_config lru = Inr (demo_machine lru)"
  by (simp add: init_machine_Inr demo_accepted demo_machine_def)

theorem cache_transparent_witness:
  "fst (answer (QCan ''start'' ''process'')
     (fold run_query [QNext ''start'', QCan ''start'' ''process''] (demo_machine 1))) =
   uncached_answer (QCan ''start'' ''process'') (demo_machine 1)"
proof -
  have "list_all query_ok [QNext ''start'', QCan ''start'' ''process'']" by code_simp
  moreover have "query_ok (QCan ''start'' ''process'')" by code_simp
  ultimately show ?thesis using cache_transparent [OF init_demo] by blast
qed

subsection \<open>What an allowed transition guarantees\<close>

lemma find_transition_Inr:
  assumes "init_machine c lru = Inr sm" and "find_transition sm f t = Inr x"
  shows "x \<in> set (transitions c) \<and> from_state x = f \<and> to_state x = t \<and> \<not> requires_human x \<and>
    (\<exists>sf st. dict_get (states c) f = Some sf \<and> state_type sf \<noteq> TERMINAL \<and>
      dict_get (states c) t = Some st)"
proof -
  have m: "sm_transition_map sm = build_transition_map (transitions c)" "sm_config sm = c"
    using assms(1) by (auto simp: init_machine_Inr)
  obtain sf st xs where "dict_get (states c) f = Some sf" "dict_get (states c) t = Some st"
    "state_type sf \<noteq> TERMINAL" "\<not> requires_human x"
    "filter (\<lambda>x. to_state x = t) (transitions_from (sm_transition_map sm) f) = x # xs"
    using assms(2) by (auto simp: find_transition_def m(2) split: option.splits if_splits list.splits)
  moreover from this(5) have "x \<in> set (filter (\<lambda>x. to_state x = t) (filter (\<lambda>x. from_state x = f) (transitions c)))"
    by (simp add: m(1) transitions_from_build)
  ultimately show ?thesis by simp
qed

lemma can_transition_allowed:
  assumes "can_transition sm f t r hist = ((True, reason), r', hist')"
  shows "\<exists>x. find_transition sm f t = Inr x \<and> reentry_exceeded sm f t r = None \<and>
    condition_holds x r \<and> (\<forall>h. hist = Some h \<longrightarrow> snd (evaluate_ltl_rules (ltl_rules (sm_config sm)) f r h) = None) \<and>
    r' = (if f = t then r\<lparr>reentry_count := reentry_count r + 1\<rparr> else r)"
  using assms by (auto simp: can_transition_def Let_def split: sum.splits option.splits prod.splits if_splits)

text \<open>Whenever \<open>can_transition\<close> allows a move, the configuration holds a transition between
  the two states that needs no human approval and whose condition the runtime satisfies, the
  source is declared and not terminal, the target is declared, the LTL rules hold, and a
  self-loop is below the re-entry bound of its state; only a self-loop changes the runtime, by
  one re-entry.\<close>

theorem can_transition_sound:
  assumes "init_machine c lru = Inr sm"
    and "can_transition sm f t r hist = ((True, reason), r', hist')"
  shows "\<exists>x. x \<in> set (transitions c) \<and> from_state x = f \<and> to_state x = t \<and> \<not> requires_human x \<and>
      condition_holds x r \<and>
    (\<exists>sf st. dict_get (states c) f = Some sf \<and> state_type sf \<noteq> TERMINAL \<and>
      dict_get (states c) t = Some st \<and>
      (\<forall>n. f = t \<and> max_reentries st = Some n \<longrightarrow> reentry_count r < n)) \<and>
    (\<forall>h. hist = Some h \<longrightarrow> snd (evaluate_ltl_rules (ltl_rules c) f r h) = None) \<and>
    r' = (if f = t then r\<lparr>reentry_count := reentry_count r + 1\<rparr> else r)"
proof -
  have c: "sm_config sm = c" using assms(1) by (auto simp: init_machine_Inr)
  from can_transition_allowed [OF assms(2)] obtain x where x: "find_transition sm f t = Inr x"
    "reentry_exceeded sm f t r = None" "condition_holds x r"
    "\<forall>h. hist = Some h \<longrightarrow> snd (evaluate_ltl_rules (ltl_rules c) f r h) = None"
    "r' = (if f = t then r\<lparr>reentry_count := reentry_count r + 1\<rparr> else r)"
    by (auto simp: c)
  from find_transition_Inr [OF assms(1) x(1)] obtain sf st where s:
    "x \<in> set (transitions c)" "from_state x = f" "to_state x = t" "\<not> requires_human x"
    "dict_get (states c) f = Some sf" "state_type sf \<noteq> TERMINAL" "dict_get (states c) t = Some st"
    by blast
  have "\<forall>n. f = t \<and> max_reentries st = Some n \<longrightarrow> reentry_count r < n"
    using x(2) s(7) by (auto simp: reentry_exceeded_def c split: option.splits if_splits)
  with x s show ?thesis by blast
qed

theorem can_transition_sound_witness:
  "snd (can_transition (demo_machine 128) ''process'' ''process'' (new_runtime ''process'' 0) None) =
     ((new_runtime ''process'' 0)\<lparr>reentry_count := 1\<rparr>, None)"
proof -
  let ?r = "(new_runtime ''process'' 0)\<lparr>reentry_count := 1\<rparr>"
  have "can_transition (demo_machine 128) ''process'' ''process'' (new_runtime ''process'' 0) None =
      ((True, TransitionAllowed), ?r, None)"
    by code_simp
  with can_transition_sound [OF init_demo this] show ?thesis by simp
qed

text \<open>The verdicts of a run of self-loop attempts on one runtime.\<close>

primrec self_loops :: "StateMachine \<Rightarrow> string \<Rightarrow> nat \<Rightarrow> RuntimeState \<Rightarrow> bool list" where
  "self_loops sm s 0 r = []"
| "self_loops sm s (Suc k) r =
     (case can_transition sm s s r None of
        (verdict, r', _) \<Rightarrow> fst verdict # self_loops sm s k r')"

lemma can_transition_refused:
  "can_transition sm f t r hist = ((False, reason), r', hist') \<Longrightarrow> r' = r"
  by (auto simp: can_transition_def Let_def split: sum.splits option.splits prod.splits if_splits)

text \<open>On one runtime, a state with \<open>max_reentries = n\<close> can be re-entered by self-loops at
  most \<open>n\<close> times in all, however often the transition is attempted.\<close>

theorem self_loop_bound:
  assumes "dict_get (states (sm_config sm)) s = Some sd" and "max_reentries sd = Some n"
  shows "int (length (filter id (self_loops sm s k r))) \<le> max 0 (n - reentry_count r)"
proof (induction k arbitrary: r)
  case (Suc k)
  obtain ok reason r' h where c: "can_transition sm s s r None = ((ok, reason), r', h)"
    by (metis prod.collapse)
  show ?case
  proof (cases ok)
    case True
    with can_transition_allowed [of sm s s r None reason r' h] c
    have r': "r' = r\<lparr>reentry_count := reentry_count r + 1\<rparr>" "reentry_exceeded sm s s r = None"
      by auto
    with assms have "reentry_count r < n" by (auto simp: reentry_exceeded_def split: if_splits)
    with Suc [of r'] c True r'(1) show ?thesis by simp
  next
    case False
    with c can_transition_refused [of sm s s r None reason r' h] Suc [of r] show ?thesis by simp
  qed
qed simp

theorem self_loop_bound_witness:
  "int (length (filter id (self_loops (demo_machine 128) ''process'' 9 (new_runtime ''process'' 0)))) \<le> 5"
proof -
  have "dict_get (states (sm_config (demo_machine 128))) ''process'' =
      Some (plain_state ''process'' INTERMEDIATE (Some 5))"
    by (simp add: demo_machine_def demo_config_def)
  from self_loop_bound [OF this, of 5 9 "new_runtime ''process'' 0"] show ?thesis
    by (simp add: plain_state_def new_runtime_def)
qed

subsection \<open>Conditions and LTL rules\<close>

text \<open>A condition that mixes the two connectives is not evaluated as written. It is split at
  \<open>OR\<close> first, and a part that still holds an \<open>AND\<close> is treated as one unknown condition, which
  counts as true: here both disjuncts are false and the transition is let through.\<close>

theorem mixed_condition_passes:
  "evaluate_condition ''human_approved AND drift_count == 0 OR manual_unblock'' (new_runtime ''s'' 0) \<and>
   \<not> evaluate_condition ''human_approved AND drift_count == 0'' (new_runtime ''s'' 0) \<and>
   \<not> evaluate_condition ''manual_unblock'' (new_runtime ''s'' 0)"
  by code_simp

text \<open>The verdicts of the LTL rules over a run of evaluations that share one history.\<close>

primrec ltl_run :: "LTLRule list \<Rightarrow> string \<Rightarrow> RuntimeState list \<Rightarrow> ltl_history \<Rightarrow> ltl_reason option list" where
  "ltl_run rules cur [] h = []"
| "ltl_run rules cur (r # rs) h =
     (case evaluate_ltl_rules rules cur r h of (h', v) \<Rightarrow> v # ltl_run rules cur rs h')"

definition ltl_rule :: "string \<Rightarrow> LTLRule" where
  "ltl_rule e = \<lparr>expression = e, within_seconds = None\<rparr>"

lemma strip_op: "is_ascii c \<Longrightarrow> \<not> is_space c \<Longrightarrow> strip (c # s @ '')'') = c # s @ '')''"
proof -
  have "is_ascii CHR '')''" "\<not> is_space CHR '')''" by code_simp+
  moreover assume "is_ascii c" "\<not> is_space c"
  ultimately show ?thesis using bare_last_ascii [of "CHR '')''" "c # s"] by (intro strip_bare) (simp add: bare_ends)
qed

lemma ltl_shape:
  "strip (CHR ''G'' # ''('' @ p @ '')'') = ''G('' @ p @ '')''"
  "strip (CHR ''F'' # ''('' @ p @ '')'') = ''F('' @ p @ '')''"
  using strip_op [of "CHR ''G''" "''('' @ p"] strip_op [of "CHR ''F''" "''('' @ p"]
  by (simp_all add: is_space_def is_ascii_def Let_def)

lemma ltl_op_shape:
  "ltl_op ''G('' (''G('' @ p @ '')'')" "\<not> ltl_op ''G('' (''F('' @ p @ '')'')"
  "ltl_op ''F('' (''F('' @ p @ '')'')"
  "ltl_inner (''G('' @ p @ '')'') = p" "ltl_inner (''F('' @ p @ '')'') = p"
  by (simp_all add: ltl_op_def ltl_inner_def starts_with_def ends_with_def)

lemma evaluate_G:
  assumes "X_pending h = []"
  shows "evaluate_ltl_rules [ltl_rule (''G('' @ p @ '')'')] cur r h =
    (let v = (case dict_get (G_evaluations h) (''G('' @ p @ '')'') of
                None \<Rightarrow> evaluate_single_condition p r
              | Some b \<Rightarrow> b \<and> evaluate_single_condition p r)
     in (h\<lparr>state_snapshots := state_snapshots h @ [snapshot_of cur r], X_pending := [],
           G_evaluations := dict_set (''G('' @ p @ '')'') v (G_evaluations h)\<rparr>,
         if v then None else Some (GViolated p cur)))"
  using assms ltl_shape(1) [of p] ltl_op_shape(1,4) [of p]
  by (simp add: evaluate_ltl_rules_def evaluate_ltl_rule_def ltl_rule_def Let_def split: option.split)

definition globally_so_far :: "string \<Rightarrow> ltl_history \<Rightarrow> bool" where
  "globally_so_far p h \<longleftrightarrow> dict_get (G_evaluations h) (''G('' @ p @ '')'') \<noteq> Some False"

lemma ltl_run_G:
  "X_pending h = [] \<Longrightarrow>
   map (\<lambda>v. v = None) (ltl_run [ltl_rule (''G('' @ p @ '')'')] cur rs h) =
   map (\<lambda>i. globally_so_far p h \<and> (\<forall>r\<in>set (take (Suc i) rs). evaluate_single_condition p r))
     [0..<length rs]"
proof (induction rs arbitrary: h)
  case (Cons r rs)
  obtain h' v where e: "evaluate_ltl_rules [ltl_rule (''G('' @ p @ '')'')] cur r h = (h', v)"
    by fastforce
  then have h': "X_pending h' = []"
    "globally_so_far p h' \<longleftrightarrow> globally_so_far p h \<and> evaluate_single_condition p r"
    "v = None \<longleftrightarrow> globally_so_far p h'"
    using evaluate_G [OF Cons.prems, of p cur r]
    by (auto simp: Let_def globally_so_far_def split: option.splits)
  have "[0..<length (r # rs)] = 0 # map Suc [0..<length rs]"
    by (simp add: map_Suc_upt upt_conv_Cons del: upt_Suc)
  with Cons.IH [OF h'(1)] e h' show ?case by (auto simp del: upt_Suc)
qed simp

text \<open>The rule \<open>G(p)\<close> has its temporal meaning: an evaluation in a run that shares one
  history succeeds exactly when \<open>p\<close> held at it and at every evaluation before it, so one
  violation blocks every later transition.\<close>

theorem ltl_globally:
  "map (\<lambda>v. v = None) (ltl_run [ltl_rule (''G('' @ p @ '')'')] cur rs empty_ltl_history) =
   map (\<lambda>i. list_all (evaluate_single_condition p) (take (Suc i) rs)) [0..<length rs]"
  using ltl_run_G [of empty_ltl_history p cur rs]
  by (simp add: empty_ltl_history_def globally_so_far_def list_all_iff)

lemma evaluate_F_rules:
  "evaluate_rules cur r (map (\<lambda>p. ltl_rule (''F('' @ p @ '')'')) ps) h = (h', v) \<Longrightarrow>
   v = None \<and> X_pending h' = X_pending h"
proof (induction ps arbitrary: h)
  case (Cons p ps)
  obtain h1 v1 where e: "evaluate_ltl_rule cur r (ltl_rule (''F('' @ p @ '')'')) h = (h1, v1)"
    by fastforce
  then have "v1 = None \<and> X_pending h1 = X_pending h"
    using ltl_shape(2) [of p] ltl_op_shape(2,3) [of p]
    by (auto simp: evaluate_ltl_rule_def ltl_rule_def Let_def)
  with Cons.IH [of h1] Cons.prems e show ?case by simp
qed simp

lemma ltl_run_F:
  "X_pending h = [] \<Longrightarrow>
   v \<in> set (ltl_run (map (\<lambda>p. ltl_rule (''F('' @ p @ '')'')) ps) cur rs h) \<Longrightarrow> v = None"
proof (induction rs arbitrary: h)
  case (Cons r rs)
  let ?rules = "map (\<lambda>p. ltl_rule (''F('' @ p @ '')'')) ps"
  obtain h' w where e: "evaluate_ltl_rules ?rules cur r h = (h', w)" by fastforce
  with Cons.prems(1) have "w = None \<and> X_pending h' = []"
    using evaluate_F_rules [of cur r ps "h\<lparr>state_snapshots := state_snapshots h @ [snapshot_of cur r],
        X_pending := []\<rparr>" h' w]
    by (auto simp: evaluate_ltl_rules_def Let_def split: if_splits)
  with Cons.IH [of h'] Cons.prems(2) e show ?case by auto
qed simp

text \<open>Rules of the form \<open>F(p)\<close> are recorded but never enforced: with only such rules no
  evaluation of any run is ever refused, also when \<open>p\<close> never holds.\<close>

theorem ltl_eventually_never_enforced:
  "set (ltl_run (map (\<lambda>p. ltl_rule (''F('' @ p @ '')'')) ps) cur rs empty_ltl_history) \<subseteq> {None}"
  using ltl_run_F [of empty_ltl_history] by (auto simp: empty_ltl_history_def)

lemma find_first:
  "List.find P xs = Some p \<longleftrightarrow> (\<exists>ys zs. xs = ys @ p # zs \<and> P p \<and> (\<forall>q\<in>set ys. \<not> P q))"
proof
  assume "List.find P xs = Some p"
  then show "\<exists>ys zs. xs = ys @ p # zs \<and> P p \<and> (\<forall>q\<in>set ys. \<not> P q)"
  proof (induction xs)
    case (Cons x xs)
    show ?case
    proof (cases "P x")
      case True
      with Cons.prems show ?thesis by (intro exI [of _ "[]"] exI [of _ xs]) simp
    next
      case False
      with Cons obtain ys zs where "xs = ys @ p # zs" "P p" "\<forall>q\<in>set ys. \<not> P q" by auto
      with False show ?thesis by (intro exI [of _ "x # ys"] exI [of _ zs]) simp
    qed
  qed simp
next
  assume "\<exists>ys zs. xs = ys @ p # zs \<and> P p \<and> (\<forall>q\<in>set ys. \<not> P q)"
  then obtain ys zs where "xs = ys @ p # zs" "P p" "\<forall>q\<in>set ys. \<not> P q" by blast
  moreover from this(3) have "List.find P (ys @ p # zs) = List.find P (p # zs)"
    by (induction ys) auto
  ultimately show "List.find P xs = Some p" by simp
qed

text \<open>The resume state of a pause is always a target of the \<open>resume_transitions\<close> of its
  state: the one of the first mapped answer that the user gave, otherwise the wildcard's.\<close>

theorem resume_transition_spec:
  assumes "dict_get (states (sm_config sm)) name = Some sd" and "hitl sd = Some h"
    and "dict_wf (resume_transitions h)"
  shows "evaluate_resume_transition sm name answers = Some target \<longleftrightarrow>
    (\<exists>xs a ys. resume_transitions h = xs @ (a, target) # ys \<and> a \<in> set (dict_values answers) \<and>
       (\<forall>(b, u)\<in>set xs. b \<notin> set (dict_values answers))) \<or>
    (\<forall>(b, u)\<in>set (resume_transitions h). b \<notin> set (dict_values answers)) \<and>
      (''*'', target) \<in> set (resume_transitions h)"
proof -
  let ?P = "\<lambda>(a, u). a \<in> set (dict_values answers)"
  have eq: "evaluate_resume_transition sm name answers = Some target \<longleftrightarrow>
      (\<exists>a. List.find ?P (resume_transitions h) = Some (a, target)) \<or>
      List.find ?P (resume_transitions h) = None \<and> dict_get (resume_transitions h) ''*'' = Some target"
    using assms(1,2) by (auto simp: evaluate_resume_transition_def split: option.splits)
  show ?thesis
    unfolding eq find_first find_None_iff dict_get_iff [OF assms(3)] by fast
qed

definition ask_hitl :: HITLConfig where
  "ask_hitl = \<lparr>hitl_pause = True, ask_user = [], ask_if = [], hitl_on_timeout = ''proceed'',
    resume_transitions = [(''yes'', ''go''), (''*'', ''hold'')]\<rparr>"

definition ask_machine :: StateMachine where
  "ask_machine = (demo_machine 1)\<lparr>sm_config := demo_config\<lparr>states :=
     [(''ask'', (plain_state ''ask'' PAUSE None)\<lparr>hitl := Some ask_hitl\<rparr>)]\<rparr>\<rparr>"

theorem resume_transition_spec_witness:
  "evaluate_resume_transition ask_machine ''ask'' [(''q1'', ''no'')] = Some ''hold''"
proof -
  have a: "dict_get (states (sm_config ask_machine)) ''ask'' =
      Some ((plain_state ''ask'' PAUSE None)\<lparr>hitl := Some ask_hitl\<rparr>)"
    "hitl ((plain_state ''ask'' PAUSE None)\<lparr>hitl := Some ask_hitl\<rparr>) = Some ask_hitl"
    "dict_wf (resume_transitions ask_hitl)"
    by (simp_all add: ask_machine_def ask_hitl_def dict_wf_def)
  show ?thesis
    by (subst resume_transition_spec [OF a]) (simp add: ask_hitl_def)
qed

end
