(* ===== verification/Agent_States.thy ===== *)
theory Agent_States
  imports SM_Runtime
begin

text \<open>
  The state machine of an agent task (\<open>engine/agent_runtime/states.py\<close>): the tables of
  states and transitions and the configuration built from them.
\<close>

record agent_state_row =
  row_type :: string
  row_timeout_seconds :: "int option"
  row_temporal_on_timeout :: "string option"
  row_max_reentries :: "int option"

definition agent_row :: "string \<Rightarrow> int \<Rightarrow> string \<Rightarrow> int \<Rightarrow> agent_state_row" where
  "agent_row ty secs on_timeout mr = \<lparr>row_type = ty, row_timeout_seconds = Some secs,
     row_temporal_on_timeout = Some on_timeout, row_max_reentries = Some mr\<rparr>"

definition end_row :: "string \<Rightarrow> agent_state_row" where
  "end_row ty = \<lparr>row_type = ty, row_timeout_seconds = None, row_temporal_on_timeout = None,
     row_max_reentries = Some 0\<rparr>"

definition agent_states :: "(string, agent_state_row) dict" where
  "agent_states =
     [(''agent:pending'', agent_row ''initial'' 300 ''agent:failed'' 1),
      (''agent:initializing'', agent_row ''processing'' 30 ''agent:failed'' 3),
      (''agent:observing'', agent_row ''processing'' 15 ''agent:thinking'' 50),
      (''agent:thinking'', agent_row ''processing'' 120 ''agent:failed'' 50),
      (''agent:acting'', agent_row ''processing'' 60 ''agent:failed'' 100),
      (''agent:reporting'', agent_row ''processing'' 30 ''agent:completed'' 1),
      (''agent:completed'', end_row ''final''),
      (''agent:failed'', end_row ''error''),
      (''agent:cancelled'', end_row ''error'')]"

definition agent_state_type_map :: "(string, StateType) dict" where
  "agent_state_type_map = [(''initial'', INITIAL), (''processing'', INTERMEDIATE),
     (''final'', TERMINAL), (''error'', ERROR)]"

definition agent_transition_type_map :: "(string, TransitionType) dict" where
  "agent_transition_type_map = [(''normal'', REVERSIBLE), (''reversible'', REVERSIBLE),
     (''compensable'', COMPENSABLE), (''irreversible'', IRREVERSIBLE)]"

definition agent_transitions :: "(string \<times> string \<times> string) list" where
  "agent_transitions =
     [(''agent:pending'', ''agent:initializing'', ''normal''),
      (''agent:pending'', ''agent:cancelled'', ''normal''),
      (''agent:initializing'', ''agent:observing'', ''normal''),
      (''agent:initializing'', ''agent:failed'', ''normal''),
      (''agent:observing'', ''agent:thinking'', ''normal''),
      (''agent:thinking'', ''agent:acting'', ''normal''),
      (''agent:acting'', ''agent:observing'', ''normal''),
      (''agent:acting'', ''agent:reporting'', ''normal''),
      (''agent:reporting'', ''agent:completed'', ''normal''),
      (''agent:reporting'', ''agent:failed'', ''normal''),
      (''agent:failed'', ''agent:pending'', ''normal''),
      (''agent:failed'', ''agent:cancelled'', ''normal'')]"

text \<open>\<open>_STATE_TYPE_MAP[...]\<close> raises for an unknown type, as the \<^const>\<open>None\<close> of the sum.\<close>

definition build_state_definitions :: "(string, StateDefinition) dict option" where
  "build_state_definitions =
     those (map (\<lambda>(name, s). map_option
       (\<lambda>ty. (name, (plain_state name ty (row_max_reentries s))
          \<lparr>timeout_seconds := row_timeout_seconds s, temporal_on_timeout := row_temporal_on_timeout s\<rparr>))
       (dict_get agent_state_type_map (row_type s))) agent_states)"

definition build_transition_definitions :: "TransitionDefinition list" where
  "build_transition_definitions =
     map (\<lambda>(f, t, ty). (plain_transition f t)
       \<lparr>transition_type := Some (dict_get_default agent_transition_type_map ty REVERSIBLE)\<rparr>)
     agent_transitions"

definition valid_next_states :: "(string, string list) dict" where
  "valid_next_states = fold (\<lambda>(f, t, ty). dict_append f t) agent_transitions []"

definition valid_prev_states :: "(string, string list) dict" where
  "valid_prev_states = fold (\<lambda>(f, t, ty). dict_append t f) agent_transitions []"

definition create_agent_config :: "StateMachineConfig option" where
  "create_agent_config = map_option
     (\<lambda>sts. \<lparr>cfg_profile = ''agent'', cfg_name = ''agent-task'', cfg_version = YStr ''1.0.0'',
        states = sts, transitions = build_transition_definitions, ltl_rules = [], max_steps = 100\<rparr>)
     build_state_definitions"

definition agent_config :: StateMachineConfig where
  "agent_config = the create_agent_config"

text \<open>\<open>create_agent_state_machine\<close>: the machine over the built configuration.\<close>

definition create_agent_state_machine :: "int \<Rightarrow> ValidationError list + StateMachine" where
  "create_agent_state_machine lru = init_machine agent_config lru"

subsection \<open>Properties\<close>

lemma agent_accepted: "accepted agent_config"
  by code_simp

lemma agent_machine: "create_agent_state_machine lru = Inr \<lparr>sm_config = agent_config,
    sm_transition_map = build_transition_map (transitions agent_config), transition_cache = [], lru_size = lru\<rparr>"
  by (simp add: create_agent_state_machine_def init_machine_Inr agent_accepted)

lemma agent_rel: "transition_rel agent_config = set (map (\<lambda>(f, t, ty). (f, t)) agent_transitions)"
proof -
  have "transitions agent_config = build_transition_definitions"
    by code_simp
  then show ?thesis
    by (force simp: transition_rel_def build_transition_definitions_def plain_transition_def)
qed

lemma agent_backward:
  "(n, ''agent:completed'') \<in> (transition_rel agent_config)\<^sup>* \<Longrightarrow>
   n \<in> set (dict_keys agent_states) - {''agent:cancelled''}"
proof (induction rule: converse_rtrancl_induct)
  case base
  show ?case by code_simp
next
  case (step y z)
  then show ?case by (auto simp: agent_rel agent_transitions_def agent_states_def)
qed

lemma agent_forward:
  assumes "n \<in> set (dict_keys agent_states) - {''agent:cancelled''}"
  shows "(n, ''agent:completed'') \<in> (transition_rel agent_config)\<^sup>*"
proof -
  let ?R = "transition_rel agent_config" and ?c = "''agent:completed''"
  have e: "(x, y) \<in> ?R" if "(x, y) \<in> set (map (\<lambda>(f, t, ty). (f, t)) agent_transitions)" for x y
    using that by (simp add: agent_rel)
  have 1: "(''agent:reporting'', ?c) \<in> ?R\<^sup>*"
    by (rule r_into_rtrancl, rule e) code_simp
  have 2: "(''agent:acting'', ?c) \<in> ?R\<^sup>*"
    by (rule converse_rtrancl_into_rtrancl [OF e 1]) code_simp
  have 3: "(''agent:thinking'', ?c) \<in> ?R\<^sup>*"
    by (rule converse_rtrancl_into_rtrancl [OF e 2]) code_simp
  have 4: "(''agent:observing'', ?c) \<in> ?R\<^sup>*"
    by (rule converse_rtrancl_into_rtrancl [OF e 3]) code_simp
  have 5: "(''agent:initializing'', ?c) \<in> ?R\<^sup>*"
    by (rule converse_rtrancl_into_rtrancl [OF e 4]) code_simp
  have 6: "(''agent:pending'', ?c) \<in> ?R\<^sup>*"
    by (rule converse_rtrancl_into_rtrancl [OF e 5]) code_simp
  have 7: "(''agent:failed'', ?c) \<in> ?R\<^sup>*"
    by (rule converse_rtrancl_into_rtrancl [OF e 6]) code_simp
  have "n \<in> {?c, ''agent:reporting'', ''agent:acting'', ''agent:thinking'', ''agent:observing'',
      ''agent:initializing'', ''agent:pending'', ''agent:failed''}"
    using assms by (auto simp: agent_states_def)
  then show ?thesis
    using 1 2 3 4 5 6 7 by (elim insertE) (simp_all only: rtrancl.rtrancl_refl empty_iff)
qed

text \<open>The agent machine is accepted by its own validation, a run that starts at
  \<open>agent:pending\<close> reaches every declared state, and from every state but
  \<open>agent:cancelled\<close> some run completes.\<close>

theorem agent_machine_progress:
  "isl (create_agent_state_machine lru) = False \<and>
   (transition_rel agent_config)\<^sup>* `` {''agent:pending''} = set (dict_keys agent_states) \<and>
   {n. (n, ''agent:completed'') \<in> (transition_rel agent_config)\<^sup>*} =
     set (dict_keys agent_states) - {''agent:cancelled''}"
proof (intro conjI)
  show "isl (create_agent_state_machine lru) = False"
    by (simp add: agent_machine)
  have "find_reachable_states agent_config (build_transition_map (transitions agent_config)) =
      set (dict_keys agent_states)" "map sd_name (initial_states agent_config) = [''agent:pending'']"
    by code_simp+
  then show "(transition_rel agent_config)\<^sup>* `` {''agent:pending''} = set (dict_keys agent_states)"
    by (simp add: find_reachable_states_eq edges_transition_rel Image_singleton map_eq_Cons_conv)
      (elim exE conjE, simp)
  show "{n. (n, ''agent:completed'') \<in> (transition_rel agent_config)\<^sup>*} =
      set (dict_keys agent_states) - {''agent:cancelled''}"
    using agent_backward agent_forward by blast
qed

text \<open>Three of the timeouts cannot fire: \<open>temporal_on_timeout\<close> of the pending, thinking and
  acting states names \<open>agent:failed\<close>, but the table has no such transition, so the machine
  refuses it.\<close>

theorem agent_timeouts_refused:
  "map fst (filter (\<lambda>(n, r). case row_temporal_on_timeout r of None \<Rightarrow> False
       | Some t \<Rightarrow> \<not> list_ex (\<lambda>d. to_state d = t)
           (transitions_from (build_transition_map (transitions agent_config)) n)) agent_states) =
   [''agent:pending'', ''agent:thinking'', ''agent:acting'']"
  by code_simp

end
