(* ===== verification/Raft_CRDT.thy ===== *)
theory Raft_CRDT
  imports Systems
begin

text \<open>
  \<open>StateCRDT\<close> of \<open>engine/raft_consensus.py\<close>: the merge of two versions of the state of a
  run. Two different states of the same version are ordered by the transition graph, so the
  merge needs the path search \<open>_find_path\<close>, whose \<open>visited\<close> set is shared by all branches.
\<close>

record NodeState =
  ns_state :: string
  ns_version :: int

definition empty_node_state :: NodeState where
  "empty_node_state = \<lparr>ns_state = '''', ns_version = 0\<rparr>"

type_synonym path_graph = "(string, string list) dict"

definition graph_succs :: "path_graph \<Rightarrow> string \<Rightarrow> string list" where
  "graph_succs trs s = dict_get_default trs s []"

interpretation pg: finite_graph "graph_succs trs" "set (dict_keys trs)" for trs
  by unfold_locales
     (auto simp: graph_succs_def dict_get_default_def dest: map_of_SomeD split: option.splits
        intro: rev_image_eqI)

subsection \<open>The path search\<close>

text \<open>
  The loop over \<open>next_state\<close> of \<open>_find_path\<close>, with the body of the recursive call on each:
  the first path found, and the set \<open>visited\<close> afterwards.
\<close>

function (sequential) search ::
    "path_graph \<Rightarrow> string \<Rightarrow> string list \<Rightarrow> string set \<Rightarrow> string list option \<times> string set" where
  "search trs e [] visited = (None, visited)"
| "search trs e (s # siblings) visited =
     (if s = e then (Some [e], visited)
      else if s \<in> visited then search trs e siblings visited
      else (case search trs e (graph_succs trs s) (insert s visited) of
              (Some p, visited') \<Rightarrow> (Some (s # p), visited')
            | (None, visited') \<Rightarrow> search trs e siblings visited'))"
  by pat_completeness auto

lemma search_mono: "search_dom (trs, e, ns, vis) \<Longrightarrow> vis \<subseteq> snd (search trs e ns vis)"
proof (induction trs e ns vis rule: search.pinduct)
  case (2 trs e s siblings visited)
  obtain r v where r: "search trs e (graph_succs trs s) (insert s visited) = (r, v)" by fastforce
  consider "s = e" | "s \<noteq> e" "s \<in> visited" | p where "s \<noteq> e" "s \<notin> visited" "r = Some p"
    | "s \<noteq> e" "s \<notin> visited" "r = None" by fastforce
  then show ?case
  proof cases
    case 4
    with "2.IH"(3) [OF 4(1,2) r [symmetric] _] have "v \<subseteq> snd (search trs e siblings v)" by simp
    with 4 r "2.hyps" "2.IH"(2) show ?thesis by (auto simp: search.psimps)
  qed (use r "2.hyps" "2.IH" in \<open>auto simp: search.psimps\<close>)
qed (simp add: search.psimps)

termination search
proof (relation "measures [\<lambda>(trs, e, ns, vis). card (set (dict_keys trs) - vis),
    \<lambda>(trs, e, ns, vis). length ns]", goal_cases)
  case (3 trs e s siblings visited)
  then show ?case
    using pg.visit_cases [OF 3(2), of trs] by (elim disjE conjE) simp_all
next
  case (4 trs e s siblings visited q vis')
  from search_mono [OF 4(5)] have "visited \<subseteq> vis'" by (auto simp flip: 4(3))
  from pg.card_mono_visited [OF this, of trs] show ?case by (auto simp: le_less)
qed simp_all

definition find_path :: "string \<Rightarrow> string \<Rightarrow> path_graph \<Rightarrow> string list option" where
  "find_path start e trs = fst (search trs e [start] {})"

definition is_on_same_path :: "string \<Rightarrow> string \<Rightarrow> path_graph \<Rightarrow> bool" where
  "is_on_same_path a b trs \<longleftrightarrow>
     trs \<noteq> [] \<and> (find_path a b trs \<noteq> None \<or> find_path b a trs \<noteq> None)"

subsection \<open>The merge\<close>

definition merge_states :: "NodeState \<Rightarrow> NodeState \<Rightarrow> path_graph \<Rightarrow> NodeState" where
  "merge_states local remote trs =
     (if ns_version remote > ns_version local then remote
      else if ns_version local > ns_version remote then local
      else if ns_state remote = ns_state local then local
      else if is_on_same_path (ns_state local) (ns_state remote) trs then
        (case find_path (ns_state local) (ns_state remote) trs of
           Some path \<Rightarrow> if path \<noteq> [] \<and> last path = ns_state remote then remote else local
         | None \<Rightarrow> local)
      else local)"

subsection \<open>Correctness of the search\<close>

lemma search_sound:
  "search trs e ns vis = (Some p, vis') \<Longrightarrow>
   p \<noteq> [] \<and> hd p \<in> set ns \<and> last p = e \<and> successively (\<lambda>x y. y \<in> set (graph_succs trs x)) p"
proof (induction trs e ns vis arbitrary: p vis' rule: search.induct)
  case (2 trs e s siblings visited)
  show ?case
  proof (cases "s = e \<or> s \<in> visited")
    case True
    with 2 show ?thesis by (auto split: if_splits)
  next
    case False
    obtain r v where r: "search trs e (graph_succs trs s) (insert s visited) = (r, v)" by fastforce
    show ?thesis
    proof (cases r)
      case None
      with False r 2 show ?thesis by auto
    next
      case (Some q)
      with False r "2.prems" have "p = s # q" by simp
      moreover from 2(2) [of q v] False r Some have "q \<noteq> []" "hd q \<in> set (graph_succs trs s)" "last q = e"
        "successively (\<lambda>x y. y \<in> set (graph_succs trs x)) q" by auto
      ultimately show ?thesis by (cases q) auto
    qed
  qed
qed simp

lemma search_complete:
  "search trs e ns vis = (None, vis') \<Longrightarrow>
   vis \<subseteq> vis' \<and> set ns \<subseteq> vis' \<and> e \<notin> set ns \<and>
   (\<forall>x\<in>vis' - vis. x \<noteq> e \<and> set (graph_succs trs x) \<subseteq> vis')"
proof (induction trs e ns vis arbitrary: vis' rule: search.induct)
  case (2 trs e s siblings visited)
  from "2.prems" have se: "s \<noteq> e" by (auto split: if_splits)
  show ?case
  proof (cases "s \<in> visited")
    case True
    with 2(1) [of vis'] "2.prems" se show ?thesis by auto
  next
    case False
    obtain r v where r: "search trs e (graph_succs trs s) (insert s visited) = (r, v)" by fastforce
    with False se "2.prems" have "r = None" and r2: "search trs e siblings v = (None, vis')"
      by (auto split: option.splits)
    have a: "insert s visited \<subseteq> v \<and> set (graph_succs trs s) \<subseteq> v \<and>
        (\<forall>x\<in>v - insert s visited. x \<noteq> e \<and> set (graph_succs trs x) \<subseteq> v)"
      using 2(2) [of v] se False r \<open>r = None\<close> by auto
    have b: "v \<subseteq> vis' \<and> set siblings \<subseteq> vis' \<and> e \<notin> set siblings \<and>
        (\<forall>x\<in>vis' - v. x \<noteq> e \<and> set (graph_succs trs x) \<subseteq> vis')"
      using 2(3) [OF se False r [symmetric] \<open>r = None\<close> r2] .
    show ?thesis
    proof (intro conjI ballI)
      fix x assume x: "x \<in> vis' - visited"
      then consider "x = s" | "x \<in> v - insert s visited" | "x \<in> vis' - v" by blast
      then show "x \<noteq> e" "set (graph_succs trs x) \<subseteq> vis'"
        using a b se by (cases; blast)+
    qed (use a b se in auto)
  qed
qed simp

lemma path_reach:
  "p \<noteq> [] \<Longrightarrow> successively (\<lambda>x y. y \<in> set (graph_succs trs x)) p \<Longrightarrow>
   (hd p, last p) \<in> (edges (graph_succs trs))\<^sup>*"
proof (induction p rule: induct_list012)
  case (3 x y zs)
  then show ?case by (auto intro: step_reach)
qed auto

lemma find_path_Some:
  "find_path a b trs = Some p \<Longrightarrow> p \<noteq> [] \<and> hd p = a \<and> last p = b \<and>
     successively (\<lambda>x y. y \<in> set (graph_succs trs x)) p"
  using search_sound [of trs b "[a]" "{}" p "snd (search trs b [a] {})"]
  by (cases "search trs b [a] {}") (auto simp: find_path_def)

lemma find_path_iff: "find_path a b trs \<noteq> None \<longleftrightarrow> (a, b) \<in> (edges (graph_succs trs))\<^sup>*"
proof
  assume "find_path a b trs \<noteq> None"
  then obtain p where "find_path a b trs = Some p" by blast
  with find_path_Some path_reach show "(a, b) \<in> (edges (graph_succs trs))\<^sup>*" by blast
next
  assume reach: "(a, b) \<in> (edges (graph_succs trs))\<^sup>*"
  show "find_path a b trs \<noteq> None"
  proof
    assume "find_path a b trs = None"
    then obtain v where "search trs b [a] {} = (None, v)"
      by (cases "search trs b [a] {}") (auto simp: find_path_def)
    from search_complete [OF this]
    have v: "a \<in> v" "\<forall>x\<in>v. set (graph_succs trs x) \<subseteq> v" "b \<notin> v" by auto
    from pg.closed_reach [OF v(2,1) reach] v(3) show False by simp
  qed
qed

text \<open>The path search finds a path exactly when there is one, in spite of the \<open>visited\<close> set
  that all branches share, and what it returns is a path of the graph from the first state to
  the second.\<close>

theorem find_path_correct:
  "(case find_path a b trs of
      None \<Rightarrow> (a, b) \<notin> (edges (graph_succs trs))\<^sup>*
    | Some p \<Rightarrow> p \<noteq> [] \<and> hd p = a \<and> last p = b \<and>
        successively (\<lambda>x y. y \<in> set (graph_succs trs x)) p)"
proof (cases "find_path a b trs")
  case None
  with find_path_iff [of a b trs] show ?thesis by simp
next
  case (Some p)
  with find_path_Some [OF Some] show ?thesis by simp
qed

lemma merge_eq_version:
  assumes "ns_version l = ns_version r" and "ns_state l \<noteq> ns_state r"
  shows "merge_states l r trs =
    (if (ns_state l, ns_state r) \<in> (edges (graph_succs trs))\<^sup>* then r else l)"
proof -
  have "(ns_state l, ns_state r) \<notin> (edges (graph_succs []))\<^sup>*"
    using assms(2) unfolding find_path_iff [symmetric]
    by (simp add: find_path_def graph_succs_def dict_get_default_def)
  then have "trs \<noteq> []" if "(ns_state l, ns_state r) \<in> (edges (graph_succs trs))\<^sup>*"
    using that by auto
  moreover have "merge_states l r trs = (if trs \<noteq> [] \<and> find_path (ns_state l) (ns_state r) trs \<noteq> None then r else l)"
    using assms find_path_Some [of "ns_state l" "ns_state r" trs]
    by (cases "find_path (ns_state l) (ns_state r) trs") (simp_all add: merge_states_def is_on_same_path_def)
  ultimately show ?thesis
    unfolding find_path_iff by auto
qed


end
