(* ===== verification/Raft_Node.thy ===== *)
theory Raft_Node
  imports Raft_CRDT "HOL-Library.Sublist"
begin

text \<open>
  \<open>DistributedStateMachine\<close> of \<open>engine/raft_consensus.py\<close>: one Raft node. The log and the
  snapshot on disk are fields of the state, the calls of the callbacks are recorded in
  \<open>raft_events\<close>, the answers of the peers to a vote request are an argument. An operation
  that raises returns \<open>Inl\<close> beside the state it leaves behind.
\<close>

datatype NodeRole = FOLLOWER | CANDIDATE | LEADER | OFFLINE | RECONNECTING

text \<open>The commands of the log are JSON objects with string values.\<close>

type_synonym command = "(string, string) dict"

record LogEntry =
  le_term :: int
  le_index :: int
  le_command :: command
  le_timestamp :: datetime

datatype raft_event = LeaderElected string | SteppedDown | HeartbeatBroadcast | ReplicatedTo string

datatype raft_error = LogIndexError

record RaftNode =
  node_id :: string
  peers :: "string list"
  role :: NodeRole
  current_term :: int
  voted_for :: "string option"
  rlog :: "LogEntry list"
  commit_index :: int
  last_applied :: int
  state_machine :: "(string, NodeState) dict"
  last_heartbeat :: datetime
  path_transitions :: path_graph
  pending_acks :: "(int, string set) dict"
  disk_log :: "LogEntry list"
  disk_snapshot :: "(string, NodeState) dict"
  raft_events :: "raft_event list"

definition init_node ::
    "string \<Rightarrow> string list \<Rightarrow> LogEntry list \<Rightarrow> (string, NodeState) dict \<Rightarrow> datetime \<Rightarrow> RaftNode" where
  "init_node nid ps stored_log stored_snapshot now =
     \<lparr>node_id = nid, peers = ps, role = FOLLOWER, current_term = 0, voted_for = None,
      rlog = stored_log, commit_index = -1, last_applied = -1, state_machine = stored_snapshot,
      last_heartbeat = now, path_transitions = [], pending_acks = [], disk_log = stored_log,
      disk_snapshot = stored_snapshot, raft_events = []\<rparr>"

definition configure_transitions :: "path_graph \<Rightarrow> RaftNode \<Rightarrow> RaftNode" where
  "configure_transitions trs n = n\<lparr>path_transitions := trs\<rparr>"

text \<open>A process that stops keeps only the two files.\<close>

definition restart :: "datetime \<Rightarrow> RaftNode \<Rightarrow> RaftNode" where
  "restart now n = init_node (node_id n) (peers n) (disk_log n) (disk_snapshot n) now"

definition emit :: "raft_event \<Rightarrow> RaftNode \<Rightarrow> RaftNode" where
  "emit e n = n\<lparr>raft_events := raft_events n @ [e]\<rparr>"

definition save_log :: "RaftNode \<Rightarrow> RaftNode" where
  "save_log n = n\<lparr>disk_log := rlog n\<rparr>"

definition save_snapshot :: "RaftNode \<Rightarrow> RaftNode" where
  "save_snapshot n = n\<lparr>disk_snapshot := state_machine n\<rparr>"

definition last_log_term :: "RaftNode \<Rightarrow> int" where
  "last_log_term n = (if rlog n = [] then 0 else le_term (last (rlog n)))"

subsection \<open>Roles and elections\<close>

definition become_follower :: "int \<Rightarrow> datetime \<Rightarrow> RaftNode \<Rightarrow> RaftNode" where
  "become_follower t now n =
     (let n' = n\<lparr>role := FOLLOWER, current_term := t, voted_for := None, last_heartbeat := now\<rparr>
      in if role n = LEADER then emit SteppedDown n' else n')"

definition become_leader :: "RaftNode \<Rightarrow> RaftNode" where
  "become_leader n =
     emit (LeaderElected (node_id n)) (emit HeartbeatBroadcast (n\<lparr>role := LEADER\<rparr>))"

text \<open>\<open>grants peer\<close> is the answer of \<open>_request_vote(peer)\<close>.\<close>

definition votes_received :: "(string \<Rightarrow> bool) \<Rightarrow> string list \<Rightarrow> nat" where
  "votes_received grants ps = 1 + length (filter grants ps)"

definition become_candidate :: "(string \<Rightarrow> bool) \<Rightarrow> datetime \<Rightarrow> RaftNode \<Rightarrow> RaftNode" where
  "become_candidate grants now n =
     (let n' = n\<lparr>role := CANDIDATE, current_term := current_term n + 1,
            voted_for := Some (node_id n), last_heartbeat := now\<rparr>
      in if votes_received grants (peers n) > length (peers n) div 2 then become_leader n' else n')"

definition start_election :: "(string \<Rightarrow> bool) \<Rightarrow> datetime \<Rightarrow> RaftNode \<Rightarrow> RaftNode" where
  "start_election grants now n = become_candidate grants now n"

definition request_vote ::
    "int \<Rightarrow> string \<Rightarrow> int \<Rightarrow> int \<Rightarrow> datetime \<Rightarrow> RaftNode \<Rightarrow> bool \<times> RaftNode" where
  "request_vote candidate_term candidate_id last_index last_term now n =
     (if candidate_term < current_term n then (False, n)
      else
        let n' = (if candidate_term > current_term n then become_follower candidate_term now n else n)
        in if (voted_for n' = None \<or> voted_for n' = Some candidate_id) \<and> last_term \<ge> last_log_term n'
           then (True, n'\<lparr>voted_for := Some candidate_id, last_heartbeat := now\<rparr>)
           else (False, n'))"

subsection \<open>The replicated state machine\<close>

definition cmd_slug :: "command \<Rightarrow> string" where
  "cmd_slug c = dict_get_default c ''slug'' ''''"

definition node_state :: "(string, NodeState) dict \<Rightarrow> string \<Rightarrow> NodeState" where
  "node_state sm slug = dict_get_default sm slug empty_node_state"

definition apply_command :: "command \<Rightarrow> (string, NodeState) dict \<Rightarrow> (string, NodeState) dict" where
  "apply_command c sm0 =
     (let slug = cmd_slug c
      in if slug = [] then sm0
      else
        let sm = (if dict_has sm0 slug then sm0 else dict_set slug empty_node_state sm0);
            cur = node_state sm slug;
            ty = dict_get c ''type''
        in if ty = Some ''transition'' then
             (case dict_get c ''to_state'' of
                None \<Rightarrow> sm
              | Some to \<Rightarrow>
                  if to = [] then sm
                  else dict_set slug \<lparr>ns_state = to, ns_version = ns_version cur + 1\<rparr> sm)
           else if ty = Some ''create'' then
             dict_set slug \<lparr>ns_state = dict_get_default c ''initial_state'' ''start'', ns_version = 1\<rparr> sm
           else if ty = Some ''archive'' then
             dict_set slug \<lparr>ns_state = ''archived'', ns_version = ns_version cur + 1\<rparr> sm
           else sm)"

function apply_committed :: "RaftNode \<Rightarrow> RaftNode \<times> (raft_error + unit)" where
  "apply_committed n =
     (if last_applied n < commit_index n then
        let n' = n\<lparr>last_applied := last_applied n + 1\<rparr>
        in case py_get (rlog n') (last_applied n') of
             None \<Rightarrow> (n', Inl LogIndexError)
           | Some e \<Rightarrow> apply_committed (n'\<lparr>state_machine := apply_command (le_command e) (state_machine n')\<rparr>)
      else (n, Inr ()))"
  by pat_completeness auto
termination
  by (relation "measure (\<lambda>n. nat (commit_index n - last_applied n))") auto

declare apply_committed.simps [simp del]

definition get_state :: "string \<Rightarrow> RaftNode \<Rightarrow> NodeState option" where
  "get_state slug n = dict_get (state_machine n) slug"

subsection \<open>Replication\<close>

text \<open>The loop of \<open>append_entries\<close> over the entries, from index \<open>idx\<close> on.\<close>

fun append_loop :: "LogEntry list \<Rightarrow> int \<Rightarrow> LogEntry list \<Rightarrow> LogEntry list \<times> (raft_error + unit)" where
  "append_loop [] idx lg = (lg, Inr ())"
| "append_loop (entry # entries) idx lg =
     (if idx < int (length lg) then
        (case py_get lg idx of
           None \<Rightarrow> (lg, Inl LogIndexError)
         | Some old \<Rightarrow>
             append_loop entries (idx + 1)
               (if le_term old \<noteq> le_term entry then py_take idx lg @ [entry] else lg))
      else append_loop entries (idx + 1) (lg @ [entry]))"

definition append_entries ::
    "LogEntry list \<Rightarrow> int \<Rightarrow> int \<Rightarrow> int \<Rightarrow> datetime \<Rightarrow> RaftNode
      \<Rightarrow> RaftNode \<times> (raft_error + bool \<times> int \<times> int)" where
  "append_entries entries prev_index prev_term leader_commit now n =
     (if 0 \<le> prev_index \<and> prev_index < int (length (rlog n)) \<and>
         le_term (rlog n ! nat prev_index) \<noteq> prev_term
      then (n, Inr (False, prev_index, le_term (rlog n ! nat prev_index)))
      else
        let (log', r) = append_loop entries (prev_index + 1) (rlog n);
            n1 = n\<lparr>rlog := log'\<rparr>
        in case r of
             Inl e \<Rightarrow> (n1, Inl e)
           | Inr _ \<Rightarrow>
               let (n2, r2) =
                 (if leader_commit > commit_index n1 then
                    apply_committed (n1\<lparr>commit_index := min leader_commit (int (length log') - 1)\<rparr>)
                  else (n1, Inr ()))
               in case r2 of
                    Inl e \<Rightarrow> (n2, Inl e)
                  | Inr _ \<Rightarrow> (save_log (n2\<lparr>last_heartbeat := now\<rparr>), Inr (True, 0, 0)))"

definition check_majority :: "int \<Rightarrow> RaftNode \<Rightarrow> bool" where
  "check_majority index n \<longleftrightarrow>
     card (dict_get_default (pending_acks n) index {}) \<ge> length (peers n) div 2 + 1"

definition replicate_all :: "RaftNode \<Rightarrow> RaftNode" where
  "replicate_all n = fold (\<lambda>p. emit (ReplicatedTo p)) (peers n) n"

text \<open>The result is \<open>True\<close>, or \<open>False\<close> with the message \<open>Not leader\<close>.\<close>

definition propose :: "command \<Rightarrow> datetime \<Rightarrow> RaftNode \<Rightarrow> RaftNode \<times> (raft_error + bool)" where
  "propose c now n =
     (if role n \<noteq> LEADER then (n, Inr False)
      else
        let index = int (length (rlog n));
            entry = \<lparr>le_term = current_term n, le_index = index, le_command = c, le_timestamp = now\<rparr>;
            n1 = save_log (n\<lparr>rlog := rlog n @ [entry]\<rparr>);
            n2 = n1\<lparr>pending_acks := dict_set index {node_id n} (pending_acks n1)\<rparr>
        in if check_majority index n2 then
             (let (n3, r) = apply_committed (n2\<lparr>commit_index := index\<rparr>)
              in case r of
                   Inl e \<Rightarrow> (n3, Inl e)
                 | Inr _ \<Rightarrow> (replicate_all (save_log n3), Inr True))
           else (replicate_all n2, Inr True))"

definition ack_entry :: "int \<Rightarrow> string \<Rightarrow> RaftNode \<Rightarrow> RaftNode \<times> (raft_error + bool)" where
  "ack_entry index peer n =
     (let acks = dict_get_default (pending_acks n) index {};
          n1 = n\<lparr>pending_acks := dict_set index (insert peer acks) (pending_acks n)\<rparr>
      in if check_majority index n1 then
           (if index > commit_index n1 then
              let (n2, r) = apply_committed (n1\<lparr>commit_index := index\<rparr>)
              in case r of
                   Inl e \<Rightarrow> (n2, Inl e)
                 | Inr _ \<Rightarrow> (save_log n2, Inr True)
            else (n1, Inr True))
         else (n1, Inr False))"

definition provide_merge :: "string \<Rightarrow> NodeState \<Rightarrow> RaftNode \<Rightarrow> RaftNode \<times> bool" where
  "provide_merge slug merged n =
     (if role n \<noteq> LEADER then (n, False)
      else (save_snapshot (n\<lparr>state_machine := dict_set slug merged (state_machine n)\<rparr>), True))"

subsection \<open>Applying the committed entries\<close>

definition replay :: "LogEntry list \<Rightarrow> (string, NodeState) dict \<Rightarrow> (string, NodeState) dict" where
  "replay es sm = fold (\<lambda>e. apply_command (le_command e)) es sm"

lemma apply_committed_frame:
  "\<exists>la sm. fst (apply_committed n) = n\<lparr>last_applied := la, state_machine := sm\<rparr>"
proof (induction n rule: apply_committed.induct)
  case (1 n)
  let ?n = "n\<lparr>last_applied := last_applied n + 1\<rparr>"
  show ?case
  proof (cases "last_applied n < commit_index n")
    case True
    show ?thesis
    proof (cases "py_get (rlog ?n) (last_applied ?n)")
      case None
      with True show ?thesis by (auto simp: apply_committed.simps [of n] Let_def) (metis RaftNode.surjective RaftNode.update_convs(8,9))
    next
      case (Some e)
      from "1.IH" [OF True refl Some] True Some show ?thesis
        by (auto simp: apply_committed.simps [of n] Let_def)
    qed
  next
    case False
    then show ?thesis
      by (auto simp: apply_committed.simps [of n]) (metis RaftNode.surjective RaftNode.update_convs(8,9))
  qed
qed

lemma apply_committed_ok:
  "-1 \<le> last_applied n \<Longrightarrow> last_applied n \<le> commit_index n \<Longrightarrow> commit_index n < int (length (rlog n)) \<Longrightarrow>
   apply_committed n = (n\<lparr>last_applied := commit_index n,
     state_machine := replay (drop (nat (last_applied n + 1)) (take (nat (commit_index n + 1)) (rlog n)))
       (state_machine n)\<rparr>, Inr ())"
proof (induction n rule: apply_committed.induct)
  case (1 n)
  let ?n = "n\<lparr>last_applied := last_applied n + 1\<rparr>"
  show ?case
  proof (cases "last_applied n < commit_index n")
    case True
    let ?k = "nat (last_applied n + 1)"
    let ?e = "rlog n ! ?k"
    let ?xs = "take (nat (commit_index n + 1)) (rlog n)"
    have e: "py_get (rlog ?n) (last_applied ?n) = Some ?e"
      using "1.prems" True by (simp add: py_get_in)
    have k: "?k < length ?xs" "?xs ! ?k = ?e" "nat (last_applied n + 1 + 1) = Suc ?k" "nat (2 + last_applied n) = Suc ?k"
      using "1.prems" True by auto
    then have d: "drop ?k ?xs = ?e # drop (Suc ?k) ?xs"
      using Cons_nth_drop_Suc [OF k(1)] by simp
    from "1.IH" [OF True refl e] "1.prems" True e show ?thesis
      by (simp add: apply_committed.simps [of n] Let_def d replay_def k(3,4))
  next
    case False
    with "1.prems" have "last_applied n = commit_index n" by simp
    then show ?thesis
      by (simp add: apply_committed.simps [of n] replay_def)
  qed
qed

lemma replay_append: "replay (xs @ ys) sm = replay ys (replay xs sm)"
  by (simp add: replay_def)

subsection \<open>The leader\<close>

datatype leader_op = Propose command datetime | Ack int string

fun leader_step :: "leader_op \<Rightarrow> RaftNode \<Rightarrow> RaftNode" where
  "leader_step (Propose c now) n = fst (propose c now n)"
| "leader_step (Ack index peer) n =
     fst (ack_entry index peer n)"

text \<open>Every acknowledgement is of an entry that the leader has at that time.\<close>

definition op_known :: "leader_op \<Rightarrow> RaftNode \<Rightarrow> bool" where
  "op_known op n = (case op of Propose c now \<Rightarrow> True | Ack index peer \<Rightarrow> index < int (length (rlog n)))"

fun ops_known :: "leader_op list \<Rightarrow> RaftNode \<Rightarrow> bool" where
  "ops_known [] n = True"
| "ops_known (op # ops) n = (op_known op n \<and> ops_known ops (leader_step op n))"

text \<open>An acknowledgement beyond the log is counted all the same; a majority of them moves the commit
  index out of the log, and applying up to it raises.\<close>

lemma apply_beyond:
  "int (length (rlog n)) \<le> commit_index n \<Longrightarrow> -1 \<le> last_applied n \<Longrightarrow> last_applied n < int (length (rlog n))
   \<Longrightarrow> isl (snd (apply_committed n))"
proof (induction n rule: apply_committed.induct)
  case (1 n)
  let ?n = "n\<lparr>last_applied := last_applied n + 1\<rparr>"
  have less: "last_applied n < commit_index n" using "1.prems" by simp
  show ?case
  proof (cases "py_get (rlog ?n) (last_applied ?n)")
    case None
    with less show ?thesis by (simp add: apply_committed.simps [of n] Let_def)
  next
    case (Some e)
    then have "last_applied n + 1 < int (length (rlog n))" using "1.prems"(2) by (auto simp: py_get_def Let_def split: if_splits)
    with "1.IH" [OF less refl Some] "1.prems" less Some show ?thesis
      by (simp add: apply_committed.simps [of n] Let_def)
  qed
qed

lemma ack_beyond_log:
  assumes "check_majority i (n\<lparr>pending_acks := dict_set i (insert p (dict_get_default (pending_acks n) i {})) (pending_acks n)\<rparr>)"
    and "int (length (rlog n)) \<le> i" and "-1 \<le> last_applied n" and "last_applied n < int (length (rlog n))"
    and "commit_index n < i"
  shows "commit_index (leader_step (Ack i p) n) = i \<and> isl (snd (ack_entry i p n))"
proof -
  let ?n = "n\<lparr>pending_acks := dict_set i (insert p (dict_get_default (pending_acks n) i {})) (pending_acks n), commit_index := i\<rparr>"
  obtain m r where m: "apply_committed ?n = (m, r)" by fastforce
  have "isl r" "commit_index m = i"
    using apply_beyond [of ?n] apply_committed_frame [of ?n] assms(2-4) by (auto simp: m)
  with assms(1,5) m show ?thesis
    by (auto simp: ack_entry_def Let_def isl_def)
qed

definition leader_inv :: "LogEntry list \<Rightarrow> (string, NodeState) dict \<Rightarrow> RaftNode \<Rightarrow> bool" where
  "leader_inv L0 S0 n \<longleftrightarrow> role n = LEADER \<and> last_applied n = commit_index n \<and>
     -1 \<le> commit_index n \<and> commit_index n < int (length (rlog n)) \<and> prefix L0 (rlog n) \<and>
     disk_log n = rlog n \<and> state_machine n = replay (take (nat (commit_index n + 1)) (rlog n)) S0"

lemma take_prefix_drop: "i \<le> j \<Longrightarrow> take j xs = take i xs @ drop i (take j xs)"
  by (metis append_take_drop_id min.absorb1 take_take)

lemma replay_commit:
  assumes inv: "leader_inv L0 S0 n" and i: "commit_index n \<le> i" "i < int (length (rlog m))"
    and m: "rlog m = rlog n @ ys" "last_applied m = last_applied n" "state_machine m = state_machine n"
  shows "apply_committed (m\<lparr>commit_index := i\<rparr>) = (m\<lparr>commit_index := i, last_applied := i,
       state_machine := replay (take (nat (i + 1)) (rlog m)) S0\<rparr>, Inr ())"
proof -
  let ?c = "nat (commit_index n + 1)" and ?xs = "take (nat (i + 1)) (rlog m)"
  have "take ?c (rlog m) = take ?c (rlog n)"
    using inv m(1) by (simp add: leader_inv_def nat_le_iff)
  moreover have "?c \<le> nat (i + 1)" using i(1) by simp
  ultimately have "?xs = take ?c (rlog n) @ drop ?c ?xs"
    using take_prefix_drop [of ?c "nat (i + 1)" "rlog m"] by simp
  then have "replay ?xs S0 = replay (drop ?c ?xs) (replay (take ?c (rlog n)) S0)"
    by (metis replay_append)
  then show ?thesis
    using inv i m by (subst apply_committed_ok) (simp_all add: leader_inv_def)
qed

lemma replicate_all_frame: "replicate_all n = n\<lparr>raft_events := raft_events n @ map ReplicatedTo (peers n)\<rparr>"
proof -
  have "fold (\<lambda>p. emit (ReplicatedTo p)) ps n = n\<lparr>raft_events := raft_events n @ map ReplicatedTo ps\<rparr>" for ps
    by (induction ps arbitrary: n) (simp_all add: emit_def)
  then show ?thesis by (simp add: replicate_all_def)
qed

lemma leader_inv_propose:
  assumes "leader_inv L0 S0 n"
  shows "leader_inv L0 S0 (fst (propose c now n)) \<and> commit_index n \<le> commit_index (fst (propose c now n))"
proof -
  let ?i = "int (length (rlog n))"
  let ?e = "\<lparr>le_term = current_term n, le_index = ?i, le_command = c, le_timestamp = now\<rparr>"
  let ?n2 = "n\<lparr>rlog := rlog n @ [?e], disk_log := rlog n @ [?e],
      pending_acks := dict_set ?i {node_id n} (pending_acks n)\<rparr>"
  have role: "role n = LEADER" using assms by (simp add: leader_inv_def)
  have "apply_committed (?n2\<lparr>commit_index := ?i\<rparr>) = (?n2\<lparr>commit_index := ?i, last_applied := ?i,
      state_machine := replay (take (nat (?i + 1)) (rlog n @ [?e])) S0\<rparr>, Inr ())"
    using replay_commit [OF assms, of ?i ?n2 "[?e]"] assms by (simp add: leader_inv_def)
  then show ?thesis
    using assms by (auto simp: propose_def role Let_def save_log_def replicate_all_frame leader_inv_def nat_le_iff)
qed

lemma leader_inv_ack:
  assumes inv: "leader_inv L0 S0 n" and i: "i < int (length (rlog n))"
  shows "leader_inv L0 S0 (fst (ack_entry i p n)) \<and> commit_index n \<le> commit_index (fst (ack_entry i p n))"
proof -
  let ?a = "dict_set i (insert p (dict_get_default (pending_acks n) i {})) (pending_acks n)"
  have "apply_committed (n\<lparr>pending_acks := ?a, commit_index := i\<rparr>) =
      (n\<lparr>pending_acks := ?a, commit_index := i, last_applied := i,
         state_machine := replay (take (nat (i + 1)) (rlog n)) S0\<rparr>, Inr ())" if "commit_index n < i"
    using replay_commit [OF inv, of i "n\<lparr>pending_acks := ?a\<rparr>" "[]"] that i by simp
  then show ?thesis
    using assms by (auto simp: ack_entry_def Let_def save_log_def leader_inv_def)
qed

interpretation leader: monotone_system "\<lambda>op n. if op_known op n then leader_step op n else n" "leader_inv L0 S0" commit_index
  for L0 S0
proof
  fix op n assume inv: "leader_inv L0 S0 n"
  show "leader_inv L0 S0 (if op_known op n then leader_step op n else n)"
    using inv leader_inv_propose leader_inv_ack by (cases op) (auto simp: op_known_def)
  show "commit_index n \<le> commit_index (if op_known op n then leader_step op n else n)"
    using inv leader_inv_propose leader_inv_ack by (cases op) (auto simp: op_known_def)
qed

lemma known_run: "ops_known ops n \<Longrightarrow> fold (\<lambda>op n. if op_known op n then leader_step op n else n) ops n = fold leader_step ops n"
  by (induction ops arbitrary: n) simp_all

text \<open>C26: A leader whose committed entries are in its log and applied over a snapshot (with nothing
  committed, the state it has) only appends to its log and never takes back a commit, and
  whatever is proposed, and whichever entries it has at the time are acknowledged by whomever, its
  state machine is exactly the replay of the committed part of its log over that snapshot; the log
  on disk is the log in memory.\<close>

theorem leader_replays_log:
  assumes "role n = LEADER" and "-1 \<le> commit_index n" and "commit_index n < int (length (rlog n))"
    and "last_applied n = commit_index n" and "disk_log n = rlog n"
    and "state_machine n = replay (take (nat (commit_index n + 1)) (rlog n)) S0"
    and "ops_known ops n"
  shows "let n' = fold leader_step ops n in
    prefix (rlog n) (rlog n') \<and> commit_index n \<le> commit_index n' \<and>
    commit_index n' < int (length (rlog n')) \<and> last_applied n' = commit_index n' \<and>
    state_machine n' = replay (take (nat (commit_index n' + 1)) (rlog n')) S0 \<and>
    disk_log n' = rlog n'"
proof -
  have inv: "leader_inv (rlog n) S0 n"
    using assms by (simp add: leader_inv_def)
  from leader.inv_run [OF inv, of ops] leader.level_run [OF inv, of ops]
  show ?thesis by (simp add: leader_inv_def known_run [OF assms(7)] Let_def)
qed

definition demo_leader :: RaftNode where
  "demo_leader = become_leader (init_node ''n1'' [''n2'', ''n3''] [] [] 0)"

definition demo_create :: command where
  "demo_create = [(''type'', ''create''), (''slug'', ''flux''), (''initial_state'', ''spec'')]"

theorem leader_replays_log_witness:
  "state_machine (fold leader_step [Propose demo_create 1, Ack 0 ''n2''] demo_leader) =
     [(''flux'', \<lparr>ns_state = ''spec'', ns_version = 1\<rparr>)]"
proof -
  let ?n = "fold leader_step [Propose demo_create 1, Ack 0 ''n2''] demo_leader"
  have n: "commit_index ?n = 0" "take 1 (map le_command (rlog ?n)) = [demo_create]"
    by code_simp+
  have "state_machine ?n = replay (take (nat (commit_index ?n + 1)) (rlog ?n)) []"
  proof -
    have d: "role demo_leader = LEADER" "-1 \<le> commit_index demo_leader"
        "commit_index demo_leader < int (length (rlog demo_leader))" "last_applied demo_leader = commit_index demo_leader"
        "disk_log demo_leader = rlog demo_leader"
        "state_machine demo_leader = replay (take (nat (commit_index demo_leader + 1)) (rlog demo_leader)) []"
      by (simp_all add: demo_leader_def become_leader_def emit_def init_node_def replay_def)
    have k: "ops_known [Propose demo_create 1, Ack 0 ''n2''] demo_leader" by code_simp
    from leader_replays_log [OF d k] show ?thesis unfolding Let_def by (elim conjE)
  qed
  moreover have "replay es [] = [(''flux'', \<lparr>ns_state = ''spec'', ns_version = 1\<rparr>)]"
    if "map le_command es = [demo_create]" for es
    using that by (auto simp: map_eq_Cons_conv replay_def apply_command_def demo_create_def cmd_slug_def
        dict_get_default_def dict_has_def)
  ultimately show ?thesis using n by (simp add: take_map del: fold.simps)
qed

subsection \<open>Votes\<close>

datatype raft_op =
    RequestVote int string int int datetime
  | StartElection "string \<Rightarrow> bool" datetime
  | AppendEntries "LogEntry list" int int int datetime
  | LeaderOp leader_op
  | ProvideMerge string NodeState

fun raft_step :: "raft_op \<Rightarrow> RaftNode \<Rightarrow> RaftNode" where
  "raft_step (RequestVote t c li lt now) n = snd (request_vote t c li lt now n)"
| "raft_step (StartElection grants now) n = start_election grants now n"
| "raft_step (AppendEntries es pv pt lc now) n = fst (append_entries es pv pt lc now n)"
| "raft_step (LeaderOp op) n = leader_step op n"
| "raft_step (ProvideMerge slug st) n = fst (provide_merge slug st n)"

definition ballot :: "RaftNode \<Rightarrow> int \<times> string option" where
  "ballot n = (current_term n, voted_for n)"

lemma ballot_simps [simp]:
  "ballot (n\<lparr>rlog := l\<rparr>) = ballot n" "ballot (n\<lparr>commit_index := i\<rparr>) = ballot n"
  "ballot (n\<lparr>last_applied := i\<rparr>) = ballot n" "ballot (n\<lparr>state_machine := sm\<rparr>) = ballot n"
  "ballot (n\<lparr>pending_acks := a\<rparr>) = ballot n" "ballot (n\<lparr>last_heartbeat := t\<rparr>) = ballot n"
  "ballot (n\<lparr>role := r\<rparr>) = ballot n" "ballot (emit e n) = ballot n"
  "ballot (save_log n) = ballot n" "ballot (save_snapshot n) = ballot n"
  "ballot (replicate_all n) = ballot n"
  by (simp_all add: ballot_def emit_def save_log_def save_snapshot_def replicate_all_frame)

lemma ballot_apply_committed [simp]: "ballot (fst (apply_committed n)) = ballot n"
proof -
  obtain la sm where "fst (apply_committed n) = n\<lparr>last_applied := la, state_machine := sm\<rparr>"
    using apply_committed_frame by blast
  then show ?thesis by simp
qed

lemma ballot_apply_committedD: "apply_committed m = (n, r) \<Longrightarrow> ballot n = ballot m"
  using ballot_apply_committed [of m] by simp

lemma ballot_frame:
  "ballot (fst (append_entries es pv pt lc now n)) = ballot n"
  "ballot (leader_step op n) = ballot n"
  "ballot (fst (provide_merge slug st n)) = ballot n"
proof -
  show "ballot (fst (append_entries es pv pt lc now n)) = ballot n"
    by (auto simp: append_entries_def Let_def dest!: ballot_apply_committedD split: prod.splits sum.splits)
  show "ballot (leader_step op n) = ballot n"
    by (cases op; auto simp: propose_def ack_entry_def Let_def
        dest!: ballot_apply_committedD split: prod.splits sum.splits)
  show "ballot (fst (provide_merge slug st n)) = ballot n"
    by (simp add: provide_merge_def)
qed

lemma current_term_ballot: "current_term n = fst (ballot n)"
  by (simp add: ballot_def)

interpretation term_order: monotone_system raft_step "\<lambda>_. True" current_term
proof
  fix op n
  show "current_term n \<le> current_term (raft_step op n)"
    by (cases op; simp add: current_term_ballot ballot_frame;
        auto simp: ballot_def request_vote_def become_follower_def start_election_def
          become_candidate_def become_leader_def emit_def Let_def)
qed simp

text \<open>What a granted vote fixes.\<close>

definition vote_kept :: "int \<Rightarrow> string \<Rightarrow> RaftNode \<Rightarrow> bool" where
  "vote_kept t c n \<longleftrightarrow> t < current_term n \<or> ballot n = (t, Some c)"

interpretation votes: invariant_system raft_step "vote_kept t c" for t c
proof
  fix op n assume inv: "vote_kept t c n"
  show "vote_kept t c (raft_step op n)"
  proof (cases op)
    case (RequestVote t' c' li lt now)
    with inv show ?thesis
      by (auto simp: vote_kept_def ballot_def request_vote_def become_follower_def emit_def Let_def)
  next
    case (StartElection grants now)
    with inv show ?thesis
      by (auto simp: vote_kept_def ballot_def start_election_def become_candidate_def
          become_leader_def emit_def Let_def)
  qed (use inv in \<open>auto simp: vote_kept_def current_term_ballot ballot_frame\<close>)
qed

lemma granted_vote_kept: "fst (request_vote t c li lt now n) \<Longrightarrow> vote_kept t c (snd (request_vote t c li lt now n))"
  by (auto simp: vote_kept_def ballot_def request_vote_def become_follower_def emit_def Let_def split: if_splits)

text \<open>C27: as long as its process runs, a node votes for one candidate per term: whatever requests,
  elections, appends, proposals and merges come between two granted votes of the same term,
  both went to the same candidate.\<close>

theorem one_vote_per_term:
  assumes "fst (request_vote t c li lt now n)"
    and "fst (request_vote t c' li' lt' now' (fold raft_step ops (snd (request_vote t c li lt now n))))"
  shows "c = c'"
proof -
  let ?n = "fold raft_step ops (snd (request_vote t c li lt now n))"
  have "vote_kept t c ?n"
    by (rule votes.inv_run) (rule granted_vote_kept [OF assms(1)])
  with assms(2) show ?thesis
    by (auto simp: vote_kept_def ballot_def request_vote_def Let_def split: if_splits)
qed

theorem one_vote_per_term_witness:
  "let n = snd (request_vote 1 ''b'' (-1) 0 5 (init_node ''a'' [''b'', ''c''] [] [] 0)) in
   fst (request_vote 1 ''b'' (-1) 0 9 (fold raft_step [RequestVote 1 ''c'' (-1) 0 7] n)) \<and>
   (\<forall>c. fst (request_vote 1 c (-1) 0 9 (fold raft_step [RequestVote 1 ''c'' (-1) 0 7] n)) \<longrightarrow> ''b'' = c)"
proof -
  have g: "fst (request_vote 1 ''b'' (-1) 0 5 (init_node ''a'' [''b'', ''c''] [] [] 0))" by code_simp
  have h: "fst (request_vote 1 ''b'' (-1) 0 9 (fold raft_step [RequestVote 1 ''c'' (-1) 0 7]
      (snd (request_vote 1 ''b'' (-1) 0 5 (init_node ''a'' [''b'', ''c''] [] [] 0)))))" by code_simp
  show ?thesis
    unfolding Let_def using h one_vote_per_term [OF g] by blast
qed

text \<open>The promise does not survive a restart, because neither the term nor the vote is on
  disk: a new node that voted in a term and restarts votes for anyone again in that term.\<close>

theorem restart_votes_again:
  "let n = init_node nid ps [] snap t0; t = int k in
   fst (request_vote t c li 0 t1 n) \<and>
   fst (request_vote t c' li' 0 t3 (restart t2 (snd (request_vote t c li 0 t1 n))))"
  by (auto simp: request_vote_def init_node_def restart_def become_follower_def last_log_term_def
      emit_def Let_def)

subsection \<open>Replicating the log\<close>

text \<open>What Raft's log matching gives for two logs that agree up to \<open>k\<close>.\<close>

definition log_matching :: "nat \<Rightarrow> LogEntry list \<Rightarrow> LogEntry list \<Rightarrow> bool" where
  "log_matching k L lg \<longleftrightarrow> take k lg = take k L \<and> k \<le> length lg \<and> k \<le> length L \<and>
     (\<forall>i < min (length L) (length lg). le_term (lg ! i) = le_term (L ! i) \<longrightarrow> lg ! i = L ! i)"

lemma append_loop_matching:
  "log_matching k L lg \<Longrightarrow>
   \<exists>lg'. append_loop (drop k L) (int k) lg = (lg', Inr ()) \<and> prefix L lg'"
proof (induction "length L - k" arbitrary: k lg)
  case 0
  then have k: "k = length L" "take (length L) lg = L" by (auto simp: log_matching_def)
  have "prefix L lg" using take_is_prefix [of "length L" lg] unfolding k(2) .
  with k show ?case by simp
next
  case (Suc d)
  then have kL: "k < length L" by linarith
  let ?e = "L ! k"
  have dr: "drop k L = ?e # drop (Suc k) L" using kL by (simp add: Cons_nth_drop_Suc)
  have kl: "k \<le> length lg" "take k lg = take k L" using Suc.prems by (auto simp: log_matching_def)
  let ?lg = "if k < length lg then (if le_term (lg ! k) \<noteq> le_term ?e then take k lg @ [?e] else lg)
    else lg @ [?e]"
  have step: "append_loop (drop k L) (int k) lg = append_loop (drop (Suc k) L) (int (Suc k)) ?lg"
    unfolding dr by (simp add: add.commute)
  have same: "lg ! k = ?e" if "k < length lg" "le_term (lg ! k) = le_term ?e"
    using Suc.prems that kL by (auto simp: log_matching_def)
  have tk: "take (Suc k) ?lg = take (Suc k) L"
    using kl same kL by (auto simp: take_Suc_conv_app_nth nth_append)
  have "le_term (?lg ! i) = le_term (L ! i) \<longrightarrow> ?lg ! i = L ! i" if i: "i < min (length L) (length ?lg)" for i
  proof (cases "i < Suc k")
    case True
    then show ?thesis using tk by (metis nth_take)
  next
    case False
    with i kl have "?lg = lg" by (auto split: if_splits)
    with i Suc.prems show ?thesis by (auto simp: log_matching_def)
  qed
  with tk kl kL have "log_matching (Suc k) L ?lg" by (auto simp: log_matching_def)
  with Suc.hyps(1) [of "Suc k"] Suc.hyps(2) step show ?case by simp
qed

text \<open>When the logs of a follower and a leader satisfy log matching and agree up to the
  previous index, \<open>append_entries\<close> with the leader's remaining entries succeeds and makes the
  leader's log a prefix of the follower's, dropping conflicting entries.\<close>

theorem append_entries_matches:
  assumes "log_matching k L (rlog n)" and "prev_term = (if k = 0 then 0 else le_term (L ! (k - 1)))"
    and "-1 \<le> last_applied n" and "last_applied n \<le> min (commit_index n) (int k - 1)"
  shows "\<exists>n'. append_entries (drop k L) (int k - 1) prev_term leader_commit now n = (n', Inr (True, 0, 0)) \<and>
    prefix L (rlog n') \<and> disk_log n' = rlog n'"
proof -
  obtain lg' where lg': "append_loop (drop k L) (int k) (rlog n) = (lg', Inr ())" "prefix L lg'"
    using append_loop_matching [OF assms(1)] by blast
  have k: "take k (rlog n) = take k L" "k \<le> length L" "k \<le> length (rlog n)"
    using assms(1) by (auto simp: log_matching_def)
  have "le_term (rlog n ! (k - 1)) = prev_term" if "k \<noteq> 0"
    using that assms(2) k(1) by (metis One_nat_def diff_less lessI neq0_conv nth_take)
  then have guard: "\<not> (0 \<le> int k - 1 \<and> int k - 1 < int (length (rlog n)) \<and>
      le_term (rlog n ! nat (int k - 1)) \<noteq> prev_term)"
    by (cases k) auto
  let ?m = "n\<lparr>rlog := lg', commit_index := min leader_commit (int (length lg') - 1)\<rparr>"
  have "length L \<le> length lg'" using lg'(2) by (rule prefix_length_le)
  then have "\<exists>la sm. apply_committed ?m = (?m\<lparr>last_applied := la, state_machine := sm\<rparr>, Inr ())"
    if "commit_index n < leader_commit"
    using that assms(3,4) k(2) apply_committed_ok [of ?m] by auto
  with lg' guard show ?thesis
    by (auto simp: append_entries_def Let_def save_log_def)
qed

theorem append_entries_matches_witness:
  "let e = (\<lambda>t i. \<lparr>le_term = t, le_index = i, le_command = [], le_timestamp = 0\<rparr>);
       L = [e 1 0, e 3 1, e 3 2] in
   \<exists>n'. append_entries (drop 1 L) 0 1 (-1) 0 (init_node ''f'' [''l''] [e 1 0, e 2 1] [] 0) =
     (n', Inr (True, 0, 0)) \<and> prefix L (rlog n') \<and> disk_log n' = rlog n'"
proof -
  let ?e = "\<lambda>t i. \<lparr>le_term = t, le_index = i, le_command = [], le_timestamp = 0\<rparr>"
  let ?L = "[?e 1 0, ?e 3 1, ?e 3 2]"
  have "log_matching 1 ?L (rlog (init_node ''f'' [''l''] [?e 1 0, ?e 2 1] [] 0))"
    by (auto simp: log_matching_def init_node_def nth_Cons split: nat.splits)
  from append_entries_matches [OF this, of 1 "-1" 0] show ?thesis
    by (simp add: Let_def init_node_def)
qed

subsection \<open>Quorums\<close>

text \<open>Two sets of acknowledgements that each commit an entry can be disjoint exactly when the
  number of peers is odd: the threshold counts the peers without the node itself, so in a
  cluster of two or four nodes half of the nodes are taken for a majority.\<close>

theorem quorums_disjoint_iff:
  assumes "distinct (node_id n # peers n)"
  shows "(\<exists>A B. A \<union> B \<subseteq> set (node_id n # peers n) \<and> A \<inter> B = {} \<and>
      check_majority i (n\<lparr>pending_acks := [(i, A)]\<rparr>) \<and> check_majority j (n\<lparr>pending_acks := [(j, B)]\<rparr>)) \<longleftrightarrow>
    odd (length (peers n))"
  (is "?disjoint \<longleftrightarrow> _")
proof -
  let ?N = "node_id n # peers n"
  let ?q = "length (peers n) div 2 + 1"
  have q: "check_majority k (n\<lparr>pending_acks := [(k, A)]\<rparr>) \<longleftrightarrow> ?q \<le> card A" for k A
    by (simp add: check_majority_def dict_get_default_def)
  show ?thesis
  proof
    assume ?disjoint
    then obtain A B where AB: "A \<union> B \<subseteq> set ?N" "A \<inter> B = {}" "?q \<le> card A" "?q \<le> card B"
      unfolding q by blast
    have "card (A \<union> B) = card A + card B"
      using AB(1,2) by (intro card_Un_disjoint) (auto intro: finite_subset)
    moreover have "card (A \<union> B) \<le> length ?N"
      using card_mono [OF _ AB(1)] distinct_card [OF assms] by simp
    ultimately show "odd (length (peers n))" using AB(3,4) by simp presburger
  next
    assume odd: "odd (length (peers n))"
    let ?A = "set (take ?q ?N)" and ?B = "set (drop ?q ?N)"
    have len: "length ?N = 2 * ?q" using odd by simp
    have "card ?A = ?q" "card ?B = ?q"
      using assms len by (simp_all only: distinct_card distinct_take distinct_drop length_take length_drop)
  simp_all
    moreover have "?A \<inter> ?B = {}"
      using assms by (metis append_take_drop_id distinct_append)
    moreover have "?A \<union> ?B \<subseteq> set ?N"
      by (metis append_take_drop_id set_append subset_refl)
    ultimately show ?disjoint unfolding q by (intro exI [of _ ?A] exI [of _ ?B]) simp
  qed
qed

theorem quorums_disjoint_iff_witness:
  "\<exists>A B. A \<union> B \<subseteq> {''a'', ''b''} \<and> A \<inter> B = {} \<and>
     check_majority 0 ((init_node ''a'' [''b''] [] [] 0)\<lparr>pending_acks := [(0, A)]\<rparr>) \<and>
     check_majority 0 ((init_node ''a'' [''b''] [] [] 0)\<lparr>pending_acks := [(0, B)]\<rparr>)"
  using quorums_disjoint_iff [of "init_node ''a'' [''b''] [] [] 0" 0 0]
  by (simp add: init_node_def)

end
