(* ===== verification/Raft_Hybrid.thy ===== *)
theory Raft_Hybrid
  imports Raft_Node
begin

text \<open>
  \<open>OfflineManager\<close> and \<open>HybridConsensusNode\<close> of \<open>engine/raft_consensus.py\<close> and the messages of
  \<open>engine/raft_transport.py\<close>. A message is
  delivered by calling the handler on the state of the peer; sockets, JSON and threads are not
  modelled. The \<open>NodeState\<close> objects are values here: two nodes of one process that share such
  an object after \<open>reconnect\<close> are outside of the model.
\<close>

subsection \<open>Messages\<close>

text \<open>The \<open>data\<close> dict of each kind of message; a missing key is \<^const>\<open>None\<close>.\<close>

datatype raft_data =
    VoteData (last_log_index: "int option") (last_log_term_of: "int option")
  | AppendData "LogEntry list option" "int option" "int option" "int option"
  | HeartbeatData "int option"
  | HealthData
  | OtherData

record RaftMessage =
  sender_id :: string
  msg_term :: int
  msg_data :: raft_data

datatype raft_response =
    VoteResponse string int bool
  | AppendResponse string int bool int int
  | HeartbeatResponse string int
  | HealthResponse string NodeRole int int nat nat bool nat "string list"

fun or_default :: "'a \<Rightarrow> 'a option \<Rightarrow> 'a" where
  "or_default d None = d"
| "or_default d (Some v) = v"

definition build_vote_request :: "string \<Rightarrow> int \<Rightarrow> int \<Rightarrow> int \<Rightarrow> RaftMessage" where
  "build_vote_request sender t last_index last_term =
     \<lparr>sender_id = sender, msg_term = t, msg_data = VoteData (Some last_index) (Some last_term)\<rparr>"

definition build_append_entries ::
    "string \<Rightarrow> int \<Rightarrow> LogEntry list \<Rightarrow> int \<Rightarrow> int \<Rightarrow> int \<Rightarrow> RaftMessage" where
  "build_append_entries sender t entries prev_index prev_term leader_commit =
     \<lparr>sender_id = sender, msg_term = t,
      msg_data = AppendData (Some entries) (Some prev_index) (Some prev_term) (Some leader_commit)\<rparr>"

definition build_heartbeat :: "string \<Rightarrow> int \<Rightarrow> int \<Rightarrow> RaftMessage" where
  "build_heartbeat sender t leader_commit =
     \<lparr>sender_id = sender, msg_term = t, msg_data = HeartbeatData (Some leader_commit)\<rparr>"

subsection \<open>The state of a hybrid node\<close>

record PendingOperation =
  po_command :: command
  po_timestamp :: datetime
  po_local_version :: int
  po_applied :: bool

record HybridNode =
  raft :: RaftNode
  pending :: "PendingOperation list"
  is_offline :: bool
  peer_transport :: "(string, string) dict"

definition new_hybrid :: "RaftNode \<Rightarrow> HybridNode" where
  "new_hybrid n = \<lparr>raft = n, pending = [], is_offline = False, peer_transport = []\<rparr>"

definition register_peer_transport :: "string \<Rightarrow> string \<Rightarrow> HybridNode \<Rightarrow> HybridNode" where
  "register_peer_transport peer addr h = h\<lparr>peer_transport := dict_set peer addr (peer_transport h)\<rparr>"

definition pending_count :: "HybridNode \<Rightarrow> nat" where
  "pending_count h = length (filter (\<lambda>p. \<not> po_applied p) (pending h))"

subsection \<open>The message handler and the messages sent\<close>

definition handle_raft_message ::
    "RaftMessage \<Rightarrow> datetime \<Rightarrow> HybridNode \<Rightarrow> HybridNode \<times> (raft_error + raft_response option)" where
  "handle_raft_message msg now h =
     (let n = raft h
      in case msg_data msg of
           VoteData li lt \<Rightarrow>
             (let (granted, n') = request_vote (msg_term msg) (sender_id msg) (or_default 0 li)
                 (or_default 0 lt) now n
              in (h\<lparr>raft := n'\<rparr>, Inr (Some (VoteResponse (node_id n') (msg_term msg) granted))))
         | AppendData es pv pt lc \<Rightarrow>
             (let (n', r) = append_entries (or_default [] es) (or_default (-1) pv) (or_default 0 pt)
                 (or_default (-1) lc) now n
              in (h\<lparr>raft := n'\<rparr>, case r of
                    Inl e \<Rightarrow> Inl e
                  | Inr (success, ci, ct) \<Rightarrow>
                      Inr (Some (AppendResponse (node_id n') (msg_term msg) success ci ct))))
         | HeartbeatData lc \<Rightarrow>
             (let n1 = n\<lparr>last_heartbeat := now\<rparr>;
                  (n2, r) =
                    (if or_default (-1) lc > commit_index n1 then
                       apply_committed (n1\<lparr>commit_index := min (or_default (-1) lc) (int (length (rlog n1)) - 1)\<rparr>)
                     else (n1, Inr ()))
              in (h\<lparr>raft := n2\<rparr>, case r of
                    Inl e \<Rightarrow> Inl e
                  | Inr _ \<Rightarrow> Inr (Some (HeartbeatResponse (node_id n2) (current_term n2)))))
         | HealthData \<Rightarrow>
             (h, Inr (Some (HealthResponse (node_id n) (role n) (current_term n) (commit_index n)
                (length (rlog n)) (length (state_machine n)) (is_offline h) (length (pending h)) (peers n))))
         | OtherData \<Rightarrow> (h, Inr None))"

text \<open>
  \<open>_check_vote\<close>: a peer without an address is assumed to vote for the candidate. The network
  \<open>send\<close> is the parameter that carries a message to an address and brings back the answer.
\<close>

definition check_vote ::
    "(string \<Rightarrow> RaftMessage \<Rightarrow> raft_response option) \<Rightarrow> HybridNode \<Rightarrow> string \<Rightarrow> bool" where
  "check_vote send h peer =
     (case dict_get (peer_transport h) peer of
        None \<Rightarrow> True
      | Some addr \<Rightarrow>
          (case send addr (build_vote_request (node_id (raft h)) (current_term (raft h))
             (int (length (rlog (raft h))) - 1) (last_log_term (raft h))) of
             Some (VoteResponse _ _ granted) \<Rightarrow> granted
           | _ \<Rightarrow> False))"

definition raft_request_vote ::
    "(string \<Rightarrow> RaftMessage \<Rightarrow> raft_response option) \<Rightarrow> HybridNode \<Rightarrow> nat" where
  "raft_request_vote send h = votes_received (check_vote send h) (peers (raft h))"

definition heartbeats :: "HybridNode \<Rightarrow> (string \<times> RaftMessage) list" where
  "heartbeats h = List.map_filter
     (\<lambda>p. map_option (\<lambda>addr. (addr, build_heartbeat (node_id (raft h)) (current_term (raft h))
        (commit_index (raft h)))) (dict_get (peer_transport h) p)) (peers (raft h))"

text \<open>\<open>_do_replicate\<close>: the message for a peer, with all entries of the log.\<close>

definition replicate_message :: "RaftNode \<Rightarrow> RaftMessage" where
  "replicate_message n = build_append_entries (node_id n) (current_term n) (rlog n)
     (int (length (rlog n)) - 1) (last_log_term n) (commit_index n)"

subsection \<open>Offline operation\<close>

definition go_offline :: "HybridNode \<Rightarrow> HybridNode" where
  "go_offline h = h\<lparr>is_offline := True, raft := (raft h)\<lparr>role := OFFLINE\<rparr>\<rparr>"

definition apply_pending :: "command \<Rightarrow> datetime \<Rightarrow> HybridNode \<Rightarrow> HybridNode \<times> NodeState" where
  "apply_pending c now h =
     (let slug = cmd_slug c
      in if slug = [] then (h, empty_node_state)
      else
        let n = raft h;
            sm = (if dict_has (state_machine n) slug then state_machine n
                  else dict_set slug empty_node_state (state_machine n));
            cur = node_state sm slug;
            op = \<lparr>po_command = c, po_timestamp = now, po_local_version = ns_version cur, po_applied = False\<rparr>;
            new = (if dict_get c ''type'' = Some ''transition'' then
                     \<lparr>ns_state = dict_get_default c ''to_state'' (ns_state cur), ns_version = ns_version cur + 1\<rparr>
                   else cur)
        in (h\<lparr>raft := n\<lparr>state_machine := dict_set slug new sm\<rparr>, pending := pending h @ [op]\<rparr>, new))"

text \<open>\<open>_sync_with_leader\<close>: the operations with their marks, and the leader.\<close>

fun sync_pending ::
    "datetime \<Rightarrow> RaftNode \<Rightarrow> PendingOperation list \<Rightarrow> RaftNode
      \<Rightarrow> PendingOperation list \<times> RaftNode \<times> (raft_error + unit)" where
  "sync_pending now local [] leader = ([], leader, Inr ())"
| "sync_pending now local (op # ops) leader =
     (if po_applied op then
        (let (ops', leader', r) = sync_pending now local ops leader in (op # ops', leader', r))
      else
        case propose (po_command op) now leader of
          (leader1, Inl e) \<Rightarrow> (op # ops, leader1, Inl e)
        | (leader1, Inr True) \<Rightarrow>
            (let (ops', leader', r) = sync_pending now local ops leader1
             in (op\<lparr>po_applied := True\<rparr> # ops', leader', r))
        | (leader1, Inr False) \<Rightarrow>
            (let slug = cmd_slug (po_command op);
                 leader2 = (case (get_state slug local, get_state slug leader1) of
                     (Some l, Some r) \<Rightarrow>
                       fst (provide_merge slug (merge_states l r (path_transitions local)) leader1)
                   | _ \<Rightarrow> leader1);
                 (ops', leader', r) = sync_pending now local ops leader2
             in (op # ops', leader', r)))"

definition go_online ::
    "datetime \<Rightarrow> HybridNode \<Rightarrow> RaftNode \<Rightarrow> HybridNode \<times> RaftNode \<times> (raft_error + unit)" where
  "go_online now h leader =
     (let h1 = h\<lparr>is_offline := False, raft := (raft h)\<lparr>role := RECONNECTING\<rparr>\<rparr>;
          (ops, leader', r) = sync_pending now (raft h1) (pending h1) leader
      in case r of
           Inl e \<Rightarrow> (h1\<lparr>pending := ops\<rparr>, leader', Inl e)
         | Inr _ \<Rightarrow> (h1\<lparr>pending := ops, raft := (raft h1)\<lparr>role := FOLLOWER\<rparr>\<rparr>, leader', Inr ()))"

definition apply_cmd :: "command \<Rightarrow> datetime \<Rightarrow> HybridNode \<Rightarrow> HybridNode \<times> (raft_error + bool)" where
  "apply_cmd c now h =
     (if is_offline h then (fst (apply_pending c now h), Inr True)
      else let (n, r) = propose c now (raft h) in (h\<lparr>raft := n\<rparr>, r))"

subsection \<open>Reconnecting\<close>

text \<open>Step 1: the log of the leader replaces the local one and is applied.\<close>

definition sync_log :: "RaftNode \<Rightarrow> RaftNode \<Rightarrow> RaftNode \<times> (raft_error + unit)" where
  "sync_log leader n =
     apply_committed (n\<lparr>rlog := rlog leader, commit_index := int (length (rlog leader)) - 1\<rparr>)"

text \<open>Step 2: the pending operations are proposed to the leader.\<close>

fun send_pending ::
    "datetime \<Rightarrow> PendingOperation list \<Rightarrow> RaftNode \<Rightarrow> PendingOperation list \<times> RaftNode \<times> (raft_error + unit)" where
  "send_pending now [] leader = ([], leader, Inr ())"
| "send_pending now (op # ops) leader =
     (if po_applied op then
        (let (ops', leader', r) = send_pending now ops leader in (op # ops', leader', r))
      else
        case propose (po_command op) now leader of
          (leader1, Inl e) \<Rightarrow> (op # ops, leader1, Inl e)
        | (leader1, Inr ok) \<Rightarrow>
            (let (ops', leader', r) = send_pending now ops leader1
             in (op\<lparr>po_applied := ok\<rparr> # ops', leader', r)))"

text \<open>Steps 3 and 4: a pending operation whose run has another version at the leader.\<close>

definition merge_pending :: "RaftNode \<Rightarrow> PendingOperation \<Rightarrow> RaftNode \<Rightarrow> RaftNode" where
  "merge_pending local op leader =
     (let slug = cmd_slug (po_command op)
      in if slug = [] then leader
      else case (get_state slug local, get_state slug leader) of
          (Some l, Some r) \<Rightarrow>
            if ns_version l \<noteq> ns_version r then
              (let merged = merge_states l r (path_transitions local)
               in if merged \<noteq> l then fst (provide_merge slug merged leader) else leader)
            else leader
        | _ \<Rightarrow> leader)"

definition reconnect ::
    "datetime \<Rightarrow> HybridNode \<Rightarrow> RaftNode \<Rightarrow> HybridNode \<times> RaftNode \<times> (raft_error + unit)" where
  "reconnect now h leader =
     (case sync_log leader (raft h) of
        (n1, Inl e) \<Rightarrow> (h\<lparr>raft := n1\<rparr>, leader, Inl e)
      | (n1, Inr _) \<Rightarrow>
          (case send_pending now (pending h) leader of
             (ops, leader1, Inl e) \<Rightarrow> (h\<lparr>raft := n1, pending := ops\<rparr>, leader1, Inl e)
           | (ops, leader1, Inr _) \<Rightarrow>
               (let leader2 = fold (merge_pending n1) ops leader1;
                    n2 = save_snapshot (n1\<lparr>state_machine := state_machine leader2\<rparr>)
                in (h\<lparr>raft := n2\<lparr>role := FOLLOWER\<rparr>, pending := [], is_offline := False\<rparr>, leader2, Inr ()))))"

definition is_leader :: "HybridNode \<Rightarrow> bool" where
  "is_leader h \<longleftrightarrow> role (raft h) = LEADER"

definition force_election ::
    "(string \<Rightarrow> RaftMessage \<Rightarrow> raft_response option) \<Rightarrow> datetime \<Rightarrow> HybridNode \<Rightarrow> HybridNode \<times> bool" where
  "force_election send now h =
     (if is_leader h then (h, False)
      else
        let cand = h\<lparr>raft := (raft h)\<lparr>current_term := current_term (raft h) + 1\<rparr>\<rparr>;
            h' = h\<lparr>raft := start_election (check_vote send cand) now (raft h)\<rparr>
        in (h', is_leader h'))"

subsection \<open>Replication duplicates the log\<close>

lemma append_loop_beyond:
  "int (length lg) \<le> idx \<Longrightarrow> append_loop es idx lg = (lg @ es, Inr ())"
  by (induction es arbitrary: idx lg) auto

lemma rlog_apply_committed: "rlog (fst (apply_committed n)) = rlog n"
proof -
  obtain la sm where "fst (apply_committed n) = n\<lparr>last_applied := la, state_machine := sm\<rparr>"
    using apply_committed_frame by blast
  then show ?thesis by simp
qed

lemma rlog_apply_committedD: "apply_committed m = (n, r) \<Longrightarrow> rlog n = rlog m"
  using rlog_apply_committed [of m] by simp

lemma rlog_append_entries:
  "int (length (rlog n)) \<le> pv \<Longrightarrow> rlog (fst (append_entries es pv pt lc now n)) = rlog n @ es"
  by (auto simp: append_entries_def append_loop_beyond save_log_def Let_def
      dest!: rlog_apply_committedD split: prod.splits sum.splits)

text \<open>A follower that is behind its leader does not catch up by replication: the message holds
  the whole log but names the leader's last index as the previous one, so the follower appends
  the leader's whole log to its own, entries it already has included.\<close>

theorem replicate_duplicates_log:
  assumes "length (rlog (raft f)) < length (rlog l)"
  shows "rlog (raft (fst (handle_raft_message (replicate_message l) now f))) = rlog (raft f) @ rlog l"
  using assms
  by (simp add: handle_raft_message_def replicate_message_def build_append_entries_def
      rlog_append_entries Let_def split_beta)

definition demo_entry :: "int \<Rightarrow> LogEntry" where
  "demo_entry i = \<lparr>le_term = 1, le_index = i, le_command = demo_create, le_timestamp = 0\<rparr>"

theorem replicate_duplicates_log_witness:
  "map le_index (rlog (raft (fst (handle_raft_message
     (replicate_message (init_node ''l'' [''f''] [demo_entry 0, demo_entry 1] [] 0)) 1
     (new_hybrid (init_node ''f'' [''l''] [demo_entry 0] [] 0)))))) = [0, 0, 1]"
  by (subst replicate_duplicates_log) (simp_all add: new_hybrid_def init_node_def demo_entry_def)

subsection \<open>Reconnecting\<close>

lemma dict_set_same: "map_of d k = Some v \<Longrightarrow> AList.update k v d = d"
  by (induction d) auto

lemma merge_pending_frame:
  "\<exists>snap. merge_pending local op leader = leader\<lparr>disk_snapshot := snap\<rparr>"
proof (cases "\<exists>l r. get_state (cmd_slug (po_command op)) local = Some l \<and>
    get_state (cmd_slug (po_command op)) leader = Some r \<and> ns_version l \<noteq> ns_version r \<and>
    cmd_slug (po_command op) \<noteq> [] \<and> merge_states l r (path_transitions local) \<noteq> l \<and> role leader = LEADER")
  case True
  then obtain l r where lr: "get_state (cmd_slug (po_command op)) local = Some l"
    "get_state (cmd_slug (po_command op)) leader = Some r" "ns_version l \<noteq> ns_version r"
    "cmd_slug (po_command op) \<noteq> []" "merge_states l r (path_transitions local) \<noteq> l" "role leader = LEADER"
    by blast
  then have "merge_states l r (path_transitions local) = r"
    by (auto simp: merge_states_def split: if_splits)
  with lr have "merge_pending local op leader = leader\<lparr>disk_snapshot := state_machine leader\<rparr>"
    by (simp add: merge_pending_def Let_def provide_merge_def get_state_def dict_set_same save_snapshot_def)
  then show ?thesis by blast
next
  case False
  then have "merge_pending local op leader = leader"
    by (auto simp: merge_pending_def Let_def provide_merge_def split: option.splits)
  then have "merge_pending local op leader = leader\<lparr>disk_snapshot := disk_snapshot leader\<rparr>" by simp
  then show ?thesis by blast
qed

lemma merge_all_frame:
  "\<exists>snap. fold (merge_pending local) ops leader = leader\<lparr>disk_snapshot := snap\<rparr>"
proof (induction ops arbitrary: leader)
  case Nil
  have "leader = leader\<lparr>disk_snapshot := disk_snapshot leader\<rparr>" by simp
  then show ?case by (simp only: fold_simps) blast
next
  case (Cons op ops)
  obtain snap where s: "merge_pending local op leader = leader\<lparr>disk_snapshot := snap\<rparr>"
    using merge_pending_frame by blast
  obtain snap' where "fold (merge_pending local) ops (leader\<lparr>disk_snapshot := snap\<rparr>) =
      leader\<lparr>disk_snapshot := snap\<rparr>\<lparr>disk_snapshot := snap'\<rparr>" using Cons.IH by blast
  with s show ?case by auto
qed

lemma merge_all_follower:
  "role leader \<noteq> LEADER \<Longrightarrow> fold (merge_pending local) ops leader = leader"
  by (induction ops) (auto simp: merge_pending_def Let_def provide_merge_def split: option.splits)

lemma propose_leader:
  assumes "leader_inv L0 S0 n"
  shows "\<exists>n' e. propose c now n = (n', Inr True) \<and> leader_inv L0 S0 n' \<and>
    rlog n' = rlog n @ [e] \<and> le_command e = c"
proof -
  let ?i = "int (length (rlog n))"
  let ?e = "\<lparr>le_term = current_term n, le_index = ?i, le_command = c, le_timestamp = now\<rparr>"
  let ?n2 = "n\<lparr>rlog := rlog n @ [?e], disk_log := rlog n @ [?e],
      pending_acks := dict_set ?i {node_id n} (pending_acks n)\<rparr>"
  have "apply_committed (?n2\<lparr>commit_index := ?i\<rparr>) = (?n2\<lparr>commit_index := ?i, last_applied := ?i,
      state_machine := replay (take (nat (?i + 1)) (rlog n @ [?e])) S0\<rparr>, Inr ())"
    using replay_commit [OF assms, of ?i ?n2 "[?e]"] assms by (simp add: leader_inv_def)
  then have "\<exists>n'. propose c now n = (n', Inr True) \<and> rlog n' = rlog n @ [?e]"
    using assms by (auto simp: propose_def Let_def save_log_def replicate_all_frame leader_inv_def)
  with leader_inv_propose [OF assms, of c now] show ?thesis by force
qed

lemma send_pending_leader:
  "leader_inv L0 S0 n \<Longrightarrow>
   \<exists>ops' n'. send_pending now ops n = (ops', n', Inr ()) \<and> leader_inv L0 S0 n' \<and>
     map le_command (rlog n') =
       map le_command (rlog n) @ map po_command (filter (\<lambda>op. \<not> po_applied op) ops)"
proof (induction ops arbitrary: n)
  case (Cons op ops)
  show ?case
  proof (cases "po_applied op")
    case True
    with Cons.IH [OF Cons.prems] show ?thesis by auto
  next
    case False
    obtain n1 e where p: "propose (po_command op) now n = (n1, Inr True)" "leader_inv L0 S0 n1"
      "rlog n1 = rlog n @ [e]" "le_command e = po_command op"
      using propose_leader [OF Cons.prems] by blast
    from Cons.IH [OF p(2)] False p show ?thesis by auto
  qed
qed auto

lemma send_pending_follower:
  "role n \<noteq> LEADER \<Longrightarrow> \<exists>ops'. send_pending now ops n = (ops', n, Inr ())"
  by (induction ops) (auto simp: propose_def)

lemma sync_log_ok:
  assumes "-1 \<le> last_applied n"
  shows "\<exists>n'. sync_log leader n = (n', Inr ())"
proof (cases "last_applied n \<le> int (length (rlog leader)) - 1")
  case True
  with assms show ?thesis by (simp add: sync_log_def apply_committed_ok)
next
  case False
  then show ?thesis by (simp add: sync_log_def apply_committed.simps)
qed

text \<open>When a node reconnects to a leader, the leader's log gains exactly the commands pending
  at the node, once each and in order, its state stays the replay of its committed log, and
  the node ends with the leader's state, no pending operation and online. The CRDT merge of the
  optimistic local states in between never changes the leader's state.\<close>

theorem reconnect_to_leader:
  assumes "leader_inv L0 S0 leader" and "-1 \<le> last_applied (raft h)"
  shows "\<exists>h' leader'. reconnect now h leader = (h', leader', Inr ()) \<and> leader_inv L0 S0 leader' \<and>
    map le_command (rlog leader') = map le_command (rlog leader) @
      map po_command (filter (\<lambda>op. \<not> po_applied op) (pending h)) \<and>
    state_machine (raft h') = state_machine leader' \<and> pending h' = [] \<and> \<not> is_offline h'"
proof -
  obtain n1 where n1: "sync_log leader (raft h) = (n1, Inr ())"
    using sync_log_ok [OF assms(2)] by blast
  obtain ops l1 where l1: "send_pending now (pending h) leader = (ops, l1, Inr ())" "leader_inv L0 S0 l1"
    "map le_command (rlog l1) = map le_command (rlog leader) @
      map po_command (filter (\<lambda>op. \<not> po_applied op) (pending h))"
    using send_pending_leader [OF assms(1)] by blast
  obtain snap where "fold (merge_pending n1) ops l1 = l1\<lparr>disk_snapshot := snap\<rparr>"
    using merge_all_frame by blast
  with n1 l1 show ?thesis
    by (simp add: reconnect_def Let_def save_snapshot_def leader_inv_def)
qed

definition offline_demo :: HybridNode where
  "offline_demo = fst (apply_pending [(''type'', ''transition''), (''slug'', ''flux''), (''to_state'', ''review'')] 5
     (go_offline (new_hybrid (init_node ''n2'' [''n1''] [] [] 0))))"

theorem reconnect_to_leader_witness:
  "\<exists>h' leader'. reconnect 9 offline_demo demo_leader = (h', leader', Inr ()) \<and>
     map le_command (rlog leader') =
       [[(''type'', ''transition''), (''slug'', ''flux''), (''to_state'', ''review'')]]"
proof -
  have "leader_inv [] [] demo_leader" "-1 \<le> last_applied (raft offline_demo)"
    "rlog demo_leader = []"
    "map po_command (filter (\<lambda>op. \<not> po_applied op) (pending offline_demo)) =
       [[(''type'', ''transition''), (''slug'', ''flux''), (''to_state'', ''review'')]]"
    by (simp add: leader_inv_def demo_leader_def become_leader_def emit_def init_node_def replay_def) code_simp+
  with reconnect_to_leader [of "[]" "[]" demo_leader offline_demo 9] show ?thesis by auto
qed

text \<open>When the node it reconnects to is not the leader, every proposal is refused but the
  pending operations are dropped all the same: the other node is unchanged and the operations
  are in no log.\<close>

theorem reconnect_to_follower_drops:
  assumes "role peer \<noteq> LEADER" and "-1 \<le> last_applied (raft h)"
  shows "\<exists>h'. reconnect now h peer = (h', peer, Inr ()) \<and> pending h' = [] \<and> rlog (raft h') = rlog peer \<and>
    state_machine (raft h') = state_machine peer"
proof -
  obtain n1 where n1: "sync_log peer (raft h) = (n1, Inr ())"
    using sync_log_ok [OF assms(2)] by blast
  then have "rlog n1 = rlog peer"
    by (auto simp: sync_log_def dest!: rlog_apply_committedD)
  moreover obtain ops where "send_pending now (pending h) peer = (ops, peer, Inr ())"
    using send_pending_follower [OF assms(1)] by blast
  ultimately show ?thesis
    using n1 merge_all_follower [OF assms(1)] by (simp add: reconnect_def Let_def save_snapshot_def)
qed

theorem reconnect_to_follower_drops_witness:
  "\<exists>h'. reconnect 9 offline_demo (init_node ''n3'' [] [] [] 0) = (h', init_node ''n3'' [] [] [] 0, Inr ()) \<and>
     pending h' = [] \<and> pending_count offline_demo = 1"
proof -
  have "-1 \<le> last_applied (raft offline_demo)" "pending_count offline_demo = 1"
    "role (init_node ''n3'' [] [] [] 0) \<noteq> LEADER"
    by code_simp+
  with reconnect_to_follower_drops [of "init_node ''n3'' [] [] [] 0" offline_demo 9] show ?thesis by blast
qed

end
