(* ===== verification/Event_Store.thy ===== *)
theory Event_Store
  imports Systems
begin

text \<open>
  The append-only event store (\<open>engine/event_store.py\<close>): event files, their index, retention,
  compaction and queries. A file is named by its sequence number, so a file name is that
  number; a file that is no valid JSON event is \<^const>\<open>None\<close>. ISO timestamps are numbers, in
  the same order.
\<close>

subsection \<open>Events\<close>

datatype EventType =
    STATE_TRANSITION | VALIDATION | VALIDATION_DETAIL | ADAPTER_CALL | ADAPTER_RESPONSE
  | EVENT_ERROR | USER_ACTION | WEEKLY_SUMMARY | DEGRADATION_CHANGE | INVARIANT_VIOLATION

fun event_type_value :: "EventType \<Rightarrow> string" where
  "event_type_value STATE_TRANSITION = ''state_transition''"
| "event_type_value VALIDATION = ''validation''"
| "event_type_value VALIDATION_DETAIL = ''validation_detail''"
| "event_type_value ADAPTER_CALL = ''adapter_call''"
| "event_type_value ADAPTER_RESPONSE = ''adapter_response''"
| "event_type_value EVENT_ERROR = ''error''"
| "event_type_value USER_ACTION = ''user_action''"
| "event_type_value WEEKLY_SUMMARY = ''weekly_summary''"
| "event_type_value DEGRADATION_CHANGE = ''degradation_change''"
| "event_type_value INVARIANT_VIOLATION = ''invariant_violation''"

definition all_event_types :: "EventType list" where
  "all_event_types = [STATE_TRANSITION, VALIDATION, VALIDATION_DETAIL, ADAPTER_CALL,
     ADAPTER_RESPONSE, EVENT_ERROR, USER_ACTION, WEEKLY_SUMMARY, DEGRADATION_CHANGE, INVARIANT_VIOLATION]"

text \<open>\<open>EventType(value)\<close>, where \<^const>\<open>None\<close> is the \<open>ValueError\<close>.\<close>

definition event_type_of :: "string \<Rightarrow> EventType option" where
  "event_type_of v = List.find (\<lambda>t. event_type_value t = v) all_event_types"

text \<open>
  The \<open>data\<close> dict: of a summary event written by the compaction, or of any other event, whose
  keys \<open>validator\<close> and \<open>passed\<close> the store looks at.
\<close>

record summary_data =
  compacted_events :: nat
  period_start :: datetime
  period_end :: datetime
  total_cost :: rat
  sum_passed :: nat
  sum_failed :: nat
  pass_rate :: rat
  top_validators :: "(string, rat) dict"

datatype event_data =
    PlainData "string option" "bool option" "(string, string) dict"
  | SummaryData summary_data

fun data_validator :: "event_data \<Rightarrow> string option" where
  "data_validator (PlainData v p d) = v"
| "data_validator (SummaryData s) = None"

text \<open>\<open>data.get('passed', True)\<close> as a condition; a summary stores a count under that key.\<close>

fun data_passed :: "event_data \<Rightarrow> bool" where
  "data_passed (PlainData v p d) = (p \<noteq> Some False)"
| "data_passed (SummaryData s) = (sum_passed s \<noteq> 0)"

text \<open>\<open>data.get('passed') == b\<close>; Python's \<open>True\<close> equals 1.\<close>

fun data_passed_is :: "bool \<Rightarrow> event_data \<Rightarrow> bool" where
  "data_passed_is b (PlainData v p d) = (p = Some b)"
| "data_passed_is b (SummaryData s) = (sum_passed s = (if b then 1 else 0))"

record Event =
  sequence :: int
  ev_run_slug :: string
  ev_timestamp :: datetime
  event_type :: string
  ev_data :: event_data
  parent_id :: "int option"
  trace_id :: "string option"
  hop_count :: int
  cost_usd :: rat
  validator_tier :: int

definition plain_event :: "int \<Rightarrow> string \<Rightarrow> datetime \<Rightarrow> EventType \<Rightarrow> event_data \<Rightarrow> rat \<Rightarrow> Event" where
  "plain_event seq slug now ty d cost = \<lparr>sequence = seq, ev_run_slug = slug, ev_timestamp = now,
     event_type = event_type_value ty, ev_data = d, parent_id = None, trace_id = None,
     hop_count = 0, cost_usd = cost, validator_tier = 1\<rparr>"

definition from_validation ::
    "int \<Rightarrow> string \<Rightarrow> string \<Rightarrow> int \<Rightarrow> bool \<Rightarrow> rat \<Rightarrow> (string, string) dict \<Rightarrow> datetime \<Rightarrow> Event" where
  "from_validation seq slug vname tier passed cost details now =
     (plain_event seq slug now VALIDATION (PlainData (Some vname) (Some passed) details) cost)
     \<lparr>validator_tier := tier\<rparr>"

definition from_transition :: "int \<Rightarrow> string \<Rightarrow> string \<Rightarrow> string \<Rightarrow> datetime \<Rightarrow> Event" where
  "from_transition seq slug f t now =
     plain_event seq slug now STATE_TRANSITION (PlainData None None [(''from'', f), (''to'', t)]) 0"

definition from_error :: "int \<Rightarrow> string \<Rightarrow> string \<Rightarrow> string \<Rightarrow> rat \<Rightarrow> datetime \<Rightarrow> Event" where
  "from_error seq slug source message cost now =
     plain_event seq slug now EVENT_ERROR
       (PlainData None None [(''source'', source), (''message'', message)]) cost"

subsection \<open>Retention\<close>

definition days :: "int \<Rightarrow> int" where
  "days n = n * 86400000000"

text \<open>A retention of \<open>timedelta.max\<close> is \<^const>\<open>None\<close>.\<close>

type_synonym retention_table = "(EventType, int option) dict"

definition default_retention :: retention_table where
  "default_retention =
     [(STATE_TRANSITION, None), (VALIDATION, Some (days 90)), (VALIDATION_DETAIL, Some (days 30)),
      (ADAPTER_CALL, Some (days 30)), (ADAPTER_RESPONSE, Some (days 7)), (EVENT_ERROR, Some (days 365)),
      (USER_ACTION, Some (days 365)), (WEEKLY_SUMMARY, None), (DEGRADATION_CHANGE, Some (days 180)),
      (INVARIANT_VIOLATION, Some (days 365))]"

definition override_retention :: "retention_table \<Rightarrow> retention_table" where
  "override_retention overrides = fold (\<lambda>(t, d). dict_set t d) overrides default_retention"

definition compaction_age :: int where
  "compaction_age = days 30"

definition compaction_batch :: nat where
  "compaction_batch = 10"

definition get_retention :: "retention_table \<Rightarrow> EventType \<Rightarrow> int option" where
  "get_retention ret t = dict_get_default ret t (Some (days 30))"

datatype store_error = StoreValueError | StoreAttributeError | StoreKeyError

definition should_purge :: "retention_table \<Rightarrow> Event \<Rightarrow> datetime \<Rightarrow> store_error + bool" where
  "should_purge ret e now =
     (case event_type_of (event_type e) of
        None \<Rightarrow> Inl StoreValueError
      | Some t \<Rightarrow>
          (case get_retention ret t of
             None \<Rightarrow> Inr False
           | Some ttl \<Rightarrow> Inr (now - ev_timestamp e > ttl)))"

subsection \<open>The store\<close>

record EventStore =
  es_slug :: string
  files :: "(int, Event option) dict"
  archive_files :: "int list"
  es_index :: "(int, int) dict"
  last_sequence :: int
  retention :: retention_table
  disk_index :: "(int, int) dict option"

definition save_index :: "EventStore \<Rightarrow> EventStore" where
  "save_index s = s\<lparr>disk_index := Some (es_index s)\<rparr>"

definition load_last_sequence :: "(int, Event option) dict \<Rightarrow> int list \<Rightarrow> int" where
  "load_last_sequence fs archive = fold max archive (fold max (dict_keys fs) 0)"

definition load_index ::
    "(int, Event option) dict \<Rightarrow> (int, int) dict option \<Rightarrow> (int, int) dict" where
  "load_index fs stored =
     (case stored of Some idx \<Rightarrow> idx | None \<Rightarrow> map (\<lambda>k. (k, k)) (sort (dict_keys fs)))"

definition load_store ::
    "string \<Rightarrow> (int, Event option) dict \<Rightarrow> int list \<Rightarrow> (int, int) dict option \<Rightarrow> retention_table \<Rightarrow> EventStore" where
  "load_store slug fs archive stored ret =
     (let idx = load_index fs stored
      in \<lparr>es_slug = slug, files = fs, archive_files = archive, es_index = idx,
          last_sequence = load_last_sequence fs archive, retention = ret, disk_index = Some idx\<rparr>)"

text \<open>A new process on the same directories.\<close>

definition reload :: "EventStore \<Rightarrow> EventStore" where
  "reload s = load_store (es_slug s) (files s) (archive_files s) (disk_index s) (retention s)"

definition write_event :: "int \<Rightarrow> Event \<Rightarrow> EventStore \<Rightarrow> EventStore" where
  "write_event seq e s = s\<lparr>files := dict_set seq (Some (e\<lparr>sequence := seq\<rparr>)) (files s),
     es_index := dict_set seq seq (es_index s)\<rparr>"

definition next_sequence :: "EventStore \<Rightarrow> int" where
  "next_sequence s = last_sequence s + 1"

definition append_event :: "Event \<Rightarrow> EventStore \<Rightarrow> int \<times> EventStore" where
  "append_event e s =
     (let seq = next_sequence s
      in (seq, save_index ((write_event seq e s)\<lparr>last_sequence := seq\<rparr>)))"

fun write_events :: "int \<Rightarrow> Event list \<Rightarrow> EventStore \<Rightarrow> EventStore" where
  "write_events seq [] s = s"
| "write_events seq (e # es) s = write_events (seq + 1) es (write_event seq e s)"

definition append_many :: "Event list \<Rightarrow> EventStore \<Rightarrow> int list \<times> EventStore" where
  "append_many es s =
     (if es = [] then ([], s)
      else
        let start = last_sequence s + 1;
            seqs = map (\<lambda>i. start + int i) [0..<length es]
        in (seqs, save_index ((write_events start es s)\<lparr>last_sequence := last seqs\<rparr>)))"

subsection \<open>Reading\<close>

definition get_event :: "int \<Rightarrow> EventStore \<Rightarrow> Event option" where
  "get_event seq s =
     (case dict_get (es_index s) seq of
        None \<Rightarrow> None
      | Some f \<Rightarrow> (case dict_get (files s) f of None \<Rightarrow> None | Some c \<Rightarrow> c))"

text \<open>\<open>range(start, last + 1)\<close>, read until \<open>limit\<close> events are found.\<close>

definition get_range :: "int \<Rightarrow> int \<Rightarrow> EventStore \<Rightarrow> Event list" where
  "get_range start limit s =
     take (nat limit) (List.map_filter (\<lambda>seq. get_event seq s) [start..last_sequence s])"

definition get_all :: "EventStore \<Rightarrow> Event list" where
  "get_all s = get_range 1 (last_sequence s + 1) s"

record event_query =
  q_event_type :: "string option"
  q_validator :: "string option"
  q_passed :: "bool option"
  q_min_cost :: "rat option"
  q_since :: "datetime option"

definition query_matches :: "event_query \<Rightarrow> Event \<Rightarrow> bool" where
  "query_matches q e \<longleftrightarrow>
     (case q_event_type q of None \<Rightarrow> True | Some t \<Rightarrow> t = [] \<or> event_type e = t) \<and>
     (case q_validator q of None \<Rightarrow> True | Some v \<Rightarrow> v = [] \<or> data_validator (ev_data e) = Some v) \<and>
     (case q_passed q of None \<Rightarrow> True | Some b \<Rightarrow> data_passed_is b (ev_data e)) \<and>
     (case q_min_cost q of None \<Rightarrow> True | Some c \<Rightarrow> c = 0 \<or> \<not> cost_usd e < c) \<and>
     (case q_since q of None \<Rightarrow> True | Some t \<Rightarrow> \<not> ev_timestamp e < t)"

text \<open>From the newest event down, until \<open>limit\<close> events match.\<close>

definition query :: "event_query \<Rightarrow> int \<Rightarrow> EventStore \<Rightarrow> Event list" where
  "query q limit s =
     take (nat limit) (filter (query_matches q)
       (List.map_filter (\<lambda>seq. get_event seq s) (rev [1..last_sequence s])))"

definition add_cost :: "Event \<Rightarrow> (string, rat) dict \<Rightarrow> (string, rat) dict" where
  "add_cost e costs =
     (let v = (case data_validator (ev_data e) of None \<Rightarrow> ''unknown'' | Some v \<Rightarrow> v)
      in dict_set v (dict_get_default costs v 0 + cost_usd e) costs)"

definition cost_counted :: "datetime option \<Rightarrow> Event \<Rightarrow> bool" where
  "cost_counted since e \<longleftrightarrow>
     event_type e \<in> {event_type_value VALIDATION, event_type_value VALIDATION_DETAIL} \<and>
     (case since of None \<Rightarrow> True | Some t \<Rightarrow> \<not> ev_timestamp e < t)"

definition costs_of :: "datetime option \<Rightarrow> Event list \<Rightarrow> (string, rat) dict" where
  "costs_of since es = sort_key (\<lambda>(v, c). - c) (fold add_cost (filter (cost_counted since) es) [])"

definition cost_summary :: "datetime option \<Rightarrow> EventStore \<Rightarrow> (string, rat) dict" where
  "cost_summary since s = costs_of since (get_all s)"

subsection \<open>Purging\<close>

text \<open>
  The loop over the index: the files left, the sequences to delete and the number of files
  removed, or the exception that left the loop with the files removed so far.
\<close>

fun purge_loop ::
    "retention_table \<Rightarrow> datetime \<Rightarrow> (int \<times> int) list \<Rightarrow> (int, Event option) dict
      \<Rightarrow> (int, Event option) dict \<times> (store_error + int list \<times> nat)" where
  "purge_loop ret now [] fs = (fs, Inr ([], 0))"
| "purge_loop ret now ((seq, f) # rest) fs =
     (case dict_get fs f of
        None \<Rightarrow>
          (case purge_loop ret now rest fs of
             (fs', Inl e) \<Rightarrow> (fs', Inl e)
           | (fs', Inr (del, n)) \<Rightarrow> (fs', Inr (seq # del, n)))
      | Some None \<Rightarrow> (fs, Inl StoreAttributeError)
      | Some (Some ev) \<Rightarrow>
          (case should_purge ret ev now of
             Inl e \<Rightarrow> (fs, Inl e)
           | Inr False \<Rightarrow> purge_loop ret now rest fs
           | Inr True \<Rightarrow>
               (case purge_loop ret now rest (dict_del f fs) of
                  (fs', Inl e) \<Rightarrow> (fs', Inl e)
                | (fs', Inr (del, n)) \<Rightarrow> (fs', Inr (seq # del, n + 1)))))"

definition purge :: "datetime \<Rightarrow> EventStore \<Rightarrow> EventStore \<times> (store_error + nat)" where
  "purge now s =
     (case purge_loop (retention s) now (es_index s) (files s) of
        (fs, Inl e) \<Rightarrow> (s\<lparr>files := fs\<rparr>, Inl e)
      | (fs, Inr (del, n)) \<Rightarrow>
          let s' = s\<lparr>files := fs, es_index := fold dict_del del (es_index s)\<rparr>
          in (if n > 0 \<or> del \<noteq> [] then save_index s' else s', Inr n))"

subsection \<open>Compaction\<close>

text \<open>The events before the cutoff, in the order of the index.\<close>

fun old_events :: "datetime \<Rightarrow> (int \<times> int) list \<Rightarrow> (int, Event option) dict \<Rightarrow> store_error + Event list" where
  "old_events cutoff [] fs = Inr []"
| "old_events cutoff ((seq, f) # rest) fs =
     (case dict_get fs f of
        None \<Rightarrow> old_events cutoff rest fs
      | Some None \<Rightarrow> Inl StoreAttributeError
      | Some (Some ev) \<Rightarrow>
          try_bind (old_events cutoff rest fs)
            (\<lambda>es. Inr (if ev_timestamp ev < cutoff then ev # es else es)))"

fun remove_events :: "Event list \<Rightarrow> EventStore \<Rightarrow> EventStore \<times> (store_error + unit)" where
  "remove_events [] s = (s, Inr ())"
| "remove_events (e # es) s =
     (let s1 = s\<lparr>files := dict_del (sequence e) (files s)\<rparr>
      in if dict_has (es_index s1) (sequence e)
         then remove_events es (s1\<lparr>es_index := dict_del (sequence e) (es_index s1)\<rparr>)
         else (s1, Inl StoreKeyError))"

definition is_detail :: "Event \<Rightarrow> bool" where
  "is_detail e \<longleftrightarrow> event_type e = event_type_value VALIDATION_DETAIL"

definition min_timestamp :: "Event list \<Rightarrow> datetime" where
  "min_timestamp es = Min (set (map ev_timestamp es))"

definition max_timestamp :: "Event list \<Rightarrow> datetime" where
  "max_timestamp es = Max (set (map ev_timestamp es))"

text \<open>\<open>all_events\<close> are the events that \<open>get_all\<close> reads when the summary is made.\<close>

definition summarize :: "Event list \<Rightarrow> string \<Rightarrow> datetime \<Rightarrow> Event list \<Rightarrow> Event" where
  "summarize es slug now all_events =
     (let passed = length (filter (\<lambda>e. data_passed (ev_data e)) es);
          failed = length (filter (\<lambda>e. \<not> data_passed (ev_data e)) es)
      in plain_event 0 slug now WEEKLY_SUMMARY (SummaryData
           \<lparr>compacted_events = length es, period_start = min_timestamp es, period_end = max_timestamp es,
            total_cost = sum_list (map cost_usd es), sum_passed = passed, sum_failed = failed,
            pass_rate = of_nat passed / of_nat (max (passed + failed) 1),
            top_validators = costs_of (Some (min_timestamp es)) all_events\<rparr>) 0)"

definition compact :: "string \<Rightarrow> datetime \<Rightarrow> EventStore \<Rightarrow> EventStore \<times> (store_error + Event option)" where
  "compact slug now s =
     (case old_events (now - compaction_age) (es_index s) (files s) of
        Inl e \<Rightarrow> (s, Inl e)
      | Inr old \<Rightarrow>
          if length old < compaction_batch then (s, Inr None)
          else
            (case remove_events (filter is_detail old) s of
               (s1, Inl e) \<Rightarrow> (s1, Inl e)
             | (s1, Inr _) \<Rightarrow>
                 let summary = summarize old slug now (get_all s1);
                     (seq, s2) = append_event summary s1
                 in (save_index s2, Inr (Some (summary\<lparr>sequence := seq\<rparr>)))))"

definition event_count :: "EventStore \<Rightarrow> nat" where
  "event_count s = length (es_index s)"

definition type_counts :: "EventStore \<Rightarrow> (string, int) dict" where
  "type_counts s = fold (\<lambda>e counts. dict_set (event_type e) (dict_get_default counts (event_type e) 0 + 1) counts)
     (List.map_filter (\<lambda>seq. get_event seq s) (dict_keys (es_index s))) []"

subsection \<open>The store as a list of events\<close>

text \<open>
  What the store promises: a number, the last sequence handed out, and the list of events,
  oldest first. Its clients only write the types of \<^typ>\<open>EventType\<close>.
\<close>

type_synonym event_log = "retention_table \<times> int \<times> Event list"

datatype store_op =
    Append EventType Event
  | AppendMany "(EventType \<times> Event) list"
  | Purge datetime
  | Compact string datetime

definition typed :: "EventType \<Rightarrow> Event \<Rightarrow> Event" where
  "typed t e = e\<lparr>event_type := event_type_value t\<rparr>"

fun store_step :: "store_op \<Rightarrow> EventStore \<Rightarrow> EventStore" where
  "store_step (Append t e) s = snd (append_event (typed t e) s)"
| "store_step (AppendMany es) s = snd (append_many (map (\<lambda>(t, e). typed t e) es) s)"
| "store_step (Purge now) s = fst (purge now s)"
| "store_step (Compact slug now) s = fst (compact slug now s)"

definition log_append :: "Event \<Rightarrow> event_log \<Rightarrow> event_log" where
  "log_append e = (\<lambda>(ret, l, es). (ret, l + 1, es @ [e\<lparr>sequence := l + 1\<rparr>]))"

definition expired :: "retention_table \<Rightarrow> datetime \<Rightarrow> Event \<Rightarrow> bool" where
  "expired ret now e \<longleftrightarrow> should_purge ret e now = Inr True"

definition is_old :: "datetime \<Rightarrow> Event \<Rightarrow> bool" where
  "is_old now e \<longleftrightarrow> ev_timestamp e < now - compaction_age"

definition log_compact :: "string \<Rightarrow> datetime \<Rightarrow> event_log \<Rightarrow> event_log" where
  "log_compact slug now = (\<lambda>(ret, l, es).
     let old = filter (is_old now) es;
         kept = filter (\<lambda>e. \<not> (is_old now e \<and> is_detail e)) es
     in if length old < compaction_batch then (ret, l, es)
        else log_append (summarize old slug now kept) (ret, l, kept))"

fun log_step :: "store_op \<Rightarrow> event_log \<Rightarrow> event_log" where
  "log_step (Append t e) lg = log_append (typed t e) lg"
| "log_step (AppendMany es) lg = fold log_append (map (\<lambda>(t, e). typed t e) es) lg"
| "log_step (Purge now) (ret, l, es) = (ret, l, filter (\<lambda>e. \<not> expired ret now e) es)"
| "log_step (Compact slug now) lg = log_compact slug now lg"

definition file_event :: "(int, Event option) dict \<Rightarrow> int \<Rightarrow> Event option" where
  "file_event fs f = (case dict_get fs f of None \<Rightarrow> None | Some c \<Rightarrow> c)"

definition indexed :: "(int, Event option) dict \<Rightarrow> (int \<times> int) list \<Rightarrow> Event list" where
  "indexed fs idx = List.map_filter (\<lambda>(k, f). file_event fs f) idx"

definition store_view :: "EventStore \<Rightarrow> event_log" where
  "store_view s = (retention s, last_sequence s, indexed (files s) (es_index s))"

text \<open>Every indexed event has its file, under its sequence number and with a known type.\<close>

definition entry_ok :: "(int, Event option) dict \<Rightarrow> int \<times> int \<Rightarrow> bool" where
  "entry_ok fs p \<longleftrightarrow> snd p = fst p \<and>
     (\<exists>e. dict_get fs (fst p) = Some (Some e) \<and> sequence e = fst p \<and> event_type_of (event_type e) \<noteq> None)"

definition store_inv :: "EventStore \<Rightarrow> bool" where
  "store_inv s \<longleftrightarrow> 0 \<le> last_sequence s \<and> sorted_wrt (<) (dict_keys (es_index s)) \<and>
     (\<forall>p\<in>set (es_index s). entry_ok (files s) p) \<and>
     (\<forall>k\<in>set (dict_keys (es_index s)). 1 \<le> k \<and> k \<le> last_sequence s)"

lemma strict_sorted_distinct: "sorted_wrt (<) (ks :: int list) \<Longrightarrow> distinct ks"
  by (simp add: strict_sorted_iff)

lemma indexed_Nil [simp]: "indexed fs [] = []"
  by (simp add: indexed_def map_filter_simps)

lemma indexed_Cons: "entry_ok fs p \<Longrightarrow> indexed fs (p # idx) = the (file_event fs (fst p)) # indexed fs idx"
  by (auto simp: indexed_def entry_ok_def file_event_def map_filter_simps split: prod.splits)

lemma indexed_append: "indexed fs (xs @ ys) = indexed fs xs @ indexed fs ys"
  by (induction xs) (auto simp: indexed_def map_filter_simps split: option.splits)

lemma indexed_cong: "(\<And>k f. (k, f) \<in> set idx \<Longrightarrow> file_event fs f = file_event fs' f) \<Longrightarrow> indexed fs idx = indexed fs' idx"
proof (induction idx)
  case (Cons p idx)
  have "file_event fs (snd p) = file_event fs' (snd p)" using Cons.prems [of "fst p" "snd p"] by simp
  moreover have "indexed fs idx = indexed fs' idx"
    using Cons.IH Cons.prems by (metis list.set_intros(2))
  ultimately show ?case by (cases p) (simp add: indexed_def map_filter_simps split: option.split)
qed simp

lemma indexed_single: "indexed fs [(k, f)] = (case file_event fs f of None \<Rightarrow> [] | Some e \<Rightarrow> [e])"
  by (simp add: indexed_def map_filter_simps split: option.split)

lemma event_type_of_value [simp]: "event_type_of (event_type_value t) = Some t"
  by (cases t) (simp_all add: event_type_of_def all_event_types_def)

subsubsection \<open>Appending\<close>

lemma write_event_index:
  assumes "store_inv s" and "l = last_sequence s" and "event_type_of (event_type e) \<noteq> None"
  shows "store_inv ((write_event (l + 1) e s)\<lparr>last_sequence := l + 1\<rparr>)"
    and "store_view ((write_event (l + 1) e s)\<lparr>last_sequence := l + 1\<rparr>) = log_append e (store_view s)"
proof -
  have new: "l + 1 \<notin> set (dict_keys (es_index s))"
    using assms(1,2) by (fastforce simp: store_inv_def)
  then have idx: "dict_set (l + 1) (l + 1) (es_index s) = es_index s @ [(l + 1, l + 1)]"
    by (simp add: dict_set_append dict_has_iff)
  let ?fs = "dict_set (l + 1) (Some (e\<lparr>sequence := l + 1\<rparr>)) (files s)"
  have old: "entry_ok ?fs p" if "p \<in> set (es_index s)" for p
  proof -
    have "fst p \<noteq> l + 1" using that new by (metis image_eqI set_map)
    with that assms(1) show ?thesis by (auto simp: store_inv_def entry_ok_def)
  qed
  show "store_inv ((write_event (l + 1) e s)\<lparr>last_sequence := l + 1\<rparr>)"
    using assms old idx by (fastforce simp: store_inv_def write_event_def sorted_wrt_append entry_ok_def)
  have "indexed ?fs (es_index s) = indexed (files s) (es_index s)"
  proof (rule indexed_cong)
    fix k f assume p: "(k, f) \<in> set (es_index s)"
    then have "f = k" using assms(1) by (fastforce simp: store_inv_def entry_ok_def)
    moreover from p have "k \<in> set (dict_keys (es_index s))" by force
    ultimately have "f \<noteq> l + 1" using new by metis
    then show "file_event ?fs f = file_event (files s) f" by (simp add: file_event_def)
  qed
  then show "store_view ((write_event (l + 1) e s)\<lparr>last_sequence := l + 1\<rparr>) = log_append e (store_view s)"
    using assms(2) idx by (simp add: store_view_def log_append_def write_event_def indexed_append
        indexed_single file_event_def)
qed

lemma inv_save_index [simp]: "store_inv (save_index s) = store_inv s"
  by (simp add: store_inv_def save_index_def)

lemma view_save_index [simp]: "store_view (save_index s) = store_view s"
  by (simp add: store_view_def save_index_def)

lemma append_event_refines:
  assumes "store_inv s" and "event_type_of (event_type e) \<noteq> None"
  shows "store_inv (snd (append_event e s)) \<and> store_view (snd (append_event e s)) = log_append e (store_view s)"
  using write_event_index [OF assms(1) refl assms(2)]
  by (simp add: append_event_def next_sequence_def Let_def)

lemma save_append: "save_index (snd (append_event e s)) = snd (append_event e s)"
  by (simp add: append_event_def save_index_def Let_def)

fun add_files :: "int \<Rightarrow> Event list \<Rightarrow> (int, Event option) dict \<Rightarrow> (int, Event option) dict" where
  "add_files k [] fs = fs"
| "add_files k (e # es) fs = add_files (k + 1) es (dict_set k (Some (e\<lparr>sequence := k\<rparr>)) fs)"

fun add_index :: "int \<Rightarrow> Event list \<Rightarrow> (int, int) dict \<Rightarrow> (int, int) dict" where
  "add_index k [] idx = idx"
| "add_index k (e # es) idx = add_index (k + 1) es (dict_set k k idx)"

lemma write_events_eq:
  "write_events k es s = s\<lparr>files := add_files k es (files s), es_index := add_index k es (es_index s)\<rparr>"
  by (induction k es s rule: write_events.induct) (simp_all add: write_event_def)

lemma append_many_fold:
  assumes "es \<noteq> []"
  shows "save_index ((write_events (last_sequence s + 1) es s)\<lparr>last_sequence := last_sequence s + int (length es)\<rparr>) =
    fold (\<lambda>e s. snd (append_event e s)) es s"
  using assms
proof (induction es arbitrary: s)
  case (Cons e es)
  show ?case
  proof (cases "es = []")
    case True
    then show ?thesis by (simp add: append_event_def next_sequence_def Let_def)
  next
    case False
    from Cons.IH [OF this, of "snd (append_event e s)"] show ?thesis
      by (simp add: write_events_eq append_event_def next_sequence_def save_index_def write_event_def
          Let_def algebra_simps)
  qed
qed simp

text \<open>Writing a batch with one save of the index is equivalent to appending its events one by
  one: the same sequences in the same order, and the same files, index, index file and last
  sequence.\<close>

theorem append_many_equiv:
  "append_many es s = (map (\<lambda>i. last_sequence s + 1 + int i) [0..<length es],
     fold (\<lambda>e s. snd (append_event e s)) es s)"
proof (cases "es = []")
  case False
  then have "last (map (\<lambda>i. last_sequence s + 1 + int i) [0..<length es]) = last_sequence s + int (length es)"
    by (cases es) (simp_all add: last_map)
  with False append_many_fold [OF False, of s] show ?thesis
    by (simp add: append_many_def Let_def)
qed (simp add: append_many_def)



subsubsection \<open>Purging and compacting\<close>

lemma fold_dict_del: "fold dict_del ks d = filter (\<lambda>p. fst p \<notin> set ks) d"
  by (induction ks arbitrary: d) (auto simp: AList.delete_eq intro: filter_cong)

lemma map_of_fold_del: "map_of (fold dict_del ks d) j = (if j \<in> set ks then None else map_of d j)"
  by (induction ks arbitrary: d) auto

lemma file_event_fold_del: "file_event (fold dict_del ks fs) f = (if f \<in> set ks then None else file_event fs f)"
  by (simp add: file_event_def map_of_fold_del)

definition sub_index :: "(Event \<Rightarrow> bool) \<Rightarrow> (int, Event option) dict \<Rightarrow> (int \<times> int) list \<Rightarrow> int list" where
  "sub_index P fs idx = map fst (filter (\<lambda>(k, f). P (the (file_event fs f))) idx)"

lemma sub_index_simps [simp]:
  "sub_index P fs [] = []"
  "sub_index P fs ((k, f) # idx) =
     (if P (the (file_event fs f)) then k # sub_index P fs idx else sub_index P fs idx)"
  by (simp_all add: sub_index_def)

lemma sub_index_subset: "set (sub_index P fs idx) \<subseteq> set (dict_keys idx)"
  by (auto simp: sub_index_def)

lemma sub_index_cong:
  "(\<And>k f. (k, f) \<in> set idx \<Longrightarrow> file_event fs f = file_event fs' f) \<Longrightarrow>
   sub_index P fs idx = sub_index P fs' idx"
  unfolding sub_index_def by (intro arg_cong [where f = "map fst"] filter_cong) auto

lemma in_sub_index:
  "(k, f) \<in> set idx \<Longrightarrow> sorted_wrt (<) (dict_keys idx) \<Longrightarrow>
   k \<in> set (sub_index P fs idx) \<longleftrightarrow> P (the (file_event fs f))"
  using strict_sorted_distinct [of "dict_keys idx"]
  by (auto simp: sub_index_def distinct_map inj_on_def) force+

text \<open>Removing the events that satisfy \<open>P\<close> from the index and the directory.\<close>

lemma remove_indexed:
  assumes inv: "store_inv s" and ks: "ks = sub_index P (files s) (es_index s)"
  shows "indexed (fold dict_del ks (files s)) (fold dict_del ks (es_index s)) =
      filter (\<lambda>e. \<not> P e) (indexed (files s) (es_index s))"
    and "store_inv (s\<lparr>files := fold dict_del ks (files s), es_index := fold dict_del ks (es_index s)\<rparr>)"
proof -
  let ?fs = "files s" and ?idx = "es_index s"
  have srt: "sorted_wrt (<) (dict_keys ?idx)" and ok: "\<forall>p\<in>set ?idx. entry_ok ?fs p"
    using inv by (auto simp: store_inv_def)
  have keep: "entry_ok (fold dict_del ks ?fs) p" if "p \<in> set ?idx" "fst p \<notin> set ks" for p
    using that ok by (auto simp: entry_ok_def map_of_fold_del)
  have "indexed (fold dict_del ks ?fs) (filter (\<lambda>p. fst p \<notin> set ks) idx) =
      filter (\<lambda>e. \<not> P e) (indexed ?fs idx)" if "set idx \<subseteq> set ?idx" for idx
    using that
  proof (induction idx)
    case (Cons p idx)
    then have p: "p \<in> set ?idx" by simp
    have e: "entry_ok ?fs p" using ok p by blast
    then have pf: "snd p = fst p" by (simp add: entry_ok_def)
    from p srt have iff: "fst p \<in> set ks \<longleftrightarrow> P (the (file_event ?fs (fst p)))"
      unfolding ks using in_sub_index [of "fst p" "snd p" ?idx P ?fs] pf by (metis prod.collapse)
    show ?case
    proof (cases "fst p \<in> set ks")
      case True
      with Cons iff e show ?thesis by (simp add: indexed_Cons)
    next
      case False
      with Cons iff e keep [OF p False] show ?thesis
        by (simp add: indexed_Cons file_event_fold_del)
    qed
  qed simp
  from this [OF subset_refl] show "indexed (fold dict_del ks ?fs) (fold dict_del ks ?idx) =
      filter (\<lambda>e. \<not> P e) (indexed ?fs ?idx)"
    by (simp add: fold_dict_del)
  have "sorted_wrt (<) (map fst (filter Q ?idx))" for Q
    using srt by (induction ?idx arbitrary: Q rule: list.induct) (auto simp: sorted_wrt_map intro: sorted_wrt_filter)
  then show "store_inv (s\<lparr>files := fold dict_del ks ?fs, es_index := fold dict_del ks ?idx\<rparr>)"
    using inv keep by (auto simp: store_inv_def fold_dict_del)
qed

lemma purge_loop_spec:
  "\<forall>p\<in>set idx. entry_ok fs p \<Longrightarrow> distinct (dict_keys idx) \<Longrightarrow>
   let ks = sub_index (expired ret now) fs idx
   in purge_loop ret now idx fs = (fold dict_del ks fs, Inr (ks, length ks))"
proof (induction idx arbitrary: fs)
  case (Cons p idx)
  obtain k e where p: "p = (k, k)" "dict_get fs k = Some (Some e)" "event_type_of (event_type e) \<noteq> None"
    using Cons.prems(1) by (cases p) (auto simp: entry_ok_def)
  then have "\<exists>b. should_purge ret e now = Inr b"
    by (auto simp: should_purge_def split: option.split)
  then obtain b where b: "should_purge ret e now = Inr b" by blast
  have ok: "\<forall>p\<in>set idx. entry_ok fs p" "distinct (dict_keys idx)" "k \<notin> set (dict_keys idx)"
    using Cons.prems p(1) by auto
  have ex: "expired ret now (the (file_event fs k)) \<longleftrightarrow> b"
    using p(2) b by (simp add: file_event_def expired_def)
  show ?case
  proof (cases b)
    case False
    with Cons.IH [OF ok(1,2)] p b ex show ?thesis by (simp add: Let_def)
  next
    case True
    let ?fs = "dict_del k fs"
    have "\<forall>p\<in>set idx. entry_ok ?fs p"
      using ok(1,3) by (auto simp: entry_ok_def)
    note ih = Cons.IH [OF this ok(2)]
    have "sub_index (expired ret now) ?fs idx = sub_index (expired ret now) fs idx"
      by (rule sub_index_cong) (use ok(1,3) in \<open>force simp: entry_ok_def file_event_def\<close>)
    with ih True p b ex show ?thesis by (simp add: Let_def)
  qed
qed simp

lemma purge_refines:
  assumes "store_inv s"
  shows "store_inv (fst (purge now s))" and
    "store_view (fst (purge now s)) = (let (ret, l, es) = store_view s
       in (ret, l, filter (\<lambda>e. \<not> expired ret now e) es))"
proof -
  let ?ks = "sub_index (expired (retention s) now) (files s) (es_index s)"
  have "purge_loop (retention s) now (es_index s) (files s) = (fold dict_del ?ks (files s), Inr (?ks, length ?ks))"
    using purge_loop_spec [of "es_index s" "files s"] assms strict_sorted_distinct
    by (auto simp: store_inv_def Let_def)
  then have p: "fst (purge now s) = (let s' = s\<lparr>files := fold dict_del ?ks (files s), es_index := fold dict_del ?ks (es_index s)\<rparr>
      in if ?ks \<noteq> [] then save_index s' else s')"
    by (simp add: purge_def Let_def)
  show "store_inv (fst (purge now s))"
    using remove_indexed(2) [OF assms refl, of "expired (retention s) now"] assms
    by (simp add: p Let_def)
  show "store_view (fst (purge now s)) = (let (ret, l, es) = store_view s
       in (ret, l, filter (\<lambda>e. \<not> expired ret now e) es))"
    using remove_indexed(1) [OF assms refl, of "expired (retention s) now"]
    by (cases "?ks = []") (simp_all add: p Let_def store_view_def save_index_def)
qed

lemma old_events_spec:
  "\<forall>p\<in>set idx. entry_ok fs p \<Longrightarrow>
   old_events cutoff idx fs = Inr (filter (\<lambda>e. ev_timestamp e < cutoff) (indexed fs idx))"
proof (induction idx)
  case (Cons p idx)
  then obtain k e where p: "p = (k, k)" "dict_get fs k = Some (Some e)" "entry_ok fs p"
    by (cases p) (auto simp: entry_ok_def)
  from Cons p show ?case
    using indexed_Cons [OF p(3), of idx] by (simp add: file_event_def)
qed simp

lemma remove_events_spec:
  "distinct (map sequence es) \<Longrightarrow> set (map sequence es) \<subseteq> set (dict_keys (es_index s)) \<Longrightarrow>
   remove_events es s = (s\<lparr>files := fold dict_del (map sequence es) (files s),
     es_index := fold dict_del (map sequence es) (es_index s)\<rparr>, Inr ())"
proof (induction es arbitrary: s)
  case (Cons e es)
  have "dict_has (es_index s) (sequence e)" using Cons.prems(2) by (simp add: dict_has_iff)
  moreover have "set (dict_keys (dict_del (sequence e) (es_index s))) = set (dict_keys (es_index s)) - {sequence e}"
    using delete_keys [of "sequence e" "es_index s"] by auto
  then have "set (map sequence es) \<subseteq> set (dict_keys (dict_del (sequence e) (es_index s)))"
    using Cons.prems by (metis (no_types, lifting) Diff_empty distinct.simps(2) insert_subset list.set(2)
        list.simps(9) subset_Diff_insert)
  ultimately show ?case using Cons by (simp add: Let_def)
qed simp

lemma sub_index_sequences:
  "\<forall>p\<in>set idx. entry_ok fs p \<Longrightarrow> map sequence (filter P (indexed fs idx)) = sub_index P fs idx"
proof (induction idx)
  case (Cons p idx)
  then obtain k e where p: "p = (k, k)" "dict_get fs k = Some (Some e)" "sequence e = k" "entry_ok fs p"
    by (cases p) (auto simp: entry_ok_def)
  from Cons p show ?case
    using indexed_Cons [OF p(4), of idx] by (simp add: file_event_def)
qed simp

lemma keys_filter_range:
  assumes "sorted_wrt (<) ks" and "\<forall>k\<in>set ks. 1 \<le> k \<and> k \<le> (l :: int)"
  shows "filter (\<lambda>k. k \<in> set ks) [1..l] = ks"
proof (rule sorted_distinct_set_unique)
  show "sorted ks" "distinct ks" using assms(1) by (simp_all add: strict_sorted_iff)
  show "set (filter (\<lambda>k. k \<in> set ks) [1..l]) = set ks" using assms(2) by auto
qed (simp_all add: sorted_wrt_filter)

lemma map_filter_filter: "(\<And>x. x \<in> set xs \<Longrightarrow> f x \<noteq> None \<Longrightarrow> P x) \<Longrightarrow> List.map_filter f xs = List.map_filter f (filter P xs)"
  by (induction xs) (auto simp: map_filter_simps split: option.splits)

lemma get_all_view:
  assumes inv: "store_inv s"
  shows "get_all s = indexed (files s) (es_index s)"
proof -
  let ?ks = "dict_keys (es_index s)"
  have "List.map_filter (\<lambda>k. get_event k s) [1..last_sequence s] =
      List.map_filter (\<lambda>k. get_event k s) (filter (\<lambda>k. k \<in> set ?ks) [1..last_sequence s])"
  proof (rule map_filter_filter)
    fix k assume "get_event k s \<noteq> None"
    then have "dict_get (es_index s) k \<noteq> None" by (auto simp: get_event_def split: option.splits)
    then show "k \<in> set ?ks" by (simp add: map_of_eq_None_iff)
  qed
  also have "filter (\<lambda>k. k \<in> set ?ks) [1..last_sequence s] = ?ks"
    using inv by (intro keys_filter_range) (auto simp: store_inv_def)
  also have "List.map_filter (\<lambda>k. get_event k s) ?ks = indexed (files s) (es_index s)"
  proof -
    have g: "get_event (fst p) s = file_event (files s) (snd p)" if "p \<in> set (es_index s)" for p
    proof -
      have "distinct ?ks" using inv by (auto simp: store_inv_def intro: strict_sorted_distinct)
      with that have "dict_get (es_index s) (fst p) = Some (snd p)" by simp
      then show ?thesis by (simp add: get_event_def file_event_def)
    qed
    have "List.map_filter (\<lambda>k. get_event k s) (map fst idx) = indexed (files s) idx"
      if "set idx \<subseteq> set (es_index s)" for idx
      using that by (induction idx) (auto simp: indexed_def map_filter_simps g split: option.split)
    then show ?thesis by blast
  qed
  finally have m: "List.map_filter (\<lambda>k. get_event k s) [1..last_sequence s] = indexed (files s) (es_index s)" .
  have "length (List.map_filter f xs) \<le> length xs" for f :: "int \<Rightarrow> Event option" and xs
    by (simp add: map_filter_def)
  from this [of "\<lambda>k. get_event k s" "[1..last_sequence s]"]
  have "length (indexed (files s) (es_index s)) \<le> nat (last_sequence s + 1)" by (simp add: m)
  then show ?thesis by (simp add: get_all_def get_range_def m)
qed

lemma compact_refines:
  assumes inv: "store_inv s"
  shows "store_inv (fst (compact slug now s)) \<and> store_view (fst (compact slug now s)) = log_compact slug now (store_view s)"
proof -
  let ?es = "indexed (files s) (es_index s)"
  let ?old = "filter (is_old now) ?es"
  let ?ks = "sub_index (\<lambda>e. is_old now e \<and> is_detail e) (files s) (es_index s)"
  have ok: "\<forall>p\<in>set (es_index s). entry_ok (files s) p" and srt: "distinct (dict_keys (es_index s))"
    using inv strict_sorted_distinct by (auto simp: store_inv_def)
  have old: "old_events (now - compaction_age) (es_index s) (files s) = Inr ?old"
    using old_events_spec [OF ok] by (simp add: is_old_def [abs_def])
  show ?thesis
  proof (cases "length ?old < compaction_batch")
    case True
    with inv old show ?thesis by (simp add: compact_def log_compact_def store_view_def Let_def)
  next
    case False
    let ?s1 = "s\<lparr>files := fold dict_del ?ks (files s), es_index := fold dict_del ?ks (es_index s)\<rparr>"
    let ?kept = "filter (\<lambda>e. \<not> (is_old now e \<and> is_detail e)) ?es"
    have seqs: "map sequence (filter is_detail ?old) = ?ks"
      using sub_index_sequences [OF ok, of "\<lambda>e. is_old now e \<and> is_detail e"]
      by (simp add: conj_commute)
    have "distinct ?ks" using srt by (simp add: sub_index_def distinct_map_filter)
    then have rem: "remove_events (filter is_detail ?old) s = (?s1, Inr ())"
      using remove_events_spec [of "filter is_detail ?old" s] sub_index_subset unfolding seqs by blast
    note s1 = remove_indexed [OF inv, of ?ks "\<lambda>e. is_old now e \<and> is_detail e", OF refl]
    have all: "get_all ?s1 = ?kept" using get_all_view [OF s1(2)] s1(1) by simp
    let ?sum = "summarize ?old slug now ?kept"
    have "event_type_of (event_type ?sum) \<noteq> None"
      by (simp add: summarize_def plain_event_def Let_def del: event_type_value.simps)
    from append_event_refines [OF s1(2) this]
    have "store_inv (snd (append_event ?sum ?s1)) \<and>
        store_view (snd (append_event ?sum ?s1)) = log_append ?sum (store_view ?s1)" .
    moreover have "store_view ?s1 = (retention s, last_sequence s, ?kept)"
      using s1(1) by (simp add: store_view_def)
    moreover have "fst (compact slug now s) = save_index (snd (append_event ?sum ?s1))"
      using False old rem all by (simp add: compact_def Let_def split_beta)
    ultimately show ?thesis
      using False by (simp add: log_compact_def store_view_def [of s] Let_def)
  qed
qed

lemma append_fold_refines:
  "store_inv s \<Longrightarrow> \<forall>e\<in>set es. event_type_of (event_type e) \<noteq> None \<Longrightarrow>
   store_inv (fold (\<lambda>e s. snd (append_event e s)) es s) \<and>
   store_view (fold (\<lambda>e s. snd (append_event e s)) es s) = fold log_append es (store_view s)"
proof (induction es arbitrary: s)
  case (Cons e es)
  then have "store_inv (snd (append_event e s)) \<and> store_view (snd (append_event e s)) = log_append e (store_view s)"
    by (intro append_event_refines) auto
  with Cons.IH [of "snd (append_event e s)"] Cons.prems(2) show ?case by auto
qed simp

lemma store_step_refines:
  assumes "store_inv s"
  shows "store_inv (store_step op s) \<and> store_view (store_step op s) = log_step op (store_view s)"
proof (cases op)
  case (Append t e)
  with append_event_refines [OF assms] show ?thesis by (simp add: typed_def)
next
  case (AppendMany es)
  have "event_type_of (event_type e) \<noteq> None" if "e \<in> set (map (\<lambda>(t, e). typed t e) es)" for e
    using that by (auto simp: typed_def)
  with append_fold_refines [OF assms] AppendMany show ?thesis by (simp add: append_many_equiv)
next
  case (Purge now)
  with purge_refines [OF assms] show ?thesis by (simp add: Let_def split: prod.splits)
next
  case (Compact slug now)
  with compact_refines [OF assms] show ?thesis by simp
qed

interpretation store: refinement_system store_step store_inv store_view log_step
  by unfold_locales (use store_step_refines in blast)+

lemma last_sequence_step: "store_inv s \<Longrightarrow> last_sequence s \<le> last_sequence (store_step op s)"
proof -
  have "fst (snd lg) \<le> fst (snd (fold log_append es lg))" for es lg
  proof (induction es arbitrary: lg)
    case (Cons e es)
    from Cons [of "log_append e lg"] show ?case by (simp add: log_append_def split_beta)
  qed simp
  then have "fst (snd lg) \<le> fst (snd (log_step op lg))" for lg
    by (cases op; cases lg) (auto simp: log_append_def log_compact_def Let_def)
  moreover assume "store_inv s"
  ultimately show ?thesis
    using store_step_refines [of s op] by (metis fst_conv snd_conv store_view_def)
qed

interpretation sequence_order: monotone_system store_step store_inv last_sequence
  by unfold_locales (rule last_sequence_step)

subsection \<open>Properties\<close>

lemma indexed_sequences:
  "\<forall>p\<in>set idx. entry_ok fs p \<Longrightarrow> map sequence (indexed fs idx) = dict_keys idx"
proof (induction idx)
  case (Cons p idx)
  then obtain e where "dict_get fs (fst p) = Some (Some e)" "sequence e = fst p" "entry_ok fs p"
    by (auto simp: entry_ok_def)
  with Cons show ?case by (simp add: indexed_Cons file_event_def)
qed simp

lemma inv_new_store: "store_inv (load_store slug [] [] None ret)"
  by (simp add: store_inv_def load_store_def load_index_def load_last_sequence_def Let_def)

text \<open>C28: through any sequence of appends, batches, purges and compactions the store is the list
  of its events: every operation changes what is read back as the same operation on that list
  does, and the sequence numbers in it are strictly increasing and never exceed the last one
  handed out, which never decreases.\<close>

theorem store_refines_log:
  assumes "store_inv s"
  shows "let s' = fold store_step ops s in
    store_view s' = fold log_step ops (store_view s) \<and>
    get_all s' = snd (snd (fold log_step ops (store_view s))) \<and>
    sorted_wrt (<) (map sequence (get_all s')) \<and>
    set (map sequence (get_all s')) \<subseteq> {1..last_sequence s'} \<and> last_sequence s \<le> last_sequence s'"
proof -
  let ?s = "fold store_step ops s"
  have inv: "store_inv ?s" by (rule store.inv_run [OF assms])
  have view: "store_view ?s = fold log_step ops (store_view s)" by (rule store.abst_run [OF assms])
  have all: "get_all ?s = indexed (files ?s) (es_index ?s)" by (rule get_all_view [OF inv])
  then have "map sequence (get_all ?s) = dict_keys (es_index ?s)"
    using inv by (simp add: indexed_sequences store_inv_def)
  then have "sorted_wrt (<) (map sequence (get_all ?s))"
    "set (map sequence (get_all ?s)) \<subseteq> {1..last_sequence ?s}"
    using inv by (auto simp only: store_inv_def atLeastAtMost_iff)
  moreover have "get_all ?s = snd (snd (fold log_step ops (store_view s)))"
    using all view by (metis snd_conv store_view_def)
  ultimately show ?thesis
    using view sequence_order.level_run [OF assms, of ops] by (simp only: Let_def)
qed

theorem store_refines_log_witness:
  "map sequence (get_all (fold store_step
     [Append ADAPTER_RESPONSE (from_error 0 ''r'' ''a'' ''m'' 0 0), Append USER_ACTION (from_error 0 ''r'' ''a'' ''m'' 0 0),
      Purge (days 8)]
     (load_store ''r'' [] [] None default_retention))) = [2]"
proof -
  let ?s = "load_store ''r'' [] [] None default_retention"
  let ?ops = "[Append ADAPTER_RESPONSE (from_error 0 ''r'' ''a'' ''m'' 0 0),
      Append USER_ACTION (from_error 0 ''r'' ''a'' ''m'' 0 0), Purge (days 8)]"
  have "map sequence (snd (snd (fold log_step ?ops (store_view ?s)))) = [2]" by code_simp
  with store_refines_log [OF inv_new_store, of ?ops "''r''" default_retention] show ?thesis
    by (simp only: Let_def)
qed

lemma log_step_keeps:
  assumes "e \<in> set (snd (snd lg))" and "event_type e = event_type_value t"
    and "get_retention (fst lg) t = None" and "t \<noteq> VALIDATION_DETAIL"
  shows "e \<in> set (snd (snd (log_step op lg))) \<and> fst (log_step op lg) = fst lg"
proof -
  obtain ret l es where lg: "lg = (ret, l, es)" by (cases lg)
  have fold: "e \<in> set (snd (snd (fold log_append xs lg))) \<and> fst (fold log_append xs lg) = fst lg"
    if "e \<in> set (snd (snd lg))" for xs and lg :: event_log
    using that
  proof (induction xs arbitrary: lg)
    case (Cons x xs)
    then show ?case using Cons.IH [of "log_append x lg"] by (auto simp: log_append_def split_beta)
  qed simp
  have "\<not> expired ret now e" for now
    using assms(2,3) lg by (simp add: expired_def should_purge_def)
  moreover have "\<not> is_detail e"
    using assms(2,4) by (cases t) (simp_all add: is_detail_def)
  ultimately show ?thesis
    using assms(1) fold [of lg] unfolding lg
    by (cases op) (auto simp: log_append_def log_compact_def Let_def)
qed

text \<open>C29: An event of a type that is kept forever, such as a state transition, and that is not a validation detail, is
never lost: once appended, it is read back unchanged, with its sequence number, after any later operations.
(Compaction removes old validation details whatever their retention says: \<open>compact_ignores_retention\<close>.)\<close>

theorem permanent_events_kept:
  assumes "store_inv s" and "get_retention (retention s) t = None" and "t \<noteq> VALIDATION_DETAIL"
  shows "(typed t e)\<lparr>sequence := last_sequence s + 1\<rparr> \<in>
    set (get_all (fold store_step ops (snd (append_event (typed t e) s))))"
proof -
  let ?e = "(typed t e)\<lparr>sequence := last_sequence s + 1\<rparr>"
  have s1: "store_inv (snd (append_event (typed t e) s))"
    "store_view (snd (append_event (typed t e) s)) = log_append (typed t e) (store_view s)"
    using append_event_refines [OF assms(1), of "typed t e"] by (auto simp: typed_def)
  have "?e \<in> set (snd (snd (fold log_step ops lg)))"
    if "?e \<in> set (snd (snd lg))" "fst lg = retention s" for lg
    using that
  proof (induction ops arbitrary: lg)
    case (Cons op ops)
    have "?e \<in> set (snd (snd (log_step op lg))) \<and> fst (log_step op lg) = fst lg"
      using Cons.prems assms(2,3) by (intro log_step_keeps [where t = t]) (auto simp: typed_def)
    with Cons show ?case by simp
  qed simp
  from this [of "log_append (typed t e) (store_view s)"]
  have "?e \<in> set (snd (snd (store_view (fold store_step ops (snd (append_event (typed t e) s))))))"
    using store.abst_run [OF s1(1), of ops] s1(2) by (simp add: log_append_def store_view_def)
  then show ?thesis
    using get_all_view [OF store.inv_run [OF s1(1)]] by (simp add: store_view_def)
qed

theorem permanent_events_kept_witness:
  "1 \<in> set (map sequence (get_all (fold store_step [Purge (days 4000), Compact ''r'' (days 5000)]
     (snd (append_event (typed STATE_TRANSITION (from_transition 0 ''r'' ''spec'' ''done'' 0))
       (load_store ''r'' [] [] None default_retention))))))"
proof -
  have "get_retention default_retention STATE_TRANSITION = None"
    "retention (load_store ''r'' [] [] None default_retention) = default_retention"
    "last_sequence (load_store ''r'' [] [] None default_retention) = 0"
    by code_simp+
  with permanent_events_kept [OF inv_new_store, of "''r''" default_retention STATE_TRANSITION
      "from_transition 0 ''r'' ''spec'' ''done'' 0" "[Purge (days 4000), Compact ''r'' (days 5000)]"]
  show ?thesis by (force simp del: fold_simps intro: rev_image_eqI)
qed

text \<open>Compaction does not converge: when ten old events are left and none of them is a
  validation detail, every call removes nothing and adds one more summary event.\<close>

theorem compact_grows:
  assumes "store_inv s" and "compaction_batch \<le> length (filter (is_old now) (get_all s))"
    and "filter is_detail (filter (is_old now) (get_all s)) = []"
  shows "\<exists>summary. get_all (fst (compact slug now s)) = get_all s @ [summary]"
proof -
  let ?es = "indexed (files s) (es_index s)"
  have all: "get_all s = ?es" by (rule get_all_view [OF assms(1)])
  have "filter (\<lambda>e. \<not> (is_old now e \<and> is_detail e)) ?es = ?es"
    using assms(3) all by (auto simp: filter_empty_conv intro: filter_True)
  with assms(2) all have "snd (snd (log_compact slug now (store_view s))) =
      ?es @ [(summarize (filter (is_old now) ?es) slug now ?es)\<lparr>sequence := last_sequence s + 1\<rparr>]"
    by (simp add: log_compact_def store_view_def log_append_def Let_def)
  with compact_refines [OF assms(1), of slug now] show ?thesis
    using get_all_view [of "fst (compact slug now s)"] all by (metis snd_conv store_view_def)
qed

definition old_store :: EventStore where
  "old_store = snd (append_many (replicate 10 (typed USER_ACTION (from_error 0 ''r'' ''a'' ''m'' 0 0)))
     (load_store ''r'' [] [] None default_retention))"

theorem compact_grows_witness:
  "\<exists>summary. get_all (fst (compact ''r'' (days 31) old_store)) = get_all old_store @ [summary]"
proof -
  have "old_store = store_step (AppendMany (replicate 10 (USER_ACTION, from_error 0 ''r'' ''a'' ''m'' 0 0)))
      (load_store ''r'' [] [] None default_retention)"
    by (simp add: old_store_def numeral_eq_Suc)
  then have "store_inv old_store" using store.inv_step [OF inv_new_store] by metis
  moreover have "compaction_batch \<le> length (filter (is_old (days 31)) (get_all old_store))" by code_simp
  moreover have "filter is_detail (filter (is_old (days 31)) (get_all old_store)) = []" by code_simp
  ultimately show ?thesis by (rule compact_grows)
qed

text \<open>Compaction removes old validation details even when the retention keeps their type forever.\<close>

lemma compact_ignores_retention:
  "let s = snd (append_many (replicate 10 (typed VALIDATION_DETAIL (from_error 0 ''r'' ''a'' ''m'' 0 0)))
       (load_store ''r'' [] [] None (override_retention [(VALIDATION_DETAIL, None)])))
   in get_retention (retention s) VALIDATION_DETAIL = None \<and> map sequence (get_all s) = [1..10] \<and>
     map sequence (get_all (fst (compact ''r'' (days 31) s))) = [11]"
  by code_simp

text \<open>A sequence number is used twice when the newest events expire and the process restarts:
  the last sequence is read from the files that are left.\<close>

theorem sequence_reused_after_restart:
  "let s = snd (append_event (typed USER_ACTION e) (load_store slug [] [] None default_retention));
       s' = reload (fst (purge (ev_timestamp e + days 366) s)) in
   last_sequence s = 1 \<and> fst (append_event e' s') = 1"
  by (simp add: append_event_def next_sequence_def write_event_def load_store_def load_index_def
      load_last_sequence_def purge_def typed_def should_purge_def get_retention_def default_retention_def
      reload_def save_index_def Let_def dict_get_default_def days_def
      event_type_of_value [of USER_ACTION, simplified])

end
