(* ===== verification/Run_Manager.thy ===== *)
theory Run_Manager
  imports SM_Runtime
begin

text \<open>
  The run manager (\<open>engine/run_manager.py\<close>): runs as directories with a metadata file, a
  snapshot of all runs and a write-ahead log. The metadata file is modelled as its text, so the
  simple front-matter parser is verified against the writer; directories other than the
  metadata file, and the hash of a log entry, are not modelled: a log file that is unreadable
  or has a wrong checksum is \<^const>\<open>None\<close>.
\<close>

subsection \<open>Numbers and dates as text\<close>

definition pad :: "nat \<Rightarrow> nat \<Rightarrow> string" where
  "pad w n = (let s = show_nat n in replicate (w - length s) CHR ''0'' @ s)"

record clock =
  year :: nat
  month :: nat
  day :: nat
  hour :: nat
  minute :: nat
  second :: nat
  micro :: nat

text \<open>\<open>isoformat()\<close> and \<open>strftime('%Y%m%d_%H%M%S_%f')\<close>.\<close>

definition iso :: "clock \<Rightarrow> string" where
  "iso c = pad 4 (year c) @ ''-'' @ pad 2 (month c) @ ''-'' @ pad 2 (day c) @ ''T'' @
     pad 2 (hour c) @ '':'' @ pad 2 (minute c) @ '':'' @ pad 2 (second c) @
     (if micro c = 0 then [] else ''.'' @ pad 6 (micro c))"

definition stamp :: "clock \<Rightarrow> string \<times> string \<times> string" where
  "stamp c = (pad 4 (year c) @ pad 2 (month c) @ pad 2 (day c),
     pad 2 (hour c) @ pad 2 (minute c) @ pad 2 (second c), pad 6 (micro c))"

definition wal_stem :: "clock \<Rightarrow> string" where
  "wal_stem c = (case stamp c of (d, t, f) \<Rightarrow> ''wal_'' @ d @ ''_'' @ t @ ''_'' @ f)"

subsection \<open>Slugs\<close>

definition lower_alnum :: "char \<Rightarrow> bool" where
  "lower_alnum c \<longleftrightarrow> (let n = (of_char c :: nat) in (97 \<le> n \<and> n \<le> 122) \<or> (48 \<le> n \<and> n \<le> 57))"

text \<open>\<open>re.sub('[...]+', '-', s)\<close> for a class of characters.\<close>

fun collapse :: "(char \<Rightarrow> bool) \<Rightarrow> nat \<Rightarrow> string \<Rightarrow> string" where
  "collapse P 0 s = []"
| "collapse P (Suc n) [] = []"
| "collapse P (Suc n) (c # cs) =
     (if P c then CHR ''-'' # collapse P n (dropWhile P cs) else c # collapse P n cs)"

definition strip_dashes :: "string \<Rightarrow> string" where
  "strip_dashes s = rev (dropWhile (\<lambda>c. c = CHR ''-'') (rev (dropWhile (\<lambda>c. c = CHR ''-'') s)))"

definition sub_class :: "(char \<Rightarrow> bool) \<Rightarrow> string \<Rightarrow> string" where
  "sub_class P s = collapse P (length s) s"

definition slugify :: "string \<Rightarrow> clock \<Rightarrow> string" where
  "slugify text now =
     (let s1 = strip (lower text);
          s2 = filter (\<lambda>c. lower_alnum c \<or> c = CHR ''-'' \<or> c = CHR ''_'' \<or> is_space c) (plain_spaces s1);
          s3 = sub_class (\<lambda>c. is_space c \<or> c = CHR ''_'') s2;
          s4 = sub_class (\<lambda>c. c = CHR ''-'') s3;
          s5 = take 80 (strip_dashes s4)
      in if s5 = [] then (case stamp now of (d, t, f) \<Rightarrow> ''run-'' @ d @ t) else s5)"

subsection \<open>Metadata\<close>

record RunMeta =
  rm_slug :: string
  rm_profile :: string
  rm_title :: string
  rm_created_at :: string
  rm_updated_at :: string
  rm_status :: string
  rm_state :: string
  rm_version :: int
  rm_iteration_count :: int

definition newline :: string where
  "newline = [CHR 0x0A]"

definition meta_line :: "string \<Rightarrow> string \<Rightarrow> string" where
  "meta_line k v = k @ '': '' @ v"

definition meta_lines :: "RunMeta \<Rightarrow> string list" where
  "meta_lines m =
     [''---'', meta_line ''slug'' (rm_slug m), meta_line ''profile'' (rm_profile m),
      meta_line ''title'' (rm_title m), meta_line ''created_at'' (rm_created_at m),
      meta_line ''updated_at'' (rm_updated_at m), meta_line ''status'' (rm_status m),
      meta_line ''state'' (rm_state m), meta_line ''version'' (show_int (rm_version m)),
      meta_line ''iteration_count'' (show_int (rm_iteration_count m)), ''---'']"

definition write_meta :: "RunMeta \<Rightarrow> string" where
  "write_meta m = concat (map (\<lambda>l. l @ newline) (meta_lines m))"

text \<open>\<open>read_text\<close> turns every line ending into a newline.\<close>

fun universal_newlines :: "string \<Rightarrow> string" where
  "universal_newlines [] = []"
| "universal_newlines [c] = [if c = CHR 0x0D then CHR 0x0A else c]"
| "universal_newlines (c # d # cs) =
     (if c = CHR 0x0D then
        (if d = CHR 0x0A then CHR 0x0A # universal_newlines cs else CHR 0x0A # universal_newlines (d # cs))
      else c # universal_newlines (d # cs))"

definition parse_line :: "string \<Rightarrow> (string, string) dict \<Rightarrow> (string, string) dict" where
  "parse_line l d =
     (let line = strip l
      in if starts_with line ''---'' then d
      else case split_first '':'' line of
          None \<Rightarrow> d
        | Some (k, v) \<Rightarrow> dict_set (strip k) (strip v) d)"

datatype run_error =
    NoStateMachine string
  | RunExists string
  | NoInitialState
  | RunNotFound string
  | NoMetadata string
  | TransitionRejected string string reason
  | BadNumber string

definition int_field :: "(string, string) dict \<Rightarrow> string \<Rightarrow> run_error + int" where
  "int_field d k =
     (case dict_get d k of
        None \<Rightarrow> Inr 0
      | Some v \<Rightarrow> (case parse_int v of None \<Rightarrow> Inl (BadNumber v) | Some n \<Rightarrow> Inr n))"

definition read_meta :: "string \<Rightarrow> string option \<Rightarrow> run_error + RunMeta option" where
  "read_meta dirname content =
     (case content of
        None \<Rightarrow> Inr None
      | Some text \<Rightarrow>
          let d0 = fold parse_line (split_all newline (universal_newlines text)) [];
              d = (if dict_get_default d0 ''slug'' [] = [] then dict_set ''slug'' dirname d0 else d0)
          in try_bind (int_field d ''version'') (\<lambda>v.
             try_bind (int_field d ''iteration_count'') (\<lambda>i.
             Inr (Some
               \<lparr>rm_slug = dict_get_default d ''slug'' dirname,
                rm_profile = dict_get_default d ''profile'' ''unknown'',
                rm_title = dict_get_default d ''title'' (dict_get_default d ''slug'' ''untitled''),
                rm_created_at = dict_get_default d ''created_at'' [],
                rm_updated_at = dict_get_default d ''updated_at'' [],
                rm_status = dict_get_default d ''status'' ''active'',
                rm_state = dict_get_default d ''state'' [],
                rm_version = v, rm_iteration_count = i\<rparr>))))"

subsection \<open>Snapshot and log\<close>

record snap_run =
  sn_state :: "string option"
  sn_profile :: "string option"
  sn_status :: "string option"
  sn_updated_at :: "string option"
  sn_version :: "int option"
  sn_rejection_count :: "nat option"
  sn_hitl_loop_count :: "nat option"
  sn_user_answers :: "(string, string) dict option"

definition empty_snap :: snap_run where
  "empty_snap = \<lparr>sn_state = None, sn_profile = None, sn_status = None, sn_updated_at = None,
     sn_version = None, sn_rejection_count = None, sn_hitl_loop_count = None, sn_user_answers = None\<rparr>"

text \<open>The fields that the run manager itself writes.\<close>

definition snap :: "string option \<Rightarrow> string option \<Rightarrow> string option \<Rightarrow> string option \<Rightarrow> int option \<Rightarrow> snap_run" where
  "snap st pr status ts v = empty_snap
     \<lparr>sn_state := st, sn_profile := pr, sn_status := status, sn_updated_at := ts, sn_version := v\<rparr>"

lemma snap_simps [simp]:
  "sn_state (snap st pr status ts v) = st" "sn_profile (snap st pr status ts v) = pr"
  "sn_status (snap st pr status ts v) = status" "sn_updated_at (snap st pr status ts v) = ts"
  "sn_version (snap st pr status ts v) = v" "sn_rejection_count (snap st pr status ts v) = None"
  "sn_hitl_loop_count (snap st pr status ts v) = None" "sn_user_answers (snap st pr status ts v) = None"
  by (simp_all add: snap_def empty_snap_def)

fun overlay :: "'a option \<Rightarrow> 'a option \<Rightarrow> 'a option" where
  "overlay None old = old"
| "overlay (Some v) old = Some v"

text \<open>\<open>old.update(new)\<close>\<close>

definition snap_update :: "snap_run \<Rightarrow> snap_run \<Rightarrow> snap_run" where
  "snap_update new old =
     \<lparr>sn_state = overlay (sn_state new) (sn_state old), sn_profile = overlay (sn_profile new) (sn_profile old),
      sn_status = overlay (sn_status new) (sn_status old),
      sn_updated_at = overlay (sn_updated_at new) (sn_updated_at old),
      sn_version = overlay (sn_version new) (sn_version old),
      sn_rejection_count = overlay (sn_rejection_count new) (sn_rejection_count old),
      sn_hitl_loop_count = overlay (sn_hitl_loop_count new) (sn_hitl_loop_count old),
      sn_user_answers = overlay (sn_user_answers new) (sn_user_answers old)\<rparr>"

type_synonym snapshot = "(string, snap_run) dict"

datatype wal_entry =
    WCreate string string string string
  | WTransition string string string int string
  | WArchive string string

record RunManager =
  active :: "(string, string option) dict"
  archive :: "(string, string option) dict"
  snapshot_file :: "snapshot option"
  wal :: "(string, clock \<times> wal_entry option) dict"

definition new_manager :: RunManager where
  "new_manager = \<lparr>active = [], archive = [], snapshot_file = None, wal = []\<rparr>"

definition load_snapshot :: "RunManager \<Rightarrow> snapshot" where
  "load_snapshot m = (case snapshot_file m of None \<Rightarrow> [] | Some s \<Rightarrow> s)"

definition put_snap :: "string \<Rightarrow> snap_run \<Rightarrow> snapshot \<Rightarrow> snapshot" where
  "put_snap slug data s =
     dict_set slug (case dict_get s slug of None \<Rightarrow> data | Some old \<Rightarrow> snap_update data old) s"

definition update_snapshot :: "string \<Rightarrow> snap_run \<Rightarrow> RunManager \<Rightarrow> RunManager" where
  "update_snapshot slug data m = m\<lparr>snapshot_file := Some (put_snap slug data (load_snapshot m))\<rparr>"

definition append_wal :: "clock \<Rightarrow> wal_entry \<Rightarrow> RunManager \<Rightarrow> RunManager" where
  "append_wal now e m = m\<lparr>wal := dict_set (wal_stem now) (now, Some e) (wal m)\<rparr>"

subsection \<open>Create, read, update, archive\<close>

record run_profile =
  pf_name :: string
  pf_machine :: "StateMachine option"

record Run =
  run_meta :: RunMeta
  run_runtime :: RuntimeState

definition create_run ::
    "string \<Rightarrow> run_profile \<Rightarrow> string \<Rightarrow> clock \<Rightarrow> datetime \<Rightarrow> RunManager \<Rightarrow> RunManager \<times> (run_error + Run)" where
  "create_run title profile slug0 now t m =
     (case pf_machine profile of
        None \<Rightarrow> (m, Inl (NoStateMachine (pf_name profile)))
      | Some sm \<Rightarrow>
          let slug = (if slug0 = [] then slugify title now else slug0)
          in if dict_get (active m) slug \<noteq> None \<and> dict_get (active m) slug \<noteq> Some None
             then (m, Inl (RunExists slug))
             else case initial_states (sm_config sm) of
                 [] \<Rightarrow> (m, Inl NoInitialState)
               | s0 # _ \<Rightarrow>
                   let st = sd_name s0;
                       meta = \<lparr>rm_slug = slug, rm_profile = pf_name profile, rm_title = title,
                         rm_created_at = iso now, rm_updated_at = iso now, rm_status = ''active'',
                         rm_state = st, rm_version = 0, rm_iteration_count = 0\<rparr>;
                       m1 = m\<lparr>active := dict_set slug (Some (write_meta meta)) (active m)\<rparr>;
                       m2 = append_wal now (WCreate slug (pf_name profile) st (iso now)) m1;
                       m3 = update_snapshot slug (snap (Some st) (Some (pf_name profile)) (Some ''active'') (Some (iso now)) None) m2
                   in (m3, Inr \<lparr>run_meta = meta, run_runtime = new_runtime st t\<rparr>))"

definition get_run :: "string \<Rightarrow> datetime \<Rightarrow> RunManager \<Rightarrow> run_error + Run option" where
  "get_run slug t m =
     (case dict_get (active m) slug of
        Some c \<Rightarrow>
          try_bind (read_meta slug c) (\<lambda>r. Inr (map_option (\<lambda>meta.
            \<lparr>run_meta = meta, run_runtime = (new_runtime (rm_state meta) t)
               \<lparr>rt_version := rm_version meta, iteration_count := rm_iteration_count meta\<rparr>\<rparr>) r))
      | None \<Rightarrow>
          (case dict_get (archive m) slug of
             None \<Rightarrow> Inr None
           | Some c \<Rightarrow>
               try_bind (read_meta slug c) (\<lambda>r. Inr (map_option (\<lambda>meta.
                 \<lparr>run_meta = meta, run_runtime = new_runtime (rm_state meta) t\<rparr>) r))))"

text \<open>Listing: the metadata of every directory, newest first.\<close>

definition list_runs :: "bool \<Rightarrow> RunManager \<Rightarrow> run_error + RunMeta list" where
  "list_runs include_archived m =
     try_bind (try_map (\<lambda>(d, c). read_meta d c)
         (active m @ (if include_archived then archive m else [])))
       (\<lambda>ms. Inr (rev (sort_key rm_updated_at (rev (List.map_filter id ms)))))"

definition search_runs :: "string \<Rightarrow> RunManager \<Rightarrow> run_error + RunMeta list" where
  "search_runs q m =
     try_bind (list_runs False m) (\<lambda>ms. Inr (filter
       (\<lambda>r. py_in (lower q) (lower (rm_title r)) \<or> py_in (lower q) (lower (rm_slug r)) \<or>
            py_in (lower q) (lower (rm_profile r))) ms))"

text \<open>The \<open>runtime_overrides\<close> that the engine passes, by field.\<close>

datatype override =
    OHumanApproved bool
  | OChangesRequested bool
  | OManualUnblock bool
  | OProjectAbandoned bool
  | ODriftCount int
  | OConsecutiveFailures int
  | OTotalIterations int
  | OIterationCount int
  | OReentryCount int

fun apply_override :: "override \<Rightarrow> RuntimeState \<Rightarrow> RuntimeState" where
  "apply_override (OHumanApproved b) r = r\<lparr>human_approved := b\<rparr>"
| "apply_override (OChangesRequested b) r = r\<lparr>changes_requested := b\<rparr>"
| "apply_override (OManualUnblock b) r = r\<lparr>manual_unblock := b\<rparr>"
| "apply_override (OProjectAbandoned b) r = r\<lparr>project_abandoned := b\<rparr>"
| "apply_override (ODriftCount n) r = r\<lparr>drift_count := n\<rparr>"
| "apply_override (OConsecutiveFailures n) r = r\<lparr>consecutive_failures := n\<rparr>"
| "apply_override (OTotalIterations n) r = r\<lparr>total_iterations := n\<rparr>"
| "apply_override (OIterationCount n) r = r\<lparr>iteration_count := n\<rparr>"
| "apply_override (OReentryCount n) r = r\<lparr>reentry_count := n\<rparr>"

text \<open>The verdict of the state machine on a fresh runtime, if the profile has a machine.\<close>

definition check_transition ::
    "run_profile option \<Rightarrow> override list \<Rightarrow> RunMeta \<Rightarrow> int \<Rightarrow> string \<Rightarrow> datetime \<Rightarrow> run_error + unit" where
  "check_transition profile overrides meta iters to t =
     (case Option.bind profile pf_machine of
        None \<Rightarrow> Inr ()
      | Some sm \<Rightarrow>
          let rt = fold apply_override overrides ((new_runtime (rm_state meta) t)
                \<lparr>rt_version := rm_version meta, iteration_count := iters\<rparr>)
          in case can_transition sm (rm_state meta) to rt None of
               ((True, _), _) \<Rightarrow> Inr ()
             | ((False, why), _) \<Rightarrow> Inl (TransitionRejected (rm_state meta) to why))"

definition update_state ::
    "string \<Rightarrow> string \<Rightarrow> run_profile option \<Rightarrow> override list \<Rightarrow> clock \<Rightarrow> datetime \<Rightarrow> RunManager
      \<Rightarrow> RunManager \<times> (run_error + Run)" where
  "update_state slug to profile overrides now t m =
     (case dict_get (active m) slug of
        None \<Rightarrow> (m, Inl (RunNotFound slug))
      | Some c \<Rightarrow>
          (case read_meta slug c of
             Inl e \<Rightarrow> (m, Inl e)
           | Inr None \<Rightarrow> (m, Inl (NoMetadata slug))
           | Inr (Some meta0) \<Rightarrow>
               let iters = (if rm_state meta0 = ''iteration'' then rm_iteration_count meta0 + 1
                            else rm_iteration_count meta0)
               in case check_transition profile overrides meta0 iters to t of
                    Inl e \<Rightarrow> (m, Inl e)
                  | Inr _ \<Rightarrow>
                      let v = rm_version meta0 + 1;
                          meta = meta0\<lparr>rm_version := v, rm_iteration_count := iters, rm_state := to,
                            rm_updated_at := iso now\<rparr>;
                          m1 = append_wal now (WTransition slug (rm_state meta0) to v (iso now)) m;
                          m2 = update_snapshot slug (snap (Some to) None (Some ''active'') (Some (iso now)) (Some v)) m1;
                          m3 = m2\<lparr>active := dict_set slug (Some (write_meta meta)) (active m2)\<rparr>
                      in (m3, Inr \<lparr>run_meta = meta, run_runtime = (new_runtime to t)\<lparr>rt_version := v\<rparr>\<rparr>)))"

text \<open>Archiving reads the clock once for the snapshot and once for the log.\<close>

definition archive_run :: "string \<Rightarrow> clock \<Rightarrow> clock \<Rightarrow> RunManager \<Rightarrow> RunManager \<times> (run_error + bool)" where
  "archive_run slug now now' m =
     (case dict_get (active m) slug of
        None \<Rightarrow> (m, Inl (RunNotFound slug))
      | Some c \<Rightarrow>
          let m1 = m\<lparr>active := dict_del slug (active m), archive := dict_set slug c (archive m)\<rparr>;
              m2 = update_snapshot slug (snap None None (Some ''archived'') (Some (iso now)) None) m1
          in (append_wal now' (WArchive slug (iso now')) m2, Inr True))"

subsection \<open>Recovery\<close>

fun entry_slug :: "wal_entry \<Rightarrow> string" where
  "entry_slug (WCreate slug p s ts) = slug"
| "entry_slug (WTransition slug f to v ts) = slug"
| "entry_slug (WArchive slug ts) = slug"

fun entry_data :: "wal_entry \<Rightarrow> snap_run" where
  "entry_data (WCreate slug p s ts) = snap (Some s) (Some p) (Some ''active'') (Some ts) None"
| "entry_data (WTransition slug f to v ts) = snap (Some to) None None (Some ts) None"
| "entry_data (WArchive slug ts) = snap None None (Some ''archived'') (Some ts) None"

definition replay_entry :: "wal_entry \<Rightarrow> snapshot \<Rightarrow> snapshot" where
  "replay_entry e s =
     (if entry_slug e = [] then s
      else dict_set (entry_slug e)
        (snap_update (entry_data e) (dict_get_default s (entry_slug e) empty_snap)) s)"

definition wal_entries :: "(string, clock \<times> wal_entry option) dict \<Rightarrow> wal_entry list" where
  "wal_entries w = List.map_filter (\<lambda>(f, c, e). e) (sort_key fst w)"

text \<open>\<open>file_time < latest_snapshot_time[:19]\<close>, as the strings that the code compares.\<close>

definition older_than_snapshot :: "string \<Rightarrow> clock \<Rightarrow> bool" where
  "older_than_snapshot latest c \<longleftrightarrow>
     (case stamp c of (d, t, f) \<Rightarrow> d @ ''T'' @ t < take 19 latest)"

definition compact_wal :: "snapshot \<Rightarrow> RunManager \<Rightarrow> RunManager" where
  "compact_wal s m =
     (case map (\<lambda>r. case sn_updated_at r of None \<Rightarrow> [] | Some ts \<Rightarrow> ts) (dict_values s) of
        [] \<Rightarrow> m
      | ts # tss \<Rightarrow>
          m\<lparr>wal := filter (\<lambda>(f, c, e). \<not> older_than_snapshot (fold max tss ts) c) (wal m)\<rparr>)"

definition recover :: "RunManager \<Rightarrow> RunManager \<times> snapshot" where
  "recover m =
     (let s = fold replay_entry (wal_entries (wal m)) (load_snapshot m)
      in (compact_wal s m, s))"

subsection \<open>Stripping\<close>

definition clean :: "string \<Rightarrow> bool" where
  "clean s \<longleftrightarrow> bare s \<and> CHR 0x0A \<notin> set s \<and> CHR 0x0D \<notin> set s"

lemma is_space_newline [simp]: "is_space CHR 0x0A" "is_space CHR 0x0D"
  by code_simp+

lemma digit_not_space: "is_digit c \<Longrightarrow> is_ascii c \<and> \<not> is_space c"
  by (auto simp: is_digit_def is_space_def is_ascii_def Let_def)

lemma is_space_minus [simp]: "\<not> is_space CHR ''-''" "is_ascii CHR ''-''"
  by code_simp+

lemma show_int_chars: "c \<in> set (show_int i) \<Longrightarrow> is_ascii c \<and> \<not> is_space c"
  using show_nat_digits by (auto simp: show_int_def list_all_iff digit_not_space split: if_splits)

lemma no_space_clean: "(\<And>c. c \<in> set s \<Longrightarrow> is_ascii c \<and> \<not> is_space c) \<Longrightarrow> clean s"
  using is_space_newline bare_ascii [of s] unfolding clean_def list_all_iff by blast

lemma clean_show_int: "clean (show_int i)"
  by (rule no_space_clean) (rule show_int_chars)

lemma parse_int_show: "parse_int (show_int i) = Some i"
proof -
  have s: "strip (show_int i) = show_int i"
    using clean_show_int by (simp add: clean_def strip_bare)
  obtain c cs where n: "show_nat (nat i) = c # cs" "is_digit c"
    using show_nat_digits [of "nat i"] show_nat_not_Nil by (cases "show_nat (nat i)") auto
  then have "c \<noteq> CHR ''-''" "c \<noteq> CHR ''+''"
    by (auto simp: is_digit_def)
  with s n parse_nat_show [of "nat i"] parse_nat_show [of "nat (- i)"] show ?thesis
    by (simp add: parse_int_def show_int_def)
qed

subsection \<open>Lines\<close>

lemma split_first_char: "c \<notin> set l \<Longrightarrow> split_first [c] (l @ c # rest) = Some (l, rest)"
proof (induction l)
  case Nil
  then show ?case by (simp add: split_first.simps starts_with_def)
next
  case (Cons a l)
  then have "a \<noteq> c" by auto
  with Cons show ?case by (simp add: split_first.simps [of "[c]" "a # _"] starts_with_def)
qed

lemma split_first_char_None: "c \<notin> set l \<Longrightarrow> split_first [c] l = None"
proof (induction l)
  case (Cons a l)
  then have "a \<noteq> c" by auto
  with Cons show ?case by (simp add: split_first.simps [of "[c]" "a # _"] starts_with_def)
qed (simp add: split_first.simps starts_with_def)

lemma split_all_lines:
  "\<forall>l\<in>set ls. CHR 0x0A \<notin> set l \<Longrightarrow> split_all newline (concat (map (\<lambda>l. l @ newline) ls)) = ls @ [[]]"
proof (induction ls)
  case Nil
  then show ?case by (simp add: split_all.simps newline_def split_first_char_None)
next
  case (Cons l ls)
  then have "split_first newline (l @ newline @ concat (map (\<lambda>l. l @ newline) ls)) =
      Some (l, concat (map (\<lambda>l. l @ newline) ls))"
    by (simp add: newline_def split_first_char)
  with Cons show ?case by (subst split_all.simps) (simp add: newline_def)
qed

lemma universal_newlines_id: "CHR 0x0D \<notin> set s \<Longrightarrow> universal_newlines s = s"
  by (induction s rule: universal_newlines.induct) auto

definition key_ok :: "string \<Rightarrow> bool" where
  "key_ok k \<longleftrightarrow> k \<noteq> [] \<and> list_all (\<lambda>c. is_ascii c \<and> \<not> is_space c \<and> c \<noteq> CHR '':'' \<and> c \<noteq> CHR ''-'') k"

lemma is_space_blank' [simp]: "is_space CHR '' ''" "\<not> is_space CHR '':''" "is_ascii CHR '' ''" "is_ascii CHR '':''"
  by code_simp+

lemma key_bare: "key_ok k \<Longrightarrow> bare k"
  by (rule bare_ascii) (simp add: key_ok_def list_all_iff)

lemma parse_meta_line:
  assumes k: "key_ok k" and v: "clean v"
  shows "parse_line (meta_line k v) d = dict_set k v d"
proof -
  obtain c k' where c: "k = c # k'" "is_ascii c" "\<not> is_space c" "c \<noteq> CHR ''-''"
    using k by (cases k) (auto simp: key_ok_def)
  have colon: "CHR '':'' \<notin> set k" using k by (auto simp: key_ok_def list_all_iff)
  obtain u where u: "strip (meta_line k v) = k @ CHR '':'' # u" "strip u = v"
  proof (cases "v = []")
    case True
    have "strip (meta_line k v) = strip ((k @ '':'') @ '' '')"
      by (simp add: True meta_line_def)
    also have "\<dots> = strip (k @ '':'')" by (rule strip_space_last) simp_all
    also have "\<dots> = k @ CHR '':'' # []"
      using c bare_last_ascii [of "CHR '':''" k] by (intro strip_bare) (simp add: bare_ends)
    finally show ?thesis using that [of "[]"] True by (simp add: strip_def)
  next
    case False
    have "\<not> space_point (last (code_points v))" using v False by (simp add: clean_def bare_def)
    then have "\<not> space_point (last (code_points (meta_line k v)))"
      using False last_code_points_append [of "CHR '' ''" v "k @ '':''"] by (simp add: meta_line_def)
    then have "bare (meta_line k v)" using c by (simp add: meta_line_def bare_ends)
    then have "strip (meta_line k v) = k @ CHR '':'' # '' '' @ v" by (simp add: strip_bare) (simp add: meta_line_def)
    moreover have "strip ('' '' @ v) = v"
      using v by (simp add: strip_space_first strip_bare clean_def)
    ultimately show ?thesis using that by simp
  qed
  have "\<not> starts_with (k @ CHR '':'' # u) ''---''" using c by (simp add: starts_with_def)
  then show ?thesis
    using u colon key_bare [OF k] by (simp add: parse_line_def Let_def split_first_char strip_bare)
qed

lemma parse_dashes: "parse_line ''---'' d = d"
  by (simp add: parse_line_def starts_with_def strip_bare bare_ascii)

lemma parse_empty: "parse_line [] d = d"
  by (simp add: parse_line_def strip_def starts_with_def split_first.simps)

definition meta_clean :: "RunMeta \<Rightarrow> bool" where
  "meta_clean m \<longleftrightarrow> rm_slug m \<noteq> [] \<and>
     list_all clean [rm_slug m, rm_profile m, rm_title m, rm_created_at m, rm_updated_at m, rm_status m, rm_state m]"

lemma key_oks: "list_all key_ok [''slug'', ''profile'', ''title'', ''created_at'', ''updated_at'', ''status'',
    ''state'', ''version'', ''iteration_count'']"
  by code_simp

lemma read_write_meta:
  assumes "meta_clean m"
  shows "read_meta dirname (Some (write_meta m)) = Inr (Some m)"
proof -
  have c: "\<forall>l\<in>set (meta_lines m). CHR 0x0A \<notin> set l \<and> CHR 0x0D \<notin> set l"
    using assms clean_show_int [of "rm_version m"] clean_show_int [of "rm_iteration_count m"]
    by (simp add: meta_lines_def meta_line_def meta_clean_def clean_def)
  have "CHR 0x0D \<notin> set (write_meta m)" using c by (auto simp: write_meta_def newline_def)
  then have "universal_newlines (write_meta m) = write_meta m" by (rule universal_newlines_id)
  moreover have "split_all newline (write_meta m) = meta_lines m @ [[]]"
    unfolding write_meta_def using c by (intro split_all_lines) blast
  ultimately have lines: "split_all newline (universal_newlines (write_meta m)) = meta_lines m @ [[]]"
    by simp
  have "fold parse_line (meta_lines m @ [[]]) [] =
     [(''slug'', rm_slug m), (''profile'', rm_profile m), (''title'', rm_title m),
      (''created_at'', rm_created_at m), (''updated_at'', rm_updated_at m), (''status'', rm_status m),
      (''state'', rm_state m), (''version'', show_int (rm_version m)),
      (''iteration_count'', show_int (rm_iteration_count m))]"
    using assms key_oks
    by (simp add: meta_lines_def parse_dashes parse_empty parse_meta_line meta_clean_def clean_show_int)
  then show ?thesis
    using assms unfolding read_meta_def option.case lines
    by (simp add: Let_def int_field_def parse_int_show dict_get_default_def meta_clean_def)
qed

text \<open>C30: The metadata file is read back as it was written, whatever colons and dashes the values
contain, when the slug is not empty and the values have no line break (LF, CR) and no white space (of Unicode)
at either end; so different metadata of this kind have different texts.\<close>

theorem meta_roundtrip:
  assumes "meta_clean m"
  shows "read_meta dirname (Some (write_meta m)) = Inr (Some m) \<and>
    (\<forall>m'. meta_clean m' \<longrightarrow> write_meta m' = write_meta m \<longrightarrow> m' = m)"
proof (intro conjI allI impI)
  show read: "read_meta dirname (Some (write_meta m)) = Inr (Some m)"
    using assms by (rule read_write_meta)
  fix m' assume "meta_clean m'" "write_meta m' = write_meta m"
  with read read_write_meta [of m' dirname] show "m' = m" by simp
qed

theorem meta_roundtrip_witness:
  "let m = \<lparr>rm_slug = ''q3-report'', rm_profile = ''content'', rm_title = ''Q3: --- done?'', rm_created_at = [],
     rm_updated_at = [], rm_status = ''active'', rm_state = ''draft'', rm_version = 12, rm_iteration_count = 0\<rparr>
   in read_meta ''x'' (Some (write_meta m)) = Inr (Some m)"
proof -
  let ?m = "\<lparr>rm_slug = ''q3-report'', rm_profile = ''content'', rm_title = ''Q3: --- done?'', rm_created_at = [],
     rm_updated_at = [], rm_status = ''active'', rm_state = ''draft'', rm_version = 12, rm_iteration_count = 0\<rparr>"
  have "meta_clean ?m" by code_simp
  from meta_roundtrip [OF this] show ?thesis by simp
qed

subsection \<open>Slugs are safe path components\<close>

lemma set_collapse: "set (collapse P n s) \<subseteq> insert CHR ''-'' {c \<in> set s. \<not> P c}"
  by (induction P n s rule: collapse.induct) (auto dest: set_dropWhileD)

lemma set_strip_dashes: "set (strip_dashes s) \<subseteq> set s"
  by (auto simp: strip_dashes_def dest!: set_dropWhileD)

lemma hd_strip_dashes: "strip_dashes s \<noteq> [] \<Longrightarrow> hd (strip_dashes s) \<noteq> CHR ''-''"
proof -
  let ?d = "dropWhile (\<lambda>c. c = CHR ''-'')"
  assume ne: "strip_dashes s \<noteq> []"
  have "\<exists>zs. xs = ?d xs @ zs \<or> xs = zs @ ?d xs" for xs
    by (metis takeWhile_dropWhile_id)
  obtain zs where zs: "rev (?d s) = zs @ ?d (rev (?d s))" by (metis takeWhile_dropWhile_id)
  then have "?d s = strip_dashes s @ rev zs"
    unfolding strip_dashes_def by (metis rev_append rev_rev_ident)
  with ne have "hd (strip_dashes s) = hd (?d s)" "?d s \<noteq> []" by auto
  then show ?thesis using hd_dropWhile [of "\<lambda>c. c = CHR ''-''" s] by simp
qed

lemma pad_digits: "list_all is_digit (pad w n)"
  using show_nat_digits by (auto simp: pad_def Let_def list_all_iff is_digit_def)

lemma digit_lower_alnum: "is_digit c \<Longrightarrow> lower_alnum c"
  by (simp add: is_digit_def lower_alnum_def Let_def)

text \<open>Whatever the title, the slug made from it is not empty, holds only the letters a to z,
  digits and dashes, and does not start with a dash, so it names a directory directly under
  the runs directory.\<close>

theorem slugify_safe:
  "slugify text now \<noteq> [] \<and> list_all (\<lambda>c. lower_alnum c \<or> c = CHR ''-'') (slugify text now) \<and>
   hd (slugify text now) \<noteq> CHR ''-''"
proof -
  let ?s2 = "filter (\<lambda>c. lower_alnum c \<or> c = CHR ''-'' \<or> c = CHR ''_'' \<or> is_space c) (plain_spaces (strip (lower text)))"
  let ?s4 = "sub_class (\<lambda>c. c = CHR ''-'') (sub_class (\<lambda>c. is_space c \<or> c = CHR ''_'') ?s2)"
  let ?s5 = "take 80 (strip_dashes ?s4)"
  have "set (sub_class (\<lambda>c. is_space c \<or> c = CHR ''_'') ?s2) \<subseteq> {c. lower_alnum c \<or> c = CHR ''-''}"
    using set_collapse [of "\<lambda>c. is_space c \<or> c = CHR ''_''" "length ?s2" ?s2] by (auto simp: sub_class_def)
  then have "set ?s4 \<subseteq> {c. lower_alnum c \<or> c = CHR ''-''}"
    using set_collapse by (fastforce simp: sub_class_def)
  then have s5: "list_all (\<lambda>c. lower_alnum c \<or> c = CHR ''-'') ?s5"
    using set_strip_dashes [of ?s4] by (auto simp: list_all_iff dest!: in_set_takeD)
  show ?thesis
  proof (cases "?s5 = []")
    case True
    then have "slugify text now = ''run-'' @ fst (stamp now) @ fst (snd (stamp now))"
      by (simp add: slugify_def Let_def split_beta)
    moreover have "lower_alnum CHR ''r''" "lower_alnum CHR ''u''" "lower_alnum CHR ''n''" by code_simp+
    ultimately show ?thesis
      using pad_digits digit_lower_alnum by (auto simp: stamp_def list_all_iff)
  next
    case False
    then have eq: "slugify text now = ?s5" by (simp add: slugify_def Let_def)
    have "strip_dashes ?s4 \<noteq> []" using False by auto
    then have "hd ?s5 \<noteq> CHR ''-''" using hd_strip_dashes by (simp add: hd_take)
    with False s5 eq show ?thesis by simp
  qed
qed

subsection \<open>Updates\<close>

lemma update_state_effect:
  "let (m', r) = update_state slug to profile overrides now t m in
   case r of
     Inl e \<Rightarrow> m' = m
   | Inr run \<Rightarrow> \<exists>c meta0 iters. dict_get (active m) slug = Some c \<and> read_meta slug c = Inr (Some meta0) \<and>
       check_transition profile overrides meta0 iters to t = Inr () \<and>
       iters = rm_iteration_count meta0 + (if rm_state meta0 = ''iteration'' then 1 else 0) \<and>
       run_meta run = meta0\<lparr>rm_state := to, rm_version := rm_version meta0 + 1,
         rm_iteration_count := iters, rm_updated_at := iso now\<rparr> \<and>
       active m' = dict_set slug (Some (write_meta (run_meta run))) (active m) \<and>
       dict_get (wal m') (wal_stem now) =
         Some (now, Some (WTransition slug (rm_state meta0) to (rm_version meta0 + 1) (iso now))) \<and>
       (\<exists>sn. dict_get (load_snapshot m') slug = Some sn \<and> sn_state sn = Some to \<and>
          sn_version sn = Some (rm_version meta0 + 1) \<and> sn_status sn = Some ''active'') \<and>
       archive m' = archive m"
proof (cases "\<exists>c meta0. dict_get (active m) slug = Some c \<and> read_meta slug c = Inr (Some meta0) \<and>
    check_transition profile overrides meta0
      (rm_iteration_count meta0 + (if rm_state meta0 = ''iteration'' then 1 else 0)) to t = Inr ()")
  case False
  then have "\<exists>e. update_state slug to profile overrides now t m = (m, Inl e)"
    by (cases "dict_get (active m) slug"; cases "read_meta slug (the (dict_get (active m) slug))")
       (auto simp: update_state_def Let_def split: option.splits sum.splits if_splits)
  then show ?thesis by (auto simp: Let_def)
next
  case True
  then obtain c meta0 where c: "dict_get (active m) slug = Some c" "read_meta slug c = Inr (Some meta0)"
    and ok: "check_transition profile overrides meta0
      (rm_iteration_count meta0 + (if rm_state meta0 = ''iteration'' then 1 else 0)) to t = Inr ()"
    by blast
  let ?i = "rm_iteration_count meta0 + (if rm_state meta0 = ''iteration'' then 1 else 0)"
  have i: "(if rm_state meta0 = ''iteration'' then rm_iteration_count meta0 + 1 else rm_iteration_count meta0) = ?i"
    by simp
  show ?thesis
    unfolding update_state_def c option.case sum.case i Let_def ok prod.case
    by (rule exI [of _ c], rule exI [of _ meta0], rule exI [of _ ?i])
       (simp add: c ok append_wal_def update_snapshot_def load_snapshot_def put_snap_def snap_update_def
          split: option.split)
qed

subsection \<open>Re-entries through the run manager\<close>

fun repeat_update ::
    "string \<Rightarrow> string \<Rightarrow> run_profile \<Rightarrow> (clock \<times> datetime) list \<Rightarrow> RunManager \<Rightarrow> (run_error + Run) list" where
  "repeat_update slug s p [] m = []"
| "repeat_update slug s p ((now, t) # ts) m =
     (case update_state slug s (Some p) [] now t m of (m', r) \<Rightarrow> r # repeat_update slug s p ts m')"

lemma digit_clean: "list_all is_digit s \<Longrightarrow> c \<in> set s \<Longrightarrow> is_ascii c \<and> \<not> is_space c"
  by (auto simp: list_all_iff digit_not_space)

lemma clean_iso: "clean (iso c)"
proof (rule no_space_clean)
  have "\<not> is_space CHR ''T''" "\<not> is_space CHR ''.''" "is_ascii CHR ''T''" "is_ascii CHR ''.''" by code_simp+
  then show "is_ascii x \<and> \<not> is_space x" if "x \<in> set (iso c)" for x
    using that digit_clean [OF pad_digits] by (auto simp: iso_def split: if_splits)
qed

text \<open>The re-entry bound of a state is not enforced across updates: every update judges a
  fresh runtime, so a self-loop without a condition and with a positive bound succeeds however
  often it is taken.\<close>

theorem self_loops_unbounded:
  assumes "pf_machine p = Some sm" and "find_transition sm s s = Inr x" and "condition x = None"
    and "reentry_exceeded sm s s (new_runtime s 0) = None"
    and "dict_get (active m) slug = Some (Some (write_meta meta))" and "meta_clean meta" and "rm_state meta = s"
  shows "list_all (\<lambda>r. \<not> isl r) (repeat_update slug s p ts m)"
  using assms(5-7)
proof (induction ts arbitrary: m meta)
  case (Cons a ts)
  obtain now t where a: "a = (now, t)" by (cases a)
  have re: "reentry_exceeded sm s s r = None" if "reentry_count r = 0" for r
    using assms(4) that by (auto simp: reentry_exceeded_def new_runtime_def split: option.splits if_splits)
  have "check_transition (Some p) [] meta i s t = Inr ()" for i
    using assms(1-3) Cons.prems(3)
    by (simp add: check_transition_def can_transition_def re condition_holds_def new_runtime_def)
  then obtain m' run where u: "update_state slug s (Some p) [] now t m = (m', Inr run)"
    using Cons.prems by (auto simp: update_state_def read_write_meta Let_def)
  with update_state_effect [of slug s "Some p" "[]" now t m] Cons.prems
  have run: "dict_get (active m') slug = Some (Some (write_meta (run_meta run)))"
    "run_meta run = meta\<lparr>rm_state := s, rm_version := rm_version meta + 1,
       rm_iteration_count := rm_iteration_count (run_meta run), rm_updated_at := iso now\<rparr>"
    by (auto simp: read_write_meta)
  have "meta_clean (run_meta run)"
    using Cons.prems(2,3) clean_iso by (subst run(2)) (simp add: meta_clean_def)
  moreover have "rm_state (run_meta run) = s" by (subst run(2)) simp
  ultimately show ?case using Cons.IH [OF run(1)] u a by simp
qed simp

definition demo_profile :: run_profile where
  "demo_profile = \<lparr>pf_name = ''demo'', pf_machine = Some (demo_machine 128)\<rparr>"

definition demo_meta :: RunMeta where
  "demo_meta = \<lparr>rm_slug = ''r'', rm_profile = ''demo'', rm_title = ''r'', rm_created_at = [], rm_updated_at = [],
     rm_status = ''active'', rm_state = ''process'', rm_version = 0, rm_iteration_count = 0\<rparr>"

definition demo_clock :: clock where
  "demo_clock = \<lparr>year = 2026, month = 5, day = 19, hour = 12, minute = 30, second = 0, micro = 7\<rparr>"

theorem self_loops_unbounded_witness:
  "list_all (\<lambda>r. \<not> isl r) (repeat_update ''r'' ''process'' demo_profile (replicate 1000 (demo_clock, 0))
     (new_manager\<lparr>active := [(''r'', Some (write_meta demo_meta))]\<rparr>)) \<and>
   reentry_exceeded (demo_machine 128) ''process'' ''process'' ((new_runtime ''process'' 0)\<lparr>reentry_count := 5\<rparr>) = Some 5"
proof
  have f: "find_transition (demo_machine 128) ''process'' ''process'' = Inr (plain_transition ''process'' ''process'')"
    "reentry_exceeded (demo_machine 128) ''process'' ''process'' (new_runtime ''process'' 0) = None"
    "meta_clean demo_meta"
    by code_simp+
  show "list_all (\<lambda>r. \<not> isl r) (repeat_update ''r'' ''process'' demo_profile (replicate 1000 (demo_clock, 0))
     (new_manager\<lparr>active := [(''r'', Some (write_meta demo_meta))]\<rparr>))"
    by (rule self_loops_unbounded [OF _ f(1) _ f(2) _ f(3)])
       (simp_all add: demo_profile_def plain_transition_def demo_meta_def)
  show "reentry_exceeded (demo_machine 128) ''process'' ''process'' ((new_runtime ''process'' 0)\<lparr>reentry_count := 5\<rparr>) = Some 5"
    by code_simp
qed

subsection \<open>Recovery\<close>

datatype run_op =
    Create string run_profile string clock datetime
  | Update string string "run_profile option" "override list" clock datetime
  | Archive string clock clock

fun run_step :: "run_op \<Rightarrow> RunManager \<Rightarrow> RunManager" where
  "run_step (Create title p slug now t) m = fst (create_run title p slug now t m)"
| "run_step (Update slug to p ov now t) m = fst (update_state slug to p ov now t m)"
| "run_step (Archive slug now now') m = fst (archive_run slug now now' m)"

text \<open>The name of the log file that an operation writes, if it writes one.\<close>

fun op_stem :: "run_op \<Rightarrow> string" where
  "op_stem (Create title p slug now t) = wal_stem now"
| "op_stem (Update slug to p ov now t) = wal_stem now"
| "op_stem (Archive slug now now') = wal_stem now'"

text \<open>A field of the record of a run, and the same field after a list of log entries.\<close>

definition snap_field :: "(snap_run \<Rightarrow> 'a option) \<Rightarrow> snapshot \<Rightarrow> string \<Rightarrow> 'a option" where
  "snap_field f s slug = Option.bind (dict_get s slug) f"

definition field_after :: "(snap_run \<Rightarrow> 'a option) \<Rightarrow> string \<Rightarrow> wal_entry list \<Rightarrow> 'a option \<Rightarrow> 'a option" where
  "field_after f slug = fold (\<lambda>e v. if entry_slug e = slug then overlay (f (entry_data e)) v else v)"

definition overlaid :: "(snap_run \<Rightarrow> 'a option) \<Rightarrow> bool" where
  "overlaid f \<longleftrightarrow> f empty_snap = None \<and> (\<forall>new old. f (snap_update new old) = overlay (f new) (f old))"

lemma overlaid_fields [simp]: "overlaid sn_state" "overlaid sn_profile" "overlaid sn_status"
  by (simp_all add: overlaid_def snap_update_def empty_snap_def)

lemma overlay_assoc: "overlay a (overlay b c) = overlay (overlay a b) c"
  by (cases a) simp_all

lemma overlay_None [simp]: "overlay a None = a"
  by (cases a) simp_all

lemma overlay_same [simp]: "overlay a a = a"
  by (cases a) simp_all

lemma field_after_overlay: "field_after f slug es v = overlay (field_after f slug es None) v"
proof (induction es arbitrary: v)
  case (Cons e es)
  show ?case
    using Cons [of "if entry_slug e = slug then overlay (f (entry_data e)) v else v"]
      Cons [of "if entry_slug e = slug then f (entry_data e) else None"]
    by (auto simp: field_after_def overlay_assoc)
qed (simp add: field_after_def)

lemma snap_field_put:
  "overlaid f \<Longrightarrow> snap_field f (put_snap slug data s) x =
     (if x = slug then overlay (f data) (snap_field f s x) else snap_field f s x)"
  by (auto simp: snap_field_def put_snap_def overlaid_def split: option.split)

lemma snap_field_replay:
  assumes "overlaid f" and "entry_slug e \<noteq> []"
  shows "snap_field f (replay_entry e s) x =
     (if entry_slug e = x then overlay (f (entry_data e)) (snap_field f s x) else snap_field f s x)"
  using assms by (auto simp: snap_field_def replay_entry_def overlaid_def dict_get_default_def split: option.split)

lemma snap_field_fold:
  "overlaid f \<Longrightarrow> \<forall>e\<in>set es. entry_slug e \<noteq> [] \<Longrightarrow>
   snap_field f (fold replay_entry es s) slug = field_after f slug es (snap_field f s slug)"
  by (induction es arbitrary: s) (simp_all add: field_after_def snap_field_replay)

definition log_entries :: "RunManager \<Rightarrow> wal_entry list" where
  "log_entries m = List.map_filter (\<lambda>(f, c, e). e) (wal m)"

text \<open>
  What the manager keeps: log files in order of their names, one entry each, an active run is
  active in the snapshot, and every field of the snapshot is its last value in the log.
\<close>

definition recover_inv :: "RunManager \<Rightarrow> bool" where
  "recover_inv m \<longleftrightarrow> sorted_wrt (<) (dict_keys (wal m)) \<and> (\<forall>e\<in>set (log_entries m). entry_slug e \<noteq> []) \<and>
     (\<forall>slug. dict_has (active m) slug \<longrightarrow> slug \<noteq> [] \<and> snap_field sn_status (load_snapshot m) slug = Some ''active'') \<and>
     (\<forall>slug. snap_field sn_state (load_snapshot m) slug = field_after sn_state slug (log_entries m) None \<and>
        snap_field sn_profile (load_snapshot m) slug = field_after sn_profile slug (log_entries m) None \<and>
        snap_field sn_status (load_snapshot m) slug = field_after sn_status slug (log_entries m) None)"

lemma field_after_snoc:
  "field_after f slug (es @ [e]) v =
     (if entry_slug e = slug then overlay (f (entry_data e)) (field_after f slug es v) else field_after f slug es v)"
  by (simp add: field_after_def)

text \<open>A step that logs an entry, updates the snapshot and the active directory.\<close>

lemma recover_inv_log:
  assumes inv: "recover_inv m" and new: "\<forall>f\<in>set (dict_keys (wal m)). f < k"
    and m': "wal m' = dict_set k (c, Some e) (wal m)" "load_snapshot m' = put_snap (entry_slug e) d (load_snapshot m)"
    and slug: "entry_slug e \<noteq> []" "\<And>x. dict_has (active m') x \<Longrightarrow> x = entry_slug e \<or> dict_has (active m) x"
    and act: "dict_has (active m') (entry_slug e) \<Longrightarrow> sn_status d = Some ''active''"
    and d: "sn_state d = sn_state (entry_data e)" "sn_profile d = sn_profile (entry_data e)"
    and st: "sn_status d = sn_status (entry_data e) \<or>
      sn_status d = snap_field sn_status (load_snapshot m) (entry_slug e) \<and> sn_status (entry_data e) = None"
  shows "recover_inv m'"
proof -
  have k: "\<not> dict_has (wal m) k" using new by (auto simp: dict_has_iff)
  then have w: "wal m' = wal m @ [(k, c, Some e)]" by (simp add: m'(1) dict_set_append)
  then have l: "log_entries m' = log_entries m @ [e]"
    by (simp add: log_entries_def List.map_filter_def)
  have "sorted_wrt (<) (dict_keys (wal m'))"
    using inv new by (auto simp: recover_inv_def w sorted_wrt_append)
  moreover have "slug \<noteq> [] \<and> snap_field sn_status (load_snapshot m') slug = Some ''active''"
    if "dict_has (active m') slug" for slug
    using inv slug(1) act that slug(2) [OF that]
    by (cases "slug = entry_slug e") (auto simp: recover_inv_def m'(2) snap_field_put)
  moreover have "sn_status d = sn_status (entry_data e) \<or>
      overlay (sn_status d) x = overlay (sn_status (entry_data e)) x"
    if "x = snap_field sn_status (load_snapshot m) (entry_slug e)" for x
    using st that by auto
  ultimately show ?thesis
    using inv slug(1) d by (auto simp: recover_inv_def l m'(2) snap_field_put field_after_snoc)
qed

lemma load_update_snapshot: "load_snapshot (update_snapshot slug d m) = put_snap slug d (load_snapshot m)"
  by (simp add: update_snapshot_def load_snapshot_def)

lemma create_run_cases:
  "(\<exists>e. create_run title p slug0 now t m = (m, Inl e)) \<or>
   (\<exists>slug st c run. slug \<noteq> [] \<and> create_run title p slug0 now t m =
      (update_snapshot slug (snap (Some st) (Some (pf_name p)) (Some ''active'') (Some (iso now)) None)
        (append_wal now (WCreate slug (pf_name p) st (iso now)) (m\<lparr>active := dict_set slug c (active m)\<rparr>)), Inr run))"
proof -
  let ?slug = "if slug0 = [] then slugify title now else slug0"
  have ne: "?slug \<noteq> []"
    by (simp add: slugify_def Let_def split: prod.split)
  show ?thesis
  proof (cases "pf_machine p = None \<or> (dict_get (active m) ?slug \<noteq> None \<and> dict_get (active m) ?slug \<noteq> Some None) \<or>
      initial_states (sm_config (the (pf_machine p))) = []")
    case True
    then have "\<exists>e. create_run title p slug0 now t m = (m, Inl e)"
      unfolding create_run_def Let_def by (cases "pf_machine p") (auto split: list.split)
    then show ?thesis by blast
  next
    case False
    then obtain sm s0 ss where "pf_machine p = Some sm" "initial_states (sm_config sm) = s0 # ss"
      "\<not> (dict_get (active m) ?slug \<noteq> None \<and> dict_get (active m) ?slug \<noteq> Some None)"
      by (auto simp: neq_Nil_conv)
    with ne show ?thesis
      unfolding create_run_def Let_def
      by (intro disjI2 exI [of _ ?slug] exI [of _ "sd_name s0"]) (simp only: option.case list.case if_False, blast)
  qed
qed

lemma update_state_logs:
  assumes "snd (update_state slug to p ov now t m) = Inr run"
  shows "\<exists>f v c. dict_has (active m) slug \<and> fst (update_state slug to p ov now t m) =
    (update_snapshot slug (snap (Some to) None (Some ''active'') (Some (iso now)) (Some v))
      (append_wal now (WTransition slug f to v (iso now)) m))\<lparr>active := dict_set slug c (active m)\<rparr>"
proof -
  from assms obtain c meta0 where c: "dict_get (active m) slug = Some c" "read_meta slug c = Inr (Some meta0)"
    "check_transition p ov meta0 (if rm_state meta0 = ''iteration'' then rm_iteration_count meta0 + 1
       else rm_iteration_count meta0) to t = Inr ()"
    by (auto simp: update_state_def Let_def simp del: if_split split: option.splits sum.splits)
  show ?thesis
    unfolding update_state_def c option.case sum.case Let_def fst_conv
    using c(1) by (simp add: dict_has_def append_wal_def update_snapshot_def) blast
qed

text \<open>A state update either fails and changes nothing, or the state machine allowed the
  transition from the recorded state, the version grew by one, and the log, the snapshot and
  the metadata file all hold the new state; no other run is touched.\<close>

theorem update_state_atomic:
  "let (m', r) = update_state slug to profile overrides now t m in
   case r of
     Inl e \<Rightarrow> m' = m
   | Inr run \<Rightarrow> \<exists>c meta0 iters. dict_get (active m) slug = Some c \<and> read_meta slug c = Inr (Some meta0) \<and>
       check_transition profile overrides meta0 iters to t = Inr () \<and>
       iters = rm_iteration_count meta0 + (if rm_state meta0 = ''iteration'' then 1 else 0) \<and>
       run_meta run = meta0\<lparr>rm_state := to, rm_version := rm_version meta0 + 1,
         rm_iteration_count := iters, rm_updated_at := iso now\<rparr> \<and>
       active m' = dict_set slug (Some (write_meta (run_meta run))) (active m) \<and>
       dict_get (wal m') (wal_stem now) =
         Some (now, Some (WTransition slug (rm_state meta0) to (rm_version meta0 + 1) (iso now))) \<and>
       (\<exists>sn. dict_get (load_snapshot m') slug = Some sn \<and> sn_state sn = Some to \<and>
          sn_version sn = Some (rm_version meta0 + 1) \<and> sn_status sn = Some ''active'') \<and>
       archive m' = archive m \<and>
       (dict_get (active m'))(slug := None) = (dict_get (active m))(slug := None) \<and>
       (dict_get (load_snapshot m'))(slug := None) = (dict_get (load_snapshot m))(slug := None)"
proof (cases "snd (update_state slug to profile overrides now t m)")
  case (Inl e)
  then show ?thesis
    using update_state_effect [of slug to profile overrides now t m] by (simp add: split_beta Let_def)
next
  case (Inr run)
  obtain f v c where l: "fst (update_state slug to profile overrides now t m) =
      (update_snapshot slug (snap (Some to) None (Some ''active'') (Some (iso now)) (Some v))
        (append_wal now (WTransition slug f to v (iso now)) m))\<lparr>active := dict_set slug c (active m)\<rparr>"
    using update_state_logs [OF Inr] by blast
  have "(dict_get (active (fst (update_state slug to profile overrides now t m))))(slug := None) = (dict_get (active m))(slug := None)"
    "(dict_get (load_snapshot (fst (update_state slug to profile overrides now t m))))(slug := None) =
     (dict_get (load_snapshot m))(slug := None)"
    by (simp_all add: l update_snapshot_def append_wal_def load_snapshot_def put_snap_def fun_eq_iff)
  then show ?thesis
    using update_state_effect [of slug to profile overrides now t m] Inr
    by (simp add: split_beta Let_def)
qed

lemma run_step_inv:
  assumes inv: "recover_inv m" and new: "\<forall>f\<in>set (dict_keys (wal m)). f < op_stem op"
  shows "recover_inv (run_step op m) \<and> set (dict_keys (wal (run_step op m))) \<subseteq> insert (op_stem op) (set (dict_keys (wal m)))"
proof -
  have keys: "fst ` set (dict_set k v w) = insert k (fst ` set w)" for k v and w :: "(string, clock \<times> wal_entry option) dict"
    using dom_update [of k v w] by simp
  show ?thesis
  proof (cases op)
    case (Create title p slug0 now t)
    from create_run_cases [of title p slug0 now t m] show ?thesis
    proof (elim disjE exE conjE)
      fix slug st c run assume ne: "slug \<noteq> []" and eq: "create_run title p slug0 now t m =
        (update_snapshot slug (snap (Some st) (Some (pf_name p)) (Some ''active'') (Some (iso now)) None)
        (append_wal now (WCreate slug (pf_name p) st (iso now)) (m\<lparr>active := dict_set slug c (active m)\<rparr>)), Inr run)"
      have "recover_inv (run_step op m)"
        by (rule recover_inv_log [OF inv new, where e = "WCreate slug (pf_name p) st (iso now)" and c = now
              and d = "(snap (Some st) (Some (pf_name p)) (Some ''active'') (Some (iso now)) None)"])
           (use ne in \<open>auto simp: Create eq append_wal_def load_update_snapshot load_snapshot_def update_snapshot_def\<close>)
      then show ?thesis by (simp add: Create eq append_wal_def update_snapshot_def keys)
    qed (use inv Create in auto)
  next
    case (Update slug to p ov now t)
    show ?thesis
    proof (cases "snd (update_state slug to p ov now t m)")
      case (Inl e)
      with update_state_effect [of slug to p ov now t m] have "run_step op m = m"
        by (simp add: Update split_beta Let_def)
      with inv show ?thesis by auto
    next
      case (Inr run)
      from update_state_logs [OF this] obtain f v c where eq: "dict_has (active m) slug"
        "fst (update_state slug to p ov now t m) = (update_snapshot slug (snap (Some to) None (Some ''active'') (Some (iso now)) (Some v))
          (append_wal now (WTransition slug f to v (iso now)) m))\<lparr>active := dict_set slug c (active m)\<rparr>"
        by metis
      have sl: "slug \<noteq> []" "snap_field sn_status (load_snapshot m) slug = Some ''active''"
        using inv eq(1) by (auto simp: recover_inv_def)
      have "recover_inv (run_step op m)"
        by (rule recover_inv_log [OF inv new, where e = "WTransition slug f to v (iso now)" and c = now
              and d = "(snap (Some to) None (Some ''active'') (Some (iso now)) (Some v))"])
           (use sl in \<open>auto simp: eq Update append_wal_def load_update_snapshot load_snapshot_def update_snapshot_def\<close>)
      then show ?thesis by (simp add: Update eq(2) append_wal_def update_snapshot_def keys)
    qed
  next
    case (Archive slug now now')
    show ?thesis
    proof (cases "dict_get (active m) slug")
      case None
      with inv Archive show ?thesis by (auto simp: archive_run_def)
    next
      case (Some c)
      then have "slug \<noteq> []" using inv by (auto simp: recover_inv_def dict_has_def)
      then have "recover_inv (run_step op m)"
        by (intro recover_inv_log [OF inv new, where e = "WArchive slug (iso now')" and c = now'
              and d = "(snap None None (Some ''archived'') (Some (iso now)) None)"])
           (auto simp: Some Archive archive_run_def append_wal_def load_update_snapshot load_snapshot_def
              update_snapshot_def Let_def)
      then show ?thesis by (simp add: Archive Some archive_run_def append_wal_def update_snapshot_def keys Let_def)
    qed
  qed
qed

lemma sort_key_sorted: "sorted_wrt (<) (map f xs) \<Longrightarrow> sort_key f xs = xs" for f :: "'a \<Rightarrow> string"
proof -
  assume "sorted_wrt (<) (map f xs)"
  then have "sorted (map f xs)" by (simp add: strict_sorted_iff)
  then show ?thesis by (rule sort_key_id_if_sorted)
qed

lemma wal_entries_inv: "recover_inv m \<Longrightarrow> wal_entries (wal m) = log_entries m"
  using sort_key_sorted [of fst "wal m"] unfolding wal_entries_def log_entries_def recover_inv_def
  by simp

lemma recover_field:
  assumes "overlaid f" and "\<forall>e\<in>set (log_entries m). entry_slug e \<noteq> []"
    and "snap_field f (load_snapshot m) slug = field_after f slug (log_entries m) None"
  shows "snap_field f (fold replay_entry (log_entries m) s) slug =
    overlay (snap_field f (load_snapshot m) slug) (snap_field f s slug)"
  unfolding assms(3) snap_field_fold [OF assms(1,2)] by (rule field_after_overlay)

lemma recover_fields:
  assumes inv: "recover_inv m"
  shows "snap_field sn_state (fold replay_entry (wal_entries (wal m)) s) slug =
      overlay (snap_field sn_state (load_snapshot m) slug) (snap_field sn_state s slug)"
    and "snap_field sn_profile (fold replay_entry (wal_entries (wal m)) s) slug =
      overlay (snap_field sn_profile (load_snapshot m) slug) (snap_field sn_profile s slug)"
    and "snap_field sn_status (fold replay_entry (wal_entries (wal m)) s) slug =
      overlay (snap_field sn_status (load_snapshot m) slug) (snap_field sn_status s slug)"
proof -
  have ne: "\<forall>e\<in>set (log_entries m). entry_slug e \<noteq> []"
    and f: "snap_field sn_state (load_snapshot m) slug = field_after sn_state slug (log_entries m) None"
      "snap_field sn_profile (load_snapshot m) slug = field_after sn_profile slug (log_entries m) None"
      "snap_field sn_status (load_snapshot m) slug = field_after sn_status slug (log_entries m) None"
    using inv unfolding recover_inv_def by blast+
  show "snap_field sn_state (fold replay_entry (wal_entries (wal m)) s) slug =
      overlay (snap_field sn_state (load_snapshot m) slug) (snap_field sn_state s slug)"
    "snap_field sn_profile (fold replay_entry (wal_entries (wal m)) s) slug =
      overlay (snap_field sn_profile (load_snapshot m) slug) (snap_field sn_profile s slug)"
    "snap_field sn_status (fold replay_entry (wal_entries (wal m)) s) slug =
      overlay (snap_field sn_status (load_snapshot m) slug) (snap_field sn_status s slug)"
    unfolding wal_entries_inv [OF inv] by (rule recover_field, simp, rule ne, rule f)+
qed

lemma run_ops_inv:
  "recover_inv m \<Longrightarrow> sorted_wrt (<) (map op_stem ops) \<Longrightarrow>
   \<forall>f\<in>set (dict_keys (wal m)). \<forall>op\<in>set ops. f < op_stem op \<Longrightarrow> recover_inv (fold run_step ops m)"
proof (induction ops arbitrary: m)
  case (Cons op ops)
  have "recover_inv (run_step op m) \<and> set (dict_keys (wal (run_step op m))) \<subseteq> insert (op_stem op) (set (dict_keys (wal m)))"
    using Cons.prems by (intro run_step_inv) auto
  moreover from this Cons.prems have "\<forall>f\<in>set (dict_keys (wal (run_step op m))). \<forall>op\<in>set ops. f < op_stem op"
    by (metis (no_types, lifting) insert_iff list.set_intros(2) list.simps(9) image_eqI set_map sorted_wrt.simps(2) subsetD)
  ultimately show ?case using Cons.IH Cons.prems(2) by simp
qed simp

lemma recover_inv_new: "recover_inv new_manager"
  by (simp add: recover_inv_def new_manager_def log_entries_def map_filter_simps load_snapshot_def snap_field_def
      field_after_def dict_has_def)

text \<open>C31: after any creates, updates and archivings, in the order of their log files, the log alone
  rebuilds the snapshot: recovery returns the same state, profile and status of every run,
  whether the snapshot file is still there or lost.\<close>

theorem recover_rebuilds:
  assumes "sorted_wrt (<) (map op_stem ops)"
  shows "let m = fold run_step ops new_manager; view = (\<lambda>s. (snap_field sn_state s slug,
      snap_field sn_profile s slug, snap_field sn_status s slug)) in
    view (snd (recover m)) = view (load_snapshot m) \<and>
    view (snd (recover (m\<lparr>snapshot_file := None\<rparr>))) = view (load_snapshot m)"
proof -
  let ?m = "fold run_step ops new_manager"
  have inv: "recover_inv ?m"
    by (rule run_ops_inv [OF recover_inv_new assms]) (simp add: new_manager_def)
  have lost: "load_snapshot (?m\<lparr>snapshot_file := None\<rparr>) = []" by (simp add: load_snapshot_def)
  show ?thesis
    using recover_fields [OF inv] by (simp add: recover_def Let_def lost snap_field_def [of _ "[]"])
qed


definition demo_ops :: "run_op list" where
  "demo_ops = [Create ''t'' demo_profile ''r'' demo_clock 0, Archive ''r'' demo_clock (demo_clock\<lparr>micro := 8\<rparr>)]"

lemma append_less_append: "xs @ ys < xs @ zs \<longleftrightarrow> ys < zs" for xs :: string
  by (induction xs) simp_all

theorem recover_rebuilds_witness:
  "snap_field sn_status (snd (recover ((fold run_step demo_ops new_manager)\<lparr>snapshot_file := None\<rparr>))) ''r'' =
   Some ''archived''"
proof -
  have "pad 6 7 < pad 6 8" by (simp add: pad_def show_nat.simps append_less_append less_char_def)
  then have sorted: "sorted_wrt (<) (map op_stem demo_ops)"
    by (simp add: demo_ops_def wal_stem_def stamp_def append_less_append demo_clock_def)
  have "map sd_name (initial_states demo_config) = [''start'']" by code_simp
  then obtain s0 where "initial_states demo_config = [s0]" by auto
  then have "snap_field sn_status (load_snapshot (fold run_step demo_ops new_manager)) ''r'' = Some ''archived''"
    by (simp add: demo_ops_def create_run_def archive_run_def demo_profile_def demo_machine_def new_manager_def
        append_wal_def update_snapshot_def load_snapshot_def put_snap_def snap_field_def snap_update_def Let_def)
  with recover_rebuilds [OF sorted, of "''r''"] show ?thesis by (simp only: Let_def prod.inject)
qed


subsection \<open>The log is not compacted\<close>

lemma pad_not_Nil: "pad w n \<noteq> []"
  using show_nat_not_Nil by (simp add: pad_def Let_def)

lemma digit_above_dash: "is_digit c \<Longrightarrow> CHR ''-'' < c"
  by (simp add: is_digit_def less_char_def Let_def)

lemma same_year_not_older:
  assumes "year c = year c'" and "length (pad 4 (year c')) \<le> 18"
  shows "\<not> older_than_snapshot (iso c') c"
proof -
  let ?y = "pad 4 (year c')"
  obtain d ds where d: "pad 2 (month c) = d # ds" using pad_not_Nil by (cases "pad 2 (month c)") auto
  then have "is_digit d" using pad_digits [of 2 "month c"] by simp
  then have lt: "CHR ''-'' < d" by (rule digit_above_dash)
  obtain rest where "iso c' = ?y @ CHR ''-'' # rest" by (simp add: iso_def)
  then have "take 19 (iso c') = ?y @ CHR ''-'' # take (18 - length ?y) rest"
    using assms(2) by (simp add: take_Cons')
  moreover obtain rest' where "fst (stamp c) @ ''T'' @ fst (snd (stamp c)) = ?y @ d # rest'"
    using d assms(1) by (simp add: stamp_def)
  ultimately show ?thesis
    using lt by (simp add: older_than_snapshot_def split_beta append_less_append)
qed

lemma fold_max_mem: "fold max xs x \<in> insert x (set xs)" for x :: string
  by (induction xs arbitrary: x) (auto simp: max_def)

text \<open>The compaction of the log never removes a file of the current year: it compares the
  date of a file name, which has no dashes, with an ISO date, and a digit sorts after a dash.\<close>

theorem wal_not_compacted:
  assumes "\<forall>(f, c, e)\<in>set (wal m). year c = y" and "y < 10000"
    and "\<forall>r\<in>set (dict_values s). \<exists>c. sn_updated_at r = Some (iso c) \<and> year c = y"
  shows "compact_wal s m = m"
proof (cases "dict_values s")
  case (Cons r rs)
  let ?ts = "\<lambda>r. case sn_updated_at r of None \<Rightarrow> [] | Some ts \<Rightarrow> ts"
  have "length (show_nat n) \<le> 4" if "n < 10000" for n
    using that by (simp add: show_nat.simps [of n] show_nat.simps [of "n div 10"] show_nat.simps [of "n div 10 div 10"]
        show_nat.simps [of "n div 10 div 10 div 10"])
  then have y: "length (pad 4 y) \<le> 18" using assms(2) by (simp add: pad_def Let_def)
  have "fold max (map ?ts rs) (?ts r) \<in> ?ts ` set (dict_values s)"
    using fold_max_mem [of "map ?ts rs" "?ts r"] by (auto simp: Cons)
  then obtain r' where r': "r' \<in> set (dict_values s)" "fold max (map ?ts rs) (?ts r) = ?ts r'" by blast
  with assms(3) obtain c' where c': "fold max (map ?ts rs) (?ts r) = iso c'" "year c' = y" by fastforce
  have "\<not> older_than_snapshot (iso c') c" if "(f, c, e) \<in> set (wal m)" for f c e
    using that assms(1) c'(2) y by (intro same_year_not_older) auto
  then have "filter (\<lambda>(f, c, e). \<not> older_than_snapshot (iso c') c) (wal m) = wal m"
    by (auto intro!: filter_True)
  with Cons c'(1) show ?thesis by (simp add: compact_wal_def)
qed (simp add: compact_wal_def)

theorem wal_not_compacted_witness:
  "let m = fold run_step [Create ''t'' demo_profile ''r'' demo_clock 0] new_manager in
   length (wal m) = 1 \<and>
   compact_wal [(''r'', empty_snap\<lparr>sn_updated_at := Some (iso (demo_clock\<lparr>month := 12\<rparr>))\<rparr>)] m = m"
proof -
  let ?m = "fold run_step [Create ''t'' demo_profile ''r'' demo_clock 0] new_manager"
  have "map sd_name (initial_states demo_config) = [''start'']" by code_simp
  then obtain s0 where s0: "initial_states demo_config = [s0]" by auto
  have w: "wal ?m = [(wal_stem demo_clock, demo_clock, Some (WCreate ''r'' ''demo'' (sd_name s0) (iso demo_clock)))]"
    by (simp add: create_run_def demo_profile_def demo_machine_def new_manager_def
        append_wal_def update_snapshot_def s0 Let_def)
  have "compact_wal [(''r'', empty_snap\<lparr>sn_updated_at := Some (iso (demo_clock\<lparr>month := 12\<rparr>))\<rparr>)] ?m = ?m"
  proof (rule wal_not_compacted [where y = 2026])
    show "\<forall>(f, c, e)\<in>set (wal ?m). year c = 2026" unfolding w by (simp add: demo_clock_def)
  qed (auto simp: empty_snap_def demo_clock_def intro: exI [of _ "demo_clock\<lparr>month := 12\<rparr>"])
  with w show ?thesis by (simp only: Let_def) simp
qed

end
