(* ===== verification/Task_Queue.thy ===== *)
theory Task_Queue
  imports Systems "HOL-Library.Product_Lexorder" "HOL-Library.Multiset"
begin

text \<open>
  The priority queue of the agent runtime with its write-ahead log
  (\<open>engine/agent_runtime/task_queue.py\<close>). A heap of \<open>heapq\<close> is the sorted list of its entries:
  the entries are totally ordered, so what it pops does not depend on its layout. The log is
  the list of its lines, \<^const>\<open>None\<close> for a line that is no JSON object of the expected form.
  Contexts and results are dicts of strings, which JSON can always encode; a value that it cannot encode loses
  the line of the log in the code, which only reports the error.
  The clocks are arguments; failures of the file system are not modelled.
\<close>

subsection \<open>Tasks and heap entries\<close>

datatype TaskStatus = QUEUED | ASSIGNED | RUNNING | COMPLETED | FAILED | CANCELLED | TIMEOUT

datatype PrioritizedTask =
  PrioritizedTask (pt_priority: int) (pt_timestamp: seconds) (pt_task_id: string)

instantiation PrioritizedTask :: linorder
begin

definition less_eq_PrioritizedTask :: "PrioritizedTask \<Rightarrow> PrioritizedTask \<Rightarrow> bool" where
  "less_eq_PrioritizedTask a b \<longleftrightarrow> pt_priority a < pt_priority b \<or>
     (pt_priority a = pt_priority b \<and> (pt_timestamp a < pt_timestamp b \<or>
       (pt_timestamp a = pt_timestamp b \<and> pt_task_id a \<le> pt_task_id b)))"

definition less_PrioritizedTask :: "PrioritizedTask \<Rightarrow> PrioritizedTask \<Rightarrow> bool" where
  "less_PrioritizedTask a b \<longleftrightarrow> pt_priority a < pt_priority b \<or>
     (pt_priority a = pt_priority b \<and> (pt_timestamp a < pt_timestamp b \<or>
       (pt_timestamp a = pt_timestamp b \<and> pt_task_id a < pt_task_id b)))"

instance
  by intro_classes
    (auto simp: less_eq_PrioritizedTask_def less_PrioritizedTask_def intro: PrioritizedTask.expand)

end

record Task =
  task_id :: string
  goal :: string
  task_priority :: int
  affinity :: string
  task_context :: "(string, string) dict"
  tools :: "string list"
  max_steps :: int
  task_status :: TaskStatus
  assigned_node :: string
  created_at :: datetime
  assigned_at :: "datetime option"
  completed_at :: "datetime option"
  task_result :: "(string, string) dict"
  task_error :: "string option"
  parent_task :: string
  subtasks :: "string list"
  max_retries :: int
  retry_count :: int

definition is_terminal :: "Task \<Rightarrow> bool" where
  "is_terminal t \<longleftrightarrow> task_status t \<in> {COMPLETED, FAILED, CANCELLED, TIMEOUT}"

definition new_task :: "string \<Rightarrow> string \<Rightarrow> int \<Rightarrow> string \<Rightarrow> datetime \<Rightarrow> Task" where
  "new_task tid g p aff now = \<lparr>task_id = tid, goal = g, task_priority = p, affinity = aff,
     task_context = [], tools = [], max_steps = 20, task_status = QUEUED, assigned_node = '''',
     created_at = now, assigned_at = None, completed_at = None, task_result = [],
     task_error = None, parent_task = '''', subtasks = [], max_retries = 3, retry_count = 0\<rparr>"

text \<open>
  The data of an \<open>enqueue\<close> line; the keys that some writer omits are optional. The keys
  \<open>status\<close>, \<open>assigned_node\<close>, \<open>created_at\<close> and \<open>subtasks\<close>, which the replay would accept, are
  written by none.
\<close>

record enqueue_data =
  eq_task_id :: string
  eq_goal :: string
  eq_priority :: int
  eq_affinity :: string
  eq_context :: "(string, string) dict option"
  eq_tools :: "string list option"
  eq_max_steps :: "int option"
  eq_max_retries :: "int option"
  eq_retry_count :: "int option"
  eq_parent_task :: "string option"
  eq_timestamp :: "seconds option"

datatype task_wal =
    WEnqueue enqueue_data
  | WAck string string
  | WComplete string "(string, string) dict" datetime
  | WFail string string datetime
  | WCancel string

record TaskQueue =
  heap :: "PrioritizedTask list"
  tasks :: "(string, Task) dict"
  queued_ids :: "string set"
  active_ids :: "string set"
  completed_ids :: "string set"
  wal :: "task_wal option list"
  wal_open :: bool

definition empty_queue :: "task_wal option list \<Rightarrow> TaskQueue" where
  "empty_queue w = \<lparr>heap = [], tasks = [], queued_ids = {}, active_ids = {}, completed_ids = {},
     wal = w, wal_open = True\<rparr>"

definition heappush :: "PrioritizedTask \<Rightarrow> PrioritizedTask list \<Rightarrow> PrioritizedTask list" where
  "heappush e h = insort e h"

definition put_task :: "Task \<Rightarrow> TaskQueue \<Rightarrow> TaskQueue" where
  "put_task t q = q\<lparr>tasks := dict_set (task_id t) t (tasks q)\<rparr>"

definition write_wal :: "task_wal \<Rightarrow> TaskQueue \<Rightarrow> TaskQueue" where
  "write_wal e q = (if wal_open q then q\<lparr>wal := wal q @ [Some e]\<rparr> else q)"

subsection \<open>Operations\<close>

definition enqueue_entry :: "Task \<Rightarrow> seconds \<Rightarrow> enqueue_data" where
  "enqueue_entry t clk = \<lparr>eq_task_id = task_id t, eq_goal = goal t, eq_priority = task_priority t,
     eq_affinity = affinity t, eq_context = Some (task_context t), eq_tools = Some (tools t),
     eq_max_steps = Some (max_steps t), eq_max_retries = Some (max_retries t),
     eq_retry_count = None, eq_parent_task = Some (parent_task t), eq_timestamp = Some clk\<rparr>"

text \<open>\<open>fresh\<close> is the generated id, used when the task has none.\<close>

definition enqueue :: "string \<Rightarrow> datetime \<Rightarrow> seconds \<Rightarrow> Task \<Rightarrow> TaskQueue \<Rightarrow> TaskQueue \<times> string" where
  "enqueue fresh now clk t q =
     (let tid = (if task_id t = '''' then ''task-'' @ fresh else task_id t);
          t = t\<lparr>task_id := tid, task_status := QUEUED, created_at := now\<rparr>;
          q = put_task t q;
          q = q\<lparr>heap := heappush (PrioritizedTask (task_priority t) clk tid) (heap q),
                queued_ids := insert tid (queued_ids q)\<rparr>
      in (write_wal (WEnqueue (enqueue_entry t clk)) q, tid))"

fun enqueue_batch :: "(string \<times> datetime \<times> seconds \<times> Task) list \<Rightarrow> TaskQueue \<Rightarrow> TaskQueue \<times> string list" where
  "enqueue_batch [] q = (q, [])"
| "enqueue_batch ((fresh, now, clk, t) # ts) q =
     (let (q1, tid) = enqueue fresh now clk t q; (q2, tids) = enqueue_batch ts q1 in (q2, tid # tids))"

text \<open>
  The loop of \<open>dequeue\<close>: the rest of the heap, the entries set aside and the task found.
\<close>

definition for_other_node :: "string \<Rightarrow> Task \<Rightarrow> bool" where
  "for_other_node aff t \<longleftrightarrow> aff \<noteq> '''' \<and> affinity t \<noteq> '''' \<and> affinity t \<noteq> aff"

fun dequeue_loop :: "(string, Task) dict \<Rightarrow> string \<Rightarrow> PrioritizedTask list
    \<Rightarrow> PrioritizedTask list \<times> PrioritizedTask list \<times> Task option" where
  "dequeue_loop ts aff [] = ([], [], None)"
| "dequeue_loop ts aff (e # h) =
     (case dict_get ts (pt_task_id e) of
        None \<Rightarrow> dequeue_loop ts aff h
      | Some t \<Rightarrow>
          if task_status t \<noteq> QUEUED then dequeue_loop ts aff h
          else if for_other_node aff t then
            (let (rest, remaining, c) = dequeue_loop ts aff h in (rest, e # remaining, c))
          else (h, [], Some t))"

definition dequeue :: "string \<Rightarrow> TaskQueue \<Rightarrow> TaskQueue \<times> Task option" where
  "dequeue aff q =
     (let (rest, remaining, c) = dequeue_loop (tasks q) aff (heap q)
      in (q\<lparr>heap := fold heappush remaining rest\<rparr>, c))"

definition peek :: "nat \<Rightarrow> TaskQueue \<Rightarrow> Task list" where
  "peek n q =
     List.map_filter (\<lambda>e. case dict_get (tasks q) (pt_task_id e) of
        None \<Rightarrow> None | Some t \<Rightarrow> if task_status t = QUEUED then Some t else None)
       (take n (heap q))"

definition acknowledge :: "string \<Rightarrow> string \<Rightarrow> datetime \<Rightarrow> TaskQueue \<Rightarrow> TaskQueue \<times> bool" where
  "acknowledge tid node now q =
     (case dict_get (tasks q) tid of
        None \<Rightarrow> (q, False)
      | Some t \<Rightarrow>
          let t = t\<lparr>task_status := ASSIGNED, assigned_node := node, assigned_at := Some now\<rparr>;
              q = q\<lparr>tasks := dict_set tid t (tasks q), queued_ids := queued_ids q - {tid},
                    active_ids := insert tid (active_ids q)\<rparr>
          in (write_wal (WAck tid node) q, True))"

definition complete :: "string \<Rightarrow> (string, string) dict \<Rightarrow> datetime \<Rightarrow> TaskQueue \<Rightarrow> TaskQueue \<times> bool" where
  "complete tid res now q =
     (case dict_get (tasks q) tid of
        None \<Rightarrow> (q, False)
      | Some t \<Rightarrow>
          let t = t\<lparr>task_status := COMPLETED, task_result := res, completed_at := Some now\<rparr>;
              q = q\<lparr>tasks := dict_set tid t (tasks q), active_ids := active_ids q - {tid},
                    completed_ids := insert tid (completed_ids q)\<rparr>
          in (write_wal (WComplete tid res now) q, True))"

text \<open>The line that a retry writes leaves out all but four of the task's fields.\<close>

definition retry_entry :: "Task \<Rightarrow> seconds \<Rightarrow> enqueue_data" where
  "retry_entry t clk = \<lparr>eq_task_id = task_id t, eq_goal = goal t, eq_priority = task_priority t,
     eq_affinity = affinity t, eq_context = None, eq_tools = None, eq_max_steps = None,
     eq_max_retries = None, eq_retry_count = None, eq_parent_task = None, eq_timestamp = Some clk\<rparr>"

definition fail :: "string \<Rightarrow> string \<Rightarrow> bool \<Rightarrow> datetime \<Rightarrow> seconds \<Rightarrow> TaskQueue \<Rightarrow> TaskQueue \<times> bool" where
  "fail tid err retry now clk q =
     (case dict_get (tasks q) tid of
        None \<Rightarrow> (q, False)
      | Some t \<Rightarrow>
          if retry \<and> retry_count t < max_retries t then
            let t = t\<lparr>retry_count := retry_count t + 1, task_status := QUEUED,
                      assigned_node := '''', assigned_at := None\<rparr>;
                q = q\<lparr>tasks := dict_set tid t (tasks q), active_ids := active_ids q - {tid},
                      queued_ids := insert tid (queued_ids q),
                      heap := heappush (PrioritizedTask (task_priority t) clk tid) (heap q)\<rparr>
            in (write_wal (WEnqueue ((retry_entry t clk)\<lparr>eq_task_id := tid\<rparr>)) q, True)
          else
            let t = t\<lparr>task_status := FAILED, task_error := Some err, completed_at := Some now\<rparr>;
                q = q\<lparr>tasks := dict_set tid t (tasks q), active_ids := active_ids q - {tid},
                      completed_ids := insert tid (completed_ids q)\<rparr>
            in (write_wal (WFail tid err now) q, True))"

definition cancel :: "string \<Rightarrow> TaskQueue \<Rightarrow> TaskQueue \<times> bool" where
  "cancel tid q =
     (case dict_get (tasks q) tid of
        None \<Rightarrow> (q, False)
      | Some t \<Rightarrow>
          let q = q\<lparr>tasks := dict_set tid (t\<lparr>task_status := CANCELLED\<rparr>) (tasks q),
                    queued_ids := queued_ids q - {tid}, active_ids := active_ids q - {tid},
                    completed_ids := insert tid (completed_ids q)\<rparr>
          in (write_wal (WCancel tid) q, True))"

definition to_cancel :: "TaskStatus option \<Rightarrow> Task \<Rightarrow> bool" where
  "to_cancel flt t \<longleftrightarrow> (case flt of None \<Rightarrow> True | Some st \<Rightarrow> task_status t = st) \<and> \<not> is_terminal t"

definition cancel_all :: "TaskStatus option \<Rightarrow> TaskQueue \<Rightarrow> TaskQueue \<times> nat" where
  "cancel_all flt q =
     (let ids = map fst (filter (\<lambda>(tid, t). to_cancel flt t) (tasks q))
      in (fold (\<lambda>tid q. fst (cancel tid q)) ids q, length ids))"

definition list_tasks :: "TaskStatus option \<Rightarrow> nat \<Rightarrow> TaskQueue \<Rightarrow> Task list" where
  "list_tasks st limit q =
     take limit (sort_key (\<lambda>t. (task_priority t, created_at t))
       (filter (\<lambda>t. case st of None \<Rightarrow> True | Some s \<Rightarrow> task_status t = s) (dict_values (tasks q))))"

definition list_active :: "TaskQueue \<Rightarrow> Task list" where
  "list_active = list_tasks (Some RUNNING) 50"

definition queue_depth :: "TaskQueue \<Rightarrow> nat" where
  "queue_depth q = card (queued_ids q)"

subsection \<open>Recovery and compaction\<close>

definition restored_task :: "enqueue_data \<Rightarrow> datetime \<Rightarrow> Task" where
  "restored_task d now =
     (let t = new_task (eq_task_id d) (eq_goal d) (eq_priority d) (eq_affinity d) now
      in t\<lparr>task_context := (case eq_context d of None \<Rightarrow> task_context t | Some c \<Rightarrow> c),
           tools := (case eq_tools d of None \<Rightarrow> tools t | Some ts \<Rightarrow> ts),
           max_steps := (case eq_max_steps d of None \<Rightarrow> max_steps t | Some n \<Rightarrow> n),
           parent_task := (case eq_parent_task d of None \<Rightarrow> parent_task t | Some p \<Rightarrow> p),
           max_retries := (case eq_max_retries d of None \<Rightarrow> max_retries t | Some n \<Rightarrow> n),
           retry_count := (case eq_retry_count d of None \<Rightarrow> retry_count t | Some n \<Rightarrow> n)\<rparr>)"

text \<open>One line of the log; \<open>now\<close> and \<open>clk\<close> are the clocks when it is read.\<close>

fun replay_entry :: "datetime \<Rightarrow> seconds \<Rightarrow> task_wal option \<Rightarrow> TaskQueue \<Rightarrow> TaskQueue" where
  "replay_entry now clk None q = q"
| "replay_entry now clk (Some (WEnqueue d)) q =
     (let t = restored_task d now; q = put_task t q
      in q\<lparr>heap := heappush (PrioritizedTask (eq_priority d)
              (case eq_timestamp d of None \<Rightarrow> clk | Some ts \<Rightarrow> ts) (task_id t)) (heap q),
           queued_ids := insert (task_id t) (queued_ids q)\<rparr>)"
| "replay_entry now clk (Some (WAck tid node)) q =
     (case dict_get (tasks q) tid of
        None \<Rightarrow> q
      | Some t \<Rightarrow> q\<lparr>tasks := dict_set tid (t\<lparr>task_status := ASSIGNED, assigned_node := node\<rparr>) (tasks q),
                   queued_ids := queued_ids q - {tid}, active_ids := insert tid (active_ids q)\<rparr>)"
| "replay_entry now clk (Some (WComplete tid res fin)) q =
     (case dict_get (tasks q) tid of
        None \<Rightarrow> q
      | Some t \<Rightarrow> q\<lparr>tasks := dict_set tid
                      (t\<lparr>task_status := COMPLETED, task_result := res, completed_at := Some fin\<rparr>) (tasks q),
                   queued_ids := queued_ids q - {tid}, active_ids := active_ids q - {tid},
                   completed_ids := insert tid (completed_ids q)\<rparr>)"
| "replay_entry now clk (Some (WFail tid err fin)) q =
     (case dict_get (tasks q) tid of
        None \<Rightarrow> q
      | Some t \<Rightarrow> q\<lparr>tasks := dict_set tid
                      (t\<lparr>task_status := FAILED, task_error := Some err, completed_at := Some fin\<rparr>) (tasks q),
                   queued_ids := queued_ids q - {tid}, active_ids := active_ids q - {tid},
                   completed_ids := insert tid (completed_ids q)\<rparr>)"
| "replay_entry now clk (Some (WCancel tid)) q =
     (case dict_get (tasks q) tid of
        None \<Rightarrow> q
      | Some t \<Rightarrow> q\<lparr>tasks := dict_set tid (t\<lparr>task_status := CANCELLED\<rparr>) (tasks q),
                   queued_ids := queued_ids q - {tid}, active_ids := active_ids q - {tid},
                   completed_ids := insert tid (completed_ids q)\<rparr>)"

fun replay_lines :: "(nat \<Rightarrow> datetime) \<Rightarrow> (nat \<Rightarrow> seconds) \<Rightarrow> nat \<Rightarrow> task_wal option list
    \<Rightarrow> TaskQueue \<Rightarrow> TaskQueue" where
  "replay_lines now clk n [] q = q"
| "replay_lines now clk n (l # ls) q =
     replay_lines now clk (Suc n) ls (replay_entry (now n) (clk n) l q)"

text \<open>
  A queue started on a log: \<open>_init_wal\<close> replays it, reading the clocks \<open>now n\<close> and \<open>clk n\<close> at
  line \<open>n\<close>, and opens it for appending.
\<close>

definition init_queue :: "(nat \<Rightarrow> datetime) \<Rightarrow> (nat \<Rightarrow> seconds) \<Rightarrow> task_wal option list \<Rightarrow> TaskQueue" where
  "init_queue now clk w = replay_lines now clk 0 w (empty_queue w)"

definition compact_entry :: "Task \<Rightarrow> enqueue_data" where
  "compact_entry t = \<lparr>eq_task_id = task_id t, eq_goal = goal t, eq_priority = task_priority t,
     eq_affinity = affinity t, eq_context = Some (task_context t), eq_tools = Some (tools t),
     eq_max_steps = Some (max_steps t), eq_max_retries = Some (max_retries t),
     eq_retry_count = Some (retry_count t), eq_parent_task = Some (parent_task t),
     eq_timestamp = None\<rparr>"

definition unfinished :: "Task \<Rightarrow> bool" where
  "unfinished t \<longleftrightarrow> task_status t \<in> {QUEUED, ASSIGNED, RUNNING}"

definition compact_wal :: "TaskQueue \<Rightarrow> TaskQueue" where
  "compact_wal q = q\<lparr>wal := map (\<lambda>t. Some (WEnqueue (compact_entry t)))
     (filter unfinished (dict_values (tasks q)))\<rparr>"

definition close :: "TaskQueue \<Rightarrow> TaskQueue" where
  "close q = compact_wal (q\<lparr>wal_open := False\<rparr>)"

subsection \<open>The operations a client calls\<close>

datatype queue_op =
    Enqueue string datetime seconds Task
  | Dequeue string
  | Acknowledge string string datetime
  | Complete string "(string, string) dict" datetime
  | Fail string string bool datetime seconds
  | Cancel string
  | CancelAll "TaskStatus option"
  | Restart "nat \<Rightarrow> datetime" "nat \<Rightarrow> seconds"

fun queue_step :: "queue_op \<Rightarrow> TaskQueue \<Rightarrow> TaskQueue" where
  "queue_step (Enqueue fresh now clk t) q = fst (enqueue fresh now clk t q)"
| "queue_step (Dequeue aff) q = fst (dequeue aff q)"
| "queue_step (Acknowledge tid node now) q = fst (acknowledge tid node now q)"
| "queue_step (Complete tid res now) q = fst (complete tid res now q)"
| "queue_step (Fail tid err retry now clk) q = fst (fail tid err retry now clk q)"
| "queue_step (Cancel tid) q = fst (cancel tid q)"
| "queue_step (CancelAll flt) q = fst (cancel_all flt q)"
| "queue_step (Restart now clk) q = init_queue now clk (wal q)"

lemma sorted_heappush [simp]: "sorted h \<Longrightarrow> sorted (heappush e h)"
  by (simp add: heappush_def sorted_insort)

lemma sorted_heappush_fold [simp]: "sorted h \<Longrightarrow> sorted (fold heappush es h)"
  by (induction es arbitrary: h) simp_all

lemma set_heappush [simp]: "set (heappush e h) = insert e (set h)"
  by (simp add: heappush_def set_insort_key)

lemma set_heappush_fold [simp]: "set (fold heappush es h) = set es \<union> set h"
  by (induction es arbitrary: h) auto

lemma mset_heappush [simp]: "mset (heappush e h) = add_mset e (mset h)"
  by (simp add: heappush_def)

lemma mset_heappush_fold [simp]: "mset (fold heappush es h) = mset es + mset h"
  by (induction es arbitrary: h) auto

lemmas queue_defs = enqueue_def acknowledge_def complete_def fail_def cancel_def write_wal_def
  put_task_def Let_def

subsection \<open>What every operation keeps\<close>

text \<open>
  The heap is ordered, the dict is keyed by the ids, the id sets cover the statuses, and no
  task is ever running or timed out.
\<close>

definition covers :: "(string, Task) dict \<Rightarrow> TaskStatus set \<Rightarrow> string set \<Rightarrow> bool" where
  "covers ts sts ids \<longleftrightarrow> (\<forall>k t. dict_get ts k = Some t \<longrightarrow> task_status t \<in> sts \<longrightarrow> k \<in> ids)"

definition keyed :: "(string, Task) dict \<Rightarrow> bool" where
  "keyed ts \<longleftrightarrow> (\<forall>k t. dict_get ts k = Some t \<longrightarrow> task_id t = k \<and>
     task_status t \<in> {QUEUED, ASSIGNED, COMPLETED, FAILED, CANCELLED})"

definition queue_inv :: "TaskQueue \<Rightarrow> bool" where
  "queue_inv q \<longleftrightarrow> sorted (heap q) \<and> dict_wf (tasks q) \<and> keyed (tasks q) \<and>
     covers (tasks q) {QUEUED} (queued_ids q) \<and> covers (tasks q) {ASSIGNED} (active_ids q) \<and>
     covers (tasks q) {COMPLETED, FAILED, CANCELLED} (completed_ids q)"

lemma covers_set:
  "covers ts sts ids \<Longrightarrow> task_status t \<in> sts \<longrightarrow> k \<in> ids' \<Longrightarrow> ids - {k} \<subseteq> ids' \<Longrightarrow>
     covers (dict_set k t ts) sts ids'"
  by (fastforce simp: covers_def split: if_splits)

lemma keyed_set:
  "keyed ts \<Longrightarrow> task_id t = k \<Longrightarrow> task_status t \<in> {QUEUED, ASSIGNED, COMPLETED, FAILED, CANCELLED} \<Longrightarrow>
     keyed (dict_set k t ts)"
  by (simp add: keyed_def)

lemma keyed_get: "keyed ts \<Longrightarrow> dict_get ts k = Some t \<Longrightarrow> task_id t = k"
  unfolding keyed_def by blast

lemma queue_inv_put:
  assumes "queue_inv q" "tasks q' = dict_set k t (tasks q)" "sorted (heap q')" "task_id t = k"
    and "task_status t \<in> {QUEUED, ASSIGNED, COMPLETED, FAILED, CANCELLED}"
    and "task_status t = QUEUED \<longrightarrow> k \<in> queued_ids q'" "queued_ids q - {k} \<subseteq> queued_ids q'"
    and "task_status t = ASSIGNED \<longrightarrow> k \<in> active_ids q'" "active_ids q - {k} \<subseteq> active_ids q'"
    and "task_status t \<in> {COMPLETED, FAILED, CANCELLED} \<longrightarrow> k \<in> completed_ids q'"
    and "completed_ids q - {k} \<subseteq> completed_ids q'"
  shows "queue_inv q'"
proof -
  have inv: "dict_wf (tasks q)" "keyed (tasks q)" "covers (tasks q) {QUEUED} (queued_ids q)"
    "covers (tasks q) {ASSIGNED} (active_ids q)"
    "covers (tasks q) {COMPLETED, FAILED, CANCELLED} (completed_ids q)"
    using assms(1) unfolding queue_inv_def by blast+
  have "covers (tasks q') {QUEUED} (queued_ids q')" unfolding assms(2)
    by (rule covers_set [OF inv(3)]) (use assms(6,7) in blast)+
  moreover have "covers (tasks q') {ASSIGNED} (active_ids q')" unfolding assms(2)
    by (rule covers_set [OF inv(4)]) (use assms(8,9) in blast)+
  moreover have "covers (tasks q') {COMPLETED, FAILED, CANCELLED} (completed_ids q')"
    unfolding assms(2) by (rule covers_set [OF inv(5)]) (use assms(10,11) in blast)+
  moreover have "keyed (tasks q')"
    unfolding assms(2) by (rule keyed_set [OF inv(2) assms(4,5)])
  ultimately show ?thesis
    using inv(1) assms(2,3) by (simp add: queue_inv_def)
qed

lemma queue_inv_wal [simp]: "queue_inv (q\<lparr>wal := w\<rparr>) = queue_inv q"
  "queue_inv (q\<lparr>wal_open := b\<rparr>) = queue_inv q"
  by (simp_all add: queue_inv_def)

lemma queue_inv_sorted: "queue_inv q \<Longrightarrow> sorted (heap q)"
  by (simp add: queue_inv_def)

lemma queue_inv_id: "queue_inv q \<Longrightarrow> dict_get (tasks q) k = Some t \<Longrightarrow> task_id t = k"
  unfolding queue_inv_def by (blast dest: keyed_get)

lemma enqueue_inv: "queue_inv q \<Longrightarrow> queue_inv (fst (enqueue fresh now clk t q))"
  by (rule queue_inv_put [where q = q and k = "snd (enqueue fresh now clk t q)"
      and t = "t\<lparr>task_id := snd (enqueue fresh now clk t q), task_status := QUEUED, created_at := now\<rparr>"])
    (auto simp: queue_defs queue_inv_sorted)

lemma acknowledge_inv: "queue_inv q \<Longrightarrow> queue_inv (fst (acknowledge tid node now q))"
proof (cases "dict_get (tasks q) tid")
  case (Some t)
  assume "queue_inv q"
  with Some show ?thesis
    by - (rule queue_inv_put [where q = q and k = tid
          and t = "t\<lparr>task_status := ASSIGNED, assigned_node := node, assigned_at := Some now\<rparr>"],
      auto simp: queue_defs queue_inv_sorted dest: queue_inv_id)
qed (simp add: acknowledge_def)

lemma complete_inv: "queue_inv q \<Longrightarrow> queue_inv (fst (complete tid res now q))"
proof (cases "dict_get (tasks q) tid")
  case (Some t)
  assume "queue_inv q"
  with Some show ?thesis
    by - (rule queue_inv_put [where q = q and k = tid
          and t = "t\<lparr>task_status := COMPLETED, task_result := res, completed_at := Some now\<rparr>"],
      auto simp: queue_defs queue_inv_sorted dest: queue_inv_id)
qed (simp add: complete_def)

lemma cancel_inv: "queue_inv q \<Longrightarrow> queue_inv (fst (cancel tid q))"
proof (cases "dict_get (tasks q) tid")
  case (Some t)
  assume "queue_inv q"
  with Some show ?thesis
    by - (rule queue_inv_put [where q = q and k = tid and t = "t\<lparr>task_status := CANCELLED\<rparr>"],
      auto simp: queue_defs queue_inv_sorted dest: queue_inv_id)
qed (simp add: cancel_def)

lemma fail_inv: "queue_inv q \<Longrightarrow> queue_inv (fst (fail tid err retry now clk q))"
proof (cases "dict_get (tasks q) tid")
  case (Some t)
  assume q: "queue_inv q"
  show ?thesis
  proof (cases "retry \<and> retry_count t < max_retries t")
    case True
    with Some q show ?thesis
      by - (rule queue_inv_put [where q = q and k = tid
            and t = "t\<lparr>retry_count := retry_count t + 1, task_status := QUEUED,
                      assigned_node := '''', assigned_at := None\<rparr>"],
        auto simp: queue_defs queue_inv_sorted dest: queue_inv_id)
  next
    case False
    with Some q show ?thesis
      by - (rule queue_inv_put [where q = q and k = tid
            and t = "t\<lparr>task_status := FAILED, task_error := Some err, completed_at := Some now\<rparr>"],
        auto simp: queue_defs queue_inv_sorted dest: queue_inv_id)
  qed
qed (simp add: fail_def)

lemma cancel_all_inv: "queue_inv q \<Longrightarrow> queue_inv (fst (cancel_all flt q))"
proof -
  have "queue_inv q \<Longrightarrow> queue_inv (fold (\<lambda>tid q. fst (cancel tid q)) ids q)" for ids
    by (induction ids arbitrary: q) (simp_all add: cancel_inv)
  then show "queue_inv q \<Longrightarrow> ?thesis" by (simp add: cancel_all_def)
qed

lemma dequeue_loop_sorted:
  "dequeue_loop ts aff h = (rest, remaining, c) \<Longrightarrow> sorted h \<Longrightarrow> sorted rest"
  by (induction ts aff h arbitrary: rest remaining c rule: dequeue_loop.induct)
    (auto split: option.splits if_splits prod.splits)

lemma dequeue_inv: "queue_inv q \<Longrightarrow> queue_inv (fst (dequeue aff q))"
  by (auto simp: queue_inv_def dequeue_def dest: dequeue_loop_sorted split: prod.split)

lemma replay_entry_inv: "queue_inv q \<Longrightarrow> queue_inv (replay_entry now clk l q)"
proof (induction now clk l q rule: replay_entry.induct)
  case (2 now clk d q)
  then show ?case
    by - (rule queue_inv_put [where q = q and k = "eq_task_id d" and t = "restored_task d now"],
      auto simp: queue_inv_sorted restored_task_def new_task_def Let_def put_task_def)
next
  case (3 now clk tid node q)
  then show ?case
    by (cases "dict_get (tasks q) tid"; simp)
      (rule queue_inv_put [where q = q and k = tid], auto simp: queue_inv_sorted dest: queue_inv_id)
next
  case (4 now clk tid res fin q)
  then show ?case
    by (cases "dict_get (tasks q) tid"; simp)
      (rule queue_inv_put [where q = q and k = tid], auto simp: queue_inv_sorted dest: queue_inv_id)
next
  case (5 now clk tid err fin q)
  then show ?case
    by (cases "dict_get (tasks q) tid"; simp)
      (rule queue_inv_put [where q = q and k = tid], auto simp: queue_inv_sorted dest: queue_inv_id)
next
  case (6 now clk tid q)
  then show ?case
    by (cases "dict_get (tasks q) tid"; simp)
      (rule queue_inv_put [where q = q and k = tid], auto simp: queue_inv_sorted dest: queue_inv_id)
qed simp

lemma queue_inv_empty [simp]: "queue_inv (empty_queue w)"
  by (simp add: queue_inv_def empty_queue_def keyed_def covers_def)

lemma replay_lines_inv: "queue_inv q \<Longrightarrow> queue_inv (replay_lines now clk n ls q)"
  by (induction ls arbitrary: n q) (simp_all add: replay_entry_inv)

lemma init_queue_inv: "queue_inv (init_queue now clk w)"
  by (simp add: init_queue_def replay_lines_inv)

lemma queue_step_inv: "queue_inv q \<Longrightarrow> queue_inv (queue_step op q)"
  by (cases op) (simp_all add: enqueue_inv dequeue_inv acknowledge_inv complete_inv fail_inv
      cancel_inv cancel_all_inv init_queue_inv)

interpretation tq: invariant_system queue_step queue_inv
  by unfold_locales (rule queue_step_inv)

subsection \<open>Which task is handed out\<close>

text \<open>An entry is live if its task is still queued; the others are stale.\<close>

definition live_entry :: "(string, Task) dict \<Rightarrow> PrioritizedTask \<Rightarrow> bool" where
  "live_entry ts e \<longleftrightarrow> (case dict_get ts (pt_task_id e) of None \<Rightarrow> False | Some t \<Rightarrow> task_status t = QUEUED)"

definition eligible :: "(string, Task) dict \<Rightarrow> string \<Rightarrow> PrioritizedTask \<Rightarrow> bool" where
  "eligible ts aff e \<longleftrightarrow> (case dict_get ts (pt_task_id e) of None \<Rightarrow> False
     | Some t \<Rightarrow> task_status t = QUEUED \<and> \<not> for_other_node aff t)"

lemma dequeue_loop_spec:
  assumes "dequeue_loop ts aff h = (rest, remaining, c)"
  shows "c = Option.bind (List.find (eligible ts aff) h) (\<lambda>e. dict_get ts (pt_task_id e)) \<and>
    filter_mset (live_entry ts) (mset remaining + mset rest) =
      filter_mset (live_entry ts) (mset h) -
        (case List.find (eligible ts aff) h of None \<Rightarrow> {#} | Some e \<Rightarrow> {#e#})"
  using assms
proof (induction ts aff h arbitrary: rest remaining c rule: dequeue_loop.induct)
  case (2 ts aff e h)
  show ?case
  proof (cases "eligible ts aff e \<or> \<not> live_entry ts e")
    case True
    with 2 show ?thesis
      by (cases "dict_get ts (pt_task_id e)")
        (auto simp: eligible_def live_entry_def split: if_splits)
  next
    case False
    then obtain t where t: "dict_get ts (pt_task_id e) = Some t" "task_status t = QUEUED"
      "for_other_node aff t"
      by (auto simp: eligible_def live_entry_def split: option.splits)
    with 2(4) obtain rem' where rem': "dequeue_loop ts aff h = (rest, rem', c)" "remaining = e # rem'"
      by (auto split: prod.splits)
    have "\<forall>e'. List.find (eligible ts aff) h = Some e' \<longrightarrow> e' \<in># filter_mset (live_entry ts) (mset h)"
      by (auto simp: find_Some_iff eligible_def live_entry_def split: option.splits)
    then show ?thesis
      using 2(3) [OF t(1) _ t(3) rem'(1)] t rem' False
      by (auto simp: live_entry_def split: option.splits)
  qed
qed auto

lemma find_sorted_Min:
  "sorted h \<Longrightarrow> List.find P h =
     (let es = filter P h in if es = [] then None else Some (Min (set es)))" for h :: "'a :: linorder list"
proof (induction h)
  case (Cons x h)
  then show ?case
  proof (cases "P x")
    case True
    with Cons.prems have "Min (set (filter P (x # h))) = x"
      by (intro Min_eqI) auto
    with True show ?thesis by (simp add: Let_def)
  qed (simp add: Let_def)
qed simp

text \<open>\<open>dequeue\<close> hands out the task of the most urgent eligible entry (a queued task that is
  not bound to another node; lowest priority number first, then the oldest, then the lowest
  id) and nothing if there is none; of the entries of queued tasks the heap loses exactly
  that one, and it stays ordered.\<close>

theorem dequeue_most_urgent:
  assumes "queue_inv q" and "dequeue aff q = (q', c)"
  shows "c = (let es = filter (eligible (tasks q) aff) (heap q)
              in if es = [] then None else dict_get (tasks q) (pt_task_id (Min (set es)))) \<and>
    filter_mset (live_entry (tasks q)) (mset (heap q')) =
      filter_mset (live_entry (tasks q)) (mset (heap q)) -
        (let es = filter (eligible (tasks q) aff) (heap q) in if es = [] then {#} else {#Min (set es)#}) \<and>
    sorted (heap q') \<and> tasks q' = tasks q"
proof -
  obtain rest remaining where l: "dequeue_loop (tasks q) aff (heap q) = (rest, remaining, c)"
    and q': "q' = q\<lparr>heap := fold heappush remaining rest\<rparr>"
    using assms(2) by (auto simp: dequeue_def split: prod.splits)
  have f: "List.find (eligible (tasks q) aff) (heap q) =
      (let es = filter (eligible (tasks q) aff) (heap q) in if es = [] then None else Some (Min (set es)))"
    using queue_inv_sorted [OF assms(1)] by (rule find_sorted_Min)
  show ?thesis
    using dequeue_loop_spec [OF l] dequeue_loop_sorted [OF l queue_inv_sorted [OF assms(1)]]
    unfolding f q' by (auto simp: Let_def)
qed

definition sample_queue :: TaskQueue where
  "sample_queue = fold queue_step
     [Enqueue ''x'' 0 1 (new_task ''a'' ''train'' 1 ''gpu'' 0),
      Enqueue ''x'' 0 2 (new_task ''b'' ''lint'' 2 '''' 0),
      Enqueue ''x'' 0 3 (new_task ''c'' ''report'' 2 ''web'' 0)] (empty_queue [])"

theorem dequeue_most_urgent_witness:
  "sorted (heap (fst (dequeue ''web'' sample_queue))) \<and>
     map_option task_id (snd (dequeue ''web'' sample_queue)) = Some ''b''"
proof -
  have "queue_inv sample_queue"
    unfolding sample_queue_def by (rule tq.inv_run) simp
  then have "sorted (heap (fst (dequeue ''web'' sample_queue)))"
    using dequeue_most_urgent [of sample_queue "''web''" "fst (dequeue ''web'' sample_queue)"
        "snd (dequeue ''web'' sample_queue)"] by simp
  moreover have "map_option task_id (snd (dequeue ''web'' sample_queue)) = Some ''b''"
    by (simp add: sample_queue_def dequeue_def queue_defs heappush_def new_task_def empty_queue_def
        less_eq_PrioritizedTask_def for_other_node_def)
  ultimately show ?thesis ..
qed


subsection \<open>Recovery\<close>

text \<open>
  The contract of the log: the status, goal, priority and affinity of every task, rebuilt
  from the log alone.
\<close>

type_synonym task_view = "string \<Rightarrow> (TaskStatus \<times> string \<times> int \<times> string) option"

definition view :: "TaskQueue \<Rightarrow> task_view" where
  "view q k = map_option (\<lambda>t. (task_status t, goal t, task_priority t, affinity t)) (dict_get (tasks q) k)"

definition set_status :: "TaskStatus \<Rightarrow> string \<Rightarrow> task_view \<Rightarrow> task_view" where
  "set_status st k v = v(k := map_option (\<lambda>(_, r). (st, r)) (v k))"

fun view_entry :: "task_wal option \<Rightarrow> task_view \<Rightarrow> task_view" where
  "view_entry None v = v"
| "view_entry (Some (WEnqueue d)) v = v(eq_task_id d \<mapsto> (QUEUED, eq_goal d, eq_priority d, eq_affinity d))"
| "view_entry (Some (WAck tid node)) v = set_status ASSIGNED tid v"
| "view_entry (Some (WComplete tid res fin)) v = set_status COMPLETED tid v"
| "view_entry (Some (WFail tid err fin)) v = set_status FAILED tid v"
| "view_entry (Some (WCancel tid)) v = set_status CANCELLED tid v"

lemma view_replay_entry: "view (replay_entry now clk l q) = view_entry l (view q)"
  by (induction now clk l q rule: replay_entry.induct)
    (auto simp: view_def set_status_def put_task_def restored_task_def new_task_def Let_def fun_eq_iff
      split: option.split)

lemma view_replay_lines: "view (replay_lines now clk n ls q) = fold view_entry ls (view q)"
  by (induction ls arbitrary: n q) (simp_all add: view_replay_entry)

lemma view_empty [simp]: "view (empty_queue w) = Map.empty"
  by (simp add: view_def empty_queue_def fun_eq_iff)

lemma view_init_queue: "view (init_queue now clk w) = fold view_entry w Map.empty"
  by (simp add: init_queue_def view_replay_lines)

lemma wal_replay_entry [simp]: "wal (replay_entry now clk l q) = wal q" "wal_open (replay_entry now clk l q) = wal_open q"
  by (induction now clk l q rule: replay_entry.induct) (auto simp: put_task_def Let_def split: option.split)

lemma wal_replay_lines [simp]: "wal (replay_lines now clk n ls q) = wal q"
  "wal_open (replay_lines now clk n ls q) = wal_open q"
  by (induction ls arbitrary: n q) simp_all

text \<open>What the running queue shows is what its log says.\<close>

definition logged :: "TaskQueue \<Rightarrow> bool" where
  "logged q \<longleftrightarrow> wal_open q \<and> view q = fold view_entry (wal q) Map.empty"

definition recoverable :: "TaskQueue \<Rightarrow> bool" where
  "recoverable q \<longleftrightarrow> queue_inv q \<and> logged q"

lemma logged_step:
  assumes "logged q" "wal q' = wal q @ [l]" "wal_open q'" "view q' = view_entry l (view q)"
  shows "logged q'"
  using assms by (simp add: logged_def)

lemma logged_same:
  assumes "logged q" "wal q' = wal q" "wal_open q' = wal_open q" "view q' = view q"
  shows "logged q'"
  using assms by (simp add: logged_def)

lemma logged_open: "logged q \<Longrightarrow> wal_open q"
  by (simp add: logged_def)

lemma enqueue_logged:
  assumes l: "logged q"
  shows "logged (fst (enqueue fresh now clk t q))"
  by (rule logged_step [OF l, where l = "Some (WEnqueue (enqueue_entry
        (t\<lparr>task_id := snd (enqueue fresh now clk t q), task_status := QUEUED, created_at := now\<rparr>) clk))"])
    (auto simp: queue_defs enqueue_entry_def view_def fun_eq_iff logged_open [OF l])

lemma acknowledge_logged:
  assumes l: "logged q"
  shows "logged (fst (acknowledge tid node now q))"
proof (cases "dict_get (tasks q) tid")
  case (Some t)
  then show ?thesis
    by - (rule logged_step [OF l, where l = "Some (WAck tid node)"],
      auto simp: queue_defs view_def set_status_def fun_eq_iff logged_open [OF l])
qed (simp add: acknowledge_def l)

lemma complete_logged:
  assumes l: "logged q"
  shows "logged (fst (complete tid res now q))"
proof (cases "dict_get (tasks q) tid")
  case (Some t)
  then show ?thesis
    by - (rule logged_step [OF l, where l = "Some (WComplete tid res now)"],
      auto simp: queue_defs view_def set_status_def fun_eq_iff logged_open [OF l])
qed (simp add: complete_def l)

lemma cancel_logged:
  assumes l: "logged q"
  shows "logged (fst (cancel tid q))"
proof (cases "dict_get (tasks q) tid")
  case (Some t)
  then show ?thesis
    by - (rule logged_step [OF l, where l = "Some (WCancel tid)"],
      auto simp: queue_defs view_def set_status_def fun_eq_iff logged_open [OF l])
qed (simp add: cancel_def l)

lemma fail_logged:
  assumes l: "logged q"
  shows "logged (fst (fail tid err retry now clk q))"
proof (cases "dict_get (tasks q) tid")
  case (Some t)
  show ?thesis
  proof (cases "retry \<and> retry_count t < max_retries t")
    case True
    with Some show ?thesis
      by - (rule logged_step [OF l, where l = "Some (WEnqueue ((retry_entry t clk)\<lparr>eq_task_id := tid\<rparr>))"],
        auto simp: queue_defs view_def retry_entry_def fun_eq_iff logged_open [OF l])
  next
    case False
    with Some show ?thesis
      by - (rule logged_step [OF l, where l = "Some (WFail tid err now)"],
        auto simp: queue_defs view_def set_status_def fun_eq_iff logged_open [OF l])
  qed
qed (simp add: fail_def l)

lemma cancel_all_logged: "logged q \<Longrightarrow> logged (fst (cancel_all flt q))"
proof -
  have "logged q \<Longrightarrow> logged (fold (\<lambda>tid q. fst (cancel tid q)) ids q)" for ids
    by (induction ids arbitrary: q) (simp_all add: cancel_logged)
  then show "logged q \<Longrightarrow> ?thesis" by (simp add: cancel_all_def)
qed

lemma dequeue_logged:
  assumes l: "logged q"
  shows "logged (fst (dequeue aff q))"
  by (rule logged_same [OF l]) (auto simp: dequeue_def view_def fun_eq_iff split: prod.split)


lemma init_queue_logged: "logged (init_queue now clk w)"
  by (simp add: logged_def view_init_queue) (simp add: init_queue_def empty_queue_def)

lemma queue_step_logged: "logged q \<Longrightarrow> logged (queue_step op q)"
  by (cases op) (simp_all add: enqueue_logged dequeue_logged acknowledge_logged complete_logged
      fail_logged cancel_logged cancel_all_logged init_queue_logged)

interpretation wal_view: invariant_system queue_step logged
  by unfold_locales (rule queue_step_logged)

text \<open>After a replay every queued task has an entry in the heap.\<close>

definition dispatchable :: "TaskQueue \<Rightarrow> bool" where
  "dispatchable q \<longleftrightarrow> covers (tasks q) {QUEUED} (pt_task_id ` set (heap q))"

lemma replay_entry_dispatchable: "dispatchable q \<Longrightarrow> dispatchable (replay_entry now clk l q)"
  by (induction now clk l q rule: replay_entry.induct)
    (auto simp: dispatchable_def put_task_def restored_task_def new_task_def Let_def split: option.split
      intro!: covers_set [where ids = "pt_task_id ` set (heap q)" for q])

lemma init_queue_dispatchable: "dispatchable (init_queue now clk w)"
proof -
  have "dispatchable q \<Longrightarrow> dispatchable (replay_lines now clk n ls q)" for n ls q
    by (induction ls arbitrary: n q) (simp_all add: replay_entry_dispatchable)
  moreover have "dispatchable (empty_queue w)"
    by (simp add: dispatchable_def covers_def empty_queue_def)
  ultimately show ?thesis by (simp add: init_queue_def)
qed

lemma dispatchable_view:
  "dispatchable q \<Longrightarrow> {tid. map_option fst (view q tid) = Some QUEUED} \<subseteq> pt_task_id ` set (heap q)"
  by (fastforce simp: dispatchable_def covers_def view_def)

text \<open>C32: Crash recovery. Whatever clients did to a queue that was started on a log (including
  earlier crashes), a process restarted on its log has exactly the tasks of the old one, each
  with the same status, goal, priority and affinity, whatever the clocks are; and every
  queued task is in the new heap, also one that the old process had dequeued but not yet
  acknowledged.\<close>

theorem recovery_keeps_tasks:
  "let q = fold queue_step ops (init_queue now clk w); r = init_queue now' clk' (wal q)
   in view r = view q \<and> {tid. map_option fst (view q tid) = Some QUEUED} \<subseteq> pt_task_id ` set (heap r)"
proof -
  have "logged (fold queue_step ops (init_queue now clk w))"
    by (rule wal_view.inv_run) (rule init_queue_logged)
  then have "view (init_queue now' clk' (wal (fold queue_step ops (init_queue now clk w)))) =
     view (fold queue_step ops (init_queue now clk w))"
    by (simp add: view_init_queue logged_def)
  with dispatchable_view [OF init_queue_dispatchable] show ?thesis
    unfolding Let_def by metis
qed

lemma no_running:
  "queue_inv q \<Longrightarrow> st = RUNNING \<or> st = TIMEOUT \<Longrightarrow> list_tasks (Some st) n q = []"
proof -
  assume "queue_inv q"
  then have "\<forall>t \<in> set (dict_values (tasks q)). task_status t \<noteq> RUNNING \<and> task_status t \<noteq> TIMEOUT"
    by (fastforce simp: queue_inv_def keyed_def dict_get_iff)
  then show "st = RUNNING \<or> st = TIMEOUT \<Longrightarrow> ?thesis" by (auto simp: list_tasks_def)
qed

text \<open>No operation ever makes a task running or timed out, so the list of active tasks is
  always empty and whatever looks for running tasks finds none.\<close>

theorem no_task_runs:
  "list_active (fold queue_step ops (init_queue now clk w)) = [] \<and>
     list_tasks (Some TIMEOUT) n (fold queue_step ops (init_queue now clk w)) = []"
proof -
  have "queue_inv (fold queue_step ops (init_queue now clk w))" (is "queue_inv ?q")
    by (rule tq.inv_run) (rule init_queue_inv)
  then show ?thesis by (simp add: list_active_def no_running)
qed

lemma replay_lines_append:
  "replay_lines now clk n (xs @ ys) q = replay_lines now clk (n + length xs) ys (replay_lines now clk n xs q)"
  by (induction xs arbitrary: n q) simp_all

text \<open>A retried task does not survive a crash intact: after a restart on the log its retry
  count is zero again and its retry limit the default one, so crashes between failures let it be retried
  without bound, and its tools, context and parent are gone.\<close>

theorem retry_not_recovered:
  assumes "logged q" and "dict_get (tasks q) tid = Some t" and "retry_count t < max_retries t"
  shows "map_option (\<lambda>u. (retry_count u, max_retries u, tools u, task_context u, parent_task u))
      (dict_get (tasks (init_queue now' clk' (wal (fst (fail tid err True now clk q))))) tid) =
    Some (0, 3, [], [], '''')"
proof -
  have "wal (fst (fail tid err True now clk q)) =
      wal q @ [Some (WEnqueue ((retry_entry t clk)\<lparr>eq_task_id := tid\<rparr>))]"
    using assms(2,3) logged_open [OF assms(1)] by (simp add: queue_defs retry_entry_def)
  then show ?thesis
    by (simp add: init_queue_def replay_lines_append Let_def put_task_def restored_task_def
        new_task_def retry_entry_def)
qed

definition failing_queue :: TaskQueue where
  "failing_queue = fold queue_step
     [Enqueue ''x'' 0 1 ((new_task ''a'' ''train'' 1 ''gpu'' 0)\<lparr>tools := [''shell''], max_retries := 1\<rparr>)]
     (init_queue (\<lambda>n. 0) (\<lambda>n. 0) [])"

theorem retry_not_recovered_witness:
  "\<exists>t. dict_get (tasks failing_queue) ''a'' = Some t \<and> max_retries t = 1 \<and> tools t = [''shell''] \<and>
     map_option (\<lambda>u. (retry_count u, max_retries u, tools u, task_context u, parent_task u))
      (dict_get (tasks (init_queue (\<lambda>n. 9) (\<lambda>n. 9) (wal (fst (fail ''a'' ''oom'' True 2 2 failing_queue))))) ''a'') =
     Some (0, 3, [], [], '''')"
proof -
  have l: "logged failing_queue"
    unfolding failing_queue_def by (rule wal_view.inv_run) (rule init_queue_logged)
  have t: "\<exists>t. dict_get (tasks failing_queue) ''a'' = Some t \<and> max_retries t = 1 \<and>
      tools t = [''shell''] \<and> retry_count t = 0"
    by (simp add: failing_queue_def init_queue_def empty_queue_def enqueue_def Let_def put_task_def
        write_wal_def new_task_def)
  then obtain t where t: "dict_get (tasks failing_queue) ''a'' = Some t" "max_retries t = 1"
      "tools t = [''shell'']" "retry_count t = 0" by blast
  with retry_not_recovered [OF l t(1)] show ?thesis by simp
qed

definition task_data where
  "task_data t = (goal t, task_priority t, affinity t, task_context t, tools t, max_steps t,
     max_retries t, retry_count t, parent_task t)"

lemma replay_compacted:
  "(\<lambda>k. map_option (\<lambda>u. (task_status u, task_data u))
      (dict_get (tasks (replay_lines now clk n (map (\<lambda>t. Some (WEnqueue (compact_entry t))) ts) q)) k)) =
   (\<lambda>k. map_option (\<lambda>u. (task_status u, task_data u)) (dict_get (tasks q) k)) ++
      map_of (rev (map (\<lambda>t. (task_id t, (QUEUED, task_data t))) ts))"
proof (induction ts arbitrary: n q)
  case (Cons t ts)
  show ?case
    by (simp add: Cons.IH) (auto simp: fun_eq_iff map_add_def Let_def put_task_def restored_task_def
        new_task_def compact_entry_def task_data_def split: option.split)
qed (simp add: fun_eq_iff)

lemma keyed_Cons:
  assumes "keyed ((j, t) # ts)" and "dict_get ts j = None"
  shows "task_id t = j" and "keyed ts"
proof -
  have a: "dict_get ((j, t) # ts) k = Some u \<Longrightarrow> task_id u = k \<and>
      task_status u \<in> {QUEUED, ASSIGNED, COMPLETED, FAILED, CANCELLED}" for k u
    using assms(1) unfolding keyed_def by blast
  show "task_id t = j" using a [of j t] by simp
  have "dict_get ((j, t) # ts) k = Some u" if "dict_get ts k = Some u" for k u
    using that assms(2) by (cases "k = j") simp_all
  then show "keyed ts" unfolding keyed_def using a by blast
qed

lemma map_of_kept:
  "dict_wf ts \<Longrightarrow> keyed ts \<Longrightarrow>
     map_of (rev (map (\<lambda>t. (task_id t, f t)) (filter P (map snd ts)))) k =
       (case dict_get ts k of None \<Rightarrow> None | Some t \<Rightarrow> if P t then Some (f t) else None)"
proof (induction ts)
  case (Cons p ts)
  obtain j t where p: "p = (j, t)" by fastforce
  have n: "dict_get ts j = None" and w: "dict_wf ts"
    using Cons.prems(1) by (simp_all add: p dict_wf_def map_of_eq_None_iff)
  note k = keyed_Cons [OF Cons.prems(2) [unfolded p] n]
  show ?case
    using Cons.IH [OF w k(2)] by (cases "k = j") (simp_all add: p k(1) n map_add_def split: option.split)
qed simp


text \<open>Closing the queue and opening it again keeps exactly the unfinished tasks with all
  their data, retry counts included; but all of them are queued again, also those that are
  assigned to a node.\<close>

theorem reopen_after_close:
  assumes "queue_inv q"
  shows "map_option (\<lambda>u. (task_status u, task_data u))
      (dict_get (tasks (init_queue now clk (wal (close q)))) k) =
    (case dict_get (tasks q) k of None \<Rightarrow> None
     | Some t \<Rightarrow> if unfinished t then Some (QUEUED, task_data t) else None)"
proof -
  have "dict_wf (tasks q)" "keyed (tasks q)" using assms by (simp_all add: queue_inv_def)
  then show ?thesis
    using fun_cong [OF replay_compacted, of now clk 0 "filter unfinished (dict_values (tasks q))"
        "empty_queue (wal (close q))" k]
    by (simp add: init_queue_def close_def compact_wal_def map_add_def map_of_kept empty_queue_def
        split: option.split)
qed

theorem reopen_after_close_witness:
  "map_option (\<lambda>u. (task_status u, task_data u))
      (dict_get (tasks (init_queue (\<lambda>n. 9) (\<lambda>n. 9)
         (wal (close (fst (acknowledge ''a'' ''n1'' 5 failing_queue)))))) ''a'') =
    Some (QUEUED, ''train'', 1, ''gpu'', [], [''shell''], 20, 1, 0, '''')"
proof -
  have "queue_inv failing_queue"
    unfolding failing_queue_def by (rule tq.inv_run) (rule init_queue_inv)
  then have "queue_inv (fst (acknowledge ''a'' ''n1'' 5 failing_queue))"
    by (rule acknowledge_inv)
  from reopen_after_close [OF this] show ?thesis
    by (simp add: failing_queue_def init_queue_def empty_queue_def queue_defs new_task_def
        unfinished_def task_data_def)
qed

end
