(* ===== verification/Agent_Registry.thy ===== *)
theory Agent_Registry
  imports Systems
begin

text \<open>
  The registry of worker nodes (\<open>engine/agent_runtime/agent_registry.py\<close>): registration,
  the index from capabilities to nodes, heartbeats and the choice of a node for a task.
  Python iterates over a set in an order that depends on hashes; that order is the argument
  \<open>order\<close> of the operations that do so. \<open>time.time()\<close> is the argument \<open>now\<close>.
\<close>

subsection \<open>Nodes\<close>

record NodeInfo =
  node_id :: string
  hostname :: string
  version :: string
  capabilities :: "string list"
  skills :: "string list"
  labels :: "(string, string) dict"
  max_workers :: int
  active_workers :: int
  last_heartbeat :: "seconds option"
  first_seen :: seconds
  is_healthy :: bool
  last_error :: "string option"

definition available_slots :: "NodeInfo \<Rightarrow> int" where
  "available_slots n = max 0 (max_workers n - active_workers n)"

definition load_ratio :: "NodeInfo \<Rightarrow> rat" where
  "load_ratio n = (if max_workers n > 0 then of_int (active_workers n) / of_int (max_workers n) else 0)"

definition is_alive :: "seconds \<Rightarrow> seconds \<Rightarrow> NodeInfo \<Rightarrow> bool" where
  "is_alive now ttl n \<longleftrightarrow> (case last_heartbeat n of None \<Rightarrow> False | Some h \<Rightarrow> now - h < ttl)"

record CapabilityQuery =
  cq_node_id :: string
  cq_hostname :: string
  cq_available_slots :: int
  cq_load_ratio :: rat
  cq_is_alive :: bool
  cq_capabilities :: "string list"
  cq_skills :: "string list"

definition query_of :: "NodeInfo \<Rightarrow> CapabilityQuery" where
  "query_of n = \<lparr>cq_node_id = node_id n, cq_hostname = hostname n,
     cq_available_slots = available_slots n, cq_load_ratio = load_ratio n, cq_is_alive = True,
     cq_capabilities = capabilities n, cq_skills = skills n\<rparr>"

record AgentRegistry =
  heartbeat_ttl :: seconds
  nodes :: "(string, NodeInfo) dict"
  capability_index :: "string \<rightharpoonup> string set"
  heartbeats_received :: nat

definition init_registry :: "seconds \<Rightarrow> AgentRegistry" where
  "init_registry ttl = \<lparr>heartbeat_ttl = ttl, nodes = [], capability_index = Map.empty,
     heartbeats_received = 0\<rparr>"

subsection \<open>Registration and the capability index\<close>

definition index_get :: "(string \<rightharpoonup> string set) \<Rightarrow> string \<Rightarrow> string set" where
  "index_get idx cap = (case idx cap of None \<Rightarrow> {} | Some s \<Rightarrow> s)"

definition index_add :: "string \<Rightarrow> string \<Rightarrow> (string \<rightharpoonup> string set) \<Rightarrow> (string \<rightharpoonup> string set)" where
  "index_add nid cap idx = idx(cap \<mapsto> insert nid (index_get idx cap))"

definition index_discard :: "string \<Rightarrow> string \<Rightarrow> (string \<rightharpoonup> string set) \<Rightarrow> (string \<rightharpoonup> string set)" where
  "index_discard nid cap idx =
     (case idx cap of None \<Rightarrow> idx | Some s \<Rightarrow> if nid \<in> s then idx(cap \<mapsto> s - {nid}) else idx)"

definition update_capability_index ::
    "string \<Rightarrow> string list \<Rightarrow> string list \<Rightarrow> (string \<rightharpoonup> string set) \<Rightarrow> (string \<rightharpoonup> string set)" where
  "update_capability_index nid old new idx =
     fold (index_add nid) (filter (\<lambda>c. c \<notin> set old) new)
       (fold (index_discard nid) (filter (\<lambda>c. c \<notin> set new) old) idx)"

text \<open>The arguments of \<open>register_node\<close>; \<^const>\<open>None\<close> where the caller passes none.\<close>

record registration =
  reg_node_id :: string
  reg_hostname :: string
  reg_version :: string
  reg_capabilities :: "string list option"
  reg_skills :: "string list option"
  reg_labels :: "(string, string) dict option"
  reg_max_workers :: int

definition updated_node :: "registration \<Rightarrow> NodeInfo \<Rightarrow> NodeInfo" where
  "updated_node r n = n
     \<lparr>hostname := (if reg_hostname r = '''' then hostname n else reg_hostname r),
      version := (if reg_version r = '''' then version n else reg_version r),
      max_workers := (if reg_max_workers r = 0 then max_workers n else reg_max_workers r),
      capabilities := (case reg_capabilities r of None \<Rightarrow> capabilities n | Some cs \<Rightarrow> cs),
      skills := (case reg_skills r of None \<Rightarrow> skills n | Some ss \<Rightarrow> ss),
      labels := (case reg_labels r of None \<Rightarrow> labels n
                 | Some ls \<Rightarrow> fold (\<lambda>(k, v). dict_set k v) ls (labels n)),
      is_healthy := True\<rparr>"

definition new_node :: "seconds \<Rightarrow> registration \<Rightarrow> NodeInfo" where
  "new_node now r = \<lparr>node_id = reg_node_id r, hostname = reg_hostname r, version = reg_version r,
     capabilities = (case reg_capabilities r of None \<Rightarrow> [] | Some cs \<Rightarrow> cs),
     skills = (case reg_skills r of None \<Rightarrow> [] | Some ss \<Rightarrow> ss),
     labels = (case reg_labels r of None \<Rightarrow> [] | Some ls \<Rightarrow> ls),
     max_workers = (if reg_max_workers r = 0 then 3 else reg_max_workers r), active_workers = 0,
     last_heartbeat = None, first_seen = now, is_healthy = True, last_error = None\<rparr>"

definition register_node :: "seconds \<Rightarrow> registration \<Rightarrow> AgentRegistry \<Rightarrow> AgentRegistry" where
  "register_node now r reg =
     (case dict_get (nodes reg) (reg_node_id r) of
        Some n \<Rightarrow>
          reg\<lparr>nodes := dict_set (reg_node_id r) (updated_node r n) (nodes reg),
              capability_index := (case reg_capabilities r of None \<Rightarrow> capability_index reg
                | Some cs \<Rightarrow> update_capability_index (reg_node_id r) (capabilities n) cs
                    (capability_index reg))\<rparr>
      | None \<Rightarrow>
          reg\<lparr>nodes := dict_set (reg_node_id r) (new_node now r) (nodes reg),
              capability_index := fold (index_add (reg_node_id r))
                (case reg_capabilities r of None \<Rightarrow> [] | Some cs \<Rightarrow> cs) (capability_index reg)\<rparr>)"

definition unregister_node :: "string \<Rightarrow> AgentRegistry \<Rightarrow> AgentRegistry \<times> bool" where
  "unregister_node nid reg =
     (case dict_get (nodes reg) nid of
        None \<Rightarrow> (reg, False)
      | Some n \<Rightarrow> (reg\<lparr>nodes := dict_del nid (nodes reg),
          capability_index := fold (index_discard nid) (capabilities n) (capability_index reg)\<rparr>, True))"

subsection \<open>Heartbeats\<close>

text \<open>The keys \<open>active_workers\<close> and \<open>worker_slots_available\<close> of the heartbeat's data.\<close>

definition heartbeat ::
    "seconds \<Rightarrow> string \<Rightarrow> int option \<Rightarrow> int option \<Rightarrow> AgentRegistry \<Rightarrow> AgentRegistry \<times> bool" where
  "heartbeat now nid active slots reg =
     (case dict_get (nodes reg) nid of
        None \<Rightarrow> (reg, False)
      | Some n \<Rightarrow>
          let n = n\<lparr>last_heartbeat := Some now, is_healthy := True\<rparr>;
              n = (case active of None \<Rightarrow> n | Some a \<Rightarrow> n\<lparr>active_workers := a\<rparr>);
              n = (case slots of None \<Rightarrow> n | Some s \<Rightarrow> n\<lparr>max_workers := active_workers n + s\<rparr>)
          in (reg\<lparr>nodes := dict_set nid n (nodes reg),
                  heartbeats_received := heartbeats_received reg + 1\<rparr>, True))"

definition mark_unhealthy :: "string \<Rightarrow> string \<Rightarrow> AgentRegistry \<Rightarrow> AgentRegistry" where
  "mark_unhealthy nid err reg =
     (case dict_get (nodes reg) nid of
        None \<Rightarrow> reg
      | Some n \<Rightarrow> reg\<lparr>nodes := dict_set nid (n\<lparr>is_healthy := False,
          last_error := Some (if err = '''' then ''Unknown'' else err)\<rparr>) (nodes reg)\<rparr>)"

definition stale :: "seconds \<Rightarrow> seconds \<Rightarrow> NodeInfo \<Rightarrow> bool" where
  "stale now ttl n \<longleftrightarrow> (case last_heartbeat n of None \<Rightarrow> False | Some h \<Rightarrow> h \<noteq> 0 \<and> now - h > ttl * 3)"

definition cleanup_stale_nodes :: "seconds \<Rightarrow> AgentRegistry \<Rightarrow> AgentRegistry \<times> nat" where
  "cleanup_stale_nodes now reg =
     (let ids = map fst (filter (\<lambda>(nid, n). stale now (heartbeat_ttl reg) n) (nodes reg))
      in (fold (\<lambda>nid reg. fst (unregister_node nid reg)) ids reg, length ids))"

subsection \<open>Queries\<close>

definition usable :: "seconds \<Rightarrow> AgentRegistry \<Rightarrow> NodeInfo \<Rightarrow> bool" where
  "usable now reg n \<longleftrightarrow> is_alive now (heartbeat_ttl reg) n \<and> is_healthy n"

definition list_nodes :: "seconds \<Rightarrow> bool \<Rightarrow> bool \<Rightarrow> AgentRegistry \<Rightarrow> NodeInfo list" where
  "list_nodes now alive_only healthy_only reg =
     sort_key node_id (filter (\<lambda>n. healthy_only \<longrightarrow> is_healthy n)
       (filter (\<lambda>n. alive_only \<longrightarrow> is_alive now (heartbeat_ttl reg) n) (dict_values (nodes reg))))"

definition get_alive_count :: "seconds \<Rightarrow> AgentRegistry \<Rightarrow> nat" where
  "get_alive_count now reg = length (filter (is_alive now (heartbeat_ttl reg)) (dict_values (nodes reg)))"

definition find_by_capability ::
    "(string set \<Rightarrow> string list) \<Rightarrow> seconds \<Rightarrow> AgentRegistry \<Rightarrow> string \<Rightarrow> CapabilityQuery list" where
  "find_by_capability order now reg cap =
     sort_key cq_load_ratio (map query_of (filter (usable now reg)
       (List.map_filter (dict_get (nodes reg)) (order (index_get (capability_index reg) cap)))))"

definition find_by_skill :: "seconds \<Rightarrow> AgentRegistry \<Rightarrow> string \<Rightarrow> CapabilityQuery list" where
  "find_by_skill now reg skill =
     sort_key cq_load_ratio (map query_of
       (filter (\<lambda>n. skill \<in> set (skills n) \<and> usable now reg n) (dict_values (nodes reg))))"

definition best_of :: "CapabilityQuery list \<Rightarrow> string option" where
  "best_of cs = (case sort_key cq_load_ratio cs of [] \<Rightarrow> None | c # _ \<Rightarrow> Some (cq_node_id c))"

definition free_nodes :: "seconds \<Rightarrow> AgentRegistry \<Rightarrow> CapabilityQuery list" where
  "free_nodes now reg = map query_of
     (filter (\<lambda>n. usable now reg n \<and> available_slots n > 0) (dict_values (nodes reg)))"

definition find_best_node ::
    "(string set \<Rightarrow> string list) \<Rightarrow> seconds \<Rightarrow> string \<Rightarrow> string \<Rightarrow> AgentRegistry \<Rightarrow> string option" where
  "find_best_node order now aff cap reg =
     (let cs = (if cap \<noteq> '''' then find_by_capability order now reg cap
                else if aff \<noteq> '''' then find_by_capability order now reg aff else [])
      in best_of (if cs = [] then free_nodes now reg else cs))"

subsection \<open>The index agrees with the nodes\<close>

definition registry_inv :: "AgentRegistry \<Rightarrow> bool" where
  "registry_inv reg \<longleftrightarrow> dict_wf (nodes reg) \<and>
     (\<forall>nid n. dict_get (nodes reg) nid = Some n \<longrightarrow> node_id n = nid) \<and>
     (\<forall>cap. index_get (capability_index reg) cap =
        {nid. \<exists>n. dict_get (nodes reg) nid = Some n \<and> cap \<in> set (capabilities n)})"

lemma index_get_add [simp]:
  "index_get (index_add nid c idx) cap = (if cap = c then insert nid (index_get idx cap) else index_get idx cap)"
  by (simp add: index_get_def index_add_def)

lemma index_get_discard [simp]:
  "index_get (index_discard nid c idx) cap = (if cap = c then index_get idx cap - {nid} else index_get idx cap)"
  by (auto simp: index_get_def index_discard_def split: option.split)

lemma index_get_adds:
  "index_get (fold (index_add nid) cs idx) cap =
     (if cap \<in> set cs then insert nid (index_get idx cap) else index_get idx cap)"
  by (induction cs arbitrary: idx) auto

lemma index_get_discards:
  "index_get (fold (index_discard nid) cs idx) cap =
     (if cap \<in> set cs then index_get idx cap - {nid} else index_get idx cap)"
  by (induction cs arbitrary: idx) auto

lemma index_get_update:
  "nid \<in> index_get idx cap \<longleftrightarrow> cap \<in> set old \<Longrightarrow>
     index_get (update_capability_index nid old new idx) cap =
       (index_get idx cap - {nid}) \<union> (if cap \<in> set new then {nid} else {})"
  by (auto simp: update_capability_index_def index_get_adds index_get_discards)

lemma registry_wf: "registry_inv reg \<Longrightarrow> dict_wf (nodes reg)"
  unfolding registry_inv_def by blast

lemma registry_id: "registry_inv reg \<Longrightarrow> dict_get (nodes reg) nid = Some n \<Longrightarrow> node_id n = nid"
  unfolding registry_inv_def by blast

lemma registry_index:
  "registry_inv reg \<Longrightarrow> index_get (capability_index reg) cap =
     {nid. \<exists>n. dict_get (nodes reg) nid = Some n \<and> cap \<in> set (capabilities n)}"
  unfolding registry_inv_def by blast

text \<open>Replacing one node keeps the invariant if the index follows its capabilities.\<close>

lemma registry_put:
  assumes "registry_inv reg" and "nodes reg' = dict_set nid n (nodes reg)" and "node_id n = nid"
    and "\<And>cap. index_get (capability_index reg') cap =
      (index_get (capability_index reg) cap - {nid}) \<union> (if cap \<in> set (capabilities n) then {nid} else {})"
  shows "registry_inv reg'"
  unfolding registry_inv_def
proof (intro conjI allI)
  show "dict_wf (nodes reg')" using registry_wf [OF assms(1)] by (simp add: assms(2))
  show "dict_get (nodes reg') j = Some m \<longrightarrow> node_id m = j" for j m
    using registry_id [OF assms(1), of j m] assms(3) by (auto simp: assms(2))
  show "index_get (capability_index reg') cap =
      {j. \<exists>m. dict_get (nodes reg') j = Some m \<and> cap \<in> set (capabilities m)}" for cap
    unfolding assms(4) registry_index [OF assms(1)] by (auto simp: assms(2))
qed

lemma registry_put_same:
  assumes "registry_inv reg" and "dict_get (nodes reg) nid = Some n0"
    and "nodes reg' = dict_set nid n (nodes reg)" and "node_id n = nid"
    and "capabilities n = capabilities n0" and "capability_index reg' = capability_index reg"
  shows "registry_inv reg'"
proof (rule registry_put [OF assms(1,3,4)])
  fix cap
  show "index_get (capability_index reg') cap =
      (index_get (capability_index reg) cap - {nid}) \<union> (if cap \<in> set (capabilities n) then {nid} else {})"
    using assms(2,5,6) by (auto simp: registry_index [OF assms(1)])
qed

lemma register_node_inv: "registry_inv reg \<Longrightarrow> registry_inv (register_node now r reg)"
proof (cases "dict_get (nodes reg) (reg_node_id r)")
  case None
  assume inv: "registry_inv reg"
  show ?thesis
    by (rule registry_put [OF inv, where nid = "reg_node_id r" and n = "new_node now r"])
      (auto simp: register_node_def None new_node_def index_get_adds registry_index [OF inv]
        split: option.splits)
next
  case (Some n)
  assume inv: "registry_inv reg"
  note nid = registry_id [OF inv Some]
  show ?thesis
  proof (cases "reg_capabilities r")
    case None
    show ?thesis
      by (rule registry_put_same [OF inv Some, where n = "updated_node r n"])
        (simp_all add: register_node_def Some None updated_node_def nid)
  next
    case cs: (Some cs)
    have "nid' \<in> index_get (capability_index reg) cap \<longleftrightarrow> cap \<in> set (capabilities n)"
      if "nid' = reg_node_id r" for nid' cap
      using Some that by (simp add: registry_index [OF inv])
    then show ?thesis
      by - (rule registry_put [OF inv, where nid = "reg_node_id r" and n = "updated_node r n"],
        simp_all add: register_node_def Some cs updated_node_def nid index_get_update)
  qed
qed

lemma unregister_node_inv: "registry_inv reg \<Longrightarrow> registry_inv (fst (unregister_node nid reg))"
proof (cases "dict_get (nodes reg) nid")
  case (Some n)
  assume inv: "registry_inv reg"
  show ?thesis
    unfolding registry_inv_def
  proof (intro conjI allI)
    show "dict_wf (nodes (fst (unregister_node nid reg)))"
      using registry_wf [OF inv] by (simp add: unregister_node_def Some)
    show "dict_get (nodes (fst (unregister_node nid reg))) j = Some m \<longrightarrow> node_id m = j" for j m
      using registry_id [OF inv, of j m] by (simp add: unregister_node_def Some)
    show "index_get (capability_index (fst (unregister_node nid reg))) cap =
        {j. \<exists>m. dict_get (nodes (fst (unregister_node nid reg))) j = Some m \<and> cap \<in> set (capabilities m)}"
      for cap
      using Some by (auto simp: unregister_node_def index_get_discards registry_index [OF inv])
  qed
qed (simp add: unregister_node_def)

lemma heartbeat_inv: "registry_inv reg \<Longrightarrow> registry_inv (fst (heartbeat now nid active slots reg))"
proof (cases "dict_get (nodes reg) nid")
  case (Some n)
  assume inv: "registry_inv reg"
  note nid = registry_id [OF inv Some]
  let ?reg = "fst (heartbeat now nid active slots reg)"
  obtain m where m: "dict_get (nodes ?reg) nid = Some m" "nodes ?reg = dict_set nid m (nodes reg)"
    "node_id m = nid" "capabilities m = capabilities n" "capability_index ?reg = capability_index reg"
    by (simp add: heartbeat_def Some Let_def nid split: option.split)
  show ?thesis
    by (rule registry_put_same [OF inv Some m(2-5)])
qed (simp add: heartbeat_def)

lemma mark_unhealthy_inv: "registry_inv reg \<Longrightarrow> registry_inv (mark_unhealthy nid err reg)"
proof (cases "dict_get (nodes reg) nid")
  case (Some n)
  assume inv: "registry_inv reg"
  show ?thesis
    by (rule registry_put_same [OF inv Some, where n = "n\<lparr>is_healthy := False,
          last_error := Some (if err = '''' then ''Unknown'' else err)\<rparr>"])
      (simp_all add: mark_unhealthy_def Some registry_id [OF inv Some])
qed (simp add: mark_unhealthy_def)

lemma cleanup_inv: "registry_inv reg \<Longrightarrow> registry_inv (fst (cleanup_stale_nodes now reg))"
proof -
  have "registry_inv reg \<Longrightarrow> registry_inv (fold (\<lambda>nid reg. fst (unregister_node nid reg)) ids reg)" for ids
    by (induction ids arbitrary: reg) (simp_all add: unregister_node_inv)
  then show "registry_inv reg \<Longrightarrow> ?thesis" by (simp add: cleanup_stale_nodes_def)
qed

datatype registry_op =
    Register seconds registration
  | Unregister string
  | Heartbeat seconds string "int option" "int option"
  | MarkUnhealthy string string
  | Cleanup seconds

fun registry_step :: "registry_op \<Rightarrow> AgentRegistry \<Rightarrow> AgentRegistry" where
  "registry_step (Register now r) reg = register_node now r reg"
| "registry_step (Unregister nid) reg = fst (unregister_node nid reg)"
| "registry_step (Heartbeat now nid active slots) reg = fst (heartbeat now nid active slots reg)"
| "registry_step (MarkUnhealthy nid err) reg = mark_unhealthy nid err reg"
| "registry_step (Cleanup now) reg = fst (cleanup_stale_nodes now reg)"

lemma registry_step_inv: "registry_inv reg \<Longrightarrow> registry_inv (registry_step op reg)"
  by (cases op) (simp_all add: register_node_inv unregister_node_inv heartbeat_inv
      mark_unhealthy_inv cleanup_inv)

interpretation reg: invariant_system registry_step registry_inv
  by unfold_locales (rule registry_step_inv)

lemma init_registry_inv [simp]: "registry_inv (init_registry ttl)"
  by (simp add: registry_inv_def init_registry_def index_get_def)

text \<open>After any sequence of registrations (also repeated ones with other capabilities),
  removals, heartbeats and cleanups, the capability index lists for a capability exactly the
  registered nodes that have it.\<close>

theorem index_exact:
  "let reg = fold registry_step ops (init_registry ttl)
   in index_get (capability_index reg) cap =
        {nid. \<exists>n. dict_get (nodes reg) nid = Some n \<and> cap \<in> set (capabilities n)}"
  unfolding Let_def by (rule registry_index) (rule reg.inv_run, simp)

subsection \<open>The choice of a node\<close>

text \<open>An order of iteration lists each element of a finite set once.\<close>

definition iterates :: "(string set \<Rightarrow> string list) \<Rightarrow> bool" where
  "iterates order \<longleftrightarrow> (\<forall>S. finite S \<longrightarrow> set (order S) = S \<and> distinct (order S))"

lemma finite_capable:
  "finite {nid. \<exists>n. dict_get (ns :: (string, NodeInfo) dict) nid = Some n \<and> P n}"
  by (rule finite_subset [OF _ finite_dom_map_of [of ns]]) auto

lemma best_of_spec:
  "best_of cs = None \<longleftrightarrow> cs = []"
  "best_of cs = Some nid \<Longrightarrow> \<exists>c\<in>set cs. cq_node_id c = nid \<and> (\<forall>d\<in>set cs. cq_load_ratio c \<le> cq_load_ratio d)"
proof -
  show "best_of cs = None \<longleftrightarrow> cs = []"
    by (auto simp: best_of_def split: list.split) (metis list.distinct(1) set_empty set_sort)
  assume b: "best_of cs = Some nid"
  then obtain c ds where s: "sort_key cq_load_ratio cs = c # ds" "cq_node_id c = nid"
    by (auto simp: best_of_def split: list.splits)
  have "sorted (map cq_load_ratio (c # ds))"
    using sorted_sort_key [of cq_load_ratio cs] by (simp add: s(1))
  moreover have "set cs = set (c # ds)"
    using set_sort [of cq_load_ratio cs] by (simp add: s(1))
  ultimately show "\<exists>c\<in>set cs. cq_node_id c = nid \<and> (\<forall>d\<in>set cs. cq_load_ratio c \<le> cq_load_ratio d)"
    using s(2) by auto
qed

text \<open>The usable nodes with a capability.\<close>

definition capable :: "seconds \<Rightarrow> AgentRegistry \<Rightarrow> string \<Rightarrow> NodeInfo set" where
  "capable now reg cap = {n \<in> set (dict_values (nodes reg)). cap \<in> set (capabilities n) \<and> usable now reg n}"

definition free :: "seconds \<Rightarrow> AgentRegistry \<Rightarrow> NodeInfo set" where
  "free now reg = {n \<in> set (dict_values (nodes reg)). usable now reg n \<and> available_slots n > 0}"

lemma set_map_filter_get:
  "set (List.map_filter (map_of d) ks) = {v. \<exists>k\<in>set ks. map_of d k = Some v}"
  by (force simp: List.map_filter_def)

lemma lookup_in_domain:
  "{v \<in> {v. \<exists>k\<in>{k. \<exists>n. d k = Some n \<and> P n}. d k = Some v}. U v} =
     {n. U n \<and> (\<exists>k. d k = Some n \<and> P n)}"
  by auto

lemma capable_lookup:
  assumes "registry_inv reg"
  shows "capable now reg cap =
    {n. usable now reg n \<and> (\<exists>nid. dict_get (nodes reg) nid = Some n \<and> cap \<in> set (capabilities n))}"
  unfolding capable_def by (force simp: dict_get_iff [OF registry_wf [OF assms]])

lemma set_find_by_capability:
  assumes "registry_inv reg" and "iterates order"
  shows "set (find_by_capability order now reg cap) = query_of ` capable now reg cap"
proof -
  have "set (order (index_get (capability_index reg) cap)) =
      {nid. \<exists>n. dict_get (nodes reg) nid = Some n \<and> cap \<in> set (capabilities n)}"
    unfolding registry_index [OF assms(1)]
    using assms(2) [unfolded iterates_def, rule_format, OF finite_capable] by (rule conjunct1)
  then have "set (filter (usable now reg) (List.map_filter (dict_get (nodes reg))
      (order (index_get (capability_index reg) cap)))) = capable now reg cap"
    unfolding capable_lookup [OF assms(1)] by (simp only: set_filter set_map_filter_get lookup_in_domain)
  then show ?thesis
    unfolding find_by_capability_def by simp
qed

lemma set_free_nodes: "set (free_nodes now reg) = query_of ` free now reg"
  unfolding free_nodes_def free_def by auto

lemma query_of_simps [simp]:
  "cq_node_id (query_of n) = node_id n" "cq_load_ratio (query_of n) = load_ratio n"
  by (simp_all add: query_of_def)

text \<open>What the scheduler may rely on: \<open>nid\<close> names a least loaded node of \<open>ns\<close>.\<close>

definition least_loaded :: "NodeInfo set \<Rightarrow> string \<Rightarrow> bool" where
  "least_loaded ns nid \<longleftrightarrow> (\<exists>n\<in>ns. node_id n = nid \<and> (\<forall>m\<in>ns. load_ratio n \<le> load_ratio m))"

definition best_choice :: "NodeInfo set \<Rightarrow> string option \<Rightarrow> bool" where
  "best_choice ns r \<longleftrightarrow> (case r of None \<Rightarrow> ns = {} | Some nid \<Rightarrow> least_loaded ns nid)"

lemma best_of_choice:
  assumes "set cs = query_of ` ns"
  shows "best_choice ns (best_of cs)"
proof (cases "best_of cs")
  case None
  then have "cs = []" by (simp add: best_of_spec(1))
  with assms None show ?thesis by (simp add: best_choice_def)
next
  case (Some nid)
  from best_of_spec(2) [OF Some] assms show ?thesis
    by (auto simp: Some least_loaded_def best_choice_def)
qed

text \<open>\<open>find_best_node\<close> returns a least loaded alive, healthy node among those that have the
  wanted capability, whether or not they have a free slot; if there is none, a least loaded one
  among all that have a free slot; and nothing only if there is none either. So the result
  depends on the order in which sets are iterated only among nodes with equal load.\<close>

theorem find_best_node_spec:
  assumes "registry_inv reg" and "iterates order"
  shows "let want = (if cap \<noteq> '''' then capable now reg cap
                     else if aff \<noteq> '''' then capable now reg aff else {})
         in best_choice (if want = {} then free now reg else want) (find_best_node order now aff cap reg)"
proof -
  note s = set_find_by_capability [OF assms]
  have e: "find_by_capability order now reg c = [] \<longleftrightarrow> capable now reg c = {}" for c
    using s [of now c] by (metis image_is_empty set_empty)
  show ?thesis
    unfolding find_best_node_def Let_def
    by (auto simp: e s set_free_nodes intro!: best_of_choice)
qed

definition sample_registry :: AgentRegistry where
  "sample_registry = fold registry_step
     [Register 0 \<lparr>reg_node_id = ''n1'', reg_hostname = ''h1'', reg_version = '''',
        reg_capabilities = Some [''llm''], reg_skills = None, reg_labels = None, reg_max_workers = 2\<rparr>,
      Register 0 \<lparr>reg_node_id = ''n2'', reg_hostname = ''h2'', reg_version = '''',
        reg_capabilities = Some [''search''], reg_skills = None, reg_labels = None, reg_max_workers = 4\<rparr>,
      Heartbeat 5 ''n1'' (Some 2) None, Heartbeat 5 ''n2'' (Some 1) None] (init_registry 10)"

lemma iterates_sorted: "iterates sorted_list_of_set"
  by (simp add: iterates_def)

text \<open>The busy node \<open>n1\<close> is chosen for its capability although only \<open>n2\<close> has free slots.\<close>

theorem find_best_node_spec_witness:
  "best_choice (capable 6 sample_registry ''llm'') (find_best_node sorted_list_of_set 6 '''' ''llm'' sample_registry) \<and>
     find_best_node sorted_list_of_set 6 '''' ''llm'' sample_registry = Some ''n1'' \<and>
     map_option available_slots (dict_get (nodes sample_registry) ''n1'') = Some 0"
proof -
  have inv: "registry_inv sample_registry"
    unfolding sample_registry_def by (rule reg.inv_run) simp
  have n: "nodes sample_registry = [(''n1'', \<lparr>node_id = ''n1'', hostname = ''h1'', version = '''',
        capabilities = [''llm''], skills = [], labels = [], max_workers = 2, active_workers = 2,
        last_heartbeat = Some 5, first_seen = 0, is_healthy = True, last_error = None\<rparr>),
      (''n2'', \<lparr>node_id = ''n2'', hostname = ''h2'', version = '''',
        capabilities = [''search''], skills = [], labels = [], max_workers = 4, active_workers = 1,
        last_heartbeat = Some 5, first_seen = 0, is_healthy = True, last_error = None\<rparr>)]"
    and t: "heartbeat_ttl sample_registry = 10"
    and i: "index_get (capability_index sample_registry) ''llm'' = {''n1''}"
    by (simp_all add: sample_registry_def register_node_def init_registry_def new_node_def
        heartbeat_def index_add_def index_get_def)
  have f: "find_best_node sorted_list_of_set 6 '''' ''llm'' sample_registry = Some ''n1''"
    by (simp add: find_best_node_def find_by_capability_def i n t usable_def is_alive_def
        List.map_filter_simps best_of_def query_of_def)
  have c: "capable 6 sample_registry ''llm'' \<noteq> {}"
    by (simp add: capable_def n t usable_def is_alive_def conj_disj_distribL conj_disj_distribR ex_disj_distrib)
  from find_best_node_spec [OF inv iterates_sorted, of "''llm''" 6 "''''"] f c show ?thesis
    by (simp add: Let_def n available_slots_def)
qed

end
