(* ===== verification/Human_Loop.thy ===== *)
theory Human_Loop
  imports Systems PyString "HOL-Library.Multiset"
begin

text \<open>
  Human oversight of agent tasks: the escalation queue (\<open>engine/agent_runtime/human_loop.py\<close>)
  and the approval gate (\<open>engine/agent_runtime/approval_gate.py\<close>). Callbacks are not
  modelled: they get values and their exceptions are swallowed.
\<close>

subsection \<open>The escalation queue\<close>

datatype EscalationReason =
  MAX_RETRIES | ESC_TIMEOUT | CRITICAL_ERROR | ESC_BUDGET | SECURITY_VIOLATION | ESC_MANUAL

datatype ReviewStatus = REV_PENDING | REV_APPROVED | REV_REJECTED | REV_MODIFIED

record EscalatedItem =
  esc_id :: string
  esc_task_id :: string
  esc_reason :: EscalationReason
  esc_error :: string
  esc_goal :: string
  esc_task_data :: "(string, string) dict"
  esc_status :: ReviewStatus
  esc_created_at :: datetime
  reviewed_by :: string
  reviewed_at :: "datetime option"
  esc_feedback :: string

record HumanLoop =
  escalation_threshold :: int
  esc_queue :: "EscalatedItem list"
  esc_resolved :: "EscalatedItem list"

definition init_human_loop :: "int \<Rightarrow> HumanLoop" where
  "init_human_loop n = \<lparr>escalation_threshold = n, esc_queue = [], esc_resolved = []\<rparr>"

text \<open>\<open>fresh\<close> is the random part of the new id; the task is given by its id, goal and context.\<close>

definition escalate :: "string \<Rightarrow> datetime \<Rightarrow> string \<Rightarrow> string \<Rightarrow> (string, string) dict \<Rightarrow> string
    \<Rightarrow> EscalationReason \<Rightarrow> HumanLoop \<Rightarrow> HumanLoop \<times> string" where
  "escalate fresh now tid g ctx err reason h =
     (let item = \<lparr>esc_id = ''esc-'' @ fresh, esc_task_id = tid, esc_reason = reason,
        esc_error = err, esc_goal = g, esc_task_data = ctx, esc_status = REV_PENDING,
        esc_created_at = now, reviewed_by = '''', reviewed_at = None, esc_feedback = ''''\<rparr>
      in (h\<lparr>esc_queue := esc_queue h @ [item]\<rparr>, esc_id item))"

definition find_in_queue :: "string \<Rightarrow> HumanLoop \<Rightarrow> EscalatedItem option" where
  "find_in_queue eid h = List.find (\<lambda>i. esc_id i = eid) (esc_queue h)"

text \<open>
  \<open>approve\<close> and \<open>reject\<close> differ in the status only. The item found is the first with its id;
  removing it from the list removes that one.
\<close>

definition review :: "ReviewStatus \<Rightarrow> string \<Rightarrow> string \<Rightarrow> string \<Rightarrow> datetime \<Rightarrow> HumanLoop \<Rightarrow> HumanLoop \<times> bool" where
  "review st eid user feedback now h =
     (case find_in_queue eid h of
        None \<Rightarrow> (h, False)
      | Some item \<Rightarrow>
          (h\<lparr>esc_queue := remove1 item (esc_queue h),
             esc_resolved := esc_resolved h @ [item\<lparr>esc_status := st, reviewed_by := user,
               reviewed_at := Some now, esc_feedback := feedback\<rparr>]\<rparr>, True))"

definition approve :: "string \<Rightarrow> string \<Rightarrow> string \<Rightarrow> datetime \<Rightarrow> HumanLoop \<Rightarrow> HumanLoop \<times> bool" where
  "approve = review REV_APPROVED"

definition reject :: "string \<Rightarrow> string \<Rightarrow> string \<Rightarrow> datetime \<Rightarrow> HumanLoop \<Rightarrow> HumanLoop \<times> bool" where
  "reject = review REV_REJECTED"

definition get_pending :: "HumanLoop \<Rightarrow> EscalatedItem list" where
  "get_pending h = filter (\<lambda>i. esc_status i = REV_PENDING) (esc_queue h)"

definition get_resolved :: "int \<Rightarrow> HumanLoop \<Rightarrow> EscalatedItem list" where
  "get_resolved limit h = py_drop (- limit) (esc_resolved h)"

definition total_escalated :: "HumanLoop \<Rightarrow> nat" where
  "total_escalated h = length (esc_queue h) + length (esc_resolved h)"

subsection \<open>The approval gate\<close>

datatype PauseReason = HUMAN_REVIEW | BUDGET_EXCEEDED | ERROR_THRESHOLD | MANUAL | SECURITY

fun pause_reason_value :: "PauseReason \<Rightarrow> string" where
  "pause_reason_value HUMAN_REVIEW = ''human_review''"
| "pause_reason_value BUDGET_EXCEEDED = ''budget_exceeded''"
| "pause_reason_value ERROR_THRESHOLD = ''error_threshold''"
| "pause_reason_value MANUAL = ''manual''"
| "pause_reason_value SECURITY = ''security''"

datatype ApprovalStatus = PENDING | APPROVED | REJECTED | TIMEOUT_AUTO | APP_CANCELLED

record PausedTask =
  p_task_id :: string
  p_reason :: PauseReason
  paused_at :: datetime
  resumed_at :: "datetime option"
  approval_status :: ApprovalStatus
  approved_by :: string
  rejected_by :: string
  p_feedback :: string
  p_goal :: string
  p_error :: string
  p_timeout :: "seconds option"

definition age_seconds :: "datetime \<Rightarrow> PausedTask \<Rightarrow> rat" where
  "age_seconds now p = of_int (now - paused_at p) / 1000000"

text \<open>A timeout of zero counts as none.\<close>

definition is_stale :: "datetime \<Rightarrow> PausedTask \<Rightarrow> bool" where
  "is_stale now p \<longleftrightarrow> (case p_timeout p of None \<Rightarrow> False | Some t \<Rightarrow> t \<noteq> 0 \<and> age_seconds now p > t)"

record ActionLog =
  act_action :: string
  act_task_id :: string
  act_user :: string
  act_detail :: string
  act_timestamp :: datetime

record ApprovalGate =
  gate_timeout :: "seconds option"
  paused :: "(string, PausedTask) dict"
  resolved :: "PausedTask list"
  audit_log :: "ActionLog list"

definition init_gate :: "seconds option \<Rightarrow> ApprovalGate" where
  "init_gate t = \<lparr>gate_timeout = t, paused = [], resolved = [], audit_log = []\<rparr>"

definition timeout_or :: "seconds option \<Rightarrow> seconds option \<Rightarrow> seconds option" where
  "timeout_or a b = (case a of None \<Rightarrow> b | Some t \<Rightarrow> if t = 0 then b else Some t)"

text \<open>The detail joins its two parts with a dash (U+2014).\<close>

definition pause_detail :: "PauseReason \<Rightarrow> string \<Rightarrow> string \<Rightarrow> string" where
  "pause_detail reason err feedback = ''Paused: '' @ pause_reason_value reason @
     '' '' @ [CHR 0xE2, CHR 0x80, CHR 0x94] @ '' '' @
     (if err \<noteq> '''' then utf8_take 100 err else utf8_take 100 feedback)"

definition pause_task :: "string \<Rightarrow> PauseReason \<Rightarrow> string \<Rightarrow> string \<Rightarrow> string \<Rightarrow> seconds option
    \<Rightarrow> datetime \<Rightarrow> ApprovalGate \<Rightarrow> ApprovalGate" where
  "pause_task tid reason feedback g err t now gate = gate
     \<lparr>paused := dict_set tid \<lparr>p_task_id = tid, p_reason = reason, paused_at = now, resumed_at = None,
          approval_status = PENDING, approved_by = '''', rejected_by = '''', p_feedback = feedback,
          p_goal = g, p_error = err, p_timeout = timeout_or t (gate_timeout gate)\<rparr> (paused gate),
      audit_log := audit_log gate @ [\<lparr>act_action = ''pause'', act_task_id = tid,
          act_user = ''system'', act_detail = pause_detail reason err feedback, act_timestamp = now\<rparr>]\<rparr>"

definition approve_task :: "string \<Rightarrow> string \<Rightarrow> string \<Rightarrow> datetime \<Rightarrow> ApprovalGate \<Rightarrow> ApprovalGate \<times> bool" where
  "approve_task tid user feedback now gate =
     (case dict_get (paused gate) tid of
        None \<Rightarrow> (gate, False)
      | Some p \<Rightarrow>
          (gate\<lparr>paused := dict_del tid (paused gate),
                resolved := resolved gate @ [p\<lparr>approval_status := APPROVED, approved_by := user,
                  p_feedback := feedback, resumed_at := Some now\<rparr>],
                audit_log := audit_log gate @ [\<lparr>act_action = ''approve'', act_task_id = tid,
                  act_user = user, act_detail = feedback, act_timestamp = now\<rparr>]\<rparr>, True))"

definition reject_task :: "string \<Rightarrow> string \<Rightarrow> string \<Rightarrow> datetime \<Rightarrow> ApprovalGate \<Rightarrow> ApprovalGate \<times> bool" where
  "reject_task tid user feedback now gate =
     (case dict_get (paused gate) tid of
        None \<Rightarrow> (gate, False)
      | Some p \<Rightarrow>
          (gate\<lparr>paused := dict_del tid (paused gate),
                resolved := resolved gate @ [p\<lparr>approval_status := REJECTED, rejected_by := user,
                  p_feedback := feedback, resumed_at := Some now\<rparr>],
                audit_log := audit_log gate @ [\<lparr>act_action = ''reject'', act_task_id = tid,
                  act_user = user, act_detail = feedback, act_timestamp = now\<rparr>]\<rparr>, True))"

definition get_paused :: "ApprovalGate \<Rightarrow> PausedTask list" where
  "get_paused gate = filter (\<lambda>p. approval_status p = PENDING) (dict_values (paused gate))"

definition get_audit_log :: "int \<Rightarrow> ApprovalGate \<Rightarrow> ActionLog list" where
  "get_audit_log limit gate = py_drop (- limit) (audit_log gate)"

fun auto_approve :: "datetime \<Rightarrow> (string \<times> PausedTask) list \<Rightarrow> ApprovalGate \<Rightarrow> ApprovalGate \<times> string list" where
  "auto_approve now [] gate = (gate, [])"
| "auto_approve now ((tid, p) # ps) gate =
     (if is_stale now p then
        let gate = gate\<lparr>paused := dict_del tid (paused gate),
              resolved := resolved gate @ [p\<lparr>approval_status := TIMEOUT_AUTO, resumed_at := Some now\<rparr>]\<rparr>;
            (gate, ids) = auto_approve now ps gate
        in (gate, tid # ids)
      else auto_approve now ps gate)"

definition auto_approve_stale :: "datetime \<Rightarrow> ApprovalGate \<Rightarrow> ApprovalGate \<times> string list" where
  "auto_approve_stale now gate = auto_approve now (paused gate) gate"

subsection \<open>Escalations are neither lost nor decided twice\<close>

datatype loop_op =
    Escalate string datetime string string "(string, string) dict" string EscalationReason
  | Approve string string string datetime
  | Reject string string string datetime

fun loop_step :: "loop_op \<Rightarrow> HumanLoop \<Rightarrow> HumanLoop" where
  "loop_step (Escalate fresh now tid g ctx err r) h = fst (escalate fresh now tid g ctx err r h)"
| "loop_step (Approve eid user fb now) h = fst (approve eid user fb now h)"
| "loop_step (Reject eid user fb now) h = fst (reject eid user fb now h)"

fun escalated :: "loop_op \<Rightarrow> string list" where
  "escalated (Escalate fresh now tid g ctx err r) = [''esc-'' @ fresh]"
| "escalated _ = []"

definition esc_ids :: "HumanLoop \<Rightarrow> string multiset" where
  "esc_ids h = mset (map esc_id (esc_queue h)) + mset (map esc_id (esc_resolved h))"

lemma review_ids: "esc_ids (fst (review st eid user fb now h)) = esc_ids h"
proof (cases "find_in_queue eid h")
  case (Some item)
  then have "item \<in> set (esc_queue h)"
    by (auto simp: find_in_queue_def find_Some_iff)
  then have "mset (map esc_id (esc_queue h)) = add_mset (esc_id item) (mset (map esc_id (remove1 item (esc_queue h))))"
    by (metis image_mset_add_mset insert_DiffM mset_map mset_remove1 set_mset_mset)
  then show ?thesis by (simp add: review_def Some esc_ids_def)
qed (simp add: review_def)

definition loop_inv :: "HumanLoop \<Rightarrow> bool" where
  "loop_inv h \<longleftrightarrow> (\<forall>i\<in>set (esc_queue h). esc_status i = REV_PENDING) \<and>
     (\<forall>i\<in>set (esc_resolved h). esc_status i \<in> {REV_APPROVED, REV_REJECTED})"

lemma review_inv:
  "loop_inv h \<Longrightarrow> st \<in> {REV_APPROVED, REV_REJECTED} \<Longrightarrow> loop_inv (fst (review st eid user fb now h))"
  by (auto simp: loop_inv_def review_def split: option.split dest: set_remove1_subset [THEN subsetD])

lemma loop_step_inv: "loop_inv h \<Longrightarrow> loop_inv (loop_step op h)"
  by (cases op) (simp_all add: approve_def reject_def review_inv,
    auto simp: loop_inv_def escalate_def Let_def)

interpretation hl: invariant_system loop_step loop_inv
  by unfold_locales (rule loop_step_inv)

text \<open>No escalation is lost and none is decided twice: after any sequence of escalations and
  reviews the ids in the queue together with those of the resolved items are exactly the ids that were
  handed out, and exactly the items in the queue are pending.\<close>

theorem escalations_conserved:
  "let h = fold loop_step ops (init_human_loop n)
   in esc_ids h = mset (concat (map escalated ops)) \<and> get_pending h = esc_queue h \<and>
      filter (\<lambda>i. esc_status i = REV_PENDING) (esc_resolved h) = []"
proof -
  have "esc_ids (loop_step op h) = esc_ids h + mset (escalated op)" for op h
    by (cases op) (simp_all add: approve_def reject_def review_ids, simp add: escalate_def Let_def esc_ids_def)
  then have "esc_ids (fold loop_step ops h) = esc_ids h + mset (concat (map escalated ops))" for h
    by (induction ops arbitrary: h) (simp_all add: add_ac)
  moreover have "loop_inv (fold loop_step ops (init_human_loop n))"
    by (rule hl.inv_run) (simp add: loop_inv_def init_human_loop_def)
  ultimately show ?thesis
    by (auto simp: Let_def esc_ids_def init_human_loop_def get_pending_def loop_inv_def filter_id_conv
        filter_empty_conv)
qed

subsection \<open>The audit trail of the gate\<close>

datatype gate_op =
    PauseTask string PauseReason string string string "seconds option" datetime
  | ApproveTask string string string datetime
  | RejectTask string string string datetime
  | AutoApprove datetime

fun gate_step :: "gate_op \<Rightarrow> ApprovalGate \<Rightarrow> ApprovalGate" where
  "gate_step (PauseTask tid r fb g err t now) gate = pause_task tid r fb g err t now gate"
| "gate_step (ApproveTask tid user fb now) gate = fst (approve_task tid user fb now gate)"
| "gate_step (RejectTask tid user fb now) gate = fst (reject_task tid user fb now gate)"
| "gate_step (AutoApprove now) gate = fst (auto_approve_stale now gate)"

text \<open>The entry that a decided task should have left in the audit trail.\<close>

definition decision :: "PausedTask \<Rightarrow> string \<times> string \<times> string \<times> string \<times> datetime option" where
  "decision p = (if approval_status p = APPROVED then ''approve'' else ''reject'', p_task_id p,
     if approval_status p = APPROVED then approved_by p else rejected_by p, p_feedback p, resumed_at p)"

definition logged_decision :: "ActionLog \<Rightarrow> string \<times> string \<times> string \<times> string \<times> datetime option" where
  "logged_decision a = (act_action a, act_task_id a, act_user a, act_detail a, Some (act_timestamp a))"

definition gate_inv :: "ApprovalGate \<Rightarrow> bool" where
  "gate_inv gate \<longleftrightarrow> dict_wf (paused gate) \<and>
     list_all (\<lambda>(tid, p). p_task_id p = tid \<and> approval_status p = PENDING) (paused gate) \<and>
     map logged_decision (filter (\<lambda>a. act_action a \<noteq> ''pause'') (audit_log gate)) =
     map decision (filter (\<lambda>p. approval_status p \<noteq> TIMEOUT_AUTO) (resolved gate))"

lemma list_all_update: "list_all P d \<Longrightarrow> P (k, v) \<Longrightarrow> list_all P (dict_set k v d)"
  by (induction d) auto

lemma list_all_delete: "list_all P d \<Longrightarrow> list_all P (dict_del k d)"
  by (auto simp: list_all_iff set_dict_del)

lemma list_all_get: "list_all P d \<Longrightarrow> dict_get d k = Some v \<Longrightarrow> P (k, v)"
  by (auto simp: list_all_iff dest: map_of_SomeD)

lemma pause_inv: "gate_inv gate \<Longrightarrow> gate_inv (pause_task tid r fb g err t now gate)"
  by (simp add: gate_inv_def pause_task_def list_all_update)

lemma approve_task_inv: "gate_inv gate \<Longrightarrow> gate_inv (fst (approve_task tid user fb now gate))"
  by (cases "dict_get (paused gate) tid")
    (auto simp: gate_inv_def approve_task_def list_all_delete decision_def logged_decision_def
      dest: list_all_get)

lemma reject_task_inv: "gate_inv gate \<Longrightarrow> gate_inv (fst (reject_task tid user fb now gate))"
  by (cases "dict_get (paused gate) tid")
    (auto simp: gate_inv_def reject_task_def list_all_delete decision_def logged_decision_def
      dest: list_all_get)

lemma auto_approve_inv: "gate_inv gate \<Longrightarrow> gate_inv (fst (auto_approve now ps gate))"
proof (induction now ps gate rule: auto_approve.induct)
  case (2 now tid p ps gate)
  show ?case
  proof (cases "is_stale now p")
    case True
    have "gate_inv (gate\<lparr>paused := dict_del tid (paused gate),
        resolved := resolved gate @ [p\<lparr>approval_status := TIMEOUT_AUTO, resumed_at := Some now\<rparr>]\<rparr>)"
      using "2.prems" by (simp add: gate_inv_def list_all_delete)
    from "2.IH"(1) [OF True refl this] True show ?thesis
      by (simp add: Let_def case_prod_unfold)
  qed (use 2 in simp)
qed simp

lemma gate_step_inv: "gate_inv gate \<Longrightarrow> gate_inv (gate_step op gate)"
  by (cases op) (simp_all add: pause_inv approve_task_inv reject_task_inv auto_approve_inv auto_approve_stale_def)

interpretation ag: invariant_system gate_step gate_inv
  by unfold_locales (rule gate_step_inv)

text \<open>The audit trail holds, in order, exactly the decisions of users: task, user, feedback
  and time of every approval and rejection. A task that was approved because its timeout passed has no entry,
  and every paused task is pending.\<close>

theorem audit_trail_complete:
  "let gate = fold gate_step ops (init_gate t)
   in map logged_decision (filter (\<lambda>a. act_action a \<noteq> ''pause'') (audit_log gate)) =
        map decision (filter (\<lambda>p. approval_status p \<noteq> TIMEOUT_AUTO) (resolved gate)) \<and>
      get_paused gate = dict_values (paused gate)"
proof -
  have "gate_inv (fold gate_step ops (init_gate t))"
    by (rule ag.inv_run) (simp add: gate_inv_def init_gate_def)
  then show ?thesis
    by (auto simp: Let_def gate_inv_def get_paused_def list_all_iff filter_id_conv)
qed

end
