(* ===== verification/Coordinator.thy ===== *)
theory Coordinator
  imports Task_Queue Agent_Registry Human_Loop
begin

text \<open>
  The coordinator of the agent runtime (\<open>engine/agent_runtime/coordinator.py\<close>) with its
  scheduler (\<open>engine/agent_runtime/scheduler.py\<close>), on top of the task queue, the node registry
  and the escalation queue. An operation runs to its end before the next one starts: the only
  suspension points inside are those of the log's lock. The clocks are read once per
  operation: \<open>now\<close> is \<open>datetime.now()\<close>, \<open>secs\<close> is \<open>time.time()\<close>. The callbacks that an
  operation fires are the list \<open>events\<close>. The random part of new ids is the argument \<open>fresh\<close>.
\<close>

subsection \<open>State\<close>

datatype CoordinatorStatus = STANDBY | ACTIVE | FAILING_OVER | STOPPED

record CoordinatorConfig =
  cfg_node_id :: string
  cfg_heartbeat_ttl :: seconds
  cfg_max_task_retries :: int
  cfg_task_timeout :: seconds
  cfg_enable_human_loop :: bool
  cfg_escalation_threshold :: int
  cfg_auto_reassign :: bool

datatype coord_event =
    TaskCompleted string "(string, string) dict"
  | TaskFailed string string
  | TaskEscalated string string

record Coordinator =
  config :: CoordinatorConfig
  coord_status :: CoordinatorStatus
  running :: bool
  queue :: TaskQueue
  registry :: AgentRegistry
  assignments :: "(string, string) dict"
  total_scheduled :: nat
  total_failed_assign :: nat
  human_loop :: "HumanLoop option"
  tasks_assigned :: nat
  tasks_completed :: nat
  tasks_failed :: nat
  events :: "coord_event list"

text \<open>\<open>start\<close> of a new coordinator on the log \<open>w\<close>.\<close>

definition start :: "CoordinatorConfig \<Rightarrow> (nat \<Rightarrow> datetime) \<Rightarrow> (nat \<Rightarrow> seconds) \<Rightarrow> task_wal option list \<Rightarrow> Coordinator" where
  "start cfg nows clks w = \<lparr>config = cfg, coord_status = ACTIVE, running = True,
     queue = init_queue nows clks w, registry = init_registry (cfg_heartbeat_ttl cfg),
     assignments = [], total_scheduled = 0, total_failed_assign = 0,
     human_loop = (if cfg_enable_human_loop cfg
       then Some (init_human_loop (cfg_escalation_threshold cfg)) else None),
     tasks_assigned = 0, tasks_completed = 0, tasks_failed = 0, events = []\<rparr>"

definition stop :: "Coordinator \<Rightarrow> Coordinator" where
  "stop c = c\<lparr>running := False, coord_status := STOPPED, queue := close (queue c)\<rparr>"

subsection \<open>Scheduler\<close>

text \<open>The empty id counts as no node.\<close>

definition picked :: "string option \<Rightarrow> string option" where
  "picked r = (case r of None \<Rightarrow> None | Some nid \<Rightarrow> if nid = '''' then None else Some nid)"

definition assign :: "Task \<Rightarrow> string \<Rightarrow> datetime \<Rightarrow> Coordinator \<Rightarrow> Coordinator" where
  "assign t nid now c = c\<lparr>queue := fst (acknowledge (task_id t) nid now (queue c)),
     assignments := dict_set (task_id t) nid (assignments c),
     total_scheduled := total_scheduled c + 1\<rparr>"

fun pick_by_tools :: "(string set \<Rightarrow> string list) \<Rightarrow> seconds \<Rightarrow> string list \<Rightarrow> AgentRegistry \<Rightarrow> string option" where
  "pick_by_tools order secs [] reg = None"
| "pick_by_tools order secs (tool # ts) reg =
     (case picked (find_best_node order secs '''' tool reg) of
        Some nid \<Rightarrow> Some nid | None \<Rightarrow> pick_by_tools order secs ts reg)"

definition pick_node :: "(string set \<Rightarrow> string list) \<Rightarrow> seconds \<Rightarrow> Task \<Rightarrow> AgentRegistry \<Rightarrow> string option" where
  "pick_node order secs t reg =
     (case (if affinity t = '''' then None else picked (find_best_node order secs (affinity t) '''' reg)) of
        Some nid \<Rightarrow> Some nid
      | None \<Rightarrow> (case pick_by_tools order secs (take 3 (tools t)) reg of
            Some nid \<Rightarrow> Some nid
          | None \<Rightarrow> picked (find_best_node order secs '''' '''' reg)))"

definition schedule :: "(string set \<Rightarrow> string list) \<Rightarrow> datetime \<Rightarrow> seconds \<Rightarrow> Task
    \<Rightarrow> Coordinator \<Rightarrow> Coordinator \<times> string option" where
  "schedule order now secs t c =
     (if task_status t \<noteq> QUEUED then (c, None)
      else case pick_node order secs t (registry c) of
        Some nid \<Rightarrow> (assign t nid now c, Some nid)
      | None \<Rightarrow> (c\<lparr>total_failed_assign := total_failed_assign c + 1\<rparr>, None))"

fun try_assign_loop :: "(string set \<Rightarrow> string list) \<Rightarrow> datetime \<Rightarrow> seconds \<Rightarrow> nat \<Rightarrow> Coordinator \<Rightarrow> Coordinator \<times> nat" where
  "try_assign_loop order now secs 0 c = (c, 0)"
| "try_assign_loop order now secs (Suc n) c =
     (let (q, found) = dequeue '''' (queue c); c = c\<lparr>queue := q\<rparr> in
      case found of
        None \<Rightarrow> (c, 0)
      | Some t \<Rightarrow> (case schedule order now secs t c of
            (c, Some _) \<Rightarrow> (let (c, k) = try_assign_loop order now secs n c in (c, k + 1))
          | (c, None) \<Rightarrow> (c\<lparr>queue := fst (enqueue '''' now secs t (queue c))\<rparr>, 0)))"

definition try_assign :: "(string set \<Rightarrow> string list) \<Rightarrow> datetime \<Rightarrow> seconds \<Rightarrow> Coordinator \<Rightarrow> Coordinator \<times> nat" where
  "try_assign order now secs c = try_assign_loop order now secs (min 50 (queue_depth (queue c))) c"

definition get_tasks_for_node :: "string \<Rightarrow> Coordinator \<Rightarrow> string list" where
  "get_tasks_for_node nid c = map fst (filter (\<lambda>(tid, n). n = nid) (assignments c))"

subsection \<open>Operations of the coordinator\<close>

record submission =
  sub_goal :: string
  sub_priority :: int
  sub_affinity :: string
  sub_context :: "(string, string) dict"
  sub_tools :: "string list"
  sub_max_steps :: int
  sub_parent :: string

definition submitted_task :: "string \<Rightarrow> datetime \<Rightarrow> submission \<Rightarrow> Coordinator \<Rightarrow> Task" where
  "submitted_task tid now s c = (new_task tid (sub_goal s) (sub_priority s) (sub_affinity s) now)
     \<lparr>task_context := sub_context s, tools := sub_tools s, max_steps := sub_max_steps s,
      parent_task := sub_parent s, max_retries := cfg_max_task_retries (config c)\<rparr>"

definition submit_task :: "(string set \<Rightarrow> string list) \<Rightarrow> string \<Rightarrow> datetime \<Rightarrow> seconds \<Rightarrow> submission
    \<Rightarrow> Coordinator \<Rightarrow> Coordinator \<times> string" where
  "submit_task order fresh now secs s c =
     (let tid = ''task-'' @ fresh;
          c = c\<lparr>queue := fst (enqueue '''' now secs (submitted_task tid now s c) (queue c))\<rparr>
      in (fst (try_assign order now secs c), tid))"

text \<open>The data of a heartbeat; a missing key is \<^const>\<open>None\<close>.\<close>

record heartbeat_data =
  hb_active :: "int option"
  hb_slots :: "int option"
  hb_hostname :: "string option"
  hb_capabilities :: "string list option"
  hb_max_workers :: "int option"

definition auto_registration :: "string \<Rightarrow> heartbeat_data \<Rightarrow> registration" where
  "auto_registration nid d = \<lparr>reg_node_id = nid,
     reg_hostname = (case hb_hostname d of None \<Rightarrow> '''' | Some h \<Rightarrow> h), reg_version = '''',
     reg_capabilities = Some (case hb_capabilities d of None \<Rightarrow> [] | Some cs \<Rightarrow> cs),
     reg_skills = None, reg_labels = None,
     reg_max_workers = (case hb_max_workers d of None \<Rightarrow> 3 | Some n \<Rightarrow> n)\<rparr>"

definition coord_heartbeat :: "(string set \<Rightarrow> string list) \<Rightarrow> datetime \<Rightarrow> seconds \<Rightarrow> string
    \<Rightarrow> heartbeat_data \<Rightarrow> Coordinator \<Rightarrow> Coordinator \<times> bool" where
  "coord_heartbeat order now secs nid d c =
     (let (reg, registered) = heartbeat secs nid (hb_active d) (hb_slots d) (registry c);
          reg = (if registered then reg else register_node secs (auto_registration nid d) reg)
      in (fst (try_assign order now secs (c\<lparr>registry := reg\<rparr>)), True))"

record polled_task =
  pol_task_id :: string
  pol_goal :: string
  pol_context :: "(string, string) dict"
  pol_tools :: "string list"
  pol_max_steps :: int
  pol_priority :: int

definition polled :: "Task \<Rightarrow> polled_task" where
  "polled t = \<lparr>pol_task_id = task_id t, pol_goal = goal t, pol_context = task_context t,
     pol_tools = tools t, pol_max_steps = max_steps t, pol_priority = task_priority t\<rparr>"

text \<open>First with the node's affinity, then with none.\<close>

definition dequeue_for :: "string \<Rightarrow> TaskQueue \<Rightarrow> TaskQueue \<times> Task option" where
  "dequeue_for aff q = (case dequeue aff q of (q, Some t) \<Rightarrow> (q, Some t) | (q, None) \<Rightarrow> dequeue '''' q)"

fun poll_loop :: "string \<Rightarrow> string \<Rightarrow> datetime \<Rightarrow> nat \<Rightarrow> Coordinator \<Rightarrow> Coordinator \<times> polled_task list" where
  "poll_loop aff nid now 0 c = (c, [])"
| "poll_loop aff nid now (Suc n) c =
     (case dequeue_for aff (queue c) of
        (q, None) \<Rightarrow> (c\<lparr>queue := q\<rparr>, [])
      | (q, Some t) \<Rightarrow>
          (let c = c\<lparr>queue := fst (acknowledge (task_id t) nid now q), tasks_assigned := tasks_assigned c + 1\<rparr>;
               (c, ts) = poll_loop aff nid now n c
           in (c, polled t # ts)))"

definition poll_tasks :: "string \<Rightarrow> int \<Rightarrow> datetime \<Rightarrow> Coordinator \<Rightarrow> Coordinator \<times> polled_task list" where
  "poll_tasks nid max_tasks now c =
     (case dict_get (nodes (registry c)) nid of
        None \<Rightarrow> (c, [])
      | Some n \<Rightarrow> poll_loop (case capabilities n of [] \<Rightarrow> '''' | cap # _ \<Rightarrow> cap) nid now
          (nat (min max_tasks (max 0 (max_workers n - active_workers n)))) c)"

definition escalate_task :: "string \<Rightarrow> datetime \<Rightarrow> string \<Rightarrow> string \<Rightarrow> Coordinator \<Rightarrow> Coordinator" where
  "escalate_task fresh now tid err c =
     (case dict_get (tasks (queue c)) tid of
        None \<Rightarrow> c
      | Some t \<Rightarrow>
          if retry_count t \<ge> cfg_escalation_threshold (config c) then
            c\<lparr>human_loop := map_option (\<lambda>h. fst (escalate fresh now (task_id t) (goal t)
                (task_context t) err MAX_RETRIES h)) (human_loop c),
              events := events c @ [TaskEscalated tid err]\<rparr>
          else c)"

definition report_result :: "string \<Rightarrow> datetime \<Rightarrow> seconds \<Rightarrow> string \<Rightarrow> bool \<Rightarrow> (string, string) dict
    \<Rightarrow> string \<Rightarrow> Coordinator \<Rightarrow> Coordinator \<times> bool" where
  "report_result fresh now secs tid success res err c =
     (if success then
        let (q, ok) = complete tid res now (queue c); c = c\<lparr>queue := q\<rparr>
        in if ok then (c\<lparr>tasks_completed := tasks_completed c + 1,
             events := events c @ [TaskCompleted tid res]\<rparr>, True) else (c, False)
      else
        let (q, ok) = fail tid err True now secs (queue c); c = c\<lparr>queue := q\<rparr>
        in if ok then (escalate_task fresh now tid err (c\<lparr>tasks_failed := tasks_failed c + 1,
             events := events c @ [TaskFailed tid err]\<rparr>), True) else (c, False))"

definition cancel_task :: "string \<Rightarrow> Coordinator \<Rightarrow> Coordinator \<times> bool" where
  "cancel_task tid c = (let (q, ok) = cancel tid (queue c) in (c\<lparr>queue := q\<rparr>, ok))"

subsection \<open>Background loops\<close>

text \<open>One round of each loop.\<close>

definition elapsed :: "datetime \<Rightarrow> datetime \<Rightarrow> rat" where
  "elapsed now since = of_int (now - since) / 1000000"

definition timeout_error :: "rat \<Rightarrow> string" where
  "timeout_error e = ''Timed out after '' @ show_int (round_half_even e) @ ''s''"

definition timeout_one :: "datetime \<Rightarrow> seconds \<Rightarrow> string \<Rightarrow> Coordinator \<Rightarrow> Coordinator" where
  "timeout_one now secs tid c =
     (case Option.bind (dict_get (tasks (queue c)) tid) assigned_at of
        None \<Rightarrow> c
      | Some since \<Rightarrow>
          if elapsed now since > cfg_task_timeout (config c)
          then c\<lparr>queue := fst (fail tid (timeout_error (elapsed now since)) True now secs (queue c))\<rparr> else c)"

definition timeout_round :: "datetime \<Rightarrow> seconds \<Rightarrow> Coordinator \<Rightarrow> Coordinator" where
  "timeout_round now secs c =
     fold (timeout_one now secs) (map task_id (list_tasks (Some RUNNING) 50 (queue c))) c"

definition cleanup_round :: "seconds \<Rightarrow> Coordinator \<Rightarrow> Coordinator" where
  "cleanup_round secs c = c\<lparr>registry := fst (cleanup_stale_nodes secs (registry c))\<rparr>"

definition node_dead :: "seconds \<Rightarrow> string \<Rightarrow> Coordinator \<Rightarrow> bool" where
  "node_dead secs nid c \<longleftrightarrow> (case dict_get (nodes (registry c)) nid of
     None \<Rightarrow> False | Some n \<Rightarrow> \<not> is_alive secs (cfg_heartbeat_ttl (config c)) n)"

definition reassign_one :: "datetime \<Rightarrow> seconds \<Rightarrow> string \<Rightarrow> Coordinator \<Rightarrow> Coordinator" where
  "reassign_one now secs tid c =
     (case dict_get (tasks (queue c)) tid of
        None \<Rightarrow> c
      | Some t \<Rightarrow>
          if assigned_node t \<noteq> '''' \<and> node_dead secs (assigned_node t) c then
            (let q = (queue c)\<lparr>tasks := dict_set tid (t\<lparr>assigned_node := ''''\<rparr>) (tasks (queue c))\<rparr>
             in c\<lparr>queue := fst (fail tid ''Node lost'' True now secs q)\<rparr>)
          else c)"

definition reassign_round :: "datetime \<Rightarrow> seconds \<Rightarrow> Coordinator \<Rightarrow> Coordinator" where
  "reassign_round now secs c =
     (if cfg_auto_reassign (config c)
      then fold (reassign_one now secs) (map task_id (list_tasks (Some ASSIGNED) 50 (queue c))) c
      else c)"

subsection \<open>What every operation keeps\<close>

definition coord_inv :: "Coordinator \<Rightarrow> bool" where
  "coord_inv c \<longleftrightarrow> queue_inv (queue c) \<and> logged (queue c) \<and> finite (queued_ids (queue c)) \<and>
     registry_inv (registry c)"

lemma coord_invD:
  assumes "coord_inv c"
  shows "queue_inv (queue c)" "logged (queue c)" "finite (queued_ids (queue c))" "registry_inv (registry c)"
  using assms unfolding coord_inv_def by blast+

lemma coord_inv_queue:
  "coord_inv c \<Longrightarrow> queue_inv q \<Longrightarrow> logged q \<Longrightarrow> finite (queued_ids q) \<Longrightarrow> coord_inv (c\<lparr>queue := q\<rparr>)"
  by (simp add: coord_inv_def)

lemma finite_queued:
  assumes "finite (queued_ids q)"
  shows "finite (queued_ids (fst (enqueue fresh now clk t q)))"
    and "finite (queued_ids (fst (acknowledge tid node now q)))"
    and "finite (queued_ids (fst (complete tid res now q)))"
    and "finite (queued_ids (fst (fail tid err retry now clk q)))"
    and "finite (queued_ids (fst (cancel tid q)))"
    and "finite (queued_ids (fst (dequeue aff q)))"
  using assms by (auto simp: queue_defs dequeue_def split: option.split prod.split)

lemma finite_queued_init: "finite (queued_ids (init_queue nows clks w))"
proof -
  have "finite (queued_ids q) \<Longrightarrow> finite (queued_ids (replay_entry now clk l q))" for now clk l q
    by (induction now clk l q rule: replay_entry.induct) (auto simp: put_task_def Let_def split: option.split)
  then have "finite (queued_ids q) \<Longrightarrow> finite (queued_ids (replay_lines nows clks n ls q))" for n ls q
    by (induction ls arbitrary: n q) simp_all
  then show ?thesis by (simp add: init_queue_def empty_queue_def)
qed

lemma coord_queue_ops:
  assumes "coord_inv c"
  shows "coord_inv (c\<lparr>queue := fst (enqueue fresh now clk t (queue c))\<rparr>)"
    and "coord_inv (c\<lparr>queue := fst (acknowledge tid node now (queue c))\<rparr>)"
    and "coord_inv (c\<lparr>queue := fst (complete tid res now (queue c))\<rparr>)"
    and "coord_inv (c\<lparr>queue := fst (fail tid err retry now clk (queue c))\<rparr>)"
    and "coord_inv (c\<lparr>queue := fst (cancel tid (queue c))\<rparr>)"
    and "coord_inv (c\<lparr>queue := fst (dequeue aff (queue c))\<rparr>)"
  using coord_invD [OF assms]
  by (auto intro!: coord_inv_queue [OF assms] simp: finite_queued enqueue_inv enqueue_logged
      acknowledge_inv acknowledge_logged complete_inv complete_logged fail_inv fail_logged
      cancel_inv cancel_logged dequeue_inv dequeue_logged)

lemma coord_inv_other [simp]:
  "coord_inv (c\<lparr>assignments := a\<rparr>) = coord_inv c" "coord_inv (c\<lparr>total_scheduled := n\<rparr>) = coord_inv c"
  "coord_inv (c\<lparr>total_failed_assign := n\<rparr>) = coord_inv c" "coord_inv (c\<lparr>human_loop := h\<rparr>) = coord_inv c"
  "coord_inv (c\<lparr>tasks_assigned := n\<rparr>) = coord_inv c" "coord_inv (c\<lparr>tasks_completed := n\<rparr>) = coord_inv c"
  "coord_inv (c\<lparr>tasks_failed := n\<rparr>) = coord_inv c" "coord_inv (c\<lparr>events := e\<rparr>) = coord_inv c"
  by (simp_all add: coord_inv_def)

lemma assign_inv: "coord_inv c \<Longrightarrow> coord_inv (assign t nid now c)"
  using coord_queue_ops(2) [of c "task_id t" nid now] by (simp add: assign_def coord_inv_def)

lemma schedule_inv: "coord_inv c \<Longrightarrow> coord_inv (fst (schedule order now secs t c))"
  by (simp add: schedule_def assign_inv split: option.split)

lemma try_assign_loop_inv: "coord_inv c \<Longrightarrow> coord_inv (fst (try_assign_loop order now secs n c))"
proof (induction n arbitrary: c)
  case (Suc n)
  obtain q f where d: "dequeue '''' (queue c) = (q, f)" by fastforce
  have q: "coord_inv (c\<lparr>queue := q\<rparr>)"
    using coord_queue_ops(6) [OF Suc.prems, of "''''"] by (simp add: d)
  show ?case
  proof (cases f)
    case None
    with q show ?thesis by (simp add: d)
  next
    case (Some t)
    obtain c' r where s: "schedule order now secs t (c\<lparr>queue := q\<rparr>) = (c', r)" by fastforce
    have c': "coord_inv c'" using schedule_inv [OF q, of order now secs t] by (simp add: s)
    with Suc.IH [OF c'] coord_queue_ops(1) [OF c'] show ?thesis
      by (cases r; cases "try_assign_loop order now secs n c'") (simp_all add: d Some s Let_def)
  qed
qed simp

lemma try_assign_inv: "coord_inv c \<Longrightarrow> coord_inv (fst (try_assign order now secs c))"
  by (simp add: try_assign_def try_assign_loop_inv)

lemma submit_task_inv: "coord_inv c \<Longrightarrow> coord_inv (fst (submit_task order fresh now secs s c))"
  by (simp add: submit_task_def Let_def try_assign_inv coord_queue_ops(1))

lemma coord_heartbeat_inv: "coord_inv c \<Longrightarrow> coord_inv (fst (coord_heartbeat order now secs nid d c))"
proof -
  assume c: "coord_inv c"
  have "coord_inv (c\<lparr>registry := (if b then fst (heartbeat secs nid x y (registry c))
      else register_node secs r (fst (heartbeat secs nid x y (registry c))))\<rparr>)" for b x y r
    using coord_invD [OF c] by (simp add: coord_inv_def heartbeat_inv register_node_inv)
  then show ?thesis
    by (simp add: coord_heartbeat_def case_prod_unfold Let_def try_assign_inv)
qed

lemma dequeue_for_cases:
  obtains "dequeue_for aff q = dequeue aff q" | "dequeue_for aff q = dequeue '''' (fst (dequeue aff q))"
  by (cases "dequeue aff q"; cases "snd (dequeue aff q)") (auto simp: dequeue_for_def)

lemma dequeue_for_inv:
  assumes "coord_inv c"
  shows "coord_inv (c\<lparr>queue := fst (dequeue_for aff (queue c))\<rparr>)"
  using coord_queue_ops(6) [OF assms, of aff]
    coord_queue_ops(6) [OF coord_queue_ops(6) [OF assms, of aff], of "''''"]
  by (cases rule: dequeue_for_cases [of aff "queue c"]) simp_all

lemma poll_loop_inv: "coord_inv c \<Longrightarrow> coord_inv (fst (poll_loop aff nid now n c))"
proof (induction n arbitrary: c)
  case (Suc n)
  obtain q f where d: "dequeue_for aff (queue c) = (q, f)" by fastforce
  have q: "coord_inv (c\<lparr>queue := q\<rparr>)"
    using dequeue_for_inv [OF Suc.prems, of aff] by (simp add: d)
  show ?case
  proof (cases f)
    case None
    with q show ?thesis by (simp add: d)
  next
    case (Some t)
    have "coord_inv (c\<lparr>queue := fst (acknowledge (task_id t) nid now q), tasks_assigned := tasks_assigned c + 1\<rparr>)"
      using coord_queue_ops(2) [OF q, of "task_id t" nid now] by (simp add: coord_inv_def)
    from Suc.IH [OF this] show ?thesis by (simp add: d Some case_prod_unfold Let_def)
  qed
qed simp

lemma poll_tasks_inv: "coord_inv c \<Longrightarrow> coord_inv (fst (poll_tasks nid m now c))"
  by (simp add: poll_tasks_def poll_loop_inv split: option.split)

lemma escalate_task_inv: "coord_inv (escalate_task fresh now tid err c) = coord_inv c"
  by (simp add: escalate_task_def split: option.split)

lemma report_result_inv: "coord_inv c \<Longrightarrow> coord_inv (fst (report_result fresh now secs tid ok res err c))"
  using coord_queue_ops(3) [of c tid res now] coord_queue_ops(4) [of c tid err True now secs]
  by (simp add: report_result_def case_prod_unfold Let_def escalate_task_inv)

lemma cancel_task_inv: "coord_inv c \<Longrightarrow> coord_inv (fst (cancel_task tid c))"
  using coord_queue_ops(5) [of c tid] by (simp add: cancel_task_def case_prod_unfold Let_def)

lemma timeout_one_inv: "coord_inv c \<Longrightarrow> coord_inv (timeout_one now secs tid c)"
  by (simp add: timeout_one_def coord_queue_ops(4) split: option.split)

lemma timeout_round_inv: "coord_inv c \<Longrightarrow> coord_inv (timeout_round now secs c)"
proof -
  have "coord_inv c \<Longrightarrow> coord_inv (fold (timeout_one now secs) ids c)" for ids
    by (induction ids arbitrary: c) (simp_all add: timeout_one_inv)
  then show "coord_inv c \<Longrightarrow> ?thesis" by (simp add: timeout_round_def)
qed

lemma cleanup_round_inv: "coord_inv c \<Longrightarrow> coord_inv (cleanup_round secs c)"
  by (simp add: cleanup_round_def coord_inv_def cleanup_inv)

lemma unassign_inv:
  assumes "coord_inv c" and "dict_get (tasks (queue c)) tid = Some t"
  shows "coord_inv (c\<lparr>queue := (queue c)\<lparr>tasks := dict_set tid (t\<lparr>assigned_node := ''''\<rparr>) (tasks (queue c))\<rparr>\<rparr>)"
    (is "coord_inv (c\<lparr>queue := ?q\<rparr>)")
proof -
  note inv = coord_invD [OF assms(1)]
  have st: "task_status t \<in> {QUEUED, ASSIGNED, COMPLETED, FAILED, CANCELLED}" "task_id t = tid"
    "task_status t = QUEUED \<longrightarrow> tid \<in> queued_ids (queue c)"
    "task_status t = ASSIGNED \<longrightarrow> tid \<in> active_ids (queue c)"
    "task_status t \<in> {COMPLETED, FAILED, CANCELLED} \<longrightarrow> tid \<in> completed_ids (queue c)"
    using inv(1) assms(2) unfolding queue_inv_def keyed_def covers_def by blast+
  have "queue_inv ?q"
    by (rule queue_inv_put [OF inv(1), where k = tid and t = "t\<lparr>assigned_node := ''''\<rparr>"])
      (use st in \<open>auto simp: queue_inv_sorted [OF inv(1)]\<close>)
  moreover have "logged ?q"
    by (rule logged_same [OF inv(2)]) (use assms(2) in \<open>auto simp: view_def fun_eq_iff\<close>)
  ultimately show ?thesis
    using inv(3) by (intro coord_inv_queue [OF assms(1)]) simp_all
qed

lemma reassign_one_inv: "coord_inv c \<Longrightarrow> coord_inv (reassign_one now secs tid c)"
proof (cases "dict_get (tasks (queue c)) tid")
  case (Some t)
  assume c: "coord_inv c"
  from coord_queue_ops(4) [OF unassign_inv [OF c Some], of tid "''Node lost''" True now secs] c
  show ?thesis by (simp add: reassign_one_def Some Let_def)
qed (simp add: reassign_one_def)

lemma reassign_round_inv: "coord_inv c \<Longrightarrow> coord_inv (reassign_round now secs c)"
proof -
  have "coord_inv c \<Longrightarrow> coord_inv (fold (reassign_one now secs) ids c)" for ids
    by (induction ids arbitrary: c) (simp_all add: reassign_one_inv)
  then show "coord_inv c \<Longrightarrow> ?thesis" by (simp add: reassign_round_def)
qed

datatype coord_op =
    SubmitTask string datetime seconds submission
  | NodeHeartbeat datetime seconds string heartbeat_data
  | PollTasks string int datetime
  | ReportResult string datetime seconds string bool "(string, string) dict" string
  | CancelTask string
  | TryAssign datetime seconds
  | TimeoutRound datetime seconds
  | CleanupRound seconds
  | ReassignRound datetime seconds
  | RegisterNode seconds registration

fun coord_step :: "(string set \<Rightarrow> string list) \<Rightarrow> coord_op \<Rightarrow> Coordinator \<Rightarrow> Coordinator" where
  "coord_step order (SubmitTask fresh now secs s) c = fst (submit_task order fresh now secs s c)"
| "coord_step order (NodeHeartbeat now secs nid d) c = fst (coord_heartbeat order now secs nid d c)"
| "coord_step order (PollTasks nid m now) c = fst (poll_tasks nid m now c)"
| "coord_step order (ReportResult fresh now secs tid ok res err) c =
     fst (report_result fresh now secs tid ok res err c)"
| "coord_step order (CancelTask tid) c = fst (cancel_task tid c)"
| "coord_step order (TryAssign now secs) c = fst (try_assign order now secs c)"
| "coord_step order (TimeoutRound now secs) c = timeout_round now secs c"
| "coord_step order (CleanupRound secs) c = cleanup_round secs c"
| "coord_step order (ReassignRound now secs) c = reassign_round now secs c"
| "coord_step order (RegisterNode secs r) c = c\<lparr>registry := register_node secs r (registry c)\<rparr>"

lemma coord_step_inv: "coord_inv c \<Longrightarrow> coord_inv (coord_step order op c)"
  by (cases op) (simp_all add: submit_task_inv coord_heartbeat_inv poll_tasks_inv report_result_inv
      cancel_task_inv try_assign_inv timeout_round_inv cleanup_round_inv reassign_round_inv,
      simp add: coord_inv_def register_node_inv)

interpretation coord: invariant_system "coord_step order" coord_inv for order
  by unfold_locales (rule coord_step_inv)

lemma start_inv: "coord_inv (start cfg nows clks w)"
  by (simp add: coord_inv_def start_def init_queue_inv init_queue_logged finite_queued_init)

text \<open>The timeout of tasks never takes effect: no operation of the coordinator makes a task
  running, so in every state it reaches a round of the timeout watcher changes nothing,
  however long the tasks have been assigned.\<close>

theorem timeout_watcher_idle:
  "let c = fold (coord_step order) ops (start cfg nows clks w) in timeout_round now secs c = c"
proof -
  have "coord_inv (fold (coord_step order) ops (start cfg nows clks w))" (is "coord_inv ?c")
    by (rule coord.inv_run) (rule start_inv)
  then have "list_tasks (Some RUNNING) 50 (queue ?c) = []"
    by (simp add: coord_inv_def no_running)
  then show ?thesis by (simp add: Let_def timeout_round_def)
qed

subsection \<open>The scheduler empties the queue\<close>

lemma free_pick:
  assumes "registry_inv reg" "iterates order" "free secs reg \<noteq> {}" "'''' \<notin> node_id ` free secs reg"
  shows "pick_node order secs t reg \<noteq> None"
proof -
  have "best_choice (free secs reg) (find_best_node order secs '''' '''' reg)"
    by (simp add: find_best_node_def best_of_choice set_free_nodes)
  with assms(3,4) have "picked (find_best_node order secs '''' '''' reg) \<noteq> None"
    by (auto simp: best_choice_def least_loaded_def picked_def image_iff split: option.splits)
  then show ?thesis by (auto simp: pick_node_def split: option.split)
qed

lemma eligible_any: "eligible ts '''' = live_entry ts"
  by (simp add: fun_eq_iff eligible_def live_entry_def for_other_node_def split: option.split)

definition drained :: "TaskQueue \<Rightarrow> bool" where
  "drained q \<longleftrightarrow> filter (live_entry (tasks q)) (heap q) = []"

lemma drained_mset: "drained q \<longleftrightarrow> filter_mset (live_entry (tasks q)) (mset (heap q)) = {#}"
  by (metis drained_def mset_filter mset_zero_iff)

lemma dequeue_tasks [simp]:
  "tasks (fst (dequeue aff q)) = tasks q" "queued_ids (fst (dequeue aff q)) = queued_ids q"
  by (simp_all add: dequeue_def case_prod_unfold Let_def)

lemma dequeue_None:
  assumes "dequeue '''' q = (q', None)"
  shows "drained q'"
proof -
  obtain rest rem where l: "dequeue_loop (tasks q) '''' (heap q) = (rest, rem, None)"
    and q': "q' = q\<lparr>heap := fold heappush rem rest\<rparr>"
    using assms by (auto simp: dequeue_def split: prod.splits)
  have f: "List.find (live_entry (tasks q)) (heap q) = None"
  proof (rule ccontr)
    assume "\<not> ?thesis"
    then obtain e where "List.find (live_entry (tasks q)) (heap q) = Some e" by blast
    moreover from this have "live_entry (tasks q) e" by (auto simp: find_Some_iff)
    ultimately show False
      using dequeue_loop_spec [OF l] by (auto simp: eligible_any live_entry_def split: option.splits)
  qed
  then have "filter (live_entry (tasks q)) (heap q) = []"
    by (auto simp: find_None_iff filter_empty_conv)
  then have "filter_mset (live_entry (tasks q)) (mset (heap q)) = {#}"
    by (metis mset_filter mset_zero_iff)
  with dequeue_loop_spec [OF l] f q' show ?thesis by (simp add: drained_mset eligible_any)
qed

lemma dequeue_Some:
  assumes "dequeue aff q = (q', Some t)"
  shows "task_status t = QUEUED \<and> (\<exists>k. dict_get (tasks q) k = Some t)"
proof -
  have "dequeue_loop ts aff h = (rest, rem, Some t) \<Longrightarrow> task_status t = QUEUED \<and> (\<exists>k. dict_get ts k = Some t)"
    for ts h rest rem
    by (induction ts aff h arbitrary: rest rem rule: dequeue_loop.induct)
      (auto split: option.splits if_splits prod.splits)
  with assms show ?thesis by (auto simp: dequeue_def split: prod.splits)
qed

lemma drained_dequeue:
  assumes "drained q"
  obtains q' where "dequeue aff q = (q', None)" and "drained q'"
proof -
  obtain rest rem f where l: "dequeue_loop (tasks q) aff (heap q) = (rest, rem, f)"
    by (metis prod_cases3)
  have n: "List.find (eligible (tasks q) aff) (heap q) = None"
    using assms by (auto simp: drained_def find_None_iff filter_empty_conv eligible_def live_entry_def
        split: option.splits)
  let ?q = "q\<lparr>heap := fold heappush rem rest\<rparr>"
  have "dequeue aff q = (?q, None)" "drained ?q"
    using dequeue_loop_spec [OF l] n assms by (simp_all add: dequeue_def l drained_mset)
  then show thesis by (rule that)
qed

lemma drained_poll:
  assumes "drained (queue c)"
  shows "snd (poll_loop aff nid now n c) = []"
proof (cases n)
  case (Suc m)
  obtain q where q: "dequeue aff (queue c) = (q, None)" "drained q"
    using drained_dequeue [OF assms] .
  obtain q' where "dequeue [] q = (q', None)" "drained q'"
    using drained_dequeue [OF q(2)] .
  with q Suc show ?thesis by (simp add: dequeue_for_def)
qed simp

lemma queue_inv_queued:
  "queue_inv q \<Longrightarrow> dict_get (tasks q) k = Some t \<Longrightarrow> task_status t = QUEUED \<Longrightarrow> k \<in> queued_ids q"
  unfolding queue_inv_def covers_def by blast

lemma try_assign_loop_drains:
  assumes "coord_inv c" "iterates order" "free secs (registry c) \<noteq> {}"
    and "'''' \<notin> node_id ` free secs (registry c)" and "card (queued_ids (queue c)) \<le> n"
  shows "drained (queue (fst (try_assign_loop order now secs n c)))"
  using assms
proof (induction n arbitrary: c)
  case 0
  have "queued_ids (queue c) = {}"
    using 0 coord_invD(3) by (metis card_eq_0_iff le_zero_eq)
  then have "\<forall>k t. dict_get (tasks (queue c)) k = Some t \<longrightarrow> task_status t \<noteq> QUEUED"
    using queue_inv_queued [OF coord_invD(1) [OF 0(1)]] by blast
  then show ?case
    by (auto simp: drained_def filter_empty_conv live_entry_def split: option.split)
next
  case (Suc n)
  obtain q f where d: "dequeue '''' (queue c) = (q, f)" by fastforce
  have q: "coord_inv (c\<lparr>queue := q\<rparr>)"
    using coord_queue_ops(6) [OF Suc.prems(1), of "''''"] by (simp add: d)
  have qq: "tasks q = tasks (queue c)" "queued_ids q = queued_ids (queue c)"
    using dequeue_tasks [of "''''" "queue c"] by (simp_all add: d)
  show ?case
  proof (cases f)
    case None
    with dequeue_None d show ?thesis by simp
  next
    case (Some t)
    obtain k where t: "task_status t = QUEUED" "dict_get (tasks q) k = Some t"
      using dequeue_Some d Some qq by metis
    have k: "task_id t = k" "k \<in> queued_ids q"
      using queue_inv_id [of q k t] queue_inv_queued [of q k t] coord_invD(1) [OF q] t by simp_all
    obtain nid where p: "pick_node order secs t (registry c) = Some nid"
      using free_pick [OF coord_invD(4) [OF Suc.prems(1)] Suc.prems(2-4)] by blast
    have s: "schedule order now secs t (c\<lparr>queue := q\<rparr>) = (assign t nid now (c\<lparr>queue := q\<rparr>), Some nid)"
      by (simp add: schedule_def t(1) p)
    let ?c = "assign t nid now (c\<lparr>queue := q\<rparr>)"
    have "queued_ids (queue ?c) = queued_ids (queue c) - {k}"
      using t k by (simp add: assign_def queue_defs qq)
    then have "card (queued_ids (queue ?c)) \<le> n"
      using Suc.prems(5) k(2) qq coord_invD(3) [OF Suc.prems(1)] by simp
    then have "drained (queue (fst (try_assign_loop order now secs n ?c)))"
      using Suc.prems by (intro Suc.IH assign_inv q) (simp_all add: assign_def)
    then show ?thesis
      by (cases "try_assign_loop order now secs n ?c") (simp add: d Some s Let_def)
  qed
qed

text \<open>The tasks that a dequeue can still find.\<close>

definition waiting :: "TaskQueue \<Rightarrow> string set" where
  "waiting q = pt_task_id ` set (filter (live_entry (tasks q)) (heap q))"

lemma waiting_mset: "waiting q = pt_task_id ` set_mset (filter_mset (live_entry (tasks q)) (mset (heap q)))"
  by (simp add: waiting_def)

lemma finite_waiting [simp]: "finite (waiting q)"
  by (simp add: waiting_def)

lemma waiting_queued: "k \<in> waiting q \<longleftrightarrow>
    (\<exists>e\<in>set (heap q). pt_task_id e = k) \<and> (\<exists>t. dict_get (tasks q) k = Some t \<and> task_status t = QUEUED)"
  by (auto simp: waiting_def live_entry_def split: option.splits)

lemma dequeue_waiting:
  assumes "dequeue '''' q = (q', f)" and "queue_inv q"
  shows "case f of None \<Rightarrow> waiting q = {}
    | Some t \<Rightarrow> task_id t \<in> waiting q \<and> waiting q' - {task_id t} = waiting q - {task_id t}"
proof -
  obtain rest rem where l: "dequeue_loop (tasks q) '''' (heap q) = (rest, rem, f)"
    and q': "q' = q\<lparr>heap := fold heappush rem rest\<rparr>"
    using assms by (auto simp: dequeue_def split: prod.splits)
  note spec = dequeue_loop_spec [OF l, unfolded eligible_any]
  have w': "waiting q' = pt_task_id ` set_mset (filter_mset (live_entry (tasks q)) (mset (heap q)) -
      (case List.find (live_entry (tasks q)) (heap q) of None \<Rightarrow> {#} | Some e \<Rightarrow> {#e#}))"
    using conjunct2 [OF spec] by (simp add: waiting_mset q')
  show ?thesis
  proof (cases "List.find (live_entry (tasks q)) (heap q)")
    case None
    with spec have "f = None" by simp
    with None show ?thesis by (auto simp: waiting_def find_None_iff)
  next
    case (Some e)
    then have e: "e \<in> set (heap q)" "live_entry (tasks q) e" by (auto simp: find_Some_iff)
    then obtain t where t: "dict_get (tasks q) (pt_task_id e) = Some t" by (auto simp: live_entry_def split: option.splits)
    with spec Some have f: "f = Some t" by simp
    have k: "task_id t = pt_task_id e" using queue_inv_id [OF assms(2) t] by simp
    let ?M = "filter_mset (live_entry (tasks q)) (mset (heap q))"
    have "e \<in># ?M" using e by simp
    then have "set_mset ?M = insert e (set_mset (?M - {#e#}))" by (metis insert_DiffM set_mset_add_mset_insert)
    then have "waiting q = insert (pt_task_id e) (waiting q')"
      by (simp only: w' Some option.case waiting_mset [of q] image_insert)
    then show ?thesis using e by (auto simp: f k)
  qed
qed

lemma pick_usable:
  assumes "registry_inv reg" "iterates order" "pick_node order secs t reg = Some nid"
  shows "\<exists>n. dict_get (nodes reg) nid = Some n \<and> usable secs reg n"
proof -
  have best: "\<exists>n. dict_get (nodes reg) m = Some n \<and> usable secs reg n"
    if "picked (find_best_node order secs aff cap reg) = Some m" for aff cap m
  proof -
    have r: "find_best_node order secs aff cap reg = Some m"
      using that by (auto simp: picked_def split: option.splits if_splits)
    obtain ns where ns: "best_choice ns (Some m)" "ns \<subseteq> {n \<in> set (dict_values (nodes reg)). usable secs reg n}"
      using find_best_node_spec [OF assms(1,2), where cap = cap and aff = aff and now = secs]
      by (auto simp: r Let_def free_def capable_def split: if_splits)
    then obtain n where "n \<in> ns" and m: "node_id n = m"
      by (auto simp: best_choice_def least_loaded_def)
    with ns(2) have n: "n \<in> set (dict_values (nodes reg))" "usable secs reg n" by blast+
    with assms(1) m have "dict_get (nodes reg) m = Some n"
      by (auto simp: registry_inv_def dict_get_iff)
    with n show ?thesis by blast
  qed
  have tools: "pick_by_tools order secs ts reg = Some m \<Longrightarrow> \<exists>n. dict_get (nodes reg) m = Some n \<and> usable secs reg n" for ts m
    by (induction ts) (auto split: option.splits dest: best)
  from assms(3) show ?thesis
    by (auto simp: pick_node_def split: option.splits if_splits dest: best tools)
qed

text \<open>The task as the scheduler leaves it.\<close>

definition assigned_to :: "string \<Rightarrow> datetime \<Rightarrow> Task \<Rightarrow> Task" where
  "assigned_to nid now t = t\<lparr>task_status := ASSIGNED, assigned_node := nid, assigned_at := Some now\<rparr>"

definition placed :: "datetime \<Rightarrow> seconds \<Rightarrow> string \<Rightarrow> Coordinator \<Rightarrow> Coordinator \<Rightarrow> bool" where
  "placed now secs k c c' \<longleftrightarrow> (\<exists>nid n. dict_get (nodes (registry c)) nid = Some n \<and> usable secs (registry c) n \<and>
     dict_get (assignments c') k = Some nid \<and>
     dict_get (tasks (queue c')) k = map_option (assigned_to nid now) (dict_get (tasks (queue c)) k))"

lemma assign_effect:
  assumes "dict_get (tasks (queue c)) k = Some t" and "task_id t = k"
  shows "tasks (queue (assign t nid now c)) = dict_set k (assigned_to nid now t) (tasks (queue c))"
    "heap (queue (assign t nid now c)) = heap (queue c)" "registry (assign t nid now c) = registry c"
    "assignments (assign t nid now c) = dict_set k nid (assignments c)"
  using assms by (simp_all add: assign_def queue_defs assigned_to_def)

lemma try_assign_loop_places:
  assumes "coord_inv c" "iterates order" "free secs (registry c) \<noteq> {}"
    and "'''' \<notin> node_id ` free secs (registry c)" and "card (queued_ids (queue c)) \<le> n"
  shows "(if k \<in> waiting (queue c) then placed now secs k c (fst (try_assign_loop order now secs n c))
      else dict_get (tasks (queue (fst (try_assign_loop order now secs n c)))) k = dict_get (tasks (queue c)) k \<and>
        dict_get (assignments (fst (try_assign_loop order now secs n c))) k = dict_get (assignments c) k) \<and>
    snd (try_assign_loop order now secs n c) = card (waiting (queue c))"
  using assms
proof (induction n arbitrary: c)
  case 0
  have "queued_ids (queue c) = {}"
    using 0 coord_invD(3) by (metis card_eq_0_iff le_zero_eq)
  then have "waiting (queue c) = {}"
    using queue_inv_queued [OF coord_invD(1) [OF 0(1)]] by (auto simp: waiting_queued)
  then show ?case by simp
next
  case (Suc n)
  obtain q f where d: "dequeue '''' (queue c) = (q, f)" by fastforce
  have q: "coord_inv (c\<lparr>queue := q\<rparr>)"
    using coord_queue_ops(6) [OF Suc.prems(1), of "''''"] by (simp add: d)
  have qq: "tasks q = tasks (queue c)" "queued_ids q = queued_ids (queue c)"
    using dequeue_tasks [of "''''" "queue c"] by (simp_all add: d)
  note w = dequeue_waiting [OF d coord_invD(1) [OF Suc.prems(1)]]
  show ?case
  proof (cases f)
    case None
    with w show ?thesis by (simp add: d qq)
  next
    case (Some t)
    obtain j where t: "task_status t = QUEUED" "dict_get (tasks q) j = Some t"
      using dequeue_Some d Some qq by metis
    have j: "task_id t = j" "j \<in> queued_ids q"
      using queue_inv_id [of q j t] queue_inv_queued [of q j t] coord_invD(1) [OF q] t by simp_all
    obtain nid where p: "pick_node order secs t (registry c) = Some nid"
      using free_pick [OF coord_invD(4) [OF Suc.prems(1)] Suc.prems(2-4)] by blast
    have s: "schedule order now secs t (c\<lparr>queue := q\<rparr>) = (assign t nid now (c\<lparr>queue := q\<rparr>), Some nid)"
      by (simp add: schedule_def t(1) p)
    let ?c = "assign t nid now (c\<lparr>queue := q\<rparr>)"
    have "dict_get (tasks (queue (c\<lparr>queue := q\<rparr>))) j = Some t" using t(2) by simp
    note eff = assign_effect [OF this j(1), of nid now]
    have w1: "j \<in> waiting (queue c)" "waiting q - {j} = waiting (queue c) - {j}"
      using w by (simp_all add: Some j(1))
    have "x \<in> waiting (queue ?c) \<longleftrightarrow> x \<in> waiting q \<and> x \<noteq> j" for x
      by (cases "x = j") (simp_all add: waiting_queued eff assigned_to_def)
    with w1 have wj: "waiting (queue ?c) = waiting (queue c) - {j}" "j \<in> waiting (queue c)"
      by blast+
    have "queued_ids (queue ?c) = queued_ids (queue c) - {j}"
      using t j by (simp add: assign_def queue_defs qq)
    then have "card (queued_ids (queue ?c)) \<le> n"
      using Suc.prems(5) j(2) qq coord_invD(3) [OF Suc.prems(1)] by simp
    then have IH: "(if k \<in> waiting (queue ?c) then placed now secs k ?c (fst (try_assign_loop order now secs n ?c))
        else dict_get (tasks (queue (fst (try_assign_loop order now secs n ?c)))) k = dict_get (tasks (queue ?c)) k \<and>
          dict_get (assignments (fst (try_assign_loop order now secs n ?c))) k = dict_get (assignments ?c) k) \<and>
      snd (try_assign_loop order now secs n ?c) = card (waiting (queue ?c))"
      using Suc.prems by (intro Suc.IH assign_inv q) (simp_all add: assign_def)
    obtain c1 m where l: "try_assign_loop order now secs n ?c = (c1, m)" by fastforce
    then have run: "try_assign_loop order now secs (Suc n) c = (c1, m + 1)"
      by (simp add: d Some s Let_def)
    have "card (waiting (queue c)) = card (waiting (queue ?c)) + 1"
      using card_Suc_Diff1 [OF finite_waiting wj(2)] by (simp only: wj(1))
    note IH = IH [unfolded l fst_conv snd_conv]
    have "if k \<in> waiting (queue c) then placed now secs k c c1
      else dict_get (tasks (queue c1)) k = dict_get (tasks (queue c)) k \<and>
        dict_get (assignments c1) k = dict_get (assignments c) k"
    proof (cases "k = j")
      case True
      obtain nd where "dict_get (nodes (registry c)) nid = Some nd" "usable secs (registry c) nd"
        using pick_usable [OF coord_invD(4) [OF Suc.prems(1)] Suc.prems(2) p] by blast
      with True IH wj t(2) show ?thesis by (auto simp: placed_def eff qq)
    next
      case False
      with IH wj show ?thesis by (auto simp: placed_def eff qq)
    qed
    with IH \<open>card (waiting (queue c)) = _\<close> show ?thesis unfolding run fst_conv snd_conv by simp
  qed
qed

text \<open>C33: The push and the pull model exclude each other. If any alive, healthy node has a free
  slot (and such nodes have names), and at most 50 tasks are queued, a run of the scheduler assigns every task that is
  waiting in the queue: it counts them all, records an alive, healthy node for each in its assignments and in the
  task, and touches no other task. So a worker that polls afterwards gets none of them: not even the node
  they were assigned to, and however few slots it has.\<close>

theorem scheduler_starves_polls:
  assumes "coord_inv c" and "iterates order" and "queue_depth (queue c) \<le> 50"
    and "free secs (registry c) \<noteq> {}" and "'''' \<notin> node_id ` free secs (registry c)"
    and "try_assign order now secs c = (c', n)"
  shows "n = card (waiting (queue c)) \<and>
    (if k \<in> waiting (queue c) then placed now secs k c c'
     else dict_get (tasks (queue c')) k = dict_get (tasks (queue c)) k \<and> dict_get (assignments c') k = dict_get (assignments c) k) \<and>
    waiting (queue c') = {} \<and> snd (poll_tasks nid m now' c') = []"
proof -
  have card: "card (queued_ids (queue c)) \<le> min 50 (queue_depth (queue c))"
    using assms(3) by (simp add: queue_depth_def)
  have d: "drained (queue c')"
    using try_assign_loop_drains [OF assms(1,2,4,5) card, of now] assms(6) by (simp add: try_assign_def)
  then have "snd (poll_tasks nid m now' c') = []" by (simp add: poll_tasks_def drained_poll split: option.split)
  moreover have "waiting (queue c') = {}" using d by (simp add: waiting_def drained_def)
  moreover have "try_assign_loop order now secs (min 50 (queue_depth (queue c))) c = (c', n)"
    using assms(6) by (simp add: try_assign_def)
  from try_assign_loop_places [OF assms(1,2,4,5) card, of k now, unfolded this fst_conv snd_conv]
  have "if k \<in> waiting (queue c) then placed now secs k c c'
     else dict_get (tasks (queue c')) k = dict_get (tasks (queue c)) k \<and> dict_get (assignments c') k = dict_get (assignments c) k"
    "n = card (waiting (queue c))" by (rule conjunct1, rule conjunct2)
  ultimately show ?thesis by blast
qed

lemma free_code:
  "free now reg = set (filter (\<lambda>n. usable now reg n \<and> available_slots n > 0) (dict_values (nodes reg)))"
  by (auto simp: free_def)

definition sample_coordinator :: Coordinator where
  "sample_coordinator =
     (start \<lparr>cfg_node_id = ''c'', cfg_heartbeat_ttl = 10, cfg_max_task_retries = 3,
         cfg_task_timeout = 600, cfg_enable_human_loop = False, cfg_escalation_threshold = 3,
         cfg_auto_reassign = True\<rparr> (\<lambda>n. 0) (\<lambda>n. 0)
       (map (\<lambda>tid. Some (WEnqueue (enqueue_entry (new_task tid ''build'' 2 '''' 0) 1))) [''a'', ''b'']))
     \<lparr>registry := sample_registry\<rparr>"

lemma sample_nodes:
  "map (\<lambda>n. (node_id n, is_healthy n, last_heartbeat n, max_workers n, active_workers n))
     (dict_values (nodes sample_registry)) =
   [(''n1'', True, Some 5, 2, 2), (''n2'', True, Some 5, 4, 1)]" "heartbeat_ttl sample_registry = 10"
  by (simp_all add: sample_registry_def register_node_def init_registry_def new_node_def
      heartbeat_def index_add_def index_get_def)

lemma sample_coordinator_inv: "coord_inv sample_coordinator"
proof -
  have "registry_inv sample_registry"
    unfolding sample_registry_def by (rule reg.inv_run) simp
  then show ?thesis
    using start_inv by (simp add: sample_coordinator_def coord_inv_def)
qed

lemma sample_queue_state:
  "heap (queue sample_coordinator) = [PrioritizedTask 2 1 ''a'', PrioritizedTask 2 1 ''b'']"
  "tasks (queue sample_coordinator) = [(''a'', new_task ''a'' ''build'' 2 '''' 0), (''b'', new_task ''b'' ''build'' 2 '''' 0)]"
  "queued_ids (queue sample_coordinator) = {''a'', ''b''}"
  "registry sample_coordinator = sample_registry"
  by (simp_all add: sample_coordinator_def start_def init_queue_def empty_queue_def
      enqueue_entry_def restored_task_def new_task_def put_task_def Let_def heappush_def
      less_eq_PrioritizedTask_def insert_commute)

lemma sample_dequeue:
  "snd (dequeue aff (queue sample_coordinator)) = Some (new_task ''a'' ''build'' 2 '''' 0)"
  by (simp add: dequeue_def sample_queue_state) (simp add: new_task_def for_other_node_def)

lemma sample_polled:
  "map pol_task_id (snd (poll_tasks ''n2'' 1 9 sample_coordinator)) = [''a'']"
proof -
  obtain q where "dequeue ''search'' (queue sample_coordinator) = (q, Some (new_task ''a'' ''build'' 2 '''' 0))"
    using sample_dequeue [of "''search''"] by (metis prod.collapse)
  moreover obtain n where "dict_get (nodes sample_registry) ''n2'' = Some n"
    "capabilities n = [''search'']" "max_workers n = 4" "active_workers n = 1"
    by (simp add: sample_registry_def register_node_def init_registry_def new_node_def heartbeat_def)
  ultimately show ?thesis
    by (simp add: poll_tasks_def sample_queue_state dequeue_for_def polled_def case_prod_unfold)
      (simp add: new_task_def)
qed

theorem scheduler_starves_polls_witness:
  "let c' = fst (try_assign sorted_list_of_set 8 6 sample_coordinator)
   in snd (try_assign sorted_list_of_set 8 6 sample_coordinator) = 2 \<and> placed 8 6 ''a'' sample_coordinator c' \<and>
     snd (poll_tasks ''n2'' 1 9 c') = [] \<and>
     map pol_task_id (snd (poll_tasks ''n2'' 1 9 sample_coordinator)) = [''a'']"
proof -
  have f: "node_id ` free 6 (registry sample_coordinator) = {''n2''}"
    by (simp add: free_code sample_queue_state sample_registry_def register_node_def
        init_registry_def new_node_def heartbeat_def usable_def is_alive_def available_slots_def)
  have d: "queue_depth (queue sample_coordinator) \<le> 50"
    by (simp add: queue_depth_def sample_queue_state)
  have w: "waiting (queue sample_coordinator) = {''a'', ''b''}"
    by (simp add: waiting_def sample_queue_state live_entry_def) (simp add: new_task_def)
  have free: "free 6 (registry sample_coordinator) \<noteq> {}" "[] \<notin> node_id ` free 6 (registry sample_coordinator)"
    using f by (metis image_is_empty insert_not_empty) (simp add: f)
  obtain c' n where t: "try_assign sorted_list_of_set 8 6 sample_coordinator = (c', n)" by fastforce
  from scheduler_starves_polls [OF sample_coordinator_inv iterates_sorted d free t, of "''a''" "''n2''" 1 9] sample_polled
  show ?thesis by (simp add: t w)
qed

subsection \<open>Tasks of lost nodes\<close>

lemma fail_get:
  "dict_get (tasks (fst (fail tid err r now clk q))) j =
     (if j = tid then map_option (\<lambda>t. if r \<and> retry_count t < max_retries t
        then t\<lparr>retry_count := retry_count t + 1, task_status := QUEUED, assigned_node := '''', assigned_at := None\<rparr>
        else t\<lparr>task_status := FAILED, task_error := Some err, completed_at := Some now\<rparr>) (dict_get (tasks q) tid)
      else dict_get (tasks q) j)"
  by (simp add: queue_defs split: option.split)

text \<open>What losing its node does to a task.\<close>

definition node_lost :: "datetime \<Rightarrow> Task \<Rightarrow> Task" where
  "node_lost now t = (if retry_count t < max_retries t
     then t\<lparr>retry_count := retry_count t + 1, task_status := QUEUED, assigned_node := '''', assigned_at := None\<rparr>
     else t\<lparr>assigned_node := '''', task_status := FAILED, task_error := Some ''Node lost'', completed_at := Some now\<rparr>)"

lemma reassign_one_get:
  "dict_get (tasks (queue (reassign_one now secs k c))) j =
     (if j = k then map_option (\<lambda>t. if assigned_node t \<noteq> '''' \<and> node_dead secs (assigned_node t) c
        then node_lost now t else t) (dict_get (tasks (queue c)) k)
      else dict_get (tasks (queue c)) j)"
  by (simp add: reassign_one_def Let_def fail_get node_lost_def split: option.split)

lemma node_dead_reassign [simp]: "node_dead secs nid (reassign_one now secs' k c) = node_dead secs nid c"
  by (simp add: node_dead_def reassign_one_def Let_def split: option.split)

lemma list_tasks_ids:
  assumes "queue_inv q" and "length (filter (\<lambda>t. task_status t = st) (dict_values (tasks q))) \<le> n"
  shows "distinct (map task_id (list_tasks (Some st) n q))"
    and "tid \<in> set (map task_id (list_tasks (Some st) n q)) \<longleftrightarrow>
      (\<exists>t. dict_get (tasks q) tid = Some t \<and> task_status t = st)"
proof -
  have keys: "map task_id (dict_values (tasks q)) = map fst (tasks q)"
    using queue_inv_id [OF assms(1)] assms(1) by (auto simp: queue_inv_def dict_get_iff)
  have s: "set (list_tasks (Some st) n q) = {t \<in> set (dict_values (tasks q)). task_status t = st}"
    using assms(2) by (auto simp: list_tasks_def)
  have "distinct (map task_id (filter (\<lambda>t. task_status t = st) (dict_values (tasks q))))"
    by (rule distinct_map_filter) (use assms(1) in \<open>simp only: keys queue_inv_def dict_wf_def\<close>)
  then show "distinct (map task_id (list_tasks (Some st) n q))"
    using assms(2) by (simp add: list_tasks_def distinct_map)
  show "tid \<in> set (map task_id (list_tasks (Some st) n q)) \<longleftrightarrow>
      (\<exists>t. dict_get (tasks q) tid = Some t \<and> task_status t = st)"
    unfolding set_map s using queue_inv_id [OF assms(1)] assms(1)
    by (auto simp: queue_inv_def dict_get_iff image_iff)
qed

text \<open>A round of reassignment (with at most 50 tasks assigned) takes back exactly the tasks whose
  node is registered but has stopped its heartbeats: each is queued again with one more retry, or
  failed if it has none left. A task whose node is no longer registered, because the cleanup was
  faster or the coordinator restarted, stays assigned.\<close>

theorem reassign_takes_back:
  assumes "coord_inv c" and "cfg_auto_reassign (config c)"
    and "length (filter (\<lambda>t. task_status t = ASSIGNED) (dict_values (tasks (queue c)))) \<le> 50"
  shows "dict_get (tasks (queue (reassign_round now secs c))) tid =
    map_option (\<lambda>t. if task_status t = ASSIGNED \<and> assigned_node t \<noteq> '''' \<and>
        node_dead secs (assigned_node t) c then node_lost now t else t) (dict_get (tasks (queue c)) tid)"
proof -
  let ?ids = "map task_id (list_tasks (Some ASSIGNED) 50 (queue c))"
  note ids = list_tasks_ids [OF coord_invD(1) [OF assms(1)] assms(3)]
  let ?g = "map_option (\<lambda>t. if assigned_node t \<noteq> '''' \<and> node_dead secs (assigned_node t) c
    then node_lost now t else t)"
  have "dict_get (tasks (queue (fold (reassign_one now secs) ?ids c))) tid =
      (if tid \<in> set ?ids then ?g (dict_get (tasks (queue c)) tid) else dict_get (tasks (queue c)) tid)"
    by (rule fold_pointwise [where get = "\<lambda>c. dict_get (tasks (queue c))"
          and P = "\<lambda>d. \<forall>nid. node_dead secs nid d = node_dead secs nid c"])
      (simp_all add: reassign_one_get ids(1) cong: option.map_cong)
  then show ?thesis
    unfolding ids(2) using assms(2) by (cases "dict_get (tasks (queue c)) tid") (auto simp: reassign_round_def)
qed

theorem reassign_takes_back_witness:
  "map_option (\<lambda>t. (task_status t, assigned_node t, retry_count t)) (dict_get (tasks (queue (reassign_round 9 100
     (sample_coordinator\<lparr>queue := fst (acknowledge ''a'' ''n1'' 3 (queue sample_coordinator))\<rparr>)))) ''a'') =
   Some (QUEUED, '''', 1)"
proof -
  let ?c = "sample_coordinator\<lparr>queue := fst (acknowledge ''a'' ''n1'' 3 (queue sample_coordinator))\<rparr>"
  have inv: "coord_inv ?c" by (rule coord_queue_ops(2) [OF sample_coordinator_inv])
  have ts: "tasks (fst (acknowledge ''a'' ''n1'' 3 (queue sample_coordinator))) = [(''a'', (new_task ''a'' ''build'' 2 '''' 0)
      \<lparr>task_status := ASSIGNED, assigned_node := ''n1'', assigned_at := Some 3\<rparr>),
      (''b'', new_task ''b'' ''build'' 2 '''' 0)]"
    by (simp add: acknowledge_def write_wal_def sample_queue_state Let_def)
  have l: "length (filter (\<lambda>t. task_status t = ASSIGNED) (dict_values (tasks (queue ?c)))) \<le> 50"
    by (simp add: ts new_task_def)
  have dead: "node_dead 100 ''n1'' ?c"
    by (simp add: node_dead_def sample_queue_state sample_registry_def register_node_def
        init_registry_def new_node_def heartbeat_def is_alive_def)
      (simp add: sample_coordinator_def start_def)
  have "cfg_auto_reassign (config ?c)" by (simp add: sample_coordinator_def start_def)
  from reassign_takes_back [OF inv this l, of 9 100 "''a''"] dead show ?thesis
    by (simp add: ts node_lost_def) (simp add: new_task_def)
qed

end
