(* ===== verification/Degradation.thy ===== *)
theory Degradation
  imports Systems PyString
begin

text \<open>
  The degradation manager (\<open>engine/degradation.py\<close>): health checks, the automatic and manual
  changes of the level, and the features a level allows. What the file system reports is an
  argument: used and total bytes, or the text of the \<open>OSError\<close>. The status report (display) is
  not modelled.
\<close>

subsection \<open>Levels\<close>

datatype DegradationLevel = FULL | DEGRADED | SURVIVAL

fun rank :: "DegradationLevel \<Rightarrow> nat" where
  "rank FULL = 0"
| "rank DEGRADED = 1"
| "rank SURVIVAL = 2"

lemma rank_eq [simp]: "rank a = rank b \<longleftrightarrow> a = b"
  by (cases a; cases b) simp_all

text \<open>Levels are ordered by how much is switched off.\<close>

instantiation DegradationLevel :: linorder
begin

definition less_eq_DegradationLevel :: "DegradationLevel \<Rightarrow> DegradationLevel \<Rightarrow> bool" where
  "less_eq_DegradationLevel a b \<longleftrightarrow> rank a \<le> rank b"

definition less_DegradationLevel :: "DegradationLevel \<Rightarrow> DegradationLevel \<Rightarrow> bool" where
  "less_DegradationLevel a b \<longleftrightarrow> rank a < rank b"

instance
  by intro_classes (auto simp: less_eq_DegradationLevel_def less_DegradationLevel_def)

end

record HealthCheckResult =
  hc_name :: string
  hc_passed :: bool
  hc_detail :: string
  hc_metric :: rat
  hc_threshold :: rat

record DegradationEvent =
  de_timestamp :: datetime
  from_level :: DegradationLevel
  to_level :: DegradationLevel
  de_reason :: string
  de_checks :: "(string, bool) dict"

record deg_thresholds =
  disk_usage_max_pct :: rat
  max_llm_failures :: int
  max_adapter_failures :: int

record DegradationManager =
  current_level :: DegradationLevel
  previous_level :: DegradationLevel
  disabled_features :: "string set"
  degradation_history :: "DegradationEvent list"
  last_check_time :: "datetime option"
  check_count :: nat
  thresholds :: deg_thresholds

definition init_degradation :: DegradationManager where
  "init_degradation = \<lparr>current_level = FULL, previous_level = FULL, disabled_features = {},
     degradation_history = [], last_check_time = None, check_count = 0,
     thresholds = \<lparr>disk_usage_max_pct = 95, max_llm_failures = 3, max_adapter_failures = 3\<rparr>\<rparr>"

subsection \<open>Health checks\<close>

text \<open>What the checks look at: the disk, and the keys of \<open>engine_state\<close> with their defaults.\<close>

record engine_health =
  disk :: "string + (rat \<times> rat)"
  llm_failures :: int
  adapter_failures :: int
  budget_hard_limit_reached :: bool

definition check_disk_usage :: "DegradationManager \<Rightarrow> engine_health \<Rightarrow> HealthCheckResult" where
  "check_disk_usage m h =
     (case disk h of
        Inr (used, capacity) \<Rightarrow>
          (let pct = used / capacity * 100; limit = disk_usage_max_pct (thresholds m)
           in \<lparr>hc_name = ''disk_usage'', hc_passed = pct < limit, hc_detail = fixed1 pct @ ''% used'',
               hc_metric = pct, hc_threshold = limit\<rparr>)
      | Inl e \<Rightarrow> \<lparr>hc_name = ''disk_usage'', hc_passed = True, hc_detail = ''Cannot check: '' @ e,
               hc_metric = 0, hc_threshold = 0\<rparr>)"

definition failures_check :: "string \<Rightarrow> int \<Rightarrow> int \<Rightarrow> HealthCheckResult" where
  "failures_check name failures limit =
     \<lparr>hc_name = name, hc_passed = failures < limit,
      hc_detail = show_int failures @ '' consecutive failures'', hc_metric = of_int failures,
      hc_threshold = of_int limit\<rparr>"

definition check_llm_api :: "DegradationManager \<Rightarrow> engine_health \<Rightarrow> HealthCheckResult" where
  "check_llm_api m h = failures_check ''llm_api'' (llm_failures h) (max_llm_failures (thresholds m))"

definition check_remote_adapters :: "DegradationManager \<Rightarrow> engine_health \<Rightarrow> HealthCheckResult" where
  "check_remote_adapters m h =
     failures_check ''remote_adapters'' (adapter_failures h) (max_adapter_failures (thresholds m))"

definition check_budget :: "engine_health \<Rightarrow> HealthCheckResult" where
  "check_budget h = \<lparr>hc_name = ''budget'', hc_passed = \<not> budget_hard_limit_reached h,
     hc_detail = (if budget_hard_limit_reached h then ''Hard limit reached'' else ''OK''),
     hc_metric = 0, hc_threshold = 0\<rparr>"

definition check_memory :: HealthCheckResult where
  "check_memory = \<lparr>hc_name = ''memory'', hc_passed = True, hc_detail = ''OK'', hc_metric = 0, hc_threshold = 0\<rparr>"

definition check_health :: "datetime \<Rightarrow> engine_health \<Rightarrow> DegradationManager
    \<Rightarrow> DegradationManager \<times> HealthCheckResult list" where
  "check_health now h m =
     (m\<lparr>check_count := check_count m + 1, last_check_time := Some now\<rparr>,
      [check_disk_usage m h, check_llm_api m h, check_remote_adapters m h, check_budget h, check_memory])"

subsection \<open>Changes of the level\<close>

fun disabled_at :: "DegradationLevel \<Rightarrow> string set" where
  "disabled_at DEGRADED = {''t2_validators'', ''t3_validators'', ''remote_adapters''}"
| "disabled_at SURVIVAL = {''t1_validators'', ''t2_validators'', ''t3_validators'',
     ''all_adapters'', ''event_store_write''}"
| "disabled_at FULL = {}"

definition transition_to :: "datetime \<Rightarrow> DegradationLevel \<Rightarrow> HealthCheckResult list
    \<Rightarrow> DegradationManager \<Rightarrow> DegradationManager" where
  "transition_to now lvl failed m = m
     \<lparr>previous_level := current_level m, disabled_features := disabled_at lvl, current_level := lvl,
      degradation_history := degradation_history m @
        [\<lparr>de_timestamp = now, from_level = current_level m, to_level = lvl,
          de_reason = join ''; '' (map (\<lambda>c. hc_name c @ '': '' @ hc_detail c) failed),
          de_checks = fold (\<lambda>c. dict_set (hc_name c) (hc_passed c)) failed []\<rparr>]\<rparr>"

definition failed_named :: "string set \<Rightarrow> HealthCheckResult list \<Rightarrow> bool" where
  "failed_named ns failed \<longleftrightarrow> list_ex (\<lambda>c. hc_name c \<in> ns) failed"

fun next_level :: "DegradationLevel \<Rightarrow> HealthCheckResult list \<Rightarrow> DegradationLevel" where
  "next_level FULL failed =
     (if failed_named {''llm_api'', ''remote_adapters''} failed then DEGRADED
      else if filter (\<lambda>c. hc_metric c \<ge> hc_threshold c) failed \<noteq> [] then DEGRADED else FULL)"
| "next_level DEGRADED failed =
     (if failed_named {''disk_usage''} failed then SURVIVAL
      else if failed_named {''budget''} failed then SURVIVAL
      else if failed = [] then FULL else DEGRADED)"
| "next_level SURVIVAL failed = SURVIVAL"

definition evaluate :: "datetime \<Rightarrow> engine_health \<Rightarrow> DegradationManager \<Rightarrow> DegradationManager" where
  "evaluate now h m =
     (let (m, checks) = check_health now h m; failed = filter (\<lambda>c. \<not> hc_passed c) checks;
          lvl = next_level (current_level m) failed
      in if lvl \<noteq> current_level m then transition_to now lvl failed m else m)"

text \<open>The reason a user gives is passed on in a place where it is not read.\<close>

definition manual_degrade :: "datetime \<Rightarrow> DegradationLevel \<Rightarrow> string \<Rightarrow> DegradationManager \<Rightarrow> DegradationManager" where
  "manual_degrade now lvl reason m = transition_to now lvl [] m"

definition manual_recover :: "datetime \<Rightarrow> DegradationManager \<Rightarrow> DegradationManager" where
  "manual_recover now m = transition_to now FULL [] m"

subsection \<open>Features\<close>

definition level_checks :: "(string, DegradationLevel list) dict" where
  "level_checks =
     [(''t1_validators'', [FULL, DEGRADED]), (''t2_validators'', [FULL]), (''t3_validators'', [FULL]),
      (''remote_adapters'', [FULL]), (''local_adapters'', [FULL, DEGRADED]),
      (''state_tracking'', [FULL, DEGRADED, SURVIVAL]), (''event_writing'', [FULL, DEGRADED]),
      (''run_crud'', [FULL, DEGRADED, SURVIVAL])]"

definition is_enabled :: "string \<Rightarrow> DegradationManager \<Rightarrow> bool" where
  "is_enabled feature m \<longleftrightarrow> feature \<notin> disabled_features m \<and>
     current_level m \<in> set (dict_get_default level_checks feature [FULL])"

definition feature_matrix :: "DegradationManager \<Rightarrow> (string, bool) dict" where
  "feature_matrix m = map (\<lambda>f. (f, is_enabled f m))
     [''t1_validators'', ''t2_validators'', ''t3_validators'', ''remote_adapters'',
      ''local_adapters'', ''state_tracking'', ''event_writing'', ''run_crud'']"

subsection \<open>What every operation keeps\<close>

text \<open>
  The switched-off features are those of the level, and the history is a path from
  \<^const>\<open>FULL\<close> to the current level.
\<close>

fun history_path :: "DegradationLevel \<Rightarrow> DegradationEvent list \<Rightarrow> DegradationLevel \<Rightarrow> bool" where
  "history_path a [] b \<longleftrightarrow> a = b"
| "history_path a (e # es) b \<longleftrightarrow> from_level e = a \<and> history_path (to_level e) es b"

lemma history_path_snoc:
  "history_path a (es @ [e]) b \<longleftrightarrow> history_path a es (from_level e) \<and> to_level e = b"
  by (induction es arbitrary: a) auto

definition deg_inv :: "DegradationManager \<Rightarrow> bool" where
  "deg_inv m \<longleftrightarrow> disabled_features m = disabled_at (current_level m) \<and>
     history_path FULL (degradation_history m) (current_level m)"

datatype deg_op = Evaluate datetime engine_health | Degrade datetime DegradationLevel string | Recover datetime

fun deg_step :: "deg_op \<Rightarrow> DegradationManager \<Rightarrow> DegradationManager" where
  "deg_step (Evaluate now h) m = evaluate now h m"
| "deg_step (Degrade now lvl reason) m = manual_degrade now lvl reason m"
| "deg_step (Recover now) m = manual_recover now m"

lemma transition_to_inv: "deg_inv m \<Longrightarrow> deg_inv (transition_to now lvl failed m)"
  by (simp add: deg_inv_def transition_to_def history_path_snoc)

lemma deg_step_inv: "deg_inv m \<Longrightarrow> deg_inv (deg_step op m)"
proof (cases op)
  case (Evaluate now h)
  assume "deg_inv m"
  then have "deg_inv (m\<lparr>check_count := check_count m + 1, last_check_time := Some now\<rparr>)"
    by (simp add: deg_inv_def)
  then show ?thesis
    by (simp add: Evaluate evaluate_def check_health_def Let_def transition_to_inv)
qed (simp_all add: manual_degrade_def manual_recover_def transition_to_inv)

interpretation deg: invariant_system deg_step deg_inv
  by unfold_locales (rule deg_step_inv)

lemma deg_inv_init: "deg_inv init_degradation"
  by (simp add: deg_inv_def init_degradation_def)

text \<open>Which features a level allows: the table, less what the level switches off.\<close>

definition allowed_at :: "DegradationLevel \<Rightarrow> string \<Rightarrow> bool" where
  "allowed_at lvl f \<longleftrightarrow> f \<notin> disabled_at lvl \<and> lvl \<in> set (dict_get_default level_checks f [FULL])"

lemma allowed_antimono: "allowed_at b f \<Longrightarrow> a \<le> b \<Longrightarrow> allowed_at a f"
  by (cases a; cases b)
    (auto simp: allowed_at_def less_eq_DegradationLevel_def level_checks_def dict_get_default_def
      split: if_splits)

text \<open>Whatever happened before, a feature is enabled exactly if the current level allows it; and a
  feature that one level allows is allowed by every less degraded level, so degrading never
  switches a feature on.\<close>

theorem features_follow_level:
  "let m = fold deg_step ops init_degradation
   in is_enabled f m = allowed_at (current_level m) f \<and>
      history_path FULL (degradation_history m) (current_level m) \<and>
      {g. allowed_at (max a b) g} \<subseteq> {g. allowed_at (min a b) g}"
proof -
  have "deg_inv (fold deg_step ops init_degradation)"
    by (rule deg.inv_run) (rule deg_inv_init)
  moreover have "{g. allowed_at (max a b) g} \<subseteq> {g. allowed_at (min a b) g}"
    by (auto intro: allowed_antimono [of "max a b"] simp: min_le_iff_disj)
  ultimately show ?thesis
    by (simp add: Let_def deg_inv_def is_enabled_def allowed_at_def)
qed

text \<open>The automatic evaluation moves at most one level at a time and never leaves
  \<^const>\<open>SURVIVAL\<close>: at \<^const>\<open>FULL\<close> any failed check degrades; at \<^const>\<open>DEGRADED\<close> a full disk or an
  exhausted budget leads to \<^const>\<open>SURVIVAL\<close>, and only a round without any failure back to \<^const>\<open>FULL\<close>.\<close>

theorem evaluate_spec:
  "current_level (evaluate now h m) =
     (let disk_ok = hc_passed (check_disk_usage m h); budget_ok = \<not> budget_hard_limit_reached h;
          calls_ok = llm_failures h < max_llm_failures (thresholds m) \<and>
            adapter_failures h < max_adapter_failures (thresholds m)
      in case current_level m of
        FULL \<Rightarrow> if disk_ok \<and> budget_ok \<and> calls_ok then FULL else DEGRADED
      | DEGRADED \<Rightarrow> if \<not> disk_ok \<or> \<not> budget_ok then SURVIVAL else if calls_ok then FULL else DEGRADED
      | SURVIVAL \<Rightarrow> SURVIVAL)"
proof -
  have disk: "hc_name (check_disk_usage m h) = ''disk_usage''"
    "\<not> hc_passed (check_disk_usage m h) \<Longrightarrow> hc_threshold (check_disk_usage m h) \<le> hc_metric (check_disk_usage m h)"
    "check_disk_usage (m\<lparr>check_count := k, last_check_time := t\<rparr>) h = check_disk_usage m h" for k t
    by (simp_all add: check_disk_usage_def Let_def split: sum.splits prod.splits)
  show ?thesis
    by (cases "current_level m")
      (auto simp: evaluate_def check_health_def transition_to_def failed_named_def Let_def disk
        check_llm_api_def check_remote_adapters_def failures_check_def check_budget_def check_memory_def)
qed

text \<open>A manual change is recorded without its reason, whatever the user gave.\<close>

theorem manual_reason_lost:
  "map_option de_reason (py_get (degradation_history (manual_degrade now lvl reason m)) (-1)) = Some ''''"
  by (simp add: manual_degrade_def transition_to_def py_get_def)

end
