(* ===== verification/Safety.thy ===== *)
theory Safety
  imports Event_Store Degradation
begin

text \<open>
  The event bus and the runtime safety monitor (\<open>engine/safety.py\<close>). A handler is named by a
  string; calling it is a task for the event loop, so \<open>emit\<close> returns the list of calls it
  schedules, and \<open>safe_call\<close> is what happens when one runs (the text of the exception the handler
  raises, if any, is its argument). Without a running loop, scheduling raises. The objects the
  monitor looks at are records of the attributes it reads, \<^const>\<open>None\<close> where an object lacks one.
\<close>

subsection \<open>Event bus\<close>

record BusEvent =
  be_type :: string
  source_profile :: string
  source_slug :: string
  be_data :: "(string, string) dict"
  be_timestamp :: datetime
  be_trace_id :: string
  be_hop_count :: int
  be_cost_usd :: rat

datatype cycle_warning =
    HopWarning string int string string datetime
  | DuplicateWarning string string int datetime
  | HandlerWarning string string string datetime

record EventBus =
  subscribers :: "(string, string list) dict"
  cycle_warnings :: "cycle_warning list"
  seen_traces :: "string set"

definition max_hops :: int where
  "max_hops = 5"

definition init_bus :: EventBus where
  "init_bus = \<lparr>subscribers = [], cycle_warnings = [], seen_traces = {}\<rparr>"

definition subscribe :: "string \<Rightarrow> string \<Rightarrow> EventBus \<Rightarrow> EventBus" where
  "subscribe ty hdl b = b\<lparr>subscribers := dict_append ty hdl (subscribers b)\<rparr>"

definition unsubscribe :: "string \<Rightarrow> string \<Rightarrow> EventBus \<Rightarrow> EventBus" where
  "unsubscribe ty hdl b =
     (case dict_get (subscribers b) ty of
        None \<Rightarrow> b
      | Some hs \<Rightarrow> if hdl \<in> set hs then b\<lparr>subscribers := dict_set ty (remove1 hdl hs) (subscribers b)\<rparr> else b)"

definition trace_key :: "BusEvent \<Rightarrow> string" where
  "trace_key e = be_trace_id e @ '':'' @ be_type e"

datatype bus_error = NoRunningLoop

definition schedule_calls :: "bool \<Rightarrow> BusEvent \<Rightarrow> string list \<Rightarrow> bus_error + (string \<times> BusEvent) list" where
  "schedule_calls loop e hs = (if hs \<noteq> [] \<and> \<not> loop then Inl NoRunningLoop else Inr (map (\<lambda>h. (h, e)) hs))"

definition emit :: "bool \<Rightarrow> datetime \<Rightarrow> BusEvent \<Rightarrow> EventBus \<Rightarrow> EventBus \<times> (bus_error + (string \<times> BusEvent) list)" where
  "emit loop now e b =
     (if be_hop_count e \<ge> max_hops then
        (b\<lparr>cycle_warnings := cycle_warnings b @
           [HopWarning (be_trace_id e) (be_hop_count e) (be_type e) (source_slug e) now]\<rparr>, Inr [])
      else if trace_key e \<in> seen_traces b then
        (b\<lparr>cycle_warnings := cycle_warnings b @
           [DuplicateWarning (be_trace_id e) (be_type e) (be_hop_count e) now]\<rparr>, Inr [])
      else
        (b\<lparr>seen_traces := insert (trace_key e) (seen_traces b)\<rparr>,
         schedule_calls loop e (dict_get_default (subscribers b) (be_type e) [])))"

definition safe_call :: "datetime \<Rightarrow> string \<Rightarrow> BusEvent \<Rightarrow> string option \<Rightarrow> EventBus \<Rightarrow> EventBus" where
  "safe_call now h e err b =
     (case err of
        None \<Rightarrow> b
      | Some msg \<Rightarrow> b\<lparr>cycle_warnings := cycle_warnings b @ [HandlerWarning (be_trace_id e) msg h now]\<rparr>)"

definition clear_traces :: "EventBus \<Rightarrow> EventBus" where
  "clear_traces b = b\<lparr>seen_traces := {}\<rparr>"

definition has_cycles :: "EventBus \<Rightarrow> bool" where
  "has_cycles b \<longleftrightarrow> length (cycle_warnings b) > 0"

text \<open>A sequence of events, with the calls they lead to.\<close>

fun emit_all :: "datetime \<Rightarrow> BusEvent list \<Rightarrow> EventBus \<Rightarrow> EventBus \<times> (string \<times> BusEvent) list" where
  "emit_all now [] b = (b, [])"
| "emit_all now (e # es) b =
     (let (b, r) = emit True now e b; (b, calls) = emit_all now es b
      in (b, (case r of Inl _ \<Rightarrow> [] | Inr cs \<Rightarrow> cs) @ calls))"

subsection \<open>The runtime safety monitor\<close>

record InvariantSpec =
  inv_name :: string
  inv_category :: string
  inv_severity :: string
  inv_action :: string

datatype py_exception = MissingArgument string | AttributeMissing string | NameUnknown string | LoopError

datatype violation_message = Violated string | CheckFailed string py_exception

record InvariantViolation =
  vio_name :: string
  vio_category :: string
  vio_severity :: string
  vio_message :: violation_message
  vio_timestamp :: datetime
  vio_resolved :: bool
  vio_resolved_at :: "datetime option"

record sm_view =
  sv_all_states :: "string list option"
  sv_current_states :: "(string, string) dict option"
  sv_iteration_count :: "int option"
  sv_max_iterations :: "int option"

record run_view =
  rv_cost_and_limit :: "(rat \<times> rat) option"
  rv_drift_rate :: "rat option"

record cache_view =
  cv_hit_rate :: "rat option"

record check_context =
  ctx_sm :: "sm_view option"
  ctx_run :: "run_view option"
  ctx_store :: "EventStore option"
  ctx_cache :: "cache_view option"
  ctx_bus :: "EventBus option"
  ctx_deg :: "DegradationLevel option"

definition invariants :: "InvariantSpec list" where
  "invariants = map (\<lambda>(n, c, s, a). \<lparr>inv_name = n, inv_category = c, inv_severity = s, inv_action = a\<rparr>)
     [(''state_exists'', ''state_machine'', ''CRITICAL'', ''pause''),
      (''valid_transition'', ''state_machine'', ''CRITICAL'', ''pause''),
      (''no_state_leak'', ''state_machine'', ''CRITICAL'', ''pause''),
      (''monotonic_progress'', ''progress'', ''CRITICAL'', ''block''),
      (''budget_respected'', ''resources'', ''FATAL'', ''degrade_survival''),
      (''event_count_reasonable'', ''resources'', ''WARNING'', ''compact''),
      (''no_orphan_events'', ''data_integrity'', ''WARNING'', ''compact''),
      (''cache_fresh'', ''data_integrity'', ''WARNING'', ''notify''),
      (''drift_not_exploding'', ''drift'', ''CRITICAL'', ''escalate''),
      (''cross_profile_no_cycle'', ''safety'', ''FATAL'', ''bus_reset'')]"

text \<open>
  The check functions, called by \<open>_call_with_context\<close> with the parameters that the context
  has: a parameter it lacks, as \<open>s\<close>, \<open>f\<close> and \<open>t\<close> always are, is a \<open>TypeError\<close>.
\<close>

type_synonym check_result = "py_exception + bool"

definition with_arg :: "string \<Rightarrow> 'a option \<Rightarrow> ('a \<Rightarrow> check_result) \<Rightarrow> check_result" where
  "with_arg p x f = (case x of None \<Rightarrow> Inl (MissingArgument p) | Some a \<Rightarrow> f a)"

definition check_no_state_leak :: "sm_view \<Rightarrow> check_result" where
  "check_no_state_leak sm =
     (case sv_current_states sm of
        None \<Rightarrow> Inr True
      | Some cur \<Rightarrow>
          if cur = [] then Inr True
          else (case sv_all_states sm of
              None \<Rightarrow> Inl (AttributeMissing ''all_states'')
            | Some ss \<Rightarrow> Inr (list_all (\<lambda>s. s \<in> set ss) (dict_values cur))))"

definition check_monotonic_progress :: "sm_view \<Rightarrow> check_result" where
  "check_monotonic_progress sm =
     (case sv_iteration_count sm of
        None \<Rightarrow> Inr True
      | Some i \<Rightarrow> (case sv_max_iterations sm of
            None \<Rightarrow> Inl (AttributeMissing ''max_iterations'') | Some m \<Rightarrow> Inr (i \<le> m)))"

definition check_budget_respected :: "run_view \<Rightarrow> check_result" where
  "check_budget_respected r = Inr (case rv_cost_and_limit r of None \<Rightarrow> True | Some (c, l) \<Rightarrow> c \<le> l)"

definition check_event_count :: "EventStore \<Rightarrow> check_result" where
  "check_event_count s = Inr (event_count s < 10000)"

definition check_no_orphan_events :: "EventStore \<Rightarrow> check_result" where
  "check_no_orphan_events s =
     Inr (es_index s = [] \<or> list_all (\<lambda>k. get_event k s \<noteq> None) (take 100 (dict_keys (es_index s))))"

text \<open>\<open>DegradationLevel\<close> is not imported where this check is defined.\<close>

definition check_cache_fresh :: "cache_view \<Rightarrow> DegradationLevel \<Rightarrow> check_result" where
  "check_cache_fresh c deg = (case cv_hit_rate c of None \<Rightarrow> Inr True | Some r \<Rightarrow> Inl (NameUnknown ''DegradationLevel''))"

definition check_drift :: "run_view \<Rightarrow> check_result" where
  "check_drift r = Inr (case rv_drift_rate r of None \<Rightarrow> True | Some d \<Rightarrow> d < 9/10)"

definition check_no_cycle :: "EventBus \<Rightarrow> check_result" where
  "check_no_cycle b = Inr (\<not> has_cycles b)"

definition run_check :: "check_context \<Rightarrow> string \<Rightarrow> check_result" where
  "run_check ctx name =
     (if name = ''state_exists'' then with_arg ''sm'' (ctx_sm ctx) (\<lambda>_. Inl (MissingArgument ''s''))
      else if name = ''valid_transition'' then with_arg ''sm'' (ctx_sm ctx) (\<lambda>_. Inl (MissingArgument ''f''))
      else if name = ''no_state_leak'' then with_arg ''sm'' (ctx_sm ctx) check_no_state_leak
      else if name = ''monotonic_progress'' then with_arg ''sm'' (ctx_sm ctx) check_monotonic_progress
      else if name = ''budget_respected'' then with_arg ''run'' (ctx_run ctx) check_budget_respected
      else if name = ''event_count_reasonable'' then with_arg ''store'' (ctx_store ctx) check_event_count
      else if name = ''no_orphan_events'' then with_arg ''store'' (ctx_store ctx) check_no_orphan_events
      else if name = ''cache_fresh'' then
        with_arg ''cache'' (ctx_cache ctx) (\<lambda>c. with_arg ''deg'' (ctx_deg ctx) (check_cache_fresh c))
      else if name = ''drift_not_exploding'' then with_arg ''run'' (ctx_run ctx) check_drift
      else with_arg ''bus'' (ctx_bus ctx) check_no_cycle)"

record SafetyMonitor =
  violations :: "InvariantViolation list"
  sm_check_count :: nat
  monitor_bus :: "EventBus option"

text \<open>
  An action can change the bus of the context or schedule a compaction of the store, which
  raises without a running loop; the other actions do nothing.
\<close>

definition take_action :: "bool \<Rightarrow> string \<Rightarrow> check_context \<Rightarrow> check_context \<times> string list \<times> py_exception option" where
  "take_action loop action ctx =
     (if action = ''compact'' then
        (case ctx_store ctx of
           None \<Rightarrow> (ctx, [], None)
         | Some s \<Rightarrow> if loop then (ctx, [es_slug s], None) else (ctx, [], Some LoopError))
      else if action = ''bus_reset'' then (ctx\<lparr>ctx_bus := map_option clear_traces (ctx_bus ctx)\<rparr>, [], None)
      else (ctx, [], None))"

definition violated :: "datetime \<Rightarrow> InvariantSpec \<Rightarrow> InvariantViolation" where
  "violated now i = \<lparr>vio_name = inv_name i, vio_category = inv_category i,
     vio_severity = inv_severity i, vio_message = Violated (inv_name i), vio_timestamp = now,
     vio_resolved = False, vio_resolved_at = None\<rparr>"

definition check_failed :: "datetime \<Rightarrow> InvariantSpec \<Rightarrow> py_exception \<Rightarrow> InvariantViolation" where
  "check_failed now i ex = \<lparr>vio_name = inv_name i, vio_category = ''system'',
     vio_severity = ''CRITICAL'', vio_message = CheckFailed (inv_name i) ex, vio_timestamp = now,
     vio_resolved = False, vio_resolved_at = None\<rparr>"

definition check_one :: "bool \<Rightarrow> datetime \<Rightarrow> InvariantSpec \<Rightarrow> check_context
    \<Rightarrow> check_context \<times> string list \<times> InvariantViolation list" where
  "check_one loop now i ctx =
     (case run_check ctx (inv_name i) of
        Inl ex \<Rightarrow> (ctx, [], [check_failed now i ex])
      | Inr True \<Rightarrow> (ctx, [], [])
      | Inr False \<Rightarrow>
          (let (ctx, jobs, err) = take_action loop (inv_action i) ctx
           in (ctx, jobs, violated now i # (case err of None \<Rightarrow> [] | Some ex \<Rightarrow> [check_failed now i ex]))))"

fun check_each :: "bool \<Rightarrow> datetime \<Rightarrow> InvariantSpec list \<Rightarrow> check_context
    \<Rightarrow> check_context \<times> string list \<times> InvariantViolation list" where
  "check_each loop now [] ctx = (ctx, [], [])"
| "check_each loop now (i # invs) ctx =
     (let (ctx, jobs, vs) = check_one loop now i ctx; (ctx, jobs', vs') = check_each loop now invs ctx
      in (ctx, jobs @ jobs', vs @ vs'))"

text \<open>The bus of the monitor stands in for a missing one; an action changes it in place.\<close>

definition check_all :: "bool \<Rightarrow> datetime \<Rightarrow> check_context \<Rightarrow> SafetyMonitor
    \<Rightarrow> SafetyMonitor \<times> check_context \<times> string list \<times> InvariantViolation list" where
  "check_all loop now ctx m =
     (let own = (ctx_bus ctx = None);
          ctx = (if own then ctx\<lparr>ctx_bus := monitor_bus m\<rparr> else ctx);
          (ctx, jobs, vs) = check_each loop now invariants ctx
      in (m\<lparr>violations := violations m @ vs, sm_check_count := sm_check_count m + 1,
            monitor_bus := (if own then ctx_bus ctx else monitor_bus m)\<rparr>, ctx, jobs, vs))"

fun resolve_first :: "string \<Rightarrow> datetime \<Rightarrow> InvariantViolation list \<Rightarrow> InvariantViolation list" where
  "resolve_first name now [] = []"
| "resolve_first name now (v # vs) =
     (if vio_name v = name \<and> \<not> vio_resolved v
      then v\<lparr>vio_resolved := True, vio_resolved_at := Some now\<rparr> # vs
      else v # resolve_first name now vs)"

definition resolve_violation :: "string \<Rightarrow> datetime \<Rightarrow> SafetyMonitor \<Rightarrow> SafetyMonitor" where
  "resolve_violation name now m = m\<lparr>violations := resolve_first name now (violations m)\<rparr>"

definition active_violations :: "SafetyMonitor \<Rightarrow> InvariantViolation list" where
  "active_violations m = filter (\<lambda>v. \<not> vio_resolved v) (violations m)"

definition penalty :: "InvariantViolation \<Rightarrow> rat" where
  "penalty v = (if vio_severity v = ''CRITICAL'' then 3/10
                else if vio_severity v = ''WARNING'' then 1/10 else 0)"

definition health_score :: "SafetyMonitor \<Rightarrow> rat" where
  "health_score m =
     (if filter (\<lambda>v. vio_severity v = ''FATAL'') (active_violations m) \<noteq> [] then 0
      else max 0 (fold (\<lambda>v s. s - penalty v) (active_violations m) 1))"

subsection \<open>Delivery\<close>

definition deliverable :: "BusEvent \<Rightarrow> bool" where
  "deliverable e \<longleftrightarrow> be_hop_count e < max_hops"

text \<open>The event at position \<open>i\<close> is the first one of its key that the bus may deliver.\<close>

definition first_of_key :: "string set \<Rightarrow> BusEvent list \<Rightarrow> nat \<Rightarrow> bool" where
  "first_of_key seen es i \<longleftrightarrow> deliverable (es ! i) \<and> trace_key (es ! i) \<notin> seen \<and>
     trace_key (es ! i) \<notin> trace_key ` set (filter deliverable (take i es))"

definition deliveries :: "string set \<Rightarrow> BusEvent list \<Rightarrow> BusEvent list" where
  "deliveries seen es = map ((!) es) (filter (first_of_key seen es) [0..<length es])"

lemma first_of_key_Suc:
  "first_of_key seen (e # es) (Suc i) = first_of_key (if deliverable e then insert (trace_key e) seen else seen) es i"
  by (auto simp: first_of_key_def)

lemma deliveries_Cons:
  "deliveries seen (e # es) =
     (if deliverable e \<and> trace_key e \<notin> seen then [e] else []) @
     deliveries (if deliverable e then insert (trace_key e) seen else seen) es"
proof -
  have f: "filter (first_of_key seen (e # es)) (map Suc [0..<length es]) =
      map Suc (filter (first_of_key (if deliverable e then insert (trace_key e) seen else seen) es) [0..<length es])"
    by (simp only: filter_map o_def first_of_key_Suc)
  have "[0..<length (e # es)] = 0 # map Suc [0..<length es]"
    by (simp add: upt_conv_Cons map_Suc_upt del: upt_Suc)
  then have "deliveries seen (e # es) = (if first_of_key seen (e # es) 0 then [e] else []) @
      map ((!) (e # es)) (filter (first_of_key seen (e # es)) (map Suc [0..<length es]))"
    by (simp add: deliveries_def del: upt_Suc filter_map)
  also have "\<dots> = (if first_of_key seen (e # es) 0 then [e] else []) @
      deliveries (if deliverable e then insert (trace_key e) seen else seen) es"
    unfolding f by (simp add: deliveries_def del: filter_map)
  finally show ?thesis by (simp add: first_of_key_def)
qed

text \<open>C34: Between two clearings of the traces, with a running event loop, the bus calls the subscribers of
  its type, in their order, exactly for the events that have fewer than five hops and are the first
  ones of their key, in the order in which they were emitted, each as it was emitted: repetitions of a
  key, whatever they carry, and events with more hops reach nobody. The key is the trace, a colon and the type, so
  that pairs of trace and type whose texts join to the same key count as one. What it remembers afterwards are the keys
  of the delivered events beside those it knew.\<close>

theorem bus_delivers_once:
  "snd (emit_all now es b) = concat (map (\<lambda>e. map (\<lambda>h. (h, e)) (dict_get_default (subscribers b) (be_type e) []))
       (deliveries (seen_traces b) es)) \<and>
   seen_traces (fst (emit_all now es b)) = seen_traces b \<union> trace_key ` set (deliveries (seen_traces b) es) \<and>
   subscribers (fst (emit_all now es b)) = subscribers b"
proof (induction es arbitrary: b)
  case Nil
  then show ?case by (simp add: deliveries_def)
next
  case (Cons e es)
  have [simp]: "subscribers (fst (emit True now e b)) = subscribers b" by (simp add: emit_def)
  have s: "seen_traces (fst (emit True now e b)) = (if deliverable e then insert (trace_key e) (seen_traces b) else seen_traces b)"
    by (auto simp: emit_def deliverable_def)
  have c: "(case snd (emit True now e b) of Inl _ \<Rightarrow> [] | Inr cs \<Rightarrow> cs) =
      (if deliverable e \<and> trace_key e \<notin> seen_traces b
       then map (\<lambda>h. (h, e)) (dict_get_default (subscribers b) (be_type e) []) else [])"
    by (simp add: emit_def deliverable_def schedule_calls_def not_le)
  show ?case
    using Cons.IH [of "fst (emit True now e b)"]
    by (simp add: case_prod_unfold Let_def deliveries_Cons c s) auto
qed

subsection \<open>Alarms\<close>

lemma check_each_append:
  "snd (snd (check_each loop now (xs @ ys) ctx)) =
     snd (snd (check_each loop now xs ctx)) @ snd (snd (check_each loop now ys (fst (check_each loop now xs ctx))))"
  by (induction xs arbitrary: ctx) (simp_all add: case_prod_unfold Let_def)

definition first_two :: "InvariantSpec list" where
  "first_two = take 2 invariants"

lemma invariants_split: "invariants = first_two @ drop 2 invariants"
  by (simp add: first_two_def)

lemma first_two_fail:
  "map vio_severity (snd (snd (check_each loop now first_two ctx))) = [''CRITICAL'', ''CRITICAL''] \<and>
     list_all (\<lambda>v. \<not> vio_resolved v) (snd (snd (check_each loop now first_two ctx)))"
  by (cases "ctx_sm ctx")
    (simp_all add: first_two_def invariants_def check_one_def run_check_def with_arg_def check_failed_def
      numeral_2_eq_2)

lemma check_one_unresolved: "list_all (\<lambda>v. \<not> vio_resolved v) (snd (snd (check_one loop now i ctx)))"
  by (simp add: check_one_def check_failed_def violated_def Let_def case_prod_unfold
      split: sum.split bool.split option.split)

lemma check_new_unresolved: "list_all (\<lambda>v. \<not> vio_resolved v) (snd (snd (check_each loop now invs ctx)))"
  by (induction invs arbitrary: ctx) (simp_all add: case_prod_unfold Let_def check_one_unresolved)

lemma fold_penalty: "fold (\<lambda>v s. s - penalty v) vs x = x - sum_list (map penalty vs)"
  by (induction vs arbitrary: x) simp_all

lemma health_score_le: "health_score m \<le> max 0 (1 - sum_list (map penalty (active_violations m)))"
  by (simp add: health_score_def fold_penalty)

lemma penalty_nonneg: "0 \<le> sum_list (map penalty vs)"
  by (rule sum_list_nonneg) (auto simp: penalty_def)

text \<open>Every check of the monitor raises at least two critical alarms, whatever it looks at, because
  two of its invariants need arguments that it never passes. So after any check the health
  score is at most 0.4.\<close>

theorem monitor_always_alarms:
  "health_score (fst (check_all loop now ctx m)) \<le> 2/5"
proof -
  obtain ctx0 where c: "violations (fst (check_all loop now ctx m)) =
      violations m @ snd (snd (check_each loop now invariants ctx0))"
    by (simp add: check_all_def Let_def case_prod_unfold)
  let ?vs = "snd (snd (check_each loop now first_two ctx0))"
  let ?ws = "snd (snd (check_each loop now (drop 2 invariants) (fst (check_each loop now first_two ctx0))))"
  have v: "snd (snd (check_each loop now invariants ctx0)) = ?vs @ ?ws"
    by (subst invariants_split) (rule check_each_append)
  have a: "active_violations (fst (check_all loop now ctx m)) = active_violations m @ ?vs @ ?ws"
    using first_two_fail [of loop now ctx0] check_new_unresolved [of loop now "drop 2 invariants"]
    by (simp add: active_violations_def c v list_all_iff filter_id_conv)
  have "map penalty ?vs = map (\<lambda>s. if s = ''CRITICAL'' then 3/10 else if s = ''WARNING'' then 1/10 else 0)
      (map vio_severity ?vs)"
    by (simp add: penalty_def)
  then have "sum_list (map penalty ?vs) = 3/5"
    using first_two_fail [of loop now ctx0] by simp
  then have "3/5 \<le> sum_list (map penalty (active_violations (fst (check_all loop now ctx m))))"
    unfolding a using penalty_nonneg [of "active_violations m"] penalty_nonneg [of ?ws] by simp
  then show ?thesis
    using health_score_le [of "fst (check_all loop now ctx m)"] by linarith
qed

text \<open>Once the bus has a warning (a handler that raised is enough), every check of it reports a
  cycle, also after the reset: that clears the memory of the traces, so that duplicates are delivered again,
  but keeps the warnings.\<close>

theorem bus_reset_keeps_alarm:
  "has_cycles (clear_traces (safe_call now h e (Some msg) b)) \<and>
     seen_traces (clear_traces (safe_call now h e (Some msg) b)) = {} \<and>
     run_check (ctx\<lparr>ctx_bus := Some (clear_traces (safe_call now h e (Some msg) b))\<rparr>) ''cross_profile_no_cycle'' = Inr False"
  by (simp add: has_cycles_def clear_traces_def safe_call_def run_check_def with_arg_def check_no_cycle_def)

end
