(* ===== verification/Rate_Limit.thy ===== *)
theory Rate_Limit
  imports Systems PyString
begin

text \<open>
  API keys and roles (\<open>engine/auth.py\<close>), the token bucket (\<open>engine/ratelimit.py\<close>) and the
  check of a request, which combines them. The hash (SHA-256) is the argument \<open>hash\<close>; random
  parts of ids and keys are arguments. The directory of keys is a dict from key ids to the
  contents of their files, \<^const>\<open>None\<close> for a file that cannot be parsed. \<open>time.monotonic()\<close> is
  the argument \<open>now\<close>. Every operation holds its lock, so
  operations are atomic; only \<open>check\<close> reads the clock just before it takes the lock, so between threads the
  times of the checks need not increase in the order in which they take effect. Amounts of tokens are rational
  numbers, without the rounding of floats.
\<close>

subsection \<open>Roles\<close>

definition role_hierarchy :: "(string, int) dict" where
  "role_hierarchy = [(''readonly'', 0), (''user'', 1), (''admin'', 2)]"

definition valid_roles :: "string set" where
  "valid_roles = {''admin'', ''user'', ''readonly''}"

record AuthResult =
  ar_valid :: bool
  ar_role :: string
  ar_name :: string
  ar_key_id :: string
  ar_error :: string

definition auth_failure :: "string \<Rightarrow> AuthResult" where
  "auth_failure err = \<lparr>ar_valid = False, ar_role = '''', ar_name = '''', ar_key_id = '''', ar_error = err\<rparr>"

datatype permission_error = NoAuthResult | AuthRequired | RoleInsufficient string string

text \<open>The wrapper of \<open>require_role\<close>: it calls the function or raises \<open>PermissionError\<close>.\<close>

definition require_role :: "string \<Rightarrow> AuthResult option \<Rightarrow> (unit \<Rightarrow> 'a) \<Rightarrow> permission_error + 'a" where
  "require_role min_role auth f =
     (case auth of
        None \<Rightarrow> Inl NoAuthResult
      | Some a \<Rightarrow>
          if \<not> ar_valid a then Inl AuthRequired
          else if dict_get_default role_hierarchy (ar_role a) (- 1) < dict_get_default role_hierarchy min_role 0
          then Inl (RoleInsufficient (ar_role a) min_role)
          else Inr (f ()))"

subsection \<open>Keys\<close>

record APIKey =
  key_id :: string
  key_hash :: string
  key_name :: string
  role :: string
  key_created_at :: datetime
  expires_at :: "datetime option"
  last_used_at :: "datetime option"
  enabled :: bool
  metadata :: "(string, string) dict"

record AuthManager =
  cache :: "(string, APIKey) dict"
  key_files :: "(string, APIKey option) dict"

datatype auth_error = InvalidRole string

definition save_key :: "APIKey \<Rightarrow> AuthManager \<Rightarrow> AuthManager" where
  "save_key k m = m\<lparr>key_files := dict_set (key_id k) (Some k) (key_files m)\<rparr>"

definition dashed :: "char \<Rightarrow> char" where
  "dashed c = (if c = CHR '' '' \<or> c = CHR ''_'' then CHR ''-'' else c)"

definition generate_id :: "string \<Rightarrow> string \<Rightarrow> string" where
  "generate_id suffix name = utf8_take 20 (map dashed (lower name)) @ ''-'' @ suffix"

definition create_key :: "(string \<Rightarrow> string) \<Rightarrow> string \<Rightarrow> string \<Rightarrow> datetime \<Rightarrow> string \<Rightarrow> string
    \<Rightarrow> int option \<Rightarrow> (string, string) dict \<Rightarrow> AuthManager \<Rightarrow> AuthManager \<times> (auth_error + string \<times> string)" where
  "create_key hash suffix secret now name r days md m =
     (if r \<notin> valid_roles then (m, Inl (InvalidRole r))
      else
        let kid = generate_id suffix name; raw = ''pdmk_'' @ secret;
            k = \<lparr>key_id = kid, key_hash = hash raw, key_name = name, role = r, key_created_at = now,
              expires_at = (case days of None \<Rightarrow> None
                | Some d \<Rightarrow> if d = 0 then None else Some (now + d * 86400000000)),
              last_used_at = None, enabled = True, metadata = md\<rparr>;
            m = save_key k m
        in (m\<lparr>cache := dict_set kid k (cache m)\<rparr>, Inr (kid, raw)))"

definition validate_key :: "(string \<Rightarrow> string) \<Rightarrow> datetime \<Rightarrow> string \<Rightarrow> AuthManager \<Rightarrow> AuthManager \<times> AuthResult" where
  "validate_key hash now raw m =
     (if \<not> starts_with raw ''pdmk_'' then (m, auth_failure ''Invalid key format'')
      else case List.find (\<lambda>(_, k). key_hash k = hash raw) (cache m) of
        None \<Rightarrow> (m, auth_failure ''Key not found'')
      | Some (kid, k) \<Rightarrow>
          if (case expires_at k of None \<Rightarrow> False | Some e \<Rightarrow> e < now) then (m, auth_failure ''Key expired'')
          else if \<not> enabled k then (m, auth_failure ''Key disabled'')
          else
            let k = k\<lparr>last_used_at := Some now\<rparr>;
                m = save_key k (m\<lparr>cache := dict_set kid k (cache m)\<rparr>)
            in (m, \<lparr>ar_valid = True, ar_role = role k, ar_name = key_name k, ar_key_id = key_id k,
                    ar_error = ''''\<rparr>))"

definition revoke_key :: "string \<Rightarrow> AuthManager \<Rightarrow> AuthManager \<times> bool" where
  "revoke_key kid m =
     (case dict_get (cache m) kid of
        None \<Rightarrow> (m, False)
      | Some k \<Rightarrow> let k = k\<lparr>enabled := False\<rparr>
          in (save_key k (m\<lparr>cache := dict_set kid k (cache m)\<rparr>), True))"

text \<open>\<open>_load_cache\<close> reads the files in the order of their names.\<close>

definition load_cache :: "(string, APIKey option) dict \<Rightarrow> AuthManager" where
  "load_cache fs = \<lparr>cache = fold (\<lambda>(_, f) c. case f of None \<Rightarrow> c | Some k \<Rightarrow> dict_set (key_id k) k c)
     (sort_key (\<lambda>(name, _). name @ ''.json'') fs) [], key_files = fs\<rparr>"

text \<open>\<open>headers.get(...)\<close> of the two headers; the first wins if it has the form of a token.\<close>

definition get_auth_from_header :: "(string \<Rightarrow> string) \<Rightarrow> datetime \<Rightarrow> string option \<Rightarrow> string option
    \<Rightarrow> AuthManager \<Rightarrow> AuthManager \<times> AuthResult" where
  "get_auth_from_header hash now auth_header api_key m =
     (case auth_header of
        Some h \<Rightarrow>
          if starts_with h ''Bearer '' then validate_key hash now (drop 7 h) m
          else (case api_key of
              None \<Rightarrow> (m, auth_failure ''No authentication provided'')
            | Some k \<Rightarrow> if k = '''' then (m, auth_failure ''No authentication provided'')
                else validate_key hash now k m)
      | None \<Rightarrow> (case api_key of
            None \<Rightarrow> (m, auth_failure ''No authentication provided'')
          | Some k \<Rightarrow> if k = '''' then (m, auth_failure ''No authentication provided'')
              else validate_key hash now k m))"

subsection \<open>Token bucket\<close>

record Bucket =
  tokens :: rat
  last_refill :: seconds
  bucket_burst :: rat

record key_stats =
  allowed_count :: nat
  denied_count :: nat
  last_check :: seconds

record RateLimiter =
  rate :: rat
  burst :: rat
  buckets :: "(string, Bucket) dict"
  limiter_stats :: "(string, key_stats) dict"

definition init_limiter :: "rat \<Rightarrow> rat option \<Rightarrow> RateLimiter" where
  "init_limiter r b = \<lparr>rate = r, burst = (case b of None \<Rightarrow> r | Some x \<Rightarrow> if x = 0 then r else x),
     buckets = [], limiter_stats = []\<rparr>"

text \<open>A denial divides by the rate, which raises if that is zero.\<close>

datatype rate_result = Allowed | Denied rat | RateZeroDivision

definition bump_allowed :: "string \<Rightarrow> seconds \<Rightarrow> RateLimiter \<Rightarrow> RateLimiter" where
  "bump_allowed k now l =
     (let s = dict_get_default (limiter_stats l) k \<lparr>allowed_count = 0, denied_count = 0, last_check = 0\<rparr>
      in l\<lparr>limiter_stats := dict_set k (s\<lparr>allowed_count := allowed_count s + 1, last_check := now\<rparr>) (limiter_stats l)\<rparr>)"

definition bump_denied :: "string \<Rightarrow> seconds \<Rightarrow> RateLimiter \<Rightarrow> RateLimiter" where
  "bump_denied k now l =
     (let s = dict_get_default (limiter_stats l) k \<lparr>allowed_count = 0, denied_count = 0, last_check = 0\<rparr>
      in l\<lparr>limiter_stats := dict_set k (s\<lparr>denied_count := denied_count s + 1, last_check := now\<rparr>) (limiter_stats l)\<rparr>)"

definition check :: "seconds \<Rightarrow> string \<Rightarrow> rat \<Rightarrow> RateLimiter \<Rightarrow> RateLimiter \<times> rate_result" where
  "check now k cost l =
     (case dict_get (buckets l) k of
        None \<Rightarrow>
          (bump_allowed k now (l\<lparr>buckets := dict_set k
             \<lparr>tokens = max 0 (burst l - cost), last_refill = now, bucket_burst = burst l\<rparr> (buckets l)\<rparr>), Allowed)
      | Some b \<Rightarrow>
          let new = min (burst l) (tokens b + (now - last_refill b) * rate l)
          in if new \<ge> cost then
               (bump_allowed k now (l\<lparr>buckets := dict_set k
                  (b\<lparr>tokens := new - cost, last_refill := now\<rparr>) (buckets l)\<rparr>), Allowed)
             else
               let l' = l\<lparr>buckets := dict_set k (b\<lparr>tokens := new, last_refill := now\<rparr>) (buckets l)\<rparr>
               in if rate l = 0 then (l', RateZeroDivision)
                  else (bump_denied k now l', Denied ((cost - new) / rate l)))"

definition reset_key :: "string \<Rightarrow> RateLimiter \<Rightarrow> RateLimiter" where
  "reset_key k l = (if k = '''' then l\<lparr>buckets := [], limiter_stats := []\<rparr>
     else l\<lparr>buckets := dict_del k (buckets l), limiter_stats := dict_del k (limiter_stats l)\<rparr>)"

subsection \<open>Authentication and rate limit\<close>

datatype request_status = RequestOk | AuthError | RateLimited rat | RequestRaised

definition check_request :: "(string \<Rightarrow> string) \<Rightarrow> datetime \<Rightarrow> seconds \<Rightarrow> string \<Rightarrow> rat
    \<Rightarrow> AuthManager \<times> RateLimiter \<Rightarrow> (AuthManager \<times> RateLimiter) \<times> request_status \<times> AuthResult" where
  "check_request hash now mtime api_key cost s =
     (case s of (m, l) \<Rightarrow>
        let (m, res) = validate_key hash now api_key m
        in if \<not> ar_valid res then ((m, l), AuthError, res)
           else case check mtime (ar_key_id res) cost l of
             (l, Allowed) \<Rightarrow> ((m, l), RequestOk, res)
           | (l, Denied w) \<Rightarrow> ((m, l), RateLimited w, res)
           | (l, RateZeroDivision) \<Rightarrow> ((m, l), RequestRaised, res))"

subsection \<open>Limits\<close>

lemma bump_simps [simp]:
  "buckets (bump_allowed k now l) = buckets l" "buckets (bump_denied k now l) = buckets l"
  "rate (bump_allowed k now l) = rate l" "rate (bump_denied k now l) = rate l"
  "burst (bump_allowed k now l) = burst l" "burst (bump_denied k now l) = burst l"
  by (simp_all add: bump_allowed_def bump_denied_def Let_def)

lemma check_params [simp]:
  "rate (fst (check now k cost l)) = rate l" "burst (fst (check now k cost l)) = burst l"
  by (simp_all add: check_def Let_def split: option.split)

lemma check_other: "j \<noteq> k \<Longrightarrow> dict_get (buckets (fst (check now k cost l))) j = dict_get (buckets l) j"
  by (simp add: check_def Let_def split: option.split)

text \<open>The cost that a run of checks \<open>(now, key, cost)\<close> lets through for one key.\<close>

fun passed_cost :: "string \<Rightarrow> (seconds \<times> string \<times> rat) list \<Rightarrow> RateLimiter \<Rightarrow> rat" where
  "passed_cost k [] l = 0"
| "passed_cost k ((now, j, cost) # cs) l =
     (let (l', r) = check now j cost l
      in (if j = k \<and> r = Allowed then cost else 0) + passed_cost k cs l')"

fun times_ok :: "seconds \<Rightarrow> (seconds \<times> string \<times> rat) list \<Rightarrow> seconds \<Rightarrow> bool" where
  "times_ok t [] t' \<longleftrightarrow> t \<le> t'"
| "times_ok t ((now, j, cost) # cs) t' \<longleftrightarrow> t \<le> now \<and> times_ok now cs t'"

lemma times_ok_le: "times_ok t cs t' \<Longrightarrow> t \<le> t'"
  by (induction cs arbitrary: t) force+

lemma passed_with_bucket:
  assumes "dict_get (buckets l) k = Some b" "rate l \<ge> 0" "times_ok t cs t'" "last_refill b \<le> t"
    "list_all (\<lambda>(_, _, cost). 0 \<le> cost) cs" "0 \<le> tokens b" "0 \<le> burst l"
  shows "passed_cost k cs l \<le> tokens b + rate l * (t' - last_refill b)"
  using assms
proof (induction cs arbitrary: l b t)
  case Nil
  then show ?case by simp
next
  case (Cons c cs)
  obtain now j cost where c: "c = (now, j, cost)" by (metis prod_cases3)
  have t: "t \<le> now" "times_ok now cs t'" and cost: "0 \<le> cost"
    and pos: "list_all (\<lambda>(_, _, cost). 0 \<le> cost) cs"
    using Cons.prems(3,5) by (auto simp: c)
  have r: "rate l \<ge> 0" by fact
  show ?case
  proof (cases "j = k")
    case False
    have "passed_cost k cs (fst (check now j cost l)) \<le> tokens b + rate l * (t' - last_refill b)"
      using Cons.IH [of "fst (check now j cost l)" b now] Cons.prems(1,2,4,6,7) t pos False
      by (simp add: check_other)
    with False show ?thesis by (simp add: c case_prod_unfold Let_def)
  next
    case True
    let ?new = "min (burst l) (tokens b + (now - last_refill b) * rate l)"
    let ?l = "fst (check now k cost l)"
    have new: "?new \<le> tokens b + rate l * (now - last_refill b)" by (simp add: mult.commute)
    show ?thesis
    proof (cases "?new \<ge> cost")
      case pass: True
      have b': "dict_get (buckets ?l) k = Some (b\<lparr>tokens := ?new - cost, last_refill := now\<rparr>)"
        and a: "snd (check now k cost l) = Allowed"
        using Cons.prems(1) pass by (simp_all add: check_def Let_def)
      have "passed_cost k cs ?l \<le> (?new - cost) + rate l * (t' - now)"
        using Cons.IH [OF b' _ t(2) _ pos] r pass Cons.prems(7) by simp
      with new True a show ?thesis
        by (simp add: c case_prod_unfold Let_def algebra_simps)
    next
      case False
      have b': "dict_get (buckets ?l) k = Some (b\<lparr>tokens := ?new, last_refill := now\<rparr>)"
        and a: "snd (check now k cost l) \<noteq> Allowed"
        using Cons.prems(1) False by (auto simp: check_def Let_def)
      have n: "0 \<le> tokens b + (now - last_refill b) * rate l"
        using Cons.prems(4,6) r t(1) by simp
      with Cons.prems(7) have "passed_cost k cs ?l \<le> ?new + rate l * (t' - now)"
        using Cons.IH [OF b' _ t(2) _ pos] r by simp
      with new a True show ?thesis
        by (simp add: c case_prod_unfold Let_def algebra_simps)
    qed
  qed
qed

text \<open>C35: The token bucket limits what it lets through: the checks of one key that are allowed between
  two moments, among any checks of other keys, cost together at most the burst plus the rate times
  the time in between (unless a single check costs more than the burst, and counting from a full
  bucket or from the first use of the key).\<close>

theorem token_bucket_bound:
  assumes "0 \<le> rate l" and "times_ok t cs t'"
    and "list_all (\<lambda>(_, _, cost). 0 \<le> cost \<and> cost \<le> burst l) cs" and "dict_get (buckets l) k = None"
    and "0 \<le> burst l"
  shows "passed_cost k cs l \<le> burst l + rate l * (t' - t)"
  using assms
proof (induction cs arbitrary: l t)
  case Nil
  then show ?case by simp
next
  case (Cons c cs)
  obtain now j cost where c: "c = (now, j, cost)" by (metis prod_cases3)
  have t: "t \<le> now" "times_ok now cs t'" and cost: "0 \<le> cost" "cost \<le> burst l"
    using Cons.prems(2,3) by (auto simp: c)
  have r: "rate l * (t' - now) \<le> rate l * (t' - t)"
    using Cons.prems(1) t(1) by (intro mult_left_mono) simp_all
  show ?case
  proof (cases "j = k")
    case False
    have "passed_cost k cs (fst (check now j cost l)) \<le> burst l + rate l * (t' - now)"
      using Cons.IH [of "fst (check now j cost l)" now] Cons.prems t False by (simp add: c check_other)
    with False r show ?thesis by (simp add: c case_prod_unfold Let_def)
  next
    case True
    let ?l = "fst (check now k cost l)"
    let ?b = "\<lparr>tokens = burst l - cost, last_refill = now, bucket_burst = burst l\<rparr>"
    have b: "dict_get (buckets ?l) k = Some ?b" and a: "snd (check now k cost l) = Allowed"
      using Cons.prems(4) cost by (simp_all add: check_def)
    have pos: "list_all (\<lambda>(_, _, cost). 0 \<le> cost) cs"
      using Cons.prems(3) by (auto simp: c list_all_iff)
    have "passed_cost k cs ?l \<le> tokens ?b + rate ?l * (t' - last_refill ?b)"
      by (rule passed_with_bucket [OF b _ t(2)]) (use Cons.prems pos cost in simp_all)
    with True a r show ?thesis by (simp add: c case_prod_unfold Let_def)
  qed
qed

definition sample_checks :: "(seconds \<times> string \<times> rat) list" where
  "sample_checks = [(0, ''a'', 1), (0, ''a'', 1), (0, ''b'', 1), (1, ''a'', 1), (1, ''a'', 1)]"

theorem token_bucket_bound_witness:
  "passed_cost ''a'' sample_checks (init_limiter 1 (Some 2)) \<le> 2 + 1 * (1 - 0) \<and>
     passed_cost ''a'' sample_checks (init_limiter 1 (Some 2)) = 3"
proof -
  have "passed_cost ''a'' sample_checks (init_limiter 1 (Some 2)) = 3"
    by (simp add: sample_checks_def init_limiter_def check_def bump_allowed_def bump_denied_def Let_def)
  then show ?thesis
    using token_bucket_bound [of "init_limiter 1 (Some 2)" 0 sample_checks 1 "''a''"]
    by (simp add: sample_checks_def init_limiter_def)
qed

text \<open>The wait that a denial reports is exact: if the key is not used meanwhile, the same check is
  denied before that time has passed and allowed once it has, provided its cost does not
  exceed the burst; a larger cost is denied for ever, whatever the reported wait.\<close>

theorem wait_is_exact:
  assumes "check now k cost l = (l', Denied w)" and "0 < rate l" and "0 \<le> d"
  shows "snd (check (now + d) k cost l') = Allowed \<longleftrightarrow> w \<le> d \<and> cost \<le> burst l"
proof -
  obtain b where b: "dict_get (buckets l) k = Some b"
    using assms(1) by (cases "dict_get (buckets l) k") (auto simp: check_def)
  let ?new = "min (burst l) (tokens b + (now - last_refill b) * rate l)"
  have "\<not> cost \<le> ?new" and w: "w = (cost - ?new) / rate l"
    and l': "l' = bump_denied k now (l\<lparr>buckets := dict_set k (b\<lparr>tokens := ?new, last_refill := now\<rparr>) (buckets l)\<rparr>)"
    using assms(1,2) by (auto simp: check_def b Let_def split: if_splits)
  have "snd (check (now + d) k cost l') = Allowed \<longleftrightarrow> cost \<le> min (burst l) (?new + d * rate l)"
    using assms(2) by (simp add: l' check_def Let_def)
  also have "\<dots> \<longleftrightarrow> w \<le> d \<and> cost \<le> burst l"
    using assms(2) by (auto simp: w divide_le_eq)
  finally show ?thesis .
qed

theorem wait_is_exact_witness:
  "\<exists>l w. check 0 ''a'' 2 (fst (check 0 ''a'' 1 (init_limiter 1 (Some 2)))) = (l, Denied w) \<and>
     snd (check (0 + 1) ''a'' 2 l) = Allowed"
proof -
  obtain l where l: "check 0 ''a'' 2 (fst (check 0 ''a'' 1 (init_limiter 1 (Some 2)))) = (l, Denied 1)"
    by (simp add: init_limiter_def check_def bump_allowed_def Let_def)
  have "snd (check (0 + 1) ''a'' 2 l) = Allowed"
    using wait_is_exact [OF l, of 1] by (simp add: init_limiter_def)
  with l show ?thesis by blast
qed

subsection \<open>Keys\<close>

datatype auth_op =
    CreateKey string string datetime string string "int option" "(string, string) dict"
  | ValidateKey datetime string
  | RevokeKey string
  | Restart

fun auth_step :: "(string \<Rightarrow> string) \<Rightarrow> auth_op \<Rightarrow> AuthManager \<Rightarrow> AuthManager" where
  "auth_step hash (CreateKey suffix secret now name r days md) m =
     fst (create_key hash suffix secret now name r days md m)"
| "auth_step hash (ValidateKey now raw) m = fst (validate_key hash now raw m)"
| "auth_step hash (RevokeKey kid) m = fst (revoke_key kid m)"
| "auth_step hash Restart m = load_cache (key_files m)"

text \<open>The files hold what the cache holds, each key under its own id.\<close>

definition synced :: "AuthManager \<Rightarrow> bool" where
  "synced m \<longleftrightarrow> dict_wf (cache m) \<and> dict_wf (key_files m) \<and>
     (\<forall>kid. dict_get (key_files m) kid = map_option Some (dict_get (cache m) kid)) \<and>
     (\<forall>(kid, k)\<in>set (cache m). key_id k = kid)"

text \<open>All keys with the hash \<open>h\<close> are disabled; an operation may not create another one.\<close>

definition hash_disabled :: "string \<Rightarrow> AuthManager \<Rightarrow> bool" where
  "hash_disabled h m \<longleftrightarrow> list_all (\<lambda>(_, k). key_hash k = h \<longrightarrow> \<not> enabled k) (cache m)"

definition creates_not :: "(string \<Rightarrow> string) \<Rightarrow> string \<Rightarrow> auth_op \<Rightarrow> bool" where
  "creates_not hash h op \<longleftrightarrow> (case op of
     CreateKey suffix secret now name r days md \<Rightarrow> hash (''pdmk_'' @ secret) \<noteq> h | _ \<Rightarrow> True)"

lemma list_all_dict_set: "list_all P d \<Longrightarrow> P (k, v) \<Longrightarrow> list_all P (dict_set k v d)"
  by (induction d) auto

lemma save_key_cache [simp]: "cache (save_key k m) = cache m"
  by (simp add: save_key_def)

lemma ar_valid_failure [simp]: "ar_valid (auth_failure e) = False"
  by (simp add: auth_failure_def)

lemma find_key: "List.find (\<lambda>(_, k). key_hash k = h) d = Some (kid, k) \<Longrightarrow> (kid, k) \<in> set d \<and> key_hash k = h"
  by (auto simp: find_Some_iff in_set_conv_nth)

lemma find_disabled:
  assumes "hash_disabled h m" and "List.find (\<lambda>(_, k). key_hash k = h) (cache m) = Some (kid, k)"
  shows "\<not> enabled k"
  using find_key [OF assms(2)] assms(1) by (auto simp: hash_disabled_def list_all_iff)

lemma validate_cache:
  "cache (fst (validate_key hash now raw m)) =
     (case List.find (\<lambda>(_, k). key_hash k = hash raw) (cache m) of
        None \<Rightarrow> cache m
      | Some (kid, k) \<Rightarrow> if ar_valid (snd (validate_key hash now raw m))
          then dict_set kid (k\<lparr>last_used_at := Some now\<rparr>) (cache m) else cache m)"
  by (simp add: validate_key_def Let_def split: option.split)

lemma synced_save:
  assumes "synced m" and "key_id k = kid"
  shows "synced (save_key k (m\<lparr>cache := dict_set kid k (cache m)\<rparr>))"
  using assms by (auto simp: synced_def save_key_def set_dict_set)

lemma save_key_commute:
  "(save_key k m)\<lparr>cache := dict_set kid k (cache m)\<rparr> = save_key k (m\<lparr>cache := dict_set kid k (cache m)\<rparr>)"
  by (simp add: save_key_def)

lemma load_fold:
  assumes "\<forall>(name, f)\<in>set fs. \<exists>k. f = Some k \<and> key_id k = name" and "dict_wf fs" and "dict_wf c"
  shows "dict_get (fold (\<lambda>(_, f) c. case f of None \<Rightarrow> c | Some k \<Rightarrow> dict_set (key_id k) k c) fs c) j =
      (case dict_get fs j of Some (Some k) \<Rightarrow> Some k | _ \<Rightarrow> dict_get c j) \<and>
    dict_wf (fold (\<lambda>(_, f) c. case f of None \<Rightarrow> c | Some k \<Rightarrow> dict_set (key_id k) k c) fs c)"
  using assms
proof (induction fs arbitrary: c)
  case (Cons p fs)
  obtain n k where p: "p = (n, Some k)" "key_id k = n" using Cons.prems(1) by (cases p) auto
  have "dict_get fs n = None" "dict_wf fs" using Cons.prems(2) by (simp_all add: p dict_wf_def map_of_eq_None_iff)
  then show ?case
    using Cons.IH [of "dict_set n k c"] Cons.prems(1,3)
    by (simp add: p split: option.split)
qed simp

lemma load_cache_synced:
  assumes "synced m"
  shows "synced (load_cache (key_files m)) \<and> set (cache (load_cache (key_files m))) = set (cache m)"
proof -
  let ?fs = "sort_key (\<lambda>(name, _). name @ ''.json'') (key_files m)"
  let ?c = "cache (load_cache (key_files m))"
  have wf: "dict_wf (cache m)" "dict_wf (key_files m)"
      and get: "\<And>kid. dict_get (key_files m) kid = map_option Some (dict_get (cache m) kid)"
      and ids: "\<forall>(kid, k)\<in>set (cache m). key_id k = kid"
    using assms by (auto simp: synced_def)
  have "distinct (map fst ?fs)"
    using wf(2) by (simp add: dict_wf_def distinct_map)
  then have fs: "dict_wf ?fs" "dict_get ?fs = dict_get (key_files m)"
    using wf(2) by (simp_all add: dict_wf_def map_of_inject_set)
  have "\<exists>k. f = Some k \<and> key_id k = name" if "(name, f) \<in> set (key_files m)" for name f
  proof -
    have "dict_get (key_files m) name = Some f" using that wf(2) by (simp add: dict_get_iff)
    then obtain k where "f = Some k" "dict_get (cache m) name = Some k" using get by auto
    then show ?thesis using ids by (auto dest: map_of_SomeD)
  qed
  then have "\<forall>(name, f)\<in>set ?fs. \<exists>k. f = Some k \<and> key_id k = name" by auto
  from load_fold [OF this fs(1) dict_wf_Nil]
  have c: "dict_wf ?c" "dict_get ?c j = dict_get (cache m) j" for j
    by (simp_all add: load_cache_def fs(2) get split: option.split)
  then have "dict_get ?c = dict_get (cache m)" by (simp add: fun_eq_iff)
  then have "set ?c = set (cache m)"
    using c(1) wf(1) by (simp add: dict_wf_def map_of_inject_set)
  moreover have "key_files (load_cache (key_files m)) = key_files m" by (simp add: load_cache_def)
  ultimately show ?thesis using wf get ids c by (simp add: synced_def)
qed

lemma auth_step_synced: "synced m \<Longrightarrow> synced (auth_step hash op m)"
proof (cases op)
  case (CreateKey suffix secret now name r days md)
  then show "synced m \<Longrightarrow> ?thesis"
    by (simp add: create_key_def Let_def save_key_commute synced_save)
next
  case (ValidateKey now raw)
  assume s: "synced m"
  have "key_id k = kid" if "List.find (\<lambda>(_, k). key_hash k = hash raw) (cache m) = Some (kid, k)" for kid k
    using find_key [OF that] s by (auto simp: synced_def)
  then show ?thesis
    using s by (simp add: ValidateKey validate_key_def Let_def synced_save split: option.split)
next
  case (RevokeKey kid)
  assume s: "synced m"
  have "key_id k = kid" if "dict_get (cache m) kid = Some k" for k
    using that s by (auto simp: synced_def dest: map_of_SomeD)
  then show ?thesis
    using s by (simp add: RevokeKey revoke_key_def Let_def synced_save split: option.split)
qed (simp add: load_cache_synced)

lemma auth_step_disabled:
  assumes "synced m" and "hash_disabled h m" and "creates_not hash h op"
  shows "hash_disabled h (auth_step hash op m)"
proof (cases op)
  case (CreateKey suffix secret now name r days md)
  with assms show ?thesis
    by (simp add: create_key_def Let_def hash_disabled_def creates_not_def list_all_dict_set)
next
  case (ValidateKey now raw)
  show ?thesis
  proof (cases "List.find (\<lambda>(_, k). key_hash k = hash raw) (cache m)")
    case None
    with assms(2) show ?thesis by (simp add: ValidateKey hash_disabled_def validate_cache)
  next
    case (Some p)
    obtain kid k where p: "p = (kid, k)" by fastforce
    have "(kid, k) \<in> set (cache m)" using find_key [OF Some [unfolded p]] by blast
    then have "key_hash k = h \<longrightarrow> \<not> enabled k"
      using assms(2) by (auto simp: hash_disabled_def list_all_iff)
    with assms(2) Some p show ?thesis
      by (simp add: ValidateKey hash_disabled_def validate_cache list_all_dict_set)
  qed
next
  case (RevokeKey kid)
  with assms show ?thesis
    by (cases "dict_get (cache m) kid") (simp_all add: revoke_key_def Let_def hash_disabled_def list_all_dict_set)
next
  case Restart
  with assms show ?thesis using load_cache_synced [of m] by (simp add: hash_disabled_def list_all_iff)
qed

interpretation auth: guarded_system "auth_step hash" "creates_not hash h" "\<lambda>m. synced m \<and> hash_disabled h m" for hash h
  by unfold_locales (simp add: auth_step_disabled auth_step_synced)

lemma synced_run: "synced m \<Longrightarrow> synced (fold (auth_step hash) ops m)"
  by (rule fold_invariant [where Q = "\<lambda>_. True"]) (simp_all add: auth_step_synced)

text \<open>Revocation is final: after any history of a manager that started with an empty
  directory, once the only key with the hash of a raw key is revoked, no operations that do not
  create that raw key again ever make it valid, whatever is created, validated or revoked in
  between and however often the manager is restarted from its files.\<close>

theorem revoked_stays_revoked:
  assumes "m = fold (auth_step hash) before (load_cache [])"
    and "dict_get (cache m) kid = Some k" and "key_hash k = hash raw"
    and "\<forall>(j, k')\<in>set (cache m). key_hash k' = hash raw \<longrightarrow> j = kid"
    and "list_all (creates_not hash (hash raw)) after"
  shows "ar_valid (snd (validate_key hash now raw (fold (auth_step hash) after (fst (revoke_key kid m))))) = False"
proof -
  let ?m = "auth_step hash (RevokeKey kid) m"
  have s: "synced m" unfolding assms(1) by (rule synced_run) (simp add: synced_def load_cache_def)
  then have "synced ?m" by (rule auth_step_synced)
  moreover have "hash_disabled (hash raw) ?m"
    using s assms(2,4)
    by (auto simp: synced_def revoke_key_def Let_def hash_disabled_def list_all_iff set_dict_set)
  ultimately have "hash_disabled (hash raw) (fold (auth_step hash) after ?m)"
    using auth.guarded_run [OF _ assms(5), of ?m] by simp
  from find_disabled [OF this] show ?thesis
    by (auto simp: validate_key_def Let_def split: option.split)
qed

definition sample_auth :: AuthManager where
  "sample_auth = fold (auth_step id) [CreateKey ''1'' ''s'' 0 ''bot'' ''user'' None []] (load_cache [])"

theorem revoked_stays_revoked_witness:
  "ar_valid (snd (validate_key id 9 ''pdmk_s'' (fold (auth_step id) [Restart, ValidateKey 8 ''pdmk_s'']
       (fst (revoke_key ''bot-1'' sample_auth))))) = False \<and>
     ar_valid (snd (validate_key id 9 ''pdmk_s'' sample_auth)) = True"
proof -
  have l: "lower ''bot'' = ''bot''" by code_simp
  have c: "cache sample_auth = [(''bot-1'', \<lparr>key_id = ''bot-1'', key_hash = ''pdmk_s'', key_name = ''bot'', role = ''user'',
      key_created_at = 0, expires_at = None, last_used_at = None, enabled = True, metadata = []\<rparr>)]"
    by (simp add: sample_auth_def create_key_def load_cache_def valid_roles_def Let_def
        generate_id_def l dashed_def is_continuation_def eval_nat_numeral)
  have "ar_valid (snd (validate_key id 9 ''pdmk_s'' (fold (auth_step id) [Restart, ValidateKey 8 ''pdmk_s'']
       (fst (revoke_key ''bot-1'' sample_auth))))) = False"
    by (rule revoked_stays_revoked [OF sample_auth_def])
      (simp add: c, simp, simp add: c, simp add: creates_not_def)
  moreover have "ar_valid (snd (validate_key id 9 ''pdmk_s'' sample_auth)) = True"
    by (simp add: c Let_def validate_key_def starts_with_def)
  ultimately show ?thesis by blast
qed

text \<open>A protected function runs exactly for a valid result whose role is high enough; a required
  role that does not exist counts as the lowest one, so a misspelled one lets every valid key in.\<close>

theorem require_role_spec:
  "require_role need (Some a) f = Inr (f ()) \<longleftrightarrow>
     ar_valid a \<and> dict_get_default role_hierarchy need 0 \<le> dict_get_default role_hierarchy (ar_role a) (- 1)"
  by (auto simp: require_role_def)


end
