(* ===== verification/Cost.thy ===== *)
theory Cost
  imports Event_Store "HOL-Library.Multiset"
begin

text \<open>
  Cost tracking (\<open>engine/cost.py\<close>): the tracker with its breakdowns, the deferred efficiency of
  runs, and the analysis of the costs of events. Displayed text is not modelled. A standard
  deviation is compared through its square, which is rational.
\<close>

subsection \<open>Cost tracker\<close>

record LLMCall =
  llm_model :: string
  input_tokens :: int
  output_tokens :: int
  llm_cost :: rat
  purpose :: string
  llm_validator :: string
  llm_timestamp :: datetime
  wasted :: bool

record ComputeOp =
  phase :: string
  duration_s :: rat
  cores :: int
  gpu :: bool
  compute_cost :: rat

record NetworkCall =
  net_adapter :: string
  endpoint :: string
  duration_ms :: int
  network_cost :: rat
  status_code :: int
  net_timestamp :: datetime

record CostTracker =
  llm_calls :: "LLMCall list"
  compute_ops :: "ComputeOp list"
  network_calls :: "NetworkCall list"
  storage_bytes :: int

definition init_tracker :: CostTracker where
  "init_tracker = \<lparr>llm_calls = [], compute_ops = [], network_calls = [], storage_bytes = 0\<rparr>"

text \<open>Dollars per million tokens, input and output.\<close>

definition cost_per_model :: "(string, rat \<times> rat) dict" where
  "cost_per_model =
     [(''deepseek-v4-flash'', (15/100, 60/100)), (''gpt-4o'', (250/100, 10)),
      (''claude-sonnet-4'', (3, 15)), (''gpt-4o-mini'', (15/100, 60/100))]"

definition llm_price :: "string \<Rightarrow> int \<Rightarrow> int \<Rightarrow> rat" where
  "llm_price model inp out =
     (let (i, ou) = dict_get_default cost_per_model model (0, 0)
      in (of_int inp * i + of_int out * ou) / 1000000)"

definition record_llm :: "datetime \<Rightarrow> string \<Rightarrow> int \<Rightarrow> int \<Rightarrow> string \<Rightarrow> string \<Rightarrow> bool
    \<Rightarrow> CostTracker \<Rightarrow> CostTracker \<times> rat" where
  "record_llm now model inp out pur val w t =
     (let c = llm_price model inp out
      in (t\<lparr>llm_calls := llm_calls t @ [\<lparr>llm_model = model, input_tokens = inp, output_tokens = out,
            llm_cost = c, purpose = pur, llm_validator = val, llm_timestamp = now, wasted = w\<rparr>]\<rparr>, c))"

text \<open>\<open>ComputeOp.__post_init__\<close>: a cost of zero is replaced by the price of the time.\<close>

definition compute_op :: "string \<Rightarrow> rat \<Rightarrow> int \<Rightarrow> bool \<Rightarrow> rat \<Rightarrow> ComputeOp" where
  "compute_op ph dur cs g c =
     (let hours = dur / 3600;
          priced = hours * of_int cs * (5/100) + (if g then hours * (250/100) else 0)
      in \<lparr>phase = ph, duration_s = dur, cores = cs, gpu = g,
          compute_cost = (if c = 0 then priced else c)\<rparr>)"

definition record_compute :: "string \<Rightarrow> rat \<Rightarrow> int \<Rightarrow> bool \<Rightarrow> CostTracker \<Rightarrow> CostTracker \<times> rat" where
  "record_compute ph dur cs g t =
     (let op = compute_op ph dur cs g 0
      in (t\<lparr>compute_ops := compute_ops t @ [op]\<rparr>, compute_cost op))"

definition record_network :: "datetime \<Rightarrow> string \<Rightarrow> string \<Rightarrow> int \<Rightarrow> rat \<Rightarrow> int \<Rightarrow> CostTracker \<Rightarrow> CostTracker \<times> rat" where
  "record_network now a ep ms c st t =
     (t\<lparr>network_calls := network_calls t @ [\<lparr>net_adapter = a, endpoint = ep, duration_ms = ms,
        network_cost = c, status_code = st, net_timestamp = now\<rparr>]\<rparr>, c)"

definition record_storage :: "int \<Rightarrow> CostTracker \<Rightarrow> CostTracker" where
  "record_storage n t = t\<lparr>storage_bytes := storage_bytes t + n\<rparr>"

definition total_llm_cost :: "CostTracker \<Rightarrow> rat" where
  "total_llm_cost t = sum_list (map llm_cost (llm_calls t))"

definition total_compute_cost :: "CostTracker \<Rightarrow> rat" where
  "total_compute_cost t = sum_list (map compute_cost (compute_ops t))"

definition total_network_cost :: "CostTracker \<Rightarrow> rat" where
  "total_network_cost t = sum_list (map network_cost (network_calls t))"

definition total_storage_cost :: "CostTracker \<Rightarrow> rat" where
  "total_storage_cost t = of_int (storage_bytes t) / 1024 ^ 3 * (10/100)"

definition total_usd :: "CostTracker \<Rightarrow> rat" where
  "total_usd t = total_llm_cost t + total_compute_cost t + total_network_cost t + total_storage_cost t"

definition total_llm_tokens :: "CostTracker \<Rightarrow> int" where
  "total_llm_tokens t = sum_list (map (\<lambda>c. input_tokens c + output_tokens c) (llm_calls t))"

definition total_llm_calls :: "CostTracker \<Rightarrow> nat" where
  "total_llm_calls t = length (llm_calls t)"

text \<open>\<open>b[k] = b.get(k, 0.0) + c\<close>\<close>

definition add_to :: "'k \<Rightarrow> rat \<Rightarrow> ('k, rat) dict \<Rightarrow> ('k, rat) dict" where
  "add_to k c b = dict_set k (dict_get_default b k 0 + c) b"

text \<open>\<open>sorted(items, key=cost, reverse=True)\<close>, which is stable.\<close>

definition by_cost_desc :: "('k \<times> rat) list \<Rightarrow> ('k \<times> rat) list" where
  "by_cost_desc xs = sort_key (\<lambda>(k, c). - c) xs"

definition breakdown_by_validator :: "CostTracker \<Rightarrow> (string, rat) dict" where
  "breakdown_by_validator t =
     by_cost_desc (fold (\<lambda>op. add_to (phase op) (compute_cost op)) (compute_ops t)
       (fold (\<lambda>c. add_to (llm_validator c) (llm_cost c)) (llm_calls t) []))"

definition breakdown_by_purpose :: "CostTracker \<Rightarrow> (string, rat) dict" where
  "breakdown_by_purpose t = fold (\<lambda>c. add_to (purpose c) (llm_cost c)) (llm_calls t) []"

definition breakdown_by_model :: "CostTracker \<Rightarrow> (string, rat) dict" where
  "breakdown_by_model t = fold (\<lambda>c. add_to (llm_model c) (llm_cost c)) (llm_calls t) []"

definition waste_estimate :: "CostTracker \<Rightarrow> rat" where
  "waste_estimate t = sum_list (map llm_cost (filter wasted (llm_calls t)))"

definition top_spenders :: "CostTracker \<Rightarrow> (string \<times> rat) list" where
  "top_spenders t = take 5 (breakdown_by_validator t)"

definition efficiency_score :: "CostTracker \<Rightarrow> rat" where
  "efficiency_score t = 1 / max (total_usd t) (1/1000)"

subsection \<open>Deferred efficiency\<close>

record RunEfficiency =
  re_slug :: string
  re_profile :: string
  re_format :: string
  re_total_cost :: rat
  estimated :: rat
  actual :: "rat option"
  updated_at :: datetime
  re_source :: string

text \<open>Zero counts as missing.\<close>

definition variance_pct :: "RunEfficiency \<Rightarrow> rat option" where
  "variance_pct r = (case actual r of
     None \<Rightarrow> None
   | Some a \<Rightarrow> if a \<noteq> 0 \<and> estimated r \<noteq> 0 then Some ((a - estimated r) / estimated r * 100) else None)"

definition mean :: "rat list \<Rightarrow> rat" where
  "mean xs = sum_list xs / of_nat (length xs)"

definition similar_actuals :: "string \<Rightarrow> string \<Rightarrow> RunEfficiency list \<Rightarrow> rat list" where
  "similar_actuals pr fm runs =
     List.map_filter actual (filter (\<lambda>r. re_profile r = pr \<and> re_format r = fm) runs)"

definition estimate :: "datetime \<Rightarrow> string \<Rightarrow> string \<Rightarrow> string \<Rightarrow> rat
    \<Rightarrow> RunEfficiency list \<Rightarrow> RunEfficiency list \<times> RunEfficiency" where
  "estimate now slug pr fm cost runs =
     (let sim = similar_actuals pr fm runs;
          r = \<lparr>re_slug = slug, re_profile = pr, re_format = fm, re_total_cost = cost,
            estimated = (if sim = [] then 1 else mean sim), actual = None, updated_at = now,
            re_source = ''estimate''\<rparr>
      in (runs @ [r], r))"

fun record_actual :: "datetime \<Rightarrow> string \<Rightarrow> rat \<Rightarrow> string \<Rightarrow> RunEfficiency list
    \<Rightarrow> RunEfficiency list \<times> RunEfficiency option" where
  "record_actual now slug v src [] = ([], None)"
| "record_actual now slug v src (r # rs) =
     (if re_slug r = slug then
        let r' = r\<lparr>actual := Some v, re_source := src, updated_at := now\<rparr> in (r' # rs, Some r')
      else let (rs', x) = record_actual now slug v src rs in (r # rs', x))"

subsection \<open>Cost analysis of events\<close>

text \<open>\<open>statistics.variance\<close>, the square of \<open>statistics.stdev\<close>; a single event has deviation 0.001.\<close>

definition sq_dev :: "rat list \<Rightarrow> rat" where
  "sq_dev xs = (if length xs > 1
     then sum_list (map (\<lambda>x. (x - mean xs) ^ 2) xs) / of_nat (length xs - 1) else (1/1000) ^ 2)"

text \<open>\<open>x > mean + 3 * stdev and x > 0.01\<close>\<close>

definition is_anomaly :: "rat list \<Rightarrow> rat \<Rightarrow> bool" where
  "is_anomaly costs x \<longleftrightarrow> x > mean costs \<and> (x - mean costs) ^ 2 > 9 * sq_dev costs \<and> x > 1/100"

record cost_analysis =
  ca_total :: rat
  ca_count :: nat
  ca_mean :: rat
  ca_sq_dev :: rat
  ca_anomalies :: "Event list"
  ca_top_by_type :: "(string, rat) dict"

definition analyze_events :: "Event list \<Rightarrow> cost_analysis" where
  "analyze_events events =
     (if events = [] then \<lparr>ca_total = 0, ca_count = 0, ca_mean = 0, ca_sq_dev = 0,
        ca_anomalies = [], ca_top_by_type = []\<rparr>
      else let costs = map cost_usd events in
        \<lparr>ca_total = sum_list costs, ca_count = length events, ca_mean = mean costs,
         ca_sq_dev = sq_dev costs, ca_anomalies = filter (\<lambda>e. is_anomaly costs (cost_usd e)) events,
         ca_top_by_type = take 5 (by_cost_desc
           (fold (\<lambda>e. add_to (event_type e) (cost_usd e)) events []))\<rparr>)"

subsection \<open>Breakdowns account for every call\<close>

lemma add_to_get:
  "dict_get_default (add_to k c b) j 0 = dict_get_default b j 0 + (if j = k then c else 0)"
  by (simp add: add_to_def dict_get_default_def)

lemma fold_add_get:
  "dict_get_default (fold (\<lambda>x. add_to (f x) (g x)) xs b) j 0 =
     dict_get_default b j 0 + sum_list (map g (filter (\<lambda>x. f x = j) xs))"
  by (induction xs arbitrary: b) (simp_all add: add_to_get)

lemma dict_get_default_Nil [simp]: "dict_get_default [] k v = v"
  by (simp add: dict_get_default_def)

lemma add_to_wf: "dict_wf b \<Longrightarrow> dict_wf (add_to k c b)"
  by (simp add: add_to_def)

lemma fold_add_wf: "dict_wf b \<Longrightarrow> dict_wf (fold (\<lambda>x. add_to (f x) (g x)) xs b)"
  by (induction xs arbitrary: b) (simp_all add: add_to_wf)

lemma add_to_total:
  "dict_wf b \<Longrightarrow> sum_list (map snd (add_to k c b)) = sum_list (map snd b) + (c :: rat)"
proof (induction b)
  case (Cons p b)
  then show ?case
    by (cases p) (auto simp: add_to_def dict_get_default_def dict_wf_def map_of_eq_None_iff
        split: option.split)
qed (simp add: add_to_def dict_get_default_def)

lemma fold_add_total:
  "dict_wf b \<Longrightarrow> sum_list (map snd (fold (\<lambda>x. add_to (f x) (g x)) xs b)) =
     sum_list (map snd b) + sum_list (map g xs)"
  by (induction xs arbitrary: b) (simp_all add: add_to_total add_to_wf)

lemma by_cost_desc_total: "sum_list (map snd (by_cost_desc b)) = sum_list (map snd (b :: ('k \<times> rat) list))"
  by (simp add: by_cost_desc_def flip: sum_mset_sum_list)

text \<open>The breakdowns account for every call: the costs by purpose and by model add up to the cost of
  the calls, those by validator and phase to the cost of calls and compute, and the entry
  of a model is what its calls cost.\<close>

theorem breakdowns_complete:
  "sum_list (map snd (breakdown_by_purpose t)) = total_llm_cost t \<and>
     sum_list (map snd (breakdown_by_model t)) = total_llm_cost t \<and>
     sum_list (map snd (breakdown_by_validator t)) = total_llm_cost t + total_compute_cost t \<and>
     dict_get_default (breakdown_by_model t) m 0 =
       sum_list (map llm_cost (filter (\<lambda>c. llm_model c = m) (llm_calls t)))"
  by (simp add: breakdown_by_purpose_def breakdown_by_model_def breakdown_by_validator_def
      by_cost_desc_total fold_add_total fold_add_wf fold_add_get total_llm_cost_def
      total_compute_cost_def)

subsection \<open>Anomalies\<close>

lemma sq_expand:
  "sum_list (map (\<lambda>y. (x - y) ^ 2) ys) =
     of_nat (length ys) * x ^ 2 - 2 * x * sum_list ys + sum_list (map (\<lambda>y. y ^ 2) (ys :: rat list))"
  by (induction ys) (simp_all add: algebra_simps power2_eq_square)

lemma sum_sq_le: "(sum_list xs) ^ 2 \<le> of_nat (length xs) * sum_list (map (\<lambda>x. x ^ 2) (xs :: rat list))"
proof (induction xs)
  case (Cons x xs)
  have "0 \<le> sum_list (map (\<lambda>y. (x - y) ^ 2) xs)"
    by (rule sum_list_nonneg) auto
  with Cons show ?case
    by (simp add: sq_expand) (simp add: algebra_simps power2_eq_square)
qed simp

text \<open>One element of a sample is at most \<open>(n - 1) / sqrt n\<close> standard deviations from the mean.\<close>

lemma deviation_bound:
  fixes ds :: "rat list"
  assumes "sum_list ds = 0" and "d \<in> set ds"
  shows "d ^ 2 * of_nat (length ds) \<le> of_nat (length ds - 1) * sum_list (map (\<lambda>x. x ^ 2) ds)"
proof -
  obtain as bs where ds: "ds = as @ d # bs" using assms(2) by (meson split_list)
  let ?r = "as @ bs"
  have "sum_list ?r = - d" using assms(1) by (simp add: ds)
  with sum_sq_le [of ?r] have "d ^ 2 \<le> of_nat (length ?r) * sum_list (map (\<lambda>x. x ^ 2) ?r)"
    by (metis power2_minus)
  then show ?thesis by (simp add: ds algebra_simps)
qed

lemma sum_deviation: "xs \<noteq> [] \<Longrightarrow> sum_list (map (\<lambda>x. x - mean xs) xs) = 0"
  by (simp add: sum_list_subtractf sum_list_triv mean_def)

lemma small_sample:
  fixes d s n :: rat
  assumes "d > 9 * s / (n - 1)" and "d > 0" and "d * n \<le> (n - 1) * s" and "n > 1" and "n \<le> 10"
  shows False
proof -
  have "9 * s < d * (n - 1)" using assms(1,4) by (simp add: divide_less_eq)
  then have "(n - 1) * (9 * s) < (n - 1) * (d * (n - 1))"
    using assms(4) by (intro mult_strict_left_mono) simp_all
  moreover have "(d * (n - 1)) * (n - 1) \<le> (d * (n - 1)) * 9"
    using assms(2,4,5) by (intro mult_left_mono) simp_all
  ultimately have "9 * (d * n) < 9 * (d * (n - 1))"
    using assms(3) by (simp add: algebra_simps)
  with assms(2) show False by (simp add: algebra_simps)
qed

text \<open>The cost analysis of at most ten events never reports an anomaly, however large one cost is:
  no element of so small a sample can be three of its standard deviations above the mean.\<close>

theorem no_anomaly_in_ten:
  assumes "length events \<le> 10"
  shows "ca_anomalies (analyze_events events) = []"
proof (cases "length events > 1")
  case True
  let ?xs = "map cost_usd events"
  let ?n = "of_nat (length events) :: rat"
  have "\<not> is_anomaly ?xs (cost_usd e)" if e: "e \<in> set events" for e
  proof
    let ?d = "(cost_usd e - mean ?xs) ^ 2" and ?s = "sum_list (map (\<lambda>x. (x - mean ?xs) ^ 2) ?xs)"
    assume "is_anomaly ?xs (cost_usd e)"
    then have *: "?d > 9 * ?s / (?n - 1)" "?d > 0"
      using True by (auto simp: is_anomaly_def sq_dev_def of_nat_diff)
    have "?d * ?n \<le> (?n - 1) * ?s"
      using deviation_bound [OF sum_deviation [of ?xs], of "cost_usd e - mean ?xs"] e True
      by (cases "events = []") (auto simp: comp_def of_nat_diff image_iff)
    have n: "?n > 1" "?n \<le> 10" using True assms by auto
    with * \<open>?d * ?n \<le> (?n - 1) * ?s\<close> show False by (rule small_sample)
  qed
  then show ?thesis by (auto simp: analyze_events_def filter_empty_conv Let_def)
next
  case False
  then show ?thesis
    by (cases events) (auto simp: analyze_events_def is_anomaly_def mean_def Let_def)
qed

definition outlier_events :: "Event list" where
  "outlier_events = replicate 9 (plain_event 1 ''r'' 0 ADAPTER_CALL (PlainData None None []) 0) @
     [plain_event 2 ''r'' 0 ADAPTER_CALL (PlainData None None []) 1000000]"

theorem no_anomaly_in_ten_witness:
  "ca_anomalies (analyze_events outlier_events) = [] \<and> ca_mean (analyze_events outlier_events) = 100000"
proof -
  have "length outlier_events \<le> 10" by (simp add: outlier_events_def)
  moreover have "ca_mean (analyze_events outlier_events) = 100000"
    by (simp add: analyze_events_def outlier_events_def Let_def mean_def plain_event_def sum_list_replicate)
  ultimately show ?thesis using no_anomaly_in_ten by blast
qed


end
