(* ===== verification/Budget.thy ===== *)
theory Budget
  imports Cost Degradation
begin

text \<open>
  The budget of a run (\<open>engine/budget.py\<close>) with its effect on degradation, and the budget
  controller of the agents (\<open>engine/agent_runtime/budget_controller.py\<close>). Random numbers and the
  clock are arguments; callbacks and displayed text are not modelled. The level is evaluated within the same
  step as the entry that precedes it; the code does so after it has released the lock, so that another thread's
  entry may come between them, and the level then is evaluated once more than the ledger needs.
\<close>

subsection \<open>Limits of a run\<close>

datatype BudgetAction = PROCEED | WARN | SLOW | STOP

record BudgetLimit =
  bl_name :: string
  soft_limit :: rat
  hard_limit :: rat
  current :: rat
  unit_name :: string

definition soft_exceeded :: "BudgetLimit \<Rightarrow> bool" where
  "soft_exceeded l \<longleftrightarrow> current l \<ge> soft_limit l"

definition hard_exceeded :: "BudgetLimit \<Rightarrow> bool" where
  "hard_exceeded l \<longleftrightarrow> current l \<ge> hard_limit l"

definition usage_pct :: "BudgetLimit \<Rightarrow> rat" where
  "usage_pct l = (if hard_limit l = 0 then 0 else current l / hard_limit l * 100)"

definition limit_check :: "BudgetLimit \<Rightarrow> BudgetAction" where
  "limit_check l = (if hard_exceeded l then STOP else if soft_exceeded l then WARN else PROCEED)"

record BudgetEnforcer =
  cost_tracker :: CostTracker
  degradation :: "DegradationManager option"
  limits :: "(string, BudgetLimit) dict"
  warnings_sent :: "string set"
  validator_sampling :: "(string, rat) dict"

definition init_enforcer :: "CostTracker \<Rightarrow> DegradationManager option \<Rightarrow> BudgetEnforcer" where
  "init_enforcer t d = \<lparr>cost_tracker = t, degradation = d, limits = [], warnings_sent = {},
     validator_sampling = []\<rparr>"

record budget_config =
  soft_limit_usd :: "rat option"
  hard_limit_usd :: "rat option"
  max_llm_calls_per_run :: "int option"
  max_storage_mb :: "rat option"

definition or_else :: "'a option \<Rightarrow> 'a \<Rightarrow> 'a" where
  "or_else x d = (case x of None \<Rightarrow> d | Some v \<Rightarrow> v)"

definition configure :: "budget_config \<Rightarrow> BudgetEnforcer \<Rightarrow> BudgetEnforcer" where
  "configure cfg b = b\<lparr>limits :=
     [(''total_cost'', \<lparr>bl_name = ''total_cost'', soft_limit = or_else (soft_limit_usd cfg) 1,
         hard_limit = or_else (hard_limit_usd cfg) 5, current = 0, unit_name = ''usd''\<rparr>),
      (''llm_calls'', \<lparr>bl_name = ''llm_calls'',
         soft_limit = of_int (or_else (max_llm_calls_per_run cfg) 20),
         hard_limit = of_int (or_else (max_llm_calls_per_run cfg) 30 + 10), current = 0,
         unit_name = ''calls''\<rparr>),
      (''storage'', \<lparr>bl_name = ''storage'',
         soft_limit = or_else (max_storage_mb cfg) 100 * 1024 * 1024,
         hard_limit = or_else (max_storage_mb cfg) 200 * 1024 * 1024, current = 0,
         unit_name = ''bytes''\<rparr>)]\<rparr>"

text \<open>
  The loop over the limits returns at the first hard limit reached; it records the warnings of
  the limits before that, and the actions it saw.
\<close>

fun check_limits :: "(string \<times> BudgetLimit) list \<Rightarrow> string set \<Rightarrow> string set \<times> BudgetAction list \<times> bool" where
  "check_limits [] sent = (sent, [], False)"
| "check_limits ((name, l) # ls) sent =
     (let a = limit_check l in
      if a = STOP then (sent, [STOP], True)
      else let (sent, acts, stop) = check_limits ls (if a = WARN then insert name sent else sent)
           in (sent, a # acts, stop))"

definition check_validator :: "int \<Rightarrow> BudgetEnforcer \<Rightarrow> BudgetEnforcer \<times> BudgetAction" where
  "check_validator tier b =
     (let (sent, acts, stop) = check_limits (limits b) (warnings_sent b); b' = b\<lparr>warnings_sent := sent\<rparr>
      in (b', if stop then STOP
          else if STOP \<in> set acts then STOP else if WARN \<in> set acts then WARN
          else if SLOW \<in> set acts then SLOW
          else if of_nat (total_llm_calls (cost_tracker b)) >
                 (case dict_get (limits b) ''llm_calls'' of None \<Rightarrow> 100 | Some l \<Rightarrow> soft_limit l) \<and>
               tier \<in> {2, 3} then SLOW
          else PROCEED))"

definition apply_action :: "datetime \<Rightarrow> BudgetAction \<Rightarrow> string \<Rightarrow> string \<Rightarrow> BudgetEnforcer \<Rightarrow> BudgetEnforcer" where
  "apply_action now a validator reason b =
     (case a of
        SLOW \<Rightarrow> b\<lparr>validator_sampling := dict_set validator
          (max (dict_get_default (validator_sampling b) validator 1 * (1/2)) (1/10)) (validator_sampling b)\<rparr>
      | STOP \<Rightarrow> b\<lparr>degradation := map_option (manual_degrade now SURVIVAL reason) (degradation b)\<rparr>
      | _ \<Rightarrow> b)"

text \<open>\<open>r\<close> is \<open>random.random()\<close>.\<close>

definition should_run_validator :: "rat \<Rightarrow> string \<Rightarrow> BudgetEnforcer \<Rightarrow> bool" where
  "should_run_validator r validator b =
     (let rt = dict_get_default (validator_sampling b) validator 1 in rt \<ge> 1 \<or> r < rt)"

definition set_current :: "string \<Rightarrow> rat \<Rightarrow> (string, BudgetLimit) dict \<Rightarrow> (string, BudgetLimit) dict" where
  "set_current name v ls =
     (case dict_get ls name of None \<Rightarrow> ls | Some l \<Rightarrow> dict_set name (l\<lparr>current := v\<rparr>) ls)"

definition update_from_tracker :: "BudgetEnforcer \<Rightarrow> BudgetEnforcer" where
  "update_from_tracker b =
     (let t = cost_tracker b
      in b\<lparr>limits := set_current ''storage'' (of_int (storage_bytes t))
           (set_current ''llm_calls'' (of_nat (total_llm_calls t))
             (set_current ''total_cost'' (total_usd t) (limits b)))\<rparr>)"

definition reset_enforcer :: "BudgetEnforcer \<Rightarrow> BudgetEnforcer" where
  "reset_enforcer b = b\<lparr>limits := [], warnings_sent := {}, validator_sampling := []\<rparr>"

lemma check_limits_spec:
  "check_limits ls sent = (sent', acts, stop) \<Longrightarrow>
     stop = list_ex (\<lambda>(_, l). hard_exceeded l) ls \<and>
     (stop \<or> set acts = (\<lambda>(_, l). limit_check l) ` set ls) \<and>
     (stop \<or> sent' = sent \<union> fst ` set (filter (\<lambda>(_, l). soft_exceeded l) ls))"
proof (induction ls sent arbitrary: sent' acts stop rule: check_limits.induct)
  case (2 name l ls sent)
  show ?case
  proof (cases "hard_exceeded l")
    case True
    with 2 show ?thesis by (auto simp: limit_check_def)
  next
    case False
    let ?s = "if limit_check l = WARN then insert name sent else sent"
    obtain acts' where r: "check_limits ls ?s = (sent', acts', stop)" "acts = limit_check l # acts'"
      using 2(2) False by (auto simp: limit_check_def Let_def split: prod.splits if_splits)
    have "limit_check l \<noteq> STOP" using False by (simp add: limit_check_def)
    from 2(1) [OF refl this r(1)] r(2) False show ?thesis
      by (auto simp: limit_check_def)
  qed
qed auto

text \<open>A validator is stopped exactly if some limit has reached its hard bound, and warned about exactly
  if none has but some has reached its soft one. Slowing down never happens while the counter of
  calls is up to date: the number of calls that would slow a validator down already
  gives a warning or a stop.\<close>

theorem check_validator_spec:
  assumes "dict_get (limits b) ''llm_calls'' = Some lm"
  shows "snd (check_validator tier (update_from_tracker b)) =
    (let ls = dict_values (limits (update_from_tracker b))
     in if list_ex hard_exceeded ls then STOP else if list_ex soft_exceeded ls then WARN else PROCEED)"
proof -
  let ?b = "update_from_tracker b"
  have lm: "dict_get (limits ?b) ''llm_calls'' = Some (lm\<lparr>current := of_nat (total_llm_calls (cost_tracker b))\<rparr>)"
    using assms by (simp add: update_from_tracker_def set_current_def Let_def split: option.split)
  have t: "cost_tracker ?b = cost_tracker b" by (simp add: update_from_tracker_def Let_def)
  obtain sent acts stop where c: "check_limits (limits ?b) (warnings_sent ?b) = (sent, acts, stop)"
    by (metis prod_cases3)
  have ex: "list_ex P (dict_values (limits ?b)) = list_ex (\<lambda>(_, l). P l) (limits ?b)" for P
    by (simp add: list_ex_iff case_prod_unfold)
  show ?thesis
  proof (cases stop)
    case True
    with check_limits_spec [OF c] show ?thesis
      by (simp add: check_validator_def c ex Let_def)
  next
    case False
    with check_limits_spec [OF c] have nohard: "\<not> list_ex hard_exceeded (dict_values (limits ?b))"
      and acts: "set acts = limit_check ` set (dict_values (limits ?b))"
      by (auto simp: ex image_image case_prod_unfold)
    have la: "limit_check l = (if soft_exceeded l then WARN else PROCEED)" if "l \<in> set (dict_values (limits ?b))" for l
      using nohard that by (auto simp: limit_check_def list_ex_iff)
    have stop: "STOP \<notin> set acts" "SLOW \<notin> set acts"
      by (auto simp: acts la image_iff split: if_splits)
    have warn: "WARN \<in> set acts \<longleftrightarrow> list_ex soft_exceeded (dict_values (limits ?b))"
      by (auto simp: acts la list_ex_iff image_iff split: if_splits)
    have "of_nat (total_llm_calls (cost_tracker b)) < soft_limit lm"
      if "\<not> list_ex soft_exceeded (dict_values (limits ?b))"
    proof -
      have "lm\<lparr>current := of_nat (total_llm_calls (cost_tracker b))\<rparr> \<in> set (dict_values (limits ?b))"
        using map_of_SomeD [OF lm] by force
      with that show ?thesis by (auto simp: list_ex_iff soft_exceeded_def)
    qed
    with False nohard stop warn lm t show ?thesis
      by (auto simp: check_validator_def c Let_def)
  qed
qed

definition sample_enforcer :: BudgetEnforcer where
  "sample_enforcer = configure \<lparr>soft_limit_usd = None, hard_limit_usd = None, max_llm_calls_per_run = Some 1,
       max_storage_mb = None\<rparr>
     (init_enforcer (fst (record_llm 0 ''gpt-4o'' 1000000 0 ''p'' ''v'' False
       (fst (record_llm 0 ''gpt-4o'' 0 0 ''p'' ''v'' False init_tracker)))) None)"

theorem check_validator_spec_witness:
  "snd (check_validator 2 (update_from_tracker sample_enforcer)) = WARN"
proof -
  have "dict_get (limits sample_enforcer) ''llm_calls'' = Some \<lparr>bl_name = ''llm_calls'',
      soft_limit = 1, hard_limit = 11, current = 0, unit_name = ''calls''\<rparr>"
    by (simp add: sample_enforcer_def configure_def init_enforcer_def or_else_def)
  from check_validator_spec [OF this, of 2] show ?thesis
    by (simp add: sample_enforcer_def configure_def init_enforcer_def or_else_def update_from_tracker_def
        set_current_def record_llm_def init_tracker_def llm_price_def cost_per_model_def dict_get_default_def
        total_usd_def total_llm_cost_def total_compute_cost_def total_network_cost_def total_storage_cost_def
        total_llm_calls_def hard_exceeded_def soft_exceeded_def Let_def)
qed

subsection \<open>Budget controller of the agents\<close>

datatype BudgetLevel = NORMAL | WARNING | CRITICAL | EXHAUSTED

record BudgetThreshold =
  hourly_usd :: rat
  daily_usd :: rat
  weekly_usd :: rat
  monthly_usd :: rat
  per_task_usd :: rat
  soft_ratio :: rat

text \<open>The assertions of \<open>__post_init__\<close>.\<close>

definition threshold_ok :: "BudgetThreshold \<Rightarrow> bool" where
  "threshold_ok t \<longleftrightarrow> hourly_usd t > 0 \<and> daily_usd t > 0 \<and> soft_ratio t < 1"

record TaskCostRecord =
  tc_task_id :: string
  tc_cost :: rat
  tc_llm_calls :: nat
  tc_tool_calls :: nat
  tc_started_at :: datetime

definition cost_per_call :: "TaskCostRecord \<Rightarrow> rat" where
  "cost_per_call r = (let n = tc_llm_calls r + tc_tool_calls r in if n > 0 then tc_cost r / of_nat n else 0)"

record cost_entry =
  ce_task :: string
  ce_cost :: rat
  ce_llm :: bool
  ce_tool :: bool
  ce_time :: seconds

record BudgetController =
  bc_thresholds :: BudgetThreshold
  bc_costs :: "cost_entry list"
  bc_task_costs :: "(string, TaskCostRecord) dict"
  bc_total_cost :: rat
  bc_llm_calls :: nat
  bc_tool_calls :: nat
  bc_level :: BudgetLevel
  bc_paused :: bool
  bc_pause_reason :: "string option"

definition init_controller :: "BudgetThreshold \<Rightarrow> BudgetController" where
  "init_controller t = \<lparr>bc_thresholds = t, bc_costs = [], bc_task_costs = [], bc_total_cost = 0,
     bc_llm_calls = 0, bc_tool_calls = 0, bc_level = NORMAL, bc_paused = False, bc_pause_reason = None\<rparr>"

definition window_cost :: "seconds \<Rightarrow> seconds \<Rightarrow> BudgetController \<Rightarrow> rat" where
  "window_cost start_ts end_ts b =
     sum_list (map ce_cost (filter (\<lambda>e. start_ts \<le> ce_time e \<and> ce_time e \<le> end_ts) (bc_costs b)))"

definition max_task_cost :: "BudgetController \<Rightarrow> rat" where
  "max_task_cost b = (case map tc_cost (dict_values (bc_task_costs b)) of [] \<Rightarrow> 0 | c # cs \<Rightarrow> fold max cs c)"

text \<open>The weekly and monthly costs are computed but never compared.\<close>

definition evaluate_level :: "seconds \<Rightarrow> BudgetController \<Rightarrow> BudgetController" where
  "evaluate_level now b =
     (let t = bc_thresholds b; hourly = window_cost (now - 3600) now b; daily = window_cost (now - 86400) now b
      in if hourly \<ge> hourly_usd t \<or> daily \<ge> daily_usd t \<or> max_task_cost b \<ge> per_task_usd t then
           b\<lparr>bc_level := EXHAUSTED, bc_paused := True, bc_pause_reason := Some ''Hard budget limit exceeded''\<rparr>
         else if hourly \<ge> hourly_usd t * soft_ratio t \<or> daily \<ge> daily_usd t * soft_ratio t then
           b\<lparr>bc_level := CRITICAL\<rparr>
         else if hourly \<ge> hourly_usd t * soft_ratio t * (1/2) then b\<lparr>bc_level := WARNING\<rparr>
         else b\<lparr>bc_level := NORMAL, bc_paused := False, bc_pause_reason := None\<rparr>)"

definition add_cost_entry :: "cost_entry \<Rightarrow> datetime \<Rightarrow> BudgetController \<Rightarrow> BudgetController" where
  "add_cost_entry e now b =
     (let tc = (case dict_get (bc_task_costs b) (ce_task e) of
                  None \<Rightarrow> \<lparr>tc_task_id = ce_task e, tc_cost = 0, tc_llm_calls = 0, tc_tool_calls = 0, tc_started_at = now\<rparr>
                | Some tc \<Rightarrow> tc);
          tc = tc\<lparr>tc_cost := tc_cost tc + ce_cost e,
                 tc_llm_calls := tc_llm_calls tc + (if ce_llm e then 1 else 0),
                 tc_tool_calls := tc_tool_calls tc + (if ce_tool e then 1 else 0)\<rparr>
      in b\<lparr>bc_costs := bc_costs b @ [e], bc_total_cost := bc_total_cost b + ce_cost e,
           bc_llm_calls := bc_llm_calls b + (if ce_llm e then 1 else 0),
           bc_tool_calls := bc_tool_calls b + (if ce_tool e then 1 else 0),
           bc_task_costs := dict_set (ce_task e) tc (bc_task_costs b)\<rparr>)"

text \<open>The clock is read for the entry (in \<open>e\<close>) and again, as \<open>now\<close>, for the evaluation.\<close>

definition record_cost :: "cost_entry \<Rightarrow> datetime \<Rightarrow> seconds \<Rightarrow> BudgetController \<Rightarrow> BudgetController" where
  "record_cost e today now b = evaluate_level now (add_cost_entry e today b)"

definition reset_controller :: "BudgetController \<Rightarrow> BudgetController" where
  "reset_controller b = b\<lparr>bc_costs := [], bc_task_costs := [], bc_total_cost := 0, bc_llm_calls := 0,
     bc_tool_calls := 0, bc_level := NORMAL, bc_paused := False, bc_pause_reason := None\<rparr>"

definition is_warning :: "BudgetController \<Rightarrow> bool" where
  "is_warning b \<longleftrightarrow> bc_level b \<in> {WARNING, CRITICAL, EXHAUSTED}"

datatype budget_op = RecordCost cost_entry datetime seconds | ResetBudget

fun budget_step :: "budget_op \<Rightarrow> BudgetController \<Rightarrow> BudgetController" where
  "budget_step (RecordCost e today now) b = record_cost e today now b"
| "budget_step ResetBudget b = reset_controller b"

lemma evaluate_level_ledger [simp]:
  "bc_costs (evaluate_level now b) = bc_costs b" "bc_task_costs (evaluate_level now b) = bc_task_costs b"
  "bc_total_cost (evaluate_level now b) = bc_total_cost b" "bc_llm_calls (evaluate_level now b) = bc_llm_calls b"
  "bc_tool_calls (evaluate_level now b) = bc_tool_calls b" "bc_thresholds (evaluate_level now b) = bc_thresholds b"
  by (simp_all add: evaluate_level_def Let_def)

lemma fold_max_ge: "(x :: rat) \<le> fold max cs x \<and> (\<forall>c\<in>set cs. c \<le> fold max cs x)"
  by (induction cs arbitrary: x) (auto, meson max.bounded_iff max.cobounded2, meson max.bounded_iff order_trans)

lemma max_task_cost_ge: "dict_get (bc_task_costs b) k = Some tc \<Longrightarrow> tc_cost tc \<le> max_task_cost b"
proof -
  assume "dict_get (bc_task_costs b) k = Some tc"
  then have "tc_cost tc \<in> set (map tc_cost (dict_values (bc_task_costs b)))"
    by (force dest: map_of_SomeD)
  moreover obtain c cs where "map tc_cost (dict_values (bc_task_costs b)) = c # cs"
    using calculation by (cases "map tc_cost (dict_values (bc_task_costs b))") auto
  ultimately show ?thesis
    using fold_max_ge [of c cs] by (simp only: max_task_cost_def list.case) (metis set_ConsD)
qed

text \<open>The ledger: totals and the record of each task agree with the entries.\<close>

definition task_total :: "string \<Rightarrow> BudgetController \<Rightarrow> rat" where
  "task_total k b = (case dict_get (bc_task_costs b) k of None \<Rightarrow> 0 | Some tc \<Rightarrow> tc_cost tc)"

definition ledger :: "BudgetController \<Rightarrow> bool" where
  "ledger b \<longleftrightarrow> bc_total_cost b = sum_list (map ce_cost (bc_costs b)) \<and>
     bc_llm_calls b = length (filter ce_llm (bc_costs b)) \<and>
     bc_tool_calls b = length (filter ce_tool (bc_costs b)) \<and>
     (\<forall>k. task_total k b = sum_list (map ce_cost (filter (\<lambda>e. ce_task e = k) (bc_costs b)))) \<and>
     (bc_level b = EXHAUSTED \<longrightarrow> bc_paused b) \<and> (bc_level b = NORMAL \<longrightarrow> \<not> bc_paused b)"

lemma task_total_add:
  "task_total k (add_cost_entry e now b) = task_total k b + (if ce_task e = k then ce_cost e else 0)"
  by (simp add: task_total_def add_cost_entry_def Let_def split: option.split)

lemma evaluate_level_paused:
  "(bc_level (evaluate_level now b) = EXHAUSTED \<longrightarrow> bc_paused (evaluate_level now b)) \<and>
   (bc_level (evaluate_level now b) = NORMAL \<longrightarrow> \<not> bc_paused (evaluate_level now b))"
  by (simp add: evaluate_level_def Let_def)

lemma budget_step_ledger: "ledger b \<Longrightarrow> ledger (budget_step op b)"
proof (cases op)
  case (RecordCost e today now)
  assume l: "ledger b"
  let ?b = "add_cost_entry e today b"
  have sums: "bc_total_cost ?b = sum_list (map ce_cost (bc_costs ?b))"
    "bc_llm_calls ?b = length (filter ce_llm (bc_costs ?b))"
    "bc_tool_calls ?b = length (filter ce_tool (bc_costs ?b))"
    using l by (simp_all add: ledger_def add_cost_entry_def Let_def)
  have "bc_costs ?b = bc_costs b @ [e]" by (simp add: add_cost_entry_def Let_def)
  then have "task_total k ?b = sum_list (map ce_cost (filter (\<lambda>e. ce_task e = k) (bc_costs ?b)))" for k
    using l by (simp add: task_total_add) (simp add: ledger_def)
  with sums evaluate_level_paused [of now ?b] show ?thesis
    by (simp add: RecordCost record_cost_def ledger_def task_total_def)
qed (simp add: ledger_def reset_controller_def task_total_def)

interpretation bc: invariant_system budget_step ledger
  by unfold_locales (rule budget_step_ledger)

text \<open>C36: The books are balanced: after any operations the total and the cost of every task are the sums of
  the recorded entries, the counters of calls are their numbers, an exhausted budget
  pauses the agents, and a normal one does not.\<close>

theorem budget_ledger:
  "ledger (fold budget_step ops (init_controller t))"
  by (rule bc.inv_run) (simp add: ledger_def init_controller_def task_total_def)

text \<open>The limit per task is no window: once a task has cost that much, every later entry of any task,
  however much later and however cheap, leaves the budget exhausted and all agents paused, until a reset.\<close>

theorem task_limit_pauses_forever:
  assumes "dict_get (bc_task_costs b) k = Some tc" and "per_task_usd (bc_thresholds b) \<le> tc_cost tc"
    and "list_all (\<lambda>(e, _, _). 0 \<le> ce_cost e) (es @ [(e, today, now)])"
  shows "let b' = fold (\<lambda>(e, today, now). record_cost e today now) (es @ [(e, today, now)]) b
    in bc_level b' = EXHAUSTED \<and> bc_paused b'"
proof -
  let ?P = "\<lambda>b. \<exists>tc. dict_get (bc_task_costs b) k = Some tc \<and> per_task_usd (bc_thresholds b) \<le> tc_cost tc"
  let ?b = "fold (\<lambda>(e, today, now). record_cost e today now) es b"
  have add: "?P (add_cost_entry e today b)" if "?P b" "0 \<le> ce_cost e" for e today b
    using that by (auto simp: add_cost_entry_def Let_def)
  have step: "?P (record_cost e today now b)" if "?P b" "0 \<le> ce_cost e" for e today now b
    using add [OF that] by (simp add: record_cost_def)
  have run: "?P b \<Longrightarrow> list_all (\<lambda>(e, _, _). 0 \<le> ce_cost e) es \<Longrightarrow>
      ?P (fold (\<lambda>(e, today, now). record_cost e today now) es b)" for b
  proof (induction es arbitrary: b)
    case (Cons x es)
    obtain e today now where x: "x = (e, today, now)" by (metis prod_cases3)
    show ?case
      using Cons.IH [OF step [OF Cons.prems(1)], of e] Cons.prems(2) by (simp add: x)
  qed simp
  have "?P b" using assms(1,2) by blast
  from add [OF run [OF this], of e today] assms(3)
  obtain tc' where "dict_get (bc_task_costs (add_cost_entry e today ?b)) k = Some tc'"
    "per_task_usd (bc_thresholds (add_cost_entry e today ?b)) \<le> tc_cost tc'" by auto
  then have "per_task_usd (bc_thresholds (add_cost_entry e today ?b)) \<le> max_task_cost (add_cost_entry e today ?b)"
    using max_task_cost_ge order_trans by blast
  then show ?thesis by (simp add: record_cost_def evaluate_level_def Let_def)
qed

definition cheap :: "string \<Rightarrow> rat \<Rightarrow> seconds \<Rightarrow> cost_entry" where
  "cheap k c t = \<lparr>ce_task = k, ce_cost = c, ce_llm = True, ce_tool = False, ce_time = t\<rparr>"

definition spent :: BudgetController where
  "spent = record_cost (cheap ''a'' 3 0) 0 0 (init_controller \<lparr>hourly_usd = 10, daily_usd = 50,
     weekly_usd = 200, monthly_usd = 500, per_task_usd = 2, soft_ratio = 4/5\<rparr>)"

theorem task_limit_pauses_forever_witness:
  "bc_paused (record_cost (cheap ''b'' 0 9000000) 5 9000000 spent)"
proof -
  have "dict_get (bc_task_costs spent) ''a'' = Some \<lparr>tc_task_id = ''a'', tc_cost = 3, tc_llm_calls = 1,
      tc_tool_calls = 0, tc_started_at = 0\<rparr>" "per_task_usd (bc_thresholds spent) = 2"
    by (simp_all add: spent_def record_cost_def add_cost_entry_def init_controller_def cheap_def Let_def)
  with task_limit_pauses_forever [of spent "''a''" _ "[]" "cheap ''b'' 0 9000000" 5 9000000] show ?thesis
    by (simp add: cheap_def Let_def)
qed

end
