(* ===== verification/Hooks.thy ===== *)
theory Hooks
  imports Systems
begin

text \<open>
  Lifecycle hooks (\<open>engine/hooks.py\<close>): the table of handlers by state and type. Handlers are
  names; \<open>trigger\<close> gives the handlers that are called, in order.
\<close>

subsection \<open>Hook registry\<close>

definition valid_types :: "string list" where
  "valid_types = [''on_enter'', ''on_exit'', ''on_timeout'', ''on_hitl_timeout'']"

type_synonym hook_table = "(string, (string, string list) dict) dict"

datatype hook_error = InvalidHookType string

definition register_hook :: "string \<Rightarrow> string \<Rightarrow> string \<Rightarrow> hook_table \<Rightarrow> hook_error + hook_table" where
  "register_hook state ty handler hs =
     (if ty \<notin> set valid_types then Inl (InvalidHookType ty)
      else
        let by_type = dict_get_default hs state (map (\<lambda>t. (t, [])) valid_types)
        in Inr (dict_set state (dict_set ty (dict_get_default by_type ty [] @ [handler]) by_type) hs))"

definition unregister_hook :: "string \<Rightarrow> string \<Rightarrow> string \<Rightarrow> hook_table \<Rightarrow> hook_table" where
  "unregister_hook state ty handler hs =
     (case dict_get hs state of
        None \<Rightarrow> hs
      | Some by_type \<Rightarrow> (case dict_get by_type ty of
            None \<Rightarrow> hs
          | Some l \<Rightarrow> dict_set state (dict_set ty (filter (\<lambda>h. h \<noteq> handler) l) by_type) hs))"

definition clear_hooks :: "string option \<Rightarrow> hook_table \<Rightarrow> hook_table" where
  "clear_hooks state hs = (case state of None \<Rightarrow> [] | Some s \<Rightarrow> if s = '''' then [] else dict_del s hs)"

text \<open>
  The handlers that \<open>trigger\<close> calls, in order; an exception of one is logged and the others
  are still called. \<open>trigger_sync\<close> leaves out the coroutine functions.
\<close>

definition trigger :: "string \<Rightarrow> string \<Rightarrow> hook_table \<Rightarrow> string list" where
  "trigger state ty hs =
     (case dict_get hs state of None \<Rightarrow> [] | Some by_type \<Rightarrow> dict_get_default by_type ty [])"

definition trigger_sync :: "(string \<Rightarrow> bool) \<Rightarrow> string \<Rightarrow> string \<Rightarrow> hook_table \<Rightarrow> string list" where
  "trigger_sync is_async state ty hs = filter (\<lambda>h. \<not> is_async h) (trigger state ty hs)"

lemma default_empty: "dict_get_default (map (\<lambda>t. (t, [])) ts) t [] = []"
  by (induction ts) (simp_all add: dict_get_default_def)

lemma trigger_default:
  "trigger s t hs = dict_get_default (dict_get_default hs s (map (\<lambda>t. (t, [])) valid_types)) t []"
  by (simp add: trigger_def dict_get_default_def [of hs] default_empty split: option.split)

lemma dict_get_default_set [simp]:
  "dict_get_default (dict_set k v d) j x = (if j = k then v else dict_get_default d j x)"
  by (simp add: dict_get_default_def)

lemma trigger_register:
  assumes "register_hook state ty h hs = Inr hs'"
  shows "trigger s t hs' = (if s = state \<and> t = ty then trigger s t hs @ [h] else trigger s t hs)"
proof -
  let ?by = "dict_get_default hs state (map (\<lambda>t. (t, [])) valid_types)"
  have "hs' = dict_set state (dict_set ty (dict_get_default ?by ty [] @ [h]) ?by) hs"
    using assms by (simp add: register_hook_def Let_def split: if_splits)
  then show ?thesis by (simp add: trigger_default)
qed


lemma trigger_unregister:
  "trigger s t (unregister_hook state ty h hs) =
     (if s = state \<and> t = ty then filter (\<lambda>x. x \<noteq> h) (trigger s t hs) else trigger s t hs)"
  by (auto simp: unregister_hook_def trigger_def dict_get_default_def split: option.split)

end
