(* ===== verification/Plugins.thy ===== *)
theory Plugins
  imports Hooks
begin

text \<open>
  Plugin data (\<open>engine/plugin.py\<close>) and the plugin registry (\<open>engine/plugin_registry.py\<close>):
  dependency order, registration and lifecycle. Handlers, tools and
  validators are names. What a plugin's own code does is an argument of the operation that calls
  it: \<^const>\<open>None\<close>, or the text of the exception it raises. The scan of directories and the
  loading of modules are not modelled: \<open>discover\<close> gets the classes they found.
\<close>

subsection \<open>Plugins\<close>

datatype PluginStatus = INSTALLED | DISABLED | ENABLED | ERROR | UNINSTALLED

datatype PluginHookType =
    ON_STATE_ENTER | ON_STATE_EXIT | ON_VALIDATE | ON_TRANSITION | ON_RUN_CREATED | ON_RUN_COMPLETED
  | ON_ERROR | ON_DEGRADE | ON_METRICS_POLL | ON_STARTUP | ON_SHUTDOWN

fun hook_type_value :: "PluginHookType \<Rightarrow> string" where
  "hook_type_value ON_STATE_ENTER = ''on_state_enter''"
| "hook_type_value ON_STATE_EXIT = ''on_state_exit''"
| "hook_type_value ON_VALIDATE = ''on_validate''"
| "hook_type_value ON_TRANSITION = ''on_transition''"
| "hook_type_value ON_RUN_CREATED = ''on_run_created''"
| "hook_type_value ON_RUN_COMPLETED = ''on_run_completed''"
| "hook_type_value ON_ERROR = ''on_error''"
| "hook_type_value ON_DEGRADE = ''on_degrade''"
| "hook_type_value ON_METRICS_POLL = ''on_metrics_poll''"
| "hook_type_value ON_STARTUP = ''on_startup''"
| "hook_type_value ON_SHUTDOWN = ''on_shutdown''"

datatype PluginType =
    VALIDATOR | ADAPTER | HOOK | TOOL | PROFILE | STORE | UI | INTEGRATION | LLM_PROVIDER | AGENT | OTHER

record PluginManifest =
  plugin_id :: string
  plugin_name :: string
  plugin_version :: string
  plugin_type :: PluginType
  dependencies :: "string list"

datatype manifest_issue = IdRequired | NameRequired | VersionRequired

definition validate_manifest :: "PluginManifest \<Rightarrow> manifest_issue list" where
  "validate_manifest m =
     (if plugin_id m = '''' then [IdRequired] else []) @
     (if plugin_name m = '''' then [NameRequired] else []) @
     (if plugin_version m = '''' then [VersionRequired] else [])"

record PluginHook =
  ph_type :: PluginHookType
  ph_state :: string
  ph_handler :: string

text \<open>A plugin object; \<open>pi_status\<close> is the status in its own \<open>_state\<close>, set by its constructor.\<close>

record PluginBase =
  pi_status :: PluginStatus
  pi_manifest :: PluginManifest
  pi_hooks :: "PluginHook list"
  pi_tools :: "string list"
  pi_validators :: "string list"

definition health_check :: "PluginBase \<Rightarrow> bool" where
  "health_check i \<longleftrightarrow> pi_status i = ENABLED"

definition init_plugin :: "PluginManifest \<Rightarrow> PluginHook list \<Rightarrow> string list \<Rightarrow> string list \<Rightarrow> PluginBase" where
  "init_plugin m hooks tools validators =
     \<lparr>pi_status = INSTALLED, pi_manifest = m, pi_hooks = hooks, pi_tools = tools, pi_validators = validators\<rparr>"

definition LoggingPlugin :: PluginBase where
  "LoggingPlugin =
     init_plugin \<lparr>plugin_id = ''prodinamik.logging'', plugin_name = ''Logging Plugin'', plugin_version = ''1.0.0'',
         plugin_type = HOOK, dependencies = []\<rparr>
       [\<lparr>ph_type = ON_STATE_ENTER, ph_state = ''*'', ph_handler = ''log_enter''\<rparr>,
        \<lparr>ph_type = ON_STATE_EXIT, ph_state = ''*'', ph_handler = ''log_exit''\<rparr>,
        \<lparr>ph_type = ON_ERROR, ph_state = [], ph_handler = ''log_error''\<rparr>] [] []"

datatype plugin_error = PluginRaised string | HookRaised hook_error

text \<open>A registered plugin always has a manifest and an instance.\<close>

record PluginState =
  status :: PluginStatus
  manifest :: PluginManifest
  plugin_inst :: PluginBase
  error :: "plugin_error option"
  enabled_at :: "datetime option"
  last_error_at :: "datetime option"
  error_count :: nat

subsection \<open>Dependency order\<close>

datatype issue = CycleDetected "string set" | MissingDependency string

type_synonym visit_state = "string set \<times> string list \<times> issue list"

text \<open>\<open>visit\<close> and its loop over the dependencies, on \<open>(visited, sorted_ids, unresolved)\<close>.\<close>

function visit :: "(string, PluginManifest) dict \<Rightarrow> string \<Rightarrow> string set \<Rightarrow> visit_state \<Rightarrow> visit_state"
  and visit_all :: "(string, PluginManifest) dict \<Rightarrow> string list \<Rightarrow> string set \<Rightarrow> visit_state \<Rightarrow> visit_state"
where
  "visit ps pid path (vis, srt, unr) =
     (if pid \<in> vis then (vis, srt, unr)
      else if pid \<in> path then (vis, srt, unr @ [CycleDetected (insert pid path)])
      else case dict_get ps pid of
        None \<Rightarrow> (vis, srt, unr @ [MissingDependency pid])
      | Some m \<Rightarrow>
          (let (vis, srt, unr) = visit_all ps (dependencies m) (insert pid path) (vis, srt, unr)
           in (insert pid vis, srt @ [pid], unr)))"
| "visit_all ps [] path s = s"
| "visit_all ps (d # ds) path s = visit_all ps ds path (visit ps d path s)"
  by pat_completeness auto

text \<open>A call inside works on a longer path of registered plugins; a step of the loop on fewer dependencies.\<close>

termination visit
proof (relation "measures [\<lambda>x. case x of Inl (ps, pid, path, s) \<Rightarrow> card (set (dict_keys ps) - path)
      | Inr (ps, ds, path, s) \<Rightarrow> card (set (dict_keys ps) - path),
    \<lambda>x. case x of Inl _ \<Rightarrow> 0 | Inr (ps, ds, path, s) \<Rightarrow> Suc (length ds)]")
  fix ps :: "(string, PluginManifest) dict" and pid path m and vis :: "string set" and srt :: "string list" and unr :: "issue list"
  assume "pid \<notin> path" "dict_get ps pid = Some m"
  then have "card (set (dict_keys ps) - insert pid path) < card (set (dict_keys ps) - path)"
    by (intro psubset_card_mono) (force dest: map_of_SomeD)+
  then show "(Inr (ps, dependencies m, insert pid path, vis, srt, unr), Inl (ps, pid, path, vis, srt, unr)) \<in>
    measures [\<lambda>x. case x of Inl (ps, pid, path, s) \<Rightarrow> card (set (dict_keys ps) - path)
      | Inr (ps, ds, path, s) \<Rightarrow> card (set (dict_keys ps) - path),
    \<lambda>x. case x of Inl _ \<Rightarrow> 0 | Inr (ps, ds, path, s) \<Rightarrow> Suc (length ds)]"
    by simp
qed simp_all

definition resolve_dependencies :: "(string, PluginManifest) dict \<Rightarrow> string list \<times> issue list" where
  "resolve_dependencies ps =
     (let (vis, srt, unr) = fold (\<lambda>pid s. if pid \<in> fst s then s else visit ps pid {} s) (dict_keys ps) ({}, [], [])
      in (srt, unr))"

definition depends :: "(string, PluginManifest) dict \<Rightarrow> string \<Rightarrow> string list" where
  "depends ps x = (case dict_get ps x of None \<Rightarrow> [] | Some m \<Rightarrow> dependencies m)"

definition registered :: "(string, PluginManifest) dict \<Rightarrow> string set" where
  "registered ps = set (dict_keys ps)"

lemma registered_iff: "x \<in> registered ps \<longleftrightarrow> (\<exists>m. dict_get ps x = Some m)"
  using map_of_eq_None_iff [of ps x] by (auto simp: registered_def)

text \<open>Every element comes after its dependencies, which are in \<open>done\<close> or before it.\<close>

fun ordered :: "(string, PluginManifest) dict \<Rightarrow> string set \<Rightarrow> string list \<Rightarrow> bool" where
  "ordered ps before [] \<longleftrightarrow> True"
| "ordered ps before (x # xs) \<longleftrightarrow> set (depends ps x) \<subseteq> before \<and> ordered ps (insert x before) xs"

lemma ordered_snoc: "ordered ps before (xs @ [x]) \<longleftrightarrow> ordered ps before xs \<and> set (depends ps x) \<subseteq> before \<union> set xs"
  by (induction xs arbitrary: before) auto

fun issue_ok :: "(string, PluginManifest) dict \<Rightarrow> issue \<Rightarrow> bool" where
  "issue_ok ps (CycleDetected S) \<longleftrightarrow> (\<exists>x\<in>S. (x, x) \<in> (edges (depends ps))\<^sup>+)"
| "issue_ok ps (MissingDependency d) \<longleftrightarrow> d \<notin> registered ps \<and> (\<exists>x. d \<in> set (depends ps x))"

definition visit_inv :: "(string, PluginManifest) dict \<Rightarrow> string set \<Rightarrow> visit_state \<Rightarrow> bool" where
  "visit_inv ps path s \<longleftrightarrow> (case s of (vis, srt, unr) \<Rightarrow>
     set srt = vis \<and> distinct srt \<and> vis \<subseteq> registered ps \<and> vis \<inter> path = {})"

text \<open>What a visit does to the state: it extends each part, and the order stays one if there is no new issue.\<close>

definition grows :: "(string, PluginManifest) dict \<Rightarrow> visit_state \<Rightarrow> visit_state \<Rightarrow> bool" where
  "grows ps s s' \<longleftrightarrow> fst s \<subseteq> fst s' \<and> (\<exists>new. snd (snd s') = snd (snd s) @ new \<and> list_all (issue_ok ps) new \<and>
     (new = [] \<and> ordered ps {} (fst (snd s)) \<longrightarrow> ordered ps {} (fst (snd s'))))"

lemma grows_refl: "grows ps s s"
  by (simp add: grows_def)

lemma visit_inv_issues [simp]: "visit_inv ps path (vis, srt, unr @ new) = visit_inv ps path (vis, srt, unr)"
  by (simp add: visit_inv_def)

lemma grows_trans:
  assumes "grows ps s t" and "grows ps t u"
  shows "grows ps s u"
proof -
  obtain m where m: "fst s \<subseteq> fst t" "snd (snd t) = snd (snd s) @ m" "list_all (issue_ok ps) m"
      "m = [] \<and> ordered ps {} (fst (snd s)) \<longrightarrow> ordered ps {} (fst (snd t))"
    using assms(1) by (auto simp: grows_def)
  obtain n where n: "fst t \<subseteq> fst u" "snd (snd u) = snd (snd t) @ n" "list_all (issue_ok ps) n"
      "n = [] \<and> ordered ps {} (fst (snd t)) \<longrightarrow> ordered ps {} (fst (snd u))"
    using assms(2) by (auto simp: grows_def)
  show ?thesis
    unfolding grows_def using m n by (intro conjI exI [of _ "m @ n"]) auto
qed

lemma grows_no_issue:
  assumes "grows ps s t" and "grows ps t u" and "snd (snd u) = snd (snd s)"
  shows "snd (snd t) = snd (snd s)" and "snd (snd u) = snd (snd t)"
proof -
  obtain m n where "snd (snd t) = snd (snd s) @ m" "snd (snd u) = snd (snd t) @ n"
    using assms(1,2) unfolding grows_def by blast
  moreover from this assms(3) have "m = [] \<and> n = []"
    by (metis append_assoc append_is_Nil_conv append_self_conv)
  ultimately show "snd (snd t) = snd (snd s)" "snd (snd u) = snd (snd t)" by auto
qed

definition reaching :: "(string, PluginManifest) dict \<Rightarrow> string set \<Rightarrow> string \<Rightarrow> bool" where
  "reaching ps path x \<longleftrightarrow> (\<forall>p\<in>path. (p, x) \<in> (edges (depends ps))\<^sup>+) \<and>
     (x \<in> registered ps \<or> (\<exists>y. x \<in> set (depends ps y)))"

lemma reaching_dep:
  assumes "reaching ps path pid" and "d \<in> set (depends ps pid)"
  shows "reaching ps (insert pid path) d"
  using assms by (auto simp: reaching_def intro: trancl.trancl_into_trancl)

lemma visit_spec:
  "visit_inv ps path s \<Longrightarrow> reaching ps path pid \<Longrightarrow> s' = visit ps pid path s \<Longrightarrow>
     visit_inv ps path s' \<and> grows ps s s' \<and> (pid \<in> registered ps - path \<longrightarrow> pid \<in> fst s') \<and>
     (snd (snd s') = snd (snd s) \<longrightarrow> pid \<in> fst s')"
  "visit_inv ps path s \<Longrightarrow> (\<forall>d\<in>set ds. reaching ps path d) \<Longrightarrow> t' = visit_all ps ds path s \<Longrightarrow>
     visit_inv ps path t' \<and> grows ps s t' \<and> set ds \<inter> registered ps - path \<subseteq> fst t' \<and>
     (snd (snd t') = snd (snd s) \<longrightarrow> set ds \<subseteq> fst t')"
proof (induction ps pid path s and ps ds path s arbitrary: s' and t' rule: visit_visit_all.induct)
  case (1 ps pid path vis srt unr)
  note * = this
  show ?case
  proof (cases "pid \<in> vis \<or> pid \<in> path \<or> dict_get ps pid = None")
    case True
    show ?thesis
    proof (cases "pid \<in> vis")
      case True
      then have "s' = (vis, srt, unr)" using *(4) by simp
      then show ?thesis using *(2) True by (simp add: grows_refl)
    next
      case out: False
      show ?thesis
      proof (cases "pid \<in> path")
        case True
        then have s': "s' = (vis, srt, unr @ [CycleDetected (insert pid path)])" using *(4) out by simp
        have "(pid, pid) \<in> (edges (depends ps))\<^sup>+" using True *(3) by (simp add: reaching_def)
        then have "issue_ok ps (CycleDetected (insert pid path))" by simp
        then show ?thesis using *(2) True by (simp add: s' grows_def)
      next
        case False
        then have none: "dict_get ps pid = None" using out \<open>pid \<in> vis \<or> pid \<in> path \<or> dict_get ps pid = None\<close> by simp
        then have s': "s' = (vis, srt, unr @ [MissingDependency pid])" using *(4) out False by simp
        have "issue_ok ps (MissingDependency pid)" using none *(3) by (auto simp: reaching_def registered_iff)
        then show ?thesis using *(2) none by (simp add: s' grows_def registered_iff)
      qed
    qed
  next
    case False
    then obtain m where m: "dict_get ps pid = Some m" "pid \<notin> vis" "pid \<notin> path" by auto
    obtain vis1 srt1 unr1 where v: "visit_all ps (dependencies m) (insert pid path) (vis, srt, unr) = (vis1, srt1, unr1)"
      by (metis prod_cases3)
    have s': "s' = (insert pid vis1, srt1 @ [pid], unr1)"
      using 1(4) m v by simp
    have deps: "depends ps pid = dependencies m" by (simp add: depends_def m(1))
    have pre: "visit_inv ps (insert pid path) (vis, srt, unr)"
      using 1(2) m(2) by (auto simp: visit_inv_def)
    have rch: "\<forall>d\<in>set (dependencies m). reaching ps (insert pid path) d"
      using reaching_dep [OF 1(3)] by (simp add: deps)
    note IH = 1(1) [OF m(2,3,1) pre rch v [symmetric]]
    have inv1: "set srt1 = vis1" "distinct srt1" "vis1 \<subseteq> registered ps" "vis1 \<inter> insert pid path = {}"
      using IH by (auto simp: visit_inv_def)
    have "visit_inv ps path s'"
      using inv1 m by (auto simp: s' visit_inv_def registered_iff)
    moreover have "grows ps (vis, srt, unr) s'"
    proof -
      have g: "grows ps (vis, srt, unr) (vis1, srt1, unr1)" "unr1 = unr \<longrightarrow> set (dependencies m) \<subseteq> vis1"
        using IH by simp_all
      then obtain new where "vis \<subseteq> vis1" "unr1 = unr @ new" "list_all (issue_ok ps) new"
          "new = [] \<and> ordered ps {} srt \<longrightarrow> ordered ps {} srt1"
        by (auto simp: grows_def)
      then show ?thesis
        using g(2) inv1(1) by (auto simp: s' grows_def ordered_snoc deps)
    qed
    ultimately show ?thesis by (simp add: s')
  qed
next
  case (2 ps path s)
  then show ?case by (simp add: grows_refl)
next
  case (3 ps d ds path s)
  let ?s = "visit ps d path s"
  have a: "visit_inv ps path ?s" "grows ps s ?s" "d \<in> registered ps - path \<longrightarrow> d \<in> fst ?s" "snd (snd ?s) = snd (snd s) \<longrightarrow> d \<in> fst ?s"
    using 3(1) [OF 3(3) _ refl] 3(4) by auto
  have b: "visit_inv ps path t'" "grows ps ?s t'" "set ds \<inter> registered ps - path \<subseteq> fst t'" "snd (snd t') = snd (snd ?s) \<longrightarrow> set ds \<subseteq> fst t'"
    using 3(2) [OF a(1) _] 3(4,5) by auto
  have "fst ?s \<subseteq> fst t'" using b(2) by (simp add: grows_def)
  show ?case
  proof (intro conjI impI)
    show "visit_inv ps path t'" by (rule b(1))
    show "grows ps s t'" by (rule grows_trans [OF a(2) b(2)])
    show "set (d # ds) \<inter> registered ps - path \<subseteq> fst t'"
      using a(3) b(3) \<open>fst ?s \<subseteq> fst t'\<close> by auto
    assume same: "snd (snd t') = snd (snd s)"
    have "d \<in> fst ?s" using a(4) grows_no_issue(1) [OF a(2) b(2) same] by (rule mp)
    moreover have "set ds \<subseteq> fst t'" using b(4) grows_no_issue(2) [OF a(2) b(2) same] by (rule mp)
    ultimately show "set (d # ds) \<subseteq> fst t'" using \<open>fst ?s \<subseteq> fst t'\<close> by auto
  qed
qed

lemma fold_visit_all:
  "fold (\<lambda>pid s. if pid \<in> fst s then s else visit ps pid {} s) ds s = visit_all ps ds {} s"
proof (induction ds arbitrary: s)
  case (Cons d ds)
  have "(if d \<in> fst s then s else visit ps d {} s) = visit ps d {} s" by (cases s) simp
  with Cons show ?case by simp
qed simp

interpretation pd: finite_graph "depends ps" "registered ps" for ps
  by unfold_locales (simp add: registered_def, auto simp: registered_iff depends_def split: option.split)

lemma ordered_acyclic:
  assumes "ordered ps B xs" and "distinct xs" and "B \<inter> set xs = {}"
    and "\<forall>x\<in>B. set (depends ps x) \<subseteq> B" and "\<forall>x\<in>B. (x, x) \<notin> (edges (depends ps))\<^sup>+"
  shows "\<forall>x\<in>B \<union> set xs. (x, x) \<notin> (edges (depends ps))\<^sup>+"
  using assms
proof (induction xs arbitrary: B)
  case (Cons x xs)
  have x: "(x, x) \<notin> (edges (depends ps))\<^sup>+"
  proof
    assume "(x, x) \<in> (edges (depends ps))\<^sup>+"
    then obtain y where y: "y \<in> set (depends ps x)" "(y, x) \<in> (edges (depends ps))\<^sup>*"
      by (auto dest: tranclD)
    have "x \<in> B"
      by (rule pd.closed_reach [OF Cons.prems(4) _ y(2)]) (use y(1) Cons.prems(1) in auto)
    then show False using Cons.prems(3) by simp
  qed
  have "\<forall>z\<in>insert x B \<union> set xs. (z, z) \<notin> (edges (depends ps))\<^sup>+"
  proof (rule Cons.IH)
    show "ordered ps (insert x B) xs" "distinct xs" "insert x B \<inter> set xs = {}"
      using Cons.prems(1-3) by auto
    show "\<forall>z\<in>insert x B. set (depends ps z) \<subseteq> insert x B"
      using Cons.prems(1,4) by auto
    show "\<forall>z\<in>insert x B. (z, z) \<notin> (edges (depends ps))\<^sup>+"
      using Cons.prems(5) x by simp
  qed
  then show ?case by simp
qed simp

lemma no_cycle_outside: "x \<notin> registered ps \<Longrightarrow> (x, x) \<notin> (edges (depends ps))\<^sup>+"
  by (auto simp: registered_iff depends_def dest: tranclD)

definition resolvable :: "(string, PluginManifest) dict \<Rightarrow> bool" where
  "resolvable ps \<longleftrightarrow> acyclic (edges (depends ps)) \<and> (\<forall>x. set (depends ps x) \<subseteq> registered ps)"

lemma resolvable_no_issue: "resolvable ps \<Longrightarrow> \<not> issue_ok ps i"
  by (cases i) (auto simp: resolvable_def acyclic_def)

lemma ordered_registered: "ordered ps B xs \<Longrightarrow> x \<in> set xs \<Longrightarrow> set (depends ps x) \<subseteq> B \<union> set xs"
  by (induction xs arbitrary: B) force+

text \<open>C12: Dependency resolution of plugins terminates on every table and returns each registered plugin
exactly once; it reports an issue exactly when a dependency is not registered or the dependencies have a
cycle, and without issues each plugin comes after all it depends on. Every issue it reports is real: a reported
cycle has a plugin that depends on itself, directly or not, and a dependency reported missing is one that some
plugin needs and that is not registered.\<close>

theorem resolve_spec:
  "resolve_dependencies ps = (ids, issues) \<Longrightarrow>
     distinct ids \<and> set ids = registered ps \<and> list_all (issue_ok ps) issues \<and>
     (issues = [] \<longleftrightarrow> resolvable ps) \<and> (issues = [] \<longrightarrow> ordered ps {} ids)"
proof -
  assume r: "resolve_dependencies ps = (ids, issues)"
  let ?s = "visit_all ps (dict_keys ps) {} ({}, [], [])"
  obtain vis where s: "?s = (vis, ids, issues)"
    using r by (auto simp: resolve_dependencies_def fold_visit_all split: prod.splits)
  have "visit_inv ps {} ?s \<and> grows ps ({}, [], []) ?s \<and> set (dict_keys ps) \<inter> registered ps - {} \<subseteq> fst ?s"
    using visit_spec(2) [of ps "{}" "({}, [], [])" "dict_keys ps", OF _ _ refl]
    by (auto simp: visit_inv_def reaching_def registered_def)
  then have inv: "set ids = vis" "distinct ids" "vis = registered ps" "list_all (issue_ok ps) issues"
      and ord: "issues = [] \<longrightarrow> ordered ps {} ids"
    unfolding s by (auto simp: visit_inv_def grows_def registered_def)
  have "resolvable ps" if "issues = []"
  proof -
    have o: "ordered ps {} ids" using ord that by simp
    have "\<forall>x\<in>registered ps. (x, x) \<notin> (edges (depends ps))\<^sup>+"
      using ordered_acyclic [OF o inv(2)] inv(1,3) by simp
    moreover have "set (depends ps x) \<subseteq> registered ps" for x
      using ordered_registered [OF o, of x] inv(1,3) by (cases "x \<in> registered ps") (auto simp: depends_def registered_iff)
    ultimately show ?thesis
      using no_cycle_outside by (auto simp: resolvable_def acyclic_def)
  qed
  moreover have "issues = []" if "resolvable ps"
    using inv(4) resolvable_no_issue [OF that] by (cases issues) auto
  ultimately show ?thesis using inv ord by blast
qed

subsection \<open>The plugin registry\<close>

record PluginRegistry =
  plugins :: "(string, PluginState) dict"
  sorted_order :: "string list"
  hook_registry :: "hook_table option"
  discovery_count :: nat
  changes :: nat

definition init_plugins :: "hook_table option \<Rightarrow> PluginRegistry" where
  "init_plugins hs = \<lparr>plugins = [], sorted_order = [], hook_registry = hs, discovery_count = 0, changes = 0\<rparr>"

definition put_plugin :: "string \<Rightarrow> PluginState \<Rightarrow> PluginRegistry \<Rightarrow> PluginRegistry" where
  "put_plugin pid st r = r\<lparr>plugins := dict_set pid st (plugins r)\<rparr>"

definition notify_change :: "PluginRegistry \<Rightarrow> PluginRegistry" where
  "notify_change r = r\<lparr>changes := changes r + 1\<rparr>"

text \<open>The argument is \<^const>\<open>None\<close> when the constructor of the class raises.\<close>

definition register_class :: "PluginBase option \<Rightarrow> PluginRegistry \<Rightarrow> bool \<times> PluginRegistry" where
  "register_class cls r = (case cls of
       None \<Rightarrow> (False, r)
     | Some inst \<Rightarrow>
         let m = pi_manifest inst in
         case dict_get (plugins r) (plugin_id m) of
           Some existing \<Rightarrow>
             if plugin_version (manifest existing) = plugin_version m then (False, r)
             else (True, put_plugin (plugin_id m) \<lparr>status = DISABLED, manifest = m, plugin_inst = inst,
               error = None, enabled_at = None, last_error_at = None, error_count = 0\<rparr> r)
         | None \<Rightarrow> (True, put_plugin (plugin_id m) \<lparr>status = DISABLED, manifest = m, plugin_inst = inst,
               error = None, enabled_at = None, last_error_at = None, error_count = 0\<rparr> r))"

definition resolve :: "PluginRegistry \<Rightarrow> PluginRegistry" where
  "resolve r = r\<lparr>sorted_order := fst (resolve_dependencies (map (\<lambda>(pid, st). (pid, manifest st)) (plugins r)))\<rparr>"

definition register_found :: "PluginBase option list \<Rightarrow> PluginRegistry \<Rightarrow> nat \<times> PluginRegistry" where
  "register_found found r =
     fold (\<lambda>cls (n, r). let (new, r) = register_class cls r in (if new then n + 1 else n, r)) found (0, r)"

text \<open>\<open>found\<close>: the classes that the scan of the search paths comes to, in order.\<close>

definition discover :: "PluginBase option list \<Rightarrow> PluginRegistry \<Rightarrow> nat \<times> PluginRegistry" where
  "discover found r =
     (let (n, r) = register_found (Some LoggingPlugin # found) r;
          r = resolve r;
          r = r\<lparr>discovery_count := discovery_count r + 1\<rparr>
      in (n, if n > 0 then notify_change r else r))"

fun register_hooks :: "string \<Rightarrow> PluginHook list \<Rightarrow> hook_table \<Rightarrow> hook_error option \<times> hook_table" where
  "register_hooks pid [] hs = (None, hs)"
| "register_hooks pid (h # rest) hs =
     (case register_hook (''plugin:'' @ pid @ '':'' @ ph_state h) (hook_type_value (ph_type h)) (ph_handler h) hs of
        Inl e \<Rightarrow> (Some e, hs)
      | Inr hs \<Rightarrow> register_hooks pid rest hs)"

text \<open>\<open>raised\<close>: what \<open>on_enable\<close> raises or, for a provider, the registration in the registry of providers.\<close>

definition enable_work :: "string \<Rightarrow> PluginBase \<Rightarrow> string option \<Rightarrow> PluginRegistry \<Rightarrow> plugin_error option \<times> PluginRegistry" where
  "enable_work pid inst raised r = (case raised of
       Some msg \<Rightarrow> (Some (PluginRaised msg), r)
     | None \<Rightarrow> (case hook_registry r of
           None \<Rightarrow> (None, r)
         | Some hs \<Rightarrow>
             let (err, hs) = register_hooks pid (pi_hooks inst) hs
             in (map_option HookRaised err, r\<lparr>hook_registry := Some hs\<rparr>)))"

definition enable :: "datetime \<Rightarrow> string \<Rightarrow> string option \<Rightarrow> PluginRegistry \<Rightarrow> bool \<times> PluginRegistry" where
  "enable now pid raised r = (case dict_get (plugins r) pid of
       None \<Rightarrow> (False, r)
     | Some st \<Rightarrow>
         if status st = ENABLED then (True, r)
         else
           let st = (if status st = ERROR then st\<lparr>error := None\<rparr> else st);
               (err, r) = enable_work pid (plugin_inst st) raised r
           in case err of
                None \<Rightarrow> (True, notify_change (put_plugin pid (st\<lparr>status := ENABLED, enabled_at := Some now\<rparr>) r))
              | Some e \<Rightarrow> (False, put_plugin pid (st\<lparr>status := ERROR, error := Some e, last_error_at := Some now,
                  error_count := error_count st + 1\<rparr>) r))"

definition disable :: "string \<Rightarrow> string option \<Rightarrow> PluginRegistry \<Rightarrow> bool \<times> PluginRegistry" where
  "disable pid raised r = (case dict_get (plugins r) pid of
       None \<Rightarrow> (False, r)
     | Some st \<Rightarrow>
         if status st \<noteq> ENABLED then (True, r)
         else case raised of
           Some _ \<Rightarrow> (False, r)
         | None \<Rightarrow> (True, notify_change (put_plugin pid (st\<lparr>status := DISABLED\<rparr>) r)))"

datatype install_error = NoSuchPlugin string | InstallRaised string

text \<open>\<open>source\<close>: \<^const>\<open>None\<close> without a source file, else the class that the file gives, if any.\<close>

definition install :: "string \<Rightarrow> PluginBase option option \<Rightarrow> string option \<Rightarrow> PluginRegistry \<Rightarrow> (install_error + bool) \<times> PluginRegistry" where
  "install pid source raised r = (case source of
       None \<Rightarrow> (Inr False, r)
     | Some cls \<Rightarrow>
         let (new, r) = register_class cls r in
         if \<not> new then (Inr False, r)
         else case dict_get (plugins r) pid of
           None \<Rightarrow> (Inl (NoSuchPlugin pid), r)
         | Some st \<Rightarrow> (case raised of
               Some msg \<Rightarrow> (Inl (InstallRaised msg), r)
             | None \<Rightarrow> (Inr True, notify_change r)))"

definition uninstall :: "string \<Rightarrow> string option \<Rightarrow> string option \<Rightarrow> PluginRegistry \<Rightarrow> bool \<times> PluginRegistry" where
  "uninstall pid disabling raised r = (case dict_get (plugins r) pid of
       None \<Rightarrow> (False, r)
     | Some st \<Rightarrow>
         let r = (if status st = ENABLED then snd (disable pid disabling r) else r)
         in case raised of
              Some _ \<Rightarrow> (False, r)
            | None \<Rightarrow> (True, notify_change (r\<lparr>plugins := dict_del pid (plugins r),
                sorted_order := filter (\<lambda>p. p \<noteq> pid) (sorted_order r)\<rparr>)))"

definition reload :: "datetime \<Rightarrow> string \<Rightarrow> string option \<Rightarrow> PluginBase option list \<Rightarrow> string option \<Rightarrow> PluginRegistry \<Rightarrow> bool \<times> PluginRegistry" where
  "reload now pid disabling found enabling r =
     (let was_enabled = (case dict_get (plugins r) pid of None \<Rightarrow> False | Some st \<Rightarrow> status st = ENABLED);
          r = (if was_enabled then snd (disable pid disabling r) else r);
          r = r\<lparr>plugins := dict_del pid (plugins r)\<rparr>;
          r = resolve (snd (discover found r))
      in if was_enabled \<and> dict_has (plugins r) pid then enable now pid enabling r
         else (dict_has (plugins r) pid, r))"

text \<open>An exception of \<open>on_disable\<close> is logged, so it does not matter to the state.\<close>

definition shutdown :: "PluginRegistry \<Rightarrow> PluginRegistry" where
  "shutdown r = r\<lparr>plugins := map (\<lambda>(pid, st). (pid, st\<lparr>status := DISABLED\<rparr>)) (plugins r)\<rparr>"

definition list_plugins :: "PluginStatus option \<Rightarrow> PluginType option \<Rightarrow> PluginRegistry \<Rightarrow> PluginState list" where
  "list_plugins s t r =
     (let ps = dict_values (plugins r);
          ps = (case s of None \<Rightarrow> ps | Some s \<Rightarrow> filter (\<lambda>p. status p = s) ps)
      in case t of None \<Rightarrow> ps | Some t \<Rightarrow> filter (\<lambda>p. plugin_type (manifest p) = t) ps)"

definition get_enabled :: "PluginRegistry \<Rightarrow> PluginState list" where
  "get_enabled r = filter (\<lambda>p. status p = ENABLED) (dict_values (plugins r))"

definition get_all_tools :: "PluginRegistry \<Rightarrow> string list" where
  "get_all_tools r = concat (map (\<lambda>st. pi_tools (plugin_inst st)) (get_enabled r))"

definition get_all_hooks :: "PluginRegistry \<Rightarrow> PluginHook list" where
  "get_all_hooks r = concat (map (\<lambda>st. pi_hooks (plugin_inst st)) (get_enabled r))"

definition get_all_validators :: "PluginRegistry \<Rightarrow> string list" where
  "get_all_validators r = concat (map (\<lambda>st. pi_validators (plugin_inst st)) (get_enabled r))"

definition health_check_all :: "PluginRegistry \<Rightarrow> (string, bool) dict" where
  "health_check_all r = map (\<lambda>(pid, st). (pid, health_check (plugin_inst st))) (plugins r)"

definition count_by_type :: "PluginRegistry \<Rightarrow> (PluginType, nat) dict" where
  "count_by_type r = fold (\<lambda>st counts. let t = plugin_type (manifest st)
     in dict_set t (dict_get_default counts t 0 + 1) counts) (dict_values (plugins r)) []"

record plugin_metrics =
  pm_total :: nat
  pm_enabled :: nat
  pm_disabled :: nat
  pm_error :: nat

definition snapshot_metrics :: "PluginRegistry \<Rightarrow> plugin_metrics" where
  "snapshot_metrics r =
     \<lparr>pm_total = length (plugins r), pm_enabled = length (get_enabled r),
      pm_disabled = length (plugins r) - length (get_enabled r),
      pm_error = length (filter (\<lambda>p. status p = ERROR) (dict_values (plugins r)))\<rparr>"

text \<open>The startup hooks: \<open>on_enable\<close> of every plugin that is already enabled, once more.\<close>

definition emit_startup_hooks :: "PluginRegistry \<Rightarrow> string list" where
  "emit_startup_hooks r = map (\<lambda>st. plugin_id (manifest st)) (get_enabled r)"

subsection \<open>Histories of the plugin registry\<close>

datatype plugin_op =
    Discover "PluginBase option list"
  | Enable datetime string "string option"
  | Disable string "string option"
  | Install string "PluginBase option option" "string option"
  | Uninstall string "string option" "string option"
  | Reload datetime string "string option" "PluginBase option list" "string option"
  | Shutdown

fun plugin_step :: "plugin_op \<Rightarrow> PluginRegistry \<Rightarrow> PluginRegistry" where
  "plugin_step (Discover found) r = snd (discover found r)"
| "plugin_step (Enable now pid e) r = snd (enable now pid e r)"
| "plugin_step (Disable pid e) r = snd (disable pid e r)"
| "plugin_step (Install pid src e) r = snd (install pid src e r)"
| "plugin_step (Uninstall pid d e) r = snd (uninstall pid d e r)"
| "plugin_step (Reload now pid d found e) r = snd (reload now pid d found e r)"
| "plugin_step Shutdown r = shutdown r"

lemma hook_types_invalid: "hook_type_value t \<notin> set valid_types"
  by (cases t) (simp_all add: valid_types_def)

lemma register_hooks_fails:
  "register_hooks pid hs tab = (case hs of [] \<Rightarrow> (None, tab)
     | h # _ \<Rightarrow> (Some (InvalidHookType (hook_type_value (ph_type h))), tab))"
  by (cases hs) (simp_all add: register_hook_def hook_types_invalid)

text \<open>A plugin with a hook is not enabled; entries are under their own id; the order lists registered plugins.\<close>

definition state_ok :: "string \<Rightarrow> PluginState \<Rightarrow> bool" where
  "state_ok pid st \<longleftrightarrow> plugin_id (manifest st) = pid \<and> (status st = ENABLED \<longrightarrow> pi_hooks (plugin_inst st) = [])"

definition plugins_inv :: "hook_table \<Rightarrow> PluginRegistry \<Rightarrow> bool" where
  "plugins_inv hs r \<longleftrightarrow> hook_registry r = Some hs \<and> dict_wf (plugins r) \<and> (\<forall>(pid, st)\<in>set (plugins r). state_ok pid st)"

lemma plugins_inv_upd [simp]:
  "plugins_inv hs (r\<lparr>sorted_order := so\<rparr>) = plugins_inv hs r"
  "plugins_inv hs (r\<lparr>discovery_count := n\<rparr>) = plugins_inv hs r"
  "plugins_inv hs (r\<lparr>changes := n\<rparr>) = plugins_inv hs r"
  by (simp_all add: plugins_inv_def)

lemma notify_inv [simp]: "plugins_inv hs (notify_change r) = plugins_inv hs r"
  by (simp add: notify_change_def)

lemma resolve_inv [simp]: "plugins_inv hs (resolve r) = plugins_inv hs r"
  by (simp add: resolve_def)

lemma put_inv: "plugins_inv hs r \<Longrightarrow> state_ok pid st \<Longrightarrow> plugins_inv hs (put_plugin pid st r)"
  by (auto simp: plugins_inv_def put_plugin_def set_dict_set)

lemma del_inv: "plugins_inv hs r \<Longrightarrow> plugins_inv hs (r\<lparr>plugins := dict_del pid (plugins r)\<rparr>)"
  by (auto simp: plugins_inv_def set_dict_del)

lemma get_ok: "plugins_inv hs r \<Longrightarrow> dict_get (plugins r) pid = Some st \<Longrightarrow> state_ok pid st"
  by (auto simp: plugins_inv_def dest!: map_of_SomeD)

lemma register_class_inv: "plugins_inv hs r \<Longrightarrow> plugins_inv hs (snd (register_class cls r))"
  by (auto simp: register_class_def Let_def state_ok_def intro!: put_inv split: option.split)

lemma register_found_inv: "plugins_inv hs r \<Longrightarrow> plugins_inv hs (snd (register_found found r))"
proof -
  assume "plugins_inv hs r"
  then have "plugins_inv hs (snd (fold (\<lambda>cls (n, r). let (new, r) = register_class cls r in (if new then n + 1 else n, r)) found (n, r)))" for n
    by (induction found arbitrary: n r) (auto simp: case_prod_unfold Let_def register_class_inv)
  then show ?thesis by (simp add: register_found_def)
qed

lemma discover_inv: "plugins_inv hs r \<Longrightarrow> plugins_inv hs (snd (discover found r))"
  using register_found_inv [of hs r "Some LoggingPlugin # found"]
  by (simp add: discover_def case_prod_unfold Let_def)

lemma enable_inv:
  assumes inv: "plugins_inv hs r"
  shows "plugins_inv hs (snd (enable now pid e r))"
proof -
  have h: "hook_registry r = Some hs" using inv by (simp add: plugins_inv_def)
  then have same: "r\<lparr>hook_registry := Some hs\<rparr> = r" by simp
  show ?thesis
    using inv get_ok [OF inv, of pid]
    by (auto simp: enable_def enable_work_def Let_def h same register_hooks_fails state_ok_def intro!: put_inv
        split: option.splits list.splits)
qed

lemma disable_inv: "plugins_inv hs r \<Longrightarrow> plugins_inv hs (snd (disable pid e r))"
  using get_ok [of hs r pid]
  by (auto simp: disable_def state_ok_def intro!: put_inv split: option.splits)

lemma plugin_step_inv: "plugins_inv hs r \<Longrightarrow> plugins_inv hs (plugin_step op r)"
proof (cases op)
  case Shutdown
  assume "plugins_inv hs r"
  then show ?thesis
    by (auto simp: Shutdown shutdown_def plugins_inv_def state_ok_def dict_wf_map_values)
qed (auto simp: discover_inv enable_inv disable_inv install_def uninstall_def reload_def Let_def case_prod_unfold
    register_class_inv del_inv split: option.split)

lemma plugins_run_inv: "plugins_inv hs r \<Longrightarrow> plugins_inv hs (fold plugin_step ops r)"
  by (rule fold_invariant [where Q = "\<lambda>_. True"]) (simp_all add: plugin_step_inv)

text \<open>With a hook registry, no plugin hook is ever registered: whatever the registry of plugins is
asked to do from the start, in any order and with any outcome of the plugins' own code, the table of hooks is
the one it was given and no enabled plugin has a hook, since no value of PluginHookType is a valid type.\<close>

theorem plugin_hooks_never_registered:
  "hook_registry (fold plugin_step ops (init_plugins (Some hs))) = Some hs \<and>
   get_all_hooks (fold plugin_step ops (init_plugins (Some hs))) = []"
proof -
  have "plugins_inv hs (fold plugin_step ops (init_plugins (Some hs)))"
    by (rule plugins_run_inv) (simp add: plugins_inv_def init_plugins_def)
  then show ?thesis
    by (fastforce simp: plugins_inv_def get_all_hooks_def get_enabled_def state_ok_def)
qed

text \<open>Enabling a registered plugin that has hooks fails when a hook registry is there, also when its
own on_enable succeeds (and has run): it ends with the status ERROR, the invalid hook type as its error and
one more error counted, the hook registry is unchanged, and the failure repeats at every retry.\<close>

theorem enable_with_hooks_fails:
  "hook_registry r = Some hs \<Longrightarrow> dict_get (plugins r) pid = Some st \<Longrightarrow> status st \<noteq> ENABLED \<Longrightarrow>
     pi_hooks (plugin_inst st) = h # rest \<Longrightarrow>
     \<exists>r' st'. enable now pid None r = (False, r') \<and> hook_registry r' = Some hs \<and> dict_get (plugins r') pid = Some st' \<and>
       status st' = ERROR \<and> error st' = Some (HookRaised (InvalidHookType (hook_type_value (ph_type h)))) \<and>
       error_count st' = error_count st + 1 \<and> changes r' = changes r"
  by (simp add: enable_def enable_work_def Let_def register_hooks_fails put_plugin_def)

theorem enable_with_hooks_fails_witness:
  "fst (enable 0 ''prodinamik.logging'' None (snd (discover [] (init_plugins (Some []))))) = False"
proof -
  let ?r = "snd (discover [] (init_plugins (Some [])))"
  have r: "hook_registry ?r = Some []"
      "dict_get (plugins ?r) ''prodinamik.logging'' = Some \<lparr>status = DISABLED, manifest = pi_manifest LoggingPlugin,
        plugin_inst = LoggingPlugin, error = None, enabled_at = None, last_error_at = None, error_count = 0\<rparr>"
    by (simp_all add: discover_def register_found_def register_class_def init_plugins_def put_plugin_def resolve_def
        notify_change_def LoggingPlugin_def init_plugin_def Let_def)
  obtain r' where "enable 0 ''prodinamik.logging'' None ?r = (False, r')"
    using enable_with_hooks_fails [OF r(1,2), of _ _ 0] by (auto simp: LoggingPlugin_def init_plugin_def)
  then show ?thesis by simp
qed

theorem resolve_spec_witness:
  "\<not> resolvable [(''a'', pi_manifest LoggingPlugin\<lparr>dependencies := [''b'']\<rparr>), (''b'', pi_manifest LoggingPlugin\<lparr>dependencies := [''a'']\<rparr>)]"
proof -
  let ?ps = "[(''a'', pi_manifest LoggingPlugin\<lparr>dependencies := [''b'']\<rparr>), (''b'', pi_manifest LoggingPlugin\<lparr>dependencies := [''a'']\<rparr>)]"
  have "resolve_dependencies ?ps = ([''b'', ''a''], [CycleDetected {''b'', ''a''}])"
    by (simp add: resolve_dependencies_def insert_commute)
  from resolve_spec [OF this] show ?thesis by simp
qed

text \<open>\<open>health_check_all\<close> asks the plugins, and their own status never changes.\<close>

lemma never_healthy:
  assumes "\<forall>st\<in>set (dict_values (plugins r)). pi_status (plugin_inst st) = INSTALLED"
  shows "\<forall>h\<in>set (dict_values (health_check_all r)). \<not> h"
  using assms by (auto simp: health_check_all_def health_check_def)

end
