(* ===== verification/Auto_Fix.thy ===== *)
theory Auto_Fix
  imports Systems PyString
begin

text \<open>
  Automatic remediation (\<open>engine/autofix.py\<close>): signatures of failures, the matcher, the plans
  and their execution. What the handler of an action does is an argument of the execution;
  confidences are exact rationals rounded to two decimals. The request to a language model
  (\<open>suggest_fix\<close>) is not modelled.
\<close>

subsection \<open>Failures and plans\<close>

datatype FailureClass =
    TRANSIENT | STATE | RESOURCE | VALIDATION | DEPENDENCY | CONFIG | TIMEOUT | UNKNOWN

datatype RemediationType =
    RETRY | BACKOFF | ROLLBACK | CLEANUP | RESET | RECONFIGURE | ESCALATE

datatype AutoRemediationStatus = PENDING | RUNNING | SUCCESS | FAILED | SKIPPED | ESCALATED

record FailureSignature =
  fs_name :: string
  failure_class :: FailureClass
  match_patterns :: "string list"

definition matches :: "string \<Rightarrow> FailureSignature \<Rightarrow> bool" where
  "matches msg s \<longleftrightarrow> list_ex (\<lambda>p. py_in (lower p) (lower msg)) (match_patterns s)"

record RemediationAction =
  action_type :: RemediationType
  act_description :: string
  act_handler :: "string option"
  max_attempts :: nat
  cooldown_seconds :: rat

record RemediationPlan =
  signature_name :: string
  plan_class :: FailureClass
  confidence :: rat
  plan_actions :: "RemediationAction list"
  auto_execute :: bool
  plan_timeout :: rat

record RemediationResult =
  plan_name :: string
  rem_status :: AutoRemediationStatus
  action_results :: "(string \<times> bool) list"
  rem_error :: "string option"
  rem_completed_at :: "datetime option"

definition has_auto_remediation :: "RemediationPlan \<Rightarrow> bool" where
  "has_auto_remediation p \<longleftrightarrow> auto_execute p \<and> plan_actions p \<noteq> []"

definition signature :: "string \<Rightarrow> FailureClass \<Rightarrow> string list \<Rightarrow> FailureSignature" where
  "signature n c ps = \<lparr>fs_name = n, failure_class = c, match_patterns = ps\<rparr>"

text \<open>The arrow of a pattern is the character U+2192.\<close>

definition create_default_patterns :: "FailureSignature list" where
  "create_default_patterns =
     [signature ''connection_timeout'' TRANSIENT
        [''timeout'', ''connection refused'', ''connection reset'', ''network unreachable''],
      signature ''rate_limit'' TRANSIENT [''rate limit'', ''too many requests'', ''429'', ''throttled''],
      signature ''state_invalid'' STATE
        [''invalid state'', ''state not found'', ''transition not allowed'', ''illegal state''],
      signature ''state_machine_stuck'' STATE
        [''stuck in loop'', ''max iterations'', ''infinite loop'', ''timeout in state''],
      signature ''memory_pressure'' RESOURCE [''out of memory'', ''memory error'', ''cannot allocate'', ''OOM''],
      signature ''disk_full'' RESOURCE [''disk full'', ''no space left'', ''disk quota'', ''write failed''],
      signature ''validation_failed'' VALIDATION
        [''validation failed'', ''invalid format'', ''schema error'', ''validation error''],
      signature ''dependency_down'' DEPENDENCY
        [''service unavailable'', ''503'', ''dependency failed'', ''upstream''],
      signature ''config_error'' CONFIG
        [''config error'', ''invalid config'', ''configuration error'', ''missing config''],
      signature ''hitl_user_timeout'' TIMEOUT
        [''hitl timeout'', ''awaiting_input'', ''pause state'', ''user timeout''],
      signature ''hitl_repeated_rejection'' STATE
        [''repeated rejection'', ''changes_requested'',
         ''draft_review '' @ [CHR 0xE2, CHR 0x86, CHR 0x92] @ '' drafting'', ''re-entry loop''],
      signature ''hitl_drift_escalation'' VALIDATION
        [''drift_count >='', ''drift escalation'', ''excessive drift'', ''drift threshold''],
      signature ''hitl_chain_loop'' STATE
        [''hitl loop'', ''chain loop guard'', ''max hitl steps'', ''HITL loop limit'']]"

subsection \<open>The matcher\<close>

definition round2 :: "rat \<Rightarrow> rat" where
  "round2 x = of_int (round_half_even (x * 100)) / 100"

definition match_one :: "string \<Rightarrow> FailureSignature \<Rightarrow> (FailureSignature \<times> rat) option" where
  "match_one msg s =
     (let hit = filter (\<lambda>p. py_in (lower p) (lower msg)) (match_patterns s)
      in if hit = [] then None
         else Some (s, round2 (min 1 (of_nat (length hit) / of_nat (length (match_patterns s)) * 2))))"

text \<open>\<open>sort(key=..., reverse=True)\<close> keeps the order of equal keys.\<close>

definition match_failure :: "FailureSignature list \<Rightarrow> string \<Rightarrow> (FailureSignature \<times> rat) list" where
  "match_failure sigs msg = sort_key (\<lambda>m. - snd m) (List.map_filter (match_one msg) sigs)"

definition best_match :: "FailureSignature list \<Rightarrow> string \<Rightarrow> (FailureSignature \<times> rat) option" where
  "best_match sigs msg = (case match_failure sigs msg of [] \<Rightarrow> None | m # _ \<Rightarrow> Some m)"

definition classify :: "FailureSignature list \<Rightarrow> string \<Rightarrow> FailureClass" where
  "classify sigs msg = (case best_match sigs msg of None \<Rightarrow> UNKNOWN | Some (s, _) \<Rightarrow> failure_class s)"

subsection \<open>The remediator\<close>

record AutoRemediator =
  patterns :: "FailureSignature list"
  results :: "RemediationResult list"
  rem_history :: "(string, nat) dict"
  cooldowns :: "(string, datetime) dict"

text \<open>An empty list of patterns stands for the default ones.\<close>

definition init_remediator :: "FailureSignature list \<Rightarrow> AutoRemediator" where
  "init_remediator sigs = \<lparr>patterns = (if sigs = [] then create_default_patterns else sigs),
     results = [], rem_history = [], cooldowns = []\<rparr>"

definition add_pattern :: "FailureSignature \<Rightarrow> AutoRemediator \<Rightarrow> AutoRemediator" where
  "add_pattern s r = r\<lparr>patterns := patterns r @ [s]\<rparr>"

definition plain_action :: "RemediationType \<Rightarrow> string \<Rightarrow> nat \<Rightarrow> rat \<Rightarrow> RemediationAction" where
  "plain_action t d n c = \<lparr>action_type = t, act_description = d, act_handler = None, max_attempts = n,
     cooldown_seconds = c\<rparr>"

fun generate_actions :: "FailureClass \<Rightarrow> RemediationAction list" where
  "generate_actions TRANSIENT =
     [plain_action BACKOFF ''Retry with exponential backoff'' 3 2,
      plain_action RETRY ''Simple retry after cooldown'' 1 5]"
| "generate_actions STATE =
     [plain_action ROLLBACK ''Rollback to previous valid state'' 1 10,
      plain_action RESET ''Reset state machine to initial state'' 1 10]"
| "generate_actions RESOURCE =
     [plain_action CLEANUP ''Run cache eviction and garbage collection'' 3 10,
      plain_action RESET ''Reset resource limits to defaults'' 3 10]"
| "generate_actions VALIDATION = [plain_action RETRY ''Retry with corrected input'' 2 10]"
| "generate_actions DEPENDENCY =
     [plain_action BACKOFF ''Backoff and retry dependency call'' 3 5,
      plain_action ESCALATE ''Escalate to operator if dependency remains down'' 3 10]"
| "generate_actions CONFIG =
     [plain_action RECONFIGURE ''Reload configuration from defaults'' 3 10,
      plain_action ESCALATE ''Escalate config issue to operator'' 3 10]"
| "generate_actions _ =
     [plain_action ESCALATE (''Unknown failure '' @ [CHR 0xE2, CHR 0x80, CHR 0x94] @ '' escalate to operator'') 3 10]"

fun estimate_timeout :: "FailureClass \<Rightarrow> rat" where
  "estimate_timeout TRANSIENT = 30"
| "estimate_timeout STATE = 15"
| "estimate_timeout RESOURCE = 60"
| "estimate_timeout VALIDATION = 10"
| "estimate_timeout DEPENDENCY = 45"
| "estimate_timeout CONFIG = 10"
| "estimate_timeout _ = 30"

definition create_plan :: "string \<Rightarrow> AutoRemediator \<Rightarrow> AutoRemediator \<times> RemediationPlan option" where
  "create_plan msg r = (case best_match (patterns r) msg of
       None \<Rightarrow> (r, None)
     | Some (s, conf) \<Rightarrow>
         (r\<lparr>rem_history := dict_set (fs_name s) (dict_get_default (rem_history r) (fs_name s) 0 + 1) (rem_history r)\<rparr>,
          Some \<lparr>signature_name = fs_name s, plan_class = failure_class s, confidence = conf,
            plan_actions = generate_actions (failure_class s),
            auto_execute = conf \<ge> 1/2 \<and> failure_class s \<in> {TRANSIENT, TIMEOUT},
            plan_timeout = estimate_timeout (failure_class s)\<rparr>))"

text \<open>
  What comes of the handler of an action within the time limit: a truth value, an exception
  (logged inside), or nothing in time. Without a handler an action fails.
\<close>

datatype handler_outcome = Returned bool | Raised | TimedOut

definition execute_action :: "(string \<Rightarrow> handler_outcome) \<Rightarrow> RemediationAction \<Rightarrow> bool" where
  "execute_action run a = (case act_handler a of None \<Rightarrow> False | Some h \<Rightarrow> run h = Returned True)"

text \<open>The loop over the actions: the results, and the seconds slept after failures.\<close>

fun execute_actions :: "(string \<Rightarrow> handler_outcome) \<Rightarrow> RemediationAction list \<Rightarrow> (string \<times> bool) list \<times> rat" where
  "execute_actions run [] = ([], 0)"
| "execute_actions run (a # as) =
     (if action_type a = ESCALATE then ([], 0)
      else if execute_action run a then ([(act_description a, True)], 0)
      else let (rs, slept) = execute_actions run as
           in ((act_description a, False) # rs, cooldown_seconds a + slept))"

definition minutes :: "int \<Rightarrow> int" where
  "minutes n = n * 60000000"

text \<open>\<open>now\<close> is the time of the call, \<open>fin\<close> the time after the actions.\<close>

definition execute :: "(string \<Rightarrow> handler_outcome) \<Rightarrow> datetime \<Rightarrow> datetime \<Rightarrow> RemediationPlan \<Rightarrow> AutoRemediator
    \<Rightarrow> AutoRemediator \<times> RemediationResult" where
  "execute run now fin plan r =
     (let skip = (\<lambda>why. \<lparr>plan_name = signature_name plan, rem_status = SKIPPED, action_results = [],
            rem_error = Some why, rem_completed_at = None\<rparr>)
      in if (case dict_get (cooldowns r) (signature_name plan) of None \<Rightarrow> False | Some t \<Rightarrow> now < t) then
           (r\<lparr>results := results r @ [skip ''In cooldown period'']\<rparr>, skip ''In cooldown period'')
         else if \<not> auto_execute plan then
           (r\<lparr>results := results r @ [skip ''Manual approval required'']\<rparr>, skip ''Manual approval required'')
         else
           let rs = fst (execute_actions run (plan_actions plan));
               st = (if list_ex snd rs then SUCCESS else FAILED);
               res = \<lparr>plan_name = signature_name plan, rem_status = st, action_results = rs,
                 rem_error = None, rem_completed_at = Some fin\<rparr>
           in (r\<lparr>cooldowns := dict_set (signature_name plan) (fin + minutes (if st = SUCCESS then 5 else 1)) (cooldowns r),
                 results := results r @ [res]\<rparr>, res))"

definition remediate :: "(string \<Rightarrow> handler_outcome) \<Rightarrow> datetime \<Rightarrow> datetime \<Rightarrow> string \<Rightarrow> AutoRemediator
    \<Rightarrow> AutoRemediator \<times> RemediationResult option" where
  "remediate run now fin msg r = (case create_plan msg r of
       (r, None) \<Rightarrow> (r, None)
     | (r, Some plan) \<Rightarrow> (case execute run now fin plan r of (r, res) \<Rightarrow> (r, Some res)))"

record rem_stats =
  st_total :: nat
  st_auto_remediated :: nat
  st_failed :: nat
  st_skipped :: nat
  st_success_rate :: rat
  st_pattern_frequency :: "(string \<times> nat) list"

definition with_status :: "AutoRemediationStatus \<Rightarrow> AutoRemediator \<Rightarrow> nat" where
  "with_status st r = length (filter (\<lambda>x. rem_status x = st) (results r))"

definition get_stats :: "AutoRemediator \<Rightarrow> rem_stats" where
  "get_stats r =
     \<lparr>st_total = length (results r), st_auto_remediated = with_status SUCCESS r,
      st_failed = with_status FAILED r, st_skipped = with_status SKIPPED r,
      st_success_rate = (if results r \<noteq> [] then of_nat (with_status SUCCESS r) / of_nat (length (results r)) else 0),
      st_pattern_frequency = take 10 (sort_key (\<lambda>p. - int (snd p)) (rem_history r))\<rparr>"

subsection \<open>What the matcher chooses\<close>

lemma sort_key_head:
  assumes "sort_key f xs = y # ys"
  shows "y \<in> set xs \<and> (\<forall>x\<in>set xs. f y \<le> f x)"
proof -
  have "sorted (map f (y # ys))" using sorted_sort_key [of f xs] assms by simp
  moreover have "set (y # ys) = set xs" using set_sort [of f xs] assms by simp
  ultimately show ?thesis by force
qed

lemma best_match_spec:
  "best_match sigs msg = None \<longleftrightarrow> (\<forall>s\<in>set sigs. \<not> matches msg s)"
  "best_match sigs msg = Some (s, c) \<Longrightarrow> s \<in> set sigs \<and> match_one msg s = Some (s, c) \<and>
     (\<forall>s'\<in>set sigs. \<forall>c'. match_one msg s' = Some (s', c') \<longrightarrow> c' \<le> c)"
proof -
  have one: "match_one msg s = None \<longleftrightarrow> \<not> matches msg s" for s
    by (simp add: match_one_def matches_def Let_def filter_empty_conv list_ex_iff)
  show "best_match sigs msg = None \<longleftrightarrow> (\<forall>s\<in>set sigs. \<not> matches msg s)"
  proof -
    have "best_match sigs msg = None \<longleftrightarrow> match_failure sigs msg = []"
      by (simp add: best_match_def split: list.split)
    also have "\<dots> \<longleftrightarrow> set (match_failure sigs msg) = {}" by simp
    also have "\<dots> \<longleftrightarrow> (\<forall>s\<in>set sigs. match_one msg s = None)"
      unfolding match_failure_def set_sort by (auto simp: map_filter_def) (metis not_None_eq surj_pair)
    finally show ?thesis by (simp add: one)
  qed
  have fst_one: "s' = s" if "match_one msg s = Some (s', c)" for s s' c
    using that by (simp add: match_one_def Let_def split: if_splits)
  assume "best_match sigs msg = Some (s, c)"
  then obtain ys where "sort_key (\<lambda>m. - snd m) (List.map_filter (match_one msg) sigs) = (s, c) # ys"
    by (auto simp: best_match_def match_failure_def split: list.splits)
  from sort_key_head [OF this]
  have m: "(s, c) \<in> set (List.map_filter (match_one msg) sigs)"
    "\<forall>x\<in>set (List.map_filter (match_one msg) sigs). snd x \<le> c" by auto
  from m(1) obtain s0 where s0: "s0 \<in> set sigs" "match_one msg s0 = Some (s, c)"
    by (auto simp: map_filter_def)
  moreover have "s = s0" using fst_one [OF s0(2)] .
  moreover have "c' \<le> c" if "s' \<in> set sigs" "match_one msg s' = Some (s', c')" for s' c'
    using bspec [OF m(2), of "(s', c')"] that by (force simp: map_filter_def)
  ultimately show "s \<in> set sigs \<and> match_one msg s = Some (s, c) \<and>
     (\<forall>s'\<in>set sigs. \<forall>c'. match_one msg s' = Some (s', c') \<longrightarrow> c' \<le> c)" by blast
qed

text \<open>Every built-in signature has four patterns, so one hit already gives the confidence one half.\<close>

lemma round2_steps: "round2 (1/2) = 1/2" "round2 1 = 1"
  by (simp_all add: round2_def round_half_even_def Let_def)

lemma default_confidence:
  assumes "s \<in> set create_default_patterns" and "match_one msg s = Some (s', c)"
  shows "c = 1/2 \<or> c = 1"
proof -
  have four: "length (match_patterns s) = 4"
    using assms(1) by (auto simp: create_default_patterns_def signature_def)
  let ?n = "length (filter (\<lambda>p. py_in (lower p) (lower msg)) (match_patterns s))"
  have "?n \<le> 4" using length_filter_le [of _ "match_patterns s"] four by metis
  moreover have "?n \<noteq> 0" and c: "c = round2 (min 1 (of_nat ?n / 4 * 2))"
    using assms(2) four by (auto simp: match_one_def Let_def split: if_splits)
  ultimately have "?n = 1 \<or> ?n = 2 \<or> ?n = 3 \<or> ?n = 4" by linarith
  then show ?thesis unfolding c by (elim disjE) (simp_all add: round2_steps)
qed

subsection \<open>What a plan can achieve\<close>

lemma no_handlers: "a \<in> set (generate_actions c) \<Longrightarrow> act_handler a = None"
  by (cases c) (auto simp: plain_action_def)

lemma actions_without_handlers:
  "\<forall>a\<in>set as. act_handler a = None \<Longrightarrow>
     fst (execute_actions run as) = map (\<lambda>a. (act_description a, False)) (takeWhile (\<lambda>a. action_type a \<noteq> ESCALATE) as)"
  by (induction as) (auto simp: execute_action_def case_prod_unfold Let_def)

lemma actions_sleep:
  "\<forall>a\<in>set as. act_handler a = None \<Longrightarrow>
     snd (execute_actions run as) = sum_list (map cooldown_seconds (takeWhile (\<lambda>a. action_type a \<noteq> ESCALATE) as))"
  by (induction as) (auto simp: execute_action_def case_prod_unfold Let_def)

lemma create_plan_actions:
  "create_plan msg r = (r', Some plan) \<Longrightarrow> plan_actions plan = generate_actions (plan_class plan) \<and>
     cooldowns r' = cooldowns r \<and> results r' = results r \<and>
     (auto_execute plan \<longrightarrow> plan_class plan = TRANSIENT \<or> plan_class plan = TIMEOUT)"
  by (auto simp: create_plan_def split: option.splits prod.splits)

text \<open>The automatic remediation never repairs anything: for every set of patterns, message and time,
and whatever handlers would do, the result of remediate is SKIPPED or FAILED, no action of it succeeded, it
is never ESCALATED, and an executed plan for a transient failure has only slept for seven seconds.\<close>

theorem remediate_never_succeeds:
  "case remediate run now fin msg r of
     (r', None) \<Rightarrow> r' = r \<and> (\<forall>s\<in>set (patterns r). \<not> matches msg s)
   | (r', Some res) \<Rightarrow>
       rem_status res \<in> {SKIPPED, FAILED} \<and> \<not> list_ex snd (action_results res) \<and>
       results r' = results r @ [res] \<and>
       (rem_status res = FAILED \<longrightarrow> dict_get (cooldowns r') (plan_name res) = Some (fin + minutes 1) \<and>
          action_results res \<in> {[], map (\<lambda>a. (act_description a, False)) (generate_actions TRANSIENT)})"
proof (cases "create_plan msg r")
  case (Pair r1 p)
  show ?thesis
  proof (cases p)
    case None
    then show ?thesis
      using Pair best_match_spec(1) [of "patterns r" msg]
      by (auto simp: remediate_def create_plan_def split: option.splits prod.splits)
  next
    case (Some plan)
    note pl = create_plan_actions [OF Pair [unfolded Some]]
    let ?rs = "fst (execute_actions run (plan_actions plan))"
    have rs: "?rs = map (\<lambda>a. (act_description a, False))
        (takeWhile (\<lambda>a. action_type a \<noteq> ESCALATE) (generate_actions (plan_class plan)))"
      using pl by (simp add: actions_without_handlers no_handlers)
    then have "\<not> list_ex snd ?rs" by (simp add: list_ex_iff)
    moreover have "auto_execute plan \<longrightarrow> ?rs \<in> {[], map (\<lambda>a. (act_description a, False)) (generate_actions TRANSIENT)}"
      using pl rs by (auto simp: plain_action_def)
    ultimately show ?thesis
      using Pair Some pl by (auto simp: remediate_def execute_def Let_def list_ex_iff)
  qed
qed

theorem remediate_never_succeeds_witness:
  "rem_status (the (snd (remediate (\<lambda>_. Returned True) 0 9 ''boom!''
     (init_remediator [signature ''x'' TRANSIENT [''boom'']])))) = FAILED"
proof -
  let ?r = "init_remediator [signature ''x'' TRANSIENT [''boom'']]"
  have m: "match_one ''boom!'' (signature ''x'' TRANSIENT [''boom'']) = Some (signature ''x'' TRANSIENT [''boom''], 1)"
    by (simp add: match_one_def signature_def py_in_def split_first.simps lower_def lower_char_def starts_with_def round2_steps)
  then obtain r' res where r: "remediate (\<lambda>_. Returned True) 0 9 ''boom!'' ?r = (r', Some res)"
      and a: "rem_status res \<noteq> SKIPPED"
    by (simp add: remediate_def create_plan_def best_match_def match_failure_def map_filter_def init_remediator_def
        execute_def Let_def signature_def)
  from remediate_never_succeeds [where run = "\<lambda>_. Returned True" and now = 0 and fin = 9 and msg = "''boom!''" and r = ?r] r a show ?thesis by simp
qed

end
