(* ===== verification/Runtime.thy ===== *)
theory Runtime
  imports Run_Manager Event_Store Hooks Safety Budget Auto_Fix
begin

text \<open>
  The asynchronous engine (\<open>engine/runtime.py\<close>), which composes the run manager, the state
  machines of the profiles, the event stores, the hooks, the remediation and the health checks.
  An operation of the engine reads one clock: all its calls of \<open>datetime.now()\<close> give the same
  \<open>now\<close>. Hook handlers and callbacks are names, and a call of one is recorded in \<open>calls\<close>.
  The engine's references to its tracker, its degradation manager and its bus are those of its
  budget and its safety monitor. Profiles are the registered ones after \<open>initialize()\<close>. One
  round of each background task is an operation; the skill emergence of recorded drifts and the
  warm agents have theories of their own, and signals and displayed text are not modelled.
\<close>

subsection \<open>Dates\<close>

definition leap :: "nat \<Rightarrow> bool" where
  "leap y \<longleftrightarrow> y mod 4 = 0 \<and> (y mod 100 \<noteq> 0 \<or> y mod 400 = 0)"

definition month_days :: "nat \<Rightarrow> nat \<Rightarrow> nat" where
  "month_days y m = (if m = 2 then (if leap y then 29 else 28) else if m \<in> {4, 6, 9, 11} then 30 else 31)"

definition day_number :: "nat \<Rightarrow> nat \<Rightarrow> nat \<Rightarrow> int" where
  "day_number y m d = (let p = int y - 1 in 365 * p + p div 4 - p div 100 + p div 400 +
     int (sum_list (map (month_days y) [1..<m])) + int d)"

text \<open>Microseconds.\<close>

definition clock_time :: "clock \<Rightarrow> datetime" where
  "clock_time c = (((day_number (year c) (month c) (day c) * 24 + int (hour c)) * 60 + int (minute c)) * 60 +
     int (second c)) * 1000000 + int (micro c)"

definition valid_clock :: "clock \<Rightarrow> bool" where
  "valid_clock c \<longleftrightarrow> 1 \<le> year c \<and> year c \<le> 9999 \<and> 1 \<le> month c \<and> month c \<le> 12 \<and> 1 \<le> day c \<and>
     day c \<le> month_days (year c) (month c) \<and> hour c < 24 \<and> minute c < 60 \<and> second c < 60 \<and> micro c < 1000000"

definition digits_at :: "nat \<Rightarrow> nat \<Rightarrow> string \<Rightarrow> nat option" where
  "digits_at i n s = map_option nat (if list_all is_digit (take n (drop i s)) then digits_value 0 (take n (drop i s)) else None)"

text \<open>\<open>datetime.fromisoformat\<close> on the two forms that \<open>isoformat()\<close> writes; other texts are a \<open>ValueError\<close>.\<close>

definition from_iso :: "string \<Rightarrow> clock option" where
  "from_iso s =
     (if length s \<in> {19, 26} \<and> s ! 4 = CHR ''-'' \<and> s ! 7 = CHR ''-'' \<and> s ! 10 = CHR ''T'' \<and>
         s ! 13 = CHR '':'' \<and> s ! 16 = CHR '':'' \<and> (length s = 26 \<longrightarrow> s ! 19 = CHR ''.'')
      then (case (digits_at 0 4 s, digits_at 5 2 s, digits_at 8 2 s, digits_at 11 2 s, digits_at 14 2 s,
                  digits_at 17 2 s, if length s = 26 then digits_at 20 6 s else Some 0) of
            (Some y, Some mo, Some d, Some h, Some mi, Some sec, Some us) \<Rightarrow>
              let c = \<lparr>year = y, month = mo, day = d, hour = h, minute = mi, second = sec, micro = us\<rparr>
              in if valid_clock c then Some c else None
          | _ \<Rightarrow> None)
      else None)"

subsection \<open>The engine\<close>

record hook_call =
  call_state :: string
  call_type :: string
  call_handler :: string
  call_slug :: string

record drift_record =
  drift_slug :: string
  drift_state :: string
  drift_pattern :: string

record AsyncEngine =
  run_manager :: RunManager
  profiles :: "(string, run_profile) dict"
  event_stores :: "(string, EventStore) dict"
  en_hooks :: hook_table
  coroutines :: "string set"
  hitl_callbacks :: "string list"
  calls :: "hook_call list"
  entry_times :: "(string, (string, datetime) dict) dict"
  remediator :: AutoRemediator
  auto_remediation_enabled :: bool
  drifts :: "drift_record list"
  en_budget :: BudgetEnforcer
  en_safety :: SafetyMonitor
  running :: bool

definition init_engine :: "budget_config \<Rightarrow> (string, run_profile) dict \<Rightarrow> AsyncEngine" where
  "init_engine cfg ps = \<lparr>run_manager = new_manager, profiles = ps, event_stores = [], en_hooks = [],
     coroutines = {}, hitl_callbacks = [], calls = [], entry_times = [], remediator = init_remediator [],
     auto_remediation_enabled = True, drifts = [],
     en_budget = configure cfg (init_enforcer init_tracker (Some init_degradation)),
     en_safety = \<lparr>violations = [], sm_check_count = 0, monitor_bus = Some init_bus\<rparr>, running = False\<rparr>"

datatype engine_error =
    UnknownProfile string
  | UnknownRun string
  | NoMachine string
  | RunError run_error

text \<open>\<open>hooks.trigger_sync\<close>: the handlers that are no coroutine functions.\<close>

definition fire :: "string \<Rightarrow> string \<Rightarrow> string \<Rightarrow> AsyncEngine \<Rightarrow> AsyncEngine" where
  "fire state ty slug e = e\<lparr>calls := calls e @ map (\<lambda>h. \<lparr>call_state = state, call_type = ty, call_handler = h,
     call_slug = slug\<rparr>) (trigger_sync (\<lambda>h. h \<in> coroutines e) state ty (en_hooks e))\<rparr>"

text \<open>\<open>await hooks.trigger\<close>: all handlers.\<close>

definition fire_async :: "string \<Rightarrow> string \<Rightarrow> string \<Rightarrow> AsyncEngine \<Rightarrow> AsyncEngine" where
  "fire_async state ty slug e = e\<lparr>calls := calls e @ map (\<lambda>h. \<lparr>call_state = state, call_type = ty, call_handler = h,
     call_slug = slug\<rparr>) (trigger state ty (en_hooks e))\<rparr>"

definition track_entry :: "string \<Rightarrow> string \<Rightarrow> datetime \<Rightarrow> AsyncEngine \<Rightarrow> AsyncEngine" where
  "track_entry slug state t e = e\<lparr>entry_times := dict_set slug
     (dict_set state t (dict_get_default (entry_times e) slug [])) (entry_times e)\<rparr>"

text \<open>An error in reading the runs ends the cleanup.\<close>

definition cleanup_state_entries :: "AsyncEngine \<Rightarrow> AsyncEngine" where
  "cleanup_state_entries e = (case list_runs False (run_manager e) of
       Inl _ \<Rightarrow> e
     | Inr ms \<Rightarrow> e\<lparr>entry_times := filter (\<lambda>(slug, _). slug \<in> rm_slug ` set ms) (entry_times e)\<rparr>)"

definition get_event_store :: "string \<Rightarrow> AsyncEngine \<Rightarrow> EventStore" where
  "get_event_store slug e = (case dict_get (event_stores e) slug of
     Some s \<Rightarrow> s | None \<Rightarrow> load_store slug [] [] None default_retention)"

definition record_event :: "string \<Rightarrow> string \<Rightarrow> string \<Rightarrow> datetime \<Rightarrow> AsyncEngine \<Rightarrow> AsyncEngine" where
  "record_event slug f to t e =
     (let s = get_event_store slug e
      in e\<lparr>event_stores := dict_set slug (snd (append_event (from_transition (last_sequence s + 1) slug f to t) s))
            (event_stores e)\<rparr>)"

definition create_run_sync :: "string \<Rightarrow> string \<Rightarrow> string \<Rightarrow> clock \<Rightarrow> AsyncEngine \<Rightarrow> AsyncEngine \<times> (engine_error + Run)" where
  "create_run_sync name title slug0 now e = (case dict_get (profiles e) name of
       None \<Rightarrow> (e, Inl (UnknownProfile name))
     | Some p \<Rightarrow> (case create_run title p slug0 now (clock_time now) (run_manager e) of
           (m, Inl err) \<Rightarrow> (e\<lparr>run_manager := m\<rparr>, Inl (RunError err))
         | (m, Inr run) \<Rightarrow>
             let slug = rm_slug (run_meta run); st = rm_state (run_meta run);
                 e = record_event slug [] st (clock_time now) (e\<lparr>run_manager := m\<rparr>);
                 e = track_entry slug st (clock_time now) e
             in (fire st ''on_enter'' slug e, Inr run)))"

definition create_run_async :: "string \<Rightarrow> string \<Rightarrow> string \<Rightarrow> clock \<Rightarrow> AsyncEngine \<Rightarrow> AsyncEngine \<times> (engine_error + Run)" where
  "create_run_async name title slug0 now e = (case create_run_sync name title slug0 now e of
       (e, Inl err) \<Rightarrow> (e, Inl err)
     | (e, Inr run) \<Rightarrow> (fire_async (rm_state (run_meta run)) ''on_enter'' (rm_slug (run_meta run)) e, Inr run))"

subsection \<open>Remediation of repeated rejections\<close>

definition rejections :: "string \<Rightarrow> AsyncEngine \<Rightarrow> nat" where
  "rejections slug e = (case dict_get (load_snapshot (run_manager e)) slug of
     None \<Rightarrow> 0 | Some r \<Rightarrow> (case sn_rejection_count r of None \<Rightarrow> 0 | Some n \<Rightarrow> n))"

definition rejection_message :: string where
  "rejection_message = ''repeated rejection: draft_review '' @ [CHR 0xE2, CHR 0x86, CHR 0x92] @ '' drafting loop''"

definition drift_message :: "int \<Rightarrow> string" where
  "drift_message n = ''drift escalation: drift_count='' @ show_int n"

definition plan_for :: "string \<Rightarrow> AsyncEngine \<Rightarrow> AsyncEngine \<times> RemediationPlan option" where
  "plan_for msg e = (case create_plan msg (remediator e) of (r, p) \<Rightarrow> (e\<lparr>remediator := r\<rparr>, p))"

text \<open>The second check looks at a new runtime state; an error in reading the run ends it.\<close>

definition check_drift_escalation :: "string \<Rightarrow> string \<Rightarrow> datetime \<Rightarrow> AsyncEngine \<Rightarrow> AsyncEngine \<times> RemediationPlan option" where
  "check_drift_escalation slug to t e = (case get_run slug t (run_manager e) of
       Inr (Some run) \<Rightarrow>
         let n = drift_count (new_runtime to t) in if n \<ge> 5 then plan_for (drift_message n) e else (e, None)
     | _ \<Rightarrow> (e, None))"

definition check_auto_remediation :: "string \<Rightarrow> string \<Rightarrow> string \<Rightarrow> datetime \<Rightarrow> AsyncEngine \<Rightarrow> AsyncEngine \<times> RemediationPlan option" where
  "check_auto_remediation slug f to t e =
     (if \<not> auto_remediation_enabled e then (e, None)
      else if f = ''draft_review'' \<and> to = ''drafting'' then
        let n = rejections slug e;
            e = e\<lparr>run_manager := update_snapshot slug (empty_snap\<lparr>sn_rejection_count := Some (n + 1)\<rparr>) (run_manager e)\<rparr>;
            (e, p) = (if n + 1 \<ge> 3 then plan_for rejection_message e else (e, None))
        in (case p of Some _ \<Rightarrow> (e, p) | None \<Rightarrow> check_drift_escalation slug to t e)
      else check_drift_escalation slug to t e)"

definition record_drift :: "string \<Rightarrow> string \<Rightarrow> string \<Rightarrow> AsyncEngine \<Rightarrow> AsyncEngine" where
  "record_drift slug to pat e = e\<lparr>drifts := drifts e @ [\<lparr>drift_slug = slug, drift_state = to, drift_pattern = pat\<rparr>]\<rparr>"

subsection \<open>Transitions\<close>

text \<open>\<open>str(state_type)\<close> of the enumeration.\<close>

fun show_state_type :: "StateType \<Rightarrow> string" where
  "show_state_type INITIAL = ''StateType.INITIAL''"
| "show_state_type INTERMEDIATE = ''StateType.INTERMEDIATE''"
| "show_state_type TERMINAL = ''StateType.TERMINAL''"
| "show_state_type SM_Types.ERROR = ''StateType.ERROR''"
| "show_state_type PAUSE = ''StateType.PAUSE''"

definition cleanup_if_terminal :: "run_profile \<Rightarrow> string \<Rightarrow> AsyncEngine \<Rightarrow> AsyncEngine" where
  "cleanup_if_terminal p to e = (case pf_machine p of
       None \<Rightarrow> e
     | Some sm \<Rightarrow> (case dict_get (states (sm_config sm)) to of
           None \<Rightarrow> e
         | Some sd \<Rightarrow> if show_state_type (state_type sd) \<in> {''TERMINAL'', ''terminal''} then cleanup_state_entries e else e))"

definition do_transition :: "string \<Rightarrow> string \<Rightarrow> override list \<Rightarrow> clock \<Rightarrow> AsyncEngine \<Rightarrow> AsyncEngine \<times> (engine_error + Run)" where
  "do_transition slug to overrides now e =
     (let t = clock_time now in case get_run slug t (run_manager e) of
        Inl err \<Rightarrow> (e, Inl (RunError err))
      | Inr None \<Rightarrow> (e, Inl (UnknownRun slug))
      | Inr (Some run) \<Rightarrow>
          let f = rm_state (run_meta run) in case dict_get (profiles e) (rm_profile (run_meta run)) of
            None \<Rightarrow> (e, Inl (UnknownProfile (rm_profile (run_meta run))))
          | Some p \<Rightarrow>
              let e = fire f ''on_exit'' (rm_slug (run_meta run)) e
              in case update_state slug to (Some p) overrides now t (run_manager e) of
                (m, Inl err) \<Rightarrow> (e\<lparr>run_manager := m\<rparr>, Inl (RunError err))
              | (m, Inr run) \<Rightarrow>
                  let e = record_event slug f to t (e\<lparr>run_manager := m\<rparr>);
                      e = cleanup_if_terminal p to (track_entry slug to t e);
                      e = fire to ''on_enter'' (rm_slug (run_meta run)) e;
                      (e, plan) = check_auto_remediation slug f to t e
                  in (case plan of None \<Rightarrow> e | Some pl \<Rightarrow> record_drift slug to (signature_name pl) e, Inr run))"

subsection \<open>Human in the loop\<close>

definition hitl_loops :: "string \<Rightarrow> AsyncEngine \<Rightarrow> nat" where
  "hitl_loops slug e = (case dict_get (load_snapshot (run_manager e)) slug of
     None \<Rightarrow> 0 | Some r \<Rightarrow> (case sn_hitl_loop_count r of None \<Rightarrow> 0 | Some n \<Rightarrow> n))"

definition max_hitl_loop :: nat where
  "max_hitl_loop = 5"

datatype hitl_result =
    HitlFailed engine_error
  | HitlMoved string
  | HitlGuard string
  | HitlAwaiting string "question list" int

definition question_timeout :: "StateMachine \<Rightarrow> string \<Rightarrow> int" where
  "question_timeout sm st = (case dict_get (states (sm_config sm)) st of
       None \<Rightarrow> 300
     | Some sd \<Rightarrow> (case hitl sd of None \<Rightarrow> 300 | Some h \<Rightarrow> fold (\<lambda>a t. max t (ask_timeout_seconds a)) (ask_user h) 300))"

text \<open>An unreadable run raises before the transition is tried; the other errors are in the result.\<close>

definition transition_with_hitl :: "string \<Rightarrow> string \<Rightarrow> (string, string) dict \<Rightarrow> clock \<Rightarrow> AsyncEngine
    \<Rightarrow> AsyncEngine \<times> (engine_error + hitl_result)" where
  "transition_with_hitl slug to answers now e =
     (case get_run slug (clock_time now) (run_manager e) of
        Inl err \<Rightarrow> (e, Inl (RunError err))
      | Inr before \<Rightarrow>
          let loops = (case before of None \<Rightarrow> 0 | Some _ \<Rightarrow> hitl_loops slug e) in
          case do_transition slug to [] now e of
            (e, Inl err) \<Rightarrow> (e, Inr (HitlFailed err))
          | (e, Inr run) \<Rightarrow>
              let st = rm_state (run_meta run) in
              case Option.bind (dict_get (profiles e) (rm_profile (run_meta run))) pf_machine of
                None \<Rightarrow> (e, Inr (HitlMoved st))
              | Some sm \<Rightarrow>
                  if is_pause_state sm st then
                    if loops \<ge> max_hitl_loop then (e, Inr (HitlGuard st))
                    else
                      let rt = (new_runtime st (clock_time now))
                            \<lparr>iteration_count := rm_iteration_count (run_meta run), user_answers := answers\<rparr>;
                          qs = get_hitl_questions sm st rt
                      in if qs \<noteq> [] then (e, Inr (HitlAwaiting st qs (question_timeout sm st))) else (e, Inr (HitlMoved st))
                  else (e, Inr (HitlMoved st)))"

datatype resume_result =
    NotPaused string
  | AnswersRecorded "(string, string) dict"
  | TransitionFailed engine_error
  | AwaitingInput string "question list"
  | Transitioned string string

definition set_hitl_loops :: "string \<Rightarrow> nat \<Rightarrow> clock \<Rightarrow> AsyncEngine \<Rightarrow> AsyncEngine" where
  "set_hitl_loops slug n now e = e\<lparr>run_manager := update_snapshot slug
     (empty_snap\<lparr>sn_hitl_loop_count := Some n, sn_updated_at := Some (iso now)\<rparr>) (run_manager e)\<rparr>"

definition record_answers :: "string \<Rightarrow> (string, string) dict \<Rightarrow> clock \<Rightarrow> AsyncEngine \<Rightarrow> AsyncEngine" where
  "record_answers slug answers now e = e\<lparr>run_manager := update_snapshot slug
     (empty_snap\<lparr>sn_user_answers := Some answers, sn_updated_at := Some (iso now)\<rparr>) (run_manager e)\<rparr>"

text \<open>The flags that the condition of the first matching transition mentions.\<close>

definition condition_overrides :: "StateMachine \<Rightarrow> string \<Rightarrow> string \<Rightarrow> override list" where
  "condition_overrides sm f to = (case List.find (\<lambda>td. from_state td = f \<and> to_state td = to) (transitions (sm_config sm)) of
       None \<Rightarrow> []
     | Some td \<Rightarrow> (case condition td of
           None \<Rightarrow> []
         | Some c \<Rightarrow> (if py_in ''human_approved'' c then [OHumanApproved True] else []) @
             (if py_in ''changes_requested'' c then [OChangesRequested True] else [])))"

definition resume_run :: "string \<Rightarrow> (string, string) dict \<Rightarrow> clock \<Rightarrow> AsyncEngine \<Rightarrow> AsyncEngine \<times> (engine_error + resume_result)" where
  "resume_run slug answers now e =
     (case get_run slug (clock_time now) (run_manager e) of
        Inl err \<Rightarrow> (e, Inl (RunError err))
      | Inr None \<Rightarrow> (e, Inl (UnknownRun slug))
      | Inr (Some run) \<Rightarrow>
          case Option.bind (dict_get (profiles e) (rm_profile (run_meta run))) pf_machine of
            None \<Rightarrow> (e, Inl (NoMachine slug))
          | Some sm \<Rightarrow>
              let cur = rm_state (run_meta run) in
              if \<not> is_pause_state sm cur then (e, Inr (NotPaused cur))
              else
                let next = evaluate_resume_transition sm cur answers;
                    e = set_hitl_loops slug (hitl_loops slug e + 1) now e
                in case next of
                     None \<Rightarrow> (record_answers slug answers now e, Inr (AnswersRecorded answers))
                   | Some [] \<Rightarrow> (record_answers slug answers now e, Inr (AnswersRecorded answers))
                   | Some to \<Rightarrow>
                       case do_transition slug to (condition_overrides sm cur to) now e of
                         (e, Inl err) \<Rightarrow> (e, Inr (TransitionFailed err))
                       | (e, Inr run) \<Rightarrow>
                           let rt = (new_runtime to (clock_time now))\<lparr>iteration_count := rm_iteration_count (run_meta run)\<rparr>;
                               qs = get_hitl_questions sm to rt
                           in if is_pause_state sm to \<and> qs \<noteq> [] then (e, Inr (AwaitingInput to qs))
                              else (e, Inr (Transitioned cur to)))"

subsection \<open>Timeouts\<close>

text \<open>\<open>sm.get_next_states\<close>, which updates the cache of the profile's machine.\<close>

definition next_states :: "string \<Rightarrow> string \<Rightarrow> AsyncEngine \<Rightarrow> AsyncEngine \<times> string list" where
  "next_states pname st e = (case dict_get (profiles e) pname of
       None \<Rightarrow> (e, [])
     | Some p \<Rightarrow> (case pf_machine p of
           None \<Rightarrow> (e, [])
         | Some sm \<Rightarrow> (case get_next_states st sm of
               (r, sm) \<Rightarrow> (e\<lparr>profiles := dict_set pname (p\<lparr>pf_machine := Some sm\<rparr>) (profiles e)\<rparr>,
                 case r of NextEntry ns \<Rightarrow> ns | CanEntry _ _ \<Rightarrow> []))))"

fun proceed_loop :: "string \<Rightarrow> string \<Rightarrow> clock \<Rightarrow> string list \<Rightarrow> AsyncEngine \<Rightarrow> AsyncEngine" where
  "proceed_loop slug cur now [] e = e"
| "proceed_loop slug cur now (ns # rest) e =
     (if ns = cur then proceed_loop slug cur now rest e
      else case do_transition slug ns [] now e of
        (e, Inr _) \<Rightarrow> e
      | (e, Inl _) \<Rightarrow> proceed_loop slug cur now rest e)"

fun fire_callbacks :: "string list \<Rightarrow> string \<Rightarrow> string \<Rightarrow> AsyncEngine \<Rightarrow> AsyncEngine" where
  "fire_callbacks cbs slug st e = e\<lparr>calls := calls e @ map (\<lambda>cb. \<lparr>call_state = st, call_type = ''callback'',
     call_handler = cb, call_slug = slug\<rparr>) cbs\<rparr>"

definition apply_policy :: "string \<Rightarrow> RunMeta \<Rightarrow> clock \<Rightarrow> AsyncEngine \<Rightarrow> AsyncEngine" where
  "apply_policy policy meta now e =
     (if policy = ''proceed'' then
        (case next_states (rm_profile meta) (rm_state meta) e of
           (e, ns) \<Rightarrow> proceed_loop (rm_slug meta) (rm_state meta) now ns e)
      else if policy = ''abort'' then
        (case do_transition (rm_slug meta) ''cancelled'' [OProjectAbandoned True] now e of
           (e, Inr _) \<Rightarrow> e
         | (e, Inl _) \<Rightarrow> fst (do_transition (rm_slug meta) ''archived'' [] now e))
      else if starts_with policy ''default:'' then
        fst (resume_run (rm_slug meta) [(''answer'', drop 8 policy)] now e)
      else e)"

definition entry_time :: "RunMeta \<Rightarrow> AsyncEngine \<Rightarrow> (AsyncEngine \<times> datetime) option" where
  "entry_time meta e = (case dict_get (dict_get_default (entry_times e) (rm_slug meta) []) (rm_state meta) of
       Some t \<Rightarrow> Some (e, t)
     | None \<Rightarrow> (case from_iso (rm_updated_at meta) of
           None \<Rightarrow> None
         | Some c \<Rightarrow> Some (track_entry (rm_slug meta) (rm_state meta) (clock_time c) e, clock_time c)))"

definition timed_out :: "RunMeta \<Rightarrow> StateDefinition \<Rightarrow> clock \<Rightarrow> AsyncEngine \<Rightarrow> AsyncEngine" where
  "timed_out meta sd now e =
     (let e = fire (rm_state meta) ''on_timeout'' (rm_slug meta) e;
          policy = (case hitl sd of None \<Rightarrow> ''proceed'' | Some h \<Rightarrow> hitl_on_timeout h)
      in if state_type sd = PAUSE then
           apply_policy policy meta now
             (fire_callbacks (hitl_callbacks e) (rm_slug meta) (rm_state meta)
               (fire (rm_state meta) ''on_hitl_timeout'' (rm_slug meta) e))
         else (case temporal_on_timeout sd of
             None \<Rightarrow> e
           | Some to \<Rightarrow> if to = [] then e else fst (do_transition (rm_slug meta) to [] now e)))"

definition check_timeout :: "clock \<Rightarrow> RunMeta \<Rightarrow> AsyncEngine \<Rightarrow> AsyncEngine" where
  "check_timeout now meta e =
     (if rm_status meta \<noteq> ''active'' then e
      else case Option.bind (dict_get (profiles e) (rm_profile meta)) pf_machine of
        None \<Rightarrow> e
      | Some sm \<Rightarrow> (case dict_get (states (sm_config sm)) (rm_state meta) of
            None \<Rightarrow> e
          | Some sd \<Rightarrow> (case timeout_seconds sd of
                None \<Rightarrow> e
              | Some limit \<Rightarrow>
                  if limit = 0 then e
                  else (case entry_time meta e of
                      None \<Rightarrow> e
                    | Some (e, entered) \<Rightarrow>
                        if clock_time now - entered > limit * 1000000 then timed_out meta sd now e else e))))"

definition check_timeouts :: "clock \<Rightarrow> AsyncEngine \<Rightarrow> AsyncEngine" where
  "check_timeouts now e = (case list_runs False (run_manager e) of
     Inl _ \<Rightarrow> e | Inr metas \<Rightarrow> fold (check_timeout now) metas e)"

subsection \<open>Health\<close>

text \<open>What the health checker passes on as consecutive failures is the number of all calls.\<close>

definition engine_state :: "(string + rat \<times> rat) \<Rightarrow> AsyncEngine \<Rightarrow> engine_health" where
  "engine_state dsk e = \<lparr>disk = dsk, llm_failures = int (total_llm_calls (cost_tracker (en_budget e))), adapter_failures = 0,
     budget_hard_limit_reached = (case dict_get (limits (en_budget e)) ''total_cost'' of
       None \<Rightarrow> False | Some l \<Rightarrow> hard_exceeded l)\<rparr>"

definition health_check_round :: "(string + rat \<times> rat) \<Rightarrow> datetime \<Rightarrow> AsyncEngine \<Rightarrow> AsyncEngine" where
  "health_check_round dsk now e =
     (let b = (en_budget e)\<lparr>degradation := map_option (evaluate now (engine_state dsk e)) (degradation (en_budget e))\<rparr>;
          ctx = \<lparr>ctx_sm = None, ctx_run = None, ctx_store = None, ctx_cache = None,
            ctx_bus = monitor_bus (en_safety e), ctx_deg = map_option current_level (degradation b)\<rparr>;
          (s, ctx, jobs, vs) = check_all True now ctx (en_safety e)
      in cleanup_state_entries (e\<lparr>en_budget := b, en_safety := s\<lparr>monitor_bus := ctx_bus ctx\<rparr>\<rparr>))"

text \<open>A recorded call of a language model, and an update of the limits, from outside.\<close>

definition with_budget :: "(BudgetEnforcer \<Rightarrow> BudgetEnforcer) \<Rightarrow> AsyncEngine \<Rightarrow> AsyncEngine" where
  "with_budget f e = e\<lparr>en_budget := f (en_budget e)\<rparr>"

subsection \<open>Start and stop\<close>

text \<open>The recovered snapshot is only counted.\<close>

definition start :: "AsyncEngine \<Rightarrow> AsyncEngine" where
  "start e = e\<lparr>running := True, run_manager := fst (recover (run_manager e))\<rparr>"

definition stop :: "AsyncEngine \<Rightarrow> AsyncEngine" where
  "stop e = e\<lparr>running := False, run_manager := compact_wal (load_snapshot (run_manager e)) (run_manager e)\<rparr>"

record health_snapshot =
  hs_running :: bool
  hs_profiles :: "string list"
  hs_degradation :: "DegradationLevel option"
  hs_health_score :: rat
  hs_active_runs :: nat
  hs_total_runs :: nat
  hs_event_stores :: nat
  hs_total_cost :: rat

definition health_snapshot_of :: "AsyncEngine \<Rightarrow> run_error + health_snapshot" where
  "health_snapshot_of e = try_bind (list_runs False (run_manager e)) (\<lambda>rs. Inr
     \<lparr>hs_running = running e, hs_profiles = dict_keys (profiles e),
      hs_degradation = map_option current_level (degradation (en_budget e)), hs_health_score = health_score (en_safety e),
      hs_active_runs = length (filter (\<lambda>r. rm_status r = ''active'') rs), hs_total_runs = length rs,
      hs_event_stores = length (event_stores e), hs_total_cost = of_int (round_half_even (total_usd (cost_tracker (en_budget e)) * 10000)) / 10000\<rparr>)"

subsection \<open>What transitions keep, every operation keeps\<close>

text \<open>
  The operations for paused runs and for timeouts change the engine only by transitions, by the
  counter and the answers in the snapshot, and in parts that a property of the runs does not
  depend on.
\<close>

locale engine_property =
  fixes P :: "AsyncEngine \<Rightarrow> bool"
  assumes P_calls: "P (e\<lparr>calls := cs\<rparr>) = P e"
    and P_entry_times: "P (e\<lparr>entry_times := ts\<rparr>) = P e"
    and P_next_states: "P e \<Longrightarrow> P (fst (next_states n st e))"
    and P_transition: "P e \<Longrightarrow> P (fst (do_transition slug to ovs now e))"
    and P_loops: "P e \<Longrightarrow> P (set_hitl_loops slug (Suc (hitl_loops slug e)) now e)"
    and P_answers: "P e \<Longrightarrow> P (record_answers slug answers now e)"
begin

lemma P_fire: "P (fire st ty slug e) = P e" "P (fire_async st ty slug e) = P e" "P (fire_callbacks cbs slug st e) = P e"
  by (simp_all add: fire_def fire_async_def P_calls)

lemma P_track: "P (track_entry slug st t e) = P e"
  by (simp add: track_entry_def P_entry_times)

lemma P_cleanup: "P (cleanup_state_entries e) = P e"
  by (simp add: cleanup_state_entries_def P_entry_times split: sum.split)

lemma P_transition_eq: "P e \<Longrightarrow> do_transition slug to ovs now e = (e', r) \<Longrightarrow> P e'"
  using P_transition [of e slug to ovs now] by simp

lemma P_hitl: "P e \<Longrightarrow> P (fst (transition_with_hitl slug to answers now e))"
  by (auto simp: transition_with_hitl_def Let_def elim: P_transition_eq
      split: sum.split option.split prod.split)

lemma P_resume: "P e \<Longrightarrow> P (fst (resume_run slug answers now e))"
  by (auto simp: resume_run_def Let_def P_answers P_loops elim!: P_transition_eq [rotated]
      split: sum.split option.split prod.split list.split)

lemma P_proceed: "P e \<Longrightarrow> P (proceed_loop slug cur now ns e)"
proof (induction ns arbitrary: e)
  case (Cons n ns)
  obtain e' r where t: "do_transition slug n [] now e = (e', r)" by fastforce
  then have "P e'" using Cons.prems by (rule P_transition_eq [rotated])
  with Cons t show ?case by (cases r) simp_all
qed simp

lemma P_policy: "P e \<Longrightarrow> P (apply_policy policy meta now e)"
  using P_next_states [of e "rm_profile meta" "rm_state meta"]
  by (auto simp: apply_policy_def P_resume split: prod.split sum.split elim: P_transition_eq intro!: P_proceed P_transition)

lemma P_timed_out: "P e \<Longrightarrow> P (timed_out meta sd now e)"
  by (auto simp: timed_out_def Let_def P_fire intro!: P_policy P_transition split: option.split simp del: fire_callbacks.simps)

lemma P_check_timeout: "P e \<Longrightarrow> P (check_timeout now meta e)"
  by (auto simp: check_timeout_def entry_time_def P_track intro!: P_timed_out split: option.splits)

lemma P_check_timeouts: "P e \<Longrightarrow> P (check_timeouts now e)"
  by (auto simp: check_timeouts_def intro!: fold_invariant [where Q = "\<lambda>_. True"] P_check_timeout split: sum.split)

end

subsection \<open>What a transition changes\<close>

lemma fire_frame [simp]:
  "run_manager (fire st ty s e) = run_manager e" "event_stores (fire st ty s e) = event_stores e"
  "profiles (fire st ty s e) = profiles e" "en_budget (fire st ty s e) = en_budget e"
  by (simp_all add: fire_def)

lemma fire_async_frame [simp]:
  "run_manager (fire_async st ty s e) = run_manager e" "event_stores (fire_async st ty s e) = event_stores e"
  "profiles (fire_async st ty s e) = profiles e" "en_budget (fire_async st ty s e) = en_budget e"
  by (simp_all add: fire_async_def)

lemma track_entry_frame [simp]:
  "run_manager (track_entry s st t e) = run_manager e" "event_stores (track_entry s st t e) = event_stores e"
  "profiles (track_entry s st t e) = profiles e" "en_budget (track_entry s st t e) = en_budget e"
  by (simp_all add: track_entry_def)

lemma record_event_frame [simp]:
  "run_manager (record_event s f to t e) = run_manager e" "profiles (record_event s f to t e) = profiles e"
  "en_budget (record_event s f to t e) = en_budget e"
  by (simp_all add: record_event_def Let_def)

lemma cleanup_frame [simp]:
  "run_manager (cleanup_state_entries e) = run_manager e" "event_stores (cleanup_state_entries e) = event_stores e"
  "profiles (cleanup_state_entries e) = profiles e" "en_budget (cleanup_state_entries e) = en_budget e"
  by (simp_all add: cleanup_state_entries_def split: sum.split)

text \<open>\<open>str\<close> of an enumeration member is never the bare name: a terminal state ends nothing.\<close>

lemma no_cleanup_at_terminal [simp]: "cleanup_if_terminal p to e = e"
proof -
  have "show_state_type st \<notin> {''TERMINAL'', ''terminal''}" for st by (cases st) simp_all
  then show ?thesis by (simp add: cleanup_if_terminal_def split: option.split)
qed

lemma record_drift_frame [simp]:
  "run_manager (record_drift s to p e) = run_manager e" "event_stores (record_drift s to p e) = event_stores e"
  "profiles (record_drift s to p e) = profiles e" "en_budget (record_drift s to p e) = en_budget e"
  by (simp_all add: record_drift_def)

lemma plan_for_frame [simp]:
  "run_manager (fst (plan_for msg e)) = run_manager e" "event_stores (fst (plan_for msg e)) = event_stores e"
  "profiles (fst (plan_for msg e)) = profiles e" "en_budget (fst (plan_for msg e)) = en_budget e"
  by (simp_all add: plan_for_def split: prod.split)

text \<open>The drift count of a new runtime state is zero, so the second check never plans anything.\<close>

lemma no_drift_escalation [simp]: "check_drift_escalation slug to t e = (e, None)"
  by (simp add: check_drift_escalation_def Let_def new_runtime_def split: sum.split option.split)

lemma auto_remediation_frame:
  "event_stores (fst (check_auto_remediation s f to t e)) = event_stores e"
  "profiles (fst (check_auto_remediation s f to t e)) = profiles e"
  "en_budget (fst (check_auto_remediation s f to t e)) = en_budget e"
  "run_manager (fst (check_auto_remediation s f to t e)) \<in>
     {run_manager e, update_snapshot s (empty_snap\<lparr>sn_rejection_count := Some (rejections s e + 1)\<rparr>) (run_manager e)}"
  by (auto simp: check_auto_remediation_def Let_def case_prod_unfold split: option.split)

lemma do_transition_effect:
  assumes "do_transition slug to ovs now e = (e', r)"
  shows "en_budget e' = en_budget e \<and> profiles e' = profiles e \<and>
    ((\<exists>err. r = Inl err) \<and> run_manager e' = run_manager e \<and> event_stores e' = event_stores e \<or>
     (\<exists>run0 p m run n. get_run slug (clock_time now) (run_manager e) = Inr (Some run0) \<and>
        dict_get (profiles e) (rm_profile (run_meta run0)) = Some p \<and> r = Inr run \<and>
        update_state slug to (Some p) ovs now (clock_time now) (run_manager e) = (m, Inr run) \<and>
        event_stores e' = event_stores (record_event slug (rm_state (run_meta run0)) to (clock_time now) e) \<and>
        run_manager e' \<in> {m, update_snapshot slug (empty_snap\<lparr>sn_rejection_count := Some n\<rparr>) m}))"
proof -
  let ?t = "clock_time now"
  show ?thesis
  proof (cases "\<exists>run0 p. get_run slug ?t (run_manager e) = Inr (Some run0) \<and> dict_get (profiles e) (rm_profile (run_meta run0)) = Some p")
    case False
    then show ?thesis
      using assms by (auto simp: do_transition_def Let_def split: sum.splits option.splits)
  next
    case True
    then obtain run0 p where g: "get_run slug ?t (run_manager e) = Inr (Some run0)"
      "dict_get (profiles e) (rm_profile (run_meta run0)) = Some p" by blast
    obtain m u where u: "update_state slug to (Some p) ovs now ?t (run_manager e) = (m, u)" by fastforce
    show ?thesis
    proof (cases u)
      case (Inl err)
      then have "m = run_manager e"
        using update_state_effect [of slug to "Some p" ovs now ?t "run_manager e"] u by simp
      then show ?thesis
        using assms g u Inl by (auto simp: do_transition_def Let_def)
    next
      case (Inr run)
      let ?f = "rm_state (run_meta run0)"
      let ?e1 = "fire to ''on_enter'' (rm_slug (run_meta run)) (track_entry slug to ?t
        (record_event slug ?f to ?t ((fire ?f ''on_exit'' (rm_slug (run_meta run0)) e)\<lparr>run_manager := m\<rparr>)))"
      obtain e2 pl where a: "check_auto_remediation slug ?f to ?t ?e1 = (e2, pl)" by fastforce
      have e': "e' = (case pl of None \<Rightarrow> e2 | Some x \<Rightarrow> record_drift slug to (signature_name x) e2)" "r = Inr run"
        using assms g u Inr a by (simp_all add: do_transition_def Let_def)
      have s: "event_stores (record_event slug ?f to ?t ((fire ?f ''on_exit'' (rm_slug (run_meta run0)) e)\<lparr>run_manager := m\<rparr>)) =
          event_stores (record_event slug ?f to ?t e)"
        by (simp add: record_event_def get_event_store_def Let_def)
      have "en_budget e' = en_budget e" "profiles e' = profiles e"
        "event_stores e' = event_stores (record_event slug ?f to ?t e)"
        "run_manager e' = run_manager e2"
        using auto_remediation_frame(1-3) [of slug ?f to ?t ?e1] a s
        by (simp_all add: e' split: option.split)
      moreover obtain n where "run_manager e2 \<in> {m, update_snapshot slug (empty_snap\<lparr>sn_rejection_count := Some n\<rparr>) m}"
        using auto_remediation_frame(4) [of slug ?f to ?t ?e1] a by auto
      ultimately show ?thesis using g u Inr e'(2)
        by (intro conjI disjI2 exI [of _ run0] exI [of _ p] exI [of _ m] exI [of _ run] exI [of _ n]) simp_all
    qed
  qed
qed

subsection \<open>Histories of the engine\<close>

datatype engine_op =
    CreateRun string string string clock
  | CreateRunAsync string string string clock
  | Transition string string "override list" clock
  | HitlTransition string string "(string, string) dict" clock
  | Resume string "(string, string) dict" clock
  | Timeouts clock
  | Health "string + rat \<times> rat" datetime
  | LlmCall datetime string int int string string bool
  | UpdateLimits
  | ArchiveRun string clock clock
  | AddHook string string string
  | AddCallback string
  | Start
  | Stop

fun engine_step :: "engine_op \<Rightarrow> AsyncEngine \<Rightarrow> AsyncEngine" where
  "engine_step (CreateRun name title slug now) e = fst (create_run_sync name title slug now e)"
| "engine_step (CreateRunAsync name title slug now) e = fst (create_run_async name title slug now e)"
| "engine_step (Transition slug to ovs now) e = fst (do_transition slug to ovs now e)"
| "engine_step (HitlTransition slug to answers now) e = fst (transition_with_hitl slug to answers now e)"
| "engine_step (Resume slug answers now) e = fst (resume_run slug answers now e)"
| "engine_step (Timeouts now) e = check_timeouts now e"
| "engine_step (Health dsk now) e = health_check_round dsk now e"
| "engine_step (LlmCall now model inp out pur val w) e =
     with_budget (\<lambda>b. b\<lparr>cost_tracker := fst (record_llm now model inp out pur val w (cost_tracker b))\<rparr>) e"
| "engine_step UpdateLimits e = with_budget update_from_tracker e"
| "engine_step (ArchiveRun slug now now') e = e\<lparr>run_manager := fst (archive_run slug now now' (run_manager e))\<rparr>"
| "engine_step (AddHook st ty h) e =
     (case register_hook st ty h (en_hooks e) of Inl _ \<Rightarrow> e | Inr hs \<Rightarrow> e\<lparr>en_hooks := hs\<rparr>)"
| "engine_step (AddCallback cb) e = e\<lparr>hitl_callbacks := hitl_callbacks e @ [cb]\<rparr>"
| "engine_step Start e = start e"
| "engine_step Stop e = stop e"

lemma next_states_frame [simp]:
  "run_manager (fst (next_states n st e)) = run_manager e" "event_stores (fst (next_states n st e)) = event_stores e"
  "en_budget (fst (next_states n st e)) = en_budget e"
  by (simp_all add: next_states_def split: option.split prod.split)

lemma health_frame:
  "run_manager (health_check_round dsk now e) = run_manager e" "event_stores (health_check_round dsk now e) = event_stores e"
  "profiles (health_check_round dsk now e) = profiles e"
  "en_budget (health_check_round dsk now e) =
     (en_budget e)\<lparr>degradation := map_option (evaluate now (engine_state dsk e)) (degradation (en_budget e))\<rparr>"
  by (simp_all add: health_check_round_def Let_def case_prod_unfold)

lemma create_run_async_frame:
  "run_manager (fst (create_run_async name title slug now e)) = run_manager (fst (create_run_sync name title slug now e))"
  "event_stores (fst (create_run_async name title slug now e)) = event_stores (fst (create_run_sync name title slug now e))"
  "profiles (fst (create_run_async name title slug now e)) = profiles (fst (create_run_sync name title slug now e))"
  "en_budget (fst (create_run_async name title slug now e)) = en_budget (fst (create_run_sync name title slug now e))"
  by (simp_all add: create_run_async_def split: prod.split sum.split)

lemma create_sync_frame:
  "profiles (fst (create_run_sync name title slug now e)) = profiles e"
  "en_budget (fst (create_run_sync name title slug now e)) = en_budget e"
  by (simp_all add: create_run_sync_def Let_def split: option.split prod.split sum.split)

subsection \<open>Calls of the language model count as failures\<close>

interpretation budget_kept: engine_property "\<lambda>e. en_budget e = b" for b
proof unfold_locales
  fix e slug to ovs now
  show "en_budget e = b \<Longrightarrow> en_budget (fst (do_transition slug to ovs now e)) = b"
    using do_transition_effect [of slug to ovs now e] by (cases "do_transition slug to ovs now e") auto
qed (simp_all add: set_hitl_loops_def record_answers_def)

text \<open>The tracker has at least \<open>n\<close> calls, and the thresholds are the default ones.\<close>

definition calls_recorded :: "nat \<Rightarrow> AsyncEngine \<Rightarrow> bool" where
  "calls_recorded n e \<longleftrightarrow> n \<le> total_llm_calls (cost_tracker (en_budget e)) \<and>
     (\<exists>m. degradation (en_budget e) = Some m \<and> max_llm_failures (thresholds m) = 3)"

lemma calls_recorded_cong: "en_budget e' = en_budget e \<Longrightarrow> calls_recorded n e' = calls_recorded n e"
  by (simp add: calls_recorded_def)

lemma evaluate_thresholds [simp]: "thresholds (evaluate now h m) = thresholds m"
  by (simp add: evaluate_def check_health_def transition_to_def Let_def)

lemma calls_recorded_step: "calls_recorded n e \<Longrightarrow> calls_recorded n (engine_step op e)"
proof (cases op)
  case (LlmCall now model inp out pur val w)
  then show "calls_recorded n e \<Longrightarrow> ?thesis"
    by (auto simp: calls_recorded_def with_budget_def record_llm_def total_llm_calls_def Let_def)
next
  case (HitlTransition slug to answers now)
  then show "calls_recorded n e \<Longrightarrow> ?thesis"
    using calls_recorded_cong [OF budget_kept.P_hitl [OF refl]] by simp
next
  case (Resume slug answers now)
  then show "calls_recorded n e \<Longrightarrow> ?thesis"
    using calls_recorded_cong [OF budget_kept.P_resume [OF refl]] by simp
next
  case (Timeouts now)
  then show "calls_recorded n e \<Longrightarrow> ?thesis"
    using calls_recorded_cong [OF budget_kept.P_check_timeouts [OF refl]] by simp
next
  case (Transition slug to ovs now)
  then show "calls_recorded n e \<Longrightarrow> ?thesis"
    using calls_recorded_cong [OF budget_kept.P_transition [OF refl]] by simp
qed (auto simp: calls_recorded_def health_frame create_run_async_frame create_sync_frame start_def stop_def
    with_budget_def update_from_tracker_def Let_def split: sum.split)

interpretation calls: invariant_system engine_step "calls_recorded n" for n
  by unfold_locales (rule calls_recorded_step)

lemma init_calls_recorded: "calls_recorded 0 (init_engine cfg ps)"
  by (simp add: calls_recorded_def init_engine_def configure_def init_enforcer_def init_degradation_def)

lemma evaluate_failing:
  assumes "max_llm_failures (thresholds m) \<le> llm_failures h"
  shows "current_level (evaluate now h m) \<noteq> FULL"
proof -
  let ?m = "fst (check_health now h m)"
  have f: "failed_named {''llm_api'', ''remote_adapters''} (filter (\<lambda>c. \<not> hc_passed c) (snd (check_health now h m)))"
      "filter (\<lambda>c. \<not> hc_passed c) (snd (check_health now h m)) \<noteq> []"
    using assms by (simp_all add: check_health_def check_llm_api_def failures_check_def failed_named_def)
  have "next_level (current_level m) (filter (\<lambda>c. \<not> hc_passed c) (snd (check_health now h m))) \<noteq> FULL"
    using f by (cases "current_level m") auto
  moreover have "current_level ?m = current_level m" by (simp add: check_health_def)
  ultimately show ?thesis
    by (auto simp: evaluate_def case_prod_unfold Let_def transition_to_def)
qed

text \<open>The health check takes every call of a language model for a failure: once three calls have been
recorded, successful ones included, the engine is degraded by the next health check, and no later health check
finds it at full level again, whatever happens in between, up to a new start of the process.\<close>

theorem calls_degrade_engine:
  assumes "3 \<le> total_llm_calls (cost_tracker (en_budget (fold engine_step before (init_engine cfg ps))))"
  shows "\<exists>m. degradation (en_budget (engine_step (Health dsk now)
      (fold engine_step after (fold engine_step before (init_engine cfg ps))))) = Some m \<and> current_level m \<noteq> FULL"
proof -
  let ?e = "fold engine_step before (init_engine cfg ps)"
  have "calls_recorded 0 ?e" using init_calls_recorded by (rule calls.inv_run)
  with assms have "calls_recorded 3 ?e" by (simp add: calls_recorded_def)
  then have "calls_recorded 3 (fold engine_step after ?e)" by (rule calls.inv_run)
  then obtain m where "degradation (en_budget (fold engine_step after ?e)) = Some m" "max_llm_failures (thresholds m) = 3"
    "3 \<le> total_llm_calls (cost_tracker (en_budget (fold engine_step after ?e)))"
    by (auto simp: calls_recorded_def)
  then show ?thesis
    by (simp add: health_frame evaluate_failing engine_state_def)
qed

theorem calls_degrade_engine_witness:
  "map_option current_level (degradation (en_budget (engine_step (Health (Inr (1, 2)) 9)
     (fold engine_step (replicate 3 (LlmCall 0 ''m'' 1 1 ''p'' ''v'' False)) (init_engine (budget_config.make None None None None) []))))) \<noteq> Some FULL"
proof -
  have "\<exists>m. degradation (en_budget (engine_step (Health (Inr (1, 2)) 9)
      (fold engine_step [] (fold engine_step (replicate 3 (LlmCall 0 ''m'' 1 1 ''p'' ''v'' False))
        (init_engine (budget_config.make None None None None) []))))) = Some m \<and> current_level m \<noteq> FULL"
    by (rule calls_degrade_engine)
      (simp add: init_engine_def configure_def init_enforcer_def init_tracker_def with_budget_def record_llm_def
        total_llm_calls_def Let_def numeral_3_eq_3)
  then show ?thesis by auto
qed

subsection \<open>The guard against loops of questions\<close>

definition loops_in :: "RunManager \<Rightarrow> string \<Rightarrow> nat" where
  "loops_in m slug = (case snap_field sn_hitl_loop_count (load_snapshot m) slug of None \<Rightarrow> 0 | Some n \<Rightarrow> n)"

lemma hitl_loops_in: "hitl_loops slug e = loops_in (run_manager e) slug"
  by (simp add: hitl_loops_def loops_in_def snap_field_def split: option.split)

lemma overlaid_loops: "overlaid sn_hitl_loop_count"
  by (simp add: overlaid_def snap_update_def empty_snap_def)

lemma loops_in_update:
  "loops_in (update_snapshot slug d m) s =
     (case sn_hitl_loop_count d of Some n \<Rightarrow> if s = slug then n else loops_in m s | None \<Rightarrow> loops_in m s)"
  by (simp add: loops_in_def load_update_snapshot snap_field_put [OF overlaid_loops] split: option.split)

lemma loops_in_cong [simp]:
  "loops_in (m\<lparr>active := a\<rparr>) s = loops_in m s" "loops_in (append_wal now en m) s = loops_in m s"
  "loops_in (m\<lparr>archive := a\<rparr>) s = loops_in m s" "loops_in (m\<lparr>wal := w\<rparr>) s = loops_in m s"
  by (simp_all add: loops_in_def load_snapshot_def append_wal_def)

lemma loops_in_ops [simp]:
  "loops_in (fst (create_run title p slug now t m)) s = loops_in m s"
  "loops_in (fst (archive_run slug now now' m)) s = loops_in m s"
  "loops_in (fst (recover m)) s = loops_in m s" "loops_in (compact_wal sn m) s = loops_in m s"
proof -
  show "loops_in (fst (create_run title p slug now t m)) s = loops_in m s"
    using create_run_cases [of title p slug now t m] by (auto simp: loops_in_update)
  have c: "loops_in (compact_wal sn m) s = loops_in m s" for sn
    by (simp add: compact_wal_def split: list.split)
  then show "loops_in (compact_wal sn m) s = loops_in m s" .
  show "loops_in (fst (recover m)) s = loops_in m s"
    by (simp add: recover_def Let_def c)
  show "loops_in (fst (archive_run slug now now' m)) s = loops_in m s"
    by (simp add: archive_run_def Let_def loops_in_update split: option.split)
qed

lemma loops_in_update_state:
  assumes "update_state slug to p ov now t m = (m', Inr run)"
  shows "loops_in m' s = loops_in m s"
  using update_state_logs [of slug to p ov now t m run] assms by (auto simp: loops_in_update)

lemma hitl_loops_transition: "hitl_loops s (fst (do_transition slug to ovs now e)) = hitl_loops s e"
proof -
  obtain e' r where e': "do_transition slug to ovs now e = (e', r)" by fastforce
  show ?thesis
    using do_transition_effect [OF e']
    by (auto simp: e' hitl_loops_in loops_in_update empty_snap_def dest: loops_in_update_state)
qed

interpretation loops: engine_property "\<lambda>e. n \<le> hitl_loops s e" for n s
  by unfold_locales
    (auto simp: hitl_loops_transition [unfolded hitl_loops_in] hitl_loops_in loops_in_update set_hitl_loops_def record_answers_def empty_snap_def)

lemma create_sync_loops: "hitl_loops s (fst (create_run_sync name title slug now e)) = hitl_loops s e"
proof (cases "dict_get (profiles e) name")
  case (Some p)
  obtain m r where c: "create_run title p slug now (clock_time now) (run_manager e) = (m, r)" by fastforce
  have "loops_in m s = loops_in (run_manager e) s"
    using loops_in_ops(1) [of title p slug now "clock_time now" "run_manager e" s] by (simp only: c fst_conv)
  then show ?thesis
    by (simp add: create_run_sync_def Some c Let_def hitl_loops_in split: sum.split)
qed (simp add: create_run_sync_def)

lemma hitl_loops_step: "hitl_loops s e \<le> hitl_loops s (engine_step op e)"
proof (cases op)
  case (HitlTransition slug to answers now)
  then show ?thesis by (simp add: loops.P_hitl)
next
  case (Resume slug answers now)
  then show ?thesis by (simp add: loops.P_resume)
next
  case (Timeouts now)
  then show ?thesis by (simp add: loops.P_check_timeouts)
next
  case (CreateRun name title slug now)
  then show ?thesis by (simp add: create_sync_loops)
next
  case (CreateRunAsync name title slug now)
  then show ?thesis using create_sync_loops [of s name title slug now e] by (simp add: hitl_loops_in create_run_async_frame)
qed (simp_all add: hitl_loops_transition, simp_all add: hitl_loops_in health_frame with_budget_def start_def stop_def
    split: sum.split)

interpretation loops_grow: monotone_system engine_step "\<lambda>_. True" "hitl_loops s" for s
  by unfold_locales (simp_all add: hitl_loops_step)

text \<open>The guard against loops of questions never opens again: once a slug has counted five resumed
pauses, whatever happens in between (a new run under the same slug included), a transition of it is
never answered with questions any more, although the run does stop at pause states.\<close>

theorem loop_guard_permanent:
  assumes "max_hitl_loop \<le> hitl_loops slug e"
  shows "\<nexists>st qs t. snd (transition_with_hitl slug to answers now (fold engine_step ops e)) = Inr (HitlAwaiting st qs t)"
proof -
  let ?e = "fold engine_step ops e"
  have l: "max_hitl_loop \<le> hitl_loops slug ?e"
    by (rule order_trans [OF assms loops_grow.level_run]) simp
  show ?thesis
  proof (cases "get_run slug (clock_time now) (run_manager ?e)")
    case (Inr b)
    show ?thesis
    proof (cases b)
      case None
      with Inr show ?thesis by (simp add: transition_with_hitl_def do_transition_def Let_def)
    next
      case (Some run)
      with Inr l show ?thesis
        by (auto simp: transition_with_hitl_def Let_def split: prod.split sum.split option.split)
    qed
  qed (simp add: transition_with_hitl_def)
qed

theorem loop_guard_permanent_witness:
  "\<nexists>st qs t. snd (transition_with_hitl ''r'' ''review'' [] demo_clock (fold engine_step
     [CreateRun ''demo'' ''t'' ''r'' demo_clock, Timeouts demo_clock]
     (set_hitl_loops ''r'' 5 demo_clock (init_engine (budget_config.make None None None None) [(''demo'', demo_profile)])))) =
   Inr (HitlAwaiting st qs t)"
  by (rule loop_guard_permanent)
    (simp add: hitl_loops_def set_hitl_loops_def update_snapshot_def load_snapshot_def put_snap_def init_engine_def
      new_manager_def max_hitl_loop_def)

subsection \<open>The event log of a run and its state\<close>

definition event_edge :: "Event \<Rightarrow> string \<times> string" where
  "event_edge ev = (case ev_data ev of
     PlainData v p d \<Rightarrow> (dict_get_default d ''from'' [], dict_get_default d ''to'' []) | SummaryData s \<Rightarrow> ([], []))"

text \<open>Where a list of transitions ends: each starts where the one before ended, or is a creation.\<close>

fun path_end :: "string \<Rightarrow> (string \<times> string) list \<Rightarrow> string option" where
  "path_end cur [] = Some cur"
| "path_end cur ((f, t) # ps) = (if f = cur \<or> f = [] then path_end t ps else None)"

lemma path_end_snoc:
  "path_end cur (ps @ [(f, t)]) = (case path_end cur ps of None \<Rightarrow> None | Some c \<Rightarrow> if f = c \<or> f = [] then Some t else None)"
  by (induction cur ps rule: path_end.induct) auto

text \<open>Names that the metadata file keeps.\<close>

definition profile_clean :: "run_profile \<Rightarrow> bool" where
  "profile_clean p \<longleftrightarrow> clean (pf_name p) \<and> (case pf_machine p of None \<Rightarrow> False
     | Some sm \<Rightarrow> list_all (\<lambda>(n, s). clean n \<and> clean (sd_name s)) (states (sm_config sm)))"

definition profiles_clean :: "(string, run_profile) dict \<Rightarrow> bool" where
  "profiles_clean ps \<longleftrightarrow> list_all profile_clean (dict_values ps)"

definition slug_logged :: "string \<Rightarrow> AsyncEngine \<Rightarrow> bool" where
  "slug_logged slug e \<longleftrightarrow> store_inv (get_event_store slug e) \<and>
     (\<exists>cur. path_end [] (map event_edge (snd (snd (store_view (get_event_store slug e))))) = Some cur \<and>
       (\<forall>c. dict_get (active (run_manager e)) slug = Some c \<longrightarrow>
          (\<exists>meta. c = Some (write_meta meta) \<and> meta_clean meta \<and> rm_slug meta = slug \<and> rm_state meta = cur)))"

definition runs_logged :: "AsyncEngine \<Rightarrow> bool" where
  "runs_logged e \<longleftrightarrow> profiles_clean (profiles e) \<and> (\<forall>slug. slug_logged slug e)"

lemma runs_logged_cong:
  "active (run_manager e') = active (run_manager e) \<Longrightarrow> event_stores e' = event_stores e \<Longrightarrow>
     profiles_clean (profiles e') = profiles_clean (profiles e) \<Longrightarrow> runs_logged e' = runs_logged e"
  by (simp add: runs_logged_def slug_logged_def get_event_store_def)

lemma set_dict_set_subset: "set (dict_set k v d) \<subseteq> insert (k, v) (set d)"
  by (induction d) auto

lemma profiles_clean_next: "profiles_clean (profiles e) \<Longrightarrow> profiles_clean (profiles (fst (next_states n st e)))"
proof (cases "dict_get (profiles e) n")
  case (Some p)
  assume c: "profiles_clean (profiles e)"
  show ?thesis
  proof (cases "pf_machine p")
    case None
    with c Some show ?thesis by (simp add: next_states_def)
  next
    case m: (Some sm)
    have cfg: "sm_config (snd (get_next_states st sm)) = sm_config sm"
      by (simp add: get_next_states_def Let_def move_to_end_def store_entry_def split: option.split)
    have "profile_clean p" using c Some by (auto simp: profiles_clean_def list_all_iff dest!: map_of_SomeD)
    then have "profile_clean (p\<lparr>pf_machine := Some (snd (get_next_states st sm))\<rparr>)"
      by (simp add: profile_clean_def m cfg)
    with c show ?thesis
      using set_dict_set_subset [of n "p\<lparr>pf_machine := Some (snd (get_next_states st sm))\<rparr>" "profiles e"]
      by (auto simp: next_states_def Some m case_prod_unfold profiles_clean_def list_all_iff)
  qed
qed (simp add: next_states_def)

lemma event_store_record:
  "get_event_store s (record_event slug f to t e) =
     (if s = slug then snd (append_event (from_transition (last_sequence (get_event_store slug e) + 1) slug f to t)
        (get_event_store slug e)) else get_event_store s e)"
  by (simp add: record_event_def Let_def) (simp add: get_event_store_def)

lemma event_edge_transition [simp]: "event_edge ((from_transition n slug f to t)\<lparr>sequence := k\<rparr>) = (f, to)"
  by (simp add: event_edge_def from_transition_def plain_event_def dict_get_default_def)

lemma record_event_log:
  assumes "store_inv (get_event_store slug e)"
  shows "store_inv (get_event_store slug (record_event slug f to t e))"
    and "map event_edge (snd (snd (store_view (get_event_store slug (record_event slug f to t e))))) =
      map event_edge (snd (snd (store_view (get_event_store slug e)))) @ [(f, to)]"
proof -
  let ?ev = "from_transition (last_sequence (get_event_store slug e) + 1) slug f to t"
  have "event_type_of (event_type ?ev) \<noteq> None" by (simp add: from_transition_def plain_event_def del: event_type_value.simps)
  note a = append_event_refines [OF assms this]
  then show "store_inv (get_event_store slug (record_event slug f to t e))"
    by (simp add: event_store_record)
  show "map event_edge (snd (snd (store_view (get_event_store slug (record_event slug f to t e))))) =
      map event_edge (snd (snd (store_view (get_event_store slug e)))) @ [(f, to)]"
    using a by (simp add: event_store_record log_append_def case_prod_unfold)
qed

lemma allowed_target_clean:
  assumes "check_transition (Some p) ov meta i to t = Inr ()" and "profile_clean p"
  shows "clean to"
proof -
  obtain sm where sm: "pf_machine p = Some sm"
      "list_all (\<lambda>(n, s). clean n \<and> clean (sd_name s)) (states (sm_config sm))"
    using assms(2) by (auto simp: profile_clean_def split: option.splits)
  have "\<exists>x. find_transition sm (rm_state meta) to = Inr x"
    using assms(1) sm(1)
    by (auto simp: check_transition_def Let_def split: prod.splits bool.splits dest!: can_transition_allowed)
  then obtain s where "dict_get (states (sm_config sm)) to = Some s"
    by (auto simp: find_transition_def split: option.splits)
  then show ?thesis using sm(2) by (auto simp: list_all_iff dest!: map_of_SomeD)
qed

lemma write_meta_inject:
  assumes "meta_clean m" and "meta_clean m'" and "write_meta m = write_meta m'"
  shows "m = m'"
proof -
  have "Inr (Some m) = (Inr (Some m') :: run_error + RunMeta option)"
    using read_write_meta [OF assms(1), of "[]"] read_write_meta [OF assms(2), of "[]"] unfolding assms(3) by metis
  then show ?thesis by simp
qed

text \<open>A step that appends the edge from the old state and writes the new one.\<close>

lemma slug_logged_record:
  assumes "slug_logged slug e" and "event_stores e' = event_stores (record_event slug f to t e)"
    and "dict_get (active (run_manager e')) slug = Some (Some (write_meta meta))"
    and "meta_clean meta" and "rm_slug meta = slug" and "rm_state meta = to"
    and "f = [] \<or> (\<exists>meta0. dict_get (active (run_manager e)) slug = Some (Some (write_meta meta0)) \<and>
       meta_clean meta0 \<and> f = rm_state meta0)"
  shows "slug_logged slug e'"
proof -
  obtain cur where inv: "store_inv (get_event_store slug e)"
    and p: "path_end [] (map event_edge (snd (snd (store_view (get_event_store slug e))))) = Some cur"
    and c: "\<And>c. dict_get (active (run_manager e)) slug = Some c \<Longrightarrow>
          \<exists>meta. c = Some (write_meta meta) \<and> meta_clean meta \<and> rm_slug meta = slug \<and> rm_state meta = cur"
    using assms(1) unfolding slug_logged_def by blast
  have s: "get_event_store slug e' = get_event_store slug (record_event slug f to t e)"
    by (simp add: get_event_store_def assms(2))
  have "f = [] \<or> f = cur"
    using assms(7)
  proof
    assume "\<exists>meta0. dict_get (active (run_manager e)) slug = Some (Some (write_meta meta0)) \<and> meta_clean meta0 \<and> f = rm_state meta0"
    then obtain meta0 where m0: "dict_get (active (run_manager e)) slug = Some (Some (write_meta meta0))"
      "meta_clean meta0" "f = rm_state meta0" by blast
    from c [OF m0(1)] obtain meta1 where "write_meta meta0 = write_meta meta1" "meta_clean meta1" "rm_state meta1 = cur"
      by (metis option.inject)
    then have "meta0 = meta1" using write_meta_inject [OF m0(2)] by blast
    with m0(3) \<open>rm_state meta1 = cur\<close> show ?thesis by simp
  qed simp
  then have "path_end [] (map event_edge (snd (snd (store_view (get_event_store slug e'))))) = Some to"
    unfolding s record_event_log(2) [OF inv] path_end_snoc p option.case by presburger
  moreover have "store_inv (get_event_store slug e')"
    unfolding s by (rule record_event_log(1) [OF inv])
  ultimately show ?thesis
    unfolding slug_logged_def assms(3) using assms(4-6) by blast
qed

lemma slug_logged_other:
  assumes "slug_logged s e" and "s \<noteq> slug" and "event_stores e' = event_stores (record_event slug f to t e)"
    and "dict_get (active (run_manager e')) s = dict_get (active (run_manager e)) s"
  shows "slug_logged s e'"
proof -
  have "get_event_store s e' = get_event_store s (record_event slug f to t e)"
    by (simp add: get_event_store_def assms(3))
  also have "\<dots> = get_event_store s e" using assms(2) by (simp add: event_store_record)
  finally show ?thesis using assms(1) unfolding slug_logged_def assms(4) by simp
qed

lemma runs_logged_transition:
  assumes inv: "runs_logged e"
  shows "runs_logged (fst (do_transition slug to ovs now e))"
proof -
  obtain e' r where e': "do_transition slug to ovs now e = (e', r)" by fastforce
  note eff = do_transition_effect [OF e']
  show ?thesis
  proof (cases r)
    case (Inl err)
    then show ?thesis using eff inv by (simp add: e' runs_logged_cong [of e' e])
  next
    case (Inr run)
    then obtain run0 p m n where g: "get_run slug (clock_time now) (run_manager e) = Inr (Some run0)"
      "dict_get (profiles e) (rm_profile (run_meta run0)) = Some p"
      "update_state slug to (Some p) ovs now (clock_time now) (run_manager e) = (m, Inr run)"
      and s: "event_stores e' = event_stores (record_event slug (rm_state (run_meta run0)) to (clock_time now) e)"
      and m: "run_manager e' \<in> {m, update_snapshot slug (empty_snap\<lparr>sn_rejection_count := Some n\<rparr>) m}"
      using eff by auto
    have act: "active (run_manager e') = active m" using m by (auto simp: update_snapshot_def)
    obtain c meta0 where c: "dict_get (active (run_manager e)) slug = Some c" "read_meta slug c = Inr (Some meta0)"
      and u: "\<exists>i. check_transition (Some p) ovs meta0 i to (clock_time now) = Inr ()"
        "active m = dict_set slug (Some (write_meta (run_meta run))) (active (run_manager e))"
      and meta: "\<exists>i v. run_meta run = meta0\<lparr>rm_state := to, rm_version := v, rm_iteration_count := i, rm_updated_at := iso now\<rparr>"
      using update_state_effect [of slug to "Some p" ovs now "clock_time now" "run_manager e"] g(3)
      by (auto simp: split_beta Let_def)
    have pc: "profile_clean p"
      using inv g(2) by (auto simp: runs_logged_def profiles_clean_def list_all_iff dest!: map_of_SomeD)
    have sl: "slug_logged slug e" using inv by (simp add: runs_logged_def)
    then obtain meta1 where c1: "c = Some (write_meta meta1)" "meta_clean meta1" "rm_slug meta1 = slug"
      using c(1) unfolding slug_logged_def by blast
    have m0: "meta0 = meta1" using c(2) read_write_meta [OF c1(2), of slug] by (simp add: c1(1))
    have "run_meta run0 = meta0"
      using g(1) c by (auto simp: get_run_def)
    then have f: "rm_state (run_meta run0) = rm_state meta1" by (simp add: m0)
    have "clean to" using u(1) pc allowed_target_clean by blast
    then have new: "meta_clean (run_meta run)" "rm_slug (run_meta run) = slug" "rm_state (run_meta run) = to"
      using meta c1(2,3) clean_iso [of now] by (auto simp: m0 meta_clean_def)
    have "slug_logged slug e'"
      by (rule slug_logged_record [OF sl s _ new])
        (use c(1) c1 in \<open>auto simp: act u(2) f\<close>)
    moreover have "slug_logged s e'" if "s \<noteq> slug" for s
      by (rule slug_logged_other [OF _ that s]) (use inv that in \<open>simp_all add: runs_logged_def act u(2)\<close>)
    ultimately have "\<forall>s. slug_logged s e'" by metis
    then show ?thesis using inv eff by (simp add: e' runs_logged_def)
  qed
qed

interpretation logged: engine_property runs_logged
proof unfold_locales
  fix n st and e :: AsyncEngine
  show "runs_logged e \<Longrightarrow> runs_logged (fst (next_states n st e))"
    using profiles_clean_next [of e n st] by (simp add: runs_logged_def slug_logged_def get_event_store_def)
qed (simp_all add: runs_logged_transition, simp_all add: runs_logged_def slug_logged_def get_event_store_def
    set_hitl_loops_def record_answers_def update_snapshot_def)

subsection \<open>Creation\<close>

lemma clean_slugify: "clean (slugify x now)"
proof (rule no_space_clean)
  fix c assume "c \<in> set (slugify x now)"
  then have "lower_alnum c \<or> c = CHR ''-''" using slugify_safe [of x now] by (simp add: list_all_iff)
  then show "is_ascii c \<and> \<not> is_space c" by (auto simp: lower_alnum_def is_space_def is_ascii_def Let_def)
qed

lemma create_run_result:
  assumes "create_run title p slug0 now t m = (m', Inr run)" and "profile_clean p" and "clean title" and "clean slug0"
  shows "let slug = rm_slug (run_meta run) in meta_clean (run_meta run) \<and>
    (dict_get (active m) slug = None \<or> dict_get (active m) slug = Some None) \<and>
    active m' = dict_set slug (Some (write_meta (run_meta run))) (active m)"
proof -
  let ?slug = "if slug0 = [] then slugify title now else slug0"
  obtain sm where sm: "pf_machine p = Some sm"
      "list_all (\<lambda>(n, s). clean n \<and> clean (sd_name s)) (states (sm_config sm))"
    using assms(2) by (auto simp: profile_clean_def split: option.splits)
  obtain s0 ss where s0: "initial_states (sm_config sm) = s0 # ss"
      and free: "dict_get (active m) ?slug = None \<or> dict_get (active m) ?slug = Some None"
    using assms(1) by (auto simp: create_run_def sm(1) Let_def split: list.splits if_splits)
  have "s0 \<in> set (initial_states (sm_config sm))" by (simp add: s0)
  then have "clean (sd_name s0)" using sm(2) by (auto simp: initial_states_def list_all_iff)
  moreover have "clean ?slug" "?slug \<noteq> []" using assms(4) clean_slugify slugify_safe [of title now] by auto
  moreover have "clean ''active''" by code_simp
  ultimately show ?thesis
    using assms free clean_iso [of now]
    by (auto simp: create_run_def sm(1) s0 Let_def meta_clean_def profile_clean_def update_snapshot_def append_wal_def
       )
qed

lemma runs_logged_create:
  assumes inv: "runs_logged e" and t: "clean title" and sl: "clean slug0"
  shows "runs_logged (fst (create_run_sync name title slug0 now e))"
proof (cases "dict_get (profiles e) name")
  case None
  with inv show ?thesis by (simp add: create_run_sync_def)
next
  case (Some p)
  obtain m r where c: "create_run title p slug0 now (clock_time now) (run_manager e) = (m, r)" by fastforce
  show ?thesis
  proof (cases r)
    case (Inl err)
    then have "m = run_manager e"
      using create_run_cases [of title p slug0 now "clock_time now" "run_manager e"] c by auto
    with inv show ?thesis by (simp add: create_run_sync_def Some c Inl)
  next
    case (Inr run)
    have pc: "profile_clean p"
      using inv Some by (auto simp: runs_logged_def profiles_clean_def list_all_iff dest!: map_of_SomeD)
    let ?slug = "rm_slug (run_meta run)" and ?e' = "fst (create_run_sync name title slug0 now e)"
    note res = create_run_result [OF c [unfolded Inr] pc t sl, unfolded Let_def]
    have e': "run_manager ?e' = m" "profiles ?e' = profiles e"
      "event_stores ?e' = event_stores (record_event ?slug [] (rm_state (run_meta run)) (clock_time now) e)"
      by (simp_all add: create_run_sync_def Some c Inr Let_def record_event_def get_event_store_def)
    have "slug_logged ?slug ?e'"
      by (rule slug_logged_record [OF _ e'(3)]) (use inv res in \<open>simp_all add: runs_logged_def e'(1)\<close>)
    moreover have "slug_logged s ?e'" if "s \<noteq> ?slug" for s
      by (rule slug_logged_other [OF _ that e'(3)]) (use inv res that in \<open>simp_all add: runs_logged_def e'(1)\<close>)
    ultimately have "\<forall>s. slug_logged s ?e'" by metis
    then show ?thesis using inv by (simp add: runs_logged_def e'(2))
  qed
qed

lemma runs_logged_archive:
  assumes "runs_logged e"
  shows "runs_logged (e\<lparr>run_manager := fst (archive_run slug now now' (run_manager e))\<rparr>)"
proof -
  have "dict_get (active (fst (archive_run slug now now' (run_manager e)))) s =
      (if s = slug then None else dict_get (active (run_manager e)) s)" for s
    by (auto simp: archive_run_def Let_def update_snapshot_def append_wal_def split: option.split)
  then show ?thesis
    using assms by (auto simp: runs_logged_def slug_logged_def get_event_store_def)
qed

fun op_clean :: "engine_op \<Rightarrow> bool" where
  "op_clean (CreateRun name title slug now) \<longleftrightarrow> clean title \<and> clean slug"
| "op_clean (CreateRunAsync name title slug now) \<longleftrightarrow> clean title \<and> clean slug"
| "op_clean _ \<longleftrightarrow> True"

lemma runs_logged_step:
  assumes inv: "runs_logged e" and ok: "op_clean op"
  shows "runs_logged (engine_step op e)"
proof (cases op)
  case (CreateRun name title slug now)
  with inv ok show ?thesis by (simp add: runs_logged_create)
next
  case (CreateRunAsync name title slug now)
  then have "runs_logged (fst (create_run_sync name title slug now e))" using inv ok by (simp add: runs_logged_create)
  then show ?thesis
    using runs_logged_cong [of "fst (create_run_async name title slug now e)" "fst (create_run_sync name title slug now e)"]
    by (simp add: CreateRunAsync create_run_async_frame)
next
  case (ArchiveRun slug now now')
  with inv show ?thesis by (simp add: runs_logged_archive)
qed (use inv in \<open>simp_all add: logged.P_transition logged.P_hitl logged.P_resume logged.P_check_timeouts\<close>,
     auto simp: runs_logged_def slug_logged_def get_event_store_def health_frame with_budget_def start_def stop_def
       recover_def compact_wal_def Let_def split: sum.split list.split)

interpretation engine_log: guarded_system engine_step op_clean runs_logged
  by unfold_locales (rule runs_logged_step)

lemma init_logged: "profiles_clean ps \<Longrightarrow> runs_logged (init_engine cfg ps)"
  by (simp add: runs_logged_def slug_logged_def init_engine_def get_event_store_def new_manager_def
      load_store_def load_index_def load_last_sequence_def store_inv_def store_view_def)

text \<open>C1: The event log of a run and its metadata agree at all times. Let every profile have a machine, let the
names of profiles and states, and the titles and slugs of the runs that are created, have no line break and no
white space (of Unicode) at either end. Then after any history of creations, transitions, resumptions, timeouts
and archivings, started from an empty directory, every active run can be read back, the events in its store are
transitions each of which starts where the one before ended (or is a creation), and the last one ends in the
state that the metadata file records.\<close>

theorem engine_log_consistent:
  assumes "profiles_clean ps" and "list_all op_clean ops"
    and "dict_has (active (run_manager (fold engine_step ops (init_engine cfg ps)))) slug"
  shows "\<exists>run. get_run slug t (run_manager (fold engine_step ops (init_engine cfg ps))) = Inr (Some run) \<and>
    rm_slug (run_meta run) = slug \<and>
    path_end [] (map event_edge (get_all (get_event_store slug (fold engine_step ops (init_engine cfg ps))))) =
      Some (rm_state (run_meta run))"
proof -
  let ?e = "fold engine_step ops (init_engine cfg ps)"
  have "runs_logged ?e"
    using engine_log.guarded_run [OF init_logged [OF assms(1)] assms(2)] .
  then have l: "slug_logged slug ?e" by (simp add: runs_logged_def)
  obtain c where c: "dict_get (active (run_manager ?e)) slug = Some c"
    using assms(3) by (auto simp: dict_has_def)
  then obtain meta where meta: "c = Some (write_meta meta)" "meta_clean meta" "rm_slug meta = slug"
    and p: "path_end [] (map event_edge (snd (snd (store_view (get_event_store slug ?e))))) = Some (rm_state meta)"
    and s: "store_inv (get_event_store slug ?e)"
    using l unfolding slug_logged_def by blast
  have "snd (snd (store_view (get_event_store slug ?e))) = get_all (get_event_store slug ?e)"
    by (simp add: store_view_def get_all_view [OF s])
  then show ?thesis
    using p meta(3) by (simp add: get_run_def c meta(1) read_write_meta [OF meta(2)])
qed

theorem engine_log_consistent_witness:
  "\<exists>run. get_run ''r'' 0 (run_manager (fold engine_step [CreateRun ''demo'' ''t'' ''r'' demo_clock]
      (init_engine (budget_config.make None None None None) [(''demo'', demo_profile)]))) = Inr (Some run) \<and>
    rm_slug (run_meta run) = ''r'' \<and>
    path_end [] (map event_edge (get_all (get_event_store ''r'' (fold engine_step [CreateRun ''demo'' ''t'' ''r'' demo_clock]
      (init_engine (budget_config.make None None None None) [(''demo'', demo_profile)]))))) =
      Some (rm_state (run_meta run))"
proof (rule engine_log_consistent)
  show "profiles_clean [(''demo'', demo_profile)]" by code_simp
  show "list_all op_clean [CreateRun ''demo'' ''t'' ''r'' demo_clock]" by code_simp
  obtain s0 where "initial_states demo_config = [s0]"
    by (simp add: demo_config_def initial_states_def plain_state_def)
  then show "dict_has (active (run_manager (fold engine_step [CreateRun ''demo'' ''t'' ''r'' demo_clock]
      (init_engine (budget_config.make None None None None) [(''demo'', demo_profile)])))) ''r''"
    by (simp add: init_engine_def new_manager_def create_run_sync_def create_run_def demo_profile_def demo_machine_def
        dict_has_def Let_def update_snapshot_def append_wal_def)
qed

subsection \<open>Dates and hooks\<close>

lemma length_show_nat: "n < 10 ^ w \<Longrightarrow> 0 < w \<Longrightarrow> length (show_nat n) \<le> w"
proof (induction n arbitrary: w rule: show_nat.induct)
  case (1 n)
  show ?case
  proof (cases "n < 10")
    case False
    then obtain v where v: "w = Suc v" "0 < v" using 1(2,3) by (cases w; cases "w - 1") auto
    then have "n div 10 < 10 ^ v" using 1(2) by (simp add: less_mult_imp_div_less mult.commute)
    from 1(1) [OF False this v(2)] False show ?thesis by (simp add: show_nat.simps [of n] v)
  qed (use 1 in \<open>simp add: show_nat.simps [of n]\<close>)
qed

lemma digits_value_zeros: "digits_value 0 (replicate k CHR ''0'' @ s) = digits_value 0 s"
  by (induction k) (simp_all add: is_digit_def digit_value_def)

lemma pad_width:
  assumes "n < 10 ^ w" and "0 < w"
  shows "length (pad w n) = w"
  using length_show_nat [OF assms] by (simp add: pad_def Let_def)

lemma pad_value: "digits_value 0 (pad w n) = Some (int n)"
  by (simp add: pad_def Let_def digits_value_zeros digits_value_digits [OF show_nat_digits] fold_show_nat)

lemma digits_at_pad: "take w (drop i s) = pad v n \<Longrightarrow> digits_at i w s = Some n"
  using pad_digits [of v n] pad_value [of v n] by (simp add: digits_at_def)

lemma iso_roundtrip:
  assumes "valid_clock c"
  shows "from_iso (iso c) = Some c"
proof -
  obtain Y M D h m S u where p: "Y = pad 4 (year c)" "M = pad 2 (month c)" "D = pad 2 (day c)" "h = pad 2 (hour c)"
    "m = pad 2 (minute c)" "S = pad 2 (second c)" "u = pad 6 (micro c)" by simp
  have "day c \<le> 31" using assms by (auto simp: valid_clock_def month_days_def split: if_splits)
  then have l: "length Y = 4" "length M = 2" "length D = 2" "length h = 2" "length m = 2" "length S = 2" "length u = 6"
    unfolding p using assms by (auto simp: valid_clock_def intro!: pad_width)
  have s: "iso c = Y @ ''-'' @ M @ ''-'' @ D @ ''T'' @ h @ '':'' @ m @ '':'' @ S @ (if micro c = 0 then [] else ''.'' @ u)"
    by (simp add: iso_def p)
  have "take 4 (drop 0 (iso c)) = Y" "take 2 (drop 5 (iso c)) = M" "take 2 (drop 8 (iso c)) = D"
    "take 2 (drop 11 (iso c)) = h" "take 2 (drop 14 (iso c)) = m" "take 2 (drop 17 (iso c)) = S"
    unfolding s by (simp_all add: l)
  note d = this [unfolded p, THEN digits_at_pad]
  have u: "digits_at 20 6 (iso c) = Some (micro c)" if "micro c \<noteq> 0"
  proof (rule digits_at_pad)
    show "take 6 (drop 20 (iso c)) = pad 6 (micro c)" unfolding s p(7) [symmetric] using that by (simp add: l)
  qed
  have len: "length (iso c) = (if micro c = 0 then 19 else 26)" unfolding s by (simp add: l)
  have sep: "iso c ! 4 = CHR ''-''" "iso c ! 7 = CHR ''-''" "iso c ! 10 = CHR ''T''" "iso c ! 13 = CHR '':''"
      "iso c ! 16 = CHR '':''" "micro c = 0 \<or> iso c ! 19 = CHR ''.''"
    unfolding s by (simp_all add: l nth_append)
  show ?thesis
  proof (cases "micro c = 0")
    case True
    with assms d len sep show ?thesis by (simp add: from_iso_def Let_def valid_clock_def)
  next
    case False
    with assms d u len sep show ?thesis by (simp add: from_iso_def Let_def valid_clock_def)
  qed
qed

text \<open>The time a run has spent in its state survives a restart of the engine: without a tracked
entry, the timeouts of a run count from the time that the last update wrote into its metadata, which is read
back to the microsecond.\<close>

theorem timeout_survives_restart:
  assumes "valid_clock c" and "snd (update_state slug to p ovs c t m) = Inr run" and "entry_times e = []"
  shows "entry_time (run_meta run) e =
    Some (track_entry (rm_slug (run_meta run)) to (clock_time c) e, clock_time c)"
proof -
  have "rm_updated_at (run_meta run) = iso c" "rm_state (run_meta run) = to"
    using update_state_effect [of slug to p ovs c t m] assms(2) by (auto simp: split_beta Let_def)
  then show ?thesis
    using iso_roundtrip [OF assms(1)] assms(3) by (simp add: entry_time_def dict_get_default_def)
qed

theorem timeout_survives_restart_witness:
  "\<exists>run :: Run. entry_time (run_meta run) (init_engine (budget_config.make None None None None) []) =
     Some (track_entry (rm_slug (run_meta run)) ''process'' (clock_time demo_clock)
       (init_engine (budget_config.make None None None None) []), clock_time demo_clock)"
proof -
  let ?m = "new_manager\<lparr>active := [(''r'', Some (write_meta demo_meta))]\<rparr>"
  have "meta_clean demo_meta" by code_simp
  then have r: "read_meta ''r'' (Some (write_meta demo_meta)) = Inr (Some demo_meta)" by (rule read_write_meta)
  obtain run where u: "snd (update_state ''r'' ''process'' None [] demo_clock 0 ?m) = Inr run"
    by (simp add: update_state_def r Let_def check_transition_def)
  have "valid_clock demo_clock" by (simp add: valid_clock_def demo_clock_def month_days_def leap_def)
  note * = timeout_survives_restart [OF this u, of "init_engine (budget_config.make None None None None) []"]
  have "entry_times (init_engine (budget_config.make None None None None) []) = []" by (simp add: init_engine_def)
  with * show ?thesis by blast
qed

text \<open>Create_run_async calls the handlers for entering the initial state a second time: first those that are
no coroutine functions, as create_run does, then all of them.\<close>

theorem async_create_fires_twice:
  "create_run_sync name title slug now e = (e', Inr run) \<Longrightarrow>
   calls (fst (create_run_async name title slug now e)) = calls e' @ map (\<lambda>h. \<lparr>call_state = rm_state (run_meta run),
     call_type = ''on_enter'', call_handler = h, call_slug = rm_slug (run_meta run)\<rparr>)
       (trigger (rm_state (run_meta run)) ''on_enter'' (en_hooks e'))"
  by (simp add: create_run_async_def fire_async_def)

end
