(* ===== verification/PyValue.thy ===== *)
theory PyValue
  imports Prelude
begin

text \<open>
  Dynamically typed values where the program handles them as such: what JSON decoding
  returns, arguments and results of tools, entries of the memories. \<open>Obj\<close> is any object that
  is not of a JSON type.
\<close>

datatype PyVal =
    PNone
  | PBool bool
  | PInt int
  | PFloat rat
  | PStr string
  | PList "PyVal list"
  | PDict "(PyVal \<times> PyVal) list"
  | Obj nat

fun json_key :: "PyVal \<Rightarrow> bool" where
  "json_key PNone \<longleftrightarrow> True"
| "json_key (PBool b) \<longleftrightarrow> True"
| "json_key (PInt i) \<longleftrightarrow> True"
| "json_key (PFloat q) \<longleftrightarrow> True"
| "json_key (PStr s) \<longleftrightarrow> True"
| "json_key v \<longleftrightarrow> False"

text \<open>Whether \<open>json.dumps\<close> accepts the value.\<close>

fun dumpable :: "PyVal \<Rightarrow> bool" where
  "dumpable (PList vs) \<longleftrightarrow> list_all dumpable vs"
| "dumpable (PDict kvs) \<longleftrightarrow> list_all (\<lambda>kv. json_key (fst kv) \<and> dumpable (snd kv)) kvs"
| "dumpable (Obj n) \<longleftrightarrow> False"
| "dumpable v \<longleftrightarrow> True"

text \<open>\<open>bool(v)\<close>, and \<open>v.get(k, d)\<close> for a string \<open>k\<close>, which raises unless \<open>v\<close> is a dict.\<close>

fun truthy :: "PyVal \<Rightarrow> bool" where
  "truthy PNone \<longleftrightarrow> False"
| "truthy (PBool b) \<longleftrightarrow> b"
| "truthy (PInt i) \<longleftrightarrow> i \<noteq> 0"
| "truthy (PFloat q) \<longleftrightarrow> q \<noteq> 0"
| "truthy (PStr s) \<longleftrightarrow> s \<noteq> ''''"
| "truthy (PList vs) \<longleftrightarrow> vs \<noteq> []"
| "truthy (PDict kvs) \<longleftrightarrow> kvs \<noteq> []"
| "truthy (Obj n) \<longleftrightarrow> True"

fun py_get_default :: "PyVal \<Rightarrow> string \<Rightarrow> PyVal \<Rightarrow> string + PyVal" where
  "py_get_default (PDict kvs) k d = Inr (case map_of kvs (PStr k) of None \<Rightarrow> d | Some v \<Rightarrow> v)"
| "py_get_default v k d = Inl ''AttributeError''"

text \<open>A dict whose keys are strings.\<close>

definition str_dict :: "(string \<times> PyVal) list \<Rightarrow> PyVal" where
  "str_dict kvs = PDict (map (\<lambda>(k, v). (PStr k, v)) kvs)"

end
