(* ===== verification/Global_Memory.thy ===== *)
theory Global_Memory
  imports Systems PyValue
begin

text \<open>
  The memory that all nodes share (\<open>engine/agent_runtime/global_memory.py\<close>): a register per
  namespace and key in which the last writer wins, tombstones for deletions, and the
  operations by which nodes exchange entries. Entries travel between nodes as copies (the
  cluster sends them over the network), so an entry is a value. \<open>time.time()\<close> is an argument
  of the operations that read it.
\<close>

subsection \<open>Entries\<close>

text \<open>\<open>str_of\<close> is Python's \<open>str\<close>.\<close>

definition serialize :: "(PyVal \<Rightarrow> string) \<Rightarrow> PyVal \<Rightarrow> PyVal" where
  "serialize str_of v =
     (case v of
        PList vs \<Rightarrow> if dumpable v then v else PStr (str_of v)
      | PDict kvs \<Rightarrow> if dumpable v then v else PStr (str_of v)
      | Obj n \<Rightarrow> PStr (str_of v)
      | _ \<Rightarrow> v)"

record CRDTEntry =
  entry_key :: string
  entry_value :: PyVal
  entry_ns :: string
  stamp :: seconds
  entry_node :: string
  deleted :: bool

definition merge_with :: "CRDTEntry \<Rightarrow> CRDTEntry \<Rightarrow> CRDTEntry" where
  "merge_with self other = (if stamp other > stamp self then other else self)"

subsection \<open>The memory and its operations\<close>

type_synonym entry_store = "(string, (string, CRDTEntry) dict) dict"

record GlobalMemory =
  gm_node_id :: string
  max_entries :: int
  gm_store :: entry_store
  version_vector :: "(string, seconds) dict"
  total_writes :: nat
  total_reads :: nat

definition init_memory :: "string \<Rightarrow> int \<Rightarrow> GlobalMemory" where
  "init_memory n m = \<lparr>gm_node_id = n, max_entries = m, gm_store = [], version_vector = [],
     total_writes = 0, total_reads = 0\<rparr>"

definition namespace_of :: "GlobalMemory \<Rightarrow> string \<Rightarrow> (string, CRDTEntry) dict" where
  "namespace_of g ns = dict_get_default (gm_store g) ns []"

text \<open>
  What \<open>set\<close> and \<open>merge\<close> share: the namespace is created when missing, the entry is merged
  into the register, and the version vector takes the maximum for the node of the entry
  \<open>seen\<close> (the winner in \<open>set\<close>, the received entry in \<open>merge\<close>).
\<close>

definition winner :: "GlobalMemory \<Rightarrow> CRDTEntry \<Rightarrow> CRDTEntry" where
  "winner g e = (case dict_get (namespace_of g (entry_ns e)) (entry_key e) of
     None \<Rightarrow> e | Some x \<Rightarrow> merge_with x e)"

definition put_entry :: "CRDTEntry \<Rightarrow> GlobalMemory \<Rightarrow> GlobalMemory" where
  "put_entry e g = g\<lparr>gm_store := dict_set (entry_ns e)
     (dict_set (entry_key e) (winner g e) (namespace_of g (entry_ns e))) (gm_store g)\<rparr>"

definition see_entry :: "CRDTEntry \<Rightarrow> GlobalMemory \<Rightarrow> GlobalMemory" where
  "see_entry e g = g\<lparr>version_vector := dict_set (entry_node e)
     (max (dict_get_default (version_vector g) (entry_node e) 0) (stamp e)) (version_vector g)\<rparr>"

definition set_value ::
    "(PyVal \<Rightarrow> string) \<Rightarrow> seconds \<Rightarrow> string \<Rightarrow> PyVal \<Rightarrow> string \<Rightarrow> string option \<Rightarrow> GlobalMemory \<Rightarrow>
     GlobalMemory" where
  "set_value str_of now k v ns node g =
     (let e = \<lparr>entry_key = k, entry_value = serialize str_of v, entry_ns = ns, stamp = now,
            entry_node = (case node of None \<Rightarrow> gm_node_id g
              | Some n \<Rightarrow> if n = '''' then gm_node_id g else n), deleted = False\<rparr>;
          g' = put_entry e g
      in see_entry (winner g e) (g'\<lparr>total_writes := total_writes g' + 1\<rparr>))"

definition get_value :: "string \<Rightarrow> string \<Rightarrow> GlobalMemory \<Rightarrow> GlobalMemory \<times> PyVal option" where
  "get_value k ns g =
     (case dict_get (namespace_of g ns) k of
        None \<Rightarrow> (g, None)
      | Some e \<Rightarrow> if deleted e then (g, None)
                 else (g\<lparr>total_reads := total_reads g + 1\<rparr>, Some (entry_value e)))"

definition bury :: "seconds \<Rightarrow> CRDTEntry \<Rightarrow> CRDTEntry" where
  "bury now e = e\<lparr>deleted := True, stamp := now\<rparr>"

definition delete_key :: "seconds \<Rightarrow> string \<Rightarrow> string \<Rightarrow> GlobalMemory \<Rightarrow> GlobalMemory \<times> bool" where
  "delete_key now k ns g =
     (case dict_get (namespace_of g ns) k of
        None \<Rightarrow> (g, False)
      | Some e \<Rightarrow> (g\<lparr>gm_store := dict_set ns (dict_set k (bury now e) (namespace_of g ns)) (gm_store g),
                     total_writes := total_writes g + 1\<rparr>, True))"

definition live :: "(string, CRDTEntry) dict \<Rightarrow> (string \<times> CRDTEntry) list" where
  "live d = filter (\<lambda>(k, e). \<not> deleted e) d"

definition list_namespace :: "string \<Rightarrow> GlobalMemory \<Rightarrow> (string, PyVal) dict" where
  "list_namespace ns g = map (\<lambda>(k, e). (k, entry_value e)) (live (namespace_of g ns))"

definition list_namespaces :: "GlobalMemory \<Rightarrow> string list" where
  "list_namespaces g = dict_keys (gm_store g)"

text \<open>The clock is read once per entry: \<open>clock k\<close> is the time at which the entry of \<open>k\<close> is buried.\<close>

definition clear_namespace :: "(string \<Rightarrow> seconds) \<Rightarrow> string \<Rightarrow> GlobalMemory \<Rightarrow> GlobalMemory \<times> nat" where
  "clear_namespace clock ns g =
     (case dict_get (gm_store g) ns of
        None \<Rightarrow> (g, 0)
      | Some d \<Rightarrow> (g\<lparr>gm_store := dict_set ns (map (\<lambda>(k, e). (k, bury (clock k) e)) d) (gm_store g)\<rparr>,
                   length d))"

definition merge_entry :: "CRDTEntry \<Rightarrow> GlobalMemory \<times> nat \<Rightarrow> GlobalMemory \<times> nat" where
  "merge_entry e s =
     (case s of (g, merged) \<Rightarrow>
        (see_entry e (put_entry e g),
         case dict_get (namespace_of g (entry_ns e)) (entry_key e) of
           None \<Rightarrow> merged + 1
         | Some x \<Rightarrow> if stamp e > stamp x then merged + 1 else merged))"

definition merge_entries :: "CRDTEntry list \<Rightarrow> GlobalMemory \<Rightarrow> GlobalMemory \<times> nat" where
  "merge_entries es g = fold merge_entry es (g, 0)"

definition all_entries :: "GlobalMemory \<Rightarrow> CRDTEntry list" where
  "all_entries g = concat (map dict_values (dict_values (gm_store g)))"

definition get_changes_since :: "string \<Rightarrow> seconds \<Rightarrow> GlobalMemory \<Rightarrow> CRDTEntry list" where
  "get_changes_since n since g = filter (\<lambda>e. stamp e > since \<and> entry_node e \<noteq> n) (all_entries g)"

text \<open>An item of a snapshot: key, value, timestamp, node and \<open>deleted\<close>.\<close>

type_synonym snapshot_item = "string \<times> PyVal \<times> seconds \<times> string \<times> bool"

definition snapshot_item :: "CRDTEntry \<Rightarrow> snapshot_item" where
  "snapshot_item e = (entry_key e, entry_value e, stamp e, entry_node e, deleted e)"

definition sync_snapshot :: "GlobalMemory \<Rightarrow> (string, snapshot_item list) dict" where
  "sync_snapshot g = map (\<lambda>(ns, d). (ns, map (\<lambda>(k, e). snapshot_item e) (live d))) (gm_store g)"

definition entries_per_ns :: "GlobalMemory \<Rightarrow> (string, nat) dict" where
  "entries_per_ns g = map (\<lambda>(ns, d). (ns, length (live d))) (gm_store g)"

definition total_active :: "GlobalMemory \<Rightarrow> nat" where
  "total_active g = sum_list (dict_values (entries_per_ns g))"

subsection \<open>The register of a key\<close>

definition entry_at :: "GlobalMemory \<Rightarrow> string \<Rightarrow> string \<Rightarrow> CRDTEntry option" where
  "entry_at g ns k = dict_get (namespace_of g ns) k"

definition in_register :: "string \<Rightarrow> string \<Rightarrow> CRDTEntry \<Rightarrow> bool" where
  "in_register ns k e \<longleftrightarrow> entry_ns e = ns \<and> entry_key e = k"

lemma in_register_self [simp]: "in_register (entry_ns e) (entry_key e) e"
  by (simp add: in_register_def)

named_theorems gm_simps \<open>How the operations change a register\<close>

lemma merge_with_simps [simp]:
  "stamp (merge_with x y) = max (stamp x) (stamp y)" "merge_with x x = x"
  "entry_ns x = entry_ns y \<Longrightarrow> entry_ns (merge_with x y) = entry_ns y"
  "entry_key x = entry_key y \<Longrightarrow> entry_key (merge_with x y) = entry_key y"
  by (auto simp: merge_with_def max_def)

lemma bury_simps [simp]:
  "entry_key (bury t e) = entry_key e" "entry_ns (bury t e) = entry_ns e" "deleted (bury t e)"
  "entry_node (bury t e) = entry_node e" "stamp (bury t e) = t"
  by (simp_all add: bury_def)

lemma namespace_of_set [simp]:
  "namespace_of (g\<lparr>gm_store := dict_set ns d (gm_store g)\<rparr>) ns' = (if ns' = ns then d else namespace_of g ns')"
  "namespace_of (g\<lparr>gm_store := dict_set ns d (gm_store g), total_writes := w\<rparr>) ns' =
     (if ns' = ns then d else namespace_of g ns')"
  by (simp_all add: namespace_of_def dict_get_default_def)

lemma entry_at_updates [simp]:
  "entry_at (g\<lparr>total_writes := w\<rparr>) ns k = entry_at g ns k"
  "entry_at (g\<lparr>total_reads := w\<rparr>) ns k = entry_at g ns k"
  "entry_at (see_entry e g) ns k = entry_at g ns k"
  by (simp_all add: entry_at_def namespace_of_def see_entry_def)

lemma winner_at: "winner g e = (case entry_at g (entry_ns e) (entry_key e) of None \<Rightarrow> e | Some x \<Rightarrow> merge_with x e)"
  by (simp add: winner_def entry_at_def)

lemma entry_at_put [gm_simps]:
  "entry_at (put_entry e g) ns k = (if in_register ns k e then Some (winner g e) else entry_at g ns k)"
  by (simp add: entry_at_def put_entry_def in_register_def)

lemma entry_at_delete [gm_simps]:
  "entry_at (fst (delete_key now k ns g)) ns' k' =
     (if ns' = ns \<and> k' = k then map_option (bury now) (entry_at g ns k) else entry_at g ns' k')"
  by (simp add: delete_key_def entry_at_def split: option.splits)

lemma map_of_bury: "map_of (map (\<lambda>(k, e). (k, bury (clock k) e)) d) k = map_option (bury (clock k)) (map_of d k)"
  by (induction d) auto

lemma entry_at_clear [gm_simps]:
  "entry_at (fst (clear_namespace clock ns g)) ns' k =
     (if ns' = ns then map_option (bury (clock k)) (entry_at g ns k) else entry_at g ns' k)"
  by (auto simp: clear_namespace_def entry_at_def map_of_bury namespace_of_def dict_get_default_def
      split: option.splits)

lemma entry_at_get [gm_simps]: "entry_at (fst (get_value k ns g)) ns' k' = entry_at g ns' k'"
  by (simp add: get_value_def split: option.splits)

definition written ::
    "(PyVal \<Rightarrow> string) \<Rightarrow> seconds \<Rightarrow> string \<Rightarrow> PyVal \<Rightarrow> string \<Rightarrow> string option \<Rightarrow> GlobalMemory \<Rightarrow> CRDTEntry" where
  "written str_of now k v ns node g = \<lparr>entry_key = k, entry_value = serialize str_of v, entry_ns = ns,
     stamp = now, entry_node = (case node of None \<Rightarrow> gm_node_id g
       | Some n \<Rightarrow> if n = '''' then gm_node_id g else n), deleted = False\<rparr>"

lemma written_simps [simp]:
  "entry_key (written str_of now k v ns node g) = k" "entry_ns (written str_of now k v ns node g) = ns"
  "stamp (written str_of now k v ns node g) = now" "\<not> deleted (written str_of now k v ns node g)"
  "entry_value (written str_of now k v ns node g) = serialize str_of v"
  "in_register ns' k' (written str_of now k v ns node g) \<longleftrightarrow> ns' = ns \<and> k' = k"
  by (auto simp: written_def in_register_def)

lemma entry_at_set_value [gm_simps]:
  "entry_at (set_value str_of now k v ns node g) ns' k' =
     (if ns' = ns \<and> k' = k then Some (winner g (written str_of now k v ns node g)) else entry_at g ns' k')"
  by (simp add: set_value_def Let_def flip: written_def) (simp add: entry_at_put)

lemma entry_at_init [simp]: "entry_at (init_memory n m) ns k = None"
  by (simp add: entry_at_def init_memory_def namespace_of_def dict_get_default_def)

text \<open>Reading a key after writing it: the written value if the key is new or the clock has
  advanced past the entry that is there, which may be a tombstone; otherwise the write is lost
  without an error and the old content stays.\<close>

theorem set_then_get:
  "snd (get_value k ns (set_value str_of now k v ns node g)) =
     (case entry_at g ns k of
        None \<Rightarrow> Some (serialize str_of v)
      | Some e \<Rightarrow> if now > stamp e then Some (serialize str_of v)
                 else if deleted e then None else Some (entry_value e))"
proof -
  have "snd (get_value k ns h) = (case entry_at h ns k of None \<Rightarrow> None
      | Some e \<Rightarrow> if deleted e then None else Some (entry_value e))" for h
    by (simp add: get_value_def entry_at_def split: option.splits)
  then show ?thesis
    by (simp add: gm_simps winner_at merge_with_def split: option.splits)
qed

subsection \<open>Every entry is filed under its own namespace and key\<close>

definition filed :: "GlobalMemory \<Rightarrow> bool" where
  "filed g \<longleftrightarrow> dict_wf (gm_store g) \<and> list_all (\<lambda>(ns, d). dict_wf d \<and> list_all (\<lambda>(k, e). in_register ns k e) d) (gm_store g)"

datatype gm_op =
    GSet "PyVal \<Rightarrow> string" seconds string PyVal string "string option"
  | GGet string string
  | GDelete seconds string string
  | GClear "string \<Rightarrow> seconds" string
  | GMerge "CRDTEntry list"

fun gm_step :: "gm_op \<Rightarrow> GlobalMemory \<Rightarrow> GlobalMemory" where
  "gm_step (GSet str_of now k v ns node) g = set_value str_of now k v ns node g"
| "gm_step (GGet k ns) g = fst (get_value k ns g)"
| "gm_step (GDelete now k ns) g = fst (delete_key now k ns g)"
| "gm_step (GClear clock ns) g = fst (clear_namespace clock ns g)"
| "gm_step (GMerge es) g = fst (merge_entries es g)"

lemma filed_updates [simp]:
  "filed (g\<lparr>total_writes := w\<rparr>) = filed g" "filed (g\<lparr>total_reads := w\<rparr>) = filed g"
  "filed (see_entry e g) = filed g"
  by (simp_all add: filed_def see_entry_def)

lemma filed_set_namespace:
  "filed g \<Longrightarrow> dict_wf d \<Longrightarrow> list_all (\<lambda>(k, e). in_register ns k e) d \<Longrightarrow>
     filed (g\<lparr>gm_store := dict_set ns d (gm_store g)\<rparr>)"
  by (auto simp: filed_def list_all_iff set_dict_set)

lemma filed_namespace:
  assumes "filed g"
  shows "dict_wf (namespace_of g ns)" "list_all (\<lambda>(k, e). in_register ns k e) (namespace_of g ns)"
proof -
  have "dict_wf d \<and> list_all (\<lambda>(k, e). in_register ns k e) d" if "dict_get (gm_store g) ns = Some d" for d
    using map_of_SomeD [OF that] assms by (auto simp: filed_def list_all_iff)
  then show "dict_wf (namespace_of g ns)" "list_all (\<lambda>(k, e). in_register ns k e) (namespace_of g ns)"
    by (simp_all add: namespace_of_def dict_get_default_def split: option.split)
qed

lemma filed_put: "filed g \<Longrightarrow> filed (put_entry e g)"
  unfolding put_entry_def
proof (rule filed_set_namespace)
  assume g: "filed g"
  note ns = filed_namespace [OF g, of "entry_ns e"]
  show "dict_wf (dict_set (entry_key e) (winner g e) (namespace_of g (entry_ns e)))"
    by (simp add: ns(1))
  have "in_register (entry_ns e) (entry_key e) (winner g e)"
    using ns(2) by (auto simp: winner_def in_register_def list_all_iff merge_with_def
        split: option.splits dest: map_of_SomeD)
  with ns show "list_all (\<lambda>(k, x). in_register (entry_ns e) k x)
      (dict_set (entry_key e) (winner g e) (namespace_of g (entry_ns e)))"
    by (auto simp: list_all_iff set_dict_set)
qed

lemma filed_merge: "filed g \<Longrightarrow> filed (fst (fold merge_entry es (g, n)))"
  by (induction es arbitrary: g n) (simp_all add: merge_entry_def filed_put)

lemma in_register_bury [simp]: "in_register ns k (bury t e) = in_register ns k e"
  by (simp add: in_register_def)

lemma filed_step: "filed g \<Longrightarrow> filed (gm_step op g)"
proof (induction op)
  case (GSet str_of now k v ns node)
  then show ?case by (simp add: set_value_def Let_def filed_put)
next
  case (GGet k ns)
  then show ?case by (simp add: get_value_def split: option.splits)
next
  case (GDelete now k ns)
  note d = filed_namespace [OF GDelete, of ns]
  have "filed (g\<lparr>gm_store := dict_set ns (dict_set k (bury now e) (namespace_of g ns)) (gm_store g)\<rparr>)"
    if "dict_get (namespace_of g ns) k = Some e" for e
    using that d by (intro filed_set_namespace GDelete)
      (auto simp: list_all_iff set_dict_set dest: map_of_SomeD)
  then show ?case using GDelete by (auto simp: delete_key_def split: option.splits)
next
  case (GClear clock ns)
  note d = filed_namespace [OF GClear, of ns]
  have "filed (g\<lparr>gm_store := dict_set ns (map (\<lambda>(k, e). (k, bury (clock k) e)) (namespace_of g ns)) (gm_store g)\<rparr>)"
    using d by (intro filed_set_namespace GClear) (auto simp: dict_wf_map_values list_all_iff)
  then show ?case using GClear
    by (auto simp: clear_namespace_def namespace_of_def dict_get_default_def split: option.splits)
next
  case (GMerge es)
  then show ?case by (simp add: merge_entries_def filed_merge)
qed

interpretation gm: invariant_system gm_step filed
  by unfold_locales (rule filed_step)

lemma filed_init [simp]: "filed (init_memory n m)"
  by (simp add: filed_def init_memory_def)

lemma all_entries_iff:
  assumes "filed g" shows "e \<in> set (all_entries g) \<longleftrightarrow> entry_at g (entry_ns e) (entry_key e) = Some e"
proof -
  have "e \<in> set (all_entries g) \<longleftrightarrow> (\<exists>ns d k. (ns, d) \<in> set (gm_store g) \<and> (k, e) \<in> set d)"
    by (force simp: all_entries_def)
  also have "\<dots> \<longleftrightarrow> (\<exists>d. (entry_ns e, d) \<in> set (gm_store g) \<and> (entry_key e, e) \<in> set d)"
    using assms by (fastforce simp: filed_def list_all_iff in_register_def)
  also have "\<dots> \<longleftrightarrow> (\<exists>d. dict_get (gm_store g) (entry_ns e) = Some d \<and> dict_get d (entry_key e) = Some e)"
    using assms by (fastforce simp: filed_def list_all_iff dict_get_iff)
  also have "\<dots> \<longleftrightarrow> entry_at g (entry_ns e) (entry_key e) = Some e"
    by (auto simp: entry_at_def namespace_of_def dict_get_default_def split: option.splits)
  finally show ?thesis .
qed

subsection \<open>Merging and exchanging entries\<close>

text \<open>The reference: a register that has seen the entries \<open>es\<close> in this order.\<close>

fun newest :: "CRDTEntry option \<Rightarrow> CRDTEntry list \<Rightarrow> CRDTEntry option" where
  "newest x [] = x"
| "newest x (e # es) = newest (Some (case x of None \<Rightarrow> e | Some y \<Rightarrow> merge_with y e)) es"

lemma entry_at_fold_merge:
  "entry_at (fst (fold merge_entry es (g, n))) ns k = newest (entry_at g ns k) (filter (in_register ns k) es)"
proof (induction es arbitrary: g n)
  case (Cons e es)
  have "entry_at (fst (merge_entry e (g, n))) ns k =
      (if in_register ns k e then newest (entry_at g ns k) [e] else entry_at g ns k)"
    by (auto simp: merge_entry_def gm_simps winner_at in_register_def)
  then show ?case
    by (cases "merge_entry e (g, n)") (simp add: Cons.IH)
qed simp

lemma entry_at_merge [gm_simps]:
  "entry_at (fst (merge_entries es g)) ns k = newest (entry_at g ns k) (filter (in_register ns k) es)"
  by (simp add: merge_entries_def entry_at_fold_merge)

lemma newest_Some:
  "newest (Some x) es = Some y \<Longrightarrow> y \<in> insert x (set es) \<and> (\<forall>z\<in>insert x (set es). stamp z \<le> stamp y)"
proof (induction es arbitrary: x)
  case (Cons e es)
  from Cons.IH [of "merge_with x e"] Cons.prems
  have "y \<in> insert (merge_with x e) (set es)" "\<forall>z\<in>insert (merge_with x e) (set es). stamp z \<le> stamp y"
    by simp_all
  moreover have "merge_with x e \<in> {x, e}" by (simp add: merge_with_def)
  ultimately show ?case by auto
qed simp

lemma newest_None_iff: "newest x es = None \<longleftrightarrow> x = None \<and> es = []"
  by (induction x es rule: newest.induct) simp_all

lemma newest_from_None: "newest None es = (case es of [] \<Rightarrow> None | e # es' \<Rightarrow> newest (Some e) es')"
  by (cases es) simp_all

lemma newest_None:
  assumes "newest None es = Some y" shows "y \<in> set es \<and> (\<forall>z\<in>set es. stamp z \<le> stamp y)"
  using assms newest_Some by (cases es) (auto simp: newest_from_None)

lemma newest_same: "\<forall>y\<in>set es. y = e \<Longrightarrow> es \<noteq> [] \<Longrightarrow> newest x es = newest x [e]"
proof (induction es arbitrary: x)
  case (Cons y es)
  from Cons.prems have y: "y = e" and es: "\<forall>z\<in>set es. z = e" by simp_all
  show ?case
  proof (cases "es = []")
    case False
    have "newest x (y # es) = newest (Some (case x of None \<Rightarrow> e | Some y \<Rightarrow> merge_with y e)) es"
      by (simp only: newest.simps y)
    also have "\<dots> = newest (Some (case x of None \<Rightarrow> e | Some y \<Rightarrow> merge_with y e)) [e]"
      by (rule Cons.IH [OF es False])
    also have "\<dots> = newest x [e]" by (auto simp: merge_with_def split: option.splits)
    finally show ?thesis .
  qed (simp add: y)
qed simp

definition no_ties :: "CRDTEntry set \<Rightarrow> bool" where
  "no_ties E \<longleftrightarrow> (\<forall>e\<in>E. \<forall>e'\<in>E. in_register (entry_ns e) (entry_key e) e' \<longrightarrow> stamp e = stamp e' \<longrightarrow> e = e')"

lemma newest_set_eq:
  assumes "set es = set es'" "no_ties (set es)" "\<forall>e\<in>set es. in_register ns k e"
  shows "newest None es = newest None es'"
proof (cases "newest None es")
  case None
  with assms(1) show ?thesis by (simp add: newest_None_iff)
next
  case (Some y)
  then obtain y' where y': "newest None es' = Some y'"
    using assms(1) by (cases "newest None es'") (auto simp: newest_None_iff)
  from newest_None [OF Some] newest_None [OF y'] assms(1)
  have "y \<in> set es" "y' \<in> set es" "stamp y = stamp y'" by (auto intro: antisym)
  with assms(2,3) have "y = y'" by (auto simp: no_ties_def in_register_def)
  with Some y' show ?thesis by simp
qed

text \<open>Convergence. Two memories that have been sent the same set of entries, in any order, in
  any batches and with any repetitions, hold the same entry for every key, provided that no two
  different entries of a key carry the same timestamp.\<close>

theorem merge_converges:
  assumes "set es = set es'" and "no_ties (set es)"
  shows "entry_at (fst (merge_entries es (init_memory n m))) ns k =
         entry_at (fst (merge_entries es' (init_memory n' m'))) ns k"
proof -
  have "newest None (filter (in_register ns k) es) = newest None (filter (in_register ns k) es')"
    by (rule newest_set_eq) (use assms in \<open>auto simp: no_ties_def\<close>)
  then show ?thesis by (simp add: gm_simps)
qed

definition sample_entry :: "seconds \<Rightarrow> string \<Rightarrow> CRDTEntry" where
  "sample_entry t n = \<lparr>entry_key = ''k'', entry_value = PStr n, entry_ns = ''s'', stamp = t,
     entry_node = n, deleted = False\<rparr>"

definition sample_memory :: "seconds \<Rightarrow> string \<Rightarrow> GlobalMemory" where
  "sample_memory t n = fst (merge_entries [sample_entry t n] (init_memory n 10))"

lemma sample_memory_simps [simp]:
  "filed (sample_memory t n)" "entry_at (sample_memory t n) ''s'' ''k'' = Some (sample_entry t n)"
  "stamp (sample_entry t n) = t" "entry_node (sample_entry t n) = n"
  "sample_entry t n = sample_entry u m \<longleftrightarrow> t = u \<and> n = m" "in_register ''s'' ''k'' (sample_entry t n)"
  using filed_step [of "init_memory n 10" "GMerge [sample_entry t n]"]
  by (auto simp: sample_memory_def gm_simps sample_entry_def in_register_def)

theorem merge_converges_witness:
  "entry_at (fst (merge_entries [sample_entry 1 ''a'', sample_entry 2 ''b''] (init_memory ''x'' 10))) ''s'' ''k'' =
   entry_at (fst (merge_entries [sample_entry 2 ''b'', sample_entry 1 ''a'', sample_entry 2 ''b'']
     (init_memory ''y'' 10))) ''s'' ''k''"
  by (rule merge_converges) (auto simp: no_ties_def)

text \<open>One round of exchange in which each node sends everything it holds.\<close>

definition exchange :: "GlobalMemory \<Rightarrow> GlobalMemory \<Rightarrow> GlobalMemory" where
  "exchange g other = fst (merge_entries (all_entries other) g)"

lemma entry_at_exchange:
  assumes "filed b"
  shows "entry_at (exchange a b) ns k =
           (case entry_at b ns k of None \<Rightarrow> entry_at a ns k
            | Some e \<Rightarrow> Some (case entry_at a ns k of None \<Rightarrow> e | Some x \<Rightarrow> merge_with x e))"
proof -
  let ?es = "filter (in_register ns k) (all_entries b)"
  have es: "e \<in> set ?es \<longleftrightarrow> in_register ns k e \<and> entry_at b ns k = Some e" for e
    using all_entries_iff [OF assms, of e] by (auto simp: in_register_def)
  have reg: "in_register ns k e" if "entry_at b ns k = Some e" for e
    using filed_namespace(2) [OF assms, of ns] that map_of_SomeD
    by (force simp: entry_at_def list_all_iff)
  have x: "entry_at (exchange a b) ns k = newest (entry_at a ns k) ?es"
    by (simp add: exchange_def gm_simps)
  show ?thesis
  proof (cases "entry_at b ns k")
    case None
    with es have "?es = []" by (auto simp: filter_empty_conv)
    with None x show ?thesis by simp
  next
    case (Some e)
    with es reg have "?es \<noteq> []" "\<forall>y\<in>set ?es. y = e"
      by (metis emptyE empty_set, metis option.inject)
    with x Some show ?thesis by (simp add: newest_same [of ?es e])
  qed
qed

text \<open>C37: Two nodes that exchange everything they hold agree on every key afterwards exactly when
  no key has two different entries with the same timestamp on the two nodes; such a tie is never
  resolved, because each node keeps its own entry.\<close>

theorem exchange_converges_iff:
  assumes "filed a" and "filed b"
  shows "(\<forall>ns k. entry_at (exchange a b) ns k = entry_at (exchange b a) ns k) \<longleftrightarrow>
         (\<nexists>ns k x y. entry_at a ns k = Some x \<and> entry_at b ns k = Some y \<and> stamp x = stamp y \<and> x \<noteq> y)"
proof -
  have "entry_at (exchange a b) ns k = entry_at (exchange b a) ns k \<longleftrightarrow>
      (\<nexists>x y. entry_at a ns k = Some x \<and> entry_at b ns k = Some y \<and> stamp x = stamp y \<and> x \<noteq> y)" for ns k
    by (auto simp: entry_at_exchange assms merge_with_def split: option.splits)
  then show ?thesis by blast
qed

theorem exchange_converges_iff_witness:
  "\<not> (\<forall>ns k. entry_at (exchange (sample_memory 1 ''a'') (sample_memory 1 ''b'')) ns k =
            entry_at (exchange (sample_memory 1 ''b'') (sample_memory 1 ''a'')) ns k)"
proof -
  have "sample_entry 1 ''a'' \<noteq> sample_entry 1 ''b''" by simp
  then have "\<exists>ns k x y. entry_at (sample_memory 1 ''a'') ns k = Some x \<and>
      entry_at (sample_memory 1 ''b'') ns k = Some y \<and> stamp x = stamp y \<and> x \<noteq> y"
    by (metis sample_memory_simps(2,3))
  then show ?thesis
    using exchange_converges_iff [of "sample_memory 1 ''a''" "sample_memory 1 ''b''"] by simp
qed

text \<open>A deletion never reaches the node that wrote the key. The tombstone keeps the node of the
  entry it buries, and the changes reported to a node leave out the entries of that node, so
  whatever it has been told before, it keeps its own entry when it merges the changes.\<close>

theorem deletion_hidden_from_writer:
  assumes "filed g" and "entry_at g ns k = Some e"
  shows "entry_at (fst (merge_entries (get_changes_since (entry_node e) since (fst (delete_key now k ns g))) a)) ns k
         = entry_at a ns k"
proof -
  let ?g = "fst (delete_key now k ns g)"
  have g: "filed ?g" using filed_step [OF assms(1), of "GDelete now k ns"] by simp
  have "entry_at ?g ns k = Some (bury now e)" by (simp add: gm_simps assms(2))
  then have "x = bury now e" if "x \<in> set (all_entries ?g)" "in_register ns k x" for x
    using that by (simp add: all_entries_iff [OF g] in_register_def)
  then have "filter (in_register ns k) (get_changes_since (entry_node e) since ?g) = []"
    unfolding get_changes_since_def filter_filter filter_empty_conv by force
  then show ?thesis by (simp add: gm_simps)
qed

theorem deletion_hidden_from_writer_witness:
  "snd (get_value ''k'' ''s'' (fst (delete_key 5 ''k'' ''s'' (sample_memory 1 ''a'')))) = None \<and>
   entry_at (fst (merge_entries (get_changes_since ''a'' 0 (fst (delete_key 5 ''k'' ''s'' (sample_memory 1 ''a''))))
     (sample_memory 1 ''a''))) ''s'' ''k'' = Some (sample_entry 1 ''a'')"
  using deletion_hidden_from_writer [of "sample_memory 1 ''a''" "''s''" "''k''" "sample_entry 1 ''a''" 0 5 "sample_memory 1 ''a''"]
  by (simp add: get_value_def gm_simps flip: entry_at_def)

lemma list_namespace_iff:
  assumes "filed g"
  shows "dict_get (list_namespace ns g) k = Some v \<longleftrightarrow>
           (\<exists>e. entry_at g ns k = Some e \<and> \<not> deleted e \<and> entry_value e = v)"
proof -
  let ?d = "namespace_of g ns"
  have d: "dict_wf ?d" by (rule filed_namespace [OF assms])
  then have l: "dict_wf (live ?d)" by (simp add: live_def)
  have "dict_get (list_namespace ns g) k = map_option entry_value (dict_get (live ?d) k)"
    unfolding list_namespace_def by (simp add: map_of_map comp_def)
  then show ?thesis
    using dict_get_iff [OF d] dict_get_iff [OF l] by (auto simp: entry_at_def live_def)
qed

end
