(* ===== verification/Supervisor.thy ===== *)
theory Supervisor
  imports Systems PyString
begin

text \<open>
  The supervisor of a worker node (\<open>engine/agent_runtime/supervisor.py\<close>). The event loop runs
  one piece of a coroutine at a time, from one \<open>await\<close> to the next; each such piece is a step
  of the model, so the reachable states are those of every interleaving. The objects of class
  \<open>WorkerInfo\<close> live in a store, because a coroutine keeps its object after the table of
  workers has dropped or replaced it. What a worker's execution returns is an argument of the
  step that resumes the coroutine.
\<close>

subsection \<open>Workers, coroutines and the supervisor\<close>

datatype WorkerStatus = PENDING | RUNNING | COMPLETED | FAILED | CANCELLED | CRASHED

record WorkerInfo =
  wi_id :: string
  wi_task :: string
  wi_status :: WorkerStatus
  wi_started :: "datetime option"
  wi_completed :: "datetime option"
  wi_goal :: string
  wi_error :: "string option"
  wi_progress :: rat

definition duration_ms :: "datetime \<Rightarrow> WorkerInfo \<Rightarrow> rat" where
  "duration_ms now w =
     (case wi_started w of
        None \<Rightarrow> 0
      | Some t \<Rightarrow> of_int ((case wi_completed w of None \<Rightarrow> now | Some c \<Rightarrow> c) - t) / 1000)"

record SupervisorConfig =
  sc_max_workers :: int
  sc_worker_timeout :: string
  sc_auto_recovery :: bool

text \<open>The arguments of \<open>_run_worker\<close> besides the worker's id.\<close>

record worker_args =
  wa_goal :: string
  wa_context :: "(string, string) dict"
  wa_tools :: "string list"
  wa_provider :: "string option"
  wa_max_steps :: int

text \<open>
  Where a coroutine of \<open>_run_worker\<close> stands: created, at one of its \<open>await\<close>s (the callback for
  a received task, the execution, the callback for a result, the delay before a restart), or
  done. The number is the reference of its \<open>WorkerInfo\<close>.
\<close>

datatype phase = Created | Receiving nat | Executing nat | Notifying nat | Sleeping nat | Done

record coroutine =
  co_worker :: string
  co_args :: worker_args
  co_phase :: phase
  co_cancelled :: bool

record AgentSupervisor =
  sv_config :: SupervisorConfig
  infos :: "WorkerInfo list"
  sv_workers :: "(string, nat) dict"
  coros :: "coroutine list"
  sv_tasks :: "(string, nat) dict"
  sv_gather :: "nat list option"
  sv_running :: bool
  sv_loops :: bool
  cb_received :: bool
  cb_completed :: bool
  cb_failed :: bool

definition init_supervisor :: "SupervisorConfig \<Rightarrow> AgentSupervisor" where
  "init_supervisor c = \<lparr>sv_config = c, infos = [], sv_workers = [], coros = [], sv_tasks = [], sv_gather = None,
     sv_running = False, sv_loops = False, cb_received = False, cb_completed = False, cb_failed = False\<rparr>"

definition start_supervisor :: "AgentSupervisor \<Rightarrow> AgentSupervisor" where
  "start_supervisor s = s\<lparr>sv_running := True, sv_loops := True\<rparr>"

definition set_info :: "nat \<Rightarrow> (WorkerInfo \<Rightarrow> WorkerInfo) \<Rightarrow> AgentSupervisor \<Rightarrow> AgentSupervisor" where
  "set_info r f s = s\<lparr>infos := (infos s)[r := f (infos s ! r)]\<rparr>"

definition set_phase :: "nat \<Rightarrow> phase \<Rightarrow> AgentSupervisor \<Rightarrow> AgentSupervisor" where
  "set_phase t p s = s\<lparr>coros := (coros s)[t := (coros s ! t)\<lparr>co_phase := p\<rparr>]\<rparr>"

definition create_coroutine :: "string \<Rightarrow> worker_args \<Rightarrow> AgentSupervisor \<Rightarrow> AgentSupervisor" where
  "create_coroutine wid args s = s\<lparr>coros := coros s @
     [\<lparr>co_worker = wid, co_args = args, co_phase = Created, co_cancelled = False\<rparr>]\<rparr>"

subsection \<open>The worker pool\<close>

definition worker_id_of :: "string \<Rightarrow> AgentSupervisor \<Rightarrow> string" where
  "worker_id_of tid s = ''w-'' @ utf8_take 8 tid @ ''-'' @ show_nat (length (sv_workers s))"

text \<open>
  \<open>spawn_worker\<close>. The semaphore is released at the end of the \<open>async with\<close> block, which has no
  \<open>await\<close> inside: it is free again before any other coroutine runs, and all it does is to
  block for ever when \<open>max_workers\<close> is 0 (a negative value is refused by the constructor).
\<close>

definition spawn_worker :: "string \<Rightarrow> worker_args \<Rightarrow> AgentSupervisor \<Rightarrow> AgentSupervisor" where
  "spawn_worker tid args s =
     (let wid = worker_id_of tid s;
          info = \<lparr>wi_id = wid, wi_task = tid, wi_status = PENDING, wi_started = None,
                  wi_completed = None, wi_goal = wa_goal args, wi_error = None, wi_progress = 0\<rparr>
      in (create_coroutine wid args s)
           \<lparr>infos := infos s @ [info], sv_workers := dict_set wid (length (infos s)) (sv_workers s),
            sv_tasks := dict_set wid (length (coros s)) (sv_tasks s)\<rparr>)"

text \<open>\<open>_run_worker\<close>, from one \<open>await\<close> to the next.\<close>

definition finish_coroutine :: "datetime \<Rightarrow> nat \<Rightarrow> nat \<Rightarrow> AgentSupervisor \<Rightarrow> AgentSupervisor" where
  "finish_coroutine now t r s = set_phase t Done (set_info r (\<lambda>w. w\<lparr>wi_completed := Some now\<rparr>) s)"

definition begin_worker :: "datetime \<Rightarrow> nat \<Rightarrow> AgentSupervisor \<Rightarrow> AgentSupervisor" where
  "begin_worker now t s =
     (case dict_get (sv_workers s) (co_worker (coros s ! t)) of
        None \<Rightarrow> set_phase t Done s
      | Some r \<Rightarrow> set_phase t (if cb_received s then Receiving r else Executing r)
          (set_info r (\<lambda>w. w\<lparr>wi_status := RUNNING, wi_started := Some now\<rparr>) s))"

text \<open>What \<open>_execute_with_timeout\<close> returns when the worker does not raise.\<close>

datatype outcome = Result bool "string option" | Timeout

definition execute_with_timeout :: "SupervisorConfig \<Rightarrow> outcome \<Rightarrow> bool \<times> string option" where
  "execute_with_timeout c x =
     (case x of Result ok e \<Rightarrow> (ok, e)
      | Timeout \<Rightarrow> (False, Some (''Timeout: '' @ sc_worker_timeout c @ ''s exceeded'')))"

definition worker_result :: "datetime \<Rightarrow> nat \<Rightarrow> nat \<Rightarrow> outcome \<Rightarrow> AgentSupervisor \<Rightarrow> AgentSupervisor" where
  "worker_result now t r x s =
     (case execute_with_timeout (sv_config s) x of
        (ok, e) \<Rightarrow>
          let s = set_info r (\<lambda>w. w\<lparr>wi_status := (if ok then COMPLETED else FAILED),
                    wi_progress := 1, wi_error := e\<rparr>) s
          in if (if ok then cb_completed s else cb_failed s) then set_phase t (Notifying r) s
             else finish_coroutine now t r s)"

definition worker_raises :: "datetime \<Rightarrow> nat \<Rightarrow> nat \<Rightarrow> string \<Rightarrow> AgentSupervisor \<Rightarrow> AgentSupervisor" where
  "worker_raises now t r e s =
     (let s = set_info r (\<lambda>w. w\<lparr>wi_status := CRASHED, wi_error := Some e\<rparr>) s
      in if sc_auto_recovery (sv_config s) then set_phase t (Sleeping r) s
         else finish_coroutine now t r s)"

text \<open>After the delay a new coroutine is created; it is not entered into \<open>_worker_tasks\<close>.\<close>

definition restart_worker :: "datetime \<Rightarrow> nat \<Rightarrow> nat \<Rightarrow> AgentSupervisor \<Rightarrow> AgentSupervisor" where
  "restart_worker now t r s =
     finish_coroutine now t r (create_coroutine (co_worker (coros s ! t)) (co_args (coros s ! t)) s)"

text \<open>\<open>CancelledError\<close> at an \<open>await\<close>; inside the handler of a crash it leaves the status alone.\<close>

definition interrupt_worker :: "datetime \<Rightarrow> nat \<Rightarrow> AgentSupervisor \<Rightarrow> AgentSupervisor" where
  "interrupt_worker now t s =
     (case co_phase (coros s ! t) of
        Created \<Rightarrow> set_phase t Done s
      | Receiving r \<Rightarrow> finish_coroutine now t r (set_info r (\<lambda>w. w\<lparr>wi_status := CANCELLED\<rparr>) s)
      | Executing r \<Rightarrow> finish_coroutine now t r (set_info r (\<lambda>w. w\<lparr>wi_status := CANCELLED\<rparr>) s)
      | Notifying r \<Rightarrow> finish_coroutine now t r (set_info r (\<lambda>w. w\<lparr>wi_status := CANCELLED\<rparr>) s)
      | Sleeping r \<Rightarrow> finish_coroutine now t r s
      | Done \<Rightarrow> s)"

text \<open>\<open>task.cancel()\<close> marks a coroutine that is not done; the loop interrupts it when it resumes it.\<close>

definition cancel_coroutine :: "nat \<Rightarrow> AgentSupervisor \<Rightarrow> AgentSupervisor" where
  "cancel_coroutine t s =
     (if co_phase (coros s ! t) = Done then s
      else s\<lparr>coros := (coros s)[t := (coros s ! t)\<lparr>co_cancelled := True\<rparr>]\<rparr>)"

definition mark_cancelled :: "string \<Rightarrow> AgentSupervisor \<Rightarrow> AgentSupervisor" where
  "mark_cancelled wid s =
     (case dict_get (sv_workers s) wid of
        None \<Rightarrow> s
      | Some r \<Rightarrow> set_info r (\<lambda>w. w\<lparr>wi_status := CANCELLED\<rparr>) s)"

definition cancel_worker :: "string \<Rightarrow> AgentSupervisor \<Rightarrow> AgentSupervisor \<times> bool" where
  "cancel_worker wid s =
     (case dict_get (sv_tasks s) wid of
        None \<Rightarrow> (s, False)
      | Some t \<Rightarrow> (mark_cancelled wid (cancel_coroutine t s), True))"

text \<open>
  \<open>stop\<close> up to its \<open>gather\<close>, which waits for the coroutines that are tracked at that moment
  (\<open>sv_gather\<close>), and after it. Nothing is waited for or cleared when there are none.
\<close>

definition stop_begin :: "AgentSupervisor \<Rightarrow> AgentSupervisor" where
  "stop_begin s =
     (fold (\<lambda>(wid, t) s. mark_cancelled wid (cancel_coroutine t s)) (sv_tasks s) (s\<lparr>sv_running := False\<rparr>))
       \<lparr>sv_gather := Some (dict_values (sv_tasks s))\<rparr>"

definition gathered :: "AgentSupervisor \<Rightarrow> bool" where
  "gathered s \<longleftrightarrow> (case sv_gather s of None \<Rightarrow> False
     | Some ts \<Rightarrow> list_all (\<lambda>t. co_phase (coros s ! t) = Done) ts)"

definition stop_end :: "AgentSupervisor \<Rightarrow> AgentSupervisor" where
  "stop_end s = s\<lparr>sv_tasks := (if sv_gather s = Some [] then sv_tasks s else []), sv_gather := None,
     sv_loops := False\<rparr>"

definition list_workers :: "WorkerStatus option \<Rightarrow> AgentSupervisor \<Rightarrow> WorkerInfo list" where
  "list_workers st s =
     (let ws = map (\<lambda>r. infos s ! r) (dict_values (sv_workers s))
      in case st of None \<Rightarrow> ws | Some x \<Rightarrow> filter (\<lambda>w. wi_status w = x) ws)"

definition get_worker :: "string \<Rightarrow> AgentSupervisor \<Rightarrow> WorkerInfo option" where
  "get_worker wid s = map_option (\<lambda>r. infos s ! r) (dict_get (sv_workers s) wid)"

definition active_worker_count :: "AgentSupervisor \<Rightarrow> nat" where
  "active_worker_count s = length (list_workers (Some RUNNING) s)"

definition worker_slots_available :: "AgentSupervisor \<Rightarrow> int" where
  "worker_slots_available s = sc_max_workers (sv_config s) - int (active_worker_count s)"

subsection \<open>The background loops\<close>

text \<open>What a heartbeat says (\<open>_send_heartbeat\<close>), besides the node's identity and the time.\<close>

record heartbeat_data =
  hb_active :: int
  hb_max :: int
  hb_slots :: int
  hb_workers :: "(string \<times> string \<times> WorkerStatus \<times> rat) list"

definition heartbeat_payload :: "AgentSupervisor \<Rightarrow> heartbeat_data" where
  "heartbeat_payload s = \<lparr>hb_active = int (active_worker_count s), hb_max = sc_max_workers (sv_config s),
     hb_slots = worker_slots_available s,
     hb_workers = map (\<lambda>w. (wi_id w, wi_task w, wi_status w, wi_progress w)) (list_workers None s)\<rparr>"

text \<open>One round of \<open>_task_listener_loop\<close>: \<open>poll\<close> is the coordinator's \<open>poll_tasks\<close> for this node.\<close>

definition listen :: "(int \<Rightarrow> (string \<times> worker_args) list) \<Rightarrow> AgentSupervisor \<Rightarrow> AgentSupervisor" where
  "listen poll s = fold (\<lambda>(tid, args) s. spawn_worker tid args s) (poll (worker_slots_available s)) s"

definition collect_health :: "AgentSupervisor \<Rightarrow> string \<times> string option" where
  "collect_health s =
     (let crashed = length (list_workers (Some CRASHED) s)
      in if crashed > 3 then (''degraded'', Some (show_nat crashed @ '' crashed workers''))
         else (''healthy'', None))"

definition retention_over :: "datetime \<Rightarrow> WorkerInfo \<Rightarrow> bool" where
  "retention_over now w \<longleftrightarrow> wi_status w \<in> {COMPLETED, FAILED, CANCELLED} \<and>
     (case wi_completed w of None \<Rightarrow> False | Some c \<Rightarrow> now - c > 60 * 1000000)"

definition cleanup_workers :: "datetime \<Rightarrow> AgentSupervisor \<Rightarrow> AgentSupervisor" where
  "cleanup_workers now s =
     (let ids = map fst (filter (\<lambda>(wid, r). retention_over now (infos s ! r)) (sv_workers s))
      in s\<lparr>sv_workers := fold dict_del ids (sv_workers s), sv_tasks := fold dict_del ids (sv_tasks s)\<rparr>)"

subsection \<open>Steps and reachable states\<close>

inductive sv_step :: "AgentSupervisor \<Rightarrow> AgentSupervisor \<Rightarrow> bool" where
  Start: "sv_step s (start_supervisor s)"
| Set_received: "sv_step s (s\<lparr>cb_received := True\<rparr>)"
| Set_completed: "sv_step s (s\<lparr>cb_completed := True\<rparr>)"
| Set_failed: "sv_step s (s\<lparr>cb_failed := True\<rparr>)"
| Spawn: "sc_max_workers (sv_config s) > 0 \<Longrightarrow> sv_step s (spawn_worker tid args s)"
| Listen: "sv_loops s \<Longrightarrow> sc_max_workers (sv_config s) > 0 \<Longrightarrow> sv_step s (listen poll s)"
| Begin: "t < length (coros s) \<Longrightarrow> co_phase (coros s ! t) = Created \<Longrightarrow> \<not> co_cancelled (coros s ! t) \<Longrightarrow>
    sv_step s (begin_worker now t s)"
| Received: "t < length (coros s) \<Longrightarrow> co_phase (coros s ! t) = Receiving r \<Longrightarrow> \<not> co_cancelled (coros s ! t) \<Longrightarrow>
    sv_step s (set_phase t (Executing r) s)"
| Returns: "t < length (coros s) \<Longrightarrow> co_phase (coros s ! t) = Executing r \<Longrightarrow> \<not> co_cancelled (coros s ! t) \<Longrightarrow>
    sv_step s (worker_result now t r x s)"
| Notified: "t < length (coros s) \<Longrightarrow> co_phase (coros s ! t) = Notifying r \<Longrightarrow> \<not> co_cancelled (coros s ! t) \<Longrightarrow>
    sv_step s (finish_coroutine now t r s)"
| Raises: "t < length (coros s) \<Longrightarrow> co_phase (coros s ! t) \<in> {Receiving r, Executing r, Notifying r} \<Longrightarrow>
    \<not> co_cancelled (coros s ! t) \<Longrightarrow> sv_step s (worker_raises now t r e s)"
| Restart: "t < length (coros s) \<Longrightarrow> co_phase (coros s ! t) = Sleeping r \<Longrightarrow> \<not> co_cancelled (coros s ! t) \<Longrightarrow>
    sv_step s (restart_worker now t r s)"
| Interrupt: "t < length (coros s) \<Longrightarrow> co_cancelled (coros s ! t) \<Longrightarrow> sv_step s (interrupt_worker now t s)"
| Cancel: "sv_step s (fst (cancel_worker wid s))"
| Cleanup: "sv_loops s \<Longrightarrow> sv_step s (cleanup_workers now s)"
| Stop_begin: "sv_step s (stop_begin s)"
| Stop_end: "gathered s \<Longrightarrow> sv_step s (stop_end s)"

definition reachable :: "SupervisorConfig \<Rightarrow> AgentSupervisor \<Rightarrow> bool" where
  "reachable c s \<longleftrightarrow> sv_step\<^sup>*\<^sup>* (init_supervisor c) s"

lemma reachable_init [intro, simp]: "reachable c (init_supervisor c)"
  by (simp add: reachable_def)

lemma reachable_step [intro]: "reachable c s \<Longrightarrow> sv_step s s' \<Longrightarrow> reachable c s'"
  by (simp add: reachable_def)

lemma reachable_steps: "reachable c s \<Longrightarrow> sv_step\<^sup>*\<^sup>* s s' \<Longrightarrow> reachable c s'"
  by (simp add: reachable_def)

subsection \<open>The invariant\<close>

lemma dict_values_set: "set (dict_values (dict_set k v d)) \<subseteq> insert v (set (dict_values d))"
  by (induction d) auto

lemma dict_values_del_many: "set (dict_values (fold dict_del ks d)) \<subseteq> set (dict_values d)"
proof (induction ks arbitrary: d)
  case (Cons k ks)
  have "set (dict_values (dict_del k d)) \<subseteq> set (dict_values d)" by (auto simp: set_dict_del)
  with Cons [of "dict_del k d"] show ?case by (simp del: set_map)
qed simp

definition runs :: "phase \<Rightarrow> nat \<Rightarrow> bool" where
  "runs p r \<longleftrightarrow> p = Receiving r \<or> p = Executing r"

fun refers :: "phase \<Rightarrow> nat set" where
  "refers Created = {}"
| "refers (Receiving r) = {r}"
| "refers (Executing r) = {r}"
| "refers (Notifying r) = {r}"
| "refers (Sleeping r) = {r}"
| "refers Done = {}"

definition executed :: "AgentSupervisor \<Rightarrow> nat \<Rightarrow> bool" where
  "executed s r \<longleftrightarrow> (\<exists>t<length (coros s). runs (co_phase (coros s ! t)) r)"

definition refs_ok :: "AgentSupervisor \<Rightarrow> bool" where
  "refs_ok s \<longleftrightarrow> dict_wf (sv_workers s) \<and>
     (\<forall>wid r. dict_get (sv_workers s) wid = Some r \<longrightarrow> r < length (infos s)) \<and>
     (\<forall>t\<in>set (dict_values (sv_tasks s)). t < length (coros s)) \<and>
     (\<forall>t<length (coros s). \<forall>r\<in>refers (co_phase (coros s ! t)). r < length (infos s))"

definition running_ok :: "AgentSupervisor \<Rightarrow> bool" where
  "running_ok s \<longleftrightarrow> (\<forall>r<length (infos s). wi_status (infos s ! r) = RUNNING \<longrightarrow> executed s r)"

definition sv_inv :: "AgentSupervisor \<Rightarrow> bool" where
  "sv_inv s \<longleftrightarrow> refs_ok s \<and> running_ok s"

named_theorems sv_simps \<open>Projections of the primitive updates\<close>

lemma set_info_simps [sv_simps, simp]:
  "infos (set_info r f s) = (infos s)[r := f (infos s ! r)]" "coros (set_info r f s) = coros s"
  "sv_workers (set_info r f s) = sv_workers s" "sv_tasks (set_info r f s) = sv_tasks s"
  "sv_config (set_info r f s) = sv_config s" "cb_completed (set_info r f s) = cb_completed s"
  "cb_failed (set_info r f s) = cb_failed s" "sv_running (set_info r f s) = sv_running s"
  "sv_loops (set_info r f s) = sv_loops s" "cb_received (set_info r f s) = cb_received s"
  by (simp_all add: set_info_def)

lemma set_phase_simps [sv_simps, simp]:
  "infos (set_phase t p s) = infos s" "coros (set_phase t p s) = (coros s)[t := (coros s ! t)\<lparr>co_phase := p\<rparr>]"
  "sv_workers (set_phase t p s) = sv_workers s" "sv_tasks (set_phase t p s) = sv_tasks s"
  "sv_config (set_phase t p s) = sv_config s" "cb_received (set_phase t p s) = cb_received s"
  "sv_running (set_phase t p s) = sv_running s" "sv_loops (set_phase t p s) = sv_loops s"
  by (simp_all add: set_phase_def)

lemma create_coroutine_simps [sv_simps, simp]:
  "infos (create_coroutine wid args s) = infos s" "sv_workers (create_coroutine wid args s) = sv_workers s"
  "sv_tasks (create_coroutine wid args s) = sv_tasks s"
  "coros (create_coroutine wid args s) = coros s @
     [\<lparr>co_worker = wid, co_args = args, co_phase = Created, co_cancelled = False\<rparr>]"
  by (simp_all add: create_coroutine_def)

lemma refs_okD:
  assumes "refs_ok s"
  shows "dict_get (sv_workers s) wid = Some r \<Longrightarrow> r < length (infos s)"
    and "t \<in> set (dict_values (sv_tasks s)) \<Longrightarrow> t < length (coros s)"
    and "t < length (coros s) \<Longrightarrow> r \<in> refers (co_phase (coros s ! t)) \<Longrightarrow> r < length (infos s)"
  using assms by (auto simp: refs_ok_def)

lemma list_update_outside: "\<not> i < length xs \<Longrightarrow> xs[i := x] = xs"
  by (simp add: list_update_beyond)

text \<open>The two shapes of a step of a coroutine: one changes its phase alone, one its worker too.\<close>

lemma inv_set_phase:
  assumes "sv_inv s" and "refers p \<subseteq> refers (co_phase (coros s ! t))"
    and "\<And>r. runs (co_phase (coros s ! t)) r \<Longrightarrow> runs p r"
  shows "sv_inv (set_phase t p s)"
proof (cases "t < length (coros s)")
  case True
  have "executed (set_phase t p s) r" if "executed s r" for r
  proof -
    from that obtain u where "u < length (coros s)" "runs (co_phase (coros s ! u)) r"
      by (auto simp: executed_def)
    with assms(3) True show ?thesis
      by (auto simp: executed_def nth_list_update intro!: exI [of _ u])
  qed
  with assms True show ?thesis
    by (force simp: sv_inv_def refs_ok_def running_ok_def nth_list_update)
qed (use assms in \<open>simp add: set_phase_def list_update_outside\<close>)

lemma inv_update:
  assumes s: "sv_inv s" and r: "r < length (infos s)" and t: "t < length (coros s)" and p: "refers p \<subseteq> {r}"
    and old: "\<And>q. runs (co_phase (coros s ! t)) q \<Longrightarrow> q = r"
    and new: "wi_status (f (infos s ! r)) = RUNNING \<Longrightarrow>
        runs p r \<or> (wi_status (infos s ! r) = RUNNING \<and> \<not> runs (co_phase (coros s ! t)) r)"
  shows "sv_inv (set_phase t p (set_info r f s))"
proof -
  let ?s = "set_phase t p (set_info r f s)"
  have "refs_ok ?s"
    using s r t p by (auto simp: sv_inv_def refs_ok_def nth_list_update)
  moreover have "executed ?s q" if "q < length (infos s)" "wi_status (infos ?s ! q) = RUNNING" for q
  proof (cases "q = r")
    case True
    with that r have "wi_status (f (infos s ! r)) = RUNNING" by simp
    from new [OF this] show ?thesis
    proof
      assume "runs p r"
      with t True show ?thesis by (auto simp: executed_def)
    next
      assume *: "wi_status (infos s ! r) = RUNNING \<and> \<not> runs (co_phase (coros s ! t)) r"
      with s r obtain u where "u < length (coros s)" "runs (co_phase (coros s ! u)) r"
        by (auto simp: sv_inv_def running_ok_def executed_def)
      moreover from this * have "u \<noteq> t" by auto
      ultimately show ?thesis using True by (auto simp: executed_def intro!: exI [of _ u])
    qed
  next
    case False
    with that s obtain u where u: "u < length (coros s)" "runs (co_phase (coros s ! u)) q"
      by (auto simp: sv_inv_def running_ok_def executed_def)
    with old False have "u \<noteq> t" by auto
    with u show ?thesis by (auto simp: executed_def intro!: exI [of _ u])
  qed
  ultimately show ?thesis by (simp add: sv_inv_def running_ok_def)
qed

lemma inv_set_info:
  assumes "sv_inv s" and "wi_status (f (infos s ! r)) \<noteq> RUNNING"
  shows "sv_inv (set_info r f s)"
proof -
  have "executed s q" if "q < length (infos s)" "wi_status (infos (set_info r f s) ! q) = RUNNING" for q
    using that assms by (cases "q = r") (auto simp: sv_inv_def running_ok_def)
  with assms(1) show ?thesis
    by (simp add: sv_inv_def refs_ok_def running_ok_def executed_def)
qed

lemma runs_refers: "runs p q \<Longrightarrow> q \<in> refers p"
  by (auto simp: runs_def)

lemma set_phase_info_twice:
  "finish_coroutine now t r (set_info r f s) =
     set_phase t Done (set_info r (\<lambda>w. (f w)\<lparr>wi_completed := Some now\<rparr>) s)" if "r < length (infos s)"
  using that by (simp add: finish_coroutine_def set_phase_def set_info_def)

lemma inv_create: "sv_inv s \<Longrightarrow> sv_inv (create_coroutine wid args s)"
proof -
  assume s: "sv_inv s"
  have "executed (create_coroutine wid args s) r" if "executed s r" for r
    using that by (auto simp: executed_def nth_append intro: less_SucI)
  with s show ?thesis
    by (auto simp: sv_inv_def refs_ok_def running_ok_def nth_append less_Suc_eq)
qed

lemma inv_spawn: "sv_inv s \<Longrightarrow> sv_inv (spawn_worker tid args s)"
proof -
  assume s: "sv_inv s"
  have "executed (spawn_worker tid args s) r" if "executed s r" for r
    using that by (auto simp: executed_def spawn_worker_def Let_def nth_append intro: less_SucI)
  moreover have "refs_ok (spawn_worker tid args s)"
    unfolding refs_ok_def
  proof (intro conjI allI ballI impI)
    note ok = s [unfolded sv_inv_def refs_ok_def]
    let ?s = "spawn_worker tid args s"
    show "dict_wf (sv_workers ?s)" using ok by (simp add: spawn_worker_def Let_def)
    show "r < length (infos ?s)" if "dict_get (sv_workers ?s) wid = Some r" for wid r
      using that ok by (auto simp: spawn_worker_def Let_def less_Suc_eq split: if_splits)
    show "t < length (coros ?s)" if "t \<in> set (dict_values (sv_tasks ?s))" for t
      using that ok dict_values_set [of "worker_id_of tid s" "length (coros s)" "sv_tasks s"]
      by (auto simp: spawn_worker_def Let_def less_Suc_eq simp del: set_map)
    show "r < length (infos ?s)" if "t < length (coros ?s)" "r \<in> refers (co_phase (coros ?s ! t))" for t r
      using that ok by (auto simp: spawn_worker_def Let_def nth_append less_Suc_eq split: if_splits)
  qed
  moreover have "wi_status (infos (spawn_worker tid args s) ! r) = RUNNING \<Longrightarrow>
      r < length (infos (spawn_worker tid args s)) \<Longrightarrow> r < length (infos s) \<and> wi_status (infos s ! r) = RUNNING" for r
    by (auto simp: spawn_worker_def Let_def nth_append less_Suc_eq split: if_splits)
  ultimately show ?thesis using s by (auto simp: sv_inv_def running_ok_def)
qed

lemma inv_cancel_coroutine: "sv_inv s \<Longrightarrow> sv_inv (cancel_coroutine t s)"
proof (cases "t < length (coros s)")
  case True
  assume s: "sv_inv s"
  have ph: "co_phase (coros (cancel_coroutine t s) ! u) = co_phase (coros s ! u)" for u
    by (simp add: cancel_coroutine_def nth_list_update True)
  have "length (coros (cancel_coroutine t s)) = length (coros s)" "infos (cancel_coroutine t s) = infos s"
    "sv_workers (cancel_coroutine t s) = sv_workers s" "sv_tasks (cancel_coroutine t s) = sv_tasks s"
    by (simp_all add: cancel_coroutine_def)
  with s ph show ?thesis by (simp add: sv_inv_def refs_ok_def running_ok_def executed_def)
next
  case False
  then show "sv_inv s \<Longrightarrow> sv_inv (cancel_coroutine t s)"
    by (simp add: cancel_coroutine_def list_update_outside)
qed

lemma inv_mark: "sv_inv s \<Longrightarrow> sv_inv (mark_cancelled wid s)"
  by (auto simp: mark_cancelled_def intro: inv_set_info split: option.split)

lemma inv_stop: "sv_inv s \<Longrightarrow> sv_inv (fold (\<lambda>(wid, t) s. mark_cancelled wid (cancel_coroutine t s)) ts s)"
  by (induction ts arbitrary: s) (auto intro: inv_mark inv_cancel_coroutine)

lemma inv_flags [simp]:
  "sv_inv (s\<lparr>cb_received := b\<rparr>) = sv_inv s" "sv_inv (s\<lparr>cb_completed := b\<rparr>) = sv_inv s"
  "sv_inv (s\<lparr>sv_gather := g\<rparr>) = sv_inv s" "sv_inv (s\<lparr>cb_failed := b\<rparr>) = sv_inv s" "sv_inv (s\<lparr>sv_running := b\<rparr>) = sv_inv s"
  "sv_inv (s\<lparr>sv_running := b, sv_loops := c\<rparr>) = sv_inv s"
  by (simp_all add: sv_inv_def refs_ok_def running_ok_def executed_def)

lemma inv_listen: "sv_inv s \<Longrightarrow> sv_inv (fold (\<lambda>(tid, args) s. spawn_worker tid args s) ts s)"
  by (induction ts arbitrary: s) (auto intro: inv_spawn)

lemma dict_get_del_many: "dict_get (fold dict_del ks d) k = (if k \<in> set ks then None else dict_get d k)"
  by (induction ks arbitrary: d) auto

lemma dict_wf_del_many [simp]: "dict_wf d \<Longrightarrow> dict_wf (fold dict_del ks d)"
  by (induction ks arbitrary: d) auto

lemma inv_step: "sv_step s s' \<Longrightarrow> sv_inv s \<Longrightarrow> sv_inv s'"
proof (induction rule: sv_step.induct)
  case (Begin t s now)
  show ?case
  proof (cases "dict_get (sv_workers s) (co_worker (coros s ! t))")
    case None
    with Begin show ?thesis by (auto simp: begin_worker_def runs_def intro: inv_set_phase)
  next
    case (Some r)
    with Begin have "r < length (infos s)" using refs_okD(1) by (auto simp: sv_inv_def)
    with Begin Some show ?thesis
      by (auto simp: begin_worker_def runs_def simp del: set_info_simps intro: inv_update)
  qed
next
  case (Received t s r)
  then show ?case by (auto simp: runs_def intro: inv_set_phase)
next
  case (Returns t s r now x)
  have r: "r < length (infos s)" using Returns refs_okD(3) [of s t r] by (simp add: sv_inv_def)
  with Returns show ?case
    by (auto simp: worker_result_def Let_def set_phase_info_twice runs_def split: prod.split intro!: inv_update)
next
  case (Notified t s r now)
  have r: "r < length (infos s)" using Notified refs_okD(3) [of s t r] by (simp add: sv_inv_def)
  with Notified show ?case
    by (auto simp: finish_coroutine_def runs_def intro!: inv_update)
next
  case (Raises t s r now e)
  have r: "r < length (infos s)" using Raises refs_okD(3) [of s t r] by (auto simp: sv_inv_def)
  with Raises show ?case
    by (auto simp: worker_raises_def Let_def set_phase_info_twice runs_def intro!: inv_update)
next
  case (Restart t s r now)
  let ?s = "create_coroutine (co_worker (coros s ! t)) (co_args (coros s ! t)) s"
  have r: "r < length (infos s)" using Restart refs_okD(3) [of s t r] by (simp add: sv_inv_def)
  have "sv_inv (set_phase t Done (set_info r (\<lambda>w. w\<lparr>wi_completed := Some now\<rparr>) ?s))"
    by (rule inv_update) (use Restart r in \<open>auto simp: runs_def nth_append inv_create\<close>)
  then show ?case by (simp add: restart_worker_def finish_coroutine_def)
next
  case (Interrupt t s now)
  have r: "r < length (infos s)" if "r \<in> refers (co_phase (coros s ! t))" for r
    using that Interrupt refs_okD(3) [of s t r] by (simp add: sv_inv_def)
  show ?case
  proof (cases "co_phase (coros s ! t)")
    case Created
    with Interrupt show ?thesis by (auto simp: interrupt_worker_def runs_def intro: inv_set_phase)
  next
    case (Sleeping q)
    with Interrupt r [of q] show ?thesis
      by (auto simp: interrupt_worker_def finish_coroutine_def runs_def intro!: inv_update)
  next
    case Done
    with Interrupt show ?thesis by (simp add: interrupt_worker_def)
  qed (use Interrupt r in \<open>auto simp: interrupt_worker_def set_phase_info_twice runs_def intro!: inv_update\<close>)
next
  case (Cleanup s now)
  let ?s = "cleanup_workers now s"
  have "dict_get (sv_workers s) wid = Some r" if "dict_get (sv_workers ?s) wid = Some r" for wid r
    using that by (simp add: cleanup_workers_def Let_def dict_get_del_many split: if_splits)
  moreover have "set (dict_values (sv_tasks ?s)) \<subseteq> set (dict_values (sv_tasks s))"
    "dict_wf (sv_workers s) \<Longrightarrow> dict_wf (sv_workers ?s)" "coros ?s = coros s" "infos ?s = infos s"
    by (simp_all add: cleanup_workers_def Let_def dict_values_del_many del: set_map)
  ultimately show ?case
    using Cleanup(2) unfolding sv_inv_def refs_ok_def running_ok_def executed_def by (simp del: set_map) blast
next
  case (Stop_end s)
  then show ?case by (simp add: stop_end_def sv_inv_def refs_ok_def running_ok_def executed_def)
qed (auto simp: start_supervisor_def listen_def cancel_worker_def stop_begin_def
      intro: inv_spawn inv_listen inv_mark inv_cancel_coroutine inv_stop split: option.split)

lemma inv_init: "sv_inv (init_supervisor c)"
  by (simp add: init_supervisor_def sv_inv_def refs_ok_def running_ok_def)

lemma reachable_inv: "reachable c s \<Longrightarrow> sv_inv s"
  unfolding reachable_def
  by (induction rule: rtranclp_induct) (rule inv_init, rule inv_step)

text \<open>C38: The pool has no zombies: in every reachable state, whatever the interleaving, a worker
  that is listed as running is executed by a coroutine that has not finished.\<close>

theorem running_has_coroutine:
  assumes "reachable c s" and "w \<in> set (list_workers (Some RUNNING) s)"
  shows "\<exists>r t. t < length (coros s) \<and> runs (co_phase (coros s ! t)) r \<and> infos s ! r = w"
proof -
  from assms(2) obtain r wid where w: "w = infos s ! r" "wi_status w = RUNNING" "(wid, r) \<in> set (sv_workers s)"
    by (auto simp: list_workers_def)
  have inv: "refs_ok s" "running_ok s" using reachable_inv [OF assms(1)] by (simp_all add: sv_inv_def)
  with w(3) have "dict_get (sv_workers s) wid = Some r" by (simp add: dict_get_iff refs_ok_def)
  with inv w have "executed s r" using refs_okD(1) by (auto simp: running_ok_def)
  with w(1) show ?thesis by (auto simp: executed_def)
qed

subsection \<open>Coroutines that nothing can cancel\<close>

definition untracked :: "nat \<Rightarrow> AgentSupervisor \<Rightarrow> bool" where
  "untracked t s \<longleftrightarrow> t < length (coros s) \<and> t \<notin> set (dict_values (sv_tasks s)) \<and> \<not> co_cancelled (coros s ! t)"

lemma untracked_create [simp]: "untracked t s \<Longrightarrow> untracked t (create_coroutine wid args s)"
  by (simp add: untracked_def nth_append)

lemma untracked_set_info [simp]: "untracked t (set_info r f s) = untracked t s"
  by (simp add: untracked_def)

lemma untracked_set_phase [simp]: "untracked t (set_phase u p s) = untracked t s"
  by (cases "u = t") (auto simp: untracked_def list_update_outside)

lemma untracked_flags [simp]:
  "untracked t (s\<lparr>cb_received := b\<rparr>) = untracked t s" "untracked t (s\<lparr>cb_completed := b\<rparr>) = untracked t s"
  "untracked t (s\<lparr>sv_gather := g\<rparr>) = untracked t s" "untracked t (s\<lparr>cb_failed := b\<rparr>) = untracked t s" "untracked t (s\<lparr>sv_running := b\<rparr>) = untracked t s"
  by (simp_all add: untracked_def)

lemma untracked_spawn: "untracked t s \<Longrightarrow> untracked t (spawn_worker tid args s)"
  using dict_values_set [of "worker_id_of tid s" "length (coros s)" "sv_tasks s"]
  by (auto simp: untracked_def spawn_worker_def Let_def nth_append)

lemma untracked_listen: "untracked t s \<Longrightarrow> untracked t (fold (\<lambda>(tid, args) s. spawn_worker tid args s) ts s)"
  by (induction ts arbitrary: s) (auto intro: untracked_spawn)

lemma untracked_cancel: "untracked t s \<Longrightarrow> u \<noteq> t \<Longrightarrow> untracked t (cancel_coroutine u s)"
  by (simp add: untracked_def cancel_coroutine_def)

lemma untracked_mark [simp]: "untracked t (mark_cancelled wid s) = untracked t s"
  by (simp add: mark_cancelled_def split: option.split)

lemma untracked_stop:
  "untracked t s \<Longrightarrow> t \<notin> set (dict_values ts) \<Longrightarrow>
     untracked t (fold (\<lambda>(wid, t) s. mark_cancelled wid (cancel_coroutine t s)) ts s)"
proof (induction ts arbitrary: s)
  case (Cons p ts)
  then have "untracked t (mark_cancelled (fst p) (cancel_coroutine (snd p) s))"
    by (auto intro: untracked_cancel)
  with Cons show ?case by (simp add: case_prod_unfold)
qed simp

lemma untracked_step: "sv_step s s' \<Longrightarrow> untracked t s \<Longrightarrow> untracked t s'"
proof (induction rule: sv_step.induct)
  case (Cancel s wid)
  have "untracked t (cancel_coroutine u s)" if "dict_get (sv_tasks s) wid = Some u" for u
    using that Cancel by (intro untracked_cancel) (force simp: untracked_def dest: map_of_SomeD)+
  with Cancel show ?case by (simp add: cancel_worker_def split: option.split)
next
  case (Cleanup s now)
  then show ?case
    using dict_values_del_many [of _ "sv_tasks s"]
    by (simp add: untracked_def cleanup_workers_def Let_def del: set_map) blast
next
  case (Stop_begin s)
  then show ?case
    by (auto simp: stop_begin_def untracked_def [of t s] intro!: untracked_stop)
next
  case (Returns ta s r now x)
  then show ?case
    by (simp add: worker_result_def finish_coroutine_def Let_def split: prod.split)
next
  case (Interrupt ta s now)
  then show ?case
    by (simp add: interrupt_worker_def finish_coroutine_def split: phase.split)
next
  case (Stop_end s)
  then show ?case by (auto simp: untracked_def stop_end_def)
next
  case (Start s)
  then show ?case by (simp add: untracked_def start_supervisor_def)
qed (simp_all add: listen_def begin_worker_def worker_raises_def finish_coroutine_def restart_worker_def
      Let_def untracked_spawn untracked_listen split: option.split)

lemma untracked_steps: "sv_step\<^sup>*\<^sup>* s s' \<Longrightarrow> untracked t s \<Longrightarrow> untracked t s'"
  by (induction rule: rtranclp_induct) (auto intro: untracked_step)

lemma restart_untracked:
  assumes "sv_inv s" "t < length (coros s)"
  shows "untracked (length (coros s)) (restart_worker now t r s)"
proof -
  have "length (coros s) \<notin> set (dict_values (sv_tasks s))"
    using assms refs_okD(2) [of s "length (coros s)"] by (auto simp: sv_inv_def)
  with assms(2) show ?thesis by (simp add: restart_worker_def finish_coroutine_def untracked_def nth_append)
qed

text \<open>A worker that is restarted after a crash is out of reach. The new coroutine is not tracked,
  so no later sequence of steps, cancelling the worker and a complete stop of the supervisor
  included, cancels it, and unless it has begun it can always begin.\<close>

theorem restart_never_cancelled:
  assumes "reachable c s" and "t < length (coros s)" and "co_phase (coros s ! t) = Sleeping r"
    and "\<not> co_cancelled (coros s ! t)" and "sv_step\<^sup>*\<^sup>* (restart_worker now t r s) s'"
  shows "\<not> co_cancelled (coros s' ! length (coros s)) \<and>
    (co_phase (coros s' ! length (coros s)) = Created \<longrightarrow> sv_step s' (begin_worker now' (length (coros s)) s'))"
proof -
  have "untracked (length (coros s)) s'"
    using assms(5) restart_untracked [OF reachable_inv [OF assms(1)] assms(2)] by (rule untracked_steps)
  then show ?thesis by (auto simp: untracked_def intro: sv_step.Begin)
qed

definition demo_config :: SupervisorConfig where
  "demo_config = \<lparr>sc_max_workers = 1, sc_worker_timeout = ''300.0'', sc_auto_recovery = True\<rparr>"

definition demo_args :: worker_args where
  "demo_args = \<lparr>wa_goal = ''g'', wa_context = [], wa_tools = [], wa_provider = None, wa_max_steps = 20\<rparr>"

definition demo_crash :: AgentSupervisor where
  "demo_crash = worker_raises 2 0 0 ''boom''
     (begin_worker 1 0 (spawn_worker ''t'' demo_args (init_supervisor demo_config)))"

lemma demo_spawn: "reachable demo_config (spawn_worker ''t'' demo_args (init_supervisor demo_config))"
  by (rule reachable_step [OF reachable_init sv_step.Spawn]) (simp add: init_supervisor_def demo_config_def)

lemma demo_begin:
  "reachable demo_config (begin_worker 1 0 (spawn_worker ''t'' demo_args (init_supervisor demo_config)))"
  by (rule reachable_step [OF demo_spawn sv_step.Begin])
     (simp_all add: spawn_worker_def Let_def init_supervisor_def create_coroutine_def)

lemma demo_crash_reachable: "reachable demo_config demo_crash"
  unfolding demo_crash_def
  by (rule reachable_step [OF demo_begin sv_step.Raises])
     (simp_all add: spawn_worker_def Let_def init_supervisor_def create_coroutine_def begin_worker_def)

lemma show_nat_0: "show_nat 0 = ''0''"
  by code_simp

lemma demo_crash_eq:
  "coros demo_crash = [\<lparr>co_worker = ''w-t-0'', co_args = demo_args, co_phase = Sleeping 0, co_cancelled = False\<rparr>]"
  "sv_tasks demo_crash = [(''w-t-0'', 0)]"
  by (simp_all add: demo_crash_def spawn_worker_def Let_def init_supervisor_def create_coroutine_def
      begin_worker_def worker_raises_def demo_config_def worker_id_of_def is_continuation_def show_nat_0)

theorem restart_never_cancelled_witness:
  "\<not> co_cancelled (coros (stop_end (stop_begin (restart_worker 3 0 0 demo_crash))) ! 1) \<and>
   sv_step (stop_end (stop_begin (restart_worker 3 0 0 demo_crash)))
     (begin_worker 4 1 (stop_end (stop_begin (restart_worker 3 0 0 demo_crash))))"
proof -
  let ?s = "restart_worker 3 0 0 demo_crash"
  have d: "coros (stop_begin ?s) = coros ?s" "sv_tasks (stop_begin ?s) = sv_tasks demo_crash"
    "gathered (stop_begin ?s)"
    "coros ?s ! 1 = \<lparr>co_worker = ''w-t-0'', co_args = demo_args, co_phase = Created, co_cancelled = False\<rparr>"
    by (simp_all add: restart_worker_def finish_coroutine_def demo_crash_eq stop_begin_def gathered_def
        cancel_coroutine_def mark_cancelled_def split: option.split)
  have "sv_step\<^sup>*\<^sup>* ?s (stop_end (stop_begin ?s))"
    using sv_step.Stop_begin [of ?s] sv_step.Stop_end [OF d(3)] by (meson r_into_rtranclp rtranclp.rtrancl_into_rtrancl)
  with restart_never_cancelled [OF demo_crash_reachable, of 0 0 3 "stop_end (stop_begin ?s)" 4] d
  show ?thesis by (simp add: demo_crash_eq stop_end_def)
qed

theorem running_has_coroutine_witness:
  "\<exists>r t. runs (co_phase (coros (begin_worker 1 0 (spawn_worker ''t'' demo_args (init_supervisor demo_config))) ! t)) r"
proof -
  let ?s = "begin_worker 1 0 (spawn_worker ''t'' demo_args (init_supervisor demo_config))"
  have "list_workers (Some RUNNING) ?s = [infos ?s ! 0] \<and> list_workers (Some RUNNING) ?s \<noteq> []"
    by (simp add: list_workers_def spawn_worker_def Let_def init_supervisor_def create_coroutine_def begin_worker_def)
  then have "infos ?s ! 0 \<in> set (list_workers (Some RUNNING) ?s)" by simp
  from running_has_coroutine [OF demo_begin this] show ?thesis by blast
qed

subsection \<open>The size of the pool\<close>

text \<open>A supervisor that is handed \<open>n\<close> tasks, one after the other.\<close>

fun busy :: "SupervisorConfig \<Rightarrow> nat \<Rightarrow> AgentSupervisor" where
  "busy c 0 = init_supervisor c"
| "busy c (Suc n) = begin_worker 0 n (spawn_worker ''t'' demo_args (busy c n))"

definition busy_id :: "nat \<Rightarrow> string" where
  "busy_id n = ''w-'' @ utf8_take 8 ''t'' @ ''-'' @ show_nat n"

lemma worker_id_busy: "worker_id_of ''t'' s = busy_id (length (sv_workers s))"
  by (simp add: worker_id_of_def busy_id_def)

lemma busy_shape:
  "sv_workers (busy c n) = map (\<lambda>i. (busy_id i, i)) [0..<n] \<and> length (infos (busy c n)) = n \<and>
   length (coros (busy c n)) = n \<and> (\<forall>i<n. wi_status (infos (busy c n) ! i) = RUNNING) \<and>
   sv_config (busy c n) = c \<and> \<not> cb_received (busy c n)"
proof (induction n)
  case (Suc n)
  let ?s = "busy c n"
  have new: "\<not> dict_has (map (\<lambda>i. (busy_id i, i)) [0..<n]) (busy_id n)"
    by (auto simp: dict_has_iff busy_id_def)
  let ?t = "spawn_worker ''t'' demo_args ?s"
  have t: "sv_workers ?t = map (\<lambda>i. (busy_id i, i)) [0..<Suc n]" "length (infos ?t) = Suc n"
    "length (coros ?t) = Suc n" "co_worker (coros ?t ! n) = busy_id n" "sv_config ?t = c" "\<not> cb_received ?t"
    "\<forall>i<n. infos ?t ! i = infos ?s ! i"
    using Suc new by (simp_all add: spawn_worker_def Let_def worker_id_busy
        dict_set_append create_coroutine_def nth_append)
  have "dict_get (sv_workers ?t) (busy_id n) = Some n"
    using t(1) new by (simp add: map_add_def dict_has_def split: option.split)
  with t Suc show ?case
    by (auto simp: begin_worker_def nth_list_update less_Suc_eq)
qed (simp add: init_supervisor_def)

lemma busy_reachable: "sc_max_workers c > 0 \<Longrightarrow> reachable c (busy c n)"
proof (induction n)
  case (Suc n)
  let ?t = "spawn_worker ''t'' demo_args (busy c n)"
  have "reachable c ?t"
    using Suc by (intro reachable_step [OF _ sv_step.Spawn]) (simp_all add: busy_shape)
  moreover have "n < length (coros ?t)" "co_phase (coros ?t ! n) = Created" "\<not> co_cancelled (coros ?t ! n)"
    using busy_shape [of c n] by (simp_all add: spawn_worker_def Let_def nth_append)
  ultimately show ?case by (auto intro: sv_step.Begin)
qed simp

text \<open>The limit on concurrent workers is not enforced: whatever positive limit is configured, for
  every \<open>n\<close> a state with \<open>n\<close> running workers is reachable, and the number of free slots that
  the node reports becomes negative.\<close>

theorem pool_unbounded:
  assumes "sc_max_workers c > 0"
  shows "\<exists>s. reachable c s \<and> active_worker_count s = n \<and> worker_slots_available s = sc_max_workers c - int n"
proof (intro exI conjI)
  show "reachable c (busy c n)" by (rule busy_reachable [OF assms])
  have "list_workers (Some RUNNING) (busy c n) = map (\<lambda>r. infos (busy c n) ! r) [0..<n]"
    using busy_shape [of c n] by (auto simp: list_workers_def comp_def intro: filter_True)
  then show *: "active_worker_count (busy c n) = n" by (simp add: active_worker_count_def)
  show "worker_slots_available (busy c n) = sc_max_workers c - int n"
    using busy_shape [of c n] by (simp add: worker_slots_available_def *)
qed

theorem pool_unbounded_witness:
  "\<exists>s. reachable demo_config s \<and> active_worker_count s = 3 \<and> worker_slots_available s = - 2"
  using pool_unbounded [of demo_config 3] by (simp add: demo_config_def)

lemma cleanup_workers_spec:
  assumes "dict_wf (sv_workers s)"
  shows "dict_get (sv_workers (cleanup_workers now s)) wid =
    (case dict_get (sv_workers s) wid of None \<Rightarrow> None
     | Some r \<Rightarrow> if retention_over now (infos s ! r) then None else Some r)"
proof -
  have "wid \<in> fst ` {x \<in> set (sv_workers s). case x of (wid, r) \<Rightarrow> retention_over now (infos s ! r)} \<longleftrightarrow>
      (\<exists>r. dict_get (sv_workers s) wid = Some r \<and> retention_over now (infos s ! r))"
    using dict_get_iff [OF assms] by force
  then show ?thesis
    by (auto simp: cleanup_workers_def Let_def dict_get_del_many split: option.split)
qed

lemma never_completed_never_cleaned:
  "dict_wf (sv_workers s) \<Longrightarrow> dict_get (sv_workers s) wid = Some r \<Longrightarrow>
     wi_completed (infos s ! r) = None \<or> wi_status (infos s ! r) = CRASHED \<Longrightarrow>
     dict_get (sv_workers (cleanup_workers now s)) wid = Some r"
  by (auto simp: cleanup_workers_spec retention_over_def)

lemma cancelled_before_start:
  "co_phase (coros s ! t) = Created \<Longrightarrow> infos (interrupt_worker now t s) = infos s"
  by (simp add: interrupt_worker_def)

text \<open>Two workers run, the first one ends and is cleaned up: the next worker gets the id of the second.\<close>

definition after_cleanup :: AgentSupervisor where
  "after_cleanup = cleanup_workers 60000002 (start_supervisor
     (worker_result 1 0 0 (Result True None) (busy demo_config 2)))"

lemma after_cleanup_reachable: "reachable demo_config after_cleanup"
proof -
  have "co_phase (coros (busy demo_config 2) ! 0) = Executing 0 \<and> \<not> co_cancelled (coros (busy demo_config 2) ! 0)"
    by code_simp
  moreover have "reachable demo_config (busy demo_config 2)"
    by (rule busy_reachable) (simp add: demo_config_def)
  moreover have "length (coros (busy demo_config 2)) = 2" by (simp add: busy_shape)
  ultimately have "reachable demo_config (worker_result 1 0 0 (Result True None) (busy demo_config 2))"
    by (intro reachable_step [OF _ sv_step.Returns]) simp_all
  then show ?thesis
    unfolding after_cleanup_def
    by (intro reachable_step [OF _ sv_step.Cleanup] reachable_step [OF _ sv_step.Start])
       (simp_all add: start_supervisor_def)
qed

lemma id_collision:
  "worker_id_of ''t'' after_cleanup = ''w-t-1''"
  "map_option wi_status (get_worker ''w-t-1'' after_cleanup) = Some RUNNING"
  "map_option wi_status (get_worker ''w-t-1'' (spawn_worker ''t'' demo_args after_cleanup)) = Some PENDING"
  by code_simp+

end
