(* ===== verification/Context.thy ===== *)
theory Context
  imports Systems PyString PyValue "HOL-Library.Multiset"
begin

text \<open>
  The context window of an agent (\<open>engine/agent_runtime/context.py\<close>): a list of entries with an
  estimate of their tokens, the eviction of entries when the budget is exceeded, and the
  conversion of an agent's recorded steps into messages for the language model.
  \<open>json.dumps\<close> and \<open>str\<close> are the arguments \<open>dumps\<close> and \<open>str_of\<close>.
\<close>

subsection \<open>Data\<close>

record ContextConfig =
  max_tokens :: int
  reserve_tokens :: int
  full_fidelity_steps :: int
  summary_max_tokens :: int
  warn_threshold :: rat
  truncate_threshold :: rat

definition default_context_config :: ContextConfig where
  "default_context_config = \<lparr>max_tokens = 8000, reserve_tokens = 500, full_fidelity_steps = 5,
     summary_max_tokens = 500, warn_threshold = 85/100, truncate_threshold = 95/100\<rparr>"

record ContextEntry =
  ce_role :: string
  ce_content :: string
  ce_priority :: int
  ce_tokens :: int
  ce_step :: int
  ce_summary :: bool

record ContextManager =
  cm_config :: ContextConfig
  cm_entries :: "ContextEntry list"
  total_tokens :: int

text \<open>The steps that a worker records (\<open>worker.py\<close>); durations and timestamps are left out.\<close>

datatype StepType = THOUGHT | TOOL_CALL | TOOL_RESULT | OBSERVATION | REPORT

record StepRecord =
  st_number :: int
  st_type :: StepType
  st_content :: string
  st_tool_name :: PyVal
  st_tool_input :: PyVal
  st_tool_output :: PyVal
  st_tokens :: PyVal

type_synonym message = "string \<times> string"

definition estimate_tokens :: "string \<Rightarrow> int" where
  "estimate_tokens s = (if s = '''' then 0 else max 1 (int (utf8_length s) div 4))"

definition init_context :: "ContextConfig \<Rightarrow> ContextManager" where
  "init_context c = \<lparr>cm_config = c, cm_entries = [], total_tokens = 0\<rparr>"

definition context_budget :: "ContextConfig \<Rightarrow> int" where
  "context_budget c = max_tokens c - reserve_tokens c"

definition token_budget :: "ContextManager \<Rightarrow> int" where
  "token_budget m = max_tokens (cm_config m) - reserve_tokens (cm_config m) - total_tokens m"

subsection \<open>Entries\<close>

text \<open>One of the two loops of \<open>_truncate\<close>: victims are dropped, first one first, while over budget.\<close>

fun drop_victims :: "int \<Rightarrow> ContextEntry list \<Rightarrow> ContextManager \<Rightarrow> ContextManager" where
  "drop_victims budget [] m = m"
| "drop_victims budget (v # vs) m =
     (if total_tokens m > budget
      then drop_victims budget vs
        (if v \<in> set (cm_entries m)
         then m\<lparr>cm_entries := remove1 v (cm_entries m), total_tokens := total_tokens m - ce_tokens v\<rparr>
         else m)
      else m)"

definition priority_order :: "ContextManager \<Rightarrow> ContextEntry list" where
  "priority_order m = sort_key (\<lambda>e. ce_priority e) (sort_key (\<lambda>e. ce_step e)
     (filter (\<lambda>e. \<not> ce_summary e) (cm_entries m)))"

definition truncate_context :: "ContextManager \<Rightarrow> ContextManager" where
  "truncate_context m =
     (let budget = context_budget (cm_config m)
      in drop_victims budget (filter ce_summary (cm_entries m))
           (drop_victims budget (priority_order m) m))"

definition add_entry :: "string \<Rightarrow> string \<Rightarrow> int \<Rightarrow> int \<Rightarrow> bool \<Rightarrow> ContextManager \<Rightarrow> ContextManager" where
  "add_entry role content priority step summary m =
     (let tokens = estimate_tokens content;
          e = \<lparr>ce_role = role, ce_content = content, ce_priority = priority, ce_tokens = tokens,
               ce_step = step, ce_summary = summary\<rparr>;
          m = m\<lparr>cm_entries := cm_entries m @ [e], total_tokens := total_tokens m + tokens\<rparr>
      in if of_int (total_tokens m) > of_int (max_tokens (cm_config m)) * truncate_threshold (cm_config m)
         then truncate_context m else m)"

definition reset_context :: "ContextManager \<Rightarrow> ContextManager" where
  "reset_context m = m\<lparr>cm_entries := [], total_tokens := 0\<rparr>"

definition context_usage :: "ContextManager \<Rightarrow> rat" where
  "context_usage m = (if max_tokens (cm_config m) > 0
     then of_int (total_tokens m) / of_int (max_tokens (cm_config m)) else 0)"

definition is_near_limit :: "ContextManager \<Rightarrow> bool" where
  "is_near_limit m \<longleftrightarrow> context_usage m \<ge> warn_threshold (cm_config m)"

subsection \<open>Messages from steps\<close>

text \<open>\<open>s[:n]\<close> with the integer \<open>n\<close>; a negative one counts from the end.\<close>

definition py_prefix :: "int \<Rightarrow> string \<Rightarrow> string" where
  "py_prefix n s = utf8_take (nat (if n < 0 then n + int (utf8_length s) else n)) s"

definition step_to_message :: "(PyVal \<Rightarrow> string) \<Rightarrow> (PyVal \<Rightarrow> string) \<Rightarrow> StepRecord \<Rightarrow> message option" where
  "step_to_message dumps str_of s =
     (case st_type s of
        THOUGHT \<Rightarrow> Some (''assistant'', utf8_take 1500 (st_content s))
      | REPORT \<Rightarrow> Some (''assistant'', utf8_take 1500 (st_content s))
      | TOOL_CALL \<Rightarrow> Some (''assistant'',
          ''Tool: '' @ str_of (st_tool_name s) @ ''('' @ utf8_take 200 (dumps (st_tool_input s)) @ '')'')
      | TOOL_RESULT \<Rightarrow> Some (''user'', ''Tool result: '' @ utf8_take 500 (dumps (st_tool_output s)))
      | OBSERVATION \<Rightarrow> Some (''user'', ''[Observe] '' @ utf8_take 500 (st_content s)))"

definition count_type :: "StepType \<Rightarrow> StepRecord list \<Rightarrow> nat" where
  "count_type t steps = length (filter (\<lambda>s. st_type s = t) steps)"

definition compile_step_summary :: "StepRecord list \<Rightarrow> string" where
  "compile_step_summary steps =
     (if steps = [] then ''''
      else
        let conclusions = map (\<lambda>s. utf8_take 200 (st_content s)) (filter (\<lambda>s. st_type s = REPORT) steps);
            head = show_nat (length steps) @ '' steps executed ('' @ show_nat (count_type THOUGHT steps)
              @ '' thoughts, '' @ show_nat (count_type TOOL_CALL steps) @ '' tool calls).''
        in join '' '' (head # (if conclusions = [] then []
             else [''Key findings: '' @ join ''; '' (take 3 conclusions)])))"

text \<open>\<open>_trim_messages\<close>: the loop runs over the messages from the last to the first.\<close>

fun trim_loop :: "int \<Rightarrow> message list \<Rightarrow> message list \<Rightarrow> int \<Rightarrow> message list" where
  "trim_loop budget [] trimmed tot = trimmed"
| "trim_loop budget ((role, content) # ms) trimmed tot =
     (let tokens = estimate_tokens content
      in if tot + tokens \<le> budget then trim_loop budget ms ((role, content) # trimmed) (tot + tokens)
         else if role = ''system'' then
           let cut = py_prefix (max 100 (budget div 4)) content
           in trim_loop budget ms ((''system'', cut @ ''...'') # trimmed) (tot + int (utf8_length cut) div 4)
         else trim_loop budget ms trimmed tot)"

definition trim_messages :: "message list \<Rightarrow> int \<Rightarrow> message list" where
  "trim_messages ms budget = trim_loop budget (rev ms) [] 0"

definition message_tokens :: "message list \<Rightarrow> int" where
  "message_tokens ms = sum_list (map (\<lambda>m. estimate_tokens (snd m)) ms)"

definition summarize :: "(PyVal \<Rightarrow> string) \<Rightarrow> (PyVal \<Rightarrow> string) \<Rightarrow> ContextConfig \<Rightarrow> StepRecord list \<Rightarrow> message list" where
  "summarize dumps str_of c steps =
     (if steps = [] then []
      else
        let split = nat (max 0 (int (length steps) - full_fidelity_steps c));
            summary = compile_step_summary (take split steps);
            messages = (if summary = '''' then []
                else [(''system'', ''[Previous steps summary]: '' @ py_prefix (summary_max_tokens c) summary)])
              @ List.map_filter (step_to_message dumps str_of) (drop split steps);
            available = max_tokens c - reserve_tokens c
        in if message_tokens messages > available then trim_messages messages available else messages)"

subsection \<open>The token count and the bound on it\<close>

definition counted :: "ContextManager \<Rightarrow> bool" where
  "counted m \<longleftrightarrow> total_tokens m = sum_list (map ce_tokens (cm_entries m)) \<and>
     list_all (\<lambda>e. 0 \<le> ce_tokens e) (cm_entries m)"

lemma estimate_tokens_nonneg [simp]: "0 \<le> estimate_tokens s"
  by (simp add: estimate_tokens_def le_max_iff_disj)

lemma sum_list_remove1_int:
  "x \<in> set xs \<Longrightarrow> sum_list (map f (remove1 x xs)) = sum_list (map f xs) - f x" for f :: "'a \<Rightarrow> int"
  by (simp add: sum_list_map_remove1)

lemma drop_victims_config [simp]: "cm_config (drop_victims b vs m) = cm_config m"
  by (induction b vs m rule: drop_victims.induct) simp_all

lemma drop_victims_counted: "counted m \<Longrightarrow> counted (drop_victims b vs m)"
proof (induction b vs m rule: drop_victims.induct)
  case (2 b v vs m)
  have "counted (m\<lparr>cm_entries := remove1 v (cm_entries m), total_tokens := total_tokens m - ce_tokens v\<rparr>)"
    if "v \<in> set (cm_entries m)"
    using 2(2) that by (auto simp: counted_def sum_list_remove1_int list_all_iff dest: notin_set_remove1 [rotated])
  with 2 show ?case by simp
qed simp

text \<open>What a loop drops is a prefix of the victims, all of them if it ends over budget.\<close>

lemma drop_victims_prefix:
  "\<exists>k\<le>length vs. mset (cm_entries (drop_victims b vs m)) = mset (cm_entries m) - mset (take k vs) \<and>
     (total_tokens (drop_victims b vs m) > b \<longrightarrow> k = length vs) \<and>
     (k > 0 \<longrightarrow> total_tokens m > b)"
proof (induction b vs m rule: drop_victims.induct)
  case (2 b v vs m)
  show ?case
  proof (cases "total_tokens m > b")
    case True
    let ?m = "if v \<in> set (cm_entries m)
         then m\<lparr>cm_entries := remove1 v (cm_entries m), total_tokens := total_tokens m - ce_tokens v\<rparr> else m"
    from 2 [OF True] obtain k where k: "k \<le> length vs"
      "mset (cm_entries (drop_victims b vs ?m)) = mset (cm_entries ?m) - mset (take k vs)"
      "total_tokens (drop_victims b vs ?m) > b \<longrightarrow> k = length vs" by blast
    have "mset (cm_entries ?m) = mset (cm_entries m) - {#v#}" by simp
    with k(2) have "mset (cm_entries (drop_victims b vs ?m)) = mset (cm_entries m) - mset (take (Suc k) (v # vs))"
      by simp
    with k True show ?thesis by (intro exI [of _ "Suc k"]) simp
  next
    case False
    then show ?thesis by (intro exI [of _ 0]) simp
  qed
qed simp

lemma mset_priority_order: "mset (priority_order m) = filter_mset (\<lambda>e. \<not> ce_summary e) (mset (cm_entries m))"
  by (simp add: priority_order_def)

lemma minus_prefixes:
  assumes "M = mset vs + mset ss" "M1 = M - mset (take k vs)" "M2 = M1 - mset (take j ss)"
  shows "M2 = mset (drop k vs) + mset (drop j ss)"
proof -
  have v: "mset vs = mset (take k vs) + mset (drop k vs)" and s: "mset ss = mset (take j ss) + mset (drop j ss)"
    by (metis append_take_drop_id mset_append)+
  have "M1 = mset (drop k vs) + mset ss" unfolding assms(1,2) by (subst v) simp
  then show ?thesis unfolding assms(3) by (subst (asm) s) simp
qed

lemma filter_mset_parts:
  assumes "\<forall>x\<in>set xs. \<not> P x" "\<forall>x\<in>set ys. P x"
  shows "filter_mset (\<lambda>x. \<not> P x) (mset xs + mset ys) = mset xs" "filter_mset P (mset xs + mset ys) = mset ys"
proof -
  have "filter (\<lambda>x. \<not> P x) (xs @ ys) = xs" "filter P (xs @ ys) = ys" using assms by simp_all
  then show "filter_mset (\<lambda>x. \<not> P x) (mset xs + mset ys) = mset xs" "filter_mset P (mset xs + mset ys) = mset ys"
    by (metis mset_append mset_filter)+
qed

text \<open>What truncation drops. Of the ordinary entries it drops an initial part of the order by
  priority and then by step, and of the summaries, which it touches only when every ordinary
  entry is gone, an initial part of the list; it stops as soon as the budget is met.\<close>

theorem truncate_drops_lowest:
  "\<exists>k j. filter_mset (\<lambda>e. \<not> ce_summary e) (mset (cm_entries (truncate_context m))) = mset (drop k (priority_order m)) \<and>
     filter_mset ce_summary (mset (cm_entries (truncate_context m))) = mset (drop j (filter ce_summary (cm_entries m))) \<and>
     (j = 0 \<or> drop k (priority_order m) = []) \<and>
     (k = 0 \<or> total_tokens m > context_budget (cm_config m))"
proof -
  let ?b = "context_budget (cm_config m)"
  let ?vs = "priority_order m" and ?ss = "filter ce_summary (cm_entries m)"
  obtain k where k: "mset (cm_entries (drop_victims ?b ?vs m)) = mset (cm_entries m) - mset (take k ?vs)"
    "total_tokens (drop_victims ?b ?vs m) > ?b \<longrightarrow> k = length ?vs" "k > 0 \<longrightarrow> total_tokens m > ?b"
    using drop_victims_prefix [of ?vs ?b m] by blast
  obtain j where j: "mset (cm_entries (truncate_context m)) =
      mset (cm_entries (drop_victims ?b ?vs m)) - mset (take j ?ss)"
    "j > 0 \<longrightarrow> total_tokens (drop_victims ?b ?vs m) > ?b"
    unfolding truncate_context_def Let_def using drop_victims_prefix [of ?ss ?b "drop_victims ?b ?vs m"] by blast
  have e: "mset (cm_entries m) = mset ?vs + mset ?ss"
    by (simp add: mset_priority_order union_commute multiset_partition [symmetric])
  have f: "mset (cm_entries (truncate_context m)) = mset (drop k ?vs) + mset (drop j ?ss)"
    by (rule minus_prefixes [OF e k(1) j(1)])
  have "\<forall>x\<in>set ?vs. \<not> ce_summary x" by (simp add: priority_order_def)
  then have vs: "\<forall>x\<in>set (drop k ?vs). \<not> ce_summary x" by (meson in_set_dropD)
  have ss: "\<forall>x\<in>set (drop j ?ss). ce_summary x" by (auto dest: in_set_dropD)
  have "filter_mset (\<lambda>e. \<not> ce_summary e) (mset (cm_entries (truncate_context m))) = mset (drop k ?vs)"
    unfolding f by (rule filter_mset_parts [OF vs ss])
  moreover have "filter_mset ce_summary (mset (cm_entries (truncate_context m))) = mset (drop j ?ss)"
    unfolding f by (rule filter_mset_parts [OF vs ss])
  moreover have "j = 0 \<or> drop k ?vs = []" using j(2) k(2) by auto
  ultimately show ?thesis using k(3) by blast
qed

lemma truncate_counted: "counted m \<Longrightarrow> counted (truncate_context m)"
  by (simp add: truncate_context_def Let_def drop_victims_counted)

lemma truncate_config [simp]: "cm_config (truncate_context m) = cm_config m"
  by (simp add: truncate_context_def Let_def)

lemma truncate_bound:
  assumes "counted m"
  shows "total_tokens (truncate_context m) \<le> max 0 (context_budget (cm_config m))"
proof (cases "total_tokens (truncate_context m) > context_budget (cm_config m)")
  case True
  let ?b = "context_budget (cm_config m)"
  let ?vs = "priority_order m" and ?ss = "filter ce_summary (cm_entries m)"
  let ?m = "drop_victims ?b ?vs m"
  from True have t: "total_tokens (drop_victims ?b ?ss ?m) > ?b" by (simp add: truncate_context_def Let_def)
  then have "mset (cm_entries (truncate_context m)) = mset (cm_entries ?m) - mset ?ss"
    using drop_victims_prefix [of ?ss ?b ?m] by (auto simp: truncate_context_def Let_def)
  moreover have "mset (cm_entries ?m) = mset (cm_entries m) - mset ?vs" if "total_tokens ?m > ?b"
    using drop_victims_prefix [of ?vs ?b m] that by auto
  moreover have "total_tokens ?m > ?b"
  proof (rule ccontr)
    assume "\<not> total_tokens ?m > ?b"
    then have "drop_victims ?b ?ss ?m = ?m" by (cases ?ss) simp_all
    with t \<open>\<not> total_tokens ?m > ?b\<close> show False by simp
  qed
  ultimately have "mset (cm_entries (truncate_context m)) = {#}"
    by (simp add: mset_priority_order)
  then show ?thesis
    using truncate_counted [OF assms] by (simp add: counted_def)
qed simp

datatype context_op = AddEntry string string int int bool | ResetContext

fun context_step :: "context_op \<Rightarrow> ContextManager \<Rightarrow> ContextManager" where
  "context_step (AddEntry role content priority step summary) m = add_entry role content priority step summary m"
| "context_step ResetContext m = reset_context m"

definition context_bound :: "ContextConfig \<Rightarrow> rat" where
  "context_bound c = max (of_int (max_tokens c) * truncate_threshold c) (of_int (max 0 (context_budget c)))"

definition within_bound :: "ContextConfig \<Rightarrow> ContextManager \<Rightarrow> bool" where
  "within_bound c m \<longleftrightarrow> cm_config m = c \<and> counted m \<and> of_int (total_tokens m) \<le> context_bound c"

lemma within_bound_step: "within_bound c m \<Longrightarrow> within_bound c (context_step op m)"
proof (induction op)
  case (AddEntry role content priority step summary)
  let ?e = "\<lparr>ce_role = role, ce_content = content, ce_priority = priority, ce_tokens = estimate_tokens content,
               ce_step = step, ce_summary = summary\<rparr>"
  let ?m = "m\<lparr>cm_entries := cm_entries m @ [?e], total_tokens := total_tokens m + estimate_tokens content\<rparr>"
  have m: "counted ?m" "cm_config ?m = c" using AddEntry by (simp_all add: within_bound_def counted_def)
  have "of_int (total_tokens (truncate_context ?m)) \<le> context_bound c"
    using truncate_bound [OF m(1)] m(2) by (simp add: context_bound_def le_max_iff_disj)
  moreover have "of_int (total_tokens ?m) \<le> context_bound c"
    if "\<not> of_int (total_tokens ?m) > of_int (max_tokens c) * truncate_threshold c"
    using that by (simp add: context_bound_def le_max_iff_disj)
  ultimately show ?case
    using m truncate_counted [OF m(1)] by (simp add: within_bound_def add_entry_def Let_def)
qed (auto simp: within_bound_def reset_context_def counted_def context_bound_def)

interpretation ctx: invariant_system context_step "within_bound c" for c
  by unfold_locales (rule within_bound_step)

lemma within_bound_init: "within_bound c (init_context c)"
  by (simp add: within_bound_def init_context_def counted_def context_bound_def)

text \<open>The token budget. After any sequence of added entries and resets the count is the sum of
  the tokens of the entries, and it exceeds neither the threshold at which truncation starts nor,
  should that be lower, the budget that truncation restores, whatever the configuration.\<close>

theorem context_within_bound:
  "total_tokens (fold context_step ops (init_context c)) =
     sum_list (map ce_tokens (cm_entries (fold context_step ops (init_context c)))) \<and>
   of_int (total_tokens (fold context_step ops (init_context c))) \<le>
     max (of_int (max_tokens c) * truncate_threshold c) (of_int (max 0 (context_budget c)))"
  using ctx.inv_run [OF within_bound_init [of c], of ops] by (simp add: within_bound_def counted_def context_bound_def)

subsection \<open>The messages fit\<close>

lemma py_prefix_length: "0 \<le> n \<Longrightarrow> int (utf8_length (py_prefix n s)) \<le> n"
  using utf8_length_take [of "nat n" s] by (simp add: py_prefix_def)

lemma message_tokens_simps [simp]:
  "message_tokens [] = 0" "message_tokens (m # ms) = estimate_tokens (snd m) + message_tokens ms"
  "message_tokens (ms @ ms') = message_tokens ms + message_tokens ms'"
  by (simp_all add: message_tokens_def)

lemma message_tokens_nonneg [simp]: "0 \<le> message_tokens ms"
  by (induction ms) simp_all

definition cut_tokens :: "int \<Rightarrow> int" where
  "cut_tokens budget = (max 100 (budget div 4) + 3) div 4"

lemma cut_tokens_le: "estimate_tokens (py_prefix (max 100 (budget div 4)) s @ ''...'') \<le> cut_tokens budget"
proof -
  let ?p = "py_prefix (max 100 (budget div 4)) s"
  have "int (utf8_length ?p) \<le> max 100 (budget div 4)" by (rule py_prefix_length) simp
  moreover have "utf8_length ''...'' = 3" by code_simp
  ultimately have "int (utf8_length (?p @ ''...'')) div 4 \<le> cut_tokens budget"
    by (simp add: cut_tokens_def zdiv_mono1)
  moreover have "1 \<le> cut_tokens budget" by (simp add: cut_tokens_def)
  ultimately show ?thesis by (simp add: estimate_tokens_def)
qed

text \<open>The loop over messages without system messages, followed by at most one.\<close>

lemma trim_loop_plain:
  "\<forall>m\<in>set ms. fst m \<noteq> ''system'' \<Longrightarrow> message_tokens trimmed = tot \<Longrightarrow> tot \<le> max 0 budget \<Longrightarrow>
     \<exists>trimmed' tot'. (\<forall>rest. trim_loop budget (ms @ rest) trimmed tot = trim_loop budget rest trimmed' tot') \<and>
       message_tokens trimmed' = tot' \<and> tot' \<le> max 0 budget"
proof (induction ms arbitrary: trimmed tot)
  case (Cons m ms)
  obtain role content where m: "m = (role, content)" by (cases m)
  show ?case
  proof (cases "tot + estimate_tokens content \<le> budget")
    case True
    with Cons.prems have "message_tokens (m # trimmed) = tot + estimate_tokens content"
      "tot + estimate_tokens content \<le> max 0 budget" "\<forall>m\<in>set ms. fst m \<noteq> ''system''"
      by (simp_all add: m)
    from Cons.IH [OF this(3,1,2)] True m show ?thesis by (simp add: Let_def)
  next
    case False
    with Cons.prems m have "role \<noteq> ''system''" "\<forall>m\<in>set ms. fst m \<noteq> ''system''" by auto
    with Cons.IH [OF this(2) Cons.prems(2,3)] False m show ?thesis by (simp add: Let_def)
  qed
qed auto

lemma trim_messages_bound:
  assumes "\<forall>m\<in>set ms. fst m \<noteq> ''system''"
  shows "message_tokens (trim_messages (map (\<lambda>c. (''system'', c)) (take 1 sys) @ ms) budget)
           \<le> max 0 budget + cut_tokens budget"
proof -
  have "\<forall>m\<in>set (rev ms). fst m \<noteq> ''system''" using assms by simp
  from trim_loop_plain [OF this, of "[]" 0 budget] obtain t n where
    t: "\<And>rest. trim_loop budget (rev ms @ rest) [] 0 = trim_loop budget rest t n"
      "message_tokens t = n" "n \<le> max 0 budget" by auto
  have c: "0 \<le> cut_tokens budget" by (simp add: cut_tokens_def)
  show ?thesis
  proof (cases sys)
    case Nil
    with t(1) [of "[]"] t(2,3) c show ?thesis by (simp add: trim_messages_def)
  next
    case (Cons s ss)
    have "message_tokens (trim_loop budget [(''system'', s)] t n) \<le> max 0 budget + cut_tokens budget"
      using t(2,3) c cut_tokens_le [of budget s] by (auto simp: Let_def)
    with t(1) [of "[(''system'', s)]"] Cons show ?thesis by (simp add: trim_messages_def)
  qed
qed

lemma step_to_message_role: "step_to_message dumps str_of s = Some m \<Longrightarrow> fst m \<noteq> ''system''"
  by (auto simp: step_to_message_def split: StepType.splits)

text \<open>The history handed to the language model is bounded: its estimated size exceeds the
  budget left after the reserve by at most the size of one truncated summary, a sixteenth of the
  budget, however many steps there are and however long their contents.\<close>

theorem summarize_bounded:
  "message_tokens (summarize dumps str_of c steps) \<le>
     max 0 (max_tokens c - reserve_tokens c) + (max 100 ((max_tokens c - reserve_tokens c) div 4) + 3) div 4"
proof (cases "steps = []")
  case True
  then show ?thesis by (simp add: summarize_def)
next
  case False
  let ?split = "nat (max 0 (int (length steps) - full_fidelity_steps c))"
  let ?sum = "compile_step_summary (take ?split steps)"
  let ?sys = "if ?sum = '''' then [] else [''[Previous steps summary]: '' @ py_prefix (summary_max_tokens c) ?sum]"
  let ?ms = "List.map_filter (step_to_message dumps str_of) (drop ?split steps)"
  let ?msgs = "map (\<lambda>c. (''system'', c)) (take 1 ?sys) @ ?ms"
  have "\<forall>m\<in>set ?ms. fst m \<noteq> ''system''"
    using step_to_message_role [of dumps str_of] by (fastforce simp: List.map_filter_def)
  note b = trim_messages_bound [OF this, of ?sys "max_tokens c - reserve_tokens c"]
  have eq: "summarize dumps str_of c steps = (if message_tokens ?msgs > max_tokens c - reserve_tokens c
      then trim_messages ?msgs (max_tokens c - reserve_tokens c) else ?msgs)"
    using False by (simp add: summarize_def Let_def)
  show ?thesis
  proof (cases "message_tokens ?msgs > max_tokens c - reserve_tokens c")
    case True
    show ?thesis unfolding eq if_P [OF True] using b unfolding cut_tokens_def .
  next
    case False
    have "0 \<le> cut_tokens (max_tokens c - reserve_tokens c)" by (simp add: cut_tokens_def)
    with False show ?thesis unfolding eq if_not_P [OF False] cut_tokens_def by linarith
  qed
qed

text \<open>With the default configuration that is less than the whole window.\<close>

lemma summarize_default_fits: "message_tokens (summarize dumps str_of default_context_config steps) < 8000"
  using summarize_bounded [of dumps str_of default_context_config steps] by (simp add: default_context_config_def)

subsection \<open>What the messages do not show\<close>

definition forget_output :: "StepRecord \<Rightarrow> StepRecord" where
  "forget_output s = s\<lparr>st_tool_output := PNone\<rparr>"

lemma forget_simps [simp]:
  "st_type (forget_output s) = st_type s" "st_content (forget_output s) = st_content s"
  "st_tool_name (forget_output s) = st_tool_name s" "st_tool_input (forget_output s) = st_tool_input s"
  by (simp_all add: forget_output_def)

lemma step_to_message_forget:
  "st_type s \<noteq> TOOL_RESULT \<Longrightarrow> step_to_message dumps str_of (forget_output s) = step_to_message dumps str_of s"
  by (simp add: step_to_message_def split: StepType.split)

lemma compile_forget: "compile_step_summary (map forget_output steps) = compile_step_summary steps"
  by (simp add: compile_step_summary_def Let_def count_type_def filter_map comp_def)

lemma summarize_forget:
  assumes "\<forall>s\<in>set steps. st_type s \<noteq> TOOL_RESULT"
  shows "summarize dumps str_of c (map forget_output steps) = summarize dumps str_of c steps"
proof -
  have "List.map_filter (step_to_message dumps str_of) (map forget_output xs) = List.map_filter (step_to_message dumps str_of) xs"
    if "set xs \<subseteq> set steps" for xs
    using that assms by (induction xs) (auto simp: step_to_message_forget split: option.split)
  then show ?thesis
    by (simp add: summarize_def Let_def compile_forget take_map drop_map set_drop_subset)
qed

end
