(* ===== verification/Tool_Executor.thy ===== *)
theory Tool_Executor
  imports Systems PyString PyValue
begin

text \<open>
  The executor of an agent's tools (\<open>engine/agent_runtime/tool_executor.py\<close>): registration from
  plugins and directly, execution with a time limit, chains of tools and the result cache. A
  tool's function is a reference; \<open>call h params\<close> gives the time that \<open>h(**params)\<close> takes and
  what it returns or raises (class and message of the exception). \<open>dump n\<close> is the dict that
  \<open>model_dump\<close>, \<open>dict\<close> or \<open>__dict__\<close> gives for the object \<open>n\<close>.
\<close>

subsection \<open>Data\<close>

datatype ToolStatus = AVAILABLE | BUSY | ERROR | DISABLED

datatype handler_kind = Coroutine_function | Generator_function | Plain_function

type_synonym pydict = "(PyVal \<times> PyVal) list"
type_synonym tool_call = "nat \<Rightarrow> PyVal \<Rightarrow> seconds \<times> ((string \<times> string) + PyVal)"

record ToolHandler =
  th_name :: string
  th_handler :: nat
  th_kind :: handler_kind
  th_timeout :: seconds
  th_description :: string
  th_parameters :: PyVal

record ToolExecutionRecord =
  er_tool :: string
  er_input :: PyVal
  er_output :: pydict
  er_duration_ms :: rat
  er_success :: bool
  er_error :: "string option"

record ToolExecutor =
  default_timeout :: seconds
  te_tools :: "(string, ToolHandler) dict"
  te_history :: "ToolExecutionRecord list"
  te_status :: "(string, ToolStatus) dict"

definition new_executor :: "seconds \<Rightarrow> ToolExecutor" where
  "new_executor t = \<lparr>default_timeout = t, te_tools = [], te_history = [], te_status = []\<rparr>"

subsection \<open>Registration\<close>

definition register_handler ::
    "string \<Rightarrow> nat \<Rightarrow> handler_kind \<Rightarrow> seconds \<Rightarrow> string \<Rightarrow> PyVal \<Rightarrow> ToolExecutor \<Rightarrow> ToolExecutor" where
  "register_handler name h k t desc params x =
     x\<lparr>te_tools := dict_set name \<lparr>th_name = name, th_handler = h, th_kind = k, th_timeout = t,
           th_description = desc, th_parameters = params\<rparr> (te_tools x),
       te_status := dict_set name AVAILABLE (te_status x)\<rparr>"

definition register_tool ::
    "string \<Rightarrow> nat \<Rightarrow> handler_kind \<Rightarrow> seconds option \<Rightarrow> string \<Rightarrow> PyVal option \<Rightarrow> ToolExecutor \<Rightarrow> ToolExecutor" where
  "register_tool name h k t desc params x =
     register_handler name h k (case t of None \<Rightarrow> default_timeout x
         | Some s \<Rightarrow> if s = 0 then default_timeout x else s) desc
       (case params of None \<Rightarrow> PDict [] | Some p \<Rightarrow> if truthy p then p else PDict []) x"

text \<open>
  A tool that a plugin declares: \<open>pt_function\<close> is the name of its handler if that is a plain
  function, and \<open>pt_timeout\<close> its own timeout, if it has one.
\<close>

record plugin_tool =
  pt_name :: string
  pt_handler :: nat
  pt_kind :: handler_kind
  pt_function :: "string option"
  pt_timeout :: "seconds option"
  pt_description :: string
  pt_parameters :: PyVal

text \<open>
  A plugin instance: its callable attributes, what \<open>get_tools\<close> and \<open>get_adapters\<close> return or
  raise. An adapter is callable itself or an object with attributes in the order of \<open>dir\<close>; of
  an attribute the model has its name, whether it is callable, and its docstring.
\<close>

datatype adapter =
    Callable nat handler_kind string
  | Adapter_object "(string \<times> (nat \<times> handler_kind \<times> string) option) list"

record plugin_instance =
  pi_methods :: "string \<Rightarrow> (nat \<times> handler_kind) option"
  pi_tools :: "string + plugin_tool list"
  pi_adapters :: "string + (string \<times> adapter) list"

definition register_plugin_tool :: "plugin_instance \<Rightarrow> plugin_tool \<Rightarrow> ToolExecutor \<Rightarrow> ToolExecutor" where
  "register_plugin_tool inst pt x =
     (let (h, k) = (case pt_function pt of None \<Rightarrow> (pt_handler pt, pt_kind pt)
            | Some f \<Rightarrow> (case pi_methods inst f of None \<Rightarrow> (pt_handler pt, pt_kind pt) | Some b \<Rightarrow> b))
      in register_handler (pt_name pt) h k
           (case pt_timeout pt of None \<Rightarrow> default_timeout x | Some t \<Rightarrow> t)
           (pt_description pt) (pt_parameters pt) x)"

definition or_else :: "string \<Rightarrow> string \<Rightarrow> string" where
  "or_else a b = (if a = '''' then b else a)"

definition register_adapter :: "string \<Rightarrow> adapter \<Rightarrow> ToolExecutor \<Rightarrow> ToolExecutor" where
  "register_adapter name a x =
     (case a of
        Callable h k doc \<Rightarrow>
          register_handler name h k (default_timeout x) (or_else doc (''Adapter: '' @ name)) (PDict []) x
      | Adapter_object attrs \<Rightarrow>
          fold (\<lambda>(m, f) x.
            if starts_with m ''_'' then x
            else case f of None \<Rightarrow> x
              | Some (h, k, doc) \<Rightarrow> register_handler (name @ ''.'' @ m) h k (default_timeout x)
                  (or_else doc (name @ ''.'' @ m)) (PDict []) x) attrs x)"

text \<open>\<open>_init_tools\<close>: an exception ends the discovery, what was registered before it stays.\<close>

fun init_tools :: "plugin_instance option list \<Rightarrow> ToolExecutor \<Rightarrow> ToolExecutor" where
  "init_tools [] x = x"
| "init_tools (None # is) x = init_tools is x"
| "init_tools (Some inst # is) x =
     (case pi_tools inst of
        Inl e \<Rightarrow> x
      | Inr pts \<Rightarrow>
          (let x = fold (register_plugin_tool inst) pts x
           in case pi_adapters inst of
                Inl e \<Rightarrow> x
              | Inr as \<Rightarrow> init_tools is (fold (\<lambda>(n, a). register_adapter n a) as x)))"

subsection \<open>Execution\<close>

definition set_default :: "string \<Rightarrow> PyVal \<Rightarrow> pydict \<Rightarrow> pydict" where
  "set_default k v d = (if dict_has d (PStr k) then d else dict_set (PStr k) v d)"

definition normalize_result :: "(nat \<Rightarrow> pydict) \<Rightarrow> PyVal \<Rightarrow> string \<Rightarrow> rat \<Rightarrow> pydict" where
  "normalize_result dump r name ms =
     set_default ''_duration_ms'' (PFloat ms) (set_default ''_tool'' (PStr name)
       (case r of PDict kvs \<Rightarrow> kvs | Obj n \<Rightarrow> dump n | _ \<Rightarrow> [(PStr ''result'', r)]))"

definition effective_timeout :: "seconds option \<Rightarrow> ToolHandler \<Rightarrow> seconds" where
  "effective_timeout t h = (case t of None \<Rightarrow> th_timeout h | Some s \<Rightarrow> if s = 0 then th_timeout h else s)"

text \<open>
  The \<open>try\<close> block: the time that passes and the result. A generator runs without a limit; a
  \<open>TimeoutError\<close> of the tool itself is not told apart from the limit.
\<close>

datatype execution = Returned PyVal | Timed_out | Raised string

definition run_handler :: "tool_call \<Rightarrow> seconds \<Rightarrow> ToolHandler \<Rightarrow> PyVal \<Rightarrow> seconds \<times> execution" where
  "run_handler call t h params =
     (case call (th_handler h) params of
        (d, r) \<Rightarrow>
          if th_kind h \<noteq> Generator_function \<and> d \<ge> t then (t, Timed_out)
          else (d, case r of Inr v \<Rightarrow> Returned v
                   | Inl (c, e) \<Rightarrow> if c = ''TimeoutError'' then Timed_out else Raised e))"

definition or_empty :: "PyVal \<Rightarrow> PyVal" where
  "or_empty v = (if truthy v then v else PDict [])"

definition add_record :: "ToolExecutionRecord \<Rightarrow> ToolStatus \<Rightarrow> ToolExecutor \<Rightarrow> ToolExecutor" where
  "add_record r st x = x\<lparr>te_history := te_history x @ [r], te_status := dict_set (er_tool r) st (te_status x)\<rparr>"

text \<open>\<open>show_seconds\<close> formats a float, \<open>trace\<close> is \<open>traceback.format_exc()\<close>.\<close>

definition execute_tool ::
    "tool_call \<Rightarrow> (nat \<Rightarrow> pydict) \<Rightarrow> (seconds \<Rightarrow> string) \<Rightarrow> string \<Rightarrow> string \<Rightarrow> PyVal \<Rightarrow> seconds option \<Rightarrow>
     ToolExecutor \<Rightarrow> ToolExecutor \<times> pydict" where
  "execute_tool call dump show_seconds trace name parameters timeout x =
     (case dict_get (te_tools x) name of
        None \<Rightarrow> (x, [(PStr ''error'', PStr (''Tool '' @ [CHR 0x27] @ name @ [CHR 0x27] @ '' not found'')),
                     (PStr ''available'', PList (map PStr (dict_keys (te_tools x)))), (PStr ''_tool'', PStr name)])
      | Some h \<Rightarrow>
          (let t = effective_timeout timeout h;
               params = or_empty parameters
           in case run_handler call t h params of
                (d, Returned v) \<Rightarrow>
                  (let out = dict_set (PStr ''success'') (PBool True) (normalize_result dump v name (d * 1000))
                   in (add_record \<lparr>er_tool = name, er_input = params, er_output = out,
                         er_duration_ms = d * 1000, er_success = True, er_error = None\<rparr> AVAILABLE x, out))
              | (d, Timed_out) \<Rightarrow>
                  (let err = ''Tool '' @ [CHR 0x27] @ name @ [CHR 0x27] @ '' timed out after '' @ show_seconds t @ ''s''
                   in (add_record \<lparr>er_tool = name, er_input = params, er_output = [],
                         er_duration_ms = d * 1000, er_success = False, er_error = Some err\<rparr> AVAILABLE x,
                       [(PStr ''error'', PStr err), (PStr ''_tool'', PStr name), (PStr ''_duration_ms'', PFloat (d * 1000))]))
              | (d, Raised e) \<Rightarrow>
                  (add_record \<lparr>er_tool = name, er_input = params, er_output = [],
                     er_duration_ms = d * 1000, er_success = False, er_error = Some e\<rparr> ERROR x,
                   [(PStr ''error'', PStr e), (PStr ''_trace'', PStr trace), (PStr ''_tool'', PStr name),
                    (PStr ''_duration_ms'', PFloat (d * 1000))])))"

text \<open>
  A call that is cancelled while it waits for the tool: \<open>CancelledError\<close> is no \<open>Exception\<close>, so
  neither handler runs.
\<close>

definition cancel_execution :: "string \<Rightarrow> ToolExecutor \<Rightarrow> ToolExecutor" where
  "cancel_execution name x =
     (if dict_has (te_tools x) name then x\<lparr>te_status := dict_set name BUSY (te_status x)\<rparr> else x)"

subsection \<open>Chains\<close>

record chain_def =
  cd_tool :: string
  cd_params :: pydict
  cd_map :: "(PyVal \<times> PyVal) list"

text \<open>A parameter that starts with a dollar sign refers to a key of the context.\<close>

fun resolve_value :: "pydict \<Rightarrow> PyVal \<Rightarrow> PyVal" where
  "resolve_value ctx (PStr (c # key)) =
     (if c = CHR 0x24 then dict_get_default ctx (PStr key) (PStr (c # key)) else PStr (c # key))"
| "resolve_value ctx v = v"

definition resolve_params :: "pydict \<Rightarrow> pydict \<Rightarrow> pydict" where
  "resolve_params ctx params = map (\<lambda>(k, v). (k, resolve_value ctx v)) params"

definition map_output :: "pydict \<Rightarrow> PyVal \<times> PyVal \<Rightarrow> pydict \<Rightarrow> pydict" where
  "map_output result m ctx =
     (case dict_get result (fst m) of
        Some v \<Rightarrow> dict_set (snd m) v ctx
      | None \<Rightarrow>
          (case dict_get result (PStr ''result'') of
             Some (PDict kvs) \<Rightarrow> (case dict_get kvs (fst m) of None \<Rightarrow> ctx | Some v \<Rightarrow> dict_set (snd m) v ctx)
           | _ \<Rightarrow> ctx))"

text \<open>\<open>exec\<close> is \<open>execute_tool\<close> with its parameters.\<close>

fun chain_loop ::
    "(string \<Rightarrow> pydict \<Rightarrow> ToolExecutor \<Rightarrow> ToolExecutor \<times> pydict) \<Rightarrow> chain_def list \<Rightarrow> pydict \<Rightarrow> ToolExecutor \<Rightarrow>
     ToolExecutor \<times> pydict list" where
  "chain_loop exec [] ctx x = (x, [])"
| "chain_loop exec (d # ds) ctx x =
     (case exec (cd_tool d) (resolve_params ctx (cd_params d)) x of
        (x', result) \<Rightarrow>
          (case chain_loop exec ds (fold (map_output result) (cd_map d) ctx) x' of
             (x'', results) \<Rightarrow> (x'', result # results)))"

definition chain ::
    "tool_call \<Rightarrow> (nat \<Rightarrow> pydict) \<Rightarrow> (seconds \<Rightarrow> string) \<Rightarrow> string \<Rightarrow> chain_def list \<Rightarrow> pydict \<Rightarrow> ToolExecutor \<Rightarrow>
     ToolExecutor \<times> pydict list" where
  "chain call dump show_seconds trace ds ctx x =
     chain_loop (\<lambda>n p x. execute_tool call dump show_seconds trace n (PDict p) None x) ds ctx x"

subsection \<open>Queries\<close>

definition tool_definitions :: "ToolExecutor \<Rightarrow> (string \<times> string \<times> PyVal) list" where
  "tool_definitions x = map (\<lambda>h. (th_name h, th_description h, th_parameters h)) (dict_values (te_tools x))"

definition tool_status :: "ToolExecutor \<Rightarrow> (string \<times> ToolStatus \<times> string) list" where
  "tool_status x = map (\<lambda>(n, h). (n, dict_get_default (te_status x) n DISABLED, th_description h)) (te_tools x)"

definition available_count :: "ToolExecutor \<Rightarrow> nat" where
  "available_count x = length (filter (\<lambda>s. s = AVAILABLE) (dict_values (te_status x)))"

definition get_tool_history :: "int \<Rightarrow> ToolExecutor \<Rightarrow> (string \<times> rat \<times> bool \<times> string option) list" where
  "get_tool_history n x = map (\<lambda>r. (er_tool r, er_duration_ms r, er_success r, er_error r))
     (py_drop (- n) (te_history x))"

definition clear_tool_history :: "ToolExecutor \<Rightarrow> ToolExecutor" where
  "clear_tool_history x = x\<lparr>te_history := []\<rparr>"

definition get_available_tools :: "ToolExecutor \<Rightarrow> string list" where
  "get_available_tools x = dict_keys (te_tools x)"

definition has_tool :: "ToolExecutor \<Rightarrow> string \<Rightarrow> bool" where
  "has_tool x n \<longleftrightarrow> dict_has (te_tools x) n"

definition tool_count :: "ToolExecutor \<Rightarrow> nat" where
  "tool_count x = length (te_tools x)"

subsection \<open>The result cache\<close>

record ToolCache =
  tc_store :: "(string, seconds \<times> PyVal) dict"
  tc_ttl :: seconds

definition cache_get :: "seconds \<Rightarrow> string \<Rightarrow> ToolCache \<Rightarrow> ToolCache \<times> PyVal" where
  "cache_get now k c =
     (case dict_get (tc_store c) k of
        None \<Rightarrow> (c, PNone)
      | Some (expiry, v) \<Rightarrow> if now > expiry then (c\<lparr>tc_store := dict_del k (tc_store c)\<rparr>, PNone) else (c, v))"

definition cache_set :: "seconds \<Rightarrow> string \<Rightarrow> PyVal \<Rightarrow> seconds option \<Rightarrow> ToolCache \<Rightarrow> ToolCache" where
  "cache_set now k v ttl c =
     c\<lparr>tc_store := dict_set k (now + (case ttl of None \<Rightarrow> tc_ttl c | Some t \<Rightarrow> if t = 0 then tc_ttl c else t), v)
        (tc_store c)\<rparr>"

text \<open>\<open>value\<close> is what the factory returns, \<open>done\<close> the time when it does.\<close>

definition get_or_set :: "seconds \<Rightarrow> seconds \<Rightarrow> string \<Rightarrow> PyVal \<Rightarrow> seconds option \<Rightarrow> ToolCache \<Rightarrow> ToolCache \<times> PyVal" where
  "get_or_set now finished k v ttl c =
     (case cache_get now k c of
        (c', cached) \<Rightarrow> if cached \<noteq> PNone then (c', cached) else (cache_set finished k v ttl c', v))"

definition cache_invalidate :: "string \<Rightarrow> ToolCache \<Rightarrow> ToolCache" where
  "cache_invalidate k c = c\<lparr>tc_store := dict_del k (tc_store c)\<rparr>"

subsection \<open>The states of the tools\<close>

definition executor_ok :: "ToolExecutor \<Rightarrow> bool" where
  "executor_ok x \<longleftrightarrow>
     list_all (\<lambda>n. dict_get (te_status x) n = Some AVAILABLE \<or> dict_get (te_status x) n = Some ERROR) (dict_keys (te_tools x)) \<and>
     list_all (\<lambda>r. er_success r \<longleftrightarrow> er_error r = None) (te_history x)"

datatype executor_op =
    TRegister string nat handler_kind "seconds option" string "PyVal option"
  | TDiscover "plugin_instance option list"
  | TExecute tool_call "nat \<Rightarrow> pydict" "seconds \<Rightarrow> string" string string PyVal "seconds option"
  | TChain tool_call "nat \<Rightarrow> pydict" "seconds \<Rightarrow> string" string "chain_def list" pydict
  | TCancel string
  | TClear

fun uncancelled :: "executor_op \<Rightarrow> bool" where
  "uncancelled (TCancel n) \<longleftrightarrow> False"
| "uncancelled op \<longleftrightarrow> True"

fun executor_step :: "executor_op \<Rightarrow> ToolExecutor \<Rightarrow> ToolExecutor" where
  "executor_step (TRegister n h k t d p) x = register_tool n h k t d p x"
| "executor_step (TDiscover is) x = init_tools is x"
| "executor_step (TExecute call dump sh tr n p t) x = fst (execute_tool call dump sh tr n p t x)"
| "executor_step (TChain call dump sh tr ds ctx) x = fst (chain call dump sh tr ds ctx x)"
| "executor_step (TCancel n) x = cancel_execution n x"
| "executor_step TClear x = clear_tool_history x"

lemma dict_keys_set: "set (dict_keys (dict_set k v d)) = insert k (set (dict_keys d))"
  by (simp add: dom_update)

lemma ok_register_handler: "executor_ok x \<Longrightarrow> executor_ok (register_handler n h k t d p x)"
  by (auto simp: executor_ok_def register_handler_def list_all_iff dict_keys_set simp del: set_map)

lemma ok_fold: "(\<And>y x. executor_ok x \<Longrightarrow> executor_ok (f y x)) \<Longrightarrow> executor_ok x \<Longrightarrow> executor_ok (fold f ys x)"
  by (induction ys arbitrary: x) auto

lemma ok_register_adapter: "executor_ok x \<Longrightarrow> executor_ok (register_adapter n a x)"
  unfolding register_adapter_def
  by (cases a) (auto intro!: ok_register_handler ok_fold split: option.split)

lemma ok_init_tools: "executor_ok x \<Longrightarrow> executor_ok (init_tools is x)"
proof (induction "is" x rule: init_tools.induct)
  case (3 inst "is" x)
  have t: "executor_ok (register_plugin_tool inst pt y)" if "executor_ok y" for pt y
    using that by (simp add: register_plugin_tool_def ok_register_handler split: prod.split)
  have tools: "executor_ok (fold (register_plugin_tool inst) pts x)" for pts
    by (rule ok_fold [OF t 3(2)])
  have "executor_ok (fold (\<lambda>(n, a). register_adapter n a) as (fold (register_plugin_tool inst) pts x))" for as pts
    by (rule ok_fold [OF _ tools]) (auto intro: ok_register_adapter)
  with 3 tools show ?case by (simp add: Let_def split: sum.split)
qed simp_all

lemma ok_add_record:
  "executor_ok x \<Longrightarrow> st = AVAILABLE \<or> st = ERROR \<Longrightarrow> (er_success r \<longleftrightarrow> er_error r = None) \<Longrightarrow>
     executor_ok (add_record r st x)"
  by (auto simp: executor_ok_def add_record_def list_all_iff)

lemma ok_execute: "executor_ok x \<Longrightarrow> executor_ok (fst (execute_tool call dump sh tr n p t x))"
  by (auto simp: execute_tool_def Let_def intro: ok_add_record split: option.split prod.split execution.split)

lemma ok_chain_loop:
  assumes "\<And>n p x. executor_ok x \<Longrightarrow> executor_ok (fst (exec n p x))"
  shows "executor_ok x \<Longrightarrow> executor_ok (fst (chain_loop exec ds ctx x))"
proof (induction ds arbitrary: ctx x)
  case (Cons d ds)
  then show ?case
    using assms [of x "cd_tool d" "resolve_params ctx (cd_params d)"] by (auto split: prod.split) (metis fst_conv)
qed simp

lemma executor_ok_step: "executor_ok x \<Longrightarrow> uncancelled op \<Longrightarrow> executor_ok (executor_step op x)"
proof (induction op)
  case (TRegister n h k t d p)
  then show ?case by (simp add: register_tool_def ok_register_handler)
next
  case (TChain call dump sh tr ds ctx)
  then show ?case by (auto simp: chain_def intro: ok_chain_loop ok_execute)
next
  case TClear
  then show ?case by (simp add: executor_ok_def clear_tool_history_def)
qed (simp_all add: ok_init_tools ok_execute)

interpretation executor: guarded_system executor_step uncancelled executor_ok
  by unfold_locales (rule executor_ok_step)

text \<open>After any sequence of registrations, discoveries, calls and chains that are not
  cancelled, whatever the tools return, raise or take, every registered tool is available or in
  error: none stays busy. And the history marks a call as successful exactly when it recorded no
  error.\<close>

theorem tools_never_stuck:
  assumes "list_all uncancelled ops"
  shows "list_all (\<lambda>(n, st, d). st = AVAILABLE \<or> st = ERROR) (tool_status (fold executor_step ops (new_executor t))) \<and>
    list_all (\<lambda>(n, ms, ok, err). ok = (err = None)) (get_tool_history k (fold executor_step ops (new_executor t)))"
proof -
  let ?x = "fold executor_step ops (new_executor t)"
  have "executor_ok ?x"
    by (rule executor.guarded_run [OF _ assms]) (simp add: executor_ok_def new_executor_def)
  then show ?thesis
    by (fastforce simp: executor_ok_def tool_status_def get_tool_history_def list_all_iff py_drop_def
        dict_get_default_def dest: in_set_dropD)
qed

definition slow_tool :: tool_call where
  "slow_tool h params = (60, Inr PNone)"

theorem tools_never_stuck_witness:
  "list_all (\<lambda>(n, st, d). st = AVAILABLE \<or> st = ERROR)
     (tool_status (fold executor_step [TRegister ''t'' 0 Plain_function None [] None,
        TExecute slow_tool (\<lambda>n. []) (\<lambda>s. ''30.0'') [] ''t'' PNone None] (new_executor 30)))"
  using tools_never_stuck [of "[TRegister ''t'' 0 Plain_function None [] None,
      TExecute slow_tool (\<lambda>n. []) (\<lambda>s. ''30.0'') [] ''t'' PNone None]" 30 0] by simp

text \<open>A cancelled call leaves its tool busy, which later registrations and calls of other tools keep.\<close>

lemma cancelled_stays_busy:
  assumes "has_tool x n"
  shows "dict_get (te_status (cancel_execution n x)) n = Some BUSY"
    and "m \<noteq> n \<Longrightarrow> dict_get (te_status (register_handler m h k t d p (cancel_execution n x))) n = Some BUSY"
    and "m \<noteq> n \<Longrightarrow> dict_get (te_status (fst (execute_tool call dump sh tr m params to (cancel_execution n x)))) n = Some BUSY"
  using assms by (auto simp: has_tool_def cancel_execution_def register_handler_def execute_tool_def add_record_def
      Let_def split: option.split prod.split execution.split)

subsection \<open>What a result says\<close>

text \<open>The key \<open>success\<close> of a result says only that the function returned within its limit.
  It is true whenever it did, also if the dict it returned carries a \<open>success\<close> that is false or
  an error; and it is absent when the tool is unknown, raised, or was stopped.\<close>

theorem success_means_returned:
  "dict_get (snd (execute_tool call dump sh tr name params timeout x)) (PStr ''success'') =
     (case dict_get (te_tools x) name of
        None \<Rightarrow> None
      | Some h \<Rightarrow> (case snd (run_handler call (effective_timeout timeout h) h (or_empty params)) of
            Returned v \<Rightarrow> Some (PBool True) | _ \<Rightarrow> None))"
  by (simp add: execute_tool_def Let_def split: option.split prod.split execution.split)

lemma execute_history:
  "te_history (fst (execute_tool call dump sh tr name params timeout x)) = te_history x \<longleftrightarrow> \<not> has_tool x name"
  by (simp add: execute_tool_def has_tool_def dict_has_def Let_def add_record_def
      split: option.split prod.split execution.split)

lemma generator_has_no_limit:
  "th_kind h = Generator_function \<Longrightarrow> call (th_handler h) p = (d, Inr v) \<Longrightarrow> run_handler call t h p = (d, Returned v)"
  by (simp add: run_handler_def)

subsection \<open>Chains go on\<close>

lemma chain_loop_length: "length (snd (chain_loop exec ds ctx x)) = length ds"
  by (induction ds arbitrary: ctx x) (auto split: prod.split, metis snd_conv)

lemma chain_length: "length (snd (chain call dump sh tr ds ctx x)) = length ds"
  by (simp add: chain_def chain_loop_length)

text \<open>A mapped key of a result reaches the parameters of the next tool.\<close>

lemma chain_pipes:
  assumes "exec t1 p1 x = (x1, r1)" and "dict_get r1 (PStr k) = Some v"
    and "resolve_params ctx p1 = p1" and "exec t2 [(q, v)] x1 = (x2, r2)"
  shows "chain_loop exec [\<lparr>cd_tool = t1, cd_params = p1, cd_map = [(PStr k, PStr j)]\<rparr>,
      \<lparr>cd_tool = t2, cd_params = [(q, PStr (CHR 0x24 # j))], cd_map = []\<rparr>] ctx x = (x2, [r1, r2])"
  using assms by (simp add: resolve_params_def map_output_def dict_get_default_def)

subsection \<open>The cache\<close>

lemma tool_cache_hit:
  assumes "v \<noteq> PNone" and "dict_get (tc_store c) k = None" and "now' \<le> finished + tc_ttl c"
  shows "get_or_set now' finished' k w None (fst (get_or_set now finished k v None c)) =
      (fst (get_or_set now finished k v None c), v)"
  using assms by (simp add: get_or_set_def cache_get_def cache_set_def)

lemma tool_cache_expired:
  "dict_get (tc_store c) k = Some (e, v) \<Longrightarrow> e < now \<Longrightarrow>
     cache_get now k c = (cache_invalidate k c, PNone)"
  by (simp add: cache_get_def cache_invalidate_def)

lemma none_never_cached:
  "dict_get (tc_store c) k = None \<Longrightarrow>
     snd (get_or_set now' finished' k w ttl (fst (get_or_set now finished k PNone ttl c))) = w"
  by (simp add: get_or_set_def cache_get_def cache_set_def split: if_splits)

end
