(* ===== verification/Agent_Memory.thy ===== *)
theory Agent_Memory
  imports Systems PyString PyValue
begin

text \<open>
  The first tier of an agent's memory (\<open>EphemeralMemory\<close> in \<open>engine/agent_runtime/memory.py\<close>):
  a bounded store with tags that evicts the entry accessed longest ago. Times are compared as
  ISO texts by the code, which orders them like the times themselves; the two readings of the
  clock for a new entry are taken as one. \<open>str\<close> and \<open>str.lower\<close>
  are the arguments \<open>str_of\<close> and \<open>low\<close>.
\<close>

record mem_entry =
  me_value :: PyVal
  me_created :: datetime
  me_accessed :: datetime
  me_count :: nat

record EphemeralMemory =
  em_store :: "(string, mem_entry) dict"
  em_tags :: "(string, string list) dict"
  em_max :: int
  em_access :: nat

definition new_ephemeral :: "int \<Rightarrow> EphemeralMemory" where
  "new_ephemeral n = \<lparr>em_store = [], em_tags = [], em_max = n, em_access = 0\<rparr>"

text \<open>\<open>tag_keys.remove(key)\<close> in every list of tags that has the key.\<close>

definition untag :: "string \<Rightarrow> (string, string list) dict \<Rightarrow> (string, string list) dict" where
  "untag k tags = map (\<lambda>(t, ks). (t, remove1 k ks)) tags"

text \<open>\<open>min(keys, key=...)\<close>: the first key whose entry was accessed the longest ago.\<close>

fun oldest :: "(string, mem_entry) dict \<Rightarrow> (string \<times> mem_entry) option" where
  "oldest [] = None"
| "oldest ((k, e) # d) =
     (case oldest d of None \<Rightarrow> Some (k, e)
      | Some (j, f) \<Rightarrow> if me_accessed f < me_accessed e then Some (j, f) else Some (k, e))"

definition evict_one :: "EphemeralMemory \<Rightarrow> EphemeralMemory" where
  "evict_one m =
     (case oldest (em_store m) of
        None \<Rightarrow> m
      | Some (k, e) \<Rightarrow> m\<lparr>em_store := dict_del k (em_store m), em_tags := untag k (em_tags m)\<rparr>)"

definition add_tag :: "string \<Rightarrow> string \<Rightarrow> (string, string list) dict \<Rightarrow> (string, string list) dict" where
  "add_tag k t tags =
     (let ks = dict_get_default tags t []
      in dict_set t (if k \<in> set ks then ks else ks @ [k]) tags)"

definition store_value :: "datetime \<Rightarrow> string \<Rightarrow> PyVal \<Rightarrow> string list \<Rightarrow> EphemeralMemory \<Rightarrow> EphemeralMemory" where
  "store_value now k v tags m =
     (let m = (if int (length (em_store m)) \<ge> em_max m \<and> \<not> dict_has (em_store m) k then evict_one m else m)
      in m\<lparr>em_store := dict_set k \<lparr>me_value = v, me_created = now, me_accessed = now, me_count = 0\<rparr> (em_store m),
           em_tags := fold (add_tag k) tags (em_tags m)\<rparr>)"

definition get_memory :: "datetime \<Rightarrow> string \<Rightarrow> PyVal \<Rightarrow> EphemeralMemory \<Rightarrow> EphemeralMemory \<times> PyVal" where
  "get_memory now k dflt m =
     (case dict_get (em_store m) k of
        None \<Rightarrow> (m, dflt)
      | Some e \<Rightarrow>
          (m\<lparr>em_store := dict_set k (e\<lparr>me_count := me_count e + 1, me_accessed := now\<rparr>) (em_store m),
             em_access := em_access m + 1\<rparr>, me_value e))"

text \<open>The loop of \<open>search\<close> stops after an append that reaches the limit.\<close>

fun search_loop ::
    "(string \<times> mem_entry \<Rightarrow> bool) \<Rightarrow> int \<Rightarrow> (string, mem_entry) dict \<Rightarrow> (string \<times> mem_entry) list \<Rightarrow>
     (string \<times> mem_entry) list" where
  "search_loop hit n [] found = found"
| "search_loop hit n (p # d) found =
     (if hit p then
        (let found = found @ [p] in if int (length found) \<ge> n then found else search_loop hit n d found)
      else search_loop hit n d found)"

definition search_memory ::
    "(PyVal \<Rightarrow> string) \<Rightarrow> (string \<Rightarrow> string) \<Rightarrow> string \<Rightarrow> int \<Rightarrow> EphemeralMemory \<Rightarrow> (string \<times> mem_entry) list" where
  "search_memory str_of low q n m =
     search_loop (\<lambda>(k, e). py_in (low q) (low k) \<or> py_in (low q) (low (str_of (me_value e)))) n (em_store m) []"

definition get_by_tag :: "string \<Rightarrow> EphemeralMemory \<Rightarrow> (string \<times> PyVal) list" where
  "get_by_tag t m =
     List.map_filter (\<lambda>k. map_option (\<lambda>e. (k, me_value e)) (dict_get (em_store m) k))
       (dict_get_default (em_tags m) t [])"

definition delete_memory :: "string \<Rightarrow> EphemeralMemory \<Rightarrow> EphemeralMemory \<times> bool" where
  "delete_memory k m =
     (if dict_has (em_store m) k
      then (m\<lparr>em_store := dict_del k (em_store m), em_tags := untag k (em_tags m)\<rparr>, True)
      else (m, False))"

definition clear_memory :: "EphemeralMemory \<Rightarrow> EphemeralMemory" where
  "clear_memory m = m\<lparr>em_store := [], em_tags := [], em_access := 0\<rparr>"

text \<open>\<open>memory[key]\<close>, which raises \<open>KeyError\<close> for a missing key and for a stored \<open>None\<close>.\<close>

definition getitem_memory :: "datetime \<Rightarrow> string \<Rightarrow> EphemeralMemory \<Rightarrow> EphemeralMemory \<times> (string + PyVal)" where
  "getitem_memory now k m =
     (case get_memory now k PNone m of (m', v) \<Rightarrow> (m', if v = PNone then Inl ''KeyError'' else Inr v))"

definition memory_count :: "EphemeralMemory \<Rightarrow> nat" where
  "memory_count m = length (em_store m)"

subsection \<open>The bound and the tags\<close>

definition tags_ok :: "EphemeralMemory \<Rightarrow> bool" where
  "tags_ok m \<longleftrightarrow> list_all (\<lambda>(t, ks). distinct ks \<and> list_all (dict_has (em_store m)) ks) (em_tags m)"

definition mem_inv :: "int \<Rightarrow> EphemeralMemory \<Rightarrow> bool" where
  "mem_inv n m \<longleftrightarrow> em_max m = n \<and> dict_wf (em_store m) \<and> dict_wf (em_tags m) \<and> tags_ok m \<and>
     int (length (em_store m)) \<le> max 1 n"

datatype mem_op =
    MStore datetime string PyVal "string list"
  | MGet datetime string PyVal
  | MDelete string
  | MClear

fun mem_step :: "mem_op \<Rightarrow> EphemeralMemory \<Rightarrow> EphemeralMemory" where
  "mem_step (MStore now k v tags) m = store_value now k v tags m"
| "mem_step (MGet now k d) m = fst (get_memory now k d m)"
| "mem_step (MDelete k) m = fst (delete_memory k m)"
| "mem_step MClear m = clear_memory m"

lemma oldest_None_iff [simp]: "oldest d = None \<longleftrightarrow> d = []"
  by (induction d) (auto split: option.splits)

lemma oldest_Some:
  "oldest d = Some (k, e) \<Longrightarrow> (k, e) \<in> set d \<and> (\<forall>p\<in>set d. me_accessed e \<le> me_accessed (snd p))"
proof (induction d arbitrary: k e)
  case (Cons p d)
  obtain j f where p: "p = (j, f)" by (cases p)
  show ?case
  proof (cases "oldest d")
    case None
    with Cons.prems p show ?thesis by simp
  next
    case (Some q)
    obtain i g where q: "q = (i, g)" by (cases q)
    have IH: "(i, g) \<in> set d" "\<forall>p\<in>set d. me_accessed g \<le> me_accessed (snd p)"
      using Cons.IH [of i g] Some q by simp_all
    show ?thesis
    proof (cases "me_accessed g < me_accessed f")
      case True
      with Cons.prems Some q p have "k = i" "e = g" by simp_all
      with IH True p show ?thesis by auto
    next
      case False
      with Cons.prems Some q p have "k = j" "e = f" by simp_all
      moreover from False IH(2) have "\<forall>p\<in>set d. me_accessed f \<le> me_accessed (snd p)" by fastforce
      ultimately show ?thesis using p by simp
    qed
  qed
qed simp

lemma tags_ok_remove:
  assumes "tags_ok m" and "em_tags m' = untag k (em_tags m)" and "em_store m' = dict_del k (em_store m)"
  shows "tags_ok m'"
proof -
  have ks: "distinct (remove1 k ks) \<and> list_all (dict_has (dict_del k d)) (remove1 k ks)"
    if "distinct ks \<and> list_all (dict_has d) ks" for ks and d :: "(string, mem_entry) dict"
    using that by (simp add: list_all_iff set_remove1_eq)
  show ?thesis
    unfolding tags_ok_def assms(2,3) untag_def list_all_iff [of _ "map _ _"] set_map
  proof (rule ballI)
    fix p assume "p \<in> (\<lambda>(t, ks). (t, remove1 k ks)) ` set (em_tags m)"
    then obtain t l where "p = (t, remove1 k l)" "(t, l) \<in> set (em_tags m)" by auto
    moreover from this(2) assms(1) have "distinct l \<and> list_all (dict_has (em_store m)) l"
      unfolding tags_ok_def list_all_iff [of _ "em_tags m"] by blast
    ultimately show "case p of (t, ks) \<Rightarrow> distinct ks \<and> list_all (dict_has (dict_del k (em_store m))) ks"
      using ks by simp
  qed
qed

lemma length_dict_del_le: "length (dict_del k d) \<le> length d"
  by (simp add: AList.delete_eq)

lemma map_filter_lookup:
  "list_all (dict_has d) ks \<Longrightarrow> map fst (List.map_filter (\<lambda>k. map_option (\<lambda>e. (k, f e)) (dict_get d k)) ks) = ks"
  by (induction ks) (auto simp: dict_has_def)

lemma dict_wf_untag [simp]: "dict_wf (untag k tags) = dict_wf tags"
  by (simp add: untag_def dict_wf_map_values)

lemma tags_ok_mono:
  "tags_ok m \<Longrightarrow> em_tags m' = em_tags m \<Longrightarrow> (\<And>k. dict_has (em_store m) k \<Longrightarrow> dict_has (em_store m') k) \<Longrightarrow> tags_ok m'"
  by (fastforce simp: tags_ok_def list_all_iff)

lemma tags_ok_add:
  assumes "tags_ok m" and "dict_has (em_store m) k" and "dict_wf (em_tags m)"
  shows "tags_ok (m\<lparr>em_tags := add_tag k t (em_tags m)\<rparr>)"
proof -
  let ?ks = "dict_get_default (em_tags m) t []"
  have "distinct ?ks \<and> list_all (dict_has (em_store m)) ?ks"
    using assms(1) by (auto simp: tags_ok_def list_all_iff dict_get_default_def split: option.split dest!: map_of_SomeD)
  with assms show ?thesis
    by (auto simp: tags_ok_def add_tag_def Let_def list_all_iff set_dict_set)
qed

lemma tags_ok_add_many:
  "tags_ok m \<Longrightarrow> dict_has (em_store m) k \<Longrightarrow> dict_wf (em_tags m) \<Longrightarrow>
     tags_ok (m\<lparr>em_tags := fold (add_tag k) ts (em_tags m)\<rparr>) \<and> dict_wf (fold (add_tag k) ts (em_tags m))"
proof (induction ts arbitrary: m)
  case (Cons t ts)
  let ?m = "m\<lparr>em_tags := add_tag k t (em_tags m)\<rparr>"
  have "dict_wf (em_tags ?m)" using Cons.prems by (simp add: add_tag_def Let_def)
  with Cons.IH [of ?m] tags_ok_add [OF Cons.prems] Cons.prems show ?case by simp
qed simp

lemma evict_one_inv: "mem_inv n m \<Longrightarrow> mem_inv n (evict_one m)"
proof (cases "oldest (em_store m)")
  case (Some p)
  assume m: "mem_inv n m"
  obtain k e where p: "p = (k, e)" by (cases p)
  have "tags_ok (evict_one m)"
    by (rule tags_ok_remove [of m _ k]) (use m Some p in \<open>simp_all add: mem_inv_def evict_one_def\<close>)
  with m Some p length_dict_del_le [of k "em_store m"] show ?thesis
    by (simp add: mem_inv_def evict_one_def)
qed (simp add: evict_one_def)

lemma evict_one_length:
  assumes "dict_wf (em_store m)" "em_store m \<noteq> []"
  shows "length (em_store (evict_one m)) = length (em_store m) - 1"
proof (cases "oldest (em_store m)")
  case (Some p)
  then have "fst p \<in> set (dict_keys (em_store m))" using oldest_Some [of _ "fst p" "snd p"] by force
  with Some assms show ?thesis by (cases p) (simp add: evict_one_def length_dict_del dict_has_iff)
qed (use assms in simp)

lemma evict_one_max [simp]: "em_max (evict_one m) = em_max m"
  by (simp add: evict_one_def split: option.split prod.split)

lemma store_value_inv: "mem_inv n m \<Longrightarrow> mem_inv n (store_value now k v tags m)"
proof -
  assume m: "mem_inv n m"
  let ?full = "int (length (em_store m)) \<ge> em_max m \<and> \<not> dict_has (em_store m) k"
  let ?m = "if ?full then evict_one m else m"
  let ?e = "\<lparr>me_value = v, me_created = now, me_accessed = now, me_count = 0\<rparr>"
  let ?m1 = "?m\<lparr>em_store := dict_set k ?e (em_store ?m)\<rparr>"
  have i: "mem_inv n ?m" using m by (simp add: evict_one_inv)
  have t: "tags_ok ?m1"
    by (rule tags_ok_mono [of ?m]) (use i in \<open>auto simp: mem_inv_def\<close>)
  have "int (length (dict_set k ?e (em_store ?m))) \<le> max 1 n"
  proof (cases ?full)
    case True
    with m evict_one_length [of m] show ?thesis
      by (cases "em_store m = []") (auto simp: mem_inv_def length_dict_set evict_one_def)
  next
    case False
    with m show ?thesis by (auto simp: mem_inv_def length_dict_set)
  qed
  moreover have "tags_ok (?m1\<lparr>em_tags := fold (add_tag k) tags (em_tags ?m1)\<rparr>) \<and> dict_wf (fold (add_tag k) tags (em_tags ?m1))"
    using i by (intro tags_ok_add_many [OF t]) (simp_all add: mem_inv_def)
  ultimately show ?thesis
    using i by (simp add: store_value_def Let_def mem_inv_def)
qed

lemma mem_inv_step: "mem_inv n m \<Longrightarrow> mem_inv n (mem_step op m)"
proof (induction op)
  case (MStore now k v tags)
  then show ?case by (simp add: store_value_inv)
next
  case (MGet now k d)
  have "tags_ok (fst (get_memory now k d m))"
    by (rule tags_ok_mono [of m]) (use MGet in \<open>auto simp: mem_inv_def get_memory_def split: option.split\<close>)
  with MGet show ?case
    by (auto simp: mem_inv_def get_memory_def length_dict_set dict_has_def split: option.split)
next
  case (MDelete k)
  have "tags_ok (fst (delete_memory k m))" if "dict_has (em_store m) k"
    by (rule tags_ok_remove [of m _ k]) (use MDelete that in \<open>simp_all add: mem_inv_def delete_memory_def\<close>)
  with MDelete length_dict_del_le [of k "em_store m"] show ?case
    by (auto simp: mem_inv_def delete_memory_def)
qed (simp add: mem_inv_def clear_memory_def tags_ok_def)

interpretation mem: invariant_system mem_step "mem_inv n" for n
  by unfold_locales (rule mem_inv_step)

text \<open>After any operations the memory holds at most the configured number of entries (one, if
  that number is not positive), and every key listed under a tag is stored, listed once and
  found by the tag: evictions and deletions leave no dangling key behind.\<close>

theorem ephemeral_bounded:
  "int (memory_count (fold mem_step ops (new_ephemeral n))) \<le> max 1 n \<and>
   list_all (\<lambda>(t, ks). distinct ks \<and> map fst (get_by_tag t (fold mem_step ops (new_ephemeral n))) = ks)
     (em_tags (fold mem_step ops (new_ephemeral n)))"
proof -
  let ?m = "fold mem_step ops (new_ephemeral n)"
  have i: "mem_inv n ?m"
    by (rule mem.inv_run) (simp add: mem_inv_def new_ephemeral_def tags_ok_def)
  have "map fst (get_by_tag t ?m) = ks" if "(t, ks) \<in> set (em_tags ?m)" for t ks
  proof -
    from i that have "dict_get (em_tags ?m) t = Some ks" "list_all (dict_has (em_store ?m)) ks"
      by (auto simp: mem_inv_def dict_get_iff tags_ok_def list_all_iff)
    then show ?thesis
      by (simp add: get_by_tag_def dict_get_default_def map_filter_lookup)
  qed
  with i show ?thesis by (auto simp: mem_inv_def memory_count_def tags_ok_def list_all_iff)
qed

text \<open>A new key in a full memory evicts exactly one entry, and one that was accessed no later than
  any other; every other entry stays as it was.\<close>

theorem store_evicts_oldest:
  assumes "mem_inv n m" and "n \<ge> 1" and "int (memory_count m) = n" and "\<not> dict_has (em_store m) k"
  shows "\<exists>j e. dict_get (em_store m) j = Some e \<and>
    (\<forall>p\<in>set (em_store m). me_accessed e \<le> me_accessed (snd p)) \<and>
    (\<forall>i. i \<noteq> k \<longrightarrow> dict_get (em_store (store_value now k v tags m)) i =
       (if i = j then None else dict_get (em_store m) i))"
proof -
  have "em_store m \<noteq> []" using assms(2,3) by (auto simp: memory_count_def)
  then obtain j e where o: "oldest (em_store m) = Some (j, e)"
    using oldest_None_iff [of "em_store m"] by (cases "oldest (em_store m)") auto
  have "dict_get (em_store m) j = Some e"
    using oldest_Some [OF o] assms(1) by (simp add: mem_inv_def dict_get_iff)
  moreover have "dict_get (em_store (store_value now k v tags m)) i = (if i = j then None else dict_get (em_store m) i)"
    if "i \<noteq> k" for i
    using that assms o by (simp add: store_value_def Let_def mem_inv_def memory_count_def evict_one_def)
  ultimately show ?thesis using oldest_Some [OF o] by blast
qed

definition full_memory :: EphemeralMemory where
  "full_memory = fold mem_step [MStore 1 ''a'' (PInt 1) [''t''], MStore 2 ''b'' (PInt 2) [], MGet 3 ''a'' PNone] (new_ephemeral 2)"

theorem store_evicts_oldest_witness:
  "\<exists>j. dict_get (em_store full_memory) j \<noteq> None \<and>
       dict_get (em_store (store_value 4 ''c'' PNone [] full_memory)) j = None"
proof -
  have "mem_inv 2 full_memory"
    unfolding full_memory_def by (rule mem.inv_run) (simp add: mem_inv_def new_ephemeral_def tags_ok_def)
  moreover have "memory_count full_memory = 2" "\<not> dict_has (em_store full_memory) ''c''" by code_simp+
  ultimately obtain j e where "dict_get (em_store full_memory) j = Some e"
    "\<forall>i. i \<noteq> ''c'' \<longrightarrow> dict_get (em_store (store_value 4 ''c'' PNone [] full_memory)) i =
       (if i = j then None else dict_get (em_store full_memory) i)"
    using store_evicts_oldest [of 2 full_memory "''c''" 4 PNone "[]"] by auto
  moreover from this(1) \<open>\<not> dict_has (em_store full_memory) ''c''\<close> have "j \<noteq> ''c''" by (auto simp: dict_has_def)
  ultimately show ?thesis by auto
qed

lemma store_then_get: "snd (get_memory now' k d (store_value now k v tags m)) = v"
  by (simp add: get_memory_def store_value_def Let_def)

text \<open>Storing a key again keeps it under the tags of its old value.\<close>

lemma stale_tags:
  "get_by_tag ''old'' (store_value 2 ''k'' (PInt 2) [''new''] (store_value 1 ''k'' (PInt 1) [''old''] (new_ephemeral 5)))
     = [(''k'', PInt 2)]"
  by code_simp

end
