(* ===== verification/Local_Memory.thy ===== *)
theory Local_Memory
  imports Systems PyString PyValue Agent_Memory
begin

text \<open>
  The second tier of an agent's memory (\<open>LocalMemory\<close> in \<open>engine/agent_runtime/memory.py\<close>): a
  table in a database that survives the process. The table is the list of its rows in the order
  of their ids; each SQL statement of the code is a function on it. \<open>json.dumps\<close> (\<open>None\<close>: it
  raises), \<open>json.loads\<close> (\<open>None\<close>: no JSON text) and \<open>str.lower\<close> are the arguments \<open>dumps\<close>,
  \<open>loads\<close> and \<open>low\<close>. The database does not fail, so the handlers of its errors are left out.
\<close>

subsection \<open>The table\<close>

record row =
  row_id :: nat
  row_node :: string
  row_ns :: string
  row_key :: string
  row_value :: string
  row_tags :: string
  row_created :: datetime
  row_updated :: datetime
  row_count :: nat

record LocalMemory =
  lm_node :: string
  lm_max :: int
  lm_interval :: int
  lm_rows :: "row list"
  lm_next :: nat
  lm_writes :: int

definition new_local :: "string \<Rightarrow> int \<Rightarrow> int \<Rightarrow> LocalMemory" where
  "new_local n mx iv = \<lparr>lm_node = n, lm_max = mx, lm_interval = iv, lm_rows = [], lm_next = 1, lm_writes = 0\<rparr>"

text \<open>A new process that opens the same database: only the table is left.\<close>

definition reopen_local :: "string \<Rightarrow> int \<Rightarrow> int \<Rightarrow> LocalMemory \<Rightarrow> LocalMemory" where
  "reopen_local n mx iv m = m\<lparr>lm_node := n, lm_max := mx, lm_interval := iv, lm_writes := 0\<rparr>"

definition is_row :: "string \<Rightarrow> string \<Rightarrow> string \<Rightarrow> row \<Rightarrow> bool" where
  "is_row n ns k r \<longleftrightarrow> row_node r = n \<and> row_ns r = ns \<and> row_key r = k"

definition in_ns :: "string \<Rightarrow> string \<Rightarrow> row \<Rightarrow> bool" where
  "in_ns n ns r \<longleftrightarrow> row_node r = n \<and> row_ns r = ns"

text \<open>\<open>INSERT ... ON CONFLICT ... DO UPDATE\<close>\<close>

definition upsert :: "datetime \<Rightarrow> string \<Rightarrow> string \<Rightarrow> string \<Rightarrow> string \<Rightarrow> LocalMemory \<Rightarrow> LocalMemory" where
  "upsert now ns k v tags m =
     (if list_ex (is_row (lm_node m) ns k) (lm_rows m)
      then m\<lparr>lm_rows := map (\<lambda>r. if is_row (lm_node m) ns k r
               then r\<lparr>row_value := v, row_tags := tags, row_updated := now, row_count := row_count r + 1\<rparr>
               else r) (lm_rows m)\<rparr>
      else m\<lparr>lm_rows := lm_rows m @ [\<lparr>row_id = lm_next m, row_node = lm_node m, row_ns = ns, row_key = k,
               row_value = v, row_tags = tags, row_created = now, row_updated = now, row_count = 0\<rparr>],
             lm_next := lm_next m + 1\<rparr>)"

text \<open>
  \<open>_maintenance\<close>: per namespace, delete the surplus of rows in the order of their counts and
  then of their last update (rows that agree in both: in the order of their ids).
\<close>

definition ns_rows :: "string \<Rightarrow> string \<Rightarrow> row list \<Rightarrow> row list" where
  "ns_rows n ns rows = filter (in_ns n ns) rows"

definition least_used :: "row list \<Rightarrow> row list" where
  "least_used rows = sort_key row_count (sort_key row_updated rows)"

definition trim_namespace :: "string \<Rightarrow> int \<Rightarrow> string \<Rightarrow> row list \<Rightarrow> row list" where
  "trim_namespace n mx ns rows =
     (let mine = ns_rows n ns rows;
          cnt = int (length mine)
      in if cnt > mx then
           (let ids = map row_id (take (nat (cnt - mx)) (least_used mine))
            in filter (\<lambda>r. row_id r \<notin> set ids) rows)
         else rows)"

definition namespaces :: "string \<Rightarrow> row list \<Rightarrow> string list" where
  "namespaces n rows = remdups (map row_ns (filter (\<lambda>r. row_node r = n) rows))"

definition maintenance :: "LocalMemory \<Rightarrow> LocalMemory" where
  "maintenance m = m\<lparr>lm_rows := fold (trim_namespace (lm_node m) (lm_max m)) (namespaces (lm_node m) (lm_rows m)) (lm_rows m)\<rparr>"

subsection \<open>Saving and loading\<close>

text \<open>
  \<open>save\<close>: \<open>Inl\<close> when \<open>json.dumps\<close> raises, which happens before the \<open>try\<close>. An interval of 0
  makes the remainder raise after the row has been committed, and the result is False.
\<close>

definition to_text :: "(PyVal \<Rightarrow> string option) \<Rightarrow> PyVal \<Rightarrow> string option" where
  "to_text dumps v = (case v of PStr s \<Rightarrow> Some s | _ \<Rightarrow> dumps v)"

definition save_local ::
    "(PyVal \<Rightarrow> string option) \<Rightarrow> datetime \<Rightarrow> string \<Rightarrow> PyVal \<Rightarrow> string \<Rightarrow> string list \<Rightarrow> LocalMemory \<Rightarrow>
     LocalMemory \<times> (string + bool)" where
  "save_local dumps now k v ns tags m =
     (case to_text dumps v of
        None \<Rightarrow> (m, Inl ''TypeError'')
      | Some s \<Rightarrow>
          (let m = upsert now ns k s (join '','' tags) m;
               m = m\<lparr>lm_writes := lm_writes m + 1\<rparr>
           in if lm_interval m = 0 then (m, Inr False)
              else if lm_writes m mod lm_interval m = 0 then (maintenance m, Inr True)
              else (m, Inr True)))"

definition of_text :: "(string \<Rightarrow> PyVal option) \<Rightarrow> string \<Rightarrow> PyVal" where
  "of_text loads s = (case loads s of None \<Rightarrow> PStr s | Some v \<Rightarrow> v)"

definition load_local :: "(string \<Rightarrow> PyVal option) \<Rightarrow> string \<Rightarrow> string \<Rightarrow> LocalMemory \<Rightarrow> LocalMemory \<times> PyVal" where
  "load_local loads k ns m =
     (case find (is_row (lm_node m) ns k) (lm_rows m) of
        None \<Rightarrow> (m, PNone)
      | Some r \<Rightarrow> (m\<lparr>lm_rows := map (\<lambda>r. if is_row (lm_node m) ns k r then r\<lparr>row_count := row_count r + 1\<rparr> else r)
                        (lm_rows m)\<rparr>, of_text loads (row_value r)))"

definition delete_local :: "string \<Rightarrow> string \<Rightarrow> LocalMemory \<Rightarrow> LocalMemory \<times> bool" where
  "delete_local k ns m =
     (m\<lparr>lm_rows := filter (\<lambda>r. \<not> is_row (lm_node m) ns k r) (lm_rows m)\<rparr>,
      list_ex (is_row (lm_node m) ns k) (lm_rows m))"

definition count_local :: "string \<Rightarrow> LocalMemory \<Rightarrow> nat" where
  "count_local ns m = length (ns_rows (lm_node m) ns (lm_rows m))"

definition clear_namespace_local :: "string \<Rightarrow> LocalMemory \<Rightarrow> LocalMemory \<times> nat" where
  "clear_namespace_local ns m = (m\<lparr>lm_rows := filter (\<lambda>r. \<not> in_ns (lm_node m) ns r) (lm_rows m)\<rparr>, count_local ns m)"

definition clear_all_local :: "LocalMemory \<Rightarrow> LocalMemory" where
  "clear_all_local m = m\<lparr>lm_rows := filter (\<lambda>r. row_node r \<noteq> lm_node m) (lm_rows m)\<rparr>"

definition namespace_counts :: "LocalMemory \<Rightarrow> (string, nat) dict" where
  "namespace_counts m = map (\<lambda>ns. (ns, count_local ns m)) (namespaces (lm_node m) (lm_rows m))"

subsection \<open>Queries\<close>

text \<open>SQL's \<open>LIKE\<close>: a percent sign matches any text, an underscore one character (all its bytes), and case is
  ignored for ASCII letters.\<close>

function like :: "string \<Rightarrow> string \<Rightarrow> bool" where
  "like [] s \<longleftrightarrow> s = []"
| "like (p # ps) [] \<longleftrightarrow> p = CHR 0x25 \<and> like ps []"
| "like (p # ps) (c # s) \<longleftrightarrow>
     (if p = CHR 0x25 then like ps (c # s) \<or> like (p # ps) s
      else if p = CHR 0x5F then like ps (dropWhile is_continuation s)
      else lower_char p = lower_char c \<and> like ps s)"
  by pat_completeness auto

termination
  by (relation "measure (\<lambda>(p, s). length p + length s)") (auto simp: less_Suc_eq_le intro: le_SucI length_dropWhile_le)

definition key_pattern :: "string \<Rightarrow> string" where
  "key_pattern p =
     (let q = map (\<lambda>c. if c = CHR 0x2A then CHR 0x25 else if c = CHR 0x3F then CHR 0x5F else c) p
      in if CHR 0x25 \<in> set q then q else CHR 0x25 # q @ [CHR 0x25])"

record MemoryEntry =
  mem_key :: string
  mem_value :: PyVal
  mem_namespace :: string
  mem_tags :: "string list"
  mem_created :: "datetime option"
  mem_updated :: "datetime option"
  mem_access :: nat

fun split_char :: "char \<Rightarrow> string \<Rightarrow> string list" where
  "split_char c [] = [[]]"
| "split_char c (x # s) =
     (if x = c then [] # split_char c s
      else case split_char c s of [] \<Rightarrow> [[x]] | w # ws \<Rightarrow> (x # w) # ws)"

definition row_entry :: "(string \<Rightarrow> PyVal option) \<Rightarrow> row \<Rightarrow> MemoryEntry" where
  "row_entry loads r = \<lparr>mem_key = row_key r, mem_value = of_text loads (row_value r), mem_namespace = row_ns r,
     mem_tags = filter (\<lambda>t. t \<noteq> []) (map strip (split_char (CHR '','') (row_tags r))),
     mem_created = Some (row_created r), mem_updated = Some (row_updated r), mem_access = row_count r\<rparr>"

text \<open>\<open>ORDER BY updated_at DESC LIMIT n\<close>; a negative limit is none.\<close>

definition query_local :: "(string \<Rightarrow> PyVal option) \<Rightarrow> string \<Rightarrow> string \<Rightarrow> int \<Rightarrow> LocalMemory \<Rightarrow> MemoryEntry list" where
  "query_local loads p ns n m =
     (let hits = sort_key (\<lambda>r. - row_updated r)
            (filter (\<lambda>r. in_ns (lm_node m) ns r \<and> like (key_pattern p) (row_key r)) (lm_rows m))
      in map (row_entry loads) (if n < 0 then hits else take (nat n) hits))"

subsection \<open>Recall of runs\<close>

text \<open>
  \<open>save_run_memory\<close>: the data, and an index entry for every long word among the first five
  of the goal. The clock is read by every \<open>save\<close>: \<open>clock n\<close> is the \<open>n\<close>-th reading.
\<close>

definition index_words :: "(string \<Rightarrow> string) \<Rightarrow> string \<Rightarrow> string list" where
  "index_words low goal = filter (\<lambda>w. utf8_length w > 3) (take 5 (py_words (low goal)))"

definition save_index ::
    "(PyVal \<Rightarrow> string option) \<Rightarrow> (nat \<Rightarrow> datetime) \<Rightarrow> string \<Rightarrow> string list \<Rightarrow> LocalMemory \<Rightarrow> LocalMemory" where
  "save_index dumps clock run ws m =
     fold (\<lambda>(i, w) m. fst (save_local dumps (clock i) (''index:'' @ w @ '':'' @ utf8_take 8 run) (PStr run) ''index'' [] m))
       (zip [1..<Suc (length ws)] ws) m"

definition save_run_memory ::
    "(PyVal \<Rightarrow> string option) \<Rightarrow> (string \<Rightarrow> string) \<Rightarrow> (nat \<Rightarrow> datetime) \<Rightarrow> string \<Rightarrow> (PyVal \<times> PyVal) list \<Rightarrow>
     LocalMemory \<Rightarrow> LocalMemory \<times> (string + unit)" where
  "save_run_memory dumps low clock run data m =
     (case save_local dumps (clock 0) (''run:'' @ run) (PDict data) ''runs'' [] m of
        (m, Inl e) \<Rightarrow> (m, Inl e)
      | (m, Inr b) \<Rightarrow>
          (case dict_get data (PStr ''goal'') of
             Some (PStr goal) \<Rightarrow> (if goal = [] then m else save_index dumps clock run (index_words low goal) m, Inr ())
           | Some v \<Rightarrow> (m, if truthy v then Inl ''AttributeError'' else Inr ())
           | None \<Rightarrow> (m, Inr ())))"

text \<open>\<open>recall\<close>; \<open>str_of\<close> is \<open>str\<close>, and unhashable run ids raise \<open>TypeError\<close>.\<close>

definition recall_words :: "(string \<Rightarrow> string) \<Rightarrow> string \<Rightarrow> string list" where
  "recall_words low goal = take 5 (map low (filter (\<lambda>w. utf8_length w > 3) (py_words goal)))"

fun hashable :: "PyVal \<Rightarrow> bool" where
  "hashable (PList vs) \<longleftrightarrow> False"
| "hashable (PDict kvs) \<longleftrightarrow> False"
| "hashable v \<longleftrightarrow> True"

fun recall_entries ::
    "(string \<Rightarrow> PyVal option) \<Rightarrow> (PyVal \<Rightarrow> string) \<Rightarrow> PyVal list \<Rightarrow> LocalMemory \<times> PyVal list \<times> (string \<times> PyVal) list \<Rightarrow>
     string + LocalMemory \<times> PyVal list \<times> (string \<times> PyVal) list" where
  "recall_entries loads str_of [] st = Inr st"
| "recall_entries loads str_of (v # vs) (m, seen, found) =
     (if \<not> hashable v then Inl ''TypeError''
      else if v \<in> set seen then recall_entries loads str_of vs (m, seen, found)
      else case load_local loads (''run:'' @ str_of v) ''runs'' m of
        (m, d) \<Rightarrow> recall_entries loads str_of vs
           (m, v # seen, if truthy d then found @ [(''run:'' @ str_of v, d)] else found))"

fun recall_loop ::
    "(string \<Rightarrow> PyVal option) \<Rightarrow> (PyVal \<Rightarrow> string) \<Rightarrow> int \<Rightarrow> string list \<Rightarrow> LocalMemory \<times> PyVal list \<times> (string \<times> PyVal) list \<Rightarrow>
     string + LocalMemory \<times> PyVal list \<times> (string \<times> PyVal) list" where
  "recall_loop loads str_of n [] st = Inr st"
| "recall_loop loads str_of n (w # ws) st =
     try_bind (recall_entries loads str_of
         (map mem_value (query_local loads (''index:'' @ w @ '':'') ''index'' n (fst st))) st)
       (recall_loop loads str_of n ws)"

definition recall ::
    "(string \<Rightarrow> PyVal option) \<Rightarrow> (PyVal \<Rightarrow> string) \<Rightarrow> (string \<Rightarrow> string) \<Rightarrow> string \<Rightarrow> int \<Rightarrow> LocalMemory \<Rightarrow>
     string + LocalMemory \<times> (string \<times> PyVal) list" where
  "recall loads str_of low goal n m =
     try_bind (recall_loop loads str_of n (recall_words low goal) (m, [], []))
       (\<lambda>(m, seen, found). Inr (m, py_take n found))"

subsection \<open>The table stays a function of its key\<close>

definition row_id_of :: "row \<Rightarrow> string \<times> string \<times> string" where
  "row_id_of r = (row_node r, row_ns r, row_key r)"

lemma is_row_iff: "is_row n ns k r \<longleftrightarrow> row_id_of r = (n, ns, k)"
  by (simp add: is_row_def row_id_of_def)

lemma row_id_of_make [simp]:
  "row_id_of \<lparr>row_id = i, row_node = a, row_ns = b, row_key = c, row_value = d, row_tags = e,
     row_created = f, row_updated = g, row_count = h\<rparr> = (a, b, c)"
  by (simp add: row_id_of_def)

definition table_ok :: "LocalMemory \<Rightarrow> bool" where
  "table_ok m \<longleftrightarrow> distinct (map row_id_of (lm_rows m)) \<and> distinct (map row_id (lm_rows m)) \<and>
     list_all (\<lambda>r. row_id r < lm_next m) (lm_rows m)"

datatype local_op =
    LSave "PyVal \<Rightarrow> string option" datetime string PyVal string "string list"
  | LLoad "string \<Rightarrow> PyVal option" string string
  | LDelete string string
  | LClear string
  | LClearAll

fun local_step :: "local_op \<Rightarrow> LocalMemory \<Rightarrow> LocalMemory" where
  "local_step (LSave dumps now k v ns tags) m = fst (save_local dumps now k v ns tags m)"
| "local_step (LLoad loads k ns) m = fst (load_local loads k ns m)"
| "local_step (LDelete k ns) m = fst (delete_local k ns m)"
| "local_step (LClear ns) m = fst (clear_namespace_local ns m)"
| "local_step LClearAll m = clear_all_local m"

lemma table_ok_filter:
  "table_ok m \<Longrightarrow> lm_rows m' = filter P (lm_rows m) \<Longrightarrow> lm_next m' = lm_next m \<Longrightarrow> table_ok m'"
  by (auto simp: table_ok_def distinct_map_filter list_all_iff)

lemma table_ok_map:
  assumes "table_ok m" and "lm_rows m' = map f (lm_rows m)" and "lm_next m' = lm_next m"
    and "\<And>r. row_id_of (f r) = row_id_of r \<and> row_id (f r) = row_id r"
  shows "table_ok m'"
  using assms by (simp add: table_ok_def comp_def list_all_iff)

lemma table_ok_upsert: "table_ok m \<Longrightarrow> table_ok (upsert now ns k v tags m)"
proof (cases "list_ex (is_row (lm_node m) ns k) (lm_rows m)")
  case True
  assume m: "table_ok m"
  show ?thesis
    by (rule table_ok_map [OF m, of _ "\<lambda>r. if is_row (lm_node m) ns k r
        then r\<lparr>row_value := v, row_tags := tags, row_updated := now, row_count := row_count r + 1\<rparr> else r"])
       (use True in \<open>simp_all add: upsert_def row_id_of_def\<close>)
next
  case False
  assume m: "table_ok m"
  from False have "(lm_node m, ns, k) \<notin> row_id_of ` set (lm_rows m)" by (auto simp: list_ex_iff is_row_iff)
  moreover have "row_id_of \<lparr>row_id = i, row_node = lm_node m, row_ns = ns, row_key = k, row_value = v, row_tags = tags,
      row_created = now, row_updated = now, row_count = 0\<rparr> = (lm_node m, ns, k)" for i
    by (simp add: row_id_of_def)
  ultimately show ?thesis
    using m False by (auto simp: table_ok_def upsert_def list_all_iff)
qed

lemma trim_filter: "\<exists>P. trim_namespace n mx ns rows = filter P rows"
  by (auto simp: trim_namespace_def Let_def intro: exI [of _ "\<lambda>r. True"])

lemma maintenance_filter: "\<exists>P. lm_rows (maintenance m) = filter P (lm_rows m)"
proof -
  have "\<exists>P. fold (trim_namespace n mx) nss rows = filter P rows" for n mx nss rows
  proof (induction nss arbitrary: rows)
    case (Cons ns nss)
    obtain P where "trim_namespace n mx ns rows = filter P rows" using trim_filter by blast
    moreover obtain Q where "fold (trim_namespace n mx) nss (filter P rows) = filter Q (filter P rows)"
      using Cons.IH by blast
    ultimately show ?case by auto
  qed (auto intro: exI [of _ "\<lambda>r. True"])
  then show ?thesis by (simp add: maintenance_def)
qed

lemma maintenance_simps [simp]:
  "lm_next (maintenance m) = lm_next m" "lm_node (maintenance m) = lm_node m" "lm_max (maintenance m) = lm_max m"
  "lm_interval (maintenance m) = lm_interval m" "lm_writes (maintenance m) = lm_writes m"
  by (simp_all add: maintenance_def)

lemma upsert_simps [simp]:
  "lm_node (upsert now ns k v tags m) = lm_node m" "lm_max (upsert now ns k v tags m) = lm_max m"
  "lm_interval (upsert now ns k v tags m) = lm_interval m" "lm_writes (upsert now ns k v tags m) = lm_writes m"
  by (simp_all add: upsert_def)

lemma table_ok_writes [simp]: "table_ok (m\<lparr>lm_writes := w\<rparr>) = table_ok m"
  by (simp add: table_ok_def)

lemma table_ok_maintenance: "table_ok m \<Longrightarrow> table_ok (maintenance m)"
  using maintenance_filter [of m] by (auto intro: table_ok_filter)

lemma table_ok_save: "table_ok m \<Longrightarrow> table_ok (fst (save_local dumps now k v ns tags m))"
  by (simp add: save_local_def Let_def table_ok_upsert table_ok_maintenance split: option.split)

lemma load_rows:
  "\<exists>f. lm_rows (fst (load_local loads k ns m)) = map f (lm_rows m) \<and>
     (\<forall>r. row_id_of (f r) = row_id_of r \<and> row_id (f r) = row_id r)"
proof (cases "find (is_row (lm_node m) ns k) (lm_rows m)")
  case None
  then show ?thesis by (intro exI [of _ id]) (simp add: load_local_def)
next
  case (Some q)
  then show ?thesis
    by (intro exI [of _ "\<lambda>r. if is_row (lm_node m) ns k r then r\<lparr>row_count := row_count r + 1\<rparr> else r"])
       (simp add: load_local_def row_id_of_def)
qed

lemma load_simps [simp]:
  "lm_next (fst (load_local loads k ns m)) = lm_next m" "lm_node (fst (load_local loads k ns m)) = lm_node m"
  "lm_max (fst (load_local loads k ns m)) = lm_max m" "lm_interval (fst (load_local loads k ns m)) = lm_interval m"
  "lm_writes (fst (load_local loads k ns m)) = lm_writes m"
  by (simp_all add: load_local_def split: option.split)

lemma table_ok_step: "table_ok m \<Longrightarrow> table_ok (local_step op m)"
proof (induction op)
  case (LLoad loads k ns)
  obtain f where "lm_rows (fst (load_local loads k ns m)) = map f (lm_rows m)"
    "\<forall>r. row_id_of (f r) = row_id_of r \<and> row_id (f r) = row_id r"
    using load_rows by blast
  with LLoad show ?case by (auto intro: table_ok_map)
qed (auto simp: table_ok_save delete_local_def clear_namespace_local_def clear_all_local_def intro: table_ok_filter)

interpretation local_table: invariant_system local_step table_ok
  by unfold_locales (rule table_ok_step)

subsection \<open>The bound on a namespace\<close>

lemma distinct_map_inj: "distinct (map f xs) \<Longrightarrow> x \<in> set xs \<Longrightarrow> y \<in> set xs \<Longrightarrow> f x = f y \<Longrightarrow> x = y"
  by (auto simp: distinct_map dest: inj_onD)

lemma ns_rows_trim:
  assumes "distinct (map row_id rows)"
  shows "int (length (ns_rows n ns (trim_namespace n mx ns' rows))) \<le>
     (if ns = ns' then max 0 mx else int (length (ns_rows n ns rows)))"
proof (cases "ns = ns'")
  case False
  obtain P where "trim_namespace n mx ns' rows = filter P rows" using trim_filter by blast
  then have "ns_rows n ns (trim_namespace n mx ns' rows) = filter P (ns_rows n ns rows)"
    by (simp add: ns_rows_def conj_commute)
  then show ?thesis using False by simp
next
  case True
  let ?mine = "ns_rows n ns rows"
  let ?c = "int (length ?mine)"
  show ?thesis
  proof (cases "?c > mx")
    case big: True
    let ?drop = "take (nat (?c - mx)) (least_used ?mine)"
    have sub: "set ?drop \<subseteq> set rows"
      by (auto simp: least_used_def ns_rows_def dest: in_set_takeD)
    have d: "distinct (least_used ?mine)"
      using assms by (simp add: least_used_def ns_rows_def distinct_map)
    have mine: "set (least_used ?mine) = set ?mine" by (simp add: least_used_def)
    have "row_id r \<in> row_id ` set ?drop \<longleftrightarrow> r \<in> set ?drop" if "r \<in> set rows" for r
      using distinct_map_inj [OF assms that] sub by auto
    then have "filter (in_ns n ns) (trim_namespace n mx ns rows) = filter (\<lambda>r. r \<notin> set ?drop) ?mine"
      using big by (auto simp: trim_namespace_def Let_def ns_rows_def intro!: filter_cong)
    moreover have "length (filter (\<lambda>r. r \<notin> set ?drop) ?mine) = card (set ?mine - set ?drop)"
    proof -
      have "distinct (filter (\<lambda>r. r \<notin> set ?drop) ?mine)" using assms by (simp add: ns_rows_def distinct_map)
      moreover have "set (filter (\<lambda>r. r \<notin> set ?drop) ?mine) = set ?mine - set ?drop" by auto
      ultimately show ?thesis by (metis distinct_card)
    qed
    moreover have "card (set ?mine - set ?drop) = length ?mine - length ?drop"
    proof -
      have "set ?drop \<subseteq> set ?mine" using mine by (auto dest: in_set_takeD)
      moreover have "distinct ?mine" using assms by (simp add: ns_rows_def distinct_map)
      then have "card (set ?mine) = length ?mine" by (rule distinct_card)
      moreover have "card (set ?drop) = length ?drop" using d by (simp add: distinct_card)
      ultimately show ?thesis by (simp add: card_Diff_subset)
    qed
    moreover have "length (least_used ?mine) = length ?mine" by (simp add: least_used_def)
    ultimately have "length (ns_rows n ns (trim_namespace n mx ns rows)) = length ?mine - min (length ?mine) (nat (?c - mx))"
      by (simp add: ns_rows_def)
    with big True show ?thesis by auto
  qed (simp add: trim_namespace_def True)
qed

lemma ns_rows_maintain:
  assumes "distinct (map row_id rows)"
  shows "int (length (ns_rows n ns (fold (trim_namespace n mx) nss rows))) \<le>
     (if ns \<in> set nss then max 0 mx else int (length (ns_rows n ns rows)))"
  using assms
proof (induction nss arbitrary: rows)
  case (Cons ns' nss)
  let ?rows = "trim_namespace n mx ns' rows"
  obtain P where "?rows = filter P rows" using trim_filter by blast
  with Cons.prems have "distinct (map row_id ?rows)" by (simp add: distinct_map_filter)
  with Cons.IH [of ?rows] ns_rows_trim [OF Cons.prems, of n ns mx ns'] show ?case
    by (auto split: if_splits)
qed simp

lemma ns_rows_outside: "ns \<notin> set (namespaces n rows) \<Longrightarrow> ns_rows n ns rows = []"
  by (auto simp: namespaces_def ns_rows_def in_ns_def filter_empty_conv)

lemma count_maintenance:
  assumes "table_ok m" shows "int (count_local ns (maintenance m)) \<le> max 0 (lm_max m)"
proof (cases "ns \<in> set (namespaces (lm_node m) (lm_rows m))")
  case True
  with assms ns_rows_maintain [of "lm_rows m" "lm_node m" ns "lm_max m" "namespaces (lm_node m) (lm_rows m)"]
  show ?thesis by (simp add: table_ok_def count_local_def maintenance_def)
next
  case False
  with assms ns_rows_maintain [of "lm_rows m" "lm_node m" ns "lm_max m" "namespaces (lm_node m) (lm_rows m)"]
  show ?thesis by (simp add: table_ok_def count_local_def maintenance_def ns_rows_outside)
qed

lemma count_upsert: "count_local ns (upsert now ns' k v tags m) \<le> count_local ns m + 1"
proof (cases "list_ex (is_row (lm_node m) ns' k) (lm_rows m)")
  case True
  have "length (filter (in_ns n ns) (map f rows)) = length (filter (in_ns n ns) rows)"
    if "\<And>r. in_ns n ns (f r) = in_ns n ns r" for n f rows
    by (simp add: filter_map comp_def that)
  with True show ?thesis by (simp add: count_local_def upsert_def ns_rows_def in_ns_def)
next
  case False
  then show ?thesis by (simp add: count_local_def upsert_def ns_rows_def)
qed

definition local_bounded :: "string \<Rightarrow> int \<Rightarrow> int \<Rightarrow> LocalMemory \<Rightarrow> bool" where
  "local_bounded n mx iv m \<longleftrightarrow> table_ok m \<and> lm_node m = n \<and> lm_max m = mx \<and> lm_interval m = iv \<and>
     (\<forall>ns. int (count_local ns m) \<le> max 0 mx + lm_writes m mod iv)"

lemma count_filter:
  "lm_rows m' = filter P (lm_rows m) \<Longrightarrow> lm_node m' = lm_node m \<Longrightarrow> count_local ns m' \<le> count_local ns m"
proof -
  assume a: "lm_rows m' = filter P (lm_rows m)" "lm_node m' = lm_node m"
  have "length (filter Q (filter P rows)) \<le> length (filter Q rows)" for Q rows
    by (induction rows) auto
  with a show ?thesis by (simp add: count_local_def ns_rows_def)
qed

lemma local_bounded_filter:
  assumes "local_bounded n mx iv m" and "lm_rows m' = filter P (lm_rows m)"
    and "lm_next m' = lm_next m \<and> lm_node m' = lm_node m \<and> lm_max m' = lm_max m \<and>
      lm_interval m' = lm_interval m \<and> lm_writes m' = lm_writes m"
  shows "local_bounded n mx iv m'"
proof -
  have "int (count_local ns m') \<le> max 0 mx + lm_writes m mod iv" for ns
  proof -
    have "int (count_local ns m') \<le> int (count_local ns m)"
      using count_filter [OF assms(2)] assms(3) by simp
    also have "\<dots> \<le> max 0 mx + lm_writes m mod iv" using assms(1) by (simp add: local_bounded_def)
    finally show ?thesis .
  qed
  moreover have "table_ok m'"
    using assms(1) by (intro table_ok_filter [OF _ assms(2)]) (simp_all add: local_bounded_def assms(3))
  ultimately show ?thesis using assms(1,3) by (simp add: local_bounded_def)
qed

lemma local_bounded_save:
  assumes "local_bounded n mx iv m" and "iv > 0"
  shows "local_bounded n mx iv (fst (save_local dumps now k v ns tags m))"
proof (cases "to_text dumps v")
  case None
  with assms show ?thesis by (simp add: save_local_def)
next
  case (Some s)
  let ?m = "(upsert now ns k s (join '','' tags) m)\<lparr>lm_writes := lm_writes m + 1\<rparr>"
  have m: "table_ok ?m" "lm_node ?m = n" "lm_max ?m = mx" "lm_interval ?m = iv"
    using assms by (simp_all add: local_bounded_def table_ok_upsert)
  have count: "count_local ns' ?m = count_local ns' (upsert now ns k s (join '','' tags) m)" for ns'
    by (simp add: count_local_def)
  have eq: "fst (save_local dumps now k v ns tags m) = (if lm_writes ?m mod iv = 0 then maintenance ?m else ?m)"
    using Some m(4) assms by (simp add: save_local_def Let_def local_bounded_def)
  show ?thesis
  proof (cases "lm_writes ?m mod iv = 0")
    case True
    with m count_maintenance [OF m(1)] show ?thesis
      unfolding eq by (simp add: local_bounded_def table_ok_maintenance)
  next
    case False
    have "(lm_writes m + 1) mod iv = lm_writes m mod iv + 1"
    proof -
      have "lm_writes m mod iv + 1 < iv"
      proof (rule ccontr)
        assume "\<not> lm_writes m mod iv + 1 < iv"
        with assms(2) have "lm_writes m mod iv + 1 = iv" using pos_mod_bound [of iv "lm_writes m"] by linarith
        then have "(lm_writes m + 1) mod iv = 0" by (metis mod_add_left_eq mod_self)
        with False show False by simp
      qed
      moreover have "0 \<le> lm_writes m mod iv + 1" using assms(2) by (simp add: add_nonneg_nonneg)
      ultimately have "(lm_writes m mod iv + 1) mod iv = lm_writes m mod iv + 1"
        by (intro mod_pos_pos_trivial) simp_all
      then show ?thesis by (simp add: mod_add_left_eq)
    qed
    moreover have "int (count_local ns' ?m) \<le> max 0 mx + (lm_writes m mod iv + 1)" for ns'
    proof -
      have "int (count_local ns' ?m) \<le> int (count_local ns' m) + 1"
        using count_upsert [of ns' now ns k s "join '','' tags" m] unfolding count by linarith
      moreover have "int (count_local ns' m) \<le> max 0 mx + lm_writes m mod iv"
        using assms(1) by (simp add: local_bounded_def)
      ultimately show ?thesis by linarith
    qed
    ultimately show ?thesis using False m unfolding eq by (simp add: local_bounded_def)
  qed
qed

lemma local_bounded_step:
  assumes "local_bounded n mx iv m" and "iv > 0" shows "local_bounded n mx iv (local_step op m)"
proof (cases op)
  case (LSave dumps now k v ns tags)
  with local_bounded_save [OF assms] show ?thesis by simp
next
  case (LLoad loads k ns)
  obtain f where f: "lm_rows (fst (load_local loads k ns m)) = map f (lm_rows m)"
    "\<forall>r. row_id_of (f r) = row_id_of r \<and> row_id (f r) = row_id r"
    using load_rows by blast
  then have "in_ns n' ns' (f r) = in_ns n' ns' r" for n' ns' r by (simp add: in_ns_def row_id_of_def)
  then have "count_local ns' (fst (load_local loads k ns m)) = count_local ns' m" for ns'
    by (simp add: count_local_def ns_rows_def f filter_map comp_def)
  with LLoad assms table_ok_step [of m op] show ?thesis by (simp add: local_bounded_def)
qed (auto simp: delete_local_def clear_namespace_local_def clear_all_local_def intro: local_bounded_filter [OF assms(1)])

text \<open>The bound of one process. Whatever a process that creates the database saves, loads and
  deletes, no namespace of its node ever holds more rows than the configured maximum and the
  writes since the last maintenance, so fewer than the maximum and the interval together.\<close>

theorem namespace_bounded:
  assumes "iv > 0"
  shows "int (count_local ns (fold local_step ops (new_local n mx iv))) \<le>
     max 0 mx + lm_writes (fold local_step ops (new_local n mx iv)) mod iv"
proof -
  have "local_bounded n mx iv (fold local_step ops m)" if "local_bounded n mx iv m" for m
    using that by (induction ops arbitrary: m) (simp_all add: local_bounded_step assms)
  moreover have "local_bounded n mx iv (new_local n mx iv)"
    by (simp add: local_bounded_def new_local_def table_ok_def count_local_def ns_rows_def)
  ultimately show ?thesis by (simp add: local_bounded_def)
qed

theorem namespace_bounded_witness:
  "int (count_local ''d'' (fold local_step [LSave (\<lambda>v. None) 1 ''a'' (PStr ''x'') ''d'' [],
      LSave (\<lambda>v. None) 2 ''b'' (PStr ''x'') ''d'' [], LSave (\<lambda>v. None) 3 ''c'' (PStr ''x'') ''d'' []]
     (new_local ''n'' 1 2))) \<le> 2"
  using namespace_bounded [of 2 "''d''" "[LSave (\<lambda>v. None) 1 ''a'' (PStr ''x'') ''d'' [],
      LSave (\<lambda>v. None) 2 ''b'' (PStr ''x'') ''d'' [], LSave (\<lambda>v. None) 3 ''c'' (PStr ''x'') ''d'' []]" "''n''" 1]
  by (simp add: save_local_def to_text_def Let_def new_local_def)

text \<open>A database used by one process after the other, each of which writes once.\<close>

fun sessions :: "int \<Rightarrow> int \<Rightarrow> nat \<Rightarrow> LocalMemory" where
  "sessions mx iv 0 = new_local ''n'' mx iv"
| "sessions mx iv (Suc k) =
     fst (save_local (\<lambda>v. None) 0 (show_nat k) (PStr ''v'') ''d'' [] (reopen_local ''n'' mx iv (sessions mx iv k)))"

lemma sessions_rows:
  assumes "iv > 1"
  shows "map row_id_of (lm_rows (sessions mx iv k)) = map (\<lambda>i. (''n'', ''d'', show_nat i)) [0..<k]"
proof (induction k)
  case (Suc k)
  let ?m = "reopen_local ''n'' mx iv (sessions mx iv k)"
  have rows: "map row_id_of (lm_rows ?m) = map (\<lambda>i. (''n'', ''d'', show_nat i)) [0..<k]"
    using Suc by (simp add: reopen_local_def)
  have "(''n'', ''d'', show_nat k) \<notin> set (map row_id_of (lm_rows ?m))" unfolding rows by auto
  then have "\<not> list_ex (is_row ''n'' ''d'' (show_nat k)) (lm_rows ?m)"
    unfolding list_ex_iff is_row_iff set_map by (metis imageI)
  moreover have "lm_node ?m = ''n''" "lm_writes ?m = 0" "lm_interval ?m = iv" by (simp_all add: reopen_local_def)
  ultimately show ?case
    using rows assms by (simp add: save_local_def to_text_def Let_def upsert_def mod_pos_pos_trivial)
qed (simp add: new_local_def)

lemma sessions_node: "lm_node (sessions mx iv k) = ''n''"
  by (cases k) (simp_all add: new_local_def reopen_local_def save_local_def to_text_def Let_def)

text \<open>Across processes there is no bound. The counter of writes starts anew with every process, so
  when none writes as often as the interval no maintenance ever happens, and the namespace
  outgrows any maximum.\<close>

theorem restarts_unbounded:
  assumes "iv > 1" shows "count_local ''d'' (sessions mx iv k) = k"
proof -
  have "ns_rows ''n'' ''d'' rows = rows" if "set (map row_id_of rows) \<subseteq> {''n''} \<times> {''d''} \<times> UNIV" for rows
    using that by (auto simp: ns_rows_def in_ns_def row_id_of_def intro!: filter_True)
  moreover have "set (map row_id_of (lm_rows (sessions mx iv k))) \<subseteq> {''n''} \<times> {''d''} \<times> UNIV"
    unfolding sessions_rows [OF assms] by auto
  ultimately have "count_local ''d'' (sessions mx iv k) = length (map row_id_of (lm_rows (sessions mx iv k)))"
    by (simp add: count_local_def sessions_node)
  then show ?thesis unfolding sessions_rows [OF assms] by simp
qed

theorem restarts_unbounded_witness: "count_local ''d'' (sessions 1000 100 5000) = 5000"
  by (rule restarts_unbounded) simp

subsection \<open>What is saved is loaded\<close>

lemma find_upsert: "\<exists>r. find (is_row (lm_node m) ns k) (lm_rows (upsert now ns k s tags m)) = Some r \<and> row_value r = s"
proof -
  let ?P = "is_row (lm_node m) ns k"
  let ?f = "\<lambda>r. if ?P r then r\<lparr>row_value := s, row_tags := tags, row_updated := now, row_count := row_count r + 1\<rparr> else r"
  have P: "?P (?f r) = ?P r" for r by (simp add: is_row_def)
  have upd: "list_ex ?P rows \<Longrightarrow> \<exists>r. find ?P (map ?f rows) = Some r \<and> row_value r = s" for rows
    by (induction rows) (auto simp: is_row_def)
  have new: "\<not> list_ex ?P rows \<Longrightarrow> ?P r \<Longrightarrow> find ?P (rows @ [r]) = Some r" for rows r
    by (induction rows) auto
  show ?thesis
    by (cases "list_ex ?P (lm_rows m)") (use upd new in \<open>auto simp: upsert_def is_row_def\<close>)
qed

text \<open>A saved value is loaded again, unless the save triggered a maintenance. The JSON of a value
  that is not a string is decoded to the value, and a string comes back as itself only if it is
  no JSON text: otherwise it comes back as the value it denotes.\<close>

theorem save_then_load:
  assumes json: "\<And>t. dumps v = Some t \<Longrightarrow> loads t = Some v"
    and enc: "to_text dumps v = Some t"
    and quiet: "lm_interval m \<noteq> 0" "(lm_writes m + 1) mod lm_interval m \<noteq> 0"
  shows "snd (load_local loads k ns (fst (save_local dumps now k v ns tags m))) =
    (case v of PStr s \<Rightarrow> (case loads s of None \<Rightarrow> v | Some w \<Rightarrow> w) | _ \<Rightarrow> v)"
proof -
  let ?m = "(upsert now ns k t (join '','' tags) m)\<lparr>lm_writes := lm_writes m + 1\<rparr>"
  have "fst (save_local dumps now k v ns tags m) = ?m"
    using enc quiet by (simp add: save_local_def Let_def)
  moreover obtain r where "find (is_row (lm_node m) ns k) (lm_rows ?m) = Some r" "row_value r = t"
    using find_upsert [of m ns k now t "join '','' tags"] by auto
  ultimately have "snd (load_local loads k ns (fst (save_local dumps now k v ns tags m))) = of_text loads t"
    by (simp add: load_local_def)
  also have "\<dots> = (case v of PStr s \<Rightarrow> (case loads s of None \<Rightarrow> v | Some w \<Rightarrow> w) | _ \<Rightarrow> v)"
    using enc json by (cases v) (auto simp: to_text_def of_text_def split: option.split)
  finally show ?thesis .
qed

definition toy_dumps :: "PyVal \<Rightarrow> string option" where
  "toy_dumps v = (case v of PInt i \<Rightarrow> Some (show_int i) | PStr s \<Rightarrow> Some (CHR 0x22 # s @ [CHR 0x22]) | _ \<Rightarrow> None)"

definition toy_loads :: "string \<Rightarrow> PyVal option" where
  "toy_loads s = (case parse_int s of Some i \<Rightarrow> Some (PInt i)
     | None \<Rightarrow> if s \<noteq> [] \<and> hd s = CHR 0x22 then Some (PStr (butlast (tl s))) else None)"

text \<open>The string 7 is loaded as a number.\<close>

theorem save_then_load_witness:
  "snd (load_local toy_loads ''k'' ''d'' (fst (save_local toy_dumps 1 ''k'' (PStr ''7'') ''d'' [] (new_local ''n'' 10 5)))) = PInt 7"
proof -
  have "toy_loads (CHR 0x22 # ''7'' @ [CHR 0x22]) = Some (PStr ''7'')" "toy_loads ''7'' = Some (PInt 7)"
    by code_simp+
  moreover have "toy_dumps (PStr ''7'') = Some (CHR 0x22 # ''7'' @ [CHR 0x22])" "to_text toy_dumps (PStr ''7'') = Some ''7''"
    by (simp_all add: toy_dumps_def to_text_def)
  moreover have "lm_interval (new_local ''n'' 10 5) \<noteq> 0"
    "(lm_writes (new_local ''n'' 10 5) + 1) mod lm_interval (new_local ''n'' 10 5) \<noteq> 0"
    by (simp_all add: new_local_def)
  ultimately show ?thesis
    using save_then_load [of toy_dumps "PStr ''7''" toy_loads "''7''" "new_local ''n'' 10 5" "''k''" "''d''" 1 "[]"]
    by simp
qed

text \<open>A row that has just been saved has the least count, so the maintenance its save triggers deletes it.\<close>

lemma new_row_deleted:
  "snd (load_local toy_loads ''b'' ''d'' (fst (save_local toy_dumps 2 ''b'' (PStr ''new'') ''d'' []
     (fst (load_local toy_loads ''a'' ''d'' (fst (save_local toy_dumps 1 ''a'' (PStr ''old'') ''d'' [] (new_local ''n'' 1 2)))))))) = PNone"
  by code_simp

subsection \<open>Both tiers\<close>

text \<open>\<open>MemoryStore\<close>; \<open>ns\<close> and \<open>tags\<close> are the keyword arguments of \<open>store\<close>.\<close>

record MemoryStore =
  ms_ephemeral :: EphemeralMemory
  ms_local :: LocalMemory

definition store_both ::
    "(PyVal \<Rightarrow> string option) \<Rightarrow> datetime \<Rightarrow> string \<Rightarrow> PyVal \<Rightarrow> bool \<Rightarrow> string \<Rightarrow> string list \<Rightarrow> MemoryStore \<Rightarrow>
     MemoryStore \<times> (string + unit)" where
  "store_both dumps now k v persistent ns tags s =
     (let s = s\<lparr>ms_ephemeral := store_value now k v tags (ms_ephemeral s)\<rparr>
      in if persistent then
           (case save_local dumps now k v ns tags (ms_local s) of
              (m, Inl e) \<Rightarrow> (s\<lparr>ms_local := m\<rparr>, Inl e)
            | (m, Inr b) \<Rightarrow> (s\<lparr>ms_local := m\<rparr>, Inr ()))
         else (s, Inr ()))"

definition get_both ::
    "(string \<Rightarrow> PyVal option) \<Rightarrow> datetime \<Rightarrow> string \<Rightarrow> bool \<Rightarrow> MemoryStore \<Rightarrow> MemoryStore \<times> PyVal" where
  "get_both loads now k persistent s =
     (case get_memory now k PNone (ms_ephemeral s) of
        (e, v) \<Rightarrow>
          let s = s\<lparr>ms_ephemeral := e\<rparr>
          in if v \<noteq> PNone then (s, v)
             else if persistent then
               (case load_local loads k ''default'' (ms_local s) of (m, w) \<Rightarrow> (s\<lparr>ms_local := m\<rparr>, w))
             else (s, PNone))"

lemma get_after_store:
  "v \<noteq> PNone \<Longrightarrow> snd (get_both loads now' k p (fst (store_both dumps now k v q ns tags s))) = v"
  by (simp add: get_both_def store_both_def get_memory_def store_value_def Let_def split: prod.split sum.split)

end
