(* ===== verification/Worker.thy ===== *)
theory Worker
  imports Context Agent_Memory Tool_Executor
begin

text \<open>
  The loop of an agent's worker (\<open>engine/agent_runtime/worker.py\<close>): observe, think, act, until
  the language model completes the goal or the steps are used up. It composes the context
  window, the ephemeral memory and the tool executor. What comes from outside is the
  environment: the language model (step and messages to a response or an exception), the tools'
  functions, \<open>json\<close>, \<open>str\<close>, and the two regular expressions that find an action in a response.
  Durations are not modelled, and an exception stands for its message by its class.
\<close>

subsection \<open>The worker and its environment\<close>

record worker_env =
  ev_llm :: "(int \<Rightarrow> message list \<Rightarrow> string + PyVal) option"
  ev_call :: "int \<Rightarrow> tool_call"
  ev_dump_obj :: "nat \<Rightarrow> pydict"
  ev_show_seconds :: "seconds \<Rightarrow> string"
  ev_trace :: string
  ev_dumps :: "PyVal \<Rightarrow> string"
  ev_dumps_indent :: "PyVal \<Rightarrow> string + string"
  ev_loads :: "string \<Rightarrow> PyVal option"
  ev_str :: "PyVal \<Rightarrow> string"
  ev_lower :: "string \<Rightarrow> string"
  ev_fenced :: "string \<Rightarrow> string option"
  ev_standalone :: "string \<Rightarrow> string option"

record AgentWorker =
  wk_goal :: string
  wk_context :: pydict
  wk_tools :: "PyVal list"
  wk_max_steps :: int
  wk_steps :: "StepRecord list"
  wk_step_count :: int
  wk_ctx :: ContextManager
  wk_memory :: EphemeralMemory
  wk_executor :: ToolExecutor
  wk_prompt :: string
  wk_tokens :: rat
  wk_output :: PyVal

text \<open>A new worker after \<open>_initialize\<close>, which creates the three components with their defaults.\<close>

definition new_worker :: "string \<Rightarrow> pydict \<Rightarrow> PyVal list \<Rightarrow> int \<Rightarrow> AgentWorker" where
  "new_worker goal ctx tools n = \<lparr>wk_goal = goal, wk_context = ctx, wk_tools = tools, wk_max_steps = n,
     wk_steps = [], wk_step_count = 0, wk_ctx = init_context default_context_config,
     wk_memory = new_ephemeral 100, wk_executor = new_executor 30, wk_prompt = [], wk_tokens = 0,
     wk_output = PDict []\<rparr>"

record AgentStep =
  as_id :: string
  as_description :: string
  as_tool :: PyVal
  as_input :: PyVal
  as_output :: PyVal
  as_status :: string

record AgentResult =
  ar_success :: bool
  ar_summary :: PyVal
  ar_steps :: "AgentStep list"
  ar_output :: PyVal
  ar_error :: PyVal

subsection \<open>The system prompt\<close>

definition nl :: string where
  "nl = [CHR 0x0A]"

text \<open>A text in which the tilde stands for the double quote.\<close>

definition quoted :: "string \<Rightarrow> string" where
  "quoted s = map (\<lambda>c. if c = CHR ''~'' then CHR 0x22 else c) s"

definition calling_format :: string where
  "calling_format = join nl (map quoted [[],
     ''## Tool Calling Format'',
     ''To call a tool, respond with a JSON action:'',
     ''```json'',
     ''{~action~: {~type~: ~tool_call~, ~tool_name~: ~...~, ~parameters~: {...}}}'',
     ''```'', [],
     ''To complete:'',
     ''```json'',
     ''{~action~: {~type~: ~complete~, ~summary~: ~...~, ~output~: {...}}}'',
     ''```'', [],
     ''To report an error:'',
     ''```json'',
     ''{~action~: {~type~: ~error~, ~error~: ~...~}}'',
     ''```'', []])"

definition response_format :: string where
  "response_format = join nl [[],
     ''## Response Format'',
     ''First, think step by step in your response text. Then provide your action as JSON at the end.'', [],
     ''Available tools for each call:'', []]"

definition rules_text :: string where
  "rules_text = nl @ join nl [''## Rules'', ''- One tool call per response'',
     ''- Wait for tool result before next step'', ''- Complete when goal is achieved'']"

definition tool_section :: "worker_env \<Rightarrow> PyVal \<Rightarrow> string + string" where
  "tool_section env tool =
     try_bind (py_get_default tool ''name'' (PStr ''unknown'')) (\<lambda>name.
     try_bind (py_get_default tool ''description'' (PStr [])) (\<lambda>desc.
     try_bind (py_get_default tool ''parameters'' (PDict [])) (\<lambda>params.
     try_bind (ev_dumps_indent env params) (\<lambda>p.
       Inr (nl @ ''### '' @ ev_str env name @ nl @ ev_str env desc @ nl @ ''Parameters: '' @ utf8_take 200 p)))))"

definition tool_line :: "worker_env \<Rightarrow> PyVal \<Rightarrow> string + string" where
  "tool_line env tool =
     try_bind (py_get_default tool ''name'' PNone) (\<lambda>name.
     try_bind (py_get_default tool ''description'' (PStr [])) (\<lambda>desc.
       Inr (''- **'' @ ev_str env name @ ''**: '' @ ev_str env desc)))"

definition build_system_prompt :: "worker_env \<Rightarrow> AgentWorker \<Rightarrow> string + string" where
  "build_system_prompt env w =
     try_bind (if wk_context w = [] then Inr []
         else try_bind (ev_dumps_indent env (PDict (wk_context w))) (\<lambda>c. Inr [nl @ ''## Context'' @ nl @ c])) (\<lambda>ctx.
     try_bind (if wk_tools w = [] then Inr []
         else try_bind (try_map (tool_section env) (wk_tools w)) (\<lambda>ts.
           Inr ((nl @ ''## Available Tools'') # ts @ [calling_format]))) (\<lambda>tools.
     try_bind (try_map (tool_line env) (wk_tools w)) (\<lambda>lines.
       Inr (join nl ([''You are an autonomous AI agent in the Prodinamik AI Grid.'',
           nl @ ''## Goal'' @ nl @ wk_goal w] @ ctx @ tools @ [response_format] @ lines @ [rules_text])))))"

subsection \<open>Observe\<close>

definition status_value :: "ToolStatus \<Rightarrow> string" where
  "status_value s = (case s of AVAILABLE \<Rightarrow> ''available'' | BUSY \<Rightarrow> ''busy'' | ERROR \<Rightarrow> ''error'' | DISABLED \<Rightarrow> ''disabled'')"

definition status_dict :: "ToolExecutor \<Rightarrow> PyVal" where
  "status_dict x = PDict
     [(PStr ''tools'', PDict (map (\<lambda>(n, st, d). (PStr n, PDict [(PStr ''status'', PStr (status_value st)),
         (PStr ''description'', PStr d)])) (tool_status x))),
      (PStr ''available_count'', PInt (int (available_count x))),
      (PStr ''history_count'', PInt (int (length (te_history x)))), (PStr ''cache_size'', PInt 0)]"

text \<open>The hits of the memory have no key \<open>summary\<close>, so each adds an empty line item.\<close>

definition observe :: "worker_env \<Rightarrow> AgentWorker \<Rightarrow> string" where
  "observe env w =
     (let hits = search_memory (ev_str env) (ev_lower env) (wk_goal w) 3 (wk_memory w)
      in join nl
        ((if hits = [] then [] else (''Relevant memories found: '' @ show_nat (length hits)) # map (\<lambda>h. ''- '') (take 3 hits))
         @ (if token_budget (wk_ctx w) < 500 then [''WARNING: Token budget running low''] else [])
         @ [''Tool system: '' @ ev_str env (status_dict (wk_executor w)),
            ''Step '' @ show_int (wk_step_count w) @ ''/'' @ show_int (wk_max_steps w)]))"

subsection \<open>Think\<close>

text \<open>One of the two attempts of \<open>_parse_action\<close> to find an action in a text.\<close>

definition action_in :: "worker_env \<Rightarrow> string option \<Rightarrow> string + PyVal option" where
  "action_in env match =
     (case match of None \<Rightarrow> Inr None
      | Some j \<Rightarrow> (case ev_loads env j of None \<Rightarrow> Inr None
          | Some data \<Rightarrow> try_bind (py_get_default data ''action'' (PDict []))
              (\<lambda>a. Inr (if truthy a then Some a else None))))"

definition parse_action :: "worker_env \<Rightarrow> string \<Rightarrow> string + PyVal" where
  "parse_action env content =
     try_bind (action_in env (ev_fenced env content)) (\<lambda>a. case a of Some v \<Rightarrow> Inr v
       | None \<Rightarrow> try_bind (action_in env (ev_standalone env content)) (\<lambda>a. case a of Some v \<Rightarrow> Inr v
         | None \<Rightarrow> Inr (PDict [(PStr ''type'', PStr ''complete''), (PStr ''summary'', PStr (utf8_take 200 content)),
             (PStr ''output'', PDict [(PStr ''raw_response'', PStr (utf8_take 500 content))])])))"

definition fallback_think :: "string \<times> PyVal \<times> PyVal" where
  "fallback_think = (''No LLM provider available. Operating in fallback mode.'',
     PDict [(PStr ''type'', PStr ''complete''), (PStr ''summary'', PStr (''Fallback mode '' @ [CHR 0xE2, CHR 0x80, CHR 0x94] @ '' no action taken'')),
       (PStr ''output'', PDict [(PStr ''note'', PStr ''LLM provider not configured'')])], PInt 0)"

definition think_messages :: "worker_env \<Rightarrow> AgentWorker \<Rightarrow> message list" where
  "think_messages env w = (''system'', wk_prompt w)
     # summarize (ev_dumps env) (ev_str env) (cm_config (wk_ctx w)) (wk_steps w)
     @ [(''user'', ''Continue working on: '' @ wk_goal w @ nl @ ''Current step: ''
          @ show_int (wk_step_count w) @ ''/'' @ show_int (wk_max_steps w))]"

fun number_of :: "PyVal \<Rightarrow> string + rat" where
  "number_of (PInt i) = Inr (of_int i)"
| "number_of (PFloat q) = Inr q"
| "number_of (PBool b) = Inr (of_bool b)"
| "number_of v = Inl ''TypeError''"

fun string_of :: "PyVal \<Rightarrow> string + string" where
  "string_of (PStr s) = Inr s"
| "string_of v = Inl ''TypeError''"

text \<open>
  \<open>_think\<close> gives the worker with its token count, the content, the action and the tokens of
  this call. Every exception, the language model's own included, ends in the fallback; tokens
  that were counted before it stay counted.
\<close>

definition think_response :: "worker_env \<Rightarrow> PyVal \<Rightarrow> AgentWorker \<Rightarrow> AgentWorker \<times> string \<times> PyVal \<times> PyVal" where
  "think_response env response w =
     (case try_bind (py_get_default response ''content'' (PStr [])) (\<lambda>content.
           try_bind (py_get_default response ''usage'' (PDict [])) (\<lambda>usage.
           try_bind (py_get_default usage ''total_tokens'' (PInt 0)) (\<lambda>tokens.
           try_bind (number_of tokens) (\<lambda>n. Inr (content, tokens, n))))) of
        Inl e \<Rightarrow> (w, fallback_think)
      | Inr (content, tokens, n) \<Rightarrow>
          (let w = w\<lparr>wk_tokens := wk_tokens w + n\<rparr>
           in case try_bind (string_of content) (\<lambda>s. try_bind (parse_action env s) (\<lambda>a. Inr (s, a))) of
                Inl e \<Rightarrow> (w, fallback_think)
              | Inr (s, a) \<Rightarrow> (w, s, a, tokens)))"

definition think :: "worker_env \<Rightarrow> AgentWorker \<Rightarrow> AgentWorker \<times> string \<times> PyVal \<times> PyVal" where
  "think env w =
     (case ev_llm env of
        None \<Rightarrow> (w, fallback_think)
      | Some llm \<Rightarrow>
          (case llm (wk_step_count w) (think_messages env w) of
             Inl e \<Rightarrow> (w, fallback_think)
           | Inr response \<Rightarrow> think_response env response w))"

subsection \<open>Act\<close>

text \<open>
  \<open>_act\<close>: the executor looks the name up, which raises for a list or a dict; any other value
  that is no string is no tool.
\<close>

definition act :: "worker_env \<Rightarrow> PyVal \<Rightarrow> PyVal \<Rightarrow> AgentWorker \<Rightarrow> AgentWorker \<times> pydict" where
  "act env name params w =
     (if \<not> truthy name then (w, [(PStr ''error'', PStr ''No tool name specified''), (PStr ''_duration_ms'', PInt 0)])
      else case name of
        PStr n \<Rightarrow>
          (case execute_tool (ev_call env (wk_step_count w)) (ev_dump_obj env) (ev_show_seconds env) (ev_trace env)
                  n params None (wk_executor w) of
             (x, out) \<Rightarrow> (w\<lparr>wk_executor := x\<rparr>, dict_set (PStr ''_duration_ms'') (PFloat 0) out))
      | PList vs \<Rightarrow> (w, [(PStr ''error'', PStr ''unhashable type''), (PStr ''_duration_ms'', PFloat 0), (PStr ''tool_name'', name)])
      | PDict kvs \<Rightarrow> (w, [(PStr ''error'', PStr ''unhashable type''), (PStr ''_duration_ms'', PFloat 0), (PStr ''tool_name'', name)])
      | _ \<Rightarrow> (w, [(PStr ''error'', PStr (''Tool '' @ [CHR 0x27] @ ev_str env name @ [CHR 0x27] @ '' not found'')),
               (PStr ''available'', PList (map PStr (dict_keys (te_tools (wk_executor w))))), (PStr ''_tool'', name),
               (PStr ''_duration_ms'', PFloat 0)]))"

definition record_step ::
    "StepType \<Rightarrow> string \<Rightarrow> PyVal \<Rightarrow> PyVal \<Rightarrow> PyVal \<Rightarrow> PyVal \<Rightarrow> AgentWorker \<Rightarrow> AgentWorker" where
  "record_step ty content tool inp out tokens w =
     w\<lparr>wk_steps := wk_steps w @ [\<lparr>st_number = int (length (wk_steps w)) + 1, st_type = ty,
         st_content = utf8_take 1000 content, st_tool_name = tool, st_tool_input = or_empty inp,
         st_tool_output = or_empty out, st_tokens = tokens\<rparr>]\<rparr>"

definition convert_steps :: "AgentWorker \<Rightarrow> AgentStep list" where
  "convert_steps w = map (\<lambda>s. \<lparr>as_id = ''step_'' @ show_int (st_number s), as_description = utf8_take 200 (st_content s),
     as_tool = (if truthy (st_tool_name s) then st_tool_name s else PNone), as_input = st_tool_input s,
     as_output = st_tool_output s, as_status = ''completed''\<rparr>) (wk_steps w)"

subsection \<open>The loop\<close>

datatype flow = Continue | Break | Return AgentResult | Raise string

text \<open>
  The text of a final report; slicing a value that is no string raises (of a list, which the
  code would keep sliced, the model keeps the text).
\<close>

definition report_text :: "worker_env \<Rightarrow> PyVal \<Rightarrow> string + string" where
  "report_text env v = (case v of PStr s \<Rightarrow> Inr s | PList vs \<Rightarrow> Inr (ev_str env v) | _ \<Rightarrow> Inl ''TypeError'')"

definition act_phase :: "worker_env \<Rightarrow> PyVal \<Rightarrow> AgentWorker \<Rightarrow> AgentWorker \<times> flow" where
  "act_phase env action w =
     (case action of
        PDict kvs \<Rightarrow>
          (let field = (\<lambda>k d. case map_of kvs (PStr k) of None \<Rightarrow> d | Some v \<Rightarrow> v);
               ty = field ''type'' (PStr ''none'')
           in if ty = PStr ''tool_call'' then
                (case act env (field ''tool_name'' (PStr [])) (field ''parameters'' (PDict [])) w of
                   (w, out) \<Rightarrow>
                     (record_step TOOL_CALL (''Tool: '' @ ev_str env (field ''tool_name'' (PStr ''unknown'')))
                        (field ''tool_name'' (PStr [])) (field ''parameters'' (PDict [])) (PDict out) (PInt 0) w, Continue))
              else if ty = PStr ''complete'' then
                (let w = w\<lparr>wk_output := field ''output'' (PDict [])\<rparr>
                 in case report_text env (field ''summary'' (PStr ''Goal achieved'')) of
                      Inl e \<Rightarrow> (w, Raise e)
                    | Inr s \<Rightarrow> (record_step REPORT s (PStr []) PNone PNone (PInt 0) w, Break))
              else if ty = PStr ''error'' then
                (case report_text env (field ''error'' (PStr ''Unknown error'')) of
                   Inl e \<Rightarrow> (w, Raise e)
                 | Inr s \<Rightarrow>
                     (let w = record_step REPORT s (PStr []) PNone PNone (PInt 0) w
                      in (w, Return \<lparr>ar_success = False,
                            ar_summary = field ''error'' (PStr ''Agent encountered an error''),
                            ar_steps = convert_steps w, ar_output = wk_output w, ar_error = field ''error'' PNone\<rparr>)))
              else (w, Continue))
      | _ \<Rightarrow> (w, Raise ''AttributeError''))"

definition work_step :: "worker_env \<Rightarrow> int \<Rightarrow> AgentWorker \<Rightarrow> AgentWorker \<times> flow" where
  "work_step env i w =
     (let w = w\<lparr>wk_step_count := i\<rparr>;
          w = record_step OBSERVATION (observe env w) (PStr []) PNone PNone (PInt 0) w
      in case think env w of
           (w, content, action, tokens) \<Rightarrow>
             act_phase env action (record_step THOUGHT content (PStr []) PNone PNone tokens w))"

fun work_loop :: "worker_env \<Rightarrow> int list \<Rightarrow> AgentWorker \<Rightarrow> AgentWorker \<times> flow" where
  "work_loop env [] w = (w, Break)"
| "work_loop env (i # is) w =
     (case work_step env i w of (w, f) \<Rightarrow> if f = Continue then work_loop env is w else (w, f))"

definition failed_result :: "string \<Rightarrow> AgentWorker \<Rightarrow> AgentResult" where
  "failed_result e w = \<lparr>ar_success = False, ar_summary = PStr (''Execution error: '' @ e), ar_steps = [],
     ar_output = wk_output w, ar_error = PStr e\<rparr>"

text \<open>
  After the loop. \<open>EphemeralMemory\<close> has no \<open>save_run_memory\<close>, so the final save ends in an
  exception that is swallowed.
\<close>

definition final_result :: "AgentWorker \<Rightarrow> AgentResult" where
  "final_result w =
     (if wk_step_count w \<ge> wk_max_steps w then
        \<lparr>ar_success = False, ar_summary = PStr (''Max steps ('' @ show_int (wk_max_steps w) @ '') reached''),
         ar_steps = convert_steps w, ar_output = wk_output w, ar_error = PNone\<rparr>
      else case py_get_default (wk_output w) ''summary'' (PStr ''Task completed'') of
             Inl e \<Rightarrow> failed_result e w
           | Inr s \<Rightarrow> \<lparr>ar_success = True, ar_summary = s, ar_steps = convert_steps w,
                       ar_output = wk_output w, ar_error = PNone\<rparr>)"

definition execute :: "worker_env \<Rightarrow> AgentWorker \<Rightarrow> AgentWorker \<times> AgentResult" where
  "execute env w =
     (case build_system_prompt env w of
        Inl e \<Rightarrow> (w, failed_result e w)
      | Inr p \<Rightarrow>
          (case work_loop env [1..wk_max_steps w] (w\<lparr>wk_prompt := p\<rparr>) of
             (w, Raise e) \<Rightarrow> (w, failed_result e w)
           | (w, Return r) \<Rightarrow> (w, r)
           | (w, _) \<Rightarrow> (w, final_result w)))"

subsection \<open>What a run of the loop keeps\<close>

text \<open>Laws of the single step that hold after the loop: a relation that steps extend.\<close>

locale loop_property =
  fixes P :: "AgentWorker \<Rightarrow> bool"
  assumes count: "P w \<Longrightarrow> P (w\<lparr>wk_step_count := i\<rparr>)"
    and tokens: "P w \<Longrightarrow> P (w\<lparr>wk_tokens := q\<rparr>)"
    and outp: "P w \<Longrightarrow> P (w\<lparr>wk_output := v\<rparr>)"
    and prompt: "P w \<Longrightarrow> P (w\<lparr>wk_prompt := p\<rparr>)"
    and plain: "P w \<Longrightarrow> ty \<noteq> TOOL_CALL \<Longrightarrow> ty \<noteq> TOOL_RESULT \<Longrightarrow> P (record_step ty s (PStr []) PNone PNone t w)"
    and acted: "P w \<Longrightarrow> act env name params w = (w', out) \<Longrightarrow> P (record_step TOOL_CALL s name params (PDict out) t w')"
begin

lemma after_think: "P w \<Longrightarrow> P (fst (think env w))"
  by (simp add: think_def think_response_def Let_def tokens split: option.split sum.split prod.split)

lemma after_act_phase: "P w \<Longrightarrow> P (fst (act_phase env a w))"
  by (cases a) (auto simp: act_phase_def Let_def outp intro: acted plain split: prod.split sum.split)

lemma after_step: "P w \<Longrightarrow> P (fst (work_step env i w))"
proof -
  assume w: "P w"
  let ?w = "record_step OBSERVATION (observe env (w\<lparr>wk_step_count := i\<rparr>)) (PStr []) PNone PNone (PInt 0) (w\<lparr>wk_step_count := i\<rparr>)"
  have "P ?w" by (intro plain count w) simp_all
  then have "P (fst (think env ?w))" by (rule after_think)
  then show ?thesis
    by (auto simp: work_step_def Let_def split: prod.split intro!: after_act_phase plain)
qed

lemma after_loop: "P w \<Longrightarrow> P (fst (work_loop env is w))"
proof (induction "is" arbitrary: w)
  case (Cons i "is")
  then show ?case using after_step [of w env i] by (auto split: prod.split)
qed simp

lemma after_execute: "P w \<Longrightarrow> P (fst (execute env w))"
proof (cases "build_system_prompt env w")
  case (Inr p)
  assume "P w"
  then have "P (fst (work_loop env [1..wk_max_steps w] (w\<lparr>wk_prompt := p\<rparr>)))" by (intro after_loop prompt)
  with Inr show ?thesis by (auto simp: execute_def split: prod.split flow.split)
qed (simp add: execute_def)

end

lemma act_steps: "act env name params w = (w', out) \<Longrightarrow> wk_steps w' = wk_steps w"
  by (auto simp: act_def split: if_splits PyVal.splits prod.splits)

lemma record_simps [simp]:
  "wk_steps (record_step ty s tool inp out t w) = wk_steps w @ [\<lparr>st_number = int (length (wk_steps w)) + 1,
     st_type = ty, st_content = utf8_take 1000 s, st_tool_name = tool, st_tool_input = or_empty inp,
     st_tool_output = or_empty out, st_tokens = t\<rparr>]"
  "wk_executor (record_step ty s tool inp out t w) = wk_executor w"
  "wk_step_count (record_step ty s tool inp out t w) = wk_step_count w"
  "wk_output (record_step ty s tool inp out t w) = wk_output w"
  "wk_max_steps (record_step ty s tool inp out t w) = wk_max_steps w"
  by (simp_all add: record_step_def)

subsection \<open>Tool results are never shown to the language model\<close>

definition no_results :: "AgentWorker \<Rightarrow> bool" where
  "no_results w \<longleftrightarrow> list_all (\<lambda>s. st_type s \<noteq> TOOL_RESULT) (wk_steps w)"

interpretation results: loop_property no_results
  by unfold_locales (auto simp: no_results_def dest: act_steps)

text \<open>Two workers that differ only in what their tools have returned: in the outputs of the recorded
  steps, and in the entries of the executor's history, but not in their number.\<close>

definition alike_executors :: "ToolExecutor \<Rightarrow> ToolExecutor \<Rightarrow> bool" where
  "alike_executors x y \<longleftrightarrow> te_tools x = te_tools y \<and> te_status x = te_status y \<and> length (te_history x) = length (te_history y)"

definition alike :: "AgentWorker \<Rightarrow> AgentWorker \<Rightarrow> bool" where
  "alike v w \<longleftrightarrow> no_results v \<and> no_results w \<and> map forget_output (wk_steps v) = map forget_output (wk_steps w) \<and>
     alike_executors (wk_executor v) (wk_executor w) \<and>
     v\<lparr>wk_steps := [], wk_executor := wk_executor w\<rparr> = w\<lparr>wk_steps := []\<rparr>"

lemma alike_refl: "no_results w \<Longrightarrow> alike w w"
  by (simp add: alike_def alike_executors_def)

lemma alike_fields:
  assumes "alike v w"
  shows "wk_goal v = wk_goal w" "wk_max_steps v = wk_max_steps w" "wk_step_count v = wk_step_count w"
    "wk_ctx v = wk_ctx w" "wk_memory v = wk_memory w" "wk_prompt v = wk_prompt w" "wk_tokens v = wk_tokens w"
    "wk_output v = wk_output w" "length (wk_steps v) = length (wk_steps w)"
proof -
  have e: "v\<lparr>wk_steps := [], wk_executor := wk_executor w\<rparr> = w\<lparr>wk_steps := []\<rparr>"
    and m: "map forget_output (wk_steps v) = map forget_output (wk_steps w)"
    using assms by (simp_all add: alike_def)
  show "wk_goal v = wk_goal w" using arg_cong [OF e, of wk_goal] by simp
  show "wk_max_steps v = wk_max_steps w" using arg_cong [OF e, of wk_max_steps] by simp
  show "wk_step_count v = wk_step_count w" using arg_cong [OF e, of wk_step_count] by simp
  show "wk_ctx v = wk_ctx w" using arg_cong [OF e, of wk_ctx] by simp
  show "wk_memory v = wk_memory w" using arg_cong [OF e, of wk_memory] by simp
  show "wk_prompt v = wk_prompt w" using arg_cong [OF e, of wk_prompt] by simp
  show "wk_tokens v = wk_tokens w" using arg_cong [OF e, of wk_tokens] by simp
  show "wk_output v = wk_output w" using arg_cong [OF e, of wk_output] by simp
  show "length (wk_steps v) = length (wk_steps w)" using arg_cong [OF m, of length] by simp
qed

text \<open>What a worker sends and observes is the same for both.\<close>

lemma alike_messages: "alike v w \<Longrightarrow> think_messages env v = think_messages env w"
proof -
  assume a: "alike v w"
  have s: "summarize (ev_dumps env) (ev_str env) c (map forget_output (wk_steps u)) =
      summarize (ev_dumps env) (ev_str env) c (wk_steps u)" if "no_results u" for c u
    using that by (intro summarize_forget) (simp add: no_results_def list_all_iff)
  have "no_results v" "no_results w" "map forget_output (wk_steps v) = map forget_output (wk_steps w)"
    using a by (simp_all add: alike_def)
  with s have "summarize (ev_dumps env) (ev_str env) c (wk_steps v) = summarize (ev_dumps env) (ev_str env) c (wk_steps w)" for c
    by metis
  with alike_fields [OF a] show ?thesis by (simp add: think_messages_def)
qed

lemma alike_status: "alike_executors x y \<Longrightarrow> status_dict x = status_dict y"
  by (simp add: alike_executors_def status_dict_def tool_status_def available_count_def)

lemma alike_observe: "alike v w \<Longrightarrow> observe env v = observe env w"
  using alike_fields [of v w] alike_status [of "wk_executor v" "wk_executor w"]
  by (simp add: observe_def alike_def)

text \<open>Steps of the worker that change both in the same way.\<close>

lemma alike_count: "alike v w \<Longrightarrow> alike (v\<lparr>wk_step_count := i\<rparr>) (w\<lparr>wk_step_count := i\<rparr>)"
  and alike_tokens: "alike v w \<Longrightarrow> alike (v\<lparr>wk_tokens := q\<rparr>) (w\<lparr>wk_tokens := q\<rparr>)"
  and alike_output: "alike v w \<Longrightarrow> alike (v\<lparr>wk_output := u\<rparr>) (w\<lparr>wk_output := u\<rparr>)"
  by (cases v; cases w; simp add: alike_def no_results_def)+

lemma alike_executor:
  "alike v w \<Longrightarrow> alike_executors x y \<Longrightarrow> alike (v\<lparr>wk_executor := x\<rparr>) (w\<lparr>wk_executor := y\<rparr>)"
  by (cases v; cases w; simp add: alike_def no_results_def)

lemma alike_record:
  assumes "alike v w" and "ty \<noteq> TOOL_RESULT"
  shows "alike (record_step ty s tool inp out t v) (record_step ty s tool inp out' t w)"
proof -
  have l: "length (wk_steps v) = length (wk_steps w)" by (rule alike_fields(9) [OF assms(1)])
  with assms show ?thesis
    by (cases v; cases w; simp add: alike_def no_results_def record_step_def forget_output_def)
qed

text \<open>The tools are seen only through whether they raise.\<close>

definition raises :: "execution \<Rightarrow> bool" where
  "raises e \<longleftrightarrow> (case e of Raised m \<Rightarrow> True | _ \<Rightarrow> False)"

definition same_failures :: "(int \<Rightarrow> tool_call) \<Rightarrow> (int \<Rightarrow> tool_call) \<Rightarrow> bool" where
  "same_failures f g \<longleftrightarrow>
     (\<forall>i t h params. raises (snd (run_handler (f i) t h params)) = raises (snd (run_handler (g i) t h params)))"

lemma execute_alike:
  assumes "alike_executors x y"
    and "\<And>t h params. raises (snd (run_handler c t h params)) = raises (snd (run_handler d t h params))"
  shows "alike_executors (fst (execute_tool c dump sh tr n p t x)) (fst (execute_tool d dump sh tr n p t y))"
proof (cases "dict_get (te_tools y) n")
  case None
  with assms(1) show ?thesis by (simp add: execute_tool_def alike_executors_def)
next
  case (Some h)
  have tools: "te_tools x = te_tools y" using assms(1) by (simp add: alike_executors_def)
  have shape: "\<exists>r. er_tool r = n \<and> fst (execute_tool c dump sh tr n p t z) =
      add_record r (if raises (snd (run_handler c (effective_timeout t h) h (or_empty p))) then ERROR else AVAILABLE) z"
    if "te_tools z = te_tools y" for c z
    using that Some
    by (cases "run_handler c (effective_timeout t h) h (or_empty p)"; cases "snd (run_handler c (effective_timeout t h) h (or_empty p))")
      (auto simp: execute_tool_def Let_def raises_def intro!: exI)
  obtain r q where "er_tool r = n" "er_tool q = n"
    "fst (execute_tool c dump sh tr n p t x) =
      add_record r (if raises (snd (run_handler c (effective_timeout t h) h (or_empty p))) then ERROR else AVAILABLE) x"
    "fst (execute_tool d dump sh tr n p t y) =
      add_record q (if raises (snd (run_handler d (effective_timeout t h) h (or_empty p))) then ERROR else AVAILABLE) y"
    using shape [OF tools, of c] shape [OF refl, of d] by blast
  with assms show ?thesis by (simp add: add_record_def alike_executors_def)
qed

lemma act_alike:
  assumes "alike v w" and "same_failures (ev_call env) call"
  shows "alike (fst (act env name params v)) (fst (act (env\<lparr>ev_call := call\<rparr>) name params w))"
proof -
  have x: "alike_executors (wk_executor v) (wk_executor w)" using assms(1) by (simp add: alike_def)
  have e: "alike_executors
      (fst (execute_tool (ev_call env i) (ev_dump_obj env) (ev_show_seconds env) (ev_trace env) n params None (wk_executor v)))
      (fst (execute_tool (call i) (ev_dump_obj env) (ev_show_seconds env) (ev_trace env) n params None (wk_executor w)))" for i n
    by (rule execute_alike [OF x]) (use assms(2) in \<open>simp add: same_failures_def\<close>)
  show ?thesis
    using assms(1) alike_executor [OF assms(1) e] alike_fields(3) [OF assms(1)]
    by (cases name) (simp_all add: act_def case_prod_beta)
qed

text \<open>How a phase ends, without the outputs of the steps that a result reports.\<close>

definition flow_shape :: "flow \<Rightarrow> flow" where
  "flow_shape f = (case f of
     Return r \<Rightarrow> Return (r\<lparr>ar_steps := map (\<lambda>s. s\<lparr>as_output := PNone\<rparr>) (ar_steps r)\<rparr>) | _ \<Rightarrow> f)"

lemma flow_shape_simps [simp]:
  "flow_shape Continue = Continue" "flow_shape Break = Break" "flow_shape (Raise e) = Raise e"
  "flow_shape f = Continue \<longleftrightarrow> f = Continue"
  by (simp_all add: flow_shape_def split: flow.split)

lemma alike_steps:
  "alike v w \<Longrightarrow> map (\<lambda>s. s\<lparr>as_output := PNone\<rparr>) (convert_steps v) = map (\<lambda>s. s\<lparr>as_output := PNone\<rparr>) (convert_steps w)"
proof -
  assume "alike v w"
  then have "map forget_output (wk_steps v) = map forget_output (wk_steps w)" by (simp add: alike_def)
  from arg_cong [OF this, of "map (\<lambda>s. \<lparr>as_id = ''step_'' @ show_int (st_number s), as_description = utf8_take 200 (st_content s),
       as_tool = (if truthy (st_tool_name s) then st_tool_name s else PNone), as_input = st_tool_input s,
       as_output = PNone, as_status = ''completed''\<rparr>)"]
  show ?thesis by (simp add: convert_steps_def comp_def forget_output_def cong: if_cong)
qed

lemma act_phase_alike:
  assumes "alike v w" and "same_failures (ev_call env) call"
  shows "alike (fst (act_phase env a v)) (fst (act_phase (env\<lparr>ev_call := call\<rparr>) a w)) \<and>
    flow_shape (snd (act_phase env a v)) = flow_shape (snd (act_phase (env\<lparr>ev_call := call\<rparr>) a w))"
proof (cases "\<exists>kvs. a = PDict kvs")
  case False
  with assms(1) show ?thesis by (cases a) (simp_all add: act_phase_def)
next
  case True
  then obtain kvs where a: "a = PDict kvs" by blast
  let ?field = "\<lambda>k d. case map_of kvs (PStr k) of None \<Rightarrow> d | Some x \<Rightarrow> x"
  let ?ty = "?field ''type'' (PStr ''none'')"
  have rep: "report_text (env\<lparr>ev_call := call\<rparr>) x = report_text env x" for x
    by (cases x) (simp_all add: report_text_def)
  consider (tool) "?ty = PStr ''tool_call''" | (complete) "?ty = PStr ''complete''" | (error) "?ty = PStr ''error''"
    | (none) "?ty \<noteq> PStr ''tool_call''" "?ty \<noteq> PStr ''complete''" "?ty \<noteq> PStr ''error''" by blast
  then show ?thesis
  proof cases
    case tool
    have act: "alike (fst (act env n p v)) (fst (act (env\<lparr>ev_call := call\<rparr>) n p w))" for n p
      by (rule act_alike [OF assms])
    show ?thesis
      using alike_record [OF act, of TOOL_CALL]
      by (simp add: act_phase_def a tool Let_def case_prod_beta)
  next
    case complete
    note o = alike_output [OF assms(1), of "?field ''output'' (PDict [])"]
    show ?thesis
      using o alike_record [OF o, of REPORT]
      by (cases "report_text env (?field ''summary'' (PStr ''Goal achieved''))")
        (simp_all add: act_phase_def a complete Let_def rep)
  next
    case error
    show ?thesis
    proof (cases "report_text env (?field ''error'' (PStr ''Unknown error''))")
      case (Inl e)
      with assms(1) show ?thesis by (simp add: act_phase_def a error Let_def rep)
    next
      case (Inr s)
      let ?v = "record_step REPORT s (PStr []) PNone PNone (PInt 0) v" and ?w = "record_step REPORT s (PStr []) PNone PNone (PInt 0) w"
      have r: "alike ?v ?w" by (rule alike_record [OF assms(1)]) simp
      from Inr r alike_steps [OF r] alike_fields(8) [OF assms(1)] show ?thesis
        by (simp add: act_phase_def a error Let_def rep flow_shape_def)
    qed
  next
    case none
    with assms(1) show ?thesis by (simp add: act_phase_def a Let_def)
  qed
qed

lemma think_alike:
  assumes "alike v w"
  shows "alike (fst (think env v)) (fst (think (env\<lparr>ev_call := call\<rparr>) w)) \<and>
    snd (think env v) = snd (think (env\<lparr>ev_call := call\<rparr>) w)"
proof -
  have m: "think_messages (env\<lparr>ev_call := call\<rparr>) w = think_messages env v"
    using alike_messages [OF assms, of env] by (simp add: think_messages_def)
  have p: "parse_action (env\<lparr>ev_call := call\<rparr>) s = parse_action env s" for s
  proof -
    have "action_in (env\<lparr>ev_call := call\<rparr>) m = action_in env m" for m
      by (simp add: action_in_def split: option.split)
    then show ?thesis by (simp add: parse_action_def cong: option.case_cong)
  qed
  have t: "wk_tokens v = wk_tokens w" "wk_step_count v = wk_step_count w" using alike_fields [OF assms] by simp_all
  show ?thesis
    using assms alike_tokens [OF assms]
    by (simp add: think_def think_response_def Let_def m p t split: option.split sum.split prod.split)
qed

text \<open>The worker when it thinks, and the messages that it sends in a run of the loop.\<close>

definition observed :: "worker_env \<Rightarrow> int \<Rightarrow> AgentWorker \<Rightarrow> AgentWorker" where
  "observed env i w = record_step OBSERVATION (observe env (w\<lparr>wk_step_count := i\<rparr>)) (PStr []) PNone PNone (PInt 0)
     (w\<lparr>wk_step_count := i\<rparr>)"

fun messages_sent :: "worker_env \<Rightarrow> int list \<Rightarrow> AgentWorker \<Rightarrow> message list list" where
  "messages_sent env [] w = []"
| "messages_sent env (i # is) w = think_messages env (observed env i w) #
     (case work_step env i w of (w, f) \<Rightarrow> if f = Continue then messages_sent env is w else [])"

lemma observed_alike: "alike v w \<Longrightarrow> alike (observed env i v) (observed (env\<lparr>ev_call := call\<rparr>) i w)"
proof -
  assume a: "alike v w"
  note c = alike_count [OF a, of i]
  have "observe (env\<lparr>ev_call := call\<rparr>) u = observe env u" for u by (simp add: observe_def)
  with alike_observe [OF c, of env] alike_record [OF c, of OBSERVATION] show ?thesis
    by (simp add: observed_def)
qed

lemma work_step_alike:
  assumes "alike v w" and "same_failures (ev_call env) call"
  shows "alike (fst (work_step env i v)) (fst (work_step (env\<lparr>ev_call := call\<rparr>) i w)) \<and>
    flow_shape (snd (work_step env i v)) = flow_shape (snd (work_step (env\<lparr>ev_call := call\<rparr>) i w))"
proof -
  obtain v1 x where v1: "think env (observed env i v) = (v1, x)" by (cases "think env (observed env i v)")
  obtain w1 y where w1: "think (env\<lparr>ev_call := call\<rparr>) (observed (env\<lparr>ev_call := call\<rparr>) i w) = (w1, y)"
    by (cases "think (env\<lparr>ev_call := call\<rparr>) (observed (env\<lparr>ev_call := call\<rparr>) i w)")
  obtain content action tokens where x: "x = (content, action, tokens)" by (cases x)
  have t: "alike v1 w1" "y = (content, action, tokens)"
    using think_alike [OF observed_alike [OF assms(1), of env i call], of env call] by (simp_all add: v1 w1 x)
  have "alike (record_step THOUGHT content (PStr []) PNone PNone tokens v1) (record_step THOUGHT content (PStr []) PNone PNone tokens w1)"
    by (rule alike_record [OF t(1)]) simp
  from act_phase_alike [OF this assms(2), of action] show ?thesis
    using v1 w1 by (simp add: work_step_def observed_def Let_def x t(2))
qed

text \<open>C39: What its tools return never reaches the language model. Take a worker in any state whose
  history has no step of the type TOOL_RESULT (the loop records none), with any tools, and two
  environments that differ only in what the tools do. If they agree on which calls raise, then the
  worker sends the same messages to the model in every step, ends in the same way and leaves the
  same steps, apart from their outputs; however much the values that the tools return, the times they take
  and their time-outs differ. So the model plans every step without having seen the outcome of the ones before.\<close>

theorem tool_results_unseen:
  assumes "same_failures (ev_call env) call" and "no_results w"
  shows "messages_sent (env\<lparr>ev_call := call\<rparr>) is w = messages_sent env is w \<and>
    map forget_output (wk_steps (fst (work_loop (env\<lparr>ev_call := call\<rparr>) is w))) = map forget_output (wk_steps (fst (work_loop env is w))) \<and>
    flow_shape (snd (work_loop (env\<lparr>ev_call := call\<rparr>) is w)) = flow_shape (snd (work_loop env is w))"
proof -
  let ?env = "env\<lparr>ev_call := call\<rparr>"
  have "messages_sent env is v = messages_sent ?env is w \<and> alike (fst (work_loop env is v)) (fst (work_loop ?env is w)) \<and>
      flow_shape (snd (work_loop env is v)) = flow_shape (snd (work_loop ?env is w))" if "alike v w" for v w
    using that
  proof (induction "is" arbitrary: v w)
    case (Cons i "is")
    obtain v1 f where v1: "work_step env i v = (v1, f)" by fastforce
    obtain w1 g where w1: "work_step ?env i w = (w1, g)" by fastforce
    have s: "alike v1 w1" "flow_shape f = flow_shape g"
      using work_step_alike [OF Cons.prems assms(1), of i] by (simp_all add: v1 w1)
    have "f = Continue \<longleftrightarrow> g = Continue" using s(2) flow_shape_simps(4) by metis
    moreover have "think_messages ?env u = think_messages env u" for u by (simp add: think_messages_def)
    moreover have "think_messages env (observed env i v) = think_messages env (observed ?env i w)"
      by (rule alike_messages [OF observed_alike [OF Cons.prems]])
    ultimately show ?case
      using Cons.IH [OF s(1)] s by (cases "f = Continue") (simp_all add: v1 w1)
  qed simp
  from this [OF alike_refl [OF assms(2)]] show ?thesis by (simp add: alike_def)
qed

text \<open>A model that asks for the tool \<open>f\<close> in every step, and a worker that has it.\<close>

definition asking_env :: "PyVal \<Rightarrow> worker_env" where
  "asking_env v = \<lparr>ev_llm = Some (\<lambda>i ms. Inr (PDict [(PStr ''content'', PStr ''x'')])), ev_call = (\<lambda>i h p. (0, Inr v)),
     ev_dump_obj = (\<lambda>n. []), ev_show_seconds = (\<lambda>s. []), ev_trace = [], ev_dumps = (\<lambda>v. []), ev_dumps_indent = (\<lambda>v. Inr []),
     ev_loads = (\<lambda>s. Some (PDict [(PStr ''action'', PDict [(PStr ''type'', PStr ''tool_call''), (PStr ''tool_name'', PStr ''f'')])])),
     ev_str = (\<lambda>v. []), ev_lower = (\<lambda>s. s), ev_fenced = (\<lambda>s. Some s), ev_standalone = (\<lambda>s. None)\<rparr>"

definition tooled_worker :: AgentWorker where
  "tooled_worker = (new_worker ''g'' [] [] 2)\<lparr>wk_executor := register_tool ''f'' 0 Plain_function None [] None (new_executor 30)\<rparr>"

definition last_result :: "PyVal \<Rightarrow> PyVal option" where
  "last_result v = (case filter (\<lambda>s. st_type s = TOOL_CALL) (wk_steps (fst (work_loop (asking_env v) [1, 2] tooled_worker))) of
     [a, b] \<Rightarrow> (case st_tool_output b of PDict kvs \<Rightarrow> map_of kvs (PStr ''result'') | _ \<Rightarrow> None) | _ \<Rightarrow> None)"

theorem tool_results_unseen_witness:
  "messages_sent (asking_env (PInt 1)) [1, 2] tooled_worker = messages_sent (asking_env (PInt 2)) [1, 2] tooled_worker \<and>
   length (messages_sent (asking_env (PInt 2)) [1, 2] tooled_worker) = 2 \<and>
   last_result (PInt 1) = Some (PInt 1) \<and> last_result (PInt 2) = Some (PInt 2)"
proof -
  have f: "same_failures (ev_call (asking_env (PInt 2))) (\<lambda>i h p. (0, Inr (PInt 1)))"
    by (simp add: same_failures_def run_handler_def raises_def asking_env_def)
  have n: "no_results tooled_worker" by (simp add: no_results_def tooled_worker_def new_worker_def)
  have e: "(asking_env (PInt 2))\<lparr>ev_call := \<lambda>i h p. (0, Inr (PInt 1))\<rparr> = asking_env (PInt 1)"
    by (simp add: asking_env_def)
  have "length (messages_sent (asking_env (PInt 2)) [1, 2] tooled_worker) = 2" by code_simp
  moreover have "last_result (PInt 1) = Some (PInt 1)" "last_result (PInt 2) = Some (PInt 2)" by code_simp+
  ultimately show ?thesis
    using tool_results_unseen [OF f n, of "[1, 2]"] by (simp only: e)
qed

subsection \<open>The executor of a worker has no tools\<close>

definition is_error :: "PyVal \<Rightarrow> bool" where
  "is_error v \<longleftrightarrow> (case v of PDict kvs \<Rightarrow> map_of kvs (PStr ''error'') \<noteq> None | _ \<Rightarrow> False)"

definition tools_fail :: "AgentWorker \<Rightarrow> bool" where
  "tools_fail w \<longleftrightarrow> te_tools (wk_executor w) = [] \<and>
     list_all (\<lambda>s. if st_type s = TOOL_CALL then is_error (st_tool_output s) else True) (wk_steps w)"

lemma act_no_tools:
  assumes "te_tools (wk_executor w) = []" and "act env name params w = (w', out)"
  shows "te_tools (wk_executor w') = [] \<and> is_error (or_empty (PDict out))"
  using assms by (auto simp: act_def execute_tool_def is_error_def or_empty_def split: if_splits PyVal.splits)

interpretation failing: loop_property tools_fail
proof unfold_locales
  fix env name params w w' out s t
  assume w: "tools_fail w" and act: "act env name params w = (w', out)"
  from w act_no_tools [OF _ act] act_steps [OF act]
  show "tools_fail (record_step TOOL_CALL s name params (PDict out) t w')"
    by (simp add: tools_fail_def)
qed (auto simp: tools_fail_def)

text \<open>No tool that a worker calls is ever found: its executor is created without a plugin registry
  and nothing registers a tool, so every recorded tool call has an error as its output.\<close>

theorem worker_tools_never_found:
  "list_all (\<lambda>s. if st_type s = TOOL_CALL then is_error (st_tool_output s) else True)
     (wk_steps (fst (execute env (new_worker goal ctx tools n))))"
proof -
  have "tools_fail (fst (execute env (new_worker goal ctx tools n)))"
    by (rule failing.after_execute) (simp add: tools_fail_def new_worker_def new_executor_def)
  then show ?thesis by (simp add: tools_fail_def)
qed

subsection \<open>How a run ends\<close>

lemma act_keeps [simp]:
  "wk_step_count (fst (act env name params w)) = wk_step_count w"
  "wk_max_steps (fst (act env name params w)) = wk_max_steps w"
  "wk_steps (fst (act env name params w)) = wk_steps w"
  by (simp_all add: act_def split: PyVal.split prod.split)

lemma think_keeps [simp]:
  "wk_step_count (fst (think env w)) = wk_step_count w" "wk_max_steps (fst (think env w)) = wk_max_steps w"
  "wk_steps (fst (think env w)) = wk_steps w"
  by (simp_all add: think_def think_response_def Let_def split: option.split sum.split prod.split)

lemma act_phase_keeps [simp]:
  "wk_step_count (fst (act_phase env a w)) = wk_step_count w"
  "wk_max_steps (fst (act_phase env a w)) = wk_max_steps w"
  "length (wk_steps (fst (act_phase env a w))) \<le> Suc (length (wk_steps w))"
  by (cases a; simp add: act_phase_def Let_def case_prod_unfold split: sum.split)+

lemma act_phase_return: "snd (act_phase env a w) = Return r \<Longrightarrow> \<not> ar_success r"
  by (cases a) (auto simp: act_phase_def Let_def case_prod_unfold split: if_splits sum.splits)

lemma work_step_keeps:
  "wk_step_count (fst (work_step env i w)) = i" "wk_max_steps (fst (work_step env i w)) = wk_max_steps w"
  "length (wk_steps (fst (work_step env i w))) \<le> length (wk_steps w) + 3"
proof -
  show "wk_step_count (fst (work_step env i w)) = i" "wk_max_steps (fst (work_step env i w)) = wk_max_steps w"
    by (simp_all add: work_step_def Let_def case_prod_unfold)
  let ?w = "record_step OBSERVATION (observe env (w\<lparr>wk_step_count := i\<rparr>)) (PStr []) PNone PNone (PInt 0) (w\<lparr>wk_step_count := i\<rparr>)"
  have "length (wk_steps (fst (act_phase env a (record_step THOUGHT c (PStr []) PNone PNone t (fst (think env ?w))))))
      \<le> length (wk_steps w) + 3" for a c t
    by (rule order_trans [OF act_phase_keeps(3)]) simp
  then show "length (wk_steps (fst (work_step env i w))) \<le> length (wk_steps w) + 3"
    by (simp add: work_step_def Let_def case_prod_unfold)
qed

lemma work_step_return: "snd (work_step env i w) = Return r \<Longrightarrow> \<not> ar_success r"
  by (auto simp: work_step_def Let_def case_prod_unfold dest: act_phase_return)

lemma work_loop_keeps:
  "wk_max_steps (fst (work_loop env ks w)) = wk_max_steps w"
  "length (wk_steps (fst (work_loop env ks w))) \<le> length (wk_steps w) + 3 * length ks"
  "ks \<noteq> [] \<Longrightarrow> wk_step_count (fst (work_loop env ks w)) \<in> set ks"
  "snd (work_loop env ks w) = Return r \<Longrightarrow> \<not> ar_success r"
proof (induction ks arbitrary: w)
  case (Cons i ks)
  { case (1 w) then show ?case
      using Cons.IH(1) [of "fst (work_step env i w)"] by (simp add: case_prod_unfold work_step_keeps) }
  { case (2 w) then show ?case
      using Cons.IH(2) [of "fst (work_step env i w)"] work_step_keeps(3) [of env i w] by (simp add: case_prod_unfold) }
  { case (3 w) then show ?case
      using Cons.IH(3) [of "fst (work_step env i w)"] by (cases ks) (simp_all add: case_prod_unfold work_step_keeps) }
  { case (4 w) then show ?case
      using Cons.IH(4) [of "fst (work_step env i w)"] work_step_return [of env i w]
      by (auto simp: case_prod_unfold split: if_splits) }
qed simp_all

lemma final_result_success:
  "ar_success (final_result w) \<Longrightarrow> wk_step_count w < wk_max_steps w"
  by (simp add: final_result_def split: if_splits)

text \<open>A worker takes at most the permitted number of rounds, each of which adds at most three
  steps to its trace, whatever the language model answers.\<close>

theorem trace_bounded:
  "length (wk_steps (fst (execute env (new_worker goal ctx tools n)))) \<le> 3 * nat n"
proof (cases "build_system_prompt env (new_worker goal ctx tools n)")
  case (Inr p)
  have "wk_steps (fst (execute env (new_worker goal ctx tools n))) =
      wk_steps (fst (work_loop env [1..n] ((new_worker goal ctx tools n)\<lparr>wk_prompt := p\<rparr>)))"
    using Inr by (simp add: execute_def new_worker_def split: prod.split flow.split)
  then show ?thesis
    using work_loop_keeps(2) [where env = env and ks = "[1..n]" and w = "(new_worker goal ctx tools n)\<lparr>wk_prompt := p\<rparr>"]
    by (simp add: new_worker_def)
qed (simp add: execute_def new_worker_def)

text \<open>A goal that is completed in the last permitted step counts as a failure: a worker succeeds
  only if it stops in an earlier step, so with a limit of one step it never does.\<close>

theorem success_needs_spare_step:
  assumes "ar_success (snd (execute env (new_worker goal ctx tools n)))"
  shows "1 \<le> wk_step_count (fst (execute env (new_worker goal ctx tools n))) \<and>
    wk_step_count (fst (execute env (new_worker goal ctx tools n))) < n"
proof -
  obtain p where p: "build_system_prompt env (new_worker goal ctx tools n) = Inr p"
    using assms by (cases "build_system_prompt env (new_worker goal ctx tools n)") (auto simp: execute_def failed_result_def)
  let ?w0 = "(new_worker goal ctx tools n)\<lparr>wk_prompt := p\<rparr>"
  obtain w f where l: "work_loop env [1..n] ?w0 = (w, f)" by (cases "work_loop env [1..n] ?w0")
  note k = work_loop_keeps [where env = env and ks = "[1..n]" and w = ?w0, unfolded l fst_conv snd_conv]
  have n: "wk_max_steps ?w0 = n" "wk_step_count ?w0 = 0" by (simp_all add: new_worker_def)
  have e: "fst (execute env (new_worker goal ctx tools n)) = w"
    using p l n by (simp add: execute_def new_worker_def split: flow.split)
  have "snd (execute env (new_worker goal ctx tools n)) = (case f of Raise e \<Rightarrow> failed_result e w | Return r \<Rightarrow> r | _ \<Rightarrow> final_result w)"
    using p l n by (simp add: execute_def new_worker_def split: flow.split)
  with assms have "ar_success (final_result w)"
    using k(4) by (cases f) (simp_all add: failed_result_def)
  then have c: "wk_step_count w < n" using final_result_success k(1) n by force
  have "[1..n] \<noteq> []"
  proof
    assume "[1..n] = []"
    then have "w = ?w0" using l by simp
    with c n have "0 < n" by simp
    with \<open>[1..n] = []\<close> show False by simp
  qed
  with k(3) have "wk_step_count w \<in> set [1..n]" by blast
  with c e show ?thesis by simp
qed

definition quiet_env :: worker_env where
  "quiet_env = \<lparr>ev_llm = Some (\<lambda>i ms. Inl ''ConnectionError''), ev_call = (\<lambda>i h p. (0, Inr PNone)), ev_dump_obj = (\<lambda>n. []),
     ev_show_seconds = (\<lambda>s. []), ev_trace = [], ev_dumps = (\<lambda>v. []), ev_dumps_indent = (\<lambda>v. Inr []),
     ev_loads = (\<lambda>s. None), ev_str = (\<lambda>v. []), ev_lower = (\<lambda>s. s), ev_fenced = (\<lambda>s. None), ev_standalone = (\<lambda>s. None)\<rparr>"

text \<open>C40: A worker whose language model fails reports success. If the model raises in the first step,
  and a second step would be allowed, the result is a success with the summary of a completed
  task and no error, although nothing was done and no answer was ever received.\<close>

theorem model_failure_is_success:
  assumes "build_system_prompt env (new_worker goal ctx tools n) = Inr p" and "ev_llm env = Some llm"
    and "\<And>ms. \<exists>e. llm 1 ms = Inl e" and "n \<ge> 2"
  shows "ar_success (snd (execute env (new_worker goal ctx tools n))) \<and>
    ar_summary (snd (execute env (new_worker goal ctx tools n))) = PStr ''Task completed'' \<and>
    ar_error (snd (execute env (new_worker goal ctx tools n))) = PNone \<and>
    wk_tokens (fst (execute env (new_worker goal ctx tools n))) = 0"
proof -
  let ?w0 = "(new_worker goal ctx tools n)\<lparr>wk_prompt := p\<rparr>"
  have think: "think env w = (w, fallback_think)" if "wk_step_count w = 1" for w
    using assms(3) [of "think_messages env w"] that by (auto simp: think_def assms(2))
  obtain w where w: "work_step env 1 ?w0 = (w, Break)" "wk_step_count w = 1" "wk_max_steps w = n" "wk_tokens w = 0"
    "wk_output w = PDict [(PStr ''note'', PStr ''LLM provider not configured'')]"
    by (auto simp: work_step_def Let_def think fallback_think_def act_phase_def report_text_def)
      (simp add: record_step_def new_worker_def)
  have "[1..n] = 1 # [2..n]" using assms(4) upto_rec1 [of 1 n] by simp
  with w(1) have "work_loop env [1..n] ?w0 = (w, Break)" by simp
  then have "execute env (new_worker goal ctx tools n) = (w, final_result w)"
    using assms(1) by (simp add: execute_def new_worker_def)
  with w assms(4) show ?thesis by (simp add: final_result_def)
qed

theorem model_failure_is_success_witness:
  "ar_success (snd (execute quiet_env (new_worker ''g'' [] [] 2)))"
proof -
  obtain p where "build_system_prompt quiet_env (new_worker ''g'' [] [] 2) = Inr p"
    by (auto simp: build_system_prompt_def new_worker_def)
  from model_failure_is_success [OF this, of "\<lambda>i ms. Inl ''ConnectionError''"] show ?thesis
    by (simp add: quiet_env_def)
qed

lemma quiet_success: "ar_success (snd (execute quiet_env (new_worker ''g'' [] [] 3)))"
  by code_simp

theorem success_needs_spare_step_witness:
  "wk_step_count (fst (execute quiet_env (new_worker ''g'' [] [] 3))) < 3"
  using success_needs_spare_step [OF quiet_success] by simp

end
