(* ===== verification/Raft_Bridge.thy ===== *)
theory Raft_Bridge
  imports Raft_Hybrid Coordinator
begin

text \<open>
  The bridge between the Raft node and the coordinator
  (\<open>engine/agent_runtime/coordinator_raft_bridge.py\<close>). The Raft node calls back into the bridge
  when it gains or loses the leadership; the bridge starts or stops the coordinator in a
  coroutine of its own. A coroutine runs from one suspension to the next; the pieces that wait
  for their turn are the list \<open>bs_tasks\<close>, and the event loop may run any of them next. The
  callbacks that the Raft node had before are called first and change nothing of what is
  modelled.
\<close>

subsection \<open>The coordinator as an object that is started and stopped\<close>

text \<open>
  Before the first start the components are \<^const>\<open>None\<close> and the log is what the file holds;
  \<open>cn_broken\<close> is the flag \<open>_running\<close> of a coordinator whose first start raised. \<open>cn_loops\<close> is
  the number of background tasks in \<open>_tasks\<close>.
\<close>

record coord_node =
  cn_config :: CoordinatorConfig
  cn_file :: "task_wal option list"
  cn_parts :: "Coordinator option"
  cn_broken :: bool
  cn_loops :: nat

definition new_coordinator :: "CoordinatorConfig \<Rightarrow> task_wal option list \<Rightarrow> coord_node" where
  "new_coordinator cfg w = \<lparr>cn_config = cfg, cn_file = w, cn_parts = None, cn_broken = False, cn_loops = 0\<rparr>"

definition cn_running :: "coord_node \<Rightarrow> bool" where
  "cn_running cn = (case cn_parts cn of None \<Rightarrow> cn_broken cn | Some c \<Rightarrow> running c)"

definition cn_is_active :: "coord_node \<Rightarrow> bool" where
  "cn_is_active cn = (case cn_parts cn of None \<Rightarrow> cn_broken cn
     | Some c \<Rightarrow> coord_status c = Coordinator.ACTIVE \<and> running c)"

text \<open>
  \<open>start\<close>: opening the log may raise (\<open>fails\<close>), after the flags have been set. A restart makes
  new components from the log and keeps the counters.
\<close>

definition start_coordinator ::
    "(nat \<Rightarrow> datetime) \<Rightarrow> (nat \<Rightarrow> seconds) \<Rightarrow> bool \<Rightarrow> coord_node \<Rightarrow> coord_node \<times> bool" where
  "start_coordinator nows clks fails cn =
     (if cn_running cn then (cn, True)
      else case cn_parts cn of
        None \<Rightarrow>
          if fails then (cn\<lparr>cn_broken := True\<rparr>, False)
          else (cn\<lparr>cn_parts := Some (start (cn_config cn) nows clks (cn_file cn)), cn_loops := 3\<rparr>, True)
      | Some c \<Rightarrow>
          if fails then (cn\<lparr>cn_parts := Some (c\<lparr>running := True, coord_status := Coordinator.ACTIVE\<rparr>)\<rparr>, False)
          else (cn\<lparr>cn_parts := Some ((start (cn_config cn) nows clks (wal (queue c)))
                 \<lparr>tasks_assigned := tasks_assigned c, tasks_completed := tasks_completed c,
                  tasks_failed := tasks_failed c, events := events c\<rparr>), cn_loops := 3\<rparr>, True))"

text \<open>\<open>stop\<close> up to its suspension, in which the cancelled background tasks end, and after it.\<close>

definition stop_flags :: "coord_node \<Rightarrow> coord_node" where
  "stop_flags cn = (case cn_parts cn of None \<Rightarrow> cn\<lparr>cn_broken := False\<rparr>
     | Some c \<Rightarrow> cn\<lparr>cn_parts := Some (c\<lparr>running := False, coord_status := STOPPED\<rparr>)\<rparr>)"

definition stop_close :: "coord_node \<Rightarrow> coord_node" where
  "stop_close cn = cn\<lparr>cn_loops := 0,
     cn_parts := map_option (\<lambda>c. c\<lparr>queue := close (queue c)\<rparr>) (cn_parts cn)\<rparr>"

lemma stop_is_stop:
  "cn_parts cn = Some c \<Longrightarrow> cn_parts (stop_close (stop_flags cn)) = Some (stop c)"
  by (simp add: stop_flags_def stop_close_def stop_def)

subsection \<open>The bridge\<close>

datatype BridgeState = DETACHED | STANDBY | ACTIVE | TRANSITIONING

text \<open>
  What waits in the event loop: a promotion before its start and in its pause, a stop of the
  coordinator before it begins and while the background tasks end. The flag of a stop tells a
  demotion from the stop that \<open>detach\<close> starts.
\<close>

datatype bridge_task = Promote_start | Promote_wake | Stop_start bool | Stop_finish bool

text \<open>What \<open>get_event_loop\<close> finds: a running loop, a loop that does not run, or none.\<close>

datatype event_loop = Loop_running | Loop_idle | Loop_missing

record bridge_sys =
  bs_node :: HybridNode
  bs_coord :: coord_node
  bs_state :: BridgeState
  bs_promotions :: nat
  bs_stepdowns :: nat
  bs_last :: "seconds option"
  bs_hooked :: bool
  bs_tasks :: "bridge_task list"

definition new_bridge :: "HybridNode \<Rightarrow> coord_node \<Rightarrow> bridge_sys" where
  "new_bridge h cn = \<lparr>bs_node = h, bs_coord = cn, bs_state = DETACHED, bs_promotions = 0, bs_stepdowns = 0,
     bs_last = None, bs_hooked = False, bs_tasks = []\<rparr>"

definition create_task :: "bridge_task \<Rightarrow> bridge_sys \<Rightarrow> bridge_sys" where
  "create_task t s = s\<lparr>bs_tasks := bs_tasks s @ [t]\<rparr>"

definition attach :: "bridge_sys \<Rightarrow> bridge_sys" where
  "attach s = (if bs_state s \<noteq> DETACHED then s else s\<lparr>bs_hooked := True, bs_state := STANDBY\<rparr>)"

definition detach :: "event_loop \<Rightarrow> bridge_sys \<Rightarrow> bridge_sys" where
  "detach loop s =
     (if bs_state s = DETACHED then s
      else (if bs_state s = ACTIVE \<and> loop = Loop_running then create_task (Stop_start False) s else s)
             \<lparr>bs_hooked := False, bs_state := DETACHED\<rparr>)"

subsection \<open>The callbacks\<close>

definition promote_sync :: "event_loop \<Rightarrow> bridge_sys \<Rightarrow> bridge_sys" where
  "promote_sync loop s = (case loop of Loop_running \<Rightarrow> create_task Promote_start s
     | Loop_idle \<Rightarrow> s | Loop_missing \<Rightarrow> s\<lparr>bs_state := STANDBY\<rparr>)"

definition on_leader_elected :: "event_loop \<Rightarrow> seconds \<Rightarrow> bridge_sys \<Rightarrow> bridge_sys" where
  "on_leader_elected loop now s =
     (let s = s\<lparr>bs_state := TRANSITIONING, bs_last := Some now\<rparr>
      in if loop = Loop_running then create_task Promote_start s else promote_sync loop s)"

definition demote_sync :: "bridge_sys \<Rightarrow> bridge_sys" where
  "demote_sync s = s\<lparr>bs_state := STANDBY\<rparr>"

definition on_step_down :: "event_loop \<Rightarrow> seconds \<Rightarrow> bridge_sys \<Rightarrow> bridge_sys" where
  "on_step_down loop now s =
     (let s = s\<lparr>bs_state := TRANSITIONING, bs_last := Some now\<rparr>
      in if loop = Loop_running then create_task (Stop_start True) s else demote_sync s)"

text \<open>The Raft node calls a callback only if there is one.\<close>

definition notify :: "event_loop \<Rightarrow> seconds \<Rightarrow> raft_event \<Rightarrow> bridge_sys \<Rightarrow> bridge_sys" where
  "notify loop now e s =
     (if \<not> bs_hooked s then s
      else case e of LeaderElected nid \<Rightarrow> on_leader_elected loop now s
           | SteppedDown \<Rightarrow> on_step_down loop now s | _ \<Rightarrow> s)"

text \<open>The operations of the Raft node; those that raise an event call back.\<close>

datatype node_op =
    Message RaftMessage datetime
  | Elect "string \<Rightarrow> RaftMessage \<Rightarrow> raft_response option" datetime
  | Apply command datetime
  | Go_offline
  | Go_online datetime RaftNode
  | Reconnect datetime RaftNode

fun node_step :: "node_op \<Rightarrow> HybridNode \<Rightarrow> HybridNode" where
  "node_step (Message msg now) h = fst (handle_raft_message msg now h)"
| "node_step (Elect send now) h = fst (force_election send now h)"
| "node_step (Apply c now) h = fst (apply_cmd c now h)"
| "node_step Go_offline h = go_offline h"
| "node_step (Go_online now leader) h = fst (go_online now h leader)"
| "node_step (Reconnect now leader) h = fst (reconnect now h leader)"

definition new_events :: "HybridNode \<Rightarrow> HybridNode \<Rightarrow> raft_event list" where
  "new_events h h' = drop (length (raft_events (raft h))) (raft_events (raft h'))"

definition node_call :: "event_loop \<Rightarrow> seconds \<Rightarrow> node_op \<Rightarrow> bridge_sys \<Rightarrow> bridge_sys" where
  "node_call loop now op s =
     (let h' = node_step op (bs_node s)
      in fold (notify loop now) (new_events (bs_node s) h') (s\<lparr>bs_node := h'\<rparr>))"

subsection \<open>The coroutines\<close>

definition promoted :: "bridge_sys \<Rightarrow> bridge_sys" where
  "promoted s = s\<lparr>bs_state := ACTIVE, bs_promotions := bs_promotions s + 1\<rparr>"

text \<open>
  \<open>_promote_coordinator\<close> up to its pause of three seconds, which it makes only when there is a
  node registry, and after it.
\<close>

definition promote_start :: "(nat \<Rightarrow> datetime) \<Rightarrow> (nat \<Rightarrow> seconds) \<Rightarrow> bool \<Rightarrow> bridge_sys \<Rightarrow> bridge_sys" where
  "promote_start nows clks fails s =
     (case start_coordinator nows clks fails (bs_coord s) of
        (cn, ok) \<Rightarrow>
          (let s = s\<lparr>bs_coord := cn\<rparr>
           in if \<not> ok then s\<lparr>bs_state := STANDBY\<rparr>
              else if cn_parts cn = None then promoted s
              else create_task Promote_wake s))"

definition promote_wake :: "(string set \<Rightarrow> string list) \<Rightarrow> datetime \<Rightarrow> seconds \<Rightarrow> bridge_sys \<Rightarrow> bridge_sys" where
  "promote_wake order now secs s =
     promoted (s\<lparr>bs_coord := (bs_coord s)
       \<lparr>cn_parts := map_option (\<lambda>c. fst (try_assign order now secs c)) (cn_parts (bs_coord s))\<rparr>\<rparr>)"

definition stop_finish :: "bool \<Rightarrow> bridge_sys \<Rightarrow> bridge_sys" where
  "stop_finish demotion s =
     (let s = s\<lparr>bs_coord := stop_close (bs_coord s)\<rparr>
      in if demotion then s\<lparr>bs_state := STANDBY\<rparr> else s)"

definition stop_start :: "bool \<Rightarrow> bridge_sys \<Rightarrow> bridge_sys" where
  "stop_start demotion s =
     (let s = s\<lparr>bs_coord := stop_flags (bs_coord s),
                bs_stepdowns := bs_stepdowns s + (if demotion then 1 else 0)\<rparr>
      in if cn_loops (bs_coord s) = 0 then stop_finish demotion s
         else create_task (Stop_finish demotion) s)"

record task_env =
  te_nows :: "nat \<Rightarrow> datetime"
  te_clks :: "nat \<Rightarrow> seconds"
  te_fails :: bool
  te_order :: "string set \<Rightarrow> string list"
  te_now :: datetime
  te_secs :: seconds

fun run_task :: "task_env \<Rightarrow> bridge_task \<Rightarrow> bridge_sys \<Rightarrow> bridge_sys" where
  "run_task env Promote_start s = promote_start (te_nows env) (te_clks env) (te_fails env) s"
| "run_task env Promote_wake s = promote_wake (te_order env) (te_now env) (te_secs env) s"
| "run_task env (Stop_start d) s = stop_start d s"
| "run_task env (Stop_finish d) s = stop_finish d s"

text \<open>The event loop takes the task at position \<open>i\<close> of those that wait.\<close>

definition run_nth :: "task_env \<Rightarrow> nat \<Rightarrow> bridge_sys \<Rightarrow> bridge_sys" where
  "run_nth env i s = run_task env (bs_tasks s ! i) (s\<lparr>bs_tasks := take i (bs_tasks s) @ drop (Suc i) (bs_tasks s)\<rparr>)"

text \<open>A client awaits the manual promotion and demotion, whose first piece runs at once.\<close>

definition force_promotion :: "task_env \<Rightarrow> bridge_sys \<Rightarrow> bridge_sys \<times> bool option" where
  "force_promotion env s =
     (if bs_state s = ACTIVE then (s, Some True) else (run_task env Promote_start s, None))"

definition force_demotion :: "bridge_sys \<Rightarrow> bridge_sys \<times> bool option" where
  "force_demotion s = (if bs_state s \<noteq> ACTIVE then (s, Some True) else (stop_start True s, None))"

definition bridge_is_active :: "bridge_sys \<Rightarrow> bool" where
  "bridge_is_active s \<longleftrightarrow> bs_state s = ACTIVE"

definition bridge_is_standby :: "bridge_sys \<Rightarrow> bool" where
  "bridge_is_standby s \<longleftrightarrow> bs_state s = STANDBY"

record bridge_stats =
  stats_state :: BridgeState
  stats_promotions :: nat
  stats_stepdowns :: nat
  stats_node_id :: string
  stats_active :: bool
  stats_last :: "seconds option"

definition bridge_stats_of :: "bridge_sys \<Rightarrow> bridge_stats" where
  "bridge_stats_of s = \<lparr>stats_state = bs_state s, stats_promotions = bs_promotions s,
     stats_stepdowns = bs_stepdowns s, stats_node_id = RaftNode.node_id (raft (bs_node s)),
     stats_active = cn_is_active (bs_coord s), stats_last = bs_last s\<rparr>"

subsection \<open>Steps\<close>

text \<open>A client may use the components of the coordinator whenever there are any.\<close>

inductive bridge_step :: "bridge_sys \<Rightarrow> bridge_sys \<Rightarrow> bool" where
  Attach: "bridge_step s (attach s)"
| Detach: "bridge_step s (detach loop s)"
| Node: "bridge_step s (node_call loop now op s)"
| Run: "i < length (bs_tasks s) \<Longrightarrow> bridge_step s (run_nth env i s)"
| Force_promotion: "bridge_step s (fst (force_promotion env s))"
| Force_demotion: "bridge_step s (fst (force_demotion s))"
| Client: "cn_parts (bs_coord s) = Some c \<Longrightarrow>
    bridge_step s (s\<lparr>bs_coord := (bs_coord s)\<lparr>cn_parts := Some (coord_step order op c)\<rparr>\<rparr>)"

subsection \<open>What the operations of the coordinator leave alone\<close>

definition run_view :: "Coordinator \<Rightarrow> bool \<times> CoordinatorStatus \<times> bool" where
  "run_view c = (running c, coord_status c, wal_open (queue c))"

lemma wal_open_write [simp]: "wal_open (write_wal e q) = wal_open q"
  by (simp add: write_wal_def)

lemma wal_open_queue [simp]:
  "wal_open (fst (enqueue fresh now clk t q)) = wal_open q" "wal_open (fst (dequeue aff q)) = wal_open q"
  "wal_open (fst (acknowledge tid nid now q)) = wal_open q" "wal_open (fst (complete tid res now q)) = wal_open q"
  "wal_open (fst (fail tid err retry now clk q)) = wal_open q" "wal_open (fst (cancel tid q)) = wal_open q"
  "wal_open (fst (dequeue_for aff q)) = wal_open q"
proof -
  show 1: "wal_open (fst (dequeue aff q)) = wal_open q" for aff q
    by (simp add: dequeue_def split_beta Let_def)
  have "wal_open q' = wal_open q" if "dequeue aff q = (q', r)" for aff q q' r
    using that 1 [of aff q] by simp
  then show "wal_open (fst (dequeue_for aff q)) = wal_open q"
    by (auto simp: dequeue_for_def 1 split: prod.splits option.splits)
qed (auto simp: enqueue_def acknowledge_def complete_def fail_def cancel_def put_task_def Let_def split: option.splits)

lemma run_view_simps [simp]:
  "run_view (c\<lparr>assignments := a\<rparr>) = run_view c" "run_view (c\<lparr>registry := g\<rparr>) = run_view c"
  "run_view (c\<lparr>total_scheduled := n\<rparr>) = run_view c" "run_view (c\<lparr>total_failed_assign := n\<rparr>) = run_view c"
  "run_view (c\<lparr>human_loop := hl\<rparr>) = run_view c" "run_view (c\<lparr>tasks_assigned := n\<rparr>) = run_view c"
  "run_view (c\<lparr>tasks_completed := n\<rparr>) = run_view c" "run_view (c\<lparr>tasks_failed := n\<rparr>) = run_view c"
  "run_view (c\<lparr>events := es\<rparr>) = run_view c"
  by (simp_all add: run_view_def)

lemma run_view_queue: "wal_open q = wal_open (queue c) \<Longrightarrow> run_view (c\<lparr>queue := q\<rparr>) = run_view c"
  by (simp add: run_view_def)

lemma run_view_assign [simp]: "run_view (assign t nid now c) = run_view c"
  by (simp add: assign_def run_view_def)

lemma run_view_schedule [simp]: "run_view (fst (schedule order now secs t c)) = run_view c"
  by (simp add: schedule_def split: option.splits)

lemma run_view_try_assign_loop [simp]: "run_view (fst (try_assign_loop order now secs n c)) = run_view c"
proof (induction n arbitrary: c)
  case (Suc n)
  obtain q r where d: "dequeue '''' (queue c) = (q, r)" by force
  then have q: "run_view (c\<lparr>queue := q\<rparr>) = run_view c"
    using wal_open_queue(2) [of "''''" "queue c"] by (simp add: run_view_queue)
  show ?case
  proof (cases r)
    case (Some t)
    obtain c' r' where s: "schedule order now secs t (c\<lparr>queue := q\<rparr>) = (c', r')" by force
    then have "run_view c' = run_view c"
      using run_view_schedule [of order now secs t "c\<lparr>queue := q\<rparr>"] q by simp
    with s d Some Suc.IH [of c'] show ?thesis
      by (cases r') (simp_all add: run_view_queue split_beta)
  qed (use d q in simp)
qed simp

lemma run_view_try_assign [simp]: "run_view (fst (try_assign order now secs c)) = run_view c"
  by (simp add: try_assign_def)

lemma run_view_poll_loop [simp]: "run_view (fst (poll_loop aff nid now n c)) = run_view c"
proof (induction n arbitrary: c)
  case (Suc n)
  obtain q r where d: "dequeue_for aff (queue c) = (q, r)" by force
  then have q: "wal_open q = wal_open (queue c)"
    using wal_open_queue(7) [of aff "queue c"] by simp
  show ?case
  proof (cases r)
    case None
    with d q show ?thesis by (simp add: run_view_queue)
  next
    case (Some t)
    let ?c = "c\<lparr>queue := fst (acknowledge (task_id t) nid now q), tasks_assigned := tasks_assigned c + 1\<rparr>"
    have "run_view ?c = run_view c" using q by (simp add: run_view_def)
    with Suc.IH [of ?c] d Some show ?thesis by (simp add: Let_def split_beta)
  qed
qed simp

lemma run_view_rounds [simp]:
  "run_view (timeout_one now secs tid c) = run_view c" "run_view (reassign_one now secs tid c) = run_view c"
  by (auto simp: timeout_one_def reassign_one_def Let_def run_view_queue split: option.splits)

lemma run_view_folds:
  "run_view (fold (timeout_one now secs) ids c) = run_view c" "run_view (fold (reassign_one now secs) ids c) = run_view c"
  by (induction ids arbitrary: c) simp_all

lemma run_view_report [simp]: "run_view (fst (report_result fresh now secs tid ok res err c)) = run_view c"
proof -
  have "run_view (escalate_task fresh now tid err c) = run_view c" for c
    by (simp add: escalate_task_def split: option.splits)
  then show ?thesis by (simp add: report_result_def split_beta Let_def run_view_queue)
qed

lemma coord_step_runs: "run_view (coord_step order op c) = run_view c"
  by (cases op) (simp_all add: submit_task_def coord_heartbeat_def poll_tasks_def cancel_task_def timeout_round_def
      cleanup_round_def reassign_round_def run_view_folds run_view_queue split_beta Let_def split: option.splits)


subsection \<open>What the operations of the Raft node report\<close>

text \<open>The callbacks an event stands for: the leadership is gained or lost.\<close>

fun signal :: "raft_event \<Rightarrow> bool list" where
  "signal (LeaderElected nid) = [True]"
| "signal SteppedDown = [False]"
| "signal e = []"

definition signals :: "raft_event list \<Rightarrow> bool list" where
  "signals es = concat (map signal es)"

lemma signals_simps [simp]: "signals [] = []" "signals (e # es) = signal e @ signals es" "signals (es @ fs) = signals es @ signals fs"
  by (simp_all add: signals_def)

text \<open>From \<open>n\<close> to \<open>n'\<close> the node reports exactly the change of its role, if there is one.\<close>

definition reports :: "RaftNode \<Rightarrow> RaftNode \<Rightarrow> bool" where
  "reports n n' \<longleftrightarrow> (\<exists>es. raft_events n' = raft_events n @ es \<and>
     signals es = (if (role n' = LEADER) = (role n = LEADER) then [] else [role n' = LEADER]))"

lemma reports_same: "raft_events n' = raft_events n \<Longrightarrow> role n' = role n \<Longrightarrow> reports n n'"
  by (simp add: reports_def)

lemma reports_follower: "reports n (become_follower t now n)"
  by (simp add: reports_def become_follower_def emit_def Let_def)

lemma reports_request_vote: "reports n (snd (request_vote t cid li lt now n))"
  using reports_follower [of n t now]
  by (auto simp: request_vote_def Let_def reports_def split: if_splits)

lemma frame_apply_committed:
  "raft_events (fst (apply_committed n)) = raft_events n" "role (fst (apply_committed n)) = role n"
proof -
  obtain la sm where "fst (apply_committed n) = n\<lparr>last_applied := la, state_machine := sm\<rparr>"
    using apply_committed_frame by blast
  then show "raft_events (fst (apply_committed n)) = raft_events n" "role (fst (apply_committed n)) = role n"
    by simp_all
qed

lemma frame_apply_committedD: "apply_committed m = (n, r) \<Longrightarrow> raft_events n = raft_events m \<and> role n = role m"
  using frame_apply_committed [of m] by simp

lemma reports_append_entries: "reports n (fst (append_entries es pv pt lc now n))"
  by (rule reports_same) (auto simp: append_entries_def save_log_def Let_def
      dest!: frame_apply_committedD split: prod.splits sum.splits if_splits)

lemma signals_replicated [simp]: "signals (map ReplicatedTo ps) = []"
  by (induction ps) simp_all

lemma reports_replicate: "raft_events m = raft_events n \<Longrightarrow> role m = role n \<Longrightarrow> reports n (replicate_all m)"
  by (simp add: reports_def replicate_all_frame)

lemma reports_propose: "reports n (fst (propose c now n))"
  by (auto simp: propose_def Let_def save_log_def replicate_all_frame reports_def
      dest!: frame_apply_committedD split: prod.splits sum.splits if_splits)

lemma reports_elect: "role n \<noteq> LEADER \<Longrightarrow> reports n (start_election grants now n)"
  by (simp add: reports_def start_election_def become_candidate_def become_leader_def emit_def Let_def)

text \<open>The operations that report: those that leave \<open>go_offline\<close> and the reconnections out.\<close>

fun reported :: "node_op \<Rightarrow> bool" where
  "reported (Message msg now) = True"
| "reported (Elect send now) = True"
| "reported (Apply c now) = True"
| "reported op = False"

lemma reports_message: "reports (raft h) (raft (fst (handle_raft_message msg now h)))"
proof (cases "msg_data msg")
  case (VoteData li lt)
  then show ?thesis
    using reports_request_vote [of "raft h" "msg_term msg" "sender_id msg" "or_default 0 li" "or_default 0 lt" now]
    by (simp add: handle_raft_message_def Let_def split_beta)
next
  case (AppendData es pv pt lc)
  then show ?thesis
    using reports_append_entries [of "raft h" "or_default [] es" "or_default (-1) pv" "or_default 0 pt" "or_default (-1) lc" now]
    by (simp add: handle_raft_message_def Let_def split_beta)
next
  case (HeartbeatData lc)
  then show ?thesis
    by (auto simp: handle_raft_message_def Let_def intro!: reports_same dest!: frame_apply_committedD
        split: prod.splits if_splits)
qed (simp_all add: handle_raft_message_def Let_def reports_same)

lemma reported_reports: "reported op \<Longrightarrow> reports (raft h) (raft (node_step op h))"
proof (cases op)
  case (Elect send now)
  then show ?thesis
    by (auto simp: force_election_def Let_def is_leader_def intro: reports_elect reports_same)
next
  case (Apply c now)
  then show ?thesis
    using reports_propose [of "raft h" c now]
    by (auto simp: apply_cmd_def apply_pending_def Let_def split_beta intro: reports_same)
qed (simp_all add: reports_message)

lemma reported_signals:
  assumes "reported op"
  shows "signals (new_events h (node_step op h)) =
    (if is_leader (node_step op h) = is_leader h then [] else [is_leader (node_step op h)])"
  using reported_reports [OF assms, of h] by (auto simp: reports_def new_events_def is_leader_def)

subsection \<open>What the bridge does of the reports\<close>

definition on_signal :: "event_loop \<Rightarrow> seconds \<Rightarrow> bool \<Rightarrow> bridge_sys \<Rightarrow> bridge_sys" where
  "on_signal loop now b s = (if b then on_leader_elected loop now s else on_step_down loop now s)"

lemma on_signal_hooked [simp]: "bs_hooked (on_signal loop now b s) = bs_hooked s"
  by (simp add: on_signal_def on_leader_elected_def on_step_down_def promote_sync_def demote_sync_def
      create_task_def Let_def split: event_loop.split)

lemma notify_hooked: "bs_hooked s \<Longrightarrow> notify loop now e s = fold (on_signal loop now) (signal e) s"
  by (cases e) (simp_all add: notify_def on_signal_def)

lemma notify_all_hooked:
  "bs_hooked s \<Longrightarrow> fold (notify loop now) es s = fold (on_signal loop now) (signals es) s"
proof (induction es arbitrary: s)
  case (Cons e es)
  have "bs_hooked (fold (on_signal loop now) (signal e) s)"
    using Cons.prems by (cases e) simp_all
  with Cons.IH [OF this] Cons.prems show ?case by (simp add: notify_hooked)
qed simp

lemma notify_all_unhooked: "\<not> bs_hooked s \<Longrightarrow> fold (notify loop now) es s = s"
  by (induction es) (simp_all add: notify_def)

lemma node_call_reported:
  assumes "bs_hooked s" and "reported op"
  shows "node_call loop now op s =
    (if is_leader (node_step op (bs_node s)) = is_leader (bs_node s) then s\<lparr>bs_node := node_step op (bs_node s)\<rparr>
     else on_signal loop now (is_leader (node_step op (bs_node s))) (s\<lparr>bs_node := node_step op (bs_node s)\<rparr>))"
  using assms(1) by (simp add: node_call_def Let_def notify_all_hooked reported_signals [OF assms(2)])

subsection \<open>A registered bridge is never detached\<close>

lemma stop_flags_loops [simp]: "cn_loops (stop_flags cn) = cn_loops cn"
  by (simp add: stop_flags_def split: option.split)

definition hook_ok :: "bridge_sys \<Rightarrow> bool" where
  "hook_ok s \<longleftrightarrow> (bs_hooked s \<longrightarrow> bs_state s \<noteq> DETACHED)"

lemma hook_ok_notify: "hook_ok s \<Longrightarrow> hook_ok (notify loop now e s)"
  by (cases e; cases loop) (simp_all add: hook_ok_def notify_def on_leader_elected_def on_step_down_def
      promote_sync_def demote_sync_def create_task_def Let_def)

lemma hook_ok_notify_all: "hook_ok s \<Longrightarrow> hook_ok (fold (notify loop now) es s)"
  by (induction es arbitrary: s) (simp_all add: hook_ok_notify)

lemma hook_ok_stop: "hook_ok s \<Longrightarrow> hook_ok (stop_start d s)" "hook_ok s \<Longrightarrow> hook_ok (stop_finish d s)"
  by (simp_all add: hook_ok_def stop_start_def stop_finish_def create_task_def Let_def)

lemma hook_ok_run_task: "hook_ok s \<Longrightarrow> hook_ok (run_task env t s)"
  by (cases t) (simp_all add: hook_ok_stop, auto simp: hook_ok_def promote_start_def promote_wake_def promoted_def
      create_task_def Let_def split: prod.split)

lemma hook_ok_step:
  assumes "bridge_step s s'" and "hook_ok s"
  shows "hook_ok s'"
  using assms
proof cases
  case (Run i env)
  with assms(2) show ?thesis
    by (simp add: run_nth_def) (rule hook_ok_run_task, simp add: hook_ok_def)
next
  case (Node loop now op)
  with assms(2) show ?thesis
    by (simp add: node_call_def Let_def) (rule hook_ok_notify_all, simp add: hook_ok_def)
next
  case (Force_promotion env)
  with assms(2) hook_ok_run_task [of s env Promote_start] show ?thesis by (simp add: force_promotion_def)
qed (use assms(2) in \<open>auto simp: hook_ok_def attach_def detach_def create_task_def force_demotion_def
    hook_ok_stop [unfolded hook_ok_def]\<close>)

definition bridge_reachable :: "HybridNode \<Rightarrow> coord_node \<Rightarrow> bridge_sys \<Rightarrow> bool" where
  "bridge_reachable h cn s \<longleftrightarrow> bridge_step\<^sup>*\<^sup>* (new_bridge h cn) s"

lemma bridge_reachable_step: "bridge_reachable h cn s \<Longrightarrow> bridge_step s s' \<Longrightarrow> bridge_reachable h cn s'"
  by (simp add: bridge_reachable_def)

lemma reachable_hook_ok: "bridge_reachable h cn s \<Longrightarrow> hook_ok s"
  unfolding bridge_reachable_def
proof (induction rule: rtranclp_induct)
  case base
  show ?case by (simp add: new_bridge_def hook_ok_def)
qed (rule hook_ok_step)

subsection \<open>The calm runs\<close>

text \<open>
  Runs in which the event loop finishes the coroutines of one report before the next one comes,
  every start succeeds, and the role changes only by elections and messages.
\<close>

fun settle :: "task_env \<Rightarrow> nat \<Rightarrow> bridge_sys \<Rightarrow> bridge_sys" where
  "settle env 0 s = s"
| "settle env (Suc n) s = (if bs_tasks s = [] then s else settle env n (run_nth env 0 s))"

datatype calm_op = Report node_op seconds task_env | Client_op "string set \<Rightarrow> string list" coord_op

fun calm_step :: "calm_op \<Rightarrow> bridge_sys \<Rightarrow> bridge_sys" where
  "calm_step (Report op now env) s = settle env 2 (node_call Loop_running now op s)"
| "calm_step (Client_op order op) s =
     s\<lparr>bs_coord := (bs_coord s)\<lparr>cn_parts := map_option (coord_step order op) (cn_parts (bs_coord s))\<rparr>\<rparr>"

fun calm_ok :: "calm_op \<Rightarrow> bool" where
  "calm_ok (Report op now env) \<longleftrightarrow> reported op \<and> \<not> te_fails env"
| "calm_ok (Client_op order op) \<longleftrightarrow> True"

definition leading :: "bridge_sys \<Rightarrow> bool" where
  "leading s \<longleftrightarrow> bs_state s = ACTIVE \<and> cn_loops (bs_coord s) > 0 \<and>
     map_option run_view (cn_parts (bs_coord s)) = Some (True, Coordinator.ACTIVE, True)"

definition following :: "bridge_sys \<Rightarrow> bool" where
  "following s \<longleftrightarrow> bs_state s = STANDBY \<and> \<not> cn_running (bs_coord s)"

definition follows_raft :: "bridge_sys \<Rightarrow> bool" where
  "follows_raft s \<longleftrightarrow> bs_tasks s = [] \<and> bs_hooked s \<and>
     (if is_leader (bs_node s) then leading s else following s)"

lemma run_view_start [simp]: "run_view (start cfg nows clks w) = (True, Coordinator.ACTIVE, True)"
  by (simp add: start_def run_view_def init_queue_def empty_queue_def wal_replay_lines)

lemma start_coordinator_runs:
  assumes "\<not> cn_running cn"
  shows "\<exists>cn'. start_coordinator nows clks False cn = (cn', True) \<and> cn_loops cn' > 0 \<and>
    map_option run_view (cn_parts cn') = Some (True, Coordinator.ACTIVE, True)"
proof (cases "cn_parts cn")
  case (Some c)
  have "run_view (start (cn_config cn) nows clks (wal (queue c))) = (True, Coordinator.ACTIVE, True)" by simp
  with assms Some show ?thesis by (simp add: start_coordinator_def run_view_def)
qed (use assms in \<open>simp add: start_coordinator_def\<close>)

lemma settle_promotion:
  assumes "bs_tasks s = []" and "\<not> cn_running (bs_coord s)" and "\<not> te_fails env"
  shows "\<exists>s'. settle env 2 (on_leader_elected Loop_running now s) = s' \<and> leading s' \<and> bs_tasks s' = [] \<and>
    bs_hooked s' = bs_hooked s \<and> bs_node s' = bs_node s"
proof -
  obtain cn' where cn: "start_coordinator (te_nows env) (te_clks env) False (bs_coord s) = (cn', True)"
    "cn_loops cn' > 0" "map_option run_view (cn_parts cn') = Some (True, Coordinator.ACTIVE, True)"
    using start_coordinator_runs [OF assms(2)] by blast
  then obtain c where c: "cn_parts cn' = Some c" "run_view c = (True, Coordinator.ACTIVE, True)" by auto
  let ?s1 = "on_leader_elected Loop_running now s"
  have s1: "bs_tasks ?s1 = [Promote_start]"
    using assms(1) by (simp add: on_leader_elected_def create_task_def Let_def)
  let ?s2 = "run_nth env 0 ?s1"
  have s2: "?s2 = s\<lparr>bs_state := TRANSITIONING, bs_last := Some now, bs_coord := cn', bs_tasks := [Promote_wake]\<rparr>"
    using assms(1,3) cn(1) c by (simp add: run_nth_def promote_start_def on_leader_elected_def create_task_def Let_def)
  have "leading (run_nth env 0 ?s2) \<and> bs_tasks (run_nth env 0 ?s2) = [] \<and>
      bs_hooked (run_nth env 0 ?s2) = bs_hooked s \<and> bs_node (run_nth env 0 ?s2) = bs_node s"
    unfolding s2 using cn(2) c by (simp add: run_nth_def promote_wake_def promoted_def leading_def)
  with s1 s2 show ?thesis by (simp add: numeral_2_eq_2)
qed

lemma settle_demotion:
  assumes "bs_tasks s = []" and "leading s"
  shows "\<exists>s'. settle env 2 (on_step_down Loop_running now s) = s' \<and> following s' \<and> bs_tasks s' = [] \<and>
    bs_hooked s' = bs_hooked s \<and> bs_node s' = bs_node s"
proof -
  from assms(2) obtain c where c: "cn_parts (bs_coord s) = Some c" "cn_loops (bs_coord s) > 0"
    by (auto simp: leading_def)
  let ?s1 = "on_step_down Loop_running now s"
  have s1: "bs_tasks ?s1 = [Stop_start True]"
    using assms(1) by (simp add: on_step_down_def create_task_def Let_def)
  let ?s2 = "run_nth env 0 ?s1"
  have s2: "?s2 = s\<lparr>bs_state := TRANSITIONING, bs_last := Some now, bs_coord := stop_flags (bs_coord s),
      bs_stepdowns := bs_stepdowns s + 1, bs_tasks := [Stop_finish True]\<rparr>"
    using assms(1) c by (simp add: run_nth_def stop_start_def on_step_down_def create_task_def Let_def)
  have "following (run_nth env 0 ?s2) \<and> bs_tasks (run_nth env 0 ?s2) = [] \<and>
      bs_hooked (run_nth env 0 ?s2) = bs_hooked s \<and> bs_node (run_nth env 0 ?s2) = bs_node s"
    unfolding s2 using c by (simp add: run_nth_def stop_finish_def following_def stop_close_def stop_flags_def cn_running_def Let_def)
  with s1 s2 show ?thesis by (simp add: numeral_2_eq_2)
qed

lemma settle_nothing: "bs_tasks s = [] \<Longrightarrow> settle env n s = s"
  by (cases n) simp_all

lemma leading_node [simp]: "leading (s\<lparr>bs_node := h\<rparr>) = leading s" "following (s\<lparr>bs_node := h\<rparr>) = following s"
  by (simp_all add: leading_def following_def)

lemma follows_report:
  assumes s: "follows_raft s" and ok: "reported op" "\<not> te_fails env"
  shows "follows_raft (settle env 2 (node_call Loop_running now op s))"
proof -
  let ?h = "node_step op (bs_node s)" and ?t = "s\<lparr>bs_node := node_step op (bs_node s)\<rparr>"
  have call: "node_call Loop_running now op s = (if is_leader ?h = is_leader (bs_node s) then ?t
      else on_signal Loop_running now (is_leader ?h) ?t)"
    using s by (intro node_call_reported ok(1)) (simp add: follows_raft_def)
  show ?thesis
  proof (cases "is_leader ?h = is_leader (bs_node s)")
    case True
    with s show ?thesis by (simp add: call settle_nothing follows_raft_def)
  next
    case False
    then consider "is_leader ?h" "\<not> is_leader (bs_node s)" | "\<not> is_leader ?h" "is_leader (bs_node s)" by blast
    then show ?thesis
    proof cases
      case 1
      with s have "bs_tasks ?t = []" "\<not> cn_running (bs_coord ?t)" by (simp_all add: follows_raft_def following_def)
      from settle_promotion [OF this ok(2), of now] 1 s show ?thesis
        by (auto simp: call on_signal_def follows_raft_def)
    next
      case 2
      with s have "bs_tasks ?t = []" "leading ?t" by (simp_all add: follows_raft_def)
      from settle_demotion [OF this, of env now] 2 s show ?thesis
        by (auto simp: call on_signal_def follows_raft_def)
    qed
  qed
qed

lemma follows_client: "follows_raft s \<Longrightarrow> follows_raft (calm_step (Client_op order op) s)"
proof -
  have "running (coord_step order op c) = running c" for c
    using coord_step_runs [of order op c] by (simp add: run_view_def)
  then show "follows_raft s \<Longrightarrow> ?thesis"
    by (auto simp: follows_raft_def leading_def following_def cn_running_def option.map_comp comp_def coord_step_runs
        split: option.splits)
qed

interpretation calm: guarded_system calm_step calm_ok follows_raft
proof
  fix op s
  assume "follows_raft s" "calm_ok op"
  then show "follows_raft (calm_step op s)"
    by (cases op) (simp_all add: follows_report follows_client del: settle.simps calm_step.simps(2))
qed

text \<open>Attached to a node that leads already, the bridge waits for an election that need not come: it stays on
standby and starts nothing as long as the node leads.\<close>

lemma attached_to_leader_idle:
  assumes "is_leader h" and "reported op" and "is_leader (node_step op h)"
  shows "let s = node_call Loop_running now op (attach (new_bridge h cn))
    in is_leader (bs_node s) \<and> bridge_is_standby s \<and> bs_tasks s = [] \<and> bs_coord s = cn"
proof -
  let ?s = "attach (new_bridge h cn)"
  have s: "bs_hooked ?s" "bs_node ?s = h" "bs_state ?s = STANDBY" "bs_tasks ?s = []" "bs_coord ?s = cn"
    by (simp_all add: attach_def new_bridge_def)
  from node_call_reported [OF s(1) assms(2), of Loop_running now] assms(1,3) s
  show ?thesis by (simp add: bridge_is_standby_def Let_def)
qed

text \<open>C25: Let the bridge be attached while its node is not the leader and its coordinator does not run. When the
coroutines of one change of the leadership end before the next one comes, no start of the
coordinator fails and the node does not go offline, the bridge is active, and its coordinator
runs, exactly while the node is the Raft leader, whatever messages, elections, commands and
calls of the coordinator's operations there are. (Attached to a node that leads already, the bridge
starts nothing: \<open>attached_to_leader_idle\<close>.)\<close>

theorem bridge_follows_leader:
  assumes "\<not> is_leader h" and "\<not> cn_running cn" and "list_all calm_ok ops"
  shows "let s = fold calm_step ops (attach (new_bridge h cn))
    in bs_tasks s = [] \<and> bridge_is_active s = is_leader (bs_node s) \<and>
       bridge_is_standby s = (\<not> is_leader (bs_node s)) \<and> cn_is_active (bs_coord s) = is_leader (bs_node s)"
proof -
  let ?s = "fold calm_step ops (attach (new_bridge h cn))"
  have "follows_raft (attach (new_bridge h cn))"
    using assms(1,2) by (simp add: attach_def new_bridge_def follows_raft_def following_def)
  from calm.guarded_run [OF this assms(3)] have s: "follows_raft ?s" .
  show ?thesis
  proof (cases "is_leader (bs_node ?s)")
    case True
    with s show ?thesis
      by (auto simp: follows_raft_def leading_def bridge_is_active_def bridge_is_standby_def cn_is_active_def
          run_view_def Let_def)
  next
    case False
    with s show ?thesis
      by (auto simp: follows_raft_def following_def bridge_is_active_def bridge_is_standby_def cn_is_active_def
          cn_running_def Let_def split: option.splits)
  qed
qed

definition demo_task_env :: task_env where
  "demo_task_env = \<lparr>te_nows = (\<lambda>n. 0), te_clks = (\<lambda>n. 0), te_fails = False, te_order = (\<lambda>s. []), te_now = 0, te_secs = 0\<rparr>"

definition demo_coord :: coord_node where
  "demo_coord = new_coordinator \<lparr>cfg_node_id = ''n1'', cfg_heartbeat_ttl = 30, cfg_max_task_retries = 3,
     cfg_task_timeout = 600, cfg_enable_human_loop = False, cfg_escalation_threshold = 2, cfg_auto_reassign = True\<rparr> []"

definition demo_hybrid :: HybridNode where
  "demo_hybrid = new_hybrid (init_node ''n1'' [''n2''] [] [] 0)"

definition elect_demo :: node_op where
  "elect_demo = Elect (\<lambda>addr msg. None) 1"

theorem bridge_follows_leader_witness:
  "let s = fold calm_step [Report elect_demo 1 demo_task_env] (attach (new_bridge demo_hybrid demo_coord))
    in bridge_is_active s \<and> cn_is_active (bs_coord s)"
proof -
  let ?ops = "[Report elect_demo 1 demo_task_env]"
  let ?s = "fold calm_step ?ops (attach (new_bridge demo_hybrid demo_coord))"
  have "let s = ?s in bs_tasks s = [] \<and> bridge_is_active s = is_leader (bs_node s) \<and>
       bridge_is_standby s = (\<not> is_leader (bs_node s)) \<and> cn_is_active (bs_coord s) = is_leader (bs_node s)"
    by (rule bridge_follows_leader)
      (simp_all add: demo_hybrid_def new_hybrid_def init_node_def is_leader_def demo_coord_def new_coordinator_def
        cn_running_def elect_demo_def demo_task_env_def)
  moreover have "is_leader (bs_node ?s)"
    by code_simp
  ultimately show ?thesis by (simp add: Let_def)
qed


subsection \<open>Interleavings that break it\<close>

text \<open>The event loop runs the waiting tasks at the given positions, one after the other.\<close>

definition run_order :: "task_env \<Rightarrow> nat list \<Rightarrow> bridge_sys \<Rightarrow> bridge_sys" where
  "run_order env is s = fold (run_nth env) is s"

text \<open>A leader that loses its leadership during the pause of its promotion: the demotion ends
  first, and the promotion declares the stopped coordinator active.\<close>

lemma node_call_up:
  assumes "bs_hooked s" and "reported op" and "\<not> is_leader (bs_node s)" and "is_leader (node_step op (bs_node s))"
  shows "node_call Loop_running now op s = s\<lparr>bs_node := node_step op (bs_node s), bs_state := TRANSITIONING,
    bs_last := Some now, bs_tasks := bs_tasks s @ [Promote_start]\<rparr>"
  using assms(3,4) by (simp add: node_call_reported [OF assms(1,2)] on_signal_def on_leader_elected_def create_task_def Let_def)

lemma node_call_down:
  assumes "bs_hooked s" and "reported op" and "is_leader (bs_node s)" and "\<not> is_leader (node_step op (bs_node s))"
  shows "node_call Loop_running now op s = s\<lparr>bs_node := node_step op (bs_node s), bs_state := TRANSITIONING,
    bs_last := Some now, bs_tasks := bs_tasks s @ [Stop_start True]\<rparr>"
  using assms(3,4) by (simp add: node_call_reported [OF assms(1,2)] on_signal_def on_step_down_def create_task_def Let_def)

text \<open>The promotion up to its pause.\<close>

lemma promotion_begins:
  assumes s: "bs_hooked s" "bs_tasks s = ts" "\<not> cn_running (bs_coord s)" and env: "\<not> te_fails env"
    and op: "reported op" "\<not> is_leader (bs_node s)" "is_leader (node_step op (bs_node s))"
  obtains cn' c where "run_nth env (length ts) (node_call Loop_running now op s) =
      s\<lparr>bs_node := node_step op (bs_node s), bs_state := TRANSITIONING, bs_last := Some now, bs_coord := cn',
        bs_tasks := ts @ [Promote_wake]\<rparr>"
    and "cn_loops cn' > 0" and "cn_parts cn' = Some c" and "run_view c = (True, Coordinator.ACTIVE, True)"
proof -
  obtain cn' where cn: "start_coordinator (te_nows env) (te_clks env) False (bs_coord s) = (cn', True)"
    "cn_loops cn' > 0" "map_option run_view (cn_parts cn') = Some (True, Coordinator.ACTIVE, True)"
    using start_coordinator_runs [OF s(3)] by blast
  then obtain c where c: "cn_parts cn' = Some c" "run_view c = (True, Coordinator.ACTIVE, True)" by auto
  have "run_nth env (length ts) (node_call Loop_running now op s) =
      s\<lparr>bs_node := node_step op (bs_node s), bs_state := TRANSITIONING, bs_last := Some now, bs_coord := cn',
        bs_tasks := ts @ [Promote_wake]\<rparr>"
    using s env cn(1) c
    by (simp add: node_call_up [OF s(1) op] run_nth_def nth_append promote_start_def create_task_def Let_def)
  with cn(2) c that show thesis by blast
qed

theorem interrupted_promotion:
  assumes s: "follows_raft s" "\<not> is_leader (bs_node s)" and env: "\<not> te_fails env"
    and up: "reported up" "is_leader (node_step up (bs_node s))"
    and down: "reported down" "\<not> is_leader (node_step down (node_step up (bs_node s)))"
  shows "let s' = run_order env [1, 1, 0] (node_call Loop_running t2 down (run_order env [0] (node_call Loop_running t1 up s)))
    in bs_tasks s' = [] \<and> bridge_is_active s' \<and> \<not> is_leader (bs_node s') \<and> \<not> cn_is_active (bs_coord s') \<and>
       force_promotion env s' = (s', Some True)"
proof -
  from s have f: "bs_hooked s" "bs_tasks s = []" "\<not> cn_running (bs_coord s)"
    by (simp_all add: follows_raft_def following_def)
  obtain cn c where s1: "run_nth env 0 (node_call Loop_running t1 up s) =
      s\<lparr>bs_node := node_step up (bs_node s), bs_state := TRANSITIONING, bs_last := Some t1, bs_coord := cn,
        bs_tasks := [Promote_wake]\<rparr>" (is "_ = ?s1")
    and cn: "cn_loops cn > 0" "cn_parts cn = Some c"
    by (rule promotion_begins [OF f(1-3) env up(1) s(2) up(2), of t1]) (rule that, simp_all)
  have s2: "node_call Loop_running t2 down ?s1 = ?s1\<lparr>bs_node := node_step down (node_step up (bs_node s)),
      bs_last := Some t2, bs_tasks := [Promote_wake, Stop_start True]\<rparr>" (is "_ = ?s2")
    using node_call_down [of ?s1 down t2] f(1) up(2) down by simp
  have s3: "run_nth env 1 ?s2 = ?s2\<lparr>bs_coord := stop_flags cn, bs_stepdowns := bs_stepdowns s + 1,
      bs_tasks := [Promote_wake, Stop_finish True]\<rparr>" (is "_ = ?s3")
    using cn by (simp add: run_nth_def stop_start_def create_task_def Let_def)
  have s4: "run_nth env 1 ?s3 = ?s3\<lparr>bs_coord := stop_close (stop_flags cn), bs_state := STANDBY,
      bs_tasks := [Promote_wake]\<rparr>" (is "_ = ?s4")
    by (simp add: run_nth_def stop_finish_def Let_def)
  let ?c = "fst (try_assign (te_order env) (te_now env) (te_secs env) (stop c))"
  have s5: "run_nth env 0 ?s4 = ?s4\<lparr>bs_coord := (stop_close (stop_flags cn))\<lparr>cn_parts := Some ?c\<rparr>,
      bs_state := ACTIVE, bs_promotions := bs_promotions s + 1, bs_tasks := []\<rparr>"
    using cn by (simp add: run_nth_def promote_wake_def promoted_def stop_is_stop)
  have "run_view ?c = run_view (stop c)" by simp
  then have "\<not> running ?c" by (simp add: run_view_def stop_def)
  then show ?thesis
    using down(2) unfolding run_order_def fold_simps comp_apply id_apply s1 s2 s3 s4 s5
    by (simp add: bridge_is_active_def cn_is_active_def force_promotion_def)
qed


definition step_down_demo :: node_op where
  "step_down_demo = Message \<lparr>sender_id = ''n2'', msg_term = 9, msg_data = VoteData (Some 0) (Some 1)\<rparr> 2"

lemma demo_follows: "follows_raft (attach (new_bridge demo_hybrid demo_coord))"
  by (simp add: follows_raft_def following_def attach_def new_bridge_def demo_hybrid_def new_hybrid_def
      init_node_def is_leader_def demo_coord_def new_coordinator_def cn_running_def)

lemma demo_roles:
  "\<not> is_leader (bs_node (attach (new_bridge demo_hybrid demo_coord)))"
  "is_leader (node_step elect_demo (bs_node (attach (new_bridge demo_hybrid demo_coord))))"
  "\<not> is_leader (node_step step_down_demo (node_step elect_demo (bs_node (attach (new_bridge demo_hybrid demo_coord)))))"
  "is_leader (node_step elect_demo (node_step step_down_demo
     (node_step elect_demo (bs_node (attach (new_bridge demo_hybrid demo_coord))))))"
  "reported elect_demo" "reported step_down_demo" "\<not> te_fails demo_task_env"
  by code_simp+

theorem interrupted_promotion_witness:
  "let s = attach (new_bridge demo_hybrid demo_coord);
       s' = run_order demo_task_env [1, 1, 0] (node_call Loop_running 2 step_down_demo
         (run_order demo_task_env [0] (node_call Loop_running 1 elect_demo s)))
    in bridge_is_active s' \<and> \<not> cn_is_active (bs_coord s')"
  using interrupted_promotion [OF demo_follows demo_roles(1,7,5,2,6,3), of 2 1] by (simp add: Let_def)

text \<open>When a node is elected again while the stop of its coordinator waits for the background tasks,
  the coordinator starts anew and then the stop closes the log of the new queue: the node leads
  with an active coordinator whose tasks are no longer logged.\<close>

theorem reelection_closes_log:
  assumes s: "follows_raft s" "\<not> is_leader (bs_node s)" and env: "\<not> te_fails env"
    and up: "reported up" "is_leader (node_step up (bs_node s))"
    and down: "reported down" "\<not> is_leader (node_step down (node_step up (bs_node s)))"
    and again: "reported again" "is_leader (node_step again (node_step down (node_step up (bs_node s))))"
  shows "let s' = run_order env [2, 1, 0, 0] (node_call Loop_running t3 again
      (run_order env [1] (node_call Loop_running t2 down
      (run_order env [0] (node_call Loop_running t1 up s)))))
    in bs_tasks s' = [] \<and> bridge_is_active s' \<and> is_leader (bs_node s') \<and> cn_is_active (bs_coord s') \<and>
       map_option (\<lambda>c. wal_open (queue c)) (cn_parts (bs_coord s')) = Some False"
proof -
  from s have f: "bs_hooked s" "bs_tasks s = []" "\<not> cn_running (bs_coord s)"
    by (simp_all add: follows_raft_def following_def)
  obtain cn c where s1: "run_nth env 0 (node_call Loop_running t1 up s) =
      s\<lparr>bs_node := node_step up (bs_node s), bs_state := TRANSITIONING, bs_last := Some t1, bs_coord := cn,
        bs_tasks := [Promote_wake]\<rparr>" (is "_ = ?s1")
    and cn: "cn_loops cn > 0" "cn_parts cn = Some c"
    by (rule promotion_begins [OF f(1-3) env up(1) s(2) up(2), of t1]) (rule that, simp_all)
  have s2: "node_call Loop_running t2 down ?s1 = ?s1\<lparr>bs_node := node_step down (node_step up (bs_node s)),
      bs_last := Some t2, bs_tasks := [Promote_wake, Stop_start True]\<rparr>" (is "_ = ?s2")
    using node_call_down [of ?s1 down t2] f(1) up(2) down by simp
  have s3: "run_nth env 1 ?s2 = ?s2\<lparr>bs_coord := stop_flags cn, bs_stepdowns := bs_stepdowns s + 1,
      bs_tasks := [Promote_wake, Stop_finish True]\<rparr>" (is "_ = ?s3")
    using cn by (simp add: run_nth_def stop_start_def create_task_def Let_def)
  have f3: "bs_hooked ?s3" "bs_tasks ?s3 = [Promote_wake, Stop_finish True]" "\<not> cn_running (bs_coord ?s3)"
      "\<not> is_leader (bs_node ?s3)" "is_leader (node_step again (bs_node ?s3))"
    using f(1) cn down again by (simp_all add: stop_flags_def cn_running_def)
  obtain cn' c' where s4: "run_nth env 2 (node_call Loop_running t3 again ?s3) =
      ?s3\<lparr>bs_node := node_step again (bs_node ?s3), bs_state := TRANSITIONING, bs_last := Some t3, bs_coord := cn',
        bs_tasks := [Promote_wake, Stop_finish True, Promote_wake]\<rparr>" (is "_ = ?s4")
    and cn': "cn_parts cn' = Some c'" "run_view c' = (True, Coordinator.ACTIVE, True)"
    by (rule promotion_begins [OF f3(1-3) env again(1) f3(4,5), of t3]) (rule that, simp_all add: numeral_2_eq_2)
  have s5: "run_nth env 1 ?s4 = ?s4\<lparr>bs_coord := stop_close cn', bs_state := STANDBY,
      bs_tasks := [Promote_wake, Promote_wake]\<rparr>" (is "_ = ?s5")
    by (simp add: run_nth_def stop_finish_def Let_def)
  let ?c = "fst (try_assign (te_order env) (te_now env) (te_secs env) (c'\<lparr>queue := close (queue c')\<rparr>))"
  have s6: "run_nth env 0 ?s5 = ?s5\<lparr>bs_coord := (stop_close cn')\<lparr>cn_parts := Some ?c\<rparr>,
      bs_state := ACTIVE, bs_promotions := bs_promotions s + 1, bs_tasks := [Promote_wake]\<rparr>" (is "_ = ?s6")
    using cn'(1) by (simp add: run_nth_def promote_wake_def promoted_def stop_close_def)
  let ?d = "fst (try_assign (te_order env) (te_now env) (te_secs env) ?c)"
  have s7: "run_nth env 0 ?s6 = ?s6\<lparr>bs_coord := (stop_close cn')\<lparr>cn_parts := Some ?d\<rparr>,
      bs_promotions := bs_promotions s + 2, bs_tasks := []\<rparr>"
    by (simp add: run_nth_def promote_wake_def promoted_def)
  have "run_view ?d = run_view (c'\<lparr>queue := close (queue c')\<rparr>)" by simp
  then have d: "running ?d" "coord_status ?d = Coordinator.ACTIVE" "\<not> wal_open (queue ?d)"
    using cn'(2) by (simp_all add: run_view_def close_def compact_wal_def)
  show ?thesis
    using f3(5) d unfolding run_order_def fold_simps comp_apply id_apply s1 s2 s3 s4 s5 s6 s7
    by (simp add: bridge_is_active_def cn_is_active_def)
qed

theorem reelection_closes_log_witness:
  "let s = attach (new_bridge demo_hybrid demo_coord);
       s' = run_order demo_task_env [2, 1, 0, 0] (node_call Loop_running 3 elect_demo
      (run_order demo_task_env [1] (node_call Loop_running 2 step_down_demo
      (run_order demo_task_env [0] (node_call Loop_running 1 elect_demo s)))))
    in cn_is_active (bs_coord s') \<and> map_option (\<lambda>c. wal_open (queue c)) (cn_parts (bs_coord s')) = Some False"
  using reelection_closes_log [OF demo_follows demo_roles(1,7,5,2,6,3,5,4), of 3 2 1] by (simp add: Let_def)


text \<open>A promotion that ends after the bridge was detached leaves it active without callbacks,
  and \<open>attach\<close> then refuses.\<close>

lemma promotion_after_detach:
  assumes s: "follows_raft s" "\<not> is_leader (bs_node s)" and env: "\<not> te_fails env"
    and up: "reported up" "is_leader (node_step up (bs_node s))"
  shows "let s' = run_order env [0] (detach loop (run_order env [0] (node_call Loop_running t1 up s)))
    in bs_tasks s' = [] \<and> bridge_is_active s' \<and> \<not> bs_hooked s' \<and> attach s' = s'"
proof -
  from s have f: "bs_hooked s" "bs_tasks s = []" "\<not> cn_running (bs_coord s)"
    by (simp_all add: follows_raft_def following_def)
  obtain cn c where s1: "run_nth env 0 (node_call Loop_running t1 up s) =
      s\<lparr>bs_node := node_step up (bs_node s), bs_state := TRANSITIONING, bs_last := Some t1, bs_coord := cn,
        bs_tasks := [Promote_wake]\<rparr>"
    by (rule promotion_begins [OF f(1-3) env up(1) s(2) up(2), of t1]) (rule that, simp_all)
  show ?thesis
    unfolding run_order_def fold_simps comp_apply id_apply s1
    by (simp add: detach_def run_nth_def promote_wake_def promoted_def bridge_is_active_def attach_def)
qed

text \<open>Detaching an active bridge outside of a running loop does not stop the coordinator.\<close>

lemma detach_without_loop:
  "loop \<noteq> Loop_running \<Longrightarrow> bs_coord (detach loop s) = bs_coord s \<and> bs_tasks (detach loop s) = bs_tasks s"
  by (simp add: detach_def)

subsection \<open>Without a running event loop\<close>

lemma notify_no_loop:
  "loop \<noteq> Loop_running \<Longrightarrow> bs_coord (notify loop now e s) = bs_coord s \<and> bs_tasks (notify loop now e s) = bs_tasks s"
  by (cases e; cases loop) (simp_all add: notify_def on_leader_elected_def on_step_down_def promote_sync_def demote_sync_def Let_def)

lemma notify_all_no_loop:
  "loop \<noteq> Loop_running \<Longrightarrow> bs_coord (fold (notify loop now) es s) = bs_coord s \<and>
     bs_tasks (fold (notify loop now) es s) = bs_tasks s"
  by (induction es arbitrary: s) (simp_all add: notify_no_loop)

text \<open>When the Raft node calls back from a thread without a running loop, the coordinator is
  never started nor stopped, whatever happens to the leadership.\<close>

theorem no_loop_no_coordinator:
  "let s' = fold (\<lambda>(now, op). node_call (if missing then Loop_missing else Loop_idle) now op) ops s
    in bs_coord s' = bs_coord s \<and> bs_tasks s' = bs_tasks s"
proof (induction ops arbitrary: s)
  case (Cons p ops)
  obtain now op where p: "p = (now, op)" by force
  let ?l = "if missing then Loop_missing else Loop_idle"
  have "bs_coord (node_call ?l now op s) = bs_coord s \<and> bs_tasks (node_call ?l now op s) = bs_tasks s"
    using notify_all_no_loop [of ?l now] by (simp add: node_call_def Let_def)
  with Cons.IH [of "node_call ?l now op s"] p show ?case by (simp add: Let_def)
qed simp

subsection \<open>A leader that goes offline\<close>

fun is_Elect :: "node_op \<Rightarrow> bool" where
  "is_Elect (Elect send now) = True"
| "is_Elect op = False"

text \<open>Only an election makes a leader, and only a report wakes the bridge.\<close>

lemma silent_ops:
  assumes "\<not> is_leader h" and "\<not> is_Elect op"
  shows "\<not> is_leader (node_step op h)" and "signals (new_events h (node_step op h)) = []"
proof -
  have "\<not> is_leader (node_step op h) \<and> signals (new_events h (node_step op h)) = []"
  proof (cases "reported op")
    case True
    have "\<not> is_leader (node_step op h)"
    proof (cases op)
      case (Message msg now)
      have n: "role (raft h) \<noteq> LEADER" using assms(1) by (simp add: is_leader_def)
      then have "role (snd (request_vote t cid li lt now (raft h))) \<noteq> LEADER" for t cid li lt
        by (simp add: request_vote_def become_follower_def emit_def Let_def)
      moreover have "role (fst (append_entries es pv pt lc now (raft h))) = role (raft h)" for es pv pt lc
        by (auto simp: append_entries_def save_log_def Let_def dest!: frame_apply_committedD
            split: prod.splits sum.splits if_splits)
      ultimately show ?thesis
        using n by (auto simp: Message handle_raft_message_def is_leader_def Let_def split_beta frame_apply_committed
            split: raft_data.splits)
    next
      case (Apply c now)
      with assms(1) show ?thesis
        by (auto simp: apply_cmd_def apply_pending_def propose_def is_leader_def Let_def split_beta)
    qed (use assms True in simp_all)
    with reported_signals [OF True, of h] assms(1) show ?thesis by simp
  next
    case False
    have "raft_events (fst (sync_log leader n)) = raft_events n" "role (fst (sync_log leader n)) = role n" for leader n
      by (simp_all add: sync_log_def frame_apply_committed)
    then have sync: "raft_events n' = raft_events n \<and> role n' = role n" if "sync_log leader n = (n', r)" for leader n n' r
      using that by (metis fst_conv)
    from False have "role (raft (node_step op h)) \<noteq> LEADER \<and> raft_events (raft (node_step op h)) = raft_events (raft h)"
      using assms(1) by (cases op)
        (auto simp: go_offline_def go_online_def reconnect_def is_leader_def save_snapshot_def Let_def
          dest!: sync split: prod.splits sum.splits)
    then show ?thesis by (simp add: is_leader_def new_events_def)
  qed
  then show "\<not> is_leader (node_step op h)" "signals (new_events h (node_step op h)) = []" by simp_all
qed


lemma node_call_silent:
  assumes "\<not> is_leader (bs_node s)" and "\<not> is_Elect op"
  shows "node_call loop now op s = s\<lparr>bs_node := node_step op (bs_node s)\<rparr>"
proof (cases "bs_hooked s")
  case True
  then show ?thesis by (simp add: node_call_def Let_def notify_all_hooked silent_ops [OF assms])
qed (simp add: node_call_def Let_def notify_all_unhooked)

text \<open>C24: A leader that goes offline keeps its coordinator: the role changes without a callback, and
  until the node takes part in an election again nothing that it receives, applies or
  synchronises stops the coordinator, so that it runs beside the one of the next leader.\<close>

theorem offline_leader_keeps_coordinator:
  assumes "follows_raft s" and "is_leader (bs_node s)" and "list_all (\<lambda>(now, op). \<not> is_Elect op) ops"
  shows "let s' = fold (\<lambda>(now, op). node_call loop now op) ((t, Go_offline) # ops) s
    in \<not> is_leader (bs_node s') \<and> bridge_is_active s' \<and> cn_is_active (bs_coord s') \<and> bs_tasks s' = []"
proof -
  have *: "\<exists>h. \<not> is_leader h \<and> fold (\<lambda>(now, op). node_call loop now op) ops u = u\<lparr>bs_node := h\<rparr>"
    if "\<not> is_leader (bs_node u)" and "list_all (\<lambda>(now, op). \<not> is_Elect op) ops" for u ops
    using that
  proof (induction ops arbitrary: u)
    case (Cons p ops)
    obtain now op where p: "p = (now, op)" by force
    let ?u = "u\<lparr>bs_node := node_step op (bs_node u)\<rparr>"
    from Cons.prems p have "node_call loop now op u = ?u" "\<not> is_leader (bs_node ?u)"
      by (simp_all add: node_call_silent silent_ops)
    with Cons.IH [of ?u] Cons.prems(2) p show ?case by auto
  qed (auto intro!: exI [of _ "bs_node _"])
  let ?u = "node_call loop t Go_offline s"
  have u: "?u = s\<lparr>bs_node := go_offline (bs_node s)\<rparr>"
    by (simp add: node_call_def new_events_def go_offline_def Let_def)
  have "\<not> is_leader (bs_node ?u)"
    by (simp add: u go_offline_def is_leader_def)
  from * [OF this assms(3)] obtain h where "\<not> is_leader h"
    "fold (\<lambda>(now, op). node_call loop now op) ops ?u = ?u\<lparr>bs_node := h\<rparr>" by blast
  with assms(1,2) show ?thesis
    by (auto simp: u follows_raft_def leading_def bridge_is_active_def cn_is_active_def run_view_def Let_def)
qed

lemma demo_leads: "follows_raft (calm_step (Report elect_demo 1 demo_task_env) (attach (new_bridge demo_hybrid demo_coord)))"
  by (rule calm.guarded_step [OF demo_follows]) (simp add: demo_roles)

theorem offline_leader_keeps_coordinator_witness:
  "let s = calm_step (Report elect_demo 1 demo_task_env) (attach (new_bridge demo_hybrid demo_coord));
       s' = fold (\<lambda>(now, op). node_call Loop_running now op) [(2, Go_offline), (3, step_down_demo)] s
    in \<not> is_leader (bs_node s') \<and> cn_is_active (bs_coord s')"
proof -
  have "is_leader (bs_node (calm_step (Report elect_demo 1 demo_task_env) (attach (new_bridge demo_hybrid demo_coord))))"
    by code_simp
  from offline_leader_keeps_coordinator [OF demo_leads this, of "[(3, step_down_demo)]" Loop_running 2]
  show ?thesis by (simp add: Let_def step_down_demo_def)
qed

text \<open>What a first start that raises leaves behind: the next promotion finds a running
  coordinator without components and declares it active.\<close>

lemma failed_start_poisons:
  assumes "cn_parts (bs_coord s) = None" and "\<not> cn_running (bs_coord s)"
  shows "let s1 = promote_start nows clks True s; s2 = promote_start nows' clks' fails s1
    in bs_state s1 = STANDBY \<and> bs_state s2 = ACTIVE \<and> cn_is_active (bs_coord s2) \<and> cn_parts (bs_coord s2) = None"
  using assms by (simp add: promote_start_def start_coordinator_def promoted_def cn_running_def cn_is_active_def Let_def)

end
