(* ===== verification/Product_Profile.thy ===== *)
theory Product_Profile
  imports SM_Parser SM_Runtime PyValue
begin

text \<open>
  The base class of product profiles and the adapters (\<open>engine/profile.py\<close>,
  \<open>adapters/file_adapter.py\<close>). An adapter's \<open>_send\<close> returns or raises; \<open>send\<close> wraps it in a
  circuit breaker, retries and a fallback to a file. The requests to the services behind the
  adapters are arguments, files are a dict from paths to texts, and the instants at which a
  file name is made are arguments.
\<close>

subsection \<open>Definitions of a profile\<close>

record ProfileBudget =
  max_concurrent_validators :: int
  max_llm_calls_per_run :: int
  max_storage_mb :: int
  timeout_per_state :: int
  max_wal_entries :: int
  soft_limit_usd :: rat
  hard_limit_usd :: rat

definition default_budget :: ProfileBudget where
  "default_budget = \<lparr>max_concurrent_validators = 2, max_llm_calls_per_run = 20, max_storage_mb = 100,
     timeout_per_state = 3600, max_wal_entries = 1000, soft_limit_usd = 1, hard_limit_usd = 5\<rparr>"

datatype ValidatorTier = T1 | T2 | T3

record ValidatorDef =
  vd_name :: string
  vd_tier :: ValidatorTier
  vd_critical :: bool
  vd_timeout :: int
  vd_depends_on :: "string list"
  vd_cache_ttl :: int
  vd_model :: "string option"
  vd_runner :: "string option"

definition validator_def :: "string \<Rightarrow> ValidatorTier \<Rightarrow> bool \<Rightarrow> ValidatorDef" where
  "validator_def n t c = \<lparr>vd_name = n, vd_tier = t, vd_critical = c, vd_timeout = 120, vd_depends_on = [],
     vd_cache_ttl = 3600, vd_model = None, vd_runner = None\<rparr>"

record AdapterDef =
  ad_name :: string
  ad_type :: string
  ad_config :: "(PyVal \<times> PyVal) list"
  ad_fallback_mode :: string
  ad_max_retries :: int
  ad_threshold :: int

definition adapter_def :: "string \<Rightarrow> string \<Rightarrow> AdapterDef" where
  "adapter_def n ty = \<lparr>ad_name = n, ad_type = ty, ad_config = [], ad_fallback_mode = ''file'',
     ad_max_retries = 3, ad_threshold = 3\<rparr>"

record StoreDef =
  store_name :: string
  store_type :: string
  store_path :: string
  store_required :: bool

record TemplateDef =
  tpl_name :: string
  tpl_path :: string
  tpl_description :: string

text \<open>
  \<open>pp_source\<close> is the value of the YAML text, \<^const>\<open>None\<close> for the empty one. The keyword \<open>setup\<close>
  of \<open>initialize\<close> stands for the five setup hooks that a subclass overrides.
\<close>

record ProductProfile =
  pp_name :: string
  pp_version :: string
  pp_description :: string
  pp_source :: "yaml option"
  pp_machine :: "StateMachine option"
  pp_validators :: "ValidatorDef list"
  pp_adapters :: "AdapterDef list"
  pp_stores :: "StoreDef list"
  pp_templates :: "TemplateDef list"
  pp_budget :: ProfileBudget
  pp_initialized :: bool

definition new_profile :: "string \<Rightarrow> string \<Rightarrow> string \<Rightarrow> yaml option \<Rightarrow> ProductProfile" where
  "new_profile n v d y = \<lparr>pp_name = n, pp_version = v, pp_description = d, pp_source = y, pp_machine = None,
     pp_validators = [], pp_adapters = [], pp_stores = [], pp_templates = [], pp_budget = default_budget,
     pp_initialized = False\<rparr>"

definition add_validator :: "ValidatorDef \<Rightarrow> ProductProfile \<Rightarrow> ProductProfile" where
  "add_validator d p = p\<lparr>pp_validators := pp_validators p @ [d]\<rparr>"

definition add_adapter :: "AdapterDef \<Rightarrow> ProductProfile \<Rightarrow> ProductProfile" where
  "add_adapter d p = p\<lparr>pp_adapters := pp_adapters p @ [d]\<rparr>"

definition add_store :: "StoreDef \<Rightarrow> ProductProfile \<Rightarrow> ProductProfile" where
  "add_store d p = p\<lparr>pp_stores := pp_stores p @ [d]\<rparr>"

definition add_template :: "TemplateDef \<Rightarrow> ProductProfile \<Rightarrow> ProductProfile" where
  "add_template d p = p\<lparr>pp_templates := pp_templates p @ [d]\<rparr>"

datatype load_error = ParseFailed parse_error | Rejected "ValidationError list"

text \<open>\<open>StateMachine(StateMachineParser.parse_string(text))\<close>, with the default size of the cache.\<close>

definition load_machine :: "yaml \<Rightarrow> load_error + StateMachine" where
  "load_machine y =
     (case parse_dict y of
        Inl e \<Rightarrow> Inl (ParseFailed e)
      | Inr c \<Rightarrow> (case init_machine c 128 of Inl es \<Rightarrow> Inl (Rejected es) | Inr sm \<Rightarrow> Inr sm))"

definition initialize :: "(ProductProfile \<Rightarrow> ProductProfile) \<Rightarrow> ProductProfile \<Rightarrow> load_error + ProductProfile" where
  "initialize setup p =
     (if pp_initialized p then Inr p
      else try_bind (case pp_source p of None \<Rightarrow> Inr p
             | Some y \<Rightarrow> try_bind (load_machine y) (\<lambda>sm. Inr (p\<lparr>pp_machine := Some sm\<rparr>)))
           (\<lambda>p. Inr ((setup p)\<lparr>pp_initialized := True\<rparr>)))"

definition tier_validators :: "ValidatorTier \<Rightarrow> ProductProfile \<Rightarrow> ValidatorDef list" where
  "tier_validators t p = filter (\<lambda>v. vd_tier v = t) (pp_validators p)"

subsection \<open>Adapters\<close>

record AdapterResult =
  ar_ok :: bool
  ar_message :: string
  ar_fallback :: bool
  ar_url :: "string option"

datatype attempt = Returned AdapterResult | Transient string | Permanent string | Raised string

record Adapter =
  ap_def :: AdapterDef
  ap_failures :: int
  ap_open :: bool
  ap_last_failure :: "datetime option"

definition new_adapter :: "AdapterDef \<Rightarrow> Adapter" where
  "new_adapter d = \<lparr>ap_def = d, ap_failures = 0, ap_open = False, ap_last_failure = None\<rparr>"

definition record_failure :: "datetime \<Rightarrow> Adapter \<Rightarrow> Adapter" where
  "record_failure now a =
     (let n = ap_failures a + 1
      in a\<lparr>ap_failures := n, ap_last_failure := Some now,
           ap_open := ap_open a \<or> n \<ge> ad_threshold (ap_def a)\<rparr>)"

text \<open>The files written, and the requests to a service with whether it accepted them.\<close>

record world =
  w_files :: "(string, string) dict"
  w_requests :: "(PyVal \<times> bool) list"

definition write_file :: "string \<Rightarrow> string \<Rightarrow> world \<Rightarrow> world" where
  "write_file path content w = w\<lparr>w_files := dict_set path content (w_files w)\<rparr>"

definition fallback_path :: "string \<Rightarrow> Adapter \<Rightarrow> string" where
  "fallback_path stamp a = ''.fallback/'' @ ad_name (ap_def a) @ ''/'' @ stamp @ ''.json''"

text \<open>\<open>_fallback\<close>: the text of the artifact is \<open>content\<close>.\<close>

definition fallback :: "string \<Rightarrow> string \<Rightarrow> Adapter \<Rightarrow> world \<Rightarrow> world \<times> AdapterResult" where
  "fallback stamp content a w =
     (write_file (fallback_path stamp a) content w,
      \<lparr>ar_ok = True, ar_message = ''Adapter '' @ ad_name (ap_def a) @ '' failed. Saved to '' @ fallback_path stamp a,
       ar_fallback = True, ar_url = None\<rparr>)"

definition backoff :: "int list" where
  "backoff = [1, 5, 30]"

text \<open>
  The loop over the attempts: the adapter, the world, the seconds slept, and how it ends, where
  \<^const>\<open>None\<close> is the fallback. \<open>out i w\<close> is what the attempt \<open>i\<close> does to the world \<open>w\<close>.
\<close>

fun send_loop ::
    "(nat \<Rightarrow> world \<Rightarrow> world \<times> attempt) \<Rightarrow> datetime \<Rightarrow> nat \<Rightarrow> nat \<Rightarrow> Adapter \<Rightarrow> world
      \<Rightarrow> Adapter \<times> world \<times> int list \<times> (string + AdapterResult) option" where
  "send_loop out now i 0 a w = (a, w, [], None)"
| "send_loop out now i (Suc n) a w =
     (case out i w of
        (w, Returned r) \<Rightarrow> (a\<lparr>ap_failures := 0\<rparr>, w, [], Some (Inr r))
      | (w, Transient e) \<Rightarrow>
          if i < length backoff then
            (case send_loop out now (i + 1) n a w of (a, w, ws, r) \<Rightarrow> (a, w, backoff ! i # ws, r))
          else (record_failure now a, w, [], None)
      | (w, Permanent e) \<Rightarrow> (record_failure now a, w, [], None)
      | (w, Raised e) \<Rightarrow> (a, w, [], Some (Inl e)))"

record send_args =
  sa_out :: "nat \<Rightarrow> world \<Rightarrow> world \<times> attempt"
  sa_now :: datetime
  sa_stamp :: string
  sa_content :: string

definition send :: "send_args \<Rightarrow> Adapter \<times> world \<Rightarrow> (Adapter \<times> world) \<times> int list \<times> (string + AdapterResult)" where
  "send x aw =
     (case aw of (a, w) \<Rightarrow>
        if ap_open a then
          (case fallback (sa_stamp x) (sa_content x) a w of (w, r) \<Rightarrow> ((a, w), [], Inr r))
        else case send_loop (sa_out x) (sa_now x) 0 (nat (ad_max_retries (ap_def a))) a w of
            (a, w, ws, Some r) \<Rightarrow> ((a, w), ws, r)
          | (a, w, ws, None) \<Rightarrow>
              (case fallback (sa_stamp x) (sa_content x) a w of (w, r) \<Rightarrow> ((a, w), ws, Inr r)))"

subsection \<open>The adapters of the engine\<close>

record adapter_env =
  ae_dumps :: "PyVal \<Rightarrow> string option"
  ae_str :: "PyVal \<Rightarrow> string"
  ae_stamp :: string

definition serialize :: "adapter_env \<Rightarrow> PyVal \<Rightarrow> string" where
  "serialize env v = (case v of PStr s \<Rightarrow> s | _ \<Rightarrow> (case ae_dumps env v of Some s \<Rightarrow> s | None \<Rightarrow> ae_str env v))"

definition file_path :: "adapter_env \<Rightarrow> string \<Rightarrow> string \<Rightarrow> string" where
  "file_path env base n = base @ ''/'' @ n @ ''_'' @ ae_stamp env @ ''.json''"

definition file_send :: "adapter_env \<Rightarrow> string \<Rightarrow> AdapterDef \<Rightarrow> PyVal \<Rightarrow> world \<Rightarrow> world \<times> attempt" where
  "file_send env base d v w =
     (write_file (file_path env base (ad_name d)) (serialize env v) w,
      Returned \<lparr>ar_ok = True, ar_message = [CHR 0xE2, CHR 0x9C, CHR 0x85] @ '' Written to '' @ file_path env base (ad_name d),
        ar_fallback = False, ar_url = Some (file_path env base (ad_name d))\<rparr>)"

text \<open>The characters of a text whose bytes are UTF-8.\<close>

fun utf8_chars_aux :: "string \<Rightarrow> string \<Rightarrow> string list" where
  "utf8_chars_aux cur [] = (if cur = [] then [] else [cur])"
| "utf8_chars_aux cur (c # cs) =
     (if is_continuation c \<or> cur = [] then utf8_chars_aux (cur @ [c]) cs else cur # utf8_chars_aux [c] cs)"

definition utf8_chars :: "string \<Rightarrow> string list" where
  "utf8_chars s = utf8_chars_aux [] s"

text \<open>\<open>_parse_tweets\<close>; the text of any other value is iterated over by its characters.\<close>

definition parse_tweets :: "adapter_env \<Rightarrow> PyVal \<Rightarrow> PyVal list" where
  "parse_tweets env v =
     (case v of
        PList vs \<Rightarrow> vs
      | PStr s \<Rightarrow> map (\<lambda>l. PDict [(PStr ''text'', PStr (strip l))])
          (filter (\<lambda>l. strip l \<noteq> []) (split_all [CHR 0x0A] s))
      | _ \<Rightarrow> map PStr (utf8_chars (ae_str env v)))"

definition tweet_text :: "PyVal \<Rightarrow> PyVal" where
  "tweet_text t = (case t of PDict kvs \<Rightarrow> (case map_of kvs (PStr ''text'') of Some v \<Rightarrow> v | None \<Rightarrow> t) | _ \<Rightarrow> t)"

text \<open>Texts of more than 280 characters are cut; \<open>len\<close> and slicing raise for other types.\<close>

definition shorten :: "PyVal \<Rightarrow> string + PyVal" where
  "shorten v =
     (case v of
        PStr s \<Rightarrow> Inr (PStr (if length (utf8_chars s) > 280 then utf8_take 277 s @ ''...'' else s))
      | PList vs \<Rightarrow> if length vs > 280 then Inl ''TypeError'' else Inr v
      | PDict kvs \<Rightarrow> if length kvs > 280 then Inl ''TypeError'' else Inr v
      | _ \<Rightarrow> Inl ''TypeError'')"

text \<open>
  The loop over the tweets: whether the service creates a draft is \<open>accept i text\<close>; otherwise
  the text is saved, which raises unless it is a string.
\<close>

fun post_tweets ::
    "adapter_env \<Rightarrow> AdapterDef \<Rightarrow> (nat \<Rightarrow> PyVal \<Rightarrow> bool) \<Rightarrow> nat \<Rightarrow> PyVal list \<Rightarrow> world \<Rightarrow> world \<times> string option" where
  "post_tweets env d accept i [] w = (w, None)"
| "post_tweets env d accept i (t # ts) w =
     (case shorten (tweet_text t) of
        Inl e \<Rightarrow> (w, Some e)
      | Inr v \<Rightarrow>
          (let w = w\<lparr>w_requests := w_requests w @ [(v, accept i v)]\<rparr>
           in if accept i v then post_tweets env d accept (i + 1) ts w
              else case v of
                PStr s \<Rightarrow> post_tweets env d accept (i + 1) ts
                  (write_file (''.fallback/'' @ ad_name d @ ''/tweet_'' @ show_nat i @ ''_'' @ ae_stamp env @ ''.txt'') s w)
              | _ \<Rightarrow> (w, Some ''TypeError'')))"

definition failed_send :: "string \<Rightarrow> bool \<Rightarrow> attempt" where
  "failed_send msg fb = Returned \<lparr>ar_ok = False, ar_message = msg, ar_fallback = fb, ar_url = None\<rparr>"

text \<open>\<open>AdapterResult\<close> has no field \<open>details\<close>, so building the final result raises.\<close>

definition buffer_send ::
    "adapter_env \<Rightarrow> string option \<Rightarrow> AdapterDef \<Rightarrow> (nat \<Rightarrow> PyVal \<Rightarrow> bool) \<Rightarrow> PyVal \<Rightarrow> world \<Rightarrow> world \<times> attempt" where
  "buffer_send env key d accept v w =
     (if key = None \<or> key = Some [] then (w, failed_send ''Buffer API key not configured'' False)
      else if parse_tweets env v = [] then (w, failed_send ''No tweets found in artifact'' False)
      else case post_tweets env d accept 0 (parse_tweets env v) w of
          (w, Some e) \<Rightarrow> (w, Raised e)
        | (w, None) \<Rightarrow> (w, Raised ''TypeError''))"

datatype release_answer =
    Release_created "string option"
  | Release_invalid string
  | Release_status int
  | Release_raised string

definition release_payload :: "(PyVal \<times> PyVal) list \<Rightarrow> PyVal" where
  "release_payload kvs =
     (let field = (\<lambda>k d. case map_of kvs (PStr k) of None \<Rightarrow> d | Some v \<Rightarrow> v)
      in PDict [(PStr ''tag_name'', field ''tag_name'' (PStr [])), (PStr ''name'', field ''name'' (PStr [])),
           (PStr ''body'', field ''body'' (PStr [])), (PStr ''draft'', field ''draft'' (PBool False)),
           (PStr ''prerelease'', field ''prerelease'' (PBool False))])"

definition github_send ::
    "adapter_env \<Rightarrow> string option \<Rightarrow> AdapterDef \<Rightarrow> (PyVal \<Rightarrow> release_answer) \<Rightarrow> PyVal \<Rightarrow> world \<Rightarrow> world \<times> attempt" where
  "github_send env token d post v w =
     (if token = None \<or> token = Some [] then (w, failed_send ''GitHub token not configured'' False)
      else case v of
        PDict kvs \<Rightarrow>
          if kvs = [] then (w, failed_send ''No release data found in artifact'' False)
          else
            (let payload = release_payload kvs;
                 lost = (\<lambda>e w. case ae_dumps env payload of
                     None \<Rightarrow> (w, Raised ''TypeError'')
                   | Some s \<Rightarrow> (write_file (''.fallback/'' @ ad_name d @ ''/release_'' @ ae_stamp env @ ''.json'') s w,
                       failed_send (''GitHub release failed: '' @ e @ ''. Saved to fallback.'') True))
             in case post payload of
                  Release_created url \<Rightarrow>
                    (w\<lparr>w_requests := w_requests w @ [(payload, True)]\<rparr>,
                     Returned \<lparr>ar_ok = True, ar_message = [CHR 0xE2, CHR 0x9C, CHR 0x85] @ '' GitHub Release created: '' @
                       (case url of None \<Rightarrow> [] | Some u \<Rightarrow> u), ar_fallback = False, ar_url = url\<rparr>)
                | Release_invalid msg \<Rightarrow>
                    (w\<lparr>w_requests := w_requests w @ [(payload, False)]\<rparr>, failed_send (''GitHub API error: '' @ msg) False)
                | Release_status n \<Rightarrow>
                    lost (''GitHub API '' @ show_int n) (w\<lparr>w_requests := w_requests w @ [(payload, False)]\<rparr>)
                | Release_raised e \<Rightarrow> lost e w)
      | _ \<Rightarrow> (w, failed_send ''No release data found in artifact'' False))"

subsection \<open>The circuit breaker\<close>

definition send_all :: "send_args list \<Rightarrow> Adapter \<times> world \<Rightarrow> Adapter \<times> world" where
  "send_all xs aw = fold (\<lambda>x aw. fst (send x aw)) xs aw"

definition permanent :: "attempt \<Rightarrow> bool" where
  "permanent t \<longleftrightarrow> (\<exists>e. t = Permanent e)"

definition retried :: "attempt \<Rightarrow> bool" where
  "retried t \<longleftrightarrow> (\<exists>e. t = Transient e) \<or> permanent t"

text \<open>The failures counted, and the circuit open once they reach the threshold.\<close>

definition circuit_ok :: "Adapter \<Rightarrow> bool" where
  "circuit_ok a \<longleftrightarrow> 0 \<le> ap_failures a \<and> (if ap_open a then True else ap_failures a < max 1 (ad_threshold (ap_def a)))"

lemma send_loop_frame:
  assumes "\<And>i w. \<not> permanent (snd (out i w))" and "i + n \<le> length backoff"
  shows "\<exists>f. fst (send_loop out now i n a w) = a\<lparr>ap_failures := f\<rparr> \<and> (f = ap_failures a \<or> f = 0)"
  using assms(2)
proof (induction n arbitrary: i w)
  case 0
  show ?case by (auto intro: exI [of _ "ap_failures a"])
next
  case (Suc n)
  obtain w' t where o: "out i w = (w', t)" by force
  with assms(1) [of i w] have t: "\<not> permanent t" by simp
  show ?case
  proof (cases t)
    case (Transient e)
    have "i + 1 + n \<le> length backoff" using Suc.prems by simp
    from Suc.IH [OF this, of w'] o Transient Suc.prems show ?thesis
      by (simp add: split_beta)
  qed (use o t in \<open>auto simp: permanent_def intro: exI [of _ "ap_failures a"]\<close>)
qed

lemma send_frame:
  assumes "\<And>i w. \<not> permanent (snd (sa_out x i w))" and "ad_max_retries (ap_def a) \<le> 3"
  shows "\<exists>f. fst (fst (send x (a, w))) = a\<lparr>ap_failures := f\<rparr> \<and> (f = ap_failures a \<or> f = 0)"
proof (cases "ap_open a")
  case True
  then show ?thesis by (auto simp: send_def split_beta intro: exI [of _ "ap_failures a"])
next
  case False
  have "0 + nat (ad_max_retries (ap_def a)) \<le> length backoff"
    using assms(2) by (simp add: backoff_def)
  from send_loop_frame [of "sa_out x", OF assms(1) this, of "sa_now x" a w] False show ?thesis
    by (auto simp: send_def split_beta split: option.split)
qed

lemma send_all_simps [simp]: "send_all [] aw = aw" "send_all (x # xs) aw = send_all xs (fst (send x aw))"
  by (simp_all add: send_all_def)

lemma send_keeps_def: "ap_def (fst (fst (send x (a, w)))) = ap_def a"
proof -
  have "ap_def (fst (send_loop out now i n a w)) = ap_def a" for out i n now
    by (induction n arbitrary: i w) (simp_all add: record_failure_def Let_def split_beta split: attempt.split)
  then show ?thesis by (simp add: send_def split_beta split: option.split)
qed

text \<open>An adapter with at most three retries never opens its circuit, however many sends fail with
  transient errors: the loop runs out before an attempt is counted as a failure.\<close>

theorem transient_never_opens:
  assumes "ad_max_retries (ap_def a) \<le> 3" and "\<not> ap_open a"
    and "list_all (\<lambda>x. \<forall>i w. \<not> permanent (snd (sa_out x i w))) xs"
  shows "\<not> ap_open (fst (send_all xs (a, w))) \<and>
    (ap_failures (fst (send_all xs (a, w))) = ap_failures a \<or> ap_failures (fst (send_all xs (a, w))) = 0)"
  using assms
proof (induction xs arbitrary: a w)
  case (Cons x xs)
  obtain a' w' rest where s: "send x (a, w) = ((a', w'), rest)" by (metis prod.exhaust_sel)
  have "\<forall>i w. \<not> permanent (snd (sa_out x i w))" using Cons.prems(3) by simp
  with send_frame [of x a w] Cons.prems(1) s obtain f where
    "a' = a\<lparr>ap_failures := f\<rparr>" "f = ap_failures a \<or> f = 0" by auto
  with Cons.IH [of a' w'] Cons.prems s show ?case by auto
qed simp

definition flaky :: send_args where
  "flaky = \<lparr>sa_out = (\<lambda>i w. (w, Transient ''503'')), sa_now = 0, sa_stamp = ''s'', sa_content = ''text''\<rparr>"

theorem transient_never_opens_witness:
  "\<not> ap_open (fst (send_all (replicate 100 flaky) (new_adapter (adapter_def ''Zeplin'' ''api''), \<lparr>w_files = [], w_requests = []\<rparr>)))"
  by (rule conjunct1 [OF transient_never_opens])
    (simp_all add: new_adapter_def adapter_def_def flaky_def permanent_def list_all_iff)

text \<open>Permanent errors open it at the threshold, and no send after that reaches the service.\<close>

lemma send_permanent:
  assumes "\<forall>w. permanent (snd (sa_out x 0 w))" and "ad_max_retries (ap_def a) > 0" and "\<not> ap_open a"
  shows "ap_failures (fst (fst (send x (a, w)))) = ap_failures a + 1 \<and>
    ap_open (fst (fst (send x (a, w)))) = (ap_failures a + 1 \<ge> ad_threshold (ap_def a))"
proof -
  obtain n where n: "nat (ad_max_retries (ap_def a)) = Suc n"
    using assms(2) by (metis not0_implies_Suc zero_less_nat_eq less_numeral_extra(3))
  obtain w' e where "sa_out x 0 w = (w', Permanent e)"
    using assms(1) by (metis permanent_def prod.collapse)
  with n assms(3) show ?thesis by (simp add: send_def record_failure_def split_beta Let_def)
qed

lemma open_for_good:
  "ap_open a \<Longrightarrow> fst (send_all xs (a, w)) = a \<and> w_requests (snd (send_all xs (a, w))) = w_requests w"
proof (induction xs arbitrary: w)
  case (Cons x xs)
  then show ?case
    using Cons.IH [of "snd (fst (send x (a, w)))"]
    by (simp add: send_def split_beta fallback_def write_file_def)
qed simp

theorem breaker_opens_iff:
  assumes "ad_max_retries d > 0" and "list_all (\<lambda>x. \<forall>w. permanent (snd (sa_out x 0 w))) xs"
  shows "ap_open (fst (send_all xs (new_adapter d, w))) = (xs \<noteq> [] \<and> int (length xs) \<ge> ad_threshold d)"
proof -
  have "ap_open (fst (send_all xs (a, w))) = (xs \<noteq> [] \<and> ap_failures a + int (length xs) \<ge> ad_threshold (ap_def a))"
    if "ad_max_retries (ap_def a) > 0" "\<not> ap_open a" for a
    using assms(2) that
  proof (induction xs arbitrary: a w)
    case (Cons x xs)
    obtain a' w' rest where s: "send x (a, w) = ((a', w'), rest)" by (metis prod.exhaust_sel)
    have "\<forall>w. permanent (snd (sa_out x 0 w))" using Cons.prems(1) by simp
    from send_permanent [OF this Cons.prems(2,3), of w] send_keeps_def [of x a w] s
    have a': "ap_failures a' = ap_failures a + 1" "ap_open a' = (ap_failures a + 1 \<ge> ad_threshold (ap_def a))"
      "ap_def a' = ap_def a" by simp_all
    show ?case
    proof (cases "ap_open a'")
      case True
      with a' s open_for_good [OF True, of xs w'] show ?thesis by simp
    next
      case False
      with Cons.IH [of a' w'] Cons.prems a' s show ?thesis by auto
    qed
  qed simp
  from this [of "new_adapter d"] assms(1) show ?thesis by (simp add: new_adapter_def)
qed

definition dead :: send_args where
  "dead = \<lparr>sa_out = (\<lambda>i w. (w, Permanent ''401'')), sa_now = 0, sa_stamp = ''s'', sa_content = ''text''\<rparr>"

theorem breaker_opens_iff_witness:
  "ap_open (fst (send_all [dead, dead, dead] (new_adapter (adapter_def ''Zeplin'' ''api''), \<lparr>w_files = [], w_requests = []\<rparr>))) \<and>
   \<not> ap_open (fst (send_all [dead, dead] (new_adapter (adapter_def ''Zeplin'' ''api''), \<lparr>w_files = [], w_requests = []\<rparr>)))"
  by (subst (1 2) breaker_opens_iff) (simp_all add: adapter_def_def dead_def permanent_def)

text \<open>The time that a send spends waiting.\<close>

lemma send_loop_waits: "fst (snd (snd (send_loop out now i n a w))) = take (length (fst (snd (snd (send_loop out now i n a w))))) (drop i backoff)"
proof (induction n arbitrary: i w)
  case (Suc n)
  obtain w' t where o: "out i w = (w', t)" by force
  show ?case
  proof (cases "(\<exists>e. t = Transient e) \<and> i < length backoff")
    case True
    with Suc.IH [of "i + 1" w'] o show ?thesis
      by (auto simp: split_beta Cons_nth_drop_Suc [symmetric])
  qed (use o in \<open>auto split: attempt.split\<close>)
qed simp

theorem send_waits_bounded: "sum_list (fst (snd (send x (a, w)))) \<le> 36"
proof -
  have "sum_list (take k backoff) \<le> 36" for k
    by (cases k; cases "k - 1"; cases "k - 2") (auto simp: backoff_def)
  then have "sum_list (fst (snd (snd (send_loop out now 0 n a w)))) \<le> 36" for out now n
    by (subst send_loop_waits) simp
  then show ?thesis by (auto simp: send_def split_beta split: option.split)
qed

subsection \<open>What the adapters of the engine do\<close>

text \<open>None of them ever asks for a retry: the exceptions that would are caught where they are
  raised, so the retries and the circuit breaker have no effect.\<close>

lemma never_retried:
  "\<not> retried (snd (file_send env base d v w))" "\<not> retried (snd (buffer_send env key d accept v w))"
  "\<not> retried (snd (github_send env token d post v w))"
  by (auto simp: retried_def permanent_def file_send_def buffer_send_def github_send_def failed_send_def Let_def
      split: PyVal.split option.split release_answer.split prod.split)

lemma post_tweets_requests:
  assumes "post_tweets env d accept i ts w = (w', None)"
  shows "length (w_requests w') = length (w_requests w) + length ts"
  using assms
proof (induction ts arbitrary: i w)
  case (Cons t ts)
  then show ?case
    by (auto simp: Let_def write_file_def split: sum.splits if_splits PyVal.splits)
qed simp

text \<open>Posting through Buffer raises after all tweets have been sent: \<open>send\<close> then neither reports
  the result nor falls back, and every call posts the tweets again.\<close>

theorem buffer_posts_then_raises:
  assumes "key \<noteq> []" and "ts \<noteq> []" and "ad_max_retries (ap_def a) > 0" and "\<not> ap_open a"
    and "sa_out x = (\<lambda>i. buffer_send env (Some key) (ap_def a) accept (PList (map PStr ts)))"
  shows "\<exists>w'. send x (a, w) = ((a, w'), [], Inl ''TypeError'') \<and>
    length (w_requests w') = length (w_requests w) + length ts"
proof -
  have "\<exists>w'. post_tweets env d accept i (map PStr ts) w = (w', None)" for d i
  proof (induction ts arbitrary: i w)
    case (Cons s ts)
    then show ?case by (simp add: tweet_text_def shorten_def Let_def write_file_def)
  qed simp
  then obtain w' where p: "post_tweets env (ap_def a) accept 0 (map PStr ts) w = (w', None)" by blast
  obtain n where n: "nat (ad_max_retries (ap_def a)) = Suc n"
    using assms(3) by (metis not0_implies_Suc zero_less_nat_eq less_numeral_extra(3))
  have "sa_out x 0 w = (w', Raised ''TypeError'')"
    using assms(1,2) p by (simp add: assms(5) buffer_send_def parse_tweets_def)
  with n assms(4) post_tweets_requests [OF p] show ?thesis by (simp add: send_def)
qed

definition demo_adapter_env :: adapter_env where
  "demo_adapter_env = \<lparr>ae_dumps = (\<lambda>v. None), ae_str = (\<lambda>v. []), ae_stamp = ''20260101_000000''\<rparr>"

definition demo_buffer :: Adapter where
  "demo_buffer = new_adapter (adapter_def ''Buffer'' ''buffer'')"

definition demo_post :: send_args where
  "demo_post = \<lparr>sa_out = (\<lambda>i. buffer_send demo_adapter_env (Some ''key'') (ap_def demo_buffer) (\<lambda>i v. True)
     (PList (map PStr [''a'', ''b'']))), sa_now = 0, sa_stamp = ''s'', sa_content = ''text''\<rparr>"

theorem buffer_posts_then_raises_witness:
  "\<exists>w'. send demo_post (demo_buffer, \<lparr>w_files = [], w_requests = []\<rparr>) = ((demo_buffer, w'), [], Inl ''TypeError'') \<and>
     length (w_requests w') = length (w_requests \<lparr>w_files = [], w_requests = []\<rparr>) + length [''a'', ''b'']"
  by (rule buffer_posts_then_raises [where key = "''key''" and env = demo_adapter_env and accept = "\<lambda>i v. True"])
    (simp_all add: demo_post_def demo_buffer_def new_adapter_def adapter_def_def)

text \<open>Two results that the file adapter writes within one second are one file.\<close>

lemma file_overwrites:
  "w_files (fst (file_send env base d v2 (fst (file_send env base d v1 w)))) = w_files (fst (file_send env base d v2 w))"
proof -
  have "dict_set k y (dict_set k x d) = dict_set k y d" for k x y and d :: "(string, string) dict"
    by (induction d) auto
  then show ?thesis by (simp add: file_send_def write_file_def)
qed

end
