(* ===== verification/Profile_Data.thy ===== *)
theory Profile_Data
  imports Product_Profile
begin

text \<open>
  The shipped profiles (\<open>profiles/content.py\<close>, \<open>design.py\<close>, \<open>research.py\<close>, \<open>haber.py\<close>,
  \<open>software.py\<close>). A machine is the value that \<open>yaml.safe_load\<close> returns for the text in the file;
  the setup hooks of a class are one definition each, and \<open>x_setup\<close> is what \<open>initialize\<close> runs
  in its order. Characters outside of ASCII are the bytes of their encoding.
\<close>

subsection \<open>State machines\<close>

definition content_sm :: yaml where
  "content_sm = YMap [
   (''profile'', YStr ''content''),
   (''name'', YStr ''content-pipeline''),
   (''version'', YFloat (21 / 10)),
   (''states'', YMap [
    (''captured'', YMap [
     (''type'', YStr ''initial''),
     (''max_reentries'', YInt 1),
     (''validators'', YList [YStr ''IdeaCheck''])]),
    (''decide_route'', YMap [
     (''type'', YStr ''intermediate''),
     (''max_reentries'', YInt 3),
     (''hitl'', YMap [
      (''ask_user'', YList [
       YMap [
        (''question'', YStr (''Bu fikri hangi kanalda yay'' @ [CHR 0xC4, CHR 0xB1] @ ''nlamal'' @ [CHR 0xC4, CHR 0xB1] @ ''y'' @ [CHR 0xC4, CHR 0xB1] @ ''z?'')),
        (''type'', YStr ''multiple_choice''),
        (''choices'', YList [YStr ''Blog'', YStr ''Newsletter'', YStr ''Twitter/X'', YStr ''Hepsi'']),
        (''timeout'', YInt 300)]]),
      (''resume_transitions'', YMap [
       (''Blog'', YStr ''idea_review''),
       (''Newsletter'', YStr ''idea_review''),
       (''Twitter/X'', YStr ''idea_review''),
       (''Hepsi'', YStr ''idea_review'')])])]),
    (''idea_review'', YMap [
     (''type'', YStr ''intermediate''),
     (''max_reentries'', YInt 3),
     (''hitl'', YMap [
      (''ask_user'', YList [
       YMap [
        (''question'', YStr (''Fikir detaylar'' @ [CHR 0xC4, CHR 0xB1] @ ''n'' @ [CHR 0xC4, CHR 0xB1] @ '' inceledin mi? Devam edelim mi?'')),
        (''type'', YStr ''yes_no''),
        (''timeout'', YInt 300)]]),
      (''resume_transitions'', YMap [
       (''yes'', YStr ''brief_ready''),
       (''evet'', YStr ''brief_ready''),
       (''no'', YStr ''captured''),
       ((''hay'' @ [CHR 0xC4, CHR 0xB1] @ ''r''), YStr ''captured'')])])]),
    (''brief_ready'', YMap [
     (''type'', YStr ''intermediate''),
     (''max_reentries'', YInt 5),
     (''hitl'', YMap [
      (''ask_user'', YList [
       YMap [
        (''question'', YStr (''Brief'' @ [CHR 0x27] @ ''i onayl'' @ [CHR 0xC4, CHR 0xB1] @ ''yor musun?'')),
        (''type'', YStr ''yes_no''),
        (''timeout'', YInt 300)]]),
      (''ask_if'', YList [
       YMap [
        (''condition'', YStr ''reentry_count >= 2''),
        (''question'', YStr (''3. kez brief d'' @ [CHR 0xC3, CHR 0xBC] @ ''zenliyorsun. Konuyu de'' @ [CHR 0xC4, CHR 0x9F] @ ''i'' @ [CHR 0xC5, CHR 0x9F] @ ''tirmek ister misin?'')),
        (''type'', YStr ''yes_no''),
        (''on_timeout'', YStr ''proceed'')]]),
      (''resume_transitions'', YMap [
       (''yes'', YStr ''drafting''),
       (''evet'', YStr ''drafting''),
       (''no'', YStr ''idea_review''),
       ((''hay'' @ [CHR 0xC4, CHR 0xB1] @ ''r''), YStr ''idea_review'')])])]),
    (''drafting'', YMap [
     (''type'', YStr ''intermediate''),
     (''max_reentries'', YInt 10),
     (''validators'', YList [YStr ''DraftValidator'']),
     (''hitl'', YMap [
      (''ask_if'', YList [
       YMap [
        (''condition'', YStr ''reentry_count >= 3''),
        (''question'', YStr (''Tone do'' @ [CHR 0xC4, CHR 0x9F] @ ''ru mu? Daha resmi mi samimi mi olsun?'')),
        (''type'', YStr ''multiple_choice''),
        (''choices'', YList [YStr ''Resmi'', YStr ''Samimi'', YStr ''Teknik'']),
        (''on_timeout'', YStr ''proceed'')]])])]),
    (''verification'', YMap [
     (''type'', YStr ''intermediate''),
     (''max_reentries'', YInt 10),
     (''validators'', YList [YStr ''SlopScanT1'', YStr ''LengthCheck'', YStr ''SchemaCheck''])]),
    (''draft_review'', YMap [
     (''type'', YStr ''pause''),
     (''max_reentries'', YNull),
     (''temporal'', YMap [
      (''max_idle'', YInt 259200),
      (''reminders'', YList [
       YMap [
        (''after'', YInt 86400),
        (''message'', YStr ''Review bekliyor''),
        (''channel'', YStr ''telegram'')]])]),
     (''hitl'', YMap [
      (''ask_user'', YList [
       YMap [
        (''question'', YStr (''Yaz'' @ [CHR 0xC4, CHR 0xB1] @ '' yay'' @ [CHR 0xC4, CHR 0xB1] @ ''na haz'' @ [CHR 0xC4, CHR 0xB1] @ ''r m'' @ [CHR 0xC4, CHR 0xB1] @ ''?'')),
        (''type'', YStr ''yes_no''),
        (''timeout'', YInt 86400)]]),
      (''ask_if'', YList [
       YMap [
        (''condition'', YStr ''drift_count > 0''),
        (''question'', YStr (''Drift tespit edildi. Yine de yay'' @ [CHR 0xC4, CHR 0xB1] @ ''nlamak istiyor musun, yoksa d'' @ [CHR 0xC3, CHR 0xBC] @ ''zeltme turu mu atal'' @ [CHR 0xC4, CHR 0xB1] @ ''m?'')),
        (''type'', YStr ''multiple_choice''),
        (''choices'', YList [YStr (''Yay'' @ [CHR 0xC4, CHR 0xB1] @ ''nla''), YStr (''D'' @ [CHR 0xC3, CHR 0xBC] @ ''zelt'')]),
        (''on_timeout'', YStr ''hold'')]]),
      (''resume_transitions'', YMap [
       (''yes'', YStr ''approved''),
       (''evet'', YStr ''approved''),
       ((''Yay'' @ [CHR 0xC4, CHR 0xB1] @ ''nla''), YStr ''approved''),
       (''no'', YStr ''drafting''),
       ((''hay'' @ [CHR 0xC4, CHR 0xB1] @ ''r''), YStr ''drafting''),
       ((''D'' @ [CHR 0xC3, CHR 0xBC] @ ''zelt''), YStr ''drafting'')])])]),
    (''approved'', YMap [(''type'', YStr ''intermediate''), (''max_reentries'', YInt 1)]),
    (''published'', YMap [(''type'', YStr ''intermediate''), (''max_reentries'', YInt 1)]),
    (''archived'', YMap [(''type'', YStr ''terminal''), (''max_reentries'', YInt 0)])]),
   (''transitions'', YMap [
    (''captured -> decide_route'', YMap []),
    (''decide_route -> idea_review'', YMap []),
    (''idea_review -> brief_ready'', YMap []),
    (''idea_review -> captured'', YMap []),
    (''brief_ready -> drafting'', YMap []),
    (''brief_ready -> idea_review'', YMap []),
    (''drafting -> verification'', YMap []),
    (''drafting -> drafting'', YMap [(''condition'', YStr ''drift_detected''), (''action'', YStr ''log_drift'')]),
    (''verification -> draft_review'', YMap []),
    (''verification -> drafting'', YMap [(''condition'', YStr ''drift_detected''), (''action'', YStr ''log_drift'')]),
    (''draft_review -> approved'', YMap [(''condition'', YStr ''human_approved'')]),
    (''draft_review -> drafting'', YMap [(''condition'', YStr ''changes_requested'')]),
    (''approved -> published'', YMap []),
    (''published -> archived'', YMap [])])]"

definition content_sm_v1 :: yaml where
  "content_sm_v1 = YMap [
   (''profile'', YStr ''content''),
   (''name'', YStr ''content-pipeline''),
   (''version'', YFloat 1),
   (''states'', YMap [
    (''captured'', YMap [
     (''type'', YStr ''initial''),
     (''max_reentries'', YInt 1),
     (''validators'', YList [YStr ''IdeaCheck''])]),
    (''idea_review'', YMap [(''type'', YStr ''intermediate''), (''max_reentries'', YInt 3)]),
    (''brief_ready'', YMap [(''type'', YStr ''intermediate''), (''max_reentries'', YInt 5)]),
    (''drafting'', YMap [
     (''type'', YStr ''intermediate''),
     (''max_reentries'', YInt 10),
     (''validators'', YList [YStr ''DraftValidator''])]),
    (''verification'', YMap [
     (''type'', YStr ''intermediate''),
     (''max_reentries'', YInt 10),
     (''validators'', YList [YStr ''SlopScanT1'', YStr ''LengthCheck'', YStr ''SchemaCheck''])]),
    (''draft_review'', YMap [
     (''type'', YStr ''intermediate''),
     (''max_reentries'', YNull),
     (''temporal'', YMap [
      (''max_idle'', YInt 259200),
      (''reminders'', YList [
       YMap [
        (''after'', YInt 86400),
        (''message'', YStr ''Review bekliyor''),
        (''channel'', YStr ''telegram'')]])])]),
    (''approved'', YMap [(''type'', YStr ''intermediate''), (''max_reentries'', YInt 1)]),
    (''published'', YMap [(''type'', YStr ''intermediate''), (''max_reentries'', YInt 1)]),
    (''archived'', YMap [(''type'', YStr ''terminal''), (''max_reentries'', YInt 0)])]),
   (''transitions'', YMap [
    (''captured -> idea_review'', YMap []),
    (''idea_review -> brief_ready'', YMap []),
    (''brief_ready -> drafting'', YMap []),
    (''drafting -> verification'', YMap []),
    (''drafting -> drafting'', YMap [(''condition'', YStr ''drift_detected''), (''action'', YStr ''log_drift'')]),
    (''verification -> draft_review'', YMap []),
    (''verification -> drafting'', YMap [(''condition'', YStr ''drift_detected''), (''action'', YStr ''log_drift'')]),
    (''draft_review -> approved'', YMap [(''condition'', YStr ''human_approved'')]),
    (''draft_review -> drafting'', YMap [(''condition'', YStr ''changes_requested'')]),
    (''approved -> published'', YMap []),
    (''published -> archived'', YMap [])])]"

definition design_sm :: yaml where
  "design_sm = YMap [
   (''profile'', YStr ''design''),
   (''name'', YStr ''design-pipeline''),
   (''version'', YFloat 2),
   (''formal_properties'', YMap [(''termination'', YMap [(''max_steps'', YInt 80)])]),
   (''states'', YMap [
    (''brief'', YMap [
     (''type'', YStr ''initial''),
     (''max_reentries'', YInt 1),
     (''timeout'', YInt 172800),
     (''validators'', YList [YStr ''BriefCheck'']),
     (''hitl'', YMap [
      (''ask_user'', YList [
       YMap [
        (''question'', YStr (''Brief'' @ [CHR 0x27] @ ''i onayl'' @ [CHR 0xC4, CHR 0xB1] @ ''yor musun?'')),
        (''type'', YStr ''yes_no''),
        (''timeout'', YInt 86400)]]),
      (''resume_transitions'', YMap [(''yes'', YStr ''research''), (''no'', YStr ''brief'')])])]),
    (''research'', YMap [
     (''type'', YStr ''intermediate''),
     (''max_reentries'', YInt 3),
     (''timeout'', YInt 259200),
     (''validators'', YList [YStr ''ResearchCheck'']),
     (''hitl'', YMap [
      (''ask_user'', YList [
       YMap [
        (''question'', YStr (''Hangi tasar'' @ [CHR 0xC4, CHR 0xB1] @ ''m y'' @ [CHR 0xC3, CHR 0xB6] @ ''n'' @ [CHR 0xC3, CHR 0xBC] @ ''n'' @ [CHR 0xC3, CHR 0xBC] @ '' ke'' @ [CHR 0xC5, CHR 0x9F] @ ''fedelim?'')),
        (''type'', YStr ''multiple_choice''),
        (''choices'', YList [
         YStr (''Mevcut tasar'' @ [CHR 0xC4, CHR 0xB1] @ ''m sistemine uygun''),
         YStr ''Yeni ve deneysel'',
         YStr (''Rakip analizi bazl'' @ [CHR 0xC4, CHR 0xB1])]),
        (''timeout'', YInt 86400)]])])]),
    (''sketch'', YMap [
     (''type'', YStr ''intermediate''),
     (''max_reentries'', YInt 5),
     (''timeout'', YInt 172800),
     (''hitl'', YMap [
      (''ask_if'', YList [
       YMap [
        (''condition'', YStr ''reentry_count >= 3''),
        (''question'', YStr (''3. sketch denemesi. Wireframe'' @ [CHR 0x27] @ ''e ge'' @ [CHR 0xC3, CHR 0xA7] @ ''mek ister misin?'')),
        (''type'', YStr ''yes_no''),
        (''on_timeout'', YStr ''proceed'')]])])]),
    (''wireframe'', YMap [
     (''type'', YStr ''intermediate''),
     (''max_reentries'', YInt 5),
     (''timeout'', YInt 172800),
     (''hitl'', YMap [
      (''ask_user'', YList [
       YMap [
        (''question'', YStr (''Wireframe onayl'' @ [CHR 0xC4, CHR 0xB1] @ ''yor musun?'')),
        (''type'', YStr ''yes_no''),
        (''timeout'', YInt 86400)]]),
      (''resume_transitions'', YMap [(''yes'', YStr ''mockup''), (''no'', YStr ''sketch'')])])]),
    (''mockup'', YMap [
     (''type'', YStr ''intermediate''),
     (''max_reentries'', YInt 8),
     (''timeout'', YInt 259200),
     (''validators'', YList [YStr ''AccessibilityCheck'', YStr ''DesignSystemCheck'']),
     (''hitl'', YMap [
      (''ask_if'', YList [
       YMap [
        (''condition'', YStr ''drift_count > 0''),
        (''question'', YStr (''G'' @ [CHR 0xC3, CHR 0xB6] @ ''rsel tasar'' @ [CHR 0xC4, CHR 0xB1] @ ''mda de'' @ [CHR 0xC4, CHR 0x9F] @ ''i'' @ [CHR 0xC5, CHR 0x9F] @ ''iklik var. Prototip'' @ [CHR 0x27] @ ''e ge'' @ [CHR 0xC3, CHR 0xA7] @ ''meden '' @ [CHR 0xC3, CHR 0xB6] @ ''nce onayl'' @ [CHR 0xC4, CHR 0xB1] @ ''yor musun?'')),
        (''type'', YStr ''yes_no''),
        (''on_timeout'', YStr ''hold'')]])])]),
    (''prototype'', YMap [
     (''type'', YStr ''intermediate''),
     (''max_reentries'', YInt 8),
     (''timeout'', YInt 345600),
     (''validators'', YList [YStr ''ResponsiveCheck'', YStr ''InteractionCheck'']),
     (''hitl'', YMap [
      (''ask_user'', YList [
       YMap [
        (''question'', YStr (''Prototip review'' @ [CHR 0x27] @ ''e haz'' @ [CHR 0xC4, CHR 0xB1] @ ''r m'' @ [CHR 0xC4, CHR 0xB1] @ ''?'')),
        (''type'', YStr ''yes_no''),
        (''timeout'', YInt 172800)]]),
      (''resume_transitions'', YMap [(''yes'', YStr ''review''), (''no'', YStr ''mockup'')])])]),
    (''review'', YMap [
     (''type'', YStr ''pause''),
     (''max_reentries'', YNull),
     (''timeout'', YInt 604800),
     (''temporal'', YMap [
      (''max_idle'', YInt 172800),
      (''reminders'', YList [
       YMap [
        (''after'', YInt 86400),
        (''message'', YStr (''Design review 1 g'' @ [CHR 0xC3, CHR 0xBC] @ ''nd'' @ [CHR 0xC3, CHR 0xBC] @ ''r bekliyor''))],
       YMap [
        (''after'', YInt 172800),
        (''message'', YStr (''2 g'' @ [CHR 0xC3, CHR 0xBC] @ ''nd'' @ [CHR 0xC3, CHR 0xBC] @ ''r review'' @ [CHR 0x27] @ ''da, escalation''))]])]),
     (''hitl'', YMap [
      (''ask_user'', YList [
       YMap [
        (''question'', YStr (''Tasar'' @ [CHR 0xC4, CHR 0xB1] @ ''m'' @ [CHR 0xC4, CHR 0xB1] @ '' onayl'' @ [CHR 0xC4, CHR 0xB1] @ ''yor musun?'')),
        (''type'', YStr ''yes_no''),
        (''timeout'', YInt 259200)]]),
      (''ask_if'', YList [
       YMap [
        (''condition'', YStr ''reentry_count > 0''),
        (''question'', YStr (''Bu review'' @ [CHR 0x27] @ ''a 2. kez geliyoruz. Major revizyon mu yoksa minor fix mi?'')),
        (''type'', YStr ''multiple_choice''),
        (''choices'', YList [YStr ''Onayla'', YStr ''Minor fix'', YStr ''Major revizyon'']),
        (''on_timeout'', YStr ''hold'')]]),
      (''resume_transitions'', YMap [
       (''yes'', YStr ''handoff''),
       (''Onayla'', YStr ''handoff''),
       (''Minor fix'', YStr ''prototype''),
       (''Major revizyon'', YStr ''wireframe''),
       (''no'', YStr ''prototype'')])])]),
    (''handoff'', YMap [(''type'', YStr ''terminal''), (''max_reentries'', YInt 0)])]),
   (''transitions'', YMap [
    (''brief -> research'', YMap [(''condition'', YStr ''brief_approved'')]),
    (''research -> sketch'', YMap [(''condition'', YStr ''research_complete'')]),
    (''sketch -> wireframe'', YMap [(''condition'', YStr ''sketch_approved'')]),
    (''sketch -> sketch'', YMap [(''condition'', YStr ''drift_detected''), (''action'', YStr ''log_drift'')]),
    (''wireframe -> mockup'', YMap [(''condition'', YStr ''wireframe_approved'')]),
    (''wireframe -> sketch'', YMap [(''condition'', YStr ''major_changes_needed'')]),
    (''mockup -> prototype'', YMap [(''condition'', YStr ''mockup_approved'')]),
    (''mockup -> wireframe'', YMap [(''condition'', YStr ''structure_changes_needed'')]),
    (''prototype -> review'', YMap [(''condition'', YStr ''prototype_ready'')]),
    (''prototype -> mockup'', YMap [(''condition'', YStr ''visual_changes_needed'')]),
    (''prototype -> prototype'', YMap [(''condition'', YStr ''drift_detected''), (''action'', YStr ''log_drift'')]),
    (''review -> handoff'', YMap [(''condition'', YStr ''review_approved'')]),
    (''review -> prototype'', YMap [(''condition'', YStr ''changes_requested'')])])]"

definition research_sm :: yaml where
  "research_sm = YMap [
   (''profile'', YStr ''research''),
   (''name'', YStr ''research-pipeline''),
   (''version'', YFloat 2),
   (''formal_properties'', YMap [(''termination'', YMap [(''max_steps'', YInt 100)])]),
   (''states'', YMap [
    (''topic_selected'', YMap [
     (''type'', YStr ''initial''),
     (''max_reentries'', YInt 1),
     (''timeout'', YInt 604800),
     (''validators'', YList [YStr ''ScopeCheck'']),
     (''hitl'', YMap [
      (''ask_user'', YList [
       YMap [
        (''question'', YStr (''Ara'' @ [CHR 0xC5, CHR 0x9F] @ ''t'' @ [CHR 0xC4, CHR 0xB1] @ ''rma konusunu onayl'' @ [CHR 0xC4, CHR 0xB1] @ ''yor musun?'')),
        (''type'', YStr ''yes_no''),
        (''timeout'', YInt 86400)]]),
      (''resume_transitions'', YMap [(''yes'', YStr ''literature_review''), (''no'', YStr ''topic_selected'')])])]),
    (''literature_review'', YMap [
     (''type'', YStr ''intermediate''),
     (''max_reentries'', YInt 5),
     (''timeout'', YInt 1209600),
     (''validators'', YList [YStr ''CitationCheck'']),
     (''hitl'', YMap [
      (''ask_if'', YList [
       YMap [
        (''condition'', YStr ''reentry_count >= 3''),
        (''question'', YStr (''Literat'' @ [CHR 0xC3, CHR 0xBC] @ ''r taramas'' @ [CHR 0xC4, CHR 0xB1] @ '' 3. kez revize ediliyor. Kapsam'' @ [CHR 0xC4, CHR 0xB1] @ '' daraltmak ister misin?'')),
        (''type'', YStr ''yes_no''),
        (''on_timeout'', YStr ''proceed'')]])])]),
    (''hypothesis'', YMap [
     (''type'', YStr ''intermediate''),
     (''max_reentries'', YInt 3),
     (''timeout'', YInt 604800),
     (''validators'', YList [YStr ''MethodologyCheck'']),
     (''hitl'', YMap [
      (''ask_user'', YList [
       YMap [
        (''question'', YStr ''Hangi hipotezle devam edelim?''),
        (''type'', YStr ''multiple_choice''),
        (''choices'', YList [
         YStr ''Hipotez A (null hipotez)'',
         YStr ''Hipotez B (alternatif)'',
         YStr (''Hen'' @ [CHR 0xC3, CHR 0xBC] @ ''z karar vermedim'')]),
        (''timeout'', YInt 604800)]]),
      (''resume_transitions'', YMap [
       (''Hipotez A (null hipotez)'', YStr ''experiment_design''),
       (''Hipotez B (alternatif)'', YStr ''experiment_design''),
       ((''Hen'' @ [CHR 0xC3, CHR 0xBC] @ ''z karar vermedim''), YStr ''literature_review'')])])]),
    (''experiment_design'', YMap [
     (''type'', YStr ''intermediate''),
     (''max_reentries'', YInt 5),
     (''timeout'', YInt 1209600),
     (''validators'', YList [YStr ''StatisticalCheck'']),
     (''hitl'', YMap [
      (''ask_if'', YList [
       YMap [
        (''condition'', YStr ''drift_count > 0''),
        (''question'', YStr (''Deney tasar'' @ [CHR 0xC4, CHR 0xB1] @ ''m'' @ [CHR 0xC4, CHR 0xB1] @ ''nda de'' @ [CHR 0xC4, CHR 0x9F] @ ''i'' @ [CHR 0xC5, CHR 0x9F] @ ''iklik var. Devam edelim mi?'')),
        (''type'', YStr ''yes_no''),
        (''on_timeout'', YStr ''hold'')]])])]),
    (''data_collection'', YMap [(''type'', YStr ''intermediate''), (''max_reentries'', YInt 5), (''timeout'', YInt 2592000)]),
    (''analysis'', YMap [(''type'', YStr ''intermediate''), (''max_reentries'', YInt 5), (''timeout'', YInt 1209600)]),
    (''paper_draft'', YMap [
     (''type'', YStr ''intermediate''),
     (''max_reentries'', YInt 10),
     (''timeout'', YInt 2592000),
     (''hitl'', YMap [
      (''ask_user'', YList [
       YMap [
        (''question'', YStr (''Makale tasla'' @ [CHR 0xC4, CHR 0x9F, CHR 0xC4, CHR 0xB1] @ '' peer review'' @ [CHR 0x27] @ ''a haz'' @ [CHR 0xC4, CHR 0xB1] @ ''r m'' @ [CHR 0xC4, CHR 0xB1] @ ''?'')),
        (''type'', YStr ''yes_no''),
        (''timeout'', YInt 604800)]]),
      (''resume_transitions'', YMap [(''yes'', YStr ''peer_review''), (''no'', YStr ''paper_draft'')])])]),
    (''peer_review'', YMap [
     (''type'', YStr ''pause''),
     (''max_reentries'', YNull),
     (''timeout'', YInt 2592000),
     (''temporal'', YMap [
      (''max_idle'', YInt 604800),
      (''reminders'', YList [
       YMap [
        (''after'', YInt 259200),
        (''message'', YStr (''Peer review 3 g'' @ [CHR 0xC3, CHR 0xBC] @ ''nd'' @ [CHR 0xC3, CHR 0xBC] @ ''r bekliyor''))],
       YMap [
        (''after'', YInt 604800),
        (''message'', YStr (''1 haftad'' @ [CHR 0xC4, CHR 0xB1] @ ''r review'' @ [CHR 0x27] @ ''da, escalation''))]])]),
     (''hitl'', YMap [
      (''ask_user'', YList [
       YMap [
        (''question'', YStr (''Makaleyi yay'' @ [CHR 0xC4, CHR 0xB1] @ ''nl'' @ [CHR 0xC4, CHR 0xB1] @ ''yor muyuz?'')),
        (''type'', YStr ''yes_no''),
        (''timeout'', YInt 604800)]]),
      (''ask_if'', YList [
       YMap [
        (''condition'', YStr ''reentry_count > 0''),
        (''question'', YStr (''Revizyon sonras'' @ [CHR 0xC4, CHR 0xB1] @ '' tekrar review'' @ [CHR 0x27] @ ''da. Yay'' @ [CHR 0xC4, CHR 0xB1] @ ''na haz'' @ [CHR 0xC4, CHR 0xB1] @ ''r m'' @ [CHR 0xC4, CHR 0xB1] @ ''?'')),
        (''type'', YStr ''yes_no''),
        (''on_timeout'', YStr ''hold'')]]),
      (''resume_transitions'', YMap [(''yes'', YStr ''published''), (''no'', YStr ''paper_draft'')])])]),
    (''published'', YMap [(''type'', YStr ''intermediate''), (''max_reentries'', YInt 1)]),
    (''archived'', YMap [(''type'', YStr ''terminal''), (''max_reentries'', YInt 0)])]),
   (''transitions'', YMap [
    (''topic_selected -> literature_review'', YMap []),
    (''literature_review -> hypothesis'', YMap [(''condition'', YStr ''lit_review_complete'')]),
    (''hypothesis -> experiment_design'', YMap [(''condition'', YStr ''hypothesis_approved'')]),
    (''hypothesis -> literature_review'', YMap [(''condition'', YStr ''lit_review_needed'')]),
    (''experiment_design -> data_collection'', YMap [(''condition'', YStr ''design_approved'')]),
    (''experiment_design -> hypothesis'', YMap [(''condition'', YStr ''hypothesis_revision_needed'')]),
    (''data_collection -> analysis'', YMap [(''condition'', YStr ''data_ready'')]),
    (''data_collection -> experiment_design'', YMap [(''condition'', YStr ''design_revision_needed'')]),
    (''analysis -> paper_draft'', YMap [(''condition'', YStr ''analysis_complete'')]),
    (''analysis -> data_collection'', YMap [(''condition'', YStr ''more_data_needed'')]),
    (''paper_draft -> peer_review'', YMap [(''condition'', YStr ''draft_ready'')]),
    (''paper_draft -> paper_draft'', YMap [(''condition'', YStr ''drift_detected''), (''action'', YStr ''log_drift'')]),
    (''peer_review -> published'', YMap [(''condition'', YStr ''review_approved'')]),
    (''peer_review -> paper_draft'', YMap [(''condition'', YStr ''revisions_requested'')]),
    (''published -> archived'', YMap [])])]"

definition haber_sm :: yaml where
  "haber_sm = YMap [
   (''profile'', YStr ''haber''),
   (''name'', YStr ''haber-pipeline''),
   (''version'', YFloat 2),
   (''formal_properties'', YMap [(''termination'', YMap [(''max_steps'', YInt 50)])]),
   (''states'', YMap [
    (''captured'', YMap [
     (''type'', YStr ''initial''),
     (''max_reentries'', YInt 1),
     (''validators'', YList [YStr ''SourceCheck'']),
     (''hitl'', YMap [
      (''ask_user'', YList [
       YMap [
        (''question'', YStr (''Bu haber kayna'' @ [CHR 0xC4, CHR 0x9F, CHR 0xC4, CHR 0xB1] @ ''n'' @ [CHR 0xC4, CHR 0xB1] @ '' do'' @ [CHR 0xC4, CHR 0x9F] @ ''rulayal'' @ [CHR 0xC4, CHR 0xB1] @ ''m m'' @ [CHR 0xC4, CHR 0xB1] @ ''? Kaynak g'' @ [CHR 0xC3, CHR 0xBC] @ ''venilir mi?'')),
        (''type'', YStr ''yes_no''),
        (''timeout'', YInt 300)]]),
      (''resume_transitions'', YMap [(''yes'', YStr ''fact_checking''), (''no'', YStr ''archived'')])])]),
    (''fact_checking'', YMap [
     (''type'', YStr ''intermediate''),
     (''max_reentries'', YInt 3),
     (''validators'', YList [YStr ''FactCheck'', YStr ''HallucinationCheck'']),
     (''hitl'', YMap [
      (''ask_user'', YList [
       YMap [
        (''question'', YStr (''Hangi do'' @ [CHR 0xC4, CHR 0x9F] @ ''rulama y'' @ [CHR 0xC3, CHR 0xB6] @ ''ntemini kullanal'' @ [CHR 0xC4, CHR 0xB1] @ ''m?'')),
        (''type'', YStr ''multiple_choice''),
        (''choices'', YList [
         YStr ''Resmi kaynak sorgula'',
         YStr (''Haber ajans'' @ [CHR 0xC4, CHR 0xB1] @ '' kar'' @ [CHR 0xC5, CHR 0x9F, CHR 0xC4, CHR 0xB1] @ ''la'' @ [CHR 0xC5, CHR 0x9F] @ ''t'' @ [CHR 0xC4, CHR 0xB1] @ ''r''),
         YStr (''Sivil toplum do'' @ [CHR 0xC4, CHR 0x9F] @ ''rulamas'' @ [CHR 0xC4, CHR 0xB1]),
         YStr ''Hepsini dene'']),
        (''timeout'', YInt 600)]]),
      (''resume_transitions'', YMap [
       (''Resmi kaynak sorgula'', YStr ''cross_verified''),
       ((''Haber ajans'' @ [CHR 0xC4, CHR 0xB1] @ '' kar'' @ [CHR 0xC5, CHR 0x9F, CHR 0xC4, CHR 0xB1] @ ''la'' @ [CHR 0xC5, CHR 0x9F] @ ''t'' @ [CHR 0xC4, CHR 0xB1] @ ''r''), YStr ''cross_verified''),
       ((''Sivil toplum do'' @ [CHR 0xC4, CHR 0x9F] @ ''rulamas'' @ [CHR 0xC4, CHR 0xB1]), YStr ''cross_verified''),
       (''Hepsini dene'', YStr ''cross_verified'')])])]),
    (''cross_verified'', YMap [
     (''type'', YStr ''intermediate''),
     (''max_reentries'', YInt 2),
     (''validators'', YList [YStr ''CrossReferenceCheck'']),
     (''hitl'', YMap [
      (''ask_if'', YList [
       YMap [
        (''condition'', YStr ''drift_count > 0''),
        (''question'', YStr (''Kaynaklar aras'' @ [CHR 0xC4, CHR 0xB1] @ ''nda tutars'' @ [CHR 0xC4, CHR 0xB1] @ ''zl'' @ [CHR 0xC4, CHR 0xB1] @ ''k var ({{drift_count}} kaynak). Yine de yay'' @ [CHR 0xC4, CHR 0xB1] @ ''nlamak istiyor musun?'')),
        (''type'', YStr ''multiple_choice''),
        (''choices'', YList [
         YStr (''Yay'' @ [CHR 0xC4, CHR 0xB1] @ ''nla''),
         YStr (''Tekrar do'' @ [CHR 0xC4, CHR 0x9F] @ ''rula''),
         YStr (''Ar'' @ [CHR 0xC5, CHR 0x9F] @ ''ivle'')]),
        (''on_timeout'', YStr ''hold'')]]),
      (''resume_transitions'', YMap [
       ((''Yay'' @ [CHR 0xC4, CHR 0xB1] @ ''nla''), YStr ''published''),
       ((''Tekrar do'' @ [CHR 0xC4, CHR 0x9F] @ ''rula''), YStr ''fact_checking''),
       ((''Ar'' @ [CHR 0xC5, CHR 0x9F] @ ''ivle''), YStr ''archived'')])])]),
    (''published'', YMap [
     (''type'', YStr ''pause''),
     (''max_reentries'', YInt 1),
     (''temporal'', YMap [
      (''max_idle'', YInt 86400),
      (''reminders'', YList [
       YMap [
        (''after'', YInt 43200),
        (''message'', YStr (''Yay'' @ [CHR 0xC4, CHR 0xB1] @ ''n '' @ [CHR 0xC3, CHR 0xB6] @ ''ncesi son onay bekliyor''))]])]),
     (''hitl'', YMap [
      (''ask_user'', YList [
       YMap [
        (''question'', YStr (''Haber yay'' @ [CHR 0xC4, CHR 0xB1] @ ''na haz'' @ [CHR 0xC4, CHR 0xB1] @ ''r m'' @ [CHR 0xC4, CHR 0xB1] @ ''?'')),
        (''type'', YStr ''yes_no''),
        (''timeout'', YInt 86400)]]),
      (''ask_if'', YList [
       YMap [
        (''condition'', YStr ''reentry_count > 0''),
        (''question'', YStr (''Bu haber daha '' @ [CHR 0xC3, CHR 0xB6] @ ''nce yay'' @ [CHR 0xC4, CHR 0xB1] @ ''ndan '' @ [CHR 0xC3, CHR 0xA7] @ ''ekildi. Tekrar yay'' @ [CHR 0xC4, CHR 0xB1] @ ''nlamak istedi'' @ [CHR 0xC4, CHR 0x9F] @ ''ine emin misin?'')),
        (''type'', YStr ''yes_no''),
        (''on_timeout'', YStr ''hold'')]]),
      (''resume_transitions'', YMap [(''yes'', YStr ''published_active''), (''no'', YStr ''correction_needed'')])])]),
    (''published_active'', YMap [(''type'', YStr ''intermediate''), (''max_reentries'', YInt 0)]),
    (''correction_needed'', YMap [
     (''type'', YStr ''pause''),
     (''max_reentries'', YInt 3),
     (''hitl'', YMap [
      (''ask_user'', YList [
       YMap [
        (''question'', YStr (''D'' @ [CHR 0xC3, CHR 0xBC] @ ''zeltme metnini onayl'' @ [CHR 0xC4, CHR 0xB1] @ ''yor musun?'')),
        (''type'', YStr ''yes_no''),
        (''timeout'', YInt 86400)]]),
      (''ask_if'', YList [
       YMap [
        (''condition'', YStr ''reentry_count >= 2''),
        (''question'', YStr (''2. kez d'' @ [CHR 0xC3, CHR 0xBC] @ ''zeltme yap'' @ [CHR 0xC4, CHR 0xB1] @ ''l'' @ [CHR 0xC4, CHR 0xB1] @ ''yor. Haberi tamamen geri '' @ [CHR 0xC3, CHR 0xA7] @ ''ekelim mi?'')),
        (''type'', YStr ''yes_no''),
        (''on_timeout'', YStr ''proceed'')]]),
      (''resume_transitions'', YMap [(''yes'', YStr ''corrected''), (''no'', YStr ''retracted'')])])]),
    (''corrected'', YMap [(''type'', YStr ''intermediate''), (''max_reentries'', YInt 1)]),
    (''retracted'', YMap [(''type'', YStr ''intermediate''), (''max_reentries'', YInt 0)]),
    (''archived'', YMap [(''type'', YStr ''terminal''), (''max_reentries'', YInt 0)])]),
   (''transitions'', YMap [
    (''captured -> fact_checking'', YMap []),
    (''captured -> archived'', YMap [(''condition'', YStr ''project_abandoned'')]),
    (''fact_checking -> cross_verified'', YMap []),
    (''fact_checking -> archived'', YMap [(''condition'', YStr ''max_iterations_exceeded'')]),
    (''cross_verified -> published'', YMap [(''condition'', YStr ''human_approved'')]),
    (''cross_verified -> fact_checking'', YMap [(''condition'', YStr ''changes_requested'')]),
    (''cross_verified -> archived'', YMap [(''condition'', YStr ''project_abandoned'')]),
    (''published -> published_active'', YMap [(''condition'', YStr ''human_approved'')]),
    (''published -> correction_needed'', YMap [(''condition'', YStr ''changes_requested'')]),
    (''published_active -> correction_needed'', YMap [(''condition'', YStr ''drift_detected'')]),
    (''correction_needed -> corrected'', YMap [(''condition'', YStr ''human_approved'')]),
    (''correction_needed -> retracted'', YMap [(''condition'', YStr ''project_abandoned'')]),
    (''corrected -> archived'', YMap []),
    (''retracted -> archived'', YMap [])])]"

definition software_sm :: yaml where
  "software_sm = YMap [
   (''profile'', YStr ''software''),
   (''name'', YStr ''dev-cycle''),
   (''version'', YFloat 2),
   (''formal_properties'', YMap [(''termination'', YMap [(''max_steps'', YInt 100)])]),
   (''states'', YMap [
    (''spec'', YMap [
     (''type'', YStr ''initial''),
     (''max_reentries'', YInt 1),
     (''timeout'', YInt 3600),
     (''validators'', YList [YStr ''SpecCheck'']),
     (''hitl'', YMap [
      (''ask_user'', YList [
       YMap [
        (''question'', YStr (''Spec'' @ [CHR 0x27] @ ''i onayl'' @ [CHR 0xC4, CHR 0xB1] @ ''yor musun?'')),
        (''type'', YStr ''yes_no''),
        (''timeout'', YInt 3600)]]),
      (''resume_transitions'', YMap [(''yes'', YStr ''prototyping''), (''no'', YStr ''spec'')])])]),
    (''prototyping'', YMap [
     (''type'', YStr ''intermediate''),
     (''max_reentries'', YInt 5),
     (''timeout'', YInt 7200),
     (''validators'', YList [YStr ''BuildCheck'']),
     (''hitl'', YMap [
      (''ask_user'', YList [
       YMap [
        (''question'', YStr (''Prototip '' @ [CHR 0xC3, CHR 0xA7] @ ''al'' @ [CHR 0xC4, CHR 0xB1, CHR 0xC5, CHR 0x9F, CHR 0xC4, CHR 0xB1] @ ''yor mu? Iterasyon'' @ [CHR 0x27] @ ''a ge'' @ [CHR 0xC3, CHR 0xA7] @ ''elim mi?'')),
        (''type'', YStr ''yes_no''),
        (''timeout'', YInt 7200)]]),
      (''ask_if'', YList [
       YMap [
        (''condition'', YStr ''reentry_count >= 3''),
        (''question'', YStr (''3. prototype denemesi. Yakla'' @ [CHR 0xC5, CHR 0x9F, CHR 0xC4, CHR 0xB1] @ ''m'' @ [CHR 0xC4, CHR 0xB1] @ '' de'' @ [CHR 0xC4, CHR 0x9F] @ ''i'' @ [CHR 0xC5, CHR 0x9F] @ ''tirmek ister misin?'')),
        (''type'', YStr ''yes_no''),
        (''on_timeout'', YStr ''proceed'')]]),
      (''resume_transitions'', YMap [(''yes'', YStr ''iteration''), (''no'', YStr ''spec'')])])]),
    (''iteration'', YMap [
     (''type'', YStr ''intermediate''),
     (''max_reentries'', YInt 10),
     (''timeout'', YInt 86400),
     (''validators'', YList [YStr ''TestCheck'', YStr ''LintCheck'']),
     (''hitl'', YMap [
      (''ask_if'', YList [
       YMap [
        (''condition'', YStr ''iteration_count >= 5 AND iteration_count % 5 == 0''),
        (''question'', YStr (''5 iterasyon tamamland'' @ [CHR 0xC4, CHR 0xB1] @ ''. Review'' @ [CHR 0x27] @ ''a ge'' @ [CHR 0xC3, CHR 0xA7] @ ''elim mi, yoksa devam m'' @ [CHR 0xC4, CHR 0xB1] @ ''?'')),
        (''type'', YStr ''multiple_choice''),
        (''choices'', YList [YStr (''Review'' @ [CHR 0x27] @ ''a ge'' @ [CHR 0xC3, CHR 0xA7]), YStr ''Devam et'', YStr ''Block et'']),
        (''on_timeout'', YStr ''proceed'')]])])]),
    (''review'', YMap [
     (''type'', YStr ''pause''),
     (''max_reentries'', YNull),
     (''timeout'', YInt 2592000),
     (''temporal'', YMap [
      (''max_idle'', YInt 259200),
      (''reminders'', YList [
       YMap [(''after'', YInt 86400), (''message'', YStr ''Review bekliyor'')],
       YMap [
        (''after'', YInt 259200),
        (''message'', YStr (''3 g'' @ [CHR 0xC3, CHR 0xBC] @ ''nd'' @ [CHR 0xC3, CHR 0xBC] @ ''r review'' @ [CHR 0x27] @ ''da, escalation''))]])]),
     (''hitl'', YMap [
      (''ask_user'', YList [
       YMap [
        (''question'', YStr (''Release'' @ [CHR 0x27] @ ''e haz'' @ [CHR 0xC4, CHR 0xB1] @ ''r m'' @ [CHR 0xC4, CHR 0xB1] @ ''?'')),
        (''type'', YStr ''yes_no''),
        (''timeout'', YInt 604800)]]),
      (''ask_if'', YList [
       YMap [
        (''condition'', YStr ''reentry_count > 0''),
        (''question'', YStr (''Bu review'' @ [CHR 0x27] @ ''a daha '' @ [CHR 0xC3, CHR 0xB6] @ ''nce de geldi. Major de'' @ [CHR 0xC4, CHR 0x9F] @ ''i'' @ [CHR 0xC5, CHR 0x9F] @ ''iklik mi yapal'' @ [CHR 0xC4, CHR 0xB1] @ ''m, yoksa minor fix mi?'')),
        (''type'', YStr ''multiple_choice''),
        (''choices'', YList [
         YStr ''Release'',
         YStr ''Minor fix'',
         YStr (''Major de'' @ [CHR 0xC4, CHR 0x9F] @ ''i'' @ [CHR 0xC5, CHR 0x9F] @ ''iklik'')]),
        (''on_timeout'', YStr ''hold'')]]),
      (''resume_transitions'', YMap [
       (''yes'', YStr ''release''),
       (''Release'', YStr ''release''),
       (''Minor fix'', YStr ''iteration''),
       ((''Major de'' @ [CHR 0xC4, CHR 0x9F] @ ''i'' @ [CHR 0xC5, CHR 0x9F] @ ''iklik''), YStr ''prototyping''),
       (''no'', YStr ''iteration'')])])]),
    (''release'', YMap [(''type'', YStr ''terminal''), (''max_reentries'', YInt 0)]),
    (''blocked'', YMap [
     (''type'', YStr ''pause''),
     (''requires_manual'', YBool True),
     (''hitl'', YMap [
      (''ask_user'', YList [
       YMap [
        (''question'', YStr (''Block'' @ [CHR 0x27] @ ''u kald'' @ [CHR 0xC4, CHR 0xB1] @ ''rmak i'' @ [CHR 0xC3, CHR 0xA7] @ ''in ne yapal'' @ [CHR 0xC4, CHR 0xB1] @ ''m?'')),
        (''type'', YStr ''multiple_choice''),
        (''choices'', YList [
         YStr (''Yakla'' @ [CHR 0xC5, CHR 0x9F, CHR 0xC4, CHR 0xB1] @ ''m de'' @ [CHR 0xC4, CHR 0x9F] @ ''i'' @ [CHR 0xC5, CHR 0x9F] @ ''tir''),
         YStr ''Spec revize et'',
         YStr ([CHR 0xC4, CHR 0xB0] @ ''ptal et'')]),
        (''timeout'', YInt 604800)]]),
      (''resume_transitions'', YMap [
       ((''Yakla'' @ [CHR 0xC5, CHR 0x9F, CHR 0xC4, CHR 0xB1] @ ''m de'' @ [CHR 0xC4, CHR 0x9F] @ ''i'' @ [CHR 0xC5, CHR 0x9F] @ ''tir''), YStr ''iteration''),
       (''Spec revize et'', YStr ''spec''),
       (([CHR 0xC4, CHR 0xB0] @ ''ptal et''), YStr ''cancelled'')])])]),
    (''cancelled'', YMap [(''type'', YStr ''terminal''), (''max_reentries'', YInt 0)])]),
   (''transitions'', YMap [
    (''spec -> prototyping'', YMap [(''type'', YStr ''REVERSIBLE'')]),
    (''prototyping -> iteration'', YMap [(''type'', YStr ''REVERSIBLE''), (''condition'', YStr ''prototype_passes(spec)'')]),
    (''iteration -> iteration'', YMap [(''type'', YStr ''REVERSIBLE'')]),
    (''iteration -> review'', YMap [(''type'', YStr ''REVERSIBLE''), (''condition'', YStr ''iterations >= 4'')]),
    (''iteration -> blocked'', YMap [(''type'', YStr ''REVERSIBLE''), (''condition'', YStr ''consecutive_failures >= 3'')]),
    (''iteration -> cancelled'', YMap [(''type'', YStr ''REVERSIBLE''), (''condition'', YStr ''max_iterations_exceeded'')]),
    (''review -> release'', YMap [(''type'', YStr ''COMPENSABLE''), (''condition'', YStr ''human_approved'')]),
    (''review -> iteration'', YMap [(''type'', YStr ''REVERSIBLE''), (''condition'', YStr ''changes_requested'')]),
    (''review -> cancelled'', YMap [(''type'', YStr ''REVERSIBLE''), (''condition'', YStr ''project_abandoned'')]),
    (''blocked -> iteration'', YMap [(''type'', YStr ''REVERSIBLE''), (''condition'', YStr ''manual_unblock'')])])]"

subsection \<open>Validators, adapters, stores and budgets\<close>

definition content_profile :: ProductProfile where
  "content_profile = new_profile ''content'' ''2.1''
     ''Content production pipeline with 10-state lifecycle + HITL v1.1'' (Some content_sm)"

definition content_validators :: "ProductProfile \<Rightarrow> ProductProfile" where
  "content_validators p = fold add_validator [
     (validator_def ''SlopScanT1'' T1 True)\<lparr>vd_timeout := 10\<rparr>,
     (validator_def ''LengthCheck'' T1 False)\<lparr>vd_timeout := 5\<rparr>,
     (validator_def ''SchemaCheck'' T1 False)\<lparr>vd_timeout := 5\<rparr>] p"

definition content_adapters :: "ProductProfile \<Rightarrow> ProductProfile" where
  "content_adapters p = fold add_adapter [
     (adapter_def ''Buffer'' ''buffer'')\<lparr>ad_max_retries := 2, ad_threshold := 3, ad_fallback_mode := ''file''\<rparr>,
     (adapter_def ''FileOutput'' ''file'')\<lparr>ad_fallback_mode := ''file''\<rparr>] p"

definition content_budget :: "ProductProfile \<Rightarrow> ProductProfile" where
  "content_budget p = p\<lparr>pp_budget := default_budget\<lparr>max_concurrent_validators := 2, max_llm_calls_per_run := 20, max_storage_mb := 100, timeout_per_state := 3600, soft_limit_usd := 1, hard_limit_usd := 5\<rparr>\<rparr>"

definition content_stores :: "ProductProfile \<Rightarrow> ProductProfile" where
  "content_stores p = fold add_store [
     \<lparr>store_name = ''hooks'', store_type = ''markdown'', store_path = ''stores/hooks/'', store_required = False\<rparr>,
     \<lparr>store_name = ''proof'', store_type = ''markdown'', store_path = ''stores/proof/'', store_required = False\<rparr>,
     \<lparr>store_name = ''ideas'', store_type = ''markdown'', store_path = ''stores/ideas/'', store_required = False\<rparr>] p"

definition content_setup :: "ProductProfile \<Rightarrow> ProductProfile" where
  "content_setup p = content_budget (content_stores (content_adapters (content_validators p)))"

definition design_profile :: ProductProfile where
  "design_profile = new_profile ''design'' ''2.0''
     (''UI/UX design: brief '' @ [CHR 0xE2, CHR 0x86, CHR 0x92] @ '' research '' @ [CHR 0xE2, CHR 0x86, CHR 0x92] @ '' sketch '' @ [CHR 0xE2, CHR 0x86, CHR 0x92] @ '' wireframe '' @ [CHR 0xE2, CHR 0x86, CHR 0x92] @ '' mockup '' @ [CHR 0xE2, CHR 0x86, CHR 0x92] @ '' prototype '' @ [CHR 0xE2, CHR 0x86, CHR 0x92] @ '' review '' @ [CHR 0xE2, CHR 0x86, CHR 0x92] @ '' handoff + HITL'') (Some design_sm)"

definition design_validators :: "ProductProfile \<Rightarrow> ProductProfile" where
  "design_validators p = fold add_validator [
     (validator_def ''BriefCheck'' T1 True)\<lparr>vd_timeout := 10\<rparr>,
     (validator_def ''ResearchCheck'' T1 True)\<lparr>vd_timeout := 15\<rparr>,
     (validator_def ''AccessibilityCheck'' T1 True)\<lparr>vd_timeout := 20\<rparr>,
     (validator_def ''DesignSystemCheck'' T1 False)\<lparr>vd_timeout := 10\<rparr>,
     (validator_def ''ResponsiveCheck'' T1 True)\<lparr>vd_timeout := 30\<rparr>,
     (validator_def ''InteractionCheck'' T1 False)\<lparr>vd_timeout := 15\<rparr>] p"

definition design_adapters :: "ProductProfile \<Rightarrow> ProductProfile" where
  "design_adapters p = fold add_adapter [
     (adapter_def ''FigmaAPI'' ''api'')\<lparr>ad_max_retries := 3, ad_threshold := 3, ad_fallback_mode := ''file''\<rparr>,
     (adapter_def ''PNGExport'' ''file'')\<lparr>ad_fallback_mode := ''file''\<rparr>,
     (adapter_def ''Zeplin'' ''api'')\<lparr>ad_max_retries := 2, ad_fallback_mode := ''file''\<rparr>] p"

definition design_stores :: "ProductProfile \<Rightarrow> ProductProfile" where
  "design_stores p = fold add_store [
     \<lparr>store_name = ''design_system'', store_type = ''json'', store_path = ''stores/design-system/'', store_required = False\<rparr>,
     \<lparr>store_name = ''assets'', store_type = ''png'', store_path = ''stores/assets/'', store_required = False\<rparr>,
     \<lparr>store_name = ''feedback'', store_type = ''markdown'', store_path = ''stores/feedback/'', store_required = False\<rparr>] p"

definition design_budget :: "ProductProfile \<Rightarrow> ProductProfile" where
  "design_budget p = p\<lparr>pp_budget := default_budget\<lparr>max_concurrent_validators := 3, max_llm_calls_per_run := 15, max_storage_mb := 1000, timeout_per_state := 172800, soft_limit_usd := 2, hard_limit_usd := 10\<rparr>\<rparr>"

definition design_setup :: "ProductProfile \<Rightarrow> ProductProfile" where
  "design_setup p = design_budget (design_stores (design_adapters (design_validators p)))"

definition research_profile :: ProductProfile where
  "research_profile = new_profile ''research'' ''2.0''
     (''Academic research: topic '' @ [CHR 0xE2, CHR 0x86, CHR 0x92] @ '' lit review '' @ [CHR 0xE2, CHR 0x86, CHR 0x92] @ '' hypothesis '' @ [CHR 0xE2, CHR 0x86, CHR 0x92] @ '' experiment '' @ [CHR 0xE2, CHR 0x86, CHR 0x92] @ '' paper '' @ [CHR 0xE2, CHR 0x86, CHR 0x92] @ '' publish + HITL'') (Some research_sm)"

definition research_validators :: "ProductProfile \<Rightarrow> ProductProfile" where
  "research_validators p = fold add_validator [
     (validator_def ''ScopeCheck'' T1 True)\<lparr>vd_timeout := 10\<rparr>,
     (validator_def ''CitationCheck'' T1 True)\<lparr>vd_timeout := 15\<rparr>,
     (validator_def ''MethodologyCheck'' T1 False)\<lparr>vd_timeout := 10\<rparr>,
     (validator_def ''StatisticalCheck'' T1 False)\<lparr>vd_timeout := 10\<rparr>] p"

definition research_adapters :: "ProductProfile \<Rightarrow> ProductProfile" where
  "research_adapters p = fold add_adapter [
     (adapter_def ''PDFExport'' ''file'')\<lparr>ad_fallback_mode := ''file''\<rparr>,
     (adapter_def ''ArXiv'' ''web'')\<lparr>ad_max_retries := 2, ad_threshold := 3, ad_fallback_mode := ''file''\<rparr>,
     (adapter_def ''Zotero'' ''api'')\<lparr>ad_max_retries := 2, ad_fallback_mode := ''file''\<rparr>] p"

definition research_stores :: "ProductProfile \<Rightarrow> ProductProfile" where
  "research_stores p = fold add_store [
     \<lparr>store_name = ''references'', store_type = ''bibtex'', store_path = ''stores/references/'', store_required = True\<rparr>,
     \<lparr>store_name = ''data'', store_type = ''csv'', store_path = ''stores/data/'', store_required = False\<rparr>,
     \<lparr>store_name = ''figures'', store_type = ''png'', store_path = ''stores/figures/'', store_required = False\<rparr>] p"

definition research_budget :: "ProductProfile \<Rightarrow> ProductProfile" where
  "research_budget p = p\<lparr>pp_budget := default_budget\<lparr>max_concurrent_validators := 2, max_llm_calls_per_run := 50, max_storage_mb := 500, timeout_per_state := 604800, soft_limit_usd := 5, hard_limit_usd := 20\<rparr>\<rparr>"

definition research_setup :: "ProductProfile \<Rightarrow> ProductProfile" where
  "research_setup p = research_budget (research_stores (research_adapters (research_validators p)))"

definition haber_profile :: ProductProfile where
  "haber_profile = new_profile ''haber'' ''2.0''
     (''News verification: capture '' @ [CHR 0xE2, CHR 0x86, CHR 0x92] @ '' fact-check '' @ [CHR 0xE2, CHR 0x86, CHR 0x92] @ '' cross-verify '' @ [CHR 0xE2, CHR 0x86, CHR 0x92] @ '' publish '' @ [CHR 0xE2, CHR 0x86, CHR 0x92] @ '' correct + HITL'') (Some haber_sm)"

definition haber_validators :: "ProductProfile \<Rightarrow> ProductProfile" where
  "haber_validators p = fold add_validator [
     (validator_def ''SourceCheck'' T1 True)\<lparr>vd_timeout := 10\<rparr>,
     (validator_def ''FactCheck'' T2 True)\<lparr>vd_timeout := 120\<rparr>,
     (validator_def ''HallucinationCheck'' T2 True)\<lparr>vd_timeout := 60\<rparr>,
     (validator_def ''CrossReferenceCheck'' T3 False)\<lparr>vd_timeout := 180\<rparr>] p"

definition haber_adapters :: "ProductProfile \<Rightarrow> ProductProfile" where
  "haber_adapters p = fold add_adapter [
     (adapter_def ''Memos'' ''api'')\<lparr>ad_max_retries := 2, ad_fallback_mode := ''file''\<rparr>,
     (adapter_def ''FileOutput'' ''file'')\<lparr>ad_fallback_mode := ''file''\<rparr>] p"

definition haber_stores :: "ProductProfile \<Rightarrow> ProductProfile" where
  "haber_stores p = fold add_store [
     \<lparr>store_name = ''sources'', store_type = ''json'', store_path = ''stores/sources/'', store_required = False\<rparr>,
     \<lparr>store_name = ''corrections'', store_type = ''markdown'', store_path = ''stores/corrections/'', store_required = False\<rparr>] p"

definition haber_budget :: "ProductProfile \<Rightarrow> ProductProfile" where
  "haber_budget p = p\<lparr>pp_budget := default_budget\<lparr>max_concurrent_validators := 3, max_llm_calls_per_run := 30, max_storage_mb := 50, timeout_per_state := 86400, soft_limit_usd := 1 / 2, hard_limit_usd := 2\<rparr>\<rparr>"

definition haber_setup :: "ProductProfile \<Rightarrow> ProductProfile" where
  "haber_setup p = haber_budget (haber_stores (haber_adapters (haber_validators p)))"

definition software_profile :: ProductProfile where
  "software_profile = new_profile ''software'' ''2.0''
     (''Software development: spec '' @ [CHR 0xE2, CHR 0x86, CHR 0x92] @ '' prototype '' @ [CHR 0xE2, CHR 0x86, CHR 0x92] @ '' iterate '' @ [CHR 0xE2, CHR 0x86, CHR 0x92] @ '' review '' @ [CHR 0xE2, CHR 0x86, CHR 0x92] @ '' release + HITL'') (Some software_sm)"

definition software_validators :: "ProductProfile \<Rightarrow> ProductProfile" where
  "software_validators p = fold add_validator [
     validator_def ''SpecCheck'' T1 True,
     validator_def ''BuildCheck'' T1 True,
     validator_def ''TestCheck'' T1 False,
     validator_def ''LintCheck'' T1 False] p"

definition software_adapters :: "ProductProfile \<Rightarrow> ProductProfile" where
  "software_adapters p = fold add_adapter [
     (adapter_def ''GitHubRelease'' ''github'')\<lparr>ad_max_retries := 2\<rparr>,
     (adapter_def ''FileOutput'' ''file'')\<lparr>ad_fallback_mode := ''file''\<rparr>] p"

definition software_budget :: "ProductProfile \<Rightarrow> ProductProfile" where
  "software_budget p = p\<lparr>pp_budget := default_budget\<lparr>max_concurrent_validators := 3, max_llm_calls_per_run := 10, max_storage_mb := 200, timeout_per_state := 86400, soft_limit_usd := 2, hard_limit_usd := 10\<rparr>\<rparr>"

definition software_setup :: "ProductProfile \<Rightarrow> ProductProfile" where
  "software_setup p = software_budget (software_adapters (software_validators p))"

end
