(* ===== verification/Profiles.thy ===== *)
theory Profiles
  imports Profile_Data Runtime
begin

text \<open>
  What the machines of the shipped profiles let the engine do. A machine is condensed to a
  table of its states, transitions and resume answers, which decides \<open>can_transition\<close>; the
  tables are computed from the YAML values by evaluation. The run manager builds a new runtime
  for every check, so the verdict depends on the iteration count and the overrides alone, and
  the engine passes overrides only when a pause is resumed or aborted.
\<close>

subsection \<open>Tables\<close>

record machine_table =
  tb_states :: "(string \<times> StateType \<times> int option) list"
  tb_edges :: "(string \<times> string \<times> string option \<times> bool) list"
  tb_resume :: "(string \<times> (string, string) dict) list"

definition answers_of :: "StateDefinition \<Rightarrow> (string, string) dict" where
  "answers_of sd = (case hitl sd of None \<Rightarrow> [] | Some h \<Rightarrow> resume_transitions h)"

definition table_of :: "StateMachine \<Rightarrow> machine_table" where
  "table_of sm = \<lparr>
     tb_states = map (\<lambda>(n, sd). (n, state_type sd, max_reentries sd)) (states (sm_config sm)),
     tb_edges = map (\<lambda>x. (from_state x, to_state x, condition x, requires_human x)) (transitions (sm_config sm)),
     tb_resume = map (\<lambda>(n, sd). (n, answers_of sd)) (filter (\<lambda>(n, sd). answers_of sd \<noteq> []) (states (sm_config sm)))\<rparr>"

definition load_table :: "yaml \<Rightarrow> machine_table option" where
  "load_table y = (case load_machine y of Inl e \<Rightarrow> None | Inr sm \<Rightarrow> Some (table_of sm))"

fun edge_open :: "string option \<times> bool \<Rightarrow> RuntimeState \<Rightarrow> bool" where
  "edge_open (c, human) r \<longleftrightarrow> \<not> human \<and> (case c of None \<Rightarrow> True | Some c \<Rightarrow> c = [] \<or> evaluate_condition c r)"

definition reentry_barred :: "machine_table \<Rightarrow> string \<Rightarrow> string \<Rightarrow> RuntimeState \<Rightarrow> bool" where
  "reentry_barred tb f t r \<longleftrightarrow> f = t \<and>
     (case map_of (tb_states tb) t of Some (ty, Some n) \<Rightarrow> reentry_count r \<ge> n | _ \<Rightarrow> False)"

definition first_edge :: "machine_table \<Rightarrow> string \<Rightarrow> string \<Rightarrow> (string option \<times> bool) option" where
  "first_edge tb f t =
     (case filter (\<lambda>(a, b, e). a = f \<and> b = t) (tb_edges tb) of [] \<Rightarrow> None | (a, b, e) # _ \<Rightarrow> Some e)"

definition table_allows :: "machine_table \<Rightarrow> string \<Rightarrow> string \<Rightarrow> RuntimeState \<Rightarrow> bool" where
  "table_allows tb f t r \<longleftrightarrow>
     (case map_of (tb_states tb) f of None \<Rightarrow> False | Some (ty, mr) \<Rightarrow> ty \<noteq> TERMINAL) \<and>
     map_of (tb_states tb) t \<noteq> None \<and> \<not> reentry_barred tb f t r \<and>
     (case first_edge tb f t of None \<Rightarrow> False | Some e \<Rightarrow> edge_open e r)"

lemma map_of_map_snd: "map_of (map (\<lambda>(n, s). (n, g s)) d) k = map_option g (map_of d k)"
  by (induction d) auto

lemma load_machine_map: "load_machine y = Inr sm \<Longrightarrow> sm_transition_map sm = build_transition_map (transitions (sm_config sm))"
  by (auto simp: load_machine_def init_machine_def try_bind_Inr Let_def split: sum.splits)

theorem table_decides:
  assumes "load_machine y = Inr sm"
  shows "fst (fst (can_transition sm f t r None)) = table_allows (table_of sm) f t r"
proof -
  let ?c = "sm_config sm"
  have st: "map_of (tb_states (table_of sm)) k = map_option (\<lambda>sd. (state_type sd, max_reentries sd)) (dict_get (states ?c) k)" for k
    by (simp add: table_of_def map_of_map_snd [where g = "\<lambda>sd. (state_type sd, max_reentries sd)"])
  have "filter (\<lambda>x. to_state x = t) (transitions_from (sm_transition_map sm) f) =
      filter (\<lambda>x. from_state x = f \<and> to_state x = t) (transitions ?c)"
    by (simp add: load_machine_map [OF assms] transitions_from_build conj_commute)
  moreover have "filter (\<lambda>(a, b, e). a = f \<and> b = t) (tb_edges (table_of sm)) =
      map (\<lambda>x. (from_state x, to_state x, condition x, requires_human x))
        (filter (\<lambda>x. from_state x = f \<and> to_state x = t) (transitions ?c))"
    by (simp add: table_of_def filter_map comp_def)
  ultimately have edge: "(case first_edge (table_of sm) f t of None \<Rightarrow> False | Some e \<Rightarrow> edge_open e r) =
      (case filter (\<lambda>x. to_state x = t) (transitions_from (sm_transition_map sm) f) of
        [] \<Rightarrow> False | x # _ \<Rightarrow> \<not> requires_human x \<and> condition_holds x r)"
    by (cases "filter (\<lambda>x. from_state x = f \<and> to_state x = t) (transitions ?c)")
      (simp_all add: first_edge_def condition_holds_def split: option.split)
  have barred: "reentry_barred (table_of sm) f t r = (reentry_exceeded sm f t r \<noteq> None)"
    by (auto simp: reentry_barred_def st reentry_exceeded_def split: option.split)
  show ?thesis
  proof (cases "dict_get (states ?c) f")
    case None
    then show ?thesis by (simp add: can_transition_def find_transition_def table_allows_def st)
  next
    case f: (Some sf)
    show ?thesis
    proof (cases "dict_get (states ?c) t")
      case None
      with f show ?thesis by (simp add: can_transition_def find_transition_def table_allows_def st)
    next
      case (Some tf)
      let ?xs = "filter (\<lambda>x. to_state x = t) (transitions_from (sm_transition_map sm) f)"
      have "fst (fst (can_transition sm f t r None)) =
          (state_type sf \<noteq> TERMINAL \<and> reentry_exceeded sm f t r = None \<and>
           (case ?xs of [] \<Rightarrow> False | x # _ \<Rightarrow> \<not> requires_human x \<and> condition_holds x r))"
        using f Some by (cases ?xs; cases "reentry_exceeded sm f t r")
          (simp_all add: can_transition_def find_transition_def)
      with f Some barred show ?thesis by (auto simp: table_allows_def edge st)
    qed
  qed
qed

text \<open>The tables of the six machines.\<close>

definition content_table :: machine_table where
  "content_table = \<lparr>
     tb_states = [(''captured'', INITIAL, Some 1), (''decide_route'', INTERMEDIATE, Some 3), (''idea_review'', INTERMEDIATE, Some 3), (''brief_ready'', INTERMEDIATE, Some 5), (''drafting'', INTERMEDIATE, Some 10), (''verification'', INTERMEDIATE, Some 10), (''draft_review'', PAUSE, None), (''approved'', INTERMEDIATE, Some 1), (''published'', INTERMEDIATE, Some 1), (''archived'', TERMINAL, Some 0)],
     tb_edges = [(''captured'', ''decide_route'', None, False),
       (''decide_route'', ''idea_review'', None, False),
       (''idea_review'', ''brief_ready'', None, False),
       (''idea_review'', ''captured'', None, False),
       (''brief_ready'', ''drafting'', None, False),
       (''brief_ready'', ''idea_review'', None, False),
       (''drafting'', ''verification'', None, False),
       (''drafting'', ''drafting'', Some ''drift_detected'', False),
       (''verification'', ''draft_review'', None, False),
       (''verification'', ''drafting'', Some ''drift_detected'', False),
       (''draft_review'', ''approved'', Some ''human_approved'', False),
       (''draft_review'', ''drafting'', Some ''changes_requested'', False),
       (''approved'', ''published'', None, False),
       (''published'', ''archived'', None, False)],
     tb_resume = [(''decide_route'', [(''Blog'', ''idea_review''), (''Newsletter'', ''idea_review''), (''Twitter/X'', ''idea_review''), (''Hepsi'', ''idea_review'')]),
       (''idea_review'', [(''yes'', ''brief_ready''), (''evet'', ''brief_ready''), (''no'', ''captured''), ((''hay'' @ [CHR 0xC4, CHR 0xB1] @ ''r''), ''captured'')]),
       (''brief_ready'', [(''yes'', ''drafting''), (''evet'', ''drafting''), (''no'', ''idea_review''), ((''hay'' @ [CHR 0xC4, CHR 0xB1] @ ''r''), ''idea_review'')]),
       (''draft_review'', [(''yes'', ''approved''), (''evet'', ''approved''), ((''Yay'' @ [CHR 0xC4, CHR 0xB1] @ ''nla''), ''approved''), (''no'', ''drafting''), ((''hay'' @ [CHR 0xC4, CHR 0xB1] @ ''r''), ''drafting''), ((''D'' @ [CHR 0xC3, CHR 0xBC] @ ''zelt''), ''drafting'')])]\<rparr>"

definition content_v1_table :: machine_table where
  "content_v1_table = \<lparr>
     tb_states = [(''captured'', INITIAL, Some 1), (''idea_review'', INTERMEDIATE, Some 3), (''brief_ready'', INTERMEDIATE, Some 5), (''drafting'', INTERMEDIATE, Some 10), (''verification'', INTERMEDIATE, Some 10), (''draft_review'', INTERMEDIATE, None), (''approved'', INTERMEDIATE, Some 1), (''published'', INTERMEDIATE, Some 1), (''archived'', TERMINAL, Some 0)],
     tb_edges = [(''captured'', ''idea_review'', None, False),
       (''idea_review'', ''brief_ready'', None, False),
       (''brief_ready'', ''drafting'', None, False),
       (''drafting'', ''verification'', None, False),
       (''drafting'', ''drafting'', Some ''drift_detected'', False),
       (''verification'', ''draft_review'', None, False),
       (''verification'', ''drafting'', Some ''drift_detected'', False),
       (''draft_review'', ''approved'', Some ''human_approved'', False),
       (''draft_review'', ''drafting'', Some ''changes_requested'', False),
       (''approved'', ''published'', None, False),
       (''published'', ''archived'', None, False)],
     tb_resume = []\<rparr>"

definition design_table :: machine_table where
  "design_table = \<lparr>
     tb_states = [(''brief'', INITIAL, Some 1), (''research'', INTERMEDIATE, Some 3), (''sketch'', INTERMEDIATE, Some 5), (''wireframe'', INTERMEDIATE, Some 5), (''mockup'', INTERMEDIATE, Some 8), (''prototype'', INTERMEDIATE, Some 8), (''review'', PAUSE, None), (''handoff'', TERMINAL, Some 0)],
     tb_edges = [(''brief'', ''research'', Some ''brief_approved'', False),
       (''research'', ''sketch'', Some ''research_complete'', False),
       (''sketch'', ''wireframe'', Some ''sketch_approved'', False),
       (''sketch'', ''sketch'', Some ''drift_detected'', False),
       (''wireframe'', ''mockup'', Some ''wireframe_approved'', False),
       (''wireframe'', ''sketch'', Some ''major_changes_needed'', False),
       (''mockup'', ''prototype'', Some ''mockup_approved'', False),
       (''mockup'', ''wireframe'', Some ''structure_changes_needed'', False),
       (''prototype'', ''review'', Some ''prototype_ready'', False),
       (''prototype'', ''mockup'', Some ''visual_changes_needed'', False),
       (''prototype'', ''prototype'', Some ''drift_detected'', False),
       (''review'', ''handoff'', Some ''review_approved'', False),
       (''review'', ''prototype'', Some ''changes_requested'', False)],
     tb_resume = [(''brief'', [(''yes'', ''research''), (''no'', ''brief'')]),
       (''wireframe'', [(''yes'', ''mockup''), (''no'', ''sketch'')]),
       (''prototype'', [(''yes'', ''review''), (''no'', ''mockup'')]),
       (''review'', [(''yes'', ''handoff''), (''Onayla'', ''handoff''), (''Minor fix'', ''prototype''), (''Major revizyon'', ''wireframe''), (''no'', ''prototype'')])]\<rparr>"

definition research_table :: machine_table where
  "research_table = \<lparr>
     tb_states = [(''topic_selected'', INITIAL, Some 1), (''literature_review'', INTERMEDIATE, Some 5), (''hypothesis'', INTERMEDIATE, Some 3), (''experiment_design'', INTERMEDIATE, Some 5), (''data_collection'', INTERMEDIATE, Some 5), (''analysis'', INTERMEDIATE, Some 5), (''paper_draft'', INTERMEDIATE, Some 10), (''peer_review'', PAUSE, None), (''published'', INTERMEDIATE, Some 1), (''archived'', TERMINAL, Some 0)],
     tb_edges = [(''topic_selected'', ''literature_review'', None, False),
       (''literature_review'', ''hypothesis'', Some ''lit_review_complete'', False),
       (''hypothesis'', ''experiment_design'', Some ''hypothesis_approved'', False),
       (''hypothesis'', ''literature_review'', Some ''lit_review_needed'', False),
       (''experiment_design'', ''data_collection'', Some ''design_approved'', False),
       (''experiment_design'', ''hypothesis'', Some ''hypothesis_revision_needed'', False),
       (''data_collection'', ''analysis'', Some ''data_ready'', False),
       (''data_collection'', ''experiment_design'', Some ''design_revision_needed'', False),
       (''analysis'', ''paper_draft'', Some ''analysis_complete'', False),
       (''analysis'', ''data_collection'', Some ''more_data_needed'', False),
       (''paper_draft'', ''peer_review'', Some ''draft_ready'', False),
       (''paper_draft'', ''paper_draft'', Some ''drift_detected'', False),
       (''peer_review'', ''published'', Some ''review_approved'', False),
       (''peer_review'', ''paper_draft'', Some ''revisions_requested'', False),
       (''published'', ''archived'', None, False)],
     tb_resume = [(''topic_selected'', [(''yes'', ''literature_review''), (''no'', ''topic_selected'')]),
       (''hypothesis'', [(''Hipotez A (null hipotez)'', ''experiment_design''), (''Hipotez B (alternatif)'', ''experiment_design''), ((''Hen'' @ [CHR 0xC3, CHR 0xBC] @ ''z karar vermedim''), ''literature_review'')]),
       (''paper_draft'', [(''yes'', ''peer_review''), (''no'', ''paper_draft'')]),
       (''peer_review'', [(''yes'', ''published''), (''no'', ''paper_draft'')])]\<rparr>"

definition haber_table :: machine_table where
  "haber_table = \<lparr>
     tb_states = [(''captured'', INITIAL, Some 1), (''fact_checking'', INTERMEDIATE, Some 3), (''cross_verified'', INTERMEDIATE, Some 2), (''published'', PAUSE, Some 1), (''published_active'', INTERMEDIATE, Some 0), (''correction_needed'', PAUSE, Some 3), (''corrected'', INTERMEDIATE, Some 1), (''retracted'', INTERMEDIATE, Some 0), (''archived'', TERMINAL, Some 0)],
     tb_edges = [(''captured'', ''fact_checking'', None, False),
       (''captured'', ''archived'', Some ''project_abandoned'', False),
       (''fact_checking'', ''cross_verified'', None, False),
       (''fact_checking'', ''archived'', Some ''max_iterations_exceeded'', False),
       (''cross_verified'', ''published'', Some ''human_approved'', False),
       (''cross_verified'', ''fact_checking'', Some ''changes_requested'', False),
       (''cross_verified'', ''archived'', Some ''project_abandoned'', False),
       (''published'', ''published_active'', Some ''human_approved'', False),
       (''published'', ''correction_needed'', Some ''changes_requested'', False),
       (''published_active'', ''correction_needed'', Some ''drift_detected'', False),
       (''correction_needed'', ''corrected'', Some ''human_approved'', False),
       (''correction_needed'', ''retracted'', Some ''project_abandoned'', False),
       (''corrected'', ''archived'', None, False),
       (''retracted'', ''archived'', None, False)],
     tb_resume = [(''captured'', [(''yes'', ''fact_checking''), (''no'', ''archived'')]),
       (''fact_checking'', [(''Resmi kaynak sorgula'', ''cross_verified''), ((''Haber ajans'' @ [CHR 0xC4, CHR 0xB1] @ '' kar'' @ [CHR 0xC5, CHR 0x9F, CHR 0xC4, CHR 0xB1] @ ''la'' @ [CHR 0xC5, CHR 0x9F] @ ''t'' @ [CHR 0xC4, CHR 0xB1] @ ''r''), ''cross_verified''), ((''Sivil toplum do'' @ [CHR 0xC4, CHR 0x9F] @ ''rulamas'' @ [CHR 0xC4, CHR 0xB1]), ''cross_verified''), (''Hepsini dene'', ''cross_verified'')]),
       (''cross_verified'', [((''Yay'' @ [CHR 0xC4, CHR 0xB1] @ ''nla''), ''published''), ((''Tekrar do'' @ [CHR 0xC4, CHR 0x9F] @ ''rula''), ''fact_checking''), ((''Ar'' @ [CHR 0xC5, CHR 0x9F] @ ''ivle''), ''archived'')]),
       (''published'', [(''yes'', ''published_active''), (''no'', ''correction_needed'')]),
       (''correction_needed'', [(''yes'', ''corrected''), (''no'', ''retracted'')])]\<rparr>"

definition software_table :: machine_table where
  "software_table = \<lparr>
     tb_states = [(''spec'', INITIAL, Some 1), (''prototyping'', INTERMEDIATE, Some 5), (''iteration'', INTERMEDIATE, Some 10), (''review'', PAUSE, None), (''release'', TERMINAL, Some 0), (''blocked'', PAUSE, None), (''cancelled'', TERMINAL, Some 0)],
     tb_edges = [(''spec'', ''prototyping'', None, False),
       (''prototyping'', ''iteration'', Some ''prototype_passes(spec)'', False),
       (''iteration'', ''iteration'', None, False),
       (''iteration'', ''review'', Some ''iterations >= 4'', False),
       (''iteration'', ''blocked'', Some ''consecutive_failures >= 3'', False),
       (''iteration'', ''cancelled'', Some ''max_iterations_exceeded'', False),
       (''review'', ''release'', Some ''human_approved'', False),
       (''review'', ''iteration'', Some ''changes_requested'', False),
       (''review'', ''cancelled'', Some ''project_abandoned'', False),
       (''blocked'', ''iteration'', Some ''manual_unblock'', False)],
     tb_resume = [(''spec'', [(''yes'', ''prototyping''), (''no'', ''spec'')]),
       (''prototyping'', [(''yes'', ''iteration''), (''no'', ''spec'')]),
       (''review'', [(''yes'', ''release''), (''Release'', ''release''), (''Minor fix'', ''iteration''), ((''Major de'' @ [CHR 0xC4, CHR 0x9F] @ ''i'' @ [CHR 0xC5, CHR 0x9F] @ ''iklik''), ''prototyping''), (''no'', ''iteration'')]),
       (''blocked'', [((''Yakla'' @ [CHR 0xC5, CHR 0x9F, CHR 0xC4, CHR 0xB1] @ ''m de'' @ [CHR 0xC4, CHR 0x9F] @ ''i'' @ [CHR 0xC5, CHR 0x9F] @ ''tir''), ''iteration''), (''Spec revize et'', ''spec''), (([CHR 0xC4, CHR 0xB0] @ ''ptal et''), ''cancelled'')])]\<rparr>"

lemma load_tables:
  "load_table content_sm = Some content_table" "load_table content_sm_v1 = Some content_v1_table"
  "load_table design_sm = Some design_table" "load_table research_sm = Some research_table"
  "load_table haber_sm = Some haber_table" "load_table software_sm = Some software_table"
  by code_simp+

subsection \<open>The runtime that the run manager builds\<close>

definition fresh_runtime :: "string \<Rightarrow> int \<Rightarrow> int \<Rightarrow> datetime \<Rightarrow> RuntimeState" where
  "fresh_runtime f v n now = (new_runtime f now)\<lparr>rt_version := v, iteration_count := n\<rparr>"

text \<open>The overrides that the engine itself passes: none, those of a resumed pause, those of an abort.\<close>

definition engine_overrides :: "StateMachine \<Rightarrow> string \<Rightarrow> string \<Rightarrow> override list list" where
  "engine_overrides sm f t = [[], condition_overrides sm f t] @ (if t = ''cancelled'' then [[OProjectAbandoned True]] else [])"

definition table_overrides :: "machine_table \<Rightarrow> string \<Rightarrow> string \<Rightarrow> override list" where
  "table_overrides tb f t = (case first_edge tb f t of
      Some (Some c, human) \<Rightarrow> (if py_in ''human_approved'' c then [OHumanApproved True] else []) @
        (if py_in ''changes_requested'' c then [OChangesRequested True] else [])
    | _ \<Rightarrow> [])"

lemma condition_overrides_table: "condition_overrides sm f t = table_overrides (table_of sm) f t"
proof -
  have "filter (\<lambda>(a, b, e). a = f \<and> b = t) (tb_edges (table_of sm)) =
      map (\<lambda>x. (from_state x, to_state x, condition x, requires_human x))
        (filter (\<lambda>x. from_state x = f \<and> to_state x = t) (transitions (sm_config sm)))"
    by (simp add: table_of_def filter_map comp_def)
  moreover have "List.find P xs = (case filter P xs of [] \<Rightarrow> None | x # _ \<Rightarrow> Some x)" for P and xs :: "TransitionDefinition list"
    by (induction xs) auto
  ultimately show ?thesis
    by (cases "filter (\<lambda>x. from_state x = f \<and> to_state x = t) (transitions (sm_config sm))")
      (simp_all add: condition_overrides_def table_overrides_def first_edge_def split: option.split)
qed

lemma load_tableD: "load_machine y = Inr sm \<Longrightarrow> load_table y = Some tb \<Longrightarrow> tb = table_of sm"
  by (simp add: load_table_def)

lemma load_table_machine: "load_table y = Some tb \<Longrightarrow> \<exists>sm. load_machine y = Inr sm \<and> table_of sm = tb"
  by (auto simp: load_table_def split: sum.splits)

subsection \<open>The conditions of the shipped machines\<close>

lemma shipped_conditions:
  "evaluate_condition ''human_approved'' r = human_approved r"
  "evaluate_condition ''changes_requested'' r = changes_requested r"
  "evaluate_condition ''project_abandoned'' r = project_abandoned r"
  "evaluate_condition ''manual_unblock'' r = manual_unblock r"
  "evaluate_condition ''drift_detected'' r = (drift_count r > 0)"
  "evaluate_condition ''max_iterations_exceeded'' r = (total_iterations r > iteration_count r)"
  "evaluate_condition ''iterations >= 4'' r = (iteration_count r \<ge> 4)"
  "evaluate_condition ''consecutive_failures >= 3'' r = (consecutive_failures r \<ge> 3)"
  by code_simp+

text \<open>A name that the evaluation does not know is true.\<close>

lemma unknown_conditions:
  "evaluate_condition ''prototype_passes(spec)'' r" "evaluate_condition ''brief_approved'' r"
  "evaluate_condition ''research_complete'' r" "evaluate_condition ''sketch_approved'' r"
  "evaluate_condition ''wireframe_approved'' r" "evaluate_condition ''major_changes_needed'' r"
  "evaluate_condition ''mockup_approved'' r" "evaluate_condition ''structure_changes_needed'' r"
  "evaluate_condition ''prototype_ready'' r" "evaluate_condition ''visual_changes_needed'' r"
  "evaluate_condition ''review_approved'' r" "evaluate_condition ''lit_review_complete'' r"
  "evaluate_condition ''hypothesis_approved'' r" "evaluate_condition ''lit_review_needed'' r"
  "evaluate_condition ''design_approved'' r" "evaluate_condition ''hypothesis_revision_needed'' r"
  "evaluate_condition ''data_ready'' r" "evaluate_condition ''design_revision_needed'' r"
  "evaluate_condition ''analysis_complete'' r" "evaluate_condition ''more_data_needed'' r"
  "evaluate_condition ''draft_ready'' r" "evaluate_condition ''revisions_requested'' r"
  by code_simp+

definition profile_allows :: "yaml \<Rightarrow> string \<Rightarrow> string \<Rightarrow> RuntimeState \<Rightarrow> bool" where
  "profile_allows y f t r = (case load_machine y of Inl e \<Rightarrow> False | Inr sm \<Rightarrow> fst (fst (can_transition sm f t r None)))"

lemma profile_allows_table: "load_table y = Some tb \<Longrightarrow> profile_allows y f t r = table_allows tb f t r"
  using load_table_machine [of y tb] by (auto simp: profile_allows_def table_decides)

text \<open>The final approval of a run: the machines of three profiles ask for it, those of design and
  research let a run pass whatever its runtime says, since the names of their conditions are
  unknown to the evaluation.\<close>

theorem final_approval:
  "profile_allows content_sm ''draft_review'' ''approved'' r = human_approved r \<and>
   profile_allows haber_sm ''published'' ''published_active'' r = human_approved r \<and>
   profile_allows software_sm ''review'' ''release'' r = human_approved r \<and>
   profile_allows design_sm ''review'' ''handoff'' r \<and>
   profile_allows research_sm ''peer_review'' ''published'' r"
  by (simp add: profile_allows_table [OF load_tables(1)] profile_allows_table [OF load_tables(5)]
      profile_allows_table [OF load_tables(6)] profile_allows_table [OF load_tables(3)] profile_allows_table [OF load_tables(4)]
      table_allows_def first_edge_def reentry_barred_def content_table_def haber_table_def software_table_def
      design_table_def research_table_def shipped_conditions unknown_conditions)


subsection \<open>Answers that lead nowhere\<close>

definition resume_answers :: "StateMachine \<Rightarrow> (string \<times> string \<times> string) list" where
  "resume_answers sm = concat (map (\<lambda>(n, sd). map (\<lambda>(a, t). (n, a, t)) (answers_of sd)) (states (sm_config sm)))"

definition table_answers :: "machine_table \<Rightarrow> (string \<times> string \<times> string) list" where
  "table_answers tb = concat (map (\<lambda>(n, d). map (\<lambda>(a, t). (n, a, t)) d) (tb_resume tb))"

lemma resume_answers_table: "resume_answers sm = table_answers (table_of sm)"
proof -
  have "concat (map (\<lambda>(n, sd). map (\<lambda>(a, t). (n, a, t)) (answers_of sd)) ss) =
      concat (map (\<lambda>(n, d). map (\<lambda>(a, t). (n, a, t)) d)
        (map (\<lambda>(n, sd). (n, answers_of sd)) (filter (\<lambda>(n, sd). answers_of sd \<noteq> []) ss)))" for ss :: "(string \<times> StateDefinition) list"
    by (induction ss) auto
  then show ?thesis by (simp add: resume_answers_def table_answers_def table_of_def)
qed

text \<open>Whether the transition of a resumed pause is allowed, with the overrides that \<open>resume_run\<close> adds.\<close>

definition resume_allowed :: "StateMachine \<Rightarrow> string \<Rightarrow> string \<Rightarrow> RuntimeState \<Rightarrow> bool" where
  "resume_allowed sm f t r = fst (fst (can_transition sm f t (fold apply_override (condition_overrides sm f t) r) None))"

definition refused_answers :: "yaml \<Rightarrow> int \<Rightarrow> int \<Rightarrow> datetime \<Rightarrow> (string \<times> string \<times> string) list" where
  "refused_answers y v n now = (case load_machine y of Inl e \<Rightarrow> []
     | Inr sm \<Rightarrow> filter (\<lambda>(f, a, t). \<not> resume_allowed sm f t (fresh_runtime f v n now)) (resume_answers sm))"

lemma refused_answers_table:
  "load_table y = Some tb \<Longrightarrow> refused_answers y v n now =
     filter (\<lambda>(f, a, t). \<not> table_allows tb f t (fold apply_override (table_overrides tb f t) (fresh_runtime f v n now)))
       (table_answers tb)"
  using load_table_machine [of y tb]
  by (auto simp: refused_answers_def resume_allowed_def resume_answers_table table_decides condition_overrides_table)

lemmas table_simps = table_allows_def first_edge_def reentry_barred_def table_overrides_def table_answers_def
  fresh_runtime_def new_runtime_def shipped_conditions unknown_conditions

lemma py_in_refl [simp]: "py_in s s"
  unfolding py_in_iff by (rule exI [of _ "[]"], rule exI [of _ "[]"]) simp

lemma py_in_conditions:
  "\<not> py_in ''changes_requested'' ''human_approved''" "\<not> py_in ''human_approved'' ''changes_requested''"
  "\<not> py_in ''human_approved'' ''project_abandoned''" "\<not> py_in ''changes_requested'' ''project_abandoned''"
  "\<not> py_in ''human_approved'' ''manual_unblock''" "\<not> py_in ''changes_requested'' ''manual_unblock''"
  "\<not> py_in ''human_approved'' ''drift_detected''" "\<not> py_in ''changes_requested'' ''drift_detected''"
  "\<not> py_in ''human_approved'' ''max_iterations_exceeded''" "\<not> py_in ''changes_requested'' ''max_iterations_exceeded''"
  "\<not> py_in ''human_approved'' ''consecutive_failures >= 3''" "\<not> py_in ''changes_requested'' ''consecutive_failures >= 3''"
  by code_simp+

text \<open>Which answers to the questions of a paused run are refused by the machine of its profile: the
  target is no transition of the state, or its condition is not among those that resuming a
  run satisfies. A blocked software run has no answer that is accepted.\<close>

theorem refused_resume_answers:
  "refused_answers content_sm v n now = [] \<and>
   refused_answers design_sm v n now =
     [(''brief'', ''no'', ''brief''), (''review'', ''Major revizyon'', ''wireframe'')] \<and>
   refused_answers research_sm v n now =
     [(''topic_selected'', ''no'', ''topic_selected''), (''paper_draft'', ''no'', ''paper_draft'')] \<and>
   map (\<lambda>(f, a, t). (f, t)) (refused_answers haber_sm v n now) =
     [(''captured'', ''archived''), (''cross_verified'', ''archived''), (''correction_needed'', ''retracted'')] \<and>
   map (\<lambda>(f, a, t). (f, t)) (refused_answers software_sm v n now) =
     [(''spec'', ''spec''), (''prototyping'', ''spec''), (''review'', ''prototyping''),
      (''blocked'', ''iteration''), (''blocked'', ''spec''), (''blocked'', ''cancelled'')]"
proof (intro conjI)
  show "refused_answers content_sm v n now = []"
    by (simp add: refused_answers_table [OF load_tables(1)] content_table_def table_simps py_in_conditions)
  show "refused_answers design_sm v n now =
     [(''brief'', ''no'', ''brief''), (''review'', ''Major revizyon'', ''wireframe'')]"
    by (simp add: refused_answers_table [OF load_tables(3)] design_table_def table_simps)
  show "refused_answers research_sm v n now =
     [(''topic_selected'', ''no'', ''topic_selected''), (''paper_draft'', ''no'', ''paper_draft'')]"
    by (simp add: refused_answers_table [OF load_tables(4)] research_table_def table_simps py_in_conditions)
  show "map (\<lambda>(f, a, t). (f, t)) (refused_answers haber_sm v n now) =
     [(''captured'', ''archived''), (''cross_verified'', ''archived''), (''correction_needed'', ''retracted'')]"
    by (simp add: refused_answers_table [OF load_tables(5)] haber_table_def table_simps py_in_conditions)
  show "map (\<lambda>(f, a, t). (f, t)) (refused_answers software_sm v n now) =
     [(''spec'', ''spec''), (''prototyping'', ''spec''), (''review'', ''prototyping''),
      (''blocked'', ''iteration''), (''blocked'', ''spec''), (''blocked'', ''cancelled'')]"
    by (simp add: refused_answers_table [OF load_tables(6)] software_table_def table_simps py_in_conditions)
qed

subsection \<open>What the engine can never do\<close>

lemma check_transition_table:
  assumes "load_machine y = Inr sm" and "pf_machine p = Some sm"
  shows "(check_transition (Some p) ovs meta iters to t = Inr ()) =
    table_allows (table_of sm) (rm_state meta) to
      (fold apply_override ovs (fresh_runtime (rm_state meta) (rm_version meta) iters t))"
  using assms(2) table_decides [OF assms(1), symmetric]
  by (auto simp: check_transition_def fresh_runtime_def Let_def split_beta split: prod.splits bool.splits)

lemma update_refused:
  assumes "pf_machine p = Some sm" and "load_machine y = Inr sm"
    and "dict_get (active m) slug = Some c" and "read_meta slug c = Inr (Some meta)"
    and "\<And>v n. \<not> table_allows (table_of sm) (rm_state meta) to (fold apply_override ovs (fresh_runtime (rm_state meta) v n t))"
  shows "\<exists>e. update_state slug to (Some p) ovs now t m = (m, Inl e)"
proof -
  let ?i = "if rm_state meta = ''iteration'' then rm_iteration_count meta + 1 else rm_iteration_count meta"
  have "check_transition (Some p) ovs meta ?i to t \<noteq> Inr ()"
    using check_transition_table [OF assms(2,1), of ovs meta ?i to t] assms(5) by simp
  then obtain e where "check_transition (Some p) ovs meta ?i to t = Inl e"
    by (cases "check_transition (Some p) ovs meta ?i to t") auto
  with assms(3,4) show ?thesis by (simp add: update_state_def Let_def)
qed

text \<open>C7: A published news run is stuck: take a profile with the shipped news machine and a run whose metadata file
can be read and records the active publication. Then the engine, with the overrides that it derives for the
transition, makes no transition to any state and leaves the run as it is, since the only transition needs a
drift and the runtime of a check has none.\<close>

theorem haber_published_stuck:
  assumes "load_machine haber_sm = Inr sm" and "pf_machine p = Some sm"
    and "dict_get (active m) slug = Some c" and "read_meta slug c = Inr (Some meta)"
    and "rm_state meta = ''published_active''" and "ovs \<in> set (engine_overrides sm ''published_active'' to)"
  shows "\<exists>e. update_state slug to (Some p) ovs now t m = (m, Inl e)"
proof (rule update_refused [OF assms(2,1,3,4)])
  have tb: "table_of sm = haber_table"
    using load_tableD [OF assms(1) load_tables(5)] by simp
  have edge: "first_edge haber_table ''published_active'' to =
      (if to = ''correction_needed'' then Some (Some ''drift_detected'', False) else None)"
    by (simp add: first_edge_def haber_table_def)
  then have "table_overrides haber_table ''published_active'' to = []"
    by (simp add: table_overrides_def py_in_conditions)
  then have ovs: "ovs = [] \<or> ovs = [OProjectAbandoned True]"
    using assms(6) by (auto simp: engine_overrides_def condition_overrides_table tb split: if_splits)
  show "\<not> table_allows (table_of sm) (rm_state meta) to (fold apply_override ovs (fresh_runtime (rm_state meta) v n t))" for v n
  proof (cases "to = ''correction_needed''")
    case True
    have "drift_count (fold apply_override ovs (fresh_runtime (rm_state meta) v n t)) = 0"
      using ovs by (auto simp: fresh_runtime_def new_runtime_def)
    with True edge show ?thesis by (simp add: table_allows_def tb assms(5) shipped_conditions)
  qed (simp add: table_allows_def tb assms(5) edge)
qed

text \<open>No software run is ever blocked, for the same reason: its consecutive failures are always 0.\<close>

lemma software_never_blocked:
  assumes "load_machine software_sm = Inr sm" and "pf_machine p = Some sm"
    and "dict_get (active m) slug = Some c" and "read_meta slug c = Inr (Some meta)"
    and "ovs \<in> set (engine_overrides sm (rm_state meta) ''blocked'')"
  shows "\<exists>e. update_state slug ''blocked'' (Some p) ovs now t m = (m, Inl e)"
proof (rule update_refused [OF assms(2,1,3,4)])
  have tb: "table_of sm = software_table"
    using load_tableD [OF assms(1) load_tables(6)] by simp
  have "ovs = []"
    using assms(5) by (simp add: engine_overrides_def condition_overrides_table tb table_overrides_def first_edge_def
        software_table_def py_in_conditions split: if_splits)
  then show "\<not> table_allows (table_of sm) (rm_state meta) ''blocked'' (fold apply_override ovs (fresh_runtime (rm_state meta) v n t))" for v n
    by (simp add: tb software_table_def table_simps)
qed


definition demo_run :: RunMeta where
  "demo_run = demo_meta\<lparr>rm_profile := ''haber'', rm_state := ''published_active''\<rparr>"

definition demo_runs :: RunManager where
  "demo_runs = new_manager\<lparr>active := [(''r'', Some (write_meta demo_run))]\<rparr>"

lemma demo_run_read: "read_meta ''r'' (Some (write_meta demo_run)) = Inr (Some demo_run)"
proof -
  have "meta_clean demo_run" by code_simp
  then show ?thesis by (rule read_write_meta)
qed

theorem haber_published_stuck_witness:
  "\<exists>sm e. load_machine haber_sm = Inr sm \<and>
     update_state ''r'' ''archived'' (Some \<lparr>pf_name = ''haber'', pf_machine = Some sm\<rparr>) [] demo_clock 0 demo_runs
       = (demo_runs, Inl e)"
proof -
  obtain sm where sm: "load_machine haber_sm = Inr sm"
    using load_table_machine [OF load_tables(5)] by blast
  moreover have "\<exists>e. update_state ''r'' ''archived'' (Some \<lparr>pf_name = ''haber'', pf_machine = Some sm\<rparr>) [] demo_clock 0 demo_runs
      = (demo_runs, Inl e)"
    by (rule haber_published_stuck [OF sm, where c = "Some (write_meta demo_run)" and meta = demo_run])
      (simp_all add: demo_run_read demo_runs_def engine_overrides_def, simp add: demo_run_def)
  ultimately show ?thesis by blast
qed

subsection \<open>What the definitions leave out\<close>

definition machine_validators :: "StateMachine \<Rightarrow> string list" where
  "machine_validators sm = concat (map (\<lambda>(n, sd). sd_validators sd) (states (sm_config sm)))"

definition setup_names :: "(ProductProfile \<Rightarrow> ProductProfile) \<Rightarrow> ProductProfile \<Rightarrow> string list" where
  "setup_names setup p = map vd_name (pp_validators (setup p))"

text \<open>Every shipped profile initializes: its machine parses and passes the checks of the constructor.\<close>

lemma initialize_shipped:
  assumes "pp_initialized p = False" and "pp_source p = Some y" and "load_table y = Some tb"
  shows "\<exists>sm. load_machine y = Inr sm \<and> initialize setup p = Inr ((setup (p\<lparr>pp_machine := Some sm\<rparr>))\<lparr>pp_initialized := True\<rparr>)"
  using load_table_machine [OF assms(3)] assms(1,2) by (auto simp: initialize_def)

theorem shipped_profiles_initialize:
  "list_all (\<lambda>(setup, p). case initialize setup p of
       Inl e \<Rightarrow> False
     | Inr q \<Rightarrow> pp_initialized q \<and> pp_machine q \<noteq> None \<and> pp_validators q \<noteq> [] \<and> pp_adapters q \<noteq> [] \<and>
         list_all (\<lambda>a. ad_max_retries a \<le> 3) (pp_adapters q) \<and> ProfileBudget.soft_limit_usd (pp_budget q) < ProfileBudget.hard_limit_usd (pp_budget q))
     [(content_setup, content_profile), (design_setup, design_profile), (research_setup, research_profile),
      (haber_setup, haber_profile), (software_setup, software_profile)]"
proof -
  obtain sm1 where 1: "initialize content_setup content_profile = Inr ((content_setup (content_profile\<lparr>pp_machine := Some sm1\<rparr>))\<lparr>pp_initialized := True\<rparr>)"
    using initialize_shipped [OF _ _ load_tables(1), of content_profile content_setup] by (auto simp: content_profile_def new_profile_def)
  obtain sm3 where 3: "initialize design_setup design_profile = Inr ((design_setup (design_profile\<lparr>pp_machine := Some sm3\<rparr>))\<lparr>pp_initialized := True\<rparr>)"
    using initialize_shipped [OF _ _ load_tables(3), of design_profile design_setup] by (auto simp: design_profile_def new_profile_def)
  obtain sm4 where 4: "initialize research_setup research_profile = Inr ((research_setup (research_profile\<lparr>pp_machine := Some sm4\<rparr>))\<lparr>pp_initialized := True\<rparr>)"
    using initialize_shipped [OF _ _ load_tables(4), of research_profile research_setup] by (auto simp: research_profile_def new_profile_def)
  obtain sm5 where 5: "initialize haber_setup haber_profile = Inr ((haber_setup (haber_profile\<lparr>pp_machine := Some sm5\<rparr>))\<lparr>pp_initialized := True\<rparr>)"
    using initialize_shipped [OF _ _ load_tables(5), of haber_profile haber_setup] by (auto simp: haber_profile_def new_profile_def)
  obtain sm6 where 6: "initialize software_setup software_profile = Inr ((software_setup (software_profile\<lparr>pp_machine := Some sm6\<rparr>))\<lparr>pp_initialized := True\<rparr>)"
    using initialize_shipped [OF _ _ load_tables(6), of software_profile software_setup] by (auto simp: software_profile_def new_profile_def)
  note defs = add_validator_def add_adapter_def add_store_def adapter_def_def validator_def_def default_budget_def new_profile_def
  show ?thesis
    unfolding list.pred_inject prod.case 1 3 4 5 6 sum.case
    by (intro conjI TrueI; simp add: defs
      content_setup_def content_validators_def content_adapters_def content_stores_def content_budget_def content_profile_def
      design_setup_def design_validators_def design_adapters_def design_stores_def design_budget_def design_profile_def
      research_setup_def research_validators_def research_adapters_def research_stores_def research_budget_def research_profile_def
      haber_setup_def haber_validators_def haber_adapters_def haber_stores_def haber_budget_def haber_profile_def
      software_setup_def software_validators_def software_adapters_def software_budget_def software_profile_def)
qed

text \<open>Two validators that the states of the content machine name are defined nowhere in its profile.\<close>

lemma undefined_validators:
  "(case load_machine content_sm of Inl e \<Rightarrow> []
     | Inr sm \<Rightarrow> filter (\<lambda>n. n \<notin> set (setup_names content_setup content_profile)) (machine_validators sm))
   = [''IdeaCheck'', ''DraftValidator'']"
  by code_simp

text \<open>The profiles limit the idle time of their pauses by \<open>max_idle\<close>, a key that the parser does not
  read: no shipped state has a maximal duration.\<close>

lemma max_idle_ignored:
  "list_all (\<lambda>y. case load_machine y of Inl e \<Rightarrow> False
     | Inr sm \<Rightarrow> list_all (\<lambda>(n, sd). temporal_max_duration sd = None) (states (sm_config sm)))
     [content_sm, design_sm, research_sm, haber_sm, software_sm]"
  by code_simp

end
