(* ===== verification/Validators.thy ===== *)
theory Validators
  imports Systems Product_Profile
begin

text \<open>
  The validators of a product and the pipeline that runs them (\<open>engine/validators.py\<close>): the
  content-addressable cache with its two stores, time limits, the three deterministic checks,
  and the three tiers. The hash, the JSON text of details, regular expressions and the parsers
  of YAML and JSON are arguments. A check is a coroutine: how long it takes, whether it awaits
  anything (only then can it be interrupted), and what it returns or raises.
\<close>

subsection \<open>Results and artifacts\<close>

record ValidationResult =
  vr_passed :: bool
  vr_message :: string
  vr_details :: PyVal
  vr_skipped :: bool
  vr_cost :: rat

definition validation_result :: "bool \<Rightarrow> string \<Rightarrow> ValidationResult" where
  "validation_result p m = \<lparr>vr_passed = p, vr_message = m, vr_details = PDict [], vr_skipped = False, vr_cost = 0\<rparr>"

text \<open>An artifact is a text, or an object with its optional attributes \<open>content\<close> and \<open>text\<close> and its \<open>str\<close>.\<close>

datatype artifact = Text string | Object "string option" "string option" string

fun artifact_str :: "artifact \<Rightarrow> string" where
  "artifact_str (Text s) = s"
| "artifact_str (Object c t s) = s"

fun get_content :: "artifact \<Rightarrow> string" where
  "get_content (Text s) = s"
| "get_content (Object (Some c) t s) = c"
| "get_content (Object None (Some t) s) = t"
| "get_content (Object None None s) = s"

subsection \<open>The cache\<close>

datatype CachePolicy = FULL | DEGRADED | SURVIVAL

text \<open>The pipeline passes a number of seconds where \<open>set\<close> expects a tier; nothing reads it.\<close>

record CacheEntry =
  ce_tier :: "ValidatorTier + int"
  ce_result :: ValidationResult
  ce_expires :: datetime
  ce_created :: datetime

record cache_file =
  cf_passed :: bool
  cf_message :: string
  cf_details :: string
  cf_expires :: datetime
  cf_created :: datetime

record Cache =
  vc_memory :: "(string, CacheEntry) dict"
  vc_disk :: "(string, cache_file option) dict"
  vc_hits :: int
  vc_misses :: int

text \<open>\<^const>\<open>None\<close> in \<open>vc_disk\<close> is a file that does not decode.\<close>

record cache_env =
  ce_digest :: "string \<Rightarrow> string"
  ce_dumps :: "PyVal \<Rightarrow> string option"
  ce_loads :: "string \<Rightarrow> PyVal option"

definition new_cache :: "(string, cache_file option) dict \<Rightarrow> Cache" where
  "new_cache disk = \<lparr>vc_memory = [], vc_disk = disk, vc_hits = 0, vc_misses = 0\<rparr>"

definition cache_key :: "cache_env \<Rightarrow> string \<Rightarrow> string \<Rightarrow> string" where
  "cache_key env content n = n @ '':'' @ ce_digest env content"

definition entry_valid :: "datetime \<Rightarrow> CacheEntry \<Rightarrow> ValidatorTier \<Rightarrow> CachePolicy \<Rightarrow> bool" where
  "entry_valid now e t pol =
     (if now > ce_expires e then False
      else if pol = DEGRADED then (if t \<in> {T2, T3} then False else True) else True)"

definition hit :: "Cache \<Rightarrow> Cache" where
  "hit c = c\<lparr>vc_hits := vc_hits c + 1\<rparr>"

definition miss :: "Cache \<Rightarrow> Cache" where
  "miss c = c\<lparr>vc_misses := vc_misses c + 1\<rparr>"

text \<open>A file read back: what \<open>skipped\<close> and \<open>cost_usd\<close> were is not in it.\<close>

definition load_file :: "cache_env \<Rightarrow> ValidatorTier \<Rightarrow> cache_file option \<Rightarrow> CacheEntry option" where
  "load_file env t f =
     (case f of None \<Rightarrow> None
      | Some f \<Rightarrow> (case ce_loads env (cf_details f) of None \<Rightarrow> None
        | Some d \<Rightarrow> Some \<lparr>ce_tier = Inl t,
            ce_result = \<lparr>vr_passed = cf_passed f, vr_message = cf_message f, vr_details = d, vr_skipped = False, vr_cost = 0\<rparr>,
            ce_expires = cf_expires f, ce_created = cf_created f\<rparr>))"

definition cache_get ::
    "cache_env \<Rightarrow> datetime \<Rightarrow> string \<Rightarrow> string \<Rightarrow> ValidatorTier \<Rightarrow> CachePolicy \<Rightarrow> Cache \<Rightarrow> Cache \<times> ValidationResult option" where
  "cache_get env now content n t pol c =
     (if pol = SURVIVAL then (miss c, None)
      else
        (let key = cache_key env content n;
             kept = (case dict_get (vc_memory c) key of None \<Rightarrow> None
               | Some e \<Rightarrow> if entry_valid now e t pol then Some (ce_result e) else None)
         in case kept of
              Some r \<Rightarrow> (hit c, Some r)
            | None \<Rightarrow>
                (case Option.bind (dict_get (vc_disk c) key) (load_file env t) of
                   None \<Rightarrow> (miss c, None)
                 | Some e \<Rightarrow>
                     (let c = c\<lparr>vc_memory := dict_set key e (vc_memory c)\<rparr>
                      in if entry_valid now e t pol then (hit c, Some (ce_result e)) else (miss c, None)))))"

text \<open>The entry is in memory before the JSON text is made, which raises for values JSON does not know.\<close>

definition cache_set ::
    "cache_env \<Rightarrow> datetime \<Rightarrow> string \<Rightarrow> string \<Rightarrow> ValidationResult \<Rightarrow> ValidatorTier + int \<Rightarrow> int \<Rightarrow> Cache
      \<Rightarrow> Cache \<times> string option" where
  "cache_set env now content n r t ttl c =
     (let key = cache_key env content n;
          e = \<lparr>ce_tier = t, ce_result = r, ce_expires = now + 1000000 * ttl, ce_created = now\<rparr>;
          c = c\<lparr>vc_memory := dict_set key e (vc_memory c)\<rparr>
      in case ce_dumps env (vr_details r) of
           None \<Rightarrow> (c, Some ''TypeError'')
         | Some s \<Rightarrow> (c\<lparr>vc_disk := dict_set key (Some \<lparr>cf_passed = vr_passed r, cf_message = vr_message r,
             cf_details = s, cf_expires = ce_expires e, cf_created = now\<rparr>) (vc_disk c)\<rparr>, None))"

definition invalidate :: "string \<Rightarrow> Cache \<Rightarrow> Cache" where
  "invalidate n c =
     (if n \<noteq> [] then c\<lparr>vc_memory := filter (\<lambda>(k, e). \<not> starts_with (n @ '':'') k) (vc_memory c),
        vc_disk := filter (\<lambda>(k, f). \<not> starts_with (n @ '':'') k) (vc_disk c)\<rparr>
      else c\<lparr>vc_memory := [], vc_disk := []\<rparr>)"

definition hit_rate :: "Cache \<Rightarrow> rat" where
  "hit_rate c =
     (let n = vc_hits c + vc_misses c in if n > 0 then of_int (vc_hits c) / of_int n else 0)"

subsection \<open>Time limits\<close>

record answer =
  an_time :: int
  an_awaits :: bool
  an_result :: "string + ValidationResult"

record validator =
  v_def :: ValidatorDef
  v_check :: "artifact \<Rightarrow> answer"

abbreviation v_name :: "validator \<Rightarrow> string" where
  "v_name v \<equiv> vd_name (v_def v)"

definition default_timeouts :: "(string, int) dict" where
  "default_timeouts =
     [(''SlopScanT1'', 10), (''FormatCheck'', 5), (''SchemaValidator'', 10), (''CompileCheck'', 120),
      (''SyntaxCheck'', 5), (''BuildValidator'', 300), (''SmokeTestValidator'', 60),
      (''TestCoverageValidator'', 60), (''SecurityAudit'', 30)]"

definition get_timeout :: "string \<Rightarrow> int \<Rightarrow> int" where
  "get_timeout n d = dict_get_default default_timeouts n d"

definition timed_out :: "string \<Rightarrow> ValidationResult" where
  "timed_out n = \<lparr>vr_passed = False, vr_message = [CHR 0xE2, CHR 0x8F, CHR 0xB1, CHR 0xEF, CHR 0xB8, CHR 0x8F]
       @ '' '' @ n @ '' timed out after '' @ show_int (get_timeout n 30) @ ''s'',
     vr_details = PDict [], vr_skipped = True, vr_cost = 0\<rparr>"

text \<open>The time that passes and the result: a check that awaits nothing is never interrupted.\<close>

definition run_with_timeout :: "validator \<Rightarrow> artifact \<Rightarrow> int \<times> (string + ValidationResult)" where
  "run_with_timeout v a =
     (let r = v_check v a; l = 1000000 * get_timeout (v_name v) 30
      in if an_awaits r \<and> l \<le> an_time r then (l, Inr (timed_out (v_name v))) else (an_time r, an_result r))"

subsection \<open>The deterministic checks\<close>

record finding =
  fi_pattern :: string
  fi_severity :: string
  fi_match :: string

definition finding_value :: "finding \<Rightarrow> PyVal" where
  "finding_value f = PDict [(PStr ''pattern'', PStr (fi_pattern f)), (PStr ''severity'', PStr (fi_severity f)),
     (PStr ''match'', PStr (fi_match f))]"

text \<open>A pattern is its name, what \<open>findall\<close> returns, and its severity.\<close>

type_synonym pattern = "string \<times> (string \<Rightarrow> PyVal list) \<times> string"

definition match_text :: "(PyVal \<Rightarrow> string) \<Rightarrow> PyVal \<Rightarrow> string" where
  "match_text str m = utf8_take 200 (case m of PStr s \<Rightarrow> s | _ \<Rightarrow> str m)"

definition findings :: "(PyVal \<Rightarrow> string) \<Rightarrow> pattern list \<Rightarrow> string \<Rightarrow> finding list" where
  "findings str ps content = concat (map (\<lambda>(n, find, sev).
     map (\<lambda>m. \<lparr>fi_pattern = n, fi_severity = sev, fi_match = match_text str m\<rparr>) (take 5 (find content))) ps)"

definition format_message :: "finding list \<Rightarrow> finding list \<Rightarrow> string" where
  "format_message errors warnings = join [CHR 0x0A]
     ((if errors \<noteq> [] then
         [[CHR 0xE2, CHR 0x9D, CHR 0x8C] @ '' '' @ show_nat (length errors) @ '' error(s):'']
         @ map (\<lambda>e. ''  '' @ [CHR 0xE2, CHR 0x80, CHR 0xA2] @ '' ['' @ fi_pattern e @ ''] '' @ utf8_take 80 (fi_match e)) (take 3 errors)
         @ (if length errors > 3 then [''  ... and '' @ show_nat (length errors - 3) @ '' more''] else [])
       else [])
      @ (if warnings \<noteq> [] then
          [[CHR 0xE2, CHR 0x9A, CHR 0xA0, CHR 0xEF, CHR 0xB8, CHR 0x8F] @ '' '' @ show_nat (length warnings) @ '' warning(s)'']
         else []))"

definition regex_validate :: "(PyVal \<Rightarrow> string) \<Rightarrow> pattern list \<Rightarrow> artifact \<Rightarrow> ValidationResult" where
  "regex_validate str ps a =
     (if get_content a = [] then validation_result False ''Empty content''
      else
        (let fs = findings str ps (get_content a);
             errors = filter (\<lambda>f. fi_severity f = ''error'') fs;
             warnings = filter (\<lambda>f. fi_severity f = ''warning'') fs
         in (validation_result (length errors = 0) (format_message errors warnings))
              \<lparr>vr_details := PDict [(PStr ''errors'', PList (map finding_value errors)),
                 (PStr ''warnings'', PList (map finding_value warnings)), (PStr ''total_findings'', PInt (int (length fs)))]\<rparr>))"

text \<open>The length is in characters; a maximum of \<^const>\<open>None\<close> or 0 is no maximum.\<close>

definition length_validate :: "int \<Rightarrow> int option \<Rightarrow> artifact \<Rightarrow> ValidationResult" where
  "length_validate mn mx a =
     (let n = int (length (utf8_chars (get_content a)));
          result = (\<lambda>p m ds. (validation_result p m)\<lparr>vr_details := PDict ((PStr ''length'', PInt n) # ds)\<rparr>)
      in if n < mn then
           result False (''Content too short: '' @ show_int n @ '' chars (min: '' @ show_int mn @ '')'') [(PStr ''min'', PInt mn)]
         else case mx of
           Some m \<Rightarrow>
             if m \<noteq> 0 \<and> n > m then
               result False (''Content too long: '' @ show_int n @ '' chars (max: '' @ show_int m @ '')'') [(PStr ''max'', PInt m)]
             else result True ([CHR 0xE2, CHR 0x9C, CHR 0x85] @ '' Length OK: '' @ show_int n @ '' chars'') []
         | None \<Rightarrow> result True ([CHR 0xE2, CHR 0x9C, CHR 0x85] @ '' Length OK: '' @ show_int n @ '' chars'') [])"

text \<open>
  \<open>parse_yaml\<close> and \<open>parse_json\<close> give the text of the exception that parsing raises, if any;
  any other type of schema accepts every text that is not empty.
\<close>

definition upper_char :: "char \<Rightarrow> char" where
  "upper_char c = (if CHR ''a'' \<le> c \<and> c \<le> CHR ''z'' then char_of (of_char c - 32 :: nat) else c)"

definition schema_content :: "artifact \<Rightarrow> string" where
  "schema_content a = (case a of Text s \<Rightarrow> s | Object (Some c) t s \<Rightarrow> c | Object None t s \<Rightarrow> s)"

definition schema_validate :: "(string \<Rightarrow> string option) \<Rightarrow> (string \<Rightarrow> string option) \<Rightarrow> string \<Rightarrow> artifact \<Rightarrow> ValidationResult" where
  "schema_validate parse_yaml parse_json ty a =
     (let c = schema_content a
      in if c = [] then validation_result False ''Empty content''
         else case (if ty = ''yaml'' then parse_yaml c else if ty = ''json'' then parse_json c else None) of
           None \<Rightarrow> validation_result True ([CHR 0xE2, CHR 0x9C, CHR 0x85] @ '' Valid '' @ map upper_char ty)
         | Some e \<Rightarrow> (validation_result False ([CHR 0xE2, CHR 0x9D, CHR 0x8C] @ '' Invalid '' @ map upper_char ty @ '': '' @ e))
             \<lparr>vr_details := PDict [(PStr ''error'', PStr e)]\<rparr>)"

subsection \<open>The pipeline\<close>

text \<open>The clock is part of the state of a run.\<close>

record progress =
  pg_cache :: Cache
  pg_calls :: "(string \<times> rat) list"
  pg_now :: datetime
  pg_results :: "(string, ValidationResult) dict"

record PipelineResult =
  pr_passed :: bool
  pr_results :: "(string, ValidationResult) dict"
  pr_stopped_at :: string
  pr_tier :: string

definition put_result :: "string \<Rightarrow> ValidationResult \<Rightarrow> progress \<Rightarrow> progress" where
  "put_result n r s = s\<lparr>pg_results := dict_set n r (pg_results s)\<rparr>"

definition cached :: "cache_env \<Rightarrow> CachePolicy \<Rightarrow> artifact \<Rightarrow> validator \<Rightarrow> progress \<Rightarrow> progress \<times> ValidationResult option" where
  "cached env pol a v s =
     (case cache_get env (pg_now s) (artifact_str a) (v_name v) (vd_tier (v_def v)) pol (pg_cache s) of
        (c, r) \<Rightarrow> (s\<lparr>pg_cache := c\<rparr>, r))"

text \<open>\<open>cache.set\<close> as the pipeline calls it: \<open>cache_ttl\<close> lands in the parameter \<open>tier\<close>.\<close>

definition store_answer :: "cache_env \<Rightarrow> artifact \<Rightarrow> validator \<Rightarrow> ValidationResult \<Rightarrow> progress \<Rightarrow> progress \<times> (string + ValidationResult)" where
  "store_answer env a v r s =
     (case cache_set env (pg_now s) (artifact_str a) (v_name v) r (Inr (vd_cache_ttl (v_def v))) 3600 (pg_cache s) of
        (c, None) \<Rightarrow> (s\<lparr>pg_cache := c\<rparr>, Inr r)
      | (c, Some e) \<Rightarrow> (s\<lparr>pg_cache := c\<rparr>, Inl e))"

definition run_check :: "cache_env \<Rightarrow> artifact \<Rightarrow> validator \<Rightarrow> progress \<Rightarrow> progress \<times> (string + ValidationResult)" where
  "run_check env a v s =
     (case run_with_timeout v a of
        (d, Inl e) \<Rightarrow> (s\<lparr>pg_now := pg_now s + d\<rparr>, Inl e)
      | (d, Inr r) \<Rightarrow> store_answer env a v r (s\<lparr>pg_now := pg_now s + d\<rparr>))"

text \<open>Each tier ends with whether the pipeline may go on, or with an exception.\<close>

fun run_tier1 :: "cache_env \<Rightarrow> CachePolicy \<Rightarrow> artifact \<Rightarrow> validator list \<Rightarrow> progress \<Rightarrow> progress \<times> (string + bool)" where
  "run_tier1 env pol a [] s = (s, Inr True)"
| "run_tier1 env pol a (v # vs) s =
     (case cached env pol a v s of
        (s, Some r) \<Rightarrow>
          (let s = put_result (v_name v) r s
           in if \<not> vr_passed r then (s, Inr False) else run_tier1 env pol a vs s)
      | (s, None) \<Rightarrow>
          (case run_check env a v s of
             (s, Inl e) \<Rightarrow> (s, Inl e)
           | (s, Inr r) \<Rightarrow>
               (let s = put_result (v_name v) r s
                in if \<not> vr_passed r \<and> vd_critical (v_def v) then (s, Inr False) else run_tier1 env pol a vs s)))"

text \<open>
  The second tier. Each task runs up to its first suspension in the order of the list; a check
  that awaits is left pending with the instant at which it ends. \<open>gather\<close> keeps exceptions to
  itself.
\<close>

definition finish_task :: "cache_env \<Rightarrow> artifact \<Rightarrow> validator \<Rightarrow> string + ValidationResult \<Rightarrow> progress \<Rightarrow> progress" where
  "finish_task env a v x s =
     (case x of
        Inl e \<Rightarrow> s
      | Inr r \<Rightarrow>
          (case store_answer env a v r s of
             (s, Inl e) \<Rightarrow> s
           | (s, Inr r) \<Rightarrow>
               (let s = (if vr_cost r > 0 then s\<lparr>pg_calls := pg_calls s @ [(v_name v, vr_cost r)]\<rparr> else s)
                in put_result (v_name v) r s)))"

type_synonym pending = "datetime \<times> validator \<times> (string + ValidationResult)"

fun start_tasks ::
    "cache_env \<Rightarrow> CachePolicy \<Rightarrow> artifact \<Rightarrow> validator list \<Rightarrow> progress \<Rightarrow> progress \<times> pending list" where
  "start_tasks env pol a [] s = (s, [])"
| "start_tasks env pol a (v # vs) s =
     (case cached env pol a v s of
        (s, Some r) \<Rightarrow> start_tasks env pol a vs (put_result (v_name v) r s)
      | (s, None) \<Rightarrow>
          (case run_with_timeout v a of
             (d, x) \<Rightarrow>
               if an_awaits (v_check v a) then
                 (case start_tasks env pol a vs s of (s', ps) \<Rightarrow> (s', (pg_now s + d, v, x) # ps))
               else start_tasks env pol a vs (finish_task env a v x (s\<lparr>pg_now := pg_now s + d\<rparr>))))"

definition end_tasks :: "cache_env \<Rightarrow> artifact \<Rightarrow> pending list \<Rightarrow> progress \<Rightarrow> progress" where
  "end_tasks env a ps s =
     fold (\<lambda>(t, v, x) s. finish_task env a v x (s\<lparr>pg_now := max (pg_now s) t\<rparr>)) (sort_key fst ps) s"

definition run_tier2 :: "cache_env \<Rightarrow> CachePolicy \<Rightarrow> artifact \<Rightarrow> validator list \<Rightarrow> progress \<Rightarrow> progress" where
  "run_tier2 env pol a vs s = (case start_tasks env pol a vs s of (s, ps) \<Rightarrow> end_tasks env a ps s)"

definition deps_passed :: "validator \<Rightarrow> (string, ValidationResult) dict \<Rightarrow> bool" where
  "deps_passed v rs = list_all (\<lambda>d. case dict_get rs d of None \<Rightarrow> False | Some r \<Rightarrow> vr_passed r) (vd_depends_on (v_def v))"

definition skipped_result :: "validator \<Rightarrow> ValidationResult" where
  "skipped_result v = \<lparr>vr_passed = False, vr_message = [CHR 0xE2, CHR 0x8F, CHR 0xAD, CHR 0xEF, CHR 0xB8, CHR 0x8F]
       @ '' Skipped (dependency failed: '' @ join '', '' (vd_depends_on (v_def v)) @ '')'',
     vr_details = PDict [], vr_skipped = True, vr_cost = 0\<rparr>"

fun run_tier3 :: "cache_env \<Rightarrow> CachePolicy \<Rightarrow> artifact \<Rightarrow> validator list \<Rightarrow> progress \<Rightarrow> progress \<times> (string + unit)" where
  "run_tier3 env pol a [] s = (s, Inr ())"
| "run_tier3 env pol a (v # vs) s =
     (if \<not> deps_passed v (pg_results s) then run_tier3 env pol a vs (put_result (v_name v) (skipped_result v) s)
      else case cached env pol a v s of
        (s, Some r) \<Rightarrow> run_tier3 env pol a vs (put_result (v_name v) r s)
      | (s, None) \<Rightarrow>
          (case run_check env a v s of
             (s, Inl e) \<Rightarrow> (s, Inl e)
           | (s, Inr r) \<Rightarrow> run_tier3 env pol a vs (put_result (v_name v) r s)))"

definition counts :: "ValidationResult \<Rightarrow> bool" where
  "counts r = (vr_passed r \<or> vr_skipped r)"

definition run_pipeline ::
    "cache_env \<Rightarrow> CachePolicy \<Rightarrow> artifact \<Rightarrow> validator list \<Rightarrow> validator list \<Rightarrow> validator list \<Rightarrow> progress
      \<Rightarrow> progress \<times> (string + PipelineResult)" where
  "run_pipeline env pol a t1 t2 t3 s =
     (case run_tier1 env pol a t1 (s\<lparr>pg_results := []\<rparr>) of
        (s, Inl e) \<Rightarrow> (s, Inl e)
      | (s, Inr False) \<Rightarrow> (s, Inr \<lparr>pr_passed = False, pr_results = pg_results s,
          pr_stopped_at = (case t1 of [] \<Rightarrow> ''t1'' | v # _ \<Rightarrow> v_name v), pr_tier = ''T1''\<rparr>)
      | (s, Inr True) \<Rightarrow>
          (case run_tier3 env pol a t3 (run_tier2 env pol a t2 s) of
             (s, Inl e) \<Rightarrow> (s, Inl e)
           | (s, Inr _) \<Rightarrow> (s, Inr \<lparr>pr_passed = list_all counts (dict_values (pg_results s)),
               pr_results = pg_results s, pr_stopped_at = [], pr_tier = (if t3 \<noteq> [] then ''T3'' else ''T2'')\<rparr>)))"

definition summary :: "PipelineResult \<Rightarrow> string" where
  "summary r =
     (let n = length (pr_results r);
          failed = length (filter (\<lambda>x. \<not> vr_passed x \<and> \<not> vr_skipped x) (dict_values (pr_results r)))
      in if pr_passed r then [CHR 0xE2, CHR 0x9C, CHR 0x85] @ '' All '' @ show_nat n @ '' validators passed''
         else [CHR 0xE2, CHR 0x9D, CHR 0x8C] @ '' '' @ show_nat failed @ ''/'' @ show_nat n @ '' failed (stopped at ''
           @ pr_tier r @ '':'' @ pr_stopped_at r @ '')'')"

subsection \<open>What the cache remembers\<close>

lemma hit_miss_simps [simp]:
  "vc_memory (hit c) = vc_memory c" "vc_disk (hit c) = vc_disk c"
  "vc_memory (miss c) = vc_memory c" "vc_disk (miss c) = vc_disk c"
  by (simp_all add: hit_def miss_def)

text \<open>
  A file keeps the verdict, the message and the details of a result, as far as JSON does, but not
  that it was skipped or what it cost. That does not matter as long as the memory has the entry.
  In degraded mode a second or third tier entry of the memory is overwritten by that of the file.
\<close>

definition plain :: "ValidationResult \<Rightarrow> bool" where
  "plain r \<longleftrightarrow> \<not> vr_skipped r \<and> vr_cost r = 0"

definition storable :: "cache_env \<Rightarrow> CachePolicy \<Rightarrow> ValidationResult \<Rightarrow> bool" where
  "storable env pol r \<longleftrightarrow> Option.bind (ce_dumps env (vr_details r)) (ce_loads env) = Some (vr_details r)
     \<and> (pol = DEGRADED \<longrightarrow> plain r)"

text \<open>At \<open>now\<close> the entries that are still valid agree with the answers \<open>f\<close>.\<close>

definition coherent :: "cache_env \<Rightarrow> (string \<Rightarrow> ValidationResult option) \<Rightarrow> datetime \<Rightarrow> Cache \<Rightarrow> bool" where
  "coherent env f now c \<longleftrightarrow>
     (\<forall>k e. dict_get (vc_memory c) k = Some e \<longrightarrow> now \<le> ce_expires e \<longrightarrow> f k = Some (ce_result e)) \<and>
     (\<forall>k t e. Option.bind (dict_get (vc_disk c) k) (load_file env t) = Some e \<longrightarrow> now \<le> ce_expires e \<longrightarrow>
        f k = Some (ce_result e) \<or>
        (\<exists>r e'. f k = Some r \<and> \<not> plain r \<and> dict_get (vc_memory c) k = Some e' \<and> ce_expires e \<le> ce_expires e'))"

lemma coherent_memory:
  "coherent env f now c \<Longrightarrow> dict_get (vc_memory c) k = Some e \<Longrightarrow> now \<le> ce_expires e \<Longrightarrow> f k = Some (ce_result e)"
  unfolding coherent_def by blast

lemma coherent_disk:
  assumes "coherent env f now c" and "Option.bind (dict_get (vc_disk c) k) (load_file env t) = Some e" and "now \<le> ce_expires e"
  shows "f k = Some (ce_result e) \<or>
    (\<exists>r e'. f k = Some r \<and> \<not> plain r \<and> dict_get (vc_memory c) k = Some e' \<and> ce_expires e \<le> ce_expires e')"
  using conjunct2 [OF assms(1) [unfolded coherent_def], rule_format, OF assms(2,3)] .

lemma coherentI:
  assumes "\<And>k e. dict_get (vc_memory c) k = Some e \<Longrightarrow> now \<le> ce_expires e \<Longrightarrow> f k = Some (ce_result e)"
    and "\<And>k t e. Option.bind (dict_get (vc_disk c) k) (load_file env t) = Some e \<Longrightarrow> now \<le> ce_expires e \<Longrightarrow>
      f k = Some (ce_result e) \<or>
      (\<exists>r e'. f k = Some r \<and> \<not> plain r \<and> dict_get (vc_memory c) k = Some e' \<and> ce_expires e \<le> ce_expires e')"
  shows "coherent env f now c"
  unfolding coherent_def using assms by blast

lemma coherent_new [simp]: "coherent env f now (new_cache [])"
  by (simp add: coherent_def new_cache_def)

lemma coherent_later: "coherent env f now c \<Longrightarrow> now \<le> now' \<Longrightarrow> coherent env f now' c"
  unfolding coherent_def by (meson order_trans)

lemma coherent_counters [simp]:
  "coherent env f now (hit c) = coherent env f now c" "coherent env f now (miss c) = coherent env f now c"
  by (simp_all add: coherent_def)

lemma valid_not_expired: "entry_valid now e t pol \<Longrightarrow> now \<le> ce_expires e"
  by (auto simp: entry_valid_def split: if_splits)

lemma invalid_expired: "\<not> entry_valid now e t pol \<Longrightarrow> pol \<noteq> DEGRADED \<Longrightarrow> \<not> now \<le> ce_expires e"
  by (auto simp: entry_valid_def split: if_splits)

lemma load_file_tier:
  "load_file env t x = Some e \<Longrightarrow> load_file env t' x = Some e' \<Longrightarrow> ce_result e' = ce_result e \<and> ce_expires e' = ce_expires e"
  by (auto simp: load_file_def split: option.splits)

text \<open>Reading an entry from its file.\<close>

lemma coherent_load:
  assumes c: "coherent env f now c" and load: "Option.bind (dict_get (vc_disk c) k) (load_file env t) = Some e"
    and ok: "pol = DEGRADED \<longrightarrow> pred_option plain (f k)"
    and no: "\<forall>e'. dict_get (vc_memory c) k = Some e' \<longrightarrow> \<not> entry_valid now e' t pol"
  shows "coherent env f now (c\<lparr>vc_memory := dict_set k e (vc_memory c)\<rparr>)"
    and "now \<le> ce_expires e \<Longrightarrow> f k = Some (ce_result e)"
proof -
  show e: "f k = Some (ce_result e)" if "now \<le> ce_expires e"
  proof (rule ccontr)
    assume n: "f k \<noteq> Some (ce_result e)"
    obtain r e' where "f k = Some r" "\<not> plain r" "dict_get (vc_memory c) k = Some e'" "ce_expires e \<le> ce_expires e'"
      using coherent_disk [OF c load \<open>now \<le> ce_expires e\<close>] n by blast
    with ok \<open>now \<le> ce_expires e\<close> no invalid_expired [of now e' t pol] show False by auto
  qed
  have same: "ce_result e' = ce_result e \<and> ce_expires e' = ce_expires e"
    if b: "Option.bind (dict_get (vc_disk c) k) (load_file env t') = Some e'" for t' e'
  proof -
    obtain x where "dict_get (vc_disk c) k = Some x" "load_file env t x = Some e"
      using load by (auto simp: bind_eq_Some_conv)
    with b load_file_tier [of env t x e t' e'] show ?thesis by simp
  qed
  show "coherent env f now (c\<lparr>vc_memory := dict_set k e (vc_memory c)\<rparr>)"
  proof (rule coherentI)
    show "f k' = Some (ce_result e')" if "dict_get (vc_memory (c\<lparr>vc_memory := dict_set k e (vc_memory c)\<rparr>)) k' = Some e'"
      "now \<le> ce_expires e'" for k' e'
      using that e coherent_memory [OF c, of k' e'] by (auto split: if_splits)
  next
    fix k' t' e'
    assume a: "Option.bind (dict_get (vc_disk (c\<lparr>vc_memory := dict_set k e (vc_memory c)\<rparr>)) k') (load_file env t') = Some e'"
      and now: "now \<le> ce_expires e'"
    show "f k' = Some (ce_result e') \<or> (\<exists>r e''. f k' = Some r \<and> \<not> plain r \<and>
        dict_get (vc_memory (c\<lparr>vc_memory := dict_set k e (vc_memory c)\<rparr>)) k' = Some e'' \<and> ce_expires e' \<le> ce_expires e'')"
    proof (cases "k' = k")
      case True
      with a now same [of t' e'] e show ?thesis by simp
    next
      case False
      with a now coherent_disk [OF c, of k' t' e'] show ?thesis by simp
    qed
  qed
qed

lemma cache_get_coherent:
  assumes c: "coherent env f now c" and g: "cache_get env now content n t pol c = (c', r)"
    and ok: "pol = DEGRADED \<longrightarrow> pred_option plain (f (cache_key env content n))"
  shows "coherent env f now c'" and "r = Some v \<Longrightarrow> f (cache_key env content n) = Some v"
    and "pol = SURVIVAL \<Longrightarrow> r = None"
proof -
  let ?k = "cache_key env content n"
  have "coherent env f now c' \<and> (r = None \<or> r = f ?k) \<and> (pol = SURVIVAL \<longrightarrow> r = None)"
  proof (cases "pol = SURVIVAL")
    case True
    with c g show ?thesis by (auto simp: cache_get_def)
  next
    case False
    show ?thesis
    proof (cases "\<exists>e. dict_get (vc_memory c) ?k = Some e \<and> entry_valid now e t pol")
      case True
      then obtain e where "dict_get (vc_memory c) ?k = Some e" "entry_valid now e t pol" by blast
      with c g False coherent_memory [OF c, of ?k e] valid_not_expired [of now e t pol] show ?thesis
        by (auto simp: cache_get_def Let_def)
    next
      case no: False
      then have kept: "(case dict_get (vc_memory c) ?k of None \<Rightarrow> None
          | Some e \<Rightarrow> if entry_valid now e t pol then Some (ce_result e) else None) = None"
        by (auto split: option.split)
      show ?thesis
      proof (cases "Option.bind (dict_get (vc_disk c) ?k) (load_file env t)")
        case None
        with c g False kept show ?thesis by (auto simp: cache_get_def Let_def)
      next
        case (Some e)
        have "\<forall>e'. dict_get (vc_memory c) ?k = Some e' \<longrightarrow> \<not> entry_valid now e' t pol"
          using no by blast
        note l = coherent_load [OF c Some ok this]
        show ?thesis
        proof (cases "entry_valid now e t pol")
          case True
          with l(1) l(2) [OF valid_not_expired [OF True]] g False kept Some show ?thesis
            by (auto simp: cache_get_def Let_def)
        next
          case e: False
          with l(1) g False kept Some show ?thesis by (auto simp: cache_get_def Let_def)
        qed
      qed
    qed
  qed
  then show "coherent env f now c'" "r = Some v \<Longrightarrow> f ?k = Some v" "pol = SURVIVAL \<Longrightarrow> r = None"
    by auto
qed

lemma cache_set_coherent:
  assumes c: "coherent env f now c" and f: "f (cache_key env content n) = Some r" and st: "storable env pol r"
  shows "\<exists>c'. cache_set env now content n r t 3600 c = (c', None) \<and> coherent env f now c'"
proof -
  let ?k = "cache_key env content n"
  obtain s where s: "ce_dumps env (vr_details r) = Some s" "ce_loads env s = Some (vr_details r)"
    using st by (auto simp: storable_def bind_eq_Some_conv)
  let ?e = "\<lparr>ce_tier = t, ce_result = r, ce_expires = now + 3600000000, ce_created = now\<rparr>"
  let ?x = "\<lparr>cf_passed = vr_passed r, cf_message = vr_message r, cf_details = s, cf_expires = now + 3600000000, cf_created = now\<rparr>"
  let ?c = "c\<lparr>vc_memory := dict_set ?k ?e (vc_memory c), vc_disk := dict_set ?k (Some ?x) (vc_disk c)\<rparr>"
  have "cache_set env now content n r t 3600 c = (?c, None)"
    using s(1) by (simp add: cache_set_def Let_def)
  moreover have "coherent env f now ?c"
  proof (rule coherentI)
    show "f k' = Some (ce_result e')" if "dict_get (vc_memory ?c) k' = Some e'" "now \<le> ce_expires e'" for k' e'
      using that f coherent_memory [OF c, of k' e'] by (auto split: if_splits)
  next
    fix k' t' e'
    assume a: "Option.bind (dict_get (vc_disk ?c) k') (load_file env t') = Some e'" and now: "now \<le> ce_expires e'"
    show "f k' = Some (ce_result e') \<or> (\<exists>r e''. f k' = Some r \<and> \<not> plain r \<and>
        dict_get (vc_memory ?c) k' = Some e'' \<and> ce_expires e' \<le> ce_expires e'')"
    proof (cases "k' = ?k")
      case True
      have "plain r \<Longrightarrow> \<lparr>vr_passed = vr_passed r, vr_message = vr_message r, vr_details = vr_details r, vr_skipped = False, vr_cost = 0\<rparr> = r"
        by (cases r) (simp add: plain_def)
      with True a f s(2) show ?thesis by (auto simp: load_file_def)
    next
      case False
      with a now coherent_disk [OF c, of k' t' e'] show ?thesis by simp
    qed
  qed
  ultimately show ?thesis by blast
qed

text \<open>The cache as a memory of answers: the state is the clock and the cache, and each request comes
  some time after the one before it.\<close>

type_synonym request = "nat \<times> string \<times> string \<times> ValidatorTier \<times> bool"

definition look_up :: "cache_env \<Rightarrow> request \<Rightarrow> datetime \<times> Cache \<Rightarrow> (datetime \<times> Cache) \<times> ValidationResult option" where
  "look_up env q s = (case q of (d, content, n, t, off) \<Rightarrow> case s of (now, c) \<Rightarrow>
     (case cache_get env (now + int d) content n t (if off then SURVIVAL else FULL) c of (c, r) \<Rightarrow> ((now + int d, c), r)))"

definition remember :: "cache_env \<Rightarrow> request \<Rightarrow> ValidationResult \<Rightarrow> datetime \<times> Cache \<Rightarrow> datetime \<times> Cache" where
  "remember env q r s = (case q of (d, content, n, t, off) \<Rightarrow> case s of (now, c) \<Rightarrow>
     (now, fst (cache_set env now content n r (Inl t) 3600 c)))"

definition question :: "cache_env \<Rightarrow> request \<Rightarrow> string" where
  "question env q = (case q of (d, content, n, t, off) \<Rightarrow> cache_key env content n)"

interpretation vc: answer_memo "look_up env" "remember env" "question env" "storable env FULL"
  "\<lambda>f (now, c). coherent env f now c" for env
proof unfold_locales
  have look: "(case s' of (now, c) \<Rightarrow> coherent env f now c) \<and> (\<forall>v. x = Some v \<longrightarrow> f (question env r) = Some v)"
    if a: "case s of (now, c) \<Rightarrow> coherent env f now c" "look_up env r s = (s', x)" for f s r s' x
  proof -
    obtain d content n t off where r: "r = (d, content, n, t, off)" by (cases r)
    obtain now c where s: "s = (now, c)" by (cases s)
    let ?pol = "if off then SURVIVAL else FULL"
    obtain c' where g: "cache_get env (now + int d) content n t ?pol c = (c', x)" "s' = (now + int d, c')"
      using a(2) by (auto simp: look_up_def r s split: prod.splits)
    have "coherent env f (now + int d) c" using a(1) by (auto simp: s intro: coherent_later)
    from cache_get_coherent(1,2) [OF this g(1)] show ?thesis
      by (auto simp: g(2) question_def r split: if_splits)
  qed
  show "case s of (now, c) \<Rightarrow> coherent env f now c \<Longrightarrow> look_up env r s = (s', x) \<Longrightarrow>
      case s' of (now, c) \<Rightarrow> coherent env f now c" for f s r s' x
    using look by blast
  show "case s of (now, c) \<Rightarrow> coherent env f now c \<Longrightarrow> look_up env r s = (s', Some v) \<Longrightarrow> f (question env r) = Some v"
    for f s r s' v
    using look by blast
  show "case remember env q v s of (now, c) \<Rightarrow> coherent env f now c"
    if a: "case s of (now, c) \<Rightarrow> coherent env f now c" "f (question env q) = Some v" "storable env FULL v" for f s q v
  proof -
    obtain d content n t off where q: "q = (d, content, n, t, off)" by (cases q)
    obtain now c where s: "s = (now, c)" by (cases s)
    obtain c' where "cache_set env now content n v (Inl t) 3600 c = (c', None)" "coherent env f now c'"
      using cache_set_coherent [where f = f, OF _ _ a(3), of now c content n "Inl t"] a(1,2)
      by (auto simp: question_def q s)
    then show ?thesis by (simp add: remember_def q s)
  qed
qed

subsection \<open>What a pipeline decides\<close>

text \<open>
  The decision of a pipeline without cache, time or order: \<open>ans n\<close> is the result of the check
  named \<open>n\<close>, \<^const>\<open>None\<close> if it raises. An exception in the first or third tier ends the
  pipeline: \<^const>\<open>None\<close>.
\<close>

type_synonym results = "string \<Rightarrow> ValidationResult option"

fun spec_tier1 :: "results \<Rightarrow> validator list \<Rightarrow> results \<Rightarrow> (bool \<times> results) option" where
  "spec_tier1 ans [] m = Some (True, m)"
| "spec_tier1 ans (v # vs) m =
     (case ans (v_name v) of
        None \<Rightarrow> None
      | Some r \<Rightarrow>
          (let m = m(v_name v \<mapsto> r)
           in if \<not> vr_passed r \<and> vd_critical (v_def v) then Some (False, m) else spec_tier1 ans vs m))"

definition spec_tier2 :: "results \<Rightarrow> string set \<Rightarrow> results \<Rightarrow> results" where
  "spec_tier2 ans N m n = (case if n \<in> N then ans n else None of None \<Rightarrow> m n | Some r \<Rightarrow> Some r)"

fun spec_tier3 :: "results \<Rightarrow> validator list \<Rightarrow> results \<Rightarrow> results option" where
  "spec_tier3 ans [] m = Some m"
| "spec_tier3 ans (v # vs) m =
     (if list_all (\<lambda>d. case m d of None \<Rightarrow> False | Some r \<Rightarrow> vr_passed r) (vd_depends_on (v_def v))
      then (case ans (v_name v) of None \<Rightarrow> None | Some r \<Rightarrow> spec_tier3 ans vs (m(v_name v \<mapsto> r)))
      else spec_tier3 ans vs (m(v_name v \<mapsto> skipped_result v)))"

definition spec_run :: "results \<Rightarrow> validator list \<Rightarrow> validator list \<Rightarrow> validator list \<Rightarrow> (bool \<times> results) option" where
  "spec_run ans t1 t2 t3 =
     (case spec_tier1 ans t1 (\<lambda>_. None) of
        None \<Rightarrow> None
      | Some (False, m) \<Rightarrow> Some (False, m)
      | Some (True, m) \<Rightarrow> map_option
          (\<lambda>m. (list_all (\<lambda>v. case m (v_name v) of None \<Rightarrow> True | Some r \<Rightarrow> counts r) (t1 @ t2 @ t3), m))
          (spec_tier3 ans t3 (spec_tier2 ans (v_name ` set t2) m)))"

text \<open>The checks take some time and give the results \<open>f\<close>, with details that JSON keeps, or raise.\<close>

definition gives :: "cache_env \<Rightarrow> CachePolicy \<Rightarrow> artifact \<Rightarrow> (string \<Rightarrow> ValidationResult option) \<Rightarrow> validator \<Rightarrow> bool" where
  "gives env pol a f v \<longleftrightarrow> 0 \<le> an_time (v_check v a) \<and>
     (case snd (run_with_timeout v a) of
        Inl e \<Rightarrow> f (cache_key env (artifact_str a) (v_name v)) = None
      | Inr r \<Rightarrow> f (cache_key env (artifact_str a) (v_name v)) = Some r \<and> storable env pol r)"

lemma get_timeout_pos: "0 < get_timeout n 30"
  by (simp add: get_timeout_def default_timeouts_def dict_get_default_def)

lemma duration_nonneg: "0 \<le> an_time (v_check v a) \<Longrightarrow> 0 \<le> fst (run_with_timeout v a)"
  using get_timeout_pos [of "v_name v"] by (simp add: run_with_timeout_def Let_def)

lemma gives_facts:
  assumes "gives env pol a f v"
  shows "0 \<le> fst (run_with_timeout v a)"
    and "pol = DEGRADED \<longrightarrow> pred_option plain (f (cache_key env (artifact_str a) (v_name v)))"
  using assms duration_nonneg [of v a] by (auto simp: gives_def storable_def split: sum.splits)

definition good :: "cache_env \<Rightarrow> (string \<Rightarrow> ValidationResult option) \<Rightarrow> progress \<Rightarrow> bool" where
  "good env f s \<longleftrightarrow> coherent env f (pg_now s) (pg_cache s) \<and> dict_wf (pg_results s)"

lemma good_calls [simp]: "good env f (s\<lparr>pg_calls := x\<rparr>) = good env f s"
  by (simp add: good_def)

lemma good_later: "good env f s \<Longrightarrow> pg_now s \<le> t \<Longrightarrow> good env f (s\<lparr>pg_now := t\<rparr>)"
  by (auto simp: good_def intro: coherent_later)

lemma put_result_simps [simp]:
  "pg_cache (put_result n r s) = pg_cache s" "map_of (pg_results (put_result n r s)) = (map_of (pg_results s))(n \<mapsto> r)"
  by (auto simp: put_result_def fun_eq_iff)

lemma put_result_good [simp]: "good env f s \<Longrightarrow> good env f (put_result n r s)"
  by (simp add: good_def put_result_def)

lemma cached_good:
  assumes "good env f s" and "cached env pol a v s = (s', r)" and "gives env pol a f v"
  shows "good env f s' \<and> pg_results s' = pg_results s \<and> pg_now s' = pg_now s \<and>
    (r = None \<or> r = f (cache_key env (artifact_str a) (v_name v))) \<and> (pol = SURVIVAL \<longrightarrow> r = None)"
proof -
  obtain c where c: "cache_get env (pg_now s) (artifact_str a) (v_name v) (vd_tier (v_def v)) pol (pg_cache s) = (c, r)"
      "s' = s\<lparr>pg_cache := c\<rparr>"
    using assms(2) by (auto simp: cached_def split: prod.splits)
  with assms(1) cache_get_coherent [OF _ c(1), of f] gives_facts(2) [OF assms(3)] show ?thesis
    by (cases r) (auto simp: good_def)
qed

lemma store_good:
  assumes "good env f s" and "f (cache_key env (artifact_str a) (v_name v)) = Some r" and "storable env pol r"
  shows "\<exists>s'. store_answer env a v r s = (s', Inr r) \<and> good env f s' \<and> pg_results s' = pg_results s"
proof -
  obtain c where "cache_set env (pg_now s) (artifact_str a) (v_name v) r (Inr (vd_cache_ttl (v_def v))) 3600 (pg_cache s) = (c, None)"
      "coherent env f (pg_now s) c"
    using cache_set_coherent [where f = f, OF _ _ assms(3)] assms(1,2) by (metis good_def)
  with assms(1) show ?thesis by (simp add: store_answer_def good_def)
qed

lemma run_check_good:
  assumes "good env f s" and "gives env pol a f v"
  shows "\<exists>s'. good env f s' \<and> pg_results s' = pg_results s \<and>
    (case f (cache_key env (artifact_str a) (v_name v)) of
       None \<Rightarrow> \<exists>e. run_check env a v s = (s', Inl e) | Some r \<Rightarrow> run_check env a v s = (s', Inr r))"
proof -
  obtain d x where x: "run_with_timeout v a = (d, x)" by fastforce
  have g: "good env f (s\<lparr>pg_now := pg_now s + d\<rparr>)"
    using assms(1) gives_facts(1) [OF assms(2)] by (intro good_later) (simp_all add: x)
  show ?thesis
  proof (cases x)
    case (Inl e)
    with assms(2) g x show ?thesis by (auto simp: run_check_def gives_def)
  next
    case (Inr r)
    with assms(2) x have r: "f (cache_key env (artifact_str a) (v_name v)) = Some r" "storable env pol r"
      by (auto simp: gives_def)
    from store_good [OF g r] Inr x r(1) show ?thesis by (auto simp: run_check_def)
  qed
qed

text \<open>The answers of the checks as a function of their names.\<close>

definition named_answers :: "cache_env \<Rightarrow> artifact \<Rightarrow> (string \<Rightarrow> ValidationResult option) \<Rightarrow> results" where
  "named_answers env a f n = f (cache_key env (artifact_str a) n)"

text \<open>A tier ends as its specification says.\<close>

definition tier_ends :: "cache_env \<Rightarrow> (string \<Rightarrow> ValidationResult option) \<Rightarrow> progress \<times> (string + 'b) \<Rightarrow> ('b \<times> results) option \<Rightarrow> bool" where
  "tier_ends env f x y \<longleftrightarrow> good env f (fst x) \<and>
     (case y of None \<Rightarrow> isl (snd x) | Some (b, m) \<Rightarrow> snd x = Inr b \<and> map_of (pg_results (fst x)) = m)"

lemma run_tier1_spec:
  assumes "good env f s" and "list_all (gives env pol a f) vs"
    and "pol = SURVIVAL \<or> list_all (\<lambda>v. vd_critical (v_def v) \<or> (case named_answers env a f (v_name v) of None \<Rightarrow> True | Some r \<Rightarrow> vr_passed r)) vs"
  shows "tier_ends env f (run_tier1 env pol a vs s) (spec_tier1 (named_answers env a f) vs (map_of (pg_results s)))"
  using assms
proof (induction vs arbitrary: s)
  case (Cons v vs)
  obtain s1 r where c: "cached env pol a v s = (s1, r)"
    by fastforce
  have gv: "gives env pol a f v" using Cons.prems(2) by simp
  note g = cached_good [OF Cons.prems(1) c gv]
  let ?n = "v_name v"
  have step: ?case if r': "named_answers env a f ?n = Some r'" and s2: "good env f s2" "pg_results s2 = pg_results s"
      and run: "run_tier1 env pol a (v # vs) s = (if \<not> vr_passed r' \<and> (b \<or> vd_critical (v_def v)) then (put_result ?n r' s2, Inr False)
        else run_tier1 env pol a vs (put_result ?n r' s2))" and b: "b \<longrightarrow> pol \<noteq> SURVIVAL" for r' s2 b
  proof -
    have m: "map_of (pg_results (put_result ?n r' s2)) = (map_of (pg_results s))(?n \<mapsto> r')"
      using s2(2) by simp
    have eq: "(\<not> vr_passed r' \<and> (b \<or> vd_critical (v_def v))) = (\<not> vr_passed r' \<and> vd_critical (v_def v))"
      using Cons.prems(3) b r' by auto
    show ?thesis
    proof (cases "\<not> vr_passed r' \<and> vd_critical (v_def v)")
      case True
      then show ?thesis
        unfolding run using s2 by (simp add: eq r' tier_ends_def)
    next
      case False
      have "tier_ends env f (run_tier1 env pol a vs (put_result ?n r' s2))
          (spec_tier1 (named_answers env a f) vs (map_of (pg_results (put_result ?n r' s2))))"
        using Cons.IH [of "put_result ?n r' s2", OF put_result_good [OF s2(1)]] Cons.prems(2,3) by fastforce
      with False show ?thesis
        unfolding run eq m by (auto simp: r')
    qed
  qed
  show ?case
  proof (cases r)
    case (Some r')
    then have "f (cache_key env (artifact_str a) ?n) = Some r'" "cached env pol a v s = (s1, Some r')" "pol \<noteq> SURVIVAL"
      using g c by auto
    then show ?thesis
      by (intro step [of r' s1 True]) (use g in \<open>auto simp: named_answers_def Let_def\<close>)
  next
    case None
    have g1: "good env f s1" using g by simp
    obtain s2 where s2: "good env f s2" "pg_results s2 = pg_results s1"
        "case f (cache_key env (artifact_str a) ?n) of None \<Rightarrow> \<exists>e. run_check env a v s1 = (s2, Inl e)
          | Some r' \<Rightarrow> run_check env a v s1 = (s2, Inr r')"
      using run_check_good [OF g1 gv] by blast
    show ?thesis
    proof (cases "f (cache_key env (artifact_str a) ?n)")
      case no: None
      with s2 c None show ?thesis by (auto simp: tier_ends_def named_answers_def)
    next
      case (Some r')
      show ?thesis
        by (rule step [of r' s2 False]) (use g None c s2 Some in \<open>auto simp: named_answers_def Let_def\<close>)
    qed
  qed
qed (simp add: tier_ends_def)

lemma spec_tier2_mono: "spec_tier2 ans N (spec_tier2 ans M m) = spec_tier2 ans (N \<union> M) m"
  by (auto simp: spec_tier2_def fun_eq_iff split: option.splits)

lemma spec_tier2_one: "spec_tier2 ans {n} m = (case ans n of None \<Rightarrow> m | Some r \<Rightarrow> m(n \<mapsto> r))"
  by (auto simp: spec_tier2_def fun_eq_iff split: option.splits)

lemma finish_task_spec:
  assumes "good env f s" and "gives env pol a f v"
  shows "good env f (finish_task env a v (snd (run_with_timeout v a)) s) \<and>
    map_of (pg_results (finish_task env a v (snd (run_with_timeout v a)) s)) =
      spec_tier2 (named_answers env a f) {v_name v} (map_of (pg_results s))"
proof (cases "snd (run_with_timeout v a)")
  case (Inl e)
  with assms show ?thesis
    by (simp add: finish_task_def gives_def spec_tier2_one named_answers_def)
next
  case (Inr r)
  with assms(2) have r: "f (cache_key env (artifact_str a) (v_name v)) = Some r" "storable env pol r"
    by (auto simp: gives_def)
  obtain s' where "store_answer env a v r s = (s', Inr r)" "good env f s'" "pg_results s' = pg_results s"
    using store_good [OF assms(1) r] by auto
  with Inr r show ?thesis
    by (simp add: finish_task_def spec_tier2_one named_answers_def Let_def)
qed

lemma end_tasks_spec:
  assumes "good env f s" and "\<And>t v x. (t, v, x) \<in> set ps \<Longrightarrow> gives env pol a f v \<and> x = snd (run_with_timeout v a)"
  shows "good env f (end_tasks env a ps s) \<and>
    map_of (pg_results (end_tasks env a ps s)) =
      spec_tier2 (named_answers env a f) ((\<lambda>(t, v, x). v_name v) ` set ps) (map_of (pg_results s))"
proof -
  have *: "good env f s' \<and> map_of (pg_results s') =
      spec_tier2 (named_answers env a f) ((\<lambda>(t, v, x). v_name v) ` set qs) (map_of (pg_results s))"
    if "s' = fold (\<lambda>(t, v, x) s. finish_task env a v x (s\<lparr>pg_now := max (pg_now s) t\<rparr>)) qs s"
      and "good env f s" and "set qs \<subseteq> set ps" for qs s s'
    using that
  proof (induction qs arbitrary: s s')
    case Nil
    then show ?case by (simp add: spec_tier2_def fun_eq_iff)
  next
    case (Cons q qs)
    obtain t v x where q: "q = (t, v, x)"
      by (cases q)
    with Cons.prems assms(2) [of t v x] have v: "gives env pol a f v" "x = snd (run_with_timeout v a)"
      by auto
    let ?s = "s\<lparr>pg_now := max (pg_now s) t\<rparr>"
    have g: "good env f ?s"
      using Cons.prems(2) by (intro good_later) simp_all
    note f = finish_task_spec [OF g v(1), folded v(2)]
    from Cons.IH [of s' "finish_task env a v x ?s"] Cons.prems f show ?case
      by (simp add: q spec_tier2_mono)
  qed
  show ?thesis
    using * [OF refl assms(1), of "sort_key fst ps"] by (simp add: end_tasks_def)
qed

lemma start_tasks_spec:
  assumes "good env f s" and "list_all (gives env pol a f) vs" and "start_tasks env pol a vs s = (s', ps)"
  shows "good env f s' \<and> (\<forall>(t, v, x) \<in> set ps. v \<in> set vs \<and> x = snd (run_with_timeout v a)) \<and>
    (\<exists>N. N \<union> (\<lambda>(t, v, x). v_name v) ` set ps = v_name ` set vs \<and>
       map_of (pg_results s') = spec_tier2 (named_answers env a f) N (map_of (pg_results s)))"
  using assms
proof (induction vs arbitrary: s s' ps)
  case Nil
  then show ?case by (auto simp: spec_tier2_def fun_eq_iff)
next
  case (Cons v vs)
  have now: ?case
    if s2: "good env f s2" "map_of (pg_results s2) = spec_tier2 (named_answers env a f) {v_name v} (map_of (pg_results s))"
      and rest: "start_tasks env pol a vs s2 = (s', ps)" for s2
  proof -
    obtain N where N: "good env f s'" "\<forall>(t, v, x) \<in> set ps. v \<in> set vs \<and> x = snd (run_with_timeout v a)"
        "N \<union> (\<lambda>(t, v, x). v_name v) ` set ps = v_name ` set vs"
        "map_of (pg_results s') = spec_tier2 (named_answers env a f) N (map_of (pg_results s2))"
      using Cons.IH [OF s2(1) _ rest] Cons.prems(2) by auto
    have "map_of (pg_results s') = spec_tier2 (named_answers env a f) (insert (v_name v) N) (map_of (pg_results s))"
      by (simp add: N(4) s2(2) spec_tier2_mono)
    moreover have "insert (v_name v) N \<union> (\<lambda>(t, v, x). v_name v) ` set ps = v_name ` set (v # vs)"
      using N(3) by auto
    ultimately show ?thesis
      using N(1,2) by (intro conjI exI [of _ "insert (v_name v) N"]) auto
  qed
  obtain s1 r where c: "cached env pol a v s = (s1, r)"
    by fastforce
  have gv: "gives env pol a f v" using Cons.prems(2) by simp
  note g = cached_good [OF Cons.prems(1) c gv]
  obtain d x where x: "run_with_timeout v a = (d, x)"
    by fastforce
  show ?case
  proof (cases r)
    case (Some r')
    then have "f (cache_key env (artifact_str a) (v_name v)) = Some r'" "cached env pol a v s = (s1, Some r')"
      using g c by auto
    with g Cons.prems(3) show ?thesis
      by (intro now [of "put_result (v_name v) r' s1"]) (auto simp: spec_tier2_one named_answers_def)
  next
    case None
    show ?thesis
    proof (cases "an_awaits (v_check v a)")
      case True
      obtain s3 qs where rest: "start_tasks env pol a vs s1 = (s3, qs)"
        by fastforce
      with None True c x Cons.prems(3) have ps: "s' = s3" "ps = (pg_now s1 + d, v, x) # qs"
        by auto
      obtain N where N: "good env f s3" "\<forall>(t, v, x) \<in> set qs. v \<in> set vs \<and> x = snd (run_with_timeout v a)"
          "N \<union> (\<lambda>(t, v, x). v_name v) ` set qs = v_name ` set vs"
          "map_of (pg_results s3) = spec_tier2 (named_answers env a f) N (map_of (pg_results s1))"
        using Cons.IH [OF _ _ rest] Cons.prems(2) g by auto
      have "N \<union> (\<lambda>(t, v, x). v_name v) ` set ps = v_name ` set (v # vs)"
        using N(3) by (auto simp: ps)
      with N g x show ?thesis
        by (intro conjI exI [of _ N]) (auto simp: ps)
    next
      case False
      have "good env f (s1\<lparr>pg_now := pg_now s1 + d\<rparr>)"
        using g gives_facts(1) [OF gv] x by (intro good_later) simp_all
      note f = finish_task_spec [OF this, of pol a v]
      have "start_tasks env pol a vs (finish_task env a v x (s1\<lparr>pg_now := pg_now s1 + d\<rparr>)) = (s', ps)"
        using Cons.prems(3) False None c x by simp
      with f Cons.prems(2) x g show ?thesis
        by (intro now [of "finish_task env a v x (s1\<lparr>pg_now := pg_now s1 + d\<rparr>)"]) simp_all
    qed
  qed
qed

lemma run_tier2_spec:
  assumes "good env f s" and "list_all (gives env pol a f) vs"
  shows "good env f (run_tier2 env pol a vs s) \<and>
    map_of (pg_results (run_tier2 env pol a vs s)) = spec_tier2 (named_answers env a f) (v_name ` set vs) (map_of (pg_results s))"
proof -
  obtain s1 ps where s1: "start_tasks env pol a vs s = (s1, ps)"
    by fastforce
  obtain N where N: "good env f s1" "\<forall>(t, v, x) \<in> set ps. v \<in> set vs \<and> x = snd (run_with_timeout v a)"
      "N \<union> (\<lambda>(t, v, x). v_name v) ` set ps = v_name ` set vs"
      "map_of (pg_results s1) = spec_tier2 (named_answers env a f) N (map_of (pg_results s))"
    using start_tasks_spec [OF assms s1] by auto
  have ps: "gives env pol a f v \<and> x = snd (run_with_timeout v a)" if "(t, v, x) \<in> set ps" for t v x
    using that N(2) assms(2) by (auto simp: list_all_iff)
  from end_tasks_spec [OF N(1) ps] show ?thesis
    by (simp add: run_tier2_def s1 N(4) spec_tier2_mono Un_commute flip: N(3))
qed

lemma run_tier3_spec:
  assumes "good env f s" and "list_all (gives env pol a f) vs"
  shows "tier_ends env f (run_tier3 env pol a vs s)
    (map_option (Pair ()) (spec_tier3 (named_answers env a f) vs (map_of (pg_results s))))"
  using assms
proof (induction vs arbitrary: s)
  case (Cons v vs)
  let ?n = "v_name v"
  have gv: "gives env pol a f v" using Cons.prems(2) by simp
  have step: ?case if s2: "good env f s2" "pg_results s2 = pg_results s"
      and run: "run_tier3 env pol a (v # vs) s = run_tier3 env pol a vs (put_result ?n r' s2)"
      and r': "(if deps_passed v (pg_results s) then named_answers env a f ?n = Some r' else r' = skipped_result v)" for r' s2
  proof -
    have "tier_ends env f (run_tier3 env pol a vs (put_result ?n r' s2))
        (map_option (Pair ()) (spec_tier3 (named_answers env a f) vs (map_of (pg_results (put_result ?n r' s2)))))"
      using Cons.IH [of "put_result ?n r' s2", OF put_result_good [OF s2(1)]] Cons.prems(2) by fastforce
    with r' show ?thesis
      unfolding run by (simp add: s2(2) deps_passed_def split: if_splits)
  qed
  show ?case
  proof (cases "deps_passed v (pg_results s)")
    case False
    with Cons.prems(1) show ?thesis
      by (intro step [of s "skipped_result v"]) auto
  next
    case True
    obtain s1 r where c: "cached env pol a v s = (s1, r)"
      by fastforce
    note g = cached_good [OF Cons.prems(1) c gv]
    show ?thesis
    proof (cases r)
      case (Some r')
      then have "f (cache_key env (artifact_str a) ?n) = Some r'" "cached env pol a v s = (s1, Some r')"
        using g c by auto
      with True g show ?thesis
        by (intro step [of s1 r']) (auto simp: named_answers_def)
    next
      case None
      have g1: "good env f s1" using g by simp
      obtain s2 where s2: "good env f s2" "pg_results s2 = pg_results s1"
          "case f (cache_key env (artifact_str a) ?n) of None \<Rightarrow> \<exists>e. run_check env a v s1 = (s2, Inl e)
            | Some r' \<Rightarrow> run_check env a v s1 = (s2, Inr r')"
        using run_check_good [OF g1 gv] by blast
      show ?thesis
      proof (cases "f (cache_key env (artifact_str a) ?n)")
        case no: None
        with s2 c None True show ?thesis by (auto simp: tier_ends_def named_answers_def deps_passed_def)
      next
        case (Some r')
        with True None c g s2 show ?thesis
          by (intro step [of s2 r']) (auto simp: named_answers_def)
      qed
    qed
  qed
qed (simp add: tier_ends_def)

lemma spec_tier1_dom: "spec_tier1 ans vs m = Some (b, m') \<Longrightarrow> dom m' \<subseteq> dom m \<union> v_name ` set vs"
proof (induction vs arbitrary: m)
  case (Cons v vs)
  then show ?case
    by (cases "ans (v_name v)") (fastforce simp: Let_def split: if_splits)+
qed simp

lemma spec_tier2_dom: "dom (spec_tier2 ans N m) \<subseteq> dom m \<union> N"
  by (auto simp: spec_tier2_def split: option.splits if_splits)

lemma spec_tier3_dom: "spec_tier3 ans vs m = Some m' \<Longrightarrow> dom m' \<subseteq> dom m \<union> v_name ` set vs"
proof (induction vs arbitrary: m)
  case (Cons v vs)
  then show ?case
    by (cases "ans (v_name v)") (fastforce split: if_splits)+
qed simp

lemma all_values: "dict_wf d \<Longrightarrow> list_all P (dict_values d) \<longleftrightarrow> (\<forall>n r. map_of d n = Some r \<longrightarrow> P r)"
  by (auto simp: list_all_iff dict_get_iff)


subsection \<open>How long a result counts\<close>

text \<open>A result is kept for an hour, whatever \<open>cache_ttl\<close> its validator has; both stores forget it
  at the same instant.\<close>

theorem kept_for_an_hour:
  assumes "store_answer env a v r s = (s', x)"
  shows "snd (cache_get env now (artifact_str a) (v_name v) T1 FULL (pg_cache s')) =
    (if now \<le> pg_now s + 3600000000 then Some r else None) \<or> ce_dumps env (vr_details r) = None"
  using assms
  by (auto simp: store_answer_def cache_set_def Let_def cache_get_def entry_valid_def load_file_def
      split: option.splits prod.splits)

lemma timeout_ignores_definition: "run_with_timeout (v\<lparr>v_def := (v_def v)\<lparr>vd_timeout := n\<rparr>\<rparr>) a = run_with_timeout v a"
  by (simp add: run_with_timeout_def Let_def)

text \<open>Checks of other names leave the entry and the result of a check alone.\<close>

definition untouched :: "cache_env \<Rightarrow> artifact \<Rightarrow> string \<Rightarrow> progress \<Rightarrow> progress \<Rightarrow> bool" where
  "untouched env a n s s' \<longleftrightarrow> (let k = cache_key env (artifact_str a) n in
     dict_get (vc_memory (pg_cache s')) k = dict_get (vc_memory (pg_cache s)) k \<and>
     dict_get (vc_disk (pg_cache s')) k = dict_get (vc_disk (pg_cache s)) k \<and>
     dict_get (pg_results s') n = dict_get (pg_results s) n \<and>
     (dict_wf (pg_results s) \<longrightarrow> dict_wf (pg_results s')) \<and> pg_now s \<le> pg_now s')"

definition other :: "artifact \<Rightarrow> string \<Rightarrow> validator \<Rightarrow> bool" where
  "other a n u \<longleftrightarrow> v_name u \<noteq> n \<and> 0 \<le> an_time (v_check u a)"

lemma untouched_refl [simp]: "untouched env a n s s"
  by (simp add: untouched_def Let_def)

lemma untouched_trans: "untouched env a n s s' \<Longrightarrow> untouched env a n s' s'' \<Longrightarrow> untouched env a n s s''"
  by (simp add: untouched_def Let_def)

lemma cache_key_inject [simp]: "cache_key env c m = cache_key env c n \<longleftrightarrow> m = n"
  by (simp add: cache_key_def)

lemma untouched_clock: "pg_now s \<le> t \<Longrightarrow> untouched env a n s (s\<lparr>pg_now := t\<rparr>)"
  by (simp add: untouched_def Let_def)

lemma untouched_put: "m \<noteq> n \<Longrightarrow> untouched env a n s (put_result m r s)"
  by (simp add: untouched_def put_result_def Let_def)

lemma untouched_cached: "cached env pol a u s = (s', r) \<Longrightarrow> v_name u \<noteq> n \<Longrightarrow> untouched env a n s s' \<and> pg_now s' = pg_now s"
  by (auto simp: cached_def cache_get_def untouched_def Let_def split: prod.splits option.splits if_splits)

lemma untouched_store: "store_answer env a u r s = (s', x) \<Longrightarrow> v_name u \<noteq> n \<Longrightarrow> untouched env a n s s' \<and> pg_now s' = pg_now s"
  by (auto simp: store_answer_def cache_set_def untouched_def Let_def split: prod.splits option.splits)

lemma untouched_check:
  assumes "run_check env a u s = (s', x)" and "other a n u"
  shows "untouched env a n s s' \<and> pg_now s' = pg_now s + fst (run_with_timeout u a)"
proof -
  obtain d y where d: "run_with_timeout u a = (d, y)" by fastforce
  have t: "untouched env a n s (s\<lparr>pg_now := pg_now s + d\<rparr>)"
    using assms(2) duration_nonneg [of u a] by (intro untouched_clock) (simp add: d other_def)
  show ?thesis
  proof (cases y)
    case (Inl e)
    with assms(1) t show ?thesis by (auto simp: run_check_def d)
  next
    case (Inr r)
    with assms(1) have "store_answer env a u r (s\<lparr>pg_now := pg_now s + d\<rparr>) = (s', x)" by (simp add: run_check_def d)
    from untouched_store [OF this, of n] assms(2) untouched_trans [OF t] show ?thesis by (auto simp: other_def d)
  qed
qed

lemma untouched_finish: "v_name u \<noteq> n \<Longrightarrow> untouched env a n s (finish_task env a u x s)"
proof (cases x)
  case (Inr r)
  assume u: "v_name u \<noteq> n"
  obtain s' y where s': "store_answer env a u r s = (s', y)" by fastforce
  note t = untouched_store [OF s' u]
  have p: "untouched env a n s' (put_result (v_name u) z (s'\<lparr>pg_calls := q\<rparr>))" for z q
    using u by (simp add: untouched_def put_result_def Let_def)
  have p': "untouched env a n s' (put_result (v_name u) z s')" for z
    using u by (rule untouched_put)
  from t untouched_trans [OF conjunct1 [OF t] p] untouched_trans [OF conjunct1 [OF t] p'] show ?thesis
    by (simp add: finish_task_def Inr s' Let_def split: sum.split)
qed (simp add: finish_task_def)

lemma untouched_tier1:
  assumes "run_tier1 env pol a us s = (s', x)" and "list_all (other a n) us"
  shows "untouched env a n s s' \<and> pg_now s' \<le> pg_now s + sum_list (map (\<lambda>u. fst (run_with_timeout u a)) us)"
  using assms
proof (induction us arbitrary: s)
  case (Cons u us)
  let ?T = "sum_list (map (\<lambda>u. fst (run_with_timeout u a)) us)" and ?d = "fst (run_with_timeout u a)"
  have u: "v_name u \<noteq> n" "other a n u" "0 \<le> ?d" and us: "list_all (other a n) us"
    using Cons.prems(2) duration_nonneg [of u a] by (auto simp: other_def [of a n u])
  have "0 \<le> ?T"
    using us duration_nonneg by (intro sum_list_nonneg) (auto simp: other_def list_all_iff)
  have step: ?case
    if t: "untouched env a n s s2" "pg_now s2 \<le> pg_now s + ?d" and
      x: "(s', x) = (put_result (v_name u) r s2, Inr False) \<or> (s', x) = run_tier1 env pol a us (put_result (v_name u) r s2)" for s2 r
  proof -
    have p: "untouched env a n s (put_result (v_name u) r s2)"
      using untouched_trans [OF t(1) untouched_put] u(1) by blast
    have "pg_now (put_result (v_name u) r s2) = pg_now s2" by (simp add: put_result_def)
    with x t(2) p \<open>0 \<le> ?T\<close> Cons.IH [of "put_result (v_name u) r s2"] us untouched_trans [OF p] show ?thesis
      by (elim disjE) auto
  qed
  obtain s1 c where c: "cached env pol a u s = (s1, c)" by fastforce
  note c1 = untouched_cached [OF c u(1)]
  show ?case
  proof (cases c)
    case (Some r)
    show ?thesis
      by (rule step [of s1 r]) (use Cons.prems(1) c c1 Some u(3) in \<open>auto simp: Let_def split: if_splits\<close>)
  next
    case None
    obtain s2 y where y: "run_check env a u s1 = (s2, y)" by fastforce
    note k = untouched_check [OF y u(2)]
    have t: "untouched env a n s s2" "pg_now s2 \<le> pg_now s + ?d"
      using untouched_trans [OF conjunct1 [OF c1] conjunct1 [OF k]] c1 k by auto
    show ?thesis
    proof (cases y)
      case (Inl e)
      with Cons.prems(1) c None y t \<open>0 \<le> ?T\<close> show ?thesis by auto
    next
      case (Inr r)
      show ?thesis
        by (rule step [of s2 r]) (use Cons.prems(1) c None y Inr t in \<open>auto simp: Let_def split: if_splits\<close>)
    qed
  qed
qed simp

lemma untouched_start:
  assumes "start_tasks env pol a us s = (s', ps)" and "list_all (other a n) us"
  shows "untouched env a n s s' \<and> list_all (\<lambda>(t, v, x). v_name v \<noteq> n) ps"
  using assms
proof (induction us arbitrary: s s' ps)
  case (Cons u us)
  have u: "v_name u \<noteq> n" "0 \<le> fst (run_with_timeout u a)" and us: "list_all (other a n) us"
    using Cons.prems(2) duration_nonneg [of u a] by (auto simp: other_def [of a n u])
  have go: ?case if t: "untouched env a n s s2" and x: "start_tasks env pol a us s2 = (s', ps)" for s2
    using Cons.IH [OF x us] untouched_trans [OF t] by blast
  obtain s1 c where c: "cached env pol a u s = (s1, c)" by fastforce
  note c1 = conjunct1 [OF untouched_cached [OF c u(1)]]
  obtain d x where d: "run_with_timeout u a = (d, x)" by fastforce
  show ?case
  proof (cases c)
    case (Some r)
    show ?thesis
      by (rule go [OF untouched_trans [OF c1 untouched_put [OF u(1)]]]) (use Cons.prems(1) c Some in simp)
  next
    case None
    show ?thesis
    proof (cases "an_awaits (v_check u a)")
      case True
      obtain s3 qs where q: "start_tasks env pol a us s1 = (s3, qs)" by fastforce
      with Cons.prems(1) c None d True have "s' = s3" "ps = (pg_now s1 + d, u, x) # qs" by auto
      with Cons.IH [OF q us] untouched_trans [OF c1] u(1) show ?thesis by auto
    next
      case False
      have "untouched env a n s1 (s1\<lparr>pg_now := pg_now s1 + d\<rparr>)"
        using u(2) d by (intro untouched_clock) simp
      with c1 have "untouched env a n s (finish_task env a u x (s1\<lparr>pg_now := pg_now s1 + d\<rparr>))"
        using untouched_trans untouched_finish [OF u(1)] by blast
      then show ?thesis
        by (rule go) (use Cons.prems(1) c None d False in simp)
    qed
  qed
qed simp

lemma untouched_ends:
  "list_all (\<lambda>(t, v, x). v_name v \<noteq> n) ps \<Longrightarrow>
    untouched env a n s (fold (\<lambda>(t, v, x) s. finish_task env a v x (s\<lparr>pg_now := max (pg_now s) t\<rparr>)) ps s)"
proof (induction ps arbitrary: s)
  case (Cons p ps)
  obtain t v x where p: "p = (t, v, x)" by (cases p)
  let ?s = "finish_task env a v x (s\<lparr>pg_now := max (pg_now s) t\<rparr>)"
  have "untouched env a n s ?s"
    using untouched_trans [OF untouched_clock [of s "max (pg_now s) t"] untouched_finish] Cons.prems by (simp add: p)
  from untouched_trans [OF this Cons.IH [of ?s]] Cons.prems show ?case by (simp add: p)
qed simp

lemma untouched_tier2: "list_all (other a n) us \<Longrightarrow> untouched env a n s (run_tier2 env pol a us s)"
proof -
  assume us: "list_all (other a n) us"
  obtain s1 ps where s1: "start_tasks env pol a us s = (s1, ps)" by fastforce
  note t = untouched_start [OF s1 us]
  then have "list_all (\<lambda>(t, v, x). v_name v \<noteq> n) (sort_key fst ps)" by (simp add: list_all_iff)
  from untouched_trans [OF conjunct1 [OF t] untouched_ends [OF this]] show ?thesis
    by (simp add: run_tier2_def s1 end_tasks_def)
qed

lemma untouched_tier3:
  assumes "run_tier3 env pol a us s = (s', x)" and "list_all (other a n) us"
  shows "untouched env a n s s'"
  using assms
proof (induction us arbitrary: s)
  case (Cons u us)
  have u: "v_name u \<noteq> n" "other a n u" and us: "list_all (other a n) us"
    using Cons.prems(2) by (auto simp: other_def [of a n u])
  have go: ?case if t: "untouched env a n s s2" and x: "run_tier3 env pol a us (put_result (v_name u) r s2) = (s', x)" for s2 r
    using untouched_trans [OF untouched_trans [OF t untouched_put [OF u(1)]] Cons.IH [OF x us]] .
  show ?case
  proof (cases "deps_passed u (pg_results s)")
    case False
    with Cons.prems(1) show ?thesis by (intro go [of s "skipped_result u"]) auto
  next
    case True
    obtain s1 c where c: "cached env pol a u s = (s1, c)" by fastforce
    note c1 = conjunct1 [OF untouched_cached [OF c u(1)]]
    show ?thesis
    proof (cases c)
      case (Some r)
      show ?thesis by (rule go [OF c1, of r]) (use Cons.prems(1) True c Some in simp)
    next
      case None
      obtain s2 y where y: "run_check env a u s1 = (s2, y)" by fastforce
      note t = untouched_trans [OF c1 conjunct1 [OF untouched_check [OF y u(2)]]]
      show ?thesis
      proof (cases y)
        case (Inl e)
        with Cons.prems(1) True c None y t show ?thesis by simp
      next
        case (Inr r)
        show ?thesis by (rule go [OF t, of r]) (use Cons.prems(1) True c None y Inr in simp)
      qed
    qed
  qed
qed simp

lemma run_tier1_append:
  "run_tier1 env pol a (us @ ws) s = (case run_tier1 env pol a us s of (s1, Inr True) \<Rightarrow> run_tier1 env pol a ws s1 | y \<Rightarrow> y)"
  by (induction us arbitrary: s) (auto simp: Let_def split: prod.splits sum.splits option.splits)

text \<open>The result of a run, apart from the check named \<open>n\<close>.\<close>

definition rest_passed :: "string \<Rightarrow> PipelineResult \<Rightarrow> bool" where
  "rest_passed n r \<longleftrightarrow> list_all (\<lambda>(m, y). m = n \<or> vr_passed y) (pr_results r)"

lemma untouched_facts:
  assumes "untouched env a n s s'" and "k = cache_key env (artifact_str a) n"
  shows "dict_get (vc_memory (pg_cache s')) k = dict_get (vc_memory (pg_cache s)) k"
    and "dict_get (vc_disk (pg_cache s')) k = dict_get (vc_disk (pg_cache s)) k"
    and "dict_get (pg_results s') n = dict_get (pg_results s) n"
    and "dict_wf (pg_results s) \<Longrightarrow> dict_wf (pg_results s')" and "pg_now s \<le> pg_now s'"
  using assms by (simp_all add: untouched_def Let_def)

lemma tier1_stops:
  assumes "run_tier1 env pol a us s = (s', Inr False)" and "list_all (other a n) us"
  shows "\<exists>m y. dict_get (pg_results s') m = Some y \<and> m \<noteq> n \<and> \<not> vr_passed y"
  using assms
proof (induction us arbitrary: s)
  case (Cons u us)
  have u: "v_name u \<noteq> n" and us: "list_all (other a n) us"
    using Cons.prems(2) by (auto simp: other_def [of a n u])
  have stop: ?case if "s' = put_result (v_name u) r s2" and "\<not> vr_passed r" for r s2
    using that u by (auto simp: put_result_def)
  show ?case
  proof (cases "\<exists>s2 r. run_tier1 env pol a us (put_result (v_name u) r s2) = (s', Inr False)")
    case True
    with Cons.IH us show ?thesis by blast
  next
    case False
    with Cons.prems(1) obtain r s2 where "s' = put_result (v_name u) r s2" "\<not> vr_passed r"
      by (auto simp: Let_def split: prod.splits option.splits sum.splits if_splits)
    then show ?thesis by (rule stop)
  qed
qed simp

lemma timed_out_fields [simp]:
  "vr_passed (timed_out n) = False" "vr_details (timed_out n) = PDict []" "vr_skipped (timed_out n) = True"
  "vr_cost (timed_out n) = 0"
  by (simp_all add: timed_out_def)

text \<open>The check itself, when nothing is remembered of it.\<close>

lemma tier1_timed_out:
  assumes late: "\<not> vd_critical (v_def v)" "an_awaits (v_check v a)" "1000000 * get_timeout (v_name v) 30 \<le> an_time (v_check v a)"
    and json: "ce_dumps env (PDict []) \<noteq> None"
    and cold: "pol = SURVIVAL \<or> dict_get (vc_memory (pg_cache s)) k = None \<and> dict_get (vc_disk (pg_cache s)) k = None"
    and k: "k = cache_key env (artifact_str a) (v_name v)"
  obtains s' where "run_tier1 env pol a (v # ws) s = run_tier1 env pol a ws s'" and "pg_now s \<le> pg_now s'"
    and "dict_get (pg_results s') (v_name v) = Some (timed_out (v_name v))"
    and "dict_wf (pg_results s) \<Longrightarrow> dict_wf (pg_results s')"
    and "\<exists>e. dict_get (vc_memory (pg_cache s')) k = Some e \<and> ce_result e = timed_out (v_name v) \<and>
      pg_now s + 3600000000 \<le> ce_expires e"
proof -
  let ?d = "1000000 * get_timeout (v_name v) 30"
  have d: "run_with_timeout v a = (?d, Inr (timed_out (v_name v)))"
    using late(2,3) by (simp add: run_with_timeout_def Let_def)
  have c: "cached env pol a v s = (s\<lparr>pg_cache := miss (pg_cache s)\<rparr>, None)"
    using cold by (auto simp: cached_def cache_get_def Let_def k)
  obtain j where j: "ce_dumps env (PDict []) = Some j" using json by auto
  let ?c = "fst (cache_set env (pg_now s + ?d) (artifact_str a) (v_name v) (timed_out (v_name v)) (Inr (vd_cache_ttl (v_def v))) 3600
    (miss (pg_cache s)))"
  let ?s = "put_result (v_name v) (timed_out (v_name v)) (s\<lparr>pg_now := pg_now s + ?d, pg_cache := ?c\<rparr>)"
  have "run_tier1 env pol a (v # ws) s = run_tier1 env pol a ws ?s"
    using late(1) j by (simp add: c run_check_def d store_answer_def cache_set_def Let_def)
  moreover have "pg_now s \<le> pg_now ?s" using get_timeout_pos [of "v_name v"] by (simp add: put_result_def)
  moreover have "dict_get (pg_results ?s) (v_name v) = Some (timed_out (v_name v))"
    "dict_wf (pg_results s) \<Longrightarrow> dict_wf (pg_results ?s)" by (simp_all add: put_result_def)
  moreover have "dict_get (vc_memory (pg_cache ?s)) k = Some \<lparr>ce_tier = Inr (vd_cache_ttl (v_def v)),
      ce_result = timed_out (v_name v), ce_expires = pg_now s + ?d + 3600000000, ce_created = pg_now s + ?d\<rparr>"
    using j by (simp add: put_result_def cache_set_def k Let_def)
  ultimately show ?thesis using that [of ?s] get_timeout_pos [of "v_name v"] by auto
qed

text \<open>C9: A check of the first tier that is not critical, awaits, and runs out of time when nothing is remembered of it (or
the cache is off) does not fail the pipeline: its result is skipped, and if the other checks pass, the run passes. But
the result is remembered, and a remembered failure stops the first tier: started with the cache that this run left and
with the cache on, no run on the same artifact passes that has a check of this name in its first tier and reaches it
within an hour of the start of the first run, wherever the check stands in the tier and also if it would now pass. No
other check has the name, and none takes negative time.\<close>

theorem timed_out_check_fails_later:
  assumes "\<not> vd_critical (v_def v)" and "an_awaits (v_check v a)"
    and "1000000 * get_timeout (v_name v) 30 \<le> an_time (v_check v a)" and "ce_dumps env (PDict []) \<noteq> None"
    and "let k = cache_key env (artifact_str a) (v_name v)
      in pol = SURVIVAL \<or> dict_get (vc_memory (pg_cache s)) k = None \<and> dict_get (vc_disk (pg_cache s)) k = None"
    and "list_all (other a (v_name v)) (t1 @ ws @ t2 @ t3)"
    and "run_pipeline env pol a (t1 @ v # ws) t2 t3 s = (s1, Inr r)" and "rest_passed (v_name v) r"
    and "v_name v' = v_name v" and "vd_tier (v_def v') = T1" and "pol' \<noteq> SURVIVAL" and "list_all (other a (v_name v)) us"
    and "pg_cache s2 = pg_cache s1"
    and "pg_now s2 + sum_list (map (\<lambda>u. fst (run_with_timeout u a)) us) \<le> pg_now s + 3600000000"
    and "run_pipeline env pol' a (us @ v' # vs) t2' t3' s2 = (s3, Inr r2)"
  shows "pr_passed r \<and> dict_get (pr_results r) (v_name v) = Some (timed_out (v_name v)) \<and> \<not> pr_passed r2"
proof -
  let ?n = "v_name v" and ?k = "cache_key env (artifact_str a) (v_name v)"
  let ?s = "s\<lparr>pg_results := []\<rparr>"
  have oth: "list_all (other a ?n) t1" "list_all (other a ?n) ws" "list_all (other a ?n) t2" "list_all (other a ?n) t3"
    using assms(6) by simp_all
  have ok: False if "dict_get (pr_results r) m = Some y" "m \<noteq> ?n" "\<not> vr_passed y" for m y
    using assms(8) that by (auto simp: rest_passed_def list_all_iff dest!: map_of_SomeD)
  obtain sa ya where a1: "run_tier1 env pol a t1 ?s = (sa, ya)" by fastforce
  note ua = conjunct1 [OF untouched_tier1 [OF a1 oth(1)]]
  have ya: "ya = Inr True"
    using assms(7) ok tier1_stops [of env pol a t1 ?s sa, OF _ oth(1)] a1
    by (auto simp: run_pipeline_def run_tier1_append split: sum.splits bool.splits prod.splits)
  note fa = untouched_facts [OF ua refl]
  have cold: "pol = SURVIVAL \<or> dict_get (vc_memory (pg_cache sa)) ?k = None \<and> dict_get (vc_disk (pg_cache sa)) ?k = None"
    using assms(5) fa(1,2) by (simp add: Let_def)
  obtain sb where b: "run_tier1 env pol a (v # ws) sa = run_tier1 env pol a ws sb" "pg_now sa \<le> pg_now sb"
      "dict_get (pg_results sb) ?n = Some (timed_out ?n)" "dict_wf (pg_results sa) \<Longrightarrow> dict_wf (pg_results sb)"
      "\<exists>e. dict_get (vc_memory (pg_cache sb)) ?k = Some e \<and> ce_result e = timed_out ?n \<and> pg_now sa + 3600000000 \<le> ce_expires e"
    using tier1_timed_out [OF assms(1-4) cold refl, of ws] by blast
  obtain sc yc where c: "run_tier1 env pol a ws sb = (sc, yc)" by fastforce
  note uc = conjunct1 [OF untouched_tier1 [OF c oth(2)]]
  have t1: "run_tier1 env pol a (t1 @ v # ws) ?s = (sc, yc)"
    by (simp add: run_tier1_append a1 ya b(1) c del: run_tier1.simps)
  have yc: "yc = Inr True"
    using assms(7) ok tier1_stops [of env pol a ws sb sc, OF _ oth(2)] c
    by (auto simp: run_pipeline_def t1 split: sum.splits bool.splits prod.splits)
  obtain sd yd where d: "run_tier3 env pol a t3 (run_tier2 env pol a t2 sc) = (sd, yd)" by fastforce
  have ud: "untouched env a ?n sb sd"
    using untouched_trans [OF untouched_trans [OF uc untouched_tier2 [OF oth(3)]] untouched_tier3 [OF d oth(4)]] .
  note fd = untouched_facts [OF ud refl]
  have r: "s1 = sd" "pr_results r = pg_results sd" "pr_passed r = list_all counts (dict_values (pg_results sd))"
    using assms(7) d yc by (auto simp: run_pipeline_def t1 split: sum.splits)
  have res: "dict_get (pr_results r) ?n = Some (timed_out ?n)" using fd(3) b(3) by (simp add: r(2))
  have "dict_wf (pg_results sd)" using fd(4) b(4) fa(4) by simp
  then have "counts y" if "dict_get (pr_results r) m = Some y" for m y
    using that res ok [of m y] by (cases "m = ?n") (auto simp: counts_def timed_out_def)
  then have passed: "pr_passed r"
    using \<open>dict_wf (pg_results sd)\<close> by (simp add: r(2,3) all_values)
  obtain e where e: "dict_get (vc_memory (pg_cache s1)) ?k = Some e" "ce_result e = timed_out ?n" "pg_now s + 3600000000 \<le> ce_expires e"
    using b(5) fd(1) fa(5) by (auto simp: r(1))
  obtain sx yx where x: "run_tier1 env pol' a us (s2\<lparr>pg_results := []\<rparr>) = (sx, yx)" by fastforce
  note ux = untouched_tier1 [OF x assms(12)]
  have "\<not> pr_passed r2"
  proof (cases "yx = Inr True")
    case False
    with x assms(15) show ?thesis
      by (auto simp: run_pipeline_def run_tier1_append split: sum.splits bool.splits prod.splits)
  next
    case True
    have "dict_get (vc_memory (pg_cache sx)) ?k = Some e" "pg_now sx \<le> ce_expires e"
      using untouched_facts(1) [OF conjunct1 [OF ux] refl] ux e assms(13,14) by simp_all
    then have "cached env pol' a v' sx = (sx\<lparr>pg_cache := hit (pg_cache sx)\<rparr>, Some (timed_out ?n))"
      using e(2) assms(9-11) by (simp add: cached_def cache_get_def entry_valid_def Let_def)
    then have "\<exists>s'. run_tier1 env pol' a (us @ v' # vs) (s2\<lparr>pg_results := []\<rparr>) = (s', Inr False)"
      by (simp add: run_tier1_append x True timed_out_def Let_def)
    with assms(15) show ?thesis by (auto simp: run_pipeline_def)
  qed
  with passed res show ?thesis by simp
qed

definition demo_env :: cache_env where
  "demo_env = \<lparr>ce_digest = (\<lambda>s. s), ce_dumps = (\<lambda>v. Some ''{}''), ce_loads = (\<lambda>s. Some (PDict []))\<rparr>"

definition demo_progress :: progress where
  "demo_progress = \<lparr>pg_cache = new_cache [], pg_calls = [], pg_now = 0, pg_results = []\<rparr>"

definition passing :: "ValidatorDef \<Rightarrow> validator" where
  "passing d = \<lparr>v_def = d, v_check = (\<lambda>a. \<lparr>an_time = 5, an_awaits = True, an_result = Inr (validation_result True ''ok'')\<rparr>)\<rparr>"

definition hanging :: "ValidatorDef \<Rightarrow> validator" where
  "hanging d = \<lparr>v_def = d, v_check = (\<lambda>a. \<lparr>an_time = 10 ^ 9, an_awaits = True, an_result = Inl ''lost''\<rparr>)\<rparr>"

theorem timed_out_check_fails_later_witness:
  "let v = hanging (validator_def ''FormatCheck'' T1 False); w = passing (validator_def ''FormatCheck'' T1 False);
       u = passing (validator_def ''SyntaxCheck'' T1 False)
   in \<exists>s1 r s3 r2. run_pipeline demo_env FULL (Text ''x'') [v, u] [] [] demo_progress = (s1, Inr r) \<and> pr_passed r \<and>
     run_pipeline demo_env FULL (Text ''x'') [u, w] [] [] s1 = (s3, Inr r2) \<and> \<not> pr_passed r2"
proof -
  let ?v = "hanging (validator_def ''FormatCheck'' T1 False)" and ?w = "passing (validator_def ''FormatCheck'' T1 False)"
  let ?u = "passing (validator_def ''SyntaxCheck'' T1 False)"
  have limits: "get_timeout ''FormatCheck'' 30 = 5" "get_timeout ''SyntaxCheck'' 30 = 5" by code_simp+
  note defs = demo_progress_def hanging_def passing_def validator_def_def demo_env_def new_cache_def
  note evals = run_pipeline_def run_check_def run_with_timeout_def cached_def cache_get_def store_answer_def cache_set_def
    run_tier2_def end_tasks_def put_result_def entry_valid_def timed_out_def cache_key_def validation_result_def miss_def hit_def
  obtain s1 r where r1: "run_pipeline demo_env FULL (Text ''x'') [?v, ?u] [] [] demo_progress = (s1, Inr r)"
      "rest_passed ''FormatCheck'' r" "pg_now s1 = 5000005"
    by (simp add: defs evals limits rest_passed_def Let_def)
  obtain s3 r2 where r2: "run_pipeline demo_env FULL (Text ''x'') [?u, ?w] [] [] s1 = (s3, Inr r2)"
    using r1(1) by (auto simp: defs evals limits Let_def)
  have "pr_passed r \<and> dict_get (pr_results r) (v_name ?v) = Some (timed_out (v_name ?v)) \<and> \<not> pr_passed r2"
    by (rule timed_out_check_fails_later [of ?v "Text ''x''" demo_env FULL demo_progress "[]" "[?u]" "[]" "[]" s1 r ?w FULL "[?u]"
          s1 "[]" "[]" "[]" s3 r2])
      (use r1 r2 in \<open>simp_all add: defs limits other_def run_with_timeout_def\<close>)
  with r1 r2 show ?thesis by (auto simp: Let_def)
qed

text \<open>In the second tier a result that was skipped stays skipped in memory; a new process reads it as a failure.\<close>

lemma restart_forgets_skip:
  assumes "pg_cache s = new_cache [(cache_key env (artifact_str a) (v_name v), Some f)]"
    and "cf_passed f = False" and "ce_loads env (cf_details f) \<noteq> None" and "pg_now s \<le> cf_expires f"
  shows "\<exists>s' r. run_pipeline env FULL a [] [v] [] s = (s', Inr r) \<and> \<not> pr_passed r"
  using assms
  by (auto simp: run_pipeline_def run_tier2_def end_tasks_def cached_def cache_get_def new_cache_def load_file_def
      entry_valid_def put_result_def counts_def Let_def)

text \<open>A check of the second tier that raises leaves no result: the pipeline passes with nothing checked.\<close>

lemma raised_check_passes:
  assumes "an_result (v_check v a) = Inl e" and "an_time (v_check v a) < 1000000 * get_timeout (v_name v) 30"
  shows "\<exists>s'. run_pipeline env SURVIVAL a [] [v] [] s =
    (s', Inr \<lparr>pr_passed = True, pr_results = [], pr_stopped_at = [], pr_tier = ''T2''\<rparr>)"
  using assms
  by (auto simp: run_pipeline_def run_tier2_def end_tasks_def cached_def cache_get_def run_with_timeout_def
      finish_task_def Let_def)

text \<open>The name of the check that stopped the pipeline is that of the first one, whichever failed.\<close>

lemma stopped_at_first:
  "run_pipeline env pol a (v # vs) t2 t3 s = (s', Inr r) \<Longrightarrow> pr_tier r = ''T1'' \<Longrightarrow> pr_stopped_at r = v_name v"
  by (auto simp: run_pipeline_def split: prod.splits sum.splits bool.splits if_splits)

definition demo_checks :: "validator list" where
  "demo_checks = [passing (validator_def ''a'' T2 False), hanging ((validator_def ''b'' T2 False)\<lparr>vd_depends_on := [''a'']\<rparr>)]"


end
