(* ===== verification/Registry.thy ===== *)
theory Registry
  imports Systems SM_Parser Product_Profile
begin

text \<open>
  The registry of profiles (\<open>engine/registry.py\<close>): sources with priorities, the choice of a
  version, the two caches, registration, and the graph of dependencies. The file system is a
  value: for each directory of a source the profiles in it, for each its versions, for each
  what its \<open>profile.yaml\<close> holds. Fields of metadata keep the values that YAML gives them.
\<close>

subsection \<open>Metadata, sources and files\<close>

record ProfileMetadata =
  pm_name :: yaml
  pm_version :: yaml
  pm_description :: yaml
  pm_author :: yaml
  pm_extends :: yaml
  pm_dependencies :: yaml
  pm_maturity :: yaml
  pm_total_runs :: yaml
  pm_success_rate :: yaml
  pm_known_issues :: yaml

record ProfileSource =
  ps_name :: string
  ps_priority :: int
  ps_path :: "string option"
  ps_url :: "string option"
  ps_trust :: string
  ps_immutable :: bool
  ps_cache_ttl :: int

definition profile_source :: "string \<Rightarrow> int \<Rightarrow> string option \<Rightarrow> string option \<Rightarrow> string \<Rightarrow> bool \<Rightarrow> ProfileSource" where
  "profile_source n p d u t i =
     \<lparr>ps_name = n, ps_priority = p, ps_path = d, ps_url = u, ps_trust = t, ps_immutable = i, ps_cache_ttl = 86400\<rparr>"

definition default_sources :: "(string, ProfileSource) dict" where
  "default_sources =
     [(''builtin'', profile_source ''builtin'' 0 (Some ''/opt/hermes/profiles/'') None ''full'' True),
      (''user'', profile_source ''user'' 100 (Some ''~/.hermes/profiles/'') None ''full'' False),
      (''project'', profile_source ''project'' 200 (Some ''.hermes/profiles/'') None ''full'' False),
      (''remote'', profile_source ''remote'' 50 None (Some ''https://registry.prodinamik.dev/profiles/'') ''verified'' True)]"

text \<open>
  A version directory: \<^const>\<open>None\<close> without a \<open>profile.yaml\<close>, \<open>Some None\<close> if the file is no YAML.
\<close>

type_synonym version_dirs = "(string, yaml option option) dict"
type_synonym files = "(string, (string, version_dirs) dict) dict"

definition metadata_of :: "yaml \<Rightarrow> ProfileMetadata parsed" where
  "metadata_of y =
     try_bind (yget y ''name'' (YStr ''unknown'')) (\<lambda>n.
     try_bind (yget y ''version'' (YStr ''0.0.0'')) (\<lambda>v.
     try_bind (yget y ''description'' (YStr [])) (\<lambda>d.
     try_bind (yget y ''author'' (YMap [])) (\<lambda>a. try_bind (yget a ''name'' (YStr [])) (\<lambda>an.
     try_bind (yget y ''extends'' YNull) (\<lambda>e.
     try_bind (yget y ''dependencies'' (YMap [])) (\<lambda>ds. try_bind (yget ds ''profiles'' (YList [])) (\<lambda>dp.
     try_bind (yget y ''maturity'' (YMap [])) (\<lambda>m.
     try_bind (yget m ''level'' (YStr ''alpha'')) (\<lambda>l.
     try_bind (yget m ''total_runs'' (YInt 0)) (\<lambda>tr.
     try_bind (yget m ''success_rate'' (YInt 0)) (\<lambda>sr.
     try_bind (yget m ''known_issues'' (YList [])) (\<lambda>ki.
       Inr \<lparr>pm_name = n, pm_version = v, pm_description = d, pm_author = an, pm_extends = e, pm_dependencies = dp,
         pm_maturity = l, pm_total_runs = tr, pm_success_rate = sr, pm_known_issues = ki\<rparr>)))))))))))))"

text \<open>\<open>_load_profile\<close>: whatever raises gives \<^const>\<open>None\<close>.\<close>

definition load_profile :: "yaml option option \<Rightarrow> ProfileMetadata option" where
  "load_profile f =
     (case f of
        Some (Some y) \<Rightarrow> (case metadata_of y of Inl e \<Rightarrow> None | Inr m \<Rightarrow> Some m)
      | _ \<Rightarrow> None)"

subsection \<open>Resolution\<close>

text \<open>\<open>[int(x) for x in v.split(".")]\<close>\<close>

definition version_key :: "string \<Rightarrow> int list option" where
  "version_key v =
     (let xs = map parse_int (split_all ''.'' v) in if list_all (\<lambda>x. x \<noteq> None) xs then Some (map the xs) else None)"

definition readable :: "version_dirs \<Rightarrow> string list" where
  "readable d = map fst (filter (\<lambda>(v, f). f \<noteq> None) d)"

definition find_in_source ::
    "files \<Rightarrow> ProfileSource \<Rightarrow> string \<Rightarrow> string option \<Rightarrow> string + ProfileMetadata option" where
  "find_in_source fs src n ver =
     (case ps_path src of
        None \<Rightarrow> Inr None
      | Some p \<Rightarrow>
          if p = [] then Inr None
          else case dict_get fs p of
            None \<Rightarrow> Inr None
          | Some dirs \<Rightarrow>
              (case ver of
                 Some v \<Rightarrow> Inr (Option.bind (Option.bind (dict_get dirs n) (\<lambda>d. dict_get d v)) load_profile)
               | None \<Rightarrow>
                   (case dict_get dirs n of
                      None \<Rightarrow> Inr None
                    | Some d \<Rightarrow>
                        (let vs = sort (readable d)
                         in if list_ex (\<lambda>v. version_key v = None) vs then Inl ''ValueError''
                            else if vs = [] then Inr None
                            else Inr (load_profile (the (dict_get d (last (sort_key (\<lambda>v. the (version_key v)) vs)))))))))"

record ProfileRegistry =
  reg_sources :: "(string, ProfileSource) dict"
  reg_cache :: "(string, ProfileMetadata) dict"
  reg_profiles :: "(yaml, ProfileMetadata) dict"

definition new_registry :: "(string, ProfileSource) dict \<Rightarrow> ProfileRegistry" where
  "new_registry ss = \<lparr>reg_sources = (if ss = [] then default_sources else ss), reg_cache = [], reg_profiles = []\<rparr>"

text \<open>\<open>sorted(sources, key=priority, reverse=True)\<close> keeps the order of equal priorities.\<close>

definition by_priority :: "ProfileRegistry \<Rightarrow> ProfileSource list" where
  "by_priority r = sort_key (\<lambda>s. - ps_priority s) (dict_values (reg_sources r))"

fun hashable :: "yaml \<Rightarrow> bool" where
  "hashable (YList xs) \<longleftrightarrow> False"
| "hashable (YMap m) \<longleftrightarrow> False"
| "hashable y \<longleftrightarrow> True"

text \<open>The profiles of one source, after those already found; the version is the last by its text.\<close>

fun list_dirs :: "(string, version_dirs) dict \<Rightarrow> ProfileMetadata list \<Rightarrow> string + ProfileMetadata list" where
  "list_dirs [] ms = Inr ms"
| "list_dirs ((n, d) # ds) ms =
     (if readable d = [] then list_dirs ds ms
      else case load_profile (the (dict_get d (last (sort (readable d))))) of
        None \<Rightarrow> list_dirs ds ms
      | Some m \<Rightarrow>
          if \<not> hashable (pm_name m) then Inl ''TypeError''
          else list_dirs ds (if pm_name m \<in> pm_name ` set ms then ms else ms @ [m]))"

fun list_sources :: "files \<Rightarrow> ProfileSource list \<Rightarrow> ProfileMetadata list \<Rightarrow> string + ProfileMetadata list" where
  "list_sources fs [] ms = Inr ms"
| "list_sources fs (s # ss) ms =
     (case Option.bind (ps_path s) (\<lambda>p. if p = [] then None else dict_get fs p) of
        None \<Rightarrow> list_sources fs ss ms
      | Some dirs \<Rightarrow> try_bind (list_dirs dirs ms) (list_sources fs ss))"

definition list_profiles :: "files \<Rightarrow> ProfileRegistry \<Rightarrow> ProfileRegistry \<times> (string + ProfileMetadata list)" where
  "list_profiles fs r =
     (if reg_profiles r \<noteq> [] then (r, Inr (dict_values (reg_profiles r)))
      else case list_sources fs (by_priority r) [] of
        Inl e \<Rightarrow> (r, Inl e)
      | Inr ms \<Rightarrow> (r\<lparr>reg_profiles := fold (\<lambda>m. dict_set (pm_name m) m) ms []\<rparr>, Inr ms))"

text \<open>A version that is \<^const>\<open>None\<close> or empty counts as none.\<close>

definition given :: "string option \<Rightarrow> string option" where
  "given ver = (case ver of Some v \<Rightarrow> if v = [] then None else Some v | None \<Rightarrow> None)"

definition resolve_key :: "string \<Rightarrow> string option \<Rightarrow> string" where
  "resolve_key n ver = (case given ver of Some v \<Rightarrow> n @ ''@'' @ v | None \<Rightarrow> n)"

definition candidates ::
    "files \<Rightarrow> ProfileRegistry \<Rightarrow> string \<Rightarrow> string option \<Rightarrow> string + (int \<times> ProfileMetadata) list" where
  "candidates fs r n ver =
     try_bind (try_map (\<lambda>s. try_bind (find_in_source fs s n (given ver)) (\<lambda>m. Inr (map_option (Pair (ps_priority s)) m)))
       (by_priority r)) (\<lambda>ms. Inr (List.map_filter id ms))"

definition is_str :: "yaml \<Rightarrow> bool" where
  "is_str y \<longleftrightarrow> (case y of YStr s \<Rightarrow> True | _ \<Rightarrow> False)"

text \<open>If nothing is found, the names of all profiles are searched for a hint, which needs them to be texts.\<close>

definition resolve ::
    "files \<Rightarrow> string \<Rightarrow> string option \<Rightarrow> ProfileRegistry \<Rightarrow> ProfileRegistry \<times> (string + ProfileMetadata option)" where
  "resolve fs n ver r =
     (case dict_get (reg_cache r) (resolve_key n ver) of
        Some m \<Rightarrow> (r, Inr (Some m))
      | None \<Rightarrow>
          (case candidates fs r n ver of
             Inl e \<Rightarrow> (r, Inl e)
           | Inr [] \<Rightarrow>
               (case list_profiles fs r of
                  (r, Inl e) \<Rightarrow> (r, Inl e)
                | (r, Inr ms) \<Rightarrow>
                    if list_ex (\<lambda>m. \<not> is_str (pm_name m)) ms then (r, Inl ''AttributeError'') else (r, Inr None))
           | Inr cs \<Rightarrow>
               (let m = snd (hd (sort_key (\<lambda>c. - fst c) cs))
                in (r\<lparr>reg_cache := dict_set (resolve_key n ver) m (reg_cache r)\<rparr>, Inr (Some m)))))"

subsection \<open>Registration\<close>

definition metadata_yaml :: "ProfileMetadata \<Rightarrow> yaml" where
  "metadata_yaml m = YMap
     [(''name'', pm_name m), (''version'', pm_version m), (''description'', pm_description m),
      (''author'', YMap [(''name'', pm_author m)]), (''extends'', pm_extends m),
      (''dependencies'', YMap [(''profiles'', pm_dependencies m)]),
      (''maturity'', YMap [(''level'', pm_maturity m), (''total_runs'', pm_total_runs m),
         (''success_rate'', pm_success_rate m), (''known_issues'', pm_known_issues m)])]"

definition write_profile :: "string \<Rightarrow> string \<Rightarrow> string \<Rightarrow> yaml \<Rightarrow> files \<Rightarrow> files" where
  "write_profile p n v y fs =
     (let dirs = dict_get_default fs p []; d = dict_get_default dirs n []
      in dict_set p (dict_set n (dict_set v (Some (Some y)) d) dirs) fs)"

definition register ::
    "string \<Rightarrow> string \<Rightarrow> ProfileMetadata \<Rightarrow> files \<times> ProfileRegistry \<Rightarrow> (files \<times> ProfileRegistry) \<times> bool" where
  "register n v m s =
     (case s of (fs, r) \<Rightarrow>
        (case Option.bind (dict_get (reg_sources r) ''user'') (\<lambda>u. Option.bind (ps_path u) (\<lambda>p. if p = [] then None else Some p)) of
           None \<Rightarrow> ((fs, r), False)
         | Some p \<Rightarrow>
             ((write_profile p n v (metadata_yaml m) fs,
               r\<lparr>reg_cache := dict_del (n @ ''@'' @ v) (reg_cache r), reg_profiles := dict_del (YStr n) (reg_profiles r)\<rparr>), True)))"

definition install_remote :: "ProfileRegistry \<Rightarrow> string \<Rightarrow> string option \<Rightarrow> bool \<times> string" where
  "install_remote r n ver =
     (case dict_get (reg_sources r) ''remote'' of
        None \<Rightarrow> (False, ''Remote source not configured'')
      | Some s \<Rightarrow> (False, ''Remote install from '' @ (case ps_url s of None \<Rightarrow> ''None'' | Some u \<Rightarrow> u) @ n @ ''/''
          @ (case given ver of None \<Rightarrow> ''latest'' | Some v \<Rightarrow> v) @ ''/profile.yaml ''
          @ [CHR 0xE2, CHR 0x80, CHR 0x94] @ '' not yet implemented''))"

subsection \<open>The graph of dependencies\<close>

record dep_graph =
  dg_nodes :: "(string, yaml) dict"
  dg_edges :: "(string \<times> string) list"
  dg_conflicts :: "(string \<times> yaml \<times> yaml \<times> string list) list"

text \<open>Iterating over the dependencies: a list, the keys of a dict, the characters of a text.\<close>

fun dep_items :: "yaml \<Rightarrow> string + yaml list" where
  "dep_items (YList xs) = Inr xs"
| "dep_items (YMap m) = Inr (map (\<lambda>(k, v). YStr k) m)"
| "dep_items (YStr s) = Inr (map YStr (utf8_chars s))"
| "dep_items y = Inl ''TypeError''"

type_synonym dep_state = "string set \<times> dep_graph \<times> ProfileRegistry"

text \<open>
  The body of the loop over the dependencies of \<open>n\<close>; \<open>visit\<close> is the recursive call. A dependency
  that is no text is no path.
\<close>

definition visit_dep ::
    "files \<Rightarrow> (string \<Rightarrow> dep_state \<Rightarrow> dep_state \<times> string option) \<Rightarrow> string \<Rightarrow> yaml \<Rightarrow> dep_state \<Rightarrow> dep_state \<times> string option" where
  "visit_dep fs visit n dep s =
     (case dep of
        YStr d \<Rightarrow>
          (case s of (vis, g, r) \<Rightarrow>
            (case resolve fs d None r of
               (r, Inl e) \<Rightarrow> ((vis, g, r), Some e)
             | (r, Inr None) \<Rightarrow> ((vis, g, r), None)
             | (r, Inr (Some m)) \<Rightarrow>
                 (let g = g\<lparr>dg_edges := dg_edges g @ [(n, d)]\<rparr>;
                      g = (case dict_get (dg_nodes g) d of
                        None \<Rightarrow> g
                      | Some v \<Rightarrow> if v \<noteq> pm_version m
                          then g\<lparr>dg_conflicts := dg_conflicts g @ [(d, v, pm_version m, [n, d])]\<rparr> else g)
                  in visit d (vis, g, r))))
      | _ \<Rightarrow> (s, Some ''TypeError''))"

fun visit_deps ::
    "files \<Rightarrow> (string \<Rightarrow> dep_state \<Rightarrow> dep_state \<times> string option) \<Rightarrow> string \<Rightarrow> yaml list \<Rightarrow> dep_state \<Rightarrow> dep_state \<times> string option" where
  "visit_deps fs visit n [] s = (s, None)"
| "visit_deps fs visit n (d # ds) s =
     (case visit_dep fs visit n d s of
        (s, Some e) \<Rightarrow> (s, Some e)
      | (s, None) \<Rightarrow> visit_deps fs visit n ds s)"

text \<open>The recursion is bounded by \<open>fuel\<close>; \<^const>\<open>None\<close> in the exception is a normal return.\<close>

fun resolve_deps :: "files \<Rightarrow> nat \<Rightarrow> string \<Rightarrow> dep_state \<Rightarrow> dep_state \<times> string option" where
  "resolve_deps fs 0 n s = (s, Some ''RecursionError'')"
| "resolve_deps fs (Suc k) n (vis, g, r) =
     (if n \<in> vis then ((vis, g, r), None)
      else
        (let vis = insert n vis
         in case resolve fs n None r of
              (r, Inl e) \<Rightarrow> ((vis, g, r), Some e)
            | (r, Inr None) \<Rightarrow> ((vis, g, r), None)
            | (r, Inr (Some m)) \<Rightarrow>
                (let g = g\<lparr>dg_nodes := dict_set n (pm_version m) (dg_nodes g)\<rparr>
                 in case dep_items (pm_dependencies m) of
                      Inl e \<Rightarrow> ((vis, g, r), Some e)
                    | Inr ds \<Rightarrow> visit_deps fs (resolve_deps fs k) n ds (vis, g, r))))"

text \<open>The names that can be resolved, which bound the depth of the recursion.\<close>

definition known_names :: "files \<Rightarrow> ProfileRegistry \<Rightarrow> string list" where
  "known_names fs r = concat (map (\<lambda>(p, dirs). dict_keys dirs) fs) @ dict_keys (reg_cache r)"

definition dependency_graph :: "files \<Rightarrow> string \<Rightarrow> ProfileRegistry \<Rightarrow> ProfileRegistry \<times> (string + dep_graph)" where
  "dependency_graph fs n r =
     (case resolve_deps fs (Suc (Suc (length (known_names fs r)))) n ({}, \<lparr>dg_nodes = [], dg_edges = [], dg_conflicts = []\<rparr>, r) of
        ((vis, g, r), Some e) \<Rightarrow> (r, Inl e)
      | ((vis, g, r), None) \<Rightarrow> (r, Inr g))"

subsection \<open>What a resolution returns\<close>

definition remembers :: "(string \<Rightarrow> ProfileMetadata option) \<Rightarrow> (string, ProfileMetadata) dict \<Rightarrow> bool" where
  "remembers f c \<longleftrightarrow> (\<forall>k m. dict_get c k = Some m \<longrightarrow> f k = Some m)"

interpretation rc: answer_memo "\<lambda>k c. (c, dict_get c k)" "\<lambda>k m. dict_set k m" "\<lambda>k. k" "\<lambda>_. True" remembers
  by unfold_locales (auto simp: remembers_def)

lemma list_profiles_frame: "list_profiles fs r = (r', x) \<Longrightarrow> reg_cache r' = reg_cache r \<and> reg_sources r' = reg_sources r"
  by (auto simp: list_profiles_def split: if_splits sum.splits)

lemma resolve_cases:
  assumes "resolve fs n ver r = (r', x)"
  obtains (remembered) m where "dict_get (reg_cache r) (resolve_key n ver) = Some m" and "r' = r" and "x = Inr (Some m)"
  | (found) cs where "dict_get (reg_cache r) (resolve_key n ver) = None" and "candidates fs r n ver = Inr cs" and "cs \<noteq> []"
      and "x = Inr (Some (snd (hd (sort_key (\<lambda>c. - fst c) cs))))"
      and "r' = r\<lparr>reg_cache := dict_set (resolve_key n ver) (snd (hd (sort_key (\<lambda>c. - fst c) cs))) (reg_cache r)\<rparr>"
  | (failed) "\<And>m. x \<noteq> Inr (Some m)" and "reg_cache r' = reg_cache r" and "reg_sources r' = reg_sources r"
      and "dict_get (reg_cache r) (resolve_key n ver) = None"
  using assms
  by (auto simp: resolve_def Let_def split: option.splits sum.splits list.splits prod.splits if_splits
      dest!: list_profiles_frame)

lemma resolve_frame:
  assumes "resolve fs n ver r = (r', x)"
  shows "reg_sources r' = reg_sources r"
    and "dict_get (reg_cache r) k = Some m \<Longrightarrow> dict_get (reg_cache r') k = Some m"
    and "x = Inr (Some m) \<Longrightarrow> dict_get (reg_cache r') (resolve_key n ver) = Some m"
  using assms by (rule_tac resolve_cases [OF assms]; auto)+

lemma try_map_memI: "try_map f xs = Inr ys \<Longrightarrow> y \<in> set ys \<Longrightarrow> \<exists>x \<in> set xs. f x = Inr y"
  by (induction xs arbitrary: ys) (auto simp: try_bind_Inr)

lemma set_somes: "set (List.map_filter id ms) = {x. Some x \<in> set ms}"
  by (induction ms) (auto simp: map_filter_simps split: option.splits)

lemma sort_key_Nil_iff [simp]: "sort_key f xs = [] \<longleftrightarrow> xs = []"
  by (metis length_0_conv length_sort)

lemma sort_key_first:
  fixes f :: "'a \<Rightarrow> 'b :: linorder"
  assumes "x \<in> set xs" shows "f (hd (sort_key f xs)) \<le> f x"
proof -
  have "x \<in> set (sort_key f xs)" using assms by simp
  then show ?thesis
    using sorted_sort_key [of f xs] by (cases "sort_key f xs") auto
qed

lemma sort_key_last:
  fixes f :: "'a \<Rightarrow> 'b :: linorder"
  assumes "x \<in> set xs" shows "f x \<le> f (last (sort_key f xs))"
proof -
  have "x \<in> set (sort_key f xs)" using assms by simp
  then show ?thesis
    using sorted_sort_key [of f xs] by (cases "sort_key f xs" rule: rev_cases) (auto simp: sorted_append)
qed

lemma candidates_found:
  assumes "candidates fs r n ver = Inr cs" and "(p, m) \<in> set cs"
  shows "\<exists>s \<in> set (by_priority r). find_in_source fs s n (given ver) = Inr (Some m) \<and> p = ps_priority s"
proof -
  obtain ms where ms: "try_map (\<lambda>s. try_bind (find_in_source fs s n (given ver)) (\<lambda>m. Inr (map_option (Pair (ps_priority s)) m)))
      (by_priority r) = Inr ms" "cs = List.map_filter id ms"
    using assms(1) by (auto simp: candidates_def try_bind_Inr)
  with assms(2) have "Some (p, m) \<in> set ms"
    by (simp add: set_somes)
  from try_map_memI [OF ms(1) this] show ?thesis
    by (auto simp: try_bind_Inr)
qed

lemma candidates_all:
  assumes "candidates fs r n ver = Inr cs" and "s \<in> set (by_priority r)"
    and "find_in_source fs s n (given ver) = Inr (Some m)"
  shows "(ps_priority s, m) \<in> set cs"
proof -
  let ?f = "\<lambda>s. try_bind (find_in_source fs s n (given ver)) (\<lambda>m. Inr (map_option (Pair (ps_priority s)) m))"
  obtain ms where ms: "try_map ?f (by_priority r) = Inr ms" "cs = List.map_filter id ms"
    using assms(1) by (auto simp: candidates_def try_bind_Inr)
  obtain i where i: "i < length (by_priority r)" "by_priority r ! i = s"
    using assms(2) by (auto simp: in_set_conv_nth)
  have "list_all2 (\<lambda>x y. ?f x = Inr y) (by_priority r) ms"
    by (rule try_map_Inr [OF ms(1)])
  then have "i < length ms" "?f s = Inr (ms ! i)"
    using i by (auto simp: list_all2_conv_all_nth)
  with assms(3) have "Some (ps_priority s, m) \<in> set ms"
    by (simp add: in_set_conv_nth) metis
  then show ?thesis
    by (simp add: ms(2) set_somes)
qed

text \<open>A resolution that is not remembered takes the source of the highest priority that has the
  profile and, if no version is asked for, its greatest version, compared number by number.\<close>

theorem resolve_picks:
  assumes "resolve fs n None r = (r', Inr (Some m))" and "dict_get (reg_cache r) n = None"
  shows "\<exists>s p dirs d v. s \<in> set (dict_values (reg_sources r)) \<and> ps_path s = Some p \<and> dict_get fs p = Some dirs \<and>
    dict_get dirs n = Some d \<and> v \<in> set (readable d) \<and> load_profile (the (dict_get d v)) = Some m \<and>
    (\<forall>v' \<in> set (readable d). the (version_key v') \<le> the (version_key v)) \<and>
    (\<forall>s' m'. s' \<in> set (dict_values (reg_sources r)) \<longrightarrow> find_in_source fs s' n None = Inr (Some m') \<longrightarrow> ps_priority s' \<le> ps_priority s)"
proof -
  have none: "given None = None" "resolve_key n None = n"
    by (simp_all add: given_def resolve_key_def)
  obtain cs where cs: "candidates fs r n None = Inr cs" "cs \<noteq> []" "m = snd (hd (sort_key (\<lambda>c. - fst c) cs))"
    using assms by (elim resolve_cases) (auto simp: none)
  let ?c = "hd (sort_key (\<lambda>c. - fst c) cs)"
  have ne: "sort_key (\<lambda>c. - fst c) cs \<noteq> []"
    using cs(2) by simp
  have c: "?c \<in> set cs"
    using hd_in_set [OF ne] by (simp only: set_sort)
  have top: "fst c' \<le> fst ?c" if "c' \<in> set cs" for c'
    using sort_key_first [OF that, of "\<lambda>c. - fst c"] by simp
  obtain s where s: "s \<in> set (by_priority r)" "find_in_source fs s n None = Inr (Some m)" "fst ?c = ps_priority s"
    using candidates_found [OF cs(1), of "fst ?c" "snd ?c"] c cs(3) by (auto simp: none)
  obtain p dirs d where d: "ps_path s = Some p" "dict_get fs p = Some dirs" "dict_get dirs n = Some d"
      "\<not> list_ex (\<lambda>v. version_key v = None) (sort (readable d))" "readable d \<noteq> []"
      "load_profile (the (dict_get d (last (sort_key (\<lambda>v. the (version_key v)) (sort (readable d)))))) = Some m"
    using s(2) by (auto simp: find_in_source_def Let_def split: option.splits if_splits)
  let ?vs = "sort_key (\<lambda>v. the (version_key v)) (sort (readable d))"
  have ne: "?vs \<noteq> []"
    using d(5) by simp
  have v: "last ?vs \<in> set (readable d)"
    using last_in_set [OF ne] by (simp only: set_sort)
  have newest: "the (version_key v') \<le> the (version_key (last ?vs))" if "v' \<in> set (readable d)" for v'
    using that sort_key_last [of v' "sort (readable d)" "\<lambda>v. the (version_key v)"] by simp
  have "ps_priority s' \<le> ps_priority s"
    if "s' \<in> set (dict_values (reg_sources r))" "find_in_source fs s' n None = Inr (Some m')" for s' m'
    using top [OF candidates_all [OF cs(1), of s' m']] that s(3) by (auto simp: none by_priority_def)
  moreover have "s \<in> set (dict_values (reg_sources r))"
    using s(1) by (simp add: by_priority_def)
  ultimately show ?thesis
    using d(1-3,6) v newest
    by (intro exI [of _ s] exI [of _ p] exI [of _ dirs] exI [of _ d] exI [of _ "last ?vs"] conjI ballI allI impI) simp_all
qed

text \<open>A profile that was resolved once stays what it was: registering another version forgets only
  the entry of that version. And the list of profiles, once made, loses the name registered.\<close>

theorem register_not_seen:
  assumes "dict_get (reg_cache r) n = Some m" and "register n v m' (fs, r) = ((fs', r'), b)"
  shows "resolve fs' n None r' = (r', Inr (Some m))"
proof -
  have "n \<noteq> n @ ''@'' @ v" by simp
  with assms have "dict_get (reg_cache r') n = Some m"
    by (auto simp: register_def split: option.splits)
  then show ?thesis by (simp add: resolve_def resolve_key_def given_def)
qed

lemma registered_disappears:
  assumes "register n v m (fs, r) = ((fs', r'), True)" and "reg_profiles r' \<noteq> []"
  shows "list_profiles fs' r' = (r', Inr (dict_values (reg_profiles r'))) \<and> dict_get (reg_profiles r') (YStr n) = None"
  using assms by (auto simp: register_def list_profiles_def split: option.splits)

text \<open>The list compares versions as texts, the resolution as numbers.\<close>

definition two_versions :: files where
  "two_versions = [(''p'', [(''x'', [(''1.9'', Some (Some (YMap [(''name'', YStr ''x''), (''version'', YStr ''1.9'')]))),
     (''1.10'', Some (Some (YMap [(''name'', YStr ''x''), (''version'', YStr ''1.10'')])))])])]"

lemma list_and_resolve_differ:
  "let r = new_registry [(''user'', profile_source ''user'' 1 (Some ''p'') None ''full'' False)]
   in map_sum id (map_option pm_version) (snd (resolve two_versions ''x'' None r)) = Inr (Some (YStr ''1.10'')) \<and>
      map_sum id (map pm_version) (snd (list_profiles two_versions r)) = Inr [YStr ''1.9'']"
  by code_simp

subsection \<open>The graph of dependencies\<close>

text \<open>
  \<open>U\<close> bounds the names that can be resolved and \<open>V\<close> those visited before. A node has the version
  of the remembered profile, which is why no second version is ever seen.
\<close>

definition dep_ok :: "string set \<Rightarrow> string set \<Rightarrow> dep_state \<Rightarrow> bool" where
  "dep_ok U V s \<longleftrightarrow> (case s of (vis, g, r) \<Rightarrow>
     V \<subseteq> vis \<and> set (dict_keys (reg_cache r)) \<subseteq> U \<and> dg_conflicts g = [] \<and>
     (\<forall>n v. dict_get (dg_nodes g) n = Some v \<longrightarrow> (\<exists>m. dict_get (reg_cache r) n = Some m \<and> pm_version m = v)))"

definition returns_ok :: "string set \<Rightarrow> string set \<Rightarrow> dep_state \<times> string option \<Rightarrow> bool" where
  "returns_ok U V x \<longleftrightarrow> dep_ok U V (fst x) \<and> snd x \<noteq> Some ''RecursionError''"

lemma resolve_known:
  assumes "resolve fs n None r = (r', x)" and "set (known_names fs r) \<subseteq> U"
  shows "x = Inr (Some m) \<Longrightarrow> n \<in> U" and "set (dict_keys (reg_cache r')) \<subseteq> U"
proof -
  have k: "resolve_key n None = n" "given None = None"
    by (simp_all add: resolve_key_def given_def)
  have found: "n \<in> set (known_names fs r)" if cs: "candidates fs r n None = Inr cs" "cs \<noteq> []" for cs
  proof -
    obtain p m where "(p, m) \<in> set cs"
      using cs(2) by (cases cs) auto
    from candidates_found [OF cs(1) this] obtain s where "find_in_source fs s n None = Inr (Some m)"
      by (auto simp: k)
    then obtain p dirs d where "dict_get fs p = Some dirs" "dict_get dirs n = Some d"
      by (auto simp: find_in_source_def split: option.splits if_splits)
    then have "(p, dirs) \<in> set fs" "n \<in> set (dict_keys dirs)"
      by (force dest: map_of_SomeD)+
    then show ?thesis by (force simp: known_names_def)
  qed
  have c: "set (dict_keys (reg_cache r)) \<subseteq> set (known_names fs r)"
    by (auto simp: known_names_def)
  show "x = Inr (Some m) \<Longrightarrow> n \<in> U"
    using assms(1)
  proof (cases rule: resolve_cases)
    case (remembered m)
    then show ?thesis using c assms(2) by (force simp: k dest: map_of_SomeD)
  qed (use found assms(2) in auto)
  show "set (dict_keys (reg_cache r')) \<subseteq> U"
    using assms(1)
  proof (cases rule: resolve_cases)
    case (found cs)
    then show ?thesis using \<open>candidates fs r n None = Inr cs \<Longrightarrow> cs \<noteq> [] \<Longrightarrow> n \<in> set (known_names fs r)\<close> c assms(2)
      by (auto simp: dom_update k)
  qed (use c assms(2) in auto)
qed

lemma resolve_errors: "resolve fs n ver r = (r', Inl e) \<Longrightarrow> e \<noteq> ''RecursionError''"
proof -
  have find: "find_in_source fs s n ver = Inl e \<Longrightarrow> e = ''ValueError''" for s ver
    by (auto simp: find_in_source_def Let_def split: option.splits if_splits)
  have map: "try_map (\<lambda>s. try_bind (find_in_source fs s n ver) (f s)) ss = Inl e \<Longrightarrow> e = ''ValueError''"
    if "\<And>s m. \<exists>y. f s m = Inr y" for ss ver and f :: "ProfileSource \<Rightarrow> ProfileMetadata option \<Rightarrow> string + 'x"
  proof (induction ss)
    case (Cons s ss)
    then show ?case
      using that [of s] find [of s ver] by (cases "find_in_source fs s n ver") (auto simp: try_bind_def split: sum.splits, metis sum.distinct(1))
  qed simp
  have dirs: "list_dirs ds ms = Inl e \<Longrightarrow> e = ''TypeError''" for ds ms
    by (induction ds ms rule: list_dirs.induct) (auto split: if_splits option.splits)
  have sources: "list_sources fs ss ms = Inl e \<Longrightarrow> e = ''TypeError''" for ss ms
    by (induction ss arbitrary: ms) (auto simp: try_bind_def dest: dirs split: option.splits sum.splits)
  show "resolve fs n ver r = (r', Inl e) \<Longrightarrow> e \<noteq> ''RecursionError''"
    using map [of "\<lambda>s m. Inr (map_option (Pair (ps_priority s)) m)" "given ver" "by_priority r"] sources
    by (auto simp: resolve_def candidates_def list_profiles_def Let_def try_bind_def
        split: option.splits sum.splits list.splits prod.splits if_splits)
qed

lemma dep_ok_known:
  "dep_ok U V (vis, g, r) \<Longrightarrow> set (known_names fs r0) \<subseteq> U \<Longrightarrow> set (known_names fs r) \<subseteq> U"
  by (auto simp: dep_ok_def known_names_def)

lemma dep_ok_resolve:
  assumes "dep_ok U V (vis, g, r)" and "resolve fs n None r = (r', x)" and "set (known_names fs r0) \<subseteq> U"
  shows "dep_ok U V (vis, g, r')"
proof -
  have "dict_get (reg_cache r) k = Some m \<Longrightarrow> dict_get (reg_cache r') k = Some m" for k m
    by (rule resolve_frame(2) [OF assms(2)])
  with assms(1) resolve_known(2) [OF assms(2) dep_ok_known [OF assms(1,3)]] show ?thesis
    by (simp add: dep_ok_def) blast
qed

lemma visit_dep_ok:
  assumes "\<And>d s. dep_ok U V s \<Longrightarrow> returns_ok U V (visit d s)" and "dep_ok U V s"
    and "set (known_names fs r0) \<subseteq> U"
  shows "returns_ok U V (visit_dep fs visit n dep s)"
proof (cases "is_str dep")
  case True
  then obtain d where d: "dep = YStr d"
    by (auto simp: is_str_def split: yaml.splits)
  obtain vis g r where s: "s = (vis, g, r)"
    by (cases s)
  obtain r' x where r': "resolve fs d None r = (r', x)"
    by fastforce
  have ok: "dep_ok U V (vis, g, r')"
    using dep_ok_resolve assms(2,3) r' s by blast
  show ?thesis
  proof (cases x)
    case (Inl e)
    with ok resolve_errors r' show ?thesis
      by (auto simp: visit_dep_def d s returns_ok_def)
  next
    case (Inr y)
    show ?thesis
    proof (cases y)
      case None
      with ok Inr r' show ?thesis by (simp add: visit_dep_def d s returns_ok_def)
    next
      case (Some m)
      then have m: "dict_get (reg_cache r') d = Some m"
        using resolve_frame(3) [OF r'] Inr by (simp add: resolve_key_def given_def)
      let ?g = "g\<lparr>dg_edges := dg_edges g @ [(n, d)]\<rparr>"
      have same: "dict_get (dg_nodes g) d = Some v \<Longrightarrow> v = pm_version m" for v
        using ok m unfolding dep_ok_def by fastforce
      then have step: "visit_dep fs visit n dep s = visit d (vis, ?g, r')"
        using Inr Some r' by (auto simp: visit_dep_def d s Let_def split: option.splits)
      have "dep_ok U V (vis, ?g, r')"
        using ok by (simp add: dep_ok_def)
      then show ?thesis
        unfolding step by (rule assms(1))
    qed
  qed
qed (use assms(2) in \<open>auto simp: visit_dep_def returns_ok_def is_str_def split: yaml.splits\<close>)

lemma visit_deps_ok:
  assumes "\<And>d s. dep_ok U V s \<Longrightarrow> returns_ok U V (visit d s)" and "set (known_names fs r0) \<subseteq> U"
  shows "dep_ok U V s \<Longrightarrow> returns_ok U V (visit_deps fs visit n ds s)"
proof (induction ds arbitrary: s)
  case (Cons d ds)
  obtain s' e where s': "visit_dep fs visit n d s = (s', e)"
    by fastforce
  have "returns_ok U V (s', e)"
    using visit_dep_ok [where visit = visit, OF _ Cons.prems assms(2)] assms(1) by (simp flip: s')
  then show ?case
    using Cons.IH [of s'] by (cases e) (auto simp: s' returns_ok_def)
qed (simp add: returns_ok_def)

lemma dep_ok_mono: "dep_ok U V s \<Longrightarrow> W \<subseteq> V \<Longrightarrow> dep_ok U W s"
  by (auto simp: dep_ok_def)

lemma resolve_deps_ok:
  assumes "finite U" and "set (known_names fs r0) \<subseteq> U"
  shows "card (U - V) < k \<Longrightarrow> dep_ok U V s \<Longrightarrow> returns_ok U V (resolve_deps fs k n s)"
proof (induction k arbitrary: V n s)
  case (Suc k)
  obtain vis g r where s: "s = (vis, g, r)"
    by (cases s)
  obtain r' x where r': "resolve fs n None r = (r', x)"
    by fastforce
  let ?V = "insert n vis"
  have ok: "dep_ok U V (?V, g, r')"
    using dep_ok_resolve [OF _ r' assms(2), of V vis g] Suc.prems(2) s by (auto simp: dep_ok_def)
  show ?case
  proof (cases "n \<in> vis")
    case True
    with Suc.prems(2) show ?thesis by (simp add: s returns_ok_def)
  next
    case new: False
    show ?thesis
    proof (cases x)
      case (Inl e)
      with new ok resolve_errors r' show ?thesis by (auto simp: s returns_ok_def)
    next
      case (Inr y)
      show ?thesis
      proof (cases y)
        case None
        with new ok Inr r' show ?thesis by (simp add: s returns_ok_def)
      next
        case (Some m)
        then have m: "dict_get (reg_cache r') n = Some m" "n \<in> U"
          using resolve_frame(3) [OF r'] resolve_known(1) [OF r' dep_ok_known [of U V vis g r]] Inr Suc.prems(2) s assms(2)
          by (auto simp: resolve_key_def given_def)
        let ?g = "g\<lparr>dg_nodes := dict_set n (pm_version m) (dg_nodes g)\<rparr>"
        have ok': "dep_ok U ?V (?V, ?g, r')"
          using ok m by (auto simp: dep_ok_def)
        have V: "V \<subseteq> ?V" "n \<notin> V"
          using Suc.prems(2) new by (auto simp: s dep_ok_def)
        show ?thesis
        proof (cases "dep_items (pm_dependencies m)")
          case (Inl e)
          then have "e = ''TypeError''"
            by (cases "pm_dependencies m") auto
          with new Inl Inr Some r' dep_ok_mono [OF ok' V(1)] show ?thesis
            by (simp add: s returns_ok_def)
        next
          case items: (Inr ds)
          have "U - ?V \<subset> U - V"
            using V m(2) by auto
          then have "card (U - ?V) < k"
            using psubset_card_mono [of "U - V" "U - ?V"] assms(1) Suc.prems(1) by auto
          then have "returns_ok U ?V (visit_deps fs (resolve_deps fs k) n ds (?V, ?g, r'))"
            by (intro visit_deps_ok [OF _ assms(2)] Suc.IH ok')
          with new items Inr Some r' V(1) show ?thesis
            by (auto simp: s returns_ok_def intro: dep_ok_mono)
        qed
      qed
    qed
  qed
qed simp

text \<open>C10: Building the graph always ends (the bound of the recursion is never reached), and it never
  reports a conflict: the version of a node and the version a second dependency would see come
  from the same remembered resolution.\<close>

theorem conflicts_never_found:
  "case snd (dependency_graph fs n r) of Inl e \<Rightarrow> e \<noteq> ''RecursionError'' | Inr g \<Rightarrow> dg_conflicts g = []"
proof -
  let ?U = "set (known_names fs r)" and ?k = "Suc (Suc (length (known_names fs r)))"
  let ?s = "({}, \<lparr>dg_nodes = [], dg_edges = [], dg_conflicts = []\<rparr>, r) :: dep_state"
  have "card (?U - {}) < ?k"
    using card_length [of "known_names fs r"] by simp
  moreover have "dep_ok ?U {} ?s"
    by (auto simp: dep_ok_def known_names_def)
  ultimately have "returns_ok ?U {} (resolve_deps fs ?k n ?s)"
    by (intro resolve_deps_ok [of _ fs r]) simp_all
  then show ?thesis
    by (cases "resolve_deps fs ?k n ?s") (auto simp: dependency_graph_def returns_ok_def dep_ok_def split: option.splits)
qed

end
