(* ===== verification/Migration.thy ===== *)
theory Migration
  imports Safety Profile_Data Raft_CRDT
begin

text \<open>
  The cooperation of two profiles over the event bus and the plans that migrate a profile to a
  new version (\<open>engine/migration.py\<close>, \<open>SoftwareMigrationPlan\<close> of \<open>profiles/software.py\<close>). A handler
  registered at the bus is a name; what it does when the event loop calls it is \<open>run_call\<close>. The
  callbacks of the application are recorded in a log.
\<close>

subsection \<open>The chain of events\<close>

datatype callback = Released BusEvent | Announced BusEvent

datatype handler_kind = Release_handler | Announcement_handler

record Orchestrator =
  or_bus :: EventBus
  or_software :: "string option"
  or_content :: "string option"
  or_kinds :: "(string, handler_kind) dict"

definition new_orchestrator :: "EventBus \<Rightarrow> Orchestrator" where
  "new_orchestrator b = \<lparr>or_bus = b, or_software = None, or_content = None, or_kinds = []\<rparr>"

text \<open>Every call makes a new function, whose name is \<open>h\<close>.\<close>

definition setup_software_release_chain :: "string \<Rightarrow> Orchestrator \<Rightarrow> Orchestrator" where
  "setup_software_release_chain h x =
     x\<lparr>or_bus := subscribe ''release.published'' h (or_bus x), or_software := Some h,
       or_kinds := dict_set h Release_handler (or_kinds x)\<rparr>"

definition setup_content_announcement_chain :: "string \<Rightarrow> Orchestrator \<Rightarrow> Orchestrator" where
  "setup_content_announcement_chain h x =
     x\<lparr>or_bus := subscribe ''announcement.needed'' h (or_bus x), or_content := Some h,
       or_kinds := dict_set h Announcement_handler (or_kinds x)\<rparr>"

definition teardown :: "Orchestrator \<Rightarrow> Orchestrator" where
  "teardown x =
     (let b = (case or_software x of None \<Rightarrow> or_bus x | Some h \<Rightarrow> unsubscribe ''release.published'' h (or_bus x));
          b = (case or_content x of None \<Rightarrow> b | Some h \<Rightarrow> unsubscribe ''announcement.needed'' h b)
      in x\<lparr>or_bus := b\<rparr>)"

definition announcement :: "datetime \<Rightarrow> BusEvent \<Rightarrow> BusEvent" where
  "announcement now e =
     \<lparr>be_type = ''announcement.needed'', source_profile = ''software'', source_slug = source_slug e,
      be_data = [(''version'', dict_get_default (be_data e) ''version'' ''?''),
        (''changelog'', dict_get_default (be_data e) ''changelog'' [])],
      be_timestamp = now, be_trace_id = be_trace_id e, be_hop_count = be_hop_count e + 1, be_cost_usd = 0\<rparr>"

text \<open>
  The call of a handler by the event loop: the bus, the callbacks made, the calls scheduled.
  \<open>fails\<close> is the text of the exception that a callback raises.
\<close>

definition run_call ::
    "datetime \<Rightarrow> (callback \<Rightarrow> string option) \<Rightarrow> (string, handler_kind) dict \<Rightarrow> string \<times> BusEvent \<Rightarrow> EventBus
      \<Rightarrow> EventBus \<times> callback list \<times> (string \<times> BusEvent) list" where
  "run_call now fails kinds c b =
     (case c of (h, e) \<Rightarrow>
        (case dict_get kinds h of
           Some Release_handler \<Rightarrow>
             if be_type e = ''release.published'' then
               (case emit True now (announcement now e) b of
                  (b, Inl x) \<Rightarrow> (safe_call now h e (Some ''no running event loop'') b, [], [])
                | (b, Inr calls) \<Rightarrow> (safe_call now h e (fails (Released e)) b, [Released e], calls))
             else (b, [], [])
         | Some Announcement_handler \<Rightarrow>
             if be_type e = ''announcement.needed'' then (safe_call now h e (fails (Announced e)) b, [Announced e], [])
             else (b, [], [])
         | None \<Rightarrow> (b, [], [])))"

definition release_calls :: "(string \<times> BusEvent) list \<Rightarrow> nat" where
  "release_calls cs = length (filter (\<lambda>(h, e). be_type e = ''release.published'') cs)"

lemma emitted_calls:
  "emit True now (announcement now e) b = (b1, Inr calls) \<Longrightarrow> (h, e') \<in> set calls \<Longrightarrow> be_type e' = ''announcement.needed''"
  by (auto simp: emit_def schedule_calls_def announcement_def split: if_splits)

lemma run_call_new:
  assumes "run_call now fails kinds (h, e) b = (b', cbs, new)"
  shows "release_calls new = 0" and "be_type e \<noteq> ''release.published'' \<Longrightarrow> new = []"
proof -
  show "release_calls new = 0"
    using assms emitted_calls [of now e b]
    by (fastforce simp: run_call_def release_calls_def filter_empty_conv
        split: option.splits handler_kind.splits if_splits prod.splits sum.splits)
  show "be_type e \<noteq> ''release.published'' \<Longrightarrow> new = []"
    using assms by (auto simp: run_call_def split: option.splits handler_kind.splits if_splits)
qed

text \<open>The event loop: the calls scheduled run in their order, and those they schedule after them.\<close>

function drain ::
    "datetime \<Rightarrow> (callback \<Rightarrow> string option) \<Rightarrow> (string, handler_kind) dict \<Rightarrow> (string \<times> BusEvent) list \<Rightarrow> EventBus
      \<Rightarrow> EventBus \<times> callback list" where
  "drain now fails kinds [] b = (b, [])"
| "drain now fails kinds (c # cs) b =
     (case run_call now fails kinds c b of (b, cbs, new) \<Rightarrow>
        (case drain now fails kinds (cs @ new) b of (b, cbs') \<Rightarrow> (b, cbs @ cbs')))"
  by pat_completeness auto
termination
proof (relation "measures [\<lambda>(now, fails, kinds, cs, b). release_calls cs, \<lambda>(now, fails, kinds, cs, b). length cs]", goal_cases)
  case (2 now fails kinds c cs b x y cbs new)
  obtain h e where c: "c = (h, e)" by (cases c)
  have "run_call now fails kinds (h, e) b = (x, cbs, new)"
    using 2 by (simp add: c)
  from run_call_new [OF this] show ?case
    by (cases "be_type e = ''release.published''") (auto simp: c release_calls_def)
qed simp

definition publish ::
    "datetime \<Rightarrow> (callback \<Rightarrow> string option) \<Rightarrow> BusEvent \<Rightarrow> Orchestrator \<Rightarrow> Orchestrator \<times> callback list" where
  "publish now fails e x =
     (case emit True now e (or_bus x) of
        (b, Inl err) \<Rightarrow> (x\<lparr>or_bus := b\<rparr>, [])
      | (b, Inr calls) \<Rightarrow> (case drain now fails (or_kinds x) calls b of (b, cbs) \<Rightarrow> (x\<lparr>or_bus := b\<rparr>, cbs)))"

subsection \<open>Migration plans\<close>

record MigrationPlan =
  mp_state_map :: "(string, string) dict"
  mp_added_states :: "string list"
  mp_removed_states :: "string list"
  mp_added_validators :: "string list"
  mp_removed_validators :: "string list"
  mp_backward_compatible :: bool

record MigrationResult =
  mr_success :: bool
  mr_errors :: "string list"
  mr_migrated :: "(string, string) dict"
  mr_added_validators :: "string list"
  mr_removed_validators :: "string list"

definition new_result :: MigrationResult where
  "new_result = \<lparr>mr_success = True, mr_errors = [], mr_migrated = [], mr_added_validators = [], mr_removed_validators = []\<rparr>"

definition add_error :: "string \<Rightarrow> MigrationResult \<Rightarrow> MigrationResult" where
  "add_error msg r = r\<lparr>mr_success := False, mr_errors := mr_errors r @ [msg]\<rparr>"

definition map_state :: "MigrationPlan \<Rightarrow> string \<Rightarrow> string" where
  "map_state p s = dict_get_default (mp_state_map p) s s"

definition map_old_state :: "MigrationPlan \<Rightarrow> StateMachineConfig \<Rightarrow> string \<Rightarrow> MigrationResult \<Rightarrow> MigrationResult" where
  "map_old_state p new s r =
     (if dict_has (states new) (map_state p s) then r\<lparr>mr_migrated := dict_set s (map_state p s) (mr_migrated r)\<rparr>
      else if dict_has (states new) s then r\<lparr>mr_migrated := dict_set s s (mr_migrated r)\<rparr>
      else if s \<in> set (mp_removed_states p) then r
      else add_error (''State '' @ [CHR 0x27] @ s @ [CHR 0x27] @ '' has no mapping in new config'') r)"

definition check_added :: "StateMachineConfig \<Rightarrow> string \<Rightarrow> MigrationResult \<Rightarrow> MigrationResult" where
  "check_added new s r =
     (if \<not> dict_has (states new) s then
        add_error (''Added state '' @ [CHR 0x27] @ s @ [CHR 0x27] @ '' not found in new config'') r
      else r)"

definition terminals :: "StateMachineConfig \<Rightarrow> string list" where
  "terminals c = map fst (filter (\<lambda>(n, sd). state_type sd = TERMINAL) (states c))"

definition check_terminal :: "MigrationPlan \<Rightarrow> StateMachineConfig \<Rightarrow> string \<Rightarrow> MigrationResult \<Rightarrow> MigrationResult" where
  "check_terminal p new s r =
     (if s \<notin> set (mp_removed_states p) \<and> map_state p s \<notin> set (terminals new) then
        add_error (''Terminal state '' @ [CHR 0x27] @ s @ [CHR 0x27] @ '' '' @ [CHR 0xE2, CHR 0x86, CHR 0x92] @ '' ''
          @ [CHR 0x27] @ map_state p s @ [CHR 0x27] @ '' not terminal in new config'') r
      else r)"

text \<open>The old terminal states are a Python set: here they are checked in the order of the machine.\<close>

definition execute :: "MigrationPlan \<Rightarrow> StateMachineConfig \<Rightarrow> StateMachineConfig \<Rightarrow> MigrationResult" where
  "execute p old new =
     fold (check_terminal p new) (terminals old)
       (fold (check_added new) (mp_added_states p)
         (fold (map_old_state p new) (dict_keys (states old)) new_result))"

definition migration_summary :: "MigrationResult \<Rightarrow> string" where
  "migration_summary r =
     (if mr_success r then
        [CHR 0xE2, CHR 0x9C, CHR 0x85] @ '' Migration successful: '' @ show_nat (length (mr_migrated r)) @ '' states migrated, ''
          @ show_nat (length (mr_added_validators r)) @ '' validators added, '' @ show_nat (length (mr_removed_validators r)) @ '' removed''
      else [CHR 0xE2, CHR 0x9D, CHR 0x8C] @ '' Migration failed: '' @ join ''; '' (mr_errors r))"

definition software_v1_to_v2 :: MigrationPlan where
  "software_v1_to_v2 =
     \<lparr>mp_state_map = [(''prototyping'', ''implementation'')], mp_added_states = [''code_review''], mp_removed_states = [],
      mp_added_validators = [''CodeReviewCheck'', ''PerformanceBenchmark''], mp_removed_validators = [],
      mp_backward_compatible = False\<rparr>"

definition content_v1_to_v2 :: MigrationPlan where
  "content_v1_to_v2 =
     \<lparr>mp_state_map = [], mp_added_states = [''scheduled''], mp_removed_states = [],
      mp_added_validators = [''EngagementPredictor''], mp_removed_validators = [], mp_backward_compatible = True\<rparr>"

definition software_sm_v2 :: yaml where
  "software_sm_v2 = YMap [
   (''profile'', YStr ''software''),
   (''name'', YStr ''dev-cycle''),
   (''version'', YFloat 2),
   (''states'', YMap [
    (''spec'', YMap [(''type'', YStr ''initial''), (''max_reentries'', YInt 1)]),
    (''implementation'', YMap [(''type'', YStr ''intermediate''), (''max_reentries'', YInt 5)]),
    (''iteration'', YMap [(''type'', YStr ''intermediate''), (''max_reentries'', YInt 10)]),
    (''code_review'', YMap [(''type'', YStr ''intermediate''), (''max_reentries'', YNull)]),
    (''review'', YMap [(''type'', YStr ''intermediate''), (''max_reentries'', YNull)]),
    (''release'', YMap [(''type'', YStr ''terminal''), (''max_reentries'', YInt 0)]),
    (''blocked'', YMap [(''type'', YStr ''error''), (''requires_manual'', YBool True)]),
    (''cancelled'', YMap [(''type'', YStr ''terminal''), (''max_reentries'', YInt 0)])]),
   (''transitions'', YMap [
    (''spec -> implementation'', YMap []),
    (''implementation -> iteration'', YMap []),
    (''iteration -> code_review'', YMap [(''condition'', YStr ''iterations >= 4'')]),
    (''iteration -> blocked'', YMap [(''condition'', YStr ''consecutive_failures >= 3'')]),
    (''iteration -> cancelled'', YMap [(''condition'', YStr ''max_iterations_exceeded'')]),
    (''code_review -> review'', YMap [(''condition'', YStr ''human_approved'')]),
    (''code_review -> iteration'', YMap [(''condition'', YStr ''changes_requested'')]),
    (''review -> release'', YMap [(''condition'', YStr ''human_approved'')]),
    (''review -> iteration'', YMap [(''condition'', YStr ''changes_requested'')]),
    (''review -> cancelled'', YMap [(''condition'', YStr ''project_abandoned'')]),
    (''blocked -> code_review'', YMap [(''condition'', YStr ''manual_unblock'')])])]"

subsection \<open>The plan of the software profile\<close>

definition software_state_map :: "(string, string) dict" where
  "software_state_map =
     [(''spec'', ''spec''), (''prototyping'', ''implementation''), (''iteration'', ''iteration''), (''review'', ''review''),
      (''release'', ''release''), (''blocked'', ''blocked''), (''cancelled'', ''cancelled'')]"

definition migrate_state :: "string \<Rightarrow> string" where
  "migrate_state s = dict_get_default software_state_map s s"

definition migrate_node_state :: "NodeState \<Rightarrow> NodeState" where
  "migrate_node_state n =
     (if dict_has software_state_map (ns_state n) then n\<lparr>ns_state := migrate_state (ns_state n)\<rparr> else n)"

definition verify_migration :: "StateMachineConfig \<Rightarrow> StateMachineConfig \<Rightarrow> bool" where
  "verify_migration old new \<longleftrightarrow> list_all (\<lambda>s. dict_has (states new) (migrate_state s)) (dict_keys (states old))"

definition software_transition_map :: path_graph where
  "software_transition_map =
     [(''spec'', [''prototyping'']), (''prototyping'', [''iteration'']),
      (''iteration'', [''iteration'', ''review'', ''blocked'', ''cancelled'']),
      (''review'', [''release'', ''iteration'', ''cancelled'']), (''blocked'', [''iteration''])]"

subsection \<open>What the chain delivers\<close>

text \<open>A release that the bus accepts reaches the release callback once and the announcement callback
  once after it, with its trace, unless its hop count leaves no room for a second hop: then the
  announcement is dropped with a warning. Publishing it again calls nothing.\<close>

theorem release_announced_once:
  assumes "be_type e = ''release.published''" and "be_hop_count e < max_hops"
    and "trace_key e \<notin> seen_traces (or_bus x)" and "trace_key (announcement now e) \<notin> seen_traces (or_bus x)"
    and "dict_get (subscribers (or_bus x)) ''release.published'' = Some [h]"
    and "dict_get (subscribers (or_bus x)) ''announcement.needed'' = Some [k]"
    and "dict_get (or_kinds x) h = Some Release_handler" and "dict_get (or_kinds x) k = Some Announcement_handler"
    and "publish now fails e x = (x', cbs)"
  shows "cbs = Released e # (if be_hop_count e + 1 < max_hops then [Announced (announcement now e)] else []) \<and>
    snd (publish now' fails e x') = []"
proof -
  have keys: "trace_key (announcement now e) \<noteq> trace_key e"
    using assms(1) by (simp add: trace_key_def announcement_def)
  have types: "be_type (announcement now e) = ''announcement.needed''" "be_hop_count (announcement now e) = be_hop_count e + 1"
    by (simp_all add: announcement_def)
  have seen: "trace_key e \<in> seen_traces (or_bus x')" 
    and log: "cbs = Released e # (if be_hop_count e + 1 < max_hops then [Announced (announcement now e)] else [])"
    using assms keys types
    by (auto simp: publish_def emit_def schedule_calls_def dict_get_default_def run_call_def safe_call_def
        split: option.splits if_splits prod.splits)
  with assms(1,2) show ?thesis
    by (auto simp: publish_def emit_def split: prod.splits)
qed

lemma shipped_plans:
  "(case (load_machine software_sm, parse_dict software_sm_v2) of (Inr sm, Inr c) \<Rightarrow>
     Some (mr_success (execute software_v1_to_v2 (sm_config sm) c), isl (load_machine software_sm_v2),
       verify_migration (sm_config sm) (sm_config sm), verify_migration (sm_config sm) c) | _ \<Rightarrow> None) = Some (True, False, False, True)"
  by code_simp

text \<open>Setting a chain up a second time keeps the first handler subscribed, and the teardown removes
  the second only: the first is called for ever.\<close>

lemma second_setup_leaks:
  assumes "h \<noteq> h'"
  shows "dict_get (subscribers (or_bus (teardown (setup_software_release_chain h'
      (setup_software_release_chain h (new_orchestrator init_bus)))))) ''release.published'' = Some [h]"
  using assms
  by (simp add: teardown_def setup_software_release_chain_def new_orchestrator_def init_bus_def subscribe_def
      unsubscribe_def dict_append_def Let_def)

subsection \<open>What a plan promises\<close>

lemma map_old_state_simps [simp]:
  "mr_success (map_old_state p new s r) \<longleftrightarrow> mr_success r \<and>
     (dict_has (states new) (map_state p s) \<or> dict_has (states new) s \<or> s \<in> set (mp_removed_states p))"
  by (auto simp: map_old_state_def add_error_def)

lemma check_simps [simp]:
  "mr_success (check_added new s r) \<longleftrightarrow> mr_success r \<and> dict_has (states new) s"
  "mr_success (check_terminal p new s r) \<longleftrightarrow> mr_success r \<and> (s \<in> set (mp_removed_states p) \<or> map_state p s \<in> set (terminals new))"
  "mr_migrated (check_added new s r) = mr_migrated r" "mr_migrated (check_terminal p new s r) = mr_migrated r"
  by (auto simp: check_added_def check_terminal_def add_error_def)

lemma fold_success:
  assumes "\<And>s r. mr_success (f s r) \<longleftrightarrow> mr_success r \<and> P s"
  shows "mr_success (fold f ss r) \<longleftrightarrow> mr_success r \<and> list_all P ss"
  by (induction ss arbitrary: r) (auto simp: assms)

lemma fold_migrated:
  assumes "\<And>s r. mr_migrated (f s r) = mr_migrated r"
  shows "mr_migrated (fold f ss r) = mr_migrated r"
  by (induction ss arbitrary: r) (auto simp: assms)

definition new_name :: "MigrationPlan \<Rightarrow> StateMachineConfig \<Rightarrow> string \<Rightarrow> string option" where
  "new_name p new s =
     (if dict_has (states new) (map_state p s) then Some (map_state p s)
      else if dict_has (states new) s then Some s else None)"

lemma fold_map_old_state:
  "dict_get (mr_migrated (fold (map_old_state p new) ss r)) s =
     (if s \<in> set ss \<and> new_name p new s \<noteq> None then new_name p new s else dict_get (mr_migrated r) s)"
  by (induction ss arbitrary: r) (auto simp: map_old_state_def new_name_def add_error_def)

text \<open>C11: When a plan succeeds, and what it maps: every state of the old machine that is not removed has
  a state in the new one, the added ones are there, and terminal states go to terminal states.\<close>

theorem plan_success_iff:
  "mr_success (execute p old new) =
     (list_all (\<lambda>s. if new_name p new s = None then s \<in> set (mp_removed_states p) else True) (dict_keys (states old)) \<and>
      list_all (dict_has (states new)) (mp_added_states p) \<and>
      list_all (\<lambda>s. s \<in> set (mp_removed_states p) \<or> map_state p s \<in> set (terminals new)) (terminals old)) \<and>
   dict_get (mr_migrated (execute p old new)) s = (if s \<in> set (dict_keys (states old)) then new_name p new s else None)"
proof
  have n: "(dict_has (states new) (map_state p s) \<or> dict_has (states new) s \<or> s \<in> set (mp_removed_states p)) =
      (if new_name p new s = None then s \<in> set (mp_removed_states p) else True)" for s
    by (auto simp: new_name_def)
  show "mr_success (execute p old new) =
     (list_all (\<lambda>s. if new_name p new s = None then s \<in> set (mp_removed_states p) else True) (dict_keys (states old)) \<and>
      list_all (dict_has (states new)) (mp_added_states p) \<and>
      list_all (\<lambda>s. s \<in> set (mp_removed_states p) \<or> map_state p s \<in> set (terminals new)) (terminals old))"
    unfolding execute_def
    by (subst fold_success, rule check_simps(2), subst fold_success, rule check_simps(1), subst fold_success,
        rule map_old_state_simps) (simp add: n new_result_def conj_assoc)
  show "dict_get (mr_migrated (execute p old new)) s = (if s \<in> set (dict_keys (states old)) then new_name p new s else None)"
    by (simp add: execute_def fold_migrated fold_map_old_state new_result_def)
qed

text \<open>A plan whose target is missing is accepted if the old name is still there, so a wrong target can
  go unnoticed; and the validators a plan adds are in no result.\<close>

lemma wrong_target_accepted:
  "map_state p s \<notin> set (dict_keys (states new)) \<Longrightarrow> dict_has (states new) s \<Longrightarrow> new_name p new s = Some s"
  by (simp add: new_name_def dict_has_iff)

lemma validators_not_reported: "mr_added_validators (execute p old new) = [] \<and> mr_removed_validators (execute p old new) = []"
proof -
  have *: "mr_added_validators (fold f ss r) = mr_added_validators r \<and> mr_removed_validators (fold f ss r) = mr_removed_validators r"
    if "\<And>s r. mr_added_validators (f s r) = mr_added_validators r \<and> mr_removed_validators (f s r) = mr_removed_validators r"
    for f ss and r :: MigrationResult
    by (induction ss arbitrary: r) (auto simp: that)
  show ?thesis
    unfolding execute_def
    by (subst * ; simp add: check_terminal_def check_added_def map_old_state_def add_error_def new_result_def * )+
qed

lemma content_plan_fails:
  "(case load_machine content_sm of Inr sm \<Rightarrow> mr_errors (execute content_v1_to_v2 (sm_config sm) (sm_config sm)) | Inl e \<Rightarrow> []) =
     [''Added state '' @ [CHR 0x27] @ ''scheduled'' @ [CHR 0x27] @ '' not found in new config'']"
  by code_simp

subsection \<open>Migration and the merge of replicas\<close>

text \<open>The profile keeps the old names in its transition map: before the migration the merge takes the replica
  that has moved on from prototyping, its successor in the map; after it the renamed states are no
  longer related by the map, and the merge falls back to a state that the successor had left.\<close>

lemma transition_map_not_migrated:
  "merge_states \<lparr>ns_state = ''prototyping'', ns_version = 1\<rparr> \<lparr>ns_state = ''iteration'', ns_version = 1\<rparr> software_transition_map =
     \<lparr>ns_state = ''iteration'', ns_version = 1\<rparr> \<and>
   merge_states (migrate_node_state \<lparr>ns_state = ''prototyping'', ns_version = 1\<rparr>)
     (migrate_node_state \<lparr>ns_state = ''iteration'', ns_version = 1\<rparr>) software_transition_map =
     \<lparr>ns_state = ''implementation'', ns_version = 1\<rparr>"
  by code_simp

definition demo_release :: BusEvent where
  "demo_release = \<lparr>be_type = ''release.published'', source_profile = ''software'', source_slug = ''flux-v1'',
     be_data = [(''version'', ''1.0.0'')], be_timestamp = 0, be_trace_id = ''t'', be_hop_count = 1, be_cost_usd = 0\<rparr>"

definition demo_chain :: Orchestrator where
  "demo_chain = setup_content_announcement_chain ''k'' (setup_software_release_chain ''h'' (new_orchestrator init_bus))"

theorem release_announced_once_witness:
  "\<exists>x'. publish 0 (\<lambda>c. None) demo_release demo_chain = (x', [Released demo_release, Announced (announcement 0 demo_release)]) \<and>
     snd (publish 1 (\<lambda>c. None) demo_release x') = []"
proof -
  obtain x' cbs where run: "publish 0 (\<lambda>c. None) demo_release demo_chain = (x', cbs)"
    by fastforce
  have "cbs = Released demo_release # (if be_hop_count demo_release + 1 < max_hops then [Announced (announcement 0 demo_release)] else []) \<and>
      snd (publish 1 (\<lambda>c. None) demo_release x') = []"
    by (rule release_announced_once [OF _ _ _ _ _ _ _ _ run, where h = "''h''" and k = "''k''"])
      (simp_all add: demo_release_def demo_chain_def max_hops_def setup_content_announcement_chain_def
        setup_software_release_chain_def new_orchestrator_def init_bus_def subscribe_def dict_append_def)
  with run show ?thesis by (simp add: demo_release_def max_hops_def)
qed

end
