(* ===== verification/Audit_Log.thy ===== *)
theory Audit_Log
  imports Systems PyString PyValue Run_Manager
begin

text \<open>
  The audit log (\<open>engine/audit.py\<close>): an active file, numbered archive segments, queries, replay
  and compaction. A file is the list of its lines; a line is an entry, or \<^const>\<open>None\<close> if it is not
  JSON. Time stamps are texts in one ISO format and are compared as texts. The rewrite of the
  active file is two steps, reading and replacing, since other threads run between them.
\<close>

subsection \<open>Entries and files\<close>

record AuditEntry =
  au_ts :: string
  au_type :: string
  au_data :: "(string, PyVal) dict"
  au_trace :: string

type_synonym line = "AuditEntry option"

record segment_info =
  si_segment :: string
  si_start :: string
  si_end :: string
  si_count :: nat

record AuditLog =
  al_active :: "line list"
  al_archive :: "(string, line list) dict"
  al_index :: "(int \<times> segment_info list) option"
  al_segments :: int
  al_count :: int
  al_max :: int

text \<open>A new process over the same directory.\<close>

definition open_log :: "int \<Rightarrow> AuditLog \<Rightarrow> AuditLog" where
  "open_log mx l = l\<lparr>al_segments := (case al_index l of None \<Rightarrow> 0 | Some (n, _) \<Rightarrow> n), al_count := 0, al_max := mx\<rparr>"

definition new_log :: "int \<Rightarrow> AuditLog" where
  "new_log mx = \<lparr>al_active = [], al_archive = [], al_index = None, al_segments = 0, al_count = 0, al_max = mx\<rparr>"

definition segment_name :: "nat \<Rightarrow> string" where
  "segment_name n = ''audit_'' @ pad 3 n @ ''.jsonl.gz''"

definition next_segment :: "AuditLog \<Rightarrow> string" where
  "next_segment l = segment_name (length (al_archive l) + 1)"

definition rotate :: "AuditLog \<Rightarrow> AuditLog" where
  "rotate l = l\<lparr>al_archive := dict_set (next_segment l) (al_active l) (al_archive l), al_active := [],
     al_count := 0, al_segments := al_segments l + 1\<rparr>"

text \<open>Data that JSON does not know raises before the lock is taken.\<close>

definition record_entry :: "string \<Rightarrow> string \<Rightarrow> (string, PyVal) dict \<Rightarrow> string \<Rightarrow> AuditLog \<Rightarrow> AuditLog \<times> (string + AuditEntry)" where
  "record_entry now ty d tr l =
     (if \<not> list_all dumpable (dict_values d) then (l, Inl ''TypeError'')
      else
        (let e = \<lparr>au_ts = now, au_type = ty, au_data = d, au_trace = tr\<rparr>;
             l = l\<lparr>al_active := al_active l @ [Some e], al_count := al_count l + 1\<rparr>
         in (if al_count l \<ge> al_max l then rotate l else l, Inr e)))"

text \<open>An entry without a time stamp gets the time at which it is read.\<close>

definition read_entry :: "string \<Rightarrow> AuditEntry \<Rightarrow> AuditEntry" where
  "read_entry now e = e\<lparr>au_ts := if au_ts e = [] then now else au_ts e\<rparr>"

definition read_lines :: "string \<Rightarrow> line list \<Rightarrow> AuditEntry list" where
  "read_lines now ls = map (read_entry now) (List.map_filter id ls)"

definition iter_all :: "string \<Rightarrow> AuditLog \<Rightarrow> AuditEntry list" where
  "iter_all now l = concat (map (\<lambda>(n, ls). read_lines now ls) (sort_key fst (al_archive l))) @ read_lines now (al_active l)"

subsection \<open>Queries\<close>

definition given_text :: "string option \<Rightarrow> bool" where
  "given_text x = (case x of None \<Rightarrow> False | Some s \<Rightarrow> s \<noteq> [])"

fun query_loop :: "string option \<Rightarrow> string option \<Rightarrow> string option \<Rightarrow> int \<Rightarrow> AuditEntry list \<Rightarrow> AuditEntry list \<Rightarrow> AuditEntry list" where
  "query_loop since until ty n [] rs = rs"
| "query_loop since until ty n (e # es) rs =
     (if given_text since \<and> au_ts e < the since then query_loop since until ty n es rs
      else if given_text until \<and> au_ts e > the until then query_loop since until ty n es rs
      else if given_text ty \<and> au_type e \<noteq> the ty then query_loop since until ty n es rs
      else
        (let rs = rs @ [e] in if n \<noteq> 0 \<and> int (length rs) \<ge> n then rs else query_loop since until ty n es rs))"

definition query :: "string \<Rightarrow> string option \<Rightarrow> string option \<Rightarrow> string option \<Rightarrow> int \<Rightarrow> AuditLog \<Rightarrow> AuditEntry list" where
  "query now since until ty n l = query_loop since until ty n (iter_all now l) []"

definition count_entries :: "string \<Rightarrow> string option \<Rightarrow> AuditLog \<Rightarrow> int" where
  "count_entries now ty l =
     (if given_text ty then int (length (filter (\<lambda>e. au_type e = the ty) (iter_all now l))) else al_count l)"

definition latest :: "string \<Rightarrow> int \<Rightarrow> AuditLog \<Rightarrow> AuditEntry list" where
  "latest now n l = py_drop (- n) (iter_all now l)"

subsection \<open>Replay\<close>

text \<open>The values of a replayed state: a run, or a text under one of the names with an underscore.\<close>

datatype replay_value =
    Run_info (ri_state: PyVal) (ri_events: int) (ri_archived: bool)
  | Plain PyVal

type_synonym replay_state = "(PyVal, replay_value) dict"

fun is_key :: "PyVal \<Rightarrow> bool" where
  "is_key (PList vs) \<longleftrightarrow> False"
| "is_key (PDict kvs) \<longleftrightarrow> False"
| "is_key v \<longleftrightarrow> True"

definition field_or :: "(string, PyVal) dict \<Rightarrow> string \<Rightarrow> PyVal \<Rightarrow> PyVal" where
  "field_or d k v = dict_get_default d k v"

definition apply_entry :: "AuditEntry \<Rightarrow> replay_state \<Rightarrow> string + replay_state" where
  "apply_entry e st =
     (let d = au_data e in
      if au_type e = ''run.created'' then
        (let slug = field_or d ''slug'' (PStr ''unknown'')
         in if is_key slug then Inr (dict_set slug (Run_info (field_or d ''state'' (PStr ''created'')) 0 False) st)
            else Inl ''TypeError'')
      else if au_type e = ''run.transition'' then
        (let slug = field_or d ''slug'' (PStr [])
         in if \<not> is_key slug then Inl ''TypeError''
            else case dict_get st slug of
              None \<Rightarrow> Inr st
            | Some (Plain v) \<Rightarrow> Inl ''TypeError''
            | Some (Run_info s n a) \<Rightarrow> Inr (dict_set slug (Run_info (field_or d ''to'' s) (n + 1) a) st))
      else if au_type e = ''run.archived'' then
        (let slug = field_or d ''slug'' (PStr [])
         in if \<not> is_key slug then Inl ''TypeError''
            else case dict_get st slug of
              None \<Rightarrow> Inr st
            | Some (Plain v) \<Rightarrow> Inl ''TypeError''
            | Some (Run_info s n a) \<Rightarrow> Inr (dict_set slug (Run_info s n True) st))
      else if au_type e = ''degradation.change'' then
        Inr (dict_set (PStr ''_degradation'') (Plain (field_or d ''to'' (PStr []))) st)
      else if au_type e = ''metric.recorded'' \<and> dict_has d ''prometheus'' then
        Inr (dict_set (PStr ''_last_prometheus'') (Plain (field_or d ''prometheus'' (PStr []))) st)
      else Inr st)"

fun replay_entries :: "AuditEntry list \<Rightarrow> replay_state \<Rightarrow> string + replay_state" where
  "replay_entries [] st = Inr st"
| "replay_entries (e # es) st = try_bind (apply_entry e st) (replay_entries es)"

definition replay :: "string \<Rightarrow> AuditLog \<Rightarrow> replay_state \<Rightarrow> string + (AuditEntry list \<times> replay_state)" where
  "replay now l st = try_bind (replay_entries (iter_all now l) st) (\<lambda>st. Inr (iter_all now l, st))"

subsection \<open>Compaction\<close>

definition old_lines :: "string \<Rightarrow> line list \<Rightarrow> line list" where
  "old_lines cutoff ls = filter (\<lambda>x. case x of None \<Rightarrow> False | Some e \<Rightarrow> au_ts e < cutoff) ls"

definition kept_lines :: "string \<Rightarrow> line list \<Rightarrow> line list" where
  "kept_lines cutoff ls = filter (\<lambda>x. case x of None \<Rightarrow> False | Some e \<Rightarrow> au_ts e \<ge> cutoff) ls"

definition update_index :: "segment_info \<Rightarrow> AuditLog \<Rightarrow> AuditLog" where
  "update_index i l =
     (case al_index l of
        None \<Rightarrow> l\<lparr>al_index := Some (al_segments l, [i])\<rparr>
      | Some (n, segs) \<Rightarrow> l\<lparr>al_index := Some (n, segs @ [i])\<rparr>)"

text \<open>Up to the rewrite: the old lines in a new segment, and its entry in the index.\<close>

definition compact_collect :: "string \<Rightarrow> AuditLog \<Rightarrow> AuditLog \<times> nat" where
  "compact_collect cutoff l =
     (let old = old_lines cutoff (al_active l);
          start = Min (set (map (au_ts \<circ> the) old))
      in if old = [] then (l, 0)
         else
           (update_index \<lparr>si_segment = next_segment l, si_start = start, si_end = cutoff, si_count = length old\<rparr>
              (l\<lparr>al_archive := dict_set (next_segment l) old (al_archive l)\<rparr>), length old))"

definition rewrite_read :: "string \<Rightarrow> AuditLog \<Rightarrow> line list" where
  "rewrite_read cutoff l = kept_lines cutoff (al_active l)"

definition rewrite_replace :: "line list \<Rightarrow> AuditLog \<Rightarrow> AuditLog" where
  "rewrite_replace ls l = l\<lparr>al_active := ls, al_count := int (length ls)\<rparr>"

definition compact :: "string \<Rightarrow> AuditLog \<Rightarrow> AuditLog \<times> nat" where
  "compact cutoff l =
     (case compact_collect cutoff l of
        (l, 0) \<Rightarrow> (l, 0)
      | (l, n) \<Rightarrow> (rewrite_replace (rewrite_read cutoff l) l, n))"

subsection \<open>The log keeps every entry\<close>

datatype audit_op =
    Record string string "(string, PyVal) dict" string
  | Compact string
  | Reopen int

fun audit_step :: "audit_op \<Rightarrow> AuditLog \<Rightarrow> AuditLog" where
  "audit_step (Record now ty d tr) l = fst (record_entry now ty d tr l)"
| "audit_step (Compact cutoff) l = fst (compact cutoff l)"
| "audit_step (Reopen mx) l = open_log mx l"

fun op_entries :: "audit_op \<Rightarrow> AuditEntry list" where
  "op_entries (Record now ty d tr) =
     (if list_all dumpable (dict_values d) then [\<lparr>au_ts = now, au_type = ty, au_data = d, au_trace = tr\<rparr>] else [])"
| "op_entries x = []"

lemma show_digit: "n < 10 \<Longrightarrow> show_nat n = [char_of (48 + n)]"
  by (simp add: show_nat.simps [of n])

lemma show_two: "10 \<le> n \<Longrightarrow> n < 100 \<Longrightarrow> show_nat n = [char_of (48 + n div 10), char_of (48 + n mod 10)]"
  by (subst show_nat.simps) (simp add: show_digit)

lemma show_three:
  assumes "100 \<le> n" and "n < 1000"
  shows "show_nat n = [char_of (48 + n div 100), char_of (48 + n div 10 mod 10), char_of (48 + n mod 10)]"
proof -
  have "10 \<le> n div 10" "n div 10 < 100" "n div 10 div 10 = n div 100"
    using assms by (simp_all flip: div_mult2_eq)
  with assms show ?thesis
    by (subst show_nat.simps) (simp add: show_two)
qed

lemma zero_char: "CHR ''0'' = char_of (48 :: nat)"
  by code_simp

lemma pad3:
  assumes "n < 1000"
  shows "pad 3 n = map (\<lambda>d. char_of (48 + d)) [n div 100, n div 10 mod 10, n mod 10]"
proof -
  consider "n < 10" | "10 \<le> n" "n < 100" | "100 \<le> n" by linarith
  then show ?thesis
    using assms by cases (simp_all add: pad_def show_digit show_two show_three numeral_2_eq_2 zero_char)
qed

lemma char_of_less:
  fixes a b :: nat
  assumes "a < 10" and "b < 10"
  shows "(char_of (48 + a) :: char) < char_of (48 + b) \<longleftrightarrow> a < b"
proof -
  have m: "(of_char (char_of (48 + x) :: char) :: nat) = 48 + x" if "x < 10" for x :: nat
    unfolding of_char_of using that by (intro mod_less) simp
  show ?thesis
    unfolding less_char_def m [OF assms(1)] m [OF assms(2)] by (rule add_less_cancel_left)
qed

lemma char_of_eq: "a < 10 \<Longrightarrow> b < 10 \<Longrightarrow> (char_of (48 + a) :: char) = char_of (48 + b) \<longleftrightarrow> a = b" for a b :: nat
  by (metis char_of_less less_irrefl nat_neq_iff)

lemma div_less_cases: "i < j \<Longrightarrow> i div 10 < j div 10 \<or> i div 10 = j div 10 \<and> i mod 10 < j mod 10" for i j :: nat
  by (metis div_le_mono div_mult_mod_eq le_eq_less_or_eq less_imp_le nat_add_left_cancel_less)

lemma segment_name_less:
  assumes "i < j" and "j < 1000"
  shows "segment_name i < segment_name j"
proof -
  have d: "i div 100 < 10" "j div 100 < 10" "i div 10 mod 10 < 10" "j div 10 mod 10 < 10" "i mod 10 < 10" "j mod 10 < 10"
    using assms by simp_all
  have h: "n div 100 = n div 10 div 10" for n :: nat
    by (simp flip: div_mult2_eq)
  have "i div 100 < j div 100 \<or> i div 100 = j div 100 \<and>
      (i div 10 mod 10 < j div 10 mod 10 \<or> i div 10 mod 10 = j div 10 mod 10 \<and> i mod 10 < j mod 10)"
    using div_less_cases [OF assms(1)] div_less_cases [of "i div 10" "j div 10"] by (auto simp: h)
  then have "pad 3 i @ ys < pad 3 j @ ys" for ys
    using assms d by (auto simp: pad3 char_of_less char_of_eq)
  then show ?thesis
    by (simp add: segment_name_def append_less_append)
qed

definition plain_lines :: "line list \<Rightarrow> bool" where
  "plain_lines ls \<longleftrightarrow> list_all (\<lambda>x. case x of None \<Rightarrow> False | Some e \<Rightarrow> au_ts e \<noteq> []) ls"

lemma plain_simps [simp]:
  "plain_lines []" "plain_lines (xs @ ys) \<longleftrightarrow> plain_lines xs \<and> plain_lines ys"
  "plain_lines (x # xs) \<longleftrightarrow> (case x of None \<Rightarrow> False | Some e \<Rightarrow> au_ts e \<noteq> []) \<and> plain_lines xs"
  by (simp_all add: plain_lines_def)

lemma read_plain: "plain_lines ls \<Longrightarrow> read_lines now ls = map the ls"
proof (induction ls)
  case (Cons x ls)
  then show ?case
    by (cases x) (simp_all add: read_lines_def map_filter_simps read_entry_def)
qed (simp add: read_lines_def map_filter_simps)

text \<open>The state between operations; \<open>t\<close> is at least every time stamp of the active file.\<close>

definition log_inv :: "string \<Rightarrow> AuditLog \<Rightarrow> bool" where
  "log_inv t l \<longleftrightarrow> dict_keys (al_archive l) = map segment_name [1..<Suc (length (al_archive l))] \<and>
     plain_lines (al_active l) \<and> list_all (\<lambda>(n, ls). plain_lines ls) (al_archive l) \<and>
     sorted (map (au_ts \<circ> the) (al_active l)) \<and> (\<forall>x \<in> set (al_active l). au_ts (the x) \<le> t)"

definition kept_entries :: "AuditLog \<Rightarrow> AuditEntry list" where
  "kept_entries l = concat (map (\<lambda>(n, ls). map the ls) (al_archive l)) @ map the (al_active l)"

lemma iter_all_inv:
  assumes "log_inv t l" and "length (al_archive l) < 1000"
  shows "iter_all now l = kept_entries l"
proof -
  have "sorted_wrt (<) (map fst (al_archive l))"
    using assms segment_name_less
    by (auto simp: log_inv_def sorted_wrt_map sorted_wrt_iff_nth_less simp del: upt_Suc)
  then have "sort_key fst (al_archive l) = al_archive l"
    by (rule sort_key_sorted)
  moreover have "map (\<lambda>(n, ls). read_lines now ls) (al_archive l) = map (\<lambda>(n, ls). map the ls) (al_archive l)"
    using assms(1) by (auto simp: log_inv_def list_all_iff read_plain)
  moreover have "read_lines now (al_active l) = map the (al_active l)"
    using assms(1) by (simp add: log_inv_def read_plain)
  ultimately show ?thesis
    by (simp only: iter_all_def kept_entries_def)
qed

lemma next_segment_new:
  assumes "log_inv t l" and "length (al_archive l) < 999"
  shows "dict_set (next_segment l) ls (al_archive l) = al_archive l @ [(next_segment l, ls)]"
proof (rule dict_set_append)
  have "segment_name i \<noteq> next_segment l" if "1 \<le> i" "i \<le> length (al_archive l)" for i
    using segment_name_less [of i "length (al_archive l) + 1"] that assms(2) by (auto simp: next_segment_def)
  then show "\<not> dict_has (al_archive l) (next_segment l)"
    using assms(1) by (fastforce simp: log_inv_def dict_has_iff simp del: upt_Suc)
qed

lemma archive_inv:
  assumes "log_inv t l" and "length (al_archive l) < 999" and "plain_lines ls"
  shows "dict_keys (dict_set (next_segment l) ls (al_archive l)) =
      map segment_name [1..<Suc (length (dict_set (next_segment l) ls (al_archive l)))]"
    and "list_all (\<lambda>(n, ls). plain_lines ls) (dict_set (next_segment l) ls (al_archive l))"
  using assms unfolding next_segment_new [OF assms(1,2)]
  by (simp_all add: log_inv_def next_segment_def)

lemma record_step:
  assumes "log_inv t l" and "length (al_archive l) < 999" and "t \<le> now" and "now \<noteq> []"
  shows "log_inv now (audit_step (Record now ty d tr) l) \<and>
    kept_entries (audit_step (Record now ty d tr) l) = kept_entries l @ op_entries (Record now ty d tr)"
proof (cases "list_all dumpable (dict_values d)")
  case True
  let ?e = "\<lparr>au_ts = now, au_type = ty, au_data = d, au_trace = tr\<rparr>"
  let ?l = "l\<lparr>al_active := al_active l @ [Some ?e], al_count := al_count l + 1\<rparr>"
  have le: "\<And>x. x \<in> set (al_active l) \<Longrightarrow> au_ts (the x) \<le> now"
    using assms(1,3) by (auto simp: log_inv_def)
  have inv: "log_inv now ?l"
    using assms(1,4) le by (auto simp: log_inv_def sorted_append)
  have len: "length (al_archive ?l) < 999"
    using assms(2) by simp
  have act: "plain_lines (al_active ?l)"
    using inv by (simp add: log_inv_def)
  have "log_inv now (rotate ?l)"
    using archive_inv [OF inv len act] by (simp add: log_inv_def rotate_def)
  moreover have "kept_entries (rotate ?l) = kept_entries ?l"
    using next_segment_new [OF inv len] by (simp add: kept_entries_def rotate_def)
  ultimately show ?thesis
    using True inv by (simp add: record_entry_def Let_def kept_entries_def)
next
  case False
  with assms(1,3) show ?thesis
    by (auto simp: record_entry_def log_inv_def)
qed

lemma old_kept: "plain_lines ls \<Longrightarrow> sorted (map (au_ts \<circ> the) ls) \<Longrightarrow> ls = old_lines c ls @ kept_lines c ls"
proof (induction ls)
  case (Cons x ls)
  then obtain e where e: "x = Some e"
    by (cases x) auto
  show ?case
  proof (cases "au_ts e < c")
    case True
    with Cons e show ?thesis by (simp add: old_lines_def kept_lines_def)
  next
    case False
    have "c \<le> au_ts (the y)" if "y \<in> set ls" for y
      using Cons.prems(2) False e that by (auto intro: order_trans)
    then have "old_lines c ls = []"
      by (fastforce simp: old_lines_def filter_empty_conv not_less split: option.splits)
    with Cons False e show ?thesis by (simp add: old_lines_def kept_lines_def)
  qed
qed (simp add: old_lines_def kept_lines_def)

lemma compact_step:
  assumes "log_inv t l" and "length (al_archive l) < 999"
  shows "log_inv t (audit_step (Compact c) l) \<and> kept_entries (audit_step (Compact c) l) = kept_entries l"
proof (cases "old_lines c (al_active l) = []")
  case True
  with assms(1) show ?thesis by (simp add: compact_def compact_collect_def)
next
  case False
  let ?old = "old_lines c (al_active l)" and ?new = "kept_lines c (al_active l)"
  let ?l = "fst (compact c l)"
  have split: "al_active l = ?old @ ?new"
    using assms(1) by (intro old_kept) (simp_all add: log_inv_def)
  have fields: "al_active ?l = ?new" "al_archive ?l = dict_set (next_segment l) ?old (al_archive l)"
    using False
    by (auto simp: compact_def compact_collect_def update_index_def rewrite_replace_def rewrite_read_def Let_def
        split: option.splits nat.splits)
  have plain: "plain_lines ?old" "plain_lines ?new"
    using assms(1) plain_simps(2) [of ?old ?new] by (simp_all add: log_inv_def flip: split)
  have "sorted (map (au_ts \<circ> the) ?new)"
    using assms(1) split by (metis log_inv_def map_append sorted_append)
  moreover have "set ?new \<subseteq> set (al_active l)"
    by (auto simp: kept_lines_def)
  ultimately have "log_inv t ?l"
    using assms(1) plain archive_inv [OF assms plain(1)] unfolding log_inv_def fields by blast
  moreover have "kept_entries ?l = kept_entries l"
    using arg_cong [OF split, of "map the"] by (simp add: kept_entries_def fields next_segment_new [OF assms])
  ultimately show ?thesis by simp
qed

lemma step_archive: "length (al_archive l) \<le> length (al_archive (audit_step op l))"
  by (cases op)
    (auto simp: record_entry_def rotate_def compact_def compact_collect_def update_index_def rewrite_replace_def open_log_def
      length_dict_set Let_def split: option.splits nat.splits)

lemma run_archive: "length (al_archive l) \<le> length (al_archive (fold audit_step ops l))"
  by (induction ops arbitrary: l) (auto intro: order_trans [OF step_archive])

fun op_stamp :: "audit_op \<Rightarrow> string list" where
  "op_stamp (Record now ty d tr) = [now]"
| "op_stamp x = []"

text \<open>C13: Whatever is recorded, rotated, compacted and reopened, the log iterates over exactly the
  entries that were recorded, in their order; as long as the clock does not go back and the
  numbers of the segments have three digits.\<close>

theorem audit_refines_list:
  assumes "sorted (concat (map op_stamp ops))" and "list_all (\<lambda>t. t \<noteq> []) (concat (map op_stamp ops))"
    and "length (al_archive (fold audit_step ops (new_log mx))) < 999"
  shows "iter_all now (fold audit_step ops (new_log mx)) = concat (map op_entries ops)"
proof -
  have "\<exists>t'. log_inv t' (fold audit_step ops l) \<and>
      kept_entries (fold audit_step ops l) = kept_entries l @ concat (map op_entries ops)"
    if "log_inv t l" and "sorted (t # concat (map op_stamp ops))" and "list_all (\<lambda>t. t \<noteq> []) (concat (map op_stamp ops))"
      and "length (al_archive (fold audit_step ops l)) < 999" for t l
    using that
  proof (induction ops arbitrary: t l)
    case Nil
    then show ?case by auto
  next
    case (Cons op ops)
    let ?l = "audit_step op l"
    have len: "length (al_archive l) < 999"
      using Cons.prems(4) run_archive [of ?l ops] step_archive [of l op] by simp
    show ?case
    proof (cases op)
      case (Record now' ty d tr)
      then have "log_inv now' ?l \<and> kept_entries ?l = kept_entries l @ op_entries op"
        using Cons.prems by (simp only: Record, intro record_step [OF Cons.prems(1) len]) auto
      with Cons.IH [of now' ?l] Cons.prems show ?thesis by (simp add: Record)
    next
      case (Compact c)
      then have "log_inv t ?l \<and> kept_entries ?l = kept_entries l @ op_entries op"
        using compact_step [OF Cons.prems(1) len, of c] by simp
      with Cons.IH [of t ?l] Cons.prems show ?thesis by (simp add: Compact)
    next
      case (Reopen m)
      then have "log_inv t ?l \<and> kept_entries ?l = kept_entries l @ op_entries op"
        using Cons.prems(1) by (simp add: open_log_def log_inv_def kept_entries_def)
      with Cons.IH [of t ?l] Cons.prems show ?thesis by (simp add: Reopen)
    qed
  qed
  moreover have "log_inv [] (new_log mx)" "sorted ([] # concat (map op_stamp ops))" "kept_entries (new_log mx) = []"
    using assms(1) by (simp_all add: log_inv_def new_log_def kept_entries_def)
  ultimately obtain t' where "log_inv t' (fold audit_step ops (new_log mx))"
      "kept_entries (fold audit_step ops (new_log mx)) = concat (map op_entries ops)"
    using assms by force
  with iter_all_inv [OF this(1)] assms(3) show ?thesis by simp
qed

definition demo_audit :: "audit_op list" where
  "demo_audit = [Record ''01'' ''run.created'' [(''slug'', PStr ''r'')] [], Record ''02'' ''run.transition'' [(''to'', PStr ''a'')] [],
     Compact ''02'', Reopen 1, Record ''03'' ''x'' [] []]"

theorem audit_refines_list_witness:
  "iter_all ''04'' (fold audit_step demo_audit (new_log 5)) = concat (map op_entries demo_audit) \<and>
   length (al_archive (fold audit_step demo_audit (new_log 5))) = 2"
proof
  show len: "length (al_archive (fold audit_step demo_audit (new_log 5))) = 2"
    by code_simp
  show "iter_all ''04'' (fold audit_step demo_audit (new_log 5)) = concat (map op_entries demo_audit)"
    by (rule audit_refines_list) (simp_all only: len, simp_all add: demo_audit_def)
qed

text \<open>An entry recorded by another thread between the two steps of the rewrite is lost.\<close>

lemma record_during_rewrite_lost:
  assumes "record_entry now ty d tr l = (l', Inr e)" and "al_count l + 1 < al_max l"
  shows "al_active (rewrite_replace (rewrite_read c l) l') = kept_lines c (al_active l) \<and> al_archive l' = al_archive l"
  using assms by (auto simp: record_entry_def rewrite_replace_def rewrite_read_def Let_def split: if_splits)

text \<open>A query stops at the oldest entries that fit its limit: once it is reached, new entries are not seen.\<close>

definition matches :: "string option \<Rightarrow> string option \<Rightarrow> string option \<Rightarrow> AuditEntry \<Rightarrow> bool" where
  "matches since until ty e \<longleftrightarrow>
     (if given_text since then the since \<le> au_ts e else True) \<and> (if given_text until then au_ts e \<le> the until else True) \<and>
     (if given_text ty then au_type e = the ty else True)"

lemma query_loop_take:
  assumes "0 < n" and "length rs < nat n"
  shows "query_loop since until ty n es rs = rs @ take (nat n - length rs) (filter (matches since until ty) es)"
  using assms
proof (induction es arbitrary: rs)
  case (Cons e es)
  have step: "query_loop since until ty n (e # es) rs =
      (if matches since until ty e then
         (if int (length (rs @ [e])) \<ge> n then rs @ [e] else query_loop since until ty n es (rs @ [e]))
       else query_loop since until ty n es rs)"
    using Cons.prems(1) by (auto simp: matches_def Let_def not_less not_le)
  show ?case
  proof (cases "matches since until ty e")
    case True
    show ?thesis
    proof (cases "int (length (rs @ [e])) \<ge> n")
      case True
      with Cons.prems have "nat n - length rs = 1" by simp
      with True \<open>matches since until ty e\<close> show ?thesis unfolding step by simp
    next
      case False
      then have "nat n - length rs = Suc (nat n - length (rs @ [e]))" by simp
      with False \<open>matches since until ty e\<close> Cons.IH [of "rs @ [e]"] Cons.prems show ?thesis unfolding step by simp
    qed
  next
    case False
    with Cons show ?thesis unfolding step by simp
  qed
qed simp

theorem query_sees_oldest:
  assumes "0 < n"
  shows "query now since until ty n l = take (nat n) (filter (matches since until ty) (iter_all now l))"
  using query_loop_take [of n "[]"] assms by (simp add: query_def)

text \<open>The number of entries without a type is that of the active segment since the process started;
  the latest 0 entries are all; from the thousandth segment on, the order of the names is not the
  order of the segments; a run whose name is taken by the replay itself makes it raise.\<close>

lemma audit_surprises:
  "count_entries now None (rotate l) = 0" "count_entries now None (open_log mx l) = 0"
  "latest now 0 l = iter_all now l"
  by (simp_all add: count_entries_def given_text_def rotate_def open_log_def latest_def py_drop_def)

lemma thousandth_segment: "segment_name 1000 < segment_name 101"
  by code_simp

lemma reserved_slug:
  "dict_get st (PStr ''_degradation'') = Some (Plain v) \<Longrightarrow>
   apply_entry \<lparr>au_ts = t, au_type = ''run.transition'', au_data = [(''slug'', PStr ''_degradation'')], au_trace = tr\<rparr> st = Inl ''TypeError''"
  by (simp add: apply_entry_def field_or_def dict_get_default_def)

end
