(* ===== verification/Alerts.thy ===== *)
theory Alerts
  imports Systems PyString PyValue
begin

text \<open>
  Alerts and their delivery (\<open>engine/alert.py\<close>): deduplication by level and title, one thread
  per channel with a rate limit, payloads, the receiver for Alertmanager and the history. Each
  part that holds the lock is one step; a delivery is a step of its own, and the posts it makes
  are its result. Times are in microseconds. \<open>str\<close>, \<open>str.title\<close> and the hash are arguments, and
  the answers of the services are not looked at by the code.
\<close>

subsection \<open>Alerts\<close>

record Alert =
  at_level :: string
  at_title :: string
  at_message :: string
  at_metrics :: "(string \<times> PyVal) list"
  at_source :: string
  at_timestamp :: string
  at_ident :: string

record alert_env =
  ale_stamp :: "datetime \<Rightarrow> string"
  ale_digest :: "string \<Rightarrow> string"
  ale_str :: "PyVal \<Rightarrow> string"
  ale_caption :: "string \<Rightarrow> string"

definition severity_order :: "(string, int) dict" where
  "severity_order = [(''critical'', 0), (''warning'', 1), (''info'', 2)]"

definition severity_emoji :: "(string, string) dict" where
  "severity_emoji = [(''critical'', [CHR 0xF0, CHR 0x9F, CHR 0x94, CHR 0xB4]), (''warning'', [CHR 0xF0, CHR 0x9F, CHR 0x9F, CHR 0xA1]),
     (''info'', [CHR 0xF0, CHR 0x9F, CHR 0x94, CHR 0xB5])]"

definition valid_level :: "string \<Rightarrow> bool" where
  "valid_level l \<longleftrightarrow> l \<in> {''critical'', ''warning'', ''info''}"

definition new_alert ::
    "alert_env \<Rightarrow> datetime \<Rightarrow> string \<Rightarrow> string \<Rightarrow> string \<Rightarrow> (string \<times> PyVal) list \<Rightarrow> string \<Rightarrow> string + Alert" where
  "new_alert env now l t m ms src =
     (if \<not> valid_level l then Inl ''AssertionError''
      else Inr \<lparr>at_level = l, at_title = t, at_message = m, at_metrics = ms, at_source = src,
        at_timestamp = ale_stamp env now, at_ident = take 12 (ale_digest env (ale_stamp env now @ '':'' @ t))\<rparr>)"

definition emoji :: "Alert \<Rightarrow> string" where
  "emoji a = dict_get_default severity_emoji (at_level a) [CHR 0xE2, CHR 0x9A, CHR 0xAA]"

definition upper :: "string \<Rightarrow> string" where
  "upper s = map (\<lambda>c. if CHR ''a'' \<le> c \<and> c \<le> CHR ''z'' then char_of (of_char c - 32 :: nat) else c) s"

definition to_dict :: "Alert \<Rightarrow> PyVal" where
  "to_dict a = str_dict [(''id'', PStr (at_ident a)), (''level'', PStr (at_level a)), (''title'', PStr (at_title a)),
     (''message'', PStr (at_message a)), (''metrics'', str_dict (at_metrics a)), (''source'', PStr (at_source a)),
     (''timestamp'', PStr (at_timestamp a))]"

definition text_block :: "string \<Rightarrow> string \<Rightarrow> string \<Rightarrow> PyVal" where
  "text_block ty kind t = str_dict [(''type'', PStr ty), (''text'', str_dict [(''type'', PStr kind), (''text'', PStr t)])]"

definition spaces_for_underscores :: "string \<Rightarrow> string" where
  "spaces_for_underscores s = map (\<lambda>c. if c = CHR ''_'' then CHR '' '' else c) s"

definition to_slack_payload :: "alert_env \<Rightarrow> Alert \<Rightarrow> PyVal" where
  "to_slack_payload env a =
     (let color = dict_get_default [(''critical'', ''danger''), (''warning'', ''warning''), (''info'', ''good'')] (at_level a) [];
          fields = map (\<lambda>(k, v). str_dict [(''title'', PStr (ale_caption env (spaces_for_underscores k))),
            (''value'', PStr (ale_str env v)), (''short'', PBool True)]) (at_metrics a);
          body = (if at_message a \<noteq> [] then at_message a
            else ''*Level:* '' @ upper (at_level a) @ [CHR 0x0A] @ ''*Source:* '' @ at_source a @ [CHR 0x0A] @ ''*Time:* '' @ at_timestamp a);
          blocks = [text_block ''header'' ''plain_text'' (emoji a @ '' '' @ at_title a), text_block ''section'' ''mrkdwn'' body]
            @ (if fields \<noteq> [] then [str_dict [(''type'', PStr ''section''), (''fields'', PList fields)]] else [])
            @ [str_dict [(''type'', PStr ''context''), (''elements'', PList [str_dict [(''type'', PStr ''mrkdwn''),
                (''text'', PStr (''ID: `'' @ at_ident a @ ''` '' @ [CHR 0xC2, CHR 0xB7] @ '' Prodinamik Engine Alert''))]])]]
      in str_dict [(''text'', PStr (emoji a @ '' ['' @ upper (at_level a) @ ''] '' @ at_title a)),
           (''attachments'', PList [str_dict [(''color'', PStr color), (''blocks'', PList blocks)]])])"

definition to_telegram_payload :: "alert_env \<Rightarrow> Alert \<Rightarrow> string" where
  "to_telegram_payload env a =
     (let metric_lines = join [CHR 0x0A] (map (\<lambda>(k, v). ''  '' @ [CHR 0xE2, CHR 0x80, CHR 0xA2] @ '' <b>'' @ k @ ''</b>: <code>''
            @ ale_str env v @ ''</code>'') (at_metrics a))
      in join [CHR 0x0A]
        ([emoji a @ '' <b>['' @ upper (at_level a) @ ''] '' @ at_title a @ ''</b>'', [], at_message a, [],
          ''<b>Source:</b> '' @ at_source a, ''<b>Time:</b> '' @ at_timestamp a]
         @ (if metric_lines \<noteq> [] then [[], ''<b>Metrics:</b>'', metric_lines] else [])
         @ [[], ''<code>ID: '' @ at_ident a @ ''</code>'']))"

definition to_alertmanager_payload :: "Alert \<Rightarrow> PyVal" where
  "to_alertmanager_payload a = str_dict
     [(''labels'', str_dict [(''alertname'', PStr (at_title a)), (''severity'', PStr (at_level a)), (''source'', PStr (at_source a))]),
      (''annotations'', str_dict [(''summary'', PStr (at_title a)), (''description'', PStr (at_message a))]),
      (''startsAt'', PStr (at_timestamp a)), (''generatorURL'', PStr [])]"

subsection \<open>The manager\<close>

record AlertManager =
  am_slack :: string
  am_token :: string
  am_chat :: string
  am_generic :: string
  am_min_interval :: int
  am_window :: int
  am_history :: "Alert list"
  am_last_sent :: "(string, datetime) dict"
  am_dedup :: "(string, datetime) dict"
  am_handlers :: "string list"

definition new_manager :: "string \<Rightarrow> string \<Rightarrow> string \<Rightarrow> string \<Rightarrow> AlertManager" where
  "new_manager s t c g = \<lparr>am_slack = s, am_token = t, am_chat = c, am_generic = g, am_min_interval = 60, am_window = 300,
     am_history = [], am_last_sent = [], am_dedup = [], am_handlers = []\<rparr>"

definition enabled_channels :: "AlertManager \<Rightarrow> string list" where
  "enabled_channels m = (if am_slack m \<noteq> [] then [''slack''] else [])
     @ (if am_token m \<noteq> [] \<and> am_chat m \<noteq> [] then [''telegram''] else [])
     @ (if am_generic m \<noteq> [] then [''generic''] else [])"

definition is_configured :: "AlertManager \<Rightarrow> bool" where
  "is_configured m \<longleftrightarrow> length (enabled_channels m) > 0"

definition dedup_key :: "Alert \<Rightarrow> string" where
  "dedup_key a = at_level a @ '':'' @ at_title a"

text \<open>The part of \<open>send_alert\<close> under the lock: whether the alert goes on.\<close>

definition admit :: "datetime \<Rightarrow> Alert \<Rightarrow> AlertManager \<Rightarrow> AlertManager \<times> bool" where
  "admit now a m =
     (let fresh = (m\<lparr>am_dedup := dict_set (dedup_key a) now (am_dedup m), am_history := am_history m @ [a]\<rparr>, True)
      in case dict_get (am_dedup m) (dedup_key a) of
           None \<Rightarrow> fresh
         | Some t \<Rightarrow> if now - t < 1000000 * am_window m then (m, False) else fresh)"

text \<open>What a channel posts: the address and the payload.\<close>

definition payload :: "alert_env \<Rightarrow> string \<Rightarrow> Alert \<Rightarrow> AlertManager \<Rightarrow> (string \<times> PyVal) list" where
  "payload env ch a m =
     (if ch = ''slack'' then (if am_slack m = [] then [] else [(am_slack m, to_slack_payload env a)])
      else if ch = ''telegram'' then
        (if am_token m = [] \<or> am_chat m = [] then []
         else [(''https://api.telegram.org/bot'' @ am_token m @ ''/sendMessage'',
            str_dict [(''chat_id'', PStr (am_chat m)), (''text'', PStr (to_telegram_payload env a)), (''parse_mode'', PStr ''HTML''),
              (''disable_web_page_preview'', PBool True)])])
      else if ch = ''generic'' then (if am_generic m = [] then [] else [(am_generic m, to_dict a)])
      else [])"

definition deliver :: "alert_env \<Rightarrow> datetime \<Rightarrow> string \<Rightarrow> Alert \<Rightarrow> AlertManager \<Rightarrow> AlertManager \<times> (string \<times> PyVal) list" where
  "deliver env now ch a m =
     (if now - dict_get_default (am_last_sent m) ch 0 < 1000000 * am_min_interval m then (m, [])
      else (m\<lparr>am_last_sent := dict_set ch now (am_last_sent m)\<rparr>, payload env ch a m))"

text \<open>The threads of an alert, each run at \<open>now\<close>: the posts with their channel and time.\<close>

fun deliver_all :: "alert_env \<Rightarrow> datetime \<Rightarrow> string list \<Rightarrow> Alert \<Rightarrow> AlertManager \<Rightarrow> AlertManager \<times> (datetime \<times> string) list" where
  "deliver_all env now [] a m = (m, [])"
| "deliver_all env now (c # cs) a m =
     (case deliver env now c a m of (m, ps) \<Rightarrow>
        (case deliver_all env now cs a m of (m, es) \<Rightarrow> (m, map (\<lambda>p. (now, c)) ps @ es)))"

record alert_args =
  aa_level :: string
  aa_title :: string
  aa_message :: string
  aa_metrics :: "(string \<times> PyVal) list"
  aa_source :: string

text \<open>The result is the alert, the posts, and the handlers called.\<close>

definition send_alert ::
    "alert_env \<Rightarrow> datetime \<Rightarrow> alert_args \<Rightarrow> AlertManager
      \<Rightarrow> AlertManager \<times> (string + Alert \<times> (datetime \<times> string) list \<times> string list)" where
  "send_alert env now x m =
     (case new_alert env now (aa_level x) (aa_title x) (aa_message x) (aa_metrics x) (aa_source x) of
        Inl e \<Rightarrow> (m, Inl e)
      | Inr a \<Rightarrow>
          (case admit now a m of
             (m, False) \<Rightarrow> (m, Inr (a, [], []))
           | (m, True) \<Rightarrow>
               (case deliver_all env now (enabled_channels m) a m of (m, ps) \<Rightarrow> (m, Inr (a, ps, am_handlers m)))))"

subsection \<open>The receiver and the queries\<close>

record incoming =
  in_labels :: "(string, string) dict"
  in_annotations :: "(string, string) dict"
  in_status :: "string option"

definition incoming_args :: "incoming \<Rightarrow> alert_args" where
  "incoming_args x = \<lparr>aa_level = dict_get_default (in_labels x) ''severity'' ''info'',
     aa_title = ''[Alertmanager] '' @ dict_get_default (in_annotations x) ''summary''
       (dict_get_default (in_labels x) ''alertname'' ''Unknown''),
     aa_message = dict_get_default (in_annotations x) ''description'' [], aa_metrics = [], aa_source = ''alertmanager''\<rparr>"

text \<open>An exception of \<open>send_alert\<close> leaves the loop.\<close>

fun handle_alertmanager_webhook ::
    "alert_env \<Rightarrow> datetime \<Rightarrow> incoming list \<Rightarrow> AlertManager \<Rightarrow> AlertManager \<times> string option" where
  "handle_alertmanager_webhook env now [] m = (m, None)"
| "handle_alertmanager_webhook env now (x # xs) m =
     (if (case in_status x of None \<Rightarrow> True | Some s \<Rightarrow> s = ''firing'') then
        (case send_alert env now (incoming_args x) m of
           (m, Inl e) \<Rightarrow> (m, Some e)
         | (m, Inr r) \<Rightarrow> handle_alertmanager_webhook env now xs m)
      else handle_alertmanager_webhook env now xs m)"

definition subscribe_handler :: "string \<Rightarrow> AlertManager \<Rightarrow> AlertManager" where
  "subscribe_handler h m = m\<lparr>am_handlers := am_handlers m @ [h]\<rparr>"

fun recent_loop :: "int \<Rightarrow> int \<Rightarrow> Alert list \<Rightarrow> Alert list \<Rightarrow> Alert list" where
  "recent_loop n mo [] rs = rs"
| "recent_loop n mo (a # as) rs =
     (if dict_get_default severity_order (at_level a) 2 \<le> mo then
        (if int (length (rs @ [a])) \<ge> n then rs @ [a] else recent_loop n mo as (rs @ [a]))
      else recent_loop n mo as rs)"

definition recent :: "int \<Rightarrow> string \<Rightarrow> AlertManager \<Rightarrow> Alert list" where
  "recent n l m = recent_loop n (dict_get_default severity_order l 2) (rev (am_history m)) []"

definition level_counts :: "AlertManager \<Rightarrow> (string, int) dict" where
  "level_counts m = fold (\<lambda>a d. dict_set (at_level a) (dict_get_default d (at_level a) 0 + 1) d) (am_history m)
     [(''critical'', 0), (''warning'', 0), (''info'', 0)]"

subsection \<open>How often a channel and a title are used\<close>

definition post_step :: "alert_env \<Rightarrow> datetime \<times> alert_args \<Rightarrow> AlertManager \<Rightarrow> AlertManager \<times> (datetime \<times> string) list" where
  "post_step env x m = (case send_alert env (fst x) (snd x) m of (m, Inl e) \<Rightarrow> (m, []) | (m, Inr (a, ps, hs)) \<Rightarrow> (m, ps))"

definition history_step :: "alert_env \<Rightarrow> datetime \<times> alert_args \<Rightarrow> AlertManager \<Rightarrow> AlertManager \<times> (datetime \<times> string) list" where
  "history_step env x m =
     (case send_alert env (fst x) (snd x) m of
        (m', Inl e) \<Rightarrow> (m', [])
      | (m', Inr (a, ps, hs)) \<Rightarrow> (m', if length (am_history m') > length (am_history m) then [(fst x, dedup_key a)] else []))"

lemma deliver_enabled:
  assumes "c \<in> set (enabled_channels m)"
  shows "\<exists>p. deliver env now c a m =
    (if now - dict_get_default (am_last_sent m) c 0 < 1000000 * am_min_interval m then (m, [])
     else (m\<lparr>am_last_sent := dict_set c now (am_last_sent m)\<rparr>, [p]))"
proof -
  obtain p where "payload env c a m = [p]"
    using assms by (auto simp: enabled_channels_def payload_def split: if_splits)
  then show ?thesis
    by (intro exI [of _ p]) (simp add: deliver_def)
qed

lemma deliver_all_spec:
  assumes "distinct cs" and "set cs \<subseteq> set (enabled_channels m)" and "deliver_all env now cs a m = (m', es)"
  shows "m' = m\<lparr>am_last_sent := am_last_sent m'\<rparr> \<and>
    (\<forall>c. if c \<in> set cs \<and> \<not> now - dict_get_default (am_last_sent m) c 0 < 1000000 * am_min_interval m
      then times_of c es = [now] \<and> dict_get (am_last_sent m') c = Some now
      else times_of c es = [] \<and> dict_get (am_last_sent m') c = dict_get (am_last_sent m) c)"
  using assms
proof (induction cs arbitrary: m es)
  case (Cons c cs)
  obtain p where d: "deliver env now c a m =
      (if now - dict_get_default (am_last_sent m) c 0 < 1000000 * am_min_interval m then (m, [])
       else (m\<lparr>am_last_sent := dict_set c now (am_last_sent m)\<rparr>, [p]))"
    using deliver_enabled [of c m env now a] Cons.prems(2) by auto
  let ?m = "fst (deliver env now c a m)"
  obtain fs where r: "deliver_all env now cs a ?m = (m', fs)" "es = map (\<lambda>p. (now, c)) (snd (deliver env now c a m)) @ fs"
    using Cons.prems(3) by (auto split: prod.splits)
  have "enabled_channels ?m = enabled_channels m" "am_min_interval ?m = am_min_interval m"
    and m: "?m = m\<lparr>am_last_sent := am_last_sent ?m\<rparr>"
    and other: "c' \<noteq> c \<Longrightarrow> dict_get (am_last_sent ?m) c' = dict_get (am_last_sent m) c'" for c'
    by (auto simp: d enabled_channels_def)
  with Cons.IH [OF _ _ r(1)] Cons.prems(1,2) have IH: "m' = ?m\<lparr>am_last_sent := am_last_sent m'\<rparr>"
    "\<And>c. if c \<in> set cs \<and> \<not> now - dict_get_default (am_last_sent ?m) c 0 < 1000000 * am_min_interval m
      then times_of c fs = [now] \<and> dict_get (am_last_sent m') c = Some now
      else times_of c fs = [] \<and> dict_get (am_last_sent m') c = dict_get (am_last_sent ?m) c"
    by simp_all
  have "m' = m\<lparr>am_last_sent := am_last_sent m'\<rparr>"
    using IH(1) m by (metis AlertManager.ext_inject AlertManager.surjective AlertManager.update_convs(8))
  moreover have "if c' \<in> set (c # cs) \<and> \<not> now - dict_get_default (am_last_sent m) c' 0 < 1000000 * am_min_interval m
      then times_of c' es = [now] \<and> dict_get (am_last_sent m') c' = Some now
      else times_of c' es = [] \<and> dict_get (am_last_sent m') c' = dict_get (am_last_sent m) c'" for c'
  proof (cases "c' = c")
    case True
    then have "c' \<notin> set cs" using Cons.prems(1) by simp
    with True IH(2) [of c'] show ?thesis by (auto simp: r(2) d split: if_splits)
  next
    case False
    then show ?thesis
      using IH(2) [of c'] other [OF False] by (auto simp: r(2) d dict_get_default_def split: if_splits)
  qed
  ultimately show ?case by blast
qed simp

lemma enabled_distinct: "distinct (enabled_channels m)"
  by (simp add: enabled_channels_def)

lemma send_alert_cases:
  assumes "send_alert env now x m = (m', r)"
  obtains (invalid) e where "r = Inl e" and "m' = m"
  | (dropped) a t where "r = Inr (a, [], [])" and "m' = m" and "dedup_key a = aa_level x @ '':'' @ aa_title x"
      and "dict_get (am_dedup m) (dedup_key a) = Some t" and "now - t < 1000000 * am_window m"
  | (sent) a ps where "r = Inr (a, ps, am_handlers m)" and "dedup_key a = aa_level x @ '':'' @ aa_title x"
      and "\<And>t. dict_get (am_dedup m) (dedup_key a) = Some t \<Longrightarrow> t + 1000000 * am_window m \<le> now"
      and "m' = m\<lparr>am_dedup := dict_set (dedup_key a) now (am_dedup m), am_history := am_history m @ [a], am_last_sent := am_last_sent m'\<rparr>"
      and "\<And>c. if c \<in> set (enabled_channels m) \<and> \<not> now - dict_get_default (am_last_sent m) c 0 < 1000000 * am_min_interval m
        then times_of c ps = [now] \<and> dict_get (am_last_sent m') c = Some now
        else times_of c ps = [] \<and> dict_get (am_last_sent m') c = dict_get (am_last_sent m) c"
proof (cases "new_alert env now (aa_level x) (aa_title x) (aa_message x) (aa_metrics x) (aa_source x)")
  case (Inl e)
  with assms show ?thesis by (intro invalid [of e]) (simp_all add: send_alert_def)
next
  case (Inr a)
  then have key: "dedup_key a = aa_level x @ '':'' @ aa_title x"
    by (auto simp: new_alert_def dedup_key_def split: if_splits)
  obtain m1 b where ad: "admit now a m = (m1, b)" by fastforce
  show ?thesis
  proof (cases b)
    case False
    with ad have "m1 = m" "\<exists>t. dict_get (am_dedup m) (dedup_key a) = Some t \<and> now - t < 1000000 * am_window m"
      by (auto simp: admit_def Let_def split: option.splits if_splits)
    with assms Inr ad False key show ?thesis by (auto simp: send_alert_def intro: dropped)
  next
    case True
    with ad have m1: "m1 = m\<lparr>am_dedup := dict_set (dedup_key a) now (am_dedup m), am_history := am_history m @ [a]\<rparr>"
      and late: "\<And>t. dict_get (am_dedup m) (dedup_key a) = Some t \<Longrightarrow> t + 1000000 * am_window m \<le> now"
      by (auto simp: admit_def Let_def split: option.splits if_splits)
    obtain ps where d: "deliver_all env now (enabled_channels m1) a m1 = (m', ps)" "r = Inr (a, ps, am_handlers m')"
      using assms Inr ad True by (auto simp: send_alert_def split: prod.splits)
    note spec = deliver_all_spec [OF enabled_distinct subset_refl d(1)]
    then have "am_handlers m' = am_handlers m"
      by (metis AlertManager.select_convs(10) AlertManager.surjective AlertManager.update_convs(7,8,9) m1)
    with spec d(2) key late show ?thesis
      by (intro sent [of a ps]) (auto simp: m1 enabled_channels_def)
  qed
qed

lemma post_step_spec:
  assumes "post_step env x m = (m', es)" and "am_min_interval m = i"
  shows "am_min_interval m' = i \<and>
    (times_of c es = [] \<and> dict_get (am_last_sent m') c = dict_get (am_last_sent m) c \<or>
     times_of c es = [fst x] \<and> dict_get (am_last_sent m') c = Some (fst x) \<and>
       (\<forall>u. dict_get (am_last_sent m) c = Some u \<longrightarrow> u + 1000000 * i \<le> fst x))"
proof -
  obtain r where r: "send_alert env (fst x) (snd x) m = (m', r)" "es = (case r of Inl e \<Rightarrow> [] | Inr (a, ps, hs) \<Rightarrow> ps)"
    using assms(1) by (auto simp: post_step_def split: prod.splits sum.splits)
  show ?thesis
    using r(1)
  proof (cases rule: send_alert_cases)
    case (sent a ps)
    then have "am_min_interval m' = i"
      using assms(2) by (metis AlertManager.select_convs(5) AlertManager.surjective AlertManager.update_convs(7,8,9))
    with sent(5) [of c] r(2) sent(1) assms(2) show ?thesis
      by (auto simp: dict_get_default_def not_less split: if_splits option.splits)
  qed (use r(2) assms(2) in simp_all)
qed

lemma history_step_spec:
  assumes "history_step env x m = (m', es)" and "am_window m = w"
  shows "am_window m' = w \<and>
    (times_of k es = [] \<and> dict_get (am_dedup m') k = dict_get (am_dedup m) k \<or>
     times_of k es = [fst x] \<and> dict_get (am_dedup m') k = Some (fst x) \<and>
       (\<forall>u. dict_get (am_dedup m) k = Some u \<longrightarrow> u + 1000000 * w \<le> fst x))"
proof -
  obtain r where r: "send_alert env (fst x) (snd x) m = (m', r)"
      "es = (case r of Inl e \<Rightarrow> [] | Inr (a, ps, hs) \<Rightarrow> if length (am_history m') > length (am_history m) then [(fst x, dedup_key a)] else [])"
    using assms(1) by (auto simp: history_step_def split: prod.splits sum.splits)
  show ?thesis
    using r(1)
  proof (cases rule: send_alert_cases)
    case (sent a ps)
    then have "am_window m' = w" "am_history m' = am_history m @ [a]"
        "am_dedup m' = dict_set (dedup_key a) (fst x) (am_dedup m)"
      using assms(2) by (metis AlertManager.select_convs(6,7,9) AlertManager.surjective AlertManager.update_convs(7,8,9))+
    with sent(3) r(2) sent(1) assms(2) show ?thesis by auto
  qed (use r(2) assms(2) in simp_all)
qed

interpretation posts: throttled "post_step env" "\<lambda>m. dict_get (am_last_sent m)" "1000000 * i" "\<lambda>m. am_min_interval m = i" for env i
proof unfold_locales
  fix s s' :: AlertManager and op es k t u
  assume a: "am_min_interval s = i" "post_step env op s = (s', es)"
  note spec = post_step_spec [OF a(2,1), of k]
  show "am_min_interval s' = i" "length (times_of k es) \<le> 1"
    using spec by auto
  show "t \<in> set (times_of k es) \<Longrightarrow> dict_get (am_last_sent s) k = Some u \<Longrightarrow> u + 1000000 * i \<le> t"
    "t \<in> set (times_of k es) \<Longrightarrow> dict_get (am_last_sent s') k = Some t"
    "times_of k es = [] \<Longrightarrow> dict_get (am_last_sent s') k = dict_get (am_last_sent s) k"
    using spec by auto
qed

interpretation history: throttled "history_step env" "\<lambda>m. dict_get (am_dedup m)" "1000000 * w" "\<lambda>m. am_window m = w" for env w
proof unfold_locales
  fix s s' :: AlertManager and op es k t u
  assume a: "am_window s = w" "history_step env op s = (s', es)"
  note spec = history_step_spec [OF a(2,1), of k]
  show "am_window s' = w" "length (times_of k es) \<le> 1"
    using spec by auto
  show "t \<in> set (times_of k es) \<Longrightarrow> dict_get (am_dedup s) k = Some u \<Longrightarrow> u + 1000000 * w \<le> t"
    "t \<in> set (times_of k es) \<Longrightarrow> dict_get (am_dedup s') k = Some t"
    "times_of k es = [] \<Longrightarrow> dict_get (am_dedup s') k = dict_get (am_dedup s) k"
    using spec by auto
qed

text \<open>Whatever alerts are sent, two posts on a channel are at least the minimal interval apart, and two
  alerts of the same level and title that go on are at least the window of the deduplication apart.\<close>

theorem alerts_apart:
  "successively (\<lambda>a b. a + 1000000 * am_min_interval m \<le> b) (times_of c (snd (run_events (post_step env) xs m))) \<and>
   successively (\<lambda>a b. a + 1000000 * am_window m \<le> b) (times_of k (snd (run_events (history_step env) xs m)))"
proof -
  have drop: "successively P (xs @ ys) \<Longrightarrow> successively P ys" for P and xs ys :: "int list"
    by (simp add: successively_append_iff)
  show ?thesis
    using posts.events_apart [OF refl, of m c env xs] history.events_apart [OF refl, of m k env xs]
    by (blast intro: drop)
qed

fun send_all :: "alert_env \<Rightarrow> (datetime \<times> alert_args) list \<Rightarrow> AlertManager \<Rightarrow>
    AlertManager \<times> (string + Alert \<times> (datetime \<times> string) list \<times> string list) list" where
  "send_all env [] m = (m, [])"
| "send_all env ((t, y) # xs) m =
     (case send_alert env t y m of (m1, r) \<Rightarrow> case send_all env xs m1 of (m2, rs) \<Rightarrow> (m2, r # rs))"

definition repeats :: "alert_args \<Rightarrow> alert_args \<Rightarrow> bool" where
  "repeats x y \<longleftrightarrow> aa_level y = aa_level x \<and> aa_title y = aa_title x"

lemma key_of_valid:
  "valid_level l \<Longrightarrow> valid_level l' \<Longrightarrow> l @ '':'' @ t = l' @ '':'' @ t' \<Longrightarrow> l = l' \<and> t = t'"
  by (auto simp: valid_level_def)

lemma valid_not_Inl: "send_alert env t y m = (m', Inl e) \<Longrightarrow> \<not> valid_level (aa_level y)"
  by (auto simp: send_alert_def new_alert_def split: prod.splits bool.splits)

text \<open>The entry of an alert survives every other alert and keeps its repetitions out.\<close>

lemma suppressed_until:
  assumes "valid_level (aa_level x)" and "send_all env xs m = (m', rs)"
    and "dict_get (am_dedup m) (aa_level x @ '':'' @ aa_title x) = Some now"
    and "list_all (\<lambda>(t, y). repeats x y \<longrightarrow> t - now < 1000000 * am_window m) xs"
  shows "list_all2 (\<lambda>(t, y) r. repeats x y \<longrightarrow> (\<exists>b. r = Inr (b, [], []))) xs rs"
  using assms(2-4)
proof (induction xs arbitrary: m rs)
  case (Cons z xs)
  obtain t y where z: "z = (t, y)" by (cases z)
  obtain m1 r rs' where s: "send_alert env t y m = (m1, r)" "send_all env xs m1 = (m', rs')" "rs = r # rs'"
    using Cons.prems(1) by (auto simp: z split: prod.splits)
  have soon: "repeats x y \<Longrightarrow> t - now < 1000000 * am_window m" using Cons.prems(3) by (simp add: z)
  have rest: "list_all (\<lambda>(t, y). repeats x y \<longrightarrow> t - now < 1000000 * am_window m) xs" using Cons.prems(3) by simp
  have kept: "(repeats x y \<longrightarrow> (\<exists>b. r = Inr (b, [], []))) \<and> am_window m1 = am_window m \<and>
      dict_get (am_dedup m1) (aa_level x @ '':'' @ aa_title x) = Some now"
    using s(1)
  proof (cases rule: send_alert_cases)
    case (invalid e)
    with s(1) assms(1) valid_not_Inl [of env t y m m1 e] Cons.prems(2) show ?thesis by (auto simp: repeats_def)
  next
    case (dropped a u)
    with Cons.prems(2) show ?thesis by auto
  next
    case (sent a ps)
    have "valid_level (aa_level y)"
      using s(1) sent(1) by (auto simp: send_alert_def new_alert_def split: prod.splits bool.splits if_splits)
    then have "repeats x y" if "dedup_key a = aa_level x @ '':'' @ aa_title x"
      using key_of_valid [OF assms(1)] sent(2) that unfolding repeats_def by metis
    moreover have "\<not> repeats x y"
    proof
      assume "repeats x y"
      with sent(2) sent(3) [of now] Cons.prems(2) soon show False by (simp add: repeats_def)
    qed
    ultimately have "dedup_key a \<noteq> aa_level x @ '':'' @ aa_title x" by blast
    with \<open>\<not> repeats x y\<close> Cons.prems(2) show ?thesis by (subst sent(4), subst sent(4)) simp
  qed
  then show ?case
    using Cons.IH [OF s(2)] rest by (simp add: z s(3))
qed simp

text \<open>C14: The two limits do not fit together: an alert that no deduplication holds back but that the
  rate limit of every channel drops counts as sent for the deduplication. It is posted nowhere, and
  neither is any repetition of it (an alert of the same level and title) within the window, however
  critical it is, whatever other alerts are sent in between or after, and however long the channels
  have been idle by then.\<close>

theorem limited_alert_lost:
  assumes "list_all (\<lambda>c. now - dict_get_default (am_last_sent m) c 0 < 1000000 * am_min_interval m) (enabled_channels m)"
    and "valid_level (aa_level x)"
    and "case dict_get (am_dedup m) (aa_level x @ '':'' @ aa_title x) of
           None \<Rightarrow> True | Some t \<Rightarrow> t + 1000000 * am_window m \<le> now"
    and "send_alert env now x m = (m1, r1)" and "send_all env xs m1 = (m2, rs)"
    and "list_all (\<lambda>(t, y). repeats x y \<longrightarrow> t - now < 1000000 * am_window m) xs"
  shows "(\<exists>a hs. r1 = Inr (a, [], hs)) \<and>
    list_all2 (\<lambda>(t, y) r. repeats x y \<longrightarrow> (\<exists>b. r = Inr (b, [], []))) xs rs"
proof -
  have "(\<exists>a hs. r1 = Inr (a, [], hs)) \<and> am_window m1 = am_window m \<and>
      dict_get (am_dedup m1) (aa_level x @ '':'' @ aa_title x) = Some now"
    using assms(4)
  proof (cases rule: send_alert_cases)
    case (invalid e)
    with assms(2,4) valid_not_Inl show ?thesis by blast
  next
    case (sent a ps)
    have none: "times_of c ps = []" for c
      using sent(5) [of c] assms(1) by (auto simp: list_all_iff split: if_splits)
    have "ps = []"
      using none [of "snd (hd ps)"] by (cases ps) (auto simp: times_of_def)
    with sent(1,2) show ?thesis
      by (subst sent(4), subst sent(4)) simp
  qed (use assms(3) in auto)
  with suppressed_until [OF assms(2,5)] assms(6) show ?thesis by simp
qed

definition demo_alert_env :: alert_env where
  "demo_alert_env = \<lparr>ale_stamp = (\<lambda>t. ''t''), ale_digest = (\<lambda>s. s), ale_str = (\<lambda>v. ''v''), ale_caption = (\<lambda>s. s)\<rparr>"

definition demo_alert :: "string \<Rightarrow> string \<Rightarrow> alert_args" where
  "demo_alert l t = \<lparr>aa_level = l, aa_title = t, aa_message = [], aa_metrics = [], aa_source = ''engine''\<rparr>"

definition demo_manager :: AlertManager where
  "demo_manager = (new_manager ''hook'' [] [] [])\<lparr>am_last_sent := [(''slack'', 100000000)]\<rparr>"

theorem limited_alert_lost_witness:
  "\<exists>m1 m2 a b r hs. send_alert demo_alert_env 101000000 (demo_alert ''critical'' ''disk full'') demo_manager = (m1, Inr (a, [], hs)) \<and>
     send_all demo_alert_env [(200000000, demo_alert ''info'' ''deployed''), (400000000, demo_alert ''critical'' ''disk full'')] m1
       = (m2, [r, Inr (b, [], [])])"
proof -
  let ?x = "demo_alert ''critical'' ''disk full''"
  let ?xs = "[(200000000 :: datetime, demo_alert ''info'' ''deployed''), (400000000, ?x)]"
  obtain m1 r1 where s1: "send_alert demo_alert_env 101000000 ?x demo_manager = (m1, r1)" by fastforce
  obtain m2 rs where s2: "send_all demo_alert_env ?xs m1 = (m2, rs)" by fastforce
  have "(\<exists>a hs. r1 = Inr (a, [], hs)) \<and> list_all2 (\<lambda>(t, y) r. repeats ?x y \<longrightarrow> (\<exists>b. r = Inr (b, [], []))) ?xs rs"
    by (rule limited_alert_lost [OF _ _ _ s1 s2])
      (simp_all add: demo_manager_def new_manager_def enabled_channels_def demo_alert_def valid_level_def dict_get_default_def)
  with s1 s2 show ?thesis by (auto simp: list_all2_Cons1 repeats_def)
qed

text \<open>An incoming alert with a severity outside the three levels stops the receiver: the rest is lost.\<close>

lemma unknown_severity_stops:
  assumes "in_status x = None \<or> in_status x = Some ''firing''" and "\<not> valid_level (dict_get_default (in_labels x) ''severity'' ''info'')"
  shows "handle_alertmanager_webhook env now (x # xs) m = (m, Some ''AssertionError'')"
  using assms by (auto simp: send_alert_def new_alert_def incoming_args_def)

end
