(* ===== verification/LLM_Registry.thy ===== *)
theory LLM_Registry
  imports Systems PyString
begin

text \<open>
  The registry of language model providers (\<open>engine/llm_registry.py\<close>) and the configuration and
  token estimate of \<open>engine/llm_base.py\<close>. A provider is a plugin: its answer to a request and the
  time of the answer are arguments, one per provider, because a request asks each provider at
  most once. The counters of the usage are integers, and an error is the name of its class with its message
  (without the list of the registered identifiers that ends the message of \<open>get_provider\<close>).
\<close>

subsection \<open>Providers and what they answer\<close>

type_synonym llm_error = "string \<times> string"

record LLMProviderConfig =
  lc_api_key :: string
  lc_base_url :: string
  lc_model :: string
  lc_temperature :: rat
  lc_max_tokens :: int
  lc_timeout :: int

definition default_config :: LLMProviderConfig where
  "default_config = \<lparr>lc_api_key = [], lc_base_url = [], lc_model = [], lc_temperature = 7 / 10, lc_max_tokens = 2048, lc_timeout = 60\<rparr>"

text \<open>\<open>len(text)\<close> counts characters, not bytes.\<close>

definition count_tokens :: "string \<Rightarrow> int" where
  "count_tokens s = int (utf8_length s) div 4"

text \<open>The attributes of a provider; \<open>models\<close> may raise.\<close>

record LLMProvider =
  lp_id :: string
  lp_name :: string
  lp_version :: string
  lp_models :: "llm_error + string list"
  lp_default_model :: string

text \<open>The \<open>usage\<close> of an answer may be missing, or be there as \<open>None\<close>.\<close>

datatype usage_field = NoUsage | NullUsage | Usage "(string, int) dict"

record completion =
  cp_content :: string
  cp_model :: string
  cp_usage :: usage_field

record request =
  rq_answer :: "string \<Rightarrow> llm_error + completion"
  rq_time :: "string \<Rightarrow> datetime"

subsection \<open>The registry\<close>

record LLMUsageStats =
  us_prompt :: int
  us_completion :: int
  us_calls :: int
  us_failed :: int
  us_last_call :: "datetime option"
  us_last_error :: "string option"

definition no_usage :: LLMUsageStats where
  "no_usage = \<lparr>us_prompt = 0, us_completion = 0, us_calls = 0, us_failed = 0, us_last_call = None, us_last_error = None\<rparr>"

record LLMRegistry =
  lr_providers :: "(string, LLMProvider) dict"
  lr_default :: "string option"
  lr_usage :: "(string, LLMUsageStats) dict"

definition new_registry :: LLMRegistry where
  "new_registry = \<lparr>lr_providers = [], lr_default = None, lr_usage = []\<rparr>"

definition register_provider :: "LLMProvider \<Rightarrow> bool \<Rightarrow> LLMRegistry \<Rightarrow> LLMRegistry" where
  "register_provider p dflt m =
     m\<lparr>lr_providers := dict_set (lp_id p) p (lr_providers m), lr_usage := dict_set (lp_id p) no_usage (lr_usage m),
       lr_default := (if dflt \<or> lr_default m = None then Some (lp_id p) else lr_default m)\<rparr>"

definition unregister_provider :: "string \<Rightarrow> LLMRegistry \<Rightarrow> LLMRegistry" where
  "unregister_provider i m =
     (let ps = dict_del i (lr_providers m)
      in m\<lparr>lr_providers := ps, lr_usage := dict_del i (lr_usage m),
           lr_default := (if lr_default m = Some i then (case ps of [] \<Rightarrow> None | (k, _) # _ \<Rightarrow> Some k) else lr_default m)\<rparr>)"

text \<open>\<open>provider_id or self._default\<close>: the empty string counts as no identifier.\<close>

definition named :: "string option \<Rightarrow> bool" where
  "named x \<longleftrightarrow> x \<noteq> None \<and> x \<noteq> Some []"

definition get_provider :: "string option \<Rightarrow> LLMRegistry \<Rightarrow> llm_error + LLMProvider" where
  "get_provider x m =
     (let pid = (if named x then x else lr_default m)
      in if \<not> named pid then Inl (''LLMProviderError'', ''No LLM providers registered'')
         else case dict_get (lr_providers m) (the pid) of
           None \<Rightarrow> Inl (''KeyError'', ''LLM provider '' @ [CHR 0x27] @ the pid @ [CHR 0x27] @ '' not found'')
         | Some p \<Rightarrow> Inr p)"

definition set_default :: "string \<Rightarrow> LLMRegistry \<Rightarrow> llm_error + LLMRegistry" where
  "set_default i m =
     (if \<not> dict_has (lr_providers m) i then Inl (''KeyError'', ''Cannot set default: '' @ [CHR 0x27] @ i @ [CHR 0x27] @ '' not registered'')
      else Inr (m\<lparr>lr_default := Some i\<rparr>))"

subsection \<open>Completion\<close>

definition stats_of :: "string \<Rightarrow> LLMRegistry \<Rightarrow> LLMUsageStats" where
  "stats_of i m = dict_get_default (lr_usage m) i no_usage"

text \<open>The call is counted before the tokens are read, which raises for a \<open>usage\<close> that is \<open>None\<close>.\<close>

definition track_success :: "datetime \<Rightarrow> string \<Rightarrow> completion \<Rightarrow> LLMRegistry \<Rightarrow> LLMRegistry \<times> (llm_error + unit)" where
  "track_success now i r m =
     (let s = stats_of i m;
          counted = s\<lparr>us_calls := us_calls s + 1\<rparr>;
          tokens = (\<lambda>d. counted\<lparr>us_prompt := us_prompt s + dict_get_default d ''prompt_tokens'' 0,
            us_completion := us_completion s + dict_get_default d ''completion_tokens'' 0, us_last_call := Some now\<rparr>)
      in case cp_usage r of
           NullUsage \<Rightarrow> (m\<lparr>lr_usage := dict_set i counted (lr_usage m)\<rparr>,
             Inl (''AttributeError'', [CHR 0x27] @ ''NoneType'' @ [CHR 0x27] @ '' object has no attribute '' @ [CHR 0x27] @ ''get'' @ [CHR 0x27]))
         | NoUsage \<Rightarrow> (m\<lparr>lr_usage := dict_set i (tokens []) (lr_usage m)\<rparr>, Inr ())
         | Usage d \<Rightarrow> (m\<lparr>lr_usage := dict_set i (tokens d) (lr_usage m)\<rparr>, Inr ()))"

definition track_failure :: "datetime \<Rightarrow> string \<Rightarrow> string \<Rightarrow> LLMRegistry \<Rightarrow> LLMRegistry" where
  "track_failure now i e m =
     m\<lparr>lr_usage := dict_set i ((stats_of i m)\<lparr>us_failed := us_failed (stats_of i m) + 1, us_last_error := Some e,
        us_last_call := Some now\<rparr>) (lr_usage m)\<rparr>"

text \<open>The \<open>try\<close> block of the loop: the provider is asked and its success is tracked.\<close>

definition ask_provider :: "request \<Rightarrow> string \<Rightarrow> LLMRegistry \<Rightarrow> LLMRegistry \<times> (llm_error + completion)" where
  "ask_provider q i m =
     (case rq_answer q i of
        Inl e \<Rightarrow> (m, Inl e)
      | Inr r \<Rightarrow> (case track_success (rq_time q i) i r m of (m, Inl e) \<Rightarrow> (m, Inl e) | (m, Inr _) \<Rightarrow> (m, Inr r)))"

fun try_providers :: "request \<Rightarrow> bool \<Rightarrow> string list \<Rightarrow> string list \<Rightarrow> LLMRegistry \<Rightarrow> LLMRegistry \<times> (llm_error + completion)" where
  "try_providers q fb [] errors m =
     (m, Inl (''LLMProviderError'', ''All LLM providers failed: '' @ join ''; '' errors))"
| "try_providers q fb (i # is) errors m =
     (if \<not> dict_has (lr_providers m) i then try_providers q fb is errors m
      else case ask_provider q i m of
          (m, Inr r) \<Rightarrow> (m, Inr r)
        | (m, Inl e) \<Rightarrow>
            (let m = track_failure (rq_time q i) i (snd e) m
             in if \<not> fb then (m, Inl e) else try_providers q fb is (errors @ [i @ '': '' @ snd e]) m))"

definition complete :: "request \<Rightarrow> string option \<Rightarrow> bool \<Rightarrow> LLMRegistry \<Rightarrow> LLMRegistry \<times> (llm_error + completion)" where
  "complete q x fb m =
     try_providers q fb (if named x then [the x] else dict_keys (lr_providers m)) [] m"

subsection \<open>Health and statistics\<close>

datatype provider_health = HealthOk "string list" string | HealthError string

definition health :: "LLMRegistry \<Rightarrow> (string, provider_health) dict" where
  "health m = map (\<lambda>(i, p). (i, case lp_models p of
     Inl e \<Rightarrow> HealthError (snd e) | Inr ms \<Rightarrow> HealthOk (take 3 ms) (lp_default_model p))) (lr_providers m)"

definition usage_stats :: "string option \<Rightarrow> LLMRegistry \<Rightarrow> (string, LLMUsageStats) dict" where
  "usage_stats x m =
     (if named x then (case dict_get (lr_usage m) (the x) of None \<Rightarrow> [] | Some s \<Rightarrow> [(the x, s)])
      else lr_usage m)"

record provider_row =
  pr_id :: string
  pr_name :: string
  pr_version :: string
  pr_default :: bool
  pr_models :: "string list"
  pr_default_model :: string

definition list_providers :: "LLMRegistry \<Rightarrow> llm_error + provider_row list" where
  "list_providers m = try_map (\<lambda>(i, p). try_bind (lp_models p) (\<lambda>ms. Inr
     \<lparr>pr_id = i, pr_name = lp_name p, pr_version = lp_version p, pr_default = (lr_default m = Some i),
      pr_models = take 5 ms, pr_default_model = lp_default_model p\<rparr>)) (lr_providers m)"

definition has_provider :: "LLMRegistry \<Rightarrow> bool" where
  "has_provider m \<longleftrightarrow> length (lr_providers m) > 0"

text \<open>The singleton: the registry that the class remembers, if any.\<close>

definition get_instance :: "LLMRegistry option \<Rightarrow> LLMRegistry option \<times> LLMRegistry" where
  "get_instance c = (let m = (case c of None \<Rightarrow> new_registry | Some m \<Rightarrow> m) in (Some m, m))"

definition reset_instance :: "LLMRegistry option \<Rightarrow> LLMRegistry option" where
  "reset_instance c = None"

subsection \<open>The registered providers, the default and the counters agree\<close>

datatype llm_op = Register LLMProvider bool | Unregister string | SetDefault string | Complete request "string option" bool

fun llm_step :: "llm_op \<Rightarrow> LLMRegistry \<Rightarrow> LLMRegistry" where
  "llm_step (Register p d) m = register_provider p d m"
| "llm_step (Unregister i) m = unregister_provider i m"
| "llm_step (SetDefault i) m = (case set_default i m of Inl e \<Rightarrow> m | Inr m' \<Rightarrow> m')"
| "llm_step (Complete q x fb) m = fst (complete q x fb m)"

text \<open>
  Every provider has counters and only they do; there is a default exactly when there is a
  provider, and it is registered.
\<close>

definition llm_wf :: "LLMRegistry \<Rightarrow> bool" where
  "llm_wf m \<longleftrightarrow> dict_wf (lr_providers m) \<and> dict_has (lr_usage m) = dict_has (lr_providers m) \<and>
     (case lr_default m of None \<Rightarrow> lr_providers m = [] | Some i \<Rightarrow> dict_has (lr_providers m) i)"

text \<open>What a call changes: only counters.\<close>

definition same_but_usage :: "LLMRegistry \<Rightarrow> LLMRegistry \<Rightarrow> bool" where
  "same_but_usage m m' \<longleftrightarrow> m' = m\<lparr>lr_usage := lr_usage m'\<rparr> \<and> (\<forall>i. dict_has (lr_usage m') i \<longrightarrow> dict_has (lr_usage m) i \<or> dict_has (lr_providers m) i)
     \<and> (\<forall>i. dict_has (lr_usage m) i \<longrightarrow> dict_has (lr_usage m') i)"

lemma same_but_usage_refl: "same_but_usage m m"
  by (simp add: same_but_usage_def)

lemma same_but_usage_trans:
  assumes "same_but_usage m m'" and "same_but_usage m' m''"
  shows "same_but_usage m m''"
proof -
  have "m'' = m\<lparr>lr_usage := lr_usage m''\<rparr>"
    using assms by (metis LLMRegistry.ext_inject LLMRegistry.surjective LLMRegistry.update_convs(3) same_but_usage_def)
  moreover have "lr_providers m' = lr_providers m"
    using assms(1) by (metis LLMRegistry.select_convs(1) LLMRegistry.surjective LLMRegistry.update_convs(3) same_but_usage_def)
  ultimately show ?thesis
    using assms unfolding same_but_usage_def by metis
qed

lemma track_same:
  assumes "dict_has (lr_providers m) i"
  shows "same_but_usage m (fst (track_success now i r m))" and "same_but_usage m (track_failure now i e m)"
  using assms by (auto simp: same_but_usage_def track_success_def track_failure_def Let_def split: usage_field.splits)

lemma ask_same: "dict_has (lr_providers m) i \<Longrightarrow> same_but_usage m (fst (ask_provider q i m))"
  using track_same(1) [of m i "rq_time q i"]
  by (auto simp: ask_provider_def same_but_usage_refl split: sum.splits prod.splits) (metis fst_conv)+

lemma providers_same: "same_but_usage m m' \<Longrightarrow> lr_providers m' = lr_providers m"
  by (metis LLMRegistry.select_convs(1) LLMRegistry.surjective LLMRegistry.update_convs(3) same_but_usage_def)

lemma try_same: "same_but_usage m (fst (try_providers q fb is errors m))"
proof (induction "is" arbitrary: errors m)
  case (Cons i "is")
  show ?case
  proof (cases "dict_has (lr_providers m) i")
    case True
    obtain m1 r where a: "ask_provider q i m = (m1, r)" by fastforce
    with ask_same [OF True, of q] have s: "same_but_usage m m1" by simp
    then have f: "same_but_usage m (track_failure t i e m1)" for t e
      using True by (intro same_but_usage_trans [OF s] track_same(2)) (simp add: providers_same)
    have g: "same_but_usage m (fst (try_providers q fb is es (track_failure t i e m1)))" for t e es
      by (rule same_but_usage_trans [OF f Cons.IH])
    show ?thesis
    proof (cases r)
      case (Inl e)
      with True a have "fst (try_providers q fb (i # is) errors m) =
          (if \<not> fb then track_failure (rq_time q i) i (snd e) m1
           else fst (try_providers q fb is (errors @ [i @ '': '' @ snd e]) (track_failure (rq_time q i) i (snd e) m1)))"
        by (simp add: Let_def)
      then show ?thesis using f g by presburger
    qed (use True a s in simp)
  qed (simp add: Cons.IH)
qed (simp add: same_but_usage_refl)

lemma llm_wf_same: "same_but_usage m m' \<Longrightarrow> llm_wf m \<Longrightarrow> llm_wf m'"
proof -
  assume s: "same_but_usage m m'" and wf: "llm_wf m"
  then have "lr_default m' = lr_default m"
    by (metis LLMRegistry.select_convs(2) LLMRegistry.surjective LLMRegistry.update_convs(3) same_but_usage_def)
  moreover have "dict_has (lr_usage m') = dict_has (lr_usage m)"
    using s wf by (intro ext) (auto simp only: same_but_usage_def llm_wf_def)
  ultimately show "llm_wf m'"
    using wf by (cases "lr_default m") (simp_all add: llm_wf_def providers_same [OF s])
qed

lemma dict_del_head: "dict_del i d = (a, b) # xs \<Longrightarrow> dict_has d a \<and> a \<noteq> i"
  using dict_has_del [of i d a] by (simp add: dict_has_def)

lemma llm_step_wf: "llm_wf m \<Longrightarrow> llm_wf (llm_step op m)"
proof (induction op m rule: llm_step.induct)
  case (1 p d m)
  then show ?case by (auto simp: llm_wf_def register_provider_def fun_eq_iff split: option.splits)
next
  case (2 i m)
  then show ?case
    by (auto simp: llm_wf_def unregister_provider_def Let_def fun_eq_iff dest: dict_del_head split: option.splits list.splits)
next
  case (3 i m)
  then show ?case
    by (cases "dict_has (lr_providers m) i") (simp_all add: llm_wf_def set_default_def)
next
  case (4 q x fb m)
  then show ?case
    unfolding llm_step.simps complete_def by (rule llm_wf_same [OF try_same])
qed

interpretation llm: invariant_system llm_step llm_wf
  by unfold_locales (rule llm_step_wf)

text \<open>Whatever is registered, removed, made the default or asked: exactly the registered providers have
  counters, and the default is a registered provider whenever there is one.\<close>

theorem default_always_registered:
  "llm_wf (fold llm_step ops new_registry)"
  by (rule llm.inv_run) (simp add: llm_wf_def new_registry_def dict_has_def fun_eq_iff)

subsection \<open>Which provider answers\<close>

text \<open>Whether a request to a provider ends with an answer, and the counters when it does not.\<close>

definition answers :: "request \<Rightarrow> string \<Rightarrow> bool" where
  "answers q i \<longleftrightarrow> (case rq_answer q i of Inl e \<Rightarrow> False | Inr r \<Rightarrow> cp_usage r \<noteq> NullUsage)"

definition failed_ask :: "request \<Rightarrow> string \<Rightarrow> LLMRegistry \<Rightarrow> LLMRegistry" where
  "failed_ask q i m =
     (case ask_provider q i m of (m', Inl e) \<Rightarrow> track_failure (rq_time q i) i (snd e) m' | (m', Inr r) \<Rightarrow> m')"

definition failure_of :: "request \<Rightarrow> string \<Rightarrow> string" where
  "failure_of q i = (case snd (ask_provider q i new_registry) of Inl e \<Rightarrow> i @ '': '' @ snd e | Inr r \<Rightarrow> [])"

lemma ask_result:
  "snd (ask_provider q i m) = snd (ask_provider q i m')"
  by (auto simp: ask_provider_def track_success_def Let_def split: sum.splits usage_field.splits)

lemma ask_answers: "(\<exists>r. snd (ask_provider q i m) = Inr r \<and> rq_answer q i = Inr r) \<longleftrightarrow> answers q i"
  by (auto simp: ask_provider_def answers_def track_success_def Let_def split: sum.splits usage_field.splits)

lemma ask_fails: "\<not> answers q i \<Longrightarrow> \<exists>e. snd (ask_provider q i m) = Inl e"
  by (auto simp: ask_provider_def answers_def track_success_def Let_def split: sum.splits usage_field.splits)

lemma failed_ask_providers: "dict_has (lr_providers m) i \<Longrightarrow> lr_providers (failed_ask q i m) = lr_providers m"
proof -
  assume i: "dict_has (lr_providers m) i"
  obtain m' r where a: "ask_provider q i m = (m', r)" by fastforce
  then have "lr_providers m' = lr_providers m"
    using ask_same [OF i, of q] by (simp add: providers_same)
  with a show ?thesis by (cases r) (simp_all add: failed_ask_def track_failure_def)
qed

lemma try_providers_spec:
  assumes "list_all (dict_has (lr_providers m)) is"
  shows "try_providers q True is errors m =
    (let bad = takeWhile (\<lambda>i. \<not> answers q i) is; m' = fold (failed_ask q) bad m
     in case dropWhile (\<lambda>i. \<not> answers q i) is of
          [] \<Rightarrow> (m', Inl (''LLMProviderError'', ''All LLM providers failed: '' @ join ''; '' (errors @ map (failure_of q) bad)))
        | i # _ \<Rightarrow> ask_provider q i m')"
  using assms
proof (induction "is" arbitrary: errors m)
  case (Cons i "is")
  then have i: "dict_has (lr_providers m) i" by simp
  obtain m1 r where a: "ask_provider q i m = (m1, r)" by fastforce
  show ?case
  proof (cases r)
    case (Inr c)
    then have "answers q i"
      using a by (auto simp: ask_answers [symmetric, of q i m] ask_provider_def split: sum.splits prod.splits)
    with i a Inr show ?thesis by simp
  next
    case (Inl e)
    then have no: "\<not> answers q i"
      using ask_answers [of q i m] a by auto
    have m: "failed_ask q i m = track_failure (rq_time q i) i (snd e) m1"
      using a Inl by (simp add: failed_ask_def)
    have e: "failure_of q i = i @ '': '' @ snd e"
      using ask_result [of q i new_registry m] a Inl by (simp add: failure_of_def)
    have "list_all (dict_has (lr_providers (failed_ask q i m))) is"
      using Cons.prems i by (simp add: failed_ask_providers)
    note IH = Cons.IH [OF this, of "errors @ [failure_of q i]"]
    show ?thesis
      using i a Inl no IH
      by (cases "dropWhile (\<lambda>i. \<not> answers q i) is") (simp_all add: Let_def e m del: dropWhile_eq_Nil_conv)
  qed
qed simp

text \<open>C18: With the fallback on, a request that names no provider asks the registered providers in the order in which
they were registered, up to the first that answers, whose answer is the result; the error of every
provider before it is counted, and when none answers the error names all of them in order. A provider answers
when it returns a result whose usage is not None (the bookkeeping of one with usage None raises, and counts as
a failure of the provider). The default provider plays no part, although the documentation of the method says
that it is used when none is named.\<close>

theorem first_answer_wins:
  "complete q None True m =
    (let ids = dict_keys (lr_providers m); bad = takeWhile (\<lambda>i. \<not> answers q i) ids; m' = fold (failed_ask q) bad m
     in case dropWhile (\<lambda>i. \<not> answers q i) ids of
          [] \<Rightarrow> (m', Inl (''LLMProviderError'', ''All LLM providers failed: '' @ join ''; '' (map (failure_of q) bad)))
        | i # _ \<Rightarrow> ask_provider q i m')"
proof -
  have "list_all (dict_has (lr_providers m)) (dict_keys (lr_providers m))"
    by (auto simp: list_all_iff dict_has_iff)
  note spec = try_providers_spec [OF this, of q "[]"]
  show ?thesis
    unfolding complete_def named_def using spec by (simp only: Let_def simp_thms if_False append_Nil)
qed

text \<open>The default makes no difference to a request, named or not.\<close>

lemma stats_default: "stats_of i (m\<lparr>lr_default := d\<rparr>) = stats_of i m"
  by (simp add: stats_of_def)

lemma ask_default:
  "ask_provider q i (m\<lparr>lr_default := d\<rparr>) = apfst (lr_default_update (\<lambda>_. d)) (ask_provider q i m)"
  by (auto simp: ask_provider_def track_success_def stats_default Let_def split: sum.splits usage_field.splits)

lemma try_default:
  "try_providers q fb is errors (m\<lparr>lr_default := d\<rparr>) = apfst (lr_default_update (\<lambda>_. d)) (try_providers q fb is errors m)"
proof (induction "is" arbitrary: errors m)
  case (Cons i "is")
  obtain m1 r where a: "ask_provider q i m = (m1, r)" by fastforce
  have f: "track_failure t i e (m1\<lparr>lr_default := d\<rparr>) = (track_failure t i e m1)\<lparr>lr_default := d\<rparr>" for t e
    by (simp add: track_failure_def stats_default)
  show ?case
    using Cons.IH by (cases r; cases fb) (simp_all add: ask_default a Let_def f)
qed simp

lemma default_ignored:
  "complete q x fb (m\<lparr>lr_default := d\<rparr>) = apfst (lr_default_update (\<lambda>_. d)) (complete q x fb m)"
  by (simp add: complete_def try_default)

text \<open>An answer whose \<open>usage\<close> is \<open>None\<close> is lost: the provider has answered and its call is counted, and it
  is counted as failed as well.\<close>

lemma null_usage_lost:
  assumes "rq_answer q i = Inr r" and "cp_usage r = NullUsage" and "dict_has (lr_providers m) i" and "i \<noteq> []"
  shows "\<exists>m' e. complete q (Some i) fb m = (m', Inl e) \<and>
    us_calls (stats_of i m') = us_calls (stats_of i m) + 1 \<and> us_failed (stats_of i m') = us_failed (stats_of i m) + 1"
  using assms
  by (simp add: complete_def named_def ask_provider_def track_success_def track_failure_def Let_def stats_of_def dict_get_default_def)

end
