(* ===== verification/Elector.thy ===== *)
theory Elector
  imports Systems PyValue
begin

text \<open>
  Leader election over an external key-value store (\<open>engine/elector.py\<close>). The store is not part of
  the program: it is a parameter, a function from a request to its next state and a response, of which
  theorems assume what etcd and Consul document. JSON, the time stamp in the value and the
  HTTP client are not modelled; the value of the key is the identifier of the node. A pass of the refresh
  thread is one operation.
\<close>

subsection \<open>The store\<close>

text \<open>
  The requests the elector makes. A response is the decoded body, an \<open>OSError\<close> (which the errors of
  \<open>urllib\<close> are), or a body that is not JSON.
\<close>

datatype kv_request =
    EtcdPut string string
  | EtcdKeepAlive string
  | EtcdDeleteLease string
  | EtcdVersion
  | ConsulCas0 string string
  | ConsulDelete string
  | ConsulStatus

datatype kv_response = Body PyVal | OSError | NotJson

type_synonym 's kv_store = "kv_request \<Rightarrow> 's \<Rightarrow> 's \<times> kv_response"

subsection \<open>The elector\<close>

datatype backend = Etcd | Consul

record Elector =
  el_backend :: backend
  el_key :: string
  el_node :: string
  el_ttl :: int
  el_am_leader :: bool
  el_leader_id :: "string option"
  el_running :: bool
  el_lease :: "string option"

text \<open>The constructor asserts that it knows the backend.\<close>

definition new_elector :: "string \<Rightarrow> string \<Rightarrow> string \<Rightarrow> int \<Rightarrow> string + Elector" where
  "new_elector b k n ttl =
     (let new = (\<lambda>b. Inr \<lparr>el_backend = b, el_key = k, el_node = n, el_ttl = ttl, el_am_leader = False, el_leader_id = None,
        el_running = False, el_lease = None\<rparr>)
      in if b = ''etcd'' then new Etcd else if b = ''consul'' then new Consul else Inl ''AssertionError'')"

definition lead :: "Elector \<Rightarrow> Elector" where
  "lead e = e\<lparr>el_am_leader := True, el_leader_id := Some (el_node e)\<rparr>"

text \<open>The second component is \<^const>\<open>False\<close> when the exception of a body that is not JSON leaves the method.\<close>

definition etcd_campaign :: "'s kv_store \<Rightarrow> Elector \<Rightarrow> 's \<Rightarrow> Elector \<times> bool \<times> 's" where
  "etcd_campaign kv e s =
     (case kv (EtcdPut (el_key e) (el_node e)) s of
        (s, Body v) \<Rightarrow> (lead e, True, s)
      | (s, OSError) \<Rightarrow> (e\<lparr>el_am_leader := False\<rparr>, True, s)
      | (s, NotJson) \<Rightarrow> (e, False, s))"

definition consul_campaign :: "'s kv_store \<Rightarrow> Elector \<Rightarrow> 's \<Rightarrow> Elector \<times> bool \<times> 's" where
  "consul_campaign kv e s =
     (case kv (ConsulCas0 (el_key e) (el_node e)) s of
        (s, Body v) \<Rightarrow> (if v = PBool True then lead e else e, True, s)
      | (s, OSError) \<Rightarrow> (e\<lparr>el_am_leader := False\<rparr>, True, s)
      | (s, NotJson) \<Rightarrow> (e, False, s))"

definition start_refresh_loop :: "Elector \<Rightarrow> Elector" where
  "start_refresh_loop e = e\<lparr>el_running := True\<rparr>"

text \<open>The result is \<^const>\<open>None\<close> when an exception leaves the method.\<close>

definition campaign :: "'s kv_store \<Rightarrow> Elector \<Rightarrow> 's \<Rightarrow> Elector \<times> bool option \<times> 's" where
  "campaign kv e s =
     (if el_am_leader e then (e, Some True, s)
      else case (case el_backend e of Etcd \<Rightarrow> etcd_campaign kv e s | Consul \<Rightarrow> consul_campaign kv e s) of
          (e, False, s) \<Rightarrow> (e, None, s)
        | (e, True, s) \<Rightarrow> (if el_am_leader e then start_refresh_loop e else e, Some (el_am_leader e), s))"

text \<open>The errors of the request are swallowed, and its body is not read.\<close>

definition resign :: "'s kv_store \<Rightarrow> Elector \<Rightarrow> 's \<Rightarrow> Elector \<times> 's" where
  "resign kv e s =
     (e\<lparr>el_running := False, el_am_leader := False\<rparr>,
      case el_backend e of
        Etcd \<Rightarrow> (case el_lease e of None \<Rightarrow> s | Some l \<Rightarrow> if l = [] then s else fst (kv (EtcdDeleteLease l) s))
      | Consul \<Rightarrow> fst (kv (ConsulDelete (el_key e)) s))"

definition etcd_refresh :: "'s kv_store \<Rightarrow> Elector \<Rightarrow> 's \<Rightarrow> 's \<times> kv_response" where
  "etcd_refresh kv e s =
     (case el_lease e of
        None \<Rightarrow> (s, Body PNone)
      | Some l \<Rightarrow> if l = [] then (s, Body PNone) else kv (EtcdKeepAlive l) s)"

definition consul_refresh :: "'s kv_store \<Rightarrow> Elector \<Rightarrow> 's \<Rightarrow> Elector \<times> bool \<times> 's" where
  "consul_refresh kv e s = consul_campaign kv e s"

text \<open>
  One pass of the loop of the refresh thread; the flag says whether the thread goes on. An exception ends the
  thread and leaves the flags as they are.
\<close>

definition refresh_pass :: "'s kv_store \<Rightarrow> Elector \<Rightarrow> 's \<Rightarrow> Elector \<times> bool \<times> 's" where
  "refresh_pass kv e s =
     (if \<not> (el_running e \<and> el_am_leader e) then (e, False, s)
      else case el_backend e of
          Etcd \<Rightarrow> (case etcd_refresh kv e s of
              (s, Body v) \<Rightarrow> (e, True, s)
            | (s, OSError) \<Rightarrow> (e\<lparr>el_am_leader := False\<rparr>, False, s)
            | (s, NotJson) \<Rightarrow> (e, False, s))
        | Consul \<Rightarrow> consul_refresh kv e s)"

text \<open>The body of these requests is read as text.\<close>

definition is_connected :: "'s kv_store \<Rightarrow> Elector \<Rightarrow> 's \<Rightarrow> bool" where
  "is_connected kv e s =
     (snd (kv (case el_backend e of Etcd \<Rightarrow> EtcdVersion | Consul \<Rightarrow> ConsulStatus) s) \<noteq> OSError)"

subsection \<open>What the stores document\<close>

text \<open>
  Consul: a write with \<open>cas=0\<close> answers \<open>true\<close> only when it has created the key, and no write takes a key
  away. etcd: a put whose response arrives has been done, whether or not the key was there.
\<close>

definition consul_laws :: "'s kv_store \<Rightarrow> ('s \<Rightarrow> string \<Rightarrow> bool) \<Rightarrow> bool" where
  "consul_laws kv present \<longleftrightarrow>
     (\<forall>k v s s'. kv (ConsulCas0 k v) s = (s', Body (PBool True)) \<longrightarrow> \<not> present s k \<and> present s' k) \<and>
     (\<forall>k v s. present s k \<longrightarrow> present (fst (kv (ConsulCas0 k v) s)) k)"

definition etcd_laws :: "'s kv_store \<Rightarrow> ('s \<Rightarrow> bool) \<Rightarrow> bool" where
  "etcd_laws kv up \<longleftrightarrow>
     (\<forall>k v s. up s \<longrightarrow> (\<exists>s' b. kv (EtcdPut k v) s = (s', Body b) \<and> up s'))"

subsection \<open>A cluster of electors\<close>

type_synonym 's cluster = "(string \<Rightarrow> Elector) \<times> 's"

datatype cluster_op = Campaign string | Refresh string | Resign string | Crash string

text \<open>A node that crashes starts again with a new elector for the same key.\<close>

definition restarted :: "Elector \<Rightarrow> Elector" where
  "restarted e = e\<lparr>el_am_leader := False, el_leader_id := None, el_running := False, el_lease := None\<rparr>"

fun cluster_step :: "'s kv_store \<Rightarrow> cluster_op \<Rightarrow> 's cluster \<Rightarrow> 's cluster" where
  "cluster_step kv (Campaign n) (es, s) = (case campaign kv (es n) s of (e, _, s) \<Rightarrow> (es(n := e), s))"
| "cluster_step kv (Refresh n) (es, s) = (case refresh_pass kv (es n) s of (e, _, s) \<Rightarrow> (es(n := e), s))"
| "cluster_step kv (Resign n) (es, s) = (case resign kv (es n) s of (e, s) \<Rightarrow> (es(n := e), s))"
| "cluster_step kv (Crash n) (es, s) = (es(n := restarted (es n)), s)"

text \<open>Runs in which only a leader resigns.\<close>

inductive elects :: "'s kv_store \<Rightarrow> 's cluster \<Rightarrow> 's cluster \<Rightarrow> bool" for kv where
  elects_refl: "elects kv c c"
| elects_step: "elects kv c (es, s) \<Longrightarrow> (case op of Resign n \<Rightarrow> el_am_leader (es n) | _ \<Rightarrow> True)
    \<Longrightarrow> elects kv c (cluster_step kv op (es, s))"

definition leaders :: "'s cluster \<Rightarrow> string set" where
  "leaders c = {n. el_am_leader (fst c n)}"

text \<open>Electors of one Consul key: a leader's key is there, and there is at most one leader.\<close>

definition single_leader :: "('s \<Rightarrow> string \<Rightarrow> bool) \<Rightarrow> string \<Rightarrow> 's cluster \<Rightarrow> bool" where
  "single_leader present k c \<longleftrightarrow>
     (\<forall>n. el_backend (fst c n) = Consul \<and> el_key (fst c n) = k) \<and>
     (\<forall>n. el_am_leader (fst c n) \<longrightarrow> present (snd c) k \<and> (\<forall>m. el_am_leader (fst c m) \<longrightarrow> m = n))"

lemma consul_campaign_cases:
  assumes "consul_laws kv present" and "consul_campaign kv e s = (e', ok, s')"
  obtains (won) "e' = lead e" and "\<not> present s (el_key e)" and "present s' (el_key e)"
  | (lost) "e' = e \<or> e' = e\<lparr>el_am_leader := False\<rparr>" and "present s (el_key e) \<Longrightarrow> present s' (el_key e)"
proof -
  obtain s1 r where r: "kv (ConsulCas0 (el_key e) (el_node e)) s = (s1, r)" by fastforce
  then have s: "s1 = s'"
    using assms(2) by (auto simp: consul_campaign_def split: kv_response.splits)
  have keep: "present s (el_key e) \<Longrightarrow> present s' (el_key e)"
    using assms(1) r s unfolding consul_laws_def by (metis fst_conv)
  show ?thesis
  proof (cases "r = Body (PBool True)")
    case True
    with r assms(1) s have "\<not> present s (el_key e)" "present s' (el_key e)"
      unfolding consul_laws_def by blast+
    with True r assms(2) show ?thesis by (intro won) (simp_all add: consul_campaign_def)
  next
    case False
    with r assms(2) have "e' = e \<or> e' = e\<lparr>el_am_leader := False\<rparr>"
      by (auto simp: consul_campaign_def split: kv_response.splits if_splits)
    then show ?thesis using keep by (rule lost)
  qed
qed

lemma campaign_cases:
  assumes "consul_laws kv present" and "el_backend e = Consul" and "campaign kv e s = (e', r, s')"
  obtains (won) "el_am_leader e'" and "\<not> present s (el_key e)" and "present s' (el_key e)"
      and "el_backend e' = Consul" and "el_key e' = el_key e"
  | (lost) "el_am_leader e' \<Longrightarrow> el_am_leader e" and "present s (el_key e) \<Longrightarrow> present s' (el_key e)"
      and "el_backend e' = Consul" and "el_key e' = el_key e"
proof (cases "el_am_leader e")
  case True
  with assms(3) have "e' = e" "s' = s" by (simp_all add: campaign_def)
  with assms(2) True show ?thesis by (intro lost) simp_all
next
  case False
  obtain e1 ok s1 where c: "consul_campaign kv e s = (e1, ok, s1)" by (cases "consul_campaign kv e s")
  then have e': "s' = s1" "el_am_leader e' = el_am_leader e1" "el_backend e' = el_backend e1" "el_key e' = el_key e1"
    using assms(2,3) False by (auto simp: campaign_def start_refresh_loop_def split: bool.splits if_splits)
  show ?thesis
    using assms(1) c
  proof (cases rule: consul_campaign_cases)
    case won
    with e' assms(2) show ?thesis by (intro that(1)) (simp_all add: lead_def)
  next
    case lost
    with e' assms(2) show ?thesis by (intro that(2)) auto
  qed
qed

lemma single_leader_step:
  assumes laws: "consul_laws kv present" and inv: "single_leader present k (es, s)"
    and ok: "case op of Resign n \<Rightarrow> el_am_leader (es n) | _ \<Rightarrow> True"
  shows "single_leader present k (cluster_step kv op (es, s))"
proof (cases op)
  case (Campaign n)
  obtain e' r s' where c: "campaign kv (es n) s = (e', r, s')" by (cases "campaign kv (es n) s")
  have n: "el_backend (es n) = Consul" "el_key (es n) = k" using inv by (auto simp: single_leader_def)
  show ?thesis
    using laws n(1) c
  proof (cases rule: campaign_cases)
    case won
    with inv n c Campaign show ?thesis by (auto simp: single_leader_def)
  next
    case lost
    with inv n c Campaign show ?thesis by (auto simp: single_leader_def)
  qed
next
  case (Refresh n)
  have n: "el_backend (es n) = Consul" "el_key (es n) = k" using inv by (auto simp: single_leader_def)
  obtain e' r s' where c: "refresh_pass kv (es n) s = (e', r, s')" by (cases "refresh_pass kv (es n) s")
  show ?thesis
  proof (cases "el_running (es n) \<and> el_am_leader (es n)")
    case True
    then have "consul_campaign kv (es n) s = (e', r, s')"
      using c n by (simp add: refresh_pass_def consul_refresh_def)
    with laws show ?thesis
    proof (cases rule: consul_campaign_cases)
      case won
      with inv True n show ?thesis by (auto simp: single_leader_def)
    next
      case lost
      with inv True n c Refresh show ?thesis by (auto simp: single_leader_def)
    qed
  next
    case False
    with c have "e' = es n" "s' = s" by (auto simp: refresh_pass_def)
    with inv c Refresh show ?thesis by (simp add: single_leader_def)
  qed
next
  case (Resign n)
  with inv ok show ?thesis by (auto simp: single_leader_def resign_def)
next
  case (Crash n)
  with inv show ?thesis by (auto simp: single_leader_def restarted_def)
qed

lemma elects_single:
  assumes "elects kv c c'" and "consul_laws kv present" and "single_leader present k c"
  shows "single_leader present k c'"
  using assms by (induction rule: elects.induct) (auto intro: single_leader_step)

text \<open>C16: With Consul at most one node believes to be the leader, whatever the responses, the crashes and the
  order of the operations are, as long as only leaders resign.\<close>

theorem consul_single_leader:
  assumes "elects kv (es, s) c" and "consul_laws kv present"
    and "\<forall>n. el_backend (es n) = Consul \<and> el_key (es n) = k \<and> \<not> el_am_leader (es n)"
  shows "\<exists>n. leaders c \<subseteq> {n}"
proof -
  have "single_leader present k c"
    by (rule elects_single [OF assms(1,2)]) (simp add: single_leader_def assms(3))
  then show ?thesis
    by (cases "leaders c = {}") (auto simp: single_leader_def leaders_def)
qed

text \<open>The key is there and nobody leads.\<close>

definition blocked :: "('s \<Rightarrow> string \<Rightarrow> bool) \<Rightarrow> string \<Rightarrow> 's cluster \<Rightarrow> bool" where
  "blocked present k c \<longleftrightarrow> single_leader present k c \<and> present (snd c) k \<and> leaders c = {}"

lemma blocked_step:
  assumes "consul_laws kv present" and "blocked present k (es, s)"
    and "case op of Resign n \<Rightarrow> el_am_leader (es n) | _ \<Rightarrow> True"
  shows "blocked present k (cluster_step kv op (es, s))"
proof -
  have inv: "single_leader present k (es, s)" "present s k" "leaders (es, s) = {}"
    using assms(2) by (simp_all add: blocked_def)
  have "present (snd (cluster_step kv op (es, s))) k \<and> leaders (cluster_step kv op (es, s)) = {}"
  proof (cases op)
    case (Campaign n)
    obtain e' r s' where c: "campaign kv (es n) s = (e', r, s')" by (cases "campaign kv (es n) s")
    have n: "el_backend (es n) = Consul" "el_key (es n) = k" using inv(1) by (auto simp: single_leader_def)
    show ?thesis
      using assms(1) n(1) c
    proof (cases rule: campaign_cases)
      case won
      with inv(2) n show ?thesis by simp
    next
      case lost
      with inv(2,3) n c Campaign show ?thesis by (auto simp: leaders_def)
    qed
  qed (use inv assms(3) in \<open>auto simp: leaders_def refresh_pass_def restarted_def split: if_splits\<close>)
  with single_leader_step [OF assms(1) inv(1) assms(3)] show ?thesis
    by (simp add: blocked_def)
qed

lemma elects_blocked:
  assumes "elects kv c c'" and "consul_laws kv present" and "blocked present k c"
  shows "blocked present k c'"
  using assms by (induction rule: elects.induct) (auto intro: blocked_step)

text \<open>C17: Electors of one Consul key, over a store with Consul's documented laws: once the key is there and none of
the electors is the leader, as after a crash of the leader, none of them is ever elected, whatever campaigns,
refreshes and resignations follow, as long as only leaders resign: no lease or session takes the key away.
(With etcd, and when a node that is not the leader resigns, two leaders are possible instead:
\<open>etcd_split_brain\<close>, \<open>resignation_of_another\<close>.)\<close>

theorem crashed_leader_blocks:
  assumes "elects kv (es, s) c" and "consul_laws kv present" and "present s k"
    and "\<forall>n. el_backend (es n) = Consul \<and> el_key (es n) = k \<and> \<not> el_am_leader (es n)"
  shows "leaders c = {}"
proof -
  have "blocked present k c"
    by (rule elects_blocked [OF assms(1,2)]) (use assms(3,4) in \<open>simp add: blocked_def single_leader_def leaders_def\<close>)
  then show ?thesis by (simp add: blocked_def)
qed

text \<open>With etcd every node whose put arrives is the leader, so all nodes that campaign are, at the same time.\<close>

theorem etcd_split_brain:
  assumes "etcd_laws kv up" and "up s" and "\<forall>n. el_backend (es n) = Etcd"
  shows "set ns \<subseteq> leaders (fold (cluster_step kv) (map Campaign ns) (es, s))"
proof -
  have "set ns \<union> leaders (es, s) \<subseteq> leaders (fold (cluster_step kv) (map Campaign ns) (es, s))"
    using assms(2,3)
  proof (induction ns arbitrary: es s)
    case (Cons n ns)
    obtain e' r s' where c: "campaign kv (es n) s = (e', r, s')" by (cases "campaign kv (es n) s")
    obtain s1 b where p: "kv (EtcdPut (el_key (es n)) (el_node (es n))) s = (s1, Body b)" "up s1"
      using assms(1) Cons.prems(1) unfolding etcd_laws_def by blast
    have e': "el_am_leader e'" "el_backend e' = Etcd" "up s'"
      using c p Cons.prems by (auto simp: campaign_def etcd_campaign_def lead_def start_refresh_loop_def split: if_splits)
    have "set ns \<union> leaders (es(n := e'), s') \<subseteq> leaders (fold (cluster_step kv) (map Campaign ns) (es(n := e'), s'))"
      by (rule Cons.IH) (use e' Cons.prems in simp_all)
    moreover have "insert n (leaders (es, s)) \<subseteq> leaders (es(n := e'), s')"
      using e' by (auto simp: leaders_def)
    ultimately show ?case using c by auto
  qed simp
  then show ?thesis by blast
qed

subsection \<open>Stores that satisfy the laws\<close>

text \<open>The state is the keys that are there; both stores are always reachable.\<close>

fun demo_store :: "string set kv_store" where
  "demo_store (EtcdPut k v) s = (insert k s, Body PNone)"
| "demo_store (ConsulCas0 k v) s = (insert k s, Body (PBool (k \<notin> s)))"
| "demo_store (ConsulDelete k) s = (s - {k}, Body (PBool True))"
| "demo_store r s = (s, Body PNone)"

lemma demo_store_laws: "consul_laws demo_store (\<lambda>s k. k \<in> s)" "etcd_laws demo_store (\<lambda>s. True)"
  by (auto simp: consul_laws_def etcd_laws_def)

definition demo_electors :: "backend \<Rightarrow> string \<Rightarrow> Elector" where
  "demo_electors b n = \<lparr>el_backend = b, el_key = ''leader'', el_node = n, el_ttl = 30, el_am_leader = False, el_leader_id = None,
     el_running = False, el_lease = None\<rparr>"

lemma demo_elects: "elects demo_store (demo_electors Consul, {}) (cluster_step demo_store (Campaign ''b'')
    (cluster_step demo_store (Campaign ''a'') (demo_electors Consul, {})))"
proof -
  have "elects demo_store (demo_electors Consul, {}) (cluster_step demo_store (Campaign ''a'') (demo_electors Consul, {}))"
    by (rule elects_step [OF elects_refl]) simp
  then show ?thesis
    by (cases "cluster_step demo_store (Campaign ''a'') (demo_electors Consul, {})")
      (use elects_step [where op = "Campaign ''b''"] in force)
qed

theorem consul_single_leader_witness:
  "\<exists>n. leaders (cluster_step demo_store (Campaign ''b'') (cluster_step demo_store (Campaign ''a'') (demo_electors Consul, {}))) \<subseteq> {n}"
  by (rule consul_single_leader [OF demo_elects demo_store_laws(1)]) (simp add: demo_electors_def)

theorem crashed_leader_blocks_witness:
  "leaders (cluster_step demo_store (Campaign ''a'') (demo_electors Consul, {''leader''})) = {}"
  by (rule crashed_leader_blocks [OF elects_step [OF elects_refl] demo_store_laws(1)]) (simp_all add: demo_electors_def)

theorem etcd_split_brain_witness:
  "{''a'', ''b''} \<subseteq> leaders (fold (cluster_step demo_store) (map Campaign [''a'', ''b'']) (demo_electors Etcd, {}))"
  using etcd_split_brain [OF demo_store_laws(2), where s = "{}" and es = "demo_electors Etcd" and ns = "[''a'', ''b'']"] by (simp add: demo_electors_def)

text \<open>When a node that is not the leader resigns, it takes the key away, and a second leader is elected.\<close>

lemma resignation_of_another:
  "{''a'', ''b''} \<subseteq> leaders (fold (cluster_step demo_store) [Campaign ''a'', Resign ''b'', Campaign ''b''] (demo_electors Consul, {}))"
  by (simp add: leaders_def campaign_def consul_campaign_def demo_electors_def lead_def start_refresh_loop_def resign_def)

end
