(* ===== verification/Distributed.thy ===== *)
theory Distributed
  imports Raft_Hybrid Run_Manager
begin

text \<open>
  The coordinator of distributed runs (\<open>engine/distributed.py\<close>) on a hybrid Raft node. The runs are
  objects: \<open>sync_from_leader\<close> shares them between two coordinators of a process, so they
  live in a store, a list indexed by their addresses, and a coordinator holds addresses. Times are in
  microseconds (the order of the strings that \<open>isoformat\<close> makes of them is theirs).
\<close>

subsection \<open>Runs and coordinators\<close>

record DistributedRun =
  dr_slug :: string
  dr_profile :: string
  dr_title :: string
  dr_state :: string
  dr_owner :: string
  dr_created_at :: datetime
  dr_updated_at :: datetime
  dr_version :: int
  dr_status :: string

type_synonym run_store = "DistributedRun list"

record RunCoordinator =
  dc_raft :: "HybridNode option"
  dc_runs :: "(string, nat) dict"
  dc_leader_cache :: "string option"
  dc_cache_time :: datetime

definition new_coordinator :: "HybridNode option \<Rightarrow> RunCoordinator" where
  "new_coordinator h = \<lparr>dc_raft = h, dc_runs = [], dc_leader_cache = None, dc_cache_time = 0\<rparr>"

definition new_run :: "string \<Rightarrow> string \<Rightarrow> string \<Rightarrow> string \<Rightarrow> datetime \<Rightarrow> DistributedRun" where
  "new_run slug profile title owner now = \<lparr>dr_slug = slug, dr_profile = profile, dr_title = title, dr_state = ''created'',
     dr_owner = owner, dr_created_at = now, dr_updated_at = now, dr_version = 0, dr_status = ''active''\<rparr>"

subsection \<open>The cluster\<close>

definition dc_is_leader :: "RunCoordinator \<Rightarrow> bool" where
  "dc_is_leader c = (case dc_raft c of None \<Rightarrow> True | Some h \<Rightarrow> Raft_Hybrid.is_leader h)"

definition dc_node :: "RunCoordinator \<Rightarrow> string" where
  "dc_node c = (case dc_raft c of None \<Rightarrow> ''standalone'' | Some h \<Rightarrow> node_id (raft h))"

text \<open>\<open>raft_peer_health\<close>: whether a peer with an address answers that it is the leader.\<close>

definition peer_leads :: "(string \<Rightarrow> RaftMessage \<Rightarrow> raft_response option) \<Rightarrow> HybridNode \<Rightarrow> string \<Rightarrow> bool" where
  "peer_leads send h p =
     (case dict_get (peer_transport h) p of
        None \<Rightarrow> False
      | Some addr \<Rightarrow>
          (case send addr \<lparr>sender_id = ''health-checker'', msg_term = 0, msg_data = HealthData\<rparr> of
             Some (HealthResponse _ r _ _ _ _ _ _ _) \<Rightarrow> r = LEADER
           | _ \<Rightarrow> False))"

definition dc_get_leader ::
    "(string \<Rightarrow> RaftMessage \<Rightarrow> raft_response option) \<Rightarrow> datetime \<Rightarrow> RunCoordinator \<Rightarrow> RunCoordinator \<times> string option" where
  "dc_get_leader send now c =
     (if dc_leader_cache c \<noteq> None \<and> dc_leader_cache c \<noteq> Some [] \<and> now - dc_cache_time c < 5000000
      then (c, dc_leader_cache c)
      else case dc_raft c of
          None \<Rightarrow> (c, Some ''standalone'')
        | Some h \<Rightarrow>
            (let found = find (peer_leads send h) (peers (raft h));
                 l = (if (found = None \<or> found = Some []) \<and> dc_is_leader c then Some (node_id (raft h)) else found)
             in (c\<lparr>dc_leader_cache := l, dc_cache_time := now\<rparr>, l)))"

subsection \<open>Operations on runs\<close>

definition auto_slug :: "string \<Rightarrow> datetime \<Rightarrow> string" where
  "auto_slug title now =
     strip_dashes (sub_class (\<lambda>c. \<not> lower_alnum c \<and> c \<noteq> CHR ''-'') (lower title)) @ ''-'' @ show_int (now div 1000)"

definition create_command :: "string \<Rightarrow> string \<Rightarrow> string \<Rightarrow> string \<Rightarrow> command" where
  "create_command slug profile title owner =
     [(''type'', ''distributed_create''), (''slug'', slug), (''profile'', profile), (''title'', title), (''owner'', owner)]"

definition transition_command :: "string \<Rightarrow> string \<Rightarrow> command" where
  "transition_command slug to = [(''type'', ''distributed_transition''), (''slug'', slug), (''to_state'', to)]"

text \<open>
  \<open>self.raft.apply\<close>: the result is the error text of the pair, empty on success; an exception of the
  log is \<open>Inl\<close>.
\<close>

definition dc_apply :: "command \<Rightarrow> datetime \<Rightarrow> HybridNode \<Rightarrow> RunCoordinator \<Rightarrow> RunCoordinator \<times> (raft_error + string)" where
  "dc_apply cmd now h c =
     (case apply_cmd cmd now h of
        (h', Inl e) \<Rightarrow> (c\<lparr>dc_raft := Some h'\<rparr>, Inl e)
      | (h', Inr True) \<Rightarrow> (c\<lparr>dc_raft := Some h'\<rparr>, Inr [])
      | (h', Inr False) \<Rightarrow> (c\<lparr>dc_raft := Some h'\<rparr>, Inr ''Not leader''))"

definition insert_run :: "DistributedRun \<Rightarrow> run_store \<times> RunCoordinator \<Rightarrow> run_store \<times> RunCoordinator" where
  "insert_run r s = (case s of (rs, c) \<Rightarrow> (rs @ [r], c\<lparr>dc_runs := dict_set (dr_slug r) (length rs) (dc_runs c)\<rparr>))"

definition create_run ::
    "string \<Rightarrow> string \<Rightarrow> string option \<Rightarrow> datetime \<Rightarrow> run_store \<times> RunCoordinator
      \<Rightarrow> (run_store \<times> RunCoordinator) \<times> (raft_error + DistributedRun option \<times> string)" where
  "create_run profile title slug now s =
     (case s of (rs, c) \<Rightarrow>
       (let slug = (case slug of None \<Rightarrow> auto_slug title now | Some x \<Rightarrow> if x = [] then auto_slug title now else x)
        in if dict_has (dc_runs c) slug then (s, Inr (None, ''Run '' @ [CHR 0x27] @ slug @ [CHR 0x27] @ '' already exists''))
        else
          let r = new_run slug profile title (dc_node c) now
          in case dc_raft c of
               None \<Rightarrow> (insert_run r s, Inr (Some r, []))
             | Some h \<Rightarrow>
                 if dc_is_leader c then
                   (case dc_apply (create_command slug profile title (dr_owner r)) now h c of
                      (c, Inl e) \<Rightarrow> ((rs, c), Inl e)
                    | (c, Inr err) \<Rightarrow>
                        if err \<noteq> [] then ((rs, c), Inr (None, ''Raft replication failed: '' @ err))
                        else (insert_run r (rs, c), Inr (Some r, [])))
                 else (insert_run r s, Inr (Some r, []))))"

definition get_run :: "string \<Rightarrow> run_store \<times> RunCoordinator \<Rightarrow> DistributedRun option" where
  "get_run slug s = (case s of (rs, c) \<Rightarrow> map_option (\<lambda>a. rs ! a) (dict_get (dc_runs c) slug))"

text \<open>The addresses, newest first; \<open>reverse=True\<close> keeps the order of runs of the same time.\<close>

definition list_runs :: "string \<Rightarrow> run_store \<times> RunCoordinator \<Rightarrow> nat list" where
  "list_runs status s =
     (case s of (rs, c) \<Rightarrow>
        (let as = filter (\<lambda>a. status = [] \<or> dr_status (rs ! a) = status) (dict_values (dc_runs c))
         in rev (sort_key (\<lambda>a. dr_created_at (rs ! a)) (rev as))))"

definition move_run :: "string \<Rightarrow> datetime \<Rightarrow> DistributedRun \<Rightarrow> DistributedRun" where
  "move_run st now r = r\<lparr>dr_state := st, dr_updated_at := now, dr_version := dr_version r + 1\<rparr>"

definition not_found :: "string \<Rightarrow> string" where
  "not_found slug = ''Run '' @ [CHR 0x27] @ slug @ [CHR 0x27] @ '' not found''"

definition transition_run ::
    "string \<Rightarrow> string \<Rightarrow> datetime \<Rightarrow> run_store \<times> RunCoordinator
      \<Rightarrow> (run_store \<times> RunCoordinator) \<times> (raft_error + bool \<times> string)" where
  "transition_run slug st now s =
     (case s of (rs, c) \<Rightarrow>
       (case dict_get (dc_runs c) slug of
          None \<Rightarrow> (s, Inr (False, not_found slug))
        | Some a \<Rightarrow>
            (let moved = (\<lambda>c. ((rs[a := move_run st now (rs ! a)], c), Inr (True, [])))
             in case dc_raft c of
                  None \<Rightarrow> moved c
                | Some h \<Rightarrow>
                    if dr_owner (rs ! a) \<noteq> node_id (raft h) then
                      (case dc_apply (transition_command slug st) now h c of
                         (c, Inl e) \<Rightarrow> ((rs, c), Inl e)
                       | (c, Inr err) \<Rightarrow>
                           if err \<noteq> [] then ((rs, c), Inr (False, ''Raft propose failed: '' @ err)) else moved c)
                    else moved c)))"

definition archive_run :: "string \<Rightarrow> datetime \<Rightarrow> run_store \<times> RunCoordinator \<Rightarrow> (run_store \<times> RunCoordinator) \<times> (bool \<times> string)" where
  "archive_run slug now s =
     (case s of (rs, c) \<Rightarrow>
       (case dict_get (dc_runs c) slug of
          None \<Rightarrow> (s, (False, not_found slug))
        | Some a \<Rightarrow> ((rs[a := (rs ! a)\<lparr>dr_status := ''archived'', dr_updated_at := now\<rparr>], c), (True, []))))"

text \<open>The flag is \<^const>\<open>False\<close> for the \<open>KeyError\<close> of a command without one of its keys.\<close>

definition sync_from_raft :: "command \<Rightarrow> datetime \<Rightarrow> run_store \<times> RunCoordinator \<Rightarrow> (run_store \<times> RunCoordinator) \<times> bool" where
  "sync_from_raft cmd now s =
     (case s of (rs, c) \<Rightarrow>
       (let ty = dict_get_default cmd ''type'' []
        in if ty = ''distributed_create'' then
             (case (dict_get cmd ''slug'', dict_get cmd ''profile'', dict_get cmd ''title'') of
                (Some slug, Some p, Some t) \<Rightarrow>
                  (insert_run (new_run slug p t (dict_get_default cmd ''owner'' ''unknown'') now) s, True)
              | _ \<Rightarrow> (s, False))
           else if ty = ''distributed_transition'' then
             (case (dict_get cmd ''slug'', dict_get cmd ''to_state'') of
                (Some slug, Some st) \<Rightarrow>
                  (case dict_get (dc_runs c) slug of
                     None \<Rightarrow> (s, True)
                   | Some a \<Rightarrow> ((rs[a := move_run st now (rs ! a)], c), True))
              | _ \<Rightarrow> (s, False))
           else (s, True)))"

definition sync_from_leader :: "run_store \<Rightarrow> RunCoordinator \<Rightarrow> RunCoordinator \<Rightarrow> RunCoordinator" where
  "sync_from_leader rs leader c =
     c\<lparr>dc_runs := fold (\<lambda>a d. dict_set (dr_slug (rs ! a)) a d) (list_runs [] (rs, leader)) []\<rparr>"

record cluster_status =
  cs_is_leader :: bool
  cs_leader :: "string option"
  cs_node :: string
  cs_runs :: nat
  cs_active :: nat

definition cluster_status_of ::
    "(string \<Rightarrow> RaftMessage \<Rightarrow> raft_response option) \<Rightarrow> datetime \<Rightarrow> run_store \<times> RunCoordinator \<Rightarrow> RunCoordinator \<times> cluster_status" where
  "cluster_status_of send now s =
     (case s of (rs, c) \<Rightarrow>
       (case dc_get_leader send now c of (c', l) \<Rightarrow>
         (c', \<lparr>cs_is_leader = dc_is_leader c, cs_leader = l, cs_node = dc_node c, cs_runs = length (dc_runs c),
            cs_active = length (filter (\<lambda>a. dr_status (rs ! a) = ''active'') (dict_values (dc_runs c)))\<rparr>)))"

subsection \<open>What the log carries\<close>

datatype coordinator_op = CreateRun string string "string option" | MoveRun string string | ArchiveRun string

fun coordinator_step :: "coordinator_op \<times> datetime \<Rightarrow> run_store \<times> RunCoordinator \<Rightarrow> run_store \<times> RunCoordinator" where
  "coordinator_step (CreateRun p t x, now) s = fst (create_run p t x now s)"
| "coordinator_step (MoveRun slug st, now) s = fst (transition_run slug st now s)"
| "coordinator_step (ArchiveRun slug, now) s = fst (archive_run slug now s)"

definition sync_step :: "command \<times> datetime \<Rightarrow> run_store \<times> RunCoordinator \<Rightarrow> run_store \<times> RunCoordinator" where
  "sync_step x s = fst (sync_from_raft (fst x) (snd x) s)"

text \<open>What a client sees of a run, up to its times; \<open>as_created\<close> forgets what happened after its creation.\<close>

type_synonym run_view = "string \<times> string \<times> string \<times> string \<times> int \<times> string"

definition view :: "run_store \<times> RunCoordinator \<Rightarrow> string \<Rightarrow> run_view option" where
  "view s slug = map_option (\<lambda>r. (dr_profile r, dr_title r, dr_owner r, dr_state r, dr_version r, dr_status r)) (get_run slug s)"

definition as_created :: "run_view \<Rightarrow> run_view" where
  "as_created v = (case v of (p, t, w, st, n, status) \<Rightarrow> (p, t, w, ''created'', 0, ''active''))"

definition addresses_ok :: "run_store \<times> RunCoordinator \<Rightarrow> bool" where
  "addresses_ok s \<longleftrightarrow> (\<forall>slug a. dict_get (dc_runs (snd s)) slug = Some a \<longrightarrow> a < length (fst s))"

text \<open>The views that a list of create commands makes.\<close>

definition created_by :: "(string \<times> string \<times> string \<times> string) list \<Rightarrow> string \<Rightarrow> run_view option" where
  "created_by xs = fold (\<lambda>(slug, p, t, w) f. f(slug \<mapsto> (p, t, w, ''created'', 0, ''active''))) xs Map.empty"

lemma view_insert:
  assumes "addresses_ok s"
  shows "view (insert_run r s) = (view s)(dr_slug r \<mapsto> (dr_profile r, dr_title r, dr_owner r, dr_state r, dr_version r, dr_status r))"
    and "addresses_ok (insert_run r s)" and "dc_raft (snd (insert_run r s)) = dc_raft (snd s)"
proof -
  obtain rs c where s: "s = (rs, c)" by fastforce
  have old: "(rs @ [r]) ! a = rs ! a" if "dict_get (dc_runs c) x = Some a" for x a
    using assms that by (auto simp: s addresses_ok_def nth_append)
  show "view (insert_run r s) = (view s)(dr_slug r \<mapsto> (dr_profile r, dr_title r, dr_owner r, dr_state r, dr_version r, dr_status r))"
    by (auto simp: fun_eq_iff view_def insert_run_def get_run_def s old map_option_case split: option.splits)
  show "addresses_ok (insert_run r s)"
    using assms by (auto simp: s insert_run_def addresses_ok_def less_SucI)
  show "dc_raft (snd (insert_run r s)) = dc_raft (snd s)"
    by (simp add: s insert_run_def)
qed

lemma view_update:
  assumes "addresses_ok (rs, c)" and "dict_get (dc_runs c) slug = Some a"
    and "dr_profile r = dr_profile (rs ! a)" and "dr_title r = dr_title (rs ! a)" and "dr_owner r = dr_owner (rs ! a)"
  shows "map_option as_created (view (rs[a := r], c) x) = map_option as_created (view (rs, c) x)"
    and "addresses_ok (rs[a := r], c)"
proof -
  have "a < length rs" using assms(1,2) by (auto simp: addresses_ok_def)
  then show "map_option as_created (view (rs[a := r], c) x) = map_option as_created (view (rs, c) x)"
    using assms(3-5) by (auto simp: view_def get_run_def as_created_def nth_list_update map_option_case split: option.splits)
  show "addresses_ok (rs[a := r], c)"
    using assms(1) by (simp add: addresses_ok_def)
qed

lemma propose_as_leader:
  assumes "leader_inv L S n"
  shows "snd (propose c now n) = Inr True" and "map le_command (rlog (fst (propose c now n))) = map le_command (rlog n) @ [c]"
    and "node_id (fst (propose c now n)) = node_id n"
proof -
  let ?i = "int (length (rlog n))"
  let ?e = "\<lparr>le_term = current_term n, le_index = ?i, le_command = c, le_timestamp = now\<rparr>"
  let ?n2 = "n\<lparr>rlog := rlog n @ [?e], disk_log := rlog n @ [?e],
      pending_acks := dict_set ?i {node_id n} (pending_acks n)\<rparr>"
  have role: "role n = LEADER" using assms by (simp add: leader_inv_def)
  have a: "apply_committed (?n2\<lparr>commit_index := ?i\<rparr>) = (?n2\<lparr>commit_index := ?i, last_applied := ?i,
      state_machine := replay (take (nat (?i + 1)) (rlog n @ [?e])) S\<rparr>, Inr ())"
    using replay_commit [OF assms, of ?i ?n2 "[?e]"] assms by (simp add: leader_inv_def)
  show "snd (propose c now n) = Inr True" "map le_command (rlog (fst (propose c now n))) = map le_command (rlog n) @ [c]"
      "node_id (fst (propose c now n)) = node_id n"
    by (simp_all add: propose_def role Let_def save_log_def replicate_all_frame a)
qed

text \<open>
  A leader that started with the log \<open>L\<close> and no runs, and has created the runs \<open>xs\<close> since: its log has
  gained their create commands and nothing else.
\<close>

definition leading :: "LogEntry list \<Rightarrow> (string, NodeState) dict \<Rightarrow> command list \<Rightarrow> string
    \<Rightarrow> (string \<times> string \<times> string \<times> string) list \<Rightarrow> run_store \<times> RunCoordinator \<Rightarrow> bool" where
  "leading L S cs w xs s \<longleftrightarrow> addresses_ok s \<and> (\<forall>slug. map_option as_created (view s slug) = created_by xs slug) \<and>
     list_all (\<lambda>(slug, p, t, v). v = w) xs \<and>
     (\<exists>h. dc_raft (snd s) = Some h \<and> \<not> is_offline h \<and> leader_inv L S (raft h) \<and> node_id (raft h) = w \<and>
       map le_command (rlog (raft h)) = cs @ map (\<lambda>(slug, p, t, w). create_command slug p t w) xs)"

lemma created_by_snoc: "created_by (xs @ [(slug, p, t, w)]) = (created_by xs)(slug \<mapsto> (p, t, w, ''created'', 0, ''active''))"
  by (simp add: created_by_def)

lemma created_by_owner:
  "list_all (\<lambda>(slug, p, t, v). v = w) xs \<Longrightarrow> created_by xs slug = Some (p, t, v, u) \<Longrightarrow> v = w"
  by (induction xs rule: rev_induct) (auto simp: created_by_snoc created_by_def split: if_splits)

lemma leading_create:
  assumes "leading L S cs w xs s"
  shows "\<exists>ys. leading L S cs w ys (fst (create_run p t x now s))"
proof -
  obtain rs c where s: "s = (rs, c)" by fastforce
  obtain h where h: "dc_raft c = Some h" "\<not> is_offline h" "leader_inv L S (raft h)" "node_id (raft h) = w"
    "map le_command (rlog (raft h)) = cs @ map (\<lambda>(slug, p, t, w). create_command slug p t w) xs"
    using assms by (auto simp: leading_def s)
  let ?slug = "case x of None \<Rightarrow> auto_slug t now | Some x \<Rightarrow> if x = [] then auto_slug t now else x"
  show ?thesis
  proof (cases "dict_has (dc_runs c) ?slug")
    case True
    then have "fst (create_run p t x now s) = s" by (simp add: create_run_def s Let_def)
    with assms show ?thesis by auto
  next
    case False
    let ?cmd = "create_command ?slug p t w" and ?r = "new_run ?slug p t w now"
    let ?h = "h\<lparr>raft := fst (propose ?cmd now (raft h))\<rparr>"
    let ?c = "c\<lparr>dc_raft := Some ?h\<rparr>"
    have pr: "propose ?cmd now (raft h) = (fst (propose ?cmd now (raft h)), Inr True)"
      using propose_as_leader(1) [OF h(3), of ?cmd now] by (metis prod.collapse)
    have lead: "dc_is_leader c" "dc_node c = w" "dr_owner ?r = w"
      using h by (simp_all add: dc_is_leader_def Raft_Hybrid.is_leader_def leader_inv_def dc_node_def new_run_def)
    have "dc_apply ?cmd now h c = (?c, Inr [])"
      using h(2) by (simp add: dc_apply_def apply_cmd_def pr [THEN arg_cong, of "case_prod _"] case_prod_beta propose_as_leader(1) [OF h(3)])
    then have step: "fst (create_run p t x now s) = insert_run ?r (rs, ?c)"
      using False h(1) lead by (simp add: create_run_def s Let_def)
    have ok: "addresses_ok (rs, ?c)" and v: "view (rs, ?c) = view s"
      using assms by (simp_all add: leading_def addresses_ok_def s view_def get_run_def fun_eq_iff)
    have "leading L S cs w (xs @ [(?slug, p, t, w)]) (insert_run ?r (rs, ?c))"
      unfolding leading_def
      using assms h propose_as_leader [OF h(3), of ?cmd now] leader_inv_propose [OF h(3), of ?cmd now]
      by (simp add: view_insert [OF ok] v leading_def created_by_snoc new_run_def as_created_def del: fun_upd_apply)
        (simp add: as_created_def)
    then show ?thesis unfolding step by blast
  qed
qed

lemma leading_step:
  assumes "leading L S cs w xs s"
  shows "\<exists>ys. leading L S cs w ys (coordinator_step op s)"
proof -
  obtain rs c where s: "s = (rs, c)" by fastforce
  have upd: "leading L S cs w xs (rs[a := r], c)" if "dict_get (dc_runs c) slug = Some a"
    and "dr_profile r = dr_profile (rs ! a)" "dr_title r = dr_title (rs ! a)" "dr_owner r = dr_owner (rs ! a)" for a slug r
    using assms that view_update [of rs c slug a r] by (simp add: leading_def s)
  obtain o' now where op: "op = (o', now)" by fastforce
  show ?thesis
  proof (cases o')
    case (CreateRun p t x)
    then show ?thesis using leading_create [OF assms] op by simp
  next
    case (MoveRun slug st)
    show ?thesis
    proof (cases "dict_get (dc_runs c) slug")
      case None
      then have "coordinator_step op s = s" by (simp add: op MoveRun transition_run_def s)
      with assms show ?thesis by auto
    next
      case (Some a)
      obtain h where h: "dc_raft c = Some h" "node_id (raft h) = w" using assms by (auto simp: leading_def s)
      have "\<exists>u. map_option as_created (view s slug) = Some (dr_profile (rs ! a), dr_title (rs ! a), dr_owner (rs ! a), u)"
        by (simp add: view_def get_run_def s Some as_created_def)
      moreover have "map_option as_created (view s slug) = created_by xs slug" and ws: "list_all (\<lambda>(slug, p, t, v). v = w) xs"
        using assms by (auto simp: leading_def)
      ultimately obtain u where "created_by xs slug = Some (dr_profile (rs ! a), dr_title (rs ! a), dr_owner (rs ! a), u)"
        by auto
      then have "dr_owner (rs ! a) = w"
        by (rule created_by_owner [OF ws])
      then have "coordinator_step op s = (rs[a := move_run st now (rs ! a)], c)"
        using h by (simp add: op MoveRun transition_run_def s Some Let_def)
      then show ?thesis
        using upd [OF Some, of "move_run st now (rs ! a)"] by (auto simp: move_run_def)
    qed
  next
    case (ArchiveRun slug)
    show ?thesis
    proof (cases "dict_get (dc_runs c) slug")
      case None
      then have "coordinator_step op s = s" by (simp add: op ArchiveRun archive_run_def s)
      with assms show ?thesis by auto
    next
      case (Some a)
      then show ?thesis
        using upd [OF Some, of "(rs ! a)\<lparr>dr_status := ''archived'', dr_updated_at := now\<rparr>"]
        by (auto simp: op ArchiveRun archive_run_def s)
    qed
  qed
qed

lemma leading_run: "leading L S cs w xs s \<Longrightarrow> \<exists>ys. leading L S cs w ys (fold coordinator_step ops s)"
proof (induction ops arbitrary: xs s)
  case (Cons op ops)
  then obtain ys where "leading L S cs w ys (coordinator_step op s)" using leading_step by blast
  then show ?case using Cons.IH by simp
qed auto

lemma sync_create: "fst (sync_from_raft (create_command slug p t w) now s) = insert_run (new_run slug p t w now) s"
  by (cases s) (simp add: sync_from_raft_def create_command_def dict_get_default_def)

lemma sync_created:
  assumes "list_all2 (\<lambda>(slug, p, t, w) x. fst x = create_command slug p t w) xs cs" and "addresses_ok s" and "view s = f"
  shows "view (fold sync_step cs s) = fold (\<lambda>(slug, p, t, w) f. f(slug \<mapsto> (p, t, w, ''created'', 0, ''active''))) xs f"
  using assms
proof (induction xs cs arbitrary: s f rule: list_all2_induct)
  case (Cons y ys x cs)
  obtain slug p t w where y: "y = (slug, p, t, w)" by (cases y)
  with Cons.hyps have st: "sync_step x s = insert_run (new_run slug p t w (snd x)) s"
    by (simp add: sync_step_def sync_create)
  have "view (sync_step x s) = f(slug \<mapsto> (p, t, w, ''created'', 0, ''active''))" "addresses_ok (sync_step x s)"
    using Cons.prems unfolding st by (simp_all add: view_insert) (simp add: new_run_def)
  then show ?case using Cons.IH y by simp
qed simp

text \<open>C15: Take a coordinator without runs whose node is the Raft leader and online, and stays both, and any operations
on it. A node without runs that applies exactly the commands which were put in the leader's log meanwhile sees
the same runs as the leader, each as it was created: the transitions and the archiving of the owner are not
in the log. (A run that is created on a follower is not in the log at all: \<open>follower_keeps_runs\<close>.)\<close>

theorem replica_stays_at_creation:
  assumes "dc_raft c = Some h" and "\<not> is_offline h" and "leader_inv L S (raft h)" and "dc_runs c = []"
    and "fold coordinator_step ops (rs, c) = (rs', c')" and "dc_raft c' = Some h'"
    and "map fst cs = drop (length (rlog (raft h))) (map le_command (rlog (raft h')))" and "dc_runs r = []"
  shows "view (fold sync_step cs (rs2, r)) slug = map_option as_created (view (rs', c') slug)"
proof -
  let ?w = "node_id (raft h)" and ?cs = "map le_command (rlog (raft h))"
  have "leading L S ?cs ?w [] (rs, c)"
    using assms(1-4) by (simp add: leading_def addresses_ok_def view_def get_run_def created_by_def)
  then obtain xs where xs: "leading L S ?cs ?w xs (rs', c')"
    using leading_run [of L S ?cs ?w "[]" "(rs, c)" ops] assms(5) by auto
  then have "map fst cs = map (\<lambda>(slug, p, t, w). create_command slug p t w) xs"
    using assms(6,7) by (auto simp: leading_def)
  then have "list_all2 (\<lambda>(slug, p, t, w) x. fst x = create_command slug p t w) xs cs"
    by (simp add: list_all2_conv_all_nth list_eq_iff_nth_eq case_prod_beta)
  from sync_created [OF this, of "(rs2, r)" Map.empty] have "view (fold sync_step cs (rs2, r)) = created_by xs"
    using assms(8) by (simp add: addresses_ok_def created_by_def fun_eq_iff view_def get_run_def)
  with xs show ?thesis by (simp add: leading_def)
qed

definition demo_hybrid :: HybridNode where
  "demo_hybrid = new_hybrid demo_leader"

definition demo_ops :: "(coordinator_op \<times> datetime) list" where
  "demo_ops = [(CreateRun ''software'' ''FFT'' (Some ''fft''), 1), (MoveRun ''fft'' ''review'', 2), (ArchiveRun ''fft'', 3)]"

theorem replica_stays_at_creation_witness:
  "\<exists>cs. view (fold sync_step cs ([], new_coordinator None)) ''fft'' = Some (''software'', ''FFT'', ''n1'', ''created'', 0, ''active'') \<and>
     view (fold coordinator_step demo_ops ([], new_coordinator (Some demo_hybrid))) ''fft'' =
       Some (''software'', ''FFT'', ''n1'', ''review'', 1, ''archived'')"
proof -
  obtain rs' c' where run: "fold coordinator_step demo_ops ([], new_coordinator (Some demo_hybrid)) = (rs', c')"
    by fastforce
  have v: "view (fold coordinator_step demo_ops ([], new_coordinator (Some demo_hybrid))) ''fft'' =
      Some (''software'', ''FFT'', ''n1'', ''review'', 1, ''archived'')"
    and l: "leader_inv [] [] (raft demo_hybrid)" "\<not> is_offline demo_hybrid"
    and r: "dc_raft (snd (fold coordinator_step demo_ops ([], new_coordinator (Some demo_hybrid)))) \<noteq> None"
    by code_simp+
  then obtain h' where h': "dc_raft c' = Some h'" using run by auto
  let ?cs = "map (\<lambda>c. (c, 9)) (drop (length (rlog (raft demo_hybrid))) (map le_command (rlog (raft h'))))"
  have "view (fold sync_step ?cs ([], new_coordinator None)) ''fft'' = map_option as_created (view (rs', c') ''fft'')"
    by (rule replica_stays_at_creation [OF _ l(2,1) _ run h']) (simp_all add: new_coordinator_def comp_def)
  with v run show ?thesis by (auto simp: as_created_def)
qed

subsection \<open>Sharing\<close>

lemma fold_dict_set_Some:
  "inj_on k (set as) \<Longrightarrow> dict_get (fold (\<lambda>a d. dict_set (k a) a d) as []) x = Some a \<longleftrightarrow> a \<in> set as \<and> k a = x"
proof (induction as rule: rev_induct)
  case (snoc b as)
  then show ?case by (auto simp: inj_on_def)
qed simp

lemma set_list_runs: "set (list_runs [] (rs, c)) = snd ` set (dc_runs c)"
  by (simp add: list_runs_def)

text \<open>A synchronization with the leader does not copy: whatever happens to the store afterwards, and whichever of the
  two coordinators does it, both see the same runs.\<close>

theorem sync_shares_runs:
  assumes "dict_wf (dc_runs leader)" and "list_all (\<lambda>(slug, a). dr_slug (rs ! a) = slug) (dc_runs leader)"
  shows "get_run slug (rs', sync_from_leader rs leader c) = get_run slug (rs', leader)"
proof -
  have inj: "inj_on (\<lambda>a. dr_slug (rs ! a)) (set (list_runs [] (rs, leader)))"
  proof (rule inj_onI)
    fix a b
    assume "a \<in> set (list_runs [] (rs, leader))" "b \<in> set (list_runs [] (rs, leader))" and eq: "dr_slug (rs ! a) = dr_slug (rs ! b)"
    then obtain x y where xy: "(x, a) \<in> set (dc_runs leader)" "(y, b) \<in> set (dc_runs leader)"
      by (auto simp: set_list_runs)
    with assms(2) have "dr_slug (rs ! a) = x" "dr_slug (rs ! b) = y" by (auto simp: list_all_iff)
    with eq have "x = y" by simp
    with xy assms(1) show "a = b" by (metis dict_get_iff option.inject)
  qed
  have "dict_get (dc_runs (sync_from_leader rs leader c)) slug = Some a \<longleftrightarrow> dict_get (dc_runs leader) slug = Some a" for a
  proof -
    have "a \<in> snd ` set (dc_runs leader) \<and> dr_slug (rs ! a) = slug \<longleftrightarrow> (slug, a) \<in> set (dc_runs leader)"
      using assms(2) by (force simp: list_all_iff)
    then show ?thesis
      using fold_dict_set_Some [OF inj, of slug a] by (simp add: sync_from_leader_def set_list_runs dict_get_iff [OF assms(1)])
  qed
  then have "dict_get (dc_runs (sync_from_leader rs leader c)) slug = dict_get (dc_runs leader) slug"
    by (metis not_Some_eq)
  then show ?thesis by (simp add: get_run_def)
qed

text \<open>A node that is not the leader keeps the runs it creates to itself, and can move only those: a transition of any
  other run is refused by its own Raft node, which does not pass it on to the leader.\<close>

lemma follower_keeps_runs:
  assumes "dc_raft c = Some h" and "\<not> Raft_Hybrid.is_leader h"
  shows "dc_raft (snd (fst (create_run p t x now (rs, c)))) = Some h"
  using assms by (auto simp: create_run_def dc_is_leader_def insert_run_def Let_def)

lemma follower_cannot_move:
  assumes "dc_raft c = Some h" and "\<not> Raft_Hybrid.is_leader h" and "\<not> is_offline h"
    and "dict_get (dc_runs c) slug = Some a" and "dr_owner (rs ! a) \<noteq> node_id (raft h)"
  shows "snd (transition_run slug st now (rs, c)) = Inr (False, ''Raft propose failed: Not leader'')"
  using assms by (simp add: transition_run_def dc_apply_def apply_cmd_def propose_def Raft_Hybrid.is_leader_def)

end
