(* ===== verification/Warm_Agents.thy ===== *)
theory Warm_Agents
  imports Systems PyString PyValue
begin

text \<open>
  The coordinator of background tasks (\<open>engine/agent_coordinator.py\<close>) with its four default tasks. Times
  are in microseconds. A task runs in two steps, the one before its handler and the one after it, because
  \<open>stop\<close> cancels the handler that is running. The engine, custom handlers and how long a
  handler takes are arguments; handlers that add or remove tasks while a tick goes through them are not modelled.
\<close>

subsection \<open>Tasks\<close>

datatype AgentTaskType = SKILL_EMERGENCE | HEALTH_CHECK | DRIFT_PERSIST | DATA_COLLECTION | MAINTENANCE | CUSTOM

datatype AgentTaskStatus = PENDING | RUNNING | COMPLETED | FAILED | SKIPPED

datatype task_handler = SkillCheck | HealthCheck | DriftPersist | DataCollection | CustomHandler string

record AgentTask =
  tk_id :: string
  tk_type :: AgentTaskType
  tk_description :: string
  tk_interval :: int
  tk_handler :: "task_handler option"
  tk_status :: AgentTaskStatus
  tk_last_run :: "datetime option"
  tk_next_run :: "datetime option"
  tk_result :: "PyVal option"
  tk_error :: "string option"
  tk_run_count :: int
  tk_success_count :: int

definition is_due :: "datetime \<Rightarrow> AgentTask \<Rightarrow> bool" where
  "is_due now t = (case tk_next_run t of None \<Rightarrow> True | Some n \<Rightarrow> n \<le> now)"

definition success_rate :: "AgentTask \<Rightarrow> rat" where
  "success_rate t = (if tk_run_count t = 0 then 0 else of_int (tk_success_count t) / of_int (tk_run_count t))"

definition round_places :: "nat \<Rightarrow> rat \<Rightarrow> rat" where
  "round_places n x = of_int (round_half_even (x * 10 ^ n)) / 10 ^ n"

record task_row =
  tr_task :: AgentTask
  tr_rate :: rat

definition task_to_dict :: "AgentTask \<Rightarrow> task_row" where
  "task_to_dict t = \<lparr>tr_task = t, tr_rate = round_places 2 (success_rate t)\<rparr>"

subsection \<open>The coordinator\<close>

record WarmAgents =
  wa_data_dir :: string
  wa_tasks :: "(string, AgentTask) dict"
  wa_running :: bool
  wa_started_at :: "datetime option"
  wa_executions :: int
  wa_failures :: int
  wa_history :: "(string \<times> AgentTaskStatus \<times> datetime) list"
  wa_files :: "(string, PyVal) dict"

definition new_agents :: "string \<Rightarrow> (string, PyVal) dict \<Rightarrow> WarmAgents" where
  "new_agents dir files = \<lparr>wa_data_dir = dir, wa_tasks = [], wa_running = False, wa_started_at = None, wa_executions = 0, wa_failures = 0,
     wa_history = [], wa_files = files\<rparr>"

definition uptime :: "datetime \<Rightarrow> WarmAgents \<Rightarrow> rat" where
  "uptime now w = (case wa_started_at w of None \<Rightarrow> 0 | Some t \<Rightarrow> of_int (now - t) / 1000000)"

definition add_task :: "string \<Rightarrow> AgentTaskType \<Rightarrow> string \<Rightarrow> int \<Rightarrow> task_handler option \<Rightarrow> datetime \<Rightarrow> WarmAgents \<Rightarrow> WarmAgents" where
  "add_task i ty d interval hdl now w =
     w\<lparr>wa_tasks := dict_set i \<lparr>tk_id = i, tk_type = ty, tk_description = d, tk_interval = interval, tk_handler = hdl,
       tk_status = PENDING, tk_last_run = None, tk_next_run = Some now, tk_result = None, tk_error = None,
       tk_run_count = 0, tk_success_count = 0\<rparr> (wa_tasks w)\<rparr>"

definition remove_task :: "string \<Rightarrow> WarmAgents \<Rightarrow> WarmAgents \<times> bool" where
  "remove_task i w =
     (if dict_has (wa_tasks w) i then (w\<lparr>wa_tasks := dict_del i (wa_tasks w)\<rparr>, True) else (w, False))"

definition get_task :: "string \<Rightarrow> WarmAgents \<Rightarrow> AgentTask option" where
  "get_task i w = dict_get (wa_tasks w) i"

definition list_tasks :: "AgentTaskStatus option \<Rightarrow> WarmAgents \<Rightarrow> AgentTask list" where
  "list_tasks st w = (case st of None \<Rightarrow> dict_values (wa_tasks w) | Some s \<Rightarrow> filter (\<lambda>t. tk_status t = s) (dict_values (wa_tasks w)))"

definition setup_default_tasks :: "datetime \<Rightarrow> WarmAgents \<Rightarrow> WarmAgents" where
  "setup_default_tasks now w =
     add_task ''data-collection'' DATA_COLLECTION ''Periodic data aggregation and snapshot'' (1800 * 1000000) (Some DataCollection) now
      (add_task ''drift-persist'' DRIFT_PERSIST ''Periodic drift data persistence'' (600 * 1000000) (Some DriftPersist) now
       (add_task ''health-monitor'' HEALTH_CHECK ''Periodic engine health monitoring'' (60 * 1000000) (Some HealthCheck) now
        (add_task ''skill-emergence'' SKILL_EMERGENCE ''Periodic skill emergence scan (C2)'' (300 * 1000000) (Some SkillCheck) now w)))"

subsection \<open>The default handlers\<close>

text \<open>
  What the engine offers: \<^const>\<open>None\<close> where it has no such attribute, \<open>Inl\<close> the exception where it
  raises. \<open>ge_write\<close> is the exception of writing a snapshot, if there is one. The runs are given by their profiles.
\<close>

record agent_engine =
  ge_emergence :: "(string + PyVal) option"
  ge_health :: "(string + (string, PyVal) dict) option"
  ge_drift :: "(string + (string, PyVal) dict) option"
  ge_runs :: "(string + string list) option"
  ge_profiles :: "(string + string list) option"
  ge_write :: "string option"
  ge_custom :: "string \<Rightarrow> string + PyVal"
  ge_duration :: "task_handler \<Rightarrow> nat"
  ge_stamp :: "datetime \<Rightarrow> string"

definition sourced :: "(string \<times> PyVal) list \<Rightarrow> PyVal" where
  "sourced kvs = str_dict (kvs @ [(''source'', PStr ''warm-agent'')])"

text \<open>Every default handler turns an exception into a result.\<close>

definition caught :: "string + PyVal \<Rightarrow> PyVal" where
  "caught r = (case r of Inl e \<Rightarrow> sourced [(''error'', PStr e)] | Inr v \<Rightarrow> v)"

definition skill_check :: "agent_engine \<Rightarrow> PyVal" where
  "skill_check g = caught (case ge_emergence g of
     None \<Rightarrow> Inr (sourced [(''skills'', PList [])])
   | Some r \<Rightarrow> try_bind r (\<lambda>v. Inr (sourced [(''skills'', v)])))"

definition health_check :: "agent_engine \<Rightarrow> PyVal" where
  "health_check g = caught (try_bind (case ge_health g of None \<Rightarrow> Inr [] | Some r \<Rightarrow> r) (\<lambda>h. Inr (sourced
     [(''health_score'', dict_get_default h ''health_score'' (PInt 0)), (''degradation'', dict_get_default h ''degradation'' (PStr ''unknown'')),
      (''active_runs'', dict_get_default h ''active_runs'' (PInt 0))])))"

text \<open>
  A snapshot that cannot be opened leaves the file alone. \<open>os.path.join\<close> is for a directory without a final slash.
\<close>

definition path_join :: "string \<Rightarrow> string \<Rightarrow> string" where
  "path_join dir name = dir @ ''/'' @ name"

definition drift_persist :: "agent_engine \<Rightarrow> string \<Rightarrow> (string, PyVal) dict \<Rightarrow> (string, PyVal) dict \<times> PyVal" where
  "drift_persist g dir files =
     (case ge_drift g of
        None \<Rightarrow> (files, sourced [(''persisted'', PBool False)])
      | Some (Inl e) \<Rightarrow> (files, caught (Inl e))
      | Some (Inr report) \<Rightarrow>
          (case ge_write g of
             Some e \<Rightarrow> (files, caught (Inl e))
           | None \<Rightarrow> (dict_set (path_join dir ''drift-snapshot.json'') (str_dict report) files,
               sourced [(''persisted'', PBool True), (''path'', PStr (path_join dir ''drift-snapshot.json'')),
                 (''total_events'', dict_get_default report ''total_events'' (PInt 0))])))"

definition data_collection :: "agent_engine \<Rightarrow> string \<Rightarrow> datetime \<Rightarrow> (string, PyVal) dict \<Rightarrow> (string, PyVal) dict \<times> PyVal" where
  "data_collection g dir now files =
     (case try_bind (case ge_runs g of None \<Rightarrow> Inr [] | Some r \<Rightarrow> r) (\<lambda>rs.
        try_bind (case ge_profiles g of None \<Rightarrow> Inr [] | Some r \<Rightarrow> r) (\<lambda>ps. Inr (sourced
          [(''timestamp'', PStr (ge_stamp g now)), (''total_runs'', PInt (int (length rs))), (''profiles'', PList (map PStr ps)),
           (''runs_by_profile'', str_dict (fold (\<lambda>p. dict_set p (PInt (int (length (filter (\<lambda>r. r = p) rs))))) ps []))]))) of
        Inl e \<Rightarrow> (files, caught (Inl e))
      | Inr v \<Rightarrow> (case ge_write g of
            Some e \<Rightarrow> (files, caught (Inl e))
          | None \<Rightarrow> (dict_set (path_join dir ''data-snapshot.json'') v files, v)))"

definition call_handler :: "agent_engine \<Rightarrow> string \<Rightarrow> task_handler \<Rightarrow> datetime \<Rightarrow> (string, PyVal) dict \<Rightarrow> (string, PyVal) dict \<times> (string + PyVal)" where
  "call_handler g dir h now files =
     (case h of
        SkillCheck \<Rightarrow> (files, Inr (skill_check g))
      | HealthCheck \<Rightarrow> (files, Inr (health_check g))
      | DriftPersist \<Rightarrow> (case drift_persist g dir files of (fs, v) \<Rightarrow> (fs, Inr v))
      | DataCollection \<Rightarrow> (case data_collection g dir now files of (fs, v) \<Rightarrow> (fs, Inr v))
      | CustomHandler n \<Rightarrow> (files, ge_custom g n))"

subsection \<open>Running tasks\<close>

definition begin_task :: "datetime \<Rightarrow> AgentTask \<Rightarrow> AgentTask" where
  "begin_task now t = t\<lparr>tk_status := RUNNING, tk_run_count := tk_run_count t + 1, tk_last_run := Some now,
     tk_next_run := Some (now + tk_interval t)\<rparr>"

definition finish_task :: "string + PyVal \<Rightarrow> AgentTask \<Rightarrow> AgentTask" where
  "finish_task r t = (case r of
     Inr v \<Rightarrow> t\<lparr>tk_result := Some v, tk_status := COMPLETED, tk_success_count := tk_success_count t + 1\<rparr>
   | Inl e \<Rightarrow> t\<lparr>tk_status := FAILED, tk_error := Some e\<rparr>)"

definition trim_history :: "(string \<times> AgentTaskStatus \<times> datetime) list \<Rightarrow> (string \<times> AgentTaskStatus \<times> datetime) list" where
  "trim_history hs = (if length hs > 1000 then drop (length hs - 500) hs else hs)"

text \<open>The second result is the time when the handler is done.\<close>

definition run_task :: "agent_engine \<Rightarrow> datetime \<Rightarrow> AgentTask \<Rightarrow> task_handler \<Rightarrow> WarmAgents \<Rightarrow> WarmAgents \<times> datetime" where
  "run_task g now t h w =
     (let fin = now + int (ge_duration g h)
      in case call_handler g (wa_data_dir w) h fin (wa_files w) of
           (fs, r) \<Rightarrow>
             (let t = finish_task r (begin_task now t)
              in (w\<lparr>wa_files := fs, wa_tasks := dict_set (tk_id t) t (wa_tasks w), wa_executions := wa_executions w + 1,
                   wa_failures := wa_failures w + (case r of Inl e \<Rightarrow> 1 | Inr v \<Rightarrow> 0),
                   wa_history := trim_history (wa_history w @ [(tk_id t, tk_status t, fin)])\<rparr>, fin)))"

text \<open>A tick; the events are the runs with their times.\<close>

fun run_due :: "agent_engine \<Rightarrow> string list \<Rightarrow> datetime \<Rightarrow> WarmAgents \<Rightarrow> WarmAgents \<times> (datetime \<times> string) list" where
  "run_due g [] now w = (w, [])"
| "run_due g (i # is) now w =
     (case dict_get (wa_tasks w) i of
        None \<Rightarrow> run_due g is now w
      | Some t \<Rightarrow>
          (case tk_handler t of
             None \<Rightarrow> run_due g is now w
           | Some h \<Rightarrow>
               if is_due now t then
                 (case run_task g now t h w of
                    (w, fin) \<Rightarrow> (case run_due g is fin w of (w, es) \<Rightarrow> (w, (now, i) # es)))
               else run_due g is now w))"

definition tick :: "agent_engine \<Rightarrow> datetime \<Rightarrow> WarmAgents \<Rightarrow> WarmAgents \<times> (datetime \<times> string) list" where
  "tick g now w = run_due g (dict_keys (wa_tasks w)) now w"

definition start :: "datetime \<Rightarrow> WarmAgents \<Rightarrow> WarmAgents" where
  "start now w = (if wa_running w then w else w\<lparr>wa_running := True, wa_started_at := Some now\<rparr>)"

text \<open>
  \<open>stop\<close> cancels the main loop: the handler of the task \<open>i\<close>, if one is running, does not come
  back, and the task stays as it was begun.
\<close>

definition stop :: "(datetime \<times> string) option \<Rightarrow> WarmAgents \<Rightarrow> WarmAgents" where
  "stop cancelled w =
     (let w = w\<lparr>wa_running := False\<rparr>
      in case cancelled of
           None \<Rightarrow> w
         | Some (now, i) \<Rightarrow>
             (case dict_get (wa_tasks w) i of
                None \<Rightarrow> w
              | Some t \<Rightarrow> if is_due now t \<and> tk_handler t \<noteq> None
                  then w\<lparr>wa_tasks := dict_set i (begin_task now t) (wa_tasks w)\<rparr> else w))"

subsection \<open>Reports\<close>

record CoordinatorReport =
  cr_active :: nat
  cr_completed :: nat
  cr_failed :: nat
  cr_tasks :: "task_row list"
  cr_uptime :: rat
  cr_running :: bool
  cr_data_dir :: string
  cr_last_persist :: "datetime option"

definition with_status :: "AgentTaskStatus \<Rightarrow> WarmAgents \<Rightarrow> nat" where
  "with_status s w = length (filter (\<lambda>t. tk_status t = s) (dict_values (wa_tasks w)))"

definition report :: "datetime \<Rightarrow> WarmAgents \<Rightarrow> CoordinatorReport" where
  "report now w = \<lparr>cr_active = with_status RUNNING w, cr_completed = with_status COMPLETED w, cr_failed = with_status FAILED w,
     cr_tasks = map task_to_dict (dict_values (wa_tasks w)), cr_uptime = uptime now w, cr_running = wa_running w, cr_data_dir = wa_data_dir w,
     cr_last_persist = (if wa_history w = [] then None else Some (snd (snd (last (wa_history w)))))\<rparr>"

record agent_metrics =
  mt_executions :: int
  mt_failures :: int
  mt_rate :: rat
  mt_active :: nat
  mt_tasks :: nat
  mt_uptime :: rat

definition metrics :: "datetime \<Rightarrow> WarmAgents \<Rightarrow> agent_metrics" where
  "metrics now w = \<lparr>mt_executions = wa_executions w, mt_failures = wa_failures w,
     mt_rate = of_int (wa_executions w - wa_failures w) / of_int (max (wa_executions w) 1),
     mt_active = cr_active (report now w), mt_tasks = length (wa_tasks w), mt_uptime = round_places 1 (uptime now w)\<rparr>"

subsection \<open>Runs of a task keep its interval\<close>

datatype timed_op = Tick agent_engine datetime | Start datetime | Stop "(datetime \<times> string) option"

fun timed_step :: "timed_op \<Rightarrow> WarmAgents \<Rightarrow> WarmAgents \<times> (datetime \<times> string) list" where
  "timed_step (Tick g now) w = tick g now w"
| "timed_step (Start now) w = (start now w, [])"
| "timed_step (Stop None) w = (stop None w, [])"
| "timed_step (Stop (Some (now, i))) w = (stop (Some (now, i)) w,
     case dict_get (wa_tasks w) i of None \<Rightarrow> [] | Some t \<Rightarrow> if is_due now t \<and> tk_handler t \<noteq> None then [(now, i)] else [])"

text \<open>The runs of one task, and when it was last begun.\<close>

definition runs_of :: "string \<Rightarrow> timed_op \<Rightarrow> WarmAgents \<Rightarrow> WarmAgents \<times> (datetime \<times> string) list" where
  "runs_of i op w = (case timed_step op w of (w, es) \<Rightarrow> (w, filter (\<lambda>e. snd e = i) es))"

definition last_begun :: "string \<Rightarrow> WarmAgents \<Rightarrow> string \<Rightarrow> datetime option" where
  "last_begun i w k = (if k = i then Option.bind (dict_get (wa_tasks w) i) tk_last_run else None)"

definition ids_ok :: "WarmAgents \<Rightarrow> bool" where
  "ids_ok w \<longleftrightarrow> dict_wf (wa_tasks w) \<and> (\<forall>i t. dict_get (wa_tasks w) i = Some t \<longrightarrow> tk_id t = i)"

definition paced :: "int \<Rightarrow> AgentTask \<Rightarrow> bool" where
  "paced d t \<longleftrightarrow> tk_interval t = d \<and> (\<forall>u. tk_last_run t = Some u \<longrightarrow> tk_next_run t = Some (u + d))"

lemma begin_finish [simp]:
  "tk_id (begin_task n t) = tk_id t" "tk_id (finish_task r t) = tk_id t"
  "tk_last_run (begin_task n t) = Some n" "tk_last_run (finish_task r t) = tk_last_run t"
  "tk_handler (begin_task n t) = tk_handler t" "tk_handler (finish_task r t) = tk_handler t"
  by (simp_all add: begin_task_def finish_task_def split: sum.splits)

lemma paced_begin: "paced d t \<Longrightarrow> paced d (begin_task n t)"
  by (simp add: paced_def begin_task_def)

lemma paced_finish: "paced d t \<Longrightarrow> paced d (finish_task r t)"
  by (simp add: paced_def finish_task_def split: sum.splits)

lemma run_due_spec:
  assumes "run_due g is now w = (w', es)" and "ids_ok w" and "distinct is"
  shows "ids_ok w' \<and> (\<forall>i. times_of i es = [] \<and> dict_get (wa_tasks w') i = dict_get (wa_tasks w) i \<or>
    i \<in> set is \<and> (\<exists>n t r. times_of i es = [n] \<and> dict_get (wa_tasks w) i = Some t \<and> is_due n t \<and>
      dict_get (wa_tasks w') i = Some (finish_task r (begin_task n t))))"
  using assms
proof (induction "is" arbitrary: now w es)
  case (Cons i "is")
  show ?case
  proof (cases "\<exists>t h. dict_get (wa_tasks w) i = Some t \<and> tk_handler t = Some h \<and> is_due now t")
    case True
    then obtain t h where t: "dict_get (wa_tasks w) i = Some t" "tk_handler t = Some h" "is_due now t" by blast
    obtain w1 fin where r: "run_task g now t h w = (w1, fin)" by fastforce
    then obtain fs where fs: "run_due g is fin w1 = (w', fs)" "es = (now, i) # fs"
      using Cons.prems(1) t by (auto split: prod.splits)
    have "tk_id t = i" using Cons.prems(2) t(1) by (simp add: ids_ok_def)
    then obtain q where w1: "wa_tasks w1 = dict_set i (finish_task q (begin_task now t)) (wa_tasks w)"
      using r by (auto simp: run_task_def Let_def split: prod.splits)
    have "ids_ok w1"
      using Cons.prems(2) \<open>tk_id t = i\<close> by (auto simp: ids_ok_def w1)
    with Cons.IH [OF fs(1)] Cons.prems(3) have IH: "ids_ok w'"
      "\<And>j. times_of j fs = [] \<and> dict_get (wa_tasks w') j = dict_get (wa_tasks w1) j \<or>
        j \<in> set is \<and> (\<exists>n t r. times_of j fs = [n] \<and> dict_get (wa_tasks w1) j = Some t \<and> is_due n t \<and>
          dict_get (wa_tasks w') j = Some (finish_task r (begin_task n t)))"
      by auto
    have "times_of j es = [] \<and> dict_get (wa_tasks w') j = dict_get (wa_tasks w) j \<or>
      j \<in> set (i # is) \<and> (\<exists>n t r. times_of j es = [n] \<and> dict_get (wa_tasks w) j = Some t \<and> is_due n t \<and>
        dict_get (wa_tasks w') j = Some (finish_task r (begin_task n t)))" for j
    proof (cases "j = i")
      case True
      with IH(2) [of i] Cons.prems(3) have "times_of i fs = []" "dict_get (wa_tasks w') i = dict_get (wa_tasks w1) i" by auto
      with True t show ?thesis by (auto simp: fs(2) w1)
    next
      case False
      with IH(2) [of j] show ?thesis by (auto simp: fs(2) w1)
    qed
    with IH(1) show ?thesis by blast
  next
    case False
    then have "run_due g is now w = (w', es)"
      using Cons.prems(1) by (auto split: option.splits if_splits)
    from Cons.IH [OF this Cons.prems(2)] Cons.prems(3) show ?thesis by auto
  qed
qed (simp add: times_of_def)

lemma timed_step_spec:
  assumes "timed_step op w = (w', es)" and "ids_ok w"
  shows "ids_ok w' \<and> (times_of i es = [] \<and> dict_get (wa_tasks w') i = dict_get (wa_tasks w) i \<or>
    (\<exists>n t t'. times_of i es = [n] \<and> dict_get (wa_tasks w) i = Some t \<and> is_due n t \<and> dict_get (wa_tasks w') i = Some t' \<and>
      (t' = begin_task n t \<or> (\<exists>r. t' = finish_task r (begin_task n t)))))"
  using assms
proof (induction op w rule: timed_step.induct)
  case (1 g now w)
  then have "run_due g (dict_keys (wa_tasks w)) now w = (w', es)" "distinct (dict_keys (wa_tasks w))"
    by (simp_all add: tick_def ids_ok_def dict_wf_def)
  from run_due_spec [OF this(1) 1(2) this(2)] show ?case by blast
next
  case (4 now j w)
  then show ?case
    by (cases "dict_get (wa_tasks w) j") (auto simp: stop_def Let_def ids_ok_def split: if_splits)
qed (auto simp: start_def stop_def ids_ok_def split: if_splits)

lemma times_of_filter [simp]: "times_of k (filter (\<lambda>e. snd e = i) es) = (if k = i then times_of i es else [])"
  by (auto simp: times_of_def filter_empty_conv)

lemma runs_of_spec:
  assumes "runs_of i op w = (w', es)" and "ids_ok w" and "pred_option (paced d) (dict_get (wa_tasks w) i)"
  shows "ids_ok w' \<and> pred_option (paced d) (dict_get (wa_tasks w') i) \<and>
    (times_of k es = [] \<and> last_begun i w' k = last_begun i w k \<or>
     (\<exists>n. times_of k es = [n] \<and> last_begun i w' k = Some n \<and> (\<forall>u. last_begun i w k = Some u \<longrightarrow> u + d \<le> n)))"
proof -
  obtain fs where s: "timed_step op w = (w', fs)" "es = filter (\<lambda>e. snd e = i) fs"
    using assms(1) by (auto simp: runs_of_def split: prod.splits)
  note spec = timed_step_spec [OF s(1) assms(2), of i]
  then consider (idle) "times_of i fs = []" "dict_get (wa_tasks w') i = dict_get (wa_tasks w) i"
    | (run) n t t' where "times_of i fs = [n]" "dict_get (wa_tasks w) i = Some t" "is_due n t" "dict_get (wa_tasks w') i = Some t'"
        "t' = begin_task n t \<or> (\<exists>r. t' = finish_task r (begin_task n t))"
    by blast
  then show ?thesis
  proof cases
    case idle
    with spec assms(3) s(2) show ?thesis by (simp add: last_begun_def)
  next
    case run
    have "paced d t" using assms(3) run(2) by simp
    with run(5) have "paced d t'" "tk_last_run t' = Some n"
      by (auto intro: paced_begin paced_finish)
    moreover have "u + d \<le> n" if "tk_last_run t = Some u" for u
      using that run(3) \<open>paced d t\<close> by (simp add: is_due_def paced_def)
    ultimately show ?thesis
      using spec run s(2) by (auto simp: last_begun_def)
  qed
qed

interpretation task: throttled "runs_of i" "last_begun i" d "\<lambda>w. ids_ok w \<and> pred_option (paced d) (dict_get (wa_tasks w) i)" for i d
proof unfold_locales
  fix s s' :: WarmAgents and op es k t u
  assume inv: "ids_ok s \<and> pred_option (paced d) (dict_get (wa_tasks s) i)" and st: "runs_of i op s = (s', es)"
  note spec = runs_of_spec [OF st conjunct1 [OF inv] conjunct2 [OF inv], of k]
  show "ids_ok s' \<and> pred_option (paced d) (dict_get (wa_tasks s') i)" "length (times_of k es) \<le> 1"
    using spec by auto
  show "t \<in> set (times_of k es) \<Longrightarrow> last_begun i s k = Some u \<Longrightarrow> u + d \<le> t"
    "t \<in> set (times_of k es) \<Longrightarrow> last_begun i s' k = Some t"
    "times_of k es = [] \<Longrightarrow> last_begun i s' k = last_begun i s k"
    using spec by auto
qed

lemma task_runs_apart:
  assumes "ids_ok w" and "dict_get (wa_tasks w) i = Some t" and "tk_last_run t = None"
  shows "successively (\<lambda>a b. a + tk_interval t \<le> b) (times_of i (snd (run_events (runs_of i) ops w)))"
  using task.events_apart [of w "tk_interval t" i i ops] assms by (simp add: paced_def last_begun_def)

lemma ids_ok_add: "ids_ok w \<Longrightarrow> ids_ok (add_task i ty d iv h now w)"
  by (auto simp: ids_ok_def add_task_def)

definition default_intervals :: "(string \<times> int) list" where
  "default_intervals = [(''skill-emergence'', 300), (''health-monitor'', 60), (''drift-persist'', 600), (''data-collection'', 1800)]"

text \<open>However long the handlers take, whatever they do, and however often the coordinator is stopped
  within a handler and started again: two runs of a default task begin at least its interval apart.\<close>

theorem default_tasks_paced:
  "list_all (\<lambda>(i, secs). successively (\<lambda>a b. a + secs * 1000000 \<le> b)
     (times_of i (snd (run_events (runs_of i) ops (setup_default_tasks now (new_agents dir files)))))) default_intervals"
proof -
  let ?w = "setup_default_tasks now (new_agents dir files)"
  have ok: "ids_ok ?w"
    unfolding setup_default_tasks_def by (intro ids_ok_add) (simp add: ids_ok_def new_agents_def)
  have apart: "successively (\<lambda>a b. a + secs * 1000000 \<le> b) (times_of i (snd (run_events (runs_of i) ops ?w)))"
    if t: "\<exists>t. dict_get (wa_tasks ?w) i = Some t \<and> tk_last_run t = None \<and> tk_interval t = secs * 1000000" for i secs
    using task_runs_apart [OF ok, of i] t by metis
  show ?thesis
    unfolding default_intervals_def
    by (simp only: list.pred_inject prod.case simp_thms, intro conjI) (rule apart; simp add: setup_default_tasks_def add_task_def new_agents_def)+
qed

subsection \<open>Failures\<close>

datatype agent_op =
    Timed timed_op
  | AddTask string AgentTaskType string int "task_handler option" datetime
  | RemoveTask string

fun agent_step :: "agent_op \<Rightarrow> WarmAgents \<Rightarrow> WarmAgents" where
  "agent_step (Timed op) w = fst (timed_step op w)"
| "agent_step (AddTask i ty d iv h now) w = add_task i ty d iv h now w"
| "agent_step (RemoveTask i) w = fst (remove_task i w)"

text \<open>
  \<open>agents_ok P F\<close>: \<open>P\<close> holds of every task and \<open>F\<close> of the counters; the history is bounded.
\<close>

definition agents_ok :: "(AgentTask \<Rightarrow> bool) \<Rightarrow> (int \<Rightarrow> int \<Rightarrow> bool) \<Rightarrow> WarmAgents \<Rightarrow> bool" where
  "agents_ok P F w \<longleftrightarrow> ids_ok w \<and> (\<forall>i t. dict_get (wa_tasks w) i = Some t \<longrightarrow> P t) \<and> F (wa_failures w) (wa_executions w) \<and>
     length (wa_history w) \<le> 1000"

lemma agents_ok_add:
  assumes "agents_ok P F w" and "P \<lparr>tk_id = i, tk_type = ty, tk_description = d, tk_interval = iv, tk_handler = h, tk_status = PENDING,
    tk_last_run = None, tk_next_run = Some now, tk_result = None, tk_error = None, tk_run_count = 0, tk_success_count = 0\<rparr>"
  shows "agents_ok P F (add_task i ty d iv h now w)"
  using assms by (auto simp: agents_ok_def ids_ok_add) (auto simp: add_task_def split: if_splits)

lemma run_task_ok:
  assumes "agents_ok P F w" and "dict_get (wa_tasks w) i = Some t" and "tk_handler t = Some h"
    and "\<And>r fs fin. call_handler g (wa_data_dir w) h fin (wa_files w) = (fs, r) \<Longrightarrow> P (finish_task r (begin_task now t)) \<and>
      F (wa_failures w + (case r of Inl e \<Rightarrow> 1 | Inr v \<Rightarrow> 0)) (wa_executions w + 1)"
  shows "agents_ok P F (fst (run_task g now t h w))"
proof -
  obtain fs r where c: "call_handler g (wa_data_dir w) h (now + int (ge_duration g h)) (wa_files w) = (fs, r)" by fastforce
  have "tk_id t = i" using assms(1,2) by (simp add: agents_ok_def ids_ok_def)
  moreover have "length (trim_history (hs @ [x])) \<le> 1000" if "length hs \<le> 1000" for hs x
    using that by (simp add: trim_history_def)
  ultimately show ?thesis
    using assms(1) assms(4) [OF c] by (auto simp: run_task_def c Let_def agents_ok_def ids_ok_def)
qed

lemma run_due_ok:
  assumes "\<And>w i t h now r fs fin. agents_ok P F w \<Longrightarrow> dict_get (wa_tasks w) i = Some t \<Longrightarrow> tk_handler t = Some h \<Longrightarrow>
      call_handler g (wa_data_dir w) h fin (wa_files w) = (fs, r) \<Longrightarrow> P (finish_task r (begin_task now t)) \<and>
      F (wa_failures w + (case r of Inl e \<Rightarrow> 1 | Inr v \<Rightarrow> 0)) (wa_executions w + 1)"
    and "agents_ok P F w"
  shows "agents_ok P F (fst (run_due g is now w))"
  using assms(2)
proof (induction "is" arbitrary: now w)
  case (Cons i "is")
  show ?case
  proof (cases "\<exists>t h. dict_get (wa_tasks w) i = Some t \<and> tk_handler t = Some h \<and> is_due now t")
    case True
    then obtain t h where t: "dict_get (wa_tasks w) i = Some t" "tk_handler t = Some h" "is_due now t" by blast
    obtain w1 fin where r: "run_task g now t h w = (w1, fin)" by fastforce
    have "agents_ok P F w1"
      using run_task_ok [OF Cons.prems t(1,2), of g now] assms(1) [OF Cons.prems t(1,2)] r by simp
    from Cons.IH [OF this, of fin] t r show ?thesis by (simp add: case_prod_beta)
  next
    case False
    then have "run_due g (i # is) now w = run_due g is now w"
      by (auto split: option.splits)
    with Cons show ?thesis by simp
  qed
qed simp

lemma timed_step_ok:
  assumes "\<And>g w i t h now r fs fin. agents_ok P F w \<Longrightarrow> dict_get (wa_tasks w) i = Some t \<Longrightarrow> tk_handler t = Some h \<Longrightarrow>
      call_handler g (wa_data_dir w) h fin (wa_files w) = (fs, r) \<Longrightarrow> P (finish_task r (begin_task now t)) \<and>
      F (wa_failures w + (case r of Inl e \<Rightarrow> 1 | Inr v \<Rightarrow> 0)) (wa_executions w + 1)"
    and "\<And>t now. P t \<Longrightarrow> P (begin_task now t)" and "agents_ok P F w"
  shows "agents_ok P F (fst (timed_step op w))"
  using assms(3)
proof (induction op w rule: timed_step.induct)
  case (1 g now w)
  have "agents_ok P F (fst (run_due g (dict_keys (wa_tasks w)) now w))"
    by (rule run_due_ok [where F = F]) (use assms(1) 1 in blast)+
  then show ?case by (simp add: tick_def)
next
  case (4 now i w)
  then show ?case
    using assms(2) by (auto simp: stop_def Let_def agents_ok_def ids_ok_def split: option.splits)
qed (auto simp: start_def stop_def agents_ok_def ids_ok_def)

text \<open>A task never succeeds more often than it runs, and no more executions fail than there are.\<close>

definition counts_ok :: "AgentTask \<Rightarrow> bool" where
  "counts_ok t \<longleftrightarrow> 0 \<le> tk_success_count t \<and> tk_success_count t \<le> tk_run_count t"

lemma counts_begin: "counts_ok t \<Longrightarrow> counts_ok (begin_task n t) \<and> counts_ok (finish_task r (begin_task n t))"
  by (auto simp: counts_ok_def begin_task_def finish_task_def split: sum.splits)

interpretation agents: invariant_system agent_step "agents_ok counts_ok (\<lambda>f n. 0 \<le> f \<and> f \<le> n)"
proof
  fix op w assume inv: "agents_ok counts_ok (\<lambda>f n. 0 \<le> f \<and> f \<le> n) w"
  show "agents_ok counts_ok (\<lambda>f n. 0 \<le> f \<and> f \<le> n) (agent_step op w)"
  proof (cases op)
    case (Timed o')
    have "agents_ok counts_ok (\<lambda>f n. 0 \<le> f \<and> f \<le> n) (fst (timed_step o' w))"
      by (rule timed_step_ok [OF _ _ inv]) (auto simp: counts_begin agents_ok_def split: sum.splits)
    with Timed show ?thesis by simp
  qed (use inv in \<open>auto simp: agents_ok_def ids_ok_def add_task_def remove_task_def counts_ok_def\<close>)
qed

lemma agents_counts: "agents_ok counts_ok (\<lambda>f n. 0 \<le> f \<and> f \<le> n) (fold agent_step ops (new_agents dir files))"
  by (rule agents.inv_run) (simp add: agents_ok_def ids_ok_def new_agents_def)

text \<open>Every reported success rate lies between 0 and 1.\<close>

lemma success_rate_bounds:
  assumes "dict_get (wa_tasks (fold agent_step ops (new_agents dir files))) i = Some t"
  shows "0 \<le> success_rate t \<and> success_rate t \<le> 1"
proof -
  have "0 \<le> tk_success_count t" "tk_success_count t \<le> tk_run_count t"
    using agents_counts [of ops dir files] assms by (auto simp: agents_ok_def counts_ok_def)
  then show ?thesis
    by (simp add: success_rate_def divide_le_eq_1)
qed

text \<open>
  A task with a default handler that has not failed; each of its runs but those that were
  interrupted, at most \<open>c\<close> of its name, has succeeded.
\<close>

definition never_failed :: "(string \<Rightarrow> nat) \<Rightarrow> AgentTask \<Rightarrow> bool" where
  "never_failed c t \<longleftrightarrow> tk_handler t \<in> {Some SkillCheck, Some HealthCheck, Some DriftPersist, Some DataCollection} \<and>
     tk_status t \<noteq> FAILED \<and> tk_error t = None \<and> 0 \<le> tk_success_count t \<and> tk_success_count t \<le> tk_run_count t \<and>
     tk_run_count t \<le> tk_success_count t + int (c (tk_id t)) \<and>
     (c (tk_id t) = 0 \<longrightarrow> tk_status t = (if tk_run_count t = 0 then PENDING else COMPLETED))"

lemma default_handler_returns:
  "h \<in> {SkillCheck, HealthCheck, DriftPersist, DataCollection} \<Longrightarrow> call_handler g dir h now files = (fs, r) \<Longrightarrow> \<exists>v. r = Inr v"
  by (auto simp: call_handler_def split: prod.splits)

lemma never_failed_run: "never_failed c t \<Longrightarrow> never_failed c (finish_task (Inr v) (begin_task n t))"
  by (auto simp: never_failed_def begin_task_def finish_task_def)

lemma never_failed_begin: "never_failed c t \<Longrightarrow> tk_id t = i \<Longrightarrow> never_failed (c(i := Suc (c i))) (begin_task n t)"
  by (auto simp: never_failed_def begin_task_def)

lemma never_failed_other: "never_failed c t \<Longrightarrow> never_failed (c(i := Suc (c i))) t"
  by (auto simp: never_failed_def)

definition interrupts :: "string \<Rightarrow> timed_op list \<Rightarrow> nat" where
  "interrupts i ops = length (filter (\<lambda>op. case op of Stop (Some (n, j)) \<Rightarrow> j = i | _ \<Rightarrow> False) ops)"

definition tasks_fine :: "(string \<Rightarrow> nat) \<Rightarrow> WarmAgents \<Rightarrow> bool" where
  "tasks_fine c w \<longleftrightarrow> agents_ok (never_failed c) (\<lambda>f n. f = 0) w"

lemma tasks_fine_tick: "tasks_fine c w \<Longrightarrow> tasks_fine c (fst (tick g now w))"
  unfolding tick_def tasks_fine_def
proof (rule run_due_ok)
  fix w i t h now r fs fin
  assume a: "agents_ok (never_failed c) (\<lambda>f n. f = 0) w" "dict_get (wa_tasks w) i = Some t" "tk_handler t = Some h"
    "call_handler g (wa_data_dir w) h fin (wa_files w) = (fs, r)"
  then have t: "never_failed c t" by (simp add: agents_ok_def)
  with a(3) have "h \<in> {SkillCheck, HealthCheck, DriftPersist, DataCollection}" by (auto simp: never_failed_def)
  then obtain v where "r = Inr v" using default_handler_returns [OF _ a(4)] by blast
  with a(1) t show "never_failed c (finish_task r (begin_task now t)) \<and> wa_failures w + (case r of Inl e \<Rightarrow> 1 | Inr v \<Rightarrow> 0) = 0"
    by (simp add: never_failed_run agents_ok_def)
qed

lemma tasks_fine_interrupt: "tasks_fine c w \<Longrightarrow> tasks_fine (c(i := Suc (c i))) (stop (Some (now, i)) w)"
  by (auto simp: tasks_fine_def stop_def Let_def agents_ok_def ids_ok_def never_failed_other never_failed_begin split: option.splits)

lemma tasks_fine_step:
  "tasks_fine c w \<Longrightarrow> tasks_fine (\<lambda>i. c i + interrupts i [op]) (fst (timed_step op w))"
proof (induction op w rule: timed_step.induct)
  case (4 now j w)
  have "(\<lambda>i. c i + interrupts i [Stop (Some (now, j))]) = c(j := Suc (c j))" by (auto simp: interrupts_def)
  with tasks_fine_interrupt [OF 4] show ?case by simp
qed (simp_all add: interrupts_def tasks_fine_tick, simp_all add: tasks_fine_def start_def stop_def agents_ok_def ids_ok_def)

lemma tasks_fine_run:
  "tasks_fine c w \<Longrightarrow> tasks_fine (\<lambda>i. c i + interrupts i ops) (fold (\<lambda>op. fst \<circ> timed_step op) ops w)"
proof (induction ops arbitrary: c w)
  case (Cons op ops)
  have "(\<lambda>i. c i + interrupts i [op] + interrupts i ops) = (\<lambda>i. c i + interrupts i (op # ops))"
    by (auto simp: interrupts_def)
  with Cons.IH [OF tasks_fine_step [OF Cons.prems, of op]] show ?case by simp
qed (simp add: interrupts_def)

lemma tasks_fineD:
  assumes "tasks_fine c w"
  shows "wa_failures w = 0 \<and> cr_failed (report u w) = 0 \<and>
    list_all (\<lambda>t. tk_error t = None \<and> tk_success_count t \<le> tk_run_count t \<and>
      tk_run_count t \<le> tk_success_count t + int (c (tk_id t)) \<and>
      (if c (tk_id t) = 0 then tk_status t = (if tk_run_count t = 0 then PENDING else COMPLETED) else True))
      (dict_values (wa_tasks w))"
proof -
  have each: "never_failed c t" if "t \<in> set (dict_values (wa_tasks w))" for t
    using assms that by (auto simp: tasks_fine_def agents_ok_def ids_ok_def dict_get_iff)
  have "filter (\<lambda>t. tk_status t = FAILED) (dict_values (wa_tasks w)) = []"
    unfolding filter_empty_conv using each by (simp only: never_failed_def) blast
  moreover have "wa_failures w = 0" using assms by (simp add: tasks_fine_def agents_ok_def)
  moreover have "list_all (\<lambda>t. tk_error t = None \<and> tk_success_count t \<le> tk_run_count t \<and>
      tk_run_count t \<le> tk_success_count t + int (c (tk_id t)) \<and>
      (if c (tk_id t) = 0 then tk_status t = (if tk_run_count t = 0 then PENDING else COMPLETED) else True))
      (dict_values (wa_tasks w))"
    unfolding list_all_iff
  proof
    fix t assume "t \<in> set (dict_values (wa_tasks w))"
    from each [OF this] show "tk_error t = None \<and> tk_success_count t \<le> tk_run_count t \<and>
      tk_run_count t \<le> tk_success_count t + int (c (tk_id t)) \<and>
      (if c (tk_id t) = 0 then tk_status t = (if tk_run_count t = 0 then PENDING else COMPLETED) else True)"
      by (simp add: never_failed_def)
  qed
  ultimately show ?thesis by (simp add: report_def with_status_def)
qed

text \<open>C19: The default tasks never fail, even when the engine raises on every call: their handlers turn the
  exception into a result. So whatever ticks, starts and stops there are, the failures stay at zero and no
  task has an error; every run of a task counts as a success, apart from those that a stop has interrupted,
  and a task that was never interrupted is completed as soon as it has run.\<close>

theorem default_failures_hidden:
  "let w = fold (\<lambda>op. fst \<circ> timed_step op) ops (setup_default_tasks now (new_agents dir files))
   in wa_failures w = 0 \<and> cr_failed (report t w) = 0 \<and>
     list_all (\<lambda>t. tk_error t = None \<and> tk_success_count t \<le> tk_run_count t \<and>
       tk_run_count t \<le> tk_success_count t + int (interrupts (tk_id t) ops) \<and>
       (if interrupts (tk_id t) ops = 0 then tk_status t = (if tk_run_count t = 0 then PENDING else COMPLETED) else True))
       (dict_values (wa_tasks w))"
proof -
  have "tasks_fine (\<lambda>i. 0) (setup_default_tasks now (new_agents dir files))"
    unfolding setup_default_tasks_def tasks_fine_def
    by (intro agents_ok_add) (simp_all add: agents_ok_def ids_ok_def new_agents_def never_failed_def)
  from tasks_fineD [OF tasks_fine_run [OF this, of ops], of t] show ?thesis
    unfolding Let_def add_0 .
qed

end
