(* ===== verification/Drift.thy ===== *)
theory Drift
  imports Systems PyString PyValue
begin

text \<open>
  The drift detector (\<open>engine/aidetect.py\<close>): the collector with its two indices, trends, emergence
  candidates, anomalies and the report. Means and slopes are exact rationals; a standard deviation is a
  real number. \<open>hash\<close> and the language model are arguments. Times are in microseconds, and the
  buckets of an hour are those of that clock.
\<close>

subsection \<open>Events\<close>

datatype DriftType = FORMAT | CONTENT | LOGIC | HALLUCINATION | TIMEOUT | VALIDATION | STATE_TRANSITION | PERFORMANCE | DEPENDENCY | RESOURCE

datatype DriftSeverity = LOW | MEDIUM | HIGH | CRITICAL

datatype TrendDirection = IMPROVING | STABLE | DEGRADING

definition drift_types :: "DriftType list" where
  "drift_types = [FORMAT, CONTENT, LOGIC, HALLUCINATION, TIMEOUT, VALIDATION, STATE_TRANSITION, PERFORMANCE, DEPENDENCY, RESOURCE]"

fun type_value :: "DriftType \<Rightarrow> string" where
  "type_value FORMAT = ''format''"
| "type_value CONTENT = ''content''"
| "type_value LOGIC = ''logic''"
| "type_value HALLUCINATION = ''hallucination''"
| "type_value TIMEOUT = ''timeout''"
| "type_value VALIDATION = ''validation''"
| "type_value STATE_TRANSITION = ''state_transition''"
| "type_value PERFORMANCE = ''performance''"
| "type_value DEPENDENCY = ''dependency''"
| "type_value RESOURCE = ''resource''"

fun severity_value :: "DriftSeverity \<Rightarrow> string" where
  "severity_value LOW = ''low''"
| "severity_value MEDIUM = ''medium''"
| "severity_value HIGH = ''high''"
| "severity_value CRITICAL = ''critical''"

record DriftEvent =
  de_id :: string
  de_type :: DriftType
  de_severity :: DriftSeverity
  de_run :: string
  de_state :: string
  de_timestamp :: datetime
  de_description :: string
  de_metadata :: "(string \<times> PyVal) list"

subsection \<open>The collector\<close>

record Collector =
  dp_events :: "DriftEvent list"
  dp_max :: int
  dp_by_type :: "(DriftType, DriftEvent list) dict"
  dp_by_run :: "(string, DriftEvent list) dict"

definition new_collector :: "int \<Rightarrow> Collector" where
  "new_collector n = \<lparr>dp_events = [], dp_max = n, dp_by_type = [], dp_by_run = []\<rparr>"

text \<open>
  An index loses its first event when that is the evicted one. The code compares objects, the model
  values; the lemma \<open>evict_head\<close> below shows that the comparison always succeeds.
\<close>

definition pop_head :: "DriftEvent \<Rightarrow> 'k \<Rightarrow> ('k, DriftEvent list) dict \<Rightarrow> ('k, DriftEvent list) dict" where
  "pop_head e k d =
     (case dict_get d k of
        None \<Rightarrow> d
      | Some [] \<Rightarrow> d
      | Some (x # xs) \<Rightarrow> if x = e then dict_set k xs d else d)"

definition record_event :: "DriftEvent \<Rightarrow> Collector \<Rightarrow> Collector" where
  "record_event e c =
     (let es = dp_events c @ [e];
          bt = dict_append (de_type e) e (dp_by_type c);
          br = dict_append (de_run e) e (dp_by_run c)
      in if int (length es) > dp_max c then
           c\<lparr>dp_events := List.tl es, dp_by_type := pop_head (hd es) (de_type (hd es)) bt,
             dp_by_run := pop_head (hd es) (de_run (hd es)) br\<rparr>
         else c\<lparr>dp_events := es, dp_by_type := bt, dp_by_run := br\<rparr>)"

definition record_from ::
    "string \<Rightarrow> DriftType \<Rightarrow> DriftSeverity \<Rightarrow> string \<Rightarrow> string \<Rightarrow> string \<Rightarrow> (string \<times> PyVal) list \<Rightarrow> datetime
      \<Rightarrow> Collector \<Rightarrow> Collector \<times> DriftEvent" where
  "record_from i ty sev run st desc meta now c =
     (let e = \<lparr>de_id = i, de_type = ty, de_severity = sev, de_run = run, de_state = st, de_timestamp = now,
        de_description = desc, de_metadata = meta\<rparr>
      in (record_event e c, e))"

definition get_events :: "DriftType option \<Rightarrow> string \<Rightarrow> datetime option \<Rightarrow> int \<Rightarrow> Collector \<Rightarrow> DriftEvent list" where
  "get_events ty run since n c =
     (let es = (case ty of None \<Rightarrow> dp_events c | Some t \<Rightarrow> dict_get_default (dp_by_type c) t []);
          es = (if run = [] then es else filter (\<lambda>e. de_run e = run) es);
          es = (case since of None \<Rightarrow> es | Some t \<Rightarrow> filter (\<lambda>e. t \<le> de_timestamp e) es)
      in py_drop (- n) es)"

text \<open>\<open>Counter\<close>: how often each value occurs, in the order of the first occurrences.\<close>

definition counter :: "'a list \<Rightarrow> ('a, int) dict" where
  "counter xs = fold (\<lambda>x d. dict_set x (dict_get_default d x 0 + 1) d) xs []"

definition count_by_type :: "datetime option \<Rightarrow> Collector \<Rightarrow> (string, int) dict" where
  "count_by_type since c = counter (map (\<lambda>e. type_value (de_type e))
     (case since of None \<Rightarrow> dp_events c | Some t \<Rightarrow> filter (\<lambda>e. t \<le> de_timestamp e) (dp_events c)))"

definition count_by_run :: "string \<Rightarrow> Collector \<Rightarrow> nat" where
  "count_by_run run c = length (dict_get_default (dp_by_run c) run [])"

definition total_events :: "Collector \<Rightarrow> nat" where
  "total_events c = length (dp_events c)"

definition unique_types :: "Collector \<Rightarrow> DriftType list" where
  "unique_types c = dict_keys (dp_by_type c)"

definition clear :: "Collector \<Rightarrow> Collector" where
  "clear c = c\<lparr>dp_events := [], dp_by_type := [], dp_by_run := []\<rparr>"

subsection \<open>Statistics\<close>

definition mean :: "int list \<Rightarrow> rat" where
  "mean xs = of_int (sum_list xs) / of_nat (length xs)"

definition deviations :: "int list \<Rightarrow> rat" where
  "deviations xs = sum_list (map (\<lambda>x. (of_int x - mean xs)\<^sup>2) xs)"

text \<open>\<open>statistics.stdev\<close>, the square root of the variance of a sample; it raises for fewer than two values.\<close>

definition stdev :: "int list \<Rightarrow> real" where
  "stdev xs = sqrt (of_rat (deviations xs / of_nat (length xs - 1)))"

definition slope :: "int list \<Rightarrow> int list \<Rightarrow> rat" where
  "slope xs ys =
     (let num = sum_list (map2 (\<lambda>x y. (of_int x - mean xs) * (of_int y - mean ys)) xs ys); den = deviations xs
      in if den \<noteq> 0 then num / den else 0)"

definition round_rat :: "nat \<Rightarrow> rat \<Rightarrow> rat" where
  "round_rat n x = of_int (round_half_even (x * 10 ^ n)) / 10 ^ n"

definition round_real :: "nat \<Rightarrow> real \<Rightarrow> real" where
  "round_real n x =
     (let y = x * 10 ^ n; f = \<lfloor>y\<rfloor>; d = y - of_int f
      in of_int (if d < 1 / 2 \<or> (d = 1 / 2 \<and> even f) then f else f + 1) / 10 ^ n)"

subsection \<open>Trends\<close>

record trend =
  td_direction :: TrendDirection
  td_rate :: rat
  td_volatility :: real
  td_confidence :: rat
  td_points :: nat

definition direction_of :: "rat \<Rightarrow> rat \<Rightarrow> TrendDirection" where
  "direction_of limit s = (if \<bar>s\<bar> < limit then STABLE else if s < 0 then IMPROVING else DEGRADING)"

text \<open>The loop that counts the events of a run, whose runs are numbered in the order in which they appear.\<close>

fun bump :: "int \<Rightarrow> (int \<times> int) list \<Rightarrow> (int \<times> int) list" where
  "bump i [] = [(i, 1)]"
| "bump i ((j, n) # rs) = (if j = i then (i, n + 1) # rs else (j, n) # bump i rs)"

definition count_run :: "DriftEvent \<Rightarrow> (string, int) dict \<times> (int \<times> int) list \<Rightarrow> (string, int) dict \<times> (int \<times> int) list" where
  "count_run e s = (case s of (idx, rs) \<Rightarrow>
     (let idx = (if dict_has idx (de_run e) then idx else dict_set (de_run e) (int (length idx)) idx)
      in (idx, bump (dict_get_default idx (de_run e) 0) rs)))"

definition run_counts :: "DriftEvent list \<Rightarrow> (int \<times> int) list" where
  "run_counts es = snd (fold count_run es ([], []))"

definition analyze_trend :: "DriftType option \<Rightarrow> Collector \<Rightarrow> trend" where
  "analyze_trend ty c =
     (let es = get_events ty [] None 100 c
      in if length es < 3 then \<lparr>td_direction = STABLE, td_rate = 0, td_volatility = 0, td_confidence = 0, td_points = length es\<rparr>
      else
        let rs = run_counts es
        in if length rs < 2 then \<lparr>td_direction = STABLE, td_rate = 0, td_volatility = 0, td_confidence = 3 / 10, td_points = length rs\<rparr>
        else
          let xs = map fst rs; ys = map snd rs; s = slope xs ys;
              vol = (if mean ys > 0 then stdev ys / of_rat (mean ys) else 0)
          in \<lparr>td_direction = direction_of (5 / 100) s, td_rate = round_rat 4 s, td_volatility = round_real 4 vol,
               td_confidence = round_rat 2 (min 1 (of_nat (length xs) / 10)), td_points = length xs\<rparr>)"

fun severity_number :: "DriftSeverity \<Rightarrow> int" where
  "severity_number LOW = 1"
| "severity_number MEDIUM = 2"
| "severity_number HIGH = 3"
| "severity_number CRITICAL = 4"

text \<open>The direction, and the rate, the confidence and the points where the code has them.\<close>

definition analyze_severity_trend :: "Collector \<Rightarrow> TrendDirection \<times> (rat \<times> rat \<times> nat) option" where
  "analyze_severity_trend c =
     (if length (dp_events c) < 3 then (STABLE, None)
      else
        let ys = map (\<lambda>e. severity_number (de_severity e)) (py_drop (-50) (dp_events c)); n = length ys;
            s = slope (map int [0..<n]) ys
        in (direction_of (2 / 100) s, Some (round_rat 4 s, round_rat 2 (min 1 (of_nat n / 30)), n)))"

definition get_volatility :: "DriftType option \<Rightarrow> Collector \<Rightarrow> real" where
  "get_volatility ty c =
     (let es = get_events ty [] None 100 c;
          counts = dict_values (counter (map (\<lambda>e. de_timestamp e div 3600000000) es))
      in if length es < 3 \<or> length counts < 2 then 0
         else if mean counts > 0 then stdev counts / of_rat (mean counts) else 0)"

subsection \<open>Emergence\<close>

record EmergenceCandidate =
  ec_pattern :: string
  ec_type :: DriftType
  ec_description :: string
  ec_occurrences :: nat
  ec_runs :: nat
  ec_trend :: TrendDirection
  ec_recommendation :: string
  ec_skill :: string
  ec_confidence :: rat

definition group_key :: "DriftEvent \<Rightarrow> string" where
  "group_key e = type_value (de_type e) @ '':'' @ utf8_take 50 (de_description e)"

definition pattern_groups :: "DriftEvent list \<Rightarrow> (string, DriftEvent list) dict" where
  "pattern_groups es = fold (\<lambda>e. dict_append (group_key e) e) es []"

fun trend_weight :: "TrendDirection \<Rightarrow> rat" where
  "trend_weight DEGRADING = 1"
| "trend_weight STABLE = 8 / 10"
| "trend_weight IMPROVING = 4 / 10"

definition calculate_confidence :: "nat \<Rightarrow> nat \<Rightarrow> TrendDirection \<Rightarrow> rat" where
  "calculate_confidence occurrences runs t =
     (let occurrence_score = min 1 (of_nat occurrences / 8); run_coverage = min 1 (of_nat runs / 4);
          density_bonus = min 1 (of_nat occurrences / of_nat (max runs 1) / 3)
      in round_rat 3 (occurrence_score * (35 / 100) + run_coverage * (20 / 100) + density_bonus * (25 / 100) + trend_weight t * (25 / 100)))"

definition quoted :: "string \<Rightarrow> string" where
  "quoted s = [CHR 0x27] @ s @ [CHR 0x27]"

definition generate_recommendation :: "DriftType \<Rightarrow> string \<Rightarrow> string" where
  "generate_recommendation t d =
     (case t of
        FORMAT \<Rightarrow> ''Create format validation skill to auto-fix '' @ quoted d @ '' patterns''
      | CONTENT \<Rightarrow> ''Create content template skill to standardize '' @ quoted d
      | LOGIC \<Rightarrow> ''Create logic guard skill to prevent '' @ quoted d @ '' in state transitions''
      | HALLUCINATION \<Rightarrow> ''Create hallucination scanner skill to detect '' @ quoted d @ '' patterns''
      | TIMEOUT \<Rightarrow> ''Create timeout handler skill for '' @ quoted d
      | VALIDATION \<Rightarrow> ''Create validation rule skill for '' @ quoted d
      | STATE_TRANSITION \<Rightarrow> ''Create state guard skill to enforce '' @ quoted d @ '' rules''
      | PERFORMANCE \<Rightarrow> ''Create performance benchmark skill for '' @ quoted d
      | DEPENDENCY \<Rightarrow> ''Create dependency checker skill for '' @ quoted d
      | RESOURCE \<Rightarrow> ''Create resource monitor skill for '' @ quoted d)"

definition generate_skill_name :: "DriftType \<Rightarrow> string \<Rightarrow> string" where
  "generate_skill_name t d =
     (let suffix = join ''-'' (filter (\<lambda>w. utf8_length w > 3) (take 3 (py_words (lower d))))
      in ''ai-'' @ type_value t @ ''-'' @ (if suffix = [] then ''auto-detect'' else suffix))"

definition zero_pad :: "nat \<Rightarrow> string \<Rightarrow> string" where
  "zero_pad n s = replicate (n - length s) CHR ''0'' @ s"

text \<open>A candidate, if the group has enough events and confidence; \<open>hash\<close> is Python's.\<close>

definition candidate_of :: "(string \<Rightarrow> int) \<Rightarrow> nat \<Rightarrow> TrendDirection \<Rightarrow> DriftEvent list \<Rightarrow> EmergenceCandidate option" where
  "candidate_of hash least t es =
     (if length es < least then None
      else
        let ty = de_type (hd es); d = de_description (hd es); n = length es; runs = card (set (map de_run es));
            conf = calculate_confidence n runs t
        in if conf < 1 / 2 then None
           else Some \<lparr>ec_pattern = ''EM-'' @ type_value ty @ ''-'' @ zero_pad 4 (show_int (hash d mod 10000)), ec_type = ty,
             ec_description = utf8_take 200 d, ec_occurrences = n, ec_runs = runs, ec_trend = t,
             ec_recommendation = generate_recommendation ty d, ec_skill = generate_skill_name ty d, ec_confidence = conf\<rparr>)"

text \<open>Sorting with \<open>reverse=True\<close> keeps the order of candidates of the same confidence.\<close>

definition detect_candidates :: "(string \<Rightarrow> int) \<Rightarrow> nat \<Rightarrow> Collector \<Rightarrow> EmergenceCandidate list" where
  "detect_candidates hash least c =
     (let cs = List.map_filter (candidate_of hash least (fst (analyze_severity_trend c))) (dict_values (pattern_groups (dp_events c)))
      in rev (sort_key ec_confidence (rev cs)))"

subsection \<open>Anomalies\<close>

definition z_score :: "int list \<Rightarrow> int \<Rightarrow> real" where
  "z_score counts n = of_rat (of_int n - mean counts) / stdev counts"

record run_anomaly =
  ra_run :: string
  ra_count :: int
  ra_z :: real
  ra_mean :: rat
  ra_std :: real
  ra_severity :: string

definition scan_runs :: "Collector \<Rightarrow> run_anomaly list" where
  "scan_runs c =
     (let d = counter (map de_run (dp_events c)); counts = dict_values d
      in if length counts < 3 then []
         else List.map_filter (\<lambda>(run, n).
           if stdev counts > 0 \<and> \<bar>z_score counts n\<bar> > 2 then
             Some \<lparr>ra_run = run, ra_count = n, ra_z = round_real 2 (z_score counts n), ra_mean = round_rat 2 (mean counts),
               ra_std = round_real 2 (stdev counts), ra_severity = (if \<bar>z_score counts n\<bar> > 3 then ''high'' else ''medium'')\<rparr>
           else None) d)"

record type_anomaly =
  ta_type :: string
  ta_count :: int
  ta_z :: real
  ta_percentage :: rat

definition scan_types :: "Collector \<Rightarrow> type_anomaly list" where
  "scan_types c =
     (let d = count_by_type None c; counts = dict_values d
      in if length counts < 3 then []
         else List.map_filter (\<lambda>(ty, n).
           if stdev counts > 0 \<and> z_score counts n > 2 then
             Some \<lparr>ta_type = ty, ta_count = n, ta_z = round_real 2 (z_score counts n),
               ta_percentage = round_rat 1 (of_int n / of_int (sum_list counts) * 100)\<rparr>
           else None) d)"

subsection \<open>The detector\<close>

text \<open>
  The model, if there is one, is given the two messages of a request; it answers with the content of its
  result or raises.
\<close>

type_synonym drift_llm = "string \<Rightarrow> string \<Rightarrow> string + string option"

record DriftDetector =
  dd_collector :: Collector
  dd_analyses :: int

definition new_detector :: "int \<Rightarrow> DriftDetector" where
  "new_detector n = \<lparr>dd_collector = new_collector n, dd_analyses = 0\<rparr>"

definition record_drift ::
    "string \<Rightarrow> DriftType \<Rightarrow> DriftSeverity \<Rightarrow> string \<Rightarrow> string \<Rightarrow> string \<Rightarrow> (string \<times> PyVal) list \<Rightarrow> datetime
      \<Rightarrow> DriftDetector \<Rightarrow> DriftDetector \<times> DriftEvent" where
  "record_drift i ty sev run st desc meta now d =
     (case record_from i ty sev run st desc meta now (dd_collector d) of (c, e) \<Rightarrow> (d\<lparr>dd_collector := c\<rparr>, e))"

definition trends_of :: "Collector \<Rightarrow> (string \<times> trend) list" where
  "trends_of c = filter (\<lambda>(k, t). td_points t > 0) (map (\<lambda>ty. (type_value ty, analyze_trend (Some ty) c)) drift_types)"

definition analyze_trends :: "DriftDetector \<Rightarrow> DriftDetector \<times> (string \<times> trend) list" where
  "analyze_trends d = (d\<lparr>dd_analyses := dd_analyses d + 1\<rparr>, trends_of (dd_collector d))"

definition analysis_system :: string where
  "analysis_system = ''You are a drift analysis assistant. Analyze the following drift events from a state machine pipeline and produce a concise natural language summary of patterns, root causes, and recommendations.''"

definition analysis_prompt :: "DriftEvent list \<Rightarrow> string" where
  "analysis_prompt es =
     (let line = (\<lambda>e. ''- ['' @ severity_value (de_severity e) @ ''] '' @ type_value (de_type e) @ '': '' @ utf8_take 120 (de_description e));
          nl = [CHR 0x0A]
      in ''Analyze these '' @ show_int (int (length es)) @ '' drift events:'' @ nl @ nl @ join nl (map line (py_drop (-20) es)) @ nl @ nl @
         ''Provide a brief analysis of patterns found, likely root causes, and recommended actions.'')"

definition analyze_drift_semantic :: "drift_llm option \<Rightarrow> DriftEvent list \<Rightarrow> string" where
  "analyze_drift_semantic llm es =
     (case llm of
        None \<Rightarrow> []
      | Some f \<Rightarrow> (case f analysis_system (analysis_prompt es) of Inl e \<Rightarrow> [] | Inr None \<Rightarrow> [] | Inr (Some s) \<Rightarrow> s))"

record drift_report =
  rp_health :: rat
  rp_total :: nat
  rp_trends :: "(string \<times> trend) list"
  rp_candidates :: "EmergenceCandidate list"
  rp_runs :: "run_anomaly list"
  rp_types :: "type_anomaly list"
  rp_degrading :: nat
  rp_stable :: nat
  rp_analysis :: string

definition generate_report :: "(string \<Rightarrow> int) \<Rightarrow> drift_llm option \<Rightarrow> DriftDetector \<Rightarrow> DriftDetector \<times> drift_report" where
  "generate_report hash llm d0 =
     (case analyze_trends d0 of (d, trs) \<Rightarrow>
       (let c = dd_collector d; runs = scan_runs c;
            degrading = length (filter (\<lambda>(k, t). td_direction t = DEGRADING) trs);
            h1 = max 0 (100 - of_nat degrading / of_nat (max (length trs) 1) * 50);
            h2 = max 0 (h1 - of_nat (length runs) * 10)
        in (d, \<lparr>rp_health = round_rat 1 h2, rp_total = total_events c, rp_trends = trs, rp_candidates = detect_candidates hash 3 c,
             rp_runs = runs, rp_types = scan_types c, rp_degrading = degrading, rp_stable = length trs - degrading,
             rp_analysis = analyze_drift_semantic llm (dp_events c)\<rparr>)))"

definition detector_metrics :: "DriftDetector \<Rightarrow> nat \<times> nat \<times> int" where
  "detector_metrics d = (total_events (dd_collector d), length (unique_types (dd_collector d)), dd_analyses d)"

definition reset_detector :: "DriftDetector \<Rightarrow> DriftDetector" where
  "reset_detector d = d\<lparr>dd_collector := clear (dd_collector d), dd_analyses := 0\<rparr>"

subsection \<open>The collector keeps the last events, and its indices select from them\<close>

definition indexed :: "int \<Rightarrow> Collector \<Rightarrow> bool" where
  "indexed n c \<longleftrightarrow> dp_max c = n \<and>
     (\<forall>t. dict_get_default (dp_by_type c) t [] = filter (\<lambda>e. de_type e = t) (dp_events c)) \<and>
     (\<forall>r. dict_get_default (dp_by_run c) r [] = filter (\<lambda>e. de_run e = r) (dp_events c))"

definition keep_last :: "int \<Rightarrow> DriftEvent \<Rightarrow> DriftEvent list \<Rightarrow> DriftEvent list" where
  "keep_last n e es = (if int (length (es @ [e])) > n then List.tl (es @ [e]) else es @ [e])"

lemma get_append: "dict_get_default (dict_append k x d) j [] = (if j = k then dict_get_default d k [] @ [x] else dict_get_default d j [])"
  by (simp add: dict_get_default_def dict_get_append)

text \<open>The first event is the first one of its index.\<close>

lemma evict_head:
  assumes "dict_get_default d (key e) [] = filter (\<lambda>x. key x = key e) (e # es)"
  shows "dict_get_default (pop_head e (key e) d) j [] = (if j = key e then filter (\<lambda>x. key x = j) es else dict_get_default d j [])"
  using assms by (auto simp: pop_head_def dict_get_default_def split: option.splits list.splits)

lemma index_record:
  assumes "\<forall>k. dict_get_default d k [] = filter (\<lambda>x. key x = k) es" and "es @ [e] = x # xs"
  shows "dict_get_default (pop_head x (key x) (dict_append (key e) e d)) k [] = filter (\<lambda>x. key x = k) xs"
proof -
  have all: "dict_get_default (dict_append (key e) e d) k [] = filter (\<lambda>y. key y = k) (x # xs)" for k
    using assms(1) unfolding assms(2) [symmetric] by (simp add: get_append)
  show ?thesis
    using evict_head [of "dict_append (key e) e d" key x xs k] all [of "key x"] all [of k] by (auto split: if_splits)
qed

lemma record_indexed: "indexed n c \<Longrightarrow> indexed n (record_event e c)"
  and record_events: "indexed n c \<Longrightarrow> dp_events (record_event e c) = keep_last n e (dp_events c)"
proof -
  assume inv: "indexed n c"
  obtain x xs where x: "dp_events c @ [e] = x # xs" by (cases "dp_events c @ [e]") auto
  show "dp_events (record_event e c) = keep_last n e (dp_events c)"
    using inv by (simp add: record_event_def keep_last_def indexed_def Let_def)
  show "indexed n (record_event e c)"
  proof (cases "int (length (dp_events c @ [e])) > n")
    case True
    then have "record_event e c = c\<lparr>dp_events := xs, dp_by_type := pop_head x (de_type x) (dict_append (de_type e) e (dp_by_type c)),
        dp_by_run := pop_head x (de_run x) (dict_append (de_run e) e (dp_by_run c))\<rparr>"
      using inv x by (simp add: record_event_def Let_def indexed_def)
    then show ?thesis
      using inv index_record [OF _ x, of "dp_by_type c" de_type] index_record [OF _ x, of "dp_by_run c" de_run]
      by (simp add: indexed_def)
  next
    case False
    then show ?thesis
      using inv by (simp add: record_event_def indexed_def Let_def get_append)
  qed
qed

interpretation collector: refinement_system record_event "indexed n" dp_events "keep_last n" for n
  by unfold_locales (auto intro: record_indexed record_events)

lemma keep_last_run: "fold (keep_last (int n)) es [] = drop (length es - n) es"
proof (induction es rule: rev_induct)
  case (snoc e es)
  show ?case
  proof (cases "length es < n")
    case False
    then have k: "length es + 1 - n = Suc (length es - n)" "length (drop (length es - n) es) = n" by auto
    have "List.tl (drop (length es - n) es @ [e]) = drop (Suc (length es - n)) (es @ [e])"
      unfolding drop_Suc tl_drop [symmetric] by simp
    with snoc k show ?thesis by (simp add: keep_last_def)
  qed (use snoc in \<open>simp add: keep_last_def\<close>)
qed simp

lemma new_indexed: "indexed n (new_collector n)"
  by (simp add: indexed_def new_collector_def dict_get_default_def)

lemma collector_events: "dp_events (fold record_event es (new_collector (int n))) = drop (length es - n) es"
  using collector.abst_run [OF new_indexed] keep_last_run [of n es] by (simp add: new_collector_def)

text \<open>C21: A collector of size \<open>n\<close> holds exactly the last \<open>n\<close> events that were recorded, and a query by
  type or by run through an index returns those of them that a scan would.\<close>

theorem collector_keeps_last:
  "let c = fold record_event es (new_collector (int n)); kept = drop (length es - n) es
   in dp_events c = kept \<and> get_events (Some t) [] None (int (length es)) c = filter (\<lambda>e. de_type e = t) kept \<and>
      count_by_run r c = length (filter (\<lambda>e. de_run e = r) kept)"
proof -
  let ?c = "fold record_event es (new_collector (int n))"
  have inv: "indexed (int n) ?c" by (rule collector.inv_run [OF new_indexed])
  note ev = collector_events [of es n]
  have "py_drop (- int (length es)) (filter P (drop k es)) = filter P (drop k es)" for P k
  proof (cases "es = []")
    case False
    have "length (filter P (drop k es)) \<le> length es"
      by (rule le_trans [OF length_filter_le]) simp
    with False show ?thesis by (simp add: py_drop_def)
  qed (simp add: py_drop_def)
  with inv ev show ?thesis
    by (simp add: Let_def get_events_def indexed_def count_by_run_def)
qed

subsection \<open>How far a count can be from the mean\<close>

lemma square_sum_le: "(sum_list xs)\<^sup>2 \<le> of_nat (length xs) * sum_list (map (\<lambda>x. x\<^sup>2) xs)" for xs :: "rat list"
proof (induction xs)
  case (Cons x xs)
  let ?s = "sum_list xs" and ?q = "sum_list (map (\<lambda>x. x\<^sup>2) xs)" and ?n = "of_nat (length xs) :: rat"
  have "2 * x * ?s \<le> ?n * x\<^sup>2 + ?q"
  proof (cases "xs = []")
    case False
    then have n: "?n > 0" by simp
    have "0 \<le> (?n * x - ?s)\<^sup>2" by simp
    then have "2 * ?n * x * ?s \<le> ?n\<^sup>2 * x\<^sup>2 + ?s\<^sup>2" by (simp add: power2_diff power_mult_distrib algebra_simps)
    also have "\<dots> \<le> ?n\<^sup>2 * x\<^sup>2 + ?n * ?q" using Cons.IH by simp
    finally have "?n * (2 * x * ?s) \<le> ?n * (?n * x\<^sup>2 + ?q)" by (simp add: algebra_simps power2_eq_square)
    with n show ?thesis by simp
  qed simp
  moreover have "(sum_list (x # xs))\<^sup>2 = x\<^sup>2 + 2 * x * ?s + ?s\<^sup>2"
    by (simp add: power2_sum algebra_simps)
  ultimately have "(sum_list (x # xs))\<^sup>2 \<le> x\<^sup>2 + (?n * x\<^sup>2 + ?q) + ?n * ?q"
    using Cons.IH by linarith
  then show ?case by (simp add: algebra_simps)
qed simp

lemma deviation_sum: "xs \<noteq> [] \<Longrightarrow> sum_list (map (\<lambda>x. of_int x - mean xs) xs) = 0"
proof -
  assume "xs \<noteq> []"
  then have "of_nat (length xs) * mean xs = of_int (sum_list xs)" by (simp add: mean_def)
  moreover have "sum_list (map (\<lambda>x. of_int x - m) ys) = of_int (sum_list ys) - of_nat (length ys) * m" for m :: rat and ys
    by (induction ys) (simp_all add: algebra_simps)
  ultimately show ?thesis by simp
qed

text \<open>No value of a sample of \<open>n\<close> deviates from its mean by more than \<open>(n - 1) / sqrt n\<close> standard deviations.\<close>

lemma sample_deviation_bound:
  assumes "x \<in> set xs"
  shows "of_nat (length xs) * (of_int x - mean xs)\<^sup>2 \<le> of_nat (length xs - 1) * deviations xs"
proof -
  obtain as bs where xs: "xs = as @ x # bs" using assms by (meson split_list)
  let ?d = "\<lambda>y. of_int y - mean xs :: rat"
  let ?rest = "map ?d (as @ bs)"
  have "sum_list ?rest + ?d x = 0"
    using deviation_sum [of xs] unfolding xs by simp
  then have "sum_list ?rest = - ?d x" by linarith
  moreover have "map (\<lambda>x. x\<^sup>2) ?rest = map (\<lambda>y. (?d y)\<^sup>2) (as @ bs)" by simp
  ultimately have "(?d x)\<^sup>2 \<le> of_nat (length (as @ bs)) * sum_list (map (\<lambda>y. (?d y)\<^sup>2) (as @ bs))"
    using square_sum_le [of ?rest] by (metis length_map power2_minus)
  also have "sum_list (map (\<lambda>y. (?d y)\<^sup>2) (as @ bs)) = deviations xs - (?d x)\<^sup>2"
    unfolding deviations_def by (subst (3) xs) simp
  finally have "(?d x)\<^sup>2 \<le> of_nat (length xs - 1) * (deviations xs - (?d x)\<^sup>2)"
    by (simp add: xs)
  moreover have "of_nat (length xs) * (?d x)\<^sup>2 = of_nat (length xs - 1) * (?d x)\<^sup>2 + (?d x)\<^sup>2"
    by (simp add: xs distrib_right)
  ultimately show ?thesis
    unfolding right_diff_distrib by linarith
qed

lemma few_counts_near:
  assumes "n \<in> set counts" and "length counts < 6" and "stdev counts > 0"
  shows "\<bar>z_score counts n\<bar> \<le> 2"
proof -
  let ?d = "of_int n - mean counts :: rat" and ?v = "deviations counts / of_nat (length counts - 1)" and ?l = "length counts"
  have v: "?v > 0" using assms(3) by (simp add: stdev_def)
  then have l: "?l > 1" by (cases "?l \<le> 1") auto
  then have pos: "of_nat (?l - 1) > (0 :: rat)" by simp
  have "of_nat ?l * ?d\<^sup>2 \<le> of_nat (?l - 1) * (of_nat (?l - 1) * ?v)"
    using sample_deviation_bound [OF assms(1)] pos by simp
  moreover have "(of_nat (?l - 1))\<^sup>2 \<le> (4 * of_nat ?l :: rat)"
  proof -
    have "?l \<in> {2, 3, 4, 5}" using l assms(2) by auto
    then show ?thesis by auto
  qed
  then have "(of_nat (?l - 1))\<^sup>2 * ?v \<le> 4 * of_nat ?l * ?v"
    by (rule mult_right_mono) (rule less_imp_le [OF v])
  then have "of_nat (?l - 1) * (of_nat (?l - 1) * ?v) \<le> 4 * of_nat ?l * ?v"
    by (simp only: power2_eq_square mult.assoc)
  ultimately have "of_nat ?l * ?d\<^sup>2 \<le> of_nat ?l * (4 * ?v)" by (simp add: algebra_simps)
  moreover have "of_nat ?l > (0 :: rat)" using l unfolding of_nat_0_less_iff by linarith
  ultimately have "?d\<^sup>2 \<le> 4 * ?v" by (rule mult_left_le_imp_le)
  then have "(of_rat ?d)\<^sup>2 \<le> (4 * of_rat ?v :: real)"
    by (metis of_rat_less_eq of_rat_mult of_rat_numeral_eq of_rat_power)
  then have "\<bar>of_rat ?d :: real\<bar> \<le> 2 * sqrt (of_rat ?v)"
    by (metis real_sqrt_abs real_sqrt_four real_sqrt_le_mono real_sqrt_mult)
  then show ?thesis
    using assms(3) by (simp add: z_score_def stdev_def abs_divide divide_le_eq)
qed

lemma counter_keys: "dict_wf d \<Longrightarrow> dict_wf (fold (\<lambda>x d. dict_set x (dict_get_default d x 0 + 1) d) xs d) \<and>
    (dict_has (fold (\<lambda>x d. dict_set x (dict_get_default d x 0 + 1) d) xs d) k \<longleftrightarrow> dict_has d k \<or> k \<in> set xs)" for d :: "('a, int) dict"
  by (induction xs arbitrary: d) auto

lemma counter_length: "length (counter xs) = card (set xs)"
proof -
  have "dict_wf (counter xs)" and "dict_has (counter xs) k \<longleftrightarrow> k \<in> set xs" for k
    using counter_keys [of "[]" xs k] by (simp_all add: counter_def dict_has_def [of "[]"])
  then have "set (map fst (counter xs)) = set xs" "distinct (map fst (counter xs))"
    unfolding dict_wf_def dict_has_iff by blast+
  then show ?thesis by (metis distinct_card length_map)
qed

lemma type_value_inj [simp]: "type_value s = type_value t \<longleftrightarrow> s = t"
  by (cases s; cases t) simp_all

text \<open>C20: The scans start at three runs or types, but with fewer than six of them nothing can be anomalous: a
  count is never more than two standard deviations away from the mean, however extreme it is.\<close>

theorem no_anomaly_below_six:
  "(if card (set (map de_run (dp_events c))) < 6 then scan_runs c = [] else True) \<and>
   (if card (set (map de_type (dp_events c))) < 6 then scan_types c = [] else True)"
proof -
  have none: "(stdev (dict_values d) > 0 \<and> \<bar>z_score (dict_values d) n\<bar> > 2) = False"
    if "length d < 6" and "(k, n) \<in> set d" for d :: "(string, int) dict" and k n
    using few_counts_near [of n "dict_values d"] that by (force simp: image_iff)
  have runs: "length (counter (map de_run (dp_events c))) = card (set (map de_run (dp_events c)))"
    by (rule counter_length)
  have "set (map (\<lambda>e. type_value (de_type e)) (dp_events c)) = type_value ` set (map de_type (dp_events c))"
    by (simp add: image_image)
  moreover have "inj_on type_value A" for A by (simp add: inj_on_def)
  ultimately have types: "length (count_by_type None c) = card (set (map de_type (dp_events c)))"
    by (simp only: count_by_type_def option.case counter_length card_image)
  have "scan_runs c = []" if "card (set (map de_run (dp_events c))) < 6"
    using none [of "counter (map de_run (dp_events c))"] that runs
    by (auto simp: scan_runs_def Let_def map_filter_def filter_empty_conv split: if_splits)
  moreover have "scan_types c = []" if "card (set (map de_type (dp_events c))) < 6"
    using none [of "count_by_type None c"] that types
    by (force simp: scan_types_def Let_def map_filter_def filter_empty_conv split: if_splits)
  ultimately show ?thesis
    by (cases "card (set (map de_run (dp_events c))) < 6"; cases "card (set (map de_type (dp_events c))) < 6"; simp only: if_True if_False simp_thms)
qed

subsection \<open>What emerges\<close>

lemma round_half_even_bounds: "of_int m \<le> x \<Longrightarrow> m \<le> round_half_even x" "x \<le> of_int n \<Longrightarrow> round_half_even x \<le> n"
proof -
  show "of_int m \<le> x \<Longrightarrow> m \<le> round_half_even x"
    by (simp add: round_half_even_def Let_def le_floor_iff) linarith
  assume x: "x \<le> of_int n"
  show "round_half_even x \<le> n"
  proof (cases "\<lfloor>x\<rfloor> = n")
    case True
    with x have "x = of_int n" by linarith
    then show ?thesis by (simp add: round_half_even_def)
  next
    case False
    with x have "\<lfloor>x\<rfloor> + 1 \<le> n" by linarith
    then show ?thesis by (simp add: round_half_even_def Let_def)
  qed
qed

text \<open>The confidence is documented to lie between 0 and 1; it goes up to 1.05.\<close>

lemma confidence_bounds: "0 \<le> calculate_confidence n r t \<and> calculate_confidence n r t \<le> 105 / 100"
proof -
  let ?a = "min 1 (of_nat n / 8) :: rat" and ?b = "min 1 (of_nat r / 4) :: rat" and ?c = "min 1 (of_nat n / of_nat (max r 1) / 3) :: rat"
  let ?x = "(?a * (35 / 100) + ?b * (20 / 100) + ?c * (25 / 100) + trend_weight t * (25 / 100)) * 10 ^ 3"
  have "0 \<le> trend_weight t" "trend_weight t \<le> 1" by (cases t; simp)+
  moreover have "0 \<le> ?a" "?a \<le> 1" "0 \<le> ?b" "?b \<le> 1" "0 \<le> ?c" "?c \<le> 1" by simp_all
  ultimately have x: "of_int 0 \<le> ?x" "?x \<le> of_int 1050" by simp_all
  have "0 \<le> round_half_even ?x" "round_half_even ?x \<le> 1050"
    by (rule round_half_even_bounds(1) [OF x(1)]) (rule round_half_even_bounds(2) [OF x(2)])
  then show ?thesis by (simp add: calculate_confidence_def Let_def round_rat_def)
qed

lemma confidence_above_one: "calculate_confidence 12 4 DEGRADING = 105 / 100"
  by code_simp

lemma one_run_confidence: "3 \<le> n \<Longrightarrow> 1 / 2 \<le> calculate_confidence n 1 t"
proof -
  assume n: "3 \<le> n"
  let ?a = "min 1 (of_nat n / 8) :: rat" and ?b = "min 1 (of_nat 1 / 4) :: rat" and ?c = "min 1 (of_nat n / of_nat (max 1 1) / 3) :: rat"
  let ?x = "(?a * (35 / 100) + ?b * (20 / 100) + ?c * (25 / 100) + trend_weight t * (25 / 100)) * 10 ^ 3"
  have "3 \<le> (of_nat n :: rat)" using n by (metis of_nat_le_iff of_nat_numeral)
  then have "3 / 8 \<le> ?a" "?b = 1 / 4" "?c = 1" by simp_all
  moreover have "4 / 10 \<le> trend_weight t" by (cases t) simp_all
  ultimately have "of_int 500 \<le> ?x" by simp
  then have "500 \<le> round_half_even ?x" by (rule round_half_even_bounds)
  then have "(of_int 500 :: rat) \<le> of_int (round_half_even ?x)" by (simp only: of_int_le_iff)
  then show ?thesis by (simp add: calculate_confidence_def Let_def round_rat_def)
qed

text \<open>A pattern is to emerge when it is seen in different runs and is not improving on its own. But three events of a
  pattern in one run are always enough, whatever the trend is, while with an improving trend the same three events
  in two or three runs are not.\<close>

theorem one_run_emerges:
  assumes "es \<in> set (dict_values (pattern_groups (dp_events c)))" and "3 \<le> length es" and "card (set (map de_run es)) = 1"
  shows "\<exists>x \<in> set (detect_candidates hash 3 c). ec_description x = utf8_take 200 (de_description (hd es)) \<and> ec_runs x = 1"
proof -
  let ?t = "fst (analyze_severity_trend c)"
  have "1 / 2 \<le> calculate_confidence (length es) 1 ?t" by (rule one_run_confidence [OF assms(2)])
  then obtain x where x: "candidate_of hash 3 ?t es = Some x" "ec_description x = utf8_take 200 (de_description (hd es))" "ec_runs x = 1"
    using assms(2,3) by (simp add: candidate_of_def Let_def not_less)
  then have "x \<in> set (detect_candidates hash 3 c)"
    using assms(1) by (force simp: detect_candidates_def Let_def map_filter_def image_iff)
  with x show ?thesis by blast
qed

lemma several_runs_do_not: "calculate_confidence 3 2 IMPROVING < 1 / 2" "calculate_confidence 3 3 IMPROVING < 1 / 2"
  by code_simp+

definition demo_drift :: "nat \<Rightarrow> DriftEvent" where
  "demo_drift n = \<lparr>de_id = show_nat n, de_type = TIMEOUT, de_severity = LOW, de_run = ''r'', de_state = ''s'', de_timestamp = int n,
     de_description = ''slow step'', de_metadata = []\<rparr>"

theorem one_run_emerges_witness:
  "\<exists>x \<in> set (detect_candidates (\<lambda>s. 0) 3 (fold record_event (map demo_drift [0, 1, 2]) (new_collector 1000))).
     ec_description x = ''slow step'' \<and> ec_runs x = 1"
proof -
  let ?es = "map demo_drift [0, 1, 2]"
  have ev: "dp_events (fold record_event ?es (new_collector 1000)) = ?es"
    using collector_events [of ?es 1000] by simp
  have g: "dict_values (pattern_groups ?es) = [?es]" "de_description (hd ?es) = ''slow step''" "utf8_take 200 ''slow step'' = ''slow step''"
    by code_simp+
  show ?thesis
    using one_run_emerges [of ?es "fold record_event ?es (new_collector 1000)" "\<lambda>s. 0"] unfolding ev g
    by (simp add: demo_drift_def g(3))
qed

end
