(* ===== verification/Skill_Forge.thy ===== *)
theory Skill_Forge
  imports Drift
begin

text \<open>
  Skills from emergence candidates (\<open>engine/skillforge.py\<close>) and the check of the engine that makes and saves
  them (\<open>check_emergence\<close> in \<open>engine/runtime.py\<close>). Files are a dict from paths to texts. \<open>str.title\<close>, the
  time stamp, failures of writing and the language model, by the number of the call and its prompt, are arguments.
\<close>

subsection \<open>Drafts and statistics\<close>

record SkillDraft =
  sd_name :: string
  sd_description :: string
  sd_content :: string
  sd_type :: DriftType
  sd_confidence :: rat
  sd_test :: string
  sd_path :: string
  sd_test_path :: string

definition is_ready :: "SkillDraft \<Rightarrow> bool" where
  "is_ready d \<longleftrightarrow> 65 / 100 \<le> sd_confidence d"

record SkillFixStats =
  sf_name :: string
  sf_used :: int
  sf_success :: int
  sf_failure :: int
  sf_created_at :: "datetime option"
  sf_last_used :: "datetime option"

definition new_stats :: "string \<Rightarrow> datetime option \<Rightarrow> SkillFixStats" where
  "new_stats n t = \<lparr>sf_name = n, sf_used = 0, sf_success = 0, sf_failure = 0, sf_created_at = t, sf_last_used = None\<rparr>"

definition fix_rate :: "SkillFixStats \<Rightarrow> rat" where
  "fix_rate s = (if sf_success s + sf_failure s > 0 then of_int (sf_success s) / of_int (sf_success s + sf_failure s) else 0)"

definition promotion_threshold :: int where
  "promotion_threshold = 10"

definition is_promotable :: "SkillFixStats \<Rightarrow> bool" where
  "is_promotable s \<longleftrightarrow> promotion_threshold \<le> sf_success s"

record forge_env =
  fe_title :: "string \<Rightarrow> string"
  fe_stamp :: "datetime \<Rightarrow> string"
  fe_llm :: "(nat \<Rightarrow> string \<Rightarrow> string + string option) option"
  fe_unwritable :: "string \<Rightarrow> bool"

record SkillForge =
  fg_dir :: string
  fg_stats :: "(string, SkillFixStats) dict"
  fg_files :: "(string, string) dict"

definition new_forge :: "string \<Rightarrow> (string, string) dict \<Rightarrow> SkillForge" where
  "new_forge dir files = \<lparr>fg_dir = dir, fg_stats = [], fg_files = files\<rparr>"

subsection \<open>The texts\<close>

definition text_of :: "string list \<Rightarrow> string" where
  "text_of ls = join [CHR 0x0A] ls"

definition dq :: string where
  "dq = [CHR 0x22]"

text \<open>\<open>f'{x:.0%}'\<close>\<close>

definition percent :: "rat \<Rightarrow> string" where
  "percent x = show_int (round_half_even (x * 100)) @ ''%''"

fun direction_value :: "TrendDirection \<Rightarrow> string" where
  "direction_value IMPROVING = ''improving''"
| "direction_value STABLE = ''stable''"
| "direction_value DEGRADING = ''degrading''"

definition detection_rules :: "DriftType \<Rightarrow> string" where
  "detection_rules t = text_of (case t of
     FORMAT \<Rightarrow> [''1. Check YAML frontmatter is valid'', ''2. Validate required fields present'', ''3. Run schema validation'']
   | CONTENT \<Rightarrow> [''1. Scan for minimum content length'', ''2. Verify section headers match template'', ''3. Check for required keywords'']
   | LOGIC \<Rightarrow> [''1. Validate state transition rules'', ''2. Check precondition/postcondition consistency'', ''3. Verify idempotency'']
   | HALLUCINATION \<Rightarrow> [''1. Cross-reference claims with source data'', ''2. Flag unverifiable statistics'', ''3. Run fact-check regex patterns'']
   | TIMEOUT \<Rightarrow> [''1. Measure execution duration'', ''2. Compare with expected bounds'', ''3. Flag if >2x expected'']
   | _ \<Rightarrow> [''1. Detect anomalous pattern'', ''2. Log occurrence'', ''3. Alert operator''])"

definition fix_steps :: "DriftType \<Rightarrow> string \<Rightarrow> string" where
  "fix_steps t d =
     text_of ([''### Manual Fix'', [], ''1. Identify the '' @ type_value t @ '' issue in the run'',
       ''2. Apply correction for: '' @ utf8_take 100 d, ''3. Re-run verification'', []]
     @ (if t = FORMAT \<or> t = CONTENT then [''### Auto-Fix (when promoted to T2)'', [], ''```bash'', ''./fix.sh # Auto-apply known pattern'', ''```''] else [])
     @ [[]])"

definition verification_steps :: string where
  "verification_steps = text_of [''- [ ] Fix applied successfully'', ''- [ ] Re-run passes all validation layers'', ''- [ ] No regression detected'',
     ''- [ ] Drift count decreases in subsequent run'', ''- [ ] Skill effectiveness logged'']"

definition replace_char :: "char list \<Rightarrow> char \<Rightarrow> string \<Rightarrow> string" where
  "replace_char cs x s = map (\<lambda>c. if c \<in> set cs then x else c) s"

definition generate_test :: "forge_env \<Rightarrow> string \<Rightarrow> DriftType \<Rightarrow> string" where
  "generate_test env n t =
     (let safe = replace_char ''-.'' CHR ''_'' n; qqq = dq @ dq @ dq
      in text_of [qqq @ ''Test for AI-generated skill: '' @ n @ qqq, [], ''import pytest'', [], [],
        ''class Test'' @ fe_title env safe @ '':'', ''    '' @ qqq @ ''Regression tests for '' @ n @ '' skill'' @ qqq, [],
        ''    def test_detection(self):'', ''        '' @ qqq @ ''Should detect '' @ type_value t @ '' drifts'' @ qqq,
        ''        assert True  # TODO: implement'', [],
        ''    def test_fix_application(self):'', ''        '' @ qqq @ ''Fix should resolve the drift'' @ qqq,
        ''        assert True  # TODO: implement'', [],
        ''    def test_no_regression(self):'', ''        '' @ qqq @ ''Fix should not introduce new drifts'' @ qqq,
        ''        assert True  # TODO: implement'', []])"

definition frontmatter :: "forge_env \<Rightarrow> datetime \<Rightarrow> EmergenceCandidate \<Rightarrow> string list" where
  "frontmatter env now c =
     [''---'', ''name: '' @ ec_skill c, ''description: '' @ dq @ ec_recommendation c @ dq, ''version: 0.1.0'', ''tier: T3'',
      ''drift_type: '' @ type_value (ec_type c), ''emergence_id: '' @ ec_pattern c, ''created_at: '' @ fe_stamp env now,
      ''occurrences: '' @ show_int (int (ec_occurrences c)), ''affected_runs: '' @ show_int (int (ec_runs c)),
      ''tags: ['' @ dq @ ''ai-generated'' @ dq @ '', '' @ dq @ type_value (ec_type c) @ dq @ '', '' @ dq @ ''emergence'' @ dq @ '']'',
      ''---'', []]"

definition template_content :: "forge_env \<Rightarrow> datetime \<Rightarrow> EmergenceCandidate \<Rightarrow> string" where
  "template_content env now c = text_of (frontmatter env now c @
     [''# '' @ fe_title env (replace_char ''-'' CHR '' '' (ec_skill c)), [],
      ''> AI-Generated Skill (emergence: '' @ ec_pattern c @ '')'', ''> Confidence: '' @ percent (ec_confidence c), [],
      ''## Description'', [], ec_recommendation c, [], ''## Detection'', [], detection_rules (ec_type c), [],
      ''## Fix Steps'', [], fix_steps (ec_type c) (ec_description c), [], ''## Verification'', [], verification_steps, [],
      ''## Drift Pattern'', [], ''- **Type:** '' @ type_value (ec_type c), ''- **Occurrences:** '' @ show_int (int (ec_occurrences c)),
      ''- **Affected Runs:** '' @ show_int (int (ec_runs c)), ''- **Severity Trend:** '' @ direction_value (ec_trend c),
      ''- **First/Last:** (auto-tracked)'', [], ''---'', ''_Generated by Prodinamik AI Engine v1.3_''])"

definition skill_prompt :: "EmergenceCandidate \<Rightarrow> string" where
  "skill_prompt c = text_of [''Generate a skill for this emergence candidate:'', [], ''Name: '' @ ec_skill c,
     ''Drift Type: '' @ type_value (ec_type c), ''Description: '' @ ec_description c,
     ''Occurrence Count: '' @ show_int (int (ec_occurrences c)), ''Affected Runs: '' @ show_int (int (ec_runs c)),
     ''Confidence: '' @ percent (ec_confidence c), [], ''Generate the full SKILL.md content with frontmatter and sections.'']"

subsection \<open>Drafting\<close>

definition skill_file :: "string \<Rightarrow> string \<Rightarrow> string \<Rightarrow> string" where
  "skill_file dir n f = dir @ ''/'' @ n @ ''/'' @ f"

definition draft_of :: "forge_env \<Rightarrow> string \<Rightarrow> EmergenceCandidate \<Rightarrow> string \<Rightarrow> string \<Rightarrow> SkillDraft" where
  "draft_of env dir c d content = \<lparr>sd_name = ec_skill c, sd_description = d, sd_content = content, sd_type = ec_type c,
     sd_confidence = ec_confidence c, sd_test = generate_test env (ec_skill c) (ec_type c),
     sd_path = skill_file dir (ec_skill c) ''SKILL.md'', sd_test_path = skill_file dir (ec_skill c) ''test_skill.py''\<rparr>"

text \<open>
  With a language model the draft comes from it. When its call raises, the method that was called is called
  again, which asks the model again: the depth of the calls is bounded only by the interpreter, whose limit is
  the fuel. \<open>n\<close> counts the calls of the model.
\<close>

fun create_skill_draft :: "forge_env \<Rightarrow> string \<Rightarrow> nat \<Rightarrow> nat \<Rightarrow> datetime \<Rightarrow> EmergenceCandidate \<Rightarrow> string + SkillDraft" where
  "create_skill_draft env dir 0 n now c = Inl ''RecursionError''"
| "create_skill_draft env dir (Suc depth) n now c =
     (case fe_llm env of
        None \<Rightarrow> Inr (draft_of env dir c (ec_recommendation c) (template_content env now c))
      | Some f \<Rightarrow>
          (case f n (skill_prompt c) of
             Inl e \<Rightarrow> create_skill_draft env dir depth (Suc n) now c
           | Inr x \<Rightarrow> Inr (draft_of env dir c (ec_description c) (case x of None \<Rightarrow> [] | Some s \<Rightarrow> s))))"

definition generate_skills ::
    "forge_env \<Rightarrow> nat \<Rightarrow> (string \<Rightarrow> int) \<Rightarrow> rat \<Rightarrow> datetime \<Rightarrow> Collector \<Rightarrow> SkillForge \<Rightarrow> string + SkillDraft list" where
  "generate_skills env depth hash least now col m =
     try_map (create_skill_draft env (fg_dir m) depth 0 now) (filter (\<lambda>c. \<not> ec_confidence c < least) (detect_candidates hash 3 col))"

subsection \<open>Saving and promotion\<close>

definition save_skill :: "forge_env \<Rightarrow> datetime \<Rightarrow> SkillDraft \<Rightarrow> SkillForge \<Rightarrow> SkillForge \<times> bool" where
  "save_skill env now d m =
     (if \<not> is_ready d then (m, False)
      else if fe_unwritable env (sd_path d) then (m, False)
      else
        let m = m\<lparr>fg_files := dict_set (sd_path d) (sd_content d) (fg_files m)\<rparr>
        in if sd_test d \<noteq> [] \<and> fe_unwritable env (sd_test_path d) then (m, False)
           else
             let m = (if sd_test d \<noteq> [] then m\<lparr>fg_files := dict_set (sd_test_path d) (sd_test d) (fg_files m)\<rparr> else m)
             in (m\<lparr>fg_stats := dict_set (sd_name d) (new_stats (sd_name d) (Some now)) (fg_stats m)\<rparr>, True))"

fun save_all_skills :: "forge_env \<Rightarrow> datetime \<Rightarrow> SkillDraft list \<Rightarrow> SkillForge \<Rightarrow> SkillForge \<times> nat \<times> nat" where
  "save_all_skills env now [] m = (m, 0, 0)"
| "save_all_skills env now (d # ds) m =
     (case save_skill env now d m of (m, ok) \<Rightarrow>
        (case save_all_skills env now ds m of (m, saved, n) \<Rightarrow> (m, if ok then Suc saved else saved, Suc n)))"

definition str_replace :: "string \<Rightarrow> string \<Rightarrow> string \<Rightarrow> string" where
  "str_replace old new s = join new (split_all old s)"

definition promotion_notice :: string where
  "promotion_notice = text_of [[], [], ''## Auto-Fix Activated'', [],
     ''This skill has been promoted to T2 after '' @ show_int promotion_threshold @ ''+ successful fixes.'', []]"

definition promote_skill :: "string \<Rightarrow> SkillForge \<Rightarrow> SkillForge" where
  "promote_skill n m =
     (let p = skill_file (fg_dir m) n ''SKILL.md''
      in case dict_get (fg_files m) p of
           None \<Rightarrow> m
         | Some s \<Rightarrow> m\<lparr>fg_files := dict_set p (str_replace ''tier: T3'' ''tier: T2'' s @ promotion_notice) (fg_files m)\<rparr>)"

definition record_fix_result :: "string \<Rightarrow> bool \<Rightarrow> datetime \<Rightarrow> SkillForge \<Rightarrow> SkillForge" where
  "record_fix_result n success now m =
     (let s = (case dict_get (fg_stats m) n of None \<Rightarrow> new_stats n None | Some s \<Rightarrow> s);
          s = s\<lparr>sf_used := sf_used s + 1\<rparr>;
          s = (if success then s\<lparr>sf_success := sf_success s + 1\<rparr> else s\<lparr>sf_failure := sf_failure s + 1\<rparr>);
          s = s\<lparr>sf_last_used := Some now\<rparr>;
          m = m\<lparr>fg_stats := dict_set n s (fg_stats m)\<rparr>
      in if is_promotable s then promote_skill n m else m)"

definition promotable_skills :: "SkillForge \<Rightarrow> string list" where
  "promotable_skills m = map fst (filter (\<lambda>(n, s). is_promotable s) (fg_stats m))"

record forge_summary =
  fs_generated :: nat
  fs_promotable :: nat
  fs_uses :: int
  fs_rate :: rat
  fs_skills :: "(string \<times> int \<times> rat \<times> bool) list"

definition stats_summary :: "SkillForge \<Rightarrow> forge_summary" where
  "stats_summary m =
     (let uses = sum_list (map (\<lambda>(n, s). sf_used s) (fg_stats m))
      in \<lparr>fs_generated = length (fg_stats m), fs_promotable = length (promotable_skills m), fs_uses = uses,
           fs_rate = of_int (sum_list (map (\<lambda>(n, s). sf_success s) (fg_stats m))) / of_int (max uses 1),
           fs_skills = map (\<lambda>(n, s). (n, sf_used s, fix_rate s, is_promotable s)) (fg_stats m)\<rparr>)"

text \<open>
  \<open>check_emergence\<close> of the engine, with its switch; the last result is the drafts that a registered callback
  is given.
\<close>

fun save_drafts :: "forge_env \<Rightarrow> datetime \<Rightarrow> SkillDraft list \<Rightarrow> SkillForge \<Rightarrow> SkillForge \<times> (SkillDraft \<times> bool) list" where
  "save_drafts env now [] m = (m, [])"
| "save_drafts env now (d # ds) m =
     (case save_skill env now d m of (m, ok) \<Rightarrow> (case save_drafts env now ds m of (m, rs) \<Rightarrow> (m, (d, ok) # rs)))"

definition check_emergence ::
    "forge_env \<Rightarrow> nat \<Rightarrow> (string \<Rightarrow> int) \<Rightarrow> bool \<Rightarrow> datetime \<Rightarrow> Collector \<Rightarrow> SkillForge
      \<Rightarrow> SkillForge \<times> (string + (SkillDraft \<times> bool) list \<times> SkillDraft list)" where
  "check_emergence env depth hash enabled now col m =
     (if \<not> enabled \<or> detect_candidates hash 3 col = [] then (m, Inr ([], []))
      else case generate_skills env depth hash (65 / 100) now col m of
          Inl e \<Rightarrow> (m, Inl e)
        | Inr ds \<Rightarrow> (case save_drafts env now ds m of (m, rs) \<Rightarrow> (m, Inr (rs, map fst (filter snd rs)))))"

subsection \<open>The fallback is never reached\<close>


lemma draft_error: "create_skill_draft env dir depth n now c = Inl e \<Longrightarrow> e = ''RecursionError''"
  by (induction env dir depth n now c rule: create_skill_draft.induct) (auto split: option.splits sum.splits)

subsection \<open>Statistics\<close>

datatype forge_op = SaveSkill forge_env datetime SkillDraft | FixResult string bool datetime

fun forge_step :: "forge_op \<Rightarrow> SkillForge \<Rightarrow> SkillForge" where
  "forge_step (SaveSkill env now d) m = fst (save_skill env now d m)"
| "forge_step (FixResult n ok now) m = record_fix_result n ok now m"

definition stats_ok :: "SkillFixStats \<Rightarrow> bool" where
  "stats_ok s \<longleftrightarrow> 0 \<le> sf_success s \<and> 0 \<le> sf_failure s \<and> sf_used s = sf_success s + sf_failure s"

definition forge_ok :: "SkillForge \<Rightarrow> bool" where
  "forge_ok m \<longleftrightarrow> (\<forall>n s. dict_get (fg_stats m) n = Some s \<longrightarrow> stats_ok s)"

lemma promote_stats [simp]: "fg_stats (promote_skill n m) = fg_stats m" "fg_dir (promote_skill n m) = fg_dir m"
  by (simp_all add: promote_skill_def Let_def split: option.splits)

definition fixed_stats :: "string \<Rightarrow> bool \<Rightarrow> datetime \<Rightarrow> SkillForge \<Rightarrow> SkillFixStats" where
  "fixed_stats n ok now m =
     (let s = (case dict_get (fg_stats m) n of None \<Rightarrow> new_stats n None | Some s \<Rightarrow> s)
      in s\<lparr>sf_used := sf_used s + 1, sf_success := sf_success s + (if ok then 1 else 0),
           sf_failure := sf_failure s + (if ok then 0 else 1), sf_last_used := Some now\<rparr>)"

lemma record_fix_eq:
  "record_fix_result n ok now m =
     (let m' = m\<lparr>fg_stats := dict_set n (fixed_stats n ok now m) (fg_stats m)\<rparr>
      in if is_promotable (fixed_stats n ok now m) then promote_skill n m' else m')"
  by (cases ok) (simp_all add: record_fix_result_def fixed_stats_def Let_def)

interpretation forge: invariant_system forge_step forge_ok
proof
  fix op m assume inv: "forge_ok m"
  show "forge_ok (forge_step op m)"
  proof (cases op)
    case (SaveSkill env now d)
    then show ?thesis
      using inv by (auto simp: save_skill_def forge_ok_def stats_ok_def new_stats_def Let_def)
  next
    case (FixResult n ok now)
    have "stats_ok (fixed_stats n ok now m)"
      using inv by (auto simp: fixed_stats_def forge_ok_def stats_ok_def new_stats_def Let_def split: option.splits)
    with FixResult inv show ?thesis by (auto simp: record_fix_eq forge_ok_def Let_def)
  qed
qed

lemma fix_rate_bounds:
  assumes "dict_get (fg_stats (fold forge_step ops (new_forge dir files))) n = Some s"
  shows "0 \<le> fix_rate s \<and> fix_rate s \<le> 1"
proof -
  have "forge_ok (fold forge_step ops (new_forge dir files))"
    by (rule forge.inv_run) (simp add: forge_ok_def new_forge_def)
  with assms have "stats_ok s" by (simp add: forge_ok_def)
  then show ?thesis by (auto simp: stats_ok_def fix_rate_def divide_le_eq_1)
qed

subsection \<open>Promotion does not last, and is repeated\<close>

text \<open>Whenever a skill is saved its counters start again and its file is the draft: a promoted skill is demoted.\<close>

lemma save_demotes:
  assumes "save_skill env now d m = (m', True)" and "sd_path d \<noteq> sd_test_path d"
  shows "dict_get (fg_files m') (sd_path d) = Some (sd_content d) \<and> dict_get (fg_stats m') (sd_name d) = Some (new_stats (sd_name d) (Some now))"
  using assms by (auto simp: save_skill_def Let_def split: if_splits)

lemma join_length:
  "length new = length old \<Longrightarrow> length (join new xs) = length (join old xs)"
  by (induction new xs rule: join.induct) auto

lemma join_split_all: "sep \<noteq> [] \<Longrightarrow> join sep (split_all sep s) = s"
proof (induction sep s rule: split_all.induct)
  case (1 sep s)
  show ?case
  proof (cases "split_first sep s")
    case None
    with "1.prems" show ?thesis by (simp add: split_all.simps [of sep s])
  next
    case (Some ab)
    obtain a b where ab: "ab = (a, b)" by fastforce
    have ne: "split_all sep b \<noteq> []"
      by (simp add: split_all.simps [of sep b] split: option.splits)
    have split: "split_all sep s = a # split_all sep b"
      using Some ab "1.prems" by (simp add: split_all.simps [of sep s])
    have "join sep (a # split_all sep b) = a @ sep @ join sep (split_all sep b)"
      using ne by (cases "split_all sep b") simp_all
    with "1.IH" [OF "1.prems" Some ab [symmetric] "1.prems"] split_first_Some [of sep s a b] Some ab show ?thesis
      unfolding split by simp
  qed
qed

lemma replace_length: "length (str_replace ''tier: T3'' ''tier: T2'' s) = length s"
  using join_length [of "''tier: T2''" "''tier: T3''" "split_all ''tier: T3'' s"] join_split_all [of "''tier: T3''" s]
  by (simp add: str_replace_def)

text \<open>From the tenth success on every result, failures included, promotes the skill again: the notice is appended to its
  file each time.\<close>

theorem promotion_repeats:
  assumes "dict_get (fg_stats m) n = Some s" and "is_promotable s" and "dict_get (fg_files m) (skill_file (fg_dir m) n ''SKILL.md'') = Some t"
  shows "\<exists>t'. dict_get (fg_files (fold (\<lambda>(ok, now). record_fix_result n ok now) rs m)) (skill_file (fg_dir m) n ''SKILL.md'') = Some t' \<and>
    length t' = length t + length rs * length promotion_notice"
  using assms
proof (induction rs arbitrary: m s t)
  case (Cons r rs)
  obtain ok now where r: "r = (ok, now)" by fastforce
  let ?s = "fixed_stats n ok now m" and ?p = "skill_file (fg_dir m) n ''SKILL.md''" and ?m = "record_fix_result n ok now m"
  have p: "is_promotable ?s"
    using Cons.prems(1,2) by (simp add: fixed_stats_def is_promotable_def Let_def)
  let ?t = "str_replace ''tier: T3'' ''tier: T2'' t @ promotion_notice"
  have "dict_get (fg_stats ?m) n = Some ?s" "fg_dir ?m = fg_dir m" "dict_get (fg_files ?m) ?p = Some ?t"
    using Cons.prems(3) p by (simp_all add: record_fix_eq Let_def promote_skill_def)
  with Cons.IH [of ?m ?s ?t] p r show ?case by (simp add: replace_length algebra_simps)
qed simp

definition demo_forge :: SkillForge where
  "demo_forge = \<lparr>fg_dir = ''d'', fg_stats = [(''a'', (new_stats ''a'' None)\<lparr>sf_success := 10, sf_used := 10\<rparr>)],
     fg_files = [(''d/a/SKILL.md'', ''tier: T2'')]\<rparr>"

theorem promotion_repeats_witness:
  "\<exists>t'. dict_get (fg_files (fold (\<lambda>(ok, now). record_fix_result ''a'' ok now) [(False, 1), (False, 2)] demo_forge)) ''d/a/SKILL.md'' = Some t' \<and>
     length t' = length ''tier: T2'' + 2 * length promotion_notice"
proof -
  have "\<exists>t'. dict_get (fg_files (fold (\<lambda>(ok, now). record_fix_result ''a'' ok now) [(False, 1), (False, 2)] demo_forge))
      (skill_file (fg_dir demo_forge) ''a'' ''SKILL.md'') = Some t' \<and>
    length t' = length ''tier: T2'' + 2 * length promotion_notice"
    using promotion_repeats [of demo_forge "''a''" "(new_stats ''a'' None)\<lparr>sf_success := 10, sf_used := 10\<rparr>" "''tier: T2''" "[(False, 1), (False, 2)]"]
    by (simp add: demo_forge_def is_promotable_def promotion_threshold_def skill_file_def mult_2 del: fold.simps)
  moreover have "skill_file (fg_dir demo_forge) ''a'' ''SKILL.md'' = ''d/a/SKILL.md''"
    by (simp add: demo_forge_def skill_file_def)
  ultimately show ?thesis by (simp only:)
qed

end
