(* ===== verification/Spec2Isabelle.thy ===== *)
theory Spec2Isabelle
  imports SM_Parser Agent_States Raft_Hybrid Event_Store Run_Manager Coordinator Safety Rate_Limit Budget Plugins Runtime Global_Memory Supervisor Context Tool_Executor Agent_Memory Local_Memory Worker Raft_Bridge Product_Profile Profile_Data Profiles Validators Registry Migration Audit_Log Alerts LLM_Registry Elector Distributed Warm_Agents Drift Skill_Forge
begin

text \<open>
  A verification of the core of the Prodinamik engine (the Python package under \<open>src/engine\<close>),
  a workflow engine: runs of a product profile move through a state machine, every step is
  logged and recoverable, paused runs ask questions, agents work on queued tasks, and a cluster
  of nodes replicates state. Every definition is a translation of a Python function, class or
  constant; the manifest maps it to its lines.

  \<^bold>\<open>Conventions.\<close> A dict is an association list in insertion order (\<open>Prelude\<close>); a \<open>str\<close> is its
  UTF-8 encoding (white space and lower case are those of Unicode); an \<open>int\<close> is \<^typ>\<open>int\<close> (Python's are unbounded), a \<open>float\<close> an exact rational; a
  \<open>datetime\<close> is a number of microseconds. Objects are records that operations return updated.
  Exceptions are values: an operation that can raise returns a sum whose left side names the
  exception. The clock, random numbers, hashes, handlers and whatever else the code takes from
  outside are arguments. Every operation that holds a lock is one atomic step; the interleavings
  of clients are lists of operations, run by \<^term>\<open>fold\<close>.

  \<^bold>\<open>The theories.\<close>
  \<^item> \<open>Prelude\<close>, \<open>PyString\<close>: dicts, strings, numbers as text. \<open>Systems\<close>: the interfaces (locales)
    that components interpret: systems with an invariant, with guarded operations, with a measure
    that never decreases, systems that refine an abstract one, finite graphs,
    remembered answers, and operations that act at most once in a window of time.
  \<^item> \<open>SM_Types\<close>, \<open>State_Machine\<close>, \<open>SM_Runtime\<close>, \<open>SM_Parser\<close>, \<open>Agent_States\<close> (\<open>sm_types.py\<close>,
    \<open>state_machine.py\<close>, \<open>sm_parser.py\<close>, \<open>agent_runtime/states.py\<close>): the data model, the checks at
    construction (reachability, cycle search, dead ends), the checks of a transition (conditions,
    LTL rules, re-entry bounds, LRU cache), the YAML dictionary parser and the agents' machine.
    Lemmas: the searches agree with reachability and cycles of the graph, an accepted machine has
    an exit from every state it must, the cache is transparent, transitions are sound.
  \<^item> \<open>Run_Manager\<close> (\<open>run_manager.py\<close>): runs, the metadata text, snapshot, write-ahead log and
    recovery. Lemmas: texts are read back, updates are atomic, recovery rebuilds the snapshot.
  \<^item> \<open>Event_Store\<close> (\<open>event_store.py\<close>): append, index, retention, purge, compaction; a refinement
    of a plain list of events.
  \<^item> \<open>Hooks\<close>, \<open>Plugins\<close> (\<open>hooks.py\<close>, \<open>plugin.py\<close>, \<open>plugin_registry.py\<close>): hook table, dependency order
    and plugin lifecycle.
  \<^item> \<open>Degradation\<close>, \<open>Safety\<close>, \<open>Cost\<close>, \<open>Budget\<close>, \<open>Rate_Limit\<close>, \<open>Auto_Fix\<close> (\<open>degradation.py\<close>, \<open>safety.py\<close>,
    \<open>cost.py\<close>, \<open>budget.py\<close>, \<open>agent_runtime/budget_controller.py\<close>, \<open>auth.py\<close>, \<open>ratelimit.py\<close>, \<open>autofix.py\<close>):
    the policies around a run.
  \<^item> \<open>Runtime\<close> (\<open>runtime.py\<close>): the engine, which composes run manager, machines, event stores,
    hooks, remediation, budget and health checks. Its properties span those components: the
    locale \<open>engine_property\<close> states what transitions must keep, and each property of histories of
    the engine is an interpretation of it.
  \<^item> \<open>Task_Queue\<close>, \<open>Agent_Registry\<close>, \<open>Human_Loop\<close>, \<open>Coordinator\<close> (\<open>agent_runtime/\<close>): the queue with its
    own log, the nodes and their index, escalation and approval, and the coordinator with its
    scheduler and background loops, which composes them.
  \<^item> \<open>Raft_CRDT\<close>, \<open>Raft_Node\<close>, \<open>Raft_Hybrid\<close> (\<open>raft_consensus.py\<close>, \<open>raft_types.py\<close>, message builders of
    \<open>raft_transport.py\<close>): state merge, replicated log and votes, offline operation and messages.
  \<^item> \<open>Global_Memory\<close> (\<open>agent_runtime/global_memory.py\<close>): last-writer-wins registers with tombstones.
    Lemmas: merging a set of entries does not depend on order or repetition, an exchange
    converges exactly without ties, and a deletion is hidden from the writer of the key.
  \<^item> \<open>Supervisor\<close> (\<open>agent_runtime/supervisor.py\<close>): the worker pool of a node as an inductive step
    relation, one step per piece of a coroutine between two awaits. Lemmas: an invariant of all
    reachable states, what cancellation can and cannot reach, and that the pool has no bound.
  \<^item> \<open>Context\<close> (\<open>agent_runtime/context.py\<close>): the window of an agent's language model. Lemmas: the token
    count and its bound after any operations, what truncation drops, the size of the history.
  \<^item> \<open>Tool_Executor\<close> (\<open>agent_runtime/tool_executor.py\<close>): tools from plugins, calls with limits, chains
    and the cache. Lemmas: no tool stays busy, what the key success means, how chains pass values.
  \<^item> \<open>PyValue\<close>, \<open>Agent_Memory\<close>, \<open>Local_Memory\<close> (\<open>agent_runtime/memory.py\<close>): dynamic values, the bounded store with
    tags, and the table on disk. Lemmas: bounds of both tiers, eviction of the oldest entry, what a
    saved value is loaded as.
  \<^item> \<open>Worker\<close> (\<open>agent_runtime/worker.py\<close>, \<open>agent_base.py\<close>): the agent's loop, composed of \<open>Context\<close>,
    \<open>Agent_Memory\<close> and \<open>Tool_Executor\<close>; its locale \<open>loop_property\<close> states what the pieces of a step must
    keep. Lemmas: two runs whose tools return different results show the language model the same messages, how a run ends, the length of the trace.
  \<^item> \<open>Raft_Bridge\<close> (\<open>agent_runtime/coordinator_raft_bridge.py\<close>): the bridge composes \<open>Raft_Hybrid\<close> and
    \<open>Coordinator\<close>: the events of the Raft node start and stop the coordinator in coroutines that
    the event loop interleaves. Lemmas: what the Raft node reports, runs in which the coordinator
    follows the leader, and the interleavings and silent role changes that break it.
  \<^item> \<open>Product_Profile\<close>, \<open>Profile_Data\<close>, \<open>Profiles\<close> (\<open>profile.py\<close>, \<open>adapters/file_adapter.py\<close>, \<open>profiles/\<close>): the
    base of a product with its adapters, and the five products as data: their machines as the YAML
    values the parser reads, and their setup. \<open>Profiles\<close> composes them with parser, validation,
    \<open>SM_Runtime\<close>, \<open>Run_Manager\<close> and the overrides of \<open>Runtime\<close>. Lemmas: which machines load, which
    answers of a pause are refused, states that no run leaves, when a circuit opens.
  \<^item> \<open>Validators\<close> (\<open>validators.py\<close>): the cache of results with its two stores, time limits, the
    deterministic checks and the pipeline of three tiers, whose second tier runs tasks that end in the
    order of their instants. Lemmas: the pipeline decides as a specification without cache, time or
    order (an instance of the locale \<open>answer_memo\<close>), and the runs in which a remembered result
    changes the decision.
  \<^item> \<open>Registry\<close> (\<open>registry.py\<close>): sources of profiles over a file system as a value, resolution with its
    cache, registration and the graph of dependencies, whose recursion is bounded by the number of
    known names. Lemmas: which profile a resolution picks, that the bound is never reached, what
    registration does not refresh.
  \<^item> \<open>Migration\<close> (\<open>migration.py\<close>, \<open>SoftwareMigrationPlan\<close>): the chain of events between two profiles over
    the bus of \<open>Safety\<close>, run by an event loop, and the plans between versions of a machine. Lemmas: what a
    release delivers, when a plan succeeds with which states, and that the merge of replicas misses the renamed states.
  \<^item> \<open>Audit_Log\<close> (\<open>audit.py\<close>): the active file, numbered segments, queries, replay and compaction.
    Lemmas: any sequence of operations keeps exactly the recorded entries in their order (up to the
    thousandth segment), and the interleaving and the queries that lose entries.
  \<^item> \<open>Alerts\<close> (\<open>alert.py\<close>): payloads, deduplication, deliveries with a rate limit, and the receiver. Both
    limits interpret the locale \<open>throttled\<close>. Lemmas: the distance of posts and of repetitions, and the
    alerts that the two limits lose together.
  \<^item> \<open>LLM_Registry\<close> (\<open>llm_base.py\<close>, \<open>llm_registry.py\<close>): the registry of model providers. Lemmas: the
    default is always a registered provider, which provider answers a request, and that the default plays no part in it.
  \<^item> \<open>Elector\<close> (\<open>elector.py\<close>): election over etcd or Consul, which are a parameter with documented
    laws. Lemmas: at most one leader with Consul (runs as an inductive relation), no leader after a crash, and any number
    of them with etcd.
  \<^item> \<open>Distributed\<close> (\<open>distributed.py\<close>): the coordinator of runs on a hybrid node, over a store of run objects.
    Lemmas: what the log carries of a leader's runs, compared with a replica that applies it, and that a synchronization shares objects.
  \<^item> \<open>Warm_Agents\<close> (\<open>agent_coordinator.py\<close>): background tasks with their default handlers. Runs of a task
    interpret the locale \<open>throttled\<close>. Lemmas: the pace of the default tasks, bounds of the counters, and that the default
    tasks hide every failure.
  \<^item> \<open>Drift\<close> (\<open>aidetect.py\<close>): the drift detector. The collector interprets \<open>refinement_system\<close>: it
    keeps the last events. Further lemmas: no anomaly with fewer than six runs (a bound for samples), the range of the
    confidence, and which patterns emerge.
  \<^item> \<open>Skill_Forge\<close> (\<open>skillforge.py\<close>, \<open>check_emergence\<close> of \<open>runtime.py\<close>): skills from candidates. The depth of
    the interpreter's stack is the fuel of the draft. Lemmas: for every depth, when a draft is made, the counters, and that promotion is repeated and does not last.
  \<^bold>\<open>Termination.\<close> Every definition is total. Loops over lists are structural; the searches of
  graphs terminate because each step visits a new node or shortens the work list, which is proved
  with measures on the finite set of nodes. Fuel is used twice: the length of a string that a
  substitution walks through, and the depth of the interpreter's stack in \<open>Skill_Forge\<close>, whose end is an error of
  the program.

  \<^bold>\<open>Not modelled.\<close> Console, shell, server, dashboard and other presentation; sockets, threads,
  signals and sleeping; the text of log messages and statistics displays; JSON and YAML syntax
  (their values are modelled); provider plugins; analysis
  features without state of their own (prediction, recommendation); benchmarks, scripts and demos. The manifest lists each with
  its reason.
\<close>

end
